(* ===== verification/Prelude.thy ===== *)
theory Prelude
  imports Main "HOL-Library.AList" "HOL-Library.Word"
begin

text \<open>
  Shared vocabulary of the development: Python exceptions as values of one datatype, results as
  sums (\<open>Inl\<close> an exception, \<open>Inr\<close> a value), the decimal and hexadecimal rendering that the
  error messages and identifiers use, Python dictionaries as association lists in insertion
  order, and the lemmas on these that the components share.
\<close>

section \<open>Exceptions and results\<close>

text \<open>
  The exception classes the modelled code raises or catches. \<open>ModbusTimeoutError\<close>,
  \<open>ModbusProtocolError\<close> and \<open>ModbusExceptionResponse\<close> are subclasses of \<open>ModbusError\<close>, which like
  \<open>RegistryRevisionConflict\<close> is a subclass of \<open>RuntimeError\<close>, as are the errors of the durable spool, of
  the ingestion worker, of the delivery outbox, of the report backend, of the controlled send, of the alert
  repository and of the security package (\<open>LocalAccountLockedError\<close> carries the seconds to wait).
  \<open>RenderError\<close> and \<open>PasswordHashError\<close> are \<open>ValueError\<close>s; \<open>HTTPException\<close> is a response with its status and
  the code and message of its detail. \<open>DurableSpoolCapacityError\<close> and
  \<open>DurableSpoolConflictError\<close> are subclasses of \<open>DurableSpoolError\<close>; the node errors are subclasses of
  \<open>NodeDomainError\<close>, itself a \<open>ValueError\<close>; \<open>OperationalError\<close> and \<open>IntegrityError\<close> are classes of
  \<open>sqlite3\<close>. \<open>OtherError\<close> stands for any class no handler of the modelled code names.
\<close>

datatype exn =
    ValueError string
  | RuntimeError string
  | KeyError string
  | OverflowError string
  | OSError string
  | TermiosError string
  | OperationalError string
  | IntegrityError string
  | RegistryRevisionConflict string
  | DurableSpoolError string
  | DurableSpoolCapacityError string
  | DurableSpoolConflictError string
  | InvalidSpoolRecordError string
  | PostPersistProcessingError string
  | DeliveryOutboxError string
  | BackendError string bool
  | RenderError string
  | ControlledSendError string
  | AlertNotFoundError string
  | AlertRuleNotFoundError string
  | AlertConflictError string
  | AlertRuleConflictError string
  | PasswordHashError string
  | IdentityNotProvisionedError string
  | OrganizationMembershipNotFoundError string
  | LocalAccountExistsError string
  | LocalAccountNotFoundError string
  | LocalSessionInvalidError string
  | InvalidLocalCredentialsError string
  | InvalidLocalRefreshTokenError string
  | LocalAccountAccessError string
  | LocalUserNotFoundError string
  | LocalUserConflictError string
  | LastAdministratorError string
  | LocalUserValidationError string
  | LocalAccountLockedError string int
  | HTTPException int string string
  | NodeDomainError string
  | NodeTopicAuthorizationError string
  | NodeStateTransitionError string
  | ModbusTimeoutError string
  | ModbusProtocolError string
  | ModbusExceptionResponse int int int
  | OtherError string

type_synonym 'a result = "exn + 'a"

named_theorems result_simps

definition ebind :: "'e + 'a \<Rightarrow> ('a \<Rightarrow> 'e + 'b) \<Rightarrow> 'e + 'b" where
  "ebind m f = (case m of Inl e \<Rightarrow> Inl e | Inr a \<Rightarrow> f a)"

lemma ebind_Inl [simp]: "ebind (Inl e) f = Inl e"
  by (simp add: ebind_def)

lemma ebind_Inr [simp]: "ebind (Inr a) f = f a"
  by (simp add: ebind_def)

lemma ebind_eq_Inr: "ebind m f = Inr b \<longleftrightarrow> (\<exists>a. m = Inr a \<and> f a = Inr b)"
  by (cases m) auto

lemma ebind_eq_Inl: "ebind m f = Inl e \<longleftrightarrow> m = Inl e \<or> (\<exists>a. m = Inr a \<and> f a = Inl e)"
  by (cases m) auto

lemma ebind_cong [fundef_cong]:
  "m = m' \<Longrightarrow> (\<And>a. m' = Inr a \<Longrightarrow> f a = g a) \<Longrightarrow> ebind m f = ebind m' g"
  by (cases m') auto

text \<open>Running an operation over a list from left to right, stopping at the first exception.\<close>

fun emap :: "('a \<Rightarrow> 'e + 'b) \<Rightarrow> 'a list \<Rightarrow> 'e + 'b list" where
  "emap f [] = Inr []"
| "emap f (x # xs) = ebind (f x) (\<lambda>y. ebind (emap f xs) (\<lambda>ys. Inr (y # ys)))"

lemma emap_length: "emap f xs = Inr ys \<Longrightarrow> length ys = length xs"
  by (induction xs arbitrary: ys) (auto simp: ebind_eq_Inr)

lemma emap_Inr_map: "(\<And>x. x \<in> set xs \<Longrightarrow> f x = Inr (g x)) \<Longrightarrow> emap f xs = Inr (map g xs)"
  by (induction xs) auto

text \<open>A loop that threads a state, stopping at the first exception.\<close>

fun each_in :: "('a \<Rightarrow> 's \<Rightarrow> 'e + 's) \<Rightarrow> 'a list \<Rightarrow> 's \<Rightarrow> 'e + 's" where
  "each_in f [] s = Inr s"
| "each_in f (x # xs) s = ebind (f x s) (each_in f xs)"

lemma each_in_invariant:
  "each_in f xs s = Inr s' \<Longrightarrow> P s \<Longrightarrow> (\<And>x s s'. x \<in> set xs \<Longrightarrow> P s \<Longrightarrow> f x s = Inr s' \<Longrightarrow> P s') \<Longrightarrow> P s'"
proof (induction xs arbitrary: s)
  case (Cons x xs)
  from Cons.prems(1) obtain t where t: "f x s = Inr t" "each_in f xs t = Inr s'" by (auto simp: ebind_eq_Inr)
  with Cons.prems(2,3) have "P t" by (meson list.set_intros(1))
  with Cons.IH [OF t(2)] Cons.prems(3) show ?case by (meson list.set_intros(2))
qed simp

text \<open>The same loop over a mutable state: an exception keeps what the steps before it have done.\<close>

fun each_keep :: "('a \<Rightarrow> 's \<Rightarrow> 'e + 's) \<Rightarrow> 'a list \<Rightarrow> 's \<Rightarrow> ('e + unit) \<times> 's" where
  "each_keep f [] s = (Inr (), s)"
| "each_keep f (x # xs) s = (case f x s of Inl e \<Rightarrow> (Inl e, s) | Inr s1 \<Rightarrow> each_keep f xs s1)"

lemma each_keep_invariant:
  "each_keep f xs s = (r, s') \<Longrightarrow> P s \<Longrightarrow> (\<And>x s s'. x \<in> set xs \<Longrightarrow> P s \<Longrightarrow> f x s = Inr s' \<Longrightarrow> P s') \<Longrightarrow> P s'"
proof (induction xs arbitrary: s)
  case (Cons x xs)
  show ?case
  proof (cases "f x s")
    case (Inr t)
    with Cons.prems(2,3) have "P t" by (meson list.set_intros(1))
    with Cons.IH [of t] Cons.prems(1,3) Inr show ?thesis by (metis each_keep.simps(2) list.set_intros(2) sum.case(2))
  qed (use Cons.prems in simp)
qed simp

text \<open>What one step establishes for its element holds at the end, if the other steps keep it.\<close>

lemma each_in_effect:
  "each_in f xs s = Inr s' \<Longrightarrow> P s \<Longrightarrow> distinct xs \<Longrightarrow> y \<in> set xs
    \<Longrightarrow> (\<And>x s s'. x \<in> set xs \<Longrightarrow> P s \<Longrightarrow> f x s = Inr s' \<Longrightarrow> P s')
    \<Longrightarrow> (\<And>s s'. P s \<Longrightarrow> f y s = Inr s' \<Longrightarrow> Q s')
    \<Longrightarrow> (\<And>x s s'. x \<in> set xs \<Longrightarrow> x \<noteq> y \<Longrightarrow> P s \<Longrightarrow> Q s \<Longrightarrow> f x s = Inr s' \<Longrightarrow> Q s') \<Longrightarrow> Q s'"
proof (induction xs arbitrary: s)
  case (Cons x xs)
  from Cons.prems(1) obtain t where t: "f x s = Inr t" "each_in f xs t = Inr s'" by (auto simp: ebind_eq_Inr)
  have P: "P t" using Cons.prems(2,5) t(1) by (meson list.set_intros(1))
  have pres: "\<And>z u u'. z \<in> set xs \<Longrightarrow> P u \<Longrightarrow> f z u = Inr u' \<Longrightarrow> P u'"
    using Cons.prems(5) by (meson list.set_intros(2))
  show ?case
  proof (cases "x = y")
    case True
    with Cons.prems(2,6) t(1) have "Q t" by blast
    have "P s' \<and> Q s'"
    proof (rule each_in_invariant [OF t(2), of "\<lambda>u. P u \<and> Q u"])
      show "P t \<and> Q t" using P \<open>Q t\<close> by blast
      fix z u u' assume z: "z \<in> set xs" "P u \<and> Q u" "f z u = Inr u'"
      with Cons.prems(3) True have "z \<noteq> y" by auto
      with z Cons.prems(7) [of z u u'] pres [of z u u'] show "P u' \<and> Q u'" by simp
    qed
    then show ?thesis by blast
  next
    case False
    with Cons.prems(4) have y: "y \<in> set xs" by simp
    show ?thesis
      using Cons.prems(3,7) by (intro Cons.IH [OF t(2) P _ y pres Cons.prems(6)]) auto
  qed
qed simp

definition isOk :: "'e + 'a \<Rightarrow> bool" where
  "isOk r = (case r of Inl _ \<Rightarrow> False | Inr _ \<Rightarrow> True)"

lemma isOk_simps [simp]: "isOk (Inr a)" "\<not> isOk (Inl e)"
  by (simp_all add: isOk_def)

lemma isOk_iff: "isOk r \<longleftrightarrow> (\<exists>a. r = Inr a)"
  by (cases r) auto

text \<open>The class tests of the \<open>except\<close> clauses.\<close>

fun is_modbus_error :: "exn \<Rightarrow> bool" where
  "is_modbus_error (ModbusTimeoutError _) = True"
| "is_modbus_error (ModbusProtocolError _) = True"
| "is_modbus_error (ModbusExceptionResponse _ _ _) = True"
| "is_modbus_error _ = False"

fun is_runtime_error :: "exn \<Rightarrow> bool" where
  "is_runtime_error (RuntimeError _) = True"
| "is_runtime_error (RegistryRevisionConflict _) = True"
| "is_runtime_error (DurableSpoolError _) = True"
| "is_runtime_error (DurableSpoolCapacityError _) = True"
| "is_runtime_error (DurableSpoolConflictError _) = True"
| "is_runtime_error (InvalidSpoolRecordError _) = True"
| "is_runtime_error (PostPersistProcessingError _) = True"
| "is_runtime_error (DeliveryOutboxError _) = True"
| "is_runtime_error (BackendError _ _) = True"
| "is_runtime_error (ControlledSendError _) = True"
| "is_runtime_error (AlertNotFoundError _) = True"
| "is_runtime_error (AlertRuleNotFoundError _) = True"
| "is_runtime_error (AlertConflictError _) = True"
| "is_runtime_error (AlertRuleConflictError _) = True"
| "is_runtime_error (IdentityNotProvisionedError _) = True"
| "is_runtime_error (OrganizationMembershipNotFoundError _) = True"
| "is_runtime_error (LocalAccountExistsError _) = True"
| "is_runtime_error (LocalAccountNotFoundError _) = True"
| "is_runtime_error (LocalSessionInvalidError _) = True"
| "is_runtime_error (InvalidLocalCredentialsError _) = True"
| "is_runtime_error (InvalidLocalRefreshTokenError _) = True"
| "is_runtime_error (LocalAccountAccessError _) = True"
| "is_runtime_error (LocalUserNotFoundError _) = True"
| "is_runtime_error (LocalUserConflictError _) = True"
| "is_runtime_error (LastAdministratorError _) = True"
| "is_runtime_error (LocalUserValidationError _) = True"
| "is_runtime_error (LocalAccountLockedError _ _) = True"
| "is_runtime_error e = is_modbus_error e"

fun is_os_error :: "exn \<Rightarrow> bool" where
  "is_os_error (OSError _) = True"
| "is_os_error _ = False"

fun is_value_error :: "exn \<Rightarrow> bool" where
  "is_value_error (ValueError _) = True"
| "is_value_error (RenderError _) = True"
| "is_value_error (PasswordHashError _) = True"
| "is_value_error (NodeDomainError _) = True"
| "is_value_error (NodeTopicAuthorizationError _) = True"
| "is_value_error (NodeStateTransitionError _) = True"
| "is_value_error _ = False"

fun is_spool_error :: "exn \<Rightarrow> bool" where
  "is_spool_error (DurableSpoolError _) = True"
| "is_spool_error (DurableSpoolCapacityError _) = True"
| "is_spool_error (DurableSpoolConflictError _) = True"
| "is_spool_error _ = False"

section \<open>Rendering of integers\<close>

definition digit_char :: "nat \<Rightarrow> char" where
  "digit_char d = (if d < 10 then char_of (48 + d) else char_of (55 + d))"

fun digits_base :: "nat \<Rightarrow> nat \<Rightarrow> string" where
  "digits_base b n =
     (if n < b \<or> b < 2 then [digit_char n] else digits_base b (n div b) @ [digit_char (n mod b)])"

declare digits_base.simps [simp del]

text \<open>\<open>str(i)\<close>, \<open>f"{i:02d}"\<close> and \<open>f"{i:02X}"\<close> of the source.\<close>

definition dec :: "int \<Rightarrow> string" where
  "dec i = (if i < 0 then ''-'' @ digits_base 10 (nat (- i)) else digits_base 10 (nat i))"

definition pad2 :: "string \<Rightarrow> string" where
  "pad2 s = replicate (2 - length s) (CHR ''0'') @ s"

definition dec02 :: "int \<Rightarrow> string" where
  "dec02 i = (if i < 0 then dec i else pad2 (dec i))"

definition hex02 :: "int \<Rightarrow> string" where
  "hex02 i = (if i < 0 then ''-'' @ digits_base 16 (nat (- i)) else pad2 (digits_base 16 (nat i)))"

text \<open>\<open>str(exc)\<close>.\<close>

fun exn_str :: "exn \<Rightarrow> string" where
  "exn_str (ValueError m) = m"
| "exn_str (RuntimeError m) = m"
| "exn_str (KeyError m) = m"
| "exn_str (OverflowError m) = m"
| "exn_str (OSError m) = m"
| "exn_str (TermiosError m) = m"
| "exn_str (OperationalError m) = m"
| "exn_str (RegistryRevisionConflict m) = m"
| "exn_str (IntegrityError m) = m"
| "exn_str (DurableSpoolError m) = m"
| "exn_str (DurableSpoolCapacityError m) = m"
| "exn_str (DurableSpoolConflictError m) = m"
| "exn_str (InvalidSpoolRecordError m) = m"
| "exn_str (PostPersistProcessingError m) = m"
| "exn_str (DeliveryOutboxError m) = m"
| "exn_str (AlertNotFoundError m) = m"
| "exn_str (AlertRuleNotFoundError m) = m"
| "exn_str (AlertConflictError m) = m"
| "exn_str (AlertRuleConflictError m) = m"
| "exn_str (BackendError m r) = m"
| "exn_str (RenderError m) = m"
| "exn_str (ControlledSendError m) = m"
| "exn_str (PasswordHashError m) = m"
| "exn_str (IdentityNotProvisionedError m) = m"
| "exn_str (OrganizationMembershipNotFoundError m) = m"
| "exn_str (LocalAccountExistsError m) = m"
| "exn_str (LocalAccountNotFoundError m) = m"
| "exn_str (LocalSessionInvalidError m) = m"
| "exn_str (InvalidLocalCredentialsError m) = m"
| "exn_str (InvalidLocalRefreshTokenError m) = m"
| "exn_str (LocalAccountAccessError m) = m"
| "exn_str (LocalUserNotFoundError m) = m"
| "exn_str (LocalUserConflictError m) = m"
| "exn_str (LastAdministratorError m) = m"
| "exn_str (LocalUserValidationError m) = m"
| "exn_str (LocalAccountLockedError m r) = m"
| "exn_str (HTTPException status code m) = m"
| "exn_str (NodeDomainError m) = m"
| "exn_str (NodeTopicAuthorizationError m) = m"
| "exn_str (NodeStateTransitionError m) = m"
| "exn_str (ModbusTimeoutError m) = m"
| "exn_str (ModbusProtocolError m) = m"
| "exn_str (ModbusExceptionResponse u f c) =
     ''Modbus exception from unit '' @ dec u @ '': function=0x'' @ hex02 f @ '', code=0x'' @ hex02 c"
| "exn_str (OtherError m) = m"

subsection \<open>Decimal rendering is injective\<close>

fun undigits :: "nat \<Rightarrow> string \<Rightarrow> nat" where
  "undigits acc [] = acc"
| "undigits acc (c # cs) = undigits (10 * acc + (of_char c - 48)) cs"

lemma undigits_append: "undigits a (xs @ ys) = undigits (undigits a xs) ys"
  by (induction xs arbitrary: a) auto

lemma of_digit_char: "d < 10 \<Longrightarrow> of_char (digit_char d) = 48 + d"
  by (simp add: digit_char_def)

lemma undigits_digits: "undigits 0 (digits_base 10 n) = n"
proof (induction n rule: less_induct)
  case (less n)
  show ?case
  proof (cases "n < 10")
    case True
    then show ?thesis by (subst digits_base.simps) (simp add: of_digit_char)
  next
    case False
    with less show ?thesis
      by (subst digits_base.simps) (simp add: undigits_append of_digit_char)
  qed
qed

lemma set_digits_base:
  assumes "c \<in> set (digits_base 10 n)"
  shows "48 \<le> (of_char c :: nat) \<and> (of_char c :: nat) \<le> 57"
  using assms
proof (induction n rule: less_induct)
  case (less n)
  show ?case
  proof (cases "n < 10")
    case True
    with less.prems show ?thesis
      by (subst (asm) digits_base.simps) (simp add: of_digit_char)
  next
    case False
    with less.prems have "c \<in> set (digits_base 10 (n div 10)) \<or> c = digit_char (n mod 10)"
      by (subst (asm) digits_base.simps) auto
    with False less.IH [of "n div 10"] show ?thesis
      by (auto simp: of_digit_char)
  qed
qed

lemma digits_base_nonempty [simp]: "digits_base b n \<noteq> []"
  by (subst digits_base.simps) simp

lemma undigits_dec: "0 \<le> i \<Longrightarrow> undigits 0 (dec i) = nat i"
  by (simp add: dec_def undigits_digits)

lemma dec_inj:
  assumes "0 \<le> i" and "0 \<le> j" and "dec i = dec j"
  shows "i = j"
proof -
  have "nat i = nat j"
    using assms by (metis undigits_dec)
  with assms show ?thesis by simp
qed

lemma dec_no_dash: "0 \<le> i \<Longrightarrow> CHR ''-'' \<notin> set (dec i)"
  by (auto simp: dec_def dest!: set_digits_base)

text \<open>Two strings \<open>a-b\<close> agree only in both parts when the left parts hold no dash.\<close>

lemma split_at_sep:
  assumes "c \<notin> set a" and "c \<notin> set a'" and "a @ c # b = a' @ c # b'"
  shows "a = a' \<and> b = b'"
  using assms
proof (induction a arbitrary: a')
  case Nil
  then show ?case by (cases a') auto
next
  case (Cons x a)
  then show ?case by (cases a') auto
qed

lemma undigits_pad: "undigits 0 (pad2 s) = undigits 0 s"
proof -
  have "undigits 0 (replicate k (CHR ''0'') @ s) = undigits 0 s" for k
    by (induction k) auto
  then show ?thesis by (simp add: pad2_def)
qed

lemma undigits_dec02: "0 \<le> i \<Longrightarrow> undigits 0 (dec02 i) = nat i"
  by (simp add: dec02_def undigits_pad undigits_dec)

lemma dec02_inj:
  assumes "0 \<le> i" and "0 \<le> j" and "dec02 i = dec02 j"
  shows "i = j"
proof -
  have "nat i = nat j"
    using assms by (metis undigits_dec02)
  with assms show ?thesis by simp
qed

section \<open>Dictionaries\<close>

text \<open>
  A Python \<open>dict\<close> is an association list with distinct keys in insertion order: \<open>dset\<close> replaces
  a value in place or appends a new key, as \<open>d[k] = v\<close> does.
\<close>

type_synonym ('k, 'v) dict = "('k \<times> 'v) list"

abbreviation dget :: "('k, 'v) dict \<Rightarrow> 'k \<Rightarrow> 'v option" where
  "dget d k \<equiv> map_of d k"

abbreviation dset :: "'k \<Rightarrow> 'v \<Rightarrow> ('k, 'v) dict \<Rightarrow> ('k, 'v) dict" where
  "dset k v d \<equiv> AList.update k v d"

abbreviation dpop :: "'k \<Rightarrow> ('k, 'v) dict \<Rightarrow> ('k, 'v) dict" where
  "dpop k d \<equiv> AList.delete k d"

abbreviation dkeys :: "('k, 'v) dict \<Rightarrow> 'k list" where
  "dkeys d \<equiv> map fst d"

definition dget_or :: "('k, 'v) dict \<Rightarrow> 'k \<Rightarrow> 'v \<Rightarrow> 'v" where
  "dget_or d k x = (case dget d k of None \<Rightarrow> x | Some v \<Rightarrow> v)"

definition dict_ok :: "('k, 'v) dict \<Rightarrow> bool" where
  "dict_ok d = distinct (dkeys d)"

lemma dget_dset: "dget (dset k v d) k' = (if k' = k then Some v else dget d k')"
  by (simp add: AList.update_conv')

lemma dget_dpop: "dget (dpop k d) k' = (if k' = k then None else dget d k')"
  by (simp add: AList.delete_conv')

lemma dict_ok_Nil [simp]: "dict_ok []"
  by (simp add: dict_ok_def)

lemma dict_ok_dset [intro]: "dict_ok d \<Longrightarrow> dict_ok (dset k v d)"
  by (simp add: dict_ok_def AList.distinct_update)

lemma dict_ok_dpop [intro]: "dict_ok d \<Longrightarrow> dict_ok (dpop k d)"
  by (simp add: dict_ok_def AList.distinct_delete)

lemma dkeys_dset: "set (dkeys (dset k v d)) = insert k (set (dkeys d))"
  by (simp add: AList.dom_update flip: image_set)

lemma dget_mem: "dget d k = Some v \<Longrightarrow> (k, v) \<in> set d"
  by (rule map_of_SomeD)

lemma dict_mem_dget: "dict_ok d \<Longrightarrow> (k, v) \<in> set d \<Longrightarrow> dget d k = Some v"
  by (simp add: dict_ok_def)

lemma dget_key_in: "dget t n = Some x \<Longrightarrow> n \<in> set (dkeys t)"
  by (force dest: map_of_SomeD)

text \<open>The tables \<open>{item.key: item for item in ITEMS}\<close> of the source.\<close>

lemma dget_by_key:
  assumes "distinct (map f xs)"
  shows "dget (map (\<lambda>r. (f r, r)) xs) k = Some r \<longleftrightarrow> r \<in> set xs \<and> f r = k"
proof -
  have "map fst (map (\<lambda>r. (f r, r)) xs) = map f xs" by simp
  with assms have "distinct (map fst (map (\<lambda>r. (f r, r)) xs))" by (simp only:)
  from map_of_eq_Some_iff [OF this, of k r] show ?thesis by auto
qed

text \<open>A loop \<open>for item in items: d[item.key] = item\<close>, the values of a dictionary whose entries sit at their
  own key, and the first item with a key.\<close>

definition keyed :: "('v \<Rightarrow> 'k) \<Rightarrow> ('k, 'v) dict \<Rightarrow> bool" where
  "keyed f d = (\<forall>(k, v) \<in> set d. f v = k)"

abbreviation index_by :: "('v \<Rightarrow> 'k) \<Rightarrow> 'v list \<Rightarrow> ('k, 'v) dict" where
  "index_by f xs \<equiv> foldl (\<lambda>d x. dset (f x) x d) [] xs"

lemma keyed_Nil [simp]: "keyed f []"
  by (simp add: keyed_def)

lemma keyed_dset [intro]: "keyed f d \<Longrightarrow> f v = k \<Longrightarrow> keyed f (dset k v d)"
  by (induction d) (auto simp: keyed_def)

lemma keyed_dpop [intro]: "keyed f d \<Longrightarrow> keyed f (dpop k d)"
  by (auto simp: keyed_def AList.delete_eq)

lemma index_by_gen:
  "keyed f d \<and> dict_ok d \<Longrightarrow> keyed f (foldl (\<lambda>d x. dset (f x) x d) d xs) \<and> dict_ok (foldl (\<lambda>d x. dset (f x) x d) d xs)"
  by (induction xs arbitrary: d) auto

lemma index_by_ok [simp]: "keyed f (index_by f xs)" "dict_ok (index_by f xs)"
  using index_by_gen [of f "[]" xs] by simp_all

lemma dset_fresh: "k \<notin> set (dkeys d) \<Longrightarrow> dset k v d = d @ [(k, v)]"
  by (induction d) auto

lemma index_by_distinct:
  assumes "distinct (map f xs)"
  shows "index_by f xs = map (\<lambda>x. (f x, x)) xs"
proof -
  have "foldl (\<lambda>d x. dset (f x) x d) (map (\<lambda>x. (f x, x)) ys) zs = map (\<lambda>x. (f x, x)) (ys @ zs)"
    if "distinct (map f (ys @ zs))" for ys zs
    using that
  proof (induction zs arbitrary: ys)
    case (Cons z zs)
    have "dset (f z) z (map (\<lambda>x. (f x, x)) ys) = map (\<lambda>x. (f x, x)) (ys @ [z])"
      using Cons.prems by (subst dset_fresh) (auto simp: comp_def)
    then show ?case using Cons.IH [of "ys @ [z]"] Cons.prems by simp
  qed simp
  from this [of "[]" xs] assms show ?thesis by simp
qed

lemma find_by_key: "List.find (\<lambda>x. f x = k) xs = dget (map (\<lambda>x. (f x, x)) xs) k"
  by (induction xs) auto

lemma find_some: "List.find P xs = Some x \<Longrightarrow> x \<in> set xs \<and> P x"
  by (auto simp: find_Some_iff)

lemma find_values:
  assumes "keyed f d" and "dict_ok d" and "set ys = set (map snd d)" and "distinct (map f ys)"
  shows "List.find (\<lambda>x. f x = k) ys = dget d k"
proof -
  have "dget (map (\<lambda>x. (f x, x)) ys) k = Some r \<longleftrightarrow> dget d k = Some r" for r
  proof -
    have "dget d k = Some r \<longleftrightarrow> (k, r) \<in> set d"
      using assms(2) by (auto simp: dict_ok_def dest: map_of_SomeD)
    also have "\<dots> \<longleftrightarrow> r \<in> set ys \<and> f r = k" using assms(1,3) by (force simp: keyed_def)
    finally show ?thesis using dget_by_key [OF assms(4)] by blast
  qed
  then show ?thesis by (metis find_by_key not_Some_eq)
qed

lemma keyed_values:
  assumes "keyed f d"
  shows "map f (map snd d) = dkeys d"
  using assms by (induction d) (auto simp: keyed_def)

lemma dget_or_dset: "dget_or (dset k v d) k' x = (if k' = k then v else dget_or d k' x)"
  by (simp add: dget_or_def dget_dset)

section \<open>Bytes\<close>

type_synonym byte = "8 word"

text \<open>\<open>bytes(iterable)\<close> raises unless every integer is a byte.\<close>

definition py_bytes :: "int list \<Rightarrow> byte list result" where
  "py_bytes xs = (if \<forall>x \<in> set xs. 0 \<le> x \<and> x < 256
     then Inr (map word_of_int xs)
     else Inl (ValueError ''bytes must be in range(0, 256)''))"

definition in_word16 :: "int \<Rightarrow> bool" where
  "in_word16 x = (0 \<le> x \<and> x \<le> 0xFFFF)"

lemma uint_byte_of_int: "0 \<le> x \<Longrightarrow> x < 256 \<Longrightarrow> uint (word_of_int x :: byte) = x"
  by (simp add: uint_word_of_int)

section \<open>Tables\<close>

text \<open>
  A table of a database is the list of its rows in the order of insertion. An insert checks the keys that
  must not clash; an update rewrites the rows that match.
\<close>

definition insert_unique :: "string \<Rightarrow> ('a \<Rightarrow> 'a \<Rightarrow> bool) \<Rightarrow> 'a \<Rightarrow> 'a list \<Rightarrow> 'a list result" where
  "insert_unique table clash x xs = (if \<exists>y \<in> set xs. clash x y
     then Inl (IntegrityError (''UNIQUE constraint failed: '' @ table)) else Inr (xs @ [x]))"

definition update_where :: "('a \<Rightarrow> bool) \<Rightarrow> ('a \<Rightarrow> 'a) \<Rightarrow> 'a list \<Rightarrow> 'a list" where
  "update_where P f xs = map (\<lambda>x. if P x then f x else x) xs"

lemma insert_unique_Inr: "insert_unique n clash x xs = Inr ys \<longleftrightarrow> ys = xs @ [x] \<and> (\<forall>y \<in> set xs. \<not> clash x y)"
  by (auto simp: insert_unique_def)

lemma set_update_where: "set (update_where P f xs) = (\<lambda>x. if P x then f x else x) ` set xs"
  by (simp add: update_where_def)

lemma update_where_key: "(\<And>x. P x \<Longrightarrow> k (f x) = k x) \<Longrightarrow> map k (update_where P f xs) = map k xs"
  by (simp add: update_where_def)

lemma update_where_key_set: "(\<And>x. P x \<Longrightarrow> k (f x) = k x) \<Longrightarrow> k ` set (update_where P f xs) = k ` set xs"
  by (metis list.set_map update_where_key)

lemma length_update_where [simp]: "length (update_where P f xs) = length xs"
  by (simp add: update_where_def)

lemma find_update_where:
  "(\<And>x. x \<in> set xs \<Longrightarrow> Q (if P x then f x else x) = Q x) \<Longrightarrow>
   find Q (update_where P f xs) = map_option (\<lambda>x. if P x then f x else x) (find Q xs)"
  by (induction xs) (auto simp: update_where_def)

lemma find_unique:
  assumes "x \<in> set xs" and "P x" and "\<And>y. y \<in> set xs \<Longrightarrow> P y \<Longrightarrow> y = x"
  shows "find P xs = Some x"
proof (cases "find P xs")
  case None
  with assms(1,2) show ?thesis by (simp add: find_None_iff)
next
  case (Some y)
  then have "y \<in> set xs" "P y" by (auto simp: find_Some_iff)
  with Some assms(3) show ?thesis by simp
qed

lemma find_Some_in: "find P xs = Some x \<Longrightarrow> x \<in> set xs \<and> P x"
  by (auto simp: find_Some_iff)

lemma find_key:
  assumes "distinct (map k xs)" and "x \<in> set xs" and "k x = v"
  shows "find (\<lambda>y. k y = v) xs = Some x"
  using assms by (intro find_unique) (auto simp: distinct_map inj_on_def)

end
