(* ===== verification/ModbusFrame.thy ===== *)
theory ModbusFrame
  imports Prelude
begin

unbundle bit_operations_syntax

text \<open>
  Framing of \<open>services/device-agent/modbus_rtu.py\<close>: the CRC, the request builders and the strict
  response parser, over \<open>8 word\<close> bytes and Python integers. The reference side is the Modbus
  checksum as a 16-bit shift register (\<open>crc_reg\<close>) and the slave's encoding of a register answer
  (\<open>register_answer\<close>); the parser is shown to accept exactly those encodings.
\<close>

section \<open>The checksum\<close>

text \<open>The inner loop \<open>for _ in range(8)\<close>, the loop over the bytes, and \<open>crc16\<close> itself.\<close>

definition crc_bit :: "int \<Rightarrow> int" where
  "crc_bit crc = (if crc AND 1 \<noteq> 0 then (drop_bit 1 crc) XOR 0xA001 else drop_bit 1 crc)"

definition crc_byte :: "int \<Rightarrow> byte \<Rightarrow> int" where
  "crc_byte crc b = (crc_bit ^^ 8) (crc XOR uint b)"

definition crc16 :: "byte list \<Rightarrow> int" where
  "crc16 data = foldl crc_byte 0xFFFF data AND 0xFFFF"

definition append_crc :: "byte list \<Rightarrow> byte list result" where
  "append_crc payload = (let checksum = crc16 payload in
     ebind (py_bytes [checksum AND 0xFF, drop_bit 8 checksum]) (\<lambda>c. Inr (payload @ c)))"

section \<open>Requests\<close>

definition build_read_registers_request :: "int \<Rightarrow> int \<Rightarrow> int \<Rightarrow> int \<Rightarrow> byte list result" where
  "build_read_registers_request unit_id function address count =
     (if function \<notin> {0x03, 0x04} then
        Inl (ValueError (''Only Modbus read functions 03/04 are supported, got 0x'' @ hex02 function))
      else if \<not> (1 \<le> unit_id \<and> unit_id \<le> 247) then
        Inl (ValueError (''Modbus unit_id must be 1..247, got '' @ dec unit_id))
      else if \<not> (0 \<le> address \<and> address \<le> 0xFFFF) then
        Inl (ValueError (''Modbus address must be 0..65535, got '' @ dec address))
      else if \<not> (1 \<le> count \<and> count \<le> 125) then
        Inl (ValueError (''Modbus register count must be 1..125, got '' @ dec count))
      else if address + count - 1 > 0xFFFF then
        Inl (ValueError ''Modbus register range exceeds address 65535'')
      else ebind (py_bytes [unit_id, function, drop_bit 8 address, address AND 0xFF,
                            drop_bit 8 count, count AND 0xFF]) append_crc)"

definition build_read_holding_registers_request :: "int \<Rightarrow> int \<Rightarrow> int \<Rightarrow> byte list result" where
  "build_read_holding_registers_request unit_id address count =
     build_read_registers_request unit_id 0x03 address count"

definition build_read_input_registers_request :: "int \<Rightarrow> int \<Rightarrow> int \<Rightarrow> byte list result" where
  "build_read_input_registers_request unit_id address count =
     build_read_registers_request unit_id 0x04 address count"

definition build_read_holding_register_request :: "int \<Rightarrow> int \<Rightarrow> byte list result" where
  "build_read_holding_register_request unit_id address =
     build_read_holding_registers_request unit_id address 1"

definition build_read_input_register_request :: "int \<Rightarrow> int \<Rightarrow> byte list result" where
  "build_read_input_register_request unit_id address =
     build_read_input_registers_request unit_id address 1"

section \<open>Responses\<close>

text \<open>\<open>int.from_bytes\<close> of a two-byte slice in each byte order.\<close>

definition be16 :: "byte \<Rightarrow> byte \<Rightarrow> int" where
  "be16 hi lo = uint hi * 256 + uint lo"

definition le16 :: "byte \<Rightarrow> byte \<Rightarrow> int" where
  "le16 lo hi = uint hi * 256 + uint lo"

fun be_words :: "byte list \<Rightarrow> int list" where
  "be_words (hi # lo # bs) = be16 hi lo # be_words bs"
| "be_words _ = []"

text \<open>
  \<open>parse_read_registers_response\<close>. The length test admits \<open>5\<close> or \<open>2 * count + 5\<close> bytes, so the
  slices \<open>frame[:-2]\<close>, \<open>frame[-2:]\<close> and the indexed bytes exist in every later test. The register
  loop takes \<open>frame[offset : offset + 2]\<close> for \<open>offset\<close> from 3 in steps of two.
\<close>

definition parse_read_registers_response ::
    "byte list \<Rightarrow> int \<Rightarrow> int \<Rightarrow> int \<Rightarrow> int list result" where
  "parse_read_registers_response frame unit_id count function =
     (if \<not> (1 \<le> count \<and> count \<le> 125) then
        Inl (ValueError (''Modbus register count must be 1..125, got '' @ dec count))
      else
        let expected_byte_count = count * 2;
            expected_length = expected_byte_count + 5;
            n = length frame
        in
          if int n \<notin> {5, expected_length} then
            Inl (ModbusProtocolError (''Unexpected Modbus frame length: '' @ dec (int n)))
          else if crc16 (take (n - 2) frame) \<noteq> le16 (frame ! (n - 2)) (frame ! (n - 1)) then
            Inl (ModbusProtocolError ''Modbus response CRC mismatch'')
          else if uint (frame ! 0) \<noteq> unit_id then
            Inl (ModbusProtocolError (''Unexpected Modbus unit: expected '' @ dec unit_id
                   @ '', received '' @ dec (uint (frame ! 0))))
          else
            let response_function = uint (frame ! 1) in
              if response_function = function OR 0x80 then
                (if int n \<noteq> 5 then Inl (ModbusProtocolError ''Malformed Modbus exception response'')
                 else Inl (ModbusExceptionResponse unit_id function (uint (frame ! 2))))
              else if response_function \<noteq> function then
                Inl (ModbusProtocolError (''Unexpected Modbus function: 0x'' @ hex02 response_function))
              else if int n \<noteq> expected_length \<or> uint (frame ! 2) \<noteq> expected_byte_count then
                Inl (ModbusProtocolError (''Expected '' @ dec expected_byte_count
                       @ '' register-data bytes, received '' @ dec (uint (frame ! 2))))
              else Inr (be_words (take (nat expected_byte_count) (drop 3 frame))))"

definition parse_read_holding_registers_response :: "byte list \<Rightarrow> int \<Rightarrow> int \<Rightarrow> int list result" where
  "parse_read_holding_registers_response frame unit_id count =
     parse_read_registers_response frame unit_id count 0x03"

definition parse_read_input_registers_response :: "byte list \<Rightarrow> int \<Rightarrow> int \<Rightarrow> int list result" where
  "parse_read_input_registers_response frame unit_id count =
     parse_read_registers_response frame unit_id count 0x04"

text \<open>\<open>(...)[0]\<close> of a tuple that has \<open>count = 1\<close> elements; an empty one would raise.\<close>

definition first_register :: "int list \<Rightarrow> int result" where
  "first_register rs = (case rs of [] \<Rightarrow> Inl (OtherError ''tuple index out of range'') | r # _ \<Rightarrow> Inr r)"

definition parse_read_holding_register_response :: "byte list \<Rightarrow> int \<Rightarrow> int result" where
  "parse_read_holding_register_response frame unit_id =
     ebind (parse_read_holding_registers_response frame unit_id 1) first_register"

definition parse_read_input_register_response :: "byte list \<Rightarrow> int \<Rightarrow> int result" where
  "parse_read_input_register_response frame unit_id =
     ebind (parse_read_input_registers_response frame unit_id 1) first_register"

section \<open>The checksum as a 16-bit register\<close>

definition reg_bit :: "16 word \<Rightarrow> 16 word" where
  "reg_bit r = (if bit r 0 then drop_bit 1 r XOR 0xA001 else drop_bit 1 r)"

definition reg_byte :: "16 word \<Rightarrow> byte \<Rightarrow> 16 word" where
  "reg_byte r b = (reg_bit ^^ 8) (r XOR ucast b)"

definition crc_reg :: "byte list \<Rightarrow> 16 word" where
  "crc_reg = foldl reg_byte 0xFFFF"

lemma uint_take_bit16: "take_bit 16 (uint (r :: 16 word)) = uint r"
  using uint_lt2p [of r] by (intro take_bit_int_eq_self) simp_all

lemma crc_bit_reg: "crc_bit (uint r) = uint (reg_bit r)"
proof -
  have low: "(k AND 1 \<noteq> 0) = bit k 0" for k :: int
    unfolding and_one_eq bit_0 by presburger
  have "(uint r AND 1 \<noteq> 0) = bit r 0" unfolding low bit_uint_iff by simp
  moreover have "uint (drop_bit 1 r XOR (0xA001 :: 16 word)) = drop_bit 1 (uint r) XOR 0xA001"
    by (simp add: unsigned_xor_eq unsigned_drop_bit_eq uint_take_bit16)
  moreover have "uint (drop_bit 1 r) = drop_bit 1 (uint r)"
    by (simp add: unsigned_drop_bit_eq uint_take_bit16)
  ultimately show ?thesis by (simp add: crc_bit_def reg_bit_def)
qed

lemma crc_bits_reg: "(crc_bit ^^ k) (uint r) = uint ((reg_bit ^^ k) r)"
  by (induction k) (simp_all add: crc_bit_reg)

lemma uint_take_bit8: "take_bit 16 (uint (b :: byte)) = uint b"
  using uint_lt2p [of b] by (intro take_bit_int_eq_self) simp_all

lemma crc_byte_reg: "crc_byte (uint r) b = uint (reg_byte r b)"
proof -
  have "uint r XOR uint b = uint (r XOR (ucast b :: 16 word))"
    by (simp add: uint_xor unsigned_ucast_eq uint_take_bit8)
  then show ?thesis by (simp add: crc_byte_def reg_byte_def crc_bits_reg)
qed

lemma foldl_crc_reg: "foldl crc_byte (uint r) data = uint (foldl reg_byte r data)"
  by (induction data arbitrary: r) (simp_all add: crc_byte_reg)

text \<open>The source's unbounded-integer loop computes the 16-bit register, so its final mask is
  the identity.\<close>

theorem crc16_eq_register: "crc16 data = uint (crc_reg data)"
proof -
  have "foldl crc_byte 0xFFFF data = uint (crc_reg data)"
    using foldl_crc_reg [of "0xFFFF" data] by (simp add: crc_reg_def)
  moreover have "uint w AND 0xFFFF = uint w" for w :: "16 word"
    using take_bit_eq_mask [of 16 "uint w"] uint_lt2p [of w]
    by (simp add: mask_eq_exp_minus_1 take_bit_int_eq_self)
  ultimately show ?thesis by (simp add: crc16_def)
qed

lemma crc16_range: "0 \<le> crc16 data \<and> crc16 data < 2 ^ 16"
  using uint_lt2p [of "crc_reg data"] by (simp add: crc16_eq_register)

subsection \<open>The register is linear, and its step is a bijection\<close>

lemma reg_bit_xor: "reg_bit (a XOR b) = reg_bit a XOR reg_bit b"
  by (auto simp: reg_bit_def bit_xor_iff ac_simps drop_bit_xor)

lemma reg_bits_xor: "(reg_bit ^^ k) (a XOR b) = (reg_bit ^^ k) a XOR (reg_bit ^^ k) b"
  by (induction k) (simp_all add: reg_bit_xor)

lemma xor_eq_0_iff: "(a :: 16 word) XOR b = 0 \<longleftrightarrow> a = b"
  by (auto simp: bit_eq_iff bit_xor_iff)

lemma reg_bit_0_iff: "reg_bit r = 0 \<longleftrightarrow> r = 0"
proof
  assume z: "reg_bit r = 0"
  have top: "\<not> bit (drop_bit 1 r) 15" by (simp add: bit_drop_bit_eq impossible_bit)
  have "\<not> bit r 0"
  proof
    assume "bit r 0"
    then have "drop_bit 1 r = (0xA001 :: 16 word)" using z by (simp add: reg_bit_def xor_eq_0_iff)
    moreover have "bit (0xA001 :: 16 word) 15" by simp
    ultimately show False using top by simp
  qed
  then have d: "drop_bit 1 r = 0" using z by (simp add: reg_bit_def)
  show "r = 0"
  proof (rule bit_word_eqI)
    fix n assume "n < LENGTH(16)"
    show "bit r n = bit (0 :: 16 word) n"
    proof (cases n)
      case 0
      with \<open>\<not> bit r 0\<close> show ?thesis by simp
    next
      case (Suc m)
      have "bit (drop_bit 1 r) m = bit r (Suc m)" by (simp add: bit_drop_bit_eq)
      with d Suc show ?thesis by simp
    qed
  qed
qed (simp add: reg_bit_def)

lemma reg_bits_0_iff: "(reg_bit ^^ k) r = 0 \<longleftrightarrow> r = 0"
  by (induction k) (simp_all add: reg_bit_0_iff)

lemma xor_cancel: "(a :: 16 word) XOR x = b XOR x \<longleftrightarrow> a = b" "x XOR a = x XOR b \<longleftrightarrow> a = b"
  by (auto simp: bit_eq_iff bit_xor_iff)

lemma reg_bits_inj: "(reg_bit ^^ k) a = (reg_bit ^^ k) b \<longleftrightarrow> a = b"
  by (metis reg_bits_0_iff reg_bits_xor xor_eq_0_iff)

lemma reg_byte_inj_state: "reg_byte a x = reg_byte b x \<longleftrightarrow> a = b"
  by (simp add: reg_byte_def reg_bits_inj xor_cancel)

lemma ucast_byte_inj: "(ucast (x :: byte) :: 16 word) = ucast y \<longleftrightarrow> x = y"
proof
  assume "(ucast x :: 16 word) = ucast y"
  then have "uint (ucast x :: 16 word) = uint (ucast y :: 16 word)" by simp
  then show "x = y" by (simp add: unsigned_ucast_eq uint_take_bit8 word_uint_eq_iff)
qed simp

lemma reg_byte_inj_byte: "reg_byte a x = reg_byte a y \<longleftrightarrow> x = y"
  by (simp add: reg_byte_def reg_bits_inj xor_cancel ucast_byte_inj)

lemma foldl_reg_inj: "foldl reg_byte a xs = foldl reg_byte b xs \<longleftrightarrow> a = b"
  by (induction xs arbitrary: a b) (simp_all add: reg_byte_inj_state)

text \<open>Changing one byte of a message always changes its checksum.\<close>

theorem crc16_detects_byte_change:
  "x \<noteq> y \<Longrightarrow> crc16 (xs @ x # ys) \<noteq> crc16 (xs @ y # ys)"
  by (simp add: crc16_eq_register crc_reg_def foldl_reg_inj reg_byte_inj_byte flip: word_uint_eq_iff)

section \<open>Requests are six bytes and a checksum\<close>

lemma and_255: "(x::int) AND 255 = x mod 256"
  using take_bit_eq_mask [of 8 x] by (simp add: mask_eq_exp_minus_1 take_bit_eq_mod)

lemma byte_split16:
  fixes x :: int
  assumes "0 \<le> x" and "x < 2 ^ 16"
  shows "0 \<le> drop_bit 8 x \<and> drop_bit 8 x < 256" and "0 \<le> x AND 0xFF \<and> x AND 0xFF < 256"
    and "drop_bit 8 x * 256 + (x AND 0xFF) = x"
proof -
  have m: "x AND 0xFF = x mod 256" by (rule and_255)
  have d: "drop_bit 8 x = x div 256" by (simp add: drop_bit_eq_div)
  show "0 \<le> drop_bit 8 x \<and> drop_bit 8 x < 256" using assms by (auto simp: d)
  show "0 \<le> x AND 0xFF \<and> x AND 0xFF < 256" by (simp add: m)
  show "drop_bit 8 x * 256 + (x AND 0xFF) = x" by (simp add: m d)
qed

definition crc_bytes :: "byte list \<Rightarrow> byte list" where
  "crc_bytes p = [word_of_int (crc16 p AND 0xFF), word_of_int (drop_bit 8 (crc16 p))]"

lemma append_crc_ok: "append_crc p = Inr (p @ crc_bytes p)"
  using byte_split16 [of "crc16 p"] crc16_range [of p]
  by (simp add: append_crc_def py_bytes_def crc_bytes_def Let_def)

lemma crc_bytes_value: "le16 (crc_bytes p ! 0) (crc_bytes p ! 1) = crc16 p"
  using byte_split16 [of "crc16 p"] crc16_range [of p]
  by (simp add: le16_def crc_bytes_def uint_byte_of_int)

lemma length_crc_bytes [simp]: "length (crc_bytes p) = 2"
  by (simp add: crc_bytes_def)

text \<open>\<open>request_frame\<close> is the layout of a request: unit, function, big-endian address and count, and
  the checksum with its low byte first.\<close>

definition request_frame :: "int \<Rightarrow> int \<Rightarrow> int \<Rightarrow> int \<Rightarrow> byte list" where
  "request_frame unit_id function address count =
     (let p = map word_of_int [unit_id, function, address div 256, address mod 256,
                               count div 256, count mod 256]
      in p @ crc_bytes p)"

definition request_valid :: "int \<Rightarrow> int \<Rightarrow> int \<Rightarrow> int \<Rightarrow> bool" where
  "request_valid unit_id function address count =
     (function \<in> {3, 4} \<and> 1 \<le> unit_id \<and> unit_id \<le> 247 \<and> 0 \<le> address \<and> 1 \<le> count \<and> count \<le> 125
      \<and> address + count - 1 \<le> 0xFFFF)"

lemma build_request_ok:
  assumes "request_valid u f a c"
  shows "build_read_registers_request u f a c = Inr (request_frame u f a c)"
proof -
  from assms have r: "f \<in> {3, 4}" "1 \<le> u" "u \<le> 247" "0 \<le> a" "a \<le> 65535" "1 \<le> c" "c \<le> 125"
      "a + c - 1 \<le> 65535"
    by (auto simp: request_valid_def)
  have "py_bytes [u, f, drop_bit 8 a, a AND 0xFF, drop_bit 8 c, c AND 0xFF]
      = Inr (map word_of_int [u, f, a div 256, a mod 256, c div 256, c mod 256])"
    using r by (auto simp: py_bytes_def and_255 drop_bit_eq_div)
  with r show ?thesis
    by (simp add: build_read_registers_request_def append_crc_ok request_frame_def Let_def)
qed

lemma build_request_error:
  assumes "\<not> request_valid u f a c"
  shows "\<exists>m. build_read_registers_request u f a c = Inl (ValueError m)"
  using assms by (auto simp: build_read_registers_request_def request_valid_def)

text \<open>A built request is eight bytes, carries function 3 or 4 and no other, and its bytes read back
  as the arguments.\<close>

lemma request_frame_fields:
  assumes "request_valid u f a c"
  shows "length (request_frame u f a c) = 8"
    and "uint (request_frame u f a c ! 0) = u"
    and "uint (request_frame u f a c ! 1) = f"
    and "be16 (request_frame u f a c ! 2) (request_frame u f a c ! 3) = a"
    and "be16 (request_frame u f a c ! 4) (request_frame u f a c ! 5) = c"
  using assms
  by (auto simp: request_frame_def request_valid_def Let_def be16_def uint_byte_of_int
      nth_append)

section \<open>The parser accepts exactly the well-formed answers\<close>

fun be_bytes :: "int list \<Rightarrow> byte list" where
  "be_bytes [] = []"
| "be_bytes (r # rs) = word_of_int (r div 256) # word_of_int (r mod 256) # be_bytes rs"

definition register_answer :: "int \<Rightarrow> int \<Rightarrow> int list \<Rightarrow> byte list" where
  "register_answer unit_id function regs =
     (let p = word_of_int unit_id # word_of_int function # word_of_int (2 * int (length regs))
              # be_bytes regs
      in p @ crc_bytes p)"

lemma length_be_bytes [simp]: "length (be_bytes rs) = 2 * length rs"
  by (induction rs) auto

lemma be_words_bytes: "\<forall>r \<in> set rs. in_word16 r \<Longrightarrow> be_words (be_bytes rs) = rs"
proof (induction rs)
  case Nil
  then show ?case by simp
next
  case (Cons r rs)
  then have "0 \<le> r" "r < 65536" by (auto simp: in_word16_def)
  then have "be16 (word_of_int (r div 256)) (word_of_int (r mod 256)) = r"
    by (simp add: be16_def uint_byte_of_int)
  with Cons show ?case by simp
qed

lemma be16_range: "in_word16 (be16 hi lo)"
  using uint_lt2p [of hi] uint_lt2p [of lo] by (simp add: in_word16_def be16_def)

lemma be_words_range: "r \<in> set (be_words bs) \<Longrightarrow> in_word16 r"
  by (induction bs rule: be_words.induct) (auto simp: be16_range)

lemma length_be_words: "length (be_words bs) = length bs div 2"
  by (induction bs rule: be_words.induct) auto

lemma word_be16:
  "word_of_int (be16 hi lo div 256) = hi" "word_of_int (be16 hi lo mod 256) = lo"
proof -
  have "be16 hi lo div 256 = uint hi" "be16 hi lo mod 256 = uint lo"
    using uint_lt2p [of lo] by (simp_all add: be16_def)
  then show "word_of_int (be16 hi lo div 256) = hi" "word_of_int (be16 hi lo mod 256) = lo"
    by simp_all
qed

lemma be_bytes_words: "even (length bs) \<Longrightarrow> be_bytes (be_words bs) = bs"
  by (induction bs rule: be_words.induct) (auto simp: word_be16)

text \<open>Only the two checksum bytes of a prefix are its checksum.\<close>

lemma le16_inj: "le16 a b = le16 c d \<Longrightarrow> a = c \<and> b = d"
proof -
  assume "le16 a b = le16 c d"
  then have "be16 b a = be16 d c" by (simp add: le16_def be16_def)
  then show ?thesis by (metis word_be16)
qed

lemma crc_bytes_unique:
  assumes "crc16 p = le16 a b"
  shows "[a, b] = crc_bytes p"
proof -
  have "crc_bytes p = [crc_bytes p ! 0, crc_bytes p ! 1]" by (simp add: crc_bytes_def)
  with crc_bytes_value [of p] assms le16_inj show ?thesis by metis
qed

lemma register_answer_length: "length (register_answer u f rs) = 2 * length rs + 5"
  by (simp add: register_answer_def Let_def)

lemma frame_split:
  assumes "length xs = k + 5"
  shows "take (k + 3) xs = xs ! 0 # xs ! 1 # xs ! 2 # take k (drop 3 xs)"
    and "drop (k + 3) xs = [xs ! (k + 3), xs ! (k + 4)]"
proof -
  have "take 3 xs = [xs ! 0, xs ! 1, xs ! 2]"
    using assms by (simp add: take_Suc_conv_app_nth numeral_3_eq_3 numeral_2_eq_2)
  moreover have "take (3 + k) xs = take 3 xs @ take k (drop 3 xs)" by (rule take_add)
  ultimately show "take (k + 3) xs = xs ! 0 # xs ! 1 # xs ! 2 # take k (drop 3 xs)"
    by (simp add: add.commute)
  show "drop (k + 3) xs = [xs ! (k + 3), xs ! (k + 4)]"
    using assms Cons_nth_drop_Suc [of "k + 3" xs] Cons_nth_drop_Suc [of "k + 4" xs]
    by (simp add: add.commute)
qed

text \<open>Soundness: an accepted frame is the encoding of the returned registers.\<close>

lemma parse_sound:
  assumes "parse_read_registers_response frame u c f = Inr regs"
  shows "frame = register_answer u f regs \<and> int (length regs) = c \<and> (\<forall>r \<in> set regs. in_word16 r)"
proof -
  define n where "n = length frame"
  from assms have c: "1 \<le> c" "c \<le> 125" and n: "int n = c * 2 + 5"
    and crc: "crc16 (take (n - 2) frame) = le16 (frame ! (n - 2)) (frame ! (n - 1))"
    and u: "uint (frame ! 0) = u" and f: "uint (frame ! 1) = f" and bc: "uint (frame ! 2) = c * 2"
    and regs: "regs = be_words (take (nat (c * 2)) (drop 3 frame))"
    by (auto simp: parse_read_registers_response_def Let_def n_def split: if_splits)
  define k where "k = nat (c * 2)"
  have k: "n = k + 5" "even k" "int k = c * 2" using n c by (auto simp: k_def even_nat_iff)
  define body where "body = take k (drop 3 frame)"
  have lb: "length body = k" using k by (simp add: body_def n_def)
  have rb: "regs = be_words body" using regs by (simp add: body_def k_def)
  have lr: "2 * length regs = k" using lb k by (simp add: rb length_be_words)
  have bb: "be_bytes regs = body" unfolding rb using lb k by (intro be_bytes_words) simp
  define p where "p = frame ! 0 # frame ! 1 # frame ! 2 # body"
  note fs = frame_split [of frame k, folded n_def, OF k(1)]
  have n2: "n - 2 = k + 3" and n1: "n - 1 = k + 4" using k(1) by simp_all
  have tp: "take (k + 3) frame = p" unfolding fs(1) p_def body_def ..
  have "[frame ! (k + 3), frame ! (k + 4)] = crc_bytes p"
    using crc unfolding n1 n2 tp by (rule crc_bytes_unique)
  then have "drop (k + 3) frame = crc_bytes p" unfolding fs(2) .
  with tp have "frame = p @ crc_bytes p" by (metis append_take_drop_id)
  moreover have "p = word_of_int u # word_of_int f # word_of_int (2 * int (length regs)) # be_bytes regs"
  proof -
    have "2 * int (length regs) = uint (frame ! 2)" using bc lr k(3) by linarith
    then have "frame ! 2 = word_of_int (2 * int (length regs))" by (simp only: word_of_int_uint)
    moreover have "frame ! 0 = word_of_int u" "frame ! 1 = word_of_int f"
      unfolding u [symmetric] f [symmetric] by simp_all
    ultimately show ?thesis by (simp only: p_def bb)
  qed
  ultimately have "frame = register_answer u f regs" by (simp add: register_answer_def Let_def)
  moreover have "int (length regs) = c" using lr k(3) by linarith
  ultimately show ?thesis using be_words_range by (auto simp: rb)
qed

lemma parse_complete:
  assumes u: "0 \<le> u" "u < 256" and f: "0 \<le> f" "f < 256" "f \<noteq> f OR 0x80"
    and len: "1 \<le> length regs" "length regs \<le> 125" and r: "\<forall>r \<in> set regs. in_word16 r"
  shows "parse_read_registers_response (register_answer u f regs) u (int (length regs)) f = Inr regs"
proof -
  define p where "p = word_of_int u # word_of_int f # word_of_int (2 * int (length regs)) # be_bytes regs"
  define n where "n = length regs"
  have fr: "register_answer u f regs = p @ crc_bytes p"
    by (simp add: register_answer_def p_def Let_def)
  have lp: "length p = 2 * n + 3" by (simp add: p_def n_def)
  have crc: "le16 ((p @ crc_bytes p) ! (2 * n + 3)) ((p @ crc_bytes p) ! (2 * n + 4)) = crc16 p"
    using crc_bytes_value [of p] lp by (simp add: nth_append)
  have b: "uint ((p @ crc_bytes p) ! 0) = u" "uint ((p @ crc_bytes p) ! Suc 0) = f"
    using u f by (simp_all add: p_def uint_byte_of_int)
  have "(p @ crc_bytes p) ! 2 = word_of_int (2 * int n)" by (simp add: p_def n_def)
  then have b2: "uint ((p @ crc_bytes p) ! 2) = 2 * int n"
    using len uint_byte_of_int [of "2 * int n"] by (simp add: n_def)
  have body: "take (2 * n) (drop 3 (p @ crc_bytes p)) = be_bytes regs"
    by (simp add: p_def n_def)
  show ?thesis
    unfolding parse_read_registers_response_def fr Let_def
    using len f(3) crc b b2 body be_words_bytes [OF r] lp
    by (simp add: n_def nat_mult_distrib algebra_simps)
qed

text \<open>
  The parser is exactly the inverse of the slave's encoding: for a register count in the protocol's
  range it returns \<open>regs\<close> on the frames that encode \<open>count\<close> register words for this unit and
  function, and on no other frame.
\<close>

lemma parse_iff:
  assumes "0 \<le> u" "u < 256" "f \<in> {3, 4}" "1 \<le> c" "c \<le> 125"
  shows "parse_read_registers_response frame u c f = Inr regs \<longleftrightarrow>
    frame = register_answer u f regs \<and> int (length regs) = c \<and> (\<forall>r \<in> set regs. in_word16 r)"
proof
  assume "frame = register_answer u f regs \<and> int (length regs) = c \<and> (\<forall>r \<in> set regs. in_word16 r)"
  moreover have "f \<noteq> f OR 0x80" using assms(3) by auto
  ultimately show "parse_read_registers_response frame u c f = Inr regs"
    using parse_complete [of u f regs] assms by auto
qed (rule parse_sound)

section \<open>Bursts of two bytes are detected\<close>

lemma drop_push_byte:
  assumes "j \<le> 7"
  shows "drop_bit 1 (push_bit (Suc j) (ucast (b :: byte) :: 16 word)) = push_bit j (ucast b)"
proof (rule bit_word_eqI)
  fix n assume n: "n < LENGTH(16)"
  have small: "bit (ucast b :: 16 word) m \<Longrightarrow> m < 8" for m
    by (auto simp: bit_ucast_iff dest: bit_imp_le_length)
  show "bit (drop_bit 1 (push_bit (Suc j) (ucast b :: 16 word))) n = bit (push_bit j (ucast b :: 16 word)) n"
    unfolding bit_drop_bit_eq bit_push_bit_iff o_def
    using n assms small [of "n - j"] by auto
qed

lemma reg_bits_shift:
  "k \<le> 8 \<Longrightarrow> (reg_bit ^^ k) (push_bit 8 (ucast (b :: byte) :: 16 word)) = push_bit (8 - k) (ucast b)"
proof (induction k)
  case 0
  then show ?case by simp
next
  case (Suc k)
  define j where "j = 7 - k"
  have j: "8 - k = Suc j" "8 - Suc k = j" using Suc.prems by (simp_all add: j_def)
  have even: "\<not> bit (push_bit (Suc j) (ucast b :: 16 word)) 0"
    unfolding bit_push_bit_iff by simp
  have "drop_bit 1 (push_bit (Suc j) (ucast b :: 16 word)) = push_bit j (ucast b)"
    using Suc.prems by (intro drop_push_byte) (simp add: j_def)
  with Suc j even show ?case by (simp add: reg_bit_def)
qed

lemma reg_two_bytes:
  "reg_byte (reg_byte r a) b = (reg_bit ^^ 16) (r XOR ucast a XOR push_bit 8 (ucast b))"
proof -
  have "(reg_bit ^^ 8) (push_bit 8 (ucast b :: 16 word)) = ucast b"
    using reg_bits_shift [of 8 b] by simp
  then have "(reg_bit ^^ 8) (r XOR ucast a) XOR ucast b
      = (reg_bit ^^ 8) (r XOR ucast a XOR push_bit 8 (ucast b))"
    by (simp add: reg_bits_xor xor.assoc)
  moreover have "(reg_bit ^^ 8) ((reg_bit ^^ 8) x) = (reg_bit ^^ 16) x" for x
    using funpow_add [of 8 8 reg_bit] by (simp add: fun_eq_iff)
  ultimately show ?thesis by (simp add: reg_byte_def)
qed

lemma two_bytes_inj:
  assumes "(ucast (a :: byte) :: 16 word) XOR push_bit 8 (ucast (b :: byte))
      = ucast (a' :: byte) XOR push_bit 8 (ucast (b' :: byte))"
  shows "a = a' \<and> b = b'"
proof -
  have h: "bit ((ucast a :: 16 word) XOR push_bit 8 (ucast b)) n
      = bit ((ucast a' :: 16 word) XOR push_bit 8 (ucast b')) n" for n
    using assms by simp
  have "bit a n = bit a' n" if "n < 8" for n
    using h [of n] that by (simp add: bit_xor_iff bit_push_bit_iff bit_ucast_iff)
  moreover have "bit b n = bit b' n" if "n < 8" for n
    using h [of "n + 8"] that by (auto simp: bit_xor_iff bit_push_bit_iff bit_ucast_iff impossible_bit)
  ultimately show ?thesis by (auto intro!: bit_word_eqI)
qed

lemma reg_two_bytes_inj:
  assumes "reg_byte (reg_byte r a) b = reg_byte (reg_byte r a') b'"
  shows "a = a' \<and> b = b'"
proof -
  have "r XOR (ucast a XOR push_bit 8 (ucast b)) = r XOR (ucast a' XOR push_bit 8 (ucast b'))"
    using assms by (simp add: reg_two_bytes reg_bits_inj xor.assoc)
  then show ?thesis by (intro two_bytes_inj) (simp only: xor_cancel)
qed

lemma crc16_burst:
  "[a, b] \<noteq> [a', b'] \<Longrightarrow> crc16 (xs @ a # b # ys) \<noteq> crc16 (xs @ a' # b' # ys)"
  using reg_two_bytes_inj [of "foldl reg_byte 0xFFFF xs" a b a' b']
  by (auto simp: crc16_eq_register crc_reg_def foldl_reg_inj simp flip: word_uint_eq_iff)

lemma crc_bytes_reg:
  "ucast (crc_bytes p ! 0) XOR push_bit 8 (ucast (crc_bytes p ! 1)) = crc_reg p"
proof (rule bit_word_eqI)
  fix n assume n: "n < LENGTH(16)"
  have lo: "bit (crc_bytes p ! 0) i = bit (crc_reg p) i" if "i < 8" for i
  proof -
    have "crc_bytes p ! 0 = word_of_int (take_bit 8 (uint (crc_reg p)))"
      using and_255 [of "uint (crc_reg p)"]
      by (simp add: crc_bytes_def crc16_eq_register take_bit_eq_mod)
    with that show ?thesis by (simp add: bit_word_of_int_iff bit_take_bit_iff bit_uint_iff)
  qed
  have hi: "bit (crc_bytes p ! 1) i = bit (crc_reg p) (i + 8)" if "i < 8" for i
    using that
    by (simp add: crc_bytes_def crc16_eq_register bit_word_of_int_iff bit_drop_bit_eq bit_uint_iff
        add.commute)
  show "bit (ucast (crc_bytes p ! 0) XOR push_bit 8 (ucast (crc_bytes p ! 1)) :: 16 word) n
      = bit (crc_reg p) n"
  proof (cases "n < 8")
    case True
    then show ?thesis by (simp add: bit_xor_iff bit_push_bit_iff bit_ucast_iff lo)
  next
    case False
    with n show ?thesis
      using hi [of "n - 8"]
      by (auto simp: bit_xor_iff bit_push_bit_iff bit_ucast_iff impossible_bit)
  qed
qed

text \<open>A frame that carries its checksum has residue zero.\<close>

lemma crc16_residue: "crc16 (p @ crc_bytes p) = 0"
proof -
  have "crc_bytes p = [crc_bytes p ! 0, crc_bytes p ! 1]" by (simp add: crc_bytes_def)
  then have "crc_reg (p @ crc_bytes p) = reg_byte (reg_byte (crc_reg p) (crc_bytes p ! 0)) (crc_bytes p ! 1)"
    by (metis crc_reg_def foldl_Cons foldl_Nil foldl_append)
  also have "\<dots> = (reg_bit ^^ 16) 0"
    unfolding reg_two_bytes using crc_bytes_reg [of p] by (simp add: xor.assoc)
  also have "\<dots> = 0" by (simp only: reg_bits_0_iff)
  finally show ?thesis by (simp add: crc16_eq_register)
qed

lemma register_answer_residue: "crc16 (register_answer u f regs) = 0"
  by (simp add: register_answer_def Let_def crc16_residue del: append.simps)

section \<open>Properties\<close>

text \<open>A request is eight bytes. For arguments inside the protocol's limits the builder returns the
  six-byte header and its checksum, and the header reads back as the arguments; for any other
  arguments it raises \<open>ValueError\<close> and builds nothing.\<close>

theorem build_request_spec:
  "case build_read_registers_request u f a c of
     Inr fr \<Rightarrow> request_valid u f a c \<and> length fr = 8 \<and> uint (fr ! 0) = u \<and> uint (fr ! 1) = f
       \<and> be16 (fr ! 2) (fr ! 3) = a \<and> be16 (fr ! 4) (fr ! 5) = c \<and> crc16 fr = 0
   | Inl e \<Rightarrow> \<not> request_valid u f a c \<and> is_value_error e"
proof (cases "request_valid u f a c")
  case True
  have "crc16 (request_frame u f a c) = 0"
    unfolding request_frame_def Let_def by (rule crc16_residue)
  with True show ?thesis using request_frame_fields [OF True] by (simp add: build_request_ok)
next
  case False
  with build_request_error [OF False] show ?thesis by auto
qed

text \<open>C24: The parser is the inverse of the slave's encoding. For a register count inside the protocol's
  range it returns \<open>regs\<close> on exactly the one frame that encodes them for this unit and function,
  checksum included, and raises on every other frame.\<close>

theorem parse_response_iff:
  assumes "0 \<le> u" "u < 256" "f \<in> {3, 4}" "1 \<le> c" "c \<le> 125"
  shows "parse_read_registers_response frame u c f = Inr regs \<longleftrightarrow>
    frame = register_answer u f regs \<and> int (length regs) = c \<and> (\<forall>r \<in> set regs. in_word16 r)"
  using assms by (rule parse_iff)

theorem parse_response_iff_witness:
  "parse_read_registers_response (register_answer 1 3 [215, 65535]) 1 2 3 = Inr [215, 65535]"
  by (subst parse_response_iff) (simp_all add: in_word16_def)

text \<open>A corrupted answer is never read as data. A frame that differs from a correct answer in one or
  two adjacent bytes, those of the checksum included, is not accepted, whatever unit, count and
  function the parser expects.\<close>

theorem parse_rejects_burst:
  assumes "register_answer u f regs = xs @ a # b # ys" and "[a, b] \<noteq> [a', b']"
  shows "parse_read_registers_response (xs @ a' # b' # ys) u' c f' \<noteq> Inr regs'"
proof
  assume "parse_read_registers_response (xs @ a' # b' # ys) u' c f' = Inr regs'"
  then have "xs @ a' # b' # ys = register_answer u' f' regs'" using parse_sound by blast
  then have "crc16 (xs @ a' # b' # ys) = 0" by (simp only: register_answer_residue)
  moreover have "crc16 (xs @ a # b # ys) = 0"
    unfolding assms(1) [symmetric] by (rule register_answer_residue)
  ultimately show False using crc16_burst [OF assms(2), of xs ys] by simp
qed

theorem parse_rejects_burst_witness:
  "\<exists>a b xs ys. register_answer 1 3 [215] = xs @ a # b # ys \<and> a \<noteq> 0
     \<and> parse_read_registers_response (xs @ 0 # b # ys) 1 1 3 \<noteq> Inr [215]"
proof -
  obtain xs ys and a b :: byte where s: "register_answer 1 3 [215] = xs @ a # b # ys" "a \<noteq> 0"
    by (rule that [of "[]" 1 3 "tl (tl (register_answer 1 3 [215]))"])
      (simp_all add: register_answer_def Let_def)
  from s(2) have "[a, b] \<noteq> [0, b]" by simp
  from parse_rejects_burst [OF s(1) this, of 1 1 3 "[215]"] s show ?thesis by blast
qed

text \<open>C25: The checksum loop over Python's unbounded integers computes the 16-bit shift register of the
  Modbus polynomial; its last mask changes nothing.\<close>

theorem crc16_is_register: "crc16 data = uint (crc_reg data) \<and> foldl crc_byte 0xFFFF data = crc16 data"
  using foldl_crc_reg [of "0xFFFF" data] by (simp add: crc16_eq_register crc_reg_def)

end
