(* ===== verification/PyFloat.thy ===== *)
theory PyFloat
  imports Prelude Complex_Main
begin

text \<open>
  Python's \<open>float\<close>: IEEE 754 binary64 with round-to-nearest, ties to even. A finite float is the
  rational it denotes, and every arithmetic operation is the exact rational operation followed by
  the rounding \<open>fl\<close>, gradual underflow included. The values the modelled code computes (clock
  readings in seconds, intervals, scaled 16-bit register words, utilisations) stay far below the
  overflow threshold \<open>2 ^ 1024\<close>, so infinities and NaN are not values of the model; the one
  place where the source can leave the range, the conversion of a huge integer, raises
  \<open>OverflowError\<close> (\<open>float_of_int\<close>).
\<close>

type_synonym pyfloat = rat

section \<open>Rounding to an integer, ties to even\<close>

definition rhe :: "rat \<Rightarrow> int" where
  "rhe x = (let f = \<lfloor>x\<rfloor>; d = x - of_int f in
     if d < 1 / 2 then f else if 1 / 2 < d then f + 1 else if even f then f else f + 1)"

lemma rhe_of_int [simp]: "rhe (of_int n) = n"
  by (simp add: rhe_def)

lemma rhe_numeral [simp]: "rhe 0 = 0" "rhe 1 = 1" "rhe (numeral n) = numeral n"
  using rhe_of_int [of 0] rhe_of_int [of 1] rhe_of_int [of "numeral n"] by simp_all

lemma rhe_bounds: "of_int (rhe x) - x \<le> 1 / 2 \<and> x - of_int (rhe x) \<le> 1 / 2"
proof -
  define f where "f = \<lfloor>x\<rfloor>"
  have "of_int f \<le> x" "x < of_int f + 1" using floor_correct [of x] by (simp_all add: f_def)
  then show ?thesis unfolding rhe_def Let_def f_def [symmetric] by (auto split: if_splits)
qed

lemma rhe_mono:
  assumes "x \<le> y"
  shows "rhe x \<le> rhe y"
proof -
  have fle: "\<lfloor>x\<rfloor> \<le> \<lfloor>y\<rfloor>" using assms by (rule floor_mono)
  have ub: "rhe z \<le> \<lfloor>z\<rfloor> + 1" and lb: "\<lfloor>z\<rfloor> \<le> rhe z" for z
    by (auto simp: rhe_def Let_def)
  show ?thesis
  proof (cases "\<lfloor>x\<rfloor> = \<lfloor>y\<rfloor>")
    case True
    with assms show ?thesis by (auto simp: rhe_def Let_def)
  next
    case False
    with fle have "\<lfloor>x\<rfloor> + 1 \<le> \<lfloor>y\<rfloor>" by simp
    with ub [of x] lb [of y] show ?thesis by linarith
  qed
qed

lemma rhe_uminus: "rhe (- x) = - rhe x"
proof (cases "x = of_int \<lfloor>x\<rfloor>")
  case True
  then show ?thesis by (metis of_int_minus rhe_of_int)
next
  case False
  define f where "f = \<lfloor>x\<rfloor>"
  have "of_int f < x" "x < of_int f + 1"
    using False floor_correct [of x] by (auto simp: f_def less_le)
  then have nf: "\<lfloor>- x\<rfloor> = - f - 1" by (simp add: floor_eq_iff)
  show ?thesis
    unfolding rhe_def Let_def nf f_def [symmetric] by (auto simp: field_simps)
qed

lemma rhe_le_of_int: "x \<le> of_int n \<Longrightarrow> rhe x \<le> n"
  using rhe_mono [of x "of_int n"] by simp

lemma rhe_ge_of_int: "of_int n \<le> x \<Longrightarrow> n \<le> rhe x"
  using rhe_mono [of "of_int n" x] by simp

section \<open>The exponent of a positive rational\<close>

fun bit_len :: "nat \<Rightarrow> nat" where
  "bit_len n = (if n = 0 then 0 else Suc (bit_len (n div 2)))"

declare bit_len.simps [simp del]

lemma bit_len_bounds: "0 < n \<Longrightarrow> 2 ^ (bit_len n - 1) \<le> n \<and> n < 2 ^ bit_len n \<and> 0 < bit_len n"
proof (induction n rule: less_induct)
  case (less n)
  show ?case
  proof (cases "n = 1")
    case True
    have "bit_len 1 = 1" by (simp add: bit_len.simps)
    with True show ?thesis by simp
  next
    case False
    with less.prems have pos: "0 < n div 2" by simp
    define k where "k = bit_len (n div 2)"
    from less.IH [of "n div 2"] pos less.prems
    have k: "2 ^ (k - 1) \<le> n div 2" "n div 2 < 2 ^ k" "0 < k" by (auto simp: k_def)
    have eq: "bit_len n = Suc k" using less.prems by (simp add: k_def bit_len.simps [of n])
    from k(3) obtain m where m: "k = Suc m" by (cases k) auto
    have "2 * 2 ^ m \<le> n" using k(1) m by simp
    moreover have "n < 2 * 2 ^ k" using k(2) by simp
    ultimately show ?thesis by (simp add: eq m)
  qed
qed

text \<open>\<open>ilog2 x\<close> is the \<open>e\<close> with \<open>2 ^ e \<le> x < 2 ^ (e + 1)\<close>, for \<open>0 < x\<close>.\<close>

definition ilog2 :: "rat \<Rightarrow> int" where
  "ilog2 x = (let (p, q) = quotient_of x;
                  d = int (bit_len (nat p)) - int (bit_len (nat q))
              in if 2 powi d \<le> x then d else d - 1)"

lemma powi_nat_diff: "(2::rat) powi (int a - int b) = 2 ^ a / 2 ^ b"
  by (simp add: power_int_diff)

lemma ilog2_bounds:
  assumes "0 < x"
  shows "2 powi ilog2 x \<le> x \<and> x < 2 powi (ilog2 x + 1)"
proof -
  obtain p q where pq: "quotient_of x = (p, q)" by (cases "quotient_of x") auto
  have q0: "0 < q" using pq by (rule quotient_of_denom_pos)
  have x: "x = of_int p / of_int q" using pq by (rule quotient_of_div)
  have p0: "0 < p" using assms q0 by (simp add: x zero_less_divide_iff)
  define a b where "a = bit_len (nat p)" and "b = bit_len (nat q)"
  have A: "2 ^ (a - 1) \<le> nat p" "nat p < 2 ^ a" "0 < a"
    and B: "2 ^ (b - 1) \<le> nat q" "nat q < 2 ^ b" "0 < b"
    using bit_len_bounds [of "nat p"] bit_len_bounds [of "nat q"] p0 q0
    by (simp_all add: a_def b_def)
  obtain a' b' where ab: "a = Suc a'" "b = Suc b'"
    using A(3) B(3) by (metis gr0_implies_Suc)
  have nat_rat: "(of_nat (nat z) :: rat) = of_int z" if "0 \<le> z" for z
    using that by (metis of_int_of_nat_eq int_nat_eq)
  have P: "(2::rat) ^ a' \<le> of_int p" "(of_int p :: rat) < 2 ^ a"
    using A(1,2) p0 nat_rat [of p] ab
    by (metis of_nat_le_iff of_nat_power of_nat_numeral diff_Suc_1 less_imp_le)
      (metis A(2) nat_rat of_nat_less_iff of_nat_numeral of_nat_power p0 less_imp_le)
  have Q: "(2::rat) ^ b' \<le> of_int q" "(of_int q :: rat) < 2 ^ b"
    using B(1,2) q0 nat_rat [of q] ab
    by (metis of_nat_le_iff of_nat_power of_nat_numeral diff_Suc_1 less_imp_le)
      (metis B(2) nat_rat of_nat_less_iff of_nat_numeral of_nat_power q0 less_imp_le)
  have up: "x < 2 powi (int a - int b + 1)"
  proof -
    have "x < 2 ^ a / 2 ^ b'"
      unfolding x using P Q p0 q0 by (intro frac_less) auto
    also have "\<dots> = 2 powi (int a - int b')" by (simp add: powi_nat_diff)
    also have "int a - int b' = int a - int b + 1" using ab by simp
    finally show ?thesis .
  qed
  have lo: "2 powi (int a - int b - 1) \<le> x"
  proof -
    have "(2::rat) powi (int a - int b - 1) = 2 powi (int a' - int b)"
      using ab by (simp add: algebra_simps)
    also have "\<dots> = (2::rat) ^ a' / 2 ^ b" by (simp add: powi_nat_diff)
    also have "\<dots> \<le> x" unfolding x using P Q p0 q0 by (intro frac_le) auto
    finally show ?thesis .
  qed
  show ?thesis
    using up lo by (auto simp: ilog2_def pq Let_def a_def b_def algebra_simps)
qed

lemma powi_mono2: "a \<le> b \<Longrightarrow> (2::rat) powi a \<le> 2 powi b"
  by (rule power_int_increasing) auto

lemma ilog2_mono: "0 < x \<Longrightarrow> x \<le> y \<Longrightarrow> ilog2 x \<le> ilog2 y"
proof -
  assume x: "0 < x" "x \<le> y"
  show ?thesis
  proof (rule ccontr)
    assume "\<not> ilog2 x \<le> ilog2 y"
    then have "(2::rat) powi (ilog2 y + 1) \<le> 2 powi ilog2 x" by (intro powi_mono2) simp
    with ilog2_bounds [of x] ilog2_bounds [of y] x show False by linarith
  qed
qed

lemma ilog2_unique:
  assumes "2 powi e \<le> x" and "x < 2 powi (e + 1)"
  shows "ilog2 x = e"
proof -
  have pos: "0 < x" using assms(1) zero_less_power_int [of "2::rat" e] by linarith
  note b = ilog2_bounds [OF pos]
  have "\<not> ilog2 x + 1 \<le> e"
    using powi_mono2 [of "ilog2 x + 1" e] b assms by linarith
  moreover have "\<not> e + 1 \<le> ilog2 x"
    using powi_mono2 [of "e + 1" "ilog2 x"] b assms by linarith
  ultimately show ?thesis by simp
qed

section \<open>Rounding to binary64\<close>

text \<open>
  \<open>ulp_exp x\<close> is the exponent of the unit in the last place at \<open>x\<close>: 53 significant bits, and
  \<open>-1074\<close> in the subnormal range.
\<close>

definition ulp_exp :: "rat \<Rightarrow> int" where
  "ulp_exp x = max (ilog2 \<bar>x\<bar> - 52) (- 1074)"

definition fl :: "rat \<Rightarrow> pyfloat" where
  "fl x = (if x = 0 then 0
     else of_int (rhe (x / 2 powi ulp_exp x)) * 2 powi ulp_exp x)"

definition is_float :: "rat \<Rightarrow> bool" where
  "is_float x = (fl x = x)"

lemma fl_0 [simp]: "fl 0 = 0"
  by (simp add: fl_def)

lemma fl_uminus: "fl (- x) = - fl x"
  by (simp add: fl_def ulp_exp_def rhe_uminus)

lemma powi_pos [simp]: "0 < (2::rat) powi e"
  by (simp add: zero_less_power_int)

lemma powi_add_nat: "(2::rat) powi (e + int k) = 2 ^ k * 2 powi e"
  by (simp add: power_int_add)

lemma powi_multiple:
  assumes "d \<le> e"
  shows "(of_int m * 2 powi e) / (2::rat) powi d = of_int (m * 2 ^ nat (e - d))"
proof -
  have "(2::rat) powi e = 2 ^ nat (e - d) * 2 powi d"
    using assms powi_add_nat [of d "nat (e - d)"] by simp
  then show ?thesis by simp
qed

text \<open>Every integer multiple of a power of two with at most 53 bits is representable.\<close>

lemma fl_repr:
  assumes "\<bar>m\<bar> \<le> 2 ^ 53" and "- 1074 \<le> e"
  shows "fl (of_int m * 2 powi e) = of_int m * 2 powi e"
proof (cases "m = 0")
  case True
  then show ?thesis by simp
next
  case False
  define x :: rat where "x = of_int m * 2 powi e"
  have x0: "x \<noteq> 0" using False by (simp add: x_def)
  have ab: "\<bar>x\<bar> = of_int \<bar>m\<bar> * 2 powi e" by (simp add: x_def abs_mult)
  obtain k where k: "ulp_exp x \<le> e + int k" and dvd: "2 ^ k dvd m"
  proof (cases "\<bar>m\<bar> = 2 ^ 53")
    case True
    have eq: "\<bar>x\<bar> = 2 powi (e + 53)"
      using powi_add_nat [of e 53] by (simp add: ab True)
    have "ilog2 \<bar>x\<bar> = e + 53"
      unfolding eq by (rule ilog2_unique) (simp_all add: power_int_add)
    then have "ulp_exp x \<le> e + int 1" using assms(2) by (simp add: ulp_exp_def)
    moreover have "2 ^ 1 dvd m" using True by (metis dvd_abs_iff dvd_power power_one_right zero_less_numeral)
    ultimately show ?thesis by (rule that)
  next
    case False
    have "\<bar>m\<bar> < 2 ^ 53" using False assms(1) by simp
    then have "(of_int \<bar>m\<bar> :: rat) < 2 ^ 53"
      by (metis of_int_less_iff of_int_numeral of_int_power)
    then have "\<bar>x\<bar> < 2 powi (e + 53)"
      using powi_add_nat [of e 53] by (simp add: ab)
    then have "ilog2 \<bar>x\<bar> < e + 53"
      using ilog2_bounds [of "\<bar>x\<bar>"] x0 powi_mono2 [of "e + 53" "ilog2 \<bar>x\<bar>"] by fastforce
    then have "ulp_exp x \<le> e + int 0" using assms(2) by (simp add: ulp_exp_def)
    then show ?thesis by (rule that) simp
  qed
  from dvd obtain n where n: "m = n * 2 ^ k" by (metis dvdE mult.commute)
  have x: "x = of_int n * 2 powi (e + int k)"
    by (simp add: x_def n powi_add_nat)
  have "x / 2 powi ulp_exp x = of_int (n * 2 ^ nat (e + int k - ulp_exp x))"
    unfolding x by (rule powi_multiple) (simp add: k flip: x)
  then have "of_int (rhe (x / 2 powi ulp_exp x)) = x / 2 powi ulp_exp x"
    by (metis rhe_of_int)
  then have "fl x = x" using x0 by (simp add: fl_def)
  then show ?thesis by (simp add: x_def)
qed

lemma fl_of_int: "\<bar>n\<bar> \<le> 2 ^ 53 \<Longrightarrow> fl (of_int n) = of_int n"
  using fl_repr [of n 0] by simp

lemma fl_numeral: "numeral n \<le> (2 ^ 53 :: int) \<Longrightarrow> fl (numeral n) = numeral n"
  using fl_of_int [of "numeral n"] by simp

lemma fl_1 [simp]: "fl 1 = 1"
  using fl_of_int [of 1] by simp

lemma mantissa_bound:
  assumes "x \<noteq> 0"
  shows "\<bar>x\<bar> / 2 powi ulp_exp x < 2 ^ 53"
proof -
  have "\<bar>x\<bar> < 2 powi (ilog2 \<bar>x\<bar> + 1)" using ilog2_bounds [of "\<bar>x\<bar>"] assms by simp
  also have "\<dots> \<le> 2 powi (ulp_exp x + int 53)" by (rule powi_mono2) (simp add: ulp_exp_def)
  also have "\<dots> = 2 ^ 53 * 2 powi ulp_exp x" by (rule powi_add_nat)
  finally show ?thesis by (simp add: pos_divide_less_eq)
qed

lemma fl_mantissa:
  obtains m e where "fl x = of_int m * 2 powi e" and "\<bar>m\<bar> \<le> 2 ^ 53" and "- 1074 \<le> e"
proof (cases "x = 0")
  case True
  show ?thesis by (rule that [of 0 0]) (simp_all add: True)
next
  case False
  define z where "z = x / 2 powi ulp_exp x"
  have "\<bar>z\<bar> < 2 ^ 53" using mantissa_bound [OF False] by (simp add: z_def abs_divide)
  then have "z \<le> of_int (2 ^ 53)" "of_int (- (2 ^ 53)) \<le> z" by simp_all
  then have "\<bar>rhe z\<bar> \<le> 2 ^ 53"
    using rhe_le_of_int [of z "2 ^ 53"] rhe_ge_of_int [of "- (2 ^ 53)" z] by linarith
  moreover have "fl x = of_int (rhe z) * 2 powi ulp_exp x" using False by (simp add: fl_def z_def)
  ultimately show ?thesis by (intro that [of "rhe z" "ulp_exp x"]) (simp_all add: ulp_exp_def)
qed

lemma is_float_fl [simp]: "is_float (fl x)"
  unfolding is_float_def by (rule fl_mantissa [of x]) (simp add: fl_repr)

lemma fl_idem [simp]: "fl (fl x) = fl x"
  using is_float_fl [of x] by (simp add: is_float_def)

lemma fl_pow2_bound:
  assumes "0 < x" and "x \<le> 2 powi k" and "ulp_exp x \<le> k"
  shows "fl x \<le> 2 powi k"
proof -
  have "(2::rat) powi k / 2 powi ulp_exp x = of_int (1 * 2 ^ nat (k - ulp_exp x))"
    using powi_multiple [OF assms(3), of 1] by simp
  moreover have "x / 2 powi ulp_exp x \<le> 2 powi k / 2 powi ulp_exp x"
    using assms(2) by (simp add: divide_right_mono less_imp_le)
  ultimately have "rhe (x / 2 powi ulp_exp x) \<le> 1 * 2 ^ nat (k - ulp_exp x)"
    by (intro rhe_le_of_int) simp
  then have "(of_int (rhe (x / 2 powi ulp_exp x)) :: rat) \<le> of_int (1 * 2 ^ nat (k - ulp_exp x))"
    by (rule of_int_le_iff [THEN iffD2])
  also have "\<dots> = 2 powi k / 2 powi ulp_exp x"
    using powi_multiple [OF assms(3), of 1] by simp
  finally show ?thesis using assms(1) by (simp add: fl_def pos_le_divide_eq)
qed

lemma fl_pow2_lower:
  assumes "2 powi k \<le> x" and "ulp_exp x \<le> k"
  shows "2 powi k \<le> fl x"
proof -
  have x0: "0 < x" using assms(1) powi_pos [of k] by linarith
  have eq: "(2::rat) powi k / 2 powi ulp_exp x = of_int (2 ^ nat (k - ulp_exp x))"
    using powi_multiple [OF assms(2), of 1] by simp
  have "2 powi k / 2 powi ulp_exp x \<le> x / 2 powi ulp_exp x"
    using assms(1) by (simp add: divide_right_mono less_imp_le)
  then have "2 ^ nat (k - ulp_exp x) \<le> rhe (x / 2 powi ulp_exp x)"
    unfolding eq by (rule rhe_ge_of_int)
  then have "2 powi k / 2 powi ulp_exp x \<le> (of_int (rhe (x / 2 powi ulp_exp x)) :: rat)"
    unfolding eq by (rule of_int_le_iff [THEN iffD2])
  then show ?thesis using x0 by (simp add: fl_def pos_divide_le_eq)
qed

lemma fl_nonneg: "0 \<le> x \<Longrightarrow> 0 \<le> fl x"
  using rhe_ge_of_int [of 0 "x / 2 powi ulp_exp x"]
  by (auto simp: fl_def intro!: mult_nonneg_nonneg divide_nonneg_pos less_imp_le)

lemma fl_mono_pos:
  assumes "0 < x" and "x \<le> y"
  shows "fl x \<le> fl y"
proof (cases "ulp_exp x = ulp_exp y")
  case True
  have "x / 2 powi ulp_exp x \<le> y / 2 powi ulp_exp x"
    using assms(2) by (simp add: divide_right_mono less_imp_le)
  then have "rhe (x / 2 powi ulp_exp x) \<le> rhe (y / 2 powi ulp_exp x)" by (rule rhe_mono)
  then show ?thesis using assms True by (simp add: fl_def mult_right_mono less_imp_le)
next
  case False
  have y0: "0 < y" using assms by linarith
  have "ilog2 x \<le> ilog2 y" using assms by (rule ilog2_mono)
  with False assms y0 have lt: "ilog2 x < ilog2 y" and ux: "ulp_exp x \<le> ilog2 y"
    and uy: "ulp_exp y \<le> ilog2 y" by (auto simp: ulp_exp_def)
  have "x \<le> 2 powi ilog2 y"
    using ilog2_bounds [OF assms(1)] powi_mono2 [of "ilog2 x + 1" "ilog2 y"] lt by linarith
  then have "fl x \<le> 2 powi ilog2 y" using assms(1) ux by (intro fl_pow2_bound)
  also have "\<dots> \<le> fl y" using ilog2_bounds [OF y0] uy by (intro fl_pow2_lower) auto
  finally show ?thesis .
qed

theorem fl_mono: "x \<le> y \<Longrightarrow> fl x \<le> fl y"
proof -
  assume xy: "x \<le> y"
  consider "0 < x" | "x \<le> 0" "0 \<le> y" | "y < 0" by linarith
  then show ?thesis
  proof cases
    case 1
    then show ?thesis using xy by (rule fl_mono_pos)
  next
    case 2
    have "0 \<le> fl (- x)" using 2 by (intro fl_nonneg) simp
    then show ?thesis using fl_nonneg [OF 2(2)] by (simp add: fl_uminus)
  next
    case 3
    then have "fl (- y) \<le> fl (- x)" using xy by (intro fl_mono_pos) simp_all
    then show ?thesis by (simp add: fl_uminus)
  qed
qed

text \<open>Below \<open>2 ^ 53\<close> one rounding moves a value by at most one half.\<close>

lemma fl_error_half:
  assumes "\<bar>x\<bar> < 2 ^ 53"
  shows "\<bar>fl x - x\<bar> \<le> 1 / 2"
proof (cases "x = 0")
  case True
  then show ?thesis by simp
next
  case False
  have "ilog2 \<bar>x\<bar> < 53"
    using ilog2_bounds [of "\<bar>x\<bar>"] False assms powi_mono2 [of 53 "ilog2 \<bar>x\<bar>"] by fastforce
  then have "ulp_exp x \<le> 0" by (simp add: ulp_exp_def)
  then have u: "(2::rat) powi ulp_exp x \<le> 1" using powi_mono2 [of "ulp_exp x" 0] by simp
  define z where "z = x / 2 powi ulp_exp x"
  have x: "x = z * 2 powi ulp_exp x" by (simp add: z_def)
  have "\<bar>of_int (rhe z) - z\<bar> \<le> 1 / 2" using rhe_bounds [of z] by linarith
  then have "\<bar>of_int (rhe z) - z\<bar> * 2 powi ulp_exp x \<le> 1 / 2 * 1"
    using u by (intro mult_mono) simp_all
  moreover have "fl x - x = (of_int (rhe z) - z) * 2 powi ulp_exp x"
    using False by (simp add: fl_def z_def left_diff_distrib)
  ultimately show ?thesis by (simp add: abs_mult)
qed

section \<open>The operations of the language\<close>

definition fadd :: "pyfloat \<Rightarrow> pyfloat \<Rightarrow> pyfloat" where
  "fadd x y = fl (x + y)"

definition fsub :: "pyfloat \<Rightarrow> pyfloat \<Rightarrow> pyfloat" where
  "fsub x y = fl (x - y)"

definition fmul :: "pyfloat \<Rightarrow> pyfloat \<Rightarrow> pyfloat" where
  "fmul x y = fl (x * y)"

text \<open>\<open>x / y\<close> for a divisor the code has shown to be non-zero.\<close>

definition fdiv :: "pyfloat \<Rightarrow> pyfloat \<Rightarrow> pyfloat" where
  "fdiv x y = fl (x / y)"

text \<open>\<open>float(n)\<close> of an integer.\<close>

definition float_of_int :: "int \<Rightarrow> pyfloat result" where
  "float_of_int n = (if 2 ^ 1024 \<le> fl \<bar>of_int n\<bar>
     then Inl (OverflowError ''int too large to convert to float'') else Inr (fl (of_int n)))"

text \<open>\<open>round(x, n)\<close>: the decimal with \<open>n\<close> places nearest to the exact value, ties to even,
  converted back to a float.\<close>

definition py_round :: "nat \<Rightarrow> pyfloat \<Rightarrow> pyfloat" where
  "py_round n x = fl (of_int (rhe (x * 10 ^ n)) / 10 ^ n)"

text \<open>\<open>x // y\<close> as CPython computes it: \<open>fmod\<close> is exact, the quotient is rounded, floored and
  corrected.\<close>

definition ffmod :: "pyfloat \<Rightarrow> pyfloat \<Rightarrow> pyfloat" where
  "ffmod x y = x - y * (if 0 \<le> x / y then of_int \<lfloor>x / y\<rfloor> else of_int \<lceil>x / y\<rceil>)"

definition ffloordiv :: "pyfloat \<Rightarrow> pyfloat \<Rightarrow> int" where
  "ffloordiv x y = (let m = ffmod x y;
       q0 = fdiv (fsub x m) y;
       q = (if m \<noteq> 0 \<and> (y < 0) \<noteq> (m < 0) then fsub q0 1 else q0);
       f = \<lfloor>q\<rfloor>
     in if 1 / 2 < fsub q (of_int f) then f + 1 else f)"

lemma is_float_ops [simp]:
  "is_float (fadd x y)" "is_float (fsub x y)" "is_float (fmul x y)" "is_float (fdiv x y)"
  "is_float (py_round n x)"
  by (simp_all add: fadd_def fsub_def fmul_def fdiv_def py_round_def)

lemma is_float_of_int: "\<bar>n\<bar> \<le> 2 ^ 53 \<Longrightarrow> is_float (of_int n)"
  by (simp add: is_float_def fl_of_int)

lemma is_float_0 [simp]: "is_float 0" and is_float_1 [simp]: "is_float 1"
  by (simp_all add: is_float_def)

lemma fl_le_float: "is_float y \<Longrightarrow> x \<le> y \<Longrightarrow> fl x \<le> y"
  using fl_mono [of x y] by (simp add: is_float_def)

lemma fl_ge_float: "is_float y \<Longrightarrow> y \<le> x \<Longrightarrow> y \<le> fl x"
  using fl_mono [of y x] by (simp add: is_float_def)

lemma fadd_ge_left: "is_float x \<Longrightarrow> 0 \<le> y \<Longrightarrow> x \<le> fadd x y"
  unfolding fadd_def by (rule fl_ge_float) simp_all

lemma fadd_mono: "a \<le> b \<Longrightarrow> c \<le> d \<Longrightarrow> fadd a c \<le> fadd b d"
  unfolding fadd_def by (rule fl_mono) simp

lemma fmul_nonneg: "0 \<le> x \<Longrightarrow> 0 \<le> y \<Longrightarrow> 0 \<le> fmul x y"
  unfolding fmul_def by (rule fl_nonneg) simp

lemma fdiv_nonneg: "0 \<le> x \<Longrightarrow> 0 \<le> y \<Longrightarrow> 0 \<le> fdiv x y"
  unfolding fdiv_def by (rule fl_nonneg) simp

text \<open>An addition of at least one makes progress by one half while the sum is below \<open>2 ^ 53\<close>.\<close>

lemma fadd_progress:
  assumes "1 \<le> y" and "0 \<le> x" and "x + y < 2 ^ 53"
  shows "x + 1 / 2 \<le> fadd x y"
proof -
  have "\<bar>fl (x + y) - (x + y)\<bar> \<le> 1 / 2" using assms by (intro fl_error_half) simp
  then have "(x + y) - fl (x + y) \<le> 1 / 2" by linarith
  with assms(1) show ?thesis unfolding fadd_def by linarith
qed

lemma float_of_int_small: "\<bar>n\<bar> \<le> 2 ^ 53 \<Longrightarrow> float_of_int n = Inr (of_int n)"
proof -
  assume n: "\<bar>n\<bar> \<le> 2 ^ 53"
  then have "fl (of_int \<bar>n\<bar>) = of_int \<bar>n\<bar>" by (intro fl_of_int) simp
  moreover have "(of_int \<bar>n\<bar> :: rat) \<le> of_int (2 ^ 53)" using n by (rule of_int_le_iff [THEN iffD2])
  moreover have "(of_int (2 ^ 53) :: rat) < 2 ^ 1024" by simp
  ultimately have "\<not> 2 ^ 1024 \<le> fl \<bar>of_int n :: rat\<bar>" by (metis not_le of_int_abs order_le_less_trans)
  then show ?thesis by (simp add: float_of_int_def fl_of_int [OF n])
qed

lemma float_of_pow2:
  "float_of_int (2 ^ n) = (if n < 1024 then Inr (2 ^ n)
     else Inl (OverflowError ''int too large to convert to float''))"
proof -
  have "fl (2 ^ n) = 2 ^ n" using fl_repr [of 1 "int n"] by simp
  moreover have "((2::rat) ^ 1024 \<le> 2 ^ n) = (1024 \<le> n)" by (rule power_increasing_iff) simp
  ultimately show ?thesis by (simp add: float_of_int_def not_less)
qed

text \<open>Evaluation of a rounding from its result: the exponent and the mantissa are given, the
  premises are closed inequalities.\<close>

lemma rhe_unique:
  assumes "\<bar>x - of_int n\<bar> < 1 / 2"
  shows "rhe x = n"
proof -
  have b: "of_int (rhe x) - x \<le> 1 / 2" "x - of_int (rhe x) \<le> 1 / 2"
    using rhe_bounds [of x] by simp_all
  from b(1) assms have "of_int (rhe x) < (of_int n + 1 :: rat)" by linarith
  moreover from b(2) assms have "of_int n < (of_int (rhe x) + 1 :: rat)" by linarith
  ultimately have "rhe x < n + 1" "n < rhe x + 1"
    by (simp_all flip: of_int_less_iff [where 'a = rat])
  then show ?thesis by simp
qed

lemma fl_eqI:
  assumes "2 powi k \<le> x" and "x < 2 powi (k + 1)" and "- 1022 \<le> k"
    and "\<bar>x / 2 powi (k - 52) - of_int m\<bar> < 1 / 2"
  shows "fl x = of_int m * 2 powi (k - 52)"
proof -
  have x0: "0 < x" using assms(1) powi_pos [of k] by linarith
  have "ulp_exp x = k - 52"
    using ilog2_unique [OF assms(1,2)] x0 assms(3) by (simp add: ulp_exp_def)
  then show ?thesis using x0 rhe_unique [OF assms(4)] by (simp add: fl_def)
qed

section \<open>Scaled decimals\<close>

text \<open>The error of one rounding, and what it means for the pattern \<open>round(n * scale, d)\<close> with a
  decimal literal as the scale: the last rounding repairs the first two.\<close>

lemma fl_error:
  assumes "\<bar>x\<bar> < 2 powi k" and "- 1021 \<le> k"
  shows "\<bar>fl x - x\<bar> \<le> 2 powi (k - 54)"
proof (cases "x = 0")
  case True
  then show ?thesis by simp
next
  case False
  have "ilog2 \<bar>x\<bar> < k"
    using ilog2_bounds [of "\<bar>x\<bar>"] False assms powi_mono2 [of k "ilog2 \<bar>x\<bar>"] by fastforce
  then have "ulp_exp x \<le> k - 53" using assms(2) by (simp add: ulp_exp_def)
  then have u: "(2::rat) powi ulp_exp x \<le> 2 powi (k - 53)" by (rule powi_mono2)
  define z where "z = x / 2 powi ulp_exp x"
  have x: "x = z * 2 powi ulp_exp x" by (simp add: z_def)
  have "\<bar>of_int (rhe z) - z\<bar> \<le> 1 / 2" using rhe_bounds [of z] by linarith
  then have "\<bar>of_int (rhe z) - z\<bar> * 2 powi ulp_exp x \<le> 1 / 2 * 2 powi (k - 53)"
    using u by (intro mult_mono) simp_all
  moreover have "fl x - x = (of_int (rhe z) - z) * 2 powi ulp_exp x"
    using False by (simp add: fl_def z_def left_diff_distrib)
  moreover have "1 / 2 * (2::rat) powi (k - 53) = 2 powi (k - 54)"
    using powi_add_nat [of "k - 54" 1] by simp
  ultimately show ?thesis by (simp add: abs_mult)
qed

lemma fl_decimal_error:
  assumes "\<bar>n\<bar> < 2 ^ 32"
  shows "\<bar>fl (of_int n / 10 ^ d) - of_int n / 10 ^ d\<bar> \<le> 1 / 2 ^ 22"
proof -
  have "(of_int \<bar>n\<bar> :: rat) < of_int (2 ^ 32)" using assms by (rule of_int_less_iff [THEN iffD2])
  then have n: "\<bar>of_int n :: rat\<bar> < 2 ^ 32" by simp
  have "\<bar>of_int n / 10 ^ d\<bar> \<le> \<bar>of_int n :: rat\<bar>"
    by (simp add: abs_divide divide_le_eq mult_le_cancel_left1)
  with n have "\<bar>of_int n / 10 ^ d :: rat\<bar> < 2 powi 32" by simp
  from fl_error [OF this] show ?thesis by (simp add: power_int_minus_divide)
qed

lemma scaled_error:
  assumes "\<bar>n\<bar> < 2 ^ 32" and "d \<le> 3"
  shows "\<bar>fmul (of_int n) (fl (1 / 10 ^ d)) - of_int n / 10 ^ d\<bar> \<le> 1 / 2 ^ 19"
proof -
  define s where "s = fl (1 / 10 ^ d)"
  have "(of_int \<bar>n\<bar> :: rat) < of_int (2 ^ 32)" using assms(1) by (rule of_int_less_iff [THEN iffD2])
  then have n: "\<bar>of_int n :: rat\<bar> < 2 ^ 32" by simp
  have d1: "(1::rat) / 10 ^ d \<le> 1" "0 \<le> (1::rat) / 10 ^ d" by simp_all
  then have "\<bar>1 / 10 ^ d :: rat\<bar> < 2" by linarith
  then have "\<bar>1 / 10 ^ d :: rat\<bar> < 2 powi 1" unfolding power_int_1_right .
  from fl_error [OF this] have s: "\<bar>s - 1 / 10 ^ d\<bar> \<le> 1 / 2 ^ 53"
    by (simp add: s_def power_int_minus_divide)
  have "(1::rat) / 2 ^ 53 < 1" by simp
  with s d1 have s1: "\<bar>s\<bar> < 2" by linarith
  have "\<bar>of_int n * s\<bar> \<le> 2 ^ 32 * 2" using n s1 unfolding abs_mult by (intro mult_mono) auto
  then have "\<bar>of_int n * s\<bar> < 2 powi 34" by simp
  from fl_error [OF this] have a: "\<bar>fl (of_int n * s) - of_int n * s\<bar> \<le> 1 / 2 ^ 20"
    by (simp add: power_int_minus_divide)
  have "\<bar>of_int n * (s - 1 / 10 ^ d)\<bar> \<le> 2 ^ 32 * (1 / 2 ^ 53)"
    using n s unfolding abs_mult by (intro mult_mono) auto
  then have "\<bar>of_int n * s - of_int n / 10 ^ d\<bar> \<le> 1 / 2 ^ 20"
    by (simp add: right_diff_distrib)
  then have "\<bar>fl (of_int n * s) - of_int n / 10 ^ d\<bar> \<le> 1 / 2 ^ 20 + 1 / 2 ^ 20" using a by linarith
  also have "\<dots> = (1 :: rat) / 2 ^ 19" by simp
  finally show ?thesis unfolding fmul_def s_def [symmetric] .
qed

lemma near_decimal:
  assumes "\<bar>x - of_int n / 10 ^ d\<bar> \<le> 1 / 2 ^ 19" and "d \<le> 3"
  shows "rhe (x * 10 ^ d) = n"
proof (rule rhe_unique)
  have "d = 0 \<or> d = 1 \<or> d = 2 \<or> d = 3" using assms(2) by auto
  then have p: "(10::rat) ^ d \<le> 1000" by auto
  have "\<bar>x * 10 ^ d - of_int n\<bar> = \<bar>x - of_int n / 10 ^ d\<bar> * 10 ^ d"
    by (simp flip: abs_mult add: left_diff_distrib abs_mult_pos)
  also have "\<dots> \<le> 1 / 2 ^ 19 * 1000" using assms(1) p by (intro mult_mono) auto
  finally show "\<bar>x * 10 ^ d - of_int n\<bar> < 1 / 2" by simp
qed

lemma py_round_scaled:
  assumes "\<bar>n\<bar> < 2 ^ 32" and "d \<le> 3"
  shows "py_round d (fmul (of_int n) (fl (1 / 10 ^ d))) = fl (of_int n / 10 ^ d)"
  by (simp add: py_round_def near_decimal [OF scaled_error [OF assms] assms(2)])

lemma decimal_recovered:
  assumes "\<bar>n\<bar> < 2 ^ 32" and "d \<le> 3"
  shows "rhe (fl (of_int n / 10 ^ d) * 10 ^ d) = n"
  using fl_decimal_error [OF assms(1), of d] assms(2)
  by (intro near_decimal) (auto intro: order_trans)

end
