(* ===== verification/ModbusClient.thy ===== *)
theory ModbusClient
  imports ModbusFrame PyFloat
begin

unbundle bit_operations_syntax

text \<open>
  The class \<open>ModbusRTUClient\<close> of \<open>services/device-agent/modbus_rtu.py\<close>. The serial device (pyserial
  or the injected factory) and the monotonic clock are not code of the repository: they are the
  parameter \<open>serial_ops\<close>, operations on a world \<open>'w\<close> that the client threads through. A run is an
  \<open>option\<close>: \<open>None\<close> is a \<open>_read_exact\<close> loop that never ends. The observer callback is the list of
  measurements it has been called with, because the client discards what it returns or raises.
\<close>

section \<open>State\<close>

record 'w serial_ops =
  ser_present :: bool
  ser_open :: "string \<Rightarrow> int \<Rightarrow> string \<Rightarrow> int \<Rightarrow> pyfloat \<Rightarrow> bool \<Rightarrow> 'w \<Rightarrow> nat result \<times> 'w"
  ser_close :: "nat \<Rightarrow> 'w \<Rightarrow> unit result \<times> 'w"
  ser_reset_input :: "nat \<Rightarrow> 'w \<Rightarrow> unit result \<times> 'w"
  ser_reset_output :: "nat \<Rightarrow> 'w \<Rightarrow> unit result \<times> 'w"
  ser_write :: "nat \<Rightarrow> byte list \<Rightarrow> 'w \<Rightarrow> int result \<times> 'w"
  ser_flush :: "nat \<Rightarrow> 'w \<Rightarrow> unit result \<times> 'w"
  ser_read :: "nat \<Rightarrow> int \<Rightarrow> 'w \<Rightarrow> byte list result \<times> 'w"
  monotonic :: "'w \<Rightarrow> pyfloat \<times> 'w"

record request_context =
  ctx_device_family :: string
  ctx_target_id :: string
  ctx_operation :: string
  ctx_deadline :: "pyfloat option"

definition default_context :: request_context where
  "default_context = \<lparr>ctx_device_family = ''unclassified'', ctx_target_id = ''unclassified'',
     ctx_operation = ''normal'', ctx_deadline = None\<rparr>"

record measurement =
  ms_bus :: string
  ms_device_family :: string
  ms_target_id :: string
  ms_operation :: string
  ms_unit_id :: int
  ms_function :: int
  ms_address :: int
  ms_count :: int
  ms_attempt :: int
  ms_outcome :: string
  ms_duration :: pyfloat

text \<open>\<open>mc_serial\<close> is the handle \<open>self._serial\<close> (object identity as a number), \<open>mc_context\<close> the
  thread's entry of \<open>self._request_context\<close>, \<open>mc_observed\<close> the calls of the observer.\<close>

record client =
  mc_port :: string
  mc_baudrate :: int
  mc_parity :: string
  mc_stopbits :: int
  mc_timeout :: pyfloat
  mc_retries :: int
  mc_has_factory :: bool
  mc_serial :: "nat option"
  mc_has_observer :: bool
  mc_observed :: "measurement list"
  mc_context :: "request_context option"
  mc_exclusive :: bool

definition client_init ::
  "string \<Rightarrow> int \<Rightarrow> string \<Rightarrow> int \<Rightarrow> pyfloat \<Rightarrow> int \<Rightarrow> bool \<Rightarrow> bool \<Rightarrow> bool \<Rightarrow> client result" where
  "client_init port baudrate parity stopbits timeout retries has_factory has_observer exclusive =
     (if baudrate \<le> 0 then Inl (ValueError ''baudrate must be positive'')
      else if parity \<notin> {''N'', ''E'', ''O''} then Inl (ValueError ''parity must be N, E, or O'')
      else if stopbits \<notin> {1, 2} then Inl (ValueError ''stopbits must be 1 or 2'')
      else if timeout \<le> 0 then Inl (ValueError ''timeout must be positive'')
      else if retries < 0 then Inl (ValueError ''retries cannot be negative'')
      else Inr \<lparr>mc_port = port, mc_baudrate = baudrate, mc_parity = parity, mc_stopbits = stopbits,
                mc_timeout = timeout, mc_retries = retries, mc_has_factory = has_factory,
                mc_serial = None, mc_has_observer = has_observer, mc_observed = [],
                mc_context = None, mc_exclusive = exclusive\<rparr>)"

section \<open>The serial handle\<close>

definition client_open :: "'w serial_ops \<Rightarrow> client \<Rightarrow> 'w \<Rightarrow> nat result \<times> client \<times> 'w" where
  "client_open ops c w =
     (case mc_serial c of
        Some h \<Rightarrow> (Inr h, c, w)
      | None \<Rightarrow>
          if \<not> mc_has_factory c \<and> \<not> ser_present ops then
            (Inl (RuntimeError ''pyserial is required for Modbus hardware mode''), c, w)
          else
            (case ser_open ops (mc_port c) (mc_baudrate c) (mc_parity c) (mc_stopbits c)
                    (mc_timeout c) (mc_exclusive c) w of
               (Inl e, w') \<Rightarrow> (Inl e, c, w')
             | (Inr h, w') \<Rightarrow> (Inr h, c\<lparr>mc_serial := Some h\<rparr>, w')))"

definition client_close :: "'w serial_ops \<Rightarrow> client \<Rightarrow> 'w \<Rightarrow> unit result \<times> client \<times> 'w" where
  "client_close ops c w =
     (case mc_serial c of
        None \<Rightarrow> (Inr (), c, w)
      | Some h \<Rightarrow>
          (case ser_close ops h w of
             (Inl e, w') \<Rightarrow> (Inl e, c, w')
           | (Inr _, w') \<Rightarrow> (Inr (), c\<lparr>mc_serial := None\<rparr>, w')))"

definition invalidate_serial :: "'w serial_ops \<Rightarrow> nat \<Rightarrow> client \<Rightarrow> 'w \<Rightarrow> client \<times> 'w" where
  "invalidate_serial ops h c w =
     (let c' = (if mc_serial c = Some h then c\<lparr>mc_serial := None\<rparr> else c)
      in (c', snd (ser_close ops h w)))"

section \<open>Instrumentation\<close>

definition get_context :: "client \<Rightarrow> request_context" where
  "get_context c = (case mc_context c of None \<Rightarrow> default_context | Some v \<Rightarrow> v)"

text \<open>\<open>with client.instrumentation_scope(...): body\<close>: the context is restored on every exit.\<close>

definition instrumentation_scope ::
  "request_context \<Rightarrow> (client \<Rightarrow> 'w \<Rightarrow> ('a result \<times> client \<times> 'w) option) \<Rightarrow> client \<Rightarrow> 'w
     \<Rightarrow> ('a result \<times> client \<times> 'w) option" where
  "instrumentation_scope ctx body c w =
     map_option (\<lambda>(r, c', w'). (r, c'\<lparr>mc_context := mc_context c\<rparr>, w'))
       (body (c\<lparr>mc_context := Some ctx\<rparr>) w)"

definition observe_request ::
  "'w serial_ops \<Rightarrow> request_context \<Rightarrow> int \<Rightarrow> int \<Rightarrow> int \<Rightarrow> int \<Rightarrow> int \<Rightarrow> string \<Rightarrow> pyfloat
     \<Rightarrow> client \<Rightarrow> 'w \<Rightarrow> client \<times> 'w" where
  "observe_request ops ctx unit_id function address count attempt outcome started_at c w =
     (if \<not> mc_has_observer c then (c, w)
      else (case monotonic ops w of (t, w') \<Rightarrow>
        (c\<lparr>mc_observed := mc_observed c @
             [\<lparr>ms_bus = mc_port c, ms_device_family = ctx_device_family ctx,
               ms_target_id = ctx_target_id ctx, ms_operation = ctx_operation ctx,
               ms_unit_id = unit_id, ms_function = function, ms_address = address,
               ms_count = count, ms_attempt = attempt, ms_outcome = outcome,
               ms_duration = max 0 (fsub t started_at)\<rparr>]\<rparr>, w')))"

section \<open>Reading one frame\<close>

partial_function (option) read_loop ::
  "'w serial_ops \<Rightarrow> nat \<Rightarrow> int \<Rightarrow> pyfloat \<Rightarrow> byte list \<Rightarrow> 'w \<Rightarrow> (byte list result \<times> 'w) option" where
  "read_loop ops port n deadline chunks w =
     (if int (length chunks) < n then
        (case ser_read ops port (n - int (length chunks)) w of
           (Inl e, w') \<Rightarrow> Some (Inl e, w')
         | (Inr chunk, w') \<Rightarrow>
             if chunk \<noteq> [] then read_loop ops port n deadline (chunks @ chunk) w'
             else (case monotonic ops w' of (t, w'') \<Rightarrow>
               if deadline \<le> t then
                 Some (Inl (ModbusTimeoutError (''Timed out after receiving ''
                         @ dec (int (length chunks)) @ '' of '' @ dec n @ '' bytes'')), w'')
               else read_loop ops port n deadline chunks w''))
      else Some (Inr chunks, w))"

definition read_exact ::
  "'w serial_ops \<Rightarrow> client \<Rightarrow> nat \<Rightarrow> int \<Rightarrow> 'w \<Rightarrow> (byte list result \<times> 'w) option" where
  "read_exact ops c port n w =
     (case monotonic ops w of (t, w') \<Rightarrow>
        let d = fadd t (mc_timeout c);
            deadline = (case ctx_deadline (get_context c) of None \<Rightarrow> d | Some od \<Rightarrow> min d od)
        in read_loop ops port n deadline [] w')"

text \<open>\<open>header[1]\<close> and \<open>header[2]\<close> exist because \<open>_read_exact\<close> returns at least three bytes.\<close>

definition read_response ::
  "'w serial_ops \<Rightarrow> client \<Rightarrow> nat \<Rightarrow> int \<Rightarrow> 'w \<Rightarrow> (byte list result \<times> 'w) option" where
  "read_response ops c port expected_count w =
     (case read_exact ops c port 3 w of
        None \<Rightarrow> None
      | Some (Inl e, w1) \<Rightarrow> Some (Inl e, w1)
      | Some (Inr header, w1) \<Rightarrow>
          let function = uint (header ! 1); byte_count = uint (header ! 2);
              expected_byte_count = expected_count * 2;
              rest = (\<lambda>k. case read_exact ops c port k w1 of
                         None \<Rightarrow> None
                       | Some (Inl e, w2) \<Rightarrow> Some (Inl e, w2)
                       | Some (Inr bs, w2) \<Rightarrow> Some (Inr (header @ bs), w2))
          in if function AND 0x80 \<noteq> 0 then rest 2
             else if byte_count \<noteq> expected_byte_count then
               Some (Inl (ModbusProtocolError (''Expected byte_count='' @ dec expected_byte_count
                       @ '', received '' @ dec byte_count)), w1)
             else rest (byte_count + 2))"

section \<open>One request attempt, and the retry loop\<close>

text \<open>
  The body of the \<open>try\<close>: its result and \<open>request_started_at\<close>, which is \<open>None\<close> while
  \<open>request_attempted\<close> is still false.
\<close>

definition attempt_request ::
  "'w serial_ops \<Rightarrow> client \<Rightarrow> nat \<Rightarrow> byte list \<Rightarrow> int \<Rightarrow> int \<Rightarrow> int \<Rightarrow> 'w
     \<Rightarrow> (int list result \<times> pyfloat option \<times> 'w) option" where
  "attempt_request ops c port request unit_id function count w =
     (case ser_reset_input ops port w of
        (Inl e, w1) \<Rightarrow> Some (Inl e, None, w1)
      | (Inr _, w1) \<Rightarrow>
     (case ser_reset_output ops port w1 of
        (Inl e, w2) \<Rightarrow> Some (Inl e, None, w2)
      | (Inr _, w2) \<Rightarrow>
     (case monotonic ops w2 of (started, w3) \<Rightarrow>
     (case ser_write ops port request w3 of
        (Inl e, w4) \<Rightarrow> Some (Inl e, Some started, w4)
      | (Inr written, w4) \<Rightarrow>
          if written \<noteq> int (length request) then
            Some (Inl (ModbusProtocolError (''Serial write incomplete: '' @ dec written @ ''/''
                    @ dec (int (length request)) @ '' bytes'')), Some started, w4)
          else
     (case ser_flush ops port w4 of
        (Inl e, w5) \<Rightarrow> Some (Inl e, Some started, w5)
      | (Inr _, w5) \<Rightarrow>
     (case read_response ops c port count w5 of
        None \<Rightarrow> None
      | Some (Inl e, w6) \<Rightarrow> Some (Inl e, Some started, w6)
      | Some (Inr frame, w6) \<Rightarrow>
          Some (parse_read_registers_response frame unit_id count function, Some started, w6)))))))"

text \<open>The label each handler reports; \<open>None\<close> for an exception that no handler names.\<close>

fun outcome_label :: "int list result \<Rightarrow> string option" where
  "outcome_label (Inr _) = Some ''success''"
| "outcome_label (Inl (ModbusTimeoutError _)) = Some ''timeout''"
| "outcome_label (Inl (ModbusExceptionResponse _ _ _)) = Some ''exception_response''"
| "outcome_label (Inl (ModbusProtocolError _)) = Some ''protocol_error''"
| "outcome_label (Inl (OSError _)) = Some ''io_error''"
| "outcome_label (Inl (TermiosError _)) = Some ''io_error''"
| "outcome_label (Inl _) = None"

definition io_failure :: "exn \<Rightarrow> bool" where
  "io_failure e = (case e of OSError _ \<Rightarrow> True | TermiosError _ \<Rightarrow> True | _ \<Rightarrow> False)"

definition is_timeout :: "exn \<Rightarrow> bool" where
  "is_timeout e = (case e of ModbusTimeoutError _ \<Rightarrow> True | _ \<Rightarrow> False)"

text \<open>The deadline test at the top of the loop body, and the observation its handlers make.\<close>

definition check_deadline :: "'w serial_ops \<Rightarrow> request_context \<Rightarrow> 'w \<Rightarrow> bool \<times> 'w" where
  "check_deadline ops ctx w = (case ctx_deadline ctx of
            None \<Rightarrow> (False, w)
          | Some d \<Rightarrow> (case monotonic ops w of (t, w') \<Rightarrow> (d \<le> t, w')))"

definition after_attempt ::
  "'w serial_ops \<Rightarrow> request_context \<Rightarrow> int \<Rightarrow> int \<Rightarrow> int \<Rightarrow> int \<Rightarrow> int
     \<Rightarrow> int list result \<Rightarrow> pyfloat option \<Rightarrow> client \<Rightarrow> 'w \<Rightarrow> client \<times> 'w" where
  "after_attempt ops ctx unit_id function address count i r started c w =
     (case (outcome_label r, started) of
        (Some label, Some t0) \<Rightarrow>
          observe_request ops ctx unit_id function address count (i + 1) label t0 c w
      | _ \<Rightarrow> (c, w))"

text \<open>
  One round of \<open>for attempt_index in range(self.retries + 1)\<close>: its outcome, and whether the loop
  goes on (\<open>continue\<close>); otherwise the round broke, returned or raised.
\<close>

definition attempt_round ::
  "'w serial_ops \<Rightarrow> request_context \<Rightarrow> nat \<Rightarrow> byte list \<Rightarrow> int \<Rightarrow> int \<Rightarrow> int \<Rightarrow> int
     \<Rightarrow> int \<Rightarrow> client \<Rightarrow> 'w \<Rightarrow> (int list result \<times> bool \<times> client \<times> 'w) option" where
  "attempt_round ops ctx port request unit_id function address count i c w =
     (case check_deadline ops ctx w of (over, w0) \<Rightarrow>
        if over then Some (Inl (ModbusTimeoutError ''Modbus operation deadline exceeded''), False, c, w0)
        else (case attempt_request ops c port request unit_id function count w0 of
          None \<Rightarrow> None
        | Some (r, started, w1) \<Rightarrow>
            (case after_attempt ops ctx unit_id function address count i r started c w1 of (c2, w2) \<Rightarrow>
              (case r of
                 Inr regs \<Rightarrow> Some (Inr regs, False, c2, w2)
               | Inl e \<Rightarrow>
                   if is_timeout e then Some (Inl e, True, c2, w2)
                   else if io_failure e then Some (Inl e, False, invalidate_serial ops port c2 w2)
                   else Some (Inl e, False, c2, w2)))))"

text \<open>
  The loop with \<open>k\<close> rounds left and the last timeout seen. Exhausting it raises \<open>last_timeout\<close>; the
  \<open>assert\<close> before that fails when there is none.
\<close>

fun attempt_loop ::
  "'w serial_ops \<Rightarrow> request_context \<Rightarrow> nat \<Rightarrow> byte list \<Rightarrow> int \<Rightarrow> int \<Rightarrow> int \<Rightarrow> int
     \<Rightarrow> nat \<Rightarrow> int \<Rightarrow> exn option \<Rightarrow> client \<Rightarrow> 'w \<Rightarrow> (int list result \<times> client \<times> 'w) option" where
  "attempt_loop ops ctx port request unit_id function address count 0 i last_timeout c w =
     Some (Inl (case last_timeout of None \<Rightarrow> OtherError ''AssertionError'' | Some e \<Rightarrow> e), c, w)"
| "attempt_loop ops ctx port request unit_id function address count (Suc k) i last_timeout c w =
     (case attempt_round ops ctx port request unit_id function address count i c w of
        None \<Rightarrow> None
      | Some (r, again, c', w') \<Rightarrow>
          if again then
            attempt_loop ops ctx port request unit_id function address count k (i + 1)
              (case r of Inl e \<Rightarrow> Some e | Inr _ \<Rightarrow> last_timeout) c' w'
          else Some (r, c', w'))"

definition read_registers ::
  "'w serial_ops \<Rightarrow> int \<Rightarrow> int \<Rightarrow> int \<Rightarrow> int \<Rightarrow> client \<Rightarrow> 'w \<Rightarrow> (int list result \<times> client \<times> 'w) option" where
  "read_registers ops unit_id function address count c w =
     (case build_read_registers_request unit_id function address count of
        Inl e \<Rightarrow> Some (Inl e, c, w)
      | Inr request \<Rightarrow>
          (case client_open ops c w of
             (Inl e, c1, w1) \<Rightarrow> Some (Inl e, c1, w1)
           | (Inr port, c1, w1) \<Rightarrow>
               attempt_loop ops (get_context c) port request unit_id function address count
                 (nat (mc_retries c + 1)) 0 None c1 w1))"

definition read_holding_registers ::
  "'w serial_ops \<Rightarrow> int \<Rightarrow> int \<Rightarrow> int \<Rightarrow> client \<Rightarrow> 'w \<Rightarrow> (int list result \<times> client \<times> 'w) option" where
  "read_holding_registers ops unit_id address count = read_registers ops unit_id 0x03 address count"

definition read_input_registers ::
  "'w serial_ops \<Rightarrow> int \<Rightarrow> int \<Rightarrow> int \<Rightarrow> client \<Rightarrow> 'w \<Rightarrow> (int list result \<times> client \<times> 'w) option" where
  "read_input_registers ops unit_id address count = read_registers ops unit_id 0x04 address count"

text \<open>\<open>...[0]\<close> on the returned tuple.\<close>

definition first_of :: "(int list result \<times> 's) option \<Rightarrow> (int result \<times> 's) option" where
  "first_of r = map_option (\<lambda>(x, s). (ebind x first_register, s)) r"

definition read_holding_register ::
  "'w serial_ops \<Rightarrow> int \<Rightarrow> int \<Rightarrow> client \<Rightarrow> 'w \<Rightarrow> (int result \<times> client \<times> 'w) option" where
  "read_holding_register ops unit_id address c w =
     first_of (read_holding_registers ops unit_id address 1 c w)"

definition read_input_register ::
  "'w serial_ops \<Rightarrow> int \<Rightarrow> int \<Rightarrow> client \<Rightarrow> 'w \<Rightarrow> (int result \<times> client \<times> 'w) option" where
  "read_input_register ops unit_id address c w =
     first_of (read_input_registers ops unit_id address 1 c w)"

section \<open>What the port sees\<close>

text \<open>
  \<open>writes_logged ops wlog\<close>: \<open>wlog\<close> reads off a world the frames written to the line so far; writing
  appends the frame and no other operation touches the line. \<open>clock_runs ops now d\<close>: \<open>now\<close> is the
  monotonic clock of a world, it never runs backwards, and a blocking read that returns nothing has
  taken at least \<open>d\<close> seconds, as pyserial's read timeout guarantees.
\<close>

definition writes_logged :: "'w serial_ops \<Rightarrow> ('w \<Rightarrow> byte list list) \<Rightarrow> bool" where
  "writes_logged ops wlog \<longleftrightarrow>
     (\<forall>h d w. wlog (snd (ser_write ops h d w)) = wlog w @ [d])
   \<and> (\<forall>h w. wlog (snd (ser_close ops h w)) = wlog w \<and> wlog (snd (ser_flush ops h w)) = wlog w
        \<and> wlog (snd (ser_reset_input ops h w)) = wlog w \<and> wlog (snd (ser_reset_output ops h w)) = wlog w)
   \<and> (\<forall>h n w. wlog (snd (ser_read ops h n w)) = wlog w)
   \<and> (\<forall>w. wlog (snd (monotonic ops w)) = wlog w)
   \<and> (\<forall>p b q s t x w. wlog (snd (ser_open ops p b q s t x w)) = wlog w)"

definition clock_runs :: "'w serial_ops \<Rightarrow> ('w \<Rightarrow> pyfloat) \<Rightarrow> rat \<Rightarrow> bool" where
  "clock_runs ops now d \<longleftrightarrow> 0 < d
   \<and> (\<forall>w. fst (monotonic ops w) = now w \<and> now (snd (monotonic ops w)) = now w)
   \<and> (\<forall>h n w. now w \<le> now (snd (ser_read ops h n w))
        \<and> (fst (ser_read ops h n w) = Inr [] \<longrightarrow> now w + d \<le> now (snd (ser_read ops h n w))))"

text \<open>
  \<open>line_recorded ops line\<close>: \<open>line\<close> reads off a world what has passed over the wire so far, in order: the
  frames written and the chunks that reads returned. No other operation adds to it.
\<close>

datatype line_event = Wrote "byte list" | Received "byte list"

definition line_recorded :: "'w serial_ops \<Rightarrow> ('w \<Rightarrow> line_event list) \<Rightarrow> bool" where
  "line_recorded ops line \<longleftrightarrow>
     (\<forall>h d w. line (snd (ser_write ops h d w)) = line w @ [Wrote d])
   \<and> (\<forall>h n w. line (snd (ser_read ops h n w))
        = line w @ (case fst (ser_read ops h n w) of Inl e \<Rightarrow> [] | Inr chunk \<Rightarrow> [Received chunk]))
   \<and> (\<forall>h w. line (snd (ser_close ops h w)) = line w \<and> line (snd (ser_flush ops h w)) = line w
        \<and> line (snd (ser_reset_input ops h w)) = line w \<and> line (snd (ser_reset_output ops h w)) = line w)
   \<and> (\<forall>w. line (snd (monotonic ops w)) = line w)
   \<and> (\<forall>p b q s t x w. line (snd (ser_open ops p b q s t x w)) = line w)"

lemma line_recordedD:
  assumes "line_recorded ops line"
  shows "ser_write ops h d w = (r, w') \<Longrightarrow> line w' = line w @ [Wrote d]"
    and "ser_close ops h w = (u, w') \<Longrightarrow> line w' = line w"
    and "ser_flush ops h w = (u, w') \<Longrightarrow> line w' = line w"
    and "ser_reset_input ops h w = (u, w') \<Longrightarrow> line w' = line w"
    and "ser_reset_output ops h w = (u, w') \<Longrightarrow> line w' = line w"
    and "ser_read ops h n w = (v, w')
      \<Longrightarrow> line w' = line w @ (case v of Inl e \<Rightarrow> [] | Inr chunk \<Rightarrow> [Received chunk])"
    and "monotonic ops w = (t, w') \<Longrightarrow> line w' = line w"
    and "ser_open ops p b q s z x w = (v', w') \<Longrightarrow> line w' = line w"
  using assms unfolding line_recorded_def by (metis fst_conv snd_conv)+

lemma writes_loggedD:
  assumes "writes_logged ops wlog"
  shows "ser_write ops h d w = (r, w') \<Longrightarrow> wlog w' = wlog w @ [d]"
    and "ser_close ops h w = (u, w') \<Longrightarrow> wlog w' = wlog w"
    and "ser_flush ops h w = (u, w') \<Longrightarrow> wlog w' = wlog w"
    and "ser_reset_input ops h w = (u, w') \<Longrightarrow> wlog w' = wlog w"
    and "ser_reset_output ops h w = (u, w') \<Longrightarrow> wlog w' = wlog w"
    and "ser_read ops h n w = (v, w') \<Longrightarrow> wlog w' = wlog w"
    and "monotonic ops w = (t, w') \<Longrightarrow> wlog w' = wlog w"
    and "ser_open ops p b q s z x w = (v', w') \<Longrightarrow> wlog w' = wlog w"
  using assms unfolding writes_logged_def by (metis snd_conv)+

subsection \<open>The loop of \<open>_read_exact\<close>\<close>

lemma read_loop_log:
  assumes lg: "writes_logged ops wlog" and run: "read_loop ops port n d chunks w = Some (r, w')"
  shows "wlog w' = wlog w"
proof -
  have "wlog (snd (r, w')) = wlog w"
  proof (rule read_loop.raw_induct [where P = "\<lambda>ops port n d chunks w y.
        writes_logged ops wlog \<longrightarrow> wlog (snd y) = wlog w", rule_format, OF _ run lg])
    fix f and ops :: "'a serial_ops" and port n d chunks w y
    assume IH: "\<And>ops port n d chunks w y. f ops port n d chunks w = Some y \<Longrightarrow>
        writes_logged ops wlog \<Longrightarrow> wlog (snd y) = wlog w"
      and eq: "(if int (length chunks) < n
          then case ser_read ops port (n - int (length chunks)) w of
            (Inl e, w') \<Rightarrow> Some (Inl e, w')
          | (Inr chunk, w') \<Rightarrow> if chunk \<noteq> [] then f ops port n d (chunks @ chunk) w'
              else case monotonic ops w' of (t, w'') \<Rightarrow>
                if d \<le> t then Some (Inl (ModbusTimeoutError (''Timed out after receiving ''
                         @ dec (int (length chunks)) @ '' of '' @ dec n @ '' bytes'')), w'')
                else f ops port n d chunks w''
          else Some (Inr chunks, w)) = Some y"
      and l: "writes_logged ops wlog"
    obtain x w1 where rd: "ser_read ops port (n - int (length chunks)) w = (x, w1)" by fastforce
    obtain t w2 where mt: "monotonic ops w1 = (t, w2)" by fastforce
    note h = writes_loggedD(6) [OF l rd] writes_loggedD(7) [OF l mt]
    show "wlog (snd y) = wlog w"
      using eq h l IH by (cases x) (auto simp: rd mt split: if_splits)
  qed
  then show ?thesis by simp
qed

lemma read_loop_step:
  "read_loop ops port n d chunks w =
     (if int (length chunks) < n then
        (case ser_read ops port (n - int (length chunks)) w of
           (Inl e, w') \<Rightarrow> Some (Inl e, w')
         | (Inr chunk, w') \<Rightarrow>
             if chunk \<noteq> [] then read_loop ops port n d (chunks @ chunk) w'
             else if d \<le> fst (monotonic ops w') then
               Some (Inl (ModbusTimeoutError (''Timed out after receiving ''
                         @ dec (int (length chunks)) @ '' of '' @ dec n @ '' bytes'')), snd (monotonic ops w'))
             else read_loop ops port n d chunks (snd (monotonic ops w')))
      else Some (Inr chunks, w))"
  by (subst read_loop.simps) (auto split: prod.split sum.split)

text \<open>A measure for the loop: the bytes still missing, then the time left in units of \<open>d\<close>.\<close>

lemma read_loop_returns:
  assumes clk: "clock_runs ops now d"
  shows "\<exists>y. read_loop ops port n dl chunks w = Some y"
proof (induction "(nat (n - int (length chunks)), nat \<lceil>(dl - now w) / d\<rceil>)" arbitrary: chunks w
    rule: wf_induct_rule [OF wf_lex_prod [OF wf_less_than wf_less_than]])
  case (1 chunks w)
  have d: "0 < d" using clk by (simp add: clock_runs_def)
  show ?case
  proof (cases "int (length chunks) < n")
    case False
    then show ?thesis by (subst read_loop_step) simp
  next
    case lt: True
    obtain x w1 where rd: "ser_read ops port (n - int (length chunks)) w = (x, w1)" by fastforce
    show ?thesis
    proof (cases x)
      case (Inl e)
      then show ?thesis using lt rd by (subst read_loop_step) simp
    next
      case (Inr chunk)
      show ?thesis
      proof (cases "chunk = []")
        case False
        then have "\<exists>y. read_loop ops port n dl (chunks @ chunk) w1 = Some y"
          using lt by (intro 1) auto
        then show ?thesis using lt rd Inr False by (subst read_loop_step) simp
      next
        case True
        define w2 where "w2 = snd (monotonic ops w1)"
        have n2: "now w2 = now w1" "fst (monotonic ops w1) = now w1"
          using clk by (auto simp: clock_runs_def w2_def)
        have adv: "now w + d \<le> now w1"
          using clk rd Inr True unfolding clock_runs_def by (metis fst_conv snd_conv)
        show ?thesis
        proof (cases "dl \<le> now w1")
          case True
          then show ?thesis using lt rd Inr \<open>chunk = []\<close> n2 by (subst read_loop_step) simp
        next
          case late: False
          have "(dl - now w1) / d \<le> (dl - now w) / d - 1"
          proof -
            have "(dl - now w1) / d \<le> ((dl - now w) - d) / d"
              using adv d by (intro divide_right_mono) simp_all
            also have "\<dots> = (dl - now w) / d - 1" using d by (simp add: diff_divide_distrib)
            finally show ?thesis .
          qed
          then have "\<lceil>(dl - now w1) / d\<rceil> \<le> \<lceil>(dl - now w) / d\<rceil> - 1"
            by (metis ceiling_diff_one ceiling_mono)
          moreover have "0 < \<lceil>(dl - now w1) / d\<rceil>" using late d by simp
          ultimately have "nat \<lceil>(dl - now w2) / d\<rceil> < nat \<lceil>(dl - now w) / d\<rceil>"
            unfolding n2(1) by linarith
          then have "\<exists>y. read_loop ops port n dl chunks w2 = Some y" by (intro 1) simp
          then show ?thesis using lt rd Inr True late n2 by (subst read_loop_step) (simp add: w2_def)
        qed
      qed
    qed
  qed
qed

subsection \<open>One attempt\<close>

lemma read_exact_log:
  assumes "writes_logged ops wlog" and "read_exact ops c port n w = Some (r, w')"
  shows "wlog w' = wlog w"
proof -
  obtain t w1 where "monotonic ops w = (t, w1)" by fastforce
  with assms(2) have "wlog w1 = wlog w" and "\<exists>d. read_loop ops port n d [] w1 = Some (r, w')"
    using writes_loggedD(7) [OF assms(1)] by (auto simp: read_exact_def Let_def)
  then show ?thesis using read_loop_log [OF assms(1)] by metis
qed

lemma read_exact_returns:
  assumes "clock_runs ops now d"
  shows "\<exists>y. read_exact ops c port n w = Some y"
  using read_loop_returns [OF assms] by (simp add: read_exact_def Let_def split_beta)

lemma read_response_log:
  assumes l: "writes_logged ops wlog" and run: "read_response ops c port k w = Some (r, w')"
  shows "wlog w' = wlog w"
proof -
  note e = read_exact_log [OF l, of c port]
  obtain x w1 where h: "read_exact ops c port 3 w = Some (x, w1)"
    using run by (auto simp: read_response_def split: option.splits)
  have w1: "wlog w1 = wlog w" using h by (rule e)
  show ?thesis
  proof (cases x)
    case (Inl e)
    with run h w1 show ?thesis by (simp add: read_response_def)
  next
    case (Inr header)
    with run h have "w' = w1 \<or> (\<exists>n y. read_exact ops c port n w1 = Some (y, w'))"
      by (auto simp: read_response_def Let_def split: option.splits prod.splits sum.splits if_splits)
    then show ?thesis using e w1 by metis
  qed
qed

lemma read_response_returns:
  assumes "clock_runs ops now d"
  shows "\<exists>y. read_response ops c port k w = Some y"
proof -
  have e: "\<And>n w. read_exact ops c port n w \<noteq> None"
    using read_exact_returns [OF assms] by (metis option.discI)
  show ?thesis
    by (auto simp: read_response_def Let_def e split: option.splits prod.splits sum.splits)
qed

lemma attempt_request_log:
  assumes l: "writes_logged ops wlog"
    and run: "attempt_request ops c port req u f n w = Some (r, st, w')"
  shows "wlog w' = wlog w \<or> wlog w' = wlog w @ [req]"
proof -
  note d = writes_loggedD [OF l]
  obtain x1 w1 where s1: "ser_reset_input ops port w = (x1, w1)" by fastforce
  obtain x2 w2 where s2: "ser_reset_output ops port w1 = (x2, w2)" by fastforce
  obtain t w3 where s3: "monotonic ops w2 = (t, w3)" by fastforce
  obtain x4 w4 where s4: "ser_write ops port req w3 = (x4, w4)" by fastforce
  obtain x5 w5 where s5: "ser_flush ops port w4 = (x5, w5)" by fastforce
  note defs = attempt_request_def s1 s2 s3 s4 s5
  have w: "wlog w1 = wlog w" "wlog w2 = wlog w" "wlog w3 = wlog w" "wlog w4 = wlog w @ [req]"
      "wlog w5 = wlog w @ [req]"
    using d(4) [OF s1] d(5) [OF s2] d(7) [OF s3] d(1) [OF s4] d(3) [OF s5] by simp_all
  have "w' \<in> {w1, w2, w4, w5} \<or> (\<exists>y. read_response ops c port n w5 = Some (y, w'))"
    using run by (auto simp: defs split: option.splits prod.splits sum.splits if_splits)
  then show ?thesis using w read_response_log [OF l] by auto
qed

lemma attempt_request_returns:
  assumes "clock_runs ops now d"
  shows "\<exists>y. attempt_request ops c port req u f n w = Some y"
proof -
  have e: "\<And>k w. read_response ops c port k w \<noteq> None"
    using read_response_returns [OF assms] by (metis option.discI)
  show ?thesis
    by (auto simp: attempt_request_def e split: option.splits prod.splits sum.splits)
qed

lemma attempt_request_ok:
  assumes "attempt_request ops c port req u f n w = Some (Inr regs, st, w')"
  shows "\<exists>frame t0. parse_read_registers_response frame u n f = Inr regs \<and> st = Some t0"
  using assms unfolding attempt_request_def
  by (auto split: option.splits prod.splits sum.splits if_splits)

subsection \<open>One round\<close>

lemma observe_request_frame:
  assumes "observe_request ops ctx u f a n i label t0 c w = (c', w')"
  shows "mc_serial c' = mc_serial c \<and> mc_context c' = mc_context c \<and> mc_has_observer c' = mc_has_observer c"
  using assms by (auto simp: observe_request_def split: if_splits prod.splits)

lemma observe_request_log:
  "writes_logged ops wlog \<Longrightarrow> observe_request ops ctx u f a n i label t0 c w = (c', w')
    \<Longrightarrow> wlog w' = wlog w"
  by (auto simp: observe_request_def split: if_splits prod.splits dest: writes_loggedD(7))

lemma observe_request_trace:
  assumes "mc_has_observer c" and "observe_request ops ctx u f a n i label t0 c w = (c', w')"
  shows "\<exists>m. mc_observed c' = mc_observed c @ [m] \<and> ms_outcome m = label \<and> ms_attempt m = i
    \<and> 0 \<le> ms_duration m"
  using assms by (auto simp: observe_request_def split: prod.splits)

lemma invalidate_serial_frame:
  assumes "invalidate_serial ops h c w = (c', w')"
  shows "mc_observed c' = mc_observed c \<and> mc_context c' = mc_context c
    \<and> mc_has_observer c' = mc_has_observer c \<and> (mc_serial c = Some h \<longrightarrow> mc_serial c' = None)"
  using assms by (auto simp: invalidate_serial_def Let_def split: if_splits)

lemma invalidate_serial_log:
  "writes_logged ops wlog \<Longrightarrow> invalidate_serial ops h c w = (c', w') \<Longrightarrow> wlog w' = wlog w"
  by (auto simp: invalidate_serial_def Let_def writes_logged_def)

lemma after_attempt_log:
  assumes "writes_logged ops wlog" and "after_attempt ops ctx u f a n i r st c w = (c', w')"
  shows "wlog w' = wlog w"
  using assms by (auto simp: after_attempt_def split: option.splits dest: observe_request_log)

lemma after_attempt_frame:
  assumes "after_attempt ops ctx u f a n i r st c w = (c', w')"
  shows "mc_serial c' = mc_serial c \<and> mc_context c' = mc_context c \<and> mc_has_observer c' = mc_has_observer c"
  using assms by (auto simp: after_attempt_def split: option.splits dest!: observe_request_frame)

lemma check_deadline_log:
  "writes_logged ops wlog \<Longrightarrow> check_deadline ops ctx w = (b, w') \<Longrightarrow> wlog w' = wlog w"
  by (auto simp: check_deadline_def split: option.splits prod.splits dest: writes_loggedD(7))

lemma attempt_round_log:
  assumes l: "writes_logged ops wlog"
    and run: "attempt_round ops ctx port req u f a n i c w = Some (r, again, c', w')"
  shows "wlog w' = wlog w \<or> wlog w' = wlog w @ [req]"
  using run
  by (auto simp: attempt_round_def split: option.splits prod.splits sum.splits if_splits
      dest!: check_deadline_log [OF l] attempt_request_log [OF l] after_attempt_log [OF l]
        invalidate_serial_log [OF l])

lemma attempt_round_returns:
  assumes "clock_runs ops now d"
  shows "\<exists>y. attempt_round ops ctx port req u f a n i c w = Some y"
proof -
  have e: "\<And>w. attempt_request ops c port req u f n w \<noteq> None"
    using attempt_request_returns [OF assms] by (metis option.discI)
  show ?thesis
    by (auto simp: attempt_round_def e split: option.splits prod.splits sum.splits)
qed

lemma attempt_round_cases:
  assumes "attempt_round ops ctx port req u f a n i c w = Some (r, again, c', w')"
  shows "again \<longleftrightarrow> (\<exists>e. r = Inl e \<and> is_timeout e \<and> again)"
    and "r = Inr regs \<Longrightarrow> \<exists>frame. parse_read_registers_response frame u n f = Inr regs"
  using assms
  by (auto simp: attempt_round_def split: option.splits prod.splits sum.splits if_splits
      dest: attempt_request_ok)

section \<open>The retry loop\<close>

lemma attempt_loop_log:
  assumes l: "writes_logged ops wlog"
  shows "attempt_loop ops ctx port req u f a n k i lt c w = Some (r, c', w')
    \<Longrightarrow> \<exists>j \<le> k. wlog w' = wlog w @ replicate j req"
proof (induction k arbitrary: i lt c w)
  case 0
  then show ?case by simp
next
  case (Suc k)
  then obtain r1 again c1 w1 where
    rd: "attempt_round ops ctx port req u f a n i c w = Some (r1, again, c1, w1)"
    by (auto split: option.splits)
  obtain j1 where j1: "j1 \<le> 1" "wlog w1 = wlog w @ replicate j1 req"
    using attempt_round_log [OF l rd] by (metis append_Nil2 le_numeral_extra(4) replicate_0
        replicate_Suc One_nat_def zero_le_one)
  show ?case
  proof (cases again)
    case True
    with Suc.prems rd obtain j where "j \<le> k" "wlog w' = wlog w1 @ replicate j req"
      using Suc.IH by fastforce
    then show ?thesis using j1 by (intro exI [of _ "j1 + j"]) (simp add: replicate_add)
  next
    case False
    with Suc.prems rd j1 show ?thesis by auto
  qed
qed

lemma attempt_loop_returns:
  assumes "clock_runs ops now d"
  shows "\<exists>y. attempt_loop ops ctx port req u f a n k i lt c w = Some y"
proof (induction k arbitrary: i lt c w)
  case (Suc k)
  obtain y where "attempt_round ops ctx port req u f a n i c w = Some y"
    using attempt_round_returns [OF assms] by blast
  with Suc show ?case by (cases y) simp
qed simp

lemma attempt_loop_ok:
  "attempt_loop ops ctx port req u f a n k i lt c w = Some (Inr regs, c', w')
    \<Longrightarrow> \<exists>frame. parse_read_registers_response frame u n f = Inr regs"
  by (induction k arbitrary: i lt c w)
    (auto split: option.splits prod.splits if_splits dest: attempt_round_cases(2))

subsection \<open>The observations of a run\<close>

definition retry_trace :: "int \<Rightarrow> nat \<Rightarrow> measurement list \<Rightarrow> bool" where
  "retry_trace i k ms \<longleftrightarrow> length ms \<le> k \<and> sorted_wrt (<) (map ms_attempt ms)
   \<and> (\<forall>m \<in> set ms. i < ms_attempt m \<and> ms_attempt m \<le> i + int k \<and> 0 \<le> ms_duration m)
   \<and> (\<forall>m \<in> set (butlast ms). ms_outcome m = ''timeout'')"

lemma retry_trace_Nil [simp]: "retry_trace i k []"
  by (simp add: retry_trace_def)

lemma retry_trace_one: "ms_attempt m = i + 1 \<Longrightarrow> 0 \<le> ms_duration m \<Longrightarrow> retry_trace i (Suc k) [m]"
  by (simp add: retry_trace_def)

lemma retry_trace_Cons:
  assumes "ms_attempt m = i + 1" and "0 \<le> ms_duration m" and "ms_outcome m = ''timeout''"
    and "retry_trace (i + 1) k ms"
  shows "retry_trace i (Suc k) (m # ms)"
  using assms by (auto simp: retry_trace_def)

lemma retry_trace_skip: "retry_trace (i + 1) k ms \<Longrightarrow> retry_trace i (Suc k) ms"
  by (auto simp: retry_trace_def)

lemma attempt_round_trace:
  assumes obs: "mc_has_observer c"
    and run: "attempt_round ops ctx port req u f a n i c w = Some (r, again, c', w')"
  shows "mc_has_observer c' \<and> (mc_observed c' = mc_observed c \<or>
     (\<exists>m. mc_observed c' = mc_observed c @ [m] \<and> ms_attempt m = i + 1 \<and> 0 \<le> ms_duration m
        \<and> outcome_label r = Some (ms_outcome m)))"
proof -
  obtain over w0 where cd: "check_deadline ops ctx w = (over, w0)" by fastforce
  show ?thesis
  proof (cases over)
    case True
    with run cd obs show ?thesis by (simp add: attempt_round_def)
  next
    case False
    with run cd obtain r1 st w1 where at: "attempt_request ops c port req u f n w0 = Some (r1, st, w1)"
      by (auto simp: attempt_round_def split: option.splits)
    obtain c2 w2 where aa: "after_attempt ops ctx u f a n i r1 st c w1 = (c2, w2)" by fastforce
    have r: "r = r1" and c': "mc_observed c' = mc_observed c2 \<and> mc_has_observer c' = mc_has_observer c2"
      using run cd False at aa
      by (auto simp: attempt_round_def split: sum.splits if_splits dest: invalidate_serial_frame)
    have "mc_observed c2 = mc_observed c \<or> (\<exists>m. mc_observed c2 = mc_observed c @ [m] \<and>
        ms_attempt m = i + 1 \<and> 0 \<le> ms_duration m \<and> outcome_label r1 = Some (ms_outcome m))"
      using aa unfolding after_attempt_def
      by (auto split: option.splits dest!: observe_request_trace [OF obs])
    with c' r after_attempt_frame [OF aa] obs show ?thesis by simp
  qed
qed

lemma outcome_timeout: "outcome_label (Inl e) = Some l \<Longrightarrow> is_timeout e \<Longrightarrow> l = ''timeout''"
  by (cases e) (auto simp: is_timeout_def)

lemma attempt_round_again:
  "attempt_round ops ctx port req u f a n i c w = Some (r, True, c', w') \<Longrightarrow> \<exists>e. r = Inl e \<and> is_timeout e"
  by (auto simp: attempt_round_def split: option.splits prod.splits sum.splits if_splits)

lemma attempt_loop_trace:
  "mc_has_observer c \<Longrightarrow> attempt_loop ops ctx port req u f a n k i lt c w = Some (r, c', w')
    \<Longrightarrow> \<exists>ms. mc_observed c' = mc_observed c @ ms \<and> retry_trace i k ms"
proof (induction k arbitrary: i lt c w)
  case 0
  then show ?case by simp
next
  case (Suc k)
  from Suc.prems(2) obtain r1 again c1 w1 where
    rd: "attempt_round ops ctx port req u f a n i c w = Some (r1, again, c1, w1)"
    by (auto split: option.splits)
  note tr = attempt_round_trace [OF Suc.prems(1) rd]
  show ?case
  proof (cases again)
    case True
    with rd obtain e where e: "r1 = Inl e" "is_timeout e" using attempt_round_again by metis
    from Suc.prems(2) rd True tr obtain ms where
      ms: "mc_observed c' = mc_observed c1 @ ms" "retry_trace (i + 1) k ms"
      using Suc.IH by fastforce
    show ?thesis
    proof (cases "mc_observed c1 = mc_observed c")
      case True
      with ms show ?thesis by (auto intro: retry_trace_skip)
    next
      case False
      with tr obtain m where m: "mc_observed c1 = mc_observed c @ [m]" "ms_attempt m = i + 1"
        "0 \<le> ms_duration m" "outcome_label r1 = Some (ms_outcome m)" by auto
      with e have "ms_outcome m = ''timeout''" using outcome_timeout by metis
      with m ms show ?thesis by (intro exI [of _ "m # ms"]) (simp add: retry_trace_Cons)
    qed
  next
    case False
    with Suc.prems(2) rd tr show ?thesis by (auto intro: retry_trace_one)
  qed
qed

subsection \<open>The handle over a run\<close>

definition result_io_failure :: "'a result \<Rightarrow> bool" where
  "result_io_failure r = (case r of Inl e \<Rightarrow> io_failure e | Inr _ \<Rightarrow> False)"

lemma timeout_not_io: "is_timeout e \<Longrightarrow> \<not> io_failure e"
  by (cases e) (auto simp: is_timeout_def io_failure_def)

lemma io_failure_simps [simp]:
  "\<not> io_failure (ModbusTimeoutError m)" "\<not> io_failure (OtherError m)"
  by (simp_all add: io_failure_def)

lemma attempt_round_handle:
  assumes h: "mc_serial c = Some port"
    and run: "attempt_round ops ctx port req u f a n i c w = Some (r, again, c', w')"
  shows "mc_serial c' = (if result_io_failure r then None else Some port) \<and> (again \<longrightarrow> \<not> result_io_failure r)
    \<and> mc_context c' = mc_context c"
  using run h
  by (auto simp: attempt_round_def result_io_failure_def timeout_not_io
      split: option.splits prod.splits sum.splits if_splits
      dest!: after_attempt_frame invalidate_serial_frame)

lemma attempt_loop_handle:
  "mc_serial c = Some port \<Longrightarrow> (case lt of None \<Rightarrow> True | Some e \<Rightarrow> is_timeout e)
    \<Longrightarrow> attempt_loop ops ctx port req u f a n k i lt c w = Some (r, c', w')
    \<Longrightarrow> mc_serial c' = (if result_io_failure r then None else Some port) \<and> mc_context c' = mc_context c"
proof (induction k arbitrary: i lt c w)
  case 0
  then show ?case
    by (auto simp: result_io_failure_def timeout_not_io split: option.splits)
next
  case (Suc k)
  from Suc.prems(3) obtain r1 again c1 w1 where
    rd: "attempt_round ops ctx port req u f a n i c w = Some (r1, again, c1, w1)"
    by (auto split: option.splits)
  note h = attempt_round_handle [OF Suc.prems(1) rd]
  show ?case
  proof (cases again)
    case True
    with rd obtain e where e: "r1 = Inl e" "is_timeout e" using attempt_round_again by metis
    with h True have c1: "mc_serial c1 = Some port" "mc_context c1 = mc_context c" by auto
    have "attempt_loop ops ctx port req u f a n k (i + 1) (Some e) c1 w1 = Some (r, c', w')"
      using Suc.prems(3) rd True e(1) by simp
    from Suc.IH [OF c1(1) _ this] e(2) c1(2) show ?thesis by simp
  next
    case False
    with Suc.prems(3) rd h show ?thesis by simp
  qed
qed

section \<open>Where a result comes from\<close>

text \<open>The chunks one loop receives: they are all of what it returns beyond what it had.\<close>

definition received :: "('w \<Rightarrow> line_event list) \<Rightarrow> 'w \<Rightarrow> byte list \<Rightarrow> byte list result \<times> 'w \<Rightarrow> bool" where
  "received line w before y \<longleftrightarrow> (\<exists>cs. line (snd y) = line w @ map Received cs
     \<and> (\<forall>bs. fst y = Inr bs \<longrightarrow> bs = before @ concat cs))"

lemma received_more:
  "line w' = line w @ map Received cs \<Longrightarrow> received line w' (before @ concat cs) y \<Longrightarrow> received line w before y"
  unfolding received_def by (elim exE) (rule_tac x = "cs @ csa" in exI, simp)

lemma received_none: "line w' = line w @ map Received cs \<Longrightarrow> received line w before (Inl e, w')"
  by (auto simp: received_def)

lemma read_loop_received:
  assumes lg: "line_recorded ops line" and run: "read_loop ops port n d chunks w = Some y"
  shows "received line w chunks y"
proof (rule read_loop.raw_induct [where P = "\<lambda>ops port n d chunks w y.
      line_recorded ops line \<longrightarrow> received line w chunks y", rule_format, OF _ run lg])
  fix f and ops :: "'a serial_ops" and port n d chunks w y
  assume IH: "\<And>ops port n d chunks w y. f ops port n d chunks w = Some y \<Longrightarrow>
      line_recorded ops line \<Longrightarrow> received line w chunks y"
    and eq: "(if int (length chunks) < n
        then case ser_read ops port (n - int (length chunks)) w of
          (Inl e, w') \<Rightarrow> Some (Inl e, w')
        | (Inr chunk, w') \<Rightarrow> if chunk \<noteq> [] then f ops port n d (chunks @ chunk) w'
            else case monotonic ops w' of (t, w'') \<Rightarrow>
              if d \<le> t then Some (Inl (ModbusTimeoutError (''Timed out after receiving ''
                       @ dec (int (length chunks)) @ '' of '' @ dec n @ '' bytes'')), w'')
              else f ops port n d chunks w''
        else Some (Inr chunks, w)) = Some y"
    and l: "line_recorded ops line"
  obtain x w1 where rd: "ser_read ops port (n - int (length chunks)) w = (x, w1)" by fastforce
  obtain t w2 where mt: "monotonic ops w1 = (t, w2)" by fastforce
  note h = line_recordedD(6) [OF l rd] line_recordedD(7) [OF l mt]
  show "received line w chunks y"
  proof (cases "int (length chunks) < n")
    case False
    with eq show ?thesis by (auto simp: received_def intro: exI [of _ "[]"])
  next
    case lt: True
    show ?thesis
    proof (cases x)
      case (Inl e)
      with eq lt rd h show ?thesis by (auto intro: received_none [of _ _ _ "[]"])
    next
      case (Inr chunk)
      have w1: "line w1 = line w @ map Received [chunk]" "line w2 = line w @ map Received [chunk]" using h Inr by simp_all
      show ?thesis
      proof (cases "chunk = [] \<and> d \<le> t")
        case True
        with eq lt rd mt Inr obtain e where "y = (Inl e, w2)" by auto
        with received_none [of line w2 w "[chunk]"] w1(2) show ?thesis by simp
      next
        case False
        then have "f ops port n d (chunks @ concat [chunk]) (if chunk = [] then w2 else w1) = Some y"
          using eq lt rd mt Inr by (auto split: if_splits)
        from IH [OF this l] show ?thesis using w1 by (intro received_more [of line _ w "[chunk]"]) auto
      qed
    qed
  qed
qed

lemma read_exact_received:
  assumes "line_recorded ops line" and "read_exact ops c port n w = Some y"
  shows "received line w [] y"
proof -
  obtain t w1 where m: "monotonic ops w = (t, w1)" by fastforce
  with assms(2) obtain d where "read_loop ops port n d [] w1 = Some y" by (auto simp: read_exact_def Let_def)
  from read_loop_received [OF assms(1) this] line_recordedD(7) [OF assms(1) m] show ?thesis by (simp add: received_def)
qed

lemma read_response_received:
  assumes l: "line_recorded ops line" and run: "read_response ops c port k w = Some y"
  shows "received line w [] y"
proof -
  obtain x w1 where h: "read_exact ops c port 3 w = Some (x, w1)"
    using run by (auto simp: read_response_def split: option.splits)
  from read_exact_received [OF l h] obtain cs where cs: "line w1 = line w @ map Received cs"
    "\<And>bs. x = Inr bs \<Longrightarrow> bs = concat cs" by (auto simp: received_def)
  show ?thesis
  proof (cases x)
    case (Inl e)
    with run h cs show ?thesis by (auto simp: read_response_def intro: received_none)
  next
    case (Inr header)
    from run h Inr consider (bad) e where "y = (Inl e, w1)"
      | (rest) n z w2 where "read_exact ops c port n w1 = Some (z, w2)"
          "y = (case z of Inl e \<Rightarrow> (Inl e, w2) | Inr bs \<Rightarrow> (Inr (header @ bs), w2))"
      by (auto simp: read_response_def Let_def split: option.splits prod.splits sum.splits if_splits)
    then show ?thesis
    proof cases
      case bad
      with cs show ?thesis by (auto intro: received_none)
    next
      case rest
      from read_exact_received [OF l rest(1)] rest(2) cs Inr show ?thesis
        by (intro received_more [of line w1 w cs]) (auto simp: received_def split: sum.splits)
    qed
  qed
qed

text \<open>
  \<open>answered line w w' req u n f regs\<close>: what passed over the wire between \<open>w\<close> and \<open>w'\<close> ends with the request
  followed by chunks that together are one frame, which the parser reads as \<open>regs\<close>.
\<close>

definition answered :: "('w \<Rightarrow> line_event list) \<Rightarrow> 'w \<Rightarrow> 'w \<Rightarrow> byte list \<Rightarrow> int \<Rightarrow> int \<Rightarrow> int \<Rightarrow> int list \<Rightarrow> bool" where
  "answered line w w' req u n f regs \<longleftrightarrow> (\<exists>pre cs. line w' = line w @ pre @ Wrote req # map Received cs
     \<and> parse_read_registers_response (concat cs) u n f = Inr regs)"

definition ends_answered where
  "ends_answered line w w' req u n f r \<longleftrightarrow>
     (\<exists>ext. line w' = line w @ ext) \<and> (\<forall>regs. r = Inr regs \<longrightarrow> answered line w w' req u n f regs)"

lemma ends_answered_error: "line w' = line w @ ext \<Longrightarrow> ends_answered line w w' req u n f (Inl e)"
  by (auto simp: ends_answered_def)

lemma ends_answered_cong: "line w0 = line w \<Longrightarrow> line w1 = line w' \<Longrightarrow> ends_answered line w0 w1 req u n f r
    \<Longrightarrow> ends_answered line w w' req u n f r"
  by (simp add: ends_answered_def answered_def)

lemma ends_answered_later:
  "line w1 = line w @ ext \<Longrightarrow> ends_answered line w1 w' req u n f r \<Longrightarrow> ends_answered line w w' req u n f r"
  by (auto simp: ends_answered_def answered_def) (metis append.assoc)

lemma attempt_request_answered:
  assumes l: "line_recorded ops line"
    and run: "attempt_request ops c port req u f n w = Some (r, st, w')"
  shows "ends_answered line w w' req u n f r"
proof -
  note d = line_recordedD [OF l]
  obtain x1 w1 where s1: "ser_reset_input ops port w = (x1, w1)" by fastforce
  obtain x2 w2 where s2: "ser_reset_output ops port w1 = (x2, w2)" by fastforce
  obtain t w3 where s3: "monotonic ops w2 = (t, w3)" by fastforce
  obtain x4 w4 where s4: "ser_write ops port req w3 = (x4, w4)" by fastforce
  obtain x5 w5 where s5: "ser_flush ops port w4 = (x5, w5)" by fastforce
  have w: "line w1 = line w @ []" "line w2 = line w @ []" "line w4 = line w @ [Wrote req]" "line w5 = line w @ [Wrote req]"
    using d(4) [OF s1] d(5) [OF s2] d(7) [OF s3] d(1) [OF s4] d(3) [OF s5] by simp_all
  from run consider (early) e v where "r = Inl e" "w' = v" "v \<in> {w1, w2, w4, w5}"
    | (read) y where "read_response ops c port n w5 = Some y" "w' = snd y"
        "r = (case fst y of Inl e \<Rightarrow> Inl e | Inr frame \<Rightarrow> parse_read_registers_response frame u n f)"
    by (auto simp: attempt_request_def s1 s2 s3 s4 s5 split: option.splits prod.splits sum.splits if_splits)
  then show ?thesis
  proof cases
    case early
    with w show ?thesis by (auto intro: ends_answered_error)
  next
    case read
    from read_response_received [OF l read(1)] obtain cs where
      "line w' = line w @ Wrote req # map Received cs" "\<And>bs. fst y = Inr bs \<Longrightarrow> bs = concat cs"
      using w(4) read(2) by (auto simp: received_def)
    with read(3) show ?thesis
      by (force simp: ends_answered_def answered_def split: sum.splits)
  qed
qed

lemma observe_request_line:
  "line_recorded ops line \<Longrightarrow> observe_request ops ctx u f a n i label t0 c w = (c', w') \<Longrightarrow> line w' = line w"
  by (auto simp: observe_request_def split: if_splits prod.splits dest: line_recordedD(7))

lemma after_attempt_line:
  "line_recorded ops line \<Longrightarrow> after_attempt ops ctx u f a n i r st c w = (c', w') \<Longrightarrow> line w' = line w"
  by (auto simp: after_attempt_def split: option.splits dest: observe_request_line)

lemma invalidate_serial_line:
  "line_recorded ops line \<Longrightarrow> invalidate_serial ops h c w = (c', w') \<Longrightarrow> line w' = line w"
  by (auto simp: invalidate_serial_def Let_def line_recorded_def)

lemma check_deadline_line:
  "line_recorded ops line \<Longrightarrow> check_deadline ops ctx w = (b, w') \<Longrightarrow> line w' = line w"
  by (auto simp: check_deadline_def split: option.splits prod.splits dest: line_recordedD(7))

lemma attempt_round_answered:
  assumes l: "line_recorded ops line"
    and run: "attempt_round ops ctx port req u f a n i c w = Some (r, again, c', w')"
  shows "ends_answered line w w' req u n f r"
proof -
  obtain over w0 where cd: "check_deadline ops ctx w = (over, w0)" by fastforce
  note w0 = check_deadline_line [OF l cd]
  show ?thesis
  proof (cases over)
    case True
    with run cd w0 show ?thesis by (auto simp: attempt_round_def intro!: ends_answered_error [of _ _ _ "[]"])
  next
    case False
    with run cd obtain r1 st w1 where at: "attempt_request ops c port req u f n w0 = Some (r1, st, w1)"
      by (auto simp: attempt_round_def split: option.splits)
    obtain c2 w2 where aa: "after_attempt ops ctx u f a n i r1 st c w1 = (c2, w2)" by fastforce
    have "r = r1" and "line w' = line w2"
      using run cd False at aa
      by (auto simp: attempt_round_def split: sum.splits if_splits dest: invalidate_serial_line [OF l])
    with attempt_request_answered [OF l at] w0 after_attempt_line [OF l aa] show ?thesis
      by (auto elim: ends_answered_cong [rotated 2])
  qed
qed

lemma attempt_loop_answered:
  assumes l: "line_recorded ops line"
  shows "attempt_loop ops ctx port req u f a n k i lt c w = Some (r, c', w') \<Longrightarrow> ends_answered line w w' req u n f r"
proof (induction k arbitrary: i lt c w)
  case 0
  then show ?case by (auto intro!: ends_answered_error [of _ _ _ "[]"])
next
  case (Suc k)
  then obtain r1 again c1 w1 where
    rd: "attempt_round ops ctx port req u f a n i c w = Some (r1, again, c1, w1)"
    by (auto split: option.splits)
  note e = attempt_round_answered [OF l rd]
  show ?case
  proof (cases again)
    case True
    with Suc.prems rd have "ends_answered line w1 w' req u n f r" using Suc.IH by simp
    moreover from e obtain ext where "line w1 = line w @ ext" by (auto simp: ends_answered_def)
    ultimately show ?thesis by (rule ends_answered_later [rotated])
  next
    case False
    with Suc.prems rd e show ?thesis by simp
  qed
qed

section \<open>A port that delivers a correct answer\<close>

text \<open>
  \<open>delivers ops h pend\<close>: \<open>pend w\<close> is the input still to come on the line; a read of \<open>n > 0\<close> bytes takes
  a non-empty prefix of it, of any length up to \<open>n\<close>, as a stream may be cut anywhere, and looking at
  the clock leaves it alone.
\<close>

definition delivers :: "'w serial_ops \<Rightarrow> nat \<Rightarrow> ('w \<Rightarrow> byte list) \<Rightarrow> bool" where
  "delivers ops h pend \<longleftrightarrow>
     (\<forall>n w. 0 < n \<longrightarrow> pend w \<noteq> [] \<longrightarrow> (\<exists>j w'. 0 < j \<and> int j \<le> n \<and>
        ser_read ops h n w = (Inr (take j (pend w)), w') \<and> pend w' = drop j (pend w)))
   \<and> (\<forall>w. pend (snd (monotonic ops w)) = pend w)"

lemma read_loop_delivers:
  assumes d: "delivers ops port pend"
  shows "int (length chunks) + int (length (pend w)) \<ge> n \<Longrightarrow>
    \<exists>w'. read_loop ops port n dl chunks w
        = Some (Inr (chunks @ take (nat n - length chunks) (pend w)), w')
      \<and> pend w' = drop (nat n - length chunks) (pend w)"
proof (induction "nat n - length chunks" arbitrary: chunks w rule: less_induct)
  case less
  show ?case
  proof (cases "int (length chunks) < n")
    case False
    then show ?thesis by (subst read_loop_step) simp
  next
    case True
    then have "0 < n - int (length chunks)" "pend w \<noteq> []" using less.prems by auto
    then obtain j w1 where j: "0 < j" "int j \<le> n - int (length chunks)"
      and rd: "ser_read ops port (n - int (length chunks)) w = (Inr (take j (pend w)), w1)"
      and p1: "pend w1 = drop j (pend w)"
      using d unfolding delivers_def by blast
    have ne: "take j (pend w) \<noteq> []" using j \<open>pend w \<noteq> []\<close> by simp
    have jl: "j \<le> length (pend w)" using j less.prems True by linarith
    define ch where "ch = chunks @ take j (pend w)"
    have lc: "length ch = length chunks + j" using jl by (simp add: ch_def)
    have "nat n - length ch < nat n - length chunks" using lc j True by linarith
    moreover have "n \<le> int (length ch) + int (length (pend w1))" using lc jl less.prems by (simp add: p1)
    ultimately obtain w2 where
      w2: "read_loop ops port n dl ch w1 = Some (Inr (ch @ take (nat n - length ch) (pend w1)), w2)"
        "pend w2 = drop (nat n - length ch) (pend w1)"
      using less.hyps by blast
    have k: "nat n - length chunks = j + (nat n - length ch)" using lc j True by linarith
    have "ch @ take (nat n - length ch) (pend w1) = chunks @ take (nat n - length chunks) (pend w)"
      by (simp add: ch_def p1 k take_add)
    moreover have "pend w2 = drop (nat n - length chunks) (pend w)"
      by (simp add: w2(2) p1 k add.commute)
    ultimately show ?thesis
      using True rd ne w2(1) by (subst read_loop_step) (auto simp: ch_def)
  qed
qed

lemma read_exact_delivers:
  assumes "delivers ops port pend" and "0 \<le> n" and "n \<le> int (length (pend w))"
  shows "\<exists>w'. read_exact ops c port n w = Some (Inr (take (nat n) (pend w)), w')
    \<and> pend w' = drop (nat n) (pend w)"
proof -
  obtain t w1 where m: "monotonic ops w = (t, w1)" by fastforce
  have "pend w1 = pend w" using assms(1) m unfolding delivers_def by (metis snd_conv)
  then show ?thesis
    using read_loop_delivers [OF assms(1), of n "[]" w1] assms(3)
    by (simp add: read_exact_def m Let_def)
qed

lemma read_response_delivers:
  assumes d: "delivers ops port pend" and f: "f \<in> {3, 4}" and u: "0 \<le> u" "u < 256"
    and len: "1 \<le> length regs" "length regs \<le> 125" and pw: "pend w = register_answer u f regs"
  shows "\<exists>w'. read_response ops c port (int (length regs)) w = Some (Inr (register_answer u f regs), w')"
proof -
  define fr where "fr = register_answer u f regs"
  define k where "k = 2 * length regs"
  have lf: "length fr = k + 5" by (simp add: fr_def register_answer_length k_def)
  obtain w1 where h: "read_exact ops c port 3 w = Some (Inr (take 3 fr), w1)" "pend w1 = drop 3 fr"
    using read_exact_delivers [OF d, of 3 w c] lf by (auto simp: pw fr_def)
  have f1: "uint (take 3 fr ! 1) = f"
    using f by (auto simp: fr_def register_answer_def Let_def uint_byte_of_int)
  have "fr ! 2 = word_of_int (2 * int (length regs))"
    by (simp add: fr_def register_answer_def Let_def)
  then have f2: "uint (take 3 fr ! 2) = int (length regs) * 2"
    using len uint_byte_of_int [of "2 * int (length regs)"] by simp
  have nf: "f AND 0x80 = 0" using f by auto
  obtain w2 where "read_exact ops c port (int (length regs) * 2 + 2) w1
      = Some (Inr (take (nat (int (length regs) * 2 + 2)) (drop 3 fr)), w2)"
    using read_exact_delivers [OF d, of "int (length regs) * 2 + 2" w1 c] lf h(2) by (auto simp: k_def)
  moreover have "nat (int (length regs) * 2 + 2) = length (drop 3 fr)" using lf by (simp add: k_def)
  ultimately have "read_exact ops c port (int (length regs) * 2 + 2) w1 = Some (Inr (drop 3 fr), w2)"
    by simp
  then have "read_response ops c port (int (length regs)) w = Some (Inr (take 3 fr @ drop 3 fr), w2)"
    unfolding read_response_def h(1) Let_def option.case prod.case sum.case f1 f2
    by (simp add: nf)
  then show ?thesis by (simp add: fr_def)
qed

text \<open>
  \<open>answers ops h pend req ans\<close>: the buffers can be reset, writing \<open>req\<close> is accepted in full, and
  after the flush \<open>ans\<close> is what the line delivers.
\<close>

definition answers :: "'w serial_ops \<Rightarrow> nat \<Rightarrow> ('w \<Rightarrow> byte list) \<Rightarrow> byte list \<Rightarrow> byte list \<Rightarrow> bool" where
  "answers ops h pend req ans \<longleftrightarrow> delivers ops h pend
   \<and> (\<forall>w. fst (ser_reset_input ops h w) = Inr () \<and> fst (ser_reset_output ops h w) = Inr ())
   \<and> (\<forall>w. fst (ser_write ops h req w) = Inr (int (length req))
        \<and> fst (ser_flush ops h (snd (ser_write ops h req w))) = Inr ()
        \<and> pend (snd (ser_flush ops h (snd (ser_write ops h req w)))) = ans)"

lemma attempt_request_answers:
  assumes an: "answers ops port pend req (register_answer u f regs)"
    and f: "f \<in> {3, 4}" and u: "0 \<le> u" "u < 256"
    and len: "1 \<le> length regs" "length regs \<le> 125" and r: "\<forall>r \<in> set regs. in_word16 r"
  shows "\<exists>t0 w'. attempt_request ops c port req u f (int (length regs)) w = Some (Inr regs, Some t0, w')"
proof -
  obtain w1 where s1: "ser_reset_input ops port w = (Inr (), w1)"
    using an unfolding answers_def by (metis surjective_pairing)
  obtain w2 where s2: "ser_reset_output ops port w1 = (Inr (), w2)"
    using an unfolding answers_def by (metis surjective_pairing)
  obtain t w3 where s3: "monotonic ops w2 = (t, w3)" by fastforce
  obtain w4 where s4: "ser_write ops port req w3 = (Inr (int (length req)), w4)"
    using an unfolding answers_def by (metis surjective_pairing)
  obtain w5 where s5: "ser_flush ops port w4 = (Inr (), w5)" and p5: "pend w5 = register_answer u f regs"
    using an s4 unfolding answers_def by (metis surjective_pairing snd_conv)
  have "delivers ops port pend" using an by (simp add: answers_def)
  from read_response_delivers [OF this f u len p5]
  obtain w6 where s6: "read_response ops c port (int (length regs)) w5
      = Some (Inr (register_answer u f regs), w6)" by blast
  have "f \<noteq> f OR 0x80" "0 \<le> f" "f < 256" using f by auto
  with parse_complete [of u f regs] u len r
  have "parse_read_registers_response (register_answer u f regs) u (int (length regs)) f = Inr regs"
    by simp
  then show ?thesis by (simp add: attempt_request_def s1 s2 s3 s4 s5 s6)
qed

lemma attempt_loop_answers:
  assumes "answers ops port pend req (register_answer u f regs)"
    and "f \<in> {3, 4}" and "0 \<le> u" "u < 256" and "1 \<le> length regs" "length regs \<le> 125"
    and "\<forall>r \<in> set regs. in_word16 r" and dl: "ctx_deadline ctx = None"
  shows "\<exists>c' w'. attempt_loop ops ctx port req u f a (int (length regs)) (Suc k) i lt c w
    = Some (Inr regs, c', w')"
proof -
  obtain t0 w1 where at: "attempt_request ops c port req u f (int (length regs)) w
      = Some (Inr regs, Some t0, w1)"
    using attempt_request_answers [OF assms(1-7)] by blast
  show ?thesis
    by (simp add: attempt_round_def check_deadline_def dl at split_beta)
qed

lemma read_registers_answers:
  assumes "answers ops h pend (request_frame u f a n) (register_answer u f regs)"
    and "request_valid u f a n" and "int (length regs) = n"
    and "\<forall>r \<in> set regs. in_word16 r" and "mc_serial c = Some h" and "0 \<le> mc_retries c"
    and "ctx_deadline (get_context c) = None"
  shows "\<exists>c' w'. read_registers ops u f a n c w = Some (Inr regs, c', w')"
proof -
  obtain k where k: "nat (mc_retries c + 1) = Suc k" using assms(6) by (cases "nat (mc_retries c + 1)") auto
  have b: "f \<in> {3, 4}" "0 \<le> u" "u < 256" "1 \<le> length regs" "length regs \<le> 125"
    using assms(2,3) by (auto simp: request_valid_def)
  from attempt_loop_answers [OF assms(1) b assms(4,7)] show ?thesis
    using assms(2,3,5) k by (simp add: read_registers_def build_request_ok client_open_def del: attempt_loop.simps)
qed

section \<open>A simulated port\<close>

text \<open>For the witnesses: a clock in whole seconds, the pending input, and the frames written. A write
  makes \<open>ans\<close> the pending input, and a read of an idle line takes one second.\<close>

type_synonym sim = "nat \<times> byte list \<times> byte list list"

definition sim_ops :: "byte list \<Rightarrow> sim serial_ops" where
  "sim_ops ans = \<lparr>ser_present = True,
     ser_open = (\<lambda>p b q s t x w. (Inr 0, w)),
     ser_close = (\<lambda>h w. (Inr (), w)),
     ser_reset_input = (\<lambda>h w. (Inr (), w)),
     ser_reset_output = (\<lambda>h w. (Inr (), w)),
     ser_write = (\<lambda>h d (t, p, l). (Inr (int (length d)), (t, ans, l @ [d]))),
     ser_flush = (\<lambda>h w. (Inr (), w)),
     ser_read = (\<lambda>h n (t, p, l). if p = [] \<or> n \<le> 0 then (Inr [], (t + 1, p, l))
        else (Inr (take (nat n) p), (t, drop (nat n) p, l))),
     monotonic = (\<lambda>(t, p, l). (of_nat t, (t, p, l)))\<rparr>"

definition sim_client :: client where
  "sim_client = \<lparr>mc_port = ''/dev/rs485'', mc_baudrate = 9600, mc_parity = ''N'', mc_stopbits = 1,
     mc_timeout = 1, mc_retries = 1, mc_has_factory = False, mc_serial = Some 0,
     mc_has_observer = True, mc_observed = [], mc_context = None, mc_exclusive = False\<rparr>"

lemma sim_logged: "writes_logged (sim_ops ans) (\<lambda>(t, p, l). l)"
  by (auto simp: writes_logged_def sim_ops_def)

text \<open>Any port with its line recorded beside its world.\<close>

definition recording :: "'w serial_ops \<Rightarrow> ('w \<times> line_event list) serial_ops" where
  "recording ops = \<lparr>ser_present = ser_present ops,
     ser_open = (\<lambda>p b q s t x (w, l). map_prod id (\<lambda>w'. (w', l)) (ser_open ops p b q s t x w)),
     ser_close = (\<lambda>h (w, l). map_prod id (\<lambda>w'. (w', l)) (ser_close ops h w)),
     ser_reset_input = (\<lambda>h (w, l). map_prod id (\<lambda>w'. (w', l)) (ser_reset_input ops h w)),
     ser_reset_output = (\<lambda>h (w, l). map_prod id (\<lambda>w'. (w', l)) (ser_reset_output ops h w)),
     ser_write = (\<lambda>h d (w, l). map_prod id (\<lambda>w'. (w', l @ [Wrote d])) (ser_write ops h d w)),
     ser_flush = (\<lambda>h (w, l). map_prod id (\<lambda>w'. (w', l)) (ser_flush ops h w)),
     ser_read = (\<lambda>h n (w, l). case ser_read ops h n w of
        (Inl e, w') \<Rightarrow> (Inl e, (w', l)) | (Inr chunk, w') \<Rightarrow> (Inr chunk, (w', l @ [Received chunk]))),
     monotonic = (\<lambda>(w, l). map_prod id (\<lambda>w'. (w', l)) (monotonic ops w))\<rparr>"

lemma recording_recorded: "line_recorded (recording ops) snd"
  by (auto simp: line_recorded_def recording_def split: prod.splits sum.splits)

lemma recording_answers:
  assumes "answers ops h pend req ans"
  shows "answers (recording ops) h (pend \<circ> fst) req ans"
proof -
  have "delivers ops h pend" using assms by (simp add: answers_def)
  then have "delivers (recording ops) h (pend \<circ> fst)"
    unfolding delivers_def by (fastforce simp: recording_def split: prod.splits)
  with assms show ?thesis by (auto simp: answers_def recording_def split: prod.splits)
qed

lemma sim_clock: "clock_runs (sim_ops ans) (\<lambda>(t, p, l). of_nat t) 1"
  by (auto simp: clock_runs_def sim_ops_def split: if_splits)

lemma sim_delivers: "delivers (sim_ops ans) 0 (\<lambda>(t, p, l). p)"
proof -
  have "\<exists>j. 0 < j \<and> int j \<le> n \<and> take (nat n) p = take j p \<and> drop (nat n) p = drop j p"
    if "0 < n" for n :: int and p :: "byte list"
    using that by (intro exI [of _ "nat n"]) simp
  then show ?thesis by (auto simp: delivers_def sim_ops_def)
qed

lemma sim_answers: "answers (sim_ops ans) 0 (\<lambda>(t, p, l). p) req ans"
  using sim_delivers by (auto simp: answers_def sim_ops_def)

lemma sim_answered:
  "\<exists>c' w'. read_registers (sim_ops (register_answer 1 3 [215, 0])) 1 3 256 2 sim_client (0, [], [])
     = Some (Inr [215, 0], c', w')"
  by (rule read_registers_answers [OF sim_answers])
    (simp_all add: request_valid_def in_word16_def sim_client_def get_context_def default_context_def)

section \<open>Properties\<close>

text \<open>C2: The client is read-only. Whatever the line does, the frames \<open>_read_registers\<close> puts on it are
  at most \<open>retries + 1\<close> copies of one eight-byte request whose function code is 3 or 4.\<close>

theorem read_registers_read_only:
  assumes "writes_logged ops wlog"
    and "read_registers ops u f a n c w = Some (r, c', w')"
  shows "\<exists>j req. wlog w' = wlog w @ replicate j req \<and> j \<le> nat (mc_retries c + 1)
    \<and> (0 < j \<longrightarrow> length req = 8 \<and> uint (req ! 1) \<in> {3, 4} \<and> uint (req ! 0) = u
          \<and> be16 (req ! 2) (req ! 3) = a \<and> be16 (req ! 4) (req ! 5) = n)"
proof (cases "request_valid u f a n")
  case False
  then obtain m where "build_read_registers_request u f a n = Inl (ValueError m)"
    using build_request_error by blast
  with assms(2) show ?thesis by (auto simp: read_registers_def intro: exI [of _ 0])
next
  case True
  note b = build_request_ok [OF True] and fld = request_frame_fields [OF True]
  obtain x c1 w1 where op: "client_open ops c w = (x, c1, w1)" by (metis surjective_pairing)
  have w1: "wlog w1 = wlog w" "mc_retries c1 = mc_retries c"
    using op assms(1)
    by (auto simp: client_open_def split: option.splits if_splits prod.splits sum.splits
        dest: writes_loggedD(8))
  show ?thesis
  proof (cases x)
    case (Inl e)
    with assms(2) op b w1 show ?thesis by (auto simp: read_registers_def intro: exI [of _ 0])
  next
    case (Inr h)
    with assms(2) op b w1 obtain j where "j \<le> nat (mc_retries c + 1)"
      "wlog w' = wlog w @ replicate j (request_frame u f a n)"
      by (auto simp: read_registers_def dest!: attempt_loop_log [OF assms(1)])
    with fld True show ?thesis
      by (intro exI [of _ j] exI [of _ "request_frame u f a n"]) (simp add: request_valid_def)
  qed
qed

theorem read_registers_read_only_witness:
  "\<exists>r c' w'. read_registers (sim_ops []) 1 3 256 1 sim_client (0, [], []) = Some (r, c', w')
   \<and> (\<exists>j req. (\<lambda>(t, p, l). l) w' = [] @ replicate j req \<and> j \<le> 2)"
proof -
  obtain r c' w' where run: "read_registers (sim_ops []) 1 3 256 1 sim_client (0, [], []) = Some (r, c', w')"
    using attempt_loop_returns [OF sim_clock [of "[]"]]
    by (simp add: read_registers_def build_request_ok request_valid_def client_open_def sim_client_def)
      blast
  from read_registers_read_only [OF sim_logged [of "[]"] run]
  show ?thesis using run by (fastforce simp: sim_client_def)
qed

text \<open>C1: A successful read is what the device answered. What passed over the wire during the call ends with
  the request for these registers followed by exactly the bytes of one frame, cut into any chunks: the encoding
  of the returned registers for this unit and function, checksum included. The number of registers is the one
  asked for, each is an unsigned 16-bit word, and the request is inside the protocol's limits.\<close>

theorem read_registers_result:
  assumes "line_recorded ops line" and "read_registers ops u f a n c w = Some (Inr regs, c', w')"
  shows "request_valid u f a n \<and> int (length regs) = n \<and> (\<forall>r \<in> set regs. 0 \<le> r \<and> r \<le> 0xFFFF)
    \<and> (\<exists>req before chunks. build_read_registers_request u f a n = Inr req
        \<and> line w' = line w @ before @ Wrote req # map Received chunks
        \<and> concat chunks = register_answer u f regs)"
proof -
  have v: "request_valid u f a n"
    using assms(2) build_request_error [of u f a n]
    by (cases "build_read_registers_request u f a n") (auto simp: read_registers_def)
  note b = build_request_ok [OF v]
  from assms(2) b obtain h c1 w1 where op: "client_open ops c w = (Inr h, c1, w1)"
    and run: "attempt_loop ops (get_context c) h (request_frame u f a n) u f a n (nat (mc_retries c + 1)) 0 None c1 w1
      = Some (Inr regs, c', w')"
    by (auto simp: read_registers_def split: prod.splits sum.splits)
  have w1: "line w1 = line w"
    using op by (auto simp: client_open_def split: option.splits if_splits prod.splits sum.splits
        dest: line_recordedD(8) [OF assms(1)])
  from attempt_loop_answered [OF assms(1) run] obtain pre cs where
    l: "line w' = line w @ pre @ Wrote (request_frame u f a n) # map Received cs"
    and p: "parse_read_registers_response (concat cs) u n f = Inr regs"
    by (auto simp: ends_answered_def answered_def w1)
  from parse_sound [OF p] have "int (length regs) = n" "\<forall>r \<in> set regs. 0 \<le> r \<and> r \<le> 0xFFFF"
    "concat cs = register_answer u f regs" by (auto simp: in_word16_def)
  with v b l show ?thesis by blast
qed

text \<open>A conforming slave is heard. If the port accepts the request and then delivers the encoding of
  the registers, cut into chunks anywhere, the first attempt returns these registers.\<close>

theorem read_registers_answered:
  assumes "answers ops h pend (request_frame u f a n) (register_answer u f regs)"
    and "request_valid u f a n" and "int (length regs) = n"
    and "\<forall>r \<in> set regs. in_word16 r" and "mc_serial c = Some h" and "0 \<le> mc_retries c"
    and "ctx_deadline (get_context c) = None"
  shows "\<exists>c' w'. read_registers ops u f a n c w = Some (Inr regs, c', w')"
  using assms by (rule read_registers_answers)

theorem read_registers_answered_witness:
  "\<exists>c' w'. read_registers (sim_ops (register_answer 1 3 [215, 0])) 1 3 256 2 sim_client (0, [], [])
     = Some (Inr [215, 0], c', w')"
  by (rule read_registers_answered [OF sim_answers])
    (simp_all add: request_valid_def in_word16_def sim_client_def get_context_def default_context_def)

theorem read_registers_result_witness:
  "\<exists>w' before chunks req. build_read_registers_request 1 3 256 2 = Inr req
     \<and> snd w' = before @ Wrote req # map Received chunks \<and> concat chunks = register_answer 1 3 [215, 0]"
proof -
  obtain c' w' where run: "read_registers (recording (sim_ops (register_answer 1 3 [215, 0]))) 1 3 256 2 sim_client
      ((0, [], []), []) = Some (Inr [215, 0], c', w')"
    using read_registers_answers [OF recording_answers [OF sim_answers], of 1 3 256 2 "[215, 0]" sim_client "((0, [], []), [])"]
    by (auto simp: request_valid_def in_word16_def sim_client_def get_context_def default_context_def)
  from read_registers_result [OF recording_recorded run] show ?thesis by simp metis
qed

text \<open>C3: A read always returns. As long as an idle read takes at least \<open>d > 0\<close> seconds of the monotonic
  clock, \<open>_read_registers\<close> ends with a value or an exception, whatever the port delivers.\<close>

theorem read_registers_terminates:
  assumes "clock_runs ops now d"
  shows "\<exists>r c' w'. read_registers ops u f a n c w = Some (r, c', w')"
proof -
  have "\<And>ctx h req k i lt c w. \<exists>y. attempt_loop ops ctx h req u f a n k i lt c w = Some y"
    using attempt_loop_returns [OF assms] by blast
  then show ?thesis
    by (auto simp: read_registers_def split: sum.splits prod.splits)
qed

theorem read_registers_terminates_witness:
  "\<exists>r c' w'. read_registers (sim_ops []) 1 3 256 1 sim_client (0, [], []) = Some (r, c', w')"
  by (rule read_registers_terminates [OF sim_clock])

text \<open>Only timeouts are retried. The attempts one read reports to its observer are numbered upwards
  inside \<open>1 .. retries + 1\<close>, none has a negative duration, and all but the last ended in a timeout.\<close>

theorem read_registers_retries:
  assumes "mc_has_observer c" and "read_registers ops u f a n c w = Some (r, c', w')"
  shows "\<exists>ms. mc_observed c' = mc_observed c @ ms \<and> length ms \<le> nat (mc_retries c + 1)
    \<and> sorted_wrt (<) (map ms_attempt ms) \<and> (\<forall>m \<in> set ms. 1 \<le> ms_attempt m \<and> 0 \<le> ms_duration m)
    \<and> (\<forall>m \<in> set (butlast ms). ms_outcome m = ''timeout'')"
proof (cases "build_read_registers_request u f a n")
  case (Inl e)
  with assms(2) show ?thesis by (auto simp: read_registers_def intro: exI [of _ "[]"])
next
  case (Inr req)
  obtain x c1 w1 where op: "client_open ops c w = (x, c1, w1)" by (metis surjective_pairing)
  have c1: "mc_has_observer c1" "mc_observed c1 = mc_observed c" "mc_retries c1 = mc_retries c"
    using op assms(1)
    by (auto simp: client_open_def split: option.splits if_splits prod.splits sum.splits)
  show ?thesis
  proof (cases x)
    case (Inl e)
    with assms(2) op Inr c1 show ?thesis by (auto simp: read_registers_def intro: exI [of _ "[]"])
  next
    case (Inr h)
    with assms(2) op \<open>build_read_registers_request u f a n = Inr req\<close> c1
    obtain ms where "mc_observed c' = mc_observed c @ ms" "retry_trace 0 (nat (mc_retries c + 1)) ms"
      by (auto simp: read_registers_def dest!: attempt_loop_trace [OF c1(1)])
    then show ?thesis by (intro exI [of _ ms]) (auto simp: retry_trace_def)
  qed
qed

theorem read_registers_retries_witness:
  "\<exists>r c' w'. read_registers (sim_ops []) 1 3 256 1 sim_client (0, [], []) = Some (r, c', w')
    \<and> length (mc_observed c') \<le> 2"
proof -
  obtain r c' w' where run: "read_registers (sim_ops []) 1 3 256 1 sim_client (0, [], []) = Some (r, c', w')"
    using attempt_loop_returns [OF sim_clock [of "[]"]]
    by (simp add: read_registers_def build_request_ok request_valid_def client_open_def sim_client_def)
      blast
  have "mc_has_observer sim_client" by (simp add: sim_client_def)
  from read_registers_retries [OF this run] have "length (mc_observed c') \<le> 2"
    by (auto simp: sim_client_def)
  with run show ?thesis by blast
qed

text \<open>The serial handle survives every outcome but a transport failure. After a read on an open
  client the handle is the one it had, except that an \<open>OSError\<close> or \<open>termios.error\<close> has dropped it, so
  that the next read opens the port again; the instrumentation context is untouched.\<close>

theorem read_registers_handle:
  assumes "mc_serial c = Some h" and "read_registers ops u f a n c w = Some (r, c', w')"
  shows "mc_serial c' = (if result_io_failure r then None else Some h) \<and> mc_context c' = mc_context c"
proof (cases "build_read_registers_request u f a n")
  case (Inl e)
  moreover then obtain m where "e = ValueError m"
    using build_request_error build_request_ok by (metis Inl_Inr_False sum.inject(1))
  ultimately show ?thesis using assms
    by (auto simp: read_registers_def result_io_failure_def io_failure_def)
next
  case (Inr req)
  with assms have "attempt_loop ops (get_context c) h req u f a n (nat (mc_retries c + 1)) 0 None c w
      = Some (r, c', w')"
    by (simp add: read_registers_def client_open_def)
  from attempt_loop_handle [OF assms(1) _ this] show ?thesis by simp
qed

theorem read_registers_handle_witness:
  "\<exists>r c' w'. read_registers (sim_ops (register_answer 1 3 [215, 0])) 1 3 256 2 sim_client (0, [], [])
     = Some (r, c', w') \<and> mc_serial c' = Some 0"
proof -
  obtain c' w' where run: "read_registers (sim_ops (register_answer 1 3 [215, 0])) 1 3 256 2 sim_client
      (0, [], []) = Some (Inr [215, 0], c', w')"
    using sim_answered by blast
  have "mc_serial sim_client = Some 0" by (simp add: sim_client_def)
  from read_registers_handle [OF this run] have "mc_serial c' = Some 0"
    by (simp add: result_io_failure_def)
  with run show ?thesis by blast
qed

text \<open>The deadline of an operation: once it has passed, no request is sent.\<close>

lemma read_registers_deadline:
  assumes "clock_runs ops now d" and "writes_logged ops wlog" and "request_valid u f a n"
    and "mc_serial c = Some h" and "0 \<le> mc_retries c"
    and "ctx_deadline (get_context c) = Some dl" and "dl \<le> now w"
  shows "\<exists>w'. read_registers ops u f a n c w
      = Some (Inl (ModbusTimeoutError ''Modbus operation deadline exceeded''), c, w') \<and> wlog w' = wlog w"
proof -
  obtain k where k: "nat (mc_retries c + 1) = Suc k" using assms(5) by (cases "nat (mc_retries c + 1)") auto
  obtain t w1 where m: "monotonic ops w = (t, w1)" by fastforce
  have "t = now w" using assms(1) m unfolding clock_runs_def by (metis fst_conv)
  then show ?thesis
    using assms k m writes_loggedD(7) [OF assms(2) m]
    by (simp add: read_registers_def build_request_ok client_open_def attempt_round_def check_deadline_def)
qed

end
