(* ===== verification/Effects.thy ===== *)
theory Effects
  imports Prelude
begin

text \<open>
  Effectful Python code as functions of a state: a run returns \<open>None\<close> when it never ends, and
  otherwise the value or the exception together with the state it leaves. \<open>ibind\<close> is sequencing:
  an exception skips the rest and keeps the effects made so far; \<open>icatch\<close> is \<open>try/except\<close>.
\<close>

type_synonym ('s, 'a) io = "'s \<Rightarrow> ('a result \<times> 's) option"

definition iret :: "'a \<Rightarrow> ('s, 'a) io" where
  "iret a s = Some (Inr a, s)"

definition iraise :: "exn \<Rightarrow> ('s, 'a) io" where
  "iraise e s = Some (Inl e, s)"

definition ilift :: "'a result \<Rightarrow> ('s, 'a) io" where
  "ilift r s = Some (r, s)"

definition ibind :: "('s, 'a) io \<Rightarrow> ('a \<Rightarrow> ('s, 'b) io) \<Rightarrow> ('s, 'b) io" where
  "ibind m f s = (case m s of
      None \<Rightarrow> None
    | Some (Inl e, s') \<Rightarrow> Some (Inl e, s')
    | Some (Inr a, s') \<Rightarrow> f a s')"

definition icatch :: "('s, 'a) io \<Rightarrow> (exn \<Rightarrow> ('s, 'a) io option) \<Rightarrow> ('s, 'a) io" where
  "icatch m h s = (case m s of
      None \<Rightarrow> None
    | Some (Inl e, s') \<Rightarrow> (case h e of None \<Rightarrow> Some (Inl e, s') | Some k \<Rightarrow> k s')
    | Some (Inr a, s') \<Rightarrow> Some (Inr a, s'))"

fun imap :: "('a \<Rightarrow> ('s, 'b) io) \<Rightarrow> 'a list \<Rightarrow> ('s, 'b list) io" where
  "imap f [] = iret []"
| "imap f (x # xs) = ibind (f x) (\<lambda>y. ibind (imap f xs) (\<lambda>ys. iret (y # ys)))"

lemma ibind_eq_Inr:
  "ibind m f s = Some (Inr b, s') \<longleftrightarrow> (\<exists>a s1. m s = Some (Inr a, s1) \<and> f a s1 = Some (Inr b, s'))"
  by (auto simp: ibind_def split: option.splits sum.splits prod.splits)

lemma ibind_eq_Inl:
  "ibind m f s = Some (Inl e, s') \<longleftrightarrow> m s = Some (Inl e, s')
     \<or> (\<exists>a s1. m s = Some (Inr a, s1) \<and> f a s1 = Some (Inl e, s'))"
  by (auto simp: ibind_def split: option.splits sum.splits prod.splits)

lemma ibind_eq_None:
  "ibind m f s = None \<longleftrightarrow> m s = None \<or> (\<exists>a s1. m s = Some (Inr a, s1) \<and> f a s1 = None)"
  by (auto simp: ibind_def split: option.splits sum.splits prod.splits)

lemma iret_eq [simp]: "iret a s = Some (r, s') \<longleftrightarrow> r = Inr a \<and> s' = s"
  by (auto simp: iret_def)

lemma iraise_eq [simp]: "iraise e s = Some (r, s') \<longleftrightarrow> r = Inl e \<and> s' = s"
  by (auto simp: iraise_def)

lemma ilift_eq [simp]: "ilift x s = Some (r, s') \<longleftrightarrow> r = x \<and> s' = s"
  by (auto simp: ilift_def)

lemma io_total [simp]: "iret a s \<noteq> None" "iraise e s \<noteq> None" "ilift x s \<noteq> None"
  by (simp_all add: iret_def iraise_def ilift_def)

lemmas ibind_iffs = ibind_eq_Inr ibind_eq_Inl ibind_eq_None

lemma imap_Inr_list_all2:
  "imap f xs s = Some (Inr ys, s') \<Longrightarrow> list_all2 (\<lambda>x y. \<exists>t t'. f x t = Some (Inr y, t')) xs ys"
  by (induction xs arbitrary: ys s) (auto simp: ibind_iffs)

end
