(* ===== verification/Readers.thy ===== *)
theory Readers
  imports ModbusClient Effects
begin

text \<open>
  The interface between the device readers and the Modbus client: the \<open>Protocol\<close> classes
  \<open>HoldingRegisterReader\<close>, \<open>InputRegisterReader\<close> and \<open>AnalogRegisterReader\<close> of the device modules.
  The readers are clients of the locale \<open>register_reader\<close>; \<open>ModbusRTUClient\<close> is its provider, once
  for the holding and once for the input registers.
\<close>

section \<open>The operations the client offers\<close>

definition holding_registers :: "'w serial_ops \<Rightarrow> int \<Rightarrow> int \<Rightarrow> int \<Rightarrow> (client \<times> 'w, int list) io" where
  "holding_registers ops u a n s = read_holding_registers ops u a n (fst s) (snd s)"

definition input_registers :: "'w serial_ops \<Rightarrow> int \<Rightarrow> int \<Rightarrow> int \<Rightarrow> (client \<times> 'w, int list) io" where
  "input_registers ops u a n s = read_input_registers ops u a n (fst s) (snd s)"

definition holding_register :: "'w serial_ops \<Rightarrow> int \<Rightarrow> int \<Rightarrow> (client \<times> 'w, int) io" where
  "holding_register ops u a s = read_holding_register ops u a (fst s) (snd s)"

definition input_register :: "'w serial_ops \<Rightarrow> int \<Rightarrow> int \<Rightarrow> (client \<times> 'w, int) io" where
  "input_register ops u a s = read_input_register ops u a (fst s) (snd s)"

section \<open>The contract\<close>

text \<open>
  What a reader may rely on: a value is one register word, a block holds the number of words asked
  for, and a unit outside the addressable range is never answered.
\<close>

locale register_reader =
  fixes rd :: "int \<Rightarrow> int \<Rightarrow> ('s, int) io"
    and rdn :: "int \<Rightarrow> int \<Rightarrow> int \<Rightarrow> ('s, int list) io"
  assumes rd_word: "rd u a s = Some (Inr v, s') \<Longrightarrow> in_word16 v \<and> 1 \<le> u \<and> u \<le> 247"
    and rdn_words: "rdn u a n s = Some (Inr vs, s') \<Longrightarrow>
      int (length vs) = n \<and> (\<forall>v \<in> set vs. in_word16 v) \<and> 1 \<le> u \<and> u \<le> 247"
begin

lemma rd_range: "rd u a s = Some (Inr v, s') \<Longrightarrow> 0 \<le> v \<and> v \<le> 0xFFFF \<and> 1 \<le> u \<and> u \<le> 247"
  using rd_word by (auto simp: in_word16_def)

lemma rdn_pair:
  assumes "rdn u a 2 s = Some (Inr vs, s')"
  obtains h l where "vs = [h, l]" "in_word16 h" "in_word16 l" "1 \<le> u" "u \<le> 247"
proof -
  from rdn_words [OF assms] have "length vs = Suc (Suc 0)" by simp
  then obtain h l where "vs = [h, l]" by (auto simp: length_Suc_conv)
  then show ?thesis using rdn_words [OF assms] by (auto intro: that)
qed

lemma rdn_single:
  assumes "rdn u a 1 s = Some (Inr vs, s')"
  obtains v where "vs = [v]" "in_word16 v" "1 \<le> u" "u \<le> 247"
proof -
  from rdn_words [OF assms] have "length vs = Suc 0" by simp
  then obtain v where "vs = [v]" by (auto simp: length_Suc_conv)
  then show ?thesis using rdn_words [OF assms] by (auto intro: that)
qed

end

section \<open>The provider\<close>

lemma read_registers_words:
  assumes "read_registers ops u f a n c w = Some (Inr regs, c', w')"
  shows "request_valid u f a n" "int (length regs) = n" "\<forall>r \<in> set regs. in_word16 r"
    "\<exists>frame. parse_read_registers_response frame u n f = Inr regs"
proof -
  show v: "request_valid u f a n"
    using assms build_request_error [of u f a n]
    by (cases "build_read_registers_request u f a n") (auto simp: read_registers_def)
  then show p: "\<exists>frame. parse_read_registers_response frame u n f = Inr regs"
    using assms
    by (auto simp: read_registers_def build_request_ok split: prod.splits sum.splits
        dest: attempt_loop_ok)
  then show "int (length regs) = n" "\<forall>r \<in> set regs. in_word16 r" using parse_sound by blast+
qed

lemma first_of_read:
  assumes "first_of (read_registers ops u f a 1 c w) = Some (Inr v, c', w')"
  shows "read_registers ops u f a 1 c w = Some (Inr [v], c', w')"
proof -
  from assms obtain regs where r: "read_registers ops u f a 1 c w = Some (Inr regs, c', w')"
    and f: "first_register regs = Inr v"
    by (auto simp: first_of_def ebind_eq_Inr)
  from read_registers_words(2) [OF r] have "length regs = Suc 0" by simp
  then obtain x where "regs = [x]" by (auto simp: length_Suc_conv)
  with r f show ?thesis by (simp add: first_register_def)
qed

interpretation holding: register_reader "holding_register ops" "holding_registers ops"
proof
  fix u a n s v s' vs
  show "in_word16 v \<and> 1 \<le> u \<and> u \<le> 247" if "holding_register ops u a s = Some (Inr v, s')"
    using read_registers_words(1,3) [OF first_of_read]  that
    by (cases s') (fastforce simp: holding_register_def read_holding_register_def
        read_holding_registers_def request_valid_def)
  show "int (length vs) = n \<and> (\<forall>v \<in> set vs. in_word16 v) \<and> 1 \<le> u \<and> u \<le> 247"
    if "holding_registers ops u a n s = Some (Inr vs, s')"
    using read_registers_words(1-3)  that
    by (cases s') (fastforce simp: holding_registers_def read_holding_registers_def request_valid_def)
qed

interpretation inputs: register_reader "input_register ops" "input_registers ops"
proof
  fix u a n s v s' vs
  show "in_word16 v \<and> 1 \<le> u \<and> u \<le> 247" if "input_register ops u a s = Some (Inr v, s')"
    using read_registers_words(1,3) [OF first_of_read] that
    by (cases s') (fastforce simp: input_register_def read_input_register_def
        read_input_registers_def request_valid_def)
  show "int (length vs) = n \<and> (\<forall>v \<in> set vs. in_word16 v) \<and> 1 \<le> u \<and> u \<le> 247"
    if "input_registers ops u a n s = Some (Inr vs, s')"
    using read_registers_words(1-3) that
    by (cases s') (fastforce simp: input_registers_def read_input_registers_def request_valid_def)
qed

section \<open>A port that serves one answer, again and again\<close>

text \<open>For the witnesses of the device readers: whatever was read before, the simulated port of
  \<open>ModbusClient\<close> serves its answer to every request.\<close>

definition sim_ready :: "client \<Rightarrow> bool" where
  "sim_ready c = (mc_serial c = Some 0 \<and> mc_context c = None \<and> 0 \<le> mc_retries c)"

lemma sim_client_ready: "sim_ready sim_client"
  by (simp add: sim_ready_def sim_client_def)

lemma client_config_kept:
  "after_attempt ops ctx u f a n i x st c w = (c', w') \<Longrightarrow> mc_retries c' = mc_retries c"
  "invalidate_serial ops h c w = (c', w') \<Longrightarrow> mc_retries c' = mc_retries c"
  by (auto simp: after_attempt_def observe_request_def invalidate_serial_def Let_def
      split: option.splits if_splits prod.splits)

lemma attempt_loop_config:
  "attempt_loop ops ctx port req u f a n k i lt c w = Some (r, c', w') \<Longrightarrow> mc_retries c' = mc_retries c"
proof (induction k arbitrary: i lt c w)
  case (Suc k)
  from Suc.prems obtain r1 again c1 w1 where
    rd: "attempt_round ops ctx port req u f a n i c w = Some (r1, again, c1, w1)"
    by (auto split: option.splits)
  have "mc_retries c1 = mc_retries c"
    using rd
    by (auto simp: attempt_round_def split: option.splits prod.splits sum.splits if_splits
        dest!: client_config_kept)
  with Suc.prems rd Suc.IH show ?case by (auto split: if_splits)
qed simp

lemma sim_serves:
  assumes "sim_ready c" and "request_valid u f a (int (length regs))" and "\<forall>r \<in> set regs. in_word16 r"
  shows "\<exists>c' w'. read_registers (sim_ops (register_answer u f regs)) u f a (int (length regs)) c w
    = Some (Inr regs, c', w') \<and> sim_ready c'"
proof -
  let ?ops = "sim_ops (register_answer u f regs)"
  from assms(1) have c: "mc_serial c = Some 0" "mc_context c = None" "0 \<le> mc_retries c"
    by (simp_all add: sim_ready_def)
  obtain c' w' where run: "read_registers ?ops u f a (int (length regs)) c w = Some (Inr regs, c', w')"
    using read_registers_answers [OF sim_answers assms(2) refl assms(3) c(1,3), of w] c(2)
    by (auto simp: get_context_def default_context_def)
  then have loop: "attempt_loop ?ops (get_context c) 0 (request_frame u f a (int (length regs))) u f a
      (int (length regs)) (nat (mc_retries c + 1)) 0 None c w = Some (Inr regs, c', w')"
    using assms(2) c by (simp add: read_registers_def build_request_ok client_open_def)
  from attempt_loop_handle [OF c(1) _ loop] attempt_loop_config [OF loop] c
  have "sim_ready c'" by (simp add: sim_ready_def result_io_failure_def)
  with run show ?thesis by blast
qed

lemma sim_holding:
  assumes "sim_ready c" and "in_word16 v" and "1 \<le> u" "u \<le> 247" "0 \<le> a" "a \<le> 0xFFFF"
  shows "\<exists>c' w'. holding_register (sim_ops (register_answer u 3 [v])) u a (c, w)
    = Some (Inr v, (c', w')) \<and> sim_ready c'"
proof -
  have "request_valid u 3 a (int (length [v]))" using assms by (simp add: request_valid_def)
  from sim_serves [OF assms(1) this, of w] assms(2) show ?thesis
    by (auto simp: holding_register_def read_holding_register_def read_holding_registers_def
        first_of_def first_register_def)
qed

lemma sim_inputs:
  assumes "sim_ready c" and "\<forall>r \<in> set regs. in_word16 r" and "request_valid u 4 a (int (length regs))"
  shows "\<exists>c' w'. input_registers (sim_ops (register_answer u 4 regs)) u a (int (length regs)) (c, w)
    = Some (Inr regs, (c', w')) \<and> sim_ready c'"
  using sim_serves [OF assms(1,3,2), of w] by (auto simp: input_registers_def read_input_registers_def)

lemma sim_holdings:
  assumes "sim_ready c" and "\<forall>r \<in> set regs. in_word16 r" and "request_valid u 3 a (int (length regs))"
  shows "\<exists>c' w'. holding_registers (sim_ops (register_answer u 3 regs)) u a (int (length regs)) (c, w)
    = Some (Inr regs, (c', w')) \<and> sim_ready c'"
  using sim_serves [OF assms(1,3,2), of w] by (auto simp: holding_registers_def read_holding_registers_def)

end
