(* ===== verification/Xjp60d.thy ===== *)
theory Xjp60d
  imports Readers
begin

unbundle bit_operations_syntax

text \<open>
  \<open>services/device-agent/xjp60d.py\<close>: probe values and status words of the XJP60D controller, and the
  reader that fetches both with one single-register request each.
\<close>

section \<open>The probe registers\<close>

definition probe_registers :: "(int, int \<times> int) dict" where
  "probe_registers = [(1, (256, 257)), (2, (258, 259)), (3, (260, 261)), (4, (262, 263)),
     (5, (264, 265)), (6, (266, 267))]"

definition status_mask :: int where
  "status_mask = 0x0003"

definition status_names :: "(int, string) dict" where
  "status_names = [(0, ''normal''), (1, ''low''), (2, ''high''), (3, ''probe_error'')]"

record xjp_reading =
  xr_unit_id :: int
  xr_channel :: int
  xr_raw_value :: int
  xr_raw_status :: int
  xr_value :: "pyfloat option"
  xr_unit :: string
  xr_quality :: string
  xr_alarm :: "string option"

definition signed_int16 :: "int \<Rightarrow> int result" where
  "signed_int16 v = (if \<not> (0 \<le> v \<and> v \<le> 0xFFFF) then Inl (ValueError (''uint16 value expected, got '' @ dec v))
     else if v AND 0x8000 \<noteq> 0 then Inr (v - 0x10000) else Inr v)"

definition xjp_decode_reading ::
  "int \<Rightarrow> int \<Rightarrow> int \<Rightarrow> int \<Rightarrow> pyfloat \<Rightarrow> string \<Rightarrow> xjp_reading result" where
  "xjp_decode_reading unit_id channel raw_value raw_status scale unit =
     (if channel \<notin> set (dkeys probe_registers) then
        Inl (ValueError (''XJP60D channel must be 1..6, got '' @ dec channel))
      else if scale \<le> 0 then Inl (ValueError ''scale must be positive'')
      else let status_code = raw_status AND status_mask in
        case dget status_names status_code of
          None \<Rightarrow> Inl (KeyError (dec status_code))
        | Some status \<Rightarrow>
            ebind (if status = ''probe_error'' then Inr (None, ''sensor_error'', None)
                   else ebind (signed_int16 raw_value) (\<lambda>n.
                     Inr (Some (fmul (of_int n) scale), ''valid'',
                          if status = ''normal'' then None else Some status)))
              (\<lambda>(value, quality, alarm).
                 Inr \<lparr>xr_unit_id = unit_id, xr_channel = channel, xr_raw_value = raw_value,
                      xr_raw_status = raw_status, xr_value = value, xr_unit = unit,
                      xr_quality = quality, xr_alarm = alarm\<rparr>))"

section \<open>The reader\<close>

record xjp_reader =
  xj_scale :: pyfloat
  xj_unit :: string

definition xjp_reader_init :: "pyfloat \<Rightarrow> string \<Rightarrow> xjp_reader result" where
  "xjp_reader_init scale unit = (if scale \<le> 0 then Inl (ValueError ''scale must be positive'')
     else Inr \<lparr>xj_scale = scale, xj_unit = unit\<rparr>)"

definition xjp_read_channel ::
  "(int \<Rightarrow> int \<Rightarrow> ('s, int) io) \<Rightarrow> xjp_reader \<Rightarrow> int \<Rightarrow> int \<Rightarrow> ('s, xjp_reading) io" where
  "xjp_read_channel rd r unit_id channel =
     (case dget probe_registers channel of
        None \<Rightarrow> iraise (ValueError (''XJP60D channel must be 1..6, got '' @ dec channel))
      | Some (value_address, status_address) \<Rightarrow>
          ibind (rd unit_id value_address) (\<lambda>raw_value.
          ibind (rd unit_id status_address) (\<lambda>raw_status.
          ilift (xjp_decode_reading unit_id channel raw_value raw_status (xj_scale r) (xj_unit r)))))"

definition xjp_read_all_channels ::
  "(int \<Rightarrow> int \<Rightarrow> ('s, int) io) \<Rightarrow> xjp_reader \<Rightarrow> int \<Rightarrow> ('s, xjp_reading list) io" where
  "xjp_read_all_channels rd r unit_id = imap (xjp_read_channel rd r unit_id) [1, 2, 3, 4, 5, 6]"

section \<open>Two's complement\<close>

lemma and_0x8000: "in_word16 v \<Longrightarrow> (v AND 0x8000 \<noteq> 0) = (0x8000 \<le> v)"
proof -
  assume v: "in_word16 v"
  have "(v AND 0x8000 \<noteq> 0) = bit v 15"
    using and_exp_eq_0_iff_not_bit [of v 15] by simp
  also have "\<dots> = odd (v div 0x8000)" by (simp add: bit_iff_odd)
  also have "\<dots> = (0x8000 \<le> v)"
  proof (cases "0x8000 \<le> v")
    case True
    then have "v div 0x8000 = 1" using v by (auto simp: in_word16_def)
    with True show ?thesis by simp
  next
    case False
    then have "v div 0x8000 = 0" using v by (auto simp: in_word16_def)
    with False show ?thesis by simp
  qed
  finally show ?thesis .
qed

lemma sint_word16:
  assumes "in_word16 v"
  shows "sint (word_of_int v :: 16 word) = (if 0x8000 \<le> v then v - 0x10000 else v)"
proof -
  have "sint (word_of_int v :: 16 word) = (0x8000 + v) mod 0x10000 - 0x8000"
    by (simp add: sint_sbintrunc' signed_take_bit_eq_take_bit_shift take_bit_eq_mod)
      (simp add: add.commute)
  also have "\<dots> = (if 0x8000 \<le> v then v - 0x10000 else v)"
  proof (cases "0x8000 \<le> v")
    case True
    have "(0x8000 + v) mod 0x10000 = (v - 0x8000 + 0x10000) mod 0x10000" by simp
    also have "\<dots> = (v - 0x8000) mod 0x10000" by (rule mod_add_self2)
    also have "\<dots> = v - 0x8000" using True assms by (simp add: in_word16_def)
    finally show ?thesis using True by simp
  next
    case False
    then show ?thesis using assms by (simp add: in_word16_def)
  qed
  finally show ?thesis .
qed

lemma signed_int16_sint: "in_word16 v \<Longrightarrow> signed_int16 v = Inr (sint (word_of_int v :: 16 word))"
  using and_0x8000 [of v] by (simp add: signed_int16_def sint_word16 in_word16_def)

lemma signed_int16_bounds: "signed_int16 v = Inr n \<Longrightarrow> - 32768 \<le> n \<and> n \<le> 32767"
  using and_0x8000 [of v] by (auto simp: signed_int16_def in_word16_def split: if_splits)

section \<open>Decoding\<close>

lemma and_mask_cases: "x AND status_mask \<in> {0, 1, 2, 3 :: int}"
proof -
  have "x AND status_mask = x mod 4"
    using take_bit_eq_mask [of 2 x]
    by (simp add: status_mask_def take_bit_eq_mod mask_eq_exp_minus_1)
  then show ?thesis by auto
qed

text \<open>For a configured channel and register words the decoder never raises.\<close>

lemma xjp_decode_words:
  assumes "in_word16 rv" and "0 < scale" and "ch \<in> set (dkeys probe_registers)"
  shows "xjp_decode_reading u ch rv rs scale unit = Inr
    \<lparr>xr_unit_id = u, xr_channel = ch, xr_raw_value = rv, xr_raw_status = rs,
     xr_value = (if rs AND 3 = 3 then None else Some (fmul (of_int (sint (word_of_int rv :: 16 word))) scale)),
     xr_unit = unit, xr_quality = (if rs AND 3 = 3 then ''sensor_error'' else ''valid''),
     xr_alarm = (if rs AND 3 = 1 then Some ''low'' else if rs AND 3 = 2 then Some ''high'' else None)\<rparr>"
proof -
  consider "rs AND 3 = 0" | "rs AND 3 = 1" | "rs AND 3 = 2" | "rs AND 3 = 3"
    using and_mask_cases [of rs] by (auto simp: status_mask_def)
  then show ?thesis
    using assms
    by cases (simp_all add: xjp_decode_reading_def status_mask_def status_names_def signed_int16_sint)
qed

lemma probe_registers_range:
  "dget probe_registers ch = Some (va, sa) \<longleftrightarrow> 1 \<le> ch \<and> ch \<le> 6 \<and> va = 254 + 2 * ch \<and> sa = va + 1"
proof -
  have "ch \<in> set [1 .. 6] \<longleftrightarrow> ch = 1 \<or> ch = 2 \<or> ch = 3 \<or> ch = 4 \<or> ch = 5 \<or> ch = 6" by auto
  then show ?thesis by (auto simp: probe_registers_def)
qed

context register_reader
begin

lemma xjp_read_channel_ok:
  assumes "xjp_read_channel rd r u ch s = Some (Inr x, s')"
  shows "1 \<le> ch \<and> ch \<le> 6 \<and> (\<exists>rv rs s1. rd u (254 + 2 * ch) s = Some (Inr rv, s1)
    \<and> rd u (255 + 2 * ch) s1 = Some (Inr rs, s') \<and> in_word16 rv \<and> in_word16 rs
    \<and> xjp_decode_reading u ch rv rs (xj_scale r) (xj_unit r) = Inr x)"
proof (cases "dget probe_registers ch")
  case None
  then show ?thesis using assms by (simp add: xjp_read_channel_def)
next
  case (Some p)
  then obtain va sa where p: "p = (va, sa)" by (cases p)
  with Some have c: "1 \<le> ch" "ch \<le> 6" "va = 254 + 2 * ch" "sa = va + 1"
    using probe_registers_range [of ch va sa] by auto
  from assms Some p obtain rv rs s1 where "rd u va s = Some (Inr rv, s1)"
    "rd u sa s1 = Some (Inr rs, s')" "xjp_decode_reading u ch rv rs (xj_scale r) (xj_unit r) = Inr x"
    by (auto simp: xjp_read_channel_def ibind_iffs)
  with c show ?thesis using rd_word by (auto simp: algebra_simps)
qed

text \<open>A configured channel fails only when one of its two requests fails.\<close>

lemma xjp_read_channel_error:
  assumes "xjp_read_channel rd r u ch s = Some (Inl e, s')" and "1 \<le> ch" "ch \<le> 6" and "0 < xj_scale r"
  shows "\<exists>a s1. rd u a s1 = Some (Inl e, s') \<and> a \<in> {254 + 2 * ch, 255 + 2 * ch}"
proof -
  have p: "dget probe_registers ch = Some (254 + 2 * ch, 255 + 2 * ch)"
    using probe_registers_range [of ch] assms(2,3) by auto
  then have ch: "ch \<in> set (dkeys probe_registers)" by (force dest: map_of_SomeD)
  have d: "Inl e \<noteq> xjp_decode_reading u ch rv rs (xj_scale r) (xj_unit r)" if "in_word16 rv" for rv rs
    using xjp_decode_words [OF that assms(4) ch] by simp
  show ?thesis using assms(1) p rd_word
    by (auto simp: xjp_read_channel_def ibind_iffs d)
qed

end

section \<open>Properties\<close>

text \<open>A probe reading is the decoding of two register words of one controller. It exists only for a
  channel 1..6 of an addressable unit; the value is missing exactly when both status bits are set, and
  otherwise it is the 16-bit two's complement reading times the scale; the alarm is the threshold
  state and never the probe error; and the reading keeps both raw words.\<close>

theorem xjp_reading_sound:
  assumes "xjp_read_channel (holding_register ops) r u ch s = Some (Inr x, s')"
  shows "1 \<le> ch \<and> ch \<le> 6 \<and> 1 \<le> u \<and> u \<le> 247 \<and> in_word16 (xr_raw_value x) \<and> in_word16 (xr_raw_status x)
    \<and> xr_value x = (if xr_raw_status x AND 3 = 3 then None
        else Some (fmul (of_int (sint (word_of_int (xr_raw_value x) :: 16 word))) (xj_scale r)))
    \<and> (xr_quality x = ''valid'' \<longleftrightarrow> xr_value x \<noteq> None)
    \<and> xr_alarm x = (if xr_raw_status x AND 3 = 1 then Some ''low''
        else if xr_raw_status x AND 3 = 2 then Some ''high'' else None)"
proof -
  from holding.xjp_read_channel_ok [OF assms] obtain rv rs s1 where
    c: "1 \<le> ch" "ch \<le> 6" and r1: "holding_register ops u (254 + 2 * ch) s = Some (Inr rv, s1)"
    and w: "in_word16 rv" "in_word16 rs"
    and d: "xjp_decode_reading u ch rv rs (xj_scale r) (xj_unit r) = Inr x" by auto
  have ch: "ch \<in> set (dkeys probe_registers)" and sc: "0 < xj_scale r"
    using d by (auto simp: xjp_decode_reading_def split: if_splits)
  from d xjp_decode_words [OF w(1) sc ch] have
    "x = \<lparr>xr_unit_id = u, xr_channel = ch, xr_raw_value = rv, xr_raw_status = rs,
     xr_value = (if rs AND 3 = 3 then None else Some (fmul (of_int (sint (word_of_int rv :: 16 word))) (xj_scale r))),
     xr_unit = xj_unit r, xr_quality = (if rs AND 3 = 3 then ''sensor_error'' else ''valid''),
     xr_alarm = (if rs AND 3 = 1 then Some ''low'' else if rs AND 3 = 2 then Some ''high'' else None)\<rparr>"
    by simp
  then show ?thesis using c w holding.rd_range [OF r1] by simp
qed

theorem xjp_reading_sound_witness:
  "\<exists>x s'. xjp_read_channel (holding_register (sim_ops (register_answer 1 3 [0xFFFE])))
      \<lparr>xj_scale = 1, xj_unit = ''degC''\<rparr> 1 2 (sim_client, (0, [], [])) = Some (Inr x, s')
    \<and> xr_raw_value x = 0xFFFE \<and> xr_alarm x = Some ''high'' \<and> in_word16 (xr_raw_status x)"
proof -
  let ?ops = "sim_ops (register_answer 1 3 [0xFFFE])"
  let ?r = "\<lparr>xj_scale = 1, xj_unit = ''degC''\<rparr>"
  have v: "in_word16 0xFFFE" by (simp add: in_word16_def)
  obtain c1 w1 where 1: "holding_register ?ops 1 258 (sim_client, (0, [], [])) = Some (Inr 0xFFFE, (c1, w1))"
    "sim_ready c1" using sim_holding [OF sim_client_ready v, of 1 258 "(0, [], [])"] by auto
  obtain c2 w2 where 2: "holding_register ?ops 1 259 (c1, w1) = Some (Inr 0xFFFE, (c2, w2))"
    using sim_holding [OF 1(2) v, of 1 259 w1] by auto
  have m: "(0xFFFE AND 3 :: int) = 2" by simp
  have "(2::int) \<in> set (dkeys probe_registers)" by (simp add: probe_registers_def)
  note d = xjp_decode_words [where u = 1 and rs = "0xFFFE" and unit = "''degC''", OF v zero_less_one this]
  obtain x where x: "xjp_decode_reading 1 2 0xFFFE 0xFFFE 1 ''degC'' = Inr x" "xr_raw_value x = 0xFFFE"
      "xr_raw_status x = 0xFFFE"
    by (rule that [OF d]) simp_all
  have run: "xjp_read_channel (holding_register ?ops) ?r 1 2 (sim_client, (0, [], [])) = Some (Inr x, (c2, w2))"
    using 1 2 x(1) by (simp add: xjp_read_channel_def probe_registers_def ibind_def ilift_def)
  from xjp_reading_sound [OF run] x(2,3) m have "xr_alarm x = Some ''high'' \<and> in_word16 (xr_raw_status x)"
    by simp
  with run x(2) show ?thesis by blast
qed

end
