(* ===== verification/Le01mp.thy ===== *)
theory Le01mp
  imports Xjp60d
begin

unbundle bit_operations_syntax

text \<open>
  \<open>services/device-agent/le01mp.py\<close>: the register catalogue of the LE-01MP energy meter, the decoding
  of one or two register words, and the reader. The scales are the float literals of the source.
\<close>

record le_register =
  lr_key :: string
  lr_address :: int
  lr_metric :: string
  lr_unit :: string
  lr_scale :: pyfloat
  lr_decimals :: nat
  lr_signed :: bool
  lr_count :: int

definition le_addresses :: "le_register \<Rightarrow> int list" where
  "le_addresses r = [lr_address r .. lr_address r + lr_count r - 1]"

definition le_reg :: "string \<Rightarrow> int \<Rightarrow> string \<Rightarrow> string \<Rightarrow> pyfloat \<Rightarrow> nat \<Rightarrow> le_register" where
  "le_reg k a m u sc d = \<lparr>lr_key = k, lr_address = a, lr_metric = m, lr_unit = u, lr_scale = sc,
     lr_decimals = d, lr_signed = False, lr_count = 1\<rparr>"

definition le_registers :: "le_register list" where
  "le_registers =
     [le_reg ''voltage'' 0 ''electrical.voltage'' ''V'' (fl (1 / 10)) 1,
      le_reg ''current'' 1 ''electrical.current'' ''A'' (fl (1 / 10)) 1,
      le_reg ''frequency'' 2 ''electrical.frequency'' ''Hz'' (fl (1 / 10)) 1,
      le_reg ''active_power'' 3 ''electrical.power.active'' ''W'' 1 0,
      le_reg ''reactive_power'' 4 ''electrical.power.reactive'' ''var'' 1 0,
      le_reg ''apparent_power'' 5 ''electrical.power.apparent'' ''VA'' 1 0,
      le_reg ''power_factor'' 6 ''electrical.power_factor'' ''ratio'' (fl (1 / 1000)) 3,
      (le_reg ''active_energy'' 7 ''electrical.energy.active'' ''kWh'' (fl (1 / 100)) 2)\<lparr>lr_count := 2\<rparr>,
      (le_reg ''internal_temperature'' 37 ''temperature.internal'' ''degC'' 1 0)\<lparr>lr_signed := True\<rparr>]"

definition le_register_by_key :: "(string, le_register) dict" where
  "le_register_by_key = map (\<lambda>r. (lr_key r, r)) le_registers"

record le_reading =
  lg_unit_id :: int
  lg_key :: string
  lg_address :: int
  lg_metric :: string
  lg_raw_value :: int
  lg_value :: pyfloat
  lg_unit :: string
  lg_quality :: string

definition le_signed_int16 :: "int \<Rightarrow> int result" where
  "le_signed_int16 v = (if \<not> (0 \<le> v \<and> v \<le> 0xFFFF) then Inl (ValueError (''uint16 value expected, got '' @ dec v))
     else if v AND 0x8000 \<noteq> 0 then Inr (v - 0x10000) else Inr v)"

fun le_check_words :: "int list \<Rightarrow> unit result" where
  "le_check_words [] = Inr ()"
| "le_check_words (v # vs) = (if \<not> (0 \<le> v \<and> v \<le> 0xFFFF)
     then Inl (ValueError (''uint16 value expected, got '' @ dec v)) else le_check_words vs)"

definition le_validate_register_words :: "le_register \<Rightarrow> int list \<Rightarrow> unit result" where
  "le_validate_register_words r vs =
     (if int (length vs) \<noteq> lr_count r then
        Inl (ValueError (lr_key r @ '' expects '' @ dec (lr_count r) @ '' register word(s), got ''
               @ dec (int (length vs))))
      else le_check_words vs)"

text \<open>\<open>bool\<close> in an f-string.\<close>

definition py_bool :: "bool \<Rightarrow> string" where
  "py_bool b = (if b then ''True'' else ''False'')"

definition le_decode_registers :: "int \<Rightarrow> le_register \<Rightarrow> int list \<Rightarrow> le_reading result" where
  "le_decode_registers unit_id r vs =
     (if \<not> (1 \<le> unit_id \<and> unit_id \<le> 247) then
        Inl (ValueError (''Modbus unit ID must be 1..247, got '' @ dec unit_id))
      else ebind (le_validate_register_words r vs) (\<lambda>_.
       ebind (if lr_count r = 1 then
                (if lr_signed r then ebind (le_signed_int16 (vs ! 0)) (\<lambda>n. Inr (vs ! 0, n))
                 else Inr (vs ! 0, vs ! 0))
              else if lr_count r = 2 \<and> \<not> lr_signed r then
                (let raw = push_bit 16 (vs ! 0) OR vs ! 1 in Inr (raw, raw))
              else Inl (ValueError (''Unsupported LE-01MP register layout for '' @ lr_key r
                     @ '': count='' @ dec (lr_count r) @ '', signed='' @ py_bool (lr_signed r))))
         (\<lambda>(raw_value, numeric).
            Inr \<lparr>lg_unit_id = unit_id, lg_key = lr_key r, lg_address = lr_address r,
                 lg_metric = lr_metric r, lg_raw_value = raw_value,
                 lg_value = py_round (lr_decimals r) (fmul (of_int numeric) (lr_scale r)),
                 lg_unit = lr_unit r, lg_quality = ''valid''\<rparr>)))"

definition le_decode_register :: "int \<Rightarrow> le_register \<Rightarrow> int \<Rightarrow> le_reading result" where
  "le_decode_register unit_id r raw_value =
     (if lr_count r \<noteq> 1 then
        Inl (ValueError (lr_key r @ '' requires '' @ dec (lr_count r)
               @ '' register words; use decode_registers''))
      else le_decode_registers unit_id r [raw_value])"

definition le_read_metric ::
  "(int \<Rightarrow> int \<Rightarrow> ('s, int) io) \<Rightarrow> (int \<Rightarrow> int \<Rightarrow> int \<Rightarrow> ('s, int list) io) \<Rightarrow> int \<Rightarrow> string
     \<Rightarrow> ('s, le_reading) io" where
  "le_read_metric rd rdn unit_id key =
     (case dget le_register_by_key key of
        None \<Rightarrow> iraise (ValueError (''Unknown LE-01MP metric key: '' @ key))
      | Some r \<Rightarrow>
          ibind (if lr_count r = 1 then ibind (rd unit_id (lr_address r)) (\<lambda>v. iret [v])
                 else rdn unit_id (lr_address r) (lr_count r))
            (\<lambda>vs. ilift (le_decode_registers unit_id r vs)))"

section \<open>The numeric value of a register payload\<close>

text \<open>The integer a payload stands for: one word, signed or not, or two words with the high one first.\<close>

definition le_numeric :: "le_register \<Rightarrow> int list \<Rightarrow> int" where
  "le_numeric r vs = (if lr_count r = 1 then
       (if lr_signed r then sint (word_of_int (vs ! 0) :: 16 word) else vs ! 0)
     else vs ! 0 * 0x10000 + vs ! 1)"

lemma push_or_words: "0 \<le> l \<Longrightarrow> l \<le> 0xFFFF \<Longrightarrow> push_bit 16 h OR l = h * 0x10000 + (l :: int)"
proof -
  assume l: "0 \<le> l" "l \<le> 0xFFFF"
  then have t: "take_bit 16 l = l" by (simp add: take_bit_int_eq_self_iff)
  have "push_bit 16 h OR take_bit 16 l = push_bit 16 h + take_bit 16 l"
    by (intro disjunctive_add [symmetric])
      (auto simp: bit_push_bit_iff bit_take_bit_iff)
  then show ?thesis by (simp add: t push_bit_eq_mult)
qed

lemma le_check_words_iff: "le_check_words vs = Inr () \<longleftrightarrow> (\<forall>v \<in> set vs. in_word16 v)"
  by (induction vs) (auto simp: in_word16_def)

lemma le_registers_shape:
  assumes "r \<in> set le_registers"
  shows "lr_count r \<in> {1, 2} \<and> (lr_signed r \<longrightarrow> lr_count r = 1) \<and> lr_decimals r \<le> 3
    \<and> lr_scale r = fl (1 / 10 ^ lr_decimals r) \<and> 0 \<le> lr_address r \<and> lr_address r \<le> 37"
  using assms by (auto simp: le_registers_def le_reg_def)

lemma le_numeric_bound:
  assumes "\<forall>v \<in> set vs. in_word16 v" and "int (length vs) = lr_count r" and "lr_count r \<in> {1, 2}"
  shows "\<bar>le_numeric r vs\<bar> < 2 ^ 32"
proof -
  consider v where "vs = [v]" "lr_count r = 1" | h l where "vs = [h, l]" "lr_count r = 2"
  proof -
    from assms(2,3) have "length vs = Suc 0 \<and> lr_count r = 1 \<or> length vs = Suc (Suc 0) \<and> lr_count r = 2"
      by auto
    then show ?thesis using that by (auto simp: length_Suc_conv)
  qed
  then show ?thesis
    using assms(1) by cases (auto simp: le_numeric_def in_word16_def sint_word16 abs_less_iff)
qed

lemma le_decode_catalogue:
  assumes "r \<in> set le_registers" and "1 \<le> u" "u \<le> 247" and "int (length vs) = lr_count r"
    and "\<forall>v \<in> set vs. in_word16 v"
  shows "\<exists>raw. le_decode_registers u r vs = Inr
    \<lparr>lg_unit_id = u, lg_key = lr_key r, lg_address = lr_address r, lg_metric = lr_metric r,
     lg_raw_value = raw, lg_value = py_round (lr_decimals r) (fmul (of_int (le_numeric r vs)) (lr_scale r)),
     lg_unit = lr_unit r, lg_quality = ''valid''\<rparr>"
proof -
  note sh = le_registers_shape [OF assms(1)]
  have val: "le_validate_register_words r vs = Inr ()"
    using assms(4,5) by (simp add: le_validate_register_words_def le_check_words_iff)
  show ?thesis
  proof (cases "lr_count r = 1")
    case True
    with assms(4) obtain v where vs: "vs = [v]" by (cases vs) auto
    with assms(5) have "in_word16 v" by simp
    then have "le_signed_int16 v = Inr (sint (word_of_int v :: 16 word))"
      using signed_int16_sint [of v] by (simp add: le_signed_int16_def signed_int16_def)
    then show ?thesis using True vs val assms(2,3)
      by (simp add: le_decode_registers_def le_numeric_def)
  next
    case False
    then have c: "lr_count r = 2" "\<not> lr_signed r" using sh by auto
    then have "length vs = Suc (Suc 0)" using assms(4) by simp
    then obtain h l where vs: "vs = [h, l]" by (auto simp: length_Suc_conv)
    with assms(5) have "push_bit 16 h OR l = h * 0x10000 + l"
      by (intro push_or_words) (auto simp: in_word16_def)
    then show ?thesis using c vs val assms(2,3)
      by (simp add: le_decode_registers_def le_numeric_def Let_def)
  qed
qed

lemma le_by_key: "dget le_register_by_key k = Some r \<Longrightarrow> r \<in> set le_registers \<and> lr_key r = k"
  by (auto simp: le_register_by_key_def dest!: map_of_SomeD)

context register_reader
begin

text \<open>For every key of the catalogue the reader fails only as the client fails.\<close>

lemma le_read_metric_cases:
  assumes "le_read_metric rd rdn u key s = Some (x, s')" and "dget le_register_by_key key = Some r"
  shows "(\<exists>e. x = Inl e \<and> (rd u (lr_address r) s = Some (Inl e, s') \<or>
            rdn u (lr_address r) (lr_count r) s = Some (Inl e, s')))
    \<or> (\<exists>vs. int (length vs) = lr_count r \<and> (\<forall>v \<in> set vs. in_word16 v) \<and> 1 \<le> u \<and> u \<le> 247
          \<and> x = le_decode_registers u r vs \<and> isOk x)"
proof -
  from le_by_key [OF assms(2)] have r: "r \<in> set le_registers" by simp
  have ok: "isOk (le_decode_registers u r vs)"
    if "1 \<le> u" "u \<le> 247" "int (length vs) = lr_count r" "\<forall>v \<in> set vs. in_word16 v" for vs
    using le_decode_catalogue [OF r that] by (auto simp: isOk_iff)
  let ?fetch = "if lr_count r = 1 then ibind (rd u (lr_address r)) (\<lambda>v. iret [v])
                 else rdn u (lr_address r) (lr_count r)"
  from assms consider
      e where "?fetch s = Some (Inl e, s')" "x = Inl e"
    | vs where "?fetch s = Some (Inr vs, s')" "x = le_decode_registers u r vs"
    by (cases x) (auto simp: le_read_metric_def ibind_eq_Inl ibind_eq_Inr simp del: not_None_eq)
  then show ?thesis
  proof cases
    case 1
    then show ?thesis by (auto simp: ibind_eq_Inl split: if_splits)
  next
    case 2
    have w: "int (length vs) = lr_count r \<and> (\<forall>v \<in> set vs. in_word16 v) \<and> 1 \<le> u \<and> u \<le> 247"
      using 2(1) by (auto simp: ibind_eq_Inr split: if_splits dest: rd_word rdn_words)
    with ok [of vs] 2(2) show ?thesis by blast
  qed
qed

end

section \<open>Properties\<close>

text \<open>C27: A meter reading is the exact decimal. For every register of the catalogue and every payload of
  register words, the value is the float nearest to the payload's integer divided by the power of ten
  of the catalogue, although the code multiplies by an inexact scale before it rounds; and the
  integer can be read back from the value, so no two payload integers give the same reading.\<close>

theorem le_decode_exact:
  assumes "r \<in> set le_registers" and "1 \<le> u" "u \<le> 247" and "int (length vs) = lr_count r"
    and "\<forall>v \<in> set vs. in_word16 v"
  shows "\<exists>x. le_decode_registers u r vs = Inr x
    \<and> lg_value x = fl (of_int (le_numeric r vs) / 10 ^ lr_decimals r)
    \<and> rhe (lg_value x * 10 ^ lr_decimals r) = le_numeric r vs"
proof -
  note sh = le_registers_shape [OF assms(1)]
  have b: "\<bar>le_numeric r vs\<bar> < 2 ^ 32" using le_numeric_bound [OF assms(5,4)] sh by simp
  from le_decode_catalogue [OF assms] py_round_scaled [OF b] decimal_recovered [OF b] sh
  show ?thesis by auto
qed

theorem le_decode_exact_witness:
  "\<exists>x. le_decode_registers 5 ((le_reg ''active_energy'' 7 ''electrical.energy.active'' ''kWh'' (fl (1 / 100)) 2)
      \<lparr>lr_count := 2\<rparr>) [1, 2] = Inr x \<and> rhe (lg_value x * 100) = 65538"
proof -
  let ?r = "(le_reg ''active_energy'' 7 ''electrical.energy.active'' ''kWh'' (fl (1 / 100)) 2)\<lparr>lr_count := 2\<rparr>"
  have "?r \<in> set le_registers" by (simp add: le_registers_def)
  from le_decode_exact [OF this, of 5 "[1, 2]"] show ?thesis
    by (simp add: le_reg_def in_word16_def le_numeric_def) blast
qed

end
