(* ===== verification/Sdm120.thy ===== *)
theory Sdm120
  imports Le01mp
begin

unbundle bit_operations_syntax

text \<open>
  \<open>services/device-agent/sdm120.py\<close>: IEEE single-precision values in two input registers. A finite
  single is an exact rational here; \<open>struct.unpack\<close> gives its sign, exponent and fraction the usual
  reading, and \<open>None\<close> stands for an infinity or a NaN. A negative zero is the rational zero.
\<close>

record sdm_register =
  sr_key :: string
  sr_address :: int
  sr_metric :: string
  sr_unit :: string
  sr_decimals :: nat
  sr_count :: int

definition sdm_addresses :: "sdm_register \<Rightarrow> int list" where
  "sdm_addresses r = [sr_address r .. sr_address r + sr_count r - 1]"

definition sdm_reg :: "string \<Rightarrow> int \<Rightarrow> string \<Rightarrow> string \<Rightarrow> nat \<Rightarrow> sdm_register" where
  "sdm_reg k a m u d = \<lparr>sr_key = k, sr_address = a, sr_metric = m, sr_unit = u, sr_decimals = d, sr_count = 2\<rparr>"

definition sdm_registers :: "sdm_register list" where
  "sdm_registers =
     [sdm_reg ''voltage'' 0x0000 ''electrical.voltage'' ''V'' 1,
      sdm_reg ''current'' 0x0006 ''electrical.current'' ''A'' 3,
      sdm_reg ''active_power'' 0x000C ''electrical.power.active'' ''W'' 1,
      sdm_reg ''apparent_power'' 0x0012 ''electrical.power.apparent'' ''VA'' 1,
      sdm_reg ''reactive_power'' 0x0018 ''electrical.power.reactive'' ''var'' 1,
      sdm_reg ''power_factor'' 0x001E ''electrical.power_factor'' ''ratio'' 3,
      sdm_reg ''frequency'' 0x0046 ''electrical.frequency'' ''Hz'' 2,
      sdm_reg ''import_active_energy'' 0x0048 ''electrical.energy.active'' ''kWh'' 3]"

definition sdm_register_by_key :: "(string, sdm_register) dict" where
  "sdm_register_by_key = map (\<lambda>r. (sr_key r, r)) sdm_registers"

record sdm_reading =
  sg_unit_id :: int
  sg_key :: string
  sg_address :: int
  sg_metric :: string
  sg_raw_value :: int
  sg_value :: pyfloat
  sg_unit :: string
  sg_quality :: string

section \<open>Single-precision payloads\<close>

text \<open>The magnitude that the 31 low bits stand for, and the value with the sign bit.\<close>

definition float32_mag :: "int \<Rightarrow> rat" where
  "float32_mag n = (let e = n div 2 ^ 23; m = n mod 2 ^ 23
     in if e = 0 then of_int m * 2 powi (- 149) else of_int (2 ^ 23 + m) * 2 powi (e - 150))"

definition float32_value :: "int \<Rightarrow> rat option" where
  "float32_value raw = (let n = raw mod 2 ^ 31 in
     if n div 2 ^ 23 = 255 then None
     else Some (if raw div 2 ^ 31 = 1 then - float32_mag n else float32_mag n))"

definition decode_float32_words :: "int list \<Rightarrow> (int \<times> pyfloat) result" where
  "decode_float32_words vs =
     (case vs of
        [high_word, low_word] \<Rightarrow>
          if \<not> (0 \<le> high_word \<and> high_word \<le> 0xFFFF) \<or> \<not> (0 \<le> low_word \<and> low_word \<le> 0xFFFF) then
            Inl (ValueError (''SDM120 register words must be uint16: ('' @ dec high_word @ '', ''
                   @ dec low_word @ '')''))
          else let raw_value = push_bit 16 high_word OR low_word in
            (case float32_value raw_value of
               None \<Rightarrow> Inl (ValueError ''SDM120 Float32 value must be finite'')
             | Some v \<Rightarrow> Inr (raw_value, v))
      | _ \<Rightarrow> Inl (ValueError (''SDM120 Float32 expects 2 register words, got '' @ dec (int (length vs)))))"

definition sdm_decode_registers :: "int \<Rightarrow> sdm_register \<Rightarrow> int list \<Rightarrow> sdm_reading result" where
  "sdm_decode_registers unit_id r vs =
     (if \<not> (1 \<le> unit_id \<and> unit_id \<le> 247) then
        Inl (ValueError (''Modbus unit ID must be 1..247, got '' @ dec unit_id))
      else if int (length vs) \<noteq> sr_count r then
        Inl (ValueError (sr_key r @ '' expects '' @ dec (sr_count r) @ '' register words, got ''
               @ dec (int (length vs))))
      else ebind (decode_float32_words vs) (\<lambda>(raw_value, numeric).
        Inr \<lparr>sg_unit_id = unit_id, sg_key = sr_key r, sg_address = sr_address r,
             sg_metric = sr_metric r, sg_raw_value = raw_value,
             sg_value = py_round (sr_decimals r) numeric, sg_unit = sr_unit r, sg_quality = ''valid''\<rparr>))"

text \<open>\<open>except ValueError\<close> around the decoder turns its error into a \<open>RuntimeError\<close>.\<close>

definition sdm_read_metric ::
  "(int \<Rightarrow> int \<Rightarrow> int \<Rightarrow> ('s, int list) io) \<Rightarrow> int \<Rightarrow> string \<Rightarrow> ('s, sdm_reading) io" where
  "sdm_read_metric rdn unit_id key =
     (case dget sdm_register_by_key key of
        None \<Rightarrow> iraise (ValueError (''Unknown SDM120 metric key: '' @ key))
      | Some r \<Rightarrow>
          ibind (rdn unit_id (sr_address r) (sr_count r)) (\<lambda>vs.
            icatch (ilift (sdm_decode_registers unit_id r vs))
              (\<lambda>e. if is_value_error e
                 then Some (iraise (RuntimeError (''SDM120 '' @ key @ '' returned an invalid Float32 payload'')))
                 else None)))"

section \<open>The order of single-precision values\<close>

lemma float32_mag_fields:
  "k div 2 ^ 23 = e \<Longrightarrow> k mod 2 ^ 23 = m \<Longrightarrow> float32_mag k
    = (if e = 0 then of_int m * 2 powi (- 149) else of_int (2 ^ 23 + m) * 2 powi (e - 150))"
  unfolding float32_mag_def Let_def by (simp only:)

lemma float32_mag_step:
  assumes "0 \<le> n"
  shows "float32_mag n < float32_mag (n + 1)"
proof -
  define e m where "e = n div 2 ^ 23" and "m = n mod 2 ^ 23"
  have n: "n = e * 2 ^ 23 + m" "0 \<le> m" "m < 2 ^ 23" "0 \<le> e" using assms by (auto simp: e_def m_def)
  have mag: "float32_mag n = (if e = 0 then of_int m * 2 powi (- 149) else of_int (2 ^ 23 + m) * 2 powi (e - 150))"
    by (rule float32_mag_fields) (simp_all only: e_def m_def)
  show ?thesis
  proof (cases "m + 1 < 2 ^ 23")
    case True
    have s: "n + 1 = (m + 1) + e * 2 ^ 23" using n(1) by simp
    have "(m + 1) div 2 ^ 23 = 0" "(m + 1) mod 2 ^ 23 = m + 1"
      using True n(2) by (intro div_pos_pos_trivial mod_pos_pos_trivial, auto)
    then have "(n + 1) div 2 ^ 23 = e" "(n + 1) mod 2 ^ 23 = m + 1"
      unfolding s by (simp_all only: div_mult_self1 mod_mult_self1) simp_all
    from float32_mag_fields [OF this] show ?thesis
      unfolding mag by (simp add: mult_strict_right_mono)
  next
    case False
    then have m: "m = 2 ^ 23 - 1" using n by simp
    then have "n + 1 = (e + 1) * 2 ^ 23" using n by simp
    then have "(n + 1) div 2 ^ 23 = e + 1" "(n + 1) mod 2 ^ 23 = 0" by simp_all
    from float32_mag_fields [OF this] n(4)
    have mag1: "float32_mag (n + 1) = 2 ^ 23 * 2 powi (e - 149)" by simp
    have two: "(2::rat) powi (e - 149) = 2 * 2 powi (e - 150)"
      using powi_add_nat [of "e - 150" 1] by simp
    have p: "(0::rat) < 2 powi (e - 150)" by (rule powi_pos)
    show ?thesis
    proof (cases "e = 0")
      case True
      then show ?thesis unfolding mag mag1 by (simp add: m)
    next
      case False
      then show ?thesis using p unfolding mag mag1 two by (simp add: m)
    qed
  qed
qed

lemma float32_mag_strict:
  assumes "0 \<le> a" and "a < b"
  shows "float32_mag a < float32_mag b"
proof -
  have "float32_mag a < float32_mag (a + int (Suc k))" for k
  proof (induction k)
    case 0
    then show ?case using float32_mag_step [OF assms(1)] by simp
  next
    case (Suc k)
    have "float32_mag (a + int (Suc k)) < float32_mag (a + int (Suc k) + 1)"
      using assms(1) by (intro float32_mag_step) simp
    with Suc show ?case by (simp add: add.assoc)
  qed
  from this [of "nat (b - a - 1)"] assms(2) show ?thesis by (simp add: of_nat_diff)
qed

lemma float32_mag_0: "float32_mag 0 = 0"
  by (simp add: float32_mag_def)

lemma float32_mag_float:
  assumes "0 \<le> n" and "n < 2 ^ 31"
  shows "is_float (float32_mag n)"
proof -
  have m: "0 \<le> n mod 2 ^ 23" "n mod 2 ^ 23 < 2 ^ 23" by simp_all
  have e: "0 \<le> n div 2 ^ 23" using assms by (simp add: pos_imp_zdiv_nonneg_iff)
  have "fl (of_int (n mod 2 ^ 23) * 2 powi (- 149)) = of_int (n mod 2 ^ 23) * 2 powi (- 149)"
    using m by (intro fl_repr) auto
  moreover have "fl (of_int (2 ^ 23 + n mod 2 ^ 23) * 2 powi (n div 2 ^ 23 - 150))
      = of_int (2 ^ 23 + n mod 2 ^ 23) * 2 powi (n div 2 ^ 23 - 150)"
    using m e by (intro fl_repr) auto
  ultimately show ?thesis
    unfolding float32_mag_def is_float_def Let_def
    by (cases "n div 2 ^ 23 = 0") (simp_all only: if_True if_False simp_thms)
qed

lemma float32_value_bits:
  assumes "0 \<le> raw" "raw < 2 ^ 32"
  shows "float32_value raw = (if raw mod 2 ^ 31 div 2 ^ 23 = 255 then None
    else Some ((if raw < 2 ^ 31 then 1 else - 1) * float32_mag (raw mod 2 ^ 31)))"
proof -
  have "raw div 2 ^ 31 = (if raw < 2 ^ 31 then 0 else 1)" using assms by auto
  then show ?thesis unfolding float32_value_def Let_def by simp
qed

lemma decode_float32_two:
  assumes "in_word16 h" "in_word16 l"
  shows "decode_float32_words [h, l] = (case float32_value (h * 0x10000 + l) of
      None \<Rightarrow> Inl (ValueError ''SDM120 Float32 value must be finite'')
    | Some v \<Rightarrow> Inr (h * 0x10000 + l, v))"
  using assms push_or_words [of l h] by (simp add: decode_float32_words_def in_word16_def Let_def)

lemma decode_float32_ok:
  "decode_float32_words vs = Inr (raw, v) \<Longrightarrow> 0 \<le> raw \<and> raw < 2 ^ 32 \<and> float32_value raw = Some v"
  by (auto simp: decode_float32_words_def Let_def push_or_words split: list.splits if_splits option.splits)

lemma float32_is_float:
  assumes "0 \<le> raw" "raw < 2 ^ 32" and "float32_value raw = Some v"
  shows "is_float v"
proof -
  have "is_float (float32_mag (raw mod 2 ^ 31))" by (rule float32_mag_float) simp_all
  then show ?thesis using assms by (auto simp: float32_value_bits is_float_def fl_uminus split: if_splits)
qed

lemma sdm_by_key: "dget sdm_register_by_key k = Some r \<Longrightarrow> r \<in> set sdm_registers \<and> sr_key r = k \<and> sr_count r = 2"
  by (auto simp: sdm_register_by_key_def sdm_registers_def sdm_reg_def split: if_splits)

context register_reader
begin

lemma sdm_read_metric_cases:
  assumes "sdm_read_metric rdn u key s = Some (x, s')" and "dget sdm_register_by_key key = Some r"
  shows "(\<exists>e. x = Inl e \<and> rdn u (sr_address r) 2 s = Some (Inl e, s'))
    \<or> (\<exists>h l. rdn u (sr_address r) 2 s = Some (Inr [h, l], s') \<and> in_word16 h \<and> in_word16 l
        \<and> 1 \<le> u \<and> u \<le> 247
        \<and> x = (case float32_value (h * 0x10000 + l) of
              None \<Rightarrow> Inl (RuntimeError (''SDM120 '' @ key @ '' returned an invalid Float32 payload''))
            | Some v \<Rightarrow> Inr \<lparr>sg_unit_id = u, sg_key = key, sg_address = sr_address r, sg_metric = sr_metric r,
                sg_raw_value = h * 0x10000 + l, sg_value = py_round (sr_decimals r) v,
                sg_unit = sr_unit r, sg_quality = ''valid''\<rparr>))"
proof -
  from sdm_by_key [OF assms(2)] have c: "sr_count r = 2" "sr_key r = key" by auto
  from assms c consider e where "rdn u (sr_address r) 2 s = Some (Inl e, s')" "x = Inl e"
    | vs where "rdn u (sr_address r) 2 s = Some (Inr vs, s')"
        "icatch (ilift (sdm_decode_registers u r vs)) (\<lambda>e. if is_value_error e
                 then Some (iraise (RuntimeError (''SDM120 '' @ key @ '' returned an invalid Float32 payload'')))
                 else None) s' = Some (x, s')"
    by (auto simp: sdm_read_metric_def ibind_def icatch_def ilift_def iraise_def
        split: option.splits sum.splits if_splits)
  then show ?thesis
  proof cases
    case 2
    from rdn_pair [OF 2(1)] obtain h l where w: "vs = [h, l]" "in_word16 h" "in_word16 l" "1 \<le> u" "u \<le> 247" .
    then show ?thesis using 2 c
      by (auto simp: icatch_def ilift_def iraise_def sdm_decode_registers_def decode_float32_two
          split: option.splits)
  qed blast
qed

end

section \<open>Properties\<close>

text \<open>Single-precision payloads are decoded without loss. Whatever two words decode to is exactly
  representable in the double the code stores; among payloads with the sign bit clear a larger
  payload is a strictly larger value, and setting the sign bit negates it.\<close>

theorem float32_order:
  assumes "decode_float32_words vs = Inr (raw, v)" and "decode_float32_words vs' = Inr (raw', v')"
  shows "is_float v
    \<and> (raw < 2 ^ 31 \<longrightarrow> raw' < 2 ^ 31 \<longrightarrow> (v < v' \<longleftrightarrow> raw < raw') \<and> 0 \<le> v)
    \<and> (raw < 2 ^ 31 \<longrightarrow> raw' = raw + 2 ^ 31 \<longrightarrow> v' = - v)"
proof -
  note a = decode_float32_ok [OF assms(1)] and b = decode_float32_ok [OF assms(2)]
  have f: "is_float v" using a float32_is_float by blast
  have "(v < v' \<longleftrightarrow> raw < raw') \<and> 0 \<le> v" if "raw < 2 ^ 31" "raw' < 2 ^ 31"
  proof -
    have v: "v = float32_mag raw" "v' = float32_mag raw'"
      using a b that by (auto simp: float32_value_bits split: if_splits)
    have "float32_mag 0 \<le> float32_mag raw"
      using a float32_mag_strict [of 0 raw] by (cases "raw = 0") auto
    then show ?thesis
      using v a b float32_mag_strict [of raw raw'] float32_mag_strict [of raw' raw]
      by (cases raw raw' rule: linorder_cases) (auto simp: float32_mag_0)
  qed
  moreover have "v' = - v" if "raw < 2 ^ 31" "raw' = raw + 2 ^ 31"
    using a b that by (auto simp: float32_value_bits split: if_splits)
  ultimately show ?thesis using f by blast
qed

theorem float32_order_witness:
  "decode_float32_words [0x4366, 0x0000] = Inr (0x43660000, 230)
    \<and> decode_float32_words [0xC366, 0x0000] = Inr (0xC3660000, - 230) \<and> is_float (230 :: rat)"
proof -
  have p: "decode_float32_words [0x4366, 0x0000] = Inr (0x43660000, 230)"
    by (subst decode_float32_two) (simp_all add: in_word16_def float32_value_def float32_mag_def power_int_minus_divide)
  have n: "decode_float32_words [0xC366, 0x0000] = Inr (0xC3660000, - 230)"
    by (subst decode_float32_two) (simp_all add: in_word16_def float32_value_def float32_mag_def power_int_minus_divide)
  from float32_order [OF p n] p n show ?thesis by blast
qed

text \<open>Reading a meter metric fails in two ways only. For a key of the catalogue the reader raises what
  the client raised, or a \<open>RuntimeError\<close> when the payload is an infinity or a NaN; otherwise the
  reading holds the payload's finite value rounded to the catalogue's decimals.\<close>

theorem sdm_read_metric_outcome:
  assumes "sdm_read_metric (input_registers ops) u key s = Some (x, s')"
    and "dget sdm_register_by_key key = Some r"
  shows "(\<exists>e. x = Inl e \<and> input_registers ops u (sr_address r) 2 s = Some (Inl e, s'))
    \<or> (\<exists>h l. input_registers ops u (sr_address r) 2 s = Some (Inr [h, l], s') \<and>
        (case x of
           Inl e \<Rightarrow> is_runtime_error e \<and> float32_value (h * 0x10000 + l) = None
         | Inr g \<Rightarrow> sg_raw_value g = h * 0x10000 + l \<and> sg_quality g = ''valid'' \<and> sg_metric g = sr_metric r
             \<and> (\<exists>v. float32_value (h * 0x10000 + l) = Some v \<and> is_float v
                   \<and> sg_value g = py_round (sr_decimals r) v)))"
  using inputs.sdm_read_metric_cases [OF assms]
proof (elim disjE exE conjE)
  fix h l
  assume r: "input_registers ops u (sr_address r) 2 s = Some (Inr [h, l], s')"
    and w: "in_word16 h" "in_word16 l"
    and x: "x = (case float32_value (h * 0x10000 + l) of
              None \<Rightarrow> Inl (RuntimeError (''SDM120 '' @ key @ '' returned an invalid Float32 payload''))
            | Some v \<Rightarrow> Inr \<lparr>sg_unit_id = u, sg_key = key, sg_address = sr_address r, sg_metric = sr_metric r,
                sg_raw_value = h * 0x10000 + l, sg_value = py_round (sr_decimals r) v,
                sg_unit = sr_unit r, sg_quality = ''valid''\<rparr>)"
  have b: "0 \<le> h * 0x10000 + l" "h * 0x10000 + l < 2 ^ 32" using w by (auto simp: in_word16_def)
  show ?thesis
  proof (cases "float32_value (h * 0x10000 + l)")
    case None
    with r x show ?thesis by auto
  next
    case (Some v)
    with r x float32_is_float [OF b Some] show ?thesis by auto
  qed
qed auto

theorem sdm_read_metric_outcome_witness:
  "\<exists>x s'. sdm_read_metric (input_registers (sim_ops (register_answer 2 4 [0x7F80, 0])))
      2 ''voltage'' (sim_client, (0, [], [])) = Some (Inl x, s') \<and> is_runtime_error x"
proof -
  let ?ops = "sim_ops (register_answer 2 4 [0x7F80, 0])"
  have k: "dget sdm_register_by_key ''voltage'' = Some (sdm_reg ''voltage'' 0 ''electrical.voltage'' ''V'' 1)"
    by (simp add: sdm_register_by_key_def sdm_registers_def sdm_reg_def)
  obtain c w where r: "input_registers ?ops 2 0 2 (sim_client, (0, [], [])) = Some (Inr [0x7F80, 0], (c, w))"
    using sim_inputs [OF sim_client_ready, of "[0x7F80, 0]" 2 0 "(0, [], [])"]
    by (auto simp: in_word16_def request_valid_def)
  have d: "sdm_decode_registers 2 (sdm_reg ''voltage'' 0 ''electrical.voltage'' ''V'' 1) [0x7F80, 0]
      = Inl (ValueError ''SDM120 Float32 value must be finite'')"
    by (simp add: sdm_decode_registers_def sdm_reg_def decode_float32_two in_word16_def float32_value_def)
  obtain x where run: "sdm_read_metric (input_registers ?ops) 2 ''voltage'' (sim_client, (0, [], []))
      = Some (Inl x, (c, w))"
    using r d by (simp add: sdm_read_metric_def k sdm_reg_def ibind_def icatch_def ilift_def iraise_def)
  from sdm_read_metric_outcome [OF run k] r have "is_runtime_error x" by (auto simp: sdm_reg_def)
  with run show ?thesis by blast
qed

end
