(* ===== verification/Akcc25.thy ===== *)
theory Akcc25
  imports Xjp60d
begin

unbundle bit_operations_syntax

text \<open>
  \<open>services/device-agent/akcc25.py\<close>: the integer probe set of the Danfoss AK-CC25 Pro controller. One
  documented range or one enumeration per register decides whether a word is a value; anything else
  is reported as unknown, not as a number.
\<close>

record ak_register =
  ar_key :: string
  ar_code :: string
  ar_adu_address :: int
  ar_metric :: string
  ar_unit :: string
  ar_minimum :: int
  ar_maximum :: int
  ar_binary :: bool
  ar_signed :: bool
  ar_source_access :: string

definition ak_address :: "ak_register \<Rightarrow> int" where
  "ak_address r = ar_adu_address r - 1"

definition ak_reg :: "string \<Rightarrow> string \<Rightarrow> int \<Rightarrow> string \<Rightarrow> string \<Rightarrow> int \<Rightarrow> int \<Rightarrow> bool \<Rightarrow> bool \<Rightarrow> string \<Rightarrow> ak_register" where
  "ak_reg k c a m u lo hi b s acc = \<lparr>ar_key = k, ar_code = c, ar_adu_address = a, ar_metric = m, ar_unit = u,
     ar_minimum = lo, ar_maximum = hi, ar_binary = b, ar_signed = s, ar_source_access = acc\<rparr>"

definition ak_registers :: "ak_register list" where
  "ak_registers =
     [ak_reg ''control_state'' ''u00'' 2007 ''refrigeration.control_state'' ''state'' 0 55 False False ''R'',
      ak_reg ''compressor_state'' ''u58'' 2510 ''compressor.state'' ''state'' 0 1 True False ''R'',
      ak_reg ''compressor_speed'' ''u52'' 2685 ''compressor.speed'' ''%'' 0 100 False False ''R'',
      ak_reg ''fan_state'' ''u59'' 2511 ''fan.evaporator.state'' ''state'' 0 1 True False ''R'',
      ak_reg ''defrost_state'' ''u60'' 2512 ''defrost.state'' ''state'' 0 1 True False ''R'',
      ak_reg ''network_status'' ''U45'' 2682 ''controller.network_status'' ''%'' 0 100 False False ''R'',
      ak_reg ''alarm_status'' ''x16'' 2541 ''controller.alarm_state'' ''state'' 0 1 True False ''R'',
      ak_reg ''network_address'' ''o03'' 2008 ''controller.network_address'' ''address'' (- 1) 240 False True ''RW'',
      ak_reg ''baudrate_setting'' ''oa1'' 2251 ''controller.serial_baudrate_setting'' ''enum'' 1 5 False False ''RW'',
      ak_reg ''parity_setting'' ''oa2'' 2255 ''controller.serial_parity_setting'' ''enum'' 0 2 False False ''RW'']"

definition ak_register_by_key :: "(string, ak_register) dict" where
  "ak_register_by_key = map (\<lambda>r. (ar_key r, r)) ak_registers"

definition setting_semantics :: "(string, (int, string) dict) dict" where
  "setting_semantics =
     [(''baudrate_setting'', [(1, ''auto''), (2, ''9600''), (3, ''19200''), (4, ''38400''), (5, ''115200'')]),
      (''parity_setting'', [(0, ''none''), (1, ''even''), (2, ''odd'')])]"

definition ak_control_states :: "(int, string) dict" where
  "ak_control_states =
     [(0, ''normal_control''), (1, ''hold_after_defrost''), (2, ''minimum_on_timer''),
      (3, ''minimum_off_timer''), (4, ''drip_off''), (10, ''main_switch_off''),
      (11, ''thermostat_cut_out''), (12, ''frost_protection_s4''), (14, ''defrost''),
      (15, ''fan_delay''), (17, ''door_open''), (18, ''melt_period''),
      (19, ''modulating_temperature_control''), (20, ''emergency_control''), (25, ''manual_control''),
      (29, ''case_cleaning''), (30, ''forced_cooling''), (32, ''power_up_delay''), (33, ''air_heating''),
      (34, ''compressor_safety_cut_out''), (41, ''high_condenser_temperature''),
      (45, ''controller_shutdown''), (50, ''high_s7_brine_inlet''), (51, ''oil_recovery''),
      (52, ''temperature_pulldown''), (53, ''compressor_lockout''), (54, ''leak_action''),
      (55, ''wrong_io_configuration'')]"

record ak_reading =
  ag_unit_id :: int
  ag_key :: string
  ag_code :: string
  ag_address :: int
  ag_adu_address :: int
  ag_metric :: string
  ag_raw_value :: int
  ag_value :: "pyfloat option"
  ag_unit :: string
  ag_quality :: string
  ag_semantic :: "string option"

text \<open>The two assignments \<open>semantic\<close> and \<open>valid\<close> of \<open>decode_register\<close>.\<close>

definition ak_classify :: "ak_register \<Rightarrow> int \<Rightarrow> string option \<times> bool" where
  "ak_classify r numeric =
     (let valid = (ar_minimum r \<le> numeric \<and> numeric \<le> ar_maximum r) in
      if ar_key r = ''control_state'' then
        (let semantic = dget ak_control_states numeric in (semantic, semantic \<noteq> None))
      else (case dget setting_semantics (ar_key r) of
          Some table \<Rightarrow> (let semantic = dget table numeric in (semantic, semantic \<noteq> None))
        | None \<Rightarrow>
            if ar_binary r \<and> valid then (Some (if numeric = 1 then ''on'' else ''off''), valid)
            else (None, valid)))"

definition ak_numeric :: "ak_register \<Rightarrow> int \<Rightarrow> int" where
  "ak_numeric r raw_value = (if ar_signed r \<and> raw_value AND 0x8000 \<noteq> 0 then raw_value - 0x10000 else raw_value)"

definition ak_decode_register :: "int \<Rightarrow> ak_register \<Rightarrow> int \<Rightarrow> ak_reading result" where
  "ak_decode_register unit_id r raw_value =
     (if \<not> (1 \<le> unit_id \<and> unit_id \<le> 247) then
        Inl (ValueError (''Modbus unit ID must be 1..247, got '' @ dec unit_id))
      else if \<not> (0 \<le> raw_value \<and> raw_value \<le> 0xFFFF) then
        Inl (ValueError (''uint16 value expected, got '' @ dec raw_value))
      else let numeric = ak_numeric r raw_value in
        (case ak_classify r numeric of (semantic, valid) \<Rightarrow>
           Inr \<lparr>ag_unit_id = unit_id, ag_key = ar_key r, ag_code = ar_code r, ag_address = ak_address r,
                ag_adu_address = ar_adu_address r, ag_metric = ar_metric r, ag_raw_value = raw_value,
                ag_value = (if valid then Some (fl (of_int numeric)) else None), ag_unit = ar_unit r,
                ag_quality = (if valid then ''valid'' else ''unknown''), ag_semantic = semantic\<rparr>))"

definition ak_read_metric ::
  "(int \<Rightarrow> int \<Rightarrow> ('s, int) io) \<Rightarrow> int \<Rightarrow> string \<Rightarrow> ('s, ak_reading) io" where
  "ak_read_metric rd unit_id key =
     (case dget ak_register_by_key key of
        None \<Rightarrow> iraise (ValueError (''Unknown AK-CC25 Pro metric key: '' @ key))
      | Some r \<Rightarrow> ibind (rd unit_id (ak_address r)) (\<lambda>v. ilift (ak_decode_register unit_id r v)))"

section \<open>Lemmas\<close>

text \<open>Every enumerated code lies inside the documented range of its register.\<close>

lemma ak_control_range:
  assumes "dget ak_control_states n \<noteq> None"
  shows "0 \<le> n \<and> n \<le> 55"
proof -
  have k: "dkeys ak_control_states = [0, 1, 2, 3, 4, 10, 11, 12, 14, 15, 17, 18, 19, 20, 25, 29, 30, 32,
      33, 34, 41, 45, 50, 51, 52, 53, 54, 55]"
    unfolding ak_control_states_def by (simp only: list.map fst_conv)
  have "list_all (\<lambda>k. 0 \<le> k \<and> k \<le> 55) (dkeys ak_control_states)" unfolding k by simp
  moreover have "n \<in> set (dkeys ak_control_states)" using assms by (metis not_None_eq dget_key_in)
  ultimately show ?thesis unfolding list_all_iff by blast
qed

lemma ak_control_register:
  "r \<in> set ak_registers \<Longrightarrow> ar_key r = ''control_state'' \<Longrightarrow> ar_minimum r = 0 \<and> ar_maximum r = 55"
  by (auto simp: ak_registers_def ak_reg_def)

lemma ak_setting_register:
  assumes "r \<in> set ak_registers" and "dget setting_semantics (ar_key r) = Some t" and "dget t n \<noteq> None"
  shows "ar_minimum r \<le> n \<and> n \<le> ar_maximum r"
proof -
  from assms(2) have "ar_key r = ''baudrate_setting'' \<and>
        t = [(1, ''auto''), (2, ''9600''), (3, ''19200''), (4, ''38400''), (5, ''115200'')]
      \<or> ar_key r = ''parity_setting'' \<and> t = [(0, ''none''), (1, ''even''), (2, ''odd'')]"
    unfolding setting_semantics_def map_of.simps
    by (simp only: fst_conv snd_conv fun_upd_apply split: if_splits) simp_all
  then consider "ar_key r = ''baudrate_setting''" "set (dkeys t) = {1, 2, 3, 4, 5}"
    | "ar_key r = ''parity_setting''" "set (dkeys t) = {0, 1, 2}"
    by (elim disjE conjE) simp_all
  then show ?thesis
  proof cases
    case 1
    then have "ar_minimum r = 1 \<and> ar_maximum r = 5" using assms(1) by (auto simp: ak_registers_def ak_reg_def)
    then show ?thesis using 1(2) assms(3) dget_key_in [of t n] by auto
  next
    case 2
    then have "ar_minimum r = 0 \<and> ar_maximum r = 2" using assms(1) by (auto simp: ak_registers_def ak_reg_def)
    then show ?thesis using 2(2) assms(3) dget_key_in [of t n] by auto
  qed
qed

lemma ak_catalogue_ranges:
  assumes "r \<in> set ak_registers" and "ak_classify r n = (sem, True)"
  shows "ar_minimum r \<le> n \<and> n \<le> ar_maximum r"
proof (cases "ar_key r = ''control_state''")
  case True
  then have "dget ak_control_states n \<noteq> None" using assms(2) by (auto simp: ak_classify_def Let_def)
  then show ?thesis using ak_control_range ak_control_register [OF assms(1) True] by auto
next
  case False
  show ?thesis
  proof (cases "dget setting_semantics (ar_key r)")
    case None
    with False assms(2) show ?thesis by (auto simp: ak_classify_def Let_def split: if_splits)
  next
    case (Some t)
    then have "dget t n \<noteq> None" using False assms(2) by (auto simp: ak_classify_def Let_def)
    with Some show ?thesis using ak_setting_register [OF assms(1)] by blast
  qed
qed

lemma ak_numeric_sint:
  assumes "in_word16 v"
  shows "ak_numeric r v = (if ar_signed r then sint (word_of_int v :: 16 word) else v)"
  using and_0x8000 [OF assms] sint_word16 [OF assms] by (simp add: ak_numeric_def)

lemma ak_address_range: "r \<in> set ak_registers \<Longrightarrow> 0 \<le> ak_address r \<and> ak_address r \<le> 0xFFFF"
  by (auto simp: ak_registers_def ak_reg_def ak_address_def)

lemma ak_by_key: "dget ak_register_by_key k = Some r \<longleftrightarrow> r \<in> set ak_registers \<and> ar_key r = k"
  unfolding ak_register_by_key_def by (rule dget_by_key) (simp add: ak_registers_def ak_reg_def)

lemma ak_decode_word:
  assumes "in_word16 v" and "1 \<le> u" "u \<le> 247" and "ak_classify r (ak_numeric r v) = (sem, valid)"
  shows "ak_decode_register u r v = Inr \<lparr>ag_unit_id = u, ag_key = ar_key r, ag_code = ar_code r,
     ag_address = ak_address r, ag_adu_address = ar_adu_address r, ag_metric = ar_metric r, ag_raw_value = v,
     ag_value = (if valid then Some (fl (of_int (ak_numeric r v))) else None), ag_unit = ar_unit r,
     ag_quality = (if valid then ''valid'' else ''unknown''), ag_semantic = sem\<rparr>"
  using assms by (simp add: ak_decode_register_def Let_def in_word16_def)

context register_reader
begin

lemma ak_read_metric_cases:
  assumes "ak_read_metric rd u key s = Some (x, s')" and "dget ak_register_by_key key = Some r"
  shows "(\<exists>e. x = Inl e \<and> rd u (ak_address r) s = Some (Inl e, s'))
    \<or> (\<exists>v. rd u (ak_address r) s = Some (Inr v, s') \<and> in_word16 v \<and> 1 \<le> u \<and> u \<le> 247
        \<and> x = ak_decode_register u r v)"
  using assms by (cases x) (auto simp: ak_read_metric_def ibind_iffs dest: rd_word)

end

section \<open>Properties\<close>

text \<open>An undocumented code is never a value. For every key of the probe set the reader raises what the
  client raised, or returns a reading whose value is present exactly when its quality is valid; a
  present value is the word (signed for the network address) and lies in the documented range of the
  register, and one of the controller's enumerated states has its name as its semantic.\<close>

theorem ak_read_metric_outcome:
  assumes "ak_read_metric (holding_register ops) u key s = Some (x, s')"
    and "dget ak_register_by_key key = Some r"
  shows "case x of
      Inl e \<Rightarrow> holding_register ops u (ak_address r) s = Some (Inl e, s')
    | Inr g \<Rightarrow> ag_metric g = ar_metric r \<and> in_word16 (ag_raw_value g)
        \<and> holding_register ops u (ak_address r) s = Some (Inr (ag_raw_value g), s')
        \<and> (ag_quality g = ''valid'' \<longleftrightarrow> ag_value g \<noteq> None)
        \<and> (\<forall>q. ag_value g = Some q \<longrightarrow> (\<exists>n. q = of_int n \<and> n = ak_numeric r (ag_raw_value g)
             \<and> ar_minimum r \<le> n \<and> n \<le> ar_maximum r
             \<and> (key = ''control_state'' \<longrightarrow> ag_semantic g = dget ak_control_states n \<and> ag_semantic g \<noteq> None)))"
proof -
  from assms(2) have r: "r \<in> set ak_registers" "ar_key r = key" by (simp_all add: ak_by_key)
  from holding.ak_read_metric_cases [OF assms] show ?thesis
  proof (elim disjE exE conjE)
    fix v assume h: "holding_register ops u (ak_address r) s = Some (Inr v, s')"
      and v: "in_word16 v" "1 \<le> u" "u \<le> 247" and x: "x = ak_decode_register u r v"
    obtain sem valid where c: "ak_classify r (ak_numeric r v) = (sem, valid)" by fastforce
    have f: "fl (of_int (ak_numeric r v)) = of_int (ak_numeric r v)"
      using v by (intro fl_of_int) (auto simp: ak_numeric_def in_word16_def)
    have k: "valid \<and> key = ''control_state'' \<Longrightarrow> sem = dget ak_control_states (ak_numeric r v) \<and> sem \<noteq> None"
      using c r(2) by (auto simp: ak_classify_def Let_def)
    have rg: "valid \<Longrightarrow> ar_minimum r \<le> ak_numeric r v \<and> ak_numeric r v \<le> ar_maximum r"
      using ak_catalogue_ranges [OF r(1), of "ak_numeric r v" sem] c by auto
    from ak_decode_word [OF v c] x f h v k rg show ?thesis by auto
  qed auto
qed

theorem ak_read_metric_outcome_witness:
  "\<exists>g s'. ak_read_metric (holding_register (sim_ops (register_answer 9 3 [41])))
      9 ''control_state'' (sim_client, (0, [], [])) = Some (Inr g, s') \<and> ag_metric g = ''refrigeration.control_state''"
proof -
  let ?r = "ak_reg ''control_state'' ''u00'' 2007 ''refrigeration.control_state'' ''state'' 0 55 False False ''R''"
  let ?ops = "sim_ops (register_answer 9 3 [41])"
  have k: "dget ak_register_by_key ''control_state'' = Some ?r"
    unfolding ak_by_key by (simp add: ak_registers_def ak_reg_def)
  obtain c w where h: "holding_register ?ops 9 2006 (sim_client, (0, [], [])) = Some (Inr 41, (c, w))"
    using sim_holding [OF sim_client_ready, of 41 9 2006 "(0, [], [])"] by (auto simp: in_word16_def)
  obtain sem valid where cl: "ak_classify ?r (ak_numeric ?r 41) = (sem, valid)" by fastforce
  have "in_word16 41" by (simp add: in_word16_def)
  from ak_decode_word [OF this, of 9 ?r, OF _ _ cl] obtain g where d: "ak_decode_register 9 ?r 41 = Inr g"
    by simp
  have "ak_address ?r = 2006" by (simp add: ak_address_def ak_reg_def)
  then have run: "ak_read_metric (holding_register ?ops) 9 ''control_state'' (sim_client, (0, [], []))
      = Some (Inr g, (c, w))"
    using h d by (simp add: ak_read_metric_def k ibind_def ilift_def)
  from ak_read_metric_outcome [OF run k] have "ag_metric g = ''refrigeration.control_state''"
    by (simp add: ak_reg_def)
  with run show ?thesis by blast
qed

end
