(* ===== verification/Embraco.thy ===== *)
theory Embraco
  imports Xjp60d "HOL-Library.Sublist"
begin

unbundle bit_operations_syntax

text \<open>
  \<open>services/device-agent/embraco.py\<close>: the FC03 map of the Embraco Sync controller. Temperatures and
  control parameters become values only under an explicit scale.
\<close>

record emb_register =
  er_key :: string
  er_address :: int
  er_metric :: string
  er_unit :: string
  er_engineering_scale :: "string option"

definition emb_reg :: "string \<Rightarrow> int \<Rightarrow> string \<Rightarrow> string \<Rightarrow> string option \<Rightarrow> emb_register" where
  "emb_reg k a m u e = \<lparr>er_key = k, er_address = a, er_metric = m, er_unit = u, er_engineering_scale = e\<rparr>"

definition emb_registers :: "emb_register list" where
  "emb_registers =
     [emb_reg ''hysteresis'' 0 ''refrigeration.hysteresis'' ''degC'' (Some ''control''),
      emb_reg ''setpoint'' 1 ''refrigeration.setpoint'' ''degC'' (Some ''control''),
      emb_reg ''cabinet_temperature'' 2 ''temperature.cabinet'' ''degC'' (Some ''temperature''),
      emb_reg ''evaporator_temperature'' 3 ''temperature.evaporator'' ''degC'' (Some ''temperature''),
      emb_reg ''condenser_temperature'' 4 ''temperature.condenser'' ''degC'' (Some ''temperature''),
      emb_reg ''ambient_temperature'' 5 ''temperature.ambient'' ''degC'' (Some ''temperature''),
      emb_reg ''door_temperature'' 6 ''temperature.door'' ''degC'' (Some ''temperature''),
      emb_reg ''auxiliary_temperature'' 7 ''temperature.auxiliary'' ''degC'' (Some ''temperature''),
      emb_reg ''evaporator_2_temperature'' 8 ''temperature.evaporator_2'' ''degC'' (Some ''temperature''),
      emb_reg ''control_state'' 9 ''refrigeration.control_state'' ''state'' None,
      emb_reg ''relay_state_bits'' 10 ''controller.relay_state_bits'' ''bitfield'' None,
      emb_reg ''compressor_speed'' 11 ''compressor.speed'' ''rpm'' None,
      emb_reg ''alarm_state_bits'' 12 ''controller.alarm_state_bits'' ''bitfield'' None]"

definition emb_register_by_key :: "(string, emb_register) dict" where
  "emb_register_by_key = map (\<lambda>r. (er_key r, r)) emb_registers"

definition emb_control_states :: "(int, string) dict" where
  "emb_control_states = [(0, ''idle''), (1, ''cooling''), (2, ''prepare_defrost''), (3, ''defrost''),
     (4, ''post_defrost''), (5, ''pulldown'')]"

definition relay_bits :: "(nat, string) dict" where
  "relay_bits = [(0, ''relay_1''), (1, ''relay_2''), (2, ''relay_3''), (3, ''relay_4'')]"

definition alarm_bits :: "(nat, string) dict" where
  "alarm_bits = [(1, ''high_cabinet_temperature''), (2, ''low_cabinet_temperature''),
     (3, ''high_condenser_temperature''), (4, ''low_cooling_capacity''), (5, ''external_alarm''),
     (6, ''open_door''), (7, ''faulty_temperature_probe''), (8, ''faulty_inverter_communication''),
     (9, ''defrost_incomplete''), (10, ''rtc_not_configured''), (11, ''high_auxiliary_temperature''),
     (12, ''low_auxiliary_temperature'')]"

record emb_reading =
  eg_unit_id :: int
  eg_key :: string
  eg_address :: int
  eg_metric :: string
  eg_raw_value :: int
  eg_value :: "pyfloat option"
  eg_unit :: string
  eg_quality :: string
  eg_semantic :: "string option"

definition emb_signed_int16 :: "int \<Rightarrow> int result" where
  "emb_signed_int16 v = (if \<not> (0 \<le> v \<and> v \<le> 0xFFFF) then Inl (ValueError (''uint16 value expected, got '' @ dec v))
     else if v AND 0x8000 \<noteq> 0 then Inr (v - 0x10000) else Inr v)"

definition active_bits :: "int \<Rightarrow> (nat, string) dict \<Rightarrow> string list result" where
  "active_bits v mapping = (if \<not> (0 \<le> v \<and> v \<le> 0xFFFF) then Inl (ValueError (''uint16 value expected, got '' @ dec v))
     else Inr (map snd (filter (\<lambda>(b, name). v AND push_bit b 1 \<noteq> 0) mapping)))"

text \<open>A value under a scale that may be missing; \<open>name\<close> is the scale's name in the error.\<close>

definition emb_scaled :: "string \<Rightarrow> pyfloat option \<Rightarrow> int \<Rightarrow> (pyfloat option \<times> string) result" where
  "emb_scaled name scale numeric = (case scale of
      None \<Rightarrow> Inr (None, ''unknown'')
    | Some sc \<Rightarrow> if sc \<le> 0 then Inl (ValueError (name @ '' must be positive''))
        else Inr (Some (fmul (of_int numeric) sc), ''valid''))"

definition emb_decode_register ::
  "int \<Rightarrow> emb_register \<Rightarrow> int \<Rightarrow> pyfloat option \<Rightarrow> pyfloat option \<Rightarrow> emb_reading result" where
  "emb_decode_register unit_id r raw_value temperature_scale control_scale =
     (if \<not> (1 \<le> unit_id \<and> unit_id \<le> 247) then
        Inl (ValueError (''Modbus unit ID must be 1..247, got '' @ dec unit_id))
      else ebind (emb_signed_int16 raw_value) (\<lambda>numeric.
        let known = dget emb_control_states raw_value in
        ebind (if er_engineering_scale r = Some ''temperature'' then
                 emb_scaled ''temperature_scale'' temperature_scale numeric
               else if er_engineering_scale r = Some ''control'' then
                 emb_scaled ''control_scale'' control_scale numeric
               else if er_key r = ''control_state'' then
                 (let v = (if known \<noteq> None then Some (fl (of_int raw_value)) else None)
                  in Inr (v, if v \<noteq> None then ''valid'' else ''unknown''))
               else if er_key r = ''compressor_speed'' then
                 (let v = (if 0 \<le> numeric then Some (fl (of_int numeric)) else None)
                  in Inr (v, if v \<noteq> None then ''valid'' else ''unknown''))
               else Inr (Some (fl (of_int raw_value)), ''valid''))
          (\<lambda>(value, quality).
             Inr \<lparr>eg_unit_id = unit_id, eg_key = er_key r, eg_address = er_address r, eg_metric = er_metric r,
                  eg_raw_value = raw_value, eg_value = value, eg_unit = er_unit r, eg_quality = quality,
                  eg_semantic = (if er_key r = ''control_state'' then known else None)\<rparr>)))"

record emb_reader =
  em_temperature_scale :: "pyfloat option"
  em_control_scale :: "pyfloat option"

definition emb_reader_init :: "pyfloat option \<Rightarrow> pyfloat option \<Rightarrow> emb_reader result" where
  "emb_reader_init ts cs =
     (if (case ts of None \<Rightarrow> False | Some x \<Rightarrow> x \<le> 0) then Inl (ValueError ''temperature_scale must be positive'')
      else if (case cs of None \<Rightarrow> False | Some x \<Rightarrow> x \<le> 0) then Inl (ValueError ''control_scale must be positive'')
      else Inr \<lparr>em_temperature_scale = ts, em_control_scale = cs\<rparr>)"

definition emb_read_metric ::
  "(int \<Rightarrow> int \<Rightarrow> ('s, int) io) \<Rightarrow> emb_reader \<Rightarrow> int \<Rightarrow> string \<Rightarrow> ('s, emb_reading) io" where
  "emb_read_metric rd m unit_id key =
     (case dget emb_register_by_key key of
        None \<Rightarrow> iraise (ValueError (''Unknown Embraco Sync metric key: '' @ key))
      | Some r \<Rightarrow> ibind (rd unit_id (er_address r)) (\<lambda>v.
          ilift (emb_decode_register unit_id r v (em_temperature_scale m) (em_control_scale m))))"

section \<open>Lemmas\<close>

lemma emb_signed_sint: "in_word16 v \<Longrightarrow> emb_signed_int16 v = Inr (sint (word_of_int v :: 16 word))"
  using signed_int16_sint [of v] by (simp add: emb_signed_int16_def signed_int16_def)

lemma active_bits_word:
  assumes "in_word16 v"
  shows "active_bits v mapping = Inr (map snd (filter (\<lambda>(b, name). bit v b) mapping))"
proof -
  have "(v AND push_bit b 1 \<noteq> 0) = bit v b" for b
    using and_exp_eq_0_iff_not_bit [of v b] by (simp add: push_bit_eq_mult)
  then show ?thesis using assms by (simp add: active_bits_def in_word16_def)
qed

definition emb_scales_ok :: "emb_reader \<Rightarrow> bool" where
  "emb_scales_ok m = ((\<forall>x. em_temperature_scale m = Some x \<longrightarrow> 0 < x)
     \<and> (\<forall>x. em_control_scale m = Some x \<longrightarrow> 0 < x))"

lemma emb_reader_init_ok: "emb_reader_init ts cs = Inr m \<Longrightarrow> emb_scales_ok m"
  by (auto simp: emb_reader_init_def emb_scales_ok_def split: option.splits if_splits)

lemma emb_scaled_ok:
  assumes "\<And>x. sc = Some x \<Longrightarrow> 0 < x"
  shows "\<exists>v q. emb_scaled nm sc n = Inr (v, q) \<and> (q = ''valid'' \<longleftrightarrow> v \<noteq> None) \<and> (v = None \<longleftrightarrow> sc = None)
    \<and> (\<forall>x y. sc = Some x \<longrightarrow> v = Some y \<longrightarrow> y = fmul (of_int n) x)"
proof (cases sc)
  case None
  then show ?thesis by (simp add: emb_scaled_def)
next
  case (Some x)
  with assms have "0 < x" by simp
  with Some show ?thesis by (simp add: emb_scaled_def not_le)
qed

lemma emb_decode_ok:
  assumes "in_word16 v" and "1 \<le> u" "u \<le> 247"
    and "\<And>x. ts = Some x \<Longrightarrow> 0 < x" and "\<And>x. cs = Some x \<Longrightarrow> 0 < x"
  shows "\<exists>g. emb_decode_register u r v ts cs = Inr g \<and> eg_raw_value g = v \<and> eg_metric g = er_metric r
    \<and> (eg_quality g = ''valid'' \<longleftrightarrow> eg_value g \<noteq> None)
    \<and> (er_engineering_scale r = Some ''temperature'' \<longrightarrow>
         eg_value g = map_option (\<lambda>x. fmul (of_int (sint (word_of_int v :: 16 word))) x) ts)
    \<and> (er_engineering_scale r = Some ''control'' \<longrightarrow>
         eg_value g = map_option (\<lambda>x. fmul (of_int (sint (word_of_int v :: 16 word))) x) cs)"
proof -
  let ?n = "sint (word_of_int v :: 16 word)"
  have s: "emb_signed_int16 v = Inr ?n" by (rule emb_signed_sint [OF assms(1)])
  consider "er_engineering_scale r = Some ''temperature''" | "er_engineering_scale r = Some ''control''"
    | "er_engineering_scale r \<noteq> Some ''temperature''" "er_engineering_scale r \<noteq> Some ''control''" by blast
  then show ?thesis
  proof cases
    case 1
    with s assms(2,3) assms(4) show ?thesis
      by (cases ts) (auto simp: emb_decode_register_def Let_def emb_scaled_def not_le)
  next
    case 2
    with s assms(2,3) assms(5) show ?thesis
      by (cases cs) (auto simp: emb_decode_register_def Let_def emb_scaled_def not_le)
  next
    case 3
    with s assms(2,3) show ?thesis by (simp add: emb_decode_register_def Let_def)
  qed
qed

context register_reader
begin

lemma emb_read_metric_cases:
  assumes "emb_read_metric rd m u key s = Some (x, s')" and "dget emb_register_by_key key = Some r"
    and "emb_scales_ok m"
  shows "(\<exists>e. x = Inl e \<and> rd u (er_address r) s = Some (Inl e, s'))
    \<or> (\<exists>v. rd u (er_address r) s = Some (Inr v, s') \<and> in_word16 v \<and> 1 \<le> u \<and> u \<le> 247
        \<and> x = emb_decode_register u r v (em_temperature_scale m) (em_control_scale m))"
  using assms(1,2)
  by (cases x) (auto simp: emb_read_metric_def ibind_iffs dest: rd_word)

end

section \<open>Properties\<close>

text \<open>The active bits are the names, in the order of the table, of exactly the bits the status word
  has set.\<close>

theorem active_bits_exact:
  assumes "in_word16 v"
  shows "\<exists>names. active_bits v mapping = Inr names \<and> subseq names (map snd mapping)
    \<and> (\<forall>name. name \<in> set names \<longleftrightarrow> (\<exists>b. (b, name) \<in> set mapping \<and> odd (v div 2 ^ b)))"
  unfolding active_bits_word [OF assms]
  by (auto simp: bit_iff_odd image_iff intro!: subseq_map subseq_filter_left)

theorem active_bits_exact_witness:
  "\<exists>names. active_bits 0x0005 relay_bits = Inr names \<and> ''relay_3'' \<in> set names \<and> ''relay_2'' \<notin> set names"
proof -
  from active_bits_exact [of 5 relay_bits] obtain names where n: "active_bits 0x0005 relay_bits = Inr names"
    and m: "\<forall>name. name \<in> set names \<longleftrightarrow> (\<exists>b. (b, name) \<in> set relay_bits \<and> odd (5 div 2 ^ b :: int))"
    by (auto simp: in_word16_def)
  have "''relay_3'' \<in> set names" using m by (auto simp: relay_bits_def intro: exI [of _ 2])
  moreover have "''relay_2'' \<notin> set names" using m by (auto simp: relay_bits_def)
  ultimately show ?thesis using n by blast
qed

text \<open>A reader built with valid scales fails only as the client fails. Its readings are valid exactly
  when they hold a value; a temperature or a control parameter has a value exactly when its scale is
  configured, and then it is the two's complement word times the scale.\<close>

theorem emb_read_metric_outcome:
  assumes "emb_reader_init ts cs = Inr m"
    and "emb_read_metric (holding_register ops) m u key s = Some (x, s')"
    and "dget emb_register_by_key key = Some r"
  shows "case x of
      Inl e \<Rightarrow> holding_register ops u (er_address r) s = Some (Inl e, s')
    | Inr g \<Rightarrow> in_word16 (eg_raw_value g) \<and> eg_metric g = er_metric r
        \<and> (eg_quality g = ''valid'' \<longleftrightarrow> eg_value g \<noteq> None)
        \<and> (er_engineering_scale r = Some ''temperature'' \<longrightarrow> eg_value g
             = map_option (\<lambda>x. fmul (of_int (sint (word_of_int (eg_raw_value g) :: 16 word))) x) ts)
        \<and> (er_engineering_scale r = Some ''control'' \<longrightarrow> eg_value g
             = map_option (\<lambda>x. fmul (of_int (sint (word_of_int (eg_raw_value g) :: 16 word))) x) cs)"
proof -
  have m: "em_temperature_scale m = ts" "em_control_scale m = cs"
    using assms(1) by (auto simp: emb_reader_init_def split: if_splits)
  have ok: "emb_scales_ok m" using emb_reader_init_ok [OF assms(1)] .
  from holding.emb_read_metric_cases [OF assms(2,3) ok] show ?thesis
  proof (elim disjE exE conjE)
    fix v assume v: "in_word16 v" "1 \<le> u" "u \<le> 247"
      and x: "x = emb_decode_register u r v (em_temperature_scale m) (em_control_scale m)"
    from ok m have sc: "\<And>x. ts = Some x \<Longrightarrow> 0 < x" "\<And>x. cs = Some x \<Longrightarrow> 0 < x"
      by (auto simp: emb_scales_ok_def)
    obtain g where "emb_decode_register u r v ts cs = Inr g" "eg_raw_value g = v" "eg_metric g = er_metric r"
      "eg_quality g = ''valid'' \<longleftrightarrow> eg_value g \<noteq> None"
      "er_engineering_scale r = Some ''temperature'' \<longrightarrow>
         eg_value g = map_option (\<lambda>x. fmul (of_int (sint (word_of_int v :: 16 word))) x) ts"
      "er_engineering_scale r = Some ''control'' \<longrightarrow>
         eg_value g = map_option (\<lambda>x. fmul (of_int (sint (word_of_int v :: 16 word))) x) cs"
      using emb_decode_ok [where r = r, OF v sc] by blast
    then show ?thesis using x m v(1) by (simp only: sum.case)
  qed simp
qed

theorem emb_read_metric_outcome_witness:
  "\<exists>m g s'. emb_reader_init (Some 1) None = Inr m
    \<and> emb_read_metric (holding_register (sim_ops (register_answer 3 3 [0xFFFB]))) m 3 ''door_temperature''
        (sim_client, (0, [], [])) = Some (Inr g, s') \<and> eg_metric g = ''temperature.door''"
proof -
  let ?r = "emb_reg ''door_temperature'' 6 ''temperature.door'' ''degC'' (Some ''temperature'')"
  let ?ops = "sim_ops (register_answer 3 3 [0xFFFB])"
  let ?m = "\<lparr>em_temperature_scale = Some 1, em_control_scale = None\<rparr> :: emb_reader"
  have i: "emb_reader_init (Some 1) None = Inr ?m" by (simp add: emb_reader_init_def)
  have k: "dget emb_register_by_key ''door_temperature'' = Some ?r"
    by (simp add: emb_register_by_key_def emb_registers_def emb_reg_def)
  have v: "in_word16 0xFFFB" by (simp add: in_word16_def)
  obtain c w where h: "holding_register ?ops 3 6 (sim_client, (0, [], [])) = Some (Inr 0xFFFB, (c, w))"
    using sim_holding [OF sim_client_ready v, of 3 6 "(0, [], [])"] by auto
  obtain g where d: "emb_decode_register 3 ?r 0xFFFB (Some 1) None = Inr g"
    using emb_decode_ok [OF v, where u = 3 and ts = "Some 1" and cs = None and r = ?r] by auto
  have run: "emb_read_metric (holding_register ?ops) ?m 3 ''door_temperature'' (sim_client, (0, [], []))
      = Some (Inr g, (c, w))"
    using h d by (simp add: emb_read_metric_def k ibind_def ilift_def emb_reg_def)
  from emb_read_metric_outcome [OF i run k] have "eg_metric g = ''temperature.door''"
    by (simp add: emb_reg_def)
  with i run show ?thesis by blast
qed

end
