(* ===== verification/Waveshare.thy ===== *)
theory Waveshare
  imports Readers
begin

text \<open>
  \<open>services/device-agent/waveshare_8ai.py\<close>: one channel of the eight-channel analog input module is its
  mode word (a holding register) and its input word (an input register).
\<close>

definition channel_count :: int where
  "channel_count = 8"

definition input_base_address :: int where
  "input_base_address = 0x0000"

definition mode_base_address :: int where
  "mode_base_address = 0x1000"

record ws_mode =
  wm_code :: int
  wm_label :: string
  wm_metric :: string
  wm_unit :: string

definition ws_modes :: "(int, ws_mode) dict" where
  "ws_modes =
     [(0, \<lparr>wm_code = 0, wm_label = ''0-10V'', wm_metric = ''analog.voltage'', wm_unit = ''mV''\<rparr>),
      (1, \<lparr>wm_code = 1, wm_label = ''2-10V'', wm_metric = ''analog.voltage'', wm_unit = ''mV''\<rparr>),
      (2, \<lparr>wm_code = 2, wm_label = ''0-20mA'', wm_metric = ''analog.current'', wm_unit = ''uA''\<rparr>),
      (3, \<lparr>wm_code = 3, wm_label = ''4-20mA'', wm_metric = ''analog.current'', wm_unit = ''uA''\<rparr>),
      (4, \<lparr>wm_code = 4, wm_label = ''adc-code'', wm_metric = ''analog.adc_code'', wm_unit = ''count''\<rparr>)]"

record ws_reading =
  wr_unit_id :: int
  wr_channel :: int
  wr_mode :: int
  wr_mode_label :: string
  wr_metric :: string
  wr_raw_value :: int
  wr_value :: pyfloat
  wr_unit :: string
  wr_quality :: string

text \<open>The type tests of \<open>_validate_word\<close> hold of every \<open>int\<close>.\<close>

definition ws_validate_word :: "int \<Rightarrow> string \<Rightarrow> int result" where
  "ws_validate_word v label = (if \<not> (0 \<le> v \<and> v \<le> 0xFFFF)
     then Inl (ValueError (label @ '' must be one uint16 register word'')) else Inr v)"

definition ws_decode_channel :: "int \<Rightarrow> int \<Rightarrow> int \<Rightarrow> int \<Rightarrow> ws_reading result" where
  "ws_decode_channel unit_id channel mode_word input_word =
     (if \<not> (1 \<le> unit_id \<and> unit_id \<le> 247) then
        Inl (ValueError (''Modbus unit ID must be 1..247, got '' @ dec unit_id))
      else if \<not> (1 \<le> channel \<and> channel \<le> channel_count) then
        Inl (ValueError (''Waveshare channel must be 1..'' @ dec channel_count @ '', got '' @ dec channel))
      else ebind (ws_validate_word mode_word ''Waveshare mode'') (\<lambda>mode_code.
           ebind (ws_validate_word input_word ''Waveshare input'') (\<lambda>raw_value.
           case dget ws_modes mode_code of
             None \<Rightarrow> Inl (ValueError (''Unsupported Waveshare input mode: '' @ dec mode_code))
           | Some m \<Rightarrow> Inr \<lparr>wr_unit_id = unit_id, wr_channel = channel, wr_mode = wm_code m,
               wr_mode_label = wm_label m, wr_metric = wm_metric m, wr_raw_value = raw_value,
               wr_value = fl (of_int raw_value), wr_unit = wm_unit m, wr_quality = ''valid''\<rparr>)))"

definition ws_read_channel ::
  "(int \<Rightarrow> int \<Rightarrow> int \<Rightarrow> ('s, int list) io) \<Rightarrow> (int \<Rightarrow> int \<Rightarrow> int \<Rightarrow> ('s, int list) io) \<Rightarrow> int \<Rightarrow> int
     \<Rightarrow> ('s, ws_reading) io" where
  "ws_read_channel hold inp unit_id channel =
     (if \<not> (1 \<le> channel \<and> channel \<le> channel_count) then
        iraise (ValueError (''Waveshare channel must be 1..'' @ dec channel_count @ '', got '' @ dec channel))
      else let offset = channel - 1 in
        ibind (hold unit_id (mode_base_address + offset) 1) (\<lambda>mode_values.
        ibind (inp unit_id (input_base_address + offset) 1) (\<lambda>input_values.
          case (mode_values, input_values) of
            ([mode_word], [input_word]) \<Rightarrow>
              icatch (ilift (ws_decode_channel unit_id channel mode_word input_word))
                (\<lambda>e. if is_value_error e
                   then Some (iraise (RuntimeError ''Waveshare 8AI returned an invalid channel payload''))
                   else None)
          | _ \<Rightarrow> iraise (RuntimeError ''Waveshare 8AI returned an invalid single-register payload''))))"

section \<open>Lemmas\<close>

lemma ws_modes_code: "dget ws_modes k = Some m \<Longrightarrow> wm_code m = k \<and> 0 \<le> k \<and> k \<le> 4"
  by (auto simp: ws_modes_def split: if_splits)

lemma ws_modes_dom: "dget ws_modes k = None \<longleftrightarrow> \<not> (0 \<le> k \<and> k \<le> 4)"
  by (auto simp: ws_modes_def)

lemma ws_decode_words:
  assumes "in_word16 mw" "in_word16 iw" "1 \<le> u" "u \<le> 247" "1 \<le> ch" "ch \<le> channel_count"
  shows "ws_decode_channel u ch mw iw = (case dget ws_modes mw of
      None \<Rightarrow> Inl (ValueError (''Unsupported Waveshare input mode: '' @ dec mw))
    | Some m \<Rightarrow> Inr \<lparr>wr_unit_id = u, wr_channel = ch, wr_mode = mw, wr_mode_label = wm_label m,
        wr_metric = wm_metric m, wr_raw_value = iw, wr_value = of_int iw, wr_unit = wm_unit m,
        wr_quality = ''valid''\<rparr>)"
proof -
  have "fl (of_int iw) = of_int iw" using assms(2) by (intro fl_of_int) (simp add: in_word16_def)
  then show ?thesis using assms
    by (auto simp: ws_decode_channel_def ws_validate_word_def in_word16_def ws_modes_code
        split: option.splits)
qed

section \<open>Properties\<close>

text \<open>One channel, two requests. For a channel 1..8 the reader asks for the channel's mode register and
  then for its input register. If a request fails its exception is the outcome; with both words it
  returns a reading exactly when the mode is one of the five the module documents, with the mode's
  metric and unit and the unscaled input word, and raises \<open>RuntimeError\<close> otherwise.\<close>

theorem ws_read_channel_outcome:
  assumes "1 \<le> ch" "ch \<le> 8"
    and "ws_read_channel (holding_registers ops) (input_registers ops) u ch s = Some (x, s')"
  shows "(\<exists>e. x = Inl e \<and> holding_registers ops u (4095 + ch) 1 s = Some (Inl e, s'))
    \<or> (\<exists>mw s1. holding_registers ops u (4095 + ch) 1 s = Some (Inr [mw], s1) \<and>
        ((\<exists>e. x = Inl e \<and> input_registers ops u (ch - 1) 1 s1 = Some (Inl e, s'))
         \<or> (\<exists>iw. input_registers ops u (ch - 1) 1 s1 = Some (Inr [iw], s') \<and>
              (case x of
                 Inl e \<Rightarrow> is_runtime_error e \<and> \<not> (0 \<le> mw \<and> mw \<le> 4)
               | Inr g \<Rightarrow> wr_mode g = mw \<and> wr_channel g = ch \<and> wr_raw_value g = iw \<and> wr_value g = of_int iw
                   \<and> (\<exists>m. dget ws_modes mw = Some m \<and> wr_metric g = wm_metric m \<and> wr_unit g = wm_unit m)))))"
proof -
  let ?k = "\<lambda>mode_values input_values. case (mode_values, input_values) of
            ([mode_word], [input_word]) \<Rightarrow>
              icatch (ilift (ws_decode_channel u ch mode_word input_word))
                (\<lambda>e. if is_value_error e
                   then Some (iraise (RuntimeError ''Waveshare 8AI returned an invalid channel payload''))
                   else None)
          | _ \<Rightarrow> iraise (RuntimeError ''Waveshare 8AI returned an invalid single-register payload'')"
  have c: "ch \<le> channel_count" using assms(2) by (simp add: channel_count_def)
  have "ws_read_channel (holding_registers ops) (input_registers ops) u ch =
      ibind (holding_registers ops u (4095 + ch) 1) (\<lambda>mv. ibind (input_registers ops u (ch - 1) 1) (?k mv))"
    using assms(1) c by (simp add: ws_read_channel_def Let_def mode_base_address_def input_base_address_def
        algebra_simps)
  with assms(3) consider
      e where "x = Inl e" "holding_registers ops u (4095 + ch) 1 s = Some (Inl e, s')"
    | mv s1 where "holding_registers ops u (4095 + ch) 1 s = Some (Inr mv, s1)"
        "ibind (input_registers ops u (ch - 1) 1) (?k mv) s1 = Some (x, s')"
    by (cases x) (auto simp: ibind_eq_Inl ibind_eq_Inr)
  then show ?thesis
  proof cases
    case 1
    then show ?thesis by simp
  next
    case (2 mv s1)
    from holding.rdn_single [OF 2(1)] obtain mw where mw: "mv = [mw]" "in_word16 mw" "1 \<le> u" "u \<le> 247" .
    from 2(2) consider e where "x = Inl e" "input_registers ops u (ch - 1) 1 s1 = Some (Inl e, s')"
      | iv s2 where "input_registers ops u (ch - 1) 1 s1 = Some (Inr iv, s2)" "?k mv iv s2 = Some (x, s')"
      by (cases x) (auto simp: ibind_eq_Inl ibind_eq_Inr)
    then show ?thesis
    proof cases
      case 1
      then show ?thesis using 2(1) mw(1) by auto
    next
      case (2 iv s2)
      from inputs.rdn_single [OF 2(1)] obtain iw where iw: "iv = [iw]" "in_word16 iw" .
      have d: "icatch (ilift (ws_decode_channel u ch mw iw)) (\<lambda>e. if is_value_error e
                   then Some (iraise (RuntimeError ''Waveshare 8AI returned an invalid channel payload''))
                   else None) s2 = Some (x, s')" using 2(2) mw(1) iw(1) by simp
      note w = ws_decode_words [OF mw(2) iw(2) mw(3,4) assms(1) c]
      show ?thesis
      proof (cases "dget ws_modes mw")
        case None
        then show ?thesis using d w 2(1) iw(1) \<open>holding_registers ops u (4095 + ch) 1 s = Some (Inr mv, s1)\<close> mw(1)
          ws_modes_dom [of mw]
          by (auto simp: icatch_def ilift_def iraise_def)
      next
        case (Some m)
        with w d have x: "x = Inr \<lparr>wr_unit_id = u, wr_channel = ch, wr_mode = mw, wr_mode_label = wm_label m,
            wr_metric = wm_metric m, wr_raw_value = iw, wr_value = of_int iw, wr_unit = wm_unit m,
            wr_quality = ''valid''\<rparr>" "s2 = s'"
          by (simp_all add: icatch_def ilift_def)
        show ?thesis
          using Some 2(1) iw(1) \<open>holding_registers ops u (4095 + ch) 1 s = Some (Inr mv, s1)\<close> mw(1)
          unfolding x by simp
      qed
    qed
  qed
qed

theorem ws_read_channel_outcome_witness:
  "\<exists>e s'. ws_read_channel (holding_registers (sim_ops [])) (input_registers (sim_ops [])) 300 1
      (sim_client, (0, [], [])) = Some (Inl e, s')
    \<and> holding_registers (sim_ops []) 300 4096 1 (sim_client, (0, [], [])) = Some (Inl e, s')"
proof -
  have f: "holding_registers (sim_ops []) 300 4096 1 (sim_client, (0, [], []))
      = Some (Inl (ValueError (''Modbus unit_id must be 1..247, got '' @ dec 300)), (sim_client, (0, [], [])))"
    by (simp add: holding_registers_def read_holding_registers_def read_registers_def
        build_read_registers_request_def)
  then have run: "ws_read_channel (holding_registers (sim_ops [])) (input_registers (sim_ops [])) 300 1
      (sim_client, (0, [], [])) = Some (Inl (ValueError (''Modbus unit_id must be 1..247, got '' @ dec 300)),
        (sim_client, (0, [], [])))"
    by (simp add: ws_read_channel_def channel_count_def mode_base_address_def ibind_def)
  from ws_read_channel_outcome [OF _ _ run] f run show ?thesis by auto
qed

end
