(* ===== verification/PyStr.thy ===== *)
theory PyStr
  imports Prelude PyFloat
begin

text \<open>
  The string methods the code uses, on character lists, and JSON documents. Letters outside ASCII have
  no case here; the code compares case-folded strings with ASCII words only.
\<close>

section \<open>Characters\<close>

definition is_space :: "char \<Rightarrow> bool" where
  "is_space c = (let n = of_char c :: nat in
     9 \<le> n \<and> n \<le> 13 \<or> 28 \<le> n \<and> n \<le> 32 \<or> n = 133 \<or> n = 160)"

definition lower_char :: "char \<Rightarrow> char" where
  "lower_char c = (let n = of_char c :: nat in if 65 \<le> n \<and> n \<le> 90 then char_of (n + 32) else c)"

definition upper_char :: "char \<Rightarrow> char" where
  "upper_char c = (let n = of_char c :: nat in if 97 \<le> n \<and> n \<le> 122 then char_of (n - 32) else c)"

definition is_digit :: "char \<Rightarrow> bool" where
  "is_digit c = (let n = of_char c :: nat in 48 \<le> n \<and> n \<le> 57)"

section \<open>Methods of \<open>str\<close>\<close>

definition lstrip :: "string \<Rightarrow> string" where
  "lstrip s = dropWhile is_space s"

definition rstrip :: "string \<Rightarrow> string" where
  "rstrip s = rev (dropWhile is_space (rev s))"

definition strip :: "string \<Rightarrow> string" where
  "strip s = rstrip (lstrip s)"

definition lower :: "string \<Rightarrow> string" where
  "lower s = map lower_char s"

definition upper :: "string \<Rightarrow> string" where
  "upper s = map upper_char s"

text \<open>\<open>sub in s\<close>, \<open>s.split(sep)\<close> for one character, \<open>sep.join(parts)\<close>, \<open>s.replace(a, b)\<close> for single
  characters, and the two parts of \<open>s.split(sep, maxsplit=1)\<close>.\<close>

fun starts_with :: "string \<Rightarrow> string \<Rightarrow> bool" where
  "starts_with [] s = True"
| "starts_with (c # p) [] = False"
| "starts_with (c # p) (d # s) = (c = d \<and> starts_with p s)"

fun contains :: "string \<Rightarrow> string \<Rightarrow> bool" where
  "contains sub [] = (sub = [])"
| "contains sub (c # s) = (starts_with sub (c # s) \<or> contains sub s)"

fun split_on :: "char \<Rightarrow> string \<Rightarrow> string list" where
  "split_on sep [] = [[]]"
| "split_on sep (c # s) = (case split_on sep s of
       [] \<Rightarrow> [[c]]
     | p # ps \<Rightarrow> if c = sep then [] # p # ps else (c # p) # ps)"

fun join :: "string \<Rightarrow> string list \<Rightarrow> string" where
  "join sep [] = []"
| "join sep [p] = p"
| "join sep (p # ps) = p @ sep @ join sep ps"

definition replace_char :: "char \<Rightarrow> char \<Rightarrow> string \<Rightarrow> string" where
  "replace_char a b s = map (\<lambda>c. if c = a then b else c) s"

fun split_once :: "char \<Rightarrow> string \<Rightarrow> (string \<times> string) option" where
  "split_once sep [] = None"
| "split_once sep (c # s) = (if c = sep then Some ([], s)
     else map_option (\<lambda>(a, b). (c # a, b)) (split_once sep s))"

text \<open>\<open>int(text)\<close>: surrounding white space, one sign, decimal digits with single underscores between
  digits. \<open>None\<close> is \<open>ValueError\<close>.\<close>

fun py_digits :: "bool \<Rightarrow> nat \<Rightarrow> string \<Rightarrow> nat option" where
  "py_digits after acc [] = (if after then Some acc else None)"
| "py_digits after acc (c # s) =
     (if is_digit c then py_digits True (10 * acc + (of_char c - 48)) s
      else if c = CHR ''_'' \<and> after then py_digits False acc s
      else None)"

definition py_int :: "string \<Rightarrow> int option" where
  "py_int text = (case strip text of
       [] \<Rightarrow> None
     | c # s \<Rightarrow>
         if c = CHR ''-'' then map_option (\<lambda>n. - int n) (py_digits False 0 s)
         else if c = CHR ''+'' then map_option int (py_digits False 0 s)
         else map_option int (py_digits False 0 (c # s)))"

text \<open>\<open>repr\<close> of a string, for the error messages.\<close>

definition repr_char :: "char \<Rightarrow> char \<Rightarrow> string" where
  "repr_char q c = (let n = of_char c :: nat in
     if c = q \<or> n = 92 then [char_of (92 :: nat), c]
     else if n = 10 then [char_of (92 :: nat), CHR ''n'']
     else if n = 13 then [char_of (92 :: nat), CHR ''r'']
     else if n = 9 then [char_of (92 :: nat), CHR ''t'']
     else if n < 32 \<or> 127 \<le> n \<and> n < 161 \<or> n = 173 then char_of (92 :: nat) # CHR ''x'' # lower (hex02 (int n))
     else [c])"

definition py_repr :: "string \<Rightarrow> string" where
  "py_repr s = (let q = (if CHR 0x27 \<in> set s \<and> CHR 0x22 \<notin> set s then CHR 0x22 else CHR 0x27)
     in [q] @ concat (map (repr_char q) s) @ [q])"

lemma strip_no_space:
  assumes "\<forall>c \<in> set s. \<not> is_space c"
  shows "strip s = s"
proof -
  have dw: "dropWhile is_space t = t" if "\<forall>c \<in> set t. \<not> is_space c" for t
    using that by (cases t) auto
  show ?thesis using assms dw [of s] dw [of "rev s"] by (simp add: strip_def lstrip_def rstrip_def)
qed

lemma py_digits_more:
  "\<forall>c \<in> set xs. is_digit c \<Longrightarrow> py_digits True a (xs @ ys) = py_digits True (undigits a xs) ys"
  by (induction xs arbitrary: a) simp_all

lemma py_digits_append:
  assumes "\<forall>c \<in> set xs. is_digit c" and "xs \<noteq> []"
  shows "py_digits b a (xs @ ys) = py_digits True (undigits a xs) ys"
  using assms by (cases xs) (simp_all add: py_digits_more)

lemma dec_digits: "0 \<le> i \<Longrightarrow> c \<in> set (dec i) \<Longrightarrow> is_digit c"
  by (auto simp: dec_def is_digit_def dest!: set_digits_base)

lemma digit_not_space: "is_digit c \<Longrightarrow> \<not> is_space c"
  by (auto simp: is_digit_def is_space_def Let_def)

text \<open>Parsing a rendered integer gives it back.\<close>

lemma py_int_dec: "0 \<le> i \<Longrightarrow> py_int (dec i) = Some i"
proof -
  assume i: "0 \<le> i"
  obtain c s where d: "dec i = c # s" by (metis dec_def digits_base_nonempty i leD neq_Nil_conv)
  have all: "\<forall>c \<in> set (dec i). is_digit c" using dec_digits [OF i] by blast
  then have st: "strip (dec i) = dec i" by (intro strip_no_space) (auto simp: digit_not_space)
  have "py_digits False 0 (dec i @ []) = py_digits True (undigits 0 (dec i)) []"
    using all d by (intro py_digits_append) auto
  then have p: "py_digits False 0 (c # s) = Some (nat i)" using undigits_dec [OF i] d by simp
  have "is_digit c" using all d by simp
  then have "c \<noteq> CHR ''-''" "c \<noteq> CHR ''+''" by (auto simp: is_digit_def)
  with st p d i show ?thesis by (simp add: py_int_def)
qed

section \<open>JSON documents\<close>

text \<open>
  The value a JSON text stands for. A column that holds \<open>json.dumps(doc)\<close> is modelled by the document:
  for documents of strings, integers, finite floats, \<open>None\<close> and containers of these,
  \<open>json.loads(json.dumps(doc))\<close> is \<open>doc\<close>.
\<close>

datatype json =
    JNull
  | JBool bool
  | JInt int
  | JFloat pyfloat
  | JStr string
  | JList "json list"
  | JObj "(string \<times> json) list"

definition jopt :: "('a \<Rightarrow> json) \<Rightarrow> 'a option \<Rightarrow> json" where
  "jopt f x = (case x of None \<Rightarrow> JNull | Some a \<Rightarrow> f a)"

end
