(* ===== verification/BusyRetry.thy ===== *)
theory BusyRetry
  imports PyStr
begin

text \<open>
  The retry loop around every SQLite operation, \<open>_retry_busy\<close> of \<open>OfflineQueue\<close>
  (\<open>services/device-agent/main.py\<close>) and of \<open>LatestValueStore\<close> (\<open>latest_values.py\<close>), which are the same
  code, with its contention counters and \<open>contention_snapshot\<close>.

  SQLite is not code of the repository. What the loop relies on is that a transaction either raises
  \<open>OperationalError\<close> and leaves the database as it was, or runs. \<open>cn_script\<close> lists what the next
  attempts will meet: \<open>Refused msg\<close> is an error with that message, \<open>Granted gap\<close> lets the operation run,
  where \<open>gap\<close> is how many row ids an insertion skips (AUTOINCREMENT promises an id larger than every
  earlier one and no more). Every theorem holds for every script.
\<close>

section \<open>State\<close>

datatype attempt = Refused string | Granted nat

record 'd store =
  cn_db :: 'd
  cn_script :: "attempt list"
  cn_sleeps :: "pyfloat list"
  bs_attempts :: int
  bs_delay :: pyfloat
  bs_events :: int
  bs_retries :: int
  bs_exhausted :: int
  bs_recoveries :: int
  bs_consecutive :: int
  bs_unresolved :: "(string, int) dict"
  bs_last_operation :: "string option"
  bs_last_error :: "string option"
  bs_stale :: int

text \<open>An operation on the database; it sees the id gap of the attempt that runs it.\<close>

type_synonym ('d, 'a) operation = "nat \<Rightarrow> 'd \<Rightarrow> 'a result \<times> 'd"

definition is_busy_error :: "string \<Rightarrow> bool" where
  "is_busy_error msg = (let message = lower msg in contains ''locked'' message \<or> contains ''busy'' message)"

definition sum_values :: "(string, int) dict \<Rightarrow> int" where
  "sum_values d = sum_list (map snd d)"

section \<open>One attempt and the loop\<close>

text \<open>\<open>with self._connection\<close> commits what the operation did, or rolls it back when it raises.\<close>

definition next_attempt :: "'d store \<Rightarrow> attempt \<times> 'd store" where
  "next_attempt st = (case cn_script st of [] \<Rightarrow> (Granted 0, st) | a # as \<Rightarrow> (a, st\<lparr>cn_script := as\<rparr>))"

definition run_operation :: "('d, 'a) operation \<Rightarrow> 'd store \<Rightarrow> 'a result \<times> 'd store" where
  "run_operation op st =
     (case next_attempt st of
        (Refused msg, st') \<Rightarrow> (Inl (OperationalError msg), st')
      | (Granted gap, st') \<Rightarrow>
          (case op gap (cn_db st') of
             (Inl e, _) \<Rightarrow> (Inl e, st')
           | (Inr a, d) \<Rightarrow> (Inr a, st'\<lparr>cn_db := d\<rparr>)))"

definition note_success :: "string \<Rightarrow> bool \<Rightarrow> 'd store \<Rightarrow> 'd store" where
  "note_success label saw_busy st =
     (let unresolved = dget_or (bs_unresolved st) label 0;
          rest = dpop label (bs_unresolved st)
      in st\<lparr>bs_unresolved := rest,
            bs_recoveries := (if saw_busy \<or> 0 < unresolved then bs_recoveries st + 1 else bs_recoveries st),
            bs_consecutive := sum_values rest\<rparr>)"

definition note_busy :: "string \<Rightarrow> string \<Rightarrow> bool \<Rightarrow> 'd store \<Rightarrow> 'd store" where
  "note_busy label msg exhausted st =
     (let st' = st\<lparr>bs_events := bs_events st + 1, bs_last_operation := Some label,
                   bs_last_error := Some msg\<rparr>
      in if exhausted then
           (let u = dset label (dget_or (bs_unresolved st) label 0 + 1) (bs_unresolved st)
            in st'\<lparr>bs_exhausted := bs_exhausted st + 1, bs_unresolved := u, bs_consecutive := sum_values u\<rparr>)
         else st'\<lparr>bs_retries := bs_retries st + 1\<rparr>)"

text \<open>The loop with \<open>k\<close> rounds left; \<open>attempt\<close> counts from 1.\<close>

fun retry_loop :: "string \<Rightarrow> ('d, 'a) operation \<Rightarrow> nat \<Rightarrow> int \<Rightarrow> bool \<Rightarrow> 'd store \<Rightarrow> 'a result \<times> 'd store" where
  "retry_loop label op 0 attempt saw_busy st =
     (Inl (RuntimeError ''SQLite busy retry loop exhausted unexpectedly''), st)"
| "retry_loop label op (Suc k) attempt saw_busy st =
     (case run_operation op st of
        (Inr a, st1) \<Rightarrow> (Inr a, note_success label saw_busy st1)
      | (Inl (OperationalError msg), st1) \<Rightarrow>
          if \<not> is_busy_error msg then (Inl (OperationalError msg), st1)
          else let exhausted = (bs_attempts st1 \<le> attempt);
                   st2 = note_busy label msg exhausted st1
            in if exhausted then (Inl (OperationalError msg), st2)
               else retry_loop label op k (attempt + 1) True
                 (if bs_delay st2 \<noteq> 0
                  then st2\<lparr>cn_sleeps := cn_sleeps st2 @ [fmul (bs_delay st2) (of_int attempt)]\<rparr> else st2)
      | (Inl e, st1) \<Rightarrow> (Inl e, st1))"

definition retry_busy :: "string \<Rightarrow> ('d, 'a) operation \<Rightarrow> 'd store \<Rightarrow> 'a result \<times> 'd store" where
  "retry_busy label op st = retry_loop label op (nat (bs_attempts st)) 1 False st"

record contention =
  sn_schema_version :: int
  sn_busy_events_total :: int
  sn_busy_retries_total :: int
  sn_busy_exhausted_total :: int
  sn_busy_recoveries_total :: int
  sn_consecutive_exhaustions :: int
  sn_last_operation :: "string option"
  sn_last_error :: "string option"
  sn_health_stale_total :: int

definition contention_snapshot :: "'d store \<Rightarrow> contention" where
  "contention_snapshot st = \<lparr>sn_schema_version = 1, sn_busy_events_total = bs_events st,
     sn_busy_retries_total = bs_retries st, sn_busy_exhausted_total = bs_exhausted st,
     sn_busy_recoveries_total = bs_recoveries st, sn_consecutive_exhaustions = bs_consecutive st,
     sn_last_operation = bs_last_operation st, sn_last_error = bs_last_error st,
     sn_health_stale_total = bs_stale st\<rparr>"

section \<open>The store of a constructor\<close>

definition store_init :: "int \<Rightarrow> int \<Rightarrow> pyfloat \<Rightarrow> int \<Rightarrow> 'd \<Rightarrow> attempt list \<Rightarrow> 'd store result" where
  "store_init busy_timeout_ms busy_retry_attempts busy_retry_delay_seconds health_busy_timeout_ms db script =
     (if busy_timeout_ms \<le> 0 then Inl (ValueError ''busy_timeout_ms must be positive'')
      else if busy_retry_attempts \<le> 0 then Inl (ValueError ''busy_retry_attempts must be positive'')
      else if busy_retry_delay_seconds < 0 then
        Inl (ValueError ''busy_retry_delay_seconds must be non-negative'')
      else if health_busy_timeout_ms \<le> 0 then Inl (ValueError ''health_busy_timeout_ms must be positive'')
      else Inr \<lparr>cn_db = db, cn_script = script, cn_sleeps = [], bs_attempts = busy_retry_attempts,
                bs_delay = busy_retry_delay_seconds, bs_events = 0, bs_retries = 0, bs_exhausted = 0,
                bs_recoveries = 0, bs_consecutive = 0, bs_unresolved = [], bs_last_operation = None,
                bs_last_error = None, bs_stale = 0\<rparr>)"

section \<open>The invariant of the counters\<close>

definition counters_ok :: "'d store \<Rightarrow> bool" where
  "counters_ok st = (bs_events st = bs_retries st + bs_exhausted st
     \<and> bs_consecutive st = sum_values (bs_unresolved st) \<and> dict_ok (bs_unresolved st)
     \<and> (\<forall>(l, n) \<in> set (bs_unresolved st). 1 \<le> n)
     \<and> bs_consecutive st \<le> bs_exhausted st \<and> 0 \<le> bs_retries st \<and> 0 \<le> bs_recoveries st
     \<and> 0 < bs_attempts st \<and> 0 \<le> bs_delay st)"

lemma sum_values_Nil [simp]: "sum_values [] = 0"
  by (simp add: sum_values_def)

lemma sum_values_dset: "dict_ok d \<Longrightarrow> sum_values (dset k v d) = sum_values d + v - dget_or d k 0"
  by (induction d) (auto simp: sum_values_def dget_or_def dict_ok_def split: option.splits
      dest: dget_key_in)

lemma sum_values_dpop: "dict_ok d \<Longrightarrow> sum_values (dpop k d) = sum_values d - dget_or d k 0"
proof (induction d)
  case (Cons x d)
  show ?case
  proof (cases "fst x = k")
    case True
    with Cons.prems have "k \<notin> fst ` set d" by (auto simp: dict_ok_def)
    with True show ?thesis by (cases x) (simp add: sum_values_def dget_or_def)
  next
    case False
    with Cons show ?thesis by (cases x) (simp add: sum_values_def dget_or_def dict_ok_def)
  qed
qed (simp add: sum_values_def dget_or_def)

lemma dset_mem: "(k', v') \<in> set (dset k v d) \<Longrightarrow> (k', v') = (k, v) \<or> (k', v') \<in> set d"
  by (induction d) (auto split: if_splits)

lemma dpop_mem: "x \<in> set (dpop k d) \<Longrightarrow> x \<in> set d"
  by (auto simp: AList.delete_eq)

lemma dget_or_ge: "(\<forall>(l, n) \<in> set d. (1::int) \<le> n) \<Longrightarrow> 0 \<le> dget_or d k 0"
  by (auto simp: dget_or_def split: option.splits dest!: map_of_SomeD)

lemma store_init_ok: "store_init t n d h db sc = Inr st \<Longrightarrow> counters_ok st"
  by (auto simp: store_init_def counters_ok_def split: if_splits)

lemma note_success_ok: "counters_ok st \<Longrightarrow> counters_ok (note_success label b st)"
  using dget_or_ge [of "bs_unresolved st" label]
  by (auto simp: counters_ok_def note_success_def Let_def sum_values_dpop dest: dpop_mem)

lemma note_busy_ok: "counters_ok st \<Longrightarrow> counters_ok (note_busy label msg x st)"
  using dget_or_ge [of "bs_unresolved st" label]
  by (auto simp: counters_ok_def note_busy_def Let_def sum_values_dset dest!: dset_mem)

lemma run_operation_frame:
  assumes "run_operation op st = (r, st')"
  shows "\<exists>d sc. st' = st\<lparr>cn_db := d, cn_script := sc\<rparr>"
  using assms
  by (cases st) (auto simp: run_operation_def next_attempt_def split: list.splits attempt.splits prod.splits sum.splits)

lemma counters_ok_frame [simp]: "counters_ok (st\<lparr>cn_db := d, cn_script := sc\<rparr>) = counters_ok st"
  "counters_ok (st\<lparr>cn_sleeps := sl\<rparr>) = counters_ok st"
  by (simp_all add: counters_ok_def)

text \<open>One round: the value, the exception, or the next round after a pause.\<close>

lemma retry_loop_step:
  assumes "retry_loop label op (Suc k) i b st = (r, st')" and "run_operation op st = (x, st1)"
  obtains (finished) a where "x = Inr a" "r = Inr a" "st' = note_success label b st1"
  | (raised) e where "x = Inl e" "r = Inl e" "st' = st1 \<or> (\<exists>m. e = OperationalError m \<and> is_busy_error m
      \<and> bs_attempts st1 \<le> i \<and> st' = note_busy label m True st1)"
      "\<not> (\<exists>m. e = OperationalError m \<and> is_busy_error m \<and> \<not> bs_attempts st1 \<le> i)"
  | (again) m sl where "x = Inl (OperationalError m)" "is_busy_error m" "i < bs_attempts st1"
      "retry_loop label op k (i + 1) True ((note_busy label m False st1)\<lparr>cn_sleeps := sl\<rparr>) = (r, st')"
proof (cases x)
  case (Inr a)
  with assms have "r = Inr a" "st' = note_success label b st1" by auto
  then show ?thesis by (rule that(1) [OF Inr])
next
  case (Inl e)
  show ?thesis
  proof (cases "\<exists>msg. e = OperationalError msg \<and> is_busy_error msg \<and> \<not> bs_attempts st1 \<le> i")
    case True
    then obtain m where e: "e = OperationalError m" "is_busy_error m" "i < bs_attempts st1" by auto
    let ?st2 = "note_busy label m False st1"
    have same: "?st2\<lparr>cn_sleeps := cn_sleeps ?st2\<rparr> = ?st2" by simp
    from assms Inl e have "retry_loop label op k (i + 1) True
        (?st2\<lparr>cn_sleeps := if bs_delay ?st2 \<noteq> 0
          then cn_sleeps ?st2 @ [fmul (bs_delay ?st2) (of_int i)] else cn_sleeps ?st2\<rparr>) = (r, st')"
      by (auto simp: Let_def same split: if_splits)
    with Inl e that(3) show ?thesis by blast
  next
    case False
    then have "r = Inl e \<and> (st' = st1 \<or> (\<exists>m. e = OperationalError m \<and> is_busy_error m
        \<and> bs_attempts st1 \<le> i \<and> st' = note_busy label m True st1))"
      using assms Inl by (auto simp: Let_def split: exn.splits if_splits)
    with Inl False that(2) show ?thesis by blast
  qed
qed

lemma note_busy_fields [simp]:
  "cn_db (note_busy label m z st) = cn_db st" "bs_attempts (note_busy label m z st) = bs_attempts st"
  "cn_script (note_busy label m z st) = cn_script st"
  by (simp_all add: note_busy_def Let_def)

lemma note_success_fields [simp]:
  "cn_db (note_success label z st) = cn_db st" "bs_attempts (note_success label z st) = bs_attempts st"
  "cn_script (note_success label z st) = cn_script st"
  by (simp_all add: note_success_def Let_def)

lemma retry_loop_counters:
  "counters_ok st \<Longrightarrow> retry_loop label op k i b st = (r, st') \<Longrightarrow> counters_ok st'"
proof (induction k arbitrary: i b st)
  case (Suc k)
  obtain x st1 where x: "run_operation op st = (x, st1)" by fastforce
  have c1: "counters_ok st1" using run_operation_frame [OF x] Suc.prems(1) by auto
  from Suc.prems(2) x show ?case
  proof (cases rule: retry_loop_step)
    case (again m sl)
    show ?thesis by (rule Suc.IH [OF _ again(4)]) (simp add: note_busy_ok [OF c1])
  qed (auto simp: c1 note_busy_ok note_success_ok)
qed simp

section \<open>What an operation does to the database\<close>

lemma run_operation_db:
  assumes "run_operation op st = (r, st')"
  shows "(case r of
      Inr a \<Rightarrow> \<exists>gap. op gap (cn_db st) = (Inr a, cn_db st')
    | Inl e \<Rightarrow> cn_db st' = cn_db st)"
  using assms
  by (auto simp: run_operation_def next_attempt_def
      split: list.splits attempt.splits prod.splits sum.splits)

text \<open>The operation takes effect exactly once when its value is returned, and not at all when an
  exception is.\<close>

lemma retry_loop_once:
  "retry_loop label op k i b st = (r, st') \<Longrightarrow>
    (case r of
       Inr a \<Rightarrow> \<exists>gap. op gap (cn_db st) = (Inr a, cn_db st')
     | Inl e \<Rightarrow> cn_db st' = cn_db st)"
proof (induction k arbitrary: i b st)
  case (Suc k)
  obtain x st1 where x: "run_operation op st = (x, st1)" by fastforce
  note d = run_operation_db [OF x]
  from Suc.prems x show ?case
  proof (cases rule: retry_loop_step)
    case (again m sl)
    from Suc.IH [OF again(4)] d again(1) show ?thesis by (cases r) simp_all
  qed (use d in auto)
qed auto

text \<open>Lock contention that ends within the retry budget is invisible: the operation runs.\<close>

lemma retry_loop_absorbs:
  assumes "\<forall>m \<in> set ms. is_busy_error m" and "i + int (length ms) \<le> bs_attempts st"
    and "cn_script st = map Refused ms @ Granted gap # rest" and "op gap (cn_db st) = (Inr a, d)"
    and "length ms < k"
  shows "\<exists>st'. retry_loop label op k i b st = (Inr a, st') \<and> cn_db st' = d \<and> cn_script st' = rest"
  using assms
proof (induction ms arbitrary: i b st k)
  case Nil
  then obtain j where k: "k = Suc j" by (cases k) auto
  from Nil show ?case by (simp add: k run_operation_def next_attempt_def)
next
  case (Cons m ms)
  then obtain j where k: "k = Suc j" by (cases k) auto
  let ?st1 = "st\<lparr>cn_script := map Refused ms @ Granted gap # rest\<rparr>"
  have r: "run_operation op st = (Inl (OperationalError m), ?st1)"
    using Cons.prems(3) by (simp add: run_operation_def next_attempt_def)
  obtain q st' where loop: "retry_loop label op k i b st = (q, st')" by fastforce
  from loop [unfolded k] r show ?case
  proof (cases rule: retry_loop_step)
    case (raised e)
    then show ?thesis using Cons.prems(1,2) by auto
  next
    case (again m' sl)
    have "\<exists>st''. retry_loop label op j (i + 1) True ((note_busy label m' False ?st1)\<lparr>cn_sleeps := sl\<rparr>)
        = (Inr a, st'') \<and> cn_db st'' = d \<and> cn_script st'' = rest"
      using Cons.prems k by (intro Cons.IH) auto
    with again(4) loop show ?thesis by auto
  qed auto
qed

lemma retry_busy_once:
  "retry_busy label op st = (r, st') \<Longrightarrow>
    (case r of Inr a \<Rightarrow> \<exists>gap. op gap (cn_db st) = (Inr a, cn_db st') | Inl e \<Rightarrow> cn_db st' = cn_db st)"
  unfolding retry_busy_def by (rule retry_loop_once)

lemma retry_busy_counters: "counters_ok st \<Longrightarrow> retry_busy label op st = (r, st') \<Longrightarrow> counters_ok st'"
  unfolding retry_busy_def by (rule retry_loop_counters)

end
