(* ===== verification/OfflineQueue.thy ===== *)
theory OfflineQueue
  imports BusyRetry
begin

text \<open>
  The class \<open>OfflineQueue\<close> of \<open>services/device-agent/main.py\<close>: the durable outbound queue of the edge
  node, two SQLite tables behind the retry loop of \<open>BusyRetry\<close>. \<open>outbound_queue\<close> is the list of its
  rows in the order of the AUTOINCREMENT id, \<open>node_stream_sequences\<close> a dictionary. The payload column
  holds a JSON document.
\<close>

section \<open>The database\<close>

record queue_row =
  qr_id :: int
  qr_event_id :: string
  qr_topic :: string
  qr_payload :: json
  qr_created_at :: string

text \<open>\<open>qd_last_id\<close> is the largest id the table has ever held.\<close>

record queue_db =
  qd_rows :: "queue_row list"
  qd_last_id :: int
  qd_sequences :: "(string, int) dict"

text \<open>The connection with its counters, and \<open>_last_known_size\<close>.\<close>

record offline_queue =
  oq_store :: "queue_db store"
  oq_last_known_size :: int

definition with_store :: "('a result \<times> queue_db store) \<Rightarrow> offline_queue \<Rightarrow> 'a result \<times> offline_queue" where
  "with_store x q = (fst x, q\<lparr>oq_store := snd x\<rparr>)"

section \<open>The statements\<close>

definition insert_row :: "string \<Rightarrow> string \<Rightarrow> json \<Rightarrow> string \<Rightarrow> nat \<Rightarrow> queue_db \<Rightarrow> queue_db" where
  "insert_row event_id topic payload created_at gap d =
     (let i = qd_last_id d + 1 + int gap
      in d\<lparr>qd_rows := qd_rows d @ [\<lparr>qr_id = i, qr_event_id = event_id, qr_topic = topic,
             qr_payload = payload, qr_created_at = created_at\<rparr>], qd_last_id := i\<rparr>)"

definition find_event :: "string \<Rightarrow> queue_db \<Rightarrow> queue_row option" where
  "find_event event_id d = List.find (\<lambda>r. qr_event_id r = event_id) (qd_rows d)"

definition row_count :: "queue_db \<Rightarrow> int" where
  "row_count d = int (length (qd_rows d))"

text \<open>\<open>_next_sequence_in_transaction\<close>: insert the stream at 0 unless it exists, add one, read it back.\<close>

definition next_sequence_in_transaction :: "string \<Rightarrow> queue_db \<Rightarrow> int result \<times> queue_db" where
  "next_sequence_in_transaction stream d =
     (let inserted = (if dget (qd_sequences d) stream = None then dset stream 0 (qd_sequences d)
                      else qd_sequences d);
          updated = map (\<lambda>(k, n). if k = stream then (k, n + 1) else (k, n)) inserted
      in case dget updated stream of
           None \<Rightarrow> (Inl (RuntimeError ''node stream sequence allocation failed''), d\<lparr>qd_sequences := updated\<rparr>)
         | Some n \<Rightarrow> (Inr n, d\<lparr>qd_sequences := updated\<rparr>))"

definition initialize_op :: "(queue_db, int) operation" where
  "initialize_op gap d = (Inr (row_count d), d)"

definition enqueue_op :: "string \<Rightarrow> json \<Rightarrow> string \<Rightarrow> string \<Rightarrow> (queue_db, unit) operation" where
  "enqueue_op topic payload event_id now gap d =
     (Inr (), if find_event event_id d = None then insert_row event_id topic payload now gap d else d)"

definition enqueue_with_sequence_op ::
  "string \<Rightarrow> (string, json) dict \<Rightarrow> string \<Rightarrow> string \<Rightarrow> string \<Rightarrow> (queue_db, json) operation" where
  "enqueue_with_sequence_op topic payload_data event_id normalized now gap d =
     (case find_event event_id d of
        Some r \<Rightarrow> (Inr (qr_payload r), d)
      | None \<Rightarrow>
          (case next_sequence_in_transaction normalized d of
             (Inl e, d1) \<Rightarrow> (Inl e, d1)
           | (Inr n, d1) \<Rightarrow>
               let payload = JObj (dset ''node_sequence'' (JInt n) payload_data)
               in (Inr payload, insert_row event_id topic payload now gap d1)))"

text \<open>\<open>LIMIT n\<close> takes every row when \<open>n\<close> is negative.\<close>

definition oldest_op :: "int \<Rightarrow> (queue_db, (int \<times> string \<times> json) list) operation" where
  "oldest_op limit gap d =
     (Inr (map (\<lambda>r. (qr_id r, qr_topic r, qr_payload r))
        (if limit < 0 then qd_rows d else take (nat limit) (qd_rows d))), d)"

definition delete_op :: "int \<Rightarrow> (queue_db, unit) operation" where
  "delete_op record_id gap d = (Inr (), d\<lparr>qd_rows := filter (\<lambda>r. qr_id r \<noteq> record_id) (qd_rows d)\<rparr>)"

definition size_op :: "(queue_db, int) operation" where
  "size_op gap d = (Inr (row_count d), d)"

section \<open>The methods\<close>

definition queue_init :: "int \<Rightarrow> int \<Rightarrow> pyfloat \<Rightarrow> int \<Rightarrow> queue_db \<Rightarrow> attempt list \<Rightarrow> offline_queue result" where
  "queue_init busy_timeout_ms attempts delay health_busy_timeout_ms db script =
     ebind (store_init busy_timeout_ms attempts delay health_busy_timeout_ms db script) (\<lambda>st.
       case retry_busy ''initialize'' initialize_op st of
         (Inl e, _) \<Rightarrow> Inl e
       | (Inr n, st') \<Rightarrow> Inr \<lparr>oq_store = st', oq_last_known_size = n\<rparr>)"

definition enqueue :: "string \<Rightarrow> string \<Rightarrow> json \<Rightarrow> string \<Rightarrow> offline_queue \<Rightarrow> unit result \<times> offline_queue" where
  "enqueue now topic payload event_id q =
     with_store (retry_busy ''enqueue'' (enqueue_op topic payload event_id now) (oq_store q)) q"

definition enqueue_with_sequence ::
  "string \<Rightarrow> string \<Rightarrow> (string, json) dict \<Rightarrow> string \<Rightarrow> string \<Rightarrow> offline_queue \<Rightarrow> json result \<times> offline_queue" where
  "enqueue_with_sequence now topic payload_data event_id stream q =
     (let normalized = lower (strip stream) in
      if normalized = [] then (Inl (ValueError ''stream is required''), q)
      else with_store (retry_busy ''enqueue_with_sequence''
             (enqueue_with_sequence_op topic payload_data event_id normalized now) (oq_store q)) q)"

definition oldest :: "int \<Rightarrow> offline_queue \<Rightarrow> (int \<times> string \<times> json) list result \<times> offline_queue" where
  "oldest limit q = with_store (retry_busy ''oldest'' (oldest_op limit) (oq_store q)) q"

definition delete :: "int \<Rightarrow> offline_queue \<Rightarrow> unit result \<times> offline_queue" where
  "delete record_id q = with_store (retry_busy ''delete'' (delete_op record_id) (oq_store q)) q"

definition queue_size :: "offline_queue \<Rightarrow> int result \<times> offline_queue" where
  "queue_size q = (case with_store (retry_busy ''size'' size_op (oq_store q)) q of
       (Inl e, q') \<Rightarrow> (Inl e, q')
     | (Inr n, q') \<Rightarrow> (Inr n, q'\<lparr>oq_last_known_size := n\<rparr>))"

definition next_sequence :: "string \<Rightarrow> offline_queue \<Rightarrow> int result \<times> offline_queue" where
  "next_sequence stream q =
     (let normalized = lower (strip stream) in
      if normalized = [] then (Inl (ValueError ''stream is required''), q)
      else with_store (retry_busy ''next_sequence''
             (\<lambda>gap. next_sequence_in_transaction normalized) (oq_store q)) q)"

text \<open>\<open>_read_health_depth\<close> opens its own read-only connection and makes one attempt.\<close>

definition read_health_depth :: "offline_queue \<Rightarrow> int result \<times> offline_queue" where
  "read_health_depth q = with_store (run_operation size_op (oq_store q)) q"

definition health_depth :: "offline_queue \<Rightarrow> (int \<times> bool) result \<times> offline_queue" where
  "health_depth q = (case read_health_depth q of
       (Inl (OperationalError msg), q1) \<Rightarrow>
         if \<not> is_busy_error msg then (Inl (OperationalError msg), q1)
         else (Inr (oq_last_known_size q1, True),
               q1\<lparr>oq_store := (oq_store q1)\<lparr>bs_stale := bs_stale (oq_store q1) + 1\<rparr>\<rparr>)
     | (Inl e, q1) \<Rightarrow> (Inl e, q1)
     | (Inr n, q1) \<Rightarrow> (Inr (n, False), q1\<lparr>oq_last_known_size := n\<rparr>))"

section \<open>The invariant of the tables\<close>

definition queue_db_ok :: "queue_db \<Rightarrow> bool" where
  "queue_db_ok d = (sorted_wrt (<) (map qr_id (qd_rows d)) \<and> (\<forall>r \<in> set (qd_rows d). qr_id r \<le> qd_last_id d)
     \<and> distinct (map qr_event_id (qd_rows d)) \<and> dict_ok (qd_sequences d)
     \<and> (\<forall>(s, n) \<in> set (qd_sequences d). 0 \<le> n))"

definition queue_ok :: "offline_queue \<Rightarrow> bool" where
  "queue_ok q = (queue_db_ok (cn_db (oq_store q)) \<and> counters_ok (oq_store q))"

text \<open>What the queue holds: the rows as the reader of \<open>oldest\<close> sees them.\<close>

definition queue_items :: "offline_queue \<Rightarrow> (int \<times> string \<times> json) list" where
  "queue_items q = map (\<lambda>r. (qr_id r, qr_topic r, qr_payload r)) (qd_rows (cn_db (oq_store q)))"

lemma find_event_None: "find_event e d = None \<longleftrightarrow> e \<notin> set (map qr_event_id (qd_rows d))"
  by (auto simp: find_event_def find_None_iff)

lemma find_event_Some: "find_event e d = Some r \<Longrightarrow> r \<in> set (qd_rows d) \<and> qr_event_id r = e"
  by (auto simp: find_event_def find_Some_iff)

lemma find_event_unique:
  assumes "queue_db_ok d" and "r \<in> set (qd_rows d)"
  shows "find_event (qr_event_id r) d = Some r"
proof -
  obtain r' where r': "find_event (qr_event_id r) d = Some r'"
    using assms(2) by (cases "find_event (qr_event_id r) d") (auto simp: find_event_None)
  from find_event_Some [OF this] assms have "r' = r"
    by (auto simp: queue_db_ok_def distinct_map dest: inj_onD)
  with r' show ?thesis by simp
qed

lemma sorted_snoc: "sorted_wrt (<) (xs @ [x]) \<longleftrightarrow> sorted_wrt (<) xs \<and> (\<forall>y \<in> set xs. y < x)"
  by (auto simp: sorted_wrt_append)

lemma insert_row_ok:
  assumes "queue_db_ok d" and "find_event e d = None"
  shows "queue_db_ok (insert_row e t p c gap d)"
  using assms unfolding queue_db_ok_def insert_row_def Let_def find_event_None
  by (force simp: sorted_snoc)

lemma bump_map:
  "dget (map (\<lambda>(k, n). if k = s then (k, n + 1) else (k, n)) d) k'
    = (if k' = s then map_option (\<lambda>n. n + (1 :: int)) (dget d k') else dget d k')"
  by (induction d) auto

lemma next_sequence_spec:
  "\<exists>t. next_sequence_in_transaction s d = (Inr (dget_or (qd_sequences d) s 0 + 1), d\<lparr>qd_sequences := t\<rparr>)
    \<and> (\<forall>k. dget t k = (if k = s then Some (dget_or (qd_sequences d) s 0 + 1) else dget (qd_sequences d) k))"
  by (auto simp: next_sequence_in_transaction_def Let_def bump_map dget_dset dget_or_def
      split: option.splits)

lemma next_sequence_ok:
  assumes "queue_db_ok d" and "next_sequence_in_transaction s d = (r, d')"
  shows "queue_db_ok d' \<and> qd_rows d' = qd_rows d \<and> qd_last_id d' = qd_last_id d"
proof -
  let ?i = "if dget (qd_sequences d) s = None then dset s 0 (qd_sequences d) else qd_sequences d"
  let ?u = "map (\<lambda>(k, n). if k = s then (k, n + 1) else (k, n)) ?i"
  have d': "d' = d\<lparr>qd_sequences := ?u\<rparr>"
    using assms(2) by (auto simp: next_sequence_in_transaction_def Let_def split: option.splits)
  have i: "dict_ok ?i" "\<forall>(k, n) \<in> set ?i. 0 \<le> n"
    using assms(1) by (auto simp: queue_db_ok_def dict_ok_dset dest: dset_mem)
  have "dkeys ?u = dkeys ?i" by (simp add: comp_def split_beta)
  then have "dict_ok ?u" using i(1) by (simp only: dict_ok_def)
  moreover have "\<forall>(k, n) \<in> set ?u. 0 \<le> n" using i(2) by (force split: if_splits)
  ultimately show ?thesis using assms(1) unfolding d' by (simp add: queue_db_ok_def)
qed

subsection \<open>Every operation keeps it\<close>

definition keeps_tables :: "(queue_db, 'a) operation \<Rightarrow> bool" where
  "keeps_tables op = (\<forall>gap d. queue_db_ok d \<longrightarrow> queue_db_ok (snd (op gap d)))"

lemma reads_keep: "keeps_tables (oldest_op n)" "keeps_tables size_op" "keeps_tables initialize_op"
  by (simp_all add: keeps_tables_def oldest_op_def size_op_def initialize_op_def)

lemma enqueue_op_keeps: "keeps_tables (enqueue_op t p e now)"
  by (simp add: keeps_tables_def enqueue_op_def insert_row_ok)

lemma delete_op_keeps: "keeps_tables (delete_op i)"
  by (auto simp: keeps_tables_def delete_op_def queue_db_ok_def sorted_wrt_filter sorted_wrt_map
      distinct_map_filter)

lemma next_sequence_keeps: "keeps_tables (\<lambda>gap. next_sequence_in_transaction s)"
  unfolding keeps_tables_def using next_sequence_ok by (metis prod.collapse)

lemma enqueue_with_sequence_op_keeps: "keeps_tables (enqueue_with_sequence_op t p e s now)"
proof -
  have "queue_db_ok d'" if ok: "queue_db_ok d" and op: "enqueue_with_sequence_op t p e s now gap d = (r, d')"
    for gap d r d'
  proof (cases "find_event e d")
    case None
    obtain x d1 where n: "next_sequence_in_transaction s d = (x, d1)" by fastforce
    from next_sequence_ok [OF ok n] None have "queue_db_ok d1" "find_event e d1 = None"
      by (simp_all add: find_event_def)
    with None n op show ?thesis
      by (auto simp: enqueue_with_sequence_op_def Let_def insert_row_ok split: sum.splits)
  next
    case (Some a)
    with ok op show ?thesis by (simp add: enqueue_with_sequence_op_def)
  qed
  then show ?thesis unfolding keeps_tables_def by (metis prod.collapse)
qed

lemmas keeps = reads_keep enqueue_op_keeps delete_op_keeps next_sequence_keeps enqueue_with_sequence_op_keeps

text \<open>An operation of the queue: exactly once or not at all, and the invariant.\<close>

lemma with_store_run:
  assumes "queue_ok q" and "with_store (retry_busy label op (oq_store q)) q = (r, q')"
    and "keeps_tables op"
  shows "queue_ok q' \<and> oq_last_known_size q' = oq_last_known_size q
    \<and> (case r of Inr a \<Rightarrow> \<exists>gap. op gap (cn_db (oq_store q)) = (Inr a, cn_db (oq_store q'))
       | Inl e \<Rightarrow> cn_db (oq_store q') = cn_db (oq_store q))"
proof -
  obtain x st where x: "retry_busy label op (oq_store q) = (x, st)" by fastforce
  have q': "q' = q\<lparr>oq_store := st\<rparr>" "r = x" using assms(2) x by (auto simp: with_store_def)
  from retry_busy_counters [OF _ x] assms(1) have "counters_ok st" by (simp add: queue_ok_def)
  moreover have "queue_db_ok (cn_db st)"
  proof (cases x)
    case (Inl e)
    then show ?thesis using retry_busy_once [OF x] assms(1) by (simp add: queue_ok_def)
  next
    case (Inr a)
    then obtain gap where "op gap (cn_db (oq_store q)) = (Inr a, cn_db st)"
      using retry_busy_once [OF x] by auto
    then show ?thesis using assms(1,3) unfolding queue_ok_def keeps_tables_def by (metis snd_conv)
  qed
  ultimately show ?thesis using retry_busy_once [OF x] q' by (cases x) (auto simp: queue_ok_def)
qed

lemma ids_unique:
  assumes "queue_ok q"
  shows "sorted_wrt (<) (map fst (queue_items q))"
  using assms by (simp add: queue_ok_def queue_db_ok_def queue_items_def comp_def)

section \<open>The contract of a durable FIFO queue\<close>

text \<open>
  What the publisher of \<open>main.py\<close> relies on: reading does not change the queue and shows a prefix of
  it, deleting removes one row or, when it raises, none, and rows are numbered upwards.
\<close>

locale fifo_queue =
  fixes head :: "'q \<Rightarrow> (int \<times> string \<times> json) list result \<times> 'q"
    and remove :: "int \<Rightarrow> 'q \<Rightarrow> unit result \<times> 'q"
    and items :: "'q \<Rightarrow> (int \<times> string \<times> json) list"
    and valid :: "'q \<Rightarrow> bool"
  assumes head_keeps: "valid q \<Longrightarrow> head q = (r, q') \<Longrightarrow> valid q' \<and> items q' = items q"
    and head_prefix: "valid q \<Longrightarrow> head q = (Inr rows, q') \<Longrightarrow> \<exists>n. rows = take n (items q)"
    and remove_ok: "valid q \<Longrightarrow> remove i q = (Inr u, q') \<Longrightarrow>
      valid q' \<and> items q' = filter (\<lambda>x. fst x \<noteq> i) (items q)"
    and remove_error: "valid q \<Longrightarrow> remove i q = (Inl e, q') \<Longrightarrow> valid q' \<and> items q' = items q"
    and numbered: "valid q \<Longrightarrow> sorted_wrt (<) (map fst (items q))"
begin

text \<open>Deleting the first row leaves the others in order.\<close>

lemma remove_first:
  assumes "valid q" and "items q = (i, x) # rest" and "remove i q = (Inr u, q')"
  shows "valid q' \<and> items q' = rest"
proof -
  from numbered [OF assms(1)] assms(2) have "\<forall>y \<in> set rest. fst y \<noteq> i" by auto
  then have "filter (\<lambda>y. fst y \<noteq> i) rest = rest" by (rule filter_True)
  with remove_ok [OF assms(1,3)] assms(2) show ?thesis by simp
qed

end

lemma sorted_ids_distinct: "sorted_wrt (<) (map f xs) \<Longrightarrow> inj_on f (set xs)" for f :: "'a \<Rightarrow> int"
  using strict_sorted_iff [of "map f xs"] by (auto simp: distinct_map)

interpretation offline: fifo_queue "oldest 100" delete queue_items queue_ok
proof
  fix q q' r rows i u e
  assume q: "queue_ok q"
  show "queue_ok q' \<and> queue_items q' = queue_items q" if "oldest 100 q = (r, q')"
    using with_store_run [OF q that [unfolded oldest_def] reads_keep(1)]
    by (cases r) (auto simp: oldest_op_def queue_items_def)
  show "\<exists>n. rows = take n (queue_items q)" if "oldest 100 q = (Inr rows, q')"
    using with_store_run [OF q that [unfolded oldest_def] reads_keep(1)]
    by (auto simp: oldest_op_def queue_items_def take_map intro: exI [of _ 100])
  show "queue_ok q' \<and> queue_items q' = filter (\<lambda>x. fst x \<noteq> i) (queue_items q)"
    if "delete i q = (Inr u, q')"
  proof -
    have ok: "queue_ok q'" and d: "cn_db (oq_store q') = (cn_db (oq_store q))
        \<lparr>qd_rows := filter (\<lambda>r. qr_id r \<noteq> i) (qd_rows (cn_db (oq_store q)))\<rparr>"
      using with_store_run [OF q that [unfolded delete_def] delete_op_keeps]
      by (auto simp: delete_op_def)
    from ok show ?thesis by (simp add: queue_items_def d filter_map comp_def)
  qed
  show "queue_ok q' \<and> queue_items q' = queue_items q" if "delete i q = (Inl e, q')"
    using with_store_run [OF q that [unfolded delete_def] delete_op_keeps] by (auto simp: queue_items_def)
  show "sorted_wrt (<) (map fst (queue_items q))" using q by (rule ids_unique)
qed

section \<open>What the two insertions do\<close>

lemma enqueue_run:
  assumes "queue_ok q" and "enqueue now t p e q = (r, q')"
  shows "queue_ok q' \<and> (case r of
      Inl x \<Rightarrow> cn_db (oq_store q') = cn_db (oq_store q)
    | Inr _ \<Rightarrow> (\<exists>gap. cn_db (oq_store q') = (if find_event e (cn_db (oq_store q)) = None
        then insert_row e t p now gap (cn_db (oq_store q)) else cn_db (oq_store q))))"
  using with_store_run [OF assms(1) assms(2) [unfolded enqueue_def] enqueue_op_keeps]
  by (cases r) (auto simp: enqueue_op_def split: if_splits dest!: sym [of "insert_row _ _ _ _ _ _"])

lemma enqueue_seq_run:
  assumes "queue_ok q" and "enqueue_with_sequence now t p e s q = (r, q')"
  shows "queue_ok q' \<and> (case r of
      Inl x \<Rightarrow> cn_db (oq_store q') = cn_db (oq_store q)
    | Inr doc \<Rightarrow> (\<exists>gap. enqueue_with_sequence_op t p e (lower (strip s)) now gap (cn_db (oq_store q))
        = (Inr doc, cn_db (oq_store q'))))"
proof (cases "lower (strip s) = []")
  case True
  with assms show ?thesis by (auto simp: enqueue_with_sequence_def Let_def)
next
  case False
  with assms(2) have "with_store (retry_busy ''enqueue_with_sequence''
      (enqueue_with_sequence_op t p e (lower (strip s)) now) (oq_store q)) q = (r, q')"
    by (simp add: enqueue_with_sequence_def Let_def)
  from with_store_run [OF assms(1) this enqueue_with_sequence_op_keeps] show ?thesis by simp
qed

section \<open>A queue for the witnesses\<close>

definition fresh_queue :: "attempt list \<Rightarrow> offline_queue" where
  "fresh_queue script = \<lparr>oq_store = \<lparr>cn_db = \<lparr>qd_rows = [], qd_last_id = 0, qd_sequences = []\<rparr>,
     cn_script = script, cn_sleeps = [], bs_attempts = 3, bs_delay = 0, bs_events = 0, bs_retries = 0,
     bs_exhausted = 0, bs_recoveries = 0, bs_consecutive = 0, bs_unresolved = [], bs_last_operation = None,
     bs_last_error = None, bs_stale = 0\<rparr>, oq_last_known_size = 0\<rparr>"

lemma fresh_queue_ok: "queue_ok (fresh_queue script)"
  by (simp add: fresh_queue_def queue_ok_def queue_db_ok_def counters_ok_def)

lemma busy_messages: "is_busy_error ''database is locked''" "is_busy_error ''BUSY''"
  by code_simp+

lemmas run_simps = with_store_def retry_busy_def run_operation_def next_attempt_def note_success_def
  note_busy_def Let_def busy_messages

section \<open>Properties\<close>

text \<open>C26: A queue operation happens once or not at all. Whatever the sequence of lock errors, a retried
  SQLite operation that returns a value has run exactly once on the database, one that raises has
  left the database as it was, and the contention counters stay consistent: every lock error was
  either a retry or an exhaustion, and the unresolved exhaustions add up.\<close>

theorem retry_busy_atomic:
  assumes "counters_ok st" and "retry_busy label op st = (r, st')"
  shows "(case r of
      Inr a \<Rightarrow> \<exists>gap. op gap (cn_db st) = (Inr a, cn_db st')
    | Inl e \<Rightarrow> cn_db st' = cn_db st)
    \<and> bs_events st' = bs_retries st' + bs_exhausted st'
    \<and> bs_consecutive st' = sum_values (bs_unresolved st') \<and> bs_consecutive st' \<le> bs_exhausted st'"
  using retry_busy_once [OF assms(2)] retry_busy_counters [OF assms] by (simp add: counters_ok_def)

theorem retry_busy_atomic_witness:
  "\<exists>st'. retry_busy ''size'' size_op (oq_store (fresh_queue [Refused ''database is locked'', Granted 0]))
      = (Inr 0, st') \<and> bs_events st' = bs_retries st' + bs_exhausted st'"
proof -
  let ?st = "oq_store (fresh_queue [Refused ''database is locked'', Granted 0])"
  have ok: "counters_ok ?st" using fresh_queue_ok by (simp add: queue_ok_def)
  obtain st' where run: "retry_busy ''size'' size_op ?st = (Inr 0, st')"
    by (simp add: run_simps fresh_queue_def size_op_def row_count_def numeral_3_eq_3)
  from retry_busy_atomic [OF ok run] run show ?thesis by blast
qed

text \<open>Lock contention that ends within the retry budget is invisible to the caller: after at most
  \<open>busy_retry_attempts - 1\<close> lock errors the operation runs and its value is returned.\<close>

theorem retry_busy_absorbs_contention:
  assumes "\<forall>m \<in> set ms. is_busy_error m" and "int (length ms) < bs_attempts st"
    and "cn_script st = map Refused ms @ Granted gap # rest" and "op gap (cn_db st) = (Inr a, d)"
  shows "\<exists>st'. retry_busy label op st = (Inr a, st') \<and> cn_db st' = d \<and> cn_script st' = rest"
  unfolding retry_busy_def
  using assms by (intro retry_loop_absorbs) auto

theorem retry_busy_absorbs_contention_witness:
  "\<exists>st'. retry_busy ''size'' size_op (oq_store (fresh_queue [Refused ''database is locked'', Refused ''BUSY'', Granted 4]))
      = (Inr 0, st') \<and> cn_script st' = []"
proof -
  have "\<exists>st'. retry_busy ''size'' size_op
      (oq_store (fresh_queue (map Refused [''database is locked'', ''BUSY''] @ Granted 4 # [])))
      = (Inr 0, st') \<and> cn_db st' = cn_db (oq_store (fresh_queue [])) \<and> cn_script st' = []"
    by (rule retry_busy_absorbs_contention [where ms = "[''database is locked'', ''BUSY'']" and gap = 4 and rest = "[]"])
      (simp_all add: fresh_queue_def busy_messages size_op_def row_count_def)
  then show ?thesis by auto
qed

text \<open>Enqueueing is idempotent and ordered. A call that returns has left the tables valid and either
  added one row at the end, numbered above every earlier row, or, when the event id was queued
  already, changed nothing; a call that raises has changed nothing.\<close>

theorem enqueue_idempotent:
  assumes "queue_ok q" and "enqueue now t p e q = (r, q')"
  shows "queue_ok q' \<and> (case r of
      Inl x \<Rightarrow> queue_items q' = queue_items q
    | Inr _ \<Rightarrow> (if find_event e (cn_db (oq_store q)) = None
        then \<exists>i. queue_items q' = queue_items q @ [(i, t, p)] \<and> (\<forall>x \<in> set (queue_items q). fst x < i)
        else queue_items q' = queue_items q))"
proof -
  note run = enqueue_run [OF assms]
  have last: "\<forall>x \<in> set (queue_items q). fst x \<le> qd_last_id (cn_db (oq_store q))"
    using assms(1) by (auto simp: queue_ok_def queue_db_ok_def queue_items_def)
  show ?thesis using run last
    by (cases r) (force simp: queue_items_def insert_row_def Let_def)+
qed

theorem enqueue_idempotent_witness:
  "\<exists>q'. enqueue ''t0'' ''topic'' JNull ''e1'' (fresh_queue []) = (Inr (), q') \<and> queue_ok q'"
proof -
  obtain q' where run: "enqueue ''t0'' ''topic'' JNull ''e1'' (fresh_queue []) = (Inr (), q')"
    by (simp add: enqueue_def run_simps fresh_queue_def enqueue_op_def numeral_3_eq_3)
  from enqueue_idempotent [OF fresh_queue_ok run] run show ?thesis by blast
qed

text \<open>Sequence numbers are gapless and a retried event does not consume one. If the event id is still
  queued the call returns the queued document and changes nothing; otherwise it queues, at the end,
  the document with the next number of the stream, and no other stream moves; a call that raises
  consumes no number and queues nothing.\<close>

theorem enqueue_with_sequence_gapless:
  assumes "queue_ok q" and "enqueue_with_sequence now t p e stream q = (r, q')"
  shows "queue_ok q' \<and> (case r of
      Inl x \<Rightarrow> cn_db (oq_store q') = cn_db (oq_store q)
    | Inr doc \<Rightarrow>
       (let d = cn_db (oq_store q); d' = cn_db (oq_store q'); s = lower (strip stream);
            n = dget_or (qd_sequences d) s 0 + 1 in
        (case find_event e d of
           Some row \<Rightarrow> d' = d \<and> doc = qr_payload row
         | None \<Rightarrow> doc = JObj (dset ''node_sequence'' (JInt n) p)
             \<and> (\<exists>i. queue_items q' = queue_items q @ [(i, t, doc)])
             \<and> (\<forall>k. dget (qd_sequences d') k = (if k = s then Some n else dget (qd_sequences d) k)))))"
proof -
  note run = enqueue_seq_run [OF assms]
  show ?thesis
  proof (cases r)
    case (Inl x)
    with run show ?thesis by simp
  next
    case (Inr doc)
    let ?d = "cn_db (oq_store q)"
    let ?s = "lower (strip stream)"
    from run Inr obtain gap where op: "enqueue_with_sequence_op t p e ?s now gap ?d = (Inr doc, cn_db (oq_store q'))"
      and ok: "queue_ok q'" by auto
    show ?thesis
    proof (cases "find_event e ?d")
      case (Some row)
      with op ok Inr show ?thesis by (simp add: enqueue_with_sequence_op_def Let_def)
    next
      case None
      obtain tb where tb: "next_sequence_in_transaction ?s ?d
          = (Inr (dget_or (qd_sequences ?d) ?s 0 + 1), ?d\<lparr>qd_sequences := tb\<rparr>)"
        "\<forall>k. dget tb k = (if k = ?s then Some (dget_or (qd_sequences ?d) ?s 0 + 1) else dget (qd_sequences ?d) k)"
        using next_sequence_spec [of ?s ?d] by blast
      have "cn_db (oq_store q') = insert_row e t doc now gap (?d\<lparr>qd_sequences := tb\<rparr>)"
        and "doc = JObj (dset ''node_sequence'' (JInt (dget_or (qd_sequences ?d) ?s 0 + 1)) p)"
        using op None tb(1) by (auto simp: enqueue_with_sequence_op_def Let_def)
      with None ok Inr tb(2) show ?thesis by (simp add: Let_def queue_items_def insert_row_def)
    qed
  qed
qed

theorem enqueue_with_sequence_gapless_witness:
  "\<exists>doc q'. enqueue_with_sequence ''t0'' ''topic'' [] ''e1'' '' Telemetry '' (fresh_queue []) = (Inr doc, q')
    \<and> doc = JObj [(''node_sequence'', JInt 1)]"
proof -
  have s: "lower (strip '' Telemetry '') = ''telemetry''"
    by code_simp
  obtain doc q' where run: "enqueue_with_sequence ''t0'' ''topic'' [] ''e1'' '' Telemetry '' (fresh_queue []) = (Inr doc, q')"
    unfolding enqueue_with_sequence_def s
    by (simp add: run_simps fresh_queue_def enqueue_with_sequence_op_def find_event_def
        next_sequence_in_transaction_def numeral_3_eq_3)
  have "find_event ''e1'' (cn_db (oq_store (fresh_queue []))) = None"
    by (simp add: fresh_queue_def find_event_def)
  with enqueue_with_sequence_gapless [OF fresh_queue_ok run] have "doc = JObj [(''node_sequence'', JInt 1)]"
    by (simp add: fresh_queue_def dget_or_def Let_def)
  with run show ?thesis by blast
qed

text \<open>The health probe never fails on lock contention. It reports the depth of the queue, or on a lock
  error the last depth known, marked stale and counted; it changes no row.\<close>

theorem health_depth_stale:
  assumes "health_depth q = (r, q')"
  shows "cn_db (oq_store q') = cn_db (oq_store q) \<and> (case r of
      Inr (n, stale) \<Rightarrow> (if stale then n = oq_last_known_size q \<and> bs_stale (oq_store q') = bs_stale (oq_store q) + 1
        else n = int (length (queue_items q)) \<and> oq_last_known_size q' = n)
    | Inl e \<Rightarrow> \<exists>msg. e = OperationalError msg \<and> \<not> is_busy_error msg)"
  using assms
  by (auto simp: health_depth_def read_health_depth_def with_store_def run_operation_def next_attempt_def
      size_op_def row_count_def queue_items_def split: list.splits attempt.splits if_splits)

theorem health_depth_stale_witness:
  "\<exists>q'. health_depth (fresh_queue [Refused ''database is locked'']) = (Inr (0, True), q')
    \<and> bs_stale (oq_store q') = 1"
proof -
  obtain q' where run: "health_depth (fresh_queue [Refused ''database is locked'']) = (Inr (0, True), q')"
    by (simp add: health_depth_def read_health_depth_def fresh_queue_def run_simps)
  from health_depth_stale [OF run] have "bs_stale (oq_store q') = 1" by (simp add: fresh_queue_def)
  with run show ?thesis by blast
qed

end
