(* ===== verification/Settings.thy ===== *)
theory Settings
  imports PyStr
begin

text \<open>
  \<open>Settings\<close> of \<open>services/device-agent/main.py\<close>: the parsers of its environment values, the validation
  that ends \<open>Settings.from_env\<close>, and the identities derived from a node. Reading the process environment
  and \<open>float(text)\<close> are not modelled: the validation takes the constructed settings, whether
  \<open>RS485_BUS_CONFIG_JSON\<close> is blank, and what the password file holds.
\<close>

section \<open>Device modes\<close>

definition mode_uses_xjp60d :: "string \<Rightarrow> bool" where
  "mode_uses_xjp60d m = (m \<in> {''xjp60d'', ''modbus''})"

definition mode_uses_le01mp :: "string \<Rightarrow> bool" where
  "mode_uses_le01mp m = (m \<in> {''le01mp'', ''modbus''})"

definition mode_uses_embraco :: "string \<Rightarrow> bool" where
  "mode_uses_embraco m = (m \<in> {''embraco'', ''modbus''})"

definition mode_uses_sdm120 :: "string \<Rightarrow> bool" where
  "mode_uses_sdm120 m = (m \<in> {''sdm120'', ''modbus''})"

definition mode_uses_waveshare_8ai :: "string \<Rightarrow> bool" where
  "mode_uses_waveshare_8ai m = (m \<in> {''waveshare_8ai'', ''modbus''})"

section \<open>Parsers\<close>

definition parse_bool :: "string \<Rightarrow> string \<Rightarrow> bool result" where
  "parse_bool v label =
     (let normalized = lower (strip v) in
      if normalized \<in> {''1'', ''true'', ''yes'', ''on''} then Inr True
      else if normalized \<in> {''0'', ''false'', ''no'', ''off''} then Inr False
      else Inl (ValueError (label @ '' must be true or false'')))"

text \<open>\<open>unit_text, channel_text = token.split(":", maxsplit=1)\<close> and the two \<open>int\<close> calls; \<open>None\<close> is the
  \<open>ValueError\<close> that any of them raises.\<close>

definition parse_point :: "string \<Rightarrow> (int \<times> int) option" where
  "parse_point token = (case split_once (CHR '':'') token of
       None \<Rightarrow> None
     | Some (u, c) \<Rightarrow> (case (py_int u, py_int c) of
           (Some unit_id, Some channel) \<Rightarrow> Some (unit_id, channel)
         | _ \<Rightarrow> None))"

fun parse_points :: "string list \<Rightarrow> (int \<times> int) list \<Rightarrow> (int \<times> int) list result" where
  "parse_points [] points = Inr points"
| "parse_points (tok # toks) points =
     (let token = strip tok in
      if token = [] then parse_points toks points
      else (case parse_point token of
          None \<Rightarrow> Inl (ValueError (''Invalid XJP60D point '' @ py_repr token @ ''; expected UNIT_ID:CHANNEL''))
        | Some (unit_id, channel) \<Rightarrow>
            if \<not> (1 \<le> unit_id \<and> unit_id \<le> 247) then
              Inl (ValueError (''XJP60D unit ID must be 1..247, got '' @ dec unit_id))
            else if \<not> (1 \<le> channel \<and> channel \<le> 6) then
              Inl (ValueError (''XJP60D channel must be 1..6, got '' @ dec channel))
            else parse_points toks
              (if (unit_id, channel) \<in> set points then points else points @ [(unit_id, channel)])))"

definition parse_xjp60d_points :: "string \<Rightarrow> (int \<times> int) list result" where
  "parse_xjp60d_points v = parse_points (split_on (CHR '','') v) []"

fun parse_units :: "string \<Rightarrow> string list \<Rightarrow> int list \<Rightarrow> int list result" where
  "parse_units label [] ids = Inr ids"
| "parse_units label (tok # toks) ids =
     (let token = strip tok in
      if token = [] then parse_units label toks ids
      else (case py_int token of
          None \<Rightarrow> Inl (ValueError (''Invalid '' @ label @ '' unit ID: '' @ py_repr token))
        | Some unit_id \<Rightarrow>
            if \<not> (1 \<le> unit_id \<and> unit_id \<le> 247) then
              Inl (ValueError (label @ '' unit ID must be 1..247, got '' @ dec unit_id))
            else parse_units label toks (if unit_id \<in> set ids then ids else ids @ [unit_id])))"

definition parse_unit_ids :: "string \<Rightarrow> string \<Rightarrow> int list result" where
  "parse_unit_ids v label = parse_units label (split_on (CHR '','') v) []"

section \<open>Mounted secrets\<close>

text \<open>What \<open>path.is_file()\<close>, \<open>os.access\<close> and \<open>read_text\<close> find.\<close>

datatype secret_file = NotReadable | ReadFails | SecretText string

definition strip_newlines :: "string \<Rightarrow> string" where
  "strip_newlines s = rev (dropWhile (\<lambda>c. c = CHR 0x0D \<or> c = CHR 0x0A) (rev s))"

definition read_mounted_secret :: "secret_file \<Rightarrow> string \<Rightarrow> string result" where
  "read_mounted_secret file label = (case file of
      NotReadable \<Rightarrow> Inl (ValueError (label @ '' file is not readable''))
    | ReadFails \<Rightarrow> Inl (ValueError (label @ '' file could not be read''))
    | SecretText text \<Rightarrow>
        (let v = strip_newlines text in
         if v = [] then Inl (ValueError (label @ '' must not be empty''))
         else if \<exists>c \<in> set v. is_space c \<or> (of_char c :: nat) < 33 \<or> (of_char c :: nat) = 127 then
           Inl (ValueError (label @ '' must not contain whitespace or control characters''))
         else Inr v))"

section \<open>The settings\<close>

record settings =
  st_node_id :: string
  st_organization_id :: "string option"
  st_mqtt_host :: string
  st_mqtt_port :: int
  st_mqtt_topic :: string
  st_health_interval_seconds :: pyfloat
  st_software_version :: string
  st_sample_interval_seconds :: pyfloat
  st_database_path :: string
  st_health_host :: string
  st_health_port :: int
  st_device_mode :: string
  st_serial_device :: string
  st_serial_baudrate :: int
  st_serial_parity :: string
  st_serial_stopbits :: int
  st_serial_timeout_seconds :: pyfloat
  st_serial_retries :: int
  st_xjp60d_points :: "(int \<times> int) list"
  st_xjp60d_scale :: pyfloat
  st_le01mp_unit_ids :: "int list"
  st_sdm120_unit_ids :: "int list"
  st_sdm120_bus_id :: "string option"
  st_waveshare_8ai_unit_ids :: "int list"
  st_waveshare_8ai_bus_id :: "string option"
  st_embraco_unit_ids :: "int list"
  st_embraco_temperature_scale :: "pyfloat option"
  st_embraco_control_scale :: "pyfloat option"
  st_mqtt_auth_required :: bool
  st_mqtt_username :: "string option"
  st_mqtt_client_id :: string
  st_mqtt_password_file :: "string option"

definition expected_mqtt_username :: "settings \<Rightarrow> string option" where
  "expected_mqtt_username s = (case st_organization_id s of
      None \<Rightarrow> None
    | Some org \<Rightarrow> Some (''node:'' @ org @ '':'' @ st_node_id s))"

definition expected_mqtt_client_id :: "settings \<Rightarrow> string" where
  "expected_mqtt_client_id s = (case st_organization_id s of
      None \<Rightarrow> st_node_id s
    | Some org \<Rightarrow> ''nexolab-'' @ org @ ''-'' @ st_node_id s)"

definition resolved_telemetry_topic :: "settings \<Rightarrow> string" where
  "resolved_telemetry_topic s = (case st_organization_id s of
      None \<Rightarrow> st_mqtt_topic s
    | Some org \<Rightarrow> ''nexolab/v1/'' @ org @ ''/'' @ st_node_id s @ ''/telemetry'')"

definition allowed_modes :: "string list" where
  "allowed_modes = [''simulator'', ''xjp60d'', ''le01mp'', ''sdm120'', ''waveshare_8ai'', ''embraco'', ''modbus'']"

text \<open>The tests that end \<open>from_env\<close>, in their order. A condition is paired with its message.\<close>

definition device_checks :: "bool \<Rightarrow> settings \<Rightarrow> (bool \<times> string) list" where
  "device_checks bus_config s =
     [(st_device_mode s \<notin> set allowed_modes,
        ''DEVICE_MODE must be simulator, xjp60d, le01mp, sdm120, waveshare_8ai, embraco, or modbus''),
      (st_device_mode s = ''xjp60d'' \<and> st_xjp60d_points s = [],
        ''XJP60D_POINTS is required when DEVICE_MODE=xjp60d''),
      (st_device_mode s = ''le01mp'' \<and> st_le01mp_unit_ids s = [],
        ''LE01MP_UNIT_IDS is required when DEVICE_MODE=le01mp''),
      (st_device_mode s = ''sdm120'' \<and> st_sdm120_unit_ids s = [],
        ''SDM120_UNIT_IDS is required when DEVICE_MODE=sdm120''),
      (st_sdm120_unit_ids s \<noteq> [] \<and> st_sdm120_bus_id s = None,
        ''SDM120_BUS_ID is required whenever SDM120_UNIT_IDS enables polling''),
      (st_sdm120_unit_ids s \<noteq> [] \<and> \<not> bus_config,
        ''RS485_BUS_CONFIG_JSON is required whenever SDM120_UNIT_IDS enables polling''),
      (st_device_mode s = ''waveshare_8ai'' \<and> st_waveshare_8ai_unit_ids s = [],
        ''WAVESHARE_8AI_UNIT_IDS is required when DEVICE_MODE=waveshare_8ai''),
      (st_waveshare_8ai_unit_ids s \<noteq> [] \<and> st_waveshare_8ai_bus_id s = None,
        ''WAVESHARE_8AI_BUS_ID is required whenever WAVESHARE_8AI_UNIT_IDS enables polling''),
      (st_waveshare_8ai_unit_ids s \<noteq> [] \<and> \<not> bus_config,
        ''RS485_BUS_CONFIG_JSON is required whenever WAVESHARE_8AI_UNIT_IDS enables polling''),
      (st_device_mode s = ''embraco'' \<and> st_embraco_unit_ids s = [],
        ''EMBRACO_UNIT_IDS is required when DEVICE_MODE=embraco''),
      (st_device_mode s = ''modbus'' \<and> st_xjp60d_points s = [] \<and> st_le01mp_unit_ids s = []
         \<and> st_sdm120_unit_ids s = [] \<and> st_waveshare_8ai_unit_ids s = [] \<and> st_embraco_unit_ids s = [],
        ''At least one XJP60D point, LE-01MP, SDM120, Waveshare 8AI, or Embraco unit is required ''
          @ ''when DEVICE_MODE=modbus''),
      (st_health_interval_seconds s \<le> 0, ''NODE_HEALTH_INTERVAL_SECONDS must be positive''),
      (st_node_id s = [] \<or> (\<exists>c \<in> set (st_node_id s). is_space c),
        ''NEXOLAB_NODE_ID must not be empty or contain whitespace'')]"

fun run_checks :: "(bool \<times> string) list \<Rightarrow> unit result" where
  "run_checks [] = Inr ()"
| "run_checks ((bad, msg) # cs) = (if bad then Inl (ValueError msg) else run_checks cs)"

definition auth_checks :: "settings \<Rightarrow> (bool \<times> string) list" where
  "auth_checks s =
     [(st_organization_id s = None, ''NEXOLAB_ORGANIZATION_ID is required when MQTT_AUTH_REQUIRED=true''),
      (st_mqtt_username s \<noteq> expected_mqtt_username s, ''MQTT_USERNAME does not match the provisioned node identity''),
      (st_mqtt_client_id s \<noteq> expected_mqtt_client_id s, ''MQTT_CLIENT_ID does not match the provisioned node identity''),
      (st_mqtt_password_file s = None, ''MQTT_PASSWORD_FILE is required when MQTT_AUTH_REQUIRED=true'')]"

definition validate_settings :: "bool \<Rightarrow> (string \<Rightarrow> secret_file) \<Rightarrow> settings \<Rightarrow> settings result" where
  "validate_settings bus_config files s =
     ebind (run_checks (device_checks bus_config s)) (\<lambda>_.
       if st_mqtt_auth_required s then
         ebind (run_checks (auth_checks s)) (\<lambda>_.
         ebind (read_mounted_secret (files (the (st_mqtt_password_file s))) ''MQTT password'') (\<lambda>_. Inr s))
       else if st_mqtt_username s \<noteq> None \<or> st_mqtt_password_file s \<noteq> None then
         Inl (ValueError ''MQTT username/password require MQTT_AUTH_REQUIRED=true'')
       else Inr s)"

section \<open>Lemmas\<close>

lemma run_checks_iff: "run_checks cs = Inr u \<longleftrightarrow> (\<forall>(bad, msg) \<in> set cs. \<not> bad)"
  by (induction cs rule: run_checks.induct) auto

lemma run_checks_error: "run_checks cs = Inl e \<Longrightarrow> is_value_error e"
  by (induction cs rule: run_checks.induct) (auto split: if_splits)

lemma split_once_join: "CHR '':'' \<notin> set a \<Longrightarrow> split_once (CHR '':'') (a @ CHR '':'' # b) = Some (a, b)"
  by (induction a) auto

lemma split_on_join:
  assumes "\<forall>p \<in> set ps. sep \<notin> set p" and "ps \<noteq> []"
  shows "split_on sep (join [sep] ps) = ps"
proof -
  have one: "sep \<notin> set p \<Longrightarrow> split_on sep p = [p]" for p by (induction p) auto
  have ne: "split_on sep s \<noteq> []" for s by (induction s) (auto split: list.splits)
  have more: "sep \<notin> set p \<Longrightarrow> split_on sep (p @ sep # s) = p # split_on sep s" for p s
    by (induction p) (auto simp: ne split: list.splits)
  show ?thesis using assms
  proof (induction ps)
    case (Cons p ps)
    then show ?case by (cases ps) (simp_all add: one more)
  qed simp
qed

lemma parse_points_Cons:
  assumes "parse_points (tok # toks) ps = Inr out"
  shows "strip tok = [] \<and> parse_points toks ps = Inr out
    \<or> (\<exists>u c. parse_point (strip tok) = Some (u, c) \<and> 1 \<le> u \<and> u \<le> 247 \<and> 1 \<le> c \<and> c \<le> 6
        \<and> parse_points toks (if (u, c) \<in> set ps then ps else ps @ [(u, c)]) = Inr out)"
proof (cases "strip tok = []")
  case True
  with assms show ?thesis by (simp only: parse_points.simps Let_def if_True simp_thms)
next
  case False
  note a = assms [unfolded parse_points.simps Let_def if_not_P [OF False]]
  obtain uc where p: "parse_point (strip tok) = Some uc"
  proof (cases "parse_point (strip tok)")
    case None
    with a show ?thesis by (simp only: option.case sum.distinct)
  qed
  obtain u c where uc: "uc = (u, c)" by (cases uc)
  show ?thesis
  proof (cases "1 \<le> u \<and> u \<le> 247 \<and> 1 \<le> c \<and> c \<le> 6")
    case True
    with a p uc show ?thesis by (simp only: option.case prod.case simp_thms if_False) blast
  next
    case bad: False
    show ?thesis
    proof (cases "1 \<le> u \<and> u \<le> 247")
      case True
      with bad a p uc show ?thesis by (simp only: option.case prod.case simp_thms if_False if_True sum.distinct)
    next
      case False
      with a p uc show ?thesis by (simp only: option.case prod.case simp_thms if_True sum.distinct)
    qed
  qed
qed

lemma parse_points_range:
  "parse_points toks ps = Inr out \<Longrightarrow> distinct ps \<Longrightarrow> \<forall>(u, c) \<in> set ps. 1 \<le> u \<and> u \<le> 247 \<and> 1 \<le> c \<and> c \<le> 6
    \<Longrightarrow> distinct out \<and> (\<forall>(u, c) \<in> set out. 1 \<le> u \<and> u \<le> 247 \<and> 1 \<le> c \<and> c \<le> 6)"
proof (induction toks arbitrary: ps)
  case (Cons tok toks)
  from parse_points_Cons [OF Cons.prems(1)] show ?case
  proof (elim disjE exE conjE)
    fix u c assume uc: "1 \<le> u" "u \<le> 247" "1 \<le> c" "c \<le> 6"
      "parse_points toks (if (u, c) \<in> set ps then ps else ps @ [(u, c)]) = Inr out"
    have "distinct (if (u, c) \<in> set ps then ps else ps @ [(u, c)])" using Cons.prems(2) by simp
    moreover have "\<forall>(u, c) \<in> set (if (u, c) \<in> set ps then ps else ps @ [(u, c)]).
        1 \<le> u \<and> u \<le> 247 \<and> 1 \<le> c \<and> c \<le> 6" using Cons.prems(3) uc(1-4) by simp
    ultimately show ?thesis by (rule Cons.IH [OF uc(5)])
  next
    assume "parse_points toks ps = Inr out"
    from Cons.IH [OF this Cons.prems(2,3)] show ?thesis .
  qed
qed simp

lemma parse_units_Cons:
  assumes "parse_units label (tok # toks) ps = Inr out"
  shows "strip tok = [] \<and> parse_units label toks ps = Inr out
    \<or> (\<exists>u. py_int (strip tok) = Some u \<and> 1 \<le> u \<and> u \<le> 247
        \<and> parse_units label toks (if u \<in> set ps then ps else ps @ [u]) = Inr out)"
proof (cases "strip tok = []")
  case True
  with assms show ?thesis by (simp only: parse_units.simps Let_def if_True simp_thms)
next
  case False
  note a = assms [unfolded parse_units.simps Let_def if_not_P [OF False]]
  obtain u where p: "py_int (strip tok) = Some u"
  proof (cases "py_int (strip tok)")
    case None
    with a show ?thesis by (simp only: option.case sum.distinct)
  qed
  show ?thesis
  proof (cases "1 \<le> u \<and> u \<le> 247")
    case True
    with a p show ?thesis by (simp only: option.case simp_thms if_False) blast
  next
    case False
    with a p show ?thesis by (simp only: option.case simp_thms if_True sum.distinct)
  qed
qed

lemma parse_units_range:
  "parse_units label toks ps = Inr out \<Longrightarrow> distinct ps \<Longrightarrow> \<forall>u \<in> set ps. 1 \<le> u \<and> u \<le> 247
    \<Longrightarrow> distinct out \<and> (\<forall>u \<in> set out. 1 \<le> u \<and> u \<le> 247)"
proof (induction toks arbitrary: ps)
  case (Cons tok toks)
  from parse_units_Cons [OF Cons.prems(1)] show ?case
  proof (elim disjE exE conjE)
    fix u assume u: "1 \<le> u" "u \<le> 247"
      "parse_units label toks (if u \<in> set ps then ps else ps @ [u]) = Inr out"
    have "distinct (if u \<in> set ps then ps else ps @ [u])" using Cons.prems(2) by simp
    moreover have "\<forall>u \<in> set (if u \<in> set ps then ps else ps @ [u]). 1 \<le> u \<and> u \<le> 247"
      using Cons.prems(3) u(1-2) by simp
    ultimately show ?thesis by (rule Cons.IH [OF u(3)])
  next
    assume "parse_units label toks ps = Inr out"
    from Cons.IH [OF this Cons.prems(2,3)] show ?thesis .
  qed
qed simp

text \<open>The rendering of a point, and what parsing a rendered list gives.\<close>

definition point_text :: "int \<times> int \<Rightarrow> string" where
  "point_text p = dec (fst p) @ CHR '':'' # dec (snd p)"

lemma dec_chars: "0 \<le> i \<Longrightarrow> c \<in> set (dec i) \<Longrightarrow> \<not> is_space c \<and> c \<noteq> CHR '','' \<and> c \<noteq> CHR '':''"
  using dec_digits [of i c] digit_not_space [of c] by (auto simp: is_digit_def)

lemma point_text_plain:
  assumes "0 \<le> fst p" "0 \<le> snd p"
  shows "strip (point_text p) = point_text p" "CHR '','' \<notin> set (point_text p)" "point_text p \<noteq> []"
proof -
  have "\<not> is_space (CHR '':'')" by (simp add: is_space_def Let_def)
  then show "strip (point_text p) = point_text p"
    using assms dec_chars by (intro strip_no_space) (auto simp: point_text_def)
  show "CHR '','' \<notin> set (point_text p)" "point_text p \<noteq> []"
    using assms dec_chars by (auto simp: point_text_def)
qed

lemma parse_points_texts:
  assumes "\<forall>(u, c) \<in> set ps. 1 \<le> u \<and> u \<le> 247 \<and> 1 \<le> c \<and> c \<le> 6" and "distinct (qs @ ps)"
  shows "parse_points (map point_text ps) qs = Inr (qs @ ps)"
  using assms
proof (induction ps arbitrary: qs)
  case (Cons p ps)
  obtain u c where p: "p = (u, c)" by (cases p)
  have r: "1 \<le> u" "u \<le> 247" "1 \<le> c" "c \<le> 6" using Cons.prems(1) p by auto
  have sp: "split_once (CHR '':'') (point_text p) = Some (dec u, dec c)"
    unfolding point_text_def p using r dec_chars [of u] by (intro split_once_join [THEN trans]) auto
  have "parse_points (map point_text ps) (qs @ [p]) = Inr ((qs @ [p]) @ ps)"
    using Cons.prems by (intro Cons.IH) auto
  then show ?case using Cons.prems(2) r p sp point_text_plain [of p]
    by (simp add: Let_def py_int_dec parse_point_def)
qed simp

lemma parse_points_error: "parse_points toks ps = Inl e \<Longrightarrow> is_value_error e"
proof (induction toks arbitrary: ps)
  case (Cons tok toks)
  show ?case
  proof (cases "strip tok = []")
    case True
    with Cons.prems have "parse_points toks ps = Inl e"
      by (simp only: parse_points.simps Let_def if_True simp_thms)
    then show ?thesis by (rule Cons.IH)
  next
    case False
    note a = Cons.prems [unfolded parse_points.simps Let_def if_not_P [OF False]]
    show ?thesis
    proof (cases "parse_point (strip tok)")
      case None
      with a show ?thesis by (auto simp only: option.case sum.inject is_value_error.simps)
    next
      case (Some uc)
      obtain u c where uc: "uc = (u, c)" by (cases uc)
      from a Some uc have "(\<exists>m. e = ValueError m) \<or>
          parse_points toks (if (u, c) \<in> set ps then ps else ps @ [(u, c)]) = Inl e"
        by (simp only: option.case prod.case sum.inject split: if_split_asm) blast+
      then show ?thesis using Cons.IH by auto
    qed
  qed
qed simp

lemma validate_settings_cases:
  assumes "validate_settings bus_config files s = Inr s'"
  shows "s' = s \<and> (\<forall>(bad, msg) \<in> set (device_checks bus_config s). \<not> bad)
    \<and> (st_mqtt_auth_required s \<longrightarrow> (\<forall>(bad, msg) \<in> set (auth_checks s). \<not> bad))
    \<and> (\<not> st_mqtt_auth_required s \<longrightarrow> st_mqtt_username s = None \<and> st_mqtt_password_file s = None)"
  using assms
  by (auto simp: validate_settings_def ebind_eq_Inr run_checks_iff split: if_splits)

lemma read_mounted_secret_error: "read_mounted_secret f l = Inl e \<Longrightarrow> is_value_error e"
  by (auto simp: read_mounted_secret_def Let_def split: secret_file.splits if_splits)

section \<open>Properties\<close>

text \<open>Reading a point list back. The parser inverts the rendering of every list of distinct points in
  the protocol's range; whatever it accepts is such a list, and it rejects with \<open>ValueError\<close>.\<close>

theorem parse_points_roundtrip:
  assumes "\<forall>(u, c) \<in> set ps. 1 \<le> u \<and> u \<le> 247 \<and> 1 \<le> c \<and> c \<le> 6" and "distinct ps"
  shows "parse_xjp60d_points (join [CHR '',''] (map point_text ps)) = Inr ps
    \<and> (case parse_xjp60d_points text of
        Inr out \<Rightarrow> distinct out \<and> (\<forall>(u, c) \<in> set out. 1 \<le> u \<and> u \<le> 247 \<and> 1 \<le> c \<and> c \<le> 6)
      | Inl e \<Rightarrow> is_value_error e)"
proof
  show "parse_xjp60d_points (join [CHR '',''] (map point_text ps)) = Inr ps"
  proof (cases "ps = []")
    case True
    then show ?thesis by (simp add: parse_xjp60d_points_def strip_no_space)
  next
    case False
    have "\<forall>p \<in> set (map point_text ps). CHR '','' \<notin> set p"
      using assms(1) point_text_plain(2) by fastforce
    then have "split_on (CHR '','') (join [CHR '',''] (map point_text ps)) = map point_text ps"
      using False by (intro split_on_join) auto
    then show ?thesis
      using parse_points_texts [OF assms(1), of "[]"] assms(2) by (simp add: parse_xjp60d_points_def)
  qed
  show "case parse_xjp60d_points text of
        Inr out \<Rightarrow> distinct out \<and> (\<forall>(u, c) \<in> set out. 1 \<le> u \<and> u \<le> 247 \<and> 1 \<le> c \<and> c \<le> 6)
      | Inl e \<Rightarrow> is_value_error e"
  proof (cases "parse_xjp60d_points text")
    case (Inl e)
    then show ?thesis using parse_points_error by (auto simp: parse_xjp60d_points_def)
  next
    case (Inr out)
    with parse_points_range [of "split_on (CHR '','') text" "[]" out] show ?thesis
      by (simp add: parse_xjp60d_points_def)
  qed
qed

theorem parse_points_roundtrip_witness:
  "parse_xjp60d_points (join [CHR '',''] (map point_text [(1, 2), (247, 6)])) = Inr [(1, 2), (247, 6)]"
  using parse_points_roundtrip [of "[(1, 2), (247, 6)]" "[]"] by simp

text \<open>Accepted settings are consistent. Validation returns the settings unchanged or raises; accepted
  settings name a known device mode with something to poll in it, poll the bus-bound families only
  with a bus id and a bus configuration, and carry MQTT credentials exactly when authentication is
  required, and then those of the provisioned node identity.\<close>

theorem validate_settings_sound:
  assumes "validate_settings bus_config files s = Inr s'"
  shows "s' = s \<and> st_device_mode s \<in> set allowed_modes \<and> 0 < st_health_interval_seconds s \<and> st_node_id s \<noteq> []
    \<and> (st_device_mode s = ''xjp60d'' \<longrightarrow> st_xjp60d_points s \<noteq> [])
    \<and> (st_device_mode s = ''modbus'' \<longrightarrow> st_xjp60d_points s \<noteq> [] \<or> st_le01mp_unit_ids s \<noteq> []
         \<or> st_sdm120_unit_ids s \<noteq> [] \<or> st_waveshare_8ai_unit_ids s \<noteq> [] \<or> st_embraco_unit_ids s \<noteq> [])
    \<and> (st_sdm120_unit_ids s \<noteq> [] \<or> st_waveshare_8ai_unit_ids s \<noteq> [] \<longrightarrow> bus_config)
    \<and> (st_mqtt_auth_required s \<longrightarrow> (\<exists>org. st_organization_id s = Some org
         \<and> st_mqtt_username s = Some (''node:'' @ org @ '':'' @ st_node_id s)
         \<and> st_mqtt_client_id s = ''nexolab-'' @ org @ ''-'' @ st_node_id s \<and> st_mqtt_password_file s \<noteq> None))
    \<and> (\<not> st_mqtt_auth_required s \<longrightarrow> st_mqtt_username s = None \<and> st_mqtt_password_file s = None)"
proof -
  note v = validate_settings_cases [OF assms]
  from v have d: "\<forall>(bad, msg) \<in> set (device_checks bus_config s). \<not> bad" by blast
  have "st_mqtt_auth_required s \<longrightarrow> (\<exists>org. st_organization_id s = Some org
         \<and> st_mqtt_username s = Some (''node:'' @ org @ '':'' @ st_node_id s)
         \<and> st_mqtt_client_id s = ''nexolab-'' @ org @ ''-'' @ st_node_id s \<and> st_mqtt_password_file s \<noteq> None)"
    using v by (auto simp: auth_checks_def expected_mqtt_username_def expected_mqtt_client_id_def
        split: option.splits)
  with v d show ?thesis unfolding device_checks_def by (simp add: not_le) blast
qed

definition sample_settings :: settings where
  "sample_settings = \<lparr>st_node_id = ''edge-01'', st_organization_id = Some ''acme'', st_mqtt_host = ''mqtt'',
     st_mqtt_port = 1883, st_mqtt_topic = ''nexolab/telemetry'', st_health_interval_seconds = 30,
     st_software_version = ''0.15.0'', st_sample_interval_seconds = 5, st_database_path = ''edge.db'',
     st_health_host = ''0.0.0.0'', st_health_port = 8081, st_device_mode = ''xjp60d'',
     st_serial_device = ''/dev/rs485'', st_serial_baudrate = 9600, st_serial_parity = ''N'',
     st_serial_stopbits = 1, st_serial_timeout_seconds = 1, st_serial_retries = 1,
     st_xjp60d_points = [(1, 2)], st_xjp60d_scale = 1, st_le01mp_unit_ids = [], st_sdm120_unit_ids = [],
     st_sdm120_bus_id = None, st_waveshare_8ai_unit_ids = [], st_waveshare_8ai_bus_id = None,
     st_embraco_unit_ids = [], st_embraco_temperature_scale = None, st_embraco_control_scale = None,
     st_mqtt_auth_required = True, st_mqtt_username = Some ''node:acme:edge-01'',
     st_mqtt_client_id = ''nexolab-acme-edge-01'', st_mqtt_password_file = Some ''/run/secrets/mqtt''\<rparr>"

lemma sample_settings_valid:
  "validate_settings False (\<lambda>f. SecretText ''hunter2'') sample_settings = Inr sample_settings"
proof -
  have n: "\<not> (\<exists>c \<in> set ''edge-01''. is_space c)" by code_simp
  have d: "run_checks (device_checks False sample_settings) = Inr ()"
    using n by (simp add: device_checks_def sample_settings_def allowed_modes_def)
  have a: "run_checks (auth_checks sample_settings) = Inr ()"
    by (simp add: auth_checks_def sample_settings_def expected_mqtt_username_def expected_mqtt_client_id_def)
  have r: "read_mounted_secret (SecretText ''hunter2'') ''MQTT password'' = Inr ''hunter2''" by code_simp
  have "st_mqtt_auth_required sample_settings" by (simp add: sample_settings_def)
  with d a r show ?thesis by (simp add: validate_settings_def)
qed

theorem validate_settings_sound_witness:
  "st_mqtt_username sample_settings = Some (''node:'' @ ''acme'' @ '':'' @ ''edge-01'')
    \<and> st_xjp60d_points sample_settings \<noteq> []"
  using validate_settings_sound [OF sample_settings_valid]
  by (simp add: sample_settings_def)

end
