(* ===== verification/Publishing.thy ===== *)
theory Publishing
  imports OfflineQueue Settings Effects
begin

text \<open>
  Publishing through the durable queue: \<open>AgentState\<close>, \<open>TelemetryRecord\<close>, \<open>publish_or_queue\<close> and
  \<open>flush_queue\<close> of \<open>services/device-agent/main.py\<close>. The MQTT client (Paho), the UUID generator, the
  random source and the clocks are not code of the repository: they are the parameter \<open>agent_ops\<close> on a
  world \<open>'w\<close>. The flush is a client of the contract \<open>fifo_queue\<close>.
\<close>

section \<open>The environment\<close>

text \<open>\<open>op_now\<close> is \<open>datetime.now(timezone.utc)\<close>: seconds since the epoch and the ISO text of the moment.
  A published message is a handle; \<open>mq_rc\<close> and \<open>mq_is_published\<close> read its result object.\<close>

record 'w agent_ops =
  op_uuid4 :: "'w \<Rightarrow> string \<times> 'w"
  op_now :: "'w \<Rightarrow> (rat \<times> string) \<times> 'w"
  op_clock :: "'w \<Rightarrow> pyfloat \<times> 'w"
  op_uniform :: "pyfloat \<Rightarrow> pyfloat \<Rightarrow> 'w \<Rightarrow> pyfloat \<times> 'w"
  mq_publish :: "string \<Rightarrow> json \<Rightarrow> bool \<Rightarrow> 'w \<Rightarrow> nat result \<times> 'w"
  mq_wait :: "nat \<Rightarrow> 'w \<Rightarrow> unit result \<times> 'w"
  mq_rc :: "nat \<Rightarrow> 'w \<Rightarrow> int"
  mq_is_published :: "nat \<Rightarrow> 'w \<Rightarrow> bool result \<times> 'w"
  mq_will_set :: "string \<Rightarrow> json \<Rightarrow> 'w \<Rightarrow> 'w"

section \<open>State and records\<close>

record agent_state =
  as_started_at :: "rat \<times> string"
  as_mqtt_connected :: bool
  as_last_sample_at :: "string option"
  as_last_publish_at :: "string option"
  as_last_error :: "string option"
  as_samples_total :: int

record telemetry =
  tr_event_id :: string
  tr_node_id :: string
  tr_captured_at :: string
  tr_metric :: string
  tr_value :: "pyfloat option"
  tr_unit :: string
  tr_quality :: string
  tr_source :: string
  tr_equipment_id :: "string option"
  tr_channel_id :: "string option"
  tr_alarm :: "string option"
  tr_raw_value :: "int option"
  tr_raw_status :: "int option"

text \<open>\<open>asdict(record)\<close>.\<close>

definition telemetry_dict :: "telemetry \<Rightarrow> (string, json) dict" where
  "telemetry_dict r =
     [(''event_id'', JStr (tr_event_id r)), (''node_id'', JStr (tr_node_id r)),
      (''captured_at'', JStr (tr_captured_at r)), (''metric'', JStr (tr_metric r)),
      (''value'', jopt JFloat (tr_value r)), (''unit'', JStr (tr_unit r)),
      (''quality'', JStr (tr_quality r)), (''source'', JStr (tr_source r)),
      (''equipment_id'', jopt JStr (tr_equipment_id r)), (''channel_id'', jopt JStr (tr_channel_id r)),
      (''alarm'', jopt JStr (tr_alarm r)), (''raw_value'', jopt JInt (tr_raw_value r)),
      (''raw_status'', jopt JInt (tr_raw_status r))]"

section \<open>Flushing the queue\<close>

text \<open>\<open>except (RuntimeError, ValueError, OSError)\<close>.\<close>

definition publish_deferred :: "exn \<Rightarrow> bool" where
  "publish_deferred e = (is_runtime_error e \<or> is_value_error e \<or> is_os_error e)"

text \<open>\<open>publish(topic, payload, qos=1)\<close> and \<open>wait_for_publish(timeout=5)\<close>.\<close>

definition publish_wait :: "'w agent_ops \<Rightarrow> string \<Rightarrow> json \<Rightarrow> bool \<Rightarrow> 'w \<Rightarrow> nat result \<times> 'w" where
  "publish_wait ops topic payload retain w =
     (case mq_publish ops topic payload retain w of
        (Inl e, w1) \<Rightarrow> (Inl e, w1)
      | (Inr h, w1) \<Rightarrow>
          (case mq_wait ops h w1 of
             (Inl e, w2) \<Rightarrow> (Inl e, w2)
           | (Inr _, w2) \<Rightarrow> (Inr h, w2)))"

text \<open>The body of the loop for one row: \<open>Inr True\<close> goes on to the next row, \<open>Inr False\<close> is
  \<open>return False\<close>.\<close>

definition flush_one ::
  "'w agent_ops \<Rightarrow> (int \<Rightarrow> 'q \<Rightarrow> unit result \<times> 'q) \<Rightarrow> int \<times> string \<times> json \<Rightarrow> 'q \<times> agent_state \<times> 'w
     \<Rightarrow> bool result \<times> ('q \<times> agent_state \<times> 'w)" where
  "flush_one ops remove row = (\<lambda>(q, st, w). case row of (record_id, topic, payload) \<Rightarrow>
     (case publish_wait ops topic payload False w of
        (Inl e, w1) \<Rightarrow> if publish_deferred e then (Inr False, (q, st, w1)) else (Inl e, (q, st, w1))
      | (Inr h, w1) \<Rightarrow>
          if mq_rc ops h w1 \<noteq> 0 then (Inr False, (q, st, w1))
          else (case mq_is_published ops h w1 of
             (Inl e, w2) \<Rightarrow> (Inl e, (q, st, w2))
           | (Inr False, w2) \<Rightarrow> (Inr False, (q, st, w2))
           | (Inr True, w2) \<Rightarrow>
               (case remove record_id q of
                  (Inl e, q1) \<Rightarrow> (Inl e, (q1, st, w2))
                | (Inr _, q1) \<Rightarrow>
                    (case op_now ops w2 of ((t, stamp), w3) \<Rightarrow>
                      (Inr True, (q1, st\<lparr>as_last_publish_at := Some stamp\<rparr>, w3)))))))"

fun flush_rows ::
  "'w agent_ops \<Rightarrow> (int \<Rightarrow> 'q \<Rightarrow> unit result \<times> 'q) \<Rightarrow> (int \<times> string \<times> json) list
     \<Rightarrow> 'q \<times> agent_state \<times> 'w \<Rightarrow> bool result \<times> ('q \<times> agent_state \<times> 'w)" where
  "flush_rows ops remove [] s = (Inr True, s)"
| "flush_rows ops remove (row # rows) s =
     (case flush_one ops remove row s of
        (Inl e, s1) \<Rightarrow> (Inl e, s1)
      | (Inr False, s1) \<Rightarrow> (Inr False, s1)
      | (Inr True, s1) \<Rightarrow> flush_rows ops remove rows s1)"

definition flush_with ::
  "'w agent_ops \<Rightarrow> ('q \<Rightarrow> (int \<times> string \<times> json) list result \<times> 'q) \<Rightarrow> (int \<Rightarrow> 'q \<Rightarrow> unit result \<times> 'q)
     \<Rightarrow> 'q \<times> agent_state \<times> 'w \<Rightarrow> bool result \<times> ('q \<times> agent_state \<times> 'w)" where
  "flush_with ops head remove = (\<lambda>(q, st, w).
     if \<not> as_mqtt_connected st then (Inr False, (q, st, w))
     else (case head q of
        (Inl e, q1) \<Rightarrow> (Inl e, (q1, st, w))
      | (Inr rows, q1) \<Rightarrow> flush_rows ops remove rows (q1, st, w)))"

definition flush_queue ::
  "'w agent_ops \<Rightarrow> offline_queue \<times> agent_state \<times> 'w \<Rightarrow> bool result \<times> (offline_queue \<times> agent_state \<times> 'w)" where
  "flush_queue ops = flush_with ops (oldest 100) delete"

section \<open>Publishing a record\<close>

text \<open>Persist first: the sequenced insertion for an organization, the plain one otherwise. The time is
  the \<open>created_at\<close> column, read when the insertion is first tried.\<close>

definition persist_record ::
  "'w agent_ops \<Rightarrow> settings \<Rightarrow> telemetry \<Rightarrow> offline_queue \<times> agent_state \<times> 'w
     \<Rightarrow> unit result \<times> (offline_queue \<times> agent_state \<times> 'w)" where
  "persist_record ops cfg r = (\<lambda>(q, st, w).
     (case op_now ops w of ((t, stamp), w1) \<Rightarrow>
        let topic = resolved_telemetry_topic cfg in
        (case (if st_organization_id cfg \<noteq> None then
                 (case enqueue_with_sequence stamp topic (telemetry_dict r) (tr_event_id r) ''telemetry'' q of
                    (Inl e, q1) \<Rightarrow> (Inl e, q1)
                  | (Inr _, q1) \<Rightarrow> (Inr (), q1))
               else enqueue stamp topic (JObj (telemetry_dict r)) (tr_event_id r) q) of
           (res, q1) \<Rightarrow> (res, (q1, st, w1)))))"

definition publish_or_queue ::
  "'w agent_ops \<Rightarrow> settings \<Rightarrow> telemetry \<Rightarrow> offline_queue \<times> agent_state \<times> 'w
     \<Rightarrow> bool result \<times> (offline_queue \<times> agent_state \<times> 'w)" where
  "publish_or_queue ops cfg r s =
     (case persist_record ops cfg r s of
        (Inl e, s1) \<Rightarrow> (Inl e, s1)
      | (Inr _, (q, st, w)) \<Rightarrow>
          if \<not> as_mqtt_connected st then (Inr False, (q, st, w))
          else flush_queue ops (q, st, w))"

section \<open>What a broker acknowledges\<close>

text \<open>
  \<open>acknowledges ops delivered\<close>: \<open>delivered w\<close> is the set of messages the broker has taken over. No
  operation takes one back, and when the result object of a publication reports it published, the
  broker has that message: the meaning of QoS 1 acknowledgement in Paho.
\<close>

definition acknowledges :: "'w agent_ops \<Rightarrow> ('w \<Rightarrow> (string \<times> json) set) \<Rightarrow> bool" where
  "acknowledges ops delivered \<longleftrightarrow>
     (\<forall>w. delivered w \<subseteq> delivered (snd (op_now ops w)))
   \<and> (\<forall>t p b w. delivered w \<subseteq> delivered (snd (mq_publish ops t p b w)))
   \<and> (\<forall>h w. delivered w \<subseteq> delivered (snd (mq_wait ops h w)))
   \<and> (\<forall>h w. delivered w \<subseteq> delivered (snd (mq_is_published ops h w)))
   \<and> (\<forall>t p b w h w1 u w2 w3. mq_publish ops t p b w = (Inr h, w1) \<longrightarrow> mq_wait ops h w1 = (Inr u, w2)
        \<longrightarrow> mq_is_published ops h w2 = (Inr True, w3) \<longrightarrow> (t, p) \<in> delivered w3)"

lemma acknowledgesD:
  assumes "acknowledges ops delivered"
  shows "op_now ops w = (x1, w') \<Longrightarrow> delivered w \<subseteq> delivered w'"
    and "mq_publish ops t p b w = (x2, w') \<Longrightarrow> delivered w \<subseteq> delivered w'"
    and "mq_wait ops h w = (x3, w') \<Longrightarrow> delivered w \<subseteq> delivered w'"
    and "mq_is_published ops h w = (x4, w') \<Longrightarrow> delivered w \<subseteq> delivered w'"
    and "mq_publish ops t p b w = (Inr h, w1) \<Longrightarrow> mq_wait ops h w1 = (Inr u, w2) \<Longrightarrow>
      mq_is_published ops h w2 = (Inr True, w3) \<Longrightarrow> (t, p) \<in> delivered w3"
  using assms unfolding acknowledges_def by (metis snd_conv)+

lemma publish_wait_cases:
  assumes "acknowledges ops delivered" and "publish_wait ops t p b w = (r, w')"
  shows "delivered w \<subseteq> delivered w'
    \<and> (\<forall>h w3. r = Inr h \<longrightarrow> mq_is_published ops h w' = (Inr True, w3) \<longrightarrow> (t, p) \<in> delivered w3)"
proof -
  obtain x w1 where p: "mq_publish ops t p b w = (x, w1)" by fastforce
  note m1 = acknowledgesD(2) [OF assms(1) p]
  show ?thesis
  proof (cases x)
    case (Inl e)
    with assms(2) p m1 show ?thesis by (auto simp: publish_wait_def)
  next
    case (Inr h)
    obtain y w2 where q: "mq_wait ops h w1 = (y, w2)" by fastforce
    note m2 = acknowledgesD(3) [OF assms(1) q]
    show ?thesis
    proof (cases y)
      case (Inl e)
      with assms(2) p q Inr m1 m2 show ?thesis by (auto simp: publish_wait_def)
    next
      case y: (Inr u)
      with assms(2) p q Inr have "r = Inr h" "w' = w2" by (simp_all add: publish_wait_def)
      with acknowledgesD(5) [OF assms(1) p [unfolded Inr] q [unfolded y]] m1 m2 show ?thesis by auto
    qed
  qed
qed

section \<open>The flush over any FIFO queue\<close>

context fifo_queue
begin

text \<open>One row: either the queue keeps it, or it has been taken off and the broker has it.\<close>

lemma flush_one_cases:
  assumes "acknowledges ops delivered" and "valid q" and "items q = (i, t, p) # rest"
    and "flush_one ops remove (i, t, p) (q, st, w) = (r, (q', st', w'))"
  shows "valid q' \<and> delivered w \<subseteq> delivered w' \<and> as_mqtt_connected st' = as_mqtt_connected st
    \<and> (if r = Inr True then items q' = rest \<and> (t, p) \<in> delivered w' else items q' = items q)"
proof -
  obtain x w1 where pw: "publish_wait ops t p False w = (x, w1)" by fastforce
  note pc = publish_wait_cases [OF assms(1) pw]
  show ?thesis
  proof (cases x)
    case (Inl e)
    with assms pw pc show ?thesis by (auto simp: flush_one_def split: if_splits)
  next
    case x: (Inr h)
    obtain y w2 where ip: "mq_is_published ops h w1 = (y, w2)" by fastforce
    note m2 = acknowledgesD(4) [OF assms(1) ip]
    show ?thesis
    proof (cases "mq_rc ops h w1 = 0 \<and> y = Inr True")
      case False
      then show ?thesis using assms(2-4) pw pc x ip m2
        by (auto simp: flush_one_def split: if_splits sum.splits bool.splits)
    next
      case True
      obtain z q1 where rm: "remove i q = (z, q1)" by fastforce
      obtain t0 stamp w3 where nw: "op_now ops w2 = ((t0, stamp), w3)" by (metis surj_pair)
      note m3 = acknowledgesD(1) [OF assms(1) nw]
      have dl: "(t, p) \<in> delivered w2" using pc x True ip by auto
      show ?thesis
      proof (cases z)
        case (Inl e)
        with remove_error [OF assms(2)] rm have k: "valid q1 \<and> items q1 = items q" by simp
        from assms(4) pw x ip True rm Inl have "r = Inl e" "q' = q1" "st' = st" "w' = w2"
          by (simp_all add: flush_one_def)
        with k pc m2 show ?thesis by auto
      next
        case (Inr u)
        with remove_first [OF assms(2,3)] rm have k: "valid q1 \<and> items q1 = rest" by simp
        from assms(4) pw x ip True rm Inr nw have "r = Inr True" "q' = q1" "w' = w3"
          "st' = st\<lparr>as_last_publish_at := Some stamp\<rparr>" by (simp_all add: flush_one_def)
        with k pc m2 m3 dl show ?thesis by auto
      qed
    qed
  qed
qed

lemma flush_rows_cases:
  assumes "acknowledges ops delivered" and "valid q" and "items q = rows @ rest"
    and "flush_rows ops remove rows (q, st, w) = (r, (q', st', w'))"
  shows "valid q' \<and> delivered w \<subseteq> delivered w' \<and> as_mqtt_connected st' = as_mqtt_connected st \<and> (\<exists>k \<le> length rows. items q' = drop k (items q)
    \<and> snd ` set (take k rows) \<subseteq> delivered w' \<and> (r = Inr True \<longrightarrow> k = length rows))"
  using assms(2-4)
proof (induction rows arbitrary: q st w)
  case (Cons row rows)
  obtain i t p where row: "row = (i, t, p)" by (cases row)
  obtain x q1 st1 w1 where one: "flush_one ops remove row (q, st, w) = (x, (q1, st1, w1))"
    by (metis surj_pair)
  from Cons.prems(2) row have "items q = (i, t, p) # (rows @ rest)" by simp
  note c = flush_one_cases [OF assms(1) Cons.prems(1) this one [unfolded row]]
  show ?case
  proof (cases "x = Inr True")
    case False
    with Cons.prems(3) one have "(r, (q', st', w')) = (x, (q1, st1, w1))"
      by (auto split: sum.splits bool.splits)
    with False c show ?thesis by (intro conjI exI [of _ 0]) auto
  next
    case True
    with Cons.prems(3) one have run: "flush_rows ops remove rows (q1, st1, w1) = (r, (q', st', w'))" by simp
    from c True have q1: "valid q1" "items q1 = rows @ rest" "(t, p) \<in> delivered w1"
      "as_mqtt_connected st1 = as_mqtt_connected st" by auto
    from Cons.IH [OF q1(1,2) run] obtain k where k: "valid q'" "delivered w1 \<subseteq> delivered w'"
      "k \<le> length rows" "items q' = drop k (items q1)" "snd ` set (take k rows) \<subseteq> delivered w'"
      "r = Inr True \<longrightarrow> k = length rows" "as_mqtt_connected st' = as_mqtt_connected st1" by blast
    have "items q' = drop (Suc k) (items q)" using k(4) q1(2) Cons.prems(2) row by simp
    moreover have "snd ` set (take (Suc k) (row # rows)) \<subseteq> delivered w'" using k(2,5) q1(3) row by auto
    moreover have "delivered w \<subseteq> delivered w'" using c k(2) by blast
    ultimately show ?thesis using k q1(4) by (intro conjI exI [of _ "Suc k"]) auto
  qed
qed auto

lemma flush_with_cases:
  assumes "acknowledges ops delivered" and "valid q"
    and "flush_with ops head remove (q, st, w) = (r, (q', st', w'))"
  shows "valid q' \<and> delivered w \<subseteq> delivered w' \<and> as_mqtt_connected st' = as_mqtt_connected st
    \<and> (\<exists>k. items q' = drop k (items q) \<and> snd ` set (take k (items q)) \<subseteq> delivered w')"
proof (cases "as_mqtt_connected st")
  case False
  with assms show ?thesis by (auto simp: flush_with_def intro!: exI [of _ 0])
next
  case True
  obtain x q1 where h: "head q = (x, q1)" by fastforce
  note k = head_keeps [OF assms(2) h]
  show ?thesis
  proof (cases x)
    case (Inl e)
    with True h k assms show ?thesis by (auto simp: flush_with_def intro!: exI [of _ 0])
  next
    case (Inr rows)
    with head_prefix [OF assms(2)] h obtain n where n: "rows = take n (items q)" by blast
    then have app: "items q1 = rows @ drop n (items q)" using k by simp
    have run: "flush_rows ops remove rows (q1, st, w) = (r, (q', st', w'))"
      using assms(3) True h Inr by (simp add: flush_with_def)
    from k have v: "valid q1" by simp
    from flush_rows_cases [OF assms(1) v app run] obtain j where
      j: "valid q'" "delivered w \<subseteq> delivered w'" "j \<le> length rows" "items q' = drop j (items q1)"
      "snd ` set (take j rows) \<subseteq> delivered w'" "as_mqtt_connected st' = as_mqtt_connected st" by blast
    have "j \<le> n" using j(3) n by auto
    then have "take j rows = take j (items q)" using n by (simp add: min_def)
    with j k show ?thesis by auto
  qed
qed

end

section \<open>No accepted record is lost\<close>

text \<open>
  The life of a node as a step relation: records are published or queued, the queue is flushed, the
  connection comes and goes, the environment moves, the agent is restarted on its database. A
  state carries the records whose insertion has returned, as the caller handed them in.
\<close>

record 'w node =
  nd_queue :: offline_queue
  nd_state :: agent_state
  nd_world :: 'w
  nd_accepted :: "telemetry list"

abbreviation queue_rows :: "offline_queue \<Rightarrow> queue_row list" where
  "queue_rows q \<equiv> qd_rows (cn_db (oq_store q))"

definition row_message :: "queue_row \<Rightarrow> string \<times> json" where
  "row_message r = (qr_topic r, qr_payload r)"

definition payloads :: "offline_queue \<Rightarrow> (string \<times> json) set" where
  "payloads q = snd ` set (queue_items q)"

lemma payloads_rows: "payloads q = row_message ` set (queue_rows q)"
  by (auto simp: payloads_def queue_items_def row_message_def image_image)

text \<open>
  \<open>carries cfg r m\<close>: the message \<open>m\<close> is the record \<open>r\<close> under the telemetry topic of the node; in an organization its
  document has the sequence number allocated for it. The insertion ignores a record whose event id is in the queue
  already, so the message found for an event id may be an earlier one: \<open>entrusted\<close> names the records, and the rows
  found at the start, that it can come from.
\<close>

definition carries :: "settings \<Rightarrow> telemetry \<Rightarrow> string \<times> json \<Rightarrow> bool" where
  "carries cfg r m \<longleftrightarrow> fst m = resolved_telemetry_topic cfg
     \<and> (if st_organization_id cfg = None then snd m = JObj (telemetry_dict r)
        else \<exists>n. snd m = JObj (dset ''node_sequence'' (JInt n) (telemetry_dict r)))"

definition entrusted :: "settings \<Rightarrow> queue_row list \<Rightarrow> telemetry list \<Rightarrow> string \<Rightarrow> string \<times> json \<Rightarrow> bool" where
  "entrusted cfg old accepted e m \<longleftrightarrow> (\<exists>r \<in> set accepted. tr_event_id r = e \<and> carries cfg r m)
     \<or> (\<exists>row \<in> set old. qr_event_id row = e \<and> row_message row = m)"

lemma entrusted_more: "entrusted cfg old accepted e m \<Longrightarrow> entrusted cfg old (accepted @ rs) e m"
  by (auto simp: entrusted_def)

inductive node_step :: "'w agent_ops \<Rightarrow> settings \<Rightarrow> 'w node \<Rightarrow> 'w node \<Rightarrow> bool" for ops cfg where
  persist: "persist_record ops cfg r (nd_queue n, nd_state n, nd_world n) = (res, (q, st, w)) \<Longrightarrow>
    node_step ops cfg n (n\<lparr>nd_queue := q, nd_state := st, nd_world := w, nd_accepted := nd_accepted n
      @ (case res of Inr _ \<Rightarrow> [r] | Inl _ \<Rightarrow> [])\<rparr>)"
| flush: "flush_queue ops (nd_queue n, nd_state n, nd_world n) = (res, (q, st, w)) \<Longrightarrow>
    node_step ops cfg n (n\<lparr>nd_queue := q, nd_state := st, nd_world := w\<rparr>)"
| connection: "node_step ops cfg n (n\<lparr>nd_state := (nd_state n)\<lparr>as_mqtt_connected := b\<rparr>\<rparr>)"
| restart: "queue_init t a d h (cn_db (oq_store (nd_queue n))) script = Inr q \<Longrightarrow>
    node_step ops cfg n (n\<lparr>nd_queue := q, nd_state := st\<rparr>)"
| depth: "health_depth (nd_queue n) = (res, q) \<Longrightarrow> node_step ops cfg n (n\<lparr>nd_queue := q\<rparr>)"
| sequence: "next_sequence stream (nd_queue n) = (res, q) \<Longrightarrow> node_step ops cfg n (n\<lparr>nd_queue := q\<rparr>)"

inductive reaches :: "'w agent_ops \<Rightarrow> settings \<Rightarrow> 'w node \<Rightarrow> 'w node \<Rightarrow> bool" for ops cfg n where
  start: "reaches ops cfg n n"
| step: "reaches ops cfg n n1 \<Longrightarrow> node_step ops cfg n1 n2 \<Longrightarrow> reaches ops cfg n n2"

definition nothing_lost :: "settings \<Rightarrow> queue_row list \<Rightarrow> ('w \<Rightarrow> (string \<times> json) set) \<Rightarrow> 'w node \<Rightarrow> bool" where
  "nothing_lost cfg old delivered n \<longleftrightarrow> queue_ok (nd_queue n)
     \<and> (\<forall>row \<in> set (queue_rows (nd_queue n)). entrusted cfg old (nd_accepted n) (qr_event_id row) (row_message row))
     \<and> (\<forall>r \<in> set (nd_accepted n). \<exists>m \<in> payloads (nd_queue n) \<union> delivered (nd_world n).
          entrusted cfg old (nd_accepted n) (tr_event_id r) m)"

text \<open>An insertion that returns leaves a row with the event id of the record: a new one at the end, which carries the
  record, or the one that was there.\<close>

lemma persist_record_cases:
  assumes "acknowledges ops delivered" and "queue_ok q"
    and "persist_record ops cfg r (q, st, w) = (res, (q', st', w'))"
  shows "queue_ok q' \<and> st' = st \<and> delivered w \<subseteq> delivered w' \<and> (case res of
      Inl e \<Rightarrow> queue_rows q' = queue_rows q
    | Inr u \<Rightarrow> \<exists>row \<in> set (queue_rows q'). qr_event_id row = tr_event_id r
        \<and> (queue_rows q' = queue_rows q \<or> queue_rows q' = queue_rows q @ [row] \<and> carries cfg r (row_message row)))"
proof -
  obtain t0 stamp w1 where nw: "op_now ops w = ((t0, stamp), w1)" by (metis surj_pair)
  have w': "w' = w1" "st' = st" using assms(3) nw
    by (auto simp: persist_record_def Let_def split: prod.splits if_splits)
  have q': "queue_ok q' \<and> (case res of Inl e \<Rightarrow> queue_rows q' = queue_rows q
    | Inr u \<Rightarrow> \<exists>row \<in> set (queue_rows q'). qr_event_id row = tr_event_id r
        \<and> (queue_rows q' = queue_rows q \<or> queue_rows q' = queue_rows q @ [row] \<and> carries cfg r (row_message row)))"
  proof (cases "st_organization_id cfg = None")
    case True
    with assms(3) nw have run: "enqueue stamp (resolved_telemetry_topic cfg) (JObj (telemetry_dict r))
        (tr_event_id r) q = (res, q')" by (auto simp: persist_record_def Let_def split: prod.splits)
    show ?thesis
    proof (cases "find_event (tr_event_id r) (cn_db (oq_store q))")
      case None
      with enqueue_run [OF assms(2) run] True show ?thesis
        by (cases res) (auto simp: insert_row_def Let_def carries_def row_message_def)
    next
      case (Some row)
      with enqueue_run [OF assms(2) run] find_event_Some [OF Some] show ?thesis by (cases res) auto
    qed
  next
    case False
    obtain x q1 where run: "enqueue_with_sequence stamp (resolved_telemetry_topic cfg) (telemetry_dict r)
        (tr_event_id r) ''telemetry'' q = (x, q1)" by fastforce
    then have res: "q' = q1" "res = (case x of Inl e \<Rightarrow> Inl e | Inr d \<Rightarrow> Inr ())" using assms(3) nw False
      by (auto simp: persist_record_def Let_def split: prod.splits sum.splits)
    show ?thesis
    proof (cases x)
      case (Inl e)
      with enqueue_seq_run [OF assms(2) run] res show ?thesis by simp
    next
      case (Inr doc)
      let ?d = "cn_db (oq_store q)"
      from enqueue_seq_run [OF assms(2) run] Inr obtain gap s where ok: "queue_ok q1" and
        op: "enqueue_with_sequence_op (resolved_telemetry_topic cfg) (telemetry_dict r) (tr_event_id r) s stamp gap ?d
          = (Inr doc, cn_db (oq_store q1))" by auto
      show ?thesis
      proof (cases "find_event (tr_event_id r) ?d")
        case (Some row)
        with op ok res Inr find_event_Some [OF Some] show ?thesis by (auto simp: enqueue_with_sequence_op_def)
      next
        case None
        obtain y d1 where ns: "next_sequence_in_transaction s ?d = (y, d1)" by fastforce
        have "qd_rows d1 = qd_rows ?d" using next_sequence_ok [OF _ ns] assms(2) by (simp add: queue_ok_def)
        moreover obtain n where "doc = JObj (dset ''node_sequence'' (JInt n) (telemetry_dict r))"
            "cn_db (oq_store q1) = insert_row (tr_event_id r) (resolved_telemetry_topic cfg) doc stamp gap d1"
          using op None ns by (cases y) (auto simp: enqueue_with_sequence_op_def Let_def)
        ultimately show ?thesis using ok res Inr False
          by (auto simp: insert_row_def Let_def carries_def row_message_def)
      qed
    qed
  qed
  with w' acknowledgesD(1) [OF assms(1) nw] show ?thesis by simp
qed

text \<open>A flush removes rows and does nothing else to the table.\<close>

lemma delete_rows:
  assumes "queue_ok q" and "delete i q = (r, q')"
  shows "queue_ok q' \<and> set (queue_rows q') \<subseteq> set (queue_rows q)"
  using with_store_run [OF assms(1) assms(2) [unfolded delete_def] delete_op_keeps]
  by (cases r) (auto simp: delete_op_def dest!: sym [of "_\<lparr>qd_rows := _\<rparr>"])

lemma flush_rows_subset:
  "queue_ok q \<Longrightarrow> flush_rows ops delete rows (q, st, w) = (r, (q', st', w')) \<Longrightarrow> set (queue_rows q') \<subseteq> set (queue_rows q)"
proof (induction rows arbitrary: q st w)
  case (Cons row rows)
  obtain x q1 st1 w1 where one: "flush_one ops delete row (q, st, w) = (x, (q1, st1, w1))" by (metis surj_pair)
  then have "q1 = q \<or> (\<exists>i z. delete i q = (z, q1))"
    by (auto simp: flush_one_def split: prod.splits sum.splits if_splits bool.splits)
  then have q1: "queue_ok q1 \<and> set (queue_rows q1) \<subseteq> set (queue_rows q)" using Cons.prems(1) delete_rows by blast
  show ?case
  proof (cases "x = Inr True")
    case True
    with Cons.prems(2) one have "flush_rows ops delete rows (q1, st1, w1) = (r, (q', st', w'))" by simp
    with Cons.IH [of q1] q1 show ?thesis by blast
  next
    case False
    with Cons.prems(2) one have "q' = q1" by (auto split: sum.splits bool.splits)
    with q1 show ?thesis by simp
  qed
qed simp

lemma flush_queue_rows:
  assumes "queue_ok q" and "flush_queue ops (q, st, w) = (r, (q', st', w'))"
  shows "set (queue_rows q') \<subseteq> set (queue_rows q)"
proof -
  obtain x q1 where o: "oldest 100 q = (x, q1)" by fastforce
  from with_store_run [OF assms(1) o [unfolded oldest_def] reads_keep(1)]
  have q1: "queue_ok q1" "queue_rows q1 = queue_rows q" by (auto simp: oldest_op_def split: sum.splits)
  from assms(2) o consider "q' = q" | "q' = q1" | rows where "flush_rows ops delete rows (q1, st, w) = (r, (q', st', w'))"
    by (auto simp: flush_queue_def flush_with_def split: if_splits sum.splits)
  then show ?thesis
  proof cases
    case 3
    from flush_rows_subset [OF q1(1) this] q1(2) show ?thesis by simp
  qed (use q1(2) in simp_all)
qed

lemma queue_init_db:
  assumes "queue_init t a d h db script = Inr q" and "queue_db_ok db"
  shows "queue_ok q \<and> cn_db (oq_store q) = db"
proof -
  from assms(1) obtain st where i: "store_init t a d h db script = Inr st"
    by (cases "store_init t a d h db script") (simp_all add: queue_init_def)
  obtain x st' where x: "retry_busy ''initialize'' initialize_op st = (x, st')" by fastforce
  from assms(1) i x obtain n where n: "x = Inr n" and q: "q = \<lparr>oq_store = st', oq_last_known_size = n\<rparr>"
    by (cases x) (simp_all add: queue_init_def)
  note r = x [unfolded n]
  have "cn_db st = db" using i by (auto simp: store_init_def split: if_splits)
  moreover have "cn_db st' = cn_db st" using retry_busy_once [OF r] by (auto simp: initialize_op_def)
  ultimately show ?thesis
    using retry_busy_counters [OF store_init_ok [OF i] r] assms(2) q by (simp add: queue_ok_def)
qed

lemma health_depth_db: "health_depth q = (r, q') \<Longrightarrow> cn_db (oq_store q') = cn_db (oq_store q)
    \<and> (counters_ok (oq_store q) \<longrightarrow> counters_ok (oq_store q'))"
  by (auto simp: health_depth_def read_health_depth_def with_store_def run_operation_def next_attempt_def
      size_op_def counters_ok_def split: list.splits attempt.splits if_splits)

lemma next_sequence_rows:
  assumes "queue_ok q" and "next_sequence stream q = (r, q')"
  shows "queue_ok q' \<and> queue_rows q' = queue_rows q"
proof (cases "lower (strip stream) = []")
  case True
  with assms show ?thesis by (auto simp: next_sequence_def Let_def)
next
  case False
  let ?op = "\<lambda>gap. next_sequence_in_transaction (lower (strip stream))"
  have run: "with_store (retry_busy ''next_sequence'' ?op (oq_store q)) q = (r, q')"
    using assms(2) False by (simp add: next_sequence_def Let_def)
  note w = with_store_run [OF assms(1) run next_sequence_keeps]
  show ?thesis
  proof (cases r)
    case (Inl e)
    with w show ?thesis by (simp)
  next
    case (Inr a)
    with w have "next_sequence_in_transaction (lower (strip stream)) (cn_db (oq_store q))
        = (Inr a, cn_db (oq_store q'))" by auto
    from next_sequence_ok [OF _ this] assms(1) w show ?thesis by (simp add: queue_ok_def)
  qed
qed

lemma nothing_lost_rows:
  assumes "nothing_lost cfg old delivered n" and "queue_ok (nd_queue n')" and "queue_rows (nd_queue n') = queue_rows (nd_queue n)"
    and "nd_accepted n' = nd_accepted n" and "nd_world n' = nd_world n"
  shows "nothing_lost cfg old delivered n'"
  using assms by (simp add: nothing_lost_def payloads_rows)

lemma node_step_keeps:
  assumes "acknowledges ops delivered" and "nothing_lost cfg old delivered n" and "node_step ops cfg n n'"
  shows "nothing_lost cfg old delivered n'"
  using assms(3)
proof cases
  case (persist r res q st w)
  have ok: "queue_ok (nd_queue n)" using assms(2) by (simp add: nothing_lost_def)
  note p = persist_record_cases [OF assms(1) ok persist(2)]
  show ?thesis
  proof (cases res)
    case (Inl e)
    with p have "payloads (nd_queue n) \<union> delivered (nd_world n) \<subseteq> payloads q \<union> delivered w" by (auto simp: payloads_rows)
    then have "\<forall>x \<in> set (nd_accepted n). \<exists>m \<in> payloads q \<union> delivered w. entrusted cfg old (nd_accepted n) (tr_event_id x) m"
      using assms(2) unfolding nothing_lost_def by blast
    with Inl p assms(2) show ?thesis unfolding persist(1) by (simp add: nothing_lost_def)
  next
    case (Inr u)
    let ?acc = "nd_accepted n @ [r]"
    note more = entrusted_more [of cfg old "nd_accepted n" _ _ "[r]"]
    from p Inr obtain row where row: "row \<in> set (queue_rows q)" "qr_event_id row = tr_event_id r"
      "queue_rows q = queue_rows (nd_queue n) \<or> queue_rows q = queue_rows (nd_queue n) @ [row] \<and> carries cfg r (row_message row)"
      by auto
    have rows: "entrusted cfg old ?acc (qr_event_id x) (row_message x)" if x: "x \<in> set (queue_rows q)" for x
    proof (cases "x \<in> set (queue_rows (nd_queue n))")
      case True
      with assms(2) show ?thesis by (auto simp: nothing_lost_def intro: more)
    next
      case False
      with x row show ?thesis by (auto simp: entrusted_def)
    qed
    have "set (queue_rows (nd_queue n)) \<subseteq> set (queue_rows q)" using row(3) by auto
    then have pay: "payloads (nd_queue n) \<subseteq> payloads q" by (auto simp: payloads_rows)
    have "\<exists>m \<in> payloads q \<union> delivered w. entrusted cfg old ?acc (tr_event_id x) m" if x: "x \<in> set ?acc" for x
    proof (cases "x = r")
      case True
      with rows [OF row(1)] row(1,2) show ?thesis by (auto simp: payloads_rows)
    next
      case False
      with x have "x \<in> set (nd_accepted n)" by simp
      with assms(2) obtain m where "m \<in> payloads (nd_queue n) \<union> delivered (nd_world n)"
        "entrusted cfg old (nd_accepted n) (tr_event_id x) m" unfolding nothing_lost_def by blast
      with pay p more show ?thesis by blast
    qed
    with rows p Inr show ?thesis unfolding persist(1) nothing_lost_def by simp
  qed
next
  case (flush res q st w)
  have ok: "queue_ok (nd_queue n)" using assms(2) by (simp add: nothing_lost_def)
  from offline.flush_with_cases [OF assms(1) ok flush(2) [unfolded flush_queue_def]] obtain k where
    k: "queue_ok q" "delivered (nd_world n) \<subseteq> delivered w" "queue_items q = drop k (queue_items (nd_queue n))"
      "snd ` set (take k (queue_items (nd_queue n))) \<subseteq> delivered w" by blast
  have "set (queue_items (nd_queue n)) = set (take k (queue_items (nd_queue n))) \<union> set (queue_items q)"
    unfolding k(3) by (metis append_take_drop_id set_append)
  then have "payloads (nd_queue n) \<subseteq> payloads q \<union> delivered w" using k(4) by (auto simp: payloads_def)
  then have "payloads (nd_queue n) \<union> delivered (nd_world n) \<subseteq> payloads q \<union> delivered w" using k(2) by blast
  then have "\<forall>x \<in> set (nd_accepted n). \<exists>m \<in> payloads q \<union> delivered w. entrusted cfg old (nd_accepted n) (tr_event_id x) m"
    using assms(2) unfolding nothing_lost_def by blast
  with assms(2) k(1) flush_queue_rows [OF ok flush(2)] show ?thesis
    unfolding flush(1) by (auto simp: nothing_lost_def)
next
  case (connection b)
  with assms(2) show ?thesis by (simp add: nothing_lost_def)
next
  case (restart t a d h script q st)
  have "queue_db_ok (cn_db (oq_store (nd_queue n)))" using assms(2) by (simp add: nothing_lost_def queue_ok_def)
  from queue_init_db [OF restart(2) this] nothing_lost_rows [OF assms(2), of n'] show ?thesis
    unfolding restart(1) by simp
next
  case (depth res q)
  from health_depth_db [OF depth(2)] assms(2) nothing_lost_rows [OF assms(2), of n'] show ?thesis
    unfolding depth(1) by (simp add: nothing_lost_def queue_ok_def)
next
  case (sequence stream res q)
  have "queue_ok (nd_queue n)" using assms(2) by (simp add: nothing_lost_def)
  from next_sequence_rows [OF this sequence(2)] nothing_lost_rows [OF assms(2), of n'] show ?thesis
    unfolding sequence(1) by simp
qed

lemma reaches_keeps:
  "reaches ops cfg n n' \<Longrightarrow> acknowledges ops delivered \<Longrightarrow> nothing_lost cfg old delivered n \<Longrightarrow> nothing_lost cfg old delivered n'"
  by (induction rule: reaches.induct) (auto intro: node_step_keeps)

text \<open>A queue on which nothing has been accepted yet.\<close>

lemma nothing_lost_start:
  "queue_ok (nd_queue n) \<Longrightarrow> nd_accepted n = [] \<Longrightarrow> nothing_lost cfg (queue_rows (nd_queue n)) delivered n"
  by (auto simp: nothing_lost_def entrusted_def)

section \<open>A simulated broker for the witnesses\<close>

text \<open>The world is the list of messages the broker has; every publication is acknowledged.\<close>

definition sim_broker :: "(string \<times> json) list agent_ops" where
  "sim_broker = \<lparr>op_uuid4 = (\<lambda>w. (''00000000-0000-4000-8000-000000000000'', w)),
     op_now = (\<lambda>w. ((0, ''1970-01-01T00:00:00+00:00''), w)), op_clock = (\<lambda>w. (0, w)),
     op_uniform = (\<lambda>a b w. (a, w)), mq_publish = (\<lambda>t p b w. (Inr 0, w @ [(t, p)])),
     mq_wait = (\<lambda>h w. (Inr (), w)), mq_rc = (\<lambda>h w. 0), mq_is_published = (\<lambda>h w. (Inr True, w)),
     mq_will_set = (\<lambda>t p w. w)\<rparr>"

lemma sim_broker_acknowledges: "acknowledges sim_broker set"
  by (auto simp: acknowledges_def sim_broker_def)

definition connected_state :: agent_state where
  "connected_state = \<lparr>as_started_at = (0, ''1970-01-01T00:00:00+00:00''), as_mqtt_connected = True,
     as_last_sample_at = None, as_last_publish_at = None, as_last_error = None, as_samples_total = 0\<rparr>"

definition one_row_queue :: offline_queue where
  "one_row_queue = snd (enqueue ''t0'' ''topic'' JNull ''e1'' (fresh_queue []))"

lemma one_row_queue_ok: "queue_ok one_row_queue"
  and one_row_queue_items: "queue_items one_row_queue = [(1, ''topic'', JNull)]"
proof -
  obtain r q where run: "enqueue ''t0'' ''topic'' JNull ''e1'' (fresh_queue []) = (r, q)" by fastforce
  from enqueue_run [OF fresh_queue_ok run] run show "queue_ok one_row_queue" by (simp add: one_row_queue_def)
  show "queue_items one_row_queue = [(1, ''topic'', JNull)]"
    by (simp add: one_row_queue_def enqueue_def run_simps fresh_queue_def enqueue_op_def find_event_def
        insert_row_def queue_items_def numeral_3_eq_3)
qed

section \<open>Properties\<close>

text \<open>C29: Publishing is first in, first out, and a row leaves the queue only when the broker has it.
  Whatever happens during a flush, also an exception or a lock error in the middle, the queue afterwards is
  a suffix of the queue before, and every row that is gone has been acknowledged.\<close>

theorem flush_fifo_at_least_once:
  assumes "acknowledges ops delivered" and "queue_ok q"
    and "flush_queue ops (q, st, w) = (r, (q', st', w'))"
  shows "queue_ok q' \<and> (\<exists>k. queue_items q' = drop k (queue_items q)
    \<and> (\<forall>(i, t, p) \<in> set (take k (queue_items q)). (t, p) \<in> delivered w'))"
  using offline.flush_with_cases [OF assms(1,2) assms(3) [unfolded flush_queue_def]] by fastforce

theorem flush_fifo_at_least_once_witness:
  "\<exists>r q' st' w'. flush_queue sim_broker (one_row_queue, connected_state, []) = (r, (q', st', w'))
    \<and> queue_ok q'"
proof -
  obtain r q' st' w' where run: "flush_queue sim_broker (one_row_queue, connected_state, []) = (r, (q', st', w'))"
    by (metis surj_pair)
  from flush_fifo_at_least_once [OF sim_broker_acknowledges one_row_queue_ok run] run show ?thesis by blast
qed

text \<open>C28: No accepted record is lost. From a node with a valid queue, every sequence of insertions, flushes,
  connection changes, health probes, lock errors and restarts on the same database leads to a node where, for each
  record whose insertion returned, a message with its event id is still queued or has been acknowledged by the
  broker: it carries an accepted record with this id, or is a row with this id that was in the queue at the start. When
  event ids are not reused, each accepted record itself, its topic and all its fields, is queued or acknowledged.\<close>

theorem accepted_never_lost:
  assumes "acknowledges ops delivered" and "queue_ok (nd_queue n)" and "nd_accepted n = []"
    and "reaches ops cfg n n'"
  shows "queue_ok (nd_queue n')
    \<and> (\<forall>r \<in> set (nd_accepted n'). \<exists>m \<in> payloads (nd_queue n') \<union> delivered (nd_world n').
         entrusted cfg (queue_rows (nd_queue n)) (nd_accepted n') (tr_event_id r) m)
    \<and> (distinct (map tr_event_id (nd_accepted n'))
        \<and> set (map tr_event_id (nd_accepted n')) \<inter> set (map qr_event_id (queue_rows (nd_queue n))) = {}
       \<longrightarrow> (\<forall>r \<in> set (nd_accepted n'). \<exists>m \<in> payloads (nd_queue n') \<union> delivered (nd_world n'). carries cfg r m))"
proof -
  from reaches_keeps [OF assms(4,1) nothing_lost_start [OF assms(2,3)]]
  have nl: "nothing_lost cfg (queue_rows (nd_queue n)) delivered n'" .
  have "carries cfg r m" if d: "distinct (map tr_event_id (nd_accepted n'))"
      "set (map tr_event_id (nd_accepted n')) \<inter> set (map qr_event_id (queue_rows (nd_queue n))) = {}"
    and r: "r \<in> set (nd_accepted n')"
    and m: "entrusted cfg (queue_rows (nd_queue n)) (nd_accepted n') (tr_event_id r) m" for r m
  proof -
    have "\<forall>x \<in> set (nd_accepted n'). tr_event_id x = tr_event_id r \<longrightarrow> x = r"
      using d(1) r by (auto simp: distinct_map dest: inj_onD)
    moreover have "\<forall>x \<in> set (queue_rows (nd_queue n)). qr_event_id x \<noteq> tr_event_id r" using d(2) r by fastforce
    ultimately show ?thesis using m by (auto simp: entrusted_def)
  qed
  with nl show ?thesis unfolding nothing_lost_def by blast
qed

text \<open>A record that is accepted and delivered.\<close>

definition sim_record :: telemetry where
  "sim_record = \<lparr>tr_event_id = ''e2'', tr_node_id = ''edge-1'', tr_captured_at = ''1970-01-01T00:00:00+00:00'',
     tr_metric = ''temperature'', tr_value = Some 1, tr_unit = ''C'', tr_quality = ''valid'', tr_source = ''modbus'',
     tr_equipment_id = None, tr_channel_id = None, tr_alarm = None, tr_raw_value = None, tr_raw_status = None\<rparr>"

theorem accepted_never_lost_witness:
  "\<exists>n' :: (string \<times> json) list node. reaches sim_broker sample_settings
      \<lparr>nd_queue = one_row_queue, nd_state = connected_state, nd_world = [], nd_accepted = []\<rparr> n'
    \<and> nd_accepted n' = [sim_record]
    \<and> (\<exists>m \<in> payloads (nd_queue n') \<union> set (nd_world n'). carries sample_settings sim_record m)"
proof -
  let ?n = "\<lparr>nd_queue = one_row_queue, nd_state = connected_state, nd_world = [], nd_accepted = []\<rparr>
    :: (string \<times> json) list node"
  obtain res q st w where p: "persist_record sim_broker sample_settings sim_record (one_row_queue, connected_state, [])
      = (res, (q, st, w))" by (metis surj_pair)
  have "map_sum (\<lambda>_. ()) id (fst (persist_record sim_broker sample_settings sim_record (one_row_queue, connected_state, []))) = Inr ()"
    by code_simp
  with p have res: "res = Inr ()" by (cases res) simp_all
  obtain res2 q2 st2 w2 where f: "flush_queue sim_broker (q, st, w) = (res2, (q2, st2, w2))" by (metis surj_pair)
  let ?m = "?n\<lparr>nd_queue := q, nd_state := st, nd_world := w, nd_accepted := [sim_record]\<rparr>"
  let ?n2 = "?m\<lparr>nd_queue := q2, nd_state := st2, nd_world := w2\<rparr>"
  have "node_step sim_broker sample_settings ?n ?m"
    using node_step.persist [of sim_broker sample_settings sim_record ?n] p res by simp
  moreover have "node_step sim_broker sample_settings ?m ?n2" using node_step.flush [of sim_broker ?m] f by simp
  ultimately have re: "reaches sim_broker sample_settings ?n ?n2" by (blast intro: reaches.intros)
  have "map qr_event_id (queue_rows one_row_queue) = [''e1'']" by code_simp
  then have "''e2'' \<notin> set (map qr_event_id (queue_rows one_row_queue))" by simp
  with accepted_never_lost [OF sim_broker_acknowledges _ _ re] one_row_queue_ok
  have "\<exists>m \<in> payloads q2 \<union> set w2. carries sample_settings sim_record m" by (simp add: sim_record_def)
  with re show ?thesis by (intro exI [of _ ?n2]) simp
qed

end
