(* ===== verification/Sampling.thy ===== *)
theory Sampling
  imports Publishing Sdm120 Embraco Waveshare
begin

text \<open>
  One sampling cycle of \<open>DeviceAgent\<close> in \<open>services/device-agent/main.py\<close>: the readers its constructor
  sets up, the five \<open>_sample_*\<close> methods and \<open>sample_batch\<close>. The state is the Modbus client and the
  world; the lists \<open>records\<close> and \<open>errors\<close> that the methods extend are returned, and an exception that
  no handler names discards both, as it does in the code.
\<close>

section \<open>The readers\<close>

record readers =
  rd_client :: "client option"
  rd_xjp60d :: "xjp_reader option"
  rd_le01mp :: bool
  rd_sdm120 :: bool
  rd_waveshare :: bool
  rd_embraco :: "emb_reader option"

definition optional :: "bool \<Rightarrow> 'a result \<Rightarrow> 'a option result" where
  "optional b r = (if b then ebind r (\<lambda>a. Inr (Some a)) else Inr None)"

definition agent_readers :: "settings \<Rightarrow> readers result" where
  "agent_readers cfg =
     (let mode = st_device_mode cfg in
      ebind (optional (mode \<noteq> ''simulator'')
               (client_init (st_serial_device cfg) (st_serial_baudrate cfg) (st_serial_parity cfg)
                  (st_serial_stopbits cfg) (st_serial_timeout_seconds cfg) (st_serial_retries cfg)
                  False False False)) (\<lambda>client.
      ebind (optional (mode_uses_xjp60d mode \<and> st_xjp60d_points cfg \<noteq> [])
               (case client of None \<Rightarrow> Inl (RuntimeError ''Modbus client was not initialized'')
                | Some _ \<Rightarrow> xjp_reader_init (st_xjp60d_scale cfg) ''degC'')) (\<lambda>xjp.
      ebind (optional (mode_uses_embraco mode \<and> st_embraco_unit_ids cfg \<noteq> [])
               (case client of None \<Rightarrow> Inl (RuntimeError ''Modbus client was not initialized'')
                | Some _ \<Rightarrow> emb_reader_init (st_embraco_temperature_scale cfg) (st_embraco_control_scale cfg))) (\<lambda>emb.
      Inr \<lparr>rd_client = client, rd_xjp60d = xjp,
           rd_le01mp = (mode_uses_le01mp mode \<and> st_le01mp_unit_ids cfg \<noteq> []),
           rd_sdm120 = (mode_uses_sdm120 mode \<and> st_sdm120_unit_ids cfg \<noteq> []),
           rd_waveshare = (mode_uses_waveshare_8ai mode \<and> st_waveshare_8ai_unit_ids cfg \<noteq> []),
           rd_embraco = emb\<rparr>))))"

section \<open>One point\<close>

text \<open>\<open>except (ModbusError, OSError, RuntimeError)\<close>.\<close>

definition sample_caught :: "exn \<Rightarrow> bool" where
  "sample_caught e = (is_modbus_error e \<or> is_os_error e \<or> is_runtime_error e)"

definition sample_item ::
  "'w agent_ops \<Rightarrow> (client \<times> 'w, 'g) io \<Rightarrow> string \<Rightarrow> (string \<Rightarrow> telemetry) \<Rightarrow> ('g \<Rightarrow> string \<Rightarrow> telemetry)
     \<Rightarrow> (client \<times> 'w, telemetry \<times> string list) io" where
  "sample_item ops rd channel_id failed ok s =
     (case rd s of
        None \<Rightarrow> None
      | Some (Inl e, (c, w)) \<Rightarrow>
          if sample_caught e then
            (case op_uuid4 ops w of (u, w1) \<Rightarrow>
               Some (Inr (failed u, [channel_id @ '': '' @ exn_str e]), (c, w1)))
          else Some (Inl e, (c, w))
      | Some (Inr g, (c, w)) \<Rightarrow>
          (case op_uuid4 ops w of (u, w1) \<Rightarrow> Some (Inr (ok g u, []), (c, w1))))"

definition sample_each ::
  "('p \<Rightarrow> ('s, telemetry \<times> string list) io) \<Rightarrow> 'p list \<Rightarrow> ('s, telemetry list \<times> string list) io" where
  "sample_each f ps = ibind (imap f ps) (\<lambda>rs. iret (map fst rs, concat (map snd rs)))"

definition failed_record ::
  "settings \<Rightarrow> string \<Rightarrow> string \<Rightarrow> string \<Rightarrow> string \<Rightarrow> string \<Rightarrow> string \<Rightarrow> string \<Rightarrow> telemetry" where
  "failed_record cfg captured metric unit source equipment channel u =
     \<lparr>tr_event_id = u, tr_node_id = st_node_id cfg, tr_captured_at = captured, tr_metric = metric,
      tr_value = None, tr_unit = unit, tr_quality = ''communication_error'', tr_source = source,
      tr_equipment_id = Some equipment, tr_channel_id = Some channel, tr_alarm = None,
      tr_raw_value = None, tr_raw_status = None\<rparr>"

definition key_channel :: "int \<Rightarrow> string \<Rightarrow> string" where
  "key_channel unit_id key = dec unit_id @ ''-'' @ replace_char (CHR ''_'') (CHR ''-'') key"

section \<open>The five families\<close>

definition sample_xjp60d ::
  "'w agent_ops \<Rightarrow> 'w serial_ops \<Rightarrow> settings \<Rightarrow> readers \<Rightarrow> string \<Rightarrow> (client \<times> 'w, telemetry list \<times> string list) io" where
  "sample_xjp60d ops sops cfg rds captured =
     (if st_xjp60d_points cfg = [] then iret ([], [])
      else case rd_xjp60d rds of
        None \<Rightarrow> iraise (RuntimeError ''XJP60D reader was not initialized'')
      | Some reader \<Rightarrow> sample_each (\<lambda>(unit_id, channel).
          let equipment_id = ''K'' @ dec unit_id; channel_id = dec unit_id @ ''-'' @ dec02 channel in
          sample_item ops (xjp_read_channel (holding_register sops) reader unit_id channel) channel_id
            (failed_record cfg captured ''temperature.probe'' ''degC'' ''dixell-xjp60d'' equipment_id channel_id)
            (\<lambda>g u. \<lparr>tr_event_id = u, tr_node_id = st_node_id cfg, tr_captured_at = captured,
               tr_metric = ''temperature.probe'', tr_value = xr_value g, tr_unit = xr_unit g,
               tr_quality = xr_quality g, tr_source = ''dixell-xjp60d'',
               tr_equipment_id = Some equipment_id, tr_channel_id = Some channel_id,
               tr_alarm = xr_alarm g, tr_raw_value = Some (xr_raw_value g),
               tr_raw_status = Some (xr_raw_status g)\<rparr>)) (st_xjp60d_points cfg))"

definition sample_le01mp ::
  "'w agent_ops \<Rightarrow> 'w serial_ops \<Rightarrow> settings \<Rightarrow> readers \<Rightarrow> string \<Rightarrow> (client \<times> 'w, telemetry list \<times> string list) io" where
  "sample_le01mp ops sops cfg rds captured =
     (if st_le01mp_unit_ids cfg = [] then iret ([], [])
      else if \<not> rd_le01mp rds then iraise (RuntimeError ''LE-01MP reader was not initialized'')
      else sample_each (\<lambda>(unit_id, r).
          let equipment_id = ''LE01MP-'' @ dec unit_id; channel_id = key_channel unit_id (lr_key r) in
          sample_item ops (le_read_metric (holding_register sops) (holding_registers sops) unit_id (lr_key r)) channel_id
            (failed_record cfg captured (lr_metric r) (lr_unit r) ''f-and-f-le-01mp'' equipment_id channel_id)
            (\<lambda>g u. \<lparr>tr_event_id = u, tr_node_id = st_node_id cfg, tr_captured_at = captured,
               tr_metric = lg_metric g, tr_value = Some (lg_value g), tr_unit = lg_unit g,
               tr_quality = lg_quality g, tr_source = ''f-and-f-le-01mp'',
               tr_equipment_id = Some equipment_id, tr_channel_id = Some channel_id,
               tr_alarm = None, tr_raw_value = Some (lg_raw_value g), tr_raw_status = None\<rparr>))
        (List.product (st_le01mp_unit_ids cfg) le_registers))"

definition sample_sdm120 ::
  "'w agent_ops \<Rightarrow> 'w serial_ops \<Rightarrow> settings \<Rightarrow> readers \<Rightarrow> string \<Rightarrow> (client \<times> 'w, telemetry list \<times> string list) io" where
  "sample_sdm120 ops sops cfg rds captured =
     (if st_sdm120_unit_ids cfg = [] then iret ([], [])
      else if \<not> rd_sdm120 rds then iraise (RuntimeError ''SDM120 reader was not initialized'')
      else sample_each (\<lambda>(unit_id, r).
          let equipment_id = ''SDM120M-'' @ dec unit_id; channel_id = key_channel unit_id (sr_key r) in
          sample_item ops (sdm_read_metric (input_registers sops) unit_id (sr_key r)) channel_id
            (failed_record cfg captured (sr_metric r) (sr_unit r) ''eastron-sdm120m'' equipment_id channel_id)
            (\<lambda>g u. \<lparr>tr_event_id = u, tr_node_id = st_node_id cfg, tr_captured_at = captured,
               tr_metric = sg_metric g, tr_value = Some (sg_value g), tr_unit = sg_unit g,
               tr_quality = sg_quality g, tr_source = ''eastron-sdm120m'',
               tr_equipment_id = Some equipment_id, tr_channel_id = Some channel_id,
               tr_alarm = None, tr_raw_value = Some (sg_raw_value g), tr_raw_status = None\<rparr>))
        (List.product (st_sdm120_unit_ids cfg) sdm_registers))"

definition sample_waveshare_8ai ::
  "'w agent_ops \<Rightarrow> 'w serial_ops \<Rightarrow> settings \<Rightarrow> readers \<Rightarrow> string \<Rightarrow> (client \<times> 'w, telemetry list \<times> string list) io" where
  "sample_waveshare_8ai ops sops cfg rds captured =
     (if st_waveshare_8ai_unit_ids cfg = [] then iret ([], [])
      else if \<not> rd_waveshare rds then iraise (RuntimeError ''Waveshare 8AI reader was not initialized'')
      else sample_each (\<lambda>(unit_id, channel).
          let equipment_id = ''WAVESHARE-8AI-'' @ dec unit_id;
              channel_id = dec unit_id @ ''-ai-'' @ dec channel in
          sample_item ops (ws_read_channel (holding_registers sops) (input_registers sops) unit_id channel) channel_id
            (failed_record cfg captured ''analog.input'' ''raw'' ''waveshare-analog-input-8ch-b-v3''
               equipment_id channel_id)
            (\<lambda>g u. \<lparr>tr_event_id = u, tr_node_id = st_node_id cfg, tr_captured_at = captured,
               tr_metric = ''analog.input'', tr_value = Some (wr_value g), tr_unit = wr_unit g,
               tr_quality = wr_quality g, tr_source = ''waveshare-analog-input-8ch-b-v3'',
               tr_equipment_id = Some equipment_id, tr_channel_id = Some channel_id,
               tr_alarm = None, tr_raw_value = Some (wr_raw_value g), tr_raw_status = Some (wr_mode g)\<rparr>))
        (List.product (st_waveshare_8ai_unit_ids cfg) [1 .. channel_count]))"

definition sample_embraco ::
  "'w agent_ops \<Rightarrow> 'w serial_ops \<Rightarrow> settings \<Rightarrow> readers \<Rightarrow> string \<Rightarrow> (client \<times> 'w, telemetry list \<times> string list) io" where
  "sample_embraco ops sops cfg rds captured =
     (if st_embraco_unit_ids cfg = [] then iret ([], [])
      else case rd_embraco rds of
        None \<Rightarrow> iraise (RuntimeError ''Embraco Sync reader was not initialized'')
      | Some reader \<Rightarrow> sample_each (\<lambda>(unit_id, r).
          let equipment_id = ''EMBRACO-'' @ dec unit_id; channel_id = key_channel unit_id (er_key r) in
          sample_item ops (emb_read_metric (holding_register sops) reader unit_id (er_key r)) channel_id
            (failed_record cfg captured (er_metric r) (er_unit r) ''embraco-sync'' equipment_id channel_id)
            (\<lambda>g u. \<lparr>tr_event_id = u, tr_node_id = st_node_id cfg, tr_captured_at = captured,
               tr_metric = eg_metric g, tr_value = eg_value g, tr_unit = eg_unit g,
               tr_quality = eg_quality g, tr_source = ''embraco-sync'',
               tr_equipment_id = Some equipment_id, tr_channel_id = Some channel_id,
               tr_alarm = None, tr_raw_value = Some (eg_raw_value g), tr_raw_status = None\<rparr>))
        (List.product (st_embraco_unit_ids cfg) emb_registers))"

section \<open>The batch\<close>

definition now_text :: "'w agent_ops \<Rightarrow> ('c \<times> 'w, string) io" where
  "now_text ops = (\<lambda>(c, w). case op_now ops w of ((t, stamp), w1) \<Rightarrow> Some (Inr stamp, (c, w1)))"

definition simulated_record :: "'w agent_ops \<Rightarrow> settings \<Rightarrow> string \<Rightarrow> ('c \<times> 'w, telemetry) io" where
  "simulated_record ops cfg now = (\<lambda>(c, w).
     (case op_uuid4 ops w of (u, w1) \<Rightarrow>
     (case op_uniform ops 2 8 w1 of (x, w2) \<Rightarrow>
        Some (Inr \<lparr>tr_event_id = u, tr_node_id = st_node_id cfg, tr_captured_at = now,
           tr_metric = ''temperature.air'', tr_value = Some (py_round 2 x), tr_unit = ''degC'',
           tr_quality = ''valid'', tr_source = ''simulator'',
           tr_equipment_id = Some (''SIM-'' @ st_node_id cfg),
           tr_channel_id = Some ''ambient-temperature'', tr_alarm = None, tr_raw_value = None,
           tr_raw_status = None\<rparr>, (c, w2)))))"

definition when_mode ::
  "bool \<Rightarrow> ('s, telemetry list \<times> string list) io \<Rightarrow> ('s, telemetry list \<times> string list) io" where
  "when_mode b m = (if b then m else iret ([], []))"

text \<open>The families one after the other, extending the two lists.\<close>

fun gather :: "('s, telemetry list \<times> string list) io list \<Rightarrow> ('s, telemetry list \<times> string list) io" where
  "gather [] = iret ([], [])"
| "gather (m # ms) = ibind m (\<lambda>(r, e). ibind (gather ms) (\<lambda>(rs, es). iret (r @ rs, e @ es)))"

definition sample_batch ::
  "'w agent_ops \<Rightarrow> 'w serial_ops \<Rightarrow> settings \<Rightarrow> readers \<Rightarrow> (client \<times> 'w, telemetry list \<times> string option) io" where
  "sample_batch ops sops cfg rds =
     (let mode = st_device_mode cfg in
      if mode = ''simulator'' then
        ibind (now_text ops) (\<lambda>now. ibind (simulated_record ops cfg now) (\<lambda>r. iret ([r], None)))
      else
        ibind (now_text ops) (\<lambda>captured.
        ibind (gather [when_mode (mode_uses_xjp60d mode) (sample_xjp60d ops sops cfg rds captured),
                       when_mode (mode_uses_le01mp mode) (sample_le01mp ops sops cfg rds captured),
                       when_mode (mode_uses_sdm120 mode) (sample_sdm120 ops sops cfg rds captured),
                       when_mode (mode_uses_waveshare_8ai mode) (sample_waveshare_8ai ops sops cfg rds captured),
                       when_mode (mode_uses_embraco mode) (sample_embraco ops sops cfg rds captured)])
          (\<lambda>(records, errors).
          if records = [] then iraise (RuntimeError ''No Modbus telemetry sources are configured'')
          else iret (records, if errors \<noteq> [] then Some (join ''; '' errors) else None))))"

section \<open>The points of a batch\<close>

text \<open>The equipment and channel of every record the settings ask for, in the order of sampling.\<close>

definition keyed_points :: "string \<Rightarrow> int list \<Rightarrow> string list \<Rightarrow> (string \<times> string) list" where
  "keyed_points pfx units keys = map (\<lambda>(u, k). (pfx @ dec u, key_channel u k)) (List.product units keys)"

definition batch_points :: "settings \<Rightarrow> (string \<times> string) list" where
  "batch_points cfg =
     (let mode = st_device_mode cfg in
      (if mode_uses_xjp60d mode
       then map (\<lambda>(u, c). (''K'' @ dec u, dec u @ ''-'' @ dec02 c)) (st_xjp60d_points cfg) else [])
    @ (if mode_uses_le01mp mode then keyed_points ''LE01MP-'' (st_le01mp_unit_ids cfg) (map lr_key le_registers) else [])
    @ (if mode_uses_sdm120 mode then keyed_points ''SDM120M-'' (st_sdm120_unit_ids cfg) (map sr_key sdm_registers) else [])
    @ (if mode_uses_waveshare_8ai mode
       then map (\<lambda>(u, c). (''WAVESHARE-8AI-'' @ dec u, dec u @ ''-ai-'' @ dec c))
              (List.product (st_waveshare_8ai_unit_ids cfg) [1 .. channel_count]) else [])
    @ (if mode_uses_embraco mode then keyed_points ''EMBRACO-'' (st_embraco_unit_ids cfg) (map er_key emb_registers) else []))"

definition point_of :: "telemetry \<Rightarrow> string option \<times> string option" where
  "point_of r = (tr_equipment_id r, tr_channel_id r)"

text \<open>What one sampled point may look like.\<close>

definition point_ok :: "settings \<Rightarrow> string \<Rightarrow> string \<times> string \<Rightarrow> telemetry \<times> string list \<Rightarrow> bool" where
  "point_ok cfg captured p x = (point_of (fst x) = (Some (fst p), Some (snd p))
     \<and> tr_captured_at (fst x) = captured \<and> tr_node_id (fst x) = st_node_id cfg
     \<and> (snd x \<noteq> [] \<longrightarrow> tr_quality (fst x) = ''communication_error'' \<and> tr_value (fst x) = None
          \<and> tr_raw_value (fst x) = None))"

lemma sample_item_point:
  assumes "sample_item ops rd ch (failed_record cfg captured m u src eq ch) ok s = Some (Inr x, s')"
    and "\<And>g v. point_ok cfg captured (eq, ch) (ok g v, [])"
  shows "point_ok cfg captured (eq, ch) x"
proof -
  have "point_ok cfg captured (eq, ch) (failed_record cfg captured m u src eq ch v, l)" for v l
    by (simp add: point_ok_def failed_record_def point_of_def)
  with assms show ?thesis
    by (auto simp: sample_item_def split: option.splits prod.splits sum.splits if_splits)
qed

text \<open>The outcome of a family: one record per point in order, and an error text only with a
  communication error among the records.\<close>

definition points_ok :: "settings \<Rightarrow> string \<Rightarrow> (string \<times> string) list \<Rightarrow> telemetry list \<times> string list \<Rightarrow> bool" where
  "points_ok cfg captured ps x = (map point_of (fst x) = map (\<lambda>p. (Some (fst p), Some (snd p))) ps
     \<and> (\<forall>r \<in> set (fst x). tr_captured_at r = captured \<and> tr_node_id r = st_node_id cfg)
     \<and> (snd x \<noteq> [] \<longrightarrow> (\<exists>r \<in> set (fst x). tr_quality r = ''communication_error'' \<and> tr_value r = None)))"

lemma points_ok_append:
  "points_ok cfg cp ps (a, b) \<Longrightarrow> points_ok cfg cp qs (c, d) \<Longrightarrow> points_ok cfg cp (ps @ qs) (a @ c, b @ d)"
  by (auto simp: points_ok_def)

lemma points_ok_Nil: "points_ok cfg cp [] ([], [])"
  by (simp add: points_ok_def)

lemma sample_each_points:
  assumes "sample_each f ps s = Some (Inr x, s')"
    and "\<And>p y t t'. p \<in> set ps \<Longrightarrow> f p t = Some (Inr y, t') \<Longrightarrow> point_ok cfg cp (g p) y"
  shows "points_ok cfg cp (map g ps) x"
proof -
  from assms(1) obtain rs where rs: "imap f ps s = Some (Inr rs, s')"
    and x: "x = (map fst rs, concat (map snd rs))"
    by (auto simp: sample_each_def ibind_eq_Inr)
  have "list_all2 (\<lambda>p y. \<exists>t t'. f p t = Some (Inr y, t')) ps rs" using rs by (rule imap_Inr_list_all2)
  then have "list_all2 (\<lambda>p y. point_ok cfg cp (g p) y) ps rs"
    by (rule list.rel_mono_strong) (use assms(2) in blast)
  then have l: "length ps = length rs" and pt: "\<And>i. i < length ps \<Longrightarrow> point_ok cfg cp (g (ps ! i)) (rs ! i)"
    by (auto simp: list_all2_conv_all_nth)
  have "map point_of (map fst rs) = map (\<lambda>p. (Some (fst p), Some (snd p))) (map g ps)"
    using l pt by (intro nth_equalityI) (simp_all add: point_ok_def)
  moreover have "\<exists>i < length ps. y = rs ! i" if "y \<in> set rs" for y
    using that l by (metis in_set_conv_nth)
  then have ok: "\<exists>p. point_ok cfg cp p y" if "y \<in> set rs" for y
    using that pt by blast
  have "tr_captured_at r = cp \<and> tr_node_id r = st_node_id cfg" if "r \<in> fst ` set rs" for r
    using that ok by (auto simp: point_ok_def)
  moreover have "\<exists>r \<in> fst ` set rs. tr_quality r = ''communication_error'' \<and> tr_value r = None"
    if "concat (map snd rs) \<noteq> []"
  proof -
    from that obtain y where y: "y \<in> set rs" "snd y \<noteq> []" by auto
    from ok [OF y(1)] y show ?thesis by (auto simp: point_ok_def)
  qed
  ultimately show ?thesis unfolding points_ok_def x by simp
qed

lemmas sample_defs = sample_xjp60d_def sample_le01mp_def sample_sdm120_def sample_waveshare_8ai_def
  sample_embraco_def

lemma keyed_product:
  "keyed_points pfx units (map key rs) = map (\<lambda>(u, r). (pfx @ dec u, key_channel u (key r))) (List.product units rs)"
proof -
  have "List.product units (map key rs) = map (\<lambda>(u, r). (u, key r)) (List.product units rs)"
    by (induction units) (auto simp: comp_def)
  then show ?thesis by (simp add: keyed_points_def comp_def split_beta)
qed

lemma sample_xjp60d_points:
  assumes "sample_xjp60d ops sops cfg rds cp s = Some (Inr x, s')"
  shows "points_ok cfg cp (map (\<lambda>(u, c). (''K'' @ dec u, dec u @ ''-'' @ dec02 c)) (st_xjp60d_points cfg)) x"
proof (cases "st_xjp60d_points cfg = []")
  case True
  with assms show ?thesis by (simp add: sample_xjp60d_def points_ok_Nil)
next
  case False
  with assms obtain rd where "rd_xjp60d rds = Some rd"
    by (cases "rd_xjp60d rds") (simp_all add: sample_xjp60d_def)
  with assms False show ?thesis unfolding sample_xjp60d_def Let_def if_not_P [OF False]
    by (simp only: option.case) (erule sample_each_points, clarsimp, erule sample_item_point,
      simp add: point_ok_def point_of_def)
qed

lemma sample_le01mp_points:
  assumes "sample_le01mp ops sops cfg rds cp s = Some (Inr x, s')"
  shows "points_ok cfg cp (keyed_points ''LE01MP-'' (st_le01mp_unit_ids cfg) (map lr_key le_registers)) x"
proof (cases "st_le01mp_unit_ids cfg = []")
  case True
  with assms show ?thesis by (simp add: sample_le01mp_def points_ok_Nil keyed_points_def)
next
  case False
  with assms have "rd_le01mp rds" by (cases "rd_le01mp rds") (simp_all add: sample_le01mp_def)
  with assms False show ?thesis unfolding sample_le01mp_def Let_def if_not_P [OF False] keyed_product
    by (simp only: simp_thms if_False) (erule sample_each_points, clarsimp, erule sample_item_point,
      simp add: point_ok_def point_of_def)
qed

lemma sample_sdm120_points:
  assumes "sample_sdm120 ops sops cfg rds cp s = Some (Inr x, s')"
  shows "points_ok cfg cp (keyed_points ''SDM120M-'' (st_sdm120_unit_ids cfg) (map sr_key sdm_registers)) x"
proof (cases "st_sdm120_unit_ids cfg = []")
  case True
  with assms show ?thesis by (simp add: sample_sdm120_def points_ok_Nil keyed_points_def)
next
  case False
  with assms have "rd_sdm120 rds" by (cases "rd_sdm120 rds") (simp_all add: sample_sdm120_def)
  with assms False show ?thesis unfolding sample_sdm120_def Let_def if_not_P [OF False] keyed_product
    by (simp only: simp_thms if_False) (erule sample_each_points, clarsimp, erule sample_item_point,
      simp add: point_ok_def point_of_def)
qed

lemma sample_waveshare_8ai_points:
  assumes "sample_waveshare_8ai ops sops cfg rds cp s = Some (Inr x, s')"
  shows "points_ok cfg cp (map (\<lambda>(u, c). (''WAVESHARE-8AI-'' @ dec u, dec u @ ''-ai-'' @ dec c))
              (List.product (st_waveshare_8ai_unit_ids cfg) [1 .. channel_count])) x"
proof (cases "st_waveshare_8ai_unit_ids cfg = []")
  case True
  with assms show ?thesis by (simp add: sample_waveshare_8ai_def points_ok_Nil)
next
  case False
  with assms have "rd_waveshare rds" by (cases "rd_waveshare rds") (simp_all add: sample_waveshare_8ai_def)
  with assms False show ?thesis unfolding sample_waveshare_8ai_def Let_def if_not_P [OF False]
    by (simp only: simp_thms if_False) (erule sample_each_points, clarsimp, erule sample_item_point,
      simp add: point_ok_def point_of_def)
qed

lemma sample_embraco_points:
  assumes "sample_embraco ops sops cfg rds cp s = Some (Inr x, s')"
  shows "points_ok cfg cp (keyed_points ''EMBRACO-'' (st_embraco_unit_ids cfg) (map er_key emb_registers)) x"
proof (cases "st_embraco_unit_ids cfg = []")
  case True
  with assms show ?thesis by (simp add: sample_embraco_def points_ok_Nil keyed_points_def)
next
  case False
  with assms obtain rd where "rd_embraco rds = Some rd"
    by (cases "rd_embraco rds") (simp_all add: sample_embraco_def)
  with assms False show ?thesis unfolding sample_embraco_def Let_def if_not_P [OF False] keyed_product
    by (simp only: option.case) (erule sample_each_points, clarsimp, erule sample_item_point,
      simp add: point_ok_def point_of_def)
qed

lemma when_mode_points:
  assumes "when_mode b m s = Some (Inr x, s')" and "\<And>s s'. m s = Some (Inr x, s') \<Longrightarrow> points_ok cfg cp ps x"
  shows "points_ok cfg cp (if b then ps else []) x"
  using assms by (auto simp: when_mode_def points_ok_Nil)

lemma gather_points:
  assumes "gather ms s = Some (Inr x, s')"
    and "list_all2 (\<lambda>m ps. \<forall>t y t'. m t = Some (Inr y, t') \<longrightarrow> points_ok cfg cp ps y) ms pss"
  shows "points_ok cfg cp (concat pss) x"
  using assms(2,1)
proof (induction arbitrary: s x rule: list_all2_induct)
  case Nil
  then show ?case by (simp add: points_ok_Nil)
next
  case (Cons m ms ps pss)
  from Cons.prems obtain r e s1 rs es where m: "m s = Some (Inr (r, e), s1)"
    and ms: "gather ms s1 = Some (Inr (rs, es), s')" and x: "x = (r @ rs, e @ es)"
    by (auto simp: ibind_eq_Inr)
  from Cons.hyps(1) m have "points_ok cfg cp ps (r, e)" by blast
  from points_ok_append [OF this Cons.IH [OF ms]] x show ?case by simp
qed

lemma sample_batch_points:
  assumes "sample_batch ops sops cfg rds s = Some (Inr (records, err), s')"
    and "st_device_mode cfg \<noteq> ''simulator''"
  shows "\<exists>cp es. points_ok cfg cp (batch_points cfg) (records, es)
    \<and> err = (if es \<noteq> [] then Some (join ''; '' es) else None) \<and> records \<noteq> []"
proof -
  let ?m = "st_device_mode cfg"
  let ?ms = "\<lambda>cp. [when_mode (mode_uses_xjp60d ?m) (sample_xjp60d ops sops cfg rds cp),
     when_mode (mode_uses_le01mp ?m) (sample_le01mp ops sops cfg rds cp),
     when_mode (mode_uses_sdm120 ?m) (sample_sdm120 ops sops cfg rds cp),
     when_mode (mode_uses_waveshare_8ai ?m) (sample_waveshare_8ai ops sops cfg rds cp),
     when_mode (mode_uses_embraco ?m) (sample_embraco ops sops cfg rds cp)]"
  let ?fin = "\<lambda>(records :: telemetry list, errors).
     if records = [] then iraise (RuntimeError ''No Modbus telemetry sources are configured'')
     else iret (records, if errors \<noteq> [] then Some (join ''; '' errors) else None)"
  have "sample_batch ops sops cfg rds = ibind (now_text ops) (\<lambda>cp. ibind (gather (?ms cp)) ?fin)"
    unfolding sample_batch_def Let_def if_not_P [OF assms(2)] by (rule refl)
  with assms(1) obtain cp s0 where t: "ibind (gather (?ms cp)) ?fin s0 = Some (Inr (records, err), s')"
    by (simp only: ibind_eq_Inr) blast
  then obtain y s1 where g: "gather (?ms cp) s0 = Some (Inr y, s1)" and f: "?fin y s1 = Some (Inr (records, err), s')"
    by (simp only: ibind_eq_Inr) blast
  obtain rs es where y: "y = (rs, es)" by (cases y)
  have fin: "rs \<noteq> [] \<and> records = rs \<and> err = (if es \<noteq> [] then Some (join ''; '' es) else None)"
    using f unfolding y prod.case by (cases "rs = []") (simp_all only: if_True if_False iraise_eq iret_eq
        sum.distinct sum.inject prod.inject simp_thms)
  have "points_ok cfg cp (batch_points cfg) y"
    using gather_points [OF g, of cfg cp "[if mode_uses_xjp60d ?m then map (\<lambda>(u, c). (''K'' @ dec u, dec u @ ''-'' @ dec02 c)) (st_xjp60d_points cfg) else [],
      if mode_uses_le01mp ?m then keyed_points ''LE01MP-'' (st_le01mp_unit_ids cfg) (map lr_key le_registers) else [],
      if mode_uses_sdm120 ?m then keyed_points ''SDM120M-'' (st_sdm120_unit_ids cfg) (map sr_key sdm_registers) else [],
      if mode_uses_waveshare_8ai ?m then map (\<lambda>(u, c). (''WAVESHARE-8AI-'' @ dec u, dec u @ ''-ai-'' @ dec c))
              (List.product (st_waveshare_8ai_unit_ids cfg) [1 .. channel_count]) else [],
      if mode_uses_embraco ?m then keyed_points ''EMBRACO-'' (st_embraco_unit_ids cfg) (map er_key emb_registers) else []]"]
    unfolding batch_points_def Let_def concat.simps append_Nil2
    by (elim meta_mp) ((intro list_all2_Cons [THEN iffD2] conjI list_all2_Nil [THEN iffD2] allI impI;
      (erule when_mode_points, (erule sample_xjp60d_points | erule sample_le01mp_points
        | erule sample_sdm120_points | erule sample_waveshare_8ai_points | erule sample_embraco_points))?)+, rule refl)
  with fin y show ?thesis by blast
qed

section \<open>The points are distinct\<close>

lemma key_channel_inj:
  assumes "0 \<le> u" and "key_channel u k = key_channel u k'"
  shows "replace_char (CHR ''_'') (CHR ''-'') k = replace_char (CHR ''_'') (CHR ''-'') k'"
  using assms by (simp add: key_channel_def)

lemma distinct_keyed:
  assumes "distinct units" and "\<forall>u \<in> set units. 0 \<le> u"
    and "distinct (map (replace_char (CHR ''_'') (CHR ''-'')) keys)"
  shows "distinct (keyed_points pfx units keys)"
proof -
  have d: "distinct (List.product units keys)"
    using assms(1,3) by (intro distinct_product) (auto simp: distinct_map)
  have "inj_on (\<lambda>(u, k). (pfx @ dec u, key_channel u k)) (set (List.product units keys))"
  proof (rule inj_onI, clarsimp)
    fix u k u' k'
    assume m: "u \<in> set units" "k \<in> set keys" "u' \<in> set units" "k' \<in> set keys"
      and e: "dec u = dec u'" "key_channel u k = key_channel u' k'"
    have u: "u = u'" using e(1) m assms(2) dec_inj by blast
    with key_channel_inj [of u k k'] e(2) m(1) assms(2)
    have "replace_char (CHR ''_'') (CHR ''-'') k = replace_char (CHR ''_'') (CHR ''-'') k'" by blast
    with m assms(3) have "k = k'" by (auto simp: distinct_map dest: inj_onD)
    with u show "u = u' \<and> k = k'" by simp
  qed
  with d show ?thesis by (simp add: keyed_points_def distinct_map)
qed

lemma keys_distinct:
  "distinct (map (replace_char (CHR ''_'') (CHR ''-'')) (map lr_key le_registers))"
  "distinct (map (replace_char (CHR ''_'') (CHR ''-'')) (map sr_key sdm_registers))"
  "distinct (map (replace_char (CHR ''_'') (CHR ''-'')) (map er_key emb_registers))"
  by (simp_all add: le_registers_def le_reg_def sdm_registers_def sdm_reg_def emb_registers_def emb_reg_def
      replace_char_def)

text \<open>The first letter of the equipment tells the family.\<close>

definition family :: "string \<times> string \<Rightarrow> char" where
  "family p = hd (fst p)"

lemma family_keyed: "p \<in> set (keyed_points (c # pfx) us ks) \<Longrightarrow> family p = c"
  by (auto simp: keyed_points_def family_def)

definition polled_ok :: "settings \<Rightarrow> bool" where
  "polled_ok cfg = (distinct (st_xjp60d_points cfg) \<and> distinct (st_le01mp_unit_ids cfg)
     \<and> distinct (st_sdm120_unit_ids cfg) \<and> distinct (st_waveshare_8ai_unit_ids cfg)
     \<and> distinct (st_embraco_unit_ids cfg)
     \<and> (\<forall>(u, c) \<in> set (st_xjp60d_points cfg). 0 \<le> u \<and> 0 \<le> c)
     \<and> (\<forall>u \<in> set (st_le01mp_unit_ids cfg @ st_sdm120_unit_ids cfg @ st_waveshare_8ai_unit_ids cfg
          @ st_embraco_unit_ids cfg). 0 \<le> u))"

lemma distinct_families:
  assumes "distinct a" "distinct b" "\<And>p. p \<in> set a \<Longrightarrow> family p = c" "\<And>p. p \<in> set b \<Longrightarrow> family p \<in> C" "c \<notin> C"
  shows "distinct (a @ b) \<and> (\<forall>p \<in> set (a @ b). family p \<in> insert c C)"
proof -
  have "set a \<inter> set b = {}" using assms(3-5) by (metis disjoint_iff)
  with assms show ?thesis by auto
qed

lemma batch_points_distinct:
  assumes "polled_ok cfg"
  shows "distinct (batch_points cfg)"
proof -
  let ?m = "st_device_mode cfg"
  let ?A = "if mode_uses_xjp60d ?m then map (\<lambda>(u, c). (''K'' @ dec u, dec u @ ''-'' @ dec02 c)) (st_xjp60d_points cfg) else []"
  let ?B = "if mode_uses_le01mp ?m then keyed_points ''LE01MP-'' (st_le01mp_unit_ids cfg) (map lr_key le_registers) else []"
  let ?C = "if mode_uses_sdm120 ?m then keyed_points ''SDM120M-'' (st_sdm120_unit_ids cfg) (map sr_key sdm_registers) else []"
  let ?D = "if mode_uses_waveshare_8ai ?m then map (\<lambda>(u, c). (''WAVESHARE-8AI-'' @ dec u, dec u @ ''-ai-'' @ dec c))
              (List.product (st_waveshare_8ai_unit_ids cfg) [1 .. channel_count]) else []"
  let ?E = "if mode_uses_embraco ?m then keyed_points ''EMBRACO-'' (st_embraco_unit_ids cfg) (map er_key emb_registers) else []"
  have a: "distinct ?A" "\<And>p. p \<in> set ?A \<Longrightarrow> family p = CHR ''K''"
  proof -
    have "inj_on (\<lambda>(u, c). (''K'' @ dec u, dec u @ ''-'' @ dec02 c)) (set (st_xjp60d_points cfg))"
    proof (rule inj_onI, clarsimp)
      fix u c u' c' assume m: "(u, c) \<in> set (st_xjp60d_points cfg)" "(u', c') \<in> set (st_xjp60d_points cfg)"
        and e: "dec u = dec u'" "dec02 c = dec02 c'"
      have n: "0 \<le> u" "0 \<le> u'" "0 \<le> c" "0 \<le> c'" using m assms by (auto simp: polled_ok_def)
      from e n show "u = u' \<and> c = c'" using dec_inj dec02_inj by simp
    qed
    then show "distinct ?A" using assms by (simp add: polled_ok_def distinct_map)
    show "\<And>p. p \<in> set ?A \<Longrightarrow> family p = CHR ''K''" by (auto simp: family_def split: if_splits)
  qed
  have d: "distinct ?D" "\<And>p. p \<in> set ?D \<Longrightarrow> family p = CHR ''W''"
  proof -
    have "inj_on (\<lambda>(u, c). (''WAVESHARE-8AI-'' @ dec u, dec u @ ''-ai-'' @ dec c))
        (set (List.product (st_waveshare_8ai_unit_ids cfg) [1 .. channel_count]))"
    proof (rule inj_onI, clarsimp)
      fix u c u' c' assume m: "u \<in> set (st_waveshare_8ai_unit_ids cfg)" "u' \<in> set (st_waveshare_8ai_unit_ids cfg)"
        "(1::int) \<le> c" "1 \<le> c'" and e: "dec u = dec u'" "dec c = dec c'"
      have n: "0 \<le> u" "0 \<le> u'" "0 \<le> c" "0 \<le> c'" using m assms by (auto simp: polled_ok_def)
      from e n show "u = u' \<and> c = c'" using dec_inj by simp
    qed
    moreover have "distinct (List.product (st_waveshare_8ai_unit_ids cfg) [1 .. channel_count])"
      using assms by (intro distinct_product) (simp_all add: polled_ok_def)
    ultimately show "distinct ?D" by (simp add: distinct_map)
    show "\<And>p. p \<in> set ?D \<Longrightarrow> family p = CHR ''W''" by (auto simp: family_def split: if_splits)
  qed
  have b: "distinct ?B" "\<And>p. p \<in> set ?B \<Longrightarrow> family p = CHR ''L''"
    and c: "distinct ?C" "\<And>p. p \<in> set ?C \<Longrightarrow> family p = CHR ''S''"
    and e: "distinct ?E" "\<And>p. p \<in> set ?E \<Longrightarrow> family p = CHR ''E''"
    using assms keys_distinct by (auto simp: polled_ok_def intro!: distinct_keyed dest: family_keyed split: if_splits)
  have e': "\<And>p. p \<in> set ?E \<Longrightarrow> family p \<in> {CHR ''E''}" using e(2) by simp
  have de: "distinct (?D @ ?E) \<and> (\<forall>p \<in> set (?D @ ?E). family p \<in> {CHR ''W'', CHR ''E''})"
    by (rule distinct_families [OF d(1) e(1) d(2) e']) simp_all
  have cde: "distinct (?C @ ?D @ ?E) \<and> (\<forall>p \<in> set (?C @ ?D @ ?E). family p \<in> {CHR ''S'', CHR ''W'', CHR ''E''})"
    by (rule distinct_families [OF c(1) _ c(2), of "?D @ ?E"]) (use de in auto)
  have bcde: "distinct (?B @ ?C @ ?D @ ?E)
      \<and> (\<forall>p \<in> set (?B @ ?C @ ?D @ ?E). family p \<in> {CHR ''L'', CHR ''S'', CHR ''W'', CHR ''E''})"
    by (rule distinct_families [OF b(1) _ b(2), of "?C @ ?D @ ?E"]) (use cde in auto)
  have "distinct (?A @ ?B @ ?C @ ?D @ ?E)
      \<and> (\<forall>p \<in> set (?A @ ?B @ ?C @ ?D @ ?E). family p \<in> {CHR ''K'', CHR ''L'', CHR ''S'', CHR ''W'', CHR ''E''})"
    by (rule distinct_families [OF a(1) _ a(2), of "?B @ ?C @ ?D @ ?E"]) (use bcde in auto)
  then show ?thesis unfolding batch_points_def Let_def by blast
qed

lemma imap_stops:
  assumes "imap g xs s = Some (Inr d, s')" and "g y s' = Some (Inl e, s'')"
  shows "imap g (xs @ y # ys) s = Some (Inl e, s'')"
  using assms
proof (induction xs arbitrary: s d)
  case (Cons a xs)
  from Cons.prems(1) obtain b s3 bs where "g a s = Some (Inr b, s3)" "imap g xs s3 = Some (Inr bs, s')"
    by (auto simp: ibind_eq_Inr)
  with Cons.IH [OF this(2) Cons.prems(2)] show ?case by (simp add: ibind_def)
qed (simp add: ibind_def)

section \<open>A batch for the witnesses\<close>

definition quiet_ops :: "'w agent_ops" where
  "quiet_ops = \<lparr>op_uuid4 = (\<lambda>w. (''u'', w)), op_now = (\<lambda>w. ((0, ''now''), w)), op_clock = (\<lambda>w. (0, w)),
     op_uniform = (\<lambda>a b w. (a, w)), mq_publish = (\<lambda>t p b w. (Inr 0, w)), mq_wait = (\<lambda>h w. (Inr (), w)),
     mq_rc = (\<lambda>h w. 0), mq_is_published = (\<lambda>h w. (Inr True, w)), mq_will_set = (\<lambda>t p w. w)\<rparr>"

definition xjp_only :: readers where
  "xjp_only = \<lparr>rd_client = Some sim_client, rd_xjp60d = Some \<lparr>xj_scale = 1, xj_unit = ''degC''\<rparr>,
     rd_le01mp = False, rd_sdm120 = False, rd_waveshare = False, rd_embraco = None\<rparr>"

lemma sample_settings_mode: "st_device_mode sample_settings = ''xjp60d''"
  "st_xjp60d_points sample_settings = [(1, 2)]"
  by (simp_all add: sample_settings_def)

lemma batch_of_one:
  assumes "xjp_read_channel (holding_register sops) \<lparr>xj_scale = 1, xj_unit = ''degC''\<rparr> 1 2 (c, w) = Some (Inr x, (c', w'))"
  shows "\<exists>r s'. sample_batch quiet_ops sops sample_settings xjp_only (c, w) = Some (Inr ([r], None), s')"
  using assms
  by (simp add: sample_batch_def sample_settings_mode now_text_def quiet_ops_def ibind_def when_mode_def
      mode_uses_xjp60d_def mode_uses_le01mp_def mode_uses_sdm120_def mode_uses_waveshare_8ai_def
      mode_uses_embraco_def sample_xjp60d_def sample_each_def sample_item_def xjp_only_def iret_def Let_def)

section \<open>Properties\<close>

text \<open>A batch is complete. In every hardware mode a batch that is returned has exactly one record for
  each configured point, in the configured order, all with the node's id and the same capture time;
  no two of them share equipment and channel; and the batch reports an error only if a record is
  marked as a communication error and holds no value.\<close>

theorem batch_complete:
  assumes "sample_batch ops sops cfg rds s = Some (Inr (records, err), s')"
    and "st_device_mode cfg \<noteq> ''simulator''" and "polled_ok cfg"
  shows "map point_of records = map (\<lambda>(e, c). (Some e, Some c)) (batch_points cfg)
    \<and> distinct (map point_of records) \<and> records \<noteq> []
    \<and> (\<exists>captured. \<forall>r \<in> set records. tr_captured_at r = captured \<and> tr_node_id r = st_node_id cfg)
    \<and> (err \<noteq> None \<longrightarrow> (\<exists>r \<in> set records. tr_quality r = ''communication_error'' \<and> tr_value r = None))"
proof -
  from sample_batch_points [OF assms(1,2)] obtain cp es where
    p: "points_ok cfg cp (batch_points cfg) (records, es)"
    and err: "err = (if es \<noteq> [] then Some (join ''; '' es) else None)" and ne: "records \<noteq> []" by blast
  have m: "map point_of records = map (\<lambda>(e, c). (Some e, Some c)) (batch_points cfg)"
    using p by (simp add: points_ok_def case_prod_beta')
  have "inj_on (\<lambda>(e, c). (Some e, Some c)) (set (batch_points cfg))" by (auto intro: inj_onI)
  then have "distinct (map point_of records)"
    using batch_points_distinct [OF assms(3)] unfolding m distinct_map by blast
  moreover have "\<forall>r \<in> set records. tr_captured_at r = cp \<and> tr_node_id r = st_node_id cfg"
    using p by (simp add: points_ok_def)
  moreover have "err \<noteq> None \<longrightarrow> (\<exists>r \<in> set records. tr_quality r = ''communication_error'' \<and> tr_value r = None)"
    using p err by (auto simp: points_ok_def)
  ultimately show ?thesis using m ne by blast
qed

theorem batch_complete_witness:
  "\<exists>r s'. sample_batch quiet_ops (sim_ops (register_answer 1 3 [0xFFFE])) sample_settings xjp_only
      (sim_client, (0, [], [])) = Some (Inr ([r], None), s')
    \<and> tr_equipment_id r = Some (''K'' @ dec 1) \<and> tr_node_id r = ''edge-01''"
proof -
  let ?ops = "sim_ops (register_answer 1 3 [0xFFFE])"
  let ?r = "\<lparr>xj_scale = 1, xj_unit = ''degC''\<rparr>"
  have v: "in_word16 0xFFFE" by (simp add: in_word16_def)
  obtain c1 w1 where 1: "holding_register ?ops 1 258 (sim_client, (0, [], [])) = Some (Inr 0xFFFE, (c1, w1))"
    "sim_ready c1" using sim_holding [OF sim_client_ready v, of 1 258 "(0, [], [])"] by auto
  obtain c2 w2 where 2: "holding_register ?ops 1 259 (c1, w1) = Some (Inr 0xFFFE, (c2, w2))"
    using sim_holding [OF 1(2) v, of 1 259 w1] by auto
  obtain x where "xjp_decode_reading 1 2 0xFFFE 0xFFFE 1 ''degC'' = Inr x"
    using xjp_decode_words [OF v, of 1 2 1 "0xFFFE" "''degC''"] by (auto simp: probe_registers_def)
  with 1 2 have "xjp_read_channel (holding_register ?ops) ?r 1 2 (sim_client, (0, [], [])) = Some (Inr x, (c2, w2))"
    by (simp add: xjp_read_channel_def probe_registers_def ibind_def ilift_def)
  from batch_of_one [OF this] obtain r s' where
    run: "sample_batch quiet_ops ?ops sample_settings xjp_only (sim_client, (0, [], [])) = Some (Inr ([r], None), s')"
    by blast
  have ok: "polled_ok sample_settings" by (simp add: polled_ok_def sample_settings_def)
  have "batch_points sample_settings = [(''K'' @ dec 1, dec 1 @ ''-'' @ dec02 2)]"
    by (simp add: batch_points_def sample_settings_mode mode_uses_xjp60d_def mode_uses_le01mp_def
        mode_uses_sdm120_def mode_uses_waveshare_8ai_def mode_uses_embraco_def)
  with batch_complete [OF run _ ok] have "tr_equipment_id r = Some (''K'' @ dec 1)" "tr_node_id r = ''edge-01''"
    by (simp_all add: sample_settings_mode point_of_def) (simp add: sample_settings_def)
  with run show ?thesis by blast
qed

text \<open>A \<open>termios.error\<close> discards the batch. The client hands on the \<open>termios.error\<close> of a failing serial
  line as it hands on an \<open>OSError\<close>, but the handler of the sampling loop does not name it: whatever
  points were read before it, and however the sampling would go on, no record of the batch is returned.\<close>

theorem termios_error_discards_batch:
  assumes "st_device_mode cfg = ''xjp60d''" and "st_xjp60d_points cfg = ps @ (u, ch) # qs"
    and "rd_xjp60d rds = Some reader" and "op_now ops w0 = ((t, stamp), w1)"
    and "imap (\<lambda>(u, c). sample_item ops (xjp_read_channel (holding_register sops) reader u c) (dec u @ ''-'' @ dec02 c)
        (failed_record cfg stamp ''temperature.probe'' ''degC'' ''dixell-xjp60d'' (''K'' @ dec u) (dec u @ ''-'' @ dec02 c))
        (\<lambda>g v. \<lparr>tr_event_id = v, tr_node_id = st_node_id cfg, tr_captured_at = stamp,
               tr_metric = ''temperature.probe'', tr_value = xr_value g, tr_unit = xr_unit g,
               tr_quality = xr_quality g, tr_source = ''dixell-xjp60d'',
               tr_equipment_id = Some (''K'' @ dec u), tr_channel_id = Some (dec u @ ''-'' @ dec02 c),
               tr_alarm = xr_alarm g, tr_raw_value = Some (xr_raw_value g),
               tr_raw_status = Some (xr_raw_status g)\<rparr>)) ps (c, w1) = Some (Inr xs, s1)"
    and "xjp_read_channel (holding_register sops) reader u ch s1 = Some (Inl (TermiosError m), s2)"
  shows "sample_batch ops sops cfg rds (c, w0) = Some (Inl (TermiosError m), s2)"
proof -
  let ?f = "\<lambda>(u, c). sample_item ops (xjp_read_channel (holding_register sops) reader u c) (dec u @ ''-'' @ dec02 c)
        (failed_record cfg stamp ''temperature.probe'' ''degC'' ''dixell-xjp60d'' (''K'' @ dec u) (dec u @ ''-'' @ dec02 c))
        (\<lambda>g v. \<lparr>tr_event_id = v, tr_node_id = st_node_id cfg, tr_captured_at = stamp,
               tr_metric = ''temperature.probe'', tr_value = xr_value g, tr_unit = xr_unit g,
               tr_quality = xr_quality g, tr_source = ''dixell-xjp60d'',
               tr_equipment_id = Some (''K'' @ dec u), tr_channel_id = Some (dec u @ ''-'' @ dec02 c),
               tr_alarm = xr_alarm g, tr_raw_value = Some (xr_raw_value g),
               tr_raw_status = Some (xr_raw_status g)\<rparr>)"
  obtain c2 w2 where s2: "s2 = (c2, w2)" by (cases s2)
  have item: "?f (u, ch) s1 = Some (Inl (TermiosError m), s2)"
    using assms(6) by (simp add: sample_item_def sample_caught_def s2)
  have im: "imap ?f (st_xjp60d_points cfg) (c, w1) = Some (Inl (TermiosError m), s2)"
    using imap_stops [where g = ?f and ys = qs, OF assms(5) item] by (simp only: assms(2))
  have ne: "st_xjp60d_points cfg \<noteq> []" unfolding assms(2) by (metis Nil_is_append_conv list.distinct(1))
  have "sample_xjp60d ops sops cfg rds stamp = sample_each ?f (st_xjp60d_points cfg)"
    unfolding sample_xjp60d_def if_not_P [OF ne] assms(3) option.case Let_def by (rule refl)
  then have x: "sample_xjp60d ops sops cfg rds stamp (c, w1) = Some (Inl (TermiosError m), s2)"
    by (simp only: sample_each_def ibind_def im option.case prod.case sum.case)
  then show ?thesis
    using assms(1,4)
    by (simp add: sample_batch_def now_text_def ibind_def when_mode_def mode_uses_xjp60d_def Let_def)
qed

theorem termios_error_discards_batch_witness:
  "sample_batch quiet_ops ((sim_ops [])\<lparr>ser_reset_input := (\<lambda>h w. (Inl (TermiosError ''Input/output error''), w))\<rparr>)
      sample_settings xjp_only (sim_client, (0, [], []))
    = Some (Inl (TermiosError ''Input/output error''), (sim_client\<lparr>mc_serial := None\<rparr>, (0, [], [])))"
proof -
  let ?ops = "(sim_ops [])\<lparr>ser_reset_input := (\<lambda>h w. (Inl (TermiosError ''Input/output error''), w))\<rparr>"
  have v: "request_valid 1 3 258 1" by (simp add: request_valid_def)
  have "read_registers ?ops 1 3 258 1 sim_client (0, [], [])
      = Some (Inl (TermiosError ''Input/output error''), sim_client\<lparr>mc_serial := None\<rparr>, (0, [], []))"
    by (simp add: read_registers_def build_request_ok [OF v] client_open_def sim_client_def attempt_round_def
        check_deadline_def get_context_def default_context_def attempt_request_def after_attempt_def
        is_timeout_def io_failure_def invalidate_serial_def sim_ops_def numeral_2_eq_2)
  then have "holding_register ?ops 1 258 (sim_client, (0, [], []))
      = Some (Inl (TermiosError ''Input/output error''), (sim_client\<lparr>mc_serial := None\<rparr>, (0, [], [])))"
    by (simp add: holding_register_def read_holding_register_def read_holding_registers_def first_of_def)
  then have r: "xjp_read_channel (holding_register ?ops) \<lparr>xj_scale = 1, xj_unit = ''degC''\<rparr> 1 2 (sim_client, (0, [], []))
      = Some (Inl (TermiosError ''Input/output error''), (sim_client\<lparr>mc_serial := None\<rparr>, (0, [], [])))"
    by (simp add: xjp_read_channel_def probe_registers_def ibind_def)
  show ?thesis
  proof (rule termios_error_discards_batch [where ps = "[]" and qs = "[]" and xs = "[]" and t = 0 and stamp = "''now''"
        and ops = quiet_ops, OF sample_settings_mode(1) _ _ _ _ r])
    show "st_xjp60d_points sample_settings = [] @ [(1, 2)]" by (simp add: sample_settings_mode)
    show "rd_xjp60d xjp_only = Some \<lparr>xj_scale = 1, xj_unit = ''degC''\<rparr>" by (simp add: xjp_only_def)
    show "op_now quiet_ops (0, [], []) = ((0, ''now''), (0, [], []))" by (simp add: quiet_ops_def)
  qed (simp only: imap.simps iret_def)
qed

end
