(* ===== verification/Operational.thy ===== *)
theory Operational
  imports Sampling
begin

text \<open>
  The health snapshot of \<open>AgentState\<close> and \<open>DeviceAgent\<close> (\<open>services/device-agent/main.py\<close>) and
  \<open>NodeOperationalPublisher\<close> (\<open>operational_streams.py\<close>): versioned health events and the retained
  online/offline status with its MQTT last will. The publisher allocates its sequence numbers in the
  durable queue and reads the snapshot through a callback.
\<close>

section \<open>The snapshot\<close>

record snapshot =
  hs_status :: string
  hs_node_id :: string
  hs_device_mode :: string
  hs_configured_points :: "string list"
  hs_configured_devices :: "string list"
  hs_mqtt_connected :: bool
  hs_queue_size :: int
  hs_queue_depth :: int
  hs_uptime_seconds :: int
  hs_samples_total :: int
  hs_last_sample_at :: "string option"
  hs_last_publish_at :: "string option"
  hs_last_error :: "string option"
  hs_started_at :: string
  hs_contention :: "(bool \<times> contention) option"

text \<open>\<open>int(x)\<close> of a float truncates towards zero.\<close>

definition py_trunc :: "pyfloat \<Rightarrow> int" where
  "py_trunc x = (if 0 \<le> x then \<lfloor>x\<rfloor> else \<lceil>x\<rceil>)"

definition configured_points :: "settings \<Rightarrow> string list" where
  "configured_points cfg = (if mode_uses_xjp60d (st_device_mode cfg)
     then map (\<lambda>(u, c). dec u @ ''-'' @ dec02 c) (st_xjp60d_points cfg) else [])"

definition configured_devices :: "settings \<Rightarrow> string list" where
  "configured_devices cfg = (let mode = st_device_mode cfg in
     (if mode_uses_le01mp mode then map (\<lambda>u. ''LE01MP-'' @ dec u) (st_le01mp_unit_ids cfg) else [])
   @ (if mode_uses_sdm120 mode then map (\<lambda>u. ''SDM120M-'' @ dec u) (st_sdm120_unit_ids cfg) else [])
   @ (if mode_uses_waveshare_8ai mode then map (\<lambda>u. ''WAVESHARE-8AI-'' @ dec u) (st_waveshare_8ai_unit_ids cfg) else [])
   @ (if mode_uses_embraco mode then map (\<lambda>u. ''EMBRACO-'' @ dec u) (st_embraco_unit_ids cfg) else []))"

definition state_snapshot ::
  "'w agent_ops \<Rightarrow> settings \<Rightarrow> agent_state \<Rightarrow> int \<Rightarrow> 'w \<Rightarrow> snapshot \<times> 'w" where
  "state_snapshot ops cfg st depth w =
     (case op_now ops w of ((t, stamp), w1) \<Rightarrow>
       (\<lparr>hs_status = (if as_last_error st = None then ''ok'' else ''degraded''),
         hs_node_id = st_node_id cfg, hs_device_mode = st_device_mode cfg,
         hs_configured_points = configured_points cfg, hs_configured_devices = configured_devices cfg,
         hs_mqtt_connected = as_mqtt_connected st, hs_queue_size = depth, hs_queue_depth = depth,
         hs_uptime_seconds = max 0 (py_trunc (fl (t - fst (as_started_at st)))),
         hs_samples_total = as_samples_total st, hs_last_sample_at = as_last_sample_at st,
         hs_last_publish_at = as_last_publish_at st, hs_last_error = as_last_error st,
         hs_started_at = snd (as_started_at st), hs_contention = None\<rparr>, w1))"

text \<open>\<open>dict.fromkeys\<close> keeps the first of equal values.\<close>

definition first_occurrences :: "'a list \<Rightarrow> 'a list" where
  "first_occurrences xs = rev (remdups (rev xs))"

definition truthy :: "string option \<Rightarrow> string list" where
  "truthy x = (case x of None \<Rightarrow> [] | Some s \<Rightarrow> if s = [] then [] else [s])"

definition snapshot_for_health ::
  "'w agent_ops \<Rightarrow> settings \<Rightarrow> agent_state \<Rightarrow> offline_queue \<times> 'w \<Rightarrow> snapshot result \<times> (offline_queue \<times> 'w)" where
  "snapshot_for_health ops cfg st = (\<lambda>(q, w).
     (case health_depth q of
        (Inl e, q1) \<Rightarrow> (Inl e, (q1, w))
      | (Inr (depth, stale), q1) \<Rightarrow>
          (case state_snapshot ops cfg st depth w of (p, w1) \<Rightarrow>
             let contention = contention_snapshot (oq_store q1);
                 unresolved = 0 < sn_consecutive_exhaustions contention;
                 p1 = p\<lparr>hs_contention := Some (stale, contention)\<rparr>
             in (Inr (if stale \<or> unresolved then
                   p1\<lparr>hs_status := ''degraded'',
                      hs_last_error := Some (join ''; '' (first_occurrences
                        ((if stale then [''SQLite queue depth is lock-contended; reporting last known value''] else [])
                         @ (if unresolved then [''SQLite queue operation has unresolved lock contention''] else [])
                         @ truthy (hs_last_error p1))))\<rparr>
                 else p1), (q1, w1)))))"

section \<open>The publisher\<close>

record publisher =
  np_organization_id :: string
  np_node_id :: string
  np_software_version :: string
  np_device_mode :: string
  np_health_interval :: pyfloat
  np_prepared_online :: "(string, json) dict option"
  np_prepared_will :: "(string, json) dict option"
  np_last_health :: "pyfloat option"

definition publisher_init :: "string \<Rightarrow> string \<Rightarrow> string \<Rightarrow> string \<Rightarrow> pyfloat \<Rightarrow> publisher result" where
  "publisher_init organization_id node_id software_version device_mode interval =
     (let p = \<lparr>np_organization_id = strip organization_id, np_node_id = lower (strip node_id),
               np_software_version = strip software_version, np_device_mode = strip device_mode,
               np_health_interval = interval, np_prepared_online = None, np_prepared_will = None,
               np_last_health = None\<rparr> in
      if np_organization_id p = [] then Inl (ValueError ''organization_id is required for node operational streams'')
      else if np_node_id p = [] then Inl (ValueError ''node_id is required for node operational streams'')
      else if np_software_version p = [] then
        Inl (ValueError ''software_version is required for node operational streams'')
      else if interval \<le> 0 then Inl (ValueError ''health_interval_seconds must be positive'')
      else Inr p)"

definition stream_topic :: "publisher \<Rightarrow> string \<Rightarrow> string" where
  "stream_topic p stream = ''nexolab/v1/'' @ np_organization_id p @ ''/'' @ np_node_id p @ ''/'' @ stream"

definition health_topic :: "publisher \<Rightarrow> string" where
  "health_topic p = stream_topic p ''health''"

definition status_topic :: "publisher \<Rightarrow> string" where
  "status_topic p = stream_topic p ''status''"

text \<open>\<open>_publish\<close>: the handler turns the listed exceptions into \<open>False\<close>.\<close>

definition np_publish :: "'w agent_ops \<Rightarrow> string \<Rightarrow> (string, json) dict \<Rightarrow> bool \<Rightarrow> 'w \<Rightarrow> bool result \<times> 'w" where
  "np_publish ops topic payload retain w =
     (case publish_wait ops topic (JObj payload) retain w of
        (Inl e, w1) \<Rightarrow> if publish_deferred e then (Inr False, w1) else (Inl e, w1)
      | (Inr h, w1) \<Rightarrow> (Inr (mq_rc ops h w1 = 0), w1))"

definition status_payload ::
  "'w agent_ops \<Rightarrow> publisher \<Rightarrow> int \<Rightarrow> string \<Rightarrow> string \<Rightarrow> bool \<Rightarrow> 'w \<Rightarrow> (string, json) dict \<times> 'w" where
  "status_payload ops p n status reason graceful w =
     (case op_uuid4 ops w of (u, w1) \<Rightarrow>
     (case op_now ops w1 of ((t, stamp), w2) \<Rightarrow>
        ([(''schema_version'', JInt 1), (''event_id'', JStr u), (''node_id'', JStr (np_node_id p)),
          (''captured_at'', JStr stamp), (''node_sequence'', JInt n), (''status'', JStr status),
          (''reason'', JStr reason), (''software_version'', JStr (np_software_version p)),
          (''graceful'', JBool graceful)], w2)))"

text \<open>State of the publisher's methods: the publisher, the queue and the world.\<close>

type_synonym 'w pub = "publisher \<times> offline_queue \<times> 'w"

definition prepare_connection :: "'w agent_ops \<Rightarrow> 'w pub \<Rightarrow> unit result \<times> 'w pub" where
  "prepare_connection ops = (\<lambda>(p, q, w).
     (case next_sequence ''status'' q of
        (Inl e, q1) \<Rightarrow> (Inl e, (p, q1, w))
      | (Inr online_sequence, q1) \<Rightarrow>
     (case next_sequence ''status'' q1 of
        (Inl e, q2) \<Rightarrow> (Inl e, (p, q2, w))
      | (Inr will_sequence, q2) \<Rightarrow>
     (case status_payload ops p online_sequence ''online'' ''device agent connected'' True w of (online, w1) \<Rightarrow>
     (case status_payload ops p will_sequence ''offline'' ''mqtt last will'' False w1 of (will, w2) \<Rightarrow>
        (Inr (), (p\<lparr>np_prepared_online := Some online, np_prepared_will := Some will\<rparr>, q2,
                  mq_will_set ops (status_topic p) (JObj will) w2)))))))"

definition on_connected :: "'w agent_ops \<Rightarrow> 'w pub \<Rightarrow> bool result \<times> 'w pub" where
  "on_connected ops = (\<lambda>(p, q, w).
     (case (if np_prepared_online p = None \<or> np_prepared_will p = None then prepare_connection ops (p, q, w)
            else (Inr (), (p, q, w))) of
        (Inl e, s) \<Rightarrow> (Inl e, s)
      | (Inr _, (p1, q1, w1)) \<Rightarrow>
          (case np_prepared_online p1 of
             None \<Rightarrow> (Inl (OtherError ''AssertionError''), (p1, q1, w1))
           | Some online \<Rightarrow>
               (case np_publish ops (status_topic p1) online True w1 of
                  (Inl e, w2) \<Rightarrow> (Inl e, (p1, q1, w2))
                | (Inr published, w2) \<Rightarrow>
                    (case prepare_connection ops (p1, q1, w2) of
                       (Inl e, s) \<Rightarrow> (Inl e, s)
                     | (Inr _, s) \<Rightarrow> (Inr published, s))))))"

definition health_payload ::
  "'w agent_ops \<Rightarrow> publisher \<Rightarrow> int \<Rightarrow> snapshot \<Rightarrow> 'w \<Rightarrow> (string, json) dict \<times> 'w" where
  "health_payload ops p n h w =
     (case op_uuid4 ops w of (u, w1) \<Rightarrow>
     (case op_now ops w1 of ((t, stamp), w2) \<Rightarrow>
        ([(''schema_version'', JInt 1), (''event_id'', JStr u), (''node_id'', JStr (np_node_id p)),
          (''captured_at'', JStr stamp), (''node_sequence'', JInt n),
          (''health'', JStr (if truthy (hs_last_error h) \<noteq> [] then ''degraded'' else ''healthy'')),
          (''uptime_seconds'', JInt (max 0 (hs_uptime_seconds h))),
          (''queue_depth'', JInt (max 0 (hs_queue_depth h))),
          (''samples_total'', JInt (max 0 (hs_samples_total h))),
          (''software_version'', JStr (np_software_version p)), (''device_mode'', JStr (np_device_mode p)),
          (''last_sample_at'', jopt JStr (hs_last_sample_at h)),
          (''last_publish_at'', jopt JStr (hs_last_publish_at h)),
          (''last_error'', if truthy (hs_last_error h) \<noteq> [] then jopt JStr (hs_last_error h) else JNull)], w2)))"

text \<open>The \<open>try\<close> of \<open>publish_health_if_due\<close>: the snapshot, then the sequence number.\<close>

definition health_inputs ::
  "(offline_queue \<times> 'w \<Rightarrow> snapshot result \<times> (offline_queue \<times> 'w)) \<Rightarrow> offline_queue \<times> 'w
     \<Rightarrow> (snapshot \<times> int) result \<times> (offline_queue \<times> 'w)" where
  "health_inputs snap s =
     (case snap s of
        (Inl e, s1) \<Rightarrow> (Inl e, s1)
      | (Inr h, (q1, w1)) \<Rightarrow>
          (case next_sequence ''health'' q1 of
             (Inl e, q2) \<Rightarrow> (Inl e, (q2, w1))
           | (Inr n, q2) \<Rightarrow> (Inr (h, n), (q2, w1))))"

text \<open>The result: \<open>None\<close> when no event is due, else whether it was published.\<close>

definition health_due :: "publisher \<Rightarrow> bool \<Rightarrow> pyfloat \<Rightarrow> bool" where
  "health_due p force now = (force \<or> (case np_last_health p of
      None \<Rightarrow> True
    | Some t \<Rightarrow> \<not> fsub now t < np_health_interval p))"

definition publish_health_if_due ::
  "'w agent_ops \<Rightarrow> (offline_queue \<times> 'w \<Rightarrow> snapshot result \<times> (offline_queue \<times> 'w)) \<Rightarrow> bool \<Rightarrow> 'w pub
     \<Rightarrow> bool option result \<times> 'w pub" where
  "publish_health_if_due ops snap force = (\<lambda>(p, q, w).
     (case op_clock ops w of (now, w0) \<Rightarrow>
      if \<not> health_due p force now then (Inr None, (p, q, w0))
      else (case health_inputs snap (q, w0) of
        (Inl (OperationalError msg), (q1, w1)) \<Rightarrow>
          if \<not> is_busy_error msg then (Inl (OperationalError msg), (p, q1, w1))
          else (Inr (Some False), (p\<lparr>np_last_health := Some now\<rparr>, q1, w1))
      | (Inl e, (q1, w1)) \<Rightarrow> (Inl e, (p, q1, w1))
      | (Inr (h, n), (q1, w1)) \<Rightarrow>
          (case health_payload ops p n h w1 of (payload, w2) \<Rightarrow>
          (case np_publish ops (health_topic p) payload False w2 of
             (Inl e, w3) \<Rightarrow> (Inl e, (p, q1, w3))
           | (Inr published, w3) \<Rightarrow>
               (Inr (Some published), ((if published then p\<lparr>np_last_health := Some now\<rparr> else p), q1, w3)))))))"

definition publish_graceful_offline :: "'w agent_ops \<Rightarrow> 'w pub \<Rightarrow> bool result \<times> 'w pub" where
  "publish_graceful_offline ops = (\<lambda>(p, q, w).
     (case next_sequence ''status'' q of
        (Inl e, q1) \<Rightarrow> (Inl e, (p, q1, w))
      | (Inr n, q1) \<Rightarrow>
          (case status_payload ops p n ''offline'' ''device agent stopped'' True w of (payload, w1) \<Rightarrow>
          (case np_publish ops (status_topic p) payload True w1 of (r, w2) \<Rightarrow> (r, (p, q1, w2))))))"

section \<open>Lemmas\<close>

definition status_counter :: "offline_queue \<Rightarrow> int" where
  "status_counter q = dget_or (qd_sequences (cn_db (oq_store q))) ''status'' 0"

lemma next_sequence_value:
  assumes "queue_ok q" and "next_sequence ''status'' q = (r, q')"
  shows "queue_ok q' \<and> (case r of
      Inr n \<Rightarrow> n = status_counter q + 1 \<and> status_counter q' = n
    | Inl e \<Rightarrow> status_counter q' = status_counter q)"
proof -
  have s: "lower (strip ''status'') = ''status''" by code_simp
  let ?op = "\<lambda>gap :: nat. next_sequence_in_transaction ''status''"
  have run: "with_store (retry_busy ''next_sequence'' ?op (oq_store q)) q = (r, q')"
    using assms(2) unfolding next_sequence_def Let_def s by simp
  note w = with_store_run [OF assms(1) run next_sequence_keeps]
  show ?thesis
  proof (cases r)
    case (Inl e)
    with w show ?thesis by (simp add: status_counter_def)
  next
    case (Inr n)
    with w have "next_sequence_in_transaction ''status'' (cn_db (oq_store q)) = (Inr n, cn_db (oq_store q'))" by auto
    moreover obtain t where "next_sequence_in_transaction ''status'' (cn_db (oq_store q))
        = (Inr (status_counter q + 1), (cn_db (oq_store q))\<lparr>qd_sequences := t\<rparr>)"
      and "dget t ''status'' = Some (status_counter q + 1)"
      using next_sequence_spec [of "''status''" "cn_db (oq_store q)"] by (auto simp: status_counter_def)
    ultimately have "n = status_counter q + 1" "cn_db (oq_store q') = (cn_db (oq_store q))\<lparr>qd_sequences := t\<rparr>"
      by simp_all
    moreover from this(2) \<open>dget t ''status'' = _\<close> have "status_counter q' = status_counter q + 1"
      by (simp add: status_counter_def [of q'] dget_or_def)
    ultimately have "n = status_counter q + 1" "status_counter q' = status_counter q + 1" by simp_all
    with w Inr show ?thesis by simp
  qed
qed

definition sequence_of :: "(string, json) dict \<Rightarrow> int option" where
  "sequence_of d = (case dget d ''node_sequence'' of Some (JInt n) \<Rightarrow> Some n | _ \<Rightarrow> None)"

lemma status_payload_sequence:
  "status_payload ops p n s r g w = (d, w') \<Longrightarrow> sequence_of d = Some n"
  by (auto simp: status_payload_def sequence_of_def split: prod.splits)

lemma prepare_connection_sequences:
  assumes "queue_ok q" and "prepare_connection ops (p, q, w) = (Inr u, (p', q', w'))"
  shows "queue_ok q' \<and> status_counter q' = status_counter q + 2
    \<and> (\<exists>online will. np_prepared_online p' = Some online \<and> np_prepared_will p' = Some will
        \<and> sequence_of online = Some (status_counter q + 1) \<and> sequence_of will = Some (status_counter q + 2))"
proof -
  obtain x1 q1 where 1: "next_sequence ''status'' q = (x1, q1)" by fastforce
  from assms(2) 1 obtain n1 where n1: "x1 = Inr n1"
    by (cases x1) (simp_all add: prepare_connection_def)
  obtain x2 q2 where 2: "next_sequence ''status'' q1 = (x2, q2)" by fastforce
  from assms(2) 1 n1 2 obtain n2 where n2: "x2 = Inr n2"
    by (cases x2) (simp_all add: prepare_connection_def)
  obtain online w1 where 3: "status_payload ops p n1 ''online'' ''device agent connected'' True w = (online, w1)"
    by fastforce
  obtain will w2 where 4: "status_payload ops p n2 ''offline'' ''mqtt last will'' False w1 = (will, w2)"
    by fastforce
  have r: "p' = p\<lparr>np_prepared_online := Some online, np_prepared_will := Some will\<rparr>" "q' = q2"
    using assms(2) 1 n1 2 n2 3 4 by (simp_all add: prepare_connection_def)
  from next_sequence_value [OF assms(1) 1] n1 have c1: "queue_ok q1" "n1 = status_counter q + 1"
    "status_counter q1 = n1" by simp_all
  from next_sequence_value [OF c1(1) 2] n2 c1 have "queue_ok q2" "n2 = status_counter q + 2"
    "status_counter q2 = n2" by simp_all
  with c1 r status_payload_sequence [OF 3] status_payload_sequence [OF 4] show ?thesis by simp
qed

section \<open>Properties\<close>

text \<open>Status events are ordered. When a connection is announced, the online event that is published
  and the last will that was registered with it carry smaller sequence numbers than the pair
  prepared for the next connection, whose numbers are the next two of the stream, online before will.\<close>

theorem on_connected_ordered:
  assumes "queue_ok q" and "np_prepared_online p = Some online" and "np_prepared_will p = Some will"
    and "sequence_of online = Some a" and "sequence_of will = Some b" and "a < b" "b \<le> status_counter q"
    and "on_connected ops (p, q, w) = (Inr published, (p', q', w'))"
  shows "queue_ok q' \<and> (\<exists>online' will' a' b'. np_prepared_online p' = Some online' \<and> np_prepared_will p' = Some will'
    \<and> sequence_of online' = Some a' \<and> sequence_of will' = Some b' \<and> a < b \<and> b < a' \<and> a' < b'
    \<and> b' = status_counter q' \<and> a' = status_counter q + 1)"
proof -
  obtain x w1 where x: "np_publish ops (status_topic p) online True w = (x, w1)" by fastforce
  with assms(2,3,8) obtain y where y: "x = Inr y"
    by (cases x) (simp_all add: on_connected_def)
  obtain z s where z: "prepare_connection ops (p, q, w1) = (z, s)"
    by (cases "prepare_connection ops (p, q, w1)")
  with assms(2,3,8) x y obtain u where u: "z = Inr u" "s = (p', q', w')"
    by (cases z) (simp_all add: on_connected_def)
  from prepare_connection_sequences [OF assms(1) z [unfolded u]] assms(6,7) show ?thesis by auto
qed

theorem on_connected_ordered_witness:
  "\<exists>p' q' w' online. on_connected sim_broker
      (\<lparr>np_organization_id = ''acme'', np_node_id = ''edge-01'', np_software_version = ''0.15.0'',
        np_device_mode = ''xjp60d'', np_health_interval = 30, np_prepared_online = Some [(''node_sequence'', JInt (- 1))],
        np_prepared_will = Some [(''node_sequence'', JInt 0)], np_last_health = None\<rparr>, fresh_queue [], [])
      = (Inr True, (p', q', w')) \<and> np_prepared_online p' = Some online \<and> sequence_of online = Some 1"
proof -
  let ?p = "\<lparr>np_organization_id = ''acme'', np_node_id = ''edge-01'', np_software_version = ''0.15.0'',
        np_device_mode = ''xjp60d'', np_health_interval = 30, np_prepared_online = Some [(''node_sequence'', JInt (- 1))],
        np_prepared_will = Some [(''node_sequence'', JInt 0)], np_last_health = None\<rparr>"
  have s: "lower (strip ''status'') = ''status''" by code_simp
  have n1: "next_sequence ''status'' (fresh_queue []) = (Inr 1, (fresh_queue [])\<lparr>oq_store :=
      (oq_store (fresh_queue []))\<lparr>cn_db := \<lparr>qd_rows = [], qd_last_id = 0, qd_sequences = [(''status'', 1)]\<rparr>\<rparr>\<rparr>)"
    unfolding next_sequence_def Let_def s
    by (simp add: run_simps fresh_queue_def next_sequence_in_transaction_def numeral_3_eq_3 dget_or_def)
  obtain q2 where n2: "next_sequence ''status'' ((fresh_queue [])\<lparr>oq_store := (oq_store (fresh_queue []))
      \<lparr>cn_db := \<lparr>qd_rows = [], qd_last_id = 0, qd_sequences = [(''status'', 1)]\<rparr>\<rparr>\<rparr>) = (Inr 2, q2)"
    unfolding next_sequence_def Let_def s
    by (simp add: run_simps fresh_queue_def next_sequence_in_transaction_def numeral_3_eq_3 dget_or_def)
  obtain p' q' w' where run: "on_connected sim_broker (?p, fresh_queue [], []) = (Inr True, (p', q', w'))"
    by (simp add: on_connected_def np_publish_def publish_wait_def sim_broker_def prepare_connection_def n1 n2
        status_payload_def)
  have c: "status_counter (fresh_queue []) = 0" by (simp add: status_counter_def fresh_queue_def dget_or_def)
  have a: "sequence_of [(''node_sequence'', JInt (- 1))] = Some (- 1)"
    "sequence_of [(''node_sequence'', JInt 0)] = Some 0" by (simp_all add: sequence_of_def)
  from on_connected_ordered [OF fresh_queue_ok _ _ a _ _ run] c
  obtain online' where "np_prepared_online p' = Some online'" "sequence_of online' = Some 1"
    by auto
  with run show ?thesis by blast
qed

text \<open>Health events are paced and survive lock contention. An event that is not due changes nothing but
  the clock reading; a lock error ends the attempt with \<open>False\<close> and paces the next one; the time of the
  last event moves only when an event was published or an attempt met a lock error; and every published
  event has consumed a sequence number of the health stream.\<close>

theorem health_paced:
  assumes "publish_health_if_due ops snap force (p, q, w) = (r, (p', q', w'))"
    and "op_clock ops w = (now, w0)"
  shows "(\<not> health_due p force now \<longrightarrow> r = Inr None \<and> p' = p \<and> q' = q \<and> w' = w0)
    \<and> (health_due p force now \<longrightarrow> r \<noteq> Inr None
        \<and> (\<forall>e s. health_inputs snap (q, w0) = (Inl (OperationalError e), s) \<and> is_busy_error e
             \<longrightarrow> r = Inr (Some False) \<and> np_last_health p' = Some now)
        \<and> (r = Inr (Some True) \<longrightarrow> np_last_health p' = Some now
             \<and> (\<exists>h n s. health_inputs snap (q, w0) = (Inr (h, n), s))))
    \<and> (np_last_health p' = np_last_health p \<or> np_last_health p' = Some now)"
proof (cases "health_due p force now")
  case False
  with assms show ?thesis by (simp add: publish_health_if_due_def)
next
  case True
  obtain x q1 w1 where x: "health_inputs snap (q, w0) = (x, (q1, w1))" by (metis surj_pair)
  show ?thesis
  proof (cases x)
    case (Inl e)
    show ?thesis
    proof (cases "\<exists>m. e = OperationalError m")
      case op: True
      with True x Inl assms show ?thesis by (auto simp: publish_health_if_due_def split: if_splits)
    next
      case False
      with True x Inl assms have "r = Inl e \<and> p' = p"
        by (cases e) (auto simp: publish_health_if_due_def)
      with False x Inl True show ?thesis by auto
    qed
  next
    case (Inr hn)
    obtain h n where hn: "hn = (h, n)" by (cases hn)
    obtain d w2 where d: "health_payload ops p n h w1 = (d, w2)" by fastforce
    obtain y w3 where y: "np_publish ops (health_topic p) d False w2 = (y, w3)" by fastforce
    from True x Inr hn d y assms show ?thesis
      by (cases y) (auto simp: publish_health_if_due_def)
  qed
qed

theorem health_paced_witness:
  "\<exists>r p' q' w'. publish_health_if_due sim_broker (\<lambda>s. (Inl (OperationalError ''database is locked''), s)) True
      (\<lparr>np_organization_id = ''acme'', np_node_id = ''edge-01'', np_software_version = ''0.15.0'',
        np_device_mode = ''xjp60d'', np_health_interval = 30, np_prepared_online = None,
        np_prepared_will = None, np_last_health = None\<rparr>, fresh_queue [], []) = (r, (p', q', w'))
    \<and> r = Inr (Some False)"
proof -
  let ?p = "\<lparr>np_organization_id = ''acme'', np_node_id = ''edge-01'', np_software_version = ''0.15.0'',
        np_device_mode = ''xjp60d'', np_health_interval = 30, np_prepared_online = None,
        np_prepared_will = None, np_last_health = None\<rparr>"
  let ?snap = "\<lambda>s. (Inl (OperationalError ''database is locked''), s)"
  obtain r p' q' w' where run: "publish_health_if_due sim_broker ?snap True (?p, fresh_queue [], []) = (r, (p', q', w'))"
    by (metis surj_pair)
  have c: "op_clock sim_broker [] = (0, [])" by (simp add: sim_broker_def)
  have i: "health_inputs ?snap (fresh_queue [], []) = (Inl (OperationalError ''database is locked''), (fresh_queue [], []))"
    by (simp add: health_inputs_def)
  have "health_due ?p True 0" by (simp add: health_due_def)
  with health_paced [OF run c] i busy_messages(1) have "r = Inr (Some False)" by blast
  with run show ?thesis by blast
qed

end
