(* ===== verification/Agent.thy ===== *)
theory Agent
  imports Operational
begin

text \<open>
  \<open>DeviceAgent\<close> of \<open>services/device-agent/main.py\<close>: its construction from validated settings, the MQTT
  callbacks, and the cycle of \<open>run\<close>: sample a batch, publish or queue every record, flush, account.
  Paho's connection management, TLS and the HTTP health server are not modelled. The number of cycles
  stands for the stop event; the shutdown of \<open>run\<close> is \<open>shutdown\<close>.
\<close>

section \<open>State and construction\<close>

record 'w agent =
  ag_cfg :: settings
  ag_queue :: offline_queue
  ag_state :: agent_state
  ag_operational :: "publisher option"
  ag_client :: client
  ag_readers :: readers
  ag_world :: 'w

definition fresh_state :: "rat \<times> string \<Rightarrow> agent_state" where
  "fresh_state now = \<lparr>as_started_at = now, as_mqtt_connected = False, as_last_sample_at = None,
     as_last_publish_at = None, as_last_error = None, as_samples_total = 0\<rparr>"

text \<open>The client of the simulator mode, which has none; nothing reads it.\<close>

definition no_client :: client where
  "no_client = \<lparr>mc_port = [], mc_baudrate = 0, mc_parity = [], mc_stopbits = 0, mc_timeout = 0,
     mc_retries = 0, mc_has_factory = False, mc_serial = None, mc_has_observer = False, mc_observed = [],
     mc_context = None, mc_exclusive = False\<rparr>"

definition agent_init ::
  "'w agent_ops \<Rightarrow> (string \<Rightarrow> secret_file) \<Rightarrow> settings \<Rightarrow> queue_db \<Rightarrow> attempt list \<Rightarrow> 'w \<Rightarrow> 'w agent result" where
  "agent_init ops files cfg db script w =
     ebind (queue_init 2000 3 (fl (1 / 20)) 100 db script) (\<lambda>q.
     (case op_now ops w of (now, w1) \<Rightarrow>
     ebind (if st_mqtt_auth_required cfg then
              (case (st_mqtt_username cfg, st_mqtt_password_file cfg) of
                 (Some _, Some f) \<Rightarrow> ebind (read_mounted_secret (files f) ''MQTT password'') (\<lambda>_. Inr ())
               | _ \<Rightarrow> Inl (RuntimeError ''Secure MQTT settings were not validated''))
            else Inr ()) (\<lambda>_.
     ebind (case st_organization_id cfg of
              None \<Rightarrow> Inr None
            | Some org \<Rightarrow> ebind (publisher_init org (st_node_id cfg) (st_software_version cfg)
                (st_device_mode cfg) (st_health_interval_seconds cfg)) (\<lambda>p. Inr (Some p))) (\<lambda>pub.
     ebind (agent_readers cfg) (\<lambda>rds.
       Inr \<lparr>ag_cfg = cfg, ag_queue = q, ag_state = fresh_state now, ag_operational = pub,
            ag_client = (case rd_client rds of None \<Rightarrow> no_client | Some c \<Rightarrow> c), ag_readers = rds,
            ag_world = w1\<rparr>)))))"

section \<open>Callbacks\<close>

definition set_error :: "string \<Rightarrow> 'w agent \<Rightarrow> 'w agent" where
  "set_error msg a = a\<lparr>ag_state := (ag_state a)\<lparr>as_last_error := Some msg\<rparr>\<rparr>"

definition with_pub ::
  "('w pub \<Rightarrow> 'a result \<times> 'w pub) \<Rightarrow> publisher \<Rightarrow> 'w agent \<Rightarrow> 'a result \<times> 'w agent" where
  "with_pub f p a = (case f (p, ag_queue a, ag_world a) of (r, (p', q', w')) \<Rightarrow>
     (r, a\<lparr>ag_operational := Some p', ag_queue := q', ag_world := w'\<rparr>))"

definition agent_health :: "'w agent_ops \<Rightarrow> bool \<Rightarrow> publisher \<Rightarrow> 'w agent \<Rightarrow> bool option result \<times> 'w agent" where
  "agent_health ops force p a =
     with_pub (publish_health_if_due ops (snapshot_for_health ops (ag_cfg a) (ag_state a)) force) p a"

definition on_connect :: "'w agent_ops \<Rightarrow> int \<Rightarrow> 'w agent \<Rightarrow> unit result \<times> 'w agent" where
  "on_connect ops reason_code a =
     (let connected = (reason_code = 0);
          a1 = a\<lparr>ag_state := (ag_state a)\<lparr>as_mqtt_connected := connected\<rparr>\<rparr> in
      case ag_operational a1 of
        None \<Rightarrow> (Inr (), a1)
      | Some p \<Rightarrow>
          if \<not> connected then (Inr (), a1)
          else (case with_pub (on_connected ops) p a1 of
            (Inl e, a2) \<Rightarrow> (Inl e, a2)
          | (Inr published, a2) \<Rightarrow>
              let a3 = (if published then a2 else set_error ''online status publish failed'' a2) in
              (case ag_operational a3 of
                 None \<Rightarrow> (Inr (), a3)
               | Some p3 \<Rightarrow> (case agent_health ops True p3 a3 of
                    (Inl e, a4) \<Rightarrow> (Inl e, a4)
                  | (Inr _, a4) \<Rightarrow> (Inr (), a4)))))"

definition on_disconnect :: "'w agent \<Rightarrow> 'w agent" where
  "on_disconnect a = a\<lparr>ag_state := (ag_state a)\<lparr>as_mqtt_connected := False\<rparr>\<rparr>"

section \<open>The cycle\<close>

fun publish_records ::
  "'w agent_ops \<Rightarrow> settings \<Rightarrow> telemetry list \<Rightarrow> offline_queue \<times> agent_state \<times> 'w
     \<Rightarrow> bool list result \<times> (offline_queue \<times> agent_state \<times> 'w)" where
  "publish_records ops cfg [] s = (Inr [], s)"
| "publish_records ops cfg (r # rs) s =
     (case publish_or_queue ops cfg r s of
        (Inl e, s1) \<Rightarrow> (Inl e, s1)
      | (Inr b, s1) \<Rightarrow>
          (case publish_records ops cfg rs s1 of
             (Inl e, s2) \<Rightarrow> (Inl e, s2)
           | (Inr bs, s2) \<Rightarrow> (Inr (b # bs), s2)))"

text \<open>Publishing the whole batch and the flush after it.\<close>

definition publish_batch ::
  "'w agent_ops \<Rightarrow> settings \<Rightarrow> telemetry list \<Rightarrow> offline_queue \<times> agent_state \<times> 'w
     \<Rightarrow> (bool \<times> bool) result \<times> (offline_queue \<times> agent_state \<times> 'w)" where
  "publish_batch ops cfg rs s =
     (case publish_records ops cfg rs s of
        (Inl e, s1) \<Rightarrow> (Inl e, s1)
      | (Inr bs, s1) \<Rightarrow>
          (case flush_queue ops s1 of
             (Inl e, s2) \<Rightarrow> (Inl e, s2)
           | (Inr flush_ok, s2) \<Rightarrow> (Inr (list_all id bs, flush_ok), s2)))"

definition set_node :: "offline_queue \<times> agent_state \<times> 'w \<Rightarrow> 'w agent \<Rightarrow> 'w agent" where
  "set_node s a = (case s of (q, st, w) \<Rightarrow> a\<lparr>ag_queue := q, ag_state := st, ag_world := w\<rparr>)"

lemma set_node_eq [simp]: "set_node (q, st, w) a = a\<lparr>ag_queue := q, ag_state := st, ag_world := w\<rparr>"
  by (simp add: set_node_def)

definition account :: "telemetry list \<Rightarrow> string option \<Rightarrow> agent_state \<Rightarrow> agent_state" where
  "account records last_error st = st\<lparr>
     as_last_sample_at := (if records = [] then None else Some (tr_captured_at (last records))),
     as_samples_total := as_samples_total st + int (length records), as_last_error := last_error\<rparr>"

definition cycle_body :: "'w agent_ops \<Rightarrow> 'w serial_ops \<Rightarrow> ('w agent, unit) io" where
  "cycle_body ops sops a =
     (case sample_batch ops sops (ag_cfg a) (ag_readers a) (ag_client a, ag_world a) of
        None \<Rightarrow> None
      | Some (Inl e, (c, w)) \<Rightarrow> Some (Inl e, a\<lparr>ag_client := c, ag_world := w\<rparr>)
      | Some (Inr (records, sample_error), (c, w)) \<Rightarrow>
          let a1 = a\<lparr>ag_client := c, ag_world := w\<rparr> in
          Some (case publish_batch ops (ag_cfg a) records (ag_queue a1, ag_state a1, ag_world a1) of
             (Inl e, s) \<Rightarrow> (Inl e, set_node s a1)
           | (Inr (publish_ok, flush_ok), s) \<Rightarrow>
               let a2 = set_node s a1;
                   last_error = (if sample_error = None \<and> (\<not> publish_ok \<or> \<not> flush_ok)
                     then Some ''MQTT unavailable; telemetry queued locally'' else sample_error);
                   a3 = a2\<lparr>ag_state := account records last_error (ag_state a2)\<rparr>
               in (case ag_operational a3 of
                     None \<Rightarrow> (Inr (), a3)
                   | Some p \<Rightarrow>
                       if \<not> as_mqtt_connected (ag_state a3) then (Inr (), a3)
                       else (case agent_health ops False p a3 of
                          (Inl e, a4) \<Rightarrow> (Inl e, a4)
                        | (Inr due, a4) \<Rightarrow>
                            (Inr (), if due = Some False then set_error ''node health publish failed'' a4 else a4)))))"

text \<open>\<open>except Exception\<close> around the body records the message and the loop goes on.\<close>

definition run_cycle :: "'w agent_ops \<Rightarrow> 'w serial_ops \<Rightarrow> 'w agent \<Rightarrow> 'w agent option" where
  "run_cycle ops sops a = (case cycle_body ops sops a of
      None \<Rightarrow> None
    | Some (Inl e, a1) \<Rightarrow> Some (set_error (exn_str e) a1)
    | Some (Inr _, a1) \<Rightarrow> Some a1)"

fun run_cycles :: "'w agent_ops \<Rightarrow> 'w serial_ops \<Rightarrow> nat \<Rightarrow> 'w agent \<Rightarrow> 'w agent option" where
  "run_cycles ops sops 0 a = Some a"
| "run_cycles ops sops (Suc n) a = Option.bind (run_cycle ops sops a) (run_cycles ops sops n)"

text \<open>The \<open>finally\<close> of \<open>run\<close>: close the serial port and announce the graceful stop.\<close>

definition shutdown :: "'w agent_ops \<Rightarrow> 'w serial_ops \<Rightarrow> 'w agent \<Rightarrow> unit result \<times> 'w agent" where
  "shutdown ops sops a =
     (case (if rd_client (ag_readers a) = None then (Inr (), ag_client a, ag_world a)
            else client_close sops (ag_client a) (ag_world a)) of
        (Inl e, c, w) \<Rightarrow> (Inl e, a\<lparr>ag_client := c, ag_world := w\<rparr>)
      | (Inr _, c, w) \<Rightarrow>
          let a1 = a\<lparr>ag_client := c, ag_world := w\<rparr> in
          (case ag_operational a1 of
             None \<Rightarrow> (Inr (), a1)
           | Some p \<Rightarrow>
               if \<not> as_mqtt_connected (ag_state a1) then (Inr (), a1)
               else (case with_pub (publish_graceful_offline ops) p a1 of
                  (Inl e, a2) \<Rightarrow> (Inl e, a2)
                | (Inr _, a2) \<Rightarrow> (Inr (), a2))))"

section \<open>The publishing of a cycle refines the life of the node\<close>

definition at_node :: "'w node \<Rightarrow> offline_queue \<times> agent_state \<times> 'w \<Rightarrow> bool" where
  "at_node n s = ((nd_queue n, nd_state n, nd_world n) = s)"

lemma reaches_trans: "reaches ops cfg m n \<Longrightarrow> reaches ops cfg l m \<Longrightarrow> reaches ops cfg l n"
  by (induction rule: reaches.induct) (auto intro: reaches.step)

lemma persist_reaches:
  assumes "at_node n s" and "persist_record ops cfg r s = (x, s')"
  shows "\<exists>n'. reaches ops cfg n n' \<and> at_node n' s'
    \<and> nd_accepted n' = nd_accepted n @ (case x of Inl e \<Rightarrow> [] | Inr u \<Rightarrow> [r])"
proof -
  obtain q st w where s': "s' = (q, st, w)" by (cases s')
  from assms have "persist_record ops cfg r (nd_queue n, nd_state n, nd_world n) = (x, (q, st, w))"
    by (simp add: at_node_def s')
  from reaches.step [OF reaches.start node_step.persist [OF this]] show ?thesis
    by (rule_tac exI, rule_tac conjI, assumption) (simp add: at_node_def s')
qed

lemma flush_reaches:
  assumes "at_node n s" and "flush_queue ops s = (x, s')"
  shows "\<exists>n'. reaches ops cfg n n' \<and> at_node n' s' \<and> nd_accepted n' = nd_accepted n"
proof -
  obtain q st w where s': "s' = (q, st, w)" by (cases s')
  from assms have "flush_queue ops (nd_queue n, nd_state n, nd_world n) = (x, (q, st, w))"
    by (simp add: at_node_def s')
  from reaches.step [OF reaches.start node_step.flush [OF this]]
  have "reaches ops cfg n (n\<lparr>nd_queue := q, nd_state := st, nd_world := w\<rparr>)" .
  then show ?thesis
    by (intro exI [of _ "n\<lparr>nd_queue := q, nd_state := st, nd_world := w\<rparr>"]) (simp add: at_node_def s')
qed

text \<open>The records a call has accepted: a prefix of those it was given, all of them when it returns.\<close>

definition accepts :: "telemetry list \<Rightarrow> telemetry list \<Rightarrow> bool \<Rightarrow> telemetry list \<Rightarrow> bool" where
  "accepts rs before returned after \<longleftrightarrow> (\<exists>k. after = before @ take k rs) \<and> (returned \<longrightarrow> after = before @ rs)"

lemma accepts_append: "accepts rs a True b \<Longrightarrow> accepts ss b v c \<Longrightarrow> accepts (rs @ ss) a v c"
  unfolding accepts_def by (elim conjE exE) (rule conjI, rule_tac x = "length rs + ka" in exI, simp_all)

lemma accepts_prefix: "accepts rs a v b \<Longrightarrow> accepts (rs @ ss) a False b"
proof -
  assume "accepts rs a v b"
  then obtain k where "b = a @ take k rs" by (auto simp: accepts_def)
  also have "take k rs = take (min k (length rs)) (rs @ ss)" by (simp add: min_def)
  finally show ?thesis unfolding accepts_def by blast
qed

lemma publish_or_queue_reaches:
  assumes "at_node n s" and "publish_or_queue ops cfg r s = (x, s')"
  shows "\<exists>n'. reaches ops cfg n n' \<and> at_node n' s' \<and> accepts [r] (nd_accepted n) (isOk x) (nd_accepted n')"
proof -
  obtain y s1 where y: "persist_record ops cfg r s = (y, s1)" by (cases "persist_record ops cfg r s")
  from persist_reaches [OF assms(1) y] obtain n1 where n1: "reaches ops cfg n n1" "at_node n1 s1"
    and acc: "nd_accepted n1 = nd_accepted n @ (case y of Inl e \<Rightarrow> [] | Inr u \<Rightarrow> [r])" by blast
  obtain q st w where s1: "s1 = (q, st, w)" by (cases s1)
  have a: "accepts [r] (nd_accepted n) (isOk x) (nd_accepted n1)"
  proof (cases y)
    case (Inl e)
    with acc assms(2) y show ?thesis by (auto simp: publish_or_queue_def accepts_def intro: exI [of _ 0])
  next
    case (Inr u)
    with acc show ?thesis by (auto simp: accepts_def intro: exI [of _ 1])
  qed
  show ?thesis
  proof (cases "\<exists>u. y = Inr u \<and> as_mqtt_connected st")
    case True
    with assms(2) y s1 have "flush_queue ops s1 = (x, s')" by (auto simp: publish_or_queue_def)
    from flush_reaches [OF n1(2) this, of cfg] obtain n2 where
      n2: "reaches ops cfg n1 n2" "at_node n2 s'" "nd_accepted n2 = nd_accepted n1" by blast
    with reaches_trans [OF n2(1) n1(1)] a show ?thesis by auto
  next
    case False
    with assms(2) y s1 have "s' = s1" by (auto simp: publish_or_queue_def split: sum.splits)
    with n1 a show ?thesis by blast
  qed
qed

lemma publish_records_reaches:
  "at_node n s \<Longrightarrow> publish_records ops cfg rs s = (x, s')
    \<Longrightarrow> \<exists>n'. reaches ops cfg n n' \<and> at_node n' s' \<and> accepts rs (nd_accepted n) (isOk x) (nd_accepted n')"
proof (induction rs arbitrary: n s x s')
  case Nil
  then show ?case by (auto simp: accepts_def intro: reaches.start)
next
  case (Cons r rs)
  obtain y s1 where y: "publish_or_queue ops cfg r s = (y, s1)" by (cases "publish_or_queue ops cfg r s")
  from publish_or_queue_reaches [OF Cons.prems(1) y] obtain n1 where
    n1: "reaches ops cfg n n1" "at_node n1 s1" "accepts [r] (nd_accepted n) (isOk y) (nd_accepted n1)" by blast
  show ?case
  proof (cases y)
    case (Inl e)
    with Cons.prems(2) y have "x = Inl e" "s' = s1" by auto
    with accepts_prefix [OF n1(3), of rs] n1(1,2) show ?thesis by (auto simp: isOk_def)
  next
    case (Inr b)
    obtain z s2 where z: "publish_records ops cfg rs s1 = (z, s2)" by (cases "publish_records ops cfg rs s1")
    from Cons.prems(2) y Inr z have s2: "s2 = s'" "isOk x = isOk z" by (auto simp: isOk_def split: sum.splits)
    from Cons.IH [OF n1(2) z] obtain n2 where n2: "reaches ops cfg n1 n2" "at_node n2 s2"
      "accepts rs (nd_accepted n1) (isOk z) (nd_accepted n2)" by blast
    from accepts_append [OF _ n2(3), of "[r]"] n1(3) Inr have "accepts (r # rs) (nd_accepted n) (isOk z) (nd_accepted n2)"
      by (simp add: isOk_def)
    with reaches_trans [OF n2(1) n1(1)] n2(2) s2 show ?thesis by auto
  qed
qed

lemma publish_batch_reaches:
  assumes "at_node n s" and "publish_batch ops cfg rs s = (x, s')"
  shows "\<exists>n'. reaches ops cfg n n' \<and> at_node n' s' \<and> accepts rs (nd_accepted n) (isOk x) (nd_accepted n')"
proof -
  obtain y s1 where y: "publish_records ops cfg rs s = (y, s1)" by (cases "publish_records ops cfg rs s")
  from publish_records_reaches [OF assms(1) y] obtain n1 where
    n1: "reaches ops cfg n n1" "at_node n1 s1" "accepts rs (nd_accepted n) (isOk y) (nd_accepted n1)" by blast
  show ?thesis
  proof (cases y)
    case (Inl e)
    with assms(2) y n1 show ?thesis by (auto simp: publish_batch_def isOk_def)
  next
    case (Inr bs)
    obtain z s2 where z: "flush_queue ops s1 = (z, s2)" by (cases "flush_queue ops s1")
    from assms(2) y Inr z have "s2 = s'" by (auto simp: publish_batch_def split: sum.splits)
    moreover have "accepts rs (nd_accepted n) (isOk x) (nd_accepted n1)"
      using n1(3) Inr by (auto simp: accepts_def intro: exI [of _ "length rs"])
    moreover from flush_reaches [OF n1(2) z, of cfg] obtain n2 where
      n2: "reaches ops cfg n1 n2" "at_node n2 s2" "nd_accepted n2 = nd_accepted n1" by blast
    ultimately show ?thesis using reaches_trans [OF n2(1) n1(1)] by auto
  qed
qed

section \<open>Properties\<close>

text \<open>Publishing a batch is a run of the node. Whatever it returns or raises, its effect on queue, state
  and broker is a sequence of insertions and flushes of a prefix of the batch, of the whole batch when it returns, and
  everything accepted, before and by the call, is still queued or acknowledged.\<close>

theorem publish_batch_refines:
  assumes "publish_batch ops cfg rs (q, st, w) = (x, (q', st', w'))"
    and "acknowledges ops delivered"
    and "nothing_lost cfg old delivered \<lparr>nd_queue = q, nd_state = st, nd_world = w, nd_accepted = acc\<rparr>"
  shows "\<exists>acc'. reaches ops cfg \<lparr>nd_queue = q, nd_state = st, nd_world = w, nd_accepted = acc\<rparr>
        \<lparr>nd_queue = q', nd_state = st', nd_world = w', nd_accepted = acc'\<rparr>
    \<and> accepts rs acc (isOk x) acc'
    \<and> nothing_lost cfg old delivered \<lparr>nd_queue = q', nd_state = st', nd_world = w', nd_accepted = acc'\<rparr>"
proof -
  let ?n = "\<lparr>nd_queue = q, nd_state = st, nd_world = w, nd_accepted = acc\<rparr>"
  have at: "at_node ?n (q, st, w)" by (simp add: at_node_def)
  from publish_batch_reaches [OF at assms(1)] obtain n' where
    n': "reaches ops cfg ?n n'" "at_node n' (q', st', w')" "accepts rs acc (isOk x) (nd_accepted n')" by auto
  then have "n' = \<lparr>nd_queue = q', nd_state = st', nd_world = w', nd_accepted = nd_accepted n'\<rparr>"
    by (simp add: at_node_def)
  with n' reaches_keeps [OF n'(1) assms(2,3)] show ?thesis by (intro exI [of _ "nd_accepted n'"]) auto
qed

theorem publish_batch_refines_witness:
  "\<exists>x q' st' w' acc'. publish_batch sim_broker sample_settings [sim_record] (one_row_queue, connected_state, []) = (x, (q', st', w'))
    \<and> acc' = [sim_record]
    \<and> nothing_lost sample_settings (queue_rows one_row_queue) set \<lparr>nd_queue = q', nd_state = st', nd_world = w', nd_accepted = acc'\<rparr>"
proof -
  obtain x q' st' w' where run: "publish_batch sim_broker sample_settings [sim_record] (one_row_queue, connected_state, []) = (x, (q', st', w'))"
    by (metis surj_pair)
  have "isOk (fst (publish_batch sim_broker sample_settings [sim_record] (one_row_queue, connected_state, [])))" by code_simp
  with run have "isOk x" by simp
  moreover have "nothing_lost sample_settings (queue_rows one_row_queue) set
      \<lparr>nd_queue = one_row_queue, nd_state = connected_state, nd_world = [], nd_accepted = []\<rparr>"
    using nothing_lost_start [of "\<lparr>nd_queue = one_row_queue, nd_state = connected_state, nd_world = [], nd_accepted = []\<rparr>"]
      one_row_queue_ok by simp
  ultimately show ?thesis
    using publish_batch_refines [OF run sim_broker_acknowledges] run by (fastforce simp: accepts_def)
qed

lemma agent_health_state: "agent_health ops False p a = (r, a') \<Longrightarrow> ag_state a' = ag_state a"
  by (auto simp: agent_health_def with_pub_def split: prod.splits)

text \<open>The health report that ends a cycle changes no total and clears no error.\<close>

lemma cycle_health:
  assumes body: "cycle_body ops sops a = Some (case ag_operational a3 of
        None \<Rightarrow> (Inr (), a3)
      | Some p \<Rightarrow> if \<not> as_mqtt_connected (ag_state a3) then (Inr (), a3)
          else (case agent_health ops False p a3 of
             (Inl e, a4) \<Rightarrow> (Inl e, a4)
           | (Inr due, a4) \<Rightarrow> (Inr (), if due = Some False then set_error ''node health publish failed'' a4 else a4)))"
  obtains a' where "run_cycle ops sops a = Some a'" "as_samples_total (ag_state a') = as_samples_total (ag_state a3)"
    "as_last_error (ag_state a') = None \<longrightarrow> as_last_error (ag_state a3) = None"
proof (cases "ag_operational a3")
  case None
  with body that [of a3] show ?thesis by (simp add: run_cycle_def)
next
  case (Some p)
  obtain r a4 where h: "agent_health ops False p a3 = (r, a4)" by (cases "agent_health ops False p a3")
  note keep = agent_health_state [OF h]
  show ?thesis
  proof (cases "as_mqtt_connected (ag_state a3)")
    case False
    with Some body that [of a3] show ?thesis by (simp add: run_cycle_def)
  next
    case True
    show ?thesis
    proof (cases r)
      case (Inl e)
      with True Some body h keep that [of "set_error (exn_str e) a4"] show ?thesis
        by (simp add: run_cycle_def set_error_def)
    next
      case (Inr due)
      with True Some body h keep that [of "if due = Some False then set_error ''node health publish failed'' a4 else a4"]
      show ?thesis by (simp add: run_cycle_def set_error_def split: if_splits)
    qed
  qed
qed

text \<open>C30: A cycle never ends the loop. As long as sampling returns, the cycle returns; it adds exactly the
  sampled records to the total or, after an exception before the accounting, none, and then the
  exception's text is the last error; a cycle without an error text has sampled without a
  communication error, persisted and published every record and emptied what the flush read.\<close>

theorem cycle_accounting:
  assumes "sample_batch ops sops (ag_cfg a) (ag_readers a) (ag_client a, ag_world a) = Some (x, (c, w))"
  shows "\<exists>a'. run_cycle ops sops a = Some a' \<and>
    (case x of
       Inl e \<Rightarrow> as_last_error (ag_state a') = Some (exn_str e)
         \<and> as_samples_total (ag_state a') = as_samples_total (ag_state a) \<and> ag_queue a' = ag_queue a
     | Inr (records, err) \<Rightarrow>
         (case publish_batch ops (ag_cfg a) records (ag_queue a, ag_state a, w) of
            (Inl e, (q, st, w1)) \<Rightarrow> as_last_error (ag_state a') = Some (exn_str e)
              \<and> as_samples_total (ag_state a') = as_samples_total st \<and> ag_queue a' = q
          | (Inr (published, flushed), (q, st, w1)) \<Rightarrow>
              as_samples_total (ag_state a') = as_samples_total st + int (length records)
              \<and> (as_last_error (ag_state a') = None \<longrightarrow> err = None \<and> published \<and> flushed)))"
proof (cases x)
  case (Inl e)
  with assms show ?thesis by (simp add: run_cycle_def cycle_body_def set_error_def)
next
  case (Inr y)
  obtain records err where y: "y = (records, err)" by (cases y)
  obtain z q st w1 where z: "publish_batch ops (ag_cfg a) records (ag_queue a, ag_state a, w) = (z, (q, st, w1))"
    by (metis surj_pair)
  show ?thesis
  proof (cases z)
    case zl: (Inl e)
    with assms Inr y z show ?thesis
      by (simp add: run_cycle_def cycle_body_def set_error_def set_node_def)
  next
    case zr: (Inr pf)
    obtain published flushed where pf: "pf = (published, flushed)" by (cases pf)
    define le where "le = (if err = None \<and> (\<not> published \<or> \<not> flushed)
       then Some ''MQTT unavailable; telemetry queued locally'' else err)"
    define a3 where "a3 = a\<lparr>ag_client := c, ag_queue := q, ag_world := w1, ag_state := account records le st\<rparr>"
    have body: "cycle_body ops sops a = Some (case ag_operational a3 of
          None \<Rightarrow> (Inr (), a3)
        | Some p \<Rightarrow> if \<not> as_mqtt_connected (ag_state a3) then (Inr (), a3)
            else (case agent_health ops False p a3 of
               (Inl e, a4) \<Rightarrow> (Inl e, a4)
             | (Inr due, a4) \<Rightarrow> (Inr (), if due = Some False then set_error ''node health publish failed'' a4 else a4)))"
      using assms Inr y z zr pf by (simp add: cycle_body_def Let_def a3_def le_def cong: if_cong option.case_cong)
    from body obtain a' where run: "run_cycle ops sops a = Some a'"
      and st': "as_samples_total (ag_state a') = as_samples_total (ag_state a3)"
        "as_last_error (ag_state a') = None \<longrightarrow> as_last_error (ag_state a3) = None" by (rule cycle_health)
    have "as_last_error (ag_state a3) = None \<longrightarrow> err = None \<and> published \<and> flushed"
      by (auto simp: a3_def account_def le_def split: if_splits)
    moreover have "as_samples_total (ag_state a3) = as_samples_total st + int (length records)"
      by (simp add: a3_def account_def)
    ultimately show ?thesis using run st' Inr y z zr pf by auto
  qed
qed

definition sample_agent :: "'w \<Rightarrow> 'w agent" where
  "sample_agent w = \<lparr>ag_cfg = sample_settings, ag_queue = fresh_queue [], ag_state = connected_state,
     ag_operational = None, ag_client = sim_client, ag_readers = xjp_only\<lparr>rd_xjp60d := None\<rparr>, ag_world = w\<rparr>"

theorem cycle_accounting_witness:
  "\<exists>a'. run_cycle quiet_ops (sim_ops []) (sample_agent (0, [], [])) = Some a'
    \<and> as_last_error (ag_state a') = Some ''XJP60D reader was not initialized''"
proof -
  let ?a = "sample_agent (0, [], [])"
  have "sample_batch quiet_ops (sim_ops []) sample_settings (xjp_only\<lparr>rd_xjp60d := None\<rparr>) (sim_client, (0, [], []))
      = Some (Inl (RuntimeError ''XJP60D reader was not initialized''), (sim_client, (0, [], [])))"
    by (simp add: sample_batch_def sample_settings_mode now_text_def quiet_ops_def ibind_def when_mode_def
        mode_uses_xjp60d_def sample_xjp60d_def xjp_only_def iraise_def Let_def)
  then have run: "sample_batch quiet_ops (sim_ops []) (ag_cfg ?a) (ag_readers ?a) (ag_client ?a, ag_world ?a)
      = Some (Inl (RuntimeError ''XJP60D reader was not initialized''), (sim_client, (0, [], [])))"
    by (simp add: sample_agent_def)
  from cycle_accounting [OF run] show ?thesis by auto
qed

end
