(* ===== verification/PyNum.thy ===== *)
theory PyNum
  imports PyStr
begin

text \<open>
  Python's reading and writing of floats: \<open>float(text)\<close> and \<open>str(x)\<close>, the shortest decimal that
  rounds back to \<open>x\<close>. A text that is no number is \<open>NotFloat\<close>; \<open>nan\<close>, the infinities and decimals
  beyond the largest float are \<open>NonFinite\<close>, which every range test of the modelled code rejects.
\<close>

section \<open>Reading\<close>

datatype float_text = NotFloat | NonFinite | Finite pyfloat

text \<open>Digits with single underscores between them: the value, how many, and the rest of the text.\<close>

fun float_digits :: "bool \<Rightarrow> nat \<Rightarrow> nat \<Rightarrow> string \<Rightarrow> (nat \<times> nat \<times> string) option" where
  "float_digits u acc n [] = (if u then None else Some (acc, n, []))"
| "float_digits u acc n (c # s) =
     (if is_digit c then float_digits False (10 * acc + (of_char c - 48)) (Suc n) s
      else if u then None
      else if c = CHR ''_'' then (if 0 < n then float_digits True acc n s else None)
      else Some (acc, n, c # s))"

definition float_sign :: "string \<Rightarrow> bool \<times> string" where
  "float_sign s = (case s of
      [] \<Rightarrow> (False, [])
    | c # r \<Rightarrow> if c = CHR ''-'' then (True, r) else if c = CHR ''+'' then (False, r) else (False, s))"

definition float_exponent :: "string \<Rightarrow> int option" where
  "float_exponent s = (case s of
      [] \<Rightarrow> Some 0
    | c # r \<Rightarrow>
        if c = CHR ''e'' \<or> c = CHR ''E'' then
          (case float_sign r of (neg, ds) \<Rightarrow>
             (case float_digits False 0 0 ds of
                Some (e, n, rest) \<Rightarrow> if 0 < n \<and> rest = [] then Some (if neg then - int e else int e) else None
              | None \<Rightarrow> None))
        else None)"

definition finite_or_not :: "rat \<Rightarrow> float_text" where
  "finite_or_not x = (let v = fl x in if \<bar>v\<bar> < 2 ^ 1024 then Finite v else NonFinite)"

definition py_float :: "string \<Rightarrow> float_text" where
  "py_float text =
     (case float_sign (strip text) of (neg, body) \<Rightarrow>
        if lower body \<in> {''inf'', ''infinity'', ''nan''} then NonFinite
        else (case float_digits False 0 0 body of
            None \<Rightarrow> NotFloat
          | Some (i, ni, rest) \<Rightarrow>
              (case (case rest of
                       [] \<Rightarrow> Some (0, 0, [])
                     | c # r \<Rightarrow> if c = CHR ''.'' then float_digits False 0 0 r else Some (0, 0, rest)) of
                 None \<Rightarrow> NotFloat
               | Some (f, nf, rest2) \<Rightarrow>
                   if ni + nf = 0 then NotFloat
                   else (case float_exponent rest2 of
                       None \<Rightarrow> NotFloat
                     | Some e \<Rightarrow>
                         (let v = (of_nat (i * 10 ^ nf + f) / 10 ^ nf) * 10 powi e
                          in finite_or_not (if neg then - v else v))))))"

section \<open>Writing\<close>

text \<open>The exponent of the first digit: the \<open>k\<close> with \<open>10 ^ k \<le> x < 10 ^ (k + 1)\<close>, for \<open>0 < x\<close>.\<close>

definition dec_exp :: "rat \<Rightarrow> int" where
  "dec_exp x =
     (if 1 \<le> x then int (length (dec \<lfloor>x\<rfloor>)) - 1
      else let l = int (length (dec \<lfloor>1 / x\<rfloor>)) in if 1 \<le> x * 10 powi (l - 1) then 1 - l else - l)"

text \<open>The significand of \<open>n\<close> digits, and the fewest digits that denote the same float.\<close>

definition significand :: "rat \<Rightarrow> int \<Rightarrow> nat \<Rightarrow> int" where
  "significand x k n = rhe (x * 10 powi (int n - 1 - k))"

definition shortest :: "rat \<Rightarrow> int \<Rightarrow> nat" where
  "shortest x k = (case List.find (\<lambda>n. fl (of_int (significand x k n) * 10 powi (k + 1 - int n)) = x) [1..<17] of
      None \<Rightarrow> 17
    | Some n \<Rightarrow> n)"

definition drop_zeros :: "string \<Rightarrow> string" where
  "drop_zeros s = rev (dropWhile (\<lambda>c. c = CHR ''0'') (rev s))"

definition zeros :: "nat \<Rightarrow> string" where
  "zeros n = replicate n (CHR ''0'')"

text \<open>The digits \<open>ds\<close> with the decimal point after the digit of weight \<open>10 ^ 0\<close>, the first digit having
  weight \<open>10 ^ k\<close>; very large and very small numbers in exponent notation.\<close>

definition place_point :: "string \<Rightarrow> int \<Rightarrow> string" where
  "place_point ds k =
     (if k < - 4 \<or> 16 \<le> k then
        hd ds # (if tl ds = [] then [] else CHR ''.'' # tl ds)
          @ CHR ''e'' # (if k < 0 then CHR ''-'' else CHR ''+'') # dec02 \<bar>k\<bar>
      else if k < 0 then ''0.'' @ zeros (nat (- k - 1)) @ ds
      else if length ds \<le> nat k + 1 then ds @ zeros (nat k + 1 - length ds) @ ''.0''
      else take (nat k + 1) ds @ CHR ''.'' # drop (nat k + 1) ds)"

definition float_str :: "pyfloat \<Rightarrow> string" where
  "float_str x =
     (if x = 0 then ''0.0''
      else let a = \<bar>x\<bar>; k = dec_exp a; n = shortest a k; m = significand a k n; ds = dec m
        in (if x < 0 then ''-'' else []) @ place_point (drop_zeros ds) (if n < length ds then k + 1 else k))"

end
