(* ===== verification/Cadence.thy ===== *)
theory Cadence
  imports Settings PyNum "HOL-Library.Char_ord" "HOL-Library.List_Lexorder" "HOL-Library.Product_Lexorder"
begin

text \<open>
  \<open>services/device-agent/acquisition_cadence.py\<close>: the persisted polling cadence. A policy gives every
  family of devices on a bus a default interval, and single devices an override; the functions here
  build it from the legacy settings, read and write it as JSON, validate it against the devices of the
  registry, and change it. The mutation changes are the audit rows.
\<close>

section \<open>Policies and mutations\<close>

record device_ref =
  dv_device_id :: string
  dv_bus_id :: string
  dv_family :: string

record family_default =
  fd_bus_id :: string
  fd_family :: string
  fd_interval :: pyfloat

record device_override =
  do_device_id :: string
  do_interval :: pyfloat

record cadence_policy =
  cp_defaults :: "family_default list"
  cp_overrides :: "device_override list"

record family_mutation =
  fm_bus_id :: string
  fm_family :: string
  fm_interval :: pyfloat

record device_mutation =
  dm_device_id :: string
  dm_interval :: "pyfloat option"

record cadence_mutation =
  cm_defaults :: "family_mutation list"
  cm_overrides :: "device_mutation list"

record change =
  ch_entity :: string
  ch_id :: string
  ch_from :: string
  ch_to :: string

definition cadence_presets :: "int list" where
  "cadence_presets = [10, 30, 60]"

definition cadence_min :: pyfloat where
  "cadence_min = 10"

definition cadence_max :: pyfloat where
  "cadence_max = 3600"

definition device_families :: "string list" where
  "device_families = [''xjp60d'', ''le01mp'', ''sdm120'', ''waveshare_8ai'', ''embraco'']"

definition fd_key :: "family_default \<Rightarrow> string \<times> string" where
  "fd_key d = (fd_bus_id d, fd_family d)"

definition dv_key :: "'a device_ref_scheme \<Rightarrow> string \<times> string" where
  "dv_key d = (dv_bus_id d, dv_family d)"

section \<open>Intervals\<close>

definition check_interval :: "pyfloat \<Rightarrow> string \<Rightarrow> pyfloat result" where
  "check_interval x label =
     (if cadence_min \<le> x \<and> x \<le> cadence_max then Inr x
      else Inl (ValueError (label @ '' must be between 10 and 3600 seconds'')))"

fun json_interval :: "json \<Rightarrow> string \<Rightarrow> pyfloat result" where
  "json_interval (JInt n) label = ebind (float_of_int n) (\<lambda>x. check_interval x label)"
| "json_interval (JFloat x) label = check_interval x label"
| "json_interval v label = Inl (ValueError (label @ '' must be numeric''))"

definition legacy_interval :: "(string \<Rightarrow> string option) \<Rightarrow> string \<Rightarrow> pyfloat \<Rightarrow> pyfloat result" where
  "legacy_interval env name dflt =
     (let raw = strip (case env name of None \<Rightarrow> [] | Some v \<Rightarrow> v);
          out_of_range = Inl (ValueError (name @ '' must be between 1 and 3600 seconds''));
          in_range = (\<lambda>x. if 1 \<le> x \<and> x \<le> cadence_max then Inr x else out_of_range)
      in if raw = [] then in_range dflt
         else (case py_float raw of
             NotFloat \<Rightarrow> Inl (ValueError (''could not convert string to float: '' @ py_repr raw))
           | NonFinite \<Rightarrow> out_of_range
           | Finite x \<Rightarrow> in_range x))"

definition legacy_priority_intervals ::
  "pyfloat \<Rightarrow> (string \<Rightarrow> string option) \<Rightarrow> (pyfloat \<times> pyfloat \<times> pyfloat) result" where
  "legacy_priority_intervals legacy env =
     ebind (legacy_interval env ''ACQUISITION_HIGH_INTERVAL_SECONDS'' (max 5 legacy)) (\<lambda>high.
     ebind (legacy_interval env ''ACQUISITION_MEDIUM_INTERVAL_SECONDS'' (max 10 high)) (\<lambda>medium.
     ebind (legacy_interval env ''ACQUISITION_LOW_INTERVAL_SECONDS'' (max 30 medium)) (\<lambda>low.
       if high \<le> medium \<and> medium \<le> low then Inr (high, medium, low)
       else Inl (ValueError ''Adaptive intervals must satisfy high <= medium <= low''))))"

definition bootstrap_default :: "pyfloat \<Rightarrow> pyfloat \<Rightarrow> string \<times> string \<Rightarrow> family_default result" where
  "bootstrap_default high low = (\<lambda>(bus, family).
     if family \<notin> set device_families then
       Inl (ValueError (''Unsupported cadence device family: '' @ family))
     else Inr \<lparr>fd_bus_id = bus, fd_family = family,
       fd_interval = min cadence_max (max cadence_min (if family = ''xjp60d'' then high else low))\<rparr>)"

definition build_bootstrap_policy ::
  "pyfloat \<Rightarrow> (string \<times> string) list \<Rightarrow> (string \<Rightarrow> string option) \<Rightarrow> cadence_policy result" where
  "build_bootstrap_policy legacy keys env =
     ebind (legacy_priority_intervals legacy env) (\<lambda>(high, medium, low).
     ebind (emap (bootstrap_default high low) (sort (remdups keys))) (\<lambda>defaults.
       Inr \<lparr>cp_defaults = defaults, cp_overrides = []\<rparr>))"

section \<open>JSON\<close>

definition default_json :: "family_default \<Rightarrow> json" where
  "default_json d = JObj [(''bus_id'', JStr (fd_bus_id d)), (''device_family'', JStr (fd_family d)),
     (''interval_seconds'', JFloat (fd_interval d))]"

definition override_json :: "device_override \<Rightarrow> json" where
  "override_json d = JObj [(''device_id'', JStr (do_device_id d)), (''interval_seconds'', JFloat (do_interval d))]"

definition cadence_to_payload :: "cadence_policy \<Rightarrow> (string, json) dict" where
  "cadence_to_payload p =
     [(''presets_seconds'', JList (map JInt cadence_presets)),
      (''custom_min_seconds'', JInt 10), (''maximum_seconds'', JInt 3600),
      (''family_defaults'', JList (map default_json (cp_defaults p))),
      (''device_overrides'', JList (map override_json (cp_overrides p)))]"

text \<open>\<open>item.get(key)\<close> of an object, a non-blank string, and a loop over the items with their index.\<close>

definition jget :: "(string \<times> json) list \<Rightarrow> string \<Rightarrow> json" where
  "jget obj key = dget_or obj key JNull"

fun nonblank :: "json \<Rightarrow> string \<Rightarrow> string result" where
  "nonblank (JStr s) msg = (if strip s = [] then Inl (ValueError msg) else Inr s)"
| "nonblank v msg = Inl (ValueError msg)"

fun known_family :: "json \<Rightarrow> string \<Rightarrow> string result" where
  "known_family (JStr s) msg = (if s \<in> set device_families then Inr s else Inl (ValueError msg))"
| "known_family v msg = Inl (ValueError msg)"

fun as_object :: "json \<Rightarrow> string \<Rightarrow> (string \<times> json) list result" where
  "as_object (JObj o1) msg = Inr o1"
| "as_object v msg = Inl (ValueError msg)"

fun as_array :: "json \<Rightarrow> json list option" where
  "as_array (JList xs) = Some xs"
| "as_array v = None"

fun each_indexed :: "(nat \<Rightarrow> json \<Rightarrow> 'a result) \<Rightarrow> nat \<Rightarrow> json list \<Rightarrow> 'a list result" where
  "each_indexed f i [] = Inr []"
| "each_indexed f i (x # xs) = ebind (f i x) (\<lambda>y. ebind (each_indexed f (Suc i) xs) (\<lambda>ys. Inr (y # ys)))"

definition at_index :: "string \<Rightarrow> nat \<Rightarrow> string" where
  "at_index name i = name @ ''['' @ dec (int i) @ '']''"

text \<open>The loop bodies shared by the two parsers, which differ in the labels and in what they build.\<close>

definition family_entry :: "string \<Rightarrow> nat \<Rightarrow> json \<Rightarrow> (string \<times> string \<times> pyfloat) result" where
  "family_entry name i item =
     (let lbl = at_index name i in
      ebind (as_object item (lbl @ '' must be an object'')) (\<lambda>obj.
      ebind (nonblank (jget obj ''bus_id'') (lbl @ ''.bus_id is required'')) (\<lambda>bus.
      ebind (known_family (jget obj ''device_family'') (lbl @ ''.device_family is invalid'')) (\<lambda>family.
      ebind (json_interval (jget obj ''interval_seconds'') (lbl @ ''.interval_seconds'')) (\<lambda>x.
        Inr (strip bus, family, x))))))"

definition device_entry :: "bool \<Rightarrow> string \<Rightarrow> nat \<Rightarrow> json \<Rightarrow> (string \<times> pyfloat option) result" where
  "device_entry nullable name i item =
     (let lbl = at_index name i in
      ebind (as_object item (lbl @ '' must be an object'')) (\<lambda>obj.
      ebind (nonblank (jget obj ''device_id'') (lbl @ ''.device_id is required'')) (\<lambda>device.
        let raw = jget obj ''interval_seconds'' in
        if nullable \<and> raw = JNull then Inr (strip device, None)
        else ebind (json_interval raw (lbl @ ''.interval_seconds'')) (\<lambda>x. Inr (strip device, Some x)))))"

fun cadence_from_payload :: "json \<Rightarrow> cadence_policy result" where
  "cadence_from_payload (JObj payload) =
     (case (as_array (dget_or payload ''family_defaults'' (JList [])),
            as_array (dget_or payload ''device_overrides'' (JList []))) of
        (Some raw_defaults, Some raw_overrides) \<Rightarrow>
          ebind (each_indexed (family_entry ''cadence.family_defaults'') 0 raw_defaults) (\<lambda>ds.
          ebind (each_indexed (device_entry False ''cadence.device_overrides'') 0 raw_overrides) (\<lambda>os.
            Inr \<lparr>cp_defaults = map (\<lambda>(b, f, x). \<lparr>fd_bus_id = b, fd_family = f, fd_interval = x\<rparr>) ds,
                 cp_overrides = map (\<lambda>(d, x). \<lparr>do_device_id = d, do_interval = the x\<rparr>) os\<rparr>))
      | _ \<Rightarrow> Inl (ValueError ''cadence family_defaults and device_overrides must be arrays''))"
| "cadence_from_payload v = Inl (ValueError ''cadence must be an object'')"

fun positive_int :: "json \<Rightarrow> string \<Rightarrow> int result" where
  "positive_int (JInt n) msg = (if n < 1 then Inl (ValueError msg) else Inr n)"
| "positive_int v msg = Inl (ValueError msg)"

definition parse_cadence_mutation :: "(string, json) dict \<Rightarrow> (int \<times> string \<times> cadence_mutation) result" where
  "parse_cadence_mutation payload =
     ebind (positive_int (jget payload ''expected_revision'') ''expected_revision must be a positive integer'') (\<lambda>rev.
     ebind (nonblank (jget payload ''reason'') ''reason must be a non-empty string'') (\<lambda>reason.
     (case (as_array (dget_or payload ''family_defaults'' (JList [])),
            as_array (dget_or payload ''device_overrides'' (JList []))) of
        (Some raw_defaults, Some raw_overrides) \<Rightarrow>
          if 200 < length raw_defaults + length raw_overrides then
            Inl (ValueError ''Cadence mutation is too large'')
          else
            ebind (each_indexed (family_entry ''family_defaults'') 0 raw_defaults) (\<lambda>ds.
            ebind (each_indexed (device_entry True ''device_overrides'') 0 raw_overrides) (\<lambda>os.
              if ds = [] \<and> os = [] then Inl (ValueError ''Cadence mutation requires at least one change'')
              else Inr (rev, strip reason,
                \<lparr>cm_defaults = map (\<lambda>(b, f, x). \<lparr>fm_bus_id = b, fm_family = f, fm_interval = x\<rparr>) ds,
                 cm_overrides = map (\<lambda>(d, x). \<lparr>dm_device_id = d, dm_interval = x\<rparr>) os\<rparr>)))
      | _ \<Rightarrow> Inl (ValueError ''family_defaults and device_overrides must be arrays''))))"

section \<open>Validation and lookup\<close>

definition by_device :: "'a device_ref_scheme list \<Rightarrow> (string, 'a device_ref_scheme) dict" where
  "by_device ds = index_by dv_device_id ds"

fun check_defaults ::
  "string set \<Rightarrow> family_default list \<Rightarrow> (string \<times> string) list \<Rightarrow> (string \<times> string) list result" where
  "check_defaults buses [] seen = Inr seen"
| "check_defaults buses (d # ds) seen =
     (if fd_key d \<in> set seen then
        Inl (ValueError (''Duplicate cadence family default: '' @ fd_bus_id d @ ''/'' @ fd_family d))
      else if fd_bus_id d \<notin> buses then
        Inl (ValueError (''Cadence default references unknown bus: '' @ fd_bus_id d))
      else if fd_family d \<notin> set device_families then
        Inl (ValueError (''Unsupported cadence device family: '' @ fd_family d))
      else ebind (check_interval (fd_interval d) ''cadence family default'') (\<lambda>_.
        check_defaults buses ds (seen @ [fd_key d])))"

fun check_overrides :: "string set \<Rightarrow> device_override list \<Rightarrow> string list \<Rightarrow> unit result" where
  "check_overrides devices [] seen = Inr ()"
| "check_overrides devices (d # ds) seen =
     (if do_device_id d \<in> set seen then
        Inl (ValueError (''Duplicate cadence device override: '' @ do_device_id d))
      else if do_device_id d \<notin> devices then
        Inl (ValueError (''Cadence override references unknown device: '' @ do_device_id d))
      else ebind (check_interval (do_interval d) ''cadence device override'') (\<lambda>_.
        check_overrides devices ds (seen @ [do_device_id d])))"

definition validate_policy ::
  "cadence_policy \<Rightarrow> string list \<Rightarrow> 'a device_ref_scheme list \<Rightarrow> cadence_policy result" where
  "validate_policy p buses devices =
     ebind (check_defaults (set buses) (cp_defaults p) []) (\<lambda>defaults.
       let missing = sort (filter (\<lambda>k. k \<notin> set defaults) (remdups (map dv_key devices))) in
       if missing \<noteq> [] then
         Inl (ValueError (''Missing cadence family defaults: ''
           @ join '', '' (map (\<lambda>(bus, family). bus @ ''/'' @ family) missing)))
       else ebind (check_overrides (set (map dv_device_id devices)) (cp_overrides p) []) (\<lambda>_. Inr p))"

definition family_default_interval :: "family_default list \<Rightarrow> string \<times> string \<Rightarrow> pyfloat result" where
  "family_default_interval ds key = (case List.find (\<lambda>d. fd_key d = key) ds of
      Some d \<Rightarrow> Inr (fd_interval d)
    | None \<Rightarrow> Inl (ValueError (''Missing cadence family default: '' @ fst key @ ''/'' @ snd key)))"

definition effective_interval ::
  "cadence_policy \<Rightarrow> string \<Rightarrow> string \<times> string \<Rightarrow> (pyfloat \<times> string) result" where
  "effective_interval p device key = (case List.find (\<lambda>d. do_device_id d = device) (cp_overrides p) of
      Some d \<Rightarrow> Inr (do_interval d, ''device_override'')
    | None \<Rightarrow> ebind (family_default_interval (cp_defaults p) key) (\<lambda>x. Inr (x, ''family_default'')))"

section \<open>Mutation\<close>

text \<open>The dictionaries of \<open>apply_mutation\<close>, the audit rows and the affected devices.\<close>

record mut_state =
  ms_defaults :: "(string \<times> string, family_default) dict"
  ms_overrides :: "(string, device_override) dict"
  ms_changes :: "change list"
  ms_affected :: "string set"

definition mutate_family ::
  "string set \<Rightarrow> 'a device_ref_scheme list \<Rightarrow> family_mutation \<Rightarrow> mut_state \<Rightarrow> mut_state result" where
  "mutate_family buses devices m s =
     (if fm_bus_id m \<notin> buses then
        Inl (ValueError (''Cadence mutation references unknown bus: '' @ fm_bus_id m))
      else if fm_family m \<notin> set device_families then
        Inl (ValueError (''Unsupported cadence device family: '' @ fm_family m))
      else ebind (check_interval (fm_interval m) ''cadence family interval'') (\<lambda>x.
        let key = (fm_bus_id m, fm_family m); shown = fm_bus_id m @ ''/'' @ fm_family m in
        (case dget (ms_defaults s) key of
           None \<Rightarrow> Inl (ValueError (''Unknown cadence family default: '' @ shown))
         | Some current \<Rightarrow>
             if fd_interval current = x then Inr s
             else Inr (s\<lparr>
               ms_defaults := dset key \<lparr>fd_bus_id = fm_bus_id m, fd_family = fm_family m, fd_interval = x\<rparr> (ms_defaults s),
               ms_changes := ms_changes s @ [\<lparr>ch_entity = ''cadence_family_default'', ch_id = shown,
                 ch_from = float_str (fd_interval current), ch_to = float_str x\<rparr>],
               ms_affected := ms_affected s \<union>
                 dv_device_id ` {d \<in> set devices. dv_key d = key \<and> dget (ms_overrides s) (dv_device_id d) = None}\<rparr>))))"

definition inherited_text :: "pyfloat \<Rightarrow> string" where
  "inherited_text x = ''inherited:'' @ float_str x"

definition note_override ::
  "(string, device_override) dict \<Rightarrow> string \<Rightarrow> string \<Rightarrow> string \<Rightarrow> mut_state \<Rightarrow> mut_state" where
  "note_override overrides device_id old_text new_text s = s\<lparr>ms_overrides := overrides,
     ms_changes := ms_changes s @ [\<lparr>ch_entity = ''cadence_device_override'', ch_id = device_id,
       ch_from = old_text, ch_to = new_text\<rparr>],
     ms_affected := insert device_id (ms_affected s)\<rparr>"

definition mutate_device ::
  "'a device_ref_scheme list \<Rightarrow> device_mutation \<Rightarrow> mut_state \<Rightarrow> mut_state result" where
  "mutate_device devices m s =
     (let device_id = dm_device_id m in
      case dget (by_device devices) device_id of
        None \<Rightarrow> Inl (ValueError (''Cadence mutation references unknown device: '' @ device_id))
      | Some device \<Rightarrow>
          (case dm_interval m of
             None \<Rightarrow>
               (case dget (ms_overrides s) device_id of
                  None \<Rightarrow> Inr s
                | Some current \<Rightarrow>
                    ebind (family_default_interval (map snd (ms_defaults s)) (dv_key device)) (\<lambda>inherited.
                      Inr (note_override (dpop device_id (ms_overrides s)) device_id
                        (float_str (do_interval current)) (inherited_text inherited) s)))
           | Some raw \<Rightarrow>
               ebind (check_interval raw ''cadence device interval'') (\<lambda>x.
                 if map_option do_interval (dget (ms_overrides s) device_id) = Some x then Inr s
                 else ebind (family_default_interval (map snd (ms_defaults s)) (dv_key device)) (\<lambda>inherited.
                   Inr (note_override (dset device_id \<lparr>do_device_id = device_id, do_interval = x\<rparr> (ms_overrides s))
                     device_id
                     (case dget (ms_overrides s) device_id of
                        None \<Rightarrow> inherited_text inherited
                      | Some current \<Rightarrow> float_str (do_interval current))
                     (float_str x) s)))))"

definition sorted_defaults :: "(string \<times> string, family_default) dict \<Rightarrow> family_default list" where
  "sorted_defaults d = sort_key fd_key (map snd d)"

definition apply_mutation ::
  "cadence_policy \<Rightarrow> cadence_mutation \<Rightarrow> string list \<Rightarrow> 'a device_ref_scheme list
     \<Rightarrow> (cadence_policy \<times> change list \<times> string set) result" where
  "apply_mutation p m buses devices =
     (let s0 = \<lparr>ms_defaults = index_by fd_key (cp_defaults p),
                ms_overrides = index_by do_device_id (cp_overrides p),
                ms_changes = [], ms_affected = {}\<rparr>
      in if \<not> distinct (map (\<lambda>x. (fm_bus_id x, fm_family x)) (cm_defaults m)) then
           Inl (ValueError ''Duplicate cadence family mutation'')
         else if \<not> distinct (map dm_device_id (cm_overrides m)) then
           Inl (ValueError ''Duplicate cadence device mutation'')
         else
           ebind (each_in (mutate_family (set buses) devices) (cm_defaults m) s0) (\<lambda>s1.
           ebind (each_in (mutate_device devices) (cm_overrides m) s1) (\<lambda>s2.
             if ms_changes s2 = [] then Inl (ValueError ''Cadence mutation does not change effective policy'')
             else let updated = \<lparr>cp_defaults = sorted_defaults (ms_defaults s2),
                    cp_overrides = sort_key do_device_id (map snd (ms_overrides s2))\<rparr>
               in ebind (validate_policy updated buses devices) (\<lambda>_. Inr (updated, ms_changes s2, ms_affected s2)))))"

section \<open>Following the inventory\<close>

definition intervals_of :: "family_default list \<Rightarrow> string \<Rightarrow> pyfloat list" where
  "intervals_of ds family = remdups (map fd_interval (filter (\<lambda>d. fd_family d = family) ds))"

text \<open>The dictionary by family is the set of intervals of the defaults collected so far.\<close>

definition ensure_default ::
  "'a device_ref_scheme \<Rightarrow> (string \<times> string, family_default) dict \<times> family_default list
     \<Rightarrow> ((string \<times> string, family_default) dict \<times> family_default list) result" where
  "ensure_default device = (\<lambda>(defaults, known).
     (case dget defaults (dv_key device) of
        Some _ \<Rightarrow> Inr (defaults, known)
      | None \<Rightarrow>
          (let add = (\<lambda>x. let d = \<lparr>fd_bus_id = dv_bus_id device, fd_family = dv_family device, fd_interval = x\<rparr>
                 in Inr (dset (dv_key device) d defaults, known @ [d]))
           in case intervals_of known (dv_family device) of
                [x] \<Rightarrow> add x
              | [] \<Rightarrow> add (of_int (last cadence_presets))
              | _ \<Rightarrow> Inl (ValueError (''Cannot infer cadence default for '' @ dv_bus_id device @ ''/''
                  @ dv_family device @ '' from conflicting family defaults'')))))"

definition ensure_defaults_for_devices ::
  "cadence_policy \<Rightarrow> 'a device_ref_scheme list \<Rightarrow> cadence_policy result" where
  "ensure_defaults_for_devices p devices =
     ebind (each_in ensure_default devices
         (index_by fd_key (cp_defaults p), cp_defaults p)) (\<lambda>(defaults, _).
       Inr (p\<lparr>cp_defaults := sorted_defaults defaults\<rparr>))"

definition rebind_default ::
  "cadence_policy \<Rightarrow> 'a device_ref_scheme list \<Rightarrow> 'b device_ref_scheme
     \<Rightarrow> (string \<times> string, family_default) dict \<Rightarrow> (string \<times> string, family_default) dict result" where
  "rebind_default p old_devices device defaults =
     (case dget defaults (dv_key device) of
        Some _ \<Rightarrow> Inr defaults
      | None \<Rightarrow>
          (let family = dv_family device;
               inherited = (case dget (by_device old_devices) (dv_device_id device) of
                   None \<Rightarrow> []
                 | Some old \<Rightarrow> (case family_default_interval (cp_defaults p) (dv_bus_id old, family) of
                       Inl _ \<Rightarrow> [] | Inr x \<Rightarrow> [x]));
               candidates = (if inherited = [] then intervals_of (cp_defaults p) family else inherited)
           in case candidates of
                [x] \<Rightarrow> Inr (dset (dv_key device)
                  \<lparr>fd_bus_id = dv_bus_id device, fd_family = family, fd_interval = x\<rparr> defaults)
              | _ \<Rightarrow> Inl (ValueError (''Cannot deterministically rebind cadence default for ''
                  @ dv_bus_id device @ ''/'' @ family))))"

definition rebind_policy ::
  "cadence_policy \<Rightarrow> 'a device_ref_scheme list \<Rightarrow> 'b device_ref_scheme list \<Rightarrow> cadence_policy result" where
  "rebind_policy p old_devices new_devices =
     ebind (each_in (rebind_default p old_devices) new_devices []) (\<lambda>defaults.
       Inr (p\<lparr>cp_defaults := sorted_defaults defaults\<rparr>))"

section \<open>Lemmas\<close>

lemma check_interval_iff [result_simps]:
  "check_interval x label = Inr y \<longleftrightarrow> y = x \<and> cadence_min \<le> x \<and> x \<le> cadence_max"
  by (auto simp: check_interval_def)

lemma check_defaults_Inr:
  assumes "check_defaults buses ds seen = Inr out"
  shows "out = seen @ map fd_key ds \<and> distinct (map fd_key ds) \<and> set (map fd_key ds) \<inter> set seen = {}
    \<and> (\<forall>d \<in> set ds. cadence_min \<le> fd_interval d \<and> fd_interval d \<le> cadence_max)"
  using assms
proof (induction ds arbitrary: seen)
  case (Cons d ds)
  from Cons.prems have rest: "check_defaults buses ds (seen @ [fd_key d]) = Inr out" "fd_key d \<notin> set seen"
      "cadence_min \<le> fd_interval d" "fd_interval d \<le> cadence_max"
    by (auto simp: ebind_eq_Inr result_simps split: if_splits)
  from Cons.IH [OF rest(1)] rest(2-4) show ?case by auto
qed simp

lemma check_overrides_Inr:
  assumes "check_overrides devices ds seen = Inr u"
  shows "distinct (map do_device_id ds) \<and> set (map do_device_id ds) \<inter> set seen = {}
    \<and> do_device_id ` set ds \<subseteq> devices
    \<and> (\<forall>d \<in> set ds. cadence_min \<le> do_interval d \<and> do_interval d \<le> cadence_max)"
  using assms
proof (induction ds arbitrary: seen)
  case (Cons d ds)
  from Cons.prems have rest: "check_overrides devices ds (seen @ [do_device_id d]) = Inr u"
      "do_device_id d \<notin> set seen" "do_device_id d \<in> devices"
      "cadence_min \<le> do_interval d" "do_interval d \<le> cadence_max"
    by (auto simp: ebind_eq_Inr result_simps split: if_splits)
  from Cons.IH [OF rest(1)] rest(2-5) show ?case by auto
qed simp

lemma validate_policy_Inr:
  assumes "validate_policy p buses devices = Inr p'"
  shows "p' = p" "distinct (map fd_key (cp_defaults p))" "distinct (map do_device_id (cp_overrides p))"
    "dv_key ` set devices \<subseteq> fd_key ` set (cp_defaults p)"
    "\<forall>d \<in> set (cp_defaults p). cadence_min \<le> fd_interval d \<and> fd_interval d \<le> cadence_max"
    "\<forall>d \<in> set (cp_overrides p). cadence_min \<le> do_interval d \<and> do_interval d \<le> cadence_max"
proof -
  obtain keys where k: "check_defaults (set buses) (cp_defaults p) [] = Inr keys"
    using assms by (auto simp: validate_policy_def ebind_eq_Inr)
  with assms have m: "sort (filter (\<lambda>k. k \<notin> set keys) (remdups (map dv_key devices))) = []"
    unfolding validate_policy_def by (simp add: Let_def split: if_splits)
  with assms k have "ebind (check_overrides (set (map dv_device_id devices)) (cp_overrides p) []) (\<lambda>_. Inr p) = Inr p'"
    unfolding validate_policy_def by (simp only: Let_def ebind_Inr if_False simp_thms)
  then obtain u where c: "check_overrides (set (map dv_device_id devices)) (cp_overrides p) [] = Inr u"
    and p': "p' = p" by (auto simp only: ebind_eq_Inr sum.inject)
  note d = check_defaults_Inr [OF k] and o1 = check_overrides_Inr [OF c]
  show "p' = p" by (rule p')
  show "distinct (map fd_key (cp_defaults p))"
    "\<forall>d \<in> set (cp_defaults p). cadence_min \<le> fd_interval d \<and> fd_interval d \<le> cadence_max"
    using d by blast+
  show "distinct (map do_device_id (cp_overrides p))"
    "\<forall>d \<in> set (cp_overrides p). cadence_min \<le> do_interval d \<and> do_interval d \<le> cadence_max"
    using o1 by blast+
  have "set (filter (\<lambda>k. k \<notin> set keys) (remdups (map dv_key devices))) = {}"
    using arg_cong [OF m, of set] by (simp only: set_sort list.set(1))
  with d show "dv_key ` set devices \<subseteq> fd_key ` set (cp_defaults p)" by auto
qed

lemma family_default_interval_cases:
  "family_default_interval ds key = Inr x \<longleftrightarrow> (\<exists>d. List.find (\<lambda>d. fd_key d = key) ds = Some d \<and> fd_interval d = x)"
  by (auto simp: family_default_interval_def split: option.splits)

lemma key_found: "k \<in> f ` set xs \<Longrightarrow> \<exists>x \<in> set xs. List.find (\<lambda>x. f x = k) xs = Some x \<and> f x = k"
  by (induction xs) auto

subsection \<open>The dictionaries of a mutation\<close>

definition ms_ok :: "mut_state \<Rightarrow> bool" where
  "ms_ok s \<longleftrightarrow> keyed fd_key (ms_defaults s) \<and> dict_ok (ms_defaults s)
     \<and> keyed do_device_id (ms_overrides s) \<and> dict_ok (ms_overrides s)"

definition state_interval :: "mut_state \<Rightarrow> string \<Rightarrow> string \<times> string \<Rightarrow> (pyfloat \<times> string) option" where
  "state_interval s device key = (case dget (ms_overrides s) device of
      Some d \<Rightarrow> Some (do_interval d, ''device_override'')
    | None \<Rightarrow> map_option (\<lambda>d. (fd_interval d, ''family_default'')) (dget (ms_defaults s) key))"

lemma mutate_family_cases:
  assumes "mutate_family buses devices m s = Inr s'"
  obtains (same) current where "s' = s" "dget (ms_defaults s) (fm_bus_id m, fm_family m) = Some current"
      "fd_interval current = fm_interval m"
  | (changed) d c where "fd_key d = (fm_bus_id m, fm_family m)" "fd_interval d = fm_interval m"
      "ms_defaults s' = dset (fm_bus_id m, fm_family m) d (ms_defaults s)"
      "ms_overrides s' = ms_overrides s" "ms_changes s' = ms_changes s @ [c]"
      "ms_affected s' = ms_affected s \<union> dv_device_id ` {d \<in> set devices.
         dv_key d = (fm_bus_id m, fm_family m) \<and> dget (ms_overrides s) (dv_device_id d) = None}"
proof -
  from assms obtain current where cur: "dget (ms_defaults s) (fm_bus_id m, fm_family m) = Some current"
    by (auto simp: mutate_family_def Let_def ebind_eq_Inr split: if_splits option.splits)
  show thesis
  proof (cases "fd_interval current = fm_interval m")
    case True
    with assms cur same show ?thesis
      by (simp add: mutate_family_def Let_def ebind_eq_Inr result_simps split: if_splits)
  next
    case False
    with assms cur changed [of "\<lparr>fd_bus_id = fm_bus_id m, fd_family = fm_family m, fd_interval = fm_interval m\<rparr>"]
    show ?thesis
      by (simp add: mutate_family_def Let_def ebind_eq_Inr result_simps fd_key_def split: if_splits) force
  qed
qed

lemma mutate_device_cases:
  assumes "mutate_device devices m s = Inr s'"
  obtains (same) "s' = s" "map_option do_interval (dget (ms_overrides s) (dm_device_id m)) = dm_interval m"
  | (removed) o1 n1 where "dm_interval m = None"
      "s' = note_override (dpop (dm_device_id m) (ms_overrides s)) (dm_device_id m) o1 n1 s"
  | (set) x o1 n1 where "dm_interval m = Some x"
      "s' = note_override (dset (dm_device_id m) \<lparr>do_device_id = dm_device_id m, do_interval = x\<rparr> (ms_overrides s))
         (dm_device_id m) o1 n1 s"
  using assms
  by (auto simp: mutate_device_def Let_def ebind_eq_Inr result_simps split: if_splits option.splits)

lemma mutate_family_ok: "mutate_family buses devices m s = Inr s' \<Longrightarrow> ms_ok s \<Longrightarrow> ms_ok s'"
  by (erule mutate_family_cases) (auto simp: ms_ok_def)

lemma mutate_device_ok: "mutate_device devices m s = Inr s' \<Longrightarrow> ms_ok s \<Longrightarrow> ms_ok s'"
  by (erule mutate_device_cases) (auto simp: ms_ok_def note_override_def)

text \<open>What a step leaves alone: the interval of every device it does not report.\<close>

definition unaffected :: "'a device_ref_scheme list \<Rightarrow> mut_state \<Rightarrow> mut_state \<Rightarrow> bool" where
  "unaffected devices s s' \<longleftrightarrow> ms_affected s \<subseteq> ms_affected s' \<and>
     (\<forall>d \<in> set devices. dv_device_id d \<notin> ms_affected s' \<longrightarrow>
        state_interval s' (dv_device_id d) (dv_key d) = state_interval s (dv_device_id d) (dv_key d))"

lemma unaffected_refl [simp]: "unaffected devices s s"
  by (simp add: unaffected_def)

lemma unaffected_trans: "unaffected devices s t \<Longrightarrow> unaffected devices t u \<Longrightarrow> unaffected devices s u"
  unfolding unaffected_def by (metis subsetD subset_trans)

lemma mutate_family_unaffected:
  assumes "mutate_family buses devices m s = Inr s'"
  shows "unaffected devices s s'"
  using assms
proof (cases rule: mutate_family_cases)
  case (changed d c)
  then show ?thesis by (auto simp: unaffected_def state_interval_def dget_dset split: option.splits)
qed simp

lemma mutate_device_unaffected:
  assumes "mutate_device devices m s = Inr s'"
  shows "unaffected devices s s'"
  using assms
  by (cases rule: mutate_device_cases)
    (auto simp: unaffected_def state_interval_def note_override_def dget_dset dget_dpop split: option.splits)

lemma mutate_device_defaults: "mutate_device devices m s = Inr s' \<Longrightarrow> ms_defaults s' = ms_defaults s"
  by (erule mutate_device_cases) (simp_all add: note_override_def)

text \<open>What the loops establish for every entry.\<close>

definition default_is :: "family_mutation \<Rightarrow> mut_state \<Rightarrow> bool" where
  "default_is m s \<longleftrightarrow> map_option fd_interval (dget (ms_defaults s) (fm_bus_id m, fm_family m)) = Some (fm_interval m)"

definition override_is :: "device_mutation \<Rightarrow> mut_state \<Rightarrow> bool" where
  "override_is m s \<longleftrightarrow> map_option do_interval (dget (ms_overrides s) (dm_device_id m)) = dm_interval m"

lemma families_set:
  assumes "each_in (mutate_family buses devices) ms s = Inr s'" and "ms_ok s"
    and "distinct (map (\<lambda>x. (fm_bus_id x, fm_family x)) ms)" and "m \<in> set ms"
  shows "default_is m s'"
proof (rule each_in_effect [OF assms(1), of "\<lambda>_. True" m])
  show "distinct ms" using assms(3) by (simp add: distinct_map)
next
  fix s s' assume "mutate_family buses devices m s = Inr s'"
  then show "default_is m s'" by (cases rule: mutate_family_cases) (auto simp: default_is_def dget_dset)
next
  fix x s s' assume x: "x \<in> set ms" "x \<noteq> m" and q: "default_is m s"
    and st: "mutate_family buses devices x s = Inr s'"
  have "(fm_bus_id x, fm_family x) \<noteq> (fm_bus_id m, fm_family m)"
    using x assms(3,4) by (auto simp: distinct_map dest: inj_onD)
  with st q show "default_is m s'" by (cases rule: mutate_family_cases) (auto simp: default_is_def dget_dset)
qed (use assms(4) in auto)

lemma overrides_set:
  assumes "each_in (mutate_device devices) ms s = Inr s'"
    and "distinct (map dm_device_id ms)" and "m \<in> set ms"
  shows "override_is m s'"
proof (rule each_in_effect [OF assms(1), of "\<lambda>_. True" m])
  show "distinct ms" using assms(2) by (simp add: distinct_map)
next
  fix s s' assume "mutate_device devices m s = Inr s'"
  then show "override_is m s'"
    by (cases rule: mutate_device_cases) (auto simp: override_is_def note_override_def dget_dset dget_dpop)
next
  fix x s s' assume x: "x \<in> set ms" "x \<noteq> m" and q: "override_is m s"
    and st: "mutate_device devices x s = Inr s'"
  have "dm_device_id x \<noteq> dm_device_id m"
    using x assms(2,3) by (auto simp: distinct_map dest: inj_onD)
  with st q show "override_is m s'"
    by (cases rule: mutate_device_cases) (auto simp: override_is_def note_override_def dget_dset dget_dpop)
qed (use assms(3) in auto)

lemma sorted_values_find:
  assumes "keyed f d" and "dict_ok d"
  shows "List.find (\<lambda>x. f x = k) (sort_key f (map snd d)) = dget d k"
proof (rule find_values [OF assms])
  have "distinct (map f (map snd d))" using assms(2) by (simp only: keyed_values [OF assms(1)] dict_ok_def)
  then show "distinct (map f (sort_key f (map snd d)))" by (simp only: distinct_map distinct_sort set_sort)
qed (simp only: set_sort)

section \<open>Properties\<close>

definition storable :: "cadence_policy \<Rightarrow> bool" where
  "storable p \<longleftrightarrow>
     (\<forall>d \<in> set (cp_defaults p). strip (fd_bus_id d) = fd_bus_id d \<and> fd_bus_id d \<noteq> []
        \<and> fd_family d \<in> set device_families \<and> cadence_min \<le> fd_interval d \<and> fd_interval d \<le> cadence_max)
     \<and> (\<forall>d \<in> set (cp_overrides p). strip (do_device_id d) = do_device_id d \<and> do_device_id d \<noteq> []
        \<and> cadence_min \<le> do_interval d \<and> do_interval d \<le> cadence_max)"

lemma each_indexed_map:
  "(\<And>i x. x \<in> set xs \<Longrightarrow> f i (g x) = Inr (h x)) \<Longrightarrow> each_indexed f n (map g xs) = Inr (map h xs)"
  by (induction xs arbitrary: n) auto

lemma cadence_read:
  assumes "storable p"
    and "dget_or obj ''family_defaults'' (JList []) = JList (map default_json (cp_defaults p))"
    and "dget_or obj ''device_overrides'' (JList []) = JList (map override_json (cp_overrides p))"
  shows "cadence_from_payload (JObj obj) = Inr p"
proof -
  have d: "family_entry name i (default_json x) = Inr (fd_bus_id x, fd_family x, fd_interval x)"
    if "x \<in> set (cp_defaults p)" for name i x
    using assms(1) that
    by (simp add: family_entry_def default_json_def jget_def dget_or_def storable_def check_interval_def)
  have o1: "device_entry False name i (override_json x) = Inr (do_device_id x, Some (do_interval x))"
    if "x \<in> set (cp_overrides p)" for name i x
    using assms(1) that
    by (simp add: device_entry_def override_json_def jget_def dget_or_def storable_def check_interval_def)
  have eta: "\<lparr>fd_bus_id = fd_bus_id x, fd_family = fd_family x, fd_interval = fd_interval x\<rparr> = x"
    "\<lparr>do_device_id = do_device_id y, do_interval = do_interval y\<rparr> = y" for x y by simp_all
  show ?thesis
    using each_indexed_map [of "cp_defaults p" "family_entry ''cadence.family_defaults''" default_json, OF d]
      each_indexed_map [of "cp_overrides p" "device_entry False ''cadence.device_overrides''" override_json, OF o1]
    by (simp add: assms(2,3) comp_def eta)
qed

text \<open>A policy survives storage. Reading the JSON of a policy whose bus and device names are stripped,
  whose families are known and whose intervals are in range gives the policy back.\<close>

theorem cadence_roundtrip:
  assumes "storable p"
  shows "cadence_from_payload (JObj (cadence_to_payload p)) = Inr p"
  by (rule cadence_read [OF assms]) (simp_all add: cadence_to_payload_def dget_or_def)

definition sample_policy :: cadence_policy where
  "sample_policy = \<lparr>cp_defaults = [\<lparr>fd_bus_id = ''rs485-main'', fd_family = ''xjp60d'', fd_interval = 10\<rparr>,
       \<lparr>fd_bus_id = ''rs485-main'', fd_family = ''le01mp'', fd_interval = 30\<rparr>],
     cp_overrides = [\<lparr>do_device_id = ''xjp60d-2'', do_interval = 60\<rparr>]\<rparr>"

lemma sample_policy_storable: "storable sample_policy"
proof -
  have "strip ''rs485-main'' = ''rs485-main''" "strip ''xjp60d-2'' = ''xjp60d-2''" by code_simp+
  then show ?thesis
    by (simp add: storable_def sample_policy_def device_families_def cadence_min_def cadence_max_def)
qed

theorem cadence_roundtrip_witness:
  "cadence_from_payload (JObj (cadence_to_payload sample_policy)) = Inr sample_policy"
  by (rule cadence_roundtrip [OF sample_policy_storable])

text \<open>A validated policy gives every device of the inventory a cadence between ten seconds and an hour,
  the device's override if it has one and the default of its bus and family otherwise.\<close>

theorem effective_interval_bounded:
  assumes "validate_policy p buses devices = Inr p'" and "d \<in> set devices"
  shows "\<exists>x src. effective_interval p' (dv_device_id d) (dv_key d) = Inr (x, src) \<and> 10 \<le> x \<and> x \<le> 3600
    \<and> src = (if dv_device_id d \<in> do_device_id ` set (cp_overrides p) then ''device_override'' else ''family_default'')"
proof (cases "dv_device_id d \<in> do_device_id ` set (cp_overrides p)")
  case True
  from key_found [OF this] validate_policy_Inr [OF assms(1)] True show ?thesis
    by (auto simp: effective_interval_def cadence_min_def cadence_max_def)
next
  case False
  then have none: "List.find (\<lambda>o1. do_device_id o1 = dv_device_id d) (cp_overrides p) = None"
    by (auto simp: find_None_iff image_iff)
  note v = validate_policy_Inr [OF assms(1)]
  from v(4) assms(2) have "dv_key d \<in> fd_key ` set (cp_defaults p)" by blast
  from key_found [OF this] v(1,5) none False show ?thesis
    by (auto simp: effective_interval_def family_default_interval_def cadence_min_def cadence_max_def)
qed

definition sample_devices :: "device_ref list" where
  "sample_devices = [\<lparr>dv_device_id = ''xjp60d-1'', dv_bus_id = ''rs485-main'', dv_family = ''xjp60d''\<rparr>,
     \<lparr>dv_device_id = ''xjp60d-2'', dv_bus_id = ''rs485-main'', dv_family = ''xjp60d''\<rparr>]"

lemma sample_policy_valid: "validate_policy sample_policy [''rs485-main''] sample_devices = Inr sample_policy"
  by (simp add: validate_policy_def sample_policy_def sample_devices_def fd_key_def dv_key_def device_families_def
      check_interval_def cadence_min_def cadence_max_def Let_def)

theorem effective_interval_bounded_witness:
  "\<exists>x. effective_interval sample_policy ''xjp60d-1'' (''rs485-main'', ''xjp60d'') = Inr (x, ''family_default'') \<and> 10 \<le> x"
  using effective_interval_bounded [OF sample_policy_valid, of "hd sample_devices"]
  by (auto simp: sample_devices_def dv_key_def sample_policy_def)

text \<open>A cadence mutation does what it says and no more. When it is accepted the new policy is valid,
  every family default and every device override it names has the requested value (a removed override
  falls back to the default), and the cadence of every device it does not report as affected is
  unchanged.\<close>

theorem apply_mutation_sound:
  assumes "validate_policy p buses devices = Inr p0"
    and "apply_mutation p m buses devices = Inr (p', changes, affected)"
  shows "validate_policy p' buses devices = Inr p' \<and> changes \<noteq> []
    \<and> (\<forall>f \<in> set (cm_defaults m).
        family_default_interval (cp_defaults p') (fm_bus_id f, fm_family f) = Inr (fm_interval f))
    \<and> (\<forall>c \<in> set (cm_overrides m).
        map_option do_interval (List.find (\<lambda>d. do_device_id d = dm_device_id c) (cp_overrides p')) = dm_interval c)
    \<and> (\<forall>d \<in> set devices. dv_device_id d \<notin> affected \<longrightarrow>
        effective_interval p' (dv_device_id d) (dv_key d) = effective_interval p (dv_device_id d) (dv_key d))"
proof -
  define s0 where "s0 = \<lparr>ms_defaults = index_by fd_key (cp_defaults p),
    ms_overrides = index_by do_device_id (cp_overrides p), ms_changes = [], ms_affected = {}\<rparr>"
  from assms(2) obtain s1 s2 where
    dist: "distinct (map (\<lambda>x. (fm_bus_id x, fm_family x)) (cm_defaults m))" "distinct (map dm_device_id (cm_overrides m))"
    and s1: "each_in (mutate_family (set buses) devices) (cm_defaults m) s0 = Inr s1"
    and s2: "each_in (mutate_device devices) (cm_overrides m) s1 = Inr s2"
    and ch: "ms_changes s2 \<noteq> []" "changes = ms_changes s2" "affected = ms_affected s2"
    and p': "p' = \<lparr>cp_defaults = sorted_defaults (ms_defaults s2),
      cp_overrides = sort_key do_device_id (map snd (ms_overrides s2))\<rparr>"
    and val: "isOk (validate_policy p' buses devices)"
    by (auto simp: apply_mutation_def Let_def ebind_eq_Inr s0_def isOk_iff split: if_splits)
  have ok0: "ms_ok s0" by (simp add: ms_ok_def s0_def)
  have ok1: "ms_ok s1" using each_in_invariant [OF s1, of ms_ok] ok0 mutate_family_ok by blast
  have ok2: "ms_ok s2" using each_in_invariant [OF s2, of ms_ok] ok1 mutate_device_ok by blast
  have un: "unaffected devices s0 s2"
    using each_in_invariant [OF s1, of "unaffected devices s0"] each_in_invariant [OF s2, of "unaffected devices s0"]
    by (meson mutate_family_unaffected mutate_device_unaffected unaffected_refl unaffected_trans)
  have defs: "ms_defaults s2 = ms_defaults s1"
    using each_in_invariant [OF s2, of "\<lambda>s. ms_defaults s = ms_defaults s1"] mutate_device_defaults by metis
  have fd: "List.find (\<lambda>x. fd_key x = k) (cp_defaults p') = dget (ms_defaults s2) k" for k
    using ok2 sorted_values_find [of fd_key "ms_defaults s2" k] by (simp add: p' sorted_defaults_def ms_ok_def)
  have fo: "List.find (\<lambda>x. do_device_id x = k) (cp_overrides p') = dget (ms_overrides s2) k" for k
    using ok2 sorted_values_find [of do_device_id "ms_overrides s2" k] by (simp add: p' ms_ok_def)
  note v = validate_policy_Inr [OF assms(1)]
  have e0: "effective_interval p dev k = (case state_interval s0 dev k of Some r \<Rightarrow> Inr r
      | None \<Rightarrow> Inl (ValueError (''Missing cadence family default: '' @ fst k @ ''/'' @ snd k)))" for dev k
    by (simp add: effective_interval_def family_default_interval_def state_interval_def s0_def find_by_key
        index_by_distinct v(2,3) split: option.splits)
  have e2: "effective_interval p' dev k = (case state_interval s2 dev k of Some r \<Rightarrow> Inr r
      | None \<Rightarrow> Inl (ValueError (''Missing cadence family default: '' @ fst k @ ''/'' @ snd k)))" for dev k
    by (simp add: effective_interval_def family_default_interval_def state_interval_def fd fo split: option.splits)
  have fam: "family_default_interval (cp_defaults p') (fm_bus_id f, fm_family f) = Inr (fm_interval f)"
    if "f \<in> set (cm_defaults m)" for f
    using families_set [OF s1 ok0 dist(1) that] defs by (auto simp: default_is_def family_default_interval_def fd)
  have ovr: "map_option do_interval (List.find (\<lambda>d. do_device_id d = dm_device_id c) (cp_overrides p')) = dm_interval c"
    if "c \<in> set (cm_overrides m)" for c
    using overrides_set [OF s2 dist(2) that] by (simp add: override_is_def fo)
  from val obtain p2 where "validate_policy p' buses devices = Inr p2" by (auto simp: isOk_iff)
  then have "validate_policy p' buses devices = Inr p'" using validate_policy_Inr(1) by blast
  with ch fam ovr un show ?thesis by (auto simp: unaffected_def e0 e2)
qed

definition sample_mutation :: cadence_mutation where
  "sample_mutation = \<lparr>cm_defaults = [], cm_overrides = [\<lparr>dm_device_id = ''xjp60d-2'', dm_interval = None\<rparr>]\<rparr>"

theorem apply_mutation_sound_witness:
  "\<exists>p' changes affected. apply_mutation sample_policy sample_mutation [''rs485-main''] sample_devices
      = Inr (p', changes, affected)
    \<and> effective_interval p' ''xjp60d-1'' (''rs485-main'', ''xjp60d'')
      = effective_interval sample_policy ''xjp60d-1'' (''rs485-main'', ''xjp60d'')"
proof -
  have "\<exists>p' changes. apply_mutation sample_policy sample_mutation [''rs485-main''] sample_devices
      = Inr (p', changes, {''xjp60d-2''})"
    by (simp add: apply_mutation_def sample_mutation_def sample_policy_def sample_devices_def mutate_device_def
        note_override_def by_device_def family_default_interval_def sorted_defaults_def Let_def validate_policy_def
        fd_key_def dv_key_def device_families_def check_interval_def cadence_min_def cadence_max_def)
  then obtain p' changes where run: "apply_mutation sample_policy sample_mutation [''rs485-main''] sample_devices
      = Inr (p', changes, {''xjp60d-2''})" by blast
  from apply_mutation_sound [OF sample_policy_valid run] run show ?thesis
    by (auto simp: sample_devices_def dv_key_def)
qed

end
