(* ===== verification/RegistryDoc.thy ===== *)
theory RegistryDoc
  imports Sampling Cadence
begin

text \<open>
  The document of \<open>services/device-agent/acquisition_registry.py\<close>: the inventory of buses, devices and
  read targets with their lifecycles and cadence, its validation, the targets of every device family,
  the document built from the settings of a new node, and the upgrade of the LE-01MP profile. Times
  (\<open>_now()\<close>) are arguments. A target function takes the register entry that the source looks up by its
  key in the same catalogue.
\<close>

section \<open>Documents\<close>

record registry_bus =
  rb_bus_id :: string
  rb_protocol :: string
  rb_read_only :: bool

record registry_device = device_ref +
  rd_unit_id :: int
  rd_profile :: string
  rd_lifecycle :: string

record registry_target =
  rt_target_id :: string
  rt_device_id :: string
  rt_kind :: string
  rt_key :: string
  rt_channel_id :: string
  rt_metric :: string
  rt_unit :: string
  rt_profile :: string
  rt_lifecycle :: string
  rt_function :: int
  rt_addresses :: "int list"

record registry_document =
  rg_schema_version :: int
  rg_revision :: int
  rg_buses :: "registry_bus list"
  rg_devices :: "registry_device list"
  rg_targets :: "registry_target list"
  rg_cadence :: cadence_policy
  rg_updated_at :: string

definition schema_version :: int where
  "schema_version = 2"

definition main_bus :: string where
  "main_bus = ''rs485-main''"

definition read_functions :: "int list" where
  "read_functions = [3, 4]"

definition xjp_profile :: string where
  "xjp_profile = ''dixell-xjp60d-fc03-v1''"

definition le_profile :: string where
  "le_profile = ''f-and-f-le01mp-fc03-v2''"

definition le_legacy_profile :: string where
  "le_legacy_profile = ''f-and-f-le01mp-fc03-v1''"

definition sdm_profile :: string where
  "sdm_profile = ''eastron-sdm120m-fc04-v1''"

definition ws_profile :: string where
  "ws_profile = ''waveshare-modbus-rtu-analog-input-8ch-b-v3-readonly-v1''"

definition emb_profile :: string where
  "emb_profile = ''embraco-sync-fc03-v1.00.04''"

definition lifecycles :: "string list" where
  "lifecycles = [''active'', ''disabled'', ''reserve'', ''retired'', ''uninstalled'', ''discovery_only'', ''invalid'']"

definition polling_lifecycle :: string where
  "polling_lifecycle = ''active''"

section \<open>Validation\<close>

definition validate_lifecycle :: "string \<Rightarrow> string result" where
  "validate_lifecycle v = (let normalized = lower (strip v) in
     if normalized \<in> set lifecycles then Inr normalized
     else Inl (ValueError (''Unsupported acquisition lifecycle: '' @ py_repr v)))"

definition check_bus :: "registry_bus \<Rightarrow> string list \<Rightarrow> string list result" where
  "check_bus b buses =
     (if strip (rb_bus_id b) = [] then Inl (ValueError ''Registry bus_id must not be empty'')
      else if rb_bus_id b \<in> set buses then Inl (ValueError (''Duplicate registry bus_id: '' @ rb_bus_id b))
      else if rb_protocol b \<noteq> ''modbus_rtu'' \<or> \<not> rb_read_only b then
        Inl (ValueError ''Acquisition buses must be read-only Modbus RTU'')
      else Inr (buses @ [rb_bus_id b]))"

definition dev_identity :: "registry_device \<Rightarrow> string \<times> int" where
  "dev_identity d = (dv_bus_id d, rd_unit_id d)"

definition check_device :: "string list \<Rightarrow> registry_device \<Rightarrow> registry_device list \<Rightarrow> registry_device list result" where
  "check_device buses d seen =
     (if dv_device_id d \<in> dv_device_id ` set seen then
        Inl (ValueError (''Duplicate registry device_id: '' @ dv_device_id d))
      else if dv_bus_id d \<notin> set buses then
        Inl (ValueError (''Unknown bus for device '' @ dv_device_id d @ '': '' @ dv_bus_id d))
      else if \<not> (1 \<le> rd_unit_id d \<and> rd_unit_id d \<le> 247) then
        Inl (ValueError (''Invalid Modbus Unit ID for '' @ dv_device_id d))
      else if dev_identity d \<in> dev_identity ` set seen then
        Inl (ValueError (''Duplicate Modbus bus/Unit identity: '' @ dv_bus_id d @ ''/'' @ dec (rd_unit_id d)))
      else if dv_family d \<notin> set device_families then
        Inl (ValueError (''Unsupported device family: '' @ dv_family d))
      else if strip (rd_profile d) = [] then
        Inl (ValueError (''Missing profile version for '' @ dv_device_id d))
      else ebind (validate_lifecycle (rd_lifecycle d)) (\<lambda>_. Inr (seen @ [d])))"

definition tuple_repr :: "string \<times> string \<Rightarrow> string" where
  "tuple_repr p = ''('' @ py_repr (fst p) @ '', '' @ py_repr (snd p) @ '')''"

definition device_of :: "registry_device list \<Rightarrow> string \<Rightarrow> registry_device option" where
  "device_of ds i = dget (index_by dv_device_id ds) i"

text \<open>The targets seen so far, each with the family of its device.\<close>

definition check_target ::
  "registry_device list \<Rightarrow> registry_target \<Rightarrow> (string \<times> registry_target) list \<Rightarrow> (string \<times> registry_target) list result" where
  "check_target devices t seen =
     (if rt_target_id t \<in> (rt_target_id \<circ> snd) ` set seen then
        Inl (ValueError (''Duplicate registry target_id: '' @ rt_target_id t))
      else (case device_of devices (rt_device_id t) of
        None \<Rightarrow> Inl (ValueError (''Unknown target device: '' @ rt_device_id t))
      | Some d \<Rightarrow>
          if rt_profile t \<noteq> rd_profile d then
            Inl (ValueError (''Profile mismatch for target '' @ rt_target_id t))
          else if rt_kind t \<notin> {''channel'', ''metric''} then
            Inl (ValueError (''Unsupported target kind: '' @ rt_kind t))
          else if rt_function t \<notin> set read_functions then
            Inl (ValueError (''Registry target '' @ rt_target_id t @ '' must use read-only FC03 or FC04''))
          else if rt_addresses t = [] \<or> (\<exists>a \<in> set (rt_addresses t). \<not> (0 \<le> a \<and> a \<le> 0xFFFF)) then
            Inl (ValueError (''Invalid read addresses for target '' @ rt_target_id t))
          else ebind (validate_lifecycle (rt_lifecycle t)) (\<lambda>_.
            if (dv_family d, rt_channel_id t) \<in> (\<lambda>(f, u). (f, rt_channel_id u)) ` set seen then
              Inl (ValueError (''Duplicate telemetry channel identity: '' @ tuple_repr (dv_family d, rt_channel_id t)))
            else Inr (seen @ [(dv_family d, t)]))))"

definition validate_document :: "registry_document \<Rightarrow> registry_document result" where
  "validate_document doc =
     (if rg_schema_version doc \<noteq> schema_version then
        Inl (ValueError (''Unsupported acquisition registry schema_version='' @ dec (rg_schema_version doc)))
      else if rg_revision doc < 1 then Inl (ValueError ''Acquisition registry revision must be positive'')
      else
        ebind (each_in check_bus (rg_buses doc) []) (\<lambda>buses.
        ebind (each_in (check_device buses) (rg_devices doc) []) (\<lambda>_.
        ebind (validate_policy (rg_cadence doc) buses (rg_devices doc)) (\<lambda>_.
        ebind (each_in (check_target (rg_devices doc)) (rg_targets doc) []) (\<lambda>_. Inr doc)))))"

section \<open>The targets of the device families\<close>

definition xjp_target :: "int \<Rightarrow> int \<Rightarrow> string \<Rightarrow> registry_target" where
  "xjp_target unit channel lc = (let channel_id = dec unit @ ''-'' @ dec02 channel in
     \<lparr>rt_target_id = ''xjp60d:'' @ channel_id, rt_device_id = ''xjp60d-'' @ dec unit, rt_kind = ''channel'',
      rt_key = ''channel-'' @ dec02 channel, rt_channel_id = channel_id, rt_metric = ''temperature.probe'',
      rt_unit = ''degC'', rt_profile = xjp_profile, rt_lifecycle = lc, rt_function = 3,
      rt_addresses = (case dget probe_registers channel of None \<Rightarrow> [] | Some (v, s) \<Rightarrow> [v, s])\<rparr>)"

definition metric_target ::
  "string \<Rightarrow> string \<Rightarrow> int \<Rightarrow> int \<Rightarrow> string \<Rightarrow> string \<Rightarrow> string \<Rightarrow> string \<Rightarrow> int list \<Rightarrow> registry_target" where
  "metric_target fam profile fn unit lc key metric u addresses = (let channel_id = key_channel unit key in
     \<lparr>rt_target_id = fam @ '':'' @ channel_id, rt_device_id = fam @ ''-'' @ dec unit, rt_kind = ''metric'',
      rt_key = key, rt_channel_id = channel_id, rt_metric = metric, rt_unit = u, rt_profile = profile,
      rt_lifecycle = lc, rt_function = fn, rt_addresses = addresses\<rparr>)"

definition le_target :: "int \<Rightarrow> le_register \<Rightarrow> string \<Rightarrow> registry_target" where
  "le_target unit r lc =
     metric_target ''le01mp'' le_profile 3 unit lc (lr_key r) (lr_metric r) (lr_unit r) (le_addresses r)"

definition sdm_target :: "int \<Rightarrow> sdm_register \<Rightarrow> string \<Rightarrow> registry_target" where
  "sdm_target unit r lc =
     metric_target ''sdm120'' sdm_profile 4 unit lc (sr_key r) (sr_metric r) (sr_unit r) (sdm_addresses r)"

definition emb_target :: "int \<Rightarrow> emb_register \<Rightarrow> string \<Rightarrow> registry_target" where
  "emb_target unit r lc =
     metric_target ''embraco'' emb_profile 3 unit lc (er_key r) (er_metric r) (er_unit r) [er_address r]"

definition ws_target :: "int \<Rightarrow> int \<Rightarrow> string \<Rightarrow> registry_target" where
  "ws_target unit channel lc = (let channel_id = dec unit @ ''-ai-'' @ dec channel in
     \<lparr>rt_target_id = ''waveshare_8ai:'' @ channel_id, rt_device_id = ''waveshare-8ai-'' @ dec unit,
      rt_kind = ''channel'', rt_key = ''ai-'' @ dec channel, rt_channel_id = channel_id,
      rt_metric = ''analog.input'', rt_unit = ''raw'', rt_profile = ws_profile, rt_lifecycle = lc,
      rt_function = 4, rt_addresses = [channel - 1]\<rparr>)"

text \<open>All targets of a device, in the order of the source's loops.\<close>

definition xjp_targets :: "int \<Rightarrow> (int \<Rightarrow> string) \<Rightarrow> registry_target list" where
  "xjp_targets unit lc = map (\<lambda>channel. xjp_target unit channel (lc channel)) [1, 2, 3, 4, 5, 6]"

definition le_targets :: "int \<Rightarrow> string \<Rightarrow> registry_target list" where
  "le_targets unit lc = map (\<lambda>r. le_target unit r lc) le_registers"

definition sdm_targets :: "int \<Rightarrow> string \<Rightarrow> registry_target list" where
  "sdm_targets unit lc = map (\<lambda>r. sdm_target unit r lc) sdm_registers"

definition ws_targets :: "int \<Rightarrow> string \<Rightarrow> registry_target list" where
  "ws_targets unit lc = map (\<lambda>channel. ws_target unit channel lc) [1 .. channel_count]"

definition emb_targets :: "int \<Rightarrow> string \<Rightarrow> registry_target list" where
  "emb_targets unit lc = map (\<lambda>r. emb_target unit r lc) emb_registers"

definition new_device :: "string \<Rightarrow> string \<Rightarrow> string \<Rightarrow> string \<Rightarrow> int \<Rightarrow> string \<Rightarrow> registry_device" where
  "new_device pre fam profile bus unit lc =
     \<lparr>dv_device_id = pre @ dec unit, dv_bus_id = bus, dv_family = fam, rd_unit_id = unit,
      rd_profile = profile, rd_lifecycle = lc\<rparr>"

section \<open>The document of a new node\<close>

text \<open>The unit ids of the five families. A set of the source is the sorted list of its elements.\<close>

definition family_units :: "settings \<Rightarrow> int list \<Rightarrow> (int \<times> int) list \<Rightarrow> int list list" where
  "family_units cfg discovery active = (let mode = st_device_mode cfg in
     [if mode_uses_xjp60d mode then sort (remdups (discovery @ map fst active)) else [],
      if mode_uses_le01mp mode then sort (remdups (st_le01mp_unit_ids cfg)) else [],
      if mode_uses_sdm120 mode then sort (remdups (st_sdm120_unit_ids cfg)) else [],
      if mode_uses_waveshare_8ai mode then sort (remdups (st_waveshare_8ai_unit_ids cfg)) else [],
      if mode_uses_embraco mode then sort (remdups (st_embraco_unit_ids cfg)) else []])"

fun shared_units :: "int list list \<Rightarrow> int list" where
  "shared_units [] = []"
| "shared_units (us # uss) = filter (\<lambda>u. \<exists>vs \<in> set uss. u \<in> set vs) us @ shared_units uss"

definition build_initial_document ::
  "settings \<Rightarrow> int list \<Rightarrow> (int \<times> int) list \<Rightarrow> (string \<Rightarrow> string option) \<Rightarrow> string \<Rightarrow> registry_document result" where
  "build_initial_document cfg discovery legacy env now =
     (let active = (if mode_uses_xjp60d (st_device_mode cfg) then legacy else []);
          units = family_units cfg discovery active;
          duplicates = sort (remdups (shared_units units)) in
      if duplicates \<noteq> [] then
        Inl (ValueError (''Duplicate Modbus Unit IDs across device families: '' @ join '', '' (map dec duplicates)))
      else
        (let xs = units ! 0; les = units ! 1; sdms = units ! 2; wss = units ! 3; embs = units ! 4;
             devices =
               map (\<lambda>u. new_device ''xjp60d-'' ''xjp60d'' xjp_profile main_bus u
                 (if u \<in> fst ` set active then ''active'' else ''discovery_only'')) xs
             @ map (\<lambda>u. new_device ''le01mp-'' ''le01mp'' le_profile main_bus u ''active'') les
             @ map (\<lambda>u. new_device ''sdm120-'' ''sdm120'' sdm_profile main_bus u ''active'') sdms
             @ map (\<lambda>u. new_device ''waveshare-8ai-'' ''waveshare_8ai'' ws_profile main_bus u ''active'') wss
             @ map (\<lambda>u. new_device ''embraco-'' ''embraco'' emb_profile main_bus u ''active'') embs;
             targets =
               concat (map (\<lambda>u. xjp_targets u
                 (\<lambda>ch. if (u, ch) \<in> set active then ''active'' else ''discovery_only'')) xs)
             @ concat (map (\<lambda>u. le_targets u ''active'') les)
             @ concat (map (\<lambda>u. sdm_targets u ''active'') sdms)
             @ concat (map (\<lambda>u. ws_targets u ''active'') wss)
             @ concat (map (\<lambda>u. emb_targets u ''active'') embs)
         in ebind (build_bootstrap_policy (st_sample_interval_seconds cfg) (map dv_key devices) env) (\<lambda>cadence.
              validate_document
                \<lparr>rg_schema_version = schema_version, rg_revision = 1,
                 rg_buses = [\<lparr>rb_bus_id = main_bus, rb_protocol = ''modbus_rtu'', rb_read_only = True\<rparr>],
                 rg_devices = devices, rg_targets = targets, rg_cadence = cadence, rg_updated_at = now\<rparr>)))"

section \<open>The upgrade of the LE-01MP profile\<close>

definition le_migratable :: "registry_device \<Rightarrow> bool" where
  "le_migratable d \<longleftrightarrow> dv_family d = ''le01mp'' \<and> rd_profile d \<in> {le_legacy_profile, le_profile}"

definition profile_change :: "string \<Rightarrow> string \<Rightarrow> string \<Rightarrow> change" where
  "profile_change entity i old = \<lparr>ch_entity = entity, ch_id = i, ch_from = old, ch_to = le_profile\<rparr>"

definition upgrade_target :: "registry_target \<Rightarrow> registry_target" where
  "upgrade_target t = (case dget le_register_by_key (rt_key t) of
      None \<Rightarrow> t\<lparr>rt_profile := le_profile\<rparr>
    | Some r \<Rightarrow> t\<lparr>rt_profile := le_profile, rt_kind := ''metric'', rt_metric := lr_metric r,
        rt_unit := lr_unit r, rt_function := 3, rt_addresses := le_addresses r\<rparr>)"

definition reconcile_le01mp_profile :: "registry_document \<Rightarrow> string \<Rightarrow> (registry_document \<times> change list) result" where
  "reconcile_le01mp_profile doc now =
     (let les = index_by dv_device_id (filter le_migratable (rg_devices doc)) in
      if les = [] then Inr (doc, [])
      else
        (let in_le = (\<lambda>i. i \<in> set (dkeys les));
             devices = map (\<lambda>d. if in_le (dv_device_id d) then d\<lparr>rd_profile := le_profile\<rparr> else d) (rg_devices doc);
             device_changes = map (\<lambda>d. profile_change ''device_profile'' (dv_device_id d) (rd_profile d))
               (filter (\<lambda>d. in_le (dv_device_id d) \<and> d\<lparr>rd_profile := le_profile\<rparr> \<noteq> d) (rg_devices doc));
             targets = map (\<lambda>t. if in_le (rt_device_id t) then upgrade_target t else t) (rg_targets doc);
             target_changes = map (\<lambda>t. profile_change ''target_profile'' (rt_target_id t) (rt_profile t))
               (filter (\<lambda>t. in_le (rt_device_id t) \<and> upgrade_target t \<noteq> t) (rg_targets doc));
             has_key = (\<lambda>i k. \<exists>t \<in> set (rg_targets doc). rt_device_id t = i \<and> rt_key t = k);
             added = concat (map (\<lambda>(i, d).
               map (\<lambda>r. le_target (rd_unit_id d) r ''active'') (filter (\<lambda>r. \<not> has_key i (lr_key r)) le_registers))
               (sort_key fst les));
             changes = device_changes @ target_changes
               @ map (\<lambda>t. \<lparr>ch_entity = ''target'', ch_id = rt_target_id t, ch_from = ''absent'', ch_to = ''active''\<rparr>) added
         in if changes = [] then Inr (doc, [])
            else ebind (validate_document (doc\<lparr>rg_revision := rg_revision doc + 1, rg_devices := devices,
                rg_targets := targets @ added, rg_updated_at := now\<rparr>)) (\<lambda>d. Inr (d, changes))))"

section \<open>What validation accepts\<close>

text \<open>A loop that checks every element and collects it, no two elements with the same key.\<close>

lemma each_in_distinct:
  assumes "\<And>x s s'. f x s = Inr s' \<longleftrightarrow> ok x \<and> k1 (g x) \<notin> k1 ` set s \<and> k2 (g x) \<notin> k2 ` set s \<and> s' = s @ [g x]"
  shows "each_in f xs s = Inr s' \<longleftrightarrow> s' = s @ map g xs \<and> (\<forall>x \<in> set xs. ok x)
    \<and> distinct (map (k1 \<circ> g) xs) \<and> distinct (map (k2 \<circ> g) xs)
    \<and> (k1 \<circ> g) ` set xs \<inter> k1 ` set s = {} \<and> (k2 \<circ> g) ` set xs \<inter> k2 ` set s = {}"
proof (induction xs arbitrary: s)
  case (Cons x xs)
  show ?case
  proof (cases "ok x \<and> k1 (g x) \<notin> k1 ` set s \<and> k2 (g x) \<notin> k2 ` set s")
    case True
    then have "f x s = Inr (s @ [g x])" by (simp add: assms)
    with True show ?thesis by (auto simp: Cons.IH)
  next
    case False
    then have "f x s \<noteq> Inr t" for t using assms by blast
    then show ?thesis using False by (cases "f x s") auto
  qed
qed auto

definition lifecycle_ok :: "string \<Rightarrow> bool" where
  "lifecycle_ok v \<longleftrightarrow> lower (strip v) \<in> set lifecycles"

lemma validate_lifecycle_iff [result_simps]:
  "validate_lifecycle v = Inr w \<longleftrightarrow> lifecycle_ok v \<and> w = lower (strip v)"
  by (auto simp: validate_lifecycle_def lifecycle_ok_def Let_def)

definition bus_ok :: "registry_bus \<Rightarrow> bool" where
  "bus_ok b \<longleftrightarrow> strip (rb_bus_id b) \<noteq> [] \<and> rb_protocol b = ''modbus_rtu'' \<and> rb_read_only b"

definition device_ok :: "string set \<Rightarrow> registry_device \<Rightarrow> bool" where
  "device_ok buses d \<longleftrightarrow> dv_bus_id d \<in> buses \<and> 1 \<le> rd_unit_id d \<and> rd_unit_id d \<le> 247
     \<and> dv_family d \<in> set device_families \<and> strip (rd_profile d) \<noteq> [] \<and> lifecycle_ok (rd_lifecycle d)"

definition target_ok :: "registry_device list \<Rightarrow> registry_target \<Rightarrow> bool" where
  "target_ok ds t \<longleftrightarrow> (case device_of ds (rt_device_id t) of
      None \<Rightarrow> False
    | Some d \<Rightarrow> rt_profile t = rd_profile d) \<and> rt_kind t \<in> {''channel'', ''metric''}
    \<and> rt_function t \<in> set read_functions \<and> rt_addresses t \<noteq> []
    \<and> (\<forall>a \<in> set (rt_addresses t). 0 \<le> a \<and> a \<le> 0xFFFF) \<and> lifecycle_ok (rt_lifecycle t)"

definition telemetry_id :: "registry_device list \<Rightarrow> registry_target \<Rightarrow> string \<times> string" where
  "telemetry_id ds t = (dv_family (the (device_of ds (rt_device_id t))), rt_channel_id t)"

text \<open>A well-formed inventory: read-only buses, one device per identifier and per bus address, a cadence
  for every device, and targets that only read, belong to a device of their profile and are told apart
  by the telemetry they produce.\<close>

definition registry_ok :: "registry_document \<Rightarrow> bool" where
  "registry_ok doc \<longleftrightarrow> rg_schema_version doc = schema_version \<and> 1 \<le> rg_revision doc
     \<and> distinct (map rb_bus_id (rg_buses doc)) \<and> (\<forall>b \<in> set (rg_buses doc). bus_ok b)
     \<and> distinct (map dv_device_id (rg_devices doc)) \<and> distinct (map dev_identity (rg_devices doc))
     \<and> (\<forall>d \<in> set (rg_devices doc). device_ok (rb_bus_id ` set (rg_buses doc)) d)
     \<and> isOk (validate_policy (rg_cadence doc) (map rb_bus_id (rg_buses doc)) (rg_devices doc))
     \<and> distinct (map rt_target_id (rg_targets doc)) \<and> (\<forall>t \<in> set (rg_targets doc). target_ok (rg_devices doc) t)
     \<and> distinct (map (telemetry_id (rg_devices doc)) (rg_targets doc))"

lemma check_buses_iff:
  "each_in check_bus bs [] = Inr out \<longleftrightarrow> out = map rb_bus_id bs \<and> distinct (map rb_bus_id bs) \<and> (\<forall>b \<in> set bs. bus_ok b)"
proof -
  have "check_bus b s = Inr s' \<longleftrightarrow> bus_ok b \<and> id (rb_bus_id b) \<notin> id ` set s \<and> id (rb_bus_id b) \<notin> id ` set s
      \<and> s' = s @ [rb_bus_id b]" for b s s'
    by (auto simp: check_bus_def bus_ok_def)
  from each_in_distinct [of check_bus bus_ok id rb_bus_id id, OF this, of bs "[]" out] show ?thesis by auto
qed

lemma check_devices_iff:
  "each_in (check_device buses) ds [] = Inr out \<longleftrightarrow> out = ds \<and> distinct (map dv_device_id ds)
     \<and> distinct (map dev_identity ds) \<and> (\<forall>d \<in> set ds. device_ok (set buses) d)"
proof -
  have "check_device buses d s = Inr s' \<longleftrightarrow> device_ok (set buses) d \<and> dv_device_id (id d) \<notin> dv_device_id ` set s
      \<and> dev_identity (id d) \<notin> dev_identity ` set s \<and> s' = s @ [id d]" for d s s'
    by (simp add: check_device_def device_ok_def ebind_eq_Inr result_simps) blast
  from each_in_distinct [of "check_device buses" "device_ok (set buses)" dv_device_id id dev_identity, OF this, of ds "[]" out]
  show ?thesis by auto
qed

lemma check_target_iff:
  "check_target ds t s = Inr s' \<longleftrightarrow> target_ok ds t \<and> rt_target_id t \<notin> (rt_target_id \<circ> snd) ` set s
     \<and> telemetry_id ds t \<notin> (\<lambda>(f, u). (f, rt_channel_id u)) ` set s \<and> s' = s @ [(fst (telemetry_id ds t), t)]"
proof (cases "device_of ds (rt_device_id t)")
  case None
  then show ?thesis by (simp add: check_target_def target_ok_def)
next
  case (Some d)
  then show ?thesis
    by (auto simp: check_target_def target_ok_def telemetry_id_def ebind_eq_Inr result_simps split: if_splits)
qed

lemma check_targets_iff:
  "(\<exists>out. each_in (check_target ds) ts [] = Inr out) \<longleftrightarrow> distinct (map rt_target_id ts)
     \<and> (\<forall>t \<in> set ts. target_ok ds t) \<and> distinct (map (telemetry_id ds) ts)"
proof -
  define g where "g t = (fst (telemetry_id ds t), t)" for t
  define k2 where "k2 = (\<lambda>(f :: string, u :: registry_target). (f, rt_channel_id u))"
  have k: "(\<lambda>(f, u). (f, rt_channel_id u)) (g t) = telemetry_id ds t" for t by (simp add: g_def telemetry_id_def)
  then have kg: "k2 \<circ> g = telemetry_id ds" by (auto simp: k2_def)
  have tg: "(rt_target_id \<circ> snd) \<circ> g = rt_target_id" by (auto simp: g_def)
  have "check_target ds t s = Inr s' \<longleftrightarrow> target_ok ds t \<and> (rt_target_id \<circ> snd) (g t) \<notin> (rt_target_id \<circ> snd) ` set s
      \<and> k2 (g t) \<notin> k2 ` set s \<and> s' = s @ [g t]" for t s s'
    unfolding check_target_iff k2_def k by (simp add: g_def)
  from each_in_distinct [of "check_target ds" "target_ok ds" "rt_target_id \<circ> snd" g k2, OF this, of ts "[]"] show ?thesis
    by (auto simp: kg tg)
qed

section \<open>Properties\<close>

lemma validates_iff:
  "validate_document doc = Inr doc' \<longleftrightarrow> doc' = doc \<and> registry_ok doc"
proof -
  have "validate_document doc = Inr doc' \<longleftrightarrow> rg_schema_version doc = schema_version \<and> 1 \<le> rg_revision doc \<and> doc' = doc
      \<and> (\<exists>buses devices p seen. each_in check_bus (rg_buses doc) [] = Inr buses
        \<and> each_in (check_device buses) (rg_devices doc) [] = Inr devices
        \<and> validate_policy (rg_cadence doc) buses (rg_devices doc) = Inr p
        \<and> each_in (check_target (rg_devices doc)) (rg_targets doc) [] = Inr seen)"
    by (auto simp: validate_document_def ebind_eq_Inr not_less split: if_splits)
  then show ?thesis
    unfolding registry_ok_def check_buses_iff check_devices_iff isOk_iff using check_targets_iff by force
qed

text \<open>C34: Validation accepts exactly the well-formed inventories and returns them unchanged.\<close>

theorem validate_document_iff:
  "validate_document doc = Inr doc' \<longleftrightarrow> doc' = doc \<and> registry_ok doc"
  by (rule validates_iff)

end
