(* ===== verification/Registry.thy ===== *)
theory Registry
  imports RegistryDoc
begin

text \<open>
  \<open>AcquisitionRegistry\<close> of \<open>services/device-agent/acquisition_registry.py\<close>. A registry is its validated
  document; the dictionaries by identifier that the constructor builds are lookups in it. The
  operations return the changed document with its audit rows. The five enrollment methods share one
  loop and differ in the family's names, messages and targets (\<open>family_spec\<close>); their unit ids are
  integers by type, so the tests of \<open>isinstance\<close> have no counterpart.
\<close>

section \<open>Queries\<close>

fun efilter :: "('a \<Rightarrow> 'e + bool) \<Rightarrow> 'a list \<Rightarrow> 'e + 'a list" where
  "efilter f [] = Inr []"
| "efilter f (x # xs) = ebind (f x) (\<lambda>b. ebind (efilter f xs) (\<lambda>ys. Inr (if b then x # ys else ys)))"

lemma efilter_Inr: "(\<And>x. x \<in> set xs \<Longrightarrow> f x = Inr (P x)) \<Longrightarrow> efilter f xs = Inr (filter P xs)"
  by (induction xs) auto

text \<open>\<open>self._devices[device_id]\<close>.\<close>

definition the_device :: "registry_document \<Rightarrow> string \<Rightarrow> registry_device result" where
  "the_device doc i = (case device_of (rg_devices doc) i of
      None \<Rightarrow> Inl (KeyError (py_repr i))
    | Some d \<Rightarrow> Inr d)"

definition effective_poll_eligible :: "registry_document \<Rightarrow> registry_target \<Rightarrow> bool result" where
  "effective_poll_eligible doc t = ebind (the_device doc (rt_device_id t)) (\<lambda>d.
     Inr (rd_lifecycle d = polling_lifecycle \<and> rt_lifecycle t = polling_lifecycle
       \<and> rt_function t \<in> set read_functions))"

definition eligible_targets :: "registry_document \<Rightarrow> string option \<Rightarrow> registry_target list result" where
  "eligible_targets doc fam = efilter (\<lambda>t.
     ebind (case fam of None \<Rightarrow> Inr True
            | Some f \<Rightarrow> ebind (the_device doc (rt_device_id t)) (\<lambda>d. Inr (dv_family d = f))) (\<lambda>b.
       if b then effective_poll_eligible doc t else Inr False)) (rg_targets doc)"

definition unit_and :: "registry_document \<Rightarrow> (registry_target \<Rightarrow> 'a result) \<Rightarrow> registry_target \<Rightarrow> (int \<times> 'a) result" where
  "unit_and doc f t = ebind (the_device doc (rt_device_id t)) (\<lambda>d. ebind (f t) (\<lambda>x. Inr (rd_unit_id d, x)))"

text \<open>\<open>int(text.removeprefix(prefix))\<close>.\<close>

definition int_after :: "string \<Rightarrow> string \<Rightarrow> int result" where
  "int_after pre text = (let rest = (if starts_with pre text then drop (length pre) text else text) in
     case py_int rest of
       Some n \<Rightarrow> Inr n
     | None \<Rightarrow> Inl (ValueError (''invalid literal for int() with base 10: '' @ py_repr rest)))"

definition eligible_xjp60d_points :: "registry_document \<Rightarrow> (int \<times> int) list result" where
  "eligible_xjp60d_points doc = ebind (eligible_targets doc (Some ''xjp60d''))
     (emap (unit_and doc (\<lambda>t. int_after ''channel-'' (rt_key t))))"

definition eligible_metrics :: "string \<Rightarrow> registry_document \<Rightarrow> (int \<times> string) list result" where
  "eligible_metrics fam doc = ebind (eligible_targets doc (Some fam)) (emap (unit_and doc (\<lambda>t. Inr (rt_key t))))"

definition eligible_le01mp_metrics :: "registry_document \<Rightarrow> (int \<times> string) list result" where
  "eligible_le01mp_metrics = eligible_metrics ''le01mp''"

definition eligible_sdm120_metrics :: "registry_document \<Rightarrow> (int \<times> string) list result" where
  "eligible_sdm120_metrics = eligible_metrics ''sdm120''"

definition eligible_embraco_metrics :: "registry_document \<Rightarrow> (int \<times> string) list result" where
  "eligible_embraco_metrics = eligible_metrics ''embraco''"

definition eligible_waveshare_8ai_channels :: "registry_document \<Rightarrow> (int \<times> int) list result" where
  "eligible_waveshare_8ai_channels doc = ebind (eligible_targets doc (Some ''waveshare_8ai''))
     (emap (unit_and doc (\<lambda>t. int_after ''ai-'' (rt_key t))))"

definition effective_cadence_for_device :: "registry_document \<Rightarrow> string \<Rightarrow> (pyfloat \<times> string) result" where
  "effective_cadence_for_device doc i = (case device_of (rg_devices doc) i of
      None \<Rightarrow> Inl (ValueError (''Unknown registry device: '' @ i))
    | Some d \<Rightarrow> effective_interval (rg_cadence doc) (dv_device_id d) (dv_key d))"

definition count_lifecycle :: "registry_target \<Rightarrow> (string, int) dict \<Rightarrow> (string, int) dict result" where
  "count_lifecycle t counts = (case dget counts (rt_lifecycle t) of
      None \<Rightarrow> Inl (KeyError (py_repr (rt_lifecycle t)))
    | Some n \<Rightarrow> Inr (dset (rt_lifecycle t) (n + 1) counts))"

definition lifecycle_counts :: "registry_document \<Rightarrow> (string, int) dict result" where
  "lifecycle_counts doc = each_in count_lifecycle (rg_targets doc) (map (\<lambda>l. (l, 0)) (sort lifecycles))"

section \<open>Lifecycle and cadence mutations\<close>

record lifecycle_mutation =
  lm_id :: string
  lm_lifecycle :: string

definition lifecycle_changes :: "lifecycle_mutation list \<Rightarrow> (string, string) dict result" where
  "lifecycle_changes ms = ebind (emap (\<lambda>m. ebind (validate_lifecycle (lm_lifecycle m)) (\<lambda>l. Inr (lm_id m, l))) ms)
     (\<lambda>pairs. Inr (foldl (\<lambda>d (i, l). dset i l d) [] pairs))"

definition lifecycle_change :: "string \<Rightarrow> string \<Rightarrow> string \<Rightarrow> string \<Rightarrow> change list" where
  "lifecycle_change entity i old new =
     (if new = old then [] else [\<lparr>ch_entity = entity, ch_id = i, ch_from = old, ch_to = new\<rparr>])"

definition with_mutations ::
  "registry_document \<Rightarrow> lifecycle_mutation list \<Rightarrow> lifecycle_mutation list \<Rightarrow> string
     \<Rightarrow> (registry_document \<times> change list) result" where
  "with_mutations doc dms tms now =
     (if \<not> distinct (map lm_id dms) then Inl (ValueError ''Duplicate device mutation'')
      else if \<not> distinct (map lm_id tms) then Inl (ValueError ''Duplicate target mutation'')
      else
        ebind (lifecycle_changes dms) (\<lambda>dcs.
        ebind (lifecycle_changes tms) (\<lambda>tcs.
          let unknown_devices = sort (filter (\<lambda>i. i \<notin> dv_device_id ` set (rg_devices doc)) (dkeys dcs));
              unknown_targets = sort (filter (\<lambda>i. i \<notin> rt_target_id ` set (rg_targets doc)) (dkeys tcs));
              dnew = (\<lambda>d. dget_or dcs (dv_device_id d) (rd_lifecycle d));
              tnew = (\<lambda>t. dget_or tcs (rt_target_id t) (rt_lifecycle t));
              changes = concat (map (\<lambda>d. lifecycle_change ''device'' (dv_device_id d) (rd_lifecycle d) (dnew d)) (rg_devices doc))
                @ concat (map (\<lambda>t. lifecycle_change ''target'' (rt_target_id t) (rt_lifecycle t) (tnew t)) (rg_targets doc))
          in if unknown_devices \<noteq> [] then
               Inl (ValueError (''Unknown registry devices: '' @ join '', '' unknown_devices))
             else if unknown_targets \<noteq> [] then
               Inl (ValueError (''Unknown registry targets: '' @ join '', '' unknown_targets))
             else if changes = [] then
               Inl (ValueError ''Registry mutation does not change acquisition eligibility'')
             else ebind (validate_document (doc\<lparr>rg_revision := rg_revision doc + 1,
                 rg_devices := map (\<lambda>d. d\<lparr>rd_lifecycle := dnew d\<rparr>) (rg_devices doc),
                 rg_targets := map (\<lambda>t. t\<lparr>rt_lifecycle := tnew t\<rparr>) (rg_targets doc),
                 rg_updated_at := now\<rparr>)) (\<lambda>d. Inr (d, changes)))))"

definition with_cadence_mutation ::
  "registry_document \<Rightarrow> cadence_mutation \<Rightarrow> string \<Rightarrow> (registry_document \<times> change list \<times> string set) result" where
  "with_cadence_mutation doc m now =
     ebind (apply_mutation (rg_cadence doc) m (map rb_bus_id (rg_buses doc)) (rg_devices doc))
       (\<lambda>(cadence, changes, affected).
         ebind (validate_document (doc\<lparr>rg_revision := rg_revision doc + 1, rg_cadence := cadence,
             rg_updated_at := now\<rparr>)) (\<lambda>d. Inr (d, changes, affected)))"

section \<open>Enrollment\<close>

record family_spec =
  fs_family :: string
  fs_prefix :: string
  fs_profile :: string
  fs_label :: string
  fs_conflict :: "string \<Rightarrow> int \<Rightarrow> registry_device \<Rightarrow> string"
  fs_targets :: "int \<Rightarrow> string \<Rightarrow> registry_target list"

definition identity_conflict :: "string \<Rightarrow> int \<Rightarrow> registry_device \<Rightarrow> string" where
  "identity_conflict bus unit d = ''Conflicting Modbus bus/Unit identity: '' @ bus @ ''/'' @ dec unit"

definition ownership_conflict :: "string \<Rightarrow> string \<Rightarrow> int \<Rightarrow> registry_device \<Rightarrow> string" where
  "ownership_conflict label bus unit d = ''Conflicting Modbus Unit ownership for '' @ label @ '' enrollment: unit=''
     @ dec unit @ '', registry_bus='' @ dv_bus_id d @ '', configured_bus='' @ bus"

definition plan_unit ::
  "family_spec \<Rightarrow> (int \<Rightarrow> string result) option \<Rightarrow> registry_document \<Rightarrow> int
     \<Rightarrow> (int \<times> string) list \<Rightarrow> (int \<times> string) list result" where
  "plan_unit spec bus_for_unit doc unit additions =
     ebind (case bus_for_unit of None \<Rightarrow> Inr main_bus | Some f \<Rightarrow> f unit) (\<lambda>bus.
       if bus \<notin> rb_bus_id ` set (rg_buses doc) then
         Inl (ValueError (''Configured bus '' @ py_repr bus @ '' is absent from acquisition registry''))
       else (case dget (index_by dev_identity (rg_devices doc)) (bus, unit) of
          Some d \<Rightarrow>
            if dv_family d \<noteq> fs_family spec \<or> rd_profile d \<noteq> fs_profile spec then
              Inl (ValueError (fs_conflict spec bus unit d))
            else Inr additions
        | None \<Rightarrow> (case device_of (rg_devices doc) (fs_prefix spec @ dec unit) of
            Some d \<Rightarrow> Inl (ValueError (ownership_conflict (fs_label spec) bus unit d))
          | None \<Rightarrow> Inr (additions @ [(unit, bus)]))))"

definition enrolled :: "string \<Rightarrow> string \<Rightarrow> string \<Rightarrow> change" where
  "enrolled entity i lc = \<lparr>ch_entity = entity, ch_id = i, ch_from = ''absent'', ch_to = lc\<rparr>"

definition enroll ::
  "family_spec \<Rightarrow> registry_document \<Rightarrow> int list \<Rightarrow> string \<Rightarrow> (int \<Rightarrow> string result) option \<Rightarrow> string
     \<Rightarrow> (registry_document \<times> change list) result" where
  "enroll spec doc unit_ids lifecycle bus_for_unit now =
     (let requested = sort (remdups unit_ids) in
      if \<exists>u \<in> set requested. \<not> (1 \<le> u \<and> u \<le> 247) then
        Inl (ValueError (''Invalid '' @ fs_label spec @ '' Modbus Unit ID''))
      else
        ebind (validate_lifecycle lifecycle) (\<lambda>lc.
        ebind (each_in (plan_unit spec bus_for_unit doc) requested []) (\<lambda>additions.
          if additions = [] then Inr (doc, [])
          else
            let device = (\<lambda>(u, bus). new_device (fs_prefix spec) (fs_family spec) (fs_profile spec) bus u lc);
                devices = rg_devices doc @ map device additions;
                changes = concat (map (\<lambda>(u, bus). enrolled ''device'' (fs_prefix spec @ dec u) lc
                  # map (\<lambda>t. enrolled ''target'' (rt_target_id t) lc) (fs_targets spec u lc)) additions)
            in ebind (ensure_defaults_for_devices (rg_cadence doc) devices) (\<lambda>cadence.
               ebind (validate_document (doc\<lparr>rg_revision := rg_revision doc + 1, rg_devices := devices,
                   rg_targets := rg_targets doc @ concat (map (\<lambda>(u, bus). fs_targets spec u lc) additions),
                   rg_cadence := cadence, rg_updated_at := now\<rparr>)) (\<lambda>d. Inr (d, changes))))))"

definition xjp_spec :: family_spec where
  "xjp_spec = \<lparr>fs_family = ''xjp60d'', fs_prefix = ''xjp60d-'', fs_profile = xjp_profile, fs_label = ''XJP60D'',
     fs_conflict = identity_conflict, fs_targets = (\<lambda>u lc. xjp_targets u (\<lambda>_. lc))\<rparr>"

definition le_spec :: family_spec where
  "le_spec = \<lparr>fs_family = ''le01mp'', fs_prefix = ''le01mp-'', fs_profile = le_profile, fs_label = ''LE-01MP'',
     fs_conflict = (\<lambda>bus u d. ''Conflicting Modbus Unit ownership for LE-01MP enrollment: unit='' @ dec u),
     fs_targets = le_targets\<rparr>"

definition sdm_spec :: family_spec where
  "sdm_spec = \<lparr>fs_family = ''sdm120'', fs_prefix = ''sdm120-'', fs_profile = sdm_profile, fs_label = ''SDM120'',
     fs_conflict = identity_conflict, fs_targets = sdm_targets\<rparr>"

definition ws_spec :: family_spec where
  "ws_spec = \<lparr>fs_family = ''waveshare_8ai'', fs_prefix = ''waveshare-8ai-'', fs_profile = ws_profile,
     fs_label = ''Waveshare 8AI'', fs_conflict = identity_conflict, fs_targets = ws_targets\<rparr>"

definition emb_spec :: family_spec where
  "emb_spec = \<lparr>fs_family = ''embraco'', fs_prefix = ''embraco-'', fs_profile = emb_profile, fs_label = ''Embraco'',
     fs_conflict = ownership_conflict ''Embraco'', fs_targets = emb_targets\<rparr>"

definition with_xjp60d_enrollment ::
  "registry_document \<Rightarrow> int list \<Rightarrow> string \<Rightarrow> (int \<Rightarrow> string result) option \<Rightarrow> string
     \<Rightarrow> (registry_document \<times> change list) result" where
  "with_xjp60d_enrollment doc unit_ids profile bus_for_unit now =
     (if profile \<noteq> xjp_profile then Inl (ValueError (''Unsupported XJP60D profile: '' @ py_repr profile))
      else enroll xjp_spec doc unit_ids ''discovery_only'' bus_for_unit now)"

definition with_le01mp_enrollment ::
  "registry_document \<Rightarrow> int list \<Rightarrow> string \<Rightarrow> (int \<Rightarrow> string result) option \<Rightarrow> string
     \<Rightarrow> (registry_document \<times> change list) result" where
  "with_le01mp_enrollment = enroll le_spec"

definition with_sdm120_enrollment ::
  "registry_document \<Rightarrow> int list \<Rightarrow> string \<Rightarrow> (int \<Rightarrow> string result) option \<Rightarrow> string
     \<Rightarrow> (registry_document \<times> change list) result" where
  "with_sdm120_enrollment = enroll sdm_spec"

definition with_waveshare_8ai_enrollment ::
  "registry_document \<Rightarrow> int list \<Rightarrow> string \<Rightarrow> (int \<Rightarrow> string result) option \<Rightarrow> string
     \<Rightarrow> (registry_document \<times> change list) result" where
  "with_waveshare_8ai_enrollment = enroll ws_spec"

definition with_embraco_enrollment ::
  "registry_document \<Rightarrow> int list \<Rightarrow> string \<Rightarrow> (int \<Rightarrow> string result) option \<Rightarrow> string
     \<Rightarrow> (registry_document \<times> change list) result" where
  "with_embraco_enrollment = enroll emb_spec"

section \<open>Lookups in a well-formed inventory\<close>

lemma device_of_iff:
  "distinct (map dv_device_id ds) \<Longrightarrow> device_of ds i = Some d \<longleftrightarrow> d \<in> set ds \<and> dv_device_id d = i"
  by (simp add: device_of_def index_by_distinct dget_by_key)

lemma registry_ok_devices: "registry_ok doc \<Longrightarrow> distinct (map dv_device_id (rg_devices doc))"
  by (simp add: registry_ok_def)

lemma registry_ok_target:
  assumes "registry_ok doc" and "t \<in> set (rg_targets doc)"
  obtains d where "device_of (rg_devices doc) (rt_device_id t) = Some d" "rt_profile t = rd_profile d"
  using assms by (auto simp: registry_ok_def target_ok_def split: option.splits)

definition polled :: "registry_document \<Rightarrow> registry_target \<Rightarrow> bool" where
  "polled doc t \<longleftrightarrow> rt_lifecycle t = ''active'' \<and> rt_function t \<in> set read_functions
     \<and> (\<exists>d. device_of (rg_devices doc) (rt_device_id t) = Some d \<and> rd_lifecycle d = ''active'')"

lemma eligible_targets_eq:
  assumes "registry_ok doc"
  shows "eligible_targets doc None = Inr (filter (polled doc) (rg_targets doc))"
  unfolding eligible_targets_def
proof (rule efilter_Inr)
  fix t assume "t \<in> set (rg_targets doc)"
  with assms obtain d where "device_of (rg_devices doc) (rt_device_id t) = Some d" by (elim registry_ok_target)
  then show "ebind (case None of None \<Rightarrow> Inr True
      | Some f \<Rightarrow> ebind (the_device doc (rt_device_id t)) (\<lambda>d. Inr (dv_family d = f)))
      (\<lambda>b. if b then effective_poll_eligible doc t else Inr False) = Inr (polled doc t)"
    by (auto simp: effective_poll_eligible_def the_device_def polled_def polling_lifecycle_def)
qed

section \<open>Enrollment\<close>

text \<open>What the enrollment loop relies on in a family: its targets are read targets of the new device,
  with the lifecycle asked for.\<close>

locale enrollable =
  fixes spec :: family_spec
  assumes target_lifecycle: "t \<in> set (fs_targets spec u lc) \<Longrightarrow> rt_lifecycle t = lc"
begin

lemma enroll_cases:
  assumes "enroll spec doc units lifecycle busf now = Inr (doc', changes)"
  obtains (same) "doc' = doc" "changes = []"
      "each_in (plan_unit spec busf doc) (sort (remdups units)) [] = Inr []"
  | (added) additions lc where "additions \<noteq> [] \<and> changes \<noteq> []" "lc = lower (strip lifecycle)"
      "each_in (plan_unit spec busf doc) (sort (remdups units)) [] = Inr additions"
      "registry_ok doc'" "rg_buses doc' = rg_buses doc" "rg_revision doc' = rg_revision doc + 1"
      "rg_devices doc' = rg_devices doc @
         map (\<lambda>(u, bus). new_device (fs_prefix spec) (fs_family spec) (fs_profile spec) bus u lc) additions"
      "rg_targets doc' = rg_targets doc @ concat (map (\<lambda>(u, bus). fs_targets spec u lc) additions)"
proof -
  from assms obtain additions where p: "each_in (plan_unit spec busf doc) (sort (remdups units)) [] = Inr additions"
    by (auto simp: enroll_def Let_def ebind_eq_Inr split: if_splits)
  show thesis
  proof (cases "additions = []")
    case True
    with assms p same show ?thesis by (auto simp: enroll_def Let_def ebind_eq_Inr split: if_splits)
  next
    case False
    from assms p False obtain cadence d where
      v: "validate_document (doc\<lparr>rg_revision := rg_revision doc + 1,
          rg_devices := rg_devices doc @
            map (\<lambda>(u, bus). new_device (fs_prefix spec) (fs_family spec) (fs_profile spec) bus u (lower (strip lifecycle))) additions,
          rg_targets := rg_targets doc @ concat (map (\<lambda>(u, bus). fs_targets spec u (lower (strip lifecycle))) additions),
          rg_cadence := cadence, rg_updated_at := now\<rparr>) = Inr d" "doc' = d"
      and ch: "changes = concat (map (\<lambda>(u, bus). enrolled ''device'' (fs_prefix spec @ dec u) (lower (strip lifecycle))
          # map (\<lambda>t. enrolled ''target'' (rt_target_id t) (lower (strip lifecycle)))
              (fs_targets spec u (lower (strip lifecycle)))) additions)"
      by (auto simp: enroll_def Let_def ebind_eq_Inr result_simps split: if_splits)
    from ch False have ne: "additions \<noteq> [] \<and> changes \<noteq> []" by (cases additions) auto
    from v have d: "doc' = doc\<lparr>rg_revision := rg_revision doc + 1,
          rg_devices := rg_devices doc @
            map (\<lambda>(u, bus). new_device (fs_prefix spec) (fs_family spec) (fs_profile spec) bus u (lower (strip lifecycle))) additions,
          rg_targets := rg_targets doc @ concat (map (\<lambda>(u, bus). fs_targets spec u (lower (strip lifecycle))) additions),
          rg_cadence := cadence, rg_updated_at := now\<rparr>" and ok: "registry_ok doc'"
      by (simp_all add: validates_iff)
    show ?thesis by (rule added [OF ne refl p ok]) (simp_all add: d)
  qed
qed

lemma enroll_ok: "registry_ok doc \<Longrightarrow> enroll spec doc units lifecycle busf now = Inr (doc', changes) \<Longrightarrow> registry_ok doc'"
  by (erule enroll_cases) auto

lemma enroll_keeps_polling:
  assumes "registry_ok doc" and "enroll spec doc units lifecycle busf now = Inr (doc', changes)"
    and "lower (strip lifecycle) \<noteq> ''active''"
  shows "eligible_targets doc' None = eligible_targets doc None"
  using assms(2)
proof (cases rule: enroll_cases)
  case (added additions lc)
  have dist: "distinct (map dv_device_id (rg_devices doc'))" using added(4) by (rule registry_ok_devices)
  have old: "polled doc' t = polled doc t" if t: "t \<in> set (rg_targets doc)" for t
  proof -
    obtain d where d: "device_of (rg_devices doc) (rt_device_id t) = Some d"
      using assms(1) t by (rule registry_ok_target)
    then have "d \<in> set (rg_devices doc) \<and> dv_device_id d = rt_device_id t"
      by (simp add: device_of_iff registry_ok_devices [OF assms(1)])
    then have "device_of (rg_devices doc') (rt_device_id t) = Some d"
      using dist by (simp add: device_of_iff added(7))
    with d show ?thesis by (simp add: polled_def)
  qed
  have new: "\<not> polled doc' t" if "t \<in> set (concat (map (\<lambda>(u, bus). fs_targets spec u lc) additions))" for t
  proof -
    from that obtain u where "t \<in> set (fs_targets spec u lc)" by auto
    from target_lifecycle [OF this] show ?thesis using added(2) assms(3) by (simp add: polled_def)
  qed
  have "filter (polled doc') (rg_targets doc') = filter (polled doc) (rg_targets doc)"
    using old new by (simp add: added(8) filter_empty_conv cong: filter_cong)
  then show ?thesis by (simp add: eligible_targets_eq added(4) assms(1))
qed simp

text \<open>Planning again finds every planned unit in place.\<close>

lemma plan_unit_Inr:
  assumes "plan_unit spec busf doc u adds = Inr adds'"
  obtains bus where "(case busf of None \<Rightarrow> Inr main_bus | Some f \<Rightarrow> f u) = Inr bus"
    "bus \<in> rb_bus_id ` set (rg_buses doc)"
    "(adds' = adds \<and> (\<exists>d. dget (index_by dev_identity (rg_devices doc)) (bus, u) = Some d
        \<and> dv_family d = fs_family spec \<and> rd_profile d = fs_profile spec))
     \<or> adds' = adds @ [(u, bus)]"
  using assms by (auto simp: plan_unit_def ebind_eq_Inr split: if_splits option.splits)

definition in_place :: "(int \<Rightarrow> string result) option \<Rightarrow> registry_document \<Rightarrow> int \<Rightarrow> bool" where
  "in_place busf doc u \<longleftrightarrow> (\<exists>bus d. (case busf of None \<Rightarrow> Inr main_bus | Some f \<Rightarrow> f u) = Inr bus
     \<and> bus \<in> rb_bus_id ` set (rg_buses doc) \<and> d \<in> set (rg_devices doc) \<and> dev_identity d = (bus, u)
     \<and> dv_family d = fs_family spec \<and> rd_profile d = fs_profile spec)"

definition planned :: "(int \<Rightarrow> string result) option \<Rightarrow> registry_document \<Rightarrow> (int \<times> string) list \<Rightarrow> int \<Rightarrow> bool" where
  "planned busf doc adds u \<longleftrightarrow> in_place busf doc u
     \<or> (\<exists>bus. (case busf of None \<Rightarrow> Inr main_bus | Some f \<Rightarrow> f u) = Inr bus
          \<and> bus \<in> rb_bus_id ` set (rg_buses doc) \<and> (u, bus) \<in> set adds)"

lemma plan_planned:
  assumes "each_in (plan_unit spec busf doc) us adds = Inr adds'" and "registry_ok doc"
  shows "set adds \<subseteq> set adds' \<and> (\<forall>u \<in> set us. planned busf doc adds' u)"
  using assms(1)
proof (induction us arbitrary: adds)
  case (Cons u us)
  from Cons.prems obtain a where a: "plan_unit spec busf doc u adds = Inr a"
    and rest: "each_in (plan_unit spec busf doc) us a = Inr adds'" by (auto simp: ebind_eq_Inr)
  have dist: "distinct (map dev_identity (rg_devices doc))" using assms(2) by (simp add: registry_ok_def)
  from a have "set adds \<subseteq> set a \<and> planned busf doc a u"
    by (rule plan_unit_Inr)
      (auto simp: planned_def in_place_def index_by_distinct [OF dist] dget_by_key [OF dist])
  with Cons.IH [OF rest] show ?case by (auto simp: planned_def)
qed simp

lemma in_place_skipped:
  assumes "in_place busf doc u" and "registry_ok doc"
  shows "plan_unit spec busf doc u adds = Inr adds"
proof -
  have dist: "distinct (map dev_identity (rg_devices doc))" using assms(2) by (simp add: registry_ok_def)
  from assms(1) obtain bus d where b: "(case busf of None \<Rightarrow> Inr main_bus | Some f \<Rightarrow> f u) = Inr bus"
      "bus \<in> rb_bus_id ` set (rg_buses doc)" "d \<in> set (rg_devices doc)" "dev_identity d = (bus, u)"
      "dv_family d = fs_family spec" "rd_profile d = fs_profile spec"
    by (auto simp: in_place_def)
  from b(3,4) have "dget (index_by dev_identity (rg_devices doc)) (bus, u) = Some d"
    by (simp add: index_by_distinct [OF dist] dget_by_key [OF dist])
  with b show ?thesis by (simp add: plan_unit_def)
qed

lemma all_in_place:
  "(\<forall>u \<in> set us. in_place busf doc u) \<Longrightarrow> registry_ok doc \<Longrightarrow> each_in (plan_unit spec busf doc) us adds = Inr adds"
  by (induction us) (auto simp: in_place_skipped)

lemma enroll_in_place:
  assumes "registry_ok doc" and "enroll spec doc units lifecycle busf now = Inr (doc', changes)" and "u \<in> set units"
  shows "in_place busf doc' u"
  using assms(2)
proof (cases rule: enroll_cases)
  case same
  from plan_planned [OF same(3) assms(1)] assms(3) same(1) show ?thesis by (auto simp: planned_def)
next
  case (added additions lc)
  from plan_planned [OF added(3) assms(1)] assms(3) have "planned busf doc additions u" by auto
  then show ?thesis
    unfolding planned_def
  proof (elim disjE exE conjE)
    assume "in_place busf doc u"
    then show ?thesis unfolding in_place_def added(5,7) by auto
  next
    fix bus assume b: "(case busf of None \<Rightarrow> Inr main_bus | Some f \<Rightarrow> f u) = Inr bus"
      "bus \<in> rb_bus_id ` set (rg_buses doc)" "(u, bus) \<in> set additions"
    let ?d = "new_device (fs_prefix spec) (fs_family spec) (fs_profile spec) bus u lc"
    have "?d \<in> set (rg_devices doc')" using b(3) by (force simp: added(7))
    moreover have "dev_identity ?d = (bus, u)" "dv_family ?d = fs_family spec" "rd_profile ?d = fs_profile spec"
      by (simp_all add: new_device_def dev_identity_def)
    ultimately show ?thesis using b(1,2) unfolding in_place_def added(5) by blast
  qed
qed

lemma enroll_idempotent:
  assumes "registry_ok doc" and "enroll spec doc units lifecycle busf now = Inr (doc', changes)"
  shows "enroll spec doc' units lifecycle busf now' = Inr (doc', [])"
proof -
  have "registry_ok doc'" using assms by (rule enroll_ok)
  then have p: "each_in (plan_unit spec busf doc') (sort (remdups units)) [] = Inr []"
    using enroll_in_place [OF assms] by (intro all_in_place) auto
  from assms(2) have "\<not> (\<exists>u \<in> set (sort (remdups units)). \<not> (1 \<le> u \<and> u \<le> 247))" "isOk (validate_lifecycle lifecycle)"
    by (auto simp: enroll_def Let_def ebind_eq_Inr isOk_iff split: if_splits)
  with p show ?thesis by (auto simp: enroll_def Let_def isOk_iff)
qed

end

interpretation xjp: enrollable xjp_spec
  by unfold_locales (auto simp: xjp_spec_def xjp_targets_def xjp_target_def Let_def)

interpretation le: enrollable le_spec
  by unfold_locales (auto simp: le_spec_def le_targets_def le_target_def metric_target_def Let_def)

interpretation sdm: enrollable sdm_spec
  by unfold_locales (auto simp: sdm_spec_def sdm_targets_def sdm_target_def metric_target_def Let_def)

interpretation ws: enrollable ws_spec
  by unfold_locales (auto simp: ws_spec_def ws_targets_def ws_target_def Let_def)

interpretation emb: enrollable emb_spec
  by unfold_locales (auto simp: emb_spec_def emb_targets_def emb_target_def metric_target_def Let_def)

section \<open>Changing lifecycles\<close>

lemma device_of_map:
  assumes "\<And>d. dv_device_id (g d) = dv_device_id d"
  shows "device_of (map g ds) i = map_option g (device_of ds i)"
proof -
  have "dget (foldl (\<lambda>m x. dset (dv_device_id x) x m) (map (\<lambda>(k, v). (k, g v)) m) (map g ds)) i
      = map_option g (dget (foldl (\<lambda>m x. dset (dv_device_id x) x m) m ds) i)" for m
  proof (induction ds arbitrary: m)
    case (Cons d ds)
    have "dset k (g v) (map (\<lambda>(k, v). (k, g v)) m) = map (\<lambda>(k, v). (k, g v)) (dset k v m)" for k v
      by (induction m) auto
    then show ?case using Cons.IH [of "dset (dv_device_id d) d m"] by (simp add: assms)
  qed (simp add: map_of_map)
  from this [of "[]"] show ?thesis by (simp add: device_of_def)
qed

lemma registry_ok_lifecycles:
  fixes f g doc now
  defines "doc' \<equiv> doc\<lparr>rg_revision := rg_revision doc + 1,
     rg_devices := map (\<lambda>d. d\<lparr>rd_lifecycle := f d\<rparr>) (rg_devices doc),
     rg_targets := map (\<lambda>t. t\<lparr>rt_lifecycle := g t\<rparr>) (rg_targets doc), rg_updated_at := now\<rparr>"
  assumes "registry_ok doc" and "\<And>d. d \<in> set (rg_devices doc) \<Longrightarrow> lifecycle_ok (f d)"
    and "\<And>t. t \<in> set (rg_targets doc) \<Longrightarrow> lifecycle_ok (g t)"
  shows "registry_ok doc'"
proof -
  let ?g = "\<lambda>d. d\<lparr>rd_lifecycle := f d\<rparr>"
  have dv: "device_of (map ?g (rg_devices doc)) i = map_option ?g (device_of (rg_devices doc) i)" for i
    by (rule device_of_map) simp
  have key: "dv_key (?g d) = dv_key d" for d by (simp add: dv_key_def)
  have vp: "validate_policy p buses (map ?g ds) = validate_policy p buses ds" for p buses ds
  proof -
    have "map dv_key (map ?g ds) = map dv_key ds" "map dv_device_id (map ?g ds) = map dv_device_id ds"
      by (simp_all add: key)
    then show ?thesis by (simp only: validate_policy_def)
  qed
  have "telemetry_id (map ?g (rg_devices doc)) (t\<lparr>rt_lifecycle := g t\<rparr>) = telemetry_id (rg_devices doc) t"
    if t: "t \<in> set (rg_targets doc)" for t
  proof -
    obtain d where "device_of (rg_devices doc) (rt_device_id t) = Some d" using assms(2) t by (rule registry_ok_target)
    then show ?thesis by (simp add: telemetry_id_def dv)
  qed
  then have tel: "map (telemetry_id (map ?g (rg_devices doc)) \<circ> (\<lambda>t. t\<lparr>rt_lifecycle := g t\<rparr>)) (rg_targets doc)
      = map (telemetry_id (rg_devices doc)) (rg_targets doc)" by simp
  have dev: "device_ok buses (?g d)" if "d \<in> set (rg_devices doc)" "device_ok buses d" for buses d
    using that assms(3) by (simp add: device_ok_def)
  have tgt: "target_ok (map ?g (rg_devices doc)) (t\<lparr>rt_lifecycle := g t\<rparr>)"
    if "t \<in> set (rg_targets doc)" "target_ok (rg_devices doc) t" for t
    using that assms(4) by (auto simp: target_ok_def dv split: option.splits)
  have id: "dev_identity (?g d) = dev_identity d" for d by (simp add: dev_identity_def)
  show ?thesis
    using assms(2) dev tgt by (simp add: doc'_def registry_ok_def comp_def vp id tel [unfolded comp_def])
qed

lemma lifecycle_changes_iff:
  assumes "distinct (map lm_id ms)"
  shows "lifecycle_changes ms = Inr d \<longleftrightarrow> (\<forall>m \<in> set ms. lifecycle_ok (lm_lifecycle m))
    \<and> d = map (\<lambda>m. (lm_id m, lower (strip (lm_lifecycle m)))) ms"
proof -
  let ?h = "\<lambda>m. (lm_id m, lower (strip (lm_lifecycle m)))"
  have e: "emap (\<lambda>m. ebind (validate_lifecycle (lm_lifecycle m)) (\<lambda>l. Inr (lm_id m, l))) ms = Inr ps
      \<longleftrightarrow> (\<forall>m \<in> set ms. lifecycle_ok (lm_lifecycle m)) \<and> ps = map ?h ms" for ps
    by (induction ms arbitrary: ps) (auto simp: ebind_eq_Inr result_simps)
  have f: "foldl (\<lambda>d (i, l). dset i l d) acc (map ?h ms) = acc @ map ?h ms"
    if "distinct (dkeys acc @ map lm_id ms)" for acc
    using that
  proof (induction ms arbitrary: acc)
    case (Cons m ms)
    then show ?case using Cons.IH [of "acc @ [?h m]"] by (simp add: dset_fresh)
  qed simp
  show ?thesis using f [of "[]"] assms by (auto simp: lifecycle_changes_def ebind_eq_Inr e)
qed

text \<open>The lifecycle that the mutations ask for, or the current one.\<close>

definition asked :: "lifecycle_mutation list \<Rightarrow> string \<Rightarrow> string \<Rightarrow> string" where
  "asked ms i current = dget_or (map (\<lambda>m. (lm_id m, lower (strip (lm_lifecycle m)))) ms) i current"

lemma asked_ok:
  "\<forall>m \<in> set ms. lifecycle_ok (lm_lifecycle m) \<Longrightarrow> lifecycle_ok current \<Longrightarrow> lifecycle_ok (asked ms i current)"
proof -
  assume a: "\<forall>m \<in> set ms. lifecycle_ok (lm_lifecycle m)" "lifecycle_ok current"
  have norm: "lifecycle_ok l" if "l \<in> set lifecycles" for l
  proof -
    have "list_all lifecycle_ok lifecycles" by code_simp
    with that show ?thesis by (simp add: list_all_iff)
  qed
  show ?thesis
  proof (cases "dget (map (\<lambda>m. (lm_id m, lower (strip (lm_lifecycle m)))) ms) i")
    case None
    with a show ?thesis by (simp add: asked_def dget_or_def)
  next
    case (Some l)
    then obtain m where "m \<in> set ms" "l = lower (strip (lm_lifecycle m))" by (auto dest!: dget_mem)
    with a(1) have "l \<in> set lifecycles" by (auto simp: lifecycle_ok_def)
    with Some norm show ?thesis by (simp add: asked_def dget_or_def)
  qed
qed

definition mutated :: "registry_document \<Rightarrow> lifecycle_mutation list \<Rightarrow> lifecycle_mutation list \<Rightarrow> string \<Rightarrow> registry_document" where
  "mutated doc dms tms now = doc\<lparr>rg_revision := rg_revision doc + 1,
     rg_devices := map (\<lambda>d. d\<lparr>rd_lifecycle := asked dms (dv_device_id d) (rd_lifecycle d)\<rparr>) (rg_devices doc),
     rg_targets := map (\<lambda>t. t\<lparr>rt_lifecycle := asked tms (rt_target_id t) (rt_lifecycle t)\<rparr>) (rg_targets doc),
     rg_updated_at := now\<rparr>"

definition mutation_applies :: "registry_document \<Rightarrow> lifecycle_mutation list \<Rightarrow> lifecycle_mutation list \<Rightarrow> bool" where
  "mutation_applies doc dms tms \<longleftrightarrow> distinct (map lm_id dms) \<and> distinct (map lm_id tms)
     \<and> (\<forall>m \<in> set dms \<union> set tms. lifecycle_ok (lm_lifecycle m))
     \<and> lm_id ` set dms \<subseteq> dv_device_id ` set (rg_devices doc)
     \<and> lm_id ` set tms \<subseteq> rt_target_id ` set (rg_targets doc)
     \<and> ((\<exists>d \<in> set (rg_devices doc). asked dms (dv_device_id d) (rd_lifecycle d) \<noteq> rd_lifecycle d)
        \<or> (\<exists>t \<in> set (rg_targets doc). asked tms (rt_target_id t) (rt_lifecycle t) \<noteq> rt_lifecycle t))"

lemma mutated_ok:
  assumes "registry_ok doc" and "\<forall>m \<in> set dms \<union> set tms. lifecycle_ok (lm_lifecycle m)"
  shows "registry_ok (mutated doc dms tms now)"
  unfolding mutated_def
proof (rule registry_ok_lifecycles [OF assms(1)])
  fix d assume "d \<in> set (rg_devices doc)"
  with assms show "lifecycle_ok (asked dms (dv_device_id d) (rd_lifecycle d))"
    by (intro asked_ok) (auto simp: registry_ok_def device_ok_def)
next
  fix t assume "t \<in> set (rg_targets doc)"
  with assms show "lifecycle_ok (asked tms (rt_target_id t) (rt_lifecycle t))"
    by (intro asked_ok) (auto simp: registry_ok_def target_ok_def)
qed

lemma sort_filter_empty: "sort (filter P xs) = [] \<longleftrightarrow> (\<forall>x \<in> set xs. \<not> P x)"
proof -
  have "sort (filter P xs) = [] \<longleftrightarrow> set (sort (filter P xs)) = {}" by (simp only: set_empty)
  then show ?thesis by (simp only: set_sort) auto
qed


lemma lifecycle_change_Nil: "lifecycle_change e i old new = [] \<longleftrightarrow> new = old"
  by (simp add: lifecycle_change_def)

lemma with_mutations_eq:
  assumes "distinct (map lm_id dms)" and "distinct (map lm_id tms)"
    and "\<forall>m \<in> set dms \<union> set tms. lifecycle_ok (lm_lifecycle m)"
  shows "with_mutations doc dms tms now =
    (let unknown_devices = sort (filter (\<lambda>i. i \<notin> dv_device_id ` set (rg_devices doc)) (map lm_id dms));
         unknown_targets = sort (filter (\<lambda>i. i \<notin> rt_target_id ` set (rg_targets doc)) (map lm_id tms));
         changes = concat (map (\<lambda>d. lifecycle_change ''device'' (dv_device_id d) (rd_lifecycle d)
             (asked dms (dv_device_id d) (rd_lifecycle d))) (rg_devices doc))
           @ concat (map (\<lambda>t. lifecycle_change ''target'' (rt_target_id t) (rt_lifecycle t)
             (asked tms (rt_target_id t) (rt_lifecycle t))) (rg_targets doc))
     in if unknown_devices \<noteq> [] then Inl (ValueError (''Unknown registry devices: '' @ join '', '' unknown_devices))
        else if unknown_targets \<noteq> [] then Inl (ValueError (''Unknown registry targets: '' @ join '', '' unknown_targets))
        else if changes = [] then Inl (ValueError ''Registry mutation does not change acquisition eligibility'')
        else ebind (validate_document (mutated doc dms tms now)) (\<lambda>d. Inr (d, changes)))"
proof -
  have "lifecycle_changes dms = Inr (map (\<lambda>m. (lm_id m, lower (strip (lm_lifecycle m)))) dms)"
    "lifecycle_changes tms = Inr (map (\<lambda>m. (lm_id m, lower (strip (lm_lifecycle m)))) tms)"
    using assms by (simp_all add: lifecycle_changes_iff)
  moreover have "map fst (map (\<lambda>m. (lm_id m, lower (strip (lm_lifecycle m)))) ms) = map lm_id ms"
    for ms :: "lifecycle_mutation list" by simp
  ultimately show ?thesis using assms(1,2)
    by (simp only: with_mutations_def if_False simp_thms ebind_Inr Let_def asked_def mutated_def)
qed

lemma with_mutations_Inr:
  assumes "with_mutations doc dms tms now = Inr r"
  shows "distinct (map lm_id dms) \<and> distinct (map lm_id tms)
    \<and> (\<forall>m \<in> set dms \<union> set tms. lifecycle_ok (lm_lifecycle m))"
proof -
  from assms have d: "distinct (map lm_id dms)" "distinct (map lm_id tms)"
    by (auto simp: with_mutations_def split: if_splits)
  with assms obtain dcs tcs where "lifecycle_changes dms = Inr dcs" "lifecycle_changes tms = Inr tcs"
    by (auto simp: with_mutations_def ebind_eq_Inr)
  with d show ?thesis by (auto simp: lifecycle_changes_iff)
qed

section \<open>Properties\<close>

text \<open>A lifecycle mutation of a well-formed inventory is accepted exactly when it names every device and
  target once, all of them known, with supported lifecycles, and changes something; the result is the
  inventory with those lifecycles at the next revision, well-formed again, and its audit rows are not empty.\<close>

theorem with_mutations_outcome:
  assumes "registry_ok doc"
  shows "case with_mutations doc dms tms now of
      Inl e \<Rightarrow> \<not> mutation_applies doc dms tms
    | Inr (doc', changes) \<Rightarrow> mutation_applies doc dms tms \<and> registry_ok doc'
        \<and> doc' = mutated doc dms tms now \<and> changes \<noteq> []"
proof (cases "distinct (map lm_id dms) \<and> distinct (map lm_id tms)
    \<and> (\<forall>m \<in> set dms \<union> set tms. lifecycle_ok (lm_lifecycle m))")
  case False
  then have "\<not> mutation_applies doc dms tms" by (auto simp: mutation_applies_def)
  with with_mutations_Inr [of doc dms tms now] False show ?thesis by (cases "with_mutations doc dms tms now") auto
next
  case True
  then have v: "validate_document (mutated doc dms tms now) = Inr (mutated doc dms tms now)" "registry_ok (mutated doc dms tms now)"
    using mutated_ok [OF assms, of dms tms now] by (simp_all add: validates_iff)
  have "distinct (map lm_id dms)" "distinct (map lm_id tms)"
    "\<forall>m \<in> set dms \<union> set tms. lifecycle_ok (lm_lifecycle m)" using True by blast+
  note eq = with_mutations_eq [OF this, of doc now, unfolded Let_def]
  define changes where "changes = concat (map (\<lambda>d. lifecycle_change ''device'' (dv_device_id d) (rd_lifecycle d)
             (asked dms (dv_device_id d) (rd_lifecycle d))) (rg_devices doc))
           @ concat (map (\<lambda>t. lifecycle_change ''target'' (rt_target_id t) (rt_lifecycle t)
             (asked tms (rt_target_id t) (rt_lifecycle t))) (rg_targets doc))"
  have ch: "changes = [] \<longleftrightarrow> \<not> ((\<exists>d \<in> set (rg_devices doc). asked dms (dv_device_id d) (rd_lifecycle d) \<noteq> rd_lifecycle d)
        \<or> (\<exists>t \<in> set (rg_targets doc). asked tms (rt_target_id t) (rt_lifecycle t) \<noteq> rt_lifecycle t))"
    by (auto simp: changes_def lifecycle_change_Nil)
  have ap: "mutation_applies doc dms tms \<longleftrightarrow> (\<forall>i \<in> set (map lm_id dms). i \<in> dv_device_id ` set (rg_devices doc))
      \<and> (\<forall>i \<in> set (map lm_id tms). i \<in> rt_target_id ` set (rg_targets doc)) \<and> changes \<noteq> []"
    unfolding mutation_applies_def ch using True by auto
  show ?thesis unfolding eq changes_def [symmetric] v(1)
    using ap v(2) by (auto simp only: sort_filter_empty not_not ebind_Inr sum.case prod.case split: if_split)
qed

definition sample_registry :: "string \<Rightarrow> registry_document" where
  "sample_registry lc =
     \<lparr>rg_schema_version = 2, rg_revision = 1,
      rg_buses = [\<lparr>rb_bus_id = main_bus, rb_protocol = ''modbus_rtu'', rb_read_only = True\<rparr>],
      rg_devices = [new_device ''xjp60d-'' ''xjp60d'' xjp_profile main_bus 2 lc],
      rg_targets = [xjp_target 2 1 lc],
      rg_cadence = \<lparr>cp_defaults = [\<lparr>fd_bus_id = main_bus, fd_family = ''xjp60d'', fd_interval = 10\<rparr>], cp_overrides = []\<rparr>,
      rg_updated_at = ''2026-01-01T00:00:00+00:00''\<rparr>"

lemma sample_registry_ok: "registry_ok (sample_registry ''active'')"
  by code_simp

theorem with_mutations_outcome_witness:
  "\<exists>doc' changes. with_mutations (sample_registry ''active'') [\<lparr>lm_id = ''xjp60d-2'', lm_lifecycle = '' Reserve ''\<rparr>] [] ''t''
      = Inr (doc', changes) \<and> registry_ok doc'"
proof -
  have "isOk (with_mutations (sample_registry ''active'') [\<lparr>lm_id = ''xjp60d-2'', lm_lifecycle = '' Reserve ''\<rparr>] [] ''t'')"
    by code_simp
  with with_mutations_outcome [OF sample_registry_ok, of "[\<lparr>lm_id = ''xjp60d-2'', lm_lifecycle = '' Reserve ''\<rparr>]" "[]" "''t''"]
  show ?thesis by (auto simp: isOk_iff)
qed

text \<open>C33: Enrolling discovered units is safe and idempotent. The inventory stays well-formed, enrolling the same
  units again changes nothing, and unless the requested lifecycle is active the targets that are polled
  stay the same.\<close>

theorem enrollment_safe:
  assumes "registry_ok doc" and "spec \<in> {xjp_spec, le_spec, sdm_spec, ws_spec, emb_spec}"
    and "enroll spec doc units lifecycle bus_for_unit now = Inr (doc', changes)"
  shows "registry_ok doc' \<and> enroll spec doc' units lifecycle bus_for_unit now' = Inr (doc', [])
    \<and> (lower (strip lifecycle) \<noteq> ''active'' \<longrightarrow> eligible_targets doc' None = eligible_targets doc None)"
proof -
  have "enrollable spec" using assms(2) xjp.enrollable_axioms le.enrollable_axioms sdm.enrollable_axioms
      ws.enrollable_axioms emb.enrollable_axioms by blast
  from enrollable.enroll_ok [OF this assms(1,3)] enrollable.enroll_idempotent [OF this assms(1,3)]
    enrollable.enroll_keeps_polling [OF this assms(1,3)]
  show ?thesis by blast
qed

theorem enrollment_safe_witness:
  "\<exists>doc' changes. enroll xjp_spec (sample_registry ''active'') [5] ''discovery_only'' None ''t'' = Inr (doc', changes)
    \<and> registry_ok doc' \<and> eligible_targets doc' None = eligible_targets (sample_registry ''active'') None"
proof -
  have "isOk (enroll xjp_spec (sample_registry ''active'') [5] ''discovery_only'' None ''t'')" by code_simp
  then obtain doc' changes where run:
    "enroll xjp_spec (sample_registry ''active'') [5] ''discovery_only'' None ''t'' = Inr (doc', changes)"
    by (auto simp: isOk_iff)
  have "lower (strip ''discovery_only'') \<noteq> ''active''" by code_simp
  with enrollment_safe [OF sample_registry_ok _ run, of "''u''"] run show ?thesis by simp
qed

lemma unnormalized_registry_ok: "registry_ok (sample_registry ''Active'')"
  by code_simp

text \<open>The summary of a well-formed inventory needs normalized lifecycles. Validation accepts a lifecycle up
  to case and white space and keeps its spelling, but counting by lifecycle fails with \<open>KeyError\<close> unless
  every target's lifecycle is spelt exactly.\<close>

theorem lifecycle_counts_exact_spelling:
  "(isOk (lifecycle_counts doc) \<longleftrightarrow> rt_lifecycle ` set (rg_targets doc) \<subseteq> set lifecycles)
    \<and> registry_ok (sample_registry ''Active'') \<and> \<not> isOk (lifecycle_counts (sample_registry ''Active''))"
proof -
  have "isOk (each_in count_lifecycle ts counts) \<longleftrightarrow> (\<forall>t \<in> set ts. rt_lifecycle t \<in> set (dkeys counts))"
    for ts and counts :: "(string, int) dict"
  proof (induction ts arbitrary: counts)
    case (Cons t ts)
    show ?case
    proof (cases "dget counts (rt_lifecycle t)")
      case None
      then have "rt_lifecycle t \<notin> set (dkeys counts)" by (simp add: map_of_eq_None_iff image_iff)
      with None show ?thesis by (simp add: count_lifecycle_def)
    next
      case (Some n)
      then have "rt_lifecycle t \<in> set (dkeys counts)" by (rule dget_key_in)
      moreover have "count_lifecycle t counts = Inr (dset (rt_lifecycle t) (n + 1) counts)"
        using Some by (simp add: count_lifecycle_def)
      ultimately show ?thesis
        by (simp only: each_in.simps ebind_Inr Cons.IH dkeys_dset insert_absorb list.set ball_simps simp_thms)
    qed
  qed simp
  from this [of "rg_targets d" "map (\<lambda>l. (l, 0)) (sort lifecycles)" for d]
  have "isOk (lifecycle_counts d) \<longleftrightarrow> rt_lifecycle ` set (rg_targets d) \<subseteq> set lifecycles" for d
    by (auto simp: lifecycle_counts_def comp_def)
  moreover have "''Active'' \<notin> set lifecycles" by (simp add: lifecycles_def)
  then have "\<not> rt_lifecycle ` set (rg_targets (sample_registry ''Active'')) \<subseteq> set lifecycles"
    by (simp add: sample_registry_def xjp_target_def Let_def)
  ultimately show ?thesis using unnormalized_registry_ok by blast
qed

end
