(* ===== verification/RegistryStore.thy ===== *)
theory RegistryStore
  imports Registry
begin

text \<open>
  \<open>AcquisitionRegistryStore\<close> and the migrations of \<open>services/device-agent/acquisition_registry.py\<close>: the
  SQLite row with the document, its audit table, the optimistic commit of a mutation, and the load at
  start, which upgrades and reconciles what it finds. The document column is the document whose JSON it
  holds; a row of the old schema is \<open>StoredV1\<close>. Waiting for SQLite locks is not modelled here. \<open>clock i\<close>
  is the time of the \<open>i\<close>-th reading in \<open>load_or_migrate\<close>; the environment is the argument \<open>env\<close>.
\<close>

section \<open>The database\<close>

record v1_document =
  v1_revision :: int
  v1_buses :: "registry_bus list"
  v1_devices :: "registry_device list"
  v1_targets :: "registry_target list"

datatype stored = StoredV1 v1_document | StoredV2 registry_document | StoredSchema int | StoredNoObject

record audit_row =
  au_revision :: int
  au_actor :: string
  au_reason :: string
  au_changes :: "change list"
  au_changed_at :: string

record store_db =
  sd_state :: "(int \<times> stored) option"
  sd_audit :: "audit_row list"

record store_config =
  sc_binding :: "(registry_document \<Rightarrow> registry_document result) option"
  sc_bus :: "(int \<Rightarrow> string result) option"
  sc_sdm_bus :: "(int \<Rightarrow> string result) option"
  sc_ws_bus :: "(int \<Rightarrow> string result) option"

definition store_init :: "store_config \<Rightarrow> store_config result" where
  "store_init cfg = (if (sc_binding cfg = None) \<noteq> (sc_bus cfg = None) then
       Inl (ValueError ''Registry binding and configured bus ownership must be configured together'')
     else Inr cfg)"

definition write_state :: "registry_document \<Rightarrow> store_db \<Rightarrow> store_db" where
  "write_state doc db = db\<lparr>sd_state := map_option (\<lambda>_. (rg_revision doc, StoredV2 doc)) (sd_state db)\<rparr>"

definition write_audit :: "registry_document \<Rightarrow> string \<Rightarrow> string \<Rightarrow> change list \<Rightarrow> store_db \<Rightarrow> store_db" where
  "write_audit doc actor reason changes db = db\<lparr>sd_audit := sd_audit db @ [\<lparr>au_revision = rg_revision doc,
     au_actor = actor, au_reason = reason, au_changes = changes, au_changed_at = rg_updated_at doc\<rparr>]\<rparr>"

definition persist :: "string \<Rightarrow> string \<Rightarrow> registry_document \<Rightarrow> change list \<Rightarrow> store_db \<Rightarrow> store_db" where
  "persist actor reason doc changes db =
     (if changes = [] then db else write_audit doc actor reason changes (write_state doc db))"

section \<open>Committing a mutation\<close>

text \<open>The update with an expected revision, \<open>cursor.rowcount != 1\<close> included.\<close>

definition write_state_expecting :: "registry_document \<Rightarrow> int \<Rightarrow> store_db \<Rightarrow> store_db result" where
  "write_state_expecting doc expected db = (case sd_state db of
      Some (r, _) \<Rightarrow>
        if r = expected then Inr (write_state doc db)
        else Inl (RegistryRevisionConflict (''Expected revision '' @ dec expected @ '', registry update did not apply''))
    | None \<Rightarrow> Inl (RegistryRevisionConflict (''Expected revision '' @ dec expected @ '', registry update did not apply'')))"

definition database_revision :: "store_db \<Rightarrow> int" where
  "database_revision db = (case sd_state db of None \<Rightarrow> 0 | Some (r, _) \<Rightarrow> r)"

definition commit_candidate ::
  "registry_document \<Rightarrow> registry_document \<Rightarrow> change list \<Rightarrow> int \<Rightarrow> string \<Rightarrow> string \<Rightarrow> store_db
     \<Rightarrow> registry_document result \<times> store_db" where
  "commit_candidate registry doc changes expected actor reason db =
     (let actor1 = take 200 (strip actor); reason1 = take 500 (strip reason) in
      if actor1 = [] then (Inl (ValueError ''Registry mutation actor is required''), db)
      else if reason1 = [] then (Inl (ValueError ''Registry mutation reason is required''), db)
      else if expected \<noteq> rg_revision registry then
        (Inl (RegistryRevisionConflict (''Expected revision '' @ dec expected @ '', current revision is ''
          @ dec (rg_revision registry))), db)
      else if database_revision db \<noteq> expected then
        (Inl (RegistryRevisionConflict (''Expected revision '' @ dec expected @ '', database revision is ''
          @ dec (database_revision db))), db)
      else (case write_state_expecting doc expected db of
         Inl e \<Rightarrow> (Inl e, db)
       | Inr db1 \<Rightarrow> (validate_document doc, write_audit doc actor1 reason1 changes db1)))"

definition update ::
  "registry_document \<Rightarrow> int \<Rightarrow> string \<Rightarrow> string \<Rightarrow> lifecycle_mutation list \<Rightarrow> lifecycle_mutation list \<Rightarrow> string
     \<Rightarrow> store_db \<Rightarrow> registry_document result \<times> store_db" where
  "update registry expected actor reason dms tms now db =
     (case with_mutations registry dms tms now of
        Inl e \<Rightarrow> (Inl e, db)
      | Inr (doc, changes) \<Rightarrow> commit_candidate registry doc changes expected actor reason db)"

definition update_cadence ::
  "registry_document \<Rightarrow> int \<Rightarrow> string \<Rightarrow> string \<Rightarrow> cadence_mutation \<Rightarrow> string
     \<Rightarrow> store_db \<Rightarrow> registry_document result \<times> store_db" where
  "update_cadence registry expected actor reason m now db =
     (case with_cadence_mutation registry m now of
        Inl e \<Rightarrow> (Inl e, db)
      | Inr (doc, changes, affected) \<Rightarrow> commit_candidate registry doc changes expected actor reason db)"

definition commit_enrollment ::
  "registry_document \<Rightarrow> int \<Rightarrow> string \<Rightarrow> string \<Rightarrow> (registry_document \<times> change list) result
     \<Rightarrow> store_db \<Rightarrow> registry_document result \<times> store_db" where
  "commit_enrollment registry expected actor reason r db =
     (case r of
        Inl e \<Rightarrow> (Inl e, db)
      | Inr (doc, changes) \<Rightarrow>
          if changes = [] then (Inr registry, db)
          else commit_candidate registry doc changes expected actor reason db)"

text \<open>\<open>a or b\<close> of optional callables.\<close>

definition or_else :: "'a option \<Rightarrow> 'a option \<Rightarrow> 'a option" where
  "or_else a b = (case a of None \<Rightarrow> b | Some x \<Rightarrow> Some x)"

definition enroll_xjp60d ::
  "registry_document \<Rightarrow> int \<Rightarrow> int list \<Rightarrow> string \<Rightarrow> string \<Rightarrow> string \<Rightarrow> (int \<Rightarrow> string result) option \<Rightarrow> string
     \<Rightarrow> store_db \<Rightarrow> registry_document result \<times> store_db" where
  "enroll_xjp60d registry expected unit_ids actor reason profile busf now =
     commit_enrollment registry expected actor reason (with_xjp60d_enrollment registry unit_ids profile busf now)"

definition enroll_le01mp ::
  "store_config \<Rightarrow> registry_document \<Rightarrow> int \<Rightarrow> int list \<Rightarrow> string \<Rightarrow> string \<Rightarrow> (int \<Rightarrow> string result) option \<Rightarrow> string
     \<Rightarrow> store_db \<Rightarrow> registry_document result \<times> store_db" where
  "enroll_le01mp cfg registry expected unit_ids actor reason busf now =
     commit_enrollment registry expected actor reason
       (with_le01mp_enrollment registry unit_ids ''reserve'' (or_else busf (sc_bus cfg)) now)"

definition enroll_sdm120 ::
  "store_config \<Rightarrow> registry_document \<Rightarrow> int \<Rightarrow> int list \<Rightarrow> string \<Rightarrow> string \<Rightarrow> (int \<Rightarrow> string result) option \<Rightarrow> string
     \<Rightarrow> store_db \<Rightarrow> registry_document result \<times> store_db" where
  "enroll_sdm120 cfg registry expected unit_ids actor reason busf now =
     commit_enrollment registry expected actor reason
       (with_sdm120_enrollment registry unit_ids ''reserve'' (or_else busf (or_else (sc_sdm_bus cfg) (sc_bus cfg))) now)"

definition enroll_embraco ::
  "store_config \<Rightarrow> registry_document \<Rightarrow> int \<Rightarrow> int list \<Rightarrow> string \<Rightarrow> string \<Rightarrow> (int \<Rightarrow> string result) option \<Rightarrow> string
     \<Rightarrow> store_db \<Rightarrow> registry_document result \<times> store_db" where
  "enroll_embraco cfg registry expected unit_ids actor reason busf now =
     commit_enrollment registry expected actor reason
       (with_embraco_enrollment registry unit_ids ''reserve'' (or_else busf (sc_bus cfg)) now)"

definition recent_audit :: "int \<Rightarrow> store_db \<Rightarrow> audit_row list" where
  "recent_audit limit db = take (nat (min 100 (max 1 limit))) (rev (sd_audit db))"

section \<open>Loading\<close>

definition migrate_v1_document ::
  "v1_document \<Rightarrow> settings \<Rightarrow> (string \<Rightarrow> string option) \<Rightarrow> string \<Rightarrow> (registry_document \<times> change list) result" where
  "migrate_v1_document v cfg env now =
     ebind (build_bootstrap_policy (st_sample_interval_seconds cfg) (map dv_key (v1_devices v)) env) (\<lambda>cadence.
     ebind (validate_document \<lparr>rg_schema_version = schema_version, rg_revision = v1_revision v + 1,
         rg_buses = v1_buses v, rg_devices = v1_devices v, rg_targets = v1_targets v, rg_cadence = cadence,
         rg_updated_at = now\<rparr>) (\<lambda>doc.
       Inr (doc, \<lparr>ch_entity = ''registry_schema'', ch_id = ''root'', ch_from = ''v1'', ch_to = ''v2''\<rparr>
         # map (\<lambda>d. \<lparr>ch_entity = ''cadence_family_default'', ch_id = fd_bus_id d @ ''/'' @ fd_family d,
             ch_from = ''legacy_priority_policy'', ch_to = float_str (fd_interval d)\<rparr>) (cp_defaults cadence))))"

text \<open>Reading a version 2 document back: the cadence goes through its own parser.\<close>

definition document_from_stored :: "registry_document \<Rightarrow> registry_document result" where
  "document_from_stored doc =
     ebind (cadence_from_payload (JObj
         [(''family_defaults'', JList (map default_json (cp_defaults (rg_cadence doc)))),
          (''device_overrides'', JList (map override_json (cp_overrides (rg_cadence doc))))])) (\<lambda>cadence.
       validate_document (doc\<lparr>rg_cadence := cadence\<rparr>))"

definition opt_in_lifecycle :: "int list \<Rightarrow> registry_device \<Rightarrow> string" where
  "opt_in_lifecycle configured d = (if rd_unit_id d \<in> set configured then ''active'' else ''reserve'')"

definition reconcile_opt_in ::
  "string \<Rightarrow> registry_document \<Rightarrow> int list \<Rightarrow> string \<Rightarrow> (registry_document \<times> change list) result" where
  "reconcile_opt_in fam doc configured now =
     (let mine = filter (\<lambda>d. dv_family d = fam) (rg_devices doc);
          dms = map (\<lambda>d. \<lparr>lm_id = dv_device_id d, lm_lifecycle = opt_in_lifecycle configured d\<rparr>)
            (filter (\<lambda>d. rd_lifecycle d \<noteq> opt_in_lifecycle configured d) mine);
          desired = index_by dv_device_id (filter (\<lambda>d. dv_device_id d \<in> dv_device_id ` set mine) (rg_devices doc));
          tms = concat (map (\<lambda>t. case dget desired (rt_device_id t) of
              None \<Rightarrow> []
            | Some d \<Rightarrow> if rt_lifecycle t \<noteq> opt_in_lifecycle configured d
                then [\<lparr>lm_id = rt_target_id t, lm_lifecycle = opt_in_lifecycle configured d\<rparr>] else []) (rg_targets doc))
      in if dms = [] \<and> tms = [] then Inr (doc, []) else with_mutations doc dms tms now)"

definition reconcile_sdm120_opt_in :: "registry_document \<Rightarrow> int list \<Rightarrow> string \<Rightarrow> (registry_document \<times> change list) result" where
  "reconcile_sdm120_opt_in = reconcile_opt_in ''sdm120''"

definition reconcile_waveshare_8ai_opt_in :: "registry_document \<Rightarrow> int list \<Rightarrow> string \<Rightarrow> (registry_document \<times> change list) result" where
  "reconcile_waveshare_8ai_opt_in = reconcile_opt_in ''waveshare_8ai''"

definition bus_list :: "registry_document \<Rightarrow> string" where
  "bus_list doc = join '','' (map rb_bus_id (rg_buses doc))"

fun bus_changes :: "registry_document \<Rightarrow> registry_device list \<Rightarrow> change list result" where
  "bus_changes old [] = Inr []"
| "bus_changes old (d # ds) = ebind (the_device old (dv_device_id d)) (\<lambda>previous.
     ebind (bus_changes old ds) (\<lambda>cs. Inr ((if dv_bus_id previous \<noteq> dv_bus_id d
       then [\<lparr>ch_entity = ''device_bus'', ch_id = dv_device_id d, ch_from = dv_bus_id previous, ch_to = dv_bus_id d\<rparr>]
       else []) @ cs)))"

definition apply_registry_binding ::
  "store_config \<Rightarrow> registry_document \<Rightarrow> bool \<Rightarrow> string \<Rightarrow> (registry_document \<times> change list) result" where
  "apply_registry_binding cfg doc is_initial now = (case sc_binding cfg of
      None \<Rightarrow> Inr (doc, [])
    | Some binding \<Rightarrow> ebind (binding doc) (\<lambda>bound.
        if bound = doc then Inr (doc, [])
        else ebind (bus_changes doc (rg_devices bound)) (\<lambda>device_changes.
          let changes = \<lparr>ch_entity = ''registry_buses'', ch_id = ''root'', ch_from = bus_list doc, ch_to = bus_list bound\<rparr>
              # device_changes
              @ (if rg_cadence doc \<noteq> rg_cadence bound
                 then [\<lparr>ch_entity = ''cadence'', ch_id = ''bus_bindings'', ch_from = ''previous_bus_identity'',
                   ch_to = ''configured_bus_identity''\<rparr>] else [])
          in ebind (validate_document (if is_initial then bound
               else bound\<lparr>rg_revision := rg_revision doc + 1, rg_updated_at := now\<rparr>)) (\<lambda>d. Inr (d, changes)))))"

text \<open>A step of the load: the new document, written with its audit row when something changed.\<close>

definition load_step ::
  "string \<Rightarrow> string \<Rightarrow> (registry_document \<Rightarrow> (registry_document \<times> change list) result)
     \<Rightarrow> registry_document \<times> store_db \<Rightarrow> (registry_document \<times> store_db) result" where
  "load_step actor reason f = (\<lambda>(doc, db). ebind (f doc) (\<lambda>(doc1, changes). Inr (doc1, persist actor reason doc1 changes db)))"

definition when_units ::
  "int list \<Rightarrow> (registry_document \<Rightarrow> (registry_document \<times> change list) result)
     \<Rightarrow> registry_document \<Rightarrow> (registry_document \<times> change list) result" where
  "when_units units f doc = (if units = [] then Inr (doc, []) else f doc)"

definition load_stored :: "stored \<Rightarrow> settings \<Rightarrow> (string \<Rightarrow> string option) \<Rightarrow> string \<Rightarrow> store_db
     \<Rightarrow> (registry_document \<times> store_db) result" where
  "load_stored row cfg env now db = (case row of
      StoredNoObject \<Rightarrow> Inl (ValueError ''Acquisition registry payload must be an object'')
    | StoredSchema n \<Rightarrow> Inl (ValueError (''Unsupported acquisition registry schema_version='' @ dec n))
    | StoredV1 v \<Rightarrow> ebind (migrate_v1_document v cfg env now) (\<lambda>(doc, changes). Inr (doc,
        write_audit doc ''system:migration'' ''Migrate acquisition registry v1 to persisted device cadence v2''
          changes (write_state doc db)))
    | StoredV2 doc \<Rightarrow> ebind (document_from_stored doc) (\<lambda>d. Inr (d, db)))"

definition load_existing ::
  "store_config \<Rightarrow> settings \<Rightarrow> (string \<Rightarrow> string option) \<Rightarrow> (nat \<Rightarrow> string) \<Rightarrow> stored \<Rightarrow> store_db
     \<Rightarrow> (registry_document \<times> store_db) result" where
  "load_existing sc cfg env clock row db =
     ebind (load_stored row cfg env (clock 0) db) (\<lambda>s0.
     ebind (load_step ''system:migration'' ''Upgrade LE-01MP read-only profile with cumulative active energy''
       (\<lambda>doc. ebind (reconcile_le01mp_profile doc (clock 1)) (\<lambda>(d, cs). ebind (validate_document d) (\<lambda>d. Inr (d, cs)))) s0) (\<lambda>s1.
     ebind (load_step ''system:configuration''
       ''Reconcile Eastron SDM120 polling lifecycle with explicit runtime opt-in''
       (\<lambda>doc. reconcile_sdm120_opt_in doc (st_sdm120_unit_ids cfg) (clock 2)) s1) (\<lambda>s2.
     ebind (load_step ''system:configuration''
       ''Reconcile Waveshare 8AI polling lifecycle with explicit runtime opt-in''
       (\<lambda>doc. reconcile_waveshare_8ai_opt_in doc (st_waveshare_8ai_unit_ids cfg) (clock 3)) s2) (\<lambda>s3.
     ebind (load_step ''system:configuration'' ''Bind acquisition registry to explicit RS-485 topology''
       (\<lambda>doc. apply_registry_binding sc doc False (clock 4)) s3) (\<lambda>s4.
     ebind (load_step ''system:configuration'' ''Enroll explicitly configured read-only Eastron SDM120 units''
       (when_units (st_sdm120_unit_ids cfg) (\<lambda>doc. with_sdm120_enrollment doc (st_sdm120_unit_ids cfg) ''active''
          (or_else (sc_sdm_bus sc) (sc_bus sc)) (clock 5))) s4) (\<lambda>s5.
     ebind (load_step ''system:configuration'' ''Enroll explicitly configured read-only Waveshare 8AI units''
       (when_units (st_waveshare_8ai_unit_ids cfg) (\<lambda>doc. with_waveshare_8ai_enrollment doc
          (st_waveshare_8ai_unit_ids cfg) ''active'' (or_else (sc_ws_bus sc) (sc_bus sc)) (clock 6))) s5) (\<lambda>s6.
       load_step ''system:configuration'' ''Enroll explicitly configured read-only Embraco Sync units''
         (when_units (st_embraco_unit_ids cfg) (\<lambda>doc. with_embraco_enrollment doc (st_embraco_unit_ids cfg) ''active''
            (sc_bus sc) (clock 7))) s6)))))))"

definition load_initial ::
  "store_config \<Rightarrow> settings \<Rightarrow> int list \<Rightarrow> (int \<times> int) list \<Rightarrow> (string \<Rightarrow> string option) \<Rightarrow> (nat \<Rightarrow> string)
     \<Rightarrow> store_db \<Rightarrow> (registry_document \<times> store_db) result" where
  "load_initial sc cfg discovery legacy env clock db =
     (let sdms = (if sc_sdm_bus sc \<noteq> None then st_sdm120_unit_ids cfg else []);
          wss = (if sc_ws_bus sc \<noteq> None then st_waveshare_8ai_unit_ids cfg else []);
          cfg1 = (if sdms \<noteq> [] then cfg\<lparr>st_sdm120_unit_ids := []\<rparr> else cfg);
          cfg2 = (if wss \<noteq> [] then cfg1\<lparr>st_waveshare_8ai_unit_ids := []\<rparr> else cfg1)
      in ebind (build_initial_document cfg2 discovery legacy env (clock 0)) (\<lambda>doc0.
         ebind (apply_registry_binding sc doc0 True (clock 1)) (\<lambda>(doc1, ch1).
         ebind (when_units sdms (\<lambda>doc. with_sdm120_enrollment doc sdms ''active'' (sc_sdm_bus sc) (clock 2)) doc1) (\<lambda>(doc2, ch2).
         ebind (when_units wss (\<lambda>doc. with_waveshare_8ai_enrollment doc wss ''active'' (sc_ws_bus sc) (clock 3)) doc2) (\<lambda>(doc, ch3).
           Inr (doc, write_audit doc ''system:migration'' ''Migrate legacy acquisition topology into registry v2''
             (\<lparr>ch_entity = ''registry'', ch_id = ''root'', ch_from = ''absent'', ch_to = ''v2''\<rparr> # ch1 @ ch2 @ ch3
               @ map (\<lambda>d. \<lparr>ch_entity = ''cadence_family_default'', ch_id = fd_bus_id d @ ''/'' @ fd_family d,
                 ch_from = ''legacy_priority_policy'', ch_to = float_str (fd_interval d)\<rparr>) (cp_defaults (rg_cadence doc)))
             (db\<lparr>sd_state := Some (rg_revision doc, StoredV2 doc)\<rparr>)))))))"

text \<open>\<open>with self._connection\<close> commits on success and rolls back on an exception.\<close>

definition load_or_migrate ::
  "store_config \<Rightarrow> settings \<Rightarrow> int list \<Rightarrow> (int \<times> int) list \<Rightarrow> (string \<Rightarrow> string option) \<Rightarrow> (nat \<Rightarrow> string)
     \<Rightarrow> store_db \<Rightarrow> registry_document result \<times> store_db" where
  "load_or_migrate sc cfg discovery legacy env clock db =
     (case (case sd_state db of
              Some (r, row) \<Rightarrow> load_existing sc cfg env clock row db
            | None \<Rightarrow> load_initial sc cfg discovery legacy env clock db) of
        Inl e \<Rightarrow> (Inl e, db)
      | Inr (doc, db1) \<Rightarrow> (Inr doc, db1))"

section \<open>The HTTP payload of a mutation\<close>

fun as_string :: "json \<Rightarrow> string option" where
  "as_string (JStr s) = Some s"
| "as_string v = None"

definition mutation_entry :: "string \<Rightarrow> string \<Rightarrow> json \<Rightarrow> lifecycle_mutation result" where
  "mutation_entry label key item =
     ebind (as_object item (label @ '' mutations must be objects'')) (\<lambda>obj.
       (case (as_string (jget obj key), as_string (jget obj ''lifecycle'')) of
          (Some i, Some l) \<Rightarrow> Inr \<lparr>lm_id = i, lm_lifecycle = l\<rparr>
        | _ \<Rightarrow> Inl (ValueError (label @ '' mutation requires '' @ key @ '' and lifecycle''))))"

definition parse_registry_mutation ::
  "(string, json) dict \<Rightarrow> (int \<times> string \<times> lifecycle_mutation list \<times> lifecycle_mutation list) result" where
  "parse_registry_mutation payload =
     ebind (positive_int (jget payload ''expected_revision'') ''expected_revision must be a positive integer'') (\<lambda>rev.
     (case as_string (jget payload ''reason'') of
        None \<Rightarrow> Inl (ValueError ''reason must be a string'')
      | Some reason \<Rightarrow>
          (case (as_array (dget_or payload ''devices'' (JList [])), as_array (dget_or payload ''targets'' (JList []))) of
             (Some raw_devices, Some raw_targets) \<Rightarrow>
               if 500 < length raw_devices + length raw_targets then Inl (ValueError ''Registry mutation is too large'')
               else
                 ebind (emap (mutation_entry ''Device'' ''device_id'') raw_devices) (\<lambda>ds.
                 ebind (emap (mutation_entry ''Target'' ''target_id'') raw_targets) (\<lambda>ts.
                   if ds = [] \<and> ts = [] then
                     Inl (ValueError ''Registry mutation requires at least one device or target'')
                   else Inr (rev, reason, ds, ts)))
           | _ \<Rightarrow> Inl (ValueError ''devices and targets must be arrays''))))"

section \<open>Many holders of the registry\<close>

lemma commit_candidate_cases:
  assumes "commit_candidate registry doc changes expected actor reason db = (r, db')"
  obtains (refused) e where "r = Inl e" "db' = db"
  | (committed) row where "r = validate_document doc" "expected = rg_revision registry"
      "sd_state db = Some (rg_revision registry, row)" "sd_state db' = Some (rg_revision doc, StoredV2 doc)"
      "\<exists>a. au_revision a = rg_revision doc \<and> au_changes a = changes \<and> sd_audit db' = sd_audit db @ [a]"
  using assms
  by (auto simp: commit_candidate_def Let_def write_state_expecting_def write_state_def write_audit_def
      database_revision_def split: if_splits option.splits)

text \<open>The database together with every registry that some part of the process still holds.\<close>

record holders =
  hd_db :: store_db
  hd_known :: "registry_document list"

definition learn :: "registry_document result \<times> store_db \<Rightarrow> holders \<Rightarrow> holders" where
  "learn rd h = \<lparr>hd_db = snd rd, hd_known = (case fst rd of Inl _ \<Rightarrow> hd_known h | Inr d \<Rightarrow> d # hd_known h)\<rparr>"

inductive store_step :: "holders \<Rightarrow> holders \<Rightarrow> bool" where
  lifecycle: "registry \<in> set (hd_known h) \<Longrightarrow>
    store_step h (learn (update registry expected actor reason dms tms now (hd_db h)) h)"
| cadence: "registry \<in> set (hd_known h) \<Longrightarrow>
    store_step h (learn (update_cadence registry expected actor reason m now (hd_db h)) h)"
| enrollment: "registry \<in> set (hd_known h) \<Longrightarrow> spec \<in> {xjp_spec, le_spec, sdm_spec, ws_spec, emb_spec} \<Longrightarrow>
    store_step h (learn (commit_enrollment registry expected actor reason
      (enroll spec registry units lc busf now) (hd_db h)) h)"

inductive store_reaches :: "holders \<Rightarrow> holders \<Rightarrow> bool" for h where
  start: "store_reaches h h"
| step: "store_reaches h h1 \<Longrightarrow> store_step h1 h2 \<Longrightarrow> store_reaches h h2"

text \<open>The stored document is the newest of all that are held, and the audit is in order.\<close>

definition audit_ordered :: "store_db \<Rightarrow> int \<Rightarrow> bool" where
  "audit_ordered db rev_limit \<longleftrightarrow> sorted_wrt (<) (map au_revision (sd_audit db))
     \<and> (\<forall>a \<in> set (sd_audit db). au_revision a \<le> rev_limit)"

definition current :: "holders \<Rightarrow> registry_document \<Rightarrow> bool" where
  "current h cur \<longleftrightarrow> sd_state (hd_db h) = Some (rg_revision cur, StoredV2 cur) \<and> cur \<in> set (hd_known h)
     \<and> (\<forall>d \<in> set (hd_known h). registry_ok d \<and> (d = cur \<or> rg_revision d < rg_revision cur))
     \<and> audit_ordered (hd_db h) (rg_revision cur)"

definition candidate :: "registry_document \<Rightarrow> registry_document \<Rightarrow> bool" where
  "candidate registry doc \<longleftrightarrow> registry_ok doc \<and> rg_revision doc = rg_revision registry + 1"

lemma with_mutations_candidate:
  assumes "registry_ok registry" and "with_mutations registry dms tms now = Inr (doc, changes)"
  shows "candidate registry doc"
proof -
  have d: "distinct (map lm_id dms) \<and> distinct (map lm_id tms)
    \<and> (\<forall>m \<in> set dms \<union> set tms. lifecycle_ok (lm_lifecycle m))" using with_mutations_Inr [OF assms(2)] .
  then have "doc = mutated registry dms tms now"
    using assms(2) by (subst (asm) with_mutations_eq)
      (auto simp: Let_def ebind_eq_Inr validates_iff split: if_splits)
  moreover have "registry_ok (mutated registry dms tms now)" using d by (intro mutated_ok [OF assms(1)]) blast
  ultimately show ?thesis by (simp add: candidate_def mutated_def)
qed

lemma with_cadence_candidate:
  "with_cadence_mutation registry m now = Inr (doc, changes, affected) \<Longrightarrow> candidate registry doc"
  by (auto simp: with_cadence_mutation_def ebind_eq_Inr candidate_def validates_iff)

lemma enroll_candidate:
  assumes "spec \<in> {xjp_spec, le_spec, sdm_spec, ws_spec, emb_spec}"
    and "enroll spec registry units lc busf now = Inr (doc, changes)" and "changes \<noteq> []"
  shows "candidate registry doc"
proof -
  have e: "enrollable spec" using assms(1) xjp.enrollable_axioms le.enrollable_axioms sdm.enrollable_axioms
      ws.enrollable_axioms emb.enrollable_axioms by blast
  from assms(2) show ?thesis
  proof (cases rule: enrollable.enroll_cases [OF e, consumes 1, case_names same added])
    case same
    with assms(3) show ?thesis by simp
  next
    case (added additions lc1)
    then show ?thesis by (simp add: candidate_def)
  qed
qed

lemma commit_current:
  assumes "current h cur" and "registry \<in> set (hd_known h)" and "candidate registry doc"
    and "commit_candidate registry doc changes expected actor reason (hd_db h) = (r, db')"
  shows "(\<exists>e. r = Inl e \<and> db' = hd_db h)
    \<or> (registry = cur \<and> expected = rg_revision cur \<and> r = Inr doc \<and> current (learn (r, db') h) doc)"
  using assms(4)
proof (cases rule: commit_candidate_cases)
  case (committed row)
  have reg: "registry = cur" using assms(1,2) committed(3) by (auto simp: current_def)
  have r: "r = Inr doc" using committed(1) assms(3) by (simp add: candidate_def validates_iff)
  have "audit_ordered db' (rg_revision doc)"
    using committed(5) assms(1,3) reg
    by (fastforce simp: audit_ordered_def current_def candidate_def sorted_wrt_append)
  with committed reg r assms show ?thesis
    by (fastforce simp: current_def learn_def candidate_def)
qed blast

lemma learn_refused [simp]: "learn (Inl e, hd_db h) h = h"
  by (simp add: learn_def)

lemma commit_step:
  assumes "current h cur" and "registry \<in> set (hd_known h)" and "candidate registry doc"
  shows "\<exists>cur'. current (learn (commit_candidate registry doc changes expected actor reason (hd_db h)) h) cur'"
proof -
  obtain r db' where c: "commit_candidate registry doc changes expected actor reason (hd_db h) = (r, db')" by fastforce
  from commit_current [OF assms c] assms(1) show ?thesis by (auto simp: c)
qed

lemma store_step_current:
  assumes "store_step h h'" and "current h cur"
  shows "\<exists>cur'. current h' cur'"
  using assms(1)
proof (cases rule: store_step.cases)
  case (lifecycle registry expected actor reason dms tms now)
  have "registry_ok registry" using assms(2) lifecycle(2) by (simp add: current_def)
  then show ?thesis
    using lifecycle assms(2) with_mutations_candidate commit_step [OF assms(2) lifecycle(2)]
    by (cases "with_mutations registry dms tms now") (auto simp: update_def)
next
  case (cadence registry expected actor reason m now)
  then show ?thesis
    using assms(2) with_cadence_candidate commit_step [OF assms(2) cadence(2)]
    by (cases "with_cadence_mutation registry m now") (auto simp: update_cadence_def)
next
  case (enrollment registry spec expected actor reason units lc busf now)
  show ?thesis
  proof (cases "enroll spec registry units lc busf now")
    case (Inl e)
    with enrollment assms(2) show ?thesis by (auto simp: commit_enrollment_def)
  next
    case (Inr dc)
    obtain doc changes where dc: "dc = (doc, changes)" by (cases dc)
    show ?thesis
    proof (cases "changes = []")
      case True
      with enrollment Inr dc assms(2) show ?thesis
        by (auto simp: commit_enrollment_def learn_def current_def)
    next
      case False
      from enroll_candidate [OF enrollment(3)] Inr dc False have "candidate registry doc" by blast
      with enrollment Inr dc False commit_step [OF assms(2) enrollment(2)] show ?thesis
        by (simp add: commit_enrollment_def)
    qed
  qed
qed

lemma store_reaches_current: "store_reaches h h' \<Longrightarrow> current h cur \<Longrightarrow> \<exists>cur'. current h' cur'"
  by (induction rule: store_reaches.induct) (auto dest: store_step_current)

section \<open>The steps of a load\<close>

definition stored_as :: "store_db \<Rightarrow> registry_document \<times> store_db \<Rightarrow> bool" where
  "stored_as db0 = (\<lambda>(doc, db). registry_ok doc \<and> sd_state db = Some (rg_revision doc, StoredV2 doc)
     \<and> (\<exists>rows. sd_audit db = sd_audit db0 @ rows))"

definition sound_change :: "(registry_document \<Rightarrow> (registry_document \<times> change list) result) \<Rightarrow> bool" where
  "sound_change f \<longleftrightarrow> (\<forall>doc doc' cs. registry_ok doc \<longrightarrow> f doc = Inr (doc', cs) \<longrightarrow>
     registry_ok doc' \<and> (cs = [] \<longrightarrow> doc' = doc))"

lemma sound_changeD: "sound_change f \<Longrightarrow> registry_ok doc \<Longrightarrow> f doc = Inr (doc', cs) \<Longrightarrow> registry_ok doc'"
  unfolding sound_change_def by blast

lemma load_step_stored:
  assumes "load_step actor reason f s = Inr s'" and "stored_as db0 s" and "sound_change f"
  shows "stored_as db0 s'"
proof -
  obtain doc db where s: "s = (doc, db)" by (cases s)
  from assms(1) s obtain doc1 cs where f: "f doc = Inr (doc1, cs)" "s' = (doc1, persist actor reason doc1 cs db)"
    by (auto simp: load_step_def ebind_eq_Inr)
  with assms(2,3) s show ?thesis
    by (auto simp: stored_as_def sound_change_def persist_def write_audit_def write_state_def)
qed

lemma reconcile_le_Nil: "reconcile_le01mp_profile doc now = Inr (doc', []) \<Longrightarrow> doc' = doc"
  unfolding reconcile_le01mp_profile_def Let_def by (simp add: ebind_eq_Inr split: if_split_asm)

lemma sound_reconcile_le: "sound_change (\<lambda>doc. ebind (reconcile_le01mp_profile doc now) (\<lambda>(d, cs).
    ebind (validate_document d) (\<lambda>d. Inr (d, cs))))"
  unfolding sound_change_def by (auto simp: ebind_eq_Inr validates_iff dest: reconcile_le_Nil)

lemma sound_mutations: "registry_ok doc \<Longrightarrow> with_mutations doc dms tms now = Inr (doc', cs) \<Longrightarrow> registry_ok doc' \<and> cs \<noteq> []"
  using with_mutations_outcome [of doc dms tms now] by auto

lemma sound_opt_in: "sound_change (\<lambda>doc. reconcile_opt_in fam doc units now)"
  by (auto simp: sound_change_def reconcile_opt_in_def Let_def dest: sound_mutations split: if_splits)

lemma sound_sdm120: "sound_change (\<lambda>doc. reconcile_sdm120_opt_in doc units now)"
  and sound_waveshare: "sound_change (\<lambda>doc. reconcile_waveshare_8ai_opt_in doc units now)"
  using sound_opt_in by (simp_all add: reconcile_sdm120_opt_in_def reconcile_waveshare_8ai_opt_in_def)

lemma sound_binding: "sound_change (\<lambda>doc. apply_registry_binding sc doc b now)"
  by (auto simp: sound_change_def apply_registry_binding_def Let_def ebind_eq_Inr validates_iff
      split: option.splits if_splits)

lemma sound_enroll:
  assumes "enrollable spec"
  shows "sound_change (when_units units (\<lambda>doc. enroll spec doc us lc busf now))"
  unfolding sound_change_def when_units_def
  by (auto split: if_splits dest: enrollable.enroll_ok [OF assms] elim: enrollable.enroll_cases [OF assms])

lemma build_initial_ok: "build_initial_document cfg discovery legacy env now = Inr doc \<Longrightarrow> registry_ok doc"
  unfolding build_initial_document_def Let_def
  by (simp add: ebind_eq_Inr validates_iff split: if_split_asm)

lemma load_initial_stored:
  assumes "load_initial sc cfg discovery legacy env clock db = Inr (doc, db')"
  shows "stored_as db (doc, db')"
proof -
  define sdms wss where "sdms = (if sc_sdm_bus sc \<noteq> None then st_sdm120_unit_ids cfg else [])"
    and "wss = (if sc_ws_bus sc \<noteq> None then st_waveshare_8ai_unit_ids cfg else [])"
  define cfg2 where "cfg2 = (if wss \<noteq> [] then (if sdms \<noteq> [] then cfg\<lparr>st_sdm120_unit_ids := []\<rparr> else cfg)
      \<lparr>st_waveshare_8ai_unit_ids := []\<rparr> else (if sdms \<noteq> [] then cfg\<lparr>st_sdm120_unit_ids := []\<rparr> else cfg))"
  note run = assms [unfolded load_initial_def Let_def, folded sdms_def wss_def, folded cfg2_def]
  from run obtain doc0 where d0: "build_initial_document cfg2 discovery legacy env (clock 0) = Inr doc0"
    by (auto simp: ebind_eq_Inr)
  with run obtain doc1 ch1 where d1: "apply_registry_binding sc doc0 True (clock 1) = Inr (doc1, ch1)"
    by (auto simp: ebind_eq_Inr)
  with run d0 obtain doc2 ch2 where d2:
    "when_units sdms (\<lambda>doc. enroll sdm_spec doc sdms ''active'' (sc_sdm_bus sc) (clock 2)) doc1 = Inr (doc2, ch2)"
    by (auto simp: ebind_eq_Inr with_sdm120_enrollment_def)
  note run2 = run [unfolded d0 ebind_Inr d1 prod.case with_sdm120_enrollment_def with_waveshare_8ai_enrollment_def d2]
  obtain x where x: "when_units wss (\<lambda>doc. enroll ws_spec doc wss ''active'' (sc_ws_bus sc) (clock 3)) doc2 = x" by blast
  obtain ch3 rows where d3:
    "when_units wss (\<lambda>doc. enroll ws_spec doc wss ''active'' (sc_ws_bus sc) (clock 3)) doc2 = Inr (doc, ch3)"
    "db' = write_audit doc ''system:migration'' ''Migrate legacy acquisition topology into registry v2'' rows
            (db\<lparr>sd_state := Some (rg_revision doc, StoredV2 doc)\<rparr>)"
  proof (cases x)
    case (Inl e)
    with run2 x show ?thesis by (simp only: ebind_Inl sum.distinct)
  next
    case (Inr y)
    obtain d c where y: "y = (d, c)" by (cases y)
    note eq = run2 [unfolded x Inr y ebind_Inr prod.case sum.inject prod.inject]
    from eq have d: "d = doc" by blast
    from x [unfolded Inr y d] eq [THEN conjunct2, symmetric, unfolded d] show ?thesis by (rule that)
  qed
  from sound_changeD [OF sound_binding build_initial_ok [OF d0] d1] have "registry_ok doc1" .
  from sound_changeD [OF sound_enroll [OF sdm.enrollable_axioms] this d2] have "registry_ok doc2" .
  from sound_changeD [OF sound_enroll [OF ws.enrollable_axioms] this d3(1)] have "registry_ok doc" .
  with d3(2) show ?thesis by (auto simp: stored_as_def write_audit_def)
qed

section \<open>Properties\<close>

text \<open>C31: No update is lost. Whatever mutations and enrollments the holders of registries commit, in whatever
  order and from however old copies, an accepted lifecycle update was computed from the document that
  is stored, takes the next revision and becomes the stored document, and the audit lists the revisions
  in order; a refused one leaves the database as it was.\<close>

theorem no_lost_update:
  assumes "current h0 cur0" and "store_reaches h0 h" and "registry \<in> set (hd_known h)"
    and "update registry expected actor reason dms tms now (hd_db h) = (r, db')"
  shows "case r of
      Inl e \<Rightarrow> db' = hd_db h
    | Inr doc \<Rightarrow> sd_state (hd_db h) = Some (rg_revision registry, StoredV2 registry) \<and> expected = rg_revision registry
        \<and> rg_revision doc = rg_revision registry + 1 \<and> sd_state db' = Some (rg_revision doc, StoredV2 doc)
        \<and> sorted_wrt (<) (map au_revision (sd_audit db'))"
proof -
  from store_reaches_current [OF assms(2,1)] obtain cur where cur: "current h cur" by blast
  have ok: "registry_ok registry" using cur assms(3) by (simp add: current_def)
  show ?thesis
  proof (cases "with_mutations registry dms tms now")
    case (Inl e)
    with assms(4) show ?thesis by (auto simp: update_def)
  next
    case (Inr dc)
    obtain doc changes where dc: "dc = (doc, changes)" by (cases dc)
    have cand: "candidate registry doc" using with_mutations_candidate [OF ok] Inr dc by blast
    have "commit_candidate registry doc changes expected actor reason (hd_db h) = (r, db')"
      using assms(4) Inr dc by (simp add: update_def)
    from commit_current [OF cur assms(3) cand this] cand cur show ?thesis
      by (auto simp: current_def learn_def candidate_def audit_ordered_def)
  qed
qed

definition sample_db :: store_db where
  "sample_db = \<lparr>sd_state = Some (1, StoredV2 (sample_registry ''active'')), sd_audit = []\<rparr>"

theorem no_lost_update_witness:
  "\<exists>doc db'. update (sample_registry ''active'') 1 ''operator'' ''maintenance''
       [\<lparr>lm_id = ''xjp60d-2'', lm_lifecycle = ''reserve''\<rparr>] [] ''t'' sample_db = (Inr doc, db')
     \<and> sd_state db' = Some (2, StoredV2 doc)"
proof -
  let ?h = "\<lparr>hd_db = sample_db, hd_known = [sample_registry ''active'']\<rparr>"
  let ?run = "update (sample_registry ''active'') 1 ''operator'' ''maintenance''
       [\<lparr>lm_id = ''xjp60d-2'', lm_lifecycle = ''reserve''\<rparr>] [] ''t'' sample_db"
  have rev: "rg_revision (sample_registry ''active'') = 1" by (simp add: sample_registry_def)
  have cur: "current ?h (sample_registry ''active'')"
    using sample_registry_ok by (simp add: current_def audit_ordered_def sample_db_def rev)
  have "isOk (fst ?run)" by code_simp
  then obtain doc db' where run: "?run = (Inr doc, db')" by (cases ?run) (auto simp: isOk_iff)
  from no_lost_update [OF cur store_reaches.start, of "sample_registry ''active''" 1 "''operator''" "''maintenance''"
      "[\<lparr>lm_id = ''xjp60d-2'', lm_lifecycle = ''reserve''\<rparr>]" "[]" "''t''" "Inr doc" db'] run
  show ?thesis by (simp add: rev)
qed

lemma load_stored_as:
  assumes "load_stored row cfg env t db = Inr s0" and "sd_state db = Some (n, row)"
    and "\<forall>n d. sd_state db = Some (n, StoredV2 d) \<longrightarrow> n = rg_revision d \<and> storable (rg_cadence d)"
  shows "stored_as db s0"
proof (cases row)
  case (StoredV1 v)
  with assms(1,2) show ?thesis
    by (auto simp: load_stored_def stored_as_def write_audit_def write_state_def migrate_v1_document_def
        ebind_eq_Inr validates_iff)
next
  case (StoredV2 d)
  with assms(2,3) have d: "n = rg_revision d" "storable (rg_cadence d)" by simp_all
  have "document_from_stored d = validate_document d"
    using cadence_read [OF d(2), of "[(''family_defaults'', JList (map default_json (cp_defaults (rg_cadence d)))),
        (''device_overrides'', JList (map override_json (cp_overrides (rg_cadence d))))]"]
    by (simp add: document_from_stored_def dget_or_def)
  with assms(1,2) StoredV2 d show ?thesis
    by (auto simp: load_stored_def stored_as_def ebind_eq_Inr validates_iff)
qed (use assms(1) in \<open>simp_all add: load_stored_def\<close>)

lemma load_existing_stored:
  assumes "load_existing sc cfg env clock row db = Inr (doc, db')" and "sd_state db = Some (n, row)"
    and "\<forall>n d. sd_state db = Some (n, StoredV2 d) \<longrightarrow> n = rg_revision d \<and> storable (rg_cadence d)"
  shows "stored_as db (doc, db')"
proof -
  note enr = with_sdm120_enrollment_def with_waveshare_8ai_enrollment_def with_embraco_enrollment_def
  from assms(1) [unfolded load_existing_def ebind_eq_Inr enr] obtain s0 s1 s2 s3 s4 s5 s6 where steps:
    "load_stored row cfg env (clock 0) db = Inr s0"
    "load_step ''system:migration'' ''Upgrade LE-01MP read-only profile with cumulative active energy''
       (\<lambda>doc. ebind (reconcile_le01mp_profile doc (clock 1)) (\<lambda>(d, cs). ebind (validate_document d) (\<lambda>d. Inr (d, cs)))) s0 = Inr s1"
    "load_step ''system:configuration'' ''Reconcile Eastron SDM120 polling lifecycle with explicit runtime opt-in''
       (\<lambda>doc. reconcile_sdm120_opt_in doc (st_sdm120_unit_ids cfg) (clock 2)) s1 = Inr s2"
    "load_step ''system:configuration'' ''Reconcile Waveshare 8AI polling lifecycle with explicit runtime opt-in''
       (\<lambda>doc. reconcile_waveshare_8ai_opt_in doc (st_waveshare_8ai_unit_ids cfg) (clock 3)) s2 = Inr s3"
    "load_step ''system:configuration'' ''Bind acquisition registry to explicit RS-485 topology''
       (\<lambda>doc. apply_registry_binding sc doc False (clock 4)) s3 = Inr s4"
    "load_step ''system:configuration'' ''Enroll explicitly configured read-only Eastron SDM120 units''
       (when_units (st_sdm120_unit_ids cfg) (\<lambda>doc. enroll sdm_spec doc (st_sdm120_unit_ids cfg) ''active''
          (or_else (sc_sdm_bus sc) (sc_bus sc)) (clock 5))) s4 = Inr s5"
    "load_step ''system:configuration'' ''Enroll explicitly configured read-only Waveshare 8AI units''
       (when_units (st_waveshare_8ai_unit_ids cfg) (\<lambda>doc. enroll ws_spec doc (st_waveshare_8ai_unit_ids cfg) ''active''
          (or_else (sc_ws_bus sc) (sc_bus sc)) (clock 6))) s5 = Inr s6"
    "load_step ''system:configuration'' ''Enroll explicitly configured read-only Embraco Sync units''
       (when_units (st_embraco_unit_ids cfg) (\<lambda>doc. enroll emb_spec doc (st_embraco_unit_ids cfg) ''active''
          (sc_bus sc) (clock 7))) s6 = Inr (doc, db')"
    by blast
  from load_stored_as [OF steps(1) assms(2,3)] have "stored_as db s0" .
  from load_step_stored [OF steps(2) this sound_reconcile_le] have "stored_as db s1" .
  from load_step_stored [OF steps(3) this sound_sdm120] have "stored_as db s2" .
  from load_step_stored [OF steps(4) this sound_waveshare] have "stored_as db s3" .
  from load_step_stored [OF steps(5) this sound_binding] have "stored_as db s4" .
  from load_step_stored [OF steps(6) this sound_enroll [OF sdm.enrollable_axioms]] have "stored_as db s5" .
  from load_step_stored [OF steps(7) this sound_enroll [OF ws.enrollable_axioms]] have "stored_as db s6" .
  from load_step_stored [OF steps(8) this sound_enroll [OF emb.enrollable_axioms]] show ?thesis .
qed

text \<open>C32: What a start of the node leaves behind, when a stored V2 row carries its own revision and a cadence that can be
  stored. A load that returns has stored exactly the well-formed
  registry it returns, under that registry's revision, and only added audit rows; a load that raises
  leaves the database as it found it.\<close>

theorem load_sound:
  assumes "\<forall>n d. sd_state db = Some (n, StoredV2 d) \<longrightarrow> n = rg_revision d \<and> storable (rg_cadence d)"
    and "load_or_migrate sc cfg discovery legacy env clock db = (r, db')"
  shows "case r of
      Inl e \<Rightarrow> db' = db
    | Inr doc \<Rightarrow> registry_ok doc \<and> sd_state db' = Some (rg_revision doc, StoredV2 doc)
        \<and> (\<exists>rows. sd_audit db' = sd_audit db @ rows)"
proof (cases r)
  case (Inl e)
  with assms(2) show ?thesis by (auto simp: load_or_migrate_def split: sum.splits)
next
  case (Inr doc)
  have "stored_as db (doc, db')"
  proof (cases "sd_state db")
    case None
    with assms(2) Inr have "load_initial sc cfg discovery legacy env clock db = Inr (doc, db')"
      by (auto simp: load_or_migrate_def split: sum.splits)
    then show ?thesis by (rule load_initial_stored)
  next
    case (Some nr)
    obtain n row where nr: "nr = (n, row)" by (cases nr)
    with assms(2) Inr Some have run: "load_existing sc cfg env clock row db = Inr (doc, db')"
      by (auto simp: load_or_migrate_def split: sum.splits)
    from load_existing_stored [OF run _ assms(1)] Some nr show ?thesis by simp
  qed
  with Inr show ?thesis by (simp add: stored_as_def)
qed

text \<open>A second start on the stored registry of a node that only polls XJP60D controllers.\<close>

lemma sample_registry_storable: "storable (rg_cadence (sample_registry ''active''))"
  by code_simp

theorem load_sound_witness:
  "\<exists>doc db'. load_or_migrate \<lparr>sc_binding = None, sc_bus = None, sc_sdm_bus = None, sc_ws_bus = None\<rparr>
       sample_settings [] [] (\<lambda>_. None) (\<lambda>_. ''t'') sample_db = (Inr doc, db')
     \<and> registry_ok doc \<and> sd_state db' = Some (rg_revision doc, StoredV2 doc)"
proof -
  let ?run = "load_or_migrate \<lparr>sc_binding = None, sc_bus = None, sc_sdm_bus = None, sc_ws_bus = None\<rparr>
       sample_settings [] [] (\<lambda>_. None) (\<lambda>_. ''t'') sample_db"
  have ok: "\<forall>n d. sd_state sample_db = Some (n, StoredV2 d) \<longrightarrow> n = rg_revision d \<and> storable (rg_cadence d)"
    using sample_registry_storable by (simp add: sample_db_def sample_registry_def)
  have "isOk (fst ?run)" by code_simp
  then obtain doc db' where run: "?run = (Inr doc, db')" by (cases ?run) (auto simp: isOk_iff)
  from load_sound [OF ok run] run show ?thesis by auto
qed

end
