(* ===== verification/SchedulerPolicy.thy ===== *)
theory SchedulerPolicy
  imports Registry
begin

text \<open>
  \<open>services/device-agent/scheduler_policy.py\<close> and \<open>scheduler_metrics.py\<close>: the priority classes of
  acquisition with their rank, the policy read from the environment, and the bounded counters of one
  bus. The three priorities that \<open>priority_for\<close> can give are a datatype ordered by \<open>PRIORITY_RANK\<close>;
  the texts of the source are \<open>priority_text\<close>.
\<close>

section \<open>Priorities\<close>

datatype priority = High | Medium | Low

definition priority_text :: "priority \<Rightarrow> string" where
  "priority_text p = (case p of High \<Rightarrow> ''high'' | Medium \<Rightarrow> ''medium'' | Low \<Rightarrow> ''low'')"

definition priority_rank :: "priority \<Rightarrow> nat" where
  "priority_rank p = (case p of High \<Rightarrow> 0 | Medium \<Rightarrow> 1 | Low \<Rightarrow> 2)"

instantiation priority :: linorder
begin

definition less_eq_priority :: "priority \<Rightarrow> priority \<Rightarrow> bool" where
  "less_eq_priority p q = (priority_rank p \<le> priority_rank q)"

definition less_priority :: "priority \<Rightarrow> priority \<Rightarrow> bool" where
  "less_priority p q = (priority_rank p < priority_rank q)"

instance
  by standard (auto simp: less_eq_priority_def less_priority_def priority_rank_def split: priority.splits)

end

lemma priority_order [simp]:
  "High \<le> p" "p \<le> Low" "Medium \<le> High \<longleftrightarrow> False" "Low \<le> Medium \<longleftrightarrow> False" "Low \<le> High \<longleftrightarrow> False"
  "High < Low \<longleftrightarrow> True" "High < Medium \<longleftrightarrow> True" "Medium < Low \<longleftrightarrow> True"
  by (simp_all add: less_eq_priority_def less_priority_def priority_rank_def split: priority.splits)

definition medium_le_keys :: "string list" where
  "medium_le_keys = [''voltage'', ''current'', ''frequency'', ''active_power'', ''power_factor'']"

section \<open>The policy\<close>

record scheduler_policy =
  sp_high_interval :: pyfloat
  sp_medium_interval :: pyfloat
  sp_low_interval :: pyfloat
  sp_startup_spread :: pyfloat
  sp_failure_threshold :: int
  sp_cooldown_initial :: pyfloat
  sp_cooldown_max :: pyfloat
  sp_fairness_high_burst :: int
  sp_fairness_low_burst :: int
  sp_deadline_tolerance :: pyfloat
  sp_bus_load_window :: pyfloat

definition env_text :: "(string \<Rightarrow> string option) \<Rightarrow> string \<Rightarrow> string" where
  "env_text env name = strip (case env name of None \<Rightarrow> [] | Some v \<Rightarrow> v)"

definition env_float :: "(string \<Rightarrow> string option) \<Rightarrow> string \<Rightarrow> pyfloat \<Rightarrow> pyfloat result" where
  "env_float env name dflt =
     (let raw = env_text env name;
          out_of_range = Inl (ValueError (name @ '' must be between 1 and 3600 seconds''));
          in_range = (\<lambda>x. if 1 \<le> x \<and> x \<le> 3600 then Inr x else out_of_range)
      in if raw = [] then in_range dflt
         else (case py_float raw of
             NotFloat \<Rightarrow> Inl (ValueError (''could not convert string to float: '' @ py_repr raw))
           | NonFinite \<Rightarrow> out_of_range
           | Finite x \<Rightarrow> in_range x))"

definition env_int :: "(string \<Rightarrow> string option) \<Rightarrow> string \<Rightarrow> int \<Rightarrow> int \<Rightarrow> int result" where
  "env_int env name dflt maximum =
     (let raw = env_text env name;
          in_range = (\<lambda>n. if 1 \<le> n \<and> n \<le> maximum then Inr n
            else Inl (ValueError (name @ '' must be between 1 and '' @ dec maximum)))
      in if raw = [] then in_range dflt
         else (case py_int raw of
             None \<Rightarrow> Inl (ValueError (''invalid literal for int() with base 10: '' @ py_repr raw))
           | Some n \<Rightarrow> in_range n))"

definition policy_from_environment :: "pyfloat \<Rightarrow> (string \<Rightarrow> string option) \<Rightarrow> scheduler_policy result" where
  "policy_from_environment legacy env =
     ebind (env_float env ''ACQUISITION_HIGH_INTERVAL_SECONDS'' (max 5 legacy)) (\<lambda>high.
     ebind (env_float env ''ACQUISITION_MEDIUM_INTERVAL_SECONDS'' (max 10 high)) (\<lambda>medium.
     ebind (env_float env ''ACQUISITION_LOW_INTERVAL_SECONDS'' (max 30 medium)) (\<lambda>low.
       if \<not> (high \<le> medium \<and> medium \<le> low) then
         Inl (ValueError ''Adaptive intervals must satisfy high <= medium <= low'')
       else
     ebind (env_float env ''ACQUISITION_COOLDOWN_INITIAL_SECONDS'' 30) (\<lambda>cooldown_initial.
     ebind (env_float env ''ACQUISITION_COOLDOWN_MAX_SECONDS'' 300) (\<lambda>cooldown_max.
       if cooldown_max < cooldown_initial then
         Inl (ValueError ''Initial cooldown must not exceed maximum cooldown'')
       else
     ebind (env_int env ''ACQUISITION_FAIRNESS_HIGH_BURST'' 8 100) (\<lambda>high_burst.
     ebind (env_int env ''ACQUISITION_FAIRNESS_LOW_BURST'' 12 200) (\<lambda>low_burst.
       if low_burst < high_burst then
         Inl (ValueError (''ACQUISITION_FAIRNESS_LOW_BURST must be greater than or ''
           @ ''equal to ACQUISITION_FAIRNESS_HIGH_BURST''))
       else
     ebind (env_float env ''ACQUISITION_STARTUP_SPREAD_SECONDS'' (min 5 high)) (\<lambda>spread.
     ebind (env_int env ''ACQUISITION_FAILURE_THRESHOLD'' 3 20) (\<lambda>threshold.
       Inr \<lparr>sp_high_interval = high, sp_medium_interval = medium, sp_low_interval = low,
            sp_startup_spread = spread, sp_failure_threshold = threshold,
            sp_cooldown_initial = cooldown_initial, sp_cooldown_max = cooldown_max,
            sp_fairness_high_burst = high_burst, sp_fairness_low_burst = low_burst,
            sp_deadline_tolerance = fl (1 / 20), sp_bus_load_window = 60\<rparr>)))))))))"

definition priority_for :: "registry_target \<Rightarrow> priority" where
  "priority_for t =
     (if rt_metric t = ''temperature.probe'' then High
      else if starts_with ''le01mp-'' (rt_device_id t) \<and> rt_key t \<in> set medium_le_keys then Medium
      else Low)"

definition interval_for :: "scheduler_policy \<Rightarrow> string \<Rightarrow> pyfloat result" where
  "interval_for p priority =
     (case dget [(''high'', sp_high_interval p), (''medium'', sp_medium_interval p), (''low'', sp_low_interval p)] priority of
        Some x \<Rightarrow> Inr x
      | None \<Rightarrow> Inl (ValueError (''Unsupported normal acquisition priority: '' @ priority)))"

record sched_target =
  tg_target_id :: string
  tg_bus_id :: string
  tg_device_id :: string
  tg_family :: string
  tg_unit_id :: int
  tg_key :: string
  tg_channel_id :: string
  tg_metric :: string
  tg_unit :: string
  tg_priority :: priority
  tg_interval :: pyfloat

record sched_result =
  sr_record :: telemetry
  sr_failed :: bool
  sr_error :: "string option"

section \<open>The counters of a bus\<close>

record metrics =
  mt_executions :: int
  mt_successes :: int
  mt_failures :: int
  mt_callback_errors :: int
  mt_missed_deadline :: int
  mt_skipped :: int
  mt_overrun :: int
  mt_deferred :: int
  mt_cooldown_entered :: int
  mt_fairness_forced :: int
  mt_fairness_forced_low :: int
  mt_max_queue_depth :: int
  mt_lag_last :: pyfloat
  mt_lag_max :: pyfloat
  mt_consecutive_high :: int
  mt_consecutive_non_low :: int
  mt_by_priority :: "priority \<Rightarrow> int"
  mt_busy :: "(pyfloat \<times> pyfloat) list"

definition fresh_metrics :: metrics where
  "fresh_metrics = \<lparr>mt_executions = 0, mt_successes = 0, mt_failures = 0, mt_callback_errors = 0,
     mt_missed_deadline = 0, mt_skipped = 0, mt_overrun = 0, mt_deferred = 0, mt_cooldown_entered = 0,
     mt_fairness_forced = 0, mt_fairness_forced_low = 0, mt_max_queue_depth = 0, mt_lag_last = 0,
     mt_lag_max = 0, mt_consecutive_high = 0, mt_consecutive_non_low = 0, mt_by_priority = (\<lambda>_. 0),
     mt_busy = []\<rparr>"

definition observe_queue :: "int \<Rightarrow> metrics \<Rightarrow> metrics" where
  "observe_queue depth m = m\<lparr>mt_max_queue_depth := max (mt_max_queue_depth m) depth\<rparr>"

definition observe_lag :: "pyfloat \<Rightarrow> pyfloat \<Rightarrow> metrics \<Rightarrow> metrics" where
  "observe_lag lag tolerance m = m\<lparr>mt_lag_last := lag, mt_lag_max := max (mt_lag_max m) lag,
     mt_missed_deadline := mt_missed_deadline m + (if tolerance < lag then 1 else 0)\<rparr>"

definition force_fairness :: "bool \<Rightarrow> int \<Rightarrow> metrics \<Rightarrow> metrics" where
  "force_fairness low deferred m = m\<lparr>mt_fairness_forced := mt_fairness_forced m + 1,
     mt_fairness_forced_low := mt_fairness_forced_low m + (if low then 1 else 0),
     mt_deferred := mt_deferred m + max 0 deferred\<rparr>"

definition observe_completion ::
  "priority \<Rightarrow> pyfloat \<Rightarrow> pyfloat \<Rightarrow> pyfloat \<Rightarrow> bool \<Rightarrow> bool \<Rightarrow> metrics \<Rightarrow> metrics" where
  "observe_completion p completed duration interval failed callback_error m = m\<lparr>
     mt_executions := mt_executions m + 1,
     mt_by_priority := (mt_by_priority m)(p := mt_by_priority m p + 1),
     mt_failures := mt_failures m + (if failed then 1 else 0),
     mt_successes := mt_successes m + (if failed then 0 else 1),
     mt_callback_errors := mt_callback_errors m + (if callback_error then 1 else 0),
     mt_consecutive_high := (if p = High then mt_consecutive_high m + 1 else 0),
     mt_consecutive_non_low := (if p \<noteq> Low then mt_consecutive_non_low m + 1 else 0),
     mt_overrun := mt_overrun m + (if interval < duration then 1 else 0),
     mt_busy := mt_busy m @ [(completed, duration)]\<rparr>"

definition observe_callback_error :: "metrics \<Rightarrow> metrics" where
  "observe_callback_error m = m\<lparr>mt_callback_errors := mt_callback_errors m + 1\<rparr>"

definition observe_cooldown :: "int \<Rightarrow> metrics \<Rightarrow> metrics" where
  "observe_cooldown deferred m = m\<lparr>mt_cooldown_entered := mt_cooldown_entered m + 1,
     mt_deferred := mt_deferred m + max 0 deferred\<rparr>"

definition observe_skipped :: "int \<Rightarrow> metrics \<Rightarrow> metrics" where
  "observe_skipped count m = m\<lparr>mt_skipped := mt_skipped m + max 0 count\<rparr>"

record metrics_snapshot =
  ms_worker_count :: int
  ms_configured_targets :: int
  ms_queue_depth :: int
  ms_counters :: metrics
  ms_lag_seconds :: "pyfloat \<times> pyfloat"
  ms_bus_load_percent :: pyfloat

text \<open>\<open>sum\<close> of floats: since Python 3.12 (the image is built on 3.13) it adds from left to right and
  carries the rounding errors in a second float. The counters and the priorities of the payload are
  those of the metrics that the snapshot leaves.\<close>

definition sum_step :: "pyfloat \<times> pyfloat \<Rightarrow> pyfloat \<Rightarrow> pyfloat \<times> pyfloat" where
  "sum_step = (\<lambda>(hi, lo) x.
     let t = fadd hi x;
         c = (if \<bar>x\<bar> \<le> \<bar>hi\<bar> then fadd (fsub hi t) x else fadd (fsub x t) hi)
     in (t, fadd lo c))"

definition float_sum :: "pyfloat list \<Rightarrow> pyfloat" where
  "float_sum xs = (case xs of
      [] \<Rightarrow> 0
    | x # rest \<Rightarrow> (case foldl sum_step (x, 0) rest of (hi, lo) \<Rightarrow> fadd hi lo))"

definition metrics_snapshot_of ::
  "pyfloat \<Rightarrow> pyfloat \<Rightarrow> int \<Rightarrow> int \<Rightarrow> int \<Rightarrow> metrics \<Rightarrow> metrics_snapshot \<times> metrics" where
  "metrics_snapshot_of now window workers configured depth m =
     (let cutoff = fsub now window;
          m1 = m\<lparr>mt_busy := dropWhile (\<lambda>(t, _). t < cutoff) (mt_busy m)\<rparr>;
          busy_seconds = float_sum (map snd (mt_busy m1))
      in (\<lparr>ms_worker_count = workers, ms_configured_targets = configured, ms_queue_depth = depth,
           ms_counters = m1, ms_lag_seconds = (py_round 6 (mt_lag_last m1), py_round 6 (mt_lag_max m1)),
           ms_bus_load_percent = py_round 3 (min 100 (fmul (fdiv busy_seconds window) 100))\<rparr>, m1))"

section \<open>Lemmas\<close>

text \<open>Every completion is counted once as a success or a failure and once under its priority, and the
  bursts that drive fairness never exceed the executions.\<close>

definition metrics_ok :: "metrics \<Rightarrow> bool" where
  "metrics_ok m \<longleftrightarrow> mt_executions m = mt_successes m + mt_failures m
     \<and> mt_executions m = mt_by_priority m High + mt_by_priority m Medium + mt_by_priority m Low
     \<and> 0 \<le> mt_consecutive_high m \<and> mt_consecutive_high m \<le> mt_consecutive_non_low m
     \<and> mt_consecutive_non_low m \<le> mt_executions m \<and> mt_fairness_forced_low m \<le> mt_fairness_forced m"

lemma metrics_ok_steps [simp]:
  "metrics_ok fresh_metrics"
  "metrics_ok m \<Longrightarrow> metrics_ok (observe_queue n m)"
  "metrics_ok m \<Longrightarrow> metrics_ok (observe_lag x y m)"
  "metrics_ok m \<Longrightarrow> metrics_ok (force_fairness b n m)"
  "metrics_ok m \<Longrightarrow> metrics_ok (observe_completion p x y z b c m)"
  "metrics_ok m \<Longrightarrow> metrics_ok (observe_callback_error m)"
  "metrics_ok m \<Longrightarrow> metrics_ok (observe_cooldown n m)"
  "metrics_ok m \<Longrightarrow> metrics_ok (observe_skipped n m)"
  by (cases p; auto simp: metrics_ok_def fresh_metrics_def observe_queue_def observe_lag_def force_fairness_def
      observe_completion_def observe_callback_error_def observe_cooldown_def observe_skipped_def)+

lemma env_float_range: "env_float env name dflt = Inr x \<Longrightarrow> 1 \<le> x \<and> x \<le> 3600"
  by (auto simp: env_float_def Let_def split: if_splits float_text.splits)

lemma env_int_range: "env_int env name dflt maximum = Inr n \<Longrightarrow> 1 \<le> n \<and> n \<le> maximum"
  by (auto simp: env_int_def Let_def split: if_splits option.splits)

definition policy_ok :: "scheduler_policy \<Rightarrow> bool" where
  "policy_ok p \<longleftrightarrow> 1 \<le> sp_high_interval p \<and> sp_high_interval p \<le> sp_medium_interval p
     \<and> sp_medium_interval p \<le> sp_low_interval p \<and> sp_low_interval p \<le> 3600
     \<and> 1 \<le> sp_cooldown_initial p \<and> sp_cooldown_initial p \<le> sp_cooldown_max p \<and> sp_cooldown_max p \<le> 3600
     \<and> 1 \<le> sp_fairness_high_burst p \<and> sp_fairness_high_burst p \<le> sp_fairness_low_burst p
     \<and> 1 \<le> sp_failure_threshold p \<and> 1 \<le> sp_startup_spread p"

lemma policy_from_environment_ok: "policy_from_environment legacy env = Inr p \<Longrightarrow> policy_ok p"
  by (auto simp: policy_from_environment_def policy_ok_def ebind_eq_Inr split: if_splits
      dest!: env_float_range env_int_range)

end
