(* ===== verification/AdaptiveScheduler.thy ===== *)
theory AdaptiveScheduler
  imports SchedulerPolicy Effects
begin

text \<open>
  \<open>services/device-agent/adaptive_scheduler.py\<close>: the jobs, endpoints and metrics of the scheduler, the
  choice of the next job of a bus, its completion with cooldown and deadline, the installation of a
  registry, and the supervision of the bus workers. The callbacks, clocks, latest-value store and stop
  event are \<open>sched_ops\<close>. Every critical section under the condition is one function; \<open>run_once\<close> runs two
  of them around the read, which other sections may interleave. A set of target ids is a list without
  repetitions. \<open>None\<close> is a run that never ends (the loop of \<open>complete\<close>).
\<close>

section \<open>State\<close>

record job =
  jb_target :: sched_target
  jb_next_deadline :: pyfloat
  jb_sequence :: int

record endpoint =
  ep_failure_streak :: int
  ep_trip_count :: int
  ep_cooldown_until :: pyfloat

definition fresh_endpoint :: endpoint where
  "fresh_endpoint = \<lparr>ep_failure_streak = 0, ep_trip_count = 0, ep_cooldown_until = 0\<rparr>"

record worker_log =
  wl_failures :: int
  wl_restarts :: int
  wl_last_failure :: "exn option"
  wl_last_failure_at :: "string option"
  wl_last_recovered_at :: "string option"

definition fresh_log :: worker_log where
  "fresh_log = \<lparr>wl_failures = 0, wl_restarts = 0, wl_last_failure = None, wl_last_failure_at = None,
     wl_last_recovered_at = None\<rparr>"

text \<open>\<open>sh_threads\<close> holds whether the thread of a bus is alive; \<open>wl_last_failure\<close> holds the exception
  whose class name the source keeps.\<close>

record scheduler =
  sh_policy :: scheduler_policy
  sh_attempts :: int
  sh_retry_delay :: pyfloat
  sh_jobs :: "(string, job) dict"
  sh_bus_jobs :: "(string, string list) dict"
  sh_endpoints :: "(string \<times> int, endpoint) dict"
  sh_metrics :: "(string, metrics) dict"
  sh_locks :: "string list"
  sh_threads :: "(string, bool) dict"
  sh_workers :: "(string, worker_log) dict"
  sh_sequence :: int
  sh_started :: bool
  sh_revision :: int

record 'w sched_ops =
  so_clock :: "'w \<Rightarrow> pyfloat \<times> 'w"
  so_wall :: "'w \<Rightarrow> string \<times> 'w"
  so_last_attempts :: "'w \<Rightarrow> (string, string) dict result \<times> 'w"
  so_elapsed :: "string \<Rightarrow> string \<Rightarrow> pyfloat option"
  so_read :: "sched_target \<Rightarrow> 'w \<Rightarrow> sched_result result \<times> 'w"
  so_record_attempt :: "sched_target \<Rightarrow> sched_result \<Rightarrow> 'w \<Rightarrow> unit result \<times> 'w"
  so_record_result :: "sched_target \<Rightarrow> sched_result \<Rightarrow> 'w \<Rightarrow> unit result \<times> 'w"
  so_retry :: "(exn \<Rightarrow> int \<Rightarrow> int \<Rightarrow> 'w \<Rightarrow> bool result \<times> 'w) option"
  so_stopped :: "'w \<Rightarrow> bool"
  so_wait :: "pyfloat \<Rightarrow> 'w \<Rightarrow> bool \<times> 'w"
  so_idle :: "pyfloat \<Rightarrow> 'w \<Rightarrow> 'w"

definition job_endpoint :: "job \<Rightarrow> string \<times> int" where
  "job_endpoint j = (tg_bus_id (jb_target j), tg_unit_id (jb_target j))"

definition key_error :: "string \<Rightarrow> 'a result" where
  "key_error k = Inl (KeyError k)"

definition endpoint_key_text :: "string \<times> int \<Rightarrow> string" where
  "endpoint_key_text k = ''('' @ py_repr (fst k) @ '', '' @ dec (snd k) @ '')''"

text \<open>\<open>d[key]\<close>.\<close>

definition lookup :: "('k \<Rightarrow> string) \<Rightarrow> ('k, 'v) dict \<Rightarrow> 'k \<Rightarrow> 'v result" where
  "lookup show_key d k = (case dget d k of None \<Rightarrow> key_error (show_key k) | Some v \<Rightarrow> Inr v)"

section \<open>Choosing a job\<close>

definition effective_deadline :: "scheduler \<Rightarrow> job \<Rightarrow> pyfloat result" where
  "effective_deadline s j = ebind (lookup endpoint_key_text (sh_endpoints s) (job_endpoint j)) (\<lambda>e.
     Inr (max (jb_next_deadline j) (ep_cooldown_until e)))"

definition bus_targets :: "scheduler \<Rightarrow> string \<Rightarrow> string list" where
  "bus_targets s bus = dget_or (sh_bus_jobs s) bus []"

text \<open>The jobs of a bus that are still installed, each with its effective deadline.\<close>

fun with_deadlines :: "scheduler \<Rightarrow> string list \<Rightarrow> (pyfloat \<times> job) list result" where
  "with_deadlines s [] = Inr []"
| "with_deadlines s (i # is) = (case dget (sh_jobs s) i of
       None \<Rightarrow> with_deadlines s is
     | Some j \<Rightarrow> ebind (effective_deadline s j) (\<lambda>d. ebind (with_deadlines s is) (\<lambda>ds. Inr ((d, j) # ds))))"

definition due :: "scheduler \<Rightarrow> string \<Rightarrow> pyfloat \<Rightarrow> (pyfloat \<times> job) list result" where
  "due s bus now = ebind (with_deadlines s (bus_targets s bus)) (\<lambda>ds. Inr (filter (\<lambda>(d, j). d \<le> now) ds))"

definition job_priority :: "pyfloat \<times> job \<Rightarrow> priority" where
  "job_priority dj = tg_priority (jb_target (snd dj))"

definition job_order :: "pyfloat \<times> job \<Rightarrow> priority \<times> pyfloat \<times> int" where
  "job_order dj = (job_priority dj, fst dj, jb_sequence (snd dj))"

definition age_order :: "pyfloat \<times> job \<Rightarrow> pyfloat \<times> int" where
  "age_order dj = (fst dj, jb_sequence (snd dj))"

text \<open>\<open>min(items, key=f)\<close>: the first of the least.\<close>

fun min_on :: "('a \<Rightarrow> 'b::linorder) \<Rightarrow> 'a \<Rightarrow> 'a list \<Rightarrow> 'a" where
  "min_on f x [] = x"
| "min_on f x (y # ys) = min_on f (if f y < f x then y else x) ys"

definition set_metrics :: "string \<Rightarrow> metrics \<Rightarrow> scheduler \<Rightarrow> scheduler" where
  "set_metrics bus m s = s\<lparr>sh_metrics := dset bus m (sh_metrics s)\<rparr>"

text \<open>The choice among the due jobs in order, with the metrics after it.\<close>

definition pick :: "scheduler_policy \<Rightarrow> (pyfloat \<times> job) list \<Rightarrow> metrics \<Rightarrow> job option \<times> metrics" where
  "pick p ds m0 =
     (let m = observe_queue (int (length ds)) m0;
          low_due = filter (\<lambda>dj. job_priority dj = Low) ds;
          non_high = filter (\<lambda>dj. job_priority dj \<noteq> High) ds
      in case ds of
           [] \<Rightarrow> (None, m)
         | first # rest \<Rightarrow>
             if sp_fairness_low_burst p \<le> mt_consecutive_non_low m \<and> low_due \<noteq> [] then
               (Some (snd (min_on age_order (hd low_due) (tl low_due))),
                force_fairness True (int (length ds) - 1) m)
             else if sp_fairness_high_burst p \<le> mt_consecutive_high m \<and> non_high \<noteq> [] then
               (Some (snd (hd non_high)),
                force_fairness False (int (length (filter (\<lambda>dj. job_priority dj = High) ds))) m)
             else (Some (snd first), m))"

definition select :: "string \<Rightarrow> pyfloat \<Rightarrow> scheduler \<Rightarrow> job option result \<times> scheduler" where
  "select bus now s =
     (case due s bus now of
        Inl e \<Rightarrow> (Inl e, s)
      | Inr ds \<Rightarrow> (case lookup py_repr (sh_metrics s) bus of
          Inl e \<Rightarrow> (Inl e, s)
        | Inr m \<Rightarrow> (case pick (sh_policy s) (sort_key job_order ds) m of
            (j, m1) \<Rightarrow> (Inr j, set_metrics bus m1 s))))"

section \<open>Completing a job\<close>

text \<open>\<open>while next_deadline <= completed: next_deadline += interval; skipped += 1\<close>.\<close>

partial_function (option) skip_overdue :: "pyfloat \<Rightarrow> pyfloat \<Rightarrow> pyfloat \<Rightarrow> int \<Rightarrow> (pyfloat \<times> int) option" where
  "skip_overdue interval completed next skipped =
     (if next \<le> completed then skip_overdue interval completed (fadd next interval) (skipped + 1)
      else Some (next, skipped))"

definition cooldown_seconds :: "scheduler_policy \<Rightarrow> int \<Rightarrow> pyfloat result" where
  "cooldown_seconds p trips = ebind (float_of_int (2 ^ nat (trips - 1))) (\<lambda>factor.
     Inr (min (sp_cooldown_max p) (fmul (sp_cooldown_initial p) factor)))"

text \<open>The jobs of the unit are put off to the end of the cooldown, in place.\<close>

fun defer_unit :: "int \<Rightarrow> pyfloat \<Rightarrow> string list \<Rightarrow> (string, job) dict \<Rightarrow> int \<Rightarrow> (int \<times> (string, job) dict) result" where
  "defer_unit unit until [] jobs n = Inr (n, jobs)"
| "defer_unit unit until (i # is) jobs n = ebind (lookup py_repr jobs i) (\<lambda>j.
     if tg_unit_id (jb_target j) = unit then
       defer_unit unit until is (dset i (j\<lparr>jb_next_deadline := max (jb_next_deadline j) until\<rparr>) jobs) (n + 1)
     else defer_unit unit until is jobs n)"

definition set_endpoint :: "string \<times> int \<Rightarrow> endpoint \<Rightarrow> scheduler \<Rightarrow> scheduler" where
  "set_endpoint k e s = s\<lparr>sh_endpoints := dset k e (sh_endpoints s)\<rparr>"

text \<open>The endpoint after a failure: the streak, and at the threshold the trip with its cooldown.\<close>

definition note_failure :: "job \<Rightarrow> pyfloat \<Rightarrow> endpoint \<Rightarrow> scheduler \<Rightarrow> unit result \<times> scheduler" where
  "note_failure j completed e s =
     (let k = job_endpoint j; bus = fst k; e1 = e\<lparr>ep_failure_streak := ep_failure_streak e + 1\<rparr> in
      if ep_failure_streak e1 < sp_failure_threshold (sh_policy s) then (Inr (), set_endpoint k e1 s)
      else
        let e2 = e1\<lparr>ep_trip_count := ep_trip_count e1 + 1\<rparr> in
        (case cooldown_seconds (sh_policy s) (ep_trip_count e2) of
           Inl x \<Rightarrow> (Inl x, set_endpoint k e2 s)
         | Inr cooldown \<Rightarrow>
             let until = fadd completed cooldown;
                 s1 = set_endpoint k (e2\<lparr>ep_cooldown_until := until, ep_failure_streak := 0\<rparr>) s
             in (case defer_unit (snd k) until (bus_targets s1 bus) (sh_jobs s1) 0 of
                Inl x \<Rightarrow> (Inl x, s1)
              | Inr (n, jobs) \<Rightarrow> (case lookup py_repr (sh_metrics s1) bus of
                    Inl x \<Rightarrow> (Inl x, s1\<lparr>sh_jobs := jobs\<rparr>)
                  | Inr m \<Rightarrow> (Inr (), set_metrics bus (observe_cooldown n m) (s1\<lparr>sh_jobs := jobs\<rparr>))))))"

definition note_recovery :: "job \<Rightarrow> endpoint \<Rightarrow> scheduler \<Rightarrow> unit result \<times> scheduler" where
  "note_recovery j e s = (Inr (), set_endpoint (job_endpoint j)
     (e\<lparr>ep_failure_streak := 0, ep_trip_count := 0, ep_cooldown_until := 0\<rparr>) s)"

text \<open>The last part: the next deadline on the grid of the cadence, never before the end of the cooldown.\<close>

definition reschedule :: "job \<Rightarrow> pyfloat \<Rightarrow> pyfloat \<Rightarrow> (scheduler, unit) io" where
  "reschedule j deadline completed s =
     (case skip_overdue (tg_interval (jb_target j)) completed (fadd deadline (tg_interval (jb_target j))) 0 of
        None \<Rightarrow> None
      | Some (next, skipped) \<Rightarrow>
          (case (dget (sh_jobs s) (tg_target_id (jb_target j)), dget (sh_endpoints s) (job_endpoint j),
                 dget (sh_metrics s) (tg_bus_id (jb_target j))) of
             (Some current, Some e, Some m) \<Rightarrow>
               Some (Inr (), set_metrics (tg_bus_id (jb_target j)) (observe_skipped skipped m)
                 (s\<lparr>sh_jobs := dset (tg_target_id (jb_target j))
                   (current\<lparr>jb_next_deadline := max next (ep_cooldown_until e)\<rparr>) (sh_jobs s)\<rparr>))
           | _ \<Rightarrow> Some (Inr (), s)))"

definition complete :: "job \<Rightarrow> pyfloat \<Rightarrow> pyfloat \<Rightarrow> pyfloat \<Rightarrow> bool \<Rightarrow> bool \<Rightarrow> (scheduler, unit) io" where
  "complete j deadline completed duration failed callback_error s =
     (let bus = tg_bus_id (jb_target j) in
      case dget (sh_jobs s) (tg_target_id (jb_target j)) of
        None \<Rightarrow> Some (Inr (), s)
      | Some current \<Rightarrow>
          (case lookup py_repr (sh_metrics s) bus of
             Inl e \<Rightarrow> Some (Inl e, s)
           | Inr m \<Rightarrow>
               let s1 = set_metrics bus (observe_completion (tg_priority (jb_target j)) completed duration
                     (tg_interval (jb_target j)) failed callback_error m) s in
               (case lookup endpoint_key_text (sh_endpoints s1) (job_endpoint j) of
                  Inl e \<Rightarrow> Some (Inl e, s1)
                | Inr e \<Rightarrow>
                    (case (if failed then note_failure j completed e s1 else note_recovery j e s1) of
                       (Inl x, s2) \<Rightarrow> Some (Inl x, s2)
                     | (Inr _, s2) \<Rightarrow> reschedule j deadline completed s2))))"

section \<open>One execution\<close>

text \<open>The first critical section of \<open>run_once\<close>: the job and its deadline.\<close>

definition begin_run :: "'w sched_ops \<Rightarrow> string \<Rightarrow> scheduler \<Rightarrow> 'w \<Rightarrow> (job \<times> pyfloat) option result \<times> scheduler \<times> 'w" where
  "begin_run ops bus s w =
     (case so_clock ops w of (now, w1) \<Rightarrow>
      (case select bus now s of
         (Inl e, s1) \<Rightarrow> (Inl e, s1, w1)
       | (Inr None, s1) \<Rightarrow> (Inr None, s1, w1)
       | (Inr (Some j), s1) \<Rightarrow>
           (case lookup py_repr (sh_metrics s1) bus of
              Inl e \<Rightarrow> (Inl e, s1, w1)
            | Inr m \<Rightarrow> (Inr (Some (j, jb_next_deadline j)),
                set_metrics bus (observe_lag (max 0 (fsub now (jb_next_deadline j)))
                  (sp_deadline_tolerance (sh_policy s1)) m) s1, w1))))"

text \<open>\<open>_persist_latest_result\<close> with \<open>k\<close> rounds left; \<open>attempt\<close> counts from 1.\<close>

fun persist_loop ::
  "'w sched_ops \<Rightarrow> int \<Rightarrow> pyfloat \<Rightarrow> sched_target \<Rightarrow> sched_result \<Rightarrow> nat \<Rightarrow> int \<Rightarrow> 'w \<Rightarrow> unit result \<times> 'w" where
  "persist_loop ops attempts delay t r 0 attempt w =
     (Inl (RuntimeError ''Latest-value persistence retry loop exhausted unexpectedly''), w)"
| "persist_loop ops attempts delay t r (Suc k) attempt w =
     (case so_record_attempt ops t r w of
        (Inr _, w1) \<Rightarrow> (Inr (), w1)
      | (Inl e, w1) \<Rightarrow>
          (case (case so_retry ops of None \<Rightarrow> (Inr False, w1) | Some h \<Rightarrow> h e attempt attempts w1) of
             (Inl x, w2) \<Rightarrow> (Inl x, w2)
           | (Inr should_retry, w2) \<Rightarrow>
               if \<not> should_retry \<or> attempts \<le> attempt \<or> so_stopped ops w2 then (Inl e, w2)
               else if delay \<noteq> 0 then
                 (case so_wait ops delay w2 of
                    (True, w3) \<Rightarrow> (Inl e, w3)
                  | (False, w3) \<Rightarrow> persist_loop ops attempts delay t r k (attempt + 1) w3)
               else persist_loop ops attempts delay t r k (attempt + 1) w2))"

definition persist_latest_result :: "'w sched_ops \<Rightarrow> scheduler \<Rightarrow> sched_target \<Rightarrow> sched_result \<Rightarrow> 'w \<Rightarrow> unit result \<times> 'w" where
  "persist_latest_result ops s t r w =
     persist_loop ops (sh_attempts s) (sh_retry_delay s) t r (nat (sh_attempts s)) 1 w"

text \<open>The read under the lock of the bus: the result, or that the callback failed.\<close>

definition read_job :: "'w sched_ops \<Rightarrow> string \<Rightarrow> job \<Rightarrow> scheduler \<Rightarrow> 'w \<Rightarrow> sched_result option \<times> 'w" where
  "read_job ops bus j s w =
     (if bus \<in> set (sh_locks s) then
        (case so_read ops (jb_target j) w of (Inr r, w1) \<Rightarrow> (Some r, w1) | (Inl _, w1) \<Rightarrow> (None, w1))
      else (None, w))"

text \<open>The publication after the completion; its failure is counted.\<close>

definition publish_result ::
  "'w sched_ops \<Rightarrow> string \<Rightarrow> job \<Rightarrow> sched_result option \<Rightarrow> scheduler \<Rightarrow> 'w \<Rightarrow> bool result \<times> scheduler \<times> 'w" where
  "publish_result ops bus j res s w =
     (case res of
        None \<Rightarrow> (Inr True, s, w)
      | Some r \<Rightarrow>
          (case so_record_result ops (jb_target j) r w of
             (Inr _, w1) \<Rightarrow> (Inr True, s, w1)
           | (Inl _, w1) \<Rightarrow>
               (case lookup py_repr (sh_metrics s) bus of
                  Inl e \<Rightarrow> (Inl e, s, w1)
                | Inr m \<Rightarrow> (Inr True, set_metrics bus (observe_callback_error m) s, w1))))"

definition run_once :: "'w sched_ops \<Rightarrow> string \<Rightarrow> (scheduler \<times> 'w, bool) io" where
  "run_once ops bus = (\<lambda>(s, w).
     (case begin_run ops bus s w of
        (Inl e, s1, w1) \<Rightarrow> Some (Inl e, s1, w1)
      | (Inr None, s1, w1) \<Rightarrow> Some (Inr False, s1, w1)
      | (Inr (Some (j, deadline)), s1, w1) \<Rightarrow>
          (case so_clock ops w1 of (started, w2) \<Rightarrow>
           (case read_job ops bus j s1 w2 of (res, w3) \<Rightarrow>
            (case (case res of None \<Rightarrow> (Inr (), w3) | Some r \<Rightarrow> persist_latest_result ops s1 (jb_target j) r w3) of
               (Inl e, w4) \<Rightarrow> Some (Inl e, s1, w4)
             | (Inr _, w4) \<Rightarrow>
                 (case so_clock ops w4 of (completed, w5) \<Rightarrow>
                  (case complete j deadline completed (max 0 (fsub completed started))
                          (case res of None \<Rightarrow> True | Some r \<Rightarrow> sr_failed r) (res = None) s1 of
                     None \<Rightarrow> None
                   | Some (Inl e, s2) \<Rightarrow> Some (Inl e, s2, w5)
                   | Some (Inr _, s2) \<Rightarrow> Some (publish_result ops bus j res s2 w5))))))))"

section \<open>The worker of a bus\<close>

definition update_log :: "string \<Rightarrow> (worker_log \<Rightarrow> worker_log) \<Rightarrow> scheduler \<Rightarrow> scheduler" where
  "update_log bus f s = s\<lparr>sh_workers := dset bus (f (dget_or (sh_workers s) bus fresh_log)) (sh_workers s)\<rparr>"

definition record_worker_failure :: "'w sched_ops \<Rightarrow> string \<Rightarrow> exn \<Rightarrow> scheduler \<Rightarrow> 'w \<Rightarrow> scheduler \<times> 'w" where
  "record_worker_failure ops bus e s w =
     (case so_wall ops w of (stamp, w1) \<Rightarrow>
       (update_log bus (\<lambda>l. l\<lparr>wl_failures := wl_failures l + 1, wl_last_failure := Some e,
          wl_last_failure_at := Some stamp\<rparr>) s, w1))"

text \<open>How long an idle worker waits.\<close>

definition idle_wait :: "'w sched_ops \<Rightarrow> string \<Rightarrow> scheduler \<Rightarrow> 'w \<Rightarrow> pyfloat result \<times> 'w" where
  "idle_wait ops bus s w =
     (case with_deadlines s (bus_targets s bus) of
        Inl e \<Rightarrow> (Inl e, w)
      | Inr [] \<Rightarrow> (Inr 1, w)
      | Inr (d # ds) \<Rightarrow> (case so_clock ops w of (now, w1) \<Rightarrow>
          (Inr (min 1 (max (fl (1 / 100)) (fsub (fold (\<lambda>x. min (fst x)) ds (fst d)) now))), w1)))"

definition worker_ends :: "string \<Rightarrow> scheduler \<Rightarrow> scheduler" where
  "worker_ends bus s = s\<lparr>sh_threads := dset bus False (sh_threads s)\<rparr>"

text \<open>\<open>n\<close> rounds of the thread of a bus, or fewer when it ends.\<close>

fun run_bus :: "'w sched_ops \<Rightarrow> string \<Rightarrow> nat \<Rightarrow> scheduler \<times> 'w \<Rightarrow> (scheduler \<times> 'w) option" where
  "run_bus ops bus 0 sw = Some sw"
| "run_bus ops bus (Suc n) sw =
     (let dies = (\<lambda>e s w. case record_worker_failure ops bus e s w of (s1, w1) \<Rightarrow> Some (worker_ends bus s1, w1)) in
      if so_stopped ops (snd sw) then Some (worker_ends bus (fst sw), snd sw)
      else (case run_once ops bus sw of
          None \<Rightarrow> None
        | Some (Inl e, s1, w1) \<Rightarrow> dies e s1 w1
        | Some (Inr True, sw1) \<Rightarrow> run_bus ops bus n sw1
        | Some (Inr False, s1, w1) \<Rightarrow>
            (case idle_wait ops bus s1 w1 of
               (Inl e, w2) \<Rightarrow> dies e s1 w2
             | (Inr seconds, w2) \<Rightarrow> run_bus ops bus n (s1, so_idle ops seconds w2))))"

section \<open>The rule of the choice\<close>

lemma lookup_iff [result_simps]: "lookup f d k = Inr v \<longleftrightarrow> dget d k = Some v"
  by (auto simp: lookup_def key_error_def split: option.splits)

lemma min_on_least:
  fixes f :: "'a \<Rightarrow> 'b::linorder"
  shows "min_on f x ys \<in> set (x # ys) \<and> (\<forall>y \<in> set (x # ys). f (min_on f x ys) \<le> f y)"
proof (induction ys arbitrary: x)
  case (Cons y ys)
  define z where "z = (if f y < f x then y else x)"
  have z: "z \<in> {x, y}" "f z \<le> f x" "f z \<le> f y" by (auto simp: z_def)
  have run: "min_on f x (y # ys) = min_on f z ys" by (simp add: z_def)
  have least: "min_on f z ys \<in> set (z # ys)" "\<And>u. u \<in> set (z # ys) \<Longrightarrow> f (min_on f z ys) \<le> f u"
    using Cons.IH [of z] by blast+
  have "f (min_on f z ys) \<le> f z" using least(2) by simp
  then have "f (min_on f z ys) \<le> f x" "f (min_on f z ys) \<le> f y" using z(2,3) by simp_all
  moreover have "min_on f z ys \<in> set (x # y # ys)" using least(1) z(1) by auto
  ultimately show ?case unfolding run using least(2) by (simp del: min_on.simps)
qed simp

lemma min_on_hd:
  assumes "xs \<noteq> []"
  shows "min_on f (hd xs) (tl xs) \<in> set xs" "y \<in> set xs \<Longrightarrow> f (min_on f (hd xs) (tl xs)) \<le> f y"
proof -
  have "hd xs # tl xs = xs" using assms by simp
  with min_on_least [of f "hd xs" "tl xs"]
  show "min_on f (hd xs) (tl xs) \<in> set xs" "y \<in> set xs \<Longrightarrow> f (min_on f (hd xs) (tl xs)) \<le> f y" by metis+
qed

lemma hd_least:
  assumes "sorted (map f xs)" and "y \<in> set xs"
  shows "f (hd xs) \<le> f y"
  using assms by (cases xs) auto

lemma same_burst [simp]:
  "mt_consecutive_non_low (observe_queue n m) = mt_consecutive_non_low m"
  "mt_consecutive_high (observe_queue n m) = mt_consecutive_high m"
  "mt_consecutive_non_low (force_fairness b n m) = mt_consecutive_non_low m"
  "mt_consecutive_high (force_fairness b n m) = mt_consecutive_high m"
  "mt_consecutive_non_low (observe_lag x y m) = mt_consecutive_non_low m"
  "mt_consecutive_high (observe_lag x y m) = mt_consecutive_high m"
  by (simp_all add: observe_queue_def force_fairness_def observe_lag_def)

text \<open>\<open>chosen\<close> is the rule: after a burst of other work a due low job with the earliest deadline; after a
  burst of high work the first due job that is not high; otherwise the first in the order of priority,
  deadline and age.\<close>

definition chosen :: "scheduler_policy \<Rightarrow> (pyfloat \<times> job) set \<Rightarrow> metrics \<Rightarrow> pyfloat \<times> job \<Rightarrow> bool" where
  "chosen p D m dj \<longleftrightarrow> dj \<in> D \<and>
     (if sp_fairness_low_burst p \<le> mt_consecutive_non_low m \<and> (\<exists>x \<in> D. job_priority x = Low) then
        job_priority dj = Low \<and> (\<forall>x \<in> D. job_priority x = Low \<longrightarrow>
          age_order dj \<le> age_order x)
      else if sp_fairness_high_burst p \<le> mt_consecutive_high m \<and> (\<exists>x \<in> D. job_priority x \<noteq> High) then
        job_priority dj \<noteq> High \<and> (\<forall>x \<in> D. job_priority x \<noteq> High \<longrightarrow> job_order dj \<le> job_order x)
      else (\<forall>x \<in> D. job_order dj \<le> job_order x))"

lemma pick_rule:
  assumes "sorted (map job_order ds)" and "ds \<noteq> []"
  obtains dj m' where "pick p ds m = (Some (snd dj), m')" "chosen p (set ds) m dj"
    "mt_consecutive_non_low m' = mt_consecutive_non_low m" "mt_consecutive_high m' = mt_consecutive_high m"
proof -
  define low where "low = filter (\<lambda>x. job_priority x = Low) ds"
  define non_high where "non_high = filter (\<lambda>x. job_priority x \<noteq> High) ds"
  have sorted_nh: "sorted (map job_order non_high)" unfolding non_high_def using assms(1) by (rule sorted_filter)
  consider (low) "sp_fairness_low_burst p \<le> mt_consecutive_non_low m" "low \<noteq> []"
    | (high) "\<not> (sp_fairness_low_burst p \<le> mt_consecutive_non_low m \<and> low \<noteq> [])"
        "sp_fairness_high_burst p \<le> mt_consecutive_high m" "non_high \<noteq> []"
    | (plain) "\<not> (sp_fairness_low_burst p \<le> mt_consecutive_non_low m \<and> low \<noteq> [])"
        "\<not> (sp_fairness_high_burst p \<le> mt_consecutive_high m \<and> non_high \<noteq> [])"
    by blast
  then show thesis
  proof cases
    case low
    define dj where "dj = min_on age_order (hd low) (tl low)"
    have ch: "chosen p (set ds) m dj" using low min_on_hd [OF low(2), where f = age_order]
      by (auto simp: chosen_def dj_def low_def split: prod.splits)
    have run: "pick p ds m = (Some (snd dj),
        force_fairness True (int (length ds) - 1) (observe_queue (int (length ds)) m))"
      unfolding pick_def Let_def low_def [symmetric] non_high_def [symmetric] dj_def
      using low assms(2) by (simp split: list.split)
    show thesis by (rule that [OF run ch]) simp_all
  next
    case high
    have ch: "chosen p (set ds) m (hd non_high)"
      using high hd_in_set [OF high(3)] hd_least [OF sorted_nh]
      by (auto simp: chosen_def non_high_def low_def filter_empty_conv)
    have run: "pick p ds m = (Some (snd (hd non_high)),
        force_fairness False (int (length (filter (\<lambda>dj. job_priority dj = High) ds))) (observe_queue (int (length ds)) m))"
      unfolding pick_def Let_def low_def [symmetric] non_high_def [symmetric]
      using assms(2) by (simp add: if_not_P [OF high(1)] high(2,3) split: list.split)
    show thesis by (rule that [OF run ch]) simp_all
  next
    case plain
    have ch: "chosen p (set ds) m (hd ds)" using plain hd_least [OF assms(1)] assms(2)
      by (auto simp: chosen_def non_high_def low_def filter_empty_conv)
    have run: "pick p ds m = (Some (snd (hd ds)), observe_queue (int (length ds)) m)"
      unfolding pick_def Let_def low_def [symmetric] non_high_def [symmetric]
      using assms(2) by (simp add: if_not_P [OF plain(1)] if_not_P [OF plain(2)] split: list.split)
    show thesis by (rule that [OF run ch]) simp_all
  qed
qed


text \<open>The state between two installations: every job is listed under its bus and its endpoint exists,
  every listed target has its job, the buses have metrics and locks, and no two jobs have the same age.\<close>

definition installed :: "scheduler \<Rightarrow> bool" where
  "installed s \<longleftrightarrow>
     (\<forall>i j. dget (sh_jobs s) i = Some j \<longrightarrow> tg_target_id (jb_target j) = i
        \<and> i \<in> set (bus_targets s (tg_bus_id (jb_target j))) \<and> dget (sh_endpoints s) (job_endpoint j) \<noteq> None)
     \<and> (\<forall>b. \<forall>i \<in> set (bus_targets s b). \<exists>j. dget (sh_jobs s) i = Some j \<and> tg_bus_id (jb_target j) = b)
     \<and> (\<forall>b. distinct (bus_targets s b))
     \<and> (\<forall>b \<in> set (dkeys (sh_bus_jobs s)). dget (sh_metrics s) b \<noteq> None \<and> b \<in> set (sh_locks s))
     \<and> (\<forall>i i' j j'. dget (sh_jobs s) i = Some j \<longrightarrow> dget (sh_jobs s) i' = Some j' \<longrightarrow>
          jb_sequence j = jb_sequence j' \<longrightarrow> i = i')"

definition deadline_of :: "scheduler \<Rightarrow> job \<Rightarrow> pyfloat" where
  "deadline_of s j = max (jb_next_deadline j) (ep_cooldown_until (the (dget (sh_endpoints s) (job_endpoint j))))"

definition due_jobs :: "scheduler \<Rightarrow> string \<Rightarrow> pyfloat \<Rightarrow> (pyfloat \<times> job) set" where
  "due_jobs s bus now = {(deadline_of s j, j) | i j. dget (sh_jobs s) i = Some j \<and> tg_bus_id (jb_target j) = bus
     \<and> deadline_of s j \<le> now}"

lemma installed_job:
  assumes "installed s" and "i \<in> set (bus_targets s b)"
  obtains j e where "dget (sh_jobs s) i = Some j" "tg_target_id (jb_target j) = i" "tg_bus_id (jb_target j) = b"
    "dget (sh_endpoints s) (job_endpoint j) = Some e"
proof -
  from assms obtain j where j: "dget (sh_jobs s) i = Some j" "tg_bus_id (jb_target j) = b"
    unfolding installed_def by blast
  moreover from assms(1) j(1) have "tg_target_id (jb_target j) = i \<and> dget (sh_endpoints s) (job_endpoint j) \<noteq> None"
    unfolding installed_def by blast
  ultimately show thesis using that by auto
qed

lemma with_deadlines_ok:
  assumes "installed s" and "set is \<subseteq> set (bus_targets s b)"
  shows "\<exists>ds. with_deadlines s is = Inr ds \<and> set ds = {(deadline_of s j, j) | i j. i \<in> set is \<and> dget (sh_jobs s) i = Some j}"
  using assms(2)
proof (induction "is")
  case (Cons i "is")
  then obtain ds where ds: "with_deadlines s is = Inr ds"
    "set ds = {(deadline_of s j, j) | i j. i \<in> set is \<and> dget (sh_jobs s) i = Some j}" by auto
  obtain j e where "dget (sh_jobs s) i = Some j" "dget (sh_endpoints s) (job_endpoint j) = Some e"
    using assms(1) Cons.prems by (elim installed_job [of s i b]) auto
  then have run: "with_deadlines s (i # is) = Inr ((deadline_of s j, j) # ds)" and i: "dget (sh_jobs s) i = Some j"
    by (simp_all add: ds effective_deadline_def lookup_def deadline_of_def)
  have "set ((deadline_of s j, j) # ds)
      = {(deadline_of s j, j) | k j. k \<in> set (i # is) \<and> dget (sh_jobs s) k = Some j}"
    using i unfolding list.set(2) ds(2) by (safe; force)
  with run show ?case by blast
qed simp

lemma due_ok:
  assumes "installed s"
  obtains ds where "due s bus now = Inr ds" "set ds = due_jobs s bus now"
proof -
  obtain ds where ds: "with_deadlines s (bus_targets s bus) = Inr ds"
    "set ds = {(deadline_of s j, j) | i j. i \<in> set (bus_targets s bus) \<and> dget (sh_jobs s) i = Some j}"
    using with_deadlines_ok [OF assms order_refl] by blast
  have mem: "i \<in> set (bus_targets s bus) \<longleftrightarrow> tg_bus_id (jb_target j) = bus" if "dget (sh_jobs s) i = Some j" for i j
    using assms that unfolding installed_def by (metis option.inject)
  have "set (filter (\<lambda>(d, j). d \<le> now) ds) = due_jobs s bus now"
    using mem by (auto simp: ds(2) due_jobs_def) 
  then show thesis by (rule that [rotated]) (simp add: due_def ds(1))
qed

lemma due_jobs_order:
  assumes "installed s" and "x \<in> due_jobs s bus now" and "y \<in> due_jobs s bus now"
    and "jb_sequence (snd x) = jb_sequence (snd y)"
  shows "x = y"
proof -
  from assms(2,3) obtain i i' j j' where xy: "x = (deadline_of s j, j)" "y = (deadline_of s j', j')"
    "dget (sh_jobs s) i = Some j" "dget (sh_jobs s) i' = Some j'" by (auto simp: due_jobs_def)
  with assms(1,4) have "i = i'" unfolding installed_def by (metis snd_conv)
  with xy show ?thesis by simp
qed

lemma chosen_unique:
  assumes "installed s" and x: "chosen p (due_jobs s bus now) m x" and y: "chosen p (due_jobs s bus now) m y"
  shows "x = y"
proof (rule due_jobs_order [OF assms(1)])
  show "x \<in> due_jobs s bus now" "y \<in> due_jobs s bus now" using x y by (auto simp: chosen_def)
  have "age_order x = age_order y \<or> job_order x = job_order y"
    using x y by (simp add: chosen_def split: if_splits) (meson order.antisym)+
  then show "jb_sequence (snd x) = jb_sequence (snd y)" by (auto simp: age_order_def job_order_def)
qed


text \<open>C35: Under the invariant the choice of the next job of a bus never fails: with no due job it gives
  none, and otherwise exactly the due job of the rule \<open>chosen\<close>. The rule has one solution, so the
  choice does not depend on the order in which Python iterates over the set of the bus.\<close>

theorem selection_rule:
  assumes "installed s" and "dget (sh_metrics s) bus = Some m" and "select bus now s = (r, s')"
  shows "(due_jobs s bus now = {} \<longrightarrow> r = Inr None)
    \<and> (due_jobs s bus now \<noteq> {} \<longrightarrow> (\<exists>j. r = Inr (Some j)
        \<and> (\<forall>x. chosen (sh_policy s) (due_jobs s bus now) m x \<longleftrightarrow> x = (deadline_of s j, j))))"
proof -
  obtain ds where ds: "due s bus now = Inr ds" "set ds = due_jobs s bus now" by (rule due_ok [OF assms(1)])
  define sorted_ds where "sorted_ds = sort_key job_order ds"
  have r: "r = Inr (fst (pick (sh_policy s) sorted_ds m))"
    using assms(2,3) by (auto simp: select_def ds(1) lookup_def sorted_ds_def split: prod.splits)
  have sorted_set: "set sorted_ds = due_jobs s bus now" by (simp add: sorted_ds_def ds(2))
  show ?thesis
  proof (cases "sorted_ds = []")
    case True
    with r sorted_set show ?thesis by (simp add: pick_def)
  next
    case False
    have "sorted (map job_order sorted_ds)" by (simp add: sorted_ds_def)
    from pick_rule [OF this False] obtain dj m' where dj: "pick (sh_policy s) sorted_ds m = (Some (snd dj), m')"
        "chosen (sh_policy s) (set sorted_ds) m dj" by metis
    note ch = dj(2) [unfolded sorted_set]
    then have "dj = (deadline_of s (snd dj), snd dj)" by (auto simp: chosen_def due_jobs_def)
    then have "chosen (sh_policy s) (due_jobs s bus now) m x \<longleftrightarrow> x = (deadline_of s (snd dj), snd dj)" for x
      using chosen_unique [OF assms(1) ch, of x] ch by auto
    moreover have "due_jobs s bus now \<noteq> {}" using False sorted_set by auto
    ultimately show ?thesis using r dj(1) by simp
  qed
qed

section \<open>Fairness\<close>

text \<open>The classes a bus serves: the lists of due jobs at its selections, each with the measurements of
  the execution that follows.\<close>

record measured =
  me_completed :: pyfloat
  me_duration :: pyfloat
  me_interval :: pyfloat
  me_failed :: bool
  me_callback_error :: bool

fun served :: "scheduler_policy \<Rightarrow> ((pyfloat \<times> job) list \<times> measured) list \<Rightarrow> metrics \<Rightarrow> priority list" where
  "served p [] m = []"
| "served p ((ds, e) # rest) m = (case pick p (sort_key job_order ds) m of
       (None, m1) \<Rightarrow> served p rest m1
     | (Some j, m1) \<Rightarrow> tg_priority (jb_target j) # served p rest
         (observe_completion (tg_priority (jb_target j)) (me_completed e) (me_duration e) (me_interval e)
           (me_failed e) (me_callback_error e) m1))"

lemma served_pick:
  assumes "ds \<noteq> []"
  obtains dj m' where "served p ((ds, e) # rest) m = job_priority dj # served p rest m'"
    "chosen p (set ds) m dj"
    "mt_consecutive_non_low m' = (if job_priority dj = Low then 0 else mt_consecutive_non_low m + 1)"
    "mt_consecutive_high m' = (if job_priority dj = High then mt_consecutive_high m + 1 else 0)"
proof -
  have "sorted (map job_order (sort_key job_order ds))" "sort_key job_order ds \<noteq> []"
    using assms by (simp_all flip: length_greater_0_conv)
  then obtain dj m' where dj: "pick p (sort_key job_order ds) m = (Some (snd dj), m')" "chosen p (set ds) m dj"
      "mt_consecutive_non_low m' = mt_consecutive_non_low m" "mt_consecutive_high m' = mt_consecutive_high m"
    by (rule pick_rule) simp
  show thesis
    by (rule that [OF _ dj(2)])
      (unfold served.simps dj(1) prod.case option.case job_priority_def, rule refl,
        simp_all add: observe_completion_def dj(3,4))
qed

text \<open>How many executions can precede one of a waiting class, from its burst counter.\<close>

lemma low_in_time:
  assumes "\<forall>(ds, e) \<in> set rounds. \<exists>x \<in> set ds. job_priority x = Low"
    and "served p rounds m = us @ ws" and "Low \<notin> set us"
  shows "int (length us) \<le> max 0 (sp_fairness_low_burst p - mt_consecutive_non_low m)"
  using assms
proof (induction rounds arbitrary: m us)
  case (Cons r rounds)
  obtain ds e where r: "r = (ds, e)" by (cases r)
  with Cons.prems(1) have low: "\<exists>x \<in> set ds. job_priority x = Low" "ds \<noteq> []" by auto
  obtain dj m' where dj: "served p (r # rounds) m = job_priority dj # served p rounds m'" "chosen p (set ds) m dj"
      "mt_consecutive_non_low m' = (if job_priority dj = Low then 0 else mt_consecutive_non_low m + 1)"
    unfolding r by (rule served_pick [OF low(2)])
  show ?case
  proof (cases us)
    case (Cons u us')
    with Cons.prems dj(1) have u: "u = job_priority dj" "served p rounds m' = us' @ ws" "u \<noteq> Low" "Low \<notin> set us'" by auto
    have "int (length us') \<le> max 0 (sp_fairness_low_burst p - mt_consecutive_non_low m')"
      using Cons.IH [OF _ u(2,4)] Cons.prems(1) by simp
    moreover have "\<not> sp_fairness_low_burst p \<le> mt_consecutive_non_low m"
      using dj(2) low(1) u(1,3) by (auto simp: chosen_def)
    ultimately show ?thesis using dj(3) u(1,3) Cons by simp
  qed simp
qed simp


lemma non_high_in_time:
  assumes "\<forall>(ds, e) \<in> set rounds. \<exists>x \<in> set ds. job_priority x \<noteq> High"
    and "served p rounds m = us @ ws" and "set us \<subseteq> {High}"
  shows "int (length us) \<le> max 0 (sp_fairness_high_burst p - mt_consecutive_high m)"
  using assms
proof (induction rounds arbitrary: m us)
  case (Cons r rounds)
  obtain ds e where r: "r = (ds, e)" by (cases r)
  with Cons.prems(1) have other: "\<exists>x \<in> set ds. job_priority x \<noteq> High" "ds \<noteq> []" by auto
  obtain dj m' where dj: "served p (r # rounds) m = job_priority dj # served p rounds m'" "chosen p (set ds) m dj"
      "mt_consecutive_high m' = (if job_priority dj = High then mt_consecutive_high m + 1 else 0)"
    unfolding r by (rule served_pick [OF other(2)])
  show ?case
  proof (cases us)
    case (Cons u us')
    with Cons.prems dj(1) have u: "u = job_priority dj" "served p rounds m' = us' @ ws" "u = High" "set us' \<subseteq> {High}" by auto
    have "int (length us') \<le> max 0 (sp_fairness_high_burst p - mt_consecutive_high m')"
      using Cons.IH [OF _ u(2,4)] Cons.prems(1) by simp
    moreover have "\<not> sp_fairness_high_burst p \<le> mt_consecutive_high m"
      using dj(2) other(1) u(1,3) by (auto simp: chosen_def split: if_splits)
    ultimately show ?thesis using dj(3) u(1,3) Cons by simp
  qed simp
qed simp

lemma served_suffix:
  assumes "\<forall>(ds, e) \<in> set rounds. ds \<noteq> []" and "served p rounds m = us @ ws"
    and "0 \<le> mt_consecutive_high m" and "0 \<le> mt_consecutive_non_low m"
  shows "\<exists>rounds' m'. ws = served p rounds' m' \<and> set rounds' \<subseteq> set rounds
    \<and> 0 \<le> mt_consecutive_high m' \<and> 0 \<le> mt_consecutive_non_low m'"
  using assms
proof (induction rounds arbitrary: m us)
  case Nil
  then show ?case by (intro exI [of _ "[]"] exI [of _ m]) auto
next
  case (Cons r rounds)
  obtain ds e where r: "r = (ds, e)" by (cases r)
  with Cons.prems(1) have "ds \<noteq> []" by auto
  then obtain dj m' where dj: "served p (r # rounds) m = job_priority dj # served p rounds m'"
      "mt_consecutive_non_low m' = (if job_priority dj = Low then 0 else mt_consecutive_non_low m + 1)"
      "mt_consecutive_high m' = (if job_priority dj = High then mt_consecutive_high m + 1 else 0)"
    unfolding r by (rule served_pick)
  show ?case
  proof (cases us)
    case Nil
    then show ?thesis using Cons.prems(2-4) by (intro exI [of _ "r # rounds"] exI [of _ m]) simp
  next
    case (Cons u us')
    with Cons.prems(2) dj(1) have "served p rounds m' = us' @ ws" by simp
    moreover have "0 \<le> mt_consecutive_high m'" "0 \<le> mt_consecutive_non_low m'" using dj(2,3) Cons.prems(3,4) by simp_all
    ultimately show ?thesis using Cons.IH [of m' us'] Cons.prems(1) by (meson list.set_intros(2) subset_trans set_subset_Cons)
  qed
qed

text \<open>C36: No priority class starves on a bus. While a low job is due at every selection, among any
  \<open>fairness_low_burst + 1\<close> executions in a row there is a low one; while a job that is not high is due,
  among any \<open>fairness_high_burst + 1\<close> there is one that is not high. The due jobs and the durations and
  outcomes of the executions are arbitrary.\<close>

theorem no_starvation:
  assumes "metrics_ok m" and "policy_ok p" and "served p rounds m = us @ vs @ ws"
  shows "((\<forall>(ds, e) \<in> set rounds. \<exists>x \<in> set ds. job_priority x = Low)
        \<and> sp_fairness_low_burst p < int (length vs) \<longrightarrow> Low \<in> set vs)
    \<and> ((\<forall>(ds, e) \<in> set rounds. \<exists>x \<in> set ds. job_priority x \<noteq> High)
        \<and> sp_fairness_high_burst p < int (length vs) \<longrightarrow> (\<exists>q \<in> set vs. q \<noteq> High))"
proof (intro conjI impI; elim conjE)
  have m: "0 \<le> mt_consecutive_high m" "0 \<le> mt_consecutive_non_low m" using assms(1) by (auto simp: metrics_ok_def)
  have p: "0 \<le> sp_fairness_low_burst p" "0 \<le> sp_fairness_high_burst p" using assms(2) by (auto simp: policy_ok_def)
  { assume low: "\<forall>(ds, e) \<in> set rounds. \<exists>x \<in> set ds. job_priority x = Low"
      and long: "sp_fairness_low_burst p < int (length vs)"
    have "\<forall>(ds, e) \<in> set rounds. ds \<noteq> []" using low by fastforce
    from served_suffix [OF this assms(3) m] obtain rounds' m' where
      s: "vs @ ws = served p rounds' m'" "set rounds' \<subseteq> set rounds" "0 \<le> mt_consecutive_non_low m'" by blast
    have "\<forall>(ds, e) \<in> set rounds'. \<exists>x \<in> set ds. job_priority x = Low" using low s(2) by blast
    from low_in_time [OF this s(1) [symmetric]] long s(3) p show "Low \<in> set vs" by linarith }
  { assume other: "\<forall>(ds, e) \<in> set rounds. \<exists>x \<in> set ds. job_priority x \<noteq> High"
      and long: "sp_fairness_high_burst p < int (length vs)"
    have "\<forall>(ds, e) \<in> set rounds. ds \<noteq> []" using other by fastforce
    from served_suffix [OF this assms(3) m] obtain rounds' m' where
      s: "vs @ ws = served p rounds' m'" "set rounds' \<subseteq> set rounds" "0 \<le> mt_consecutive_high m'" by blast
    have "\<forall>(ds, e) \<in> set rounds'. \<exists>x \<in> set ds. job_priority x \<noteq> High" using other s(2) by blast
    from non_high_in_time [OF this s(1) [symmetric]] long s(3) p
    have "\<not> set vs \<subseteq> {High}" by linarith
    then show "\<exists>q \<in> set vs. q \<noteq> High" by blast }
qed

text \<open>A selection and three executions in a row on one bus with a low and a high job.\<close>

definition sample_target :: "string \<Rightarrow> priority \<Rightarrow> sched_target" where
  "sample_target i p = \<lparr>tg_target_id = i, tg_bus_id = ''rs485-main'', tg_device_id = ''d'', tg_family = ''xjp60d'',
     tg_unit_id = 1, tg_key = ''channel-1'', tg_channel_id = i, tg_metric = ''temperature.probe'', tg_unit = ''C'',
     tg_priority = p, tg_interval = 30\<rparr>"

definition sample_a :: job where
  "sample_a = \<lparr>jb_target = sample_target ''a'' High, jb_next_deadline = 5, jb_sequence = 1\<rparr>"

definition sample_b :: job where
  "sample_b = \<lparr>jb_target = sample_target ''b'' Low, jb_next_deadline = 4, jb_sequence = 2\<rparr>"

definition sample_jobs :: "(string, job) dict" where
  "sample_jobs = [(''a'', sample_a), (''b'', sample_b)]"

definition sample_sched_policy :: scheduler_policy where
  "sample_sched_policy = \<lparr>sp_high_interval = 5, sp_medium_interval = 10, sp_low_interval = 30,
     sp_startup_spread = 5, sp_failure_threshold = 3, sp_cooldown_initial = 30, sp_cooldown_max = 300,
     sp_fairness_high_burst = 2, sp_fairness_low_burst = 2, sp_deadline_tolerance = fl (1 / 20), sp_bus_load_window = 60\<rparr>"

definition sample_scheduler :: "endpoint \<Rightarrow> scheduler" where
  "sample_scheduler e = \<lparr>sh_policy = sample_sched_policy, sh_attempts = 3, sh_retry_delay = 1, sh_jobs = sample_jobs,
     sh_bus_jobs = [(''rs485-main'', [''b'', ''a''])], sh_endpoints = [((''rs485-main'', 1), e)],
     sh_metrics = [(''rs485-main'', fresh_metrics)], sh_locks = [''rs485-main''], sh_threads = [], sh_workers = [],
     sh_sequence = 2, sh_started = False, sh_revision = 1\<rparr>"

lemma sample_installed: "installed (sample_scheduler e)"
  by (auto simp: installed_def sample_scheduler_def sample_jobs_def sample_a_def sample_b_def sample_target_def bus_targets_def dget_or_def
      job_endpoint_def split: if_splits)

lemma sample_policy_ok: "policy_ok sample_sched_policy"
  by (simp add: policy_ok_def sample_sched_policy_def)

theorem selection_rule_witness:
  "\<exists>j s'. select ''rs485-main'' 10 (sample_scheduler fresh_endpoint) = (Inr (Some j), s') \<and> tg_target_id (jb_target j) = ''a''"
proof -
  let ?s = "sample_scheduler fresh_endpoint"
  have m: "dget (sh_metrics ?s) ''rs485-main'' = Some fresh_metrics" by (simp add: sample_scheduler_def)
  have e: "deadline_of ?s sample_a = 5" "deadline_of ?s sample_b = 4"
    by (simp_all add: deadline_of_def sample_scheduler_def job_endpoint_def sample_target_def fresh_endpoint_def
        sample_a_def sample_b_def)
  have t: "tg_bus_id (jb_target sample_a) = ''rs485-main''" "tg_bus_id (jb_target sample_b) = ''rs485-main''"
    "tg_priority (jb_target sample_a) = High" "tg_priority (jb_target sample_b) = Low"
    by (simp_all add: sample_target_def sample_a_def sample_b_def)
  have jobs: "dget (sh_jobs ?s) i = Some k \<longleftrightarrow> (i = ''a'' \<and> k = sample_a) \<or> (i = ''b'' \<and> k = sample_b)" for i k
    by (auto simp: sample_scheduler_def sample_jobs_def)
  have due: "due_jobs ?s ''rs485-main'' 10 = {(5, sample_a), (4, sample_b)}"
    unfolding due_jobs_def jobs using e t by force
  have ch: "chosen (sh_policy ?s) (due_jobs ?s ''rs485-main'' 10) fresh_metrics (5, sample_a)"
    unfolding due by (simp add: chosen_def job_priority_def job_order_def t sample_scheduler_def
        sample_sched_policy_def fresh_metrics_def)
  from selection_rule [OF sample_installed m surjective_pairing, of 10] due obtain j where
    j: "fst (select ''rs485-main'' 10 ?s) = Inr (Some j)"
      "\<And>x. chosen (sh_policy ?s) (due_jobs ?s ''rs485-main'' 10) fresh_metrics x \<longleftrightarrow> x = (deadline_of ?s j, j)"
    by (metis insert_not_empty)
  from j(2) [THEN iffD1, OF ch] have "j = sample_a" by simp
  with j(1) have "fst (select ''rs485-main'' 10 ?s) = Inr (Some sample_a)" by simp
  then show ?thesis by (intro exI [of _ sample_a] exI [of _ "snd (select ''rs485-main'' 10 ?s)"])
      (simp add: prod_eq_iff sample_target_def sample_a_def)
qed

definition sample_rounds :: "((pyfloat \<times> job) list \<times> measured) list" where
  "sample_rounds = replicate 3 (map (\<lambda>(i, j). (jb_next_deadline j, j)) sample_jobs,
     \<lparr>me_completed = 10, me_duration = 1, me_interval = 30, me_failed = False, me_callback_error = False\<rparr>)"

theorem no_starvation_witness:
  "Low \<in> set (served sample_sched_policy sample_rounds fresh_metrics)"
proof -
  have "\<forall>(ds, e) \<in> set sample_rounds. \<exists>x \<in> set ds. job_priority x = Low" by code_simp
  moreover have "sp_fairness_low_burst sample_sched_policy
      < int (length (served sample_sched_policy sample_rounds fresh_metrics))" by code_simp
  ultimately show ?thesis
    using no_starvation [of fresh_metrics sample_sched_policy sample_rounds "[]" _ "[]"] sample_policy_ok by simp
qed

end
