(* ===== verification/SchedulerCompletion.thy ===== *)
theory SchedulerCompletion
  imports AdaptiveScheduler
begin

text \<open>
  What \<open>_complete\<close> of \<open>services/device-agent/adaptive_scheduler.py\<close> does to the scheduler: it returns, the
  next deadline of the job lies after the completion on the grid of its cadence, the endpoint follows
  \<open>endpoint_after\<close>, a tripped endpoint puts all its jobs off, and nothing else changes. The exception: the
  exponential cooldown is computed before it is bounded, and overflows when an endpoint keeps failing.
\<close>

section \<open>The grid of the cadence\<close>

abbreviation grid :: "pyfloat \<Rightarrow> pyfloat \<Rightarrow> nat \<Rightarrow> pyfloat" where
  "grid interval start n \<equiv> ((\<lambda>x. fadd x interval) ^^ n) start"

lemma skip_overdue_returns:
  assumes "1 \<le> interval" and "completed + interval < 2 ^ 53" and "0 \<le> x"
  shows "\<exists>n. skip_overdue interval completed x k = Some (grid interval x n, k + int n)
    \<and> completed < grid interval x n \<and> (\<forall>m < n. grid interval x m \<le> completed)"
  using assms(3)
proof (induction "nat \<lceil>2 * (completed - x)\<rceil>" arbitrary: x k rule: less_induct)
  case less
  show ?case
  proof (cases "x \<le> completed")
    case False
    then show ?thesis by (intro exI [of _ 0]) (simp add: skip_overdue.simps)
  next
    case True
    have step: "x + 1 / 2 \<le> fadd x interval" using True less.prems assms(1,2) by (intro fadd_progress) simp_all
    then have "0 \<le> fadd x interval" using less.prems by linarith
    moreover have "nat \<lceil>2 * (completed - fadd x interval)\<rceil> < nat \<lceil>2 * (completed - x)\<rceil>" if "fadd x interval \<le> completed"
    proof -
      have "2 * (completed - fadd x interval) + 1 \<le> 2 * (completed - x)" using step by (simp add: field_simps)
      then have "\<lceil>2 * (completed - fadd x interval)\<rceil> + 1 \<le> \<lceil>2 * (completed - x)\<rceil>" by linarith
      moreover have "0 \<le> \<lceil>2 * (completed - fadd x interval)\<rceil>" using that by simp
      ultimately show ?thesis by linarith
    qed
    ultimately obtain n where n: "skip_overdue interval completed (fadd x interval) (k + 1)
          = Some (grid interval (fadd x interval) n, k + 1 + int n)"
        "completed < grid interval (fadd x interval) n" "\<forall>m < n. grid interval (fadd x interval) m \<le> completed"
      using less.hyps [of "fadd x interval" "k + 1"]
      by (cases "fadd x interval \<le> completed") (auto simp: skip_overdue.simps [of _ _ "fadd x interval"] intro: exI [of _ "0::nat"])
    have "grid interval x (Suc m) = grid interval (fadd x interval) m" for m
      using funpow_swap1 [of "\<lambda>x. fadd x interval" m x] by simp
    with n True show ?thesis
      by (intro exI [of _ "Suc n"]) (auto simp: skip_overdue.simps [of _ _ x] less_Suc_eq_0_disj)
  qed
qed

section \<open>The cooldown\<close>

definition cooldown_of :: "scheduler_policy \<Rightarrow> int \<Rightarrow> pyfloat" where
  "cooldown_of p trips = min (sp_cooldown_max p) (fmul (sp_cooldown_initial p) (2 ^ nat (trips - 1)))"

lemma cooldown_seconds_eq:
  "cooldown_seconds p trips = (if trips \<le> 1024 then Inr (cooldown_of p trips)
     else Inl (OverflowError ''int too large to convert to float''))"
proof -
  have "nat (trips - 1) < 1024 \<longleftrightarrow> trips \<le> 1024" by linarith
  then show ?thesis
    using float_of_pow2 [of "nat (trips - 1)"] by (simp add: cooldown_seconds_def cooldown_of_def)
qed

text \<open>The endpoint after an execution.\<close>

definition trips :: "scheduler_policy \<Rightarrow> bool \<Rightarrow> endpoint \<Rightarrow> bool" where
  "trips p failed e \<longleftrightarrow> failed \<and> sp_failure_threshold p \<le> ep_failure_streak e + 1"

definition endpoint_after :: "scheduler_policy \<Rightarrow> pyfloat \<Rightarrow> bool \<Rightarrow> endpoint \<Rightarrow> endpoint" where
  "endpoint_after p completed failed e =
     (if \<not> failed then fresh_endpoint
      else if trips p failed e then
        \<lparr>ep_failure_streak = 0, ep_trip_count = ep_trip_count e + 1,
         ep_cooldown_until = fadd completed (cooldown_of p (ep_trip_count e + 1))\<rparr>
      else e\<lparr>ep_failure_streak := ep_failure_streak e + 1\<rparr>)"

definition put_off :: "pyfloat \<Rightarrow> job \<Rightarrow> job" where
  "put_off t j = j\<lparr>jb_next_deadline := max (jb_next_deadline j) t\<rparr>"

lemma defer_unit_ok:
  assumes "\<forall>i \<in> set is. dget jobs i \<noteq> None"
  shows "\<exists>n' jobs'. defer_unit u t is jobs n = Inr (n', jobs')
    \<and> (\<forall>i. dget jobs' i = map_option (\<lambda>k. if i \<in> set is \<and> tg_unit_id (jb_target k) = u then put_off t k else k) (dget jobs i))"
  using assms
proof (induction "is" arbitrary: jobs n)
  case Nil
  then show ?case by (simp add: option.map_ident)
next
  case (Cons i "is")
  then obtain j where j: "dget jobs i = Some j" by auto
  define jobs1 where "jobs1 = (if tg_unit_id (jb_target j) = u then dset i (put_off t j) jobs else jobs)"
  have "\<forall>k \<in> set is. dget jobs1 k \<noteq> None" using Cons.prems by (auto simp: jobs1_def dget_dset)
  from Cons.IH [OF this, of "n + (if tg_unit_id (jb_target j) = u then 1 else 0)"] obtain n' jobs' where
    run: "defer_unit u t is jobs1 (n + (if tg_unit_id (jb_target j) = u then 1 else 0)) = Inr (n', jobs')"
    and all: "\<And>i. dget jobs' i = map_option (\<lambda>k. if i \<in> set is \<and> tg_unit_id (jb_target k) = u then put_off t k else k) (dget jobs1 i)"
    by blast
  have "defer_unit u t (i # is) jobs n = Inr (n', jobs')"
    using run by (simp add: lookup_def j jobs1_def put_off_def split: if_splits)
  moreover have "dget jobs' k = map_option (\<lambda>l. if k \<in> set (i # is) \<and> tg_unit_id (jb_target l) = u then put_off t l else l) (dget jobs k)" for k
    by (auto simp: all jobs1_def dget_dset j put_off_def)
  ultimately show ?case by blast
qed


section \<open>Completion\<close>

lemma bus_targets_cong [simp]:
  "bus_targets (s\<lparr>sh_endpoints := x\<rparr>) = bus_targets s" "bus_targets (set_metrics b m s) = bus_targets s"
  "bus_targets (s\<lparr>sh_jobs := y\<rparr>) = bus_targets s" "bus_targets (set_endpoint k e s) = bus_targets s"
  "bus_targets (s\<lparr>sh_metrics := z\<rparr>) = bus_targets s"
  by (simp_all add: bus_targets_def set_metrics_def set_endpoint_def fun_eq_iff)

lemma installed_endpoint:
  assumes "installed s" and "dget (sh_jobs s) i = Some k"
  shows "i \<in> set (bus_targets s (fst (job_endpoint j))) \<and> tg_unit_id (jb_target k) = snd (job_endpoint j)
    \<longleftrightarrow> job_endpoint k = job_endpoint j"
proof -
  have "i \<in> set (bus_targets s (tg_bus_id (jb_target k)))" using assms unfolding installed_def by blast
  moreover have "tg_bus_id (jb_target k) = b" if "i \<in> set (bus_targets s b)" for b
    using installed_job [OF assms(1) that] assms(2) by (metis option.inject)
  ultimately show ?thesis unfolding job_endpoint_def prod_eq_iff fst_conv snd_conv by metis
qed

definition after_note :: "job \<Rightarrow> pyfloat \<Rightarrow> bool \<Rightarrow> endpoint \<Rightarrow> scheduler \<Rightarrow> string \<Rightarrow> job option" where
  "after_note j completed failed e s i = map_option
     (\<lambda>k. if trips (sh_policy s) failed e \<and> job_endpoint k = job_endpoint j
       then put_off (ep_cooldown_until (endpoint_after (sh_policy s) completed failed e)) k else k) (dget (sh_jobs s) i)"

lemma note_ok:
  assumes "installed s" and "dget (sh_metrics s) (tg_bus_id (jb_target j)) \<noteq> None"
    and "trips (sh_policy s) failed e \<longrightarrow> ep_trip_count e < 1024"
  shows "\<exists>jobs mets. (if failed then note_failure j completed e s else note_recovery j e s) =
      (Inr (), s\<lparr>sh_endpoints := dset (job_endpoint j) (endpoint_after (sh_policy s) completed failed e) (sh_endpoints s),
        sh_jobs := jobs, sh_metrics := mets\<rparr>)
    \<and> (\<forall>i. dget jobs i = after_note j completed failed e s i)
    \<and> (\<forall>b. dget mets b = None \<longleftrightarrow> dget (sh_metrics s) b = None)"
proof (cases "trips (sh_policy s) failed e")
  case False
  moreover have "e\<lparr>ep_failure_streak := 0, ep_trip_count := 0, ep_cooldown_until := 0\<rparr> = fresh_endpoint"
    by (cases e) (simp add: fresh_endpoint_def)
  ultimately have "(if failed then note_failure j completed e s else note_recovery j e s) =
      (Inr (), set_endpoint (job_endpoint j) (endpoint_after (sh_policy s) completed failed e) s)"
    by (auto simp: trips_def note_failure_def note_recovery_def endpoint_after_def Let_def)
  moreover have "after_note j completed failed e s i = dget (sh_jobs s) i" for i
    using False by (simp add: after_note_def option.map_ident)
  ultimately show ?thesis
    by (intro exI [of _ "sh_jobs s"] exI [of _ "sh_metrics s"]) (simp add: set_endpoint_def)
next
  case True
  let ?k = "job_endpoint j" and ?e = "endpoint_after (sh_policy s) completed failed e"
  let ?s1 = "set_endpoint ?k ?e s"
  let ?t = "ep_cooldown_until ?e"
  obtain a b c where ec: "e = \<lparr>ep_failure_streak = a, ep_trip_count = b, ep_cooldown_until = c\<rparr>" by (cases e)
  have e: "?e = \<lparr>ep_failure_streak = 0, ep_trip_count = b + 1,
      ep_cooldown_until = fadd completed (cooldown_of (sh_policy s) (b + 1))\<rparr>"
    using True by (simp add: endpoint_after_def trips_def ec)
  have "\<forall>i \<in> set (bus_targets s (fst ?k)). dget (sh_jobs s) i \<noteq> None"
    using assms(1) by (auto elim: installed_job)
  from defer_unit_ok [OF this, of "snd ?k" ?t 0] obtain n jobs where
    run: "defer_unit (snd ?k) ?t (bus_targets s (fst ?k)) (sh_jobs s) 0 = Inr (n, jobs)" and
    jobs: "\<And>i. dget jobs i = map_option (\<lambda>k. if i \<in> set (bus_targets s (fst ?k)) \<and> tg_unit_id (jb_target k) = snd ?k
        then put_off ?t k else k) (dget (sh_jobs s) i)" by blast
  obtain m where m: "dget (sh_metrics s) (fst ?k) = Some m" using assms(2) by (auto simp: job_endpoint_def)
  have "failed" "\<not> a + 1 < sp_failure_threshold (sh_policy s)" "b + 1 \<le> 1024"
    using True assms(3) by (auto simp: trips_def ec)
  then have "(if failed then note_failure j completed e s else note_recovery j e s)
      = (Inr (), set_metrics (fst ?k) (observe_cooldown n m) (?s1\<lparr>sh_jobs := jobs\<rparr>))"
    using run m unfolding e unfolding ec
    by (simp add: note_failure_def Let_def cooldown_seconds_eq lookup_def set_endpoint_def bus_targets_def)
  moreover have "dget jobs i = after_note j completed failed e s i" for i
    using installed_endpoint [OF assms(1)] True by (cases "dget (sh_jobs s) i") (auto simp: jobs after_note_def)
  ultimately show ?thesis
    by (intro exI [of _ jobs] exI [of _ "dset (fst ?k) (observe_cooldown n m) (sh_metrics s)"])
      (use m in \<open>auto simp: set_metrics_def set_endpoint_def dget_dset\<close>)
qed


text \<open>The invariant depends only on what the executions keep.\<close>

definition identity_of :: "scheduler \<Rightarrow> string \<Rightarrow> (sched_target \<times> int) option" where
  "identity_of s i = map_option (\<lambda>j. (jb_target j, jb_sequence j)) (dget (sh_jobs s) i)"

lemma installed_alt:
  "installed s \<longleftrightarrow>
     (\<forall>i t n. identity_of s i = Some (t, n) \<longrightarrow> tg_target_id t = i \<and> i \<in> set (bus_targets s (tg_bus_id t))
        \<and> dget (sh_endpoints s) (tg_bus_id t, tg_unit_id t) \<noteq> None)
     \<and> (\<forall>b. \<forall>i \<in> set (bus_targets s b). \<exists>t n. identity_of s i = Some (t, n) \<and> tg_bus_id t = b)
     \<and> (\<forall>b. distinct (bus_targets s b))
     \<and> (\<forall>b \<in> set (dkeys (sh_bus_jobs s)). dget (sh_metrics s) b \<noteq> None \<and> b \<in> set (sh_locks s))
     \<and> (\<forall>i i' t t' n. identity_of s i = Some (t, n) \<longrightarrow> identity_of s i' = Some (t', n) \<longrightarrow> i = i')"
proof -
  have id: "(identity_of s i = Some (t, n)) = (\<exists>j. dget (sh_jobs s) i = Some j \<and> t = jb_target j \<and> n = jb_sequence j)"
    for i t n by (auto simp: identity_of_def)
  show ?thesis unfolding installed_def id job_endpoint_def by (intro arg_cong2 [of _ _ _ _ conj]) blast+
qed

lemma installed_transfer:
  assumes "installed s" and "sh_bus_jobs s' = sh_bus_jobs s" and "sh_locks s' = sh_locks s"
    and "identity_of s' = identity_of s"
    and "\<And>k. dget (sh_endpoints s) k \<noteq> None \<Longrightarrow> dget (sh_endpoints s') k \<noteq> None"
    and "\<And>b. dget (sh_metrics s) b \<noteq> None \<Longrightarrow> dget (sh_metrics s') b \<noteq> None"
  shows "installed s'"
proof -
  have bt: "bus_targets s' = bus_targets s" by (simp add: bus_targets_def assms(2) fun_eq_iff)
  show ?thesis using assms(1,5,6) unfolding installed_alt bt assms(2-4) by simp
qed

lemma identity_cong [simp]:
  "identity_of (set_metrics b m s) = identity_of s" "identity_of (s\<lparr>sh_endpoints := x\<rparr>) = identity_of s"
  by (simp_all add: identity_of_def set_metrics_def fun_eq_iff)

lemma installed_metrics: "installed s \<Longrightarrow> installed (set_metrics b m s)"
  by (rule installed_transfer) (auto simp: set_metrics_def dget_dset identity_of_def fun_eq_iff)

lemma after_note_identity:
  "map_option (\<lambda>j. (jb_target j, jb_sequence j)) (after_note j completed failed e s i) = identity_of s i"
  by (cases "dget (sh_jobs s) i") (auto simp: after_note_def identity_of_def put_off_def)

lemma after_note_metrics [simp]: "after_note j completed failed e (set_metrics b m s) = after_note j completed failed e s"
proof -
  have "sh_policy (set_metrics b m s) = sh_policy s" "sh_jobs (set_metrics b m s) = sh_jobs s"
    by (simp_all add: set_metrics_def)
  then show ?thesis by (intro ext) (simp only: after_note_def)
qed

text \<open>C37: Completing an execution returns, as long as its endpoint has fewer than 1024 trips and was not moved by a
  reconciliation meanwhile, and does what the scheduling promises. The next deadline
  of the job is the first point of the grid of its cadence after the completion, or the end of the cooldown
  if that is later; the endpoint is reset by a success, counts a failure, and trips at the threshold; a
  trip puts every job of the endpoint off to the end of the cooldown; every other job and endpoint keeps
  its state, and the invariant holds.\<close>

theorem completion_outcome:
  assumes "installed s" and "dget (sh_jobs s) (tg_target_id (jb_target j)) = Some cur"
    and "job_endpoint cur = job_endpoint j" and "dget (sh_endpoints s) (job_endpoint j) = Some e"
    and "dget (sh_metrics s) (tg_bus_id (jb_target j)) \<noteq> None"
    and "1 \<le> tg_interval (jb_target j)" and "0 \<le> deadline" and "completed + tg_interval (jb_target j) < 2 ^ 53"
    and "trips (sh_policy s) failed e \<longrightarrow> ep_trip_count e < 1024"
  shows "\<exists>s' n. complete j deadline completed duration failed callback_error s = Some (Inr (), s')
    \<and> completed < grid (tg_interval (jb_target j)) (fadd deadline (tg_interval (jb_target j))) n
    \<and> (\<forall>m < n. grid (tg_interval (jb_target j)) (fadd deadline (tg_interval (jb_target j))) m \<le> completed)
    \<and> dget (sh_jobs s') = (after_note j completed failed e s)(tg_target_id (jb_target j) \<mapsto>
        cur\<lparr>jb_next_deadline := max (grid (tg_interval (jb_target j)) (fadd deadline (tg_interval (jb_target j))) n)
          (ep_cooldown_until (endpoint_after (sh_policy s) completed failed e))\<rparr>)
    \<and> dget (sh_endpoints s') = (dget (sh_endpoints s))(job_endpoint j \<mapsto> endpoint_after (sh_policy s) completed failed e)
    \<and> installed s'"
proof -
  let ?bus = "tg_bus_id (jb_target j)" and ?i = "tg_target_id (jb_target j)" and ?step = "tg_interval (jb_target j)"
  let ?e = "endpoint_after (sh_policy s) completed failed e"
  obtain m where m: "dget (sh_metrics s) ?bus = Some m" using assms(5) by auto
  define s1 where "s1 = set_metrics ?bus (observe_completion (tg_priority (jb_target j)) completed duration
    ?step failed callback_error m) s"
  have s1: "installed s1" "sh_policy s1 = sh_policy s" "dget (sh_metrics s1) ?bus \<noteq> None" "sh_endpoints s1 = sh_endpoints s"
    "after_note j completed failed e s1 = after_note j completed failed e s"
    using installed_metrics [OF assms(1)] by (simp_all add: s1_def) (simp_all add: set_metrics_def dget_dset)
  obtain jobs mets where
    run: "(if failed then note_failure j completed e s1 else note_recovery j e s1)
      = (Inr (), s1\<lparr>sh_endpoints := dset (job_endpoint j) ?e (sh_endpoints s), sh_jobs := jobs, sh_metrics := mets\<rparr>)"
    and jobs: "\<And>i. dget jobs i = after_note j completed failed e s i"
    and mets: "\<And>b. dget mets b = None \<longleftrightarrow> dget (sh_metrics s1) b = None"
    using note_ok [OF s1(1,3), of failed e completed] assms(9) unfolding s1(2,4,5) by blast
  define s2 where "s2 = s1\<lparr>sh_endpoints := dset (job_endpoint j) ?e (sh_endpoints s), sh_jobs := jobs, sh_metrics := mets\<rparr>"
  have "0 \<le> fadd deadline ?step" unfolding fadd_def using assms(6,7) by (intro fl_nonneg) simp
  from skip_overdue_returns [OF assms(6,8) this, of 0] obtain n where
    skip: "skip_overdue ?step completed (fadd deadline ?step) 0 = Some (grid ?step (fadd deadline ?step) n, int n)"
    and grid: "completed < grid ?step (fadd deadline ?step) n" "\<forall>k < n. grid ?step (fadd deadline ?step) k \<le> completed"
    by auto
  let ?next = "max (grid ?step (fadd deadline ?step) n) (ep_cooldown_until ?e)"
  obtain cur2 where cur2: "dget jobs ?i = Some cur2" "cur2\<lparr>jb_next_deadline := x\<rparr> = cur\<lparr>jb_next_deadline := x\<rparr>" for x
    using assms(2) by (auto simp: jobs after_note_def put_off_def split: if_splits)
  obtain m2 where m2: "dget mets ?bus = Some m2" using mets [of ?bus] s1(3) by auto
  define s' where "s' = set_metrics ?bus (observe_skipped (int n) m2)
    (s2\<lparr>sh_jobs := dset ?i (cur2\<lparr>jb_next_deadline := ?next\<rparr>) jobs\<rparr>)"
  have "reschedule j deadline completed s2 = Some (Inr (), s')"
    using m2 by (simp add: reschedule_def skip s'_def s2_def cur2(1) dget_dset)
  then have "complete j deadline completed duration failed callback_error s = Some (Inr (), s')"
    using run unfolding complete_def Let_def assms(2) option.case lookup_def m sum.case s1_def [symmetric] s1(4) assms(4)
    by (simp add: s2_def)
  moreover have result: "dget (sh_jobs s') = (after_note j completed failed e s)(?i \<mapsto> cur\<lparr>jb_next_deadline := ?next\<rparr>)"
    "dget (sh_endpoints s') = (dget (sh_endpoints s))(job_endpoint j \<mapsto> ?e)"
    by (simp_all add: s'_def set_metrics_def s2_def cur2(2) fun_eq_iff dget_dset jobs)
  moreover have "installed s'"
  proof (rule installed_transfer [OF assms(1)])
    show "identity_of s' = identity_of s"
      using assms(2) after_note_identity [of j completed failed e s]
      by (auto simp: identity_of_def result(1) fun_eq_iff)
    show "dget (sh_metrics s') b \<noteq> None" if "dget (sh_metrics s) b \<noteq> None" for b
      using that mets [of b] by (auto simp: s'_def s2_def s1_def set_metrics_def dget_dset split: if_splits)
  qed (simp_all add: s'_def s2_def s1_def set_metrics_def dget_dset)
  ultimately show ?thesis using grid by blast
qed

text \<open>A job whose last failures tripped its endpoint \<open>n\<close> times.\<close>

definition tripped :: "int \<Rightarrow> endpoint" where
  "tripped n = \<lparr>ep_failure_streak = 2, ep_trip_count = n, ep_cooldown_until = 0\<rparr>"

theorem completion_outcome_witness:
  "\<exists>s'. complete sample_a 5 12 2 True True (sample_scheduler (tripped 0)) = Some (Inr (), s')
     \<and> dget (sh_endpoints s') (job_endpoint sample_a)
       = Some (endpoint_after sample_sched_policy 12 True (tripped 0)) \<and> installed s'"
proof -
  let ?s = "sample_scheduler (tripped 0)"
  have "dget (sh_jobs ?s) (tg_target_id (jb_target sample_a)) = Some sample_a"
    "dget (sh_endpoints ?s) (job_endpoint sample_a) = Some (tripped 0)"
    "dget (sh_metrics ?s) (tg_bus_id (jb_target sample_a)) \<noteq> None"
    "1 \<le> tg_interval (jb_target sample_a)" "12 + tg_interval (jb_target sample_a) < 2 ^ 53"
    "trips (sh_policy ?s) True (tripped 0) \<longrightarrow> ep_trip_count (tripped 0) < 1024"
    by (simp_all add: sample_scheduler_def sample_jobs_def sample_a_def sample_target_def job_endpoint_def tripped_def)
  note facts = this
  have "sh_policy ?s = sample_sched_policy" by (simp add: sample_scheduler_def)
  with completion_outcome [OF sample_installed facts(1) refl facts(2,3,4) _ facts(5,6), of 5 2 True]
  show ?thesis by (auto simp: fun_upd_def)
qed

text \<open>The cooldown of an endpoint starts at the configured initial value, grows with every trip in a
  row and never exceeds the maximum, up to the trip 1024; from the trip 1025 on computing it raises.\<close>

theorem cooldown_bounded:
  assumes "policy_ok p" and "is_float (sp_cooldown_initial p)" and "1 \<le> n"
  shows "cooldown_seconds p n = (if n \<le> 1024 then Inr (cooldown_of p n)
      else Inl (OverflowError ''int too large to convert to float''))
    \<and> sp_cooldown_initial p \<le> cooldown_of p n \<and> cooldown_of p n \<le> sp_cooldown_max p
    \<and> cooldown_of p 1 = sp_cooldown_initial p \<and> cooldown_of p n \<le> cooldown_of p (n + 1)"
proof -
  have p: "1 \<le> sp_cooldown_initial p" "sp_cooldown_initial p \<le> sp_cooldown_max p"
    using assms(1) by (simp_all add: policy_ok_def)
  have mono: "cooldown_of p a \<le> cooldown_of p b" if "a \<le> b" for a b
  proof -
    have "(2::rat) ^ nat (a - 1) \<le> 2 ^ nat (b - 1)" using that by (intro power_increasing) simp_all
    then have "sp_cooldown_initial p * 2 ^ nat (a - 1) \<le> sp_cooldown_initial p * 2 ^ nat (b - 1)"
      using p(1) by (intro mult_left_mono) simp_all
    then have "fmul (sp_cooldown_initial p) (2 ^ nat (a - 1)) \<le> fmul (sp_cooldown_initial p) (2 ^ nat (b - 1))"
      unfolding fmul_def by (rule fl_mono)
    then show ?thesis unfolding cooldown_of_def by (rule min.mono [OF order_refl])
  qed
  have one: "cooldown_of p 1 = sp_cooldown_initial p"
    using assms(2) p(2) by (simp add: cooldown_of_def fmul_def is_float_def min_def)
  show ?thesis using one mono [OF assms(3)] mono [of n "n + 1"] by (simp add: cooldown_seconds_eq cooldown_of_def)
qed

theorem cooldown_bounded_witness:
  "cooldown_seconds sample_sched_policy 4 = Inr (cooldown_of sample_sched_policy 4)
    \<and> 30 \<le> cooldown_of sample_sched_policy 4 \<and> cooldown_of sample_sched_policy 4 \<le> 300"
proof -
  have "is_float (sp_cooldown_initial sample_sched_policy)"
    using is_float_of_int [of 30] by (simp add: sample_sched_policy_def)
  from cooldown_bounded [OF sample_policy_ok this, of 4] show ?thesis by (simp add: sample_sched_policy_def)
qed

text \<open>C38: An endpoint that has tripped 1024 times without one success kills the worker of its bus: the
  factor \<open>2 ** (trip_count - 1)\<close> does not fit a float, so the completion of the next failure raises after
  it has counted the trip. The job keeps its old deadline and the streak stays at the threshold, so the
  same happens to every failure from then on, in every worker that the supervisor starts.\<close>

theorem endless_failures_raise:
  assumes "dget (sh_jobs s) (tg_target_id (jb_target j)) = Some cur"
    and "dget (sh_endpoints s) (job_endpoint j) = Some e"
    and "dget (sh_metrics s) (tg_bus_id (jb_target j)) \<noteq> None"
    and "trips (sh_policy s) True e" and "1024 \<le> ep_trip_count e"
  shows "\<exists>s' e'. complete j deadline completed duration True callback_error s
      = Some (Inl (OverflowError ''int too large to convert to float''), s')
    \<and> sh_jobs s' = sh_jobs s \<and> dget (sh_endpoints s') (job_endpoint j) = Some e'
    \<and> trips (sh_policy s') True e' \<and> 1024 \<le> ep_trip_count e' \<and> ep_cooldown_until e' = ep_cooldown_until e"
proof -
  let ?bus = "tg_bus_id (jb_target j)"
  obtain m where m: "dget (sh_metrics s) ?bus = Some m" using assms(3) by auto
  define s1 where "s1 = set_metrics ?bus (observe_completion (tg_priority (jb_target j)) completed duration
    (tg_interval (jb_target j)) True callback_error m) s"
  have s1: "sh_policy s1 = sh_policy s" "sh_endpoints s1 = sh_endpoints s" "sh_jobs s1 = sh_jobs s"
    by (simp_all add: s1_def set_metrics_def)
  let ?e = "e\<lparr>ep_failure_streak := ep_failure_streak e + 1, ep_trip_count := ep_trip_count e + 1\<rparr>"
  have "note_failure j completed e s1
      = (Inl (OverflowError ''int too large to convert to float''), set_endpoint (job_endpoint j) ?e s1)"
    using assms(4,5) by (simp add: note_failure_def Let_def cooldown_seconds_eq trips_def s1(1))
  then have "complete j deadline completed duration True callback_error s
      = Some (Inl (OverflowError ''int too large to convert to float''), set_endpoint (job_endpoint j) ?e s1)"
    unfolding complete_def Let_def assms(1) option.case lookup_def m sum.case s1_def [symmetric] s1(2) assms(2)
    by simp
  moreover have "trips (sh_policy s) True ?e" using assms(4) by (simp add: trips_def)
  ultimately show ?thesis
    using assms(5) by (intro exI [of _ "set_endpoint (job_endpoint j) ?e s1"] exI [of _ ?e])
      (simp add: set_endpoint_def dget_dset s1)
qed

theorem endless_failures_raise_witness:
  "\<exists>s'. complete sample_a 5 12 2 True False (sample_scheduler (tripped 1024))
    = Some (Inl (OverflowError ''int too large to convert to float''), s')"
proof -
  let ?s = "sample_scheduler (tripped 1024)"
  have "dget (sh_jobs ?s) (tg_target_id (jb_target sample_a)) = Some sample_a"
    "dget (sh_endpoints ?s) (job_endpoint sample_a) = Some (tripped 1024)"
    "dget (sh_metrics ?s) (tg_bus_id (jb_target sample_a)) \<noteq> None"
    "trips (sh_policy ?s) True (tripped 1024)" "1024 \<le> ep_trip_count (tripped 1024)"
    by (simp_all add: sample_scheduler_def sample_jobs_def sample_a_def sample_target_def job_endpoint_def
        tripped_def trips_def sample_sched_policy_def)
  from endless_failures_raise [OF this] show ?thesis by blast
qed

end
