(* ===== verification/SchedulerLifecycle.thy ===== *)
theory SchedulerLifecycle
  imports SchedulerCompletion
begin

text \<open>
  The construction and the life of the scheduler of \<open>services/device-agent/adaptive_scheduler.py\<close>: the
  targets of a registry, their first deadlines, the installation of a registry (the constructor, and
  \<open>reconcile\<close> which keeps the jobs and endpoints that stay), the start of the bus workers, and the
  supervision that restarts the dead ones. The invariant \<open>installed\<close> is established here and kept by every
  step of the scheduler.
\<close>

section \<open>The targets of a registry\<close>

definition sched_target_of ::
  "scheduler_policy \<Rightarrow> registry_document \<Rightarrow> registry_target \<Rightarrow> sched_target result" where
  "sched_target_of p doc t = ebind (the_device doc (rt_device_id t)) (\<lambda>d.
     ebind (effective_cadence_for_device doc (dv_device_id d)) (\<lambda>(interval, source).
       Inr \<lparr>tg_target_id = rt_target_id t, tg_bus_id = dv_bus_id d, tg_device_id = dv_device_id d,
            tg_family = dv_family d, tg_unit_id = rd_unit_id d, tg_key = rt_key t,
            tg_channel_id = rt_channel_id t, tg_metric = rt_metric t, tg_unit = rt_unit t,
            tg_priority = priority_for t, tg_interval = interval\<rparr>))"

definition target_order :: "sched_target \<Rightarrow> string \<times> priority \<times> string" where
  "target_order t = (tg_bus_id t, tg_priority t, tg_target_id t)"

definition specs :: "scheduler_policy \<Rightarrow> registry_document \<Rightarrow> sched_target list result" where
  "specs p doc = ebind (eligible_targets doc None) (\<lambda>ts.
     ebind (emap (sched_target_of p doc) ts) (\<lambda>ss. Inr (sort_key target_order ss)))"

section \<open>First deadlines\<close>

definition group_targets :: "sched_target list \<Rightarrow> (string \<times> priority, sched_target list) dict" where
  "group_targets ts = foldl (\<lambda>g t. let k = (tg_bus_id t, tg_priority t) in dset k (dget_or g k [] @ [t]) g) [] ts"

text \<open>The delay of the \<open>index\<close>-th target of a group of \<open>n\<close>; \<open>elapsed\<close> gives the seconds since the last
  attempt, or \<open>None\<close> when its timestamp does not parse.\<close>

definition first_delay ::
  "scheduler_policy \<Rightarrow> (string \<Rightarrow> pyfloat option) \<Rightarrow> (string, string) dict \<Rightarrow> nat \<Rightarrow> nat \<Rightarrow> sched_target \<Rightarrow> pyfloat" where
  "first_delay p elapsed attempts n index t =
     (let spread = min (tg_interval t) (sp_startup_spread p);
          delay = max (fl (1 / 20)) (fdiv (fmul spread (of_nat (index + 1))) (of_nat (n + 1)))
      in case dget attempts (tg_target_id t) of
           None \<Rightarrow> delay
         | Some attempted \<Rightarrow>
             if attempted = [] then delay
             else (case elapsed attempted of
                 None \<Rightarrow> delay
               | Some seconds \<Rightarrow>
                   let age = max 0 seconds in
                   if age < tg_interval t then max (fl (1 / 20)) (fsub (tg_interval t) age) else delay))"

definition group_deadlines ::
  "scheduler_policy \<Rightarrow> (string \<Rightarrow> pyfloat option) \<Rightarrow> (string, string) dict \<Rightarrow> pyfloat
    \<Rightarrow> sched_target list \<Rightarrow> (string, pyfloat) dict \<Rightarrow> (string, pyfloat) dict" where
  "group_deadlines p elapsed attempts now ts d =
     foldl (\<lambda>d (i, t). dset (tg_target_id t) (fadd now (first_delay p elapsed attempts (length ts) i t)) d)
       d (enumerate 0 ts)"

definition initial_deadlines ::
  "'w sched_ops \<Rightarrow> scheduler_policy \<Rightarrow> sched_target list \<Rightarrow> pyfloat \<Rightarrow> 'w \<Rightarrow> (string, pyfloat) dict result \<times> 'w" where
  "initial_deadlines ops p ts now w =
     (case so_last_attempts ops w of
        (Inl e, w1) \<Rightarrow> (Inl e, w1)
      | (Inr attempts, w1) \<Rightarrow> (case so_wall ops w1 of (wall, w2) \<Rightarrow>
          (Inr (foldl (\<lambda>d (k, g). group_deadlines p (\<lambda>x. so_elapsed ops x wall) attempts now g d) []
             (group_targets ts)), w2)))"

section \<open>Installation\<close>

definition set_default :: "'k \<Rightarrow> 'v \<Rightarrow> ('k, 'v) dict \<Rightarrow> ('k, 'v) dict" where
  "set_default k v d = (if dget d k = None then dset k v d else d)"

text \<open>The job of a target with the age counter after it: a new job, or the old one with its deadline unless
  the cadence has changed.\<close>

definition job_for ::
  "(string, pyfloat) dict \<Rightarrow> (string, job) dict \<Rightarrow> int \<Rightarrow> sched_target \<Rightarrow> (job \<times> int) result" where
  "job_for deadlines old_jobs n t =
     (case dget old_jobs (tg_target_id t) of
        None \<Rightarrow> ebind (lookup py_repr deadlines (tg_target_id t)) (\<lambda>d.
          Inr (\<lparr>jb_target = t, jb_next_deadline = d, jb_sequence = n + 1\<rparr>, n + 1))
      | Some j \<Rightarrow>
          ebind (if tg_interval (jb_target j) \<noteq> tg_interval t then lookup py_repr deadlines (tg_target_id t)
                 else Inr (jb_next_deadline j)) (\<lambda>d.
            Inr (\<lparr>jb_target = t, jb_next_deadline = d, jb_sequence = jb_sequence j\<rparr>, n)))"

definition place_job :: "(string \<times> int, endpoint) dict \<Rightarrow> job \<Rightarrow> int \<Rightarrow> scheduler \<Rightarrow> scheduler" where
  "place_job old_endpoints j n s =
     (let i = tg_target_id (jb_target j); bus = tg_bus_id (jb_target j); k = job_endpoint j in
      s\<lparr>sh_sequence := n, sh_jobs := dset i j (sh_jobs s),
        sh_bus_jobs := dset bus (List.insert i (bus_targets s bus)) (sh_bus_jobs s),
        sh_locks := List.insert bus (sh_locks s),
        sh_endpoints := dset k (dget_or old_endpoints k fresh_endpoint) (sh_endpoints s),
        sh_metrics := set_default bus fresh_metrics (sh_metrics s)\<rparr>)"

text \<open>One round of the loop over the targets, on the scheduler with the new tables. Its \<open>KeyError\<close> never happens:
  \<open>initial_deadlines\<close> has an entry for every target, so the loop of \<open>install\<close> always ends (\<open>install_cases\<close>).\<close>

definition install_target ::
  "(string, pyfloat) dict \<Rightarrow> (string, job) dict \<Rightarrow> (string \<times> int, endpoint) dict \<Rightarrow> sched_target
    \<Rightarrow> scheduler \<Rightarrow> scheduler result" where
  "install_target deadlines old_jobs old_endpoints t s =
     ebind (job_for deadlines old_jobs (sh_sequence s) t) (\<lambda>(j, n). Inr (place_job old_endpoints j n s))"

definition install ::
  "'w sched_ops \<Rightarrow> registry_document \<Rightarrow> bool \<Rightarrow> scheduler \<Rightarrow> 'w \<Rightarrow> unit result \<times> scheduler \<times> 'w" where
  "install ops doc preserve s w =
     (case so_clock ops w of (now, w1) \<Rightarrow>
      (case specs (sh_policy s) doc of
         Inl e \<Rightarrow> (Inl e, s, w1)
       | Inr ts \<Rightarrow>
          (case initial_deadlines ops (sh_policy s) ts now w1 of
             (Inl e, w2) \<Rightarrow> (Inl e, s, w2)
           | (Inr deadlines, w2) \<Rightarrow>
               (case each_in (install_target deadlines (if preserve then sh_jobs s else [])
                        (if preserve then sh_endpoints s else []))
                      ts (s\<lparr>sh_jobs := [], sh_bus_jobs := [], sh_endpoints := []\<rparr>) of
                  Inl e \<Rightarrow> (Inl e, s, w2)
                | Inr s1 \<Rightarrow> (Inr (), s1\<lparr>sh_revision := rg_revision doc\<rparr>, w2)))))"

text \<open>The constructor.\<close>

definition new_scheduler ::
  "'w sched_ops \<Rightarrow> scheduler_policy \<Rightarrow> int \<Rightarrow> pyfloat \<Rightarrow> string list \<Rightarrow> registry_document \<Rightarrow> 'w \<Rightarrow> scheduler result \<times> 'w" where
  "new_scheduler ops p attempts delay locks doc w =
     (if attempts \<le> 0 then (Inl (ValueError ''latest_persistence_retry_attempts must be positive''), w)
      else if delay < 0 then
        (Inl (ValueError ''latest_persistence_retry_delay_seconds must be non-negative''), w)
      else
        (case install ops doc False
            \<lparr>sh_policy = p, sh_attempts = attempts, sh_retry_delay = delay, sh_jobs = [], sh_bus_jobs = [],
             sh_endpoints = [], sh_metrics = [], sh_locks = locks, sh_threads = [], sh_workers = [],
             sh_sequence = 0, sh_started = False, sh_revision = rg_revision doc\<rparr> w of
           (Inl e, s, w1) \<Rightarrow> (Inl e, w1)
         | (Inr _, s, w1) \<Rightarrow> (Inr s, w1)))"

section \<open>Workers\<close>

definition alive :: "scheduler \<Rightarrow> string \<Rightarrow> bool" where
  "alive s bus = dget_or (sh_threads s) bus False"

definition start_bus :: "'w sched_ops \<Rightarrow> bool \<Rightarrow> string \<Rightarrow> scheduler \<times> 'w \<Rightarrow> bool \<times> scheduler \<times> 'w" where
  "start_bus ops recovery bus = (\<lambda>(s, w).
     (if alive s bus then (False, s, w)
      else let s1 = s\<lparr>sh_threads := dset bus True (dpop bus (sh_threads s))\<rparr> in
        if recovery then (case so_wall ops w of (stamp, w1) \<Rightarrow>
          (True, update_log bus (\<lambda>l. l\<lparr>wl_restarts := wl_restarts l + 1, wl_last_recovered_at := Some stamp\<rparr>) s1, w1))
        else (True, s1, w)))"

definition start_all :: "'w sched_ops \<Rightarrow> string list \<Rightarrow> scheduler \<times> 'w \<Rightarrow> scheduler \<times> 'w" where
  "start_all ops buses sw = fold (\<lambda>b sw. snd (start_bus ops False b sw)) buses sw"

definition reconcile :: "'w sched_ops \<Rightarrow> registry_document \<Rightarrow> scheduler \<Rightarrow> 'w \<Rightarrow> unit result \<times> scheduler \<times> 'w" where
  "reconcile ops doc s w =
     (case install ops doc True s w of
        (Inl e, s1, w1) \<Rightarrow> (Inl e, s1, w1)
      | (Inr _, s1, w1) \<Rightarrow>
          (Inr (), if sh_started s1
             then start_all ops (filter (\<lambda>b. b \<notin> set (dkeys (sh_bus_jobs s))) (dkeys (sh_bus_jobs s1))) (s1, w1)
             else (s1, w1)))"

definition start_workers :: "'w sched_ops \<Rightarrow> scheduler \<Rightarrow> 'w \<Rightarrow> scheduler \<times> 'w" where
  "start_workers ops s w =
     (if sh_started s then (s, w)
      else start_all ops (sort (dkeys (sh_bus_jobs s))) (s\<lparr>sh_started := True\<rparr>, w))"

text \<open>The jobs of a dead bus that are overdue are moved on, without a burst of missed executions. When one cannot be
  moved, those before it stay moved.\<close>

definition advance_target :: "string \<Rightarrow> pyfloat \<Rightarrow> string \<Rightarrow> scheduler \<Rightarrow> scheduler result" where
  "advance_target bus now i s =
     (case dget (sh_jobs s) i of
        None \<Rightarrow> Inr s
      | Some j \<Rightarrow>
          ebind (lookup endpoint_key_text (sh_endpoints s) (job_endpoint j)) (\<lambda>e.
            if now < ep_cooldown_until e \<or> now < jb_next_deadline j then Inr s
            else
              let interval = tg_interval (jb_target j);
                  skipped = ffloordiv (fsub now (jb_next_deadline j)) interval + 1
              in ebind (float_of_int skipped) (\<lambda>factor.
                 ebind (lookup py_repr (sh_metrics s) bus) (\<lambda>m.
                   Inr (set_metrics bus (observe_skipped skipped m)
                     (s\<lparr>sh_jobs := dset i (j\<lparr>jb_next_deadline :=
                        fadd (jb_next_deadline j) (fmul factor interval)\<rparr>) (sh_jobs s)\<rparr>))))))"

definition advance_overdue :: "string \<Rightarrow> pyfloat \<Rightarrow> scheduler \<Rightarrow> unit result \<times> scheduler" where
  "advance_overdue bus now s = (case lookup py_repr (sh_metrics s) bus of
       Inl e \<Rightarrow> (Inl e, s)
     | Inr m \<Rightarrow> each_keep (advance_target bus now) (bus_targets s bus) s)"

fun supervise_buses :: "'w sched_ops \<Rightarrow> pyfloat \<Rightarrow> string list \<Rightarrow> int \<Rightarrow> scheduler \<times> 'w \<Rightarrow> int result \<times> scheduler \<times> 'w" where
  "supervise_buses ops now [] n sw = (Inr n, sw)"
| "supervise_buses ops now (b # bs) n sw =
     (if bus_targets (fst sw) b = [] \<or> alive (fst sw) b then supervise_buses ops now bs n sw
      else (case advance_overdue b now (fst sw) of
          (Inl e, s1) \<Rightarrow> (Inl e, s1, snd sw)
        | (Inr _, s1) \<Rightarrow> (case start_bus ops True b (s1, snd sw) of (started, sw2) \<Rightarrow>
            supervise_buses ops now bs (if started then n + 1 else n) sw2)))"

definition supervise_workers :: "'w sched_ops \<Rightarrow> scheduler \<Rightarrow> 'w \<Rightarrow> int result \<times> scheduler \<times> 'w" where
  "supervise_workers ops s w =
     (if \<not> sh_started s \<or> so_stopped ops w then (Inr 0, s, w)
      else (case so_clock ops w of (now, w1) \<Rightarrow>
        supervise_buses ops now (sort (dkeys (sh_bus_jobs s))) 0 (s, w1)))"

section \<open>Health\<close>

definition degraded_endpoints :: "pyfloat \<Rightarrow> scheduler \<Rightarrow> nat" where
  "degraded_endpoints now s =
     length (filter (\<lambda>(k, e). 0 < ep_failure_streak e \<or> now < ep_cooldown_until e) (sh_endpoints s))"

definition inactive_workers :: "scheduler \<Rightarrow> nat" where
  "inactive_workers s = length (filter (\<lambda>(b, ts). ts \<noteq> [] \<and> \<not> alive s b) (sh_bus_jobs s))"

definition current_error :: "pyfloat \<Rightarrow> scheduler \<Rightarrow> string option" where
  "current_error now s =
     (if inactive_workers s \<noteq> 0 then
        Some (''adaptive acquisition worker unavailable: '' @ dec (int (inactive_workers s)) @ '' bus worker(s) inactive'')
      else if degraded_endpoints now s = 0 then None
      else Some (''adaptive acquisition degraded: '' @ dec (int (degraded_endpoints now s))
        @ '' endpoint(s) failing or in cooldown''))"

section \<open>Installation establishes the invariant\<close>

lemma set_default_iff: "dget (set_default k v d) k' = None \<longleftrightarrow> dget d k' = None \<and> k' \<noteq> k"
  by (auto simp: set_default_def dget_dset split: option.split)

text \<open>The job a target gets: new, or with the age of its old job, and with the old deadline unless the
  cadence has changed.\<close>

definition job_kept :: "(string, pyfloat) dict \<Rightarrow> (string, job) dict \<Rightarrow> sched_target \<Rightarrow> job \<Rightarrow> bool" where
  "job_kept deadlines old_jobs t j \<longleftrightarrow> jb_target j = t \<and>
     (case dget old_jobs (tg_target_id t) of
        None \<Rightarrow> dget deadlines (tg_target_id t) = Some (jb_next_deadline j)
      | Some k \<Rightarrow> jb_sequence j = jb_sequence k
          \<and> Some (jb_next_deadline j) = (if tg_interval (jb_target k) = tg_interval t then Some (jb_next_deadline k)
              else dget deadlines (tg_target_id t)))"

definition age_ok :: "(string, job) dict \<Rightarrow> int \<Rightarrow> int \<Rightarrow> string \<Rightarrow> job \<Rightarrow> bool" where
  "age_ok old n q i j \<longleftrightarrow> (case dget old i of None \<Rightarrow> n < jb_sequence j \<and> jb_sequence j \<le> q
      | Some k \<Rightarrow> jb_sequence j = jb_sequence k)"

definition aged :: "(string, job) dict \<Rightarrow> int \<Rightarrow> scheduler \<Rightarrow> bool" where
  "aged old n s \<longleftrightarrow> n \<le> sh_sequence s
     \<and> (\<forall>i j. dget (sh_jobs s) i = Some j \<longrightarrow> age_ok old n (sh_sequence s) i j)"

definition old_ages :: "(string, job) dict \<Rightarrow> int \<Rightarrow> bool" where
  "old_ages old n \<longleftrightarrow> (\<forall>i k. dget old i = Some k \<longrightarrow> jb_sequence k \<le> n)
     \<and> (\<forall>i i' k k'. dget old i = Some k \<longrightarrow> dget old i' = Some k' \<longrightarrow> jb_sequence k = jb_sequence k' \<longrightarrow> i = i')"

lemma job_for_Inr:
  assumes "job_for deadlines old n t = Inr (j, n')"
  shows "job_kept deadlines old t j" "n' = (if dget old (tg_target_id t) = None then n + 1 else n)"
    "dget old (tg_target_id t) = None \<Longrightarrow> jb_sequence j = n + 1"
  using assms by (auto simp: job_for_def ebind_eq_Inr lookup_iff job_kept_def split: option.splits if_splits)

lemma place_installed:
  assumes inst: "installed s" and fresh: "dget (sh_jobs s) (tg_target_id (jb_target j)) = None"
    and age: "\<And>i k. dget (sh_jobs s) i = Some k \<Longrightarrow> jb_sequence k \<noteq> jb_sequence j"
  shows "installed (place_job old_ends j n s)"
proof -
  let ?s = "place_job old_ends j n s"
  let ?i = "tg_target_id (jb_target j)" and ?b = "tg_bus_id (jb_target j)"
  have bt: "bus_targets ?s b = (if b = ?b then List.insert ?i (bus_targets s ?b) else bus_targets s b)" for b
    by (simp add: place_job_def Let_def bus_targets_def dget_or_dset)
  have jobs: "dget (sh_jobs ?s) i = (if i = ?i then Some j else dget (sh_jobs s) i)" for i
    by (simp add: place_job_def Let_def dget_dset)
  have ends: "dget (sh_endpoints ?s) k \<noteq> None \<longleftrightarrow> k = job_endpoint j \<or> dget (sh_endpoints s) k \<noteq> None" for k
    by (auto simp: place_job_def Let_def dget_dset)
  have notin: "?i \<notin> set (bus_targets s b)" for b
    using installed_job [OF inst] fresh by (metis option.distinct(1))
  note s = inst [unfolded installed_def]
  have "tg_target_id (jb_target k) = i \<and> i \<in> set (bus_targets ?s (tg_bus_id (jb_target k)))
      \<and> dget (sh_endpoints ?s) (job_endpoint k) \<noteq> None" if "dget (sh_jobs ?s) i = Some k" for i k
  proof (cases "i = ?i")
    case True
    with that have "k = j" by (simp add: jobs)
    with True show ?thesis unfolding bt ends by simp
  next
    case False
    with that have "dget (sh_jobs s) i = Some k" by (simp add: jobs)
    with s have "tg_target_id (jb_target k) = i \<and> i \<in> set (bus_targets s (tg_bus_id (jb_target k)))
      \<and> dget (sh_endpoints s) (job_endpoint k) \<noteq> None" by blast
    then show ?thesis unfolding bt ends by auto
  qed
  moreover have "\<exists>k. dget (sh_jobs ?s) i = Some k \<and> tg_bus_id (jb_target k) = b" if "i \<in> set (bus_targets ?s b)" for i b
  proof (cases "i = ?i")
    case True
    with that notin [of b] have "b = ?b" by (auto simp: bt split: if_splits)
    with True show ?thesis by (simp add: jobs)
  next
    case False
    with that have "i \<in> set (bus_targets s b)" by (auto simp: bt split: if_splits)
    with s False show ?thesis by (auto simp: jobs)
  qed
  moreover have "distinct (bus_targets ?s b)" for b using s by (simp add: bt)
  moreover have "dget (sh_metrics ?s) b \<noteq> None \<and> b \<in> set (sh_locks ?s)" if "b \<in> set (dkeys (sh_bus_jobs ?s))" for b
  proof -
    have "sh_bus_jobs ?s = dset ?b (List.insert ?i (bus_targets s ?b)) (sh_bus_jobs s)" by (simp add: place_job_def Let_def)
    with that have "b = ?b \<or> b \<in> set (dkeys (sh_bus_jobs s))" by (simp only: dkeys_dset insert_iff)
    moreover have "dget (sh_metrics s) b \<noteq> None \<and> b \<in> set (sh_locks s)" if "b \<in> set (dkeys (sh_bus_jobs s))"
      using s that by blast
    moreover have "dget (sh_metrics ?s) b = None \<longleftrightarrow> dget (sh_metrics s) b = None \<and> b \<noteq> ?b"
      "b \<in> set (sh_locks ?s) \<longleftrightarrow> b = ?b \<or> b \<in> set (sh_locks s)"
      by (simp_all add: place_job_def Let_def set_default_iff)
    ultimately show ?thesis by metis
  qed
  moreover have "i = i'" if "dget (sh_jobs ?s) i = Some k" "dget (sh_jobs ?s) i' = Some k'" "jb_sequence k = jb_sequence k'" for i i' k k'
    using that age [of i k] age [of i' k'] s by (simp add: jobs split: if_splits)
  ultimately show ?thesis unfolding installed_def by blast
qed

lemma install_target_ok:
  assumes "install_target deadlines old old_ends t s = Inr s1"
    and "dget (sh_jobs s) (tg_target_id t) = None" and "old_ages old n" and "installed s" and "aged old n s"
  obtains j where "installed s1" "aged old n s1" "job_kept deadlines old t j"
    "sh_jobs s1 = dset (tg_target_id t) j (sh_jobs s)"
    "sh_endpoints s1 = dset (job_endpoint j) (dget_or old_ends (job_endpoint j) fresh_endpoint) (sh_endpoints s)"
proof -
  from assms(1) obtain j n' where j: "job_for deadlines old (sh_sequence s) t = Inr (j, n')" "s1 = place_job old_ends j n' s"
    by (auto simp: install_target_def ebind_eq_Inr)
  note jf = job_for_Inr [OF j(1)]
  have t: "jb_target j = t" using jf(1) by (simp add: job_kept_def)
  have age: "jb_sequence k \<noteq> jb_sequence j" if k: "dget (sh_jobs s) i = Some k" for i k
  proof
    assume same: "jb_sequence k = jb_sequence j"
    have i: "i \<noteq> tg_target_id t" using k assms(2) by auto
    have k': "age_ok old n (sh_sequence s) i k" using assms(5) k by (auto simp: aged_def)
    show False
    proof (cases "dget old (tg_target_id t)")
      case None
      have n: "n \<le> sh_sequence s" using assms(5) by (simp add: aged_def)
      have "\<forall>kj. dget old i = Some kj \<longrightarrow> jb_sequence kj \<le> n" using assms(3) by (simp add: old_ages_def)
      with None jf(3) same k' n show False by (auto simp: age_ok_def split: option.splits)
    next
      case (Some kj)
      then have "jb_sequence j = jb_sequence kj" using jf(1) by (simp add: job_kept_def)
      with same i k' assms(3) Some show False
        by (cases "dget old i") (fastforce simp: age_ok_def old_ages_def)+
    qed
  qed
  have "installed s1" unfolding j(2) by (rule place_installed [OF assms(4)]) (use assms(2) age t in auto)
  moreover have "aged old n s1"
    unfolding aged_def
  proof (intro conjI allI impI)
    have n': "sh_sequence s \<le> n'" "n \<le> sh_sequence s" using jf(2) assms(5) by (auto simp: aged_def)
    have q: "sh_sequence s1 = n'" by (simp add: j(2) place_job_def Let_def)
    show "n \<le> sh_sequence s1" using n' q by simp
    fix i k assume k: "dget (sh_jobs s1) i = Some k"
    show "age_ok old n (sh_sequence s1) i k"
    proof (cases "i = tg_target_id t")
      case True
      with k have "k = j" by (simp add: j(2) place_job_def Let_def t dget_dset)
      with True jf n' show ?thesis by (cases "dget old i") (auto simp: age_ok_def q job_kept_def)
    next
      case False
      with k have "dget (sh_jobs s) i = Some k" by (simp add: j(2) place_job_def Let_def t dget_dset)
      with assms(5) have "age_ok old n (sh_sequence s) i k" by (simp add: aged_def)
      with n' show ?thesis by (auto simp: age_ok_def q split: option.splits)
    qed
  qed
  ultimately show thesis by (rule that [OF _ _ jf(1)]) (simp_all add: j(2) place_job_def Let_def t)
qed


lemma install_loop:
  assumes "each_in (install_target deadlines old old_ends) ts s = Inr s'"
    and "distinct (map tg_target_id ts)" and "\<forall>t \<in> set ts. dget (sh_jobs s) (tg_target_id t) = None"
    and "old_ages old n" and "installed s" and "aged old n s"
  shows "installed s' \<and> aged old n s'
    \<and> (\<forall>i. i \<notin> tg_target_id ` set ts \<longrightarrow> dget (sh_jobs s') i = dget (sh_jobs s) i)
    \<and> (\<forall>t \<in> set ts. \<exists>j. dget (sh_jobs s') (tg_target_id t) = Some j \<and> job_kept deadlines old t j)
    \<and> (\<forall>k. dget (sh_endpoints s') k = (if k \<in> (\<lambda>t. (tg_bus_id t, tg_unit_id t)) ` set ts
        then Some (dget_or old_ends k fresh_endpoint) else dget (sh_endpoints s) k))"
  using assms
proof (induction ts arbitrary: s)
  case (Cons t ts)
  from Cons.prems(1) obtain s1 where run: "install_target deadlines old old_ends t s = Inr s1"
      "each_in (install_target deadlines old old_ends) ts s1 = Inr s'" by (auto simp: ebind_eq_Inr)
  have "dget (sh_jobs s) (tg_target_id t) = None" using Cons.prems(3) by simp
  from install_target_ok [OF run(1) this Cons.prems(4-6)] obtain j where
    j: "installed s1" "aged old n s1" "job_kept deadlines old t j" "sh_jobs s1 = dset (tg_target_id t) j (sh_jobs s)"
      "sh_endpoints s1 = dset (job_endpoint j) (dget_or old_ends (job_endpoint j) fresh_endpoint) (sh_endpoints s)" .
  have "distinct (map tg_target_id ts)" and notin: "tg_target_id t \<notin> tg_target_id ` set ts" using Cons.prems(2) by simp_all
  moreover have "\<forall>u \<in> set ts. dget (sh_jobs s1) (tg_target_id u) = None"
    using Cons.prems(3) notin by (auto simp: j(4) dget_dset intro: rev_image_eqI)
  ultimately have IH: "installed s' \<and> aged old n s'
    \<and> (\<forall>i. i \<notin> tg_target_id ` set ts \<longrightarrow> dget (sh_jobs s') i = dget (sh_jobs s1) i)
    \<and> (\<forall>t \<in> set ts. \<exists>j. dget (sh_jobs s') (tg_target_id t) = Some j \<and> job_kept deadlines old t j)
    \<and> (\<forall>k. dget (sh_endpoints s') k = (if k \<in> (\<lambda>t. (tg_bus_id t, tg_unit_id t)) ` set ts
        then Some (dget_or old_ends k fresh_endpoint) else dget (sh_endpoints s1) k))"
    using Cons.IH [OF run(2) _ _ Cons.prems(4) j(1,2)] by blast
  have jt: "job_endpoint j = (tg_bus_id t, tg_unit_id t)" using j(3) by (simp add: job_kept_def job_endpoint_def)
  have "dget (sh_jobs s') (tg_target_id t) = Some j" using IH notin by (simp add: j(4) dget_dset)
  with IH j(3) jt show ?case by (auto simp: j(4,5) dget_dset)
qed simp

text \<open>The scheduler's lasting state: installed, with every age counted.\<close>

definition scheduler_ok :: "scheduler \<Rightarrow> bool" where
  "scheduler_ok s \<longleftrightarrow> installed s \<and> (\<forall>i j. dget (sh_jobs s) i = Some j \<longrightarrow> jb_sequence j \<le> sh_sequence s)"

lemma scheduler_ok_ages: "scheduler_ok s \<Longrightarrow> old_ages (sh_jobs s) (sh_sequence s)"
  by (auto simp: scheduler_ok_def old_ages_def installed_def)

lemma sched_target_of_Inr: "sched_target_of p doc t = Inr u \<Longrightarrow> tg_target_id u = rt_target_id t"
  by (auto simp: sched_target_of_def ebind_eq_Inr)

lemma emap_Inr_rel: "emap f xs = Inr ys \<Longrightarrow> list_all2 (\<lambda>x y. f x = Inr y) xs ys"
  by (induction xs arbitrary: ys) (auto simp: ebind_eq_Inr)

lemma emap_Inr_set: "emap f xs = Inr ys \<Longrightarrow> \<forall>y \<in> set ys. \<exists>x \<in> set xs. f x = Inr y"
proof (induction xs arbitrary: ys)
  case (Cons x xs)
  from Cons.prems obtain z zs where z: "f x = Inr z" "emap f xs = Inr zs" "ys = z # zs" by (auto simp: ebind_eq_Inr)
  with Cons.IH show ?case by auto
qed simp

lemma emap_total: "(\<And>x. x \<in> set xs \<Longrightarrow> \<exists>y. f x = Inr y) \<Longrightarrow> \<exists>ys. emap f xs = Inr ys"
proof (induction xs)
  case (Cons x xs)
  then obtain y ys where "f x = Inr y" "emap f xs = Inr ys" by (meson list.set_intros)
  then show ?case by simp
qed simp

lemma sched_target_of_ok:
  assumes "registry_ok doc" and "t \<in> set (rg_targets doc)"
  shows "\<exists>u. sched_target_of p doc t = Inr u \<and> 10 \<le> tg_interval u \<and> tg_interval u \<le> 3600"
proof -
  obtain d where d: "device_of (rg_devices doc) (rt_device_id t) = Some d"
    using assms by (rule registry_ok_target)
  then have mem: "d \<in> set (rg_devices doc)" "dv_device_id d = rt_device_id t"
    by (simp_all add: device_of_iff registry_ok_devices [OF assms(1)])
  from assms(1) obtain q where "validate_policy (rg_cadence doc) (map rb_bus_id (rg_buses doc)) (rg_devices doc) = Inr q"
    by (auto simp: registry_ok_def isOk_iff)
  with validate_policy_Inr(1) [OF this] effective_interval_bounded [OF this mem(1)] obtain x src where
    "effective_interval (rg_cadence doc) (dv_device_id d) (dv_key d) = Inr (x, src)" "10 \<le> x" "x \<le> 3600" by auto
  then show ?thesis using d mem(2) by (simp add: sched_target_of_def the_device_def effective_cadence_for_device_def)
qed

lemma specs_ok:
  assumes "registry_ok doc"
  shows "\<exists>ts. specs p doc = Inr ts"
proof -
  have "\<exists>us. emap (sched_target_of p doc) (filter (polled doc) (rg_targets doc)) = Inr us"
    by (rule emap_total) (use sched_target_of_ok [OF assms] in \<open>fastforce\<close>)
  then show ?thesis by (auto simp: specs_def eligible_targets_eq [OF assms])
qed

lemma specs_Inr:
  assumes "registry_ok doc" and "specs p doc = Inr ts"
  shows "distinct (map tg_target_id ts)" "tg_target_id ` set ts = rt_target_id ` set (filter (polled doc) (rg_targets doc))"
    "\<forall>u \<in> set ts. \<exists>t \<in> set (rg_targets doc). polled doc t \<and> sched_target_of p doc t = Inr u"
proof -
  let ?ts = "filter (polled doc) (rg_targets doc)"
  from assms(2) obtain us where us: "emap (sched_target_of p doc) ?ts = Inr us" "ts = sort_key target_order us"
    by (auto simp: specs_def ebind_eq_Inr eligible_targets_eq [OF assms(1)])
  have rel: "list_all2 (\<lambda>t u. sched_target_of p doc t = Inr u) ?ts us" by (rule emap_Inr_rel [OF us(1)])
  then have "map tg_target_id us = map rt_target_id ?ts"
    by (induction rule: list_all2_induct) (auto dest: sched_target_of_Inr)
  moreover have "distinct (map rt_target_id ?ts)"
    using assms(1) by (auto simp: registry_ok_def distinct_map intro: inj_on_subset)
  ultimately have "distinct (map tg_target_id us)" "tg_target_id ` set us = rt_target_id ` set ?ts"
    by (metis, metis list.set_map)
  moreover have "distinct (map tg_target_id ts) = distinct (map tg_target_id us)"
    by (simp add: us(2) distinct_map)
  ultimately show "distinct (map tg_target_id ts)" "tg_target_id ` set ts = rt_target_id ` set ?ts"
    by (simp_all add: us(2))
  show "\<forall>u \<in> set ts. \<exists>t \<in> set (rg_targets doc). polled doc t \<and> sched_target_of p doc t = Inr u"
    using emap_Inr_set [OF us(1)] by (auto simp: us(2))
qed

lemma group_targets_cover:
  "(\<Union>(k, g) \<in> set (group_targets ts). set g) = set ts \<and> dict_ok (group_targets ts)"
proof (induction ts rule: rev_induct)
  case (snoc t ts)
  let ?k = "(tg_bus_id t, tg_priority t)" and ?g = "group_targets ts"
  have step: "group_targets (ts @ [t]) = dset ?k (dget_or ?g ?k [] @ [t]) ?g" by (simp add: group_targets_def Let_def)
  have ok: "dict_ok (group_targets (ts @ [t]))" unfolding step using snoc by auto
  have mem: "(\<Union>(k, g) \<in> set d. set g) = (\<Union>k. set (dget_or d k []))" if "dict_ok d" for d :: "(string \<times> priority, sched_target list) dict"
  proof -
    have iff: "(k, g) \<in> set d \<longleftrightarrow> dget d k = Some g" for k g using that dict_mem_dget dget_mem by metis
    have "x \<in> (\<Union>(k, g) \<in> set d. set g) \<longleftrightarrow> (\<exists>k g. dget d k = Some g \<and> x \<in> set g)" for x by (auto simp flip: iff)
    moreover have "x \<in> set (dget_or d k []) \<longleftrightarrow> (\<exists>g. dget d k = Some g \<and> x \<in> set g)" for x k
      by (cases "dget d k") (simp_all add: dget_or_def)
    ultimately show ?thesis by (intro set_eqI) (simp only: UN_iff UNIV_I bex_simps bex_UNIV)
  qed
  have "(\<Union>(k, g) \<in> set (group_targets (ts @ [t])). set g)
      = (\<Union>k. set (dget_or (group_targets (ts @ [t])) k []))" by (rule mem [OF ok])
  also have "\<dots> = (\<Union>k. set (if k = ?k then dget_or ?g ?k [] @ [t] else dget_or ?g k []))"
    by (simp only: step dget_or_dset)
  also have "\<dots> = insert t (\<Union>k. set (dget_or ?g k []))"
  proof (intro set_eqI iffI)
    fix x assume "x \<in> insert t (\<Union>k. set (dget_or ?g k []))"
    then consider "x = t" | k where "x \<in> set (dget_or ?g k [])" by blast
    then show "x \<in> (\<Union>k. set (if k = ?k then dget_or ?g ?k [] @ [t] else dget_or ?g k []))"
    proof cases
      case (2 k)
      then show ?thesis by (intro UN_I [of k]) auto
    qed (rule UN_I [of ?k], auto)
  qed (auto split: if_splits)
  finally show ?case using snoc mem [of ?g] ok by simp
qed (simp add: group_targets_def)

lemma group_deadlines_keys:
  "set (dkeys (group_deadlines p elapsed attempts now ts d)) = set (dkeys d) \<union> tg_target_id ` set ts"
proof -
  have "set (dkeys (foldl (\<lambda>d (i, t). dset (tg_target_id t) (f i t) d) d xs)) = set (dkeys d) \<union> tg_target_id ` snd ` set xs"
    for f :: "nat \<Rightarrow> sched_target \<Rightarrow> pyfloat" and xs d
    by (induction xs arbitrary: d) (auto simp: dkeys_dset simp del: set_map)
  moreover have "snd ` set (enumerate 0 ts) = set ts" by (metis list.set_map map_snd_enumerate)
  ultimately show ?thesis by (simp add: group_deadlines_def)
qed


lemma initial_deadlines_keys:
  assumes "initial_deadlines ops p ts now w = (Inr d, w')" and "t \<in> set ts"
  shows "dget d (tg_target_id t) \<noteq> None"
proof -
  obtain elapsed attempts where d: "d = foldl (\<lambda>d (k, g). group_deadlines p elapsed attempts now g d) [] (group_targets ts)"
    using assms(1) by (auto simp: initial_deadlines_def split: prod.splits sum.splits)
  have "set (dkeys (foldl (\<lambda>d (k, g). group_deadlines p elapsed attempts now g d) d0 gs))
      = set (dkeys d0) \<union> tg_target_id ` (\<Union>(k, g) \<in> set gs. set g)" for d0 and gs :: "((string \<times> priority) \<times> sched_target list) list"
    by (induction gs arbitrary: d0) (auto simp only: foldl.simps group_deadlines_keys split_beta list.set UN_insert image_Un UN_empty image_empty)
  with d group_targets_cover [of ts] assms(2) have "tg_target_id t \<in> set (dkeys d)" by auto
  then show ?thesis by (simp only: map_of_eq_None_iff set_map not_not)
qed

lemma each_in_total: "(\<And>x s. x \<in> set xs \<Longrightarrow> \<exists>s'. f x s = Inr s') \<Longrightarrow> \<exists>s'. each_in f xs s = Inr s'"
proof (induction xs arbitrary: s)
  case (Cons x xs)
  then obtain t where "f x s = Inr t" by (meson list.set_intros(1))
  with Cons show ?case by simp
qed simp

lemma install_target_total:
  "dget deadlines (tg_target_id t) \<noteq> None \<Longrightarrow> \<exists>s'. install_target deadlines old old_ends t s = Inr s'"
  by (auto simp: install_target_def job_for_def lookup_def split: option.splits)

text \<open>What one installation of a registry gives.\<close>

lemma install_cases:
  assumes "registry_ok doc" and "preserve \<longrightarrow> scheduler_ok s" and "install ops doc preserve s w = (r, s', w')"
  obtains (failed) e w1 where "r = Inl e" "s' = s" "fst (so_last_attempts ops w1) = Inl e"
  | (installed) ts deadlines where "r = Inr ()" "specs (sh_policy s) doc = Inr ts" "scheduler_ok s'"
      "\<forall>i. i \<notin> tg_target_id ` set ts \<longrightarrow> dget (sh_jobs s') i = None"
      "\<forall>t \<in> set ts. \<exists>j. dget (sh_jobs s') (tg_target_id t) = Some j
        \<and> job_kept deadlines (if preserve then sh_jobs s else []) t j"
      "\<forall>k e. dget (sh_endpoints s') k = Some e \<longrightarrow>
        e = dget_or (if preserve then sh_endpoints s else []) k fresh_endpoint"
proof -
  define old where "old = (if preserve then sh_jobs s else [])"
  define old_ends where "old_ends = (if preserve then sh_endpoints s else [])"
  define s0 where "s0 = s\<lparr>sh_jobs := [], sh_bus_jobs := [], sh_endpoints := []\<rparr>"
  have s0: "sh_jobs s0 = []" "sh_bus_jobs s0 = []" "sh_endpoints s0 = []" "sh_sequence s0 = sh_sequence s"
    by (simp_all add: s0_def)
  obtain ts where ts: "specs (sh_policy s) doc = Inr ts" using specs_ok [OF assms(1)] by blast
  obtain now w1 where now: "so_clock ops w = (now, w1)" by (cases "so_clock ops w")
  obtain d w2 where d: "initial_deadlines ops (sh_policy s) ts now w1 = (d, w2)"
    by (cases "initial_deadlines ops (sh_policy s) ts now w1")
  note run = assms(3) [unfolded install_def now ts prod.case sum.case d,
      folded old_def old_ends_def s0_def]
  show thesis
  proof (cases d)
    case (Inl e)
    then have "fst (so_last_attempts ops w1) = Inl e"
      using d by (auto simp: initial_deadlines_def split: prod.splits sum.splits)
    with run Inl show thesis by (intro failed) simp_all
  next
    case (Inr deadlines)
    note keys = initial_deadlines_keys [OF d [unfolded Inr]]
    have "\<exists>s1. each_in (install_target deadlines old old_ends) ts s0 = Inr s1"
      using keys install_target_total by (intro each_in_total) blast
    then obtain s1 where s1: "each_in (install_target deadlines old old_ends) ts s0 = Inr s1" by blast
    have ages: "old_ages old (sh_sequence s)" using assms(2) scheduler_ok_ages by (auto simp: old_def old_ages_def)
    have start: "installed s0" "aged old (sh_sequence s) s0" "\<forall>t \<in> set ts. dget (sh_jobs s0) (tg_target_id t) = None"
      by (simp_all add: installed_def bus_targets_def dget_or_def aged_def s0)
    note all = install_loop [OF s1 specs_Inr(1) [OF assms(1) ts] start(3) ages start(1,2)]
    have loop: "installed s1" "aged old (sh_sequence s) s1"
      "\<forall>i. i \<notin> tg_target_id ` set ts \<longrightarrow> dget (sh_jobs s1) i = None"
      "\<forall>t \<in> set ts. \<exists>j. dget (sh_jobs s1) (tg_target_id t) = Some j \<and> job_kept deadlines old t j"
      using all unfolding s0 map_of.simps by blast+
    have ends: "\<forall>k e. dget (sh_endpoints s1) k = Some e \<longrightarrow> e = dget_or old_ends k fresh_endpoint"
    proof (intro allI impI)
      fix k e assume e: "dget (sh_endpoints s1) k = Some e"
      have "dget (sh_endpoints s1) k = (if k \<in> (\<lambda>t. (tg_bus_id t, tg_unit_id t)) ` set ts
          then Some (dget_or old_ends k fresh_endpoint) else None)"
        using all unfolding s0 map_of.simps by blast
      with e show "e = dget_or old_ends k fresh_endpoint" by (auto split: if_splits)
    qed
    have r: "r = Inr ()" "s' = s1\<lparr>sh_revision := rg_revision doc\<rparr>" using run Inr s1 by simp_all
    have "installed s'"
      by (rule installed_transfer [OF loop(1)]) (simp_all add: r(2) identity_of_def fun_eq_iff)
    moreover have "jb_sequence j \<le> sh_sequence s1" if j: "dget (sh_jobs s1) i = Some j" for i j
    proof (cases "dget old i")
      case None
      with loop(2) j show ?thesis unfolding aged_def age_ok_def by fastforce
    next
      case (Some k)
      then have "jb_sequence k \<le> sh_sequence s" using assms(2) by (auto simp: old_def scheduler_ok_def split: if_splits)
      moreover have "jb_sequence j = jb_sequence k" "sh_sequence s \<le> sh_sequence s1"
        using loop(2) j Some unfolding aged_def age_ok_def by fastforce+
      ultimately show ?thesis by simp
    qed
    ultimately have "scheduler_ok s'" by (simp add: scheduler_ok_def r(2))
    moreover have "sh_jobs s' = sh_jobs s1" "sh_endpoints s' = sh_endpoints s1" by (simp_all add: r(2))
    ultimately show thesis
      using loop(3,4) ends unfolding old_def old_ends_def by (intro installed [OF r(1) ts, of deadlines]) simp_all
  qed
qed

section \<open>Every step keeps the invariant\<close>

text \<open>What all operations but the installation keep.\<close>

definition keeps :: "scheduler \<Rightarrow> scheduler \<Rightarrow> bool" where
  "keeps s s' \<longleftrightarrow> sh_bus_jobs s' = sh_bus_jobs s \<and> sh_locks s' = sh_locks s \<and> identity_of s' = identity_of s
     \<and> sh_sequence s' = sh_sequence s \<and> sh_policy s' = sh_policy s
     \<and> (\<forall>k. dget (sh_endpoints s) k \<noteq> None \<longrightarrow> dget (sh_endpoints s') k \<noteq> None)
     \<and> (\<forall>b. dget (sh_metrics s) b \<noteq> None \<longrightarrow> dget (sh_metrics s') b \<noteq> None)"

named_theorems keeps_intros

lemma keeps_refl [keeps_intros]: "keeps s s"
  by (simp add: keeps_def)

lemma keeps_trans [trans]: "keeps s t \<Longrightarrow> keeps t u \<Longrightarrow> keeps s u"
  by (simp add: keeps_def)

lemma keeps_ok: "keeps s s' \<Longrightarrow> scheduler_ok s \<Longrightarrow> scheduler_ok s'"
proof -
  assume k: "keeps s s'" and ok: "scheduler_ok s"
  then have "installed s" by (simp add: scheduler_ok_def)
  then have "installed s'" by (rule installed_transfer) (use k in \<open>simp_all only: keeps_def simp_thms\<close>)
  moreover have "jb_sequence j \<le> sh_sequence s'" if "dget (sh_jobs s') i = Some j" for i j
  proof -
    have "identity_of s' i = Some (jb_target j, jb_sequence j)" using that by (simp add: identity_of_def)
    moreover have "identity_of s' = identity_of s" using k by (simp add: keeps_def)
    ultimately have "identity_of s i = Some (jb_target j, jb_sequence j)" by simp
    then obtain j0 where "dget (sh_jobs s) i = Some j0" "jb_sequence j0 = jb_sequence j" by (auto simp: identity_of_def)
    moreover have "sh_sequence s' = sh_sequence s" using k by (simp add: keeps_def)
    ultimately show ?thesis using ok unfolding scheduler_ok_def by metis
  qed
  ultimately show ?thesis by (simp add: scheduler_ok_def)
qed

lemma keeps_set_metrics [keeps_intros]: "keeps s t \<Longrightarrow> keeps s (set_metrics b m t)"
  by (auto simp: keeps_def set_metrics_def identity_of_def dget_dset fun_eq_iff)

lemma keeps_set_endpoint [keeps_intros]: "keeps s t \<Longrightarrow> keeps s (set_endpoint k e t)"
  by (auto simp: keeps_def set_endpoint_def identity_of_def dget_dset fun_eq_iff)

lemma keeps_endpoints [keeps_intros]: "keeps s t \<Longrightarrow> keeps s (t\<lparr>sh_endpoints := dset k e (sh_endpoints t)\<rparr>)"
  by (auto simp: keeps_def identity_of_def dget_dset fun_eq_iff)

lemma keeps_threads [keeps_intros]: "keeps s t \<Longrightarrow> keeps s (t\<lparr>sh_threads := x\<rparr>)"
  by (auto simp: keeps_def identity_of_def fun_eq_iff)

lemma keeps_started [keeps_intros]: "keeps s t \<Longrightarrow> keeps s (t\<lparr>sh_started := x\<rparr>)"
  by (auto simp: keeps_def identity_of_def fun_eq_iff)

lemma keeps_log [keeps_intros]: "keeps s t \<Longrightarrow> keeps s (update_log b f t)"
  by (auto simp: keeps_def update_log_def identity_of_def fun_eq_iff)

lemma keeps_jobs:
  assumes "keeps s t" and "\<And>i. map_option (\<lambda>j. (jb_target j, jb_sequence j)) (dget jobs i) = identity_of t i"
  shows "keeps s (t\<lparr>sh_jobs := jobs\<rparr>)"
  using assms by (simp add: keeps_def identity_of_def fun_eq_iff)

lemma keeps_one_job [keeps_intros]:
  "keeps s t \<Longrightarrow> dget (sh_jobs t) i = Some j \<Longrightarrow> keeps s (t\<lparr>sh_jobs := dset i (j\<lparr>jb_next_deadline := x\<rparr>) (sh_jobs t)\<rparr>)"
  by (rule keeps_jobs) (simp_all add: dget_dset identity_of_def)

lemma defer_unit_identity:
  assumes "defer_unit u c is jobs n = Inr (n', jobs')"
  shows "map_option (\<lambda>j. (jb_target j, jb_sequence j)) (dget jobs' i) = map_option (\<lambda>j. (jb_target j, jb_sequence j)) (dget jobs i)"
  using assms
proof (induction "is" arbitrary: jobs n)
  case (Cons k "is")
  then show ?case by (auto simp: ebind_eq_Inr lookup_iff dget_dset split: if_splits)
qed simp

lemma note_failure_keeps: "note_failure j completed e s = (r, s') \<Longrightarrow> keeps s s'"
  unfolding note_failure_def Let_def
  by (auto intro!: keeps_intros keeps_jobs simp: defer_unit_identity identity_of_def set_endpoint_def split: if_splits sum.splits prod.splits)

lemma reschedule_keeps: "reschedule j deadline completed s = Some (r, s') \<Longrightarrow> keeps s s'"
  unfolding reschedule_def by (auto intro!: keeps_intros split: option.splits prod.splits)

lemma complete_keeps: 
  assumes "complete j deadline completed duration failed callback_error s = Some (r, s')"
  shows "keeps s s'"
proof (cases "dget (sh_jobs s) (tg_target_id (jb_target j))")
  case (Some cur)
  show ?thesis
  proof (cases "lookup py_repr (sh_metrics s) (tg_bus_id (jb_target j))")
    case (Inr m)
    define s1 where "s1 = set_metrics (tg_bus_id (jb_target j)) (observe_completion (tg_priority (jb_target j)) completed duration
      (tg_interval (jb_target j)) failed callback_error m) s"
    have s1: "keeps s s1" unfolding s1_def by (intro keeps_intros)
    show ?thesis
    proof (cases "lookup endpoint_key_text (sh_endpoints s1) (job_endpoint j)")
      case (Inl e)
      with assms Some Inr s1 show ?thesis by (simp add: complete_def Let_def flip: s1_def)
    next
      case ends: (Inr e)
      obtain r2 s2 where s2: "(if failed then note_failure j completed e s1 else note_recovery j e s1) = (r2, s2)"
        by (cases "if failed then note_failure j completed e s1 else note_recovery j e s1")
      have "keeps s1 s2" using s2 note_failure_keeps
        by (auto simp: note_recovery_def split: if_splits intro!: keeps_intros)
      moreover have "keeps s2 s'"
        using assms Some Inr ends s2 reschedule_keeps [of j deadline completed s2 r s']
        by (cases r2) (auto simp: complete_def Let_def keeps_refl simp flip: s1_def)
      ultimately show ?thesis using s1 keeps_trans by blast
    qed
  qed (use assms Some in \<open>simp add: complete_def keeps_refl\<close>)
qed (use assms in \<open>simp add: complete_def keeps_refl\<close>)

lemma select_keeps: "select bus now s = (r, s') \<Longrightarrow> keeps s s'"
  by (auto simp: select_def intro!: keeps_intros split: sum.splits prod.splits)

lemma begin_run_keeps: "begin_run ops bus s w = (r, s', w') \<Longrightarrow> keeps s s'"
  by (auto simp: begin_run_def intro!: keeps_intros dest!: select_keeps split: sum.splits prod.splits option.splits)

lemma publish_keeps: "publish_result ops bus j res s w = (r, s', w') \<Longrightarrow> keeps s s'"
  by (auto simp: publish_result_def intro!: keeps_intros split: sum.splits prod.splits option.splits)

lemma record_failure_keeps: "record_worker_failure ops bus e s w = (s', w') \<Longrightarrow> keeps s s'"
  by (auto simp: record_worker_failure_def intro!: keeps_intros split: prod.splits)

lemma start_bus_keeps: "start_bus ops recovery bus (s, w) = (b, s', w') \<Longrightarrow> keeps s s'"
  by (auto simp: start_bus_def Let_def intro!: keeps_intros split: prod.splits if_splits)

lemma start_all_keeps: "start_all ops buses (s, w) = (s', w') \<Longrightarrow> keeps s s'"
proof (induction buses arbitrary: s w)
  case (Cons b bs)
  obtain c s1 w1 where s1: "start_bus ops False b (s, w) = (c, s1, w1)" by (metis prod.collapse)
  with Cons.prems have "start_all ops bs (s1, w1) = (s', w')" by (simp add: start_all_def)
  with Cons.IH start_bus_keeps [OF s1] show ?case using keeps_trans by blast
qed (simp add: start_all_def keeps_refl)

lemma advance_target_keeps: "advance_target bus now i s = Inr s' \<Longrightarrow> keeps s s'"
  by (auto simp: advance_target_def Let_def ebind_eq_Inr intro!: keeps_intros split: option.splits if_splits)

lemma advance_overdue_keeps: "advance_overdue bus now s = (r, s') \<Longrightarrow> keeps s s'"
  by (auto simp: advance_overdue_def intro: keeps_refl split: sum.splits
      elim!: each_keep_invariant [of _ _ _ _ _ "keeps s"] dest: advance_target_keeps keeps_trans)

lemma supervise_buses_keeps: "supervise_buses ops now bs n (s, w) = (r, s', w') \<Longrightarrow> keeps s s'"
proof (induction bs arbitrary: n s w)
  case (Cons b bs)
  show ?case
  proof (cases "bus_targets s b = [] \<or> alive s b")
    case True
    with Cons show ?thesis by simp
  next
    case False
    show ?thesis
    proof (cases "advance_overdue b now s")
      case (Pair x s1)
      note k = advance_overdue_keeps [OF Pair]
      show ?thesis
      proof (cases x)
        case (Inl e)
        with False Cons.prems Pair k show ?thesis by simp
      next
        case (Inr u)
        obtain c s2 w2 where s2: "start_bus ops True b (s1, w) = (c, s2, w2)" by (metis prod.collapse)
        with False Pair Inr Cons.prems Cons.IH have "keeps s2 s'" by (auto split: if_splits)
        with k start_bus_keeps [OF s2] show ?thesis using keeps_trans by blast
      qed
    qed
  qed
qed (simp add: keeps_refl)

end
