(* ===== verification/SchedulerSteps.thy ===== *)
theory SchedulerSteps
  imports SchedulerLifecycle
begin

text \<open>
  The scheduler of \<open>services/device-agent/adaptive_scheduler.py\<close> as a state machine: its critical sections
  in any order and from any thread, with any callbacks, clocks and stored values. The invariant holds in
  every reachable state, a registry change keeps what it promises to keep, and one round of supervision
  leaves no dead worker.
\<close>

section \<open>The steps\<close>

inductive sched_step :: "'w sched_ops \<Rightarrow> scheduler \<Rightarrow> scheduler \<Rightarrow> bool" for ops where
  selected: "begin_run ops bus s w = (r, s', w') \<Longrightarrow> sched_step ops s s'"
| completed: "complete j deadline completed duration failed callback_error s = Some (c, s') \<Longrightarrow> sched_step ops s s'"
| published: "publish_result ops bus j res s w = (b, s', w') \<Longrightarrow> sched_step ops s s'"
| worker_failed: "record_worker_failure ops bus e s w = (s', w') \<Longrightarrow> sched_step ops s s'"
| worker_ended: "sched_step ops s (worker_ends bus s)"
| started: "start_workers ops s w = (s', w') \<Longrightarrow> sched_step ops s s'"
| supervised: "supervise_workers ops s w = (n, s', w') \<Longrightarrow> sched_step ops s s'"
| reconciled: "registry_ok doc \<Longrightarrow> reconcile ops doc s w = (u, s', w') \<Longrightarrow> sched_step ops s s'"

inductive sched_reaches :: "'w sched_ops \<Rightarrow> scheduler \<Rightarrow> bool" for ops where
  constructed: "registry_ok doc \<Longrightarrow> new_scheduler ops p attempts delay locks doc w = (Inr s, w') \<Longrightarrow> sched_reaches ops s"
| stepped: "sched_reaches ops s \<Longrightarrow> sched_step ops s s' \<Longrightarrow> sched_reaches ops s'"

inductive_cases sched_stepE: "sched_step ops s s'"

definition paced :: "scheduler \<Rightarrow> bool" where
  "paced s \<longleftrightarrow> (\<forall>i t n. identity_of s i = Some (t, n) \<longrightarrow> 10 \<le> tg_interval t \<and> tg_interval t \<le> 3600)"

lemma keeps_paced: "keeps s s' \<Longrightarrow> paced s \<Longrightarrow> paced s'"
  by (simp add: paced_def keeps_def)

lemma install_ok:
  assumes "registry_ok doc" and "preserve \<longrightarrow> scheduler_ok s" and "install ops doc preserve s w = (r, s', w')"
    and "r = Inr () \<or> scheduler_ok s \<and> paced s"
  shows "scheduler_ok s' \<and> paced s'"
  using assms(1-3)
proof (cases rule: install_cases)
  case (failed e w1)
  with assms(4) show ?thesis by simp
next
  case (installed ts deadlines)
  have "10 \<le> tg_interval t \<and> tg_interval t \<le> 3600" if t: "identity_of s' i = Some (t, n)" for i t n
  proof -
    obtain j where j: "dget (sh_jobs s') i = Some j" "jb_target j = t" using t by (auto simp: identity_of_def)
    with installed(4) obtain u where u: "u \<in> set ts" "i = tg_target_id u" by (metis imageE option.distinct(1))
    with installed(5) j have "u = t" by (auto simp: job_kept_def)
    with u specs_Inr(3) [OF assms(1) installed(2)] obtain v where v: "v \<in> set (rg_targets doc)"
        "sched_target_of (sh_policy s) doc v = Inr t" by blast
    from sched_target_of_ok [OF assms(1) v(1), of "sh_policy s"] v(2) show ?thesis by simp
  qed
  with installed(3) show ?thesis by (auto simp: paced_def)
qed

lemma reconcile_install:
  assumes "reconcile ops doc s w = (r, s', w')"
  obtains s1 w1 where "install ops doc True s w = (r, s1, w1)"
    "(s', w') = (if r = Inr () \<and> sh_started s1
       then start_all ops (filter (\<lambda>b. b \<notin> set (dkeys (sh_bus_jobs s))) (dkeys (sh_bus_jobs s1))) (s1, w1)
       else (s1, w1))"
proof -
  obtain r0 s1 w1 where i: "install ops doc True s w = (r0, s1, w1)" by (metis prod.collapse)
  show thesis
  proof (cases r0)
    case (Inl e)
    with assms i show thesis by (intro that [of s1 w1]) (auto simp: reconcile_def)
  next
    case (Inr u)
    with assms i show thesis by (intro that [of s1 w1]) (auto simp: reconcile_def split: if_splits)
  qed
qed

lemma reconcile_keeps:
  assumes "(s', w') = (if b then start_all ops bs (s1, w1) else (s1, w1))"
  shows "keeps s1 s'"
  using assms start_all_keeps [of ops bs s1 w1 s' w'] by (auto simp: keeps_refl split: if_splits)

lemma start_workers_keeps: "start_workers ops s w = (s', w') \<Longrightarrow> keeps s s'"
proof (cases "sh_started s")
  case False
  moreover assume "start_workers ops s w = (s', w')"
  ultimately have "start_all ops (sort (dkeys (sh_bus_jobs s))) (s\<lparr>sh_started := True\<rparr>, w) = (s', w')"
    by (simp add: start_workers_def)
  from start_all_keeps [OF this] show ?thesis using keeps_started [OF keeps_refl] by (rule keeps_trans [rotated])
qed (simp add: start_workers_def keeps_refl)

lemma supervise_keeps: "supervise_workers ops s w = (r, s', w') \<Longrightarrow> keeps s s'"
  unfolding supervise_workers_def using supervise_buses_keeps
  by (auto simp: keeps_refl split: if_splits prod.splits)

lemma sched_step_ok:
  assumes "sched_step ops s s'" and "scheduler_ok s" and "paced s"
  shows "scheduler_ok s' \<and> paced s'"
proof -
  have by_keeps: ?thesis if "keeps s s'" using that assms(2,3) keeps_ok keeps_paced by blast
  from assms(1) show ?thesis
  proof (cases rule: sched_step.cases)
    case (selected bus w r w')
    then show ?thesis by (intro by_keeps begin_run_keeps)
  next
    case (completed j deadline completed duration failed callback_error c)
    then show ?thesis by (intro by_keeps complete_keeps)
  next
    case (published bus j res w b w')
    then show ?thesis by (intro by_keeps publish_keeps)
  next
    case (worker_failed bus e w w')
    then show ?thesis by (intro by_keeps record_failure_keeps)
  next
    case (worker_ended bus)
    then show ?thesis by (intro by_keeps) (simp add: worker_ends_def keeps_threads keeps_refl)
  next
    case (started w w')
    then show ?thesis by (intro by_keeps start_workers_keeps)
  next
    case (supervised w n w')
    then show ?thesis by (intro by_keeps supervise_keeps)
  next
    case (reconciled doc w u w')
    from reconciled(2) obtain s1 w1 where i: "install ops doc True s w = (u, s1, w1)"
      and run: "(s', w') = (if u = Inr () \<and> sh_started s1
        then start_all ops (filter (\<lambda>b. b \<notin> set (dkeys (sh_bus_jobs s))) (dkeys (sh_bus_jobs s1))) (s1, w1)
        else (s1, w1))" by (rule reconcile_install)
    have k: "keeps s1 s'" by (rule reconcile_keeps [OF run])
    have "scheduler_ok s1 \<and> paced s1" using install_ok [OF reconciled(1) _ i] assms(2,3) by blast
    with k show ?thesis using keeps_ok keeps_paced by blast
  qed
qed

lemma reaches_ok: "sched_reaches ops s \<Longrightarrow> scheduler_ok s \<and> paced s"
proof (induction rule: sched_reaches.induct)
  case (constructed doc p attempts delay locks w s w')
  then obtain s0 w1 where "install ops doc False s0 w = (Inr (), s, w1)"
    by (auto simp: new_scheduler_def split: if_splits prod.splits sum.splits)
  from install_ok [OF constructed(1) _ this] show ?case by simp
next
  case (stepped s s')
  then show ?case using sched_step_ok by blast
qed

text \<open>C39: In every state the scheduler can reach, from any registry and through any interleaving of
  selections, completions, publications, registry changes, worker deaths and restarts: each job belongs to
  its bus and its endpoint exists, the cadences lie between ten seconds and an hour, and choosing the next
  job of a configured bus never raises.\<close>

theorem scheduler_invariant:
  assumes "sched_reaches ops s"
  shows "scheduler_ok s \<and> paced s
    \<and> (\<forall>bus \<in> set (dkeys (sh_bus_jobs s)). \<forall>now. \<exists>j s'. select bus now s = (Inr j, s'))"
proof -
  note ok = reaches_ok [OF assms]
  then have inst: "installed s" by (simp add: scheduler_ok_def)
  have "\<exists>j s'. select bus now s = (Inr j, s')" if "bus \<in> set (dkeys (sh_bus_jobs s))" for bus now
  proof -
    from inst that have "dget (sh_metrics s) bus \<noteq> None" unfolding installed_def by blast
    then obtain m where m: "dget (sh_metrics s) bus = Some m" by blast
    obtain ds where "due s bus now = Inr ds" by (rule due_ok [OF inst])
    with m show ?thesis by (auto simp: select_def lookup_def split: prod.split)
  qed
  with ok show ?thesis by blast
qed

section \<open>A registry change\<close>

lemma alive_start: "start_bus ops recovery b (s, w) = (c, s', w') \<Longrightarrow> alive s' x = (x = b \<or> alive s x) \<and> (c \<longleftrightarrow> \<not> alive s b)"
  by (auto simp: start_bus_def alive_def dget_or_def update_log_def Let_def dget_dset dget_dpop
      split: if_splits prod.splits option.splits)

lemma start_all_alive:
  "start_all ops buses (s, w) = (s', w') \<Longrightarrow> alive s' b \<longleftrightarrow> b \<in> set buses \<or> alive s b"
proof (induction buses arbitrary: s w)
  case (Cons c cs)
  obtain r s1 w1 where s1: "start_bus ops False c (s, w) = (r, s1, w1)" by (metis prod.collapse)
  with Cons.prems have "start_all ops cs (s1, w1) = (s', w')" by (simp add: start_all_def)
  with Cons.IH alive_start [OF s1, of b] show ?case by auto
qed (simp add: start_all_def)

lemma start_all_tables:
  "start_all ops buses (s, w) = (s', w') \<Longrightarrow> sh_jobs s' = sh_jobs s \<and> sh_endpoints s' = sh_endpoints s"
proof (induction buses arbitrary: s w)
  case (Cons c cs)
  obtain r s1 w1 where s1: "start_bus ops False c (s, w) = (r, s1, w1)" by (metis prod.collapse)
  with Cons.prems have "start_all ops cs (s1, w1) = (s', w')" by (simp add: start_all_def)
  with Cons.IH s1 show ?case by (auto simp: start_bus_def Let_def split: if_splits)
qed (simp add: start_all_def)

text \<open>Reconciling with a new registry either changes nothing, when the stored last attempts cannot be
  read, or leaves exactly one job per target of the registry that is to be polled, with the registry's
  cadence. A target that was scheduled before keeps its place in the order and, unless its cadence has
  changed, its deadline; an endpoint keeps its failures and its cooldown.\<close>

theorem reconcile_sound:
  assumes "registry_ok doc" and "scheduler_ok s" and "reconcile ops doc s w = (r, s', w')"
  shows "(\<exists>e. r = Inl e \<and> s' = s)
    \<or> (r = Inr () \<and> scheduler_ok s'
      \<and> set (dkeys (sh_jobs s')) = rt_target_id ` {t \<in> set (rg_targets doc). polled doc t}
      \<and> (\<forall>k e. dget (sh_endpoints s') k = Some e \<longrightarrow> e = dget_or (sh_endpoints s) k fresh_endpoint)
      \<and> (\<forall>i j. dget (sh_jobs s') i = Some j \<longrightarrow>
          (\<exists>t \<in> set (rg_targets doc). sched_target_of (sh_policy s) doc t = Inr (jb_target j))
          \<and> (\<forall>k. dget (sh_jobs s) i = Some k \<longrightarrow> jb_sequence j = jb_sequence k
              \<and> (tg_interval (jb_target k) = tg_interval (jb_target j) \<longrightarrow> jb_next_deadline j = jb_next_deadline k))))"
proof -
  from assms(3) obtain s1 w1 where i: "install ops doc True s w = (r, s1, w1)"
    and run: "(s', w') = (if r = Inr () \<and> sh_started s1
      then start_all ops (filter (\<lambda>b. b \<notin> set (dkeys (sh_bus_jobs s))) (dkeys (sh_bus_jobs s1))) (s1, w1)
      else (s1, w1))" by (rule reconcile_install)
  have same: "sh_jobs s' = sh_jobs s1" "sh_endpoints s' = sh_endpoints s1"
    using run start_all_tables [of ops _ s1 w1 s' w'] by (auto split: if_splits)
  have keep: "keeps s1 s'" using run by (rule reconcile_keeps)
  have "True \<longrightarrow> scheduler_ok s" using assms(2) by simp
  from assms(1) this i show ?thesis
  proof (cases rule: install_cases)
    case (failed e w0)
    with run show ?thesis by simp
  next
    case (installed ts deadlines)
    note ts = specs_Inr [OF assms(1) installed(2)]
    have "set (dkeys (sh_jobs s')) = {i. dget (sh_jobs s1) i \<noteq> None}"
      unfolding same by (auto simp only: map_of_eq_None_iff set_map)
    also have "\<dots> = tg_target_id ` set ts" using installed(4,5) by (auto simp: image_iff)
    also have "\<dots> = rt_target_id ` {t \<in> set (rg_targets doc). polled doc t}" using ts(2) by simp
    finally have keys: "set (dkeys (sh_jobs s')) = rt_target_id ` {t \<in> set (rg_targets doc). polled doc t}" .
    have job: "(\<exists>t \<in> set (rg_targets doc). sched_target_of (sh_policy s) doc t = Inr (jb_target j))
        \<and> (\<forall>k. dget (sh_jobs s) i = Some k \<longrightarrow> jb_sequence j = jb_sequence k
          \<and> (tg_interval (jb_target k) = tg_interval (jb_target j) \<longrightarrow> jb_next_deadline j = jb_next_deadline k))"
      if j: "dget (sh_jobs s') i = Some j" for i j
    proof -
      from j installed(4) obtain u where u: "u \<in> set ts" "i = tg_target_id u" unfolding same by (metis imageE option.distinct(1))
      with installed(5) j have "job_kept deadlines (sh_jobs s) u j" unfolding same by auto
      then have "jb_target j = u" "\<forall>k. dget (sh_jobs s) i = Some k \<longrightarrow> jb_sequence j = jb_sequence k
          \<and> (tg_interval (jb_target k) = tg_interval u \<longrightarrow> jb_next_deadline j = jb_next_deadline k)"
        unfolding u(2) by (auto simp: job_kept_def)
      with ts(3) u(1) show ?thesis by blast
    qed
    have "\<forall>k e. dget (sh_endpoints s') k = Some e \<longrightarrow> e = dget_or (sh_endpoints s) k fresh_endpoint"
      using installed(6) by (simp add: same)
    with installed(1) keys job keeps_ok [OF keep installed(3)] show ?thesis by blast
  qed
qed


section \<open>Supervision\<close>

lemma fsub_bounds:
  assumes "0 \<le> m" and "m \<le> x" and "x \<le> 2 ^ 53"
  shows "0 \<le> fsub x m" "fsub x m \<le> 2 ^ 53"
proof -
  have "is_float (2 ^ 53)" using is_float_of_int [of "2 ^ 53"] by simp
  then show "fsub x m \<le> 2 ^ 53" unfolding fsub_def by (rule fl_le_float) (use assms in linarith)
  show "0 \<le> fsub x m" unfolding fsub_def using assms by (intro fl_nonneg) simp
qed

lemma ffloordiv_bounds:
  assumes "0 \<le> x" and "x \<le> 2 ^ 53" and "1 \<le> y"
  shows "0 \<le> ffloordiv x y \<and> ffloordiv x y \<le> 2 ^ 53 + 1"
proof -
  define m where "m = ffmod x y"
  have xy: "0 \<le> x / y" using assms by simp
  have "y * of_int \<lfloor>x / y\<rfloor> \<le> y * (x / y)" using assms(3) by (intro mult_left_mono) simp_all
  then have m0: "0 \<le> m" using assms(3) xy by (simp add: m_def ffmod_def)
  have "0 \<le> y * of_int \<lfloor>x / y\<rfloor>" using assms(3) xy by simp
  then have mx: "m \<le> x" using xy by (simp add: m_def ffmod_def)
  have f53: "is_float (2 ^ 53)" using is_float_of_int [of "2 ^ 53"] by simp
  note s = fsub_bounds [OF m0 mx assms(2)]
  have "fsub x m / y \<le> fsub x m / 1" using s(1) assms(3) by (intro divide_left_mono) simp_all
  then have "fsub x m / y \<le> 2 ^ 53" using s(2) by simp
  then have q2: "fdiv (fsub x m) y \<le> 2 ^ 53" unfolding fdiv_def by (rule fl_le_float [OF f53])
  have q: "0 \<le> fdiv (fsub x m) y" using s(1) assms(3) by (intro fdiv_nonneg) simp_all
  have "\<not> y < 0" "\<not> m < 0" using assms(3) m0 by simp_all
  then have "ffloordiv x y = (let q = fdiv (fsub x m) y; f = \<lfloor>q\<rfloor> in if 1 / 2 < fsub q (of_int f) then f + 1 else f)"
    by (simp add: ffloordiv_def Let_def m_def)
  moreover have "0 \<le> \<lfloor>fdiv (fsub x m) y\<rfloor>" "\<lfloor>fdiv (fsub x m) y\<rfloor> \<le> 2 ^ 53" using q q2 by (simp_all add: floor_le_iff)
  ultimately show ?thesis by (simp add: Let_def)
qed

lemma float_of_int_ok: "\<bar>n\<bar> \<le> 2 ^ 54 \<Longrightarrow> float_of_int n = Inr (fl (of_int n))"
proof -
  assume n: "\<bar>n\<bar> \<le> 2 ^ 54"
  have "(of_int \<bar>n\<bar> :: rat) \<le> of_int (2 ^ 54)" using n by (rule of_int_le_iff [THEN iffD2])
  then have "fl \<bar>of_int n\<bar> \<le> fl (2 ^ 54)" by (intro fl_mono) simp
  also have "fl (2 ^ 54) = 2 ^ 54" using fl_repr [of 1 54] by simp
  also have "(2::rat) ^ 54 < 2 ^ 1024" by simp
  finally show ?thesis by (simp add: float_of_int_def)
qed

text \<open>The measures of a running scheduler: deadlines and clock below \<open>2 ^ 53\<close> seconds.\<close>

definition in_time :: "scheduler \<Rightarrow> bool" where
  "in_time s \<longleftrightarrow> (\<forall>i j. dget (sh_jobs s) i = Some j \<longrightarrow> 0 \<le> jb_next_deadline j)"

lemma paced_target: "paced s \<Longrightarrow> identity_of s i = Some (t, n) \<Longrightarrow> 10 \<le> tg_interval t"
  unfolding paced_def by blast

lemma listed_bus: "bus_targets s bus \<noteq> [] \<Longrightarrow> bus \<in> set (dkeys (sh_bus_jobs s))"
  by (rule ccontr) (simp add: bus_targets_def dget_or_def flip: map_of_eq_None_iff)

lemma advance_target_runs:
  assumes "scheduler_ok s" and "paced s" and "in_time s" and "now \<le> 2 ^ 53" and "i \<in> set (bus_targets s bus)"
  shows "\<exists>s'. advance_target bus now i s = Inr s' \<and> in_time s' \<and> sh_threads s' = sh_threads s"
proof -
  have inst: "installed s" using assms(1) by (simp add: scheduler_ok_def)
  obtain j e where j: "dget (sh_jobs s) i = Some j" "dget (sh_endpoints s) (job_endpoint j) = Some e"
    using installed_job [OF inst assms(5)] by metis
  have "bus \<in> set (dkeys (sh_bus_jobs s))" using assms(5) by (intro listed_bus) auto
  then obtain m where m: "dget (sh_metrics s) bus = Some m" using inst unfolding installed_def by blast
  have "identity_of s i = Some (jb_target j, jb_sequence j)" using j(1) by (simp add: identity_of_def)
  then have step: "1 \<le> tg_interval (jb_target j)" using paced_target [OF assms(2)] by fastforce
  have d: "0 \<le> jb_next_deadline j" using assms(3) j(1) by (auto simp: in_time_def)
  show ?thesis
  proof (cases "now < ep_cooldown_until e \<or> now < jb_next_deadline j")
    case True
    with j assms(3) show ?thesis by (auto simp: advance_target_def lookup_def)
  next
    case False
    define skipped where "skipped = ffloordiv (fsub now (jb_next_deadline j)) (tg_interval (jb_target j)) + 1"
    have "jb_next_deadline j \<le> now" using False by simp
    from ffloordiv_bounds [OF fsub_bounds [OF d this assms(4)] step] have sk: "0 \<le> skipped" "\<bar>skipped\<bar> \<le> 2 ^ 54" by (auto simp: skipped_def)
    let ?d = "fadd (jb_next_deadline j) (fmul (fl (of_int skipped)) (tg_interval (jb_target j)))"
    have "0 \<le> fl (of_int skipped)" using sk(1) by (intro fl_nonneg) simp
    then have "0 \<le> fmul (fl (of_int skipped)) (tg_interval (jb_target j))" using step by (intro fmul_nonneg) simp_all
    then have "0 \<le> ?d" unfolding fadd_def using d by (intro fl_nonneg) simp
    moreover have "advance_target bus now i s = Inr (set_metrics bus (observe_skipped skipped m)
        (s\<lparr>sh_jobs := dset i (j\<lparr>jb_next_deadline := ?d\<rparr>) (sh_jobs s)\<rparr>))"
      using False j m by (simp add: advance_target_def lookup_def Let_def float_of_int_ok [OF sk(2)] flip: skipped_def)
    ultimately show ?thesis using assms(3) by (auto simp: in_time_def set_metrics_def dget_dset split: if_splits)
  qed
qed

lemma advance_overdue_runs:
  assumes "scheduler_ok s" and "paced s" and "in_time s" and "now \<le> 2 ^ 53" and "bus_targets s bus \<noteq> []"
  shows "\<exists>s'. advance_overdue bus now s = (Inr (), s') \<and> in_time s' \<and> sh_threads s' = sh_threads s"
proof -
  have all: "\<exists>t'. each_keep (advance_target bus now) xs t = (Inr (), t') \<and> in_time t' \<and> sh_threads t' = sh_threads s"
    if "set xs \<subseteq> set (bus_targets s bus)" "keeps s t" "in_time t" "sh_threads t = sh_threads s" for xs t
    using that
  proof (induction xs arbitrary: t)
    case (Cons x xs)
    have "bus_targets t bus = bus_targets s bus" using Cons.prems(2) by (simp add: keeps_def bus_targets_def)
    with Cons.prems(1) have "x \<in> set (bus_targets t bus)" by simp
    from advance_target_runs [OF keeps_ok [OF Cons.prems(2) assms(1)] keeps_paced [OF Cons.prems(2) assms(2)] Cons.prems(3) assms(4) this]
    obtain t1 where t1: "advance_target bus now x t = Inr t1" "in_time t1" "sh_threads t1 = sh_threads t" by blast
    have "keeps s t1" using Cons.prems(2) advance_target_keeps [OF t1(1)] by (rule keeps_trans)
    then show ?case using Cons.IH [of t1] Cons.prems(1,4) t1 by simp
  qed simp
  have "bus \<in> set (dkeys (sh_bus_jobs s))" using assms(5) by (rule listed_bus)
  then obtain m where "dget (sh_metrics s) bus = Some m" using assms(1) unfolding scheduler_ok_def installed_def by blast
  then show ?thesis using all [OF order_refl keeps_refl assms(3) refl] by (simp add: advance_overdue_def lookup_def)
qed


lemma supervise_buses_runs:
  assumes "scheduler_ok s" and "paced s" and "in_time s" and "now \<le> 2 ^ 53"
  shows "\<exists>s' w'. supervise_buses ops now bs n (s, w)
      = (Inr (n + int (card {b \<in> set bs. bus_targets s b \<noteq> [] \<and> \<not> alive s b})), s', w')
    \<and> (\<forall>b. alive s' b \<longleftrightarrow> alive s b \<or> b \<in> set bs \<and> bus_targets s b \<noteq> [])"
  using assms
proof (induction bs arbitrary: n s w)
  case (Cons b bs)
  let ?dead = "\<lambda>s bs. {b \<in> set bs. bus_targets s b \<noteq> [] \<and> \<not> alive s b}"
  show ?case
  proof (cases "bus_targets s b = [] \<or> alive s b")
    case True
    then have "supervise_buses ops now (b # bs) n (s, w) = supervise_buses ops now bs n (s, w)" by simp
    moreover have "?dead s (b # bs) = ?dead s bs" using True by auto
    ultimately show ?thesis using True Cons.IH [OF Cons.prems, of n w] by auto
  next
    case False
    obtain s1 where s1: "advance_overdue b now s = (Inr (), s1)" "in_time s1" "sh_threads s1 = sh_threads s"
      using advance_overdue_runs [OF Cons.prems] False by blast
    obtain c s2 w2 where s2: "start_bus ops True b (s1, w) = (c, s2, w2)" by (metis prod.collapse)
    have al: "alive s1 x = alive s x" for x by (simp add: alive_def s1(3))
    note st = alive_start [OF s2]
    have "sh_jobs s2 = sh_jobs s1" using s2
      by (auto simp: start_bus_def update_log_def Let_def split: if_splits prod.splits)
    with s1(2) have time2: "in_time s2" by (simp add: in_time_def)
    have k: "keeps s s2" using advance_overdue_keeps [OF s1(1)] start_bus_keeps [OF s2] by (rule keeps_trans)
    then have bt: "bus_targets s2 x = bus_targets s x" for x by (simp add: keeps_def bus_targets_def)
    have c: c using st [of b] al [of b] False by simp
    have run: "supervise_buses ops now (b # bs) n (s, w) = supervise_buses ops now bs (n + 1) (s2, w2)"
      using False s1(1) s2 c by simp
    obtain s' w' where IH: "supervise_buses ops now bs (n + 1) (s2, w2) = (Inr (n + 1 + int (card (?dead s2 bs))), s', w')"
        "\<forall>x. alive s' x \<longleftrightarrow> alive s2 x \<or> x \<in> set bs \<and> bus_targets s2 x \<noteq> []"
      using Cons.IH [OF keeps_ok [OF k Cons.prems(1)] keeps_paced [OF k Cons.prems(2)] time2 Cons.prems(4), of "n + 1" w2]
      by auto
    have "?dead s (b # bs) = insert b (?dead s2 bs)" using False by (auto simp: bt st al)
    moreover have "b \<notin> ?dead s2 bs" by (simp add: st)
    ultimately have "int (card (?dead s (b # bs))) = 1 + int (card (?dead s2 bs))" by simp
    with IH run False show ?thesis by (auto simp: bt st al)
  qed
qed simp

text \<open>One round of supervision of a started scheduler leaves every bus that has targets with a living
  worker, reports how many it restarted, restarts none that was alive, and moves overdue deadlines without
  losing, adding or reordering a job.\<close>

theorem supervision_restarts:
  assumes "sched_reaches ops s" and "in_time s" and "sh_started s" and "\<not> so_stopped ops w"
    and "fst (so_clock ops w) \<le> 2 ^ 53"
  shows "\<exists>s' w'. supervise_workers ops s w = (Inr (int (card {b. bus_targets s b \<noteq> [] \<and> \<not> alive s b})), s', w')
    \<and> (\<forall>b. alive s' b \<longleftrightarrow> alive s b \<or> bus_targets s b \<noteq> []) \<and> keeps s s'"
proof -
  have ok: "scheduler_ok s" "paced s" using reaches_ok [OF assms(1)] by blast+
  obtain now w1 where now: "so_clock ops w = (now, w1)" by (cases "so_clock ops w")
  let ?buses = "sort (dkeys (sh_bus_jobs s))"
  have listed: "b \<in> set ?buses" if "bus_targets s b \<noteq> []" for b using listed_bus [OF that] by simp
  then have dead: "{b \<in> set ?buses. bus_targets s b \<noteq> [] \<and> \<not> alive s b} = {b. bus_targets s b \<noteq> [] \<and> \<not> alive s b}" by blast
  have "now \<le> 2 ^ 53" using assms(5) now by simp
  from supervise_buses_runs [OF ok assms(2) this, of ops ?buses 0 w1] obtain s' w' where
    run: "supervise_buses ops now ?buses 0 (s, w1) = (Inr (int (card {b. bus_targets s b \<noteq> [] \<and> \<not> alive s b})), s', w')"
      "\<forall>b. alive s' b \<longleftrightarrow> alive s b \<or> b \<in> set ?buses \<and> bus_targets s b \<noteq> []"
    unfolding dead by auto
  then have "supervise_workers ops s w = (Inr (int (card {b. bus_targets s b \<noteq> [] \<and> \<not> alive s b})), s', w')"
    using assms(3,4) now by (simp add: supervise_workers_def)
  with run(2) listed supervise_keeps [OF this] show ?thesis by blast
qed

section \<open>A concrete scheduler\<close>

text \<open>The clock stands at 100 seconds and nothing is stored yet.\<close>

definition sample_ops :: "unit sched_ops" where
  "sample_ops = \<lparr>so_clock = (\<lambda>w. (100, w)), so_wall = (\<lambda>w. (''2026-01-01T00:00:00+00:00'', w)),
     so_last_attempts = (\<lambda>w. (Inr [], w)), so_elapsed = (\<lambda>_ _. None),
     so_read = (\<lambda>_ w. (Inl (OSError ''no bus''), w)), so_record_attempt = (\<lambda>_ _ w. (Inr (), w)),
     so_record_result = (\<lambda>_ _ w. (Inr (), w)), so_retry = None, so_stopped = (\<lambda>_. False),
     so_wait = (\<lambda>_ w. (False, w)), so_idle = (\<lambda>_ w. w)\<rparr>"

lemma sample_reaches: "\<exists>s. sched_reaches sample_ops s"
proof -
  let ?s0 = "\<lparr>sh_policy = sample_sched_policy, sh_attempts = 3, sh_retry_delay = 1, sh_jobs = [], sh_bus_jobs = [],
     sh_endpoints = [], sh_metrics = [], sh_locks = [], sh_threads = [], sh_workers = [],
     sh_sequence = 0, sh_started = False, sh_revision = rg_revision (sample_registry ''active'')\<rparr>"
  obtain r s w where i: "install sample_ops (sample_registry ''active'') False ?s0 () = (r, s, w)" by (metis prod.collapse)
  have "False \<longrightarrow> scheduler_ok ?s0" by simp
  from sample_registry_ok this i have "r = Inr ()"
    by (cases rule: install_cases) (simp_all add: sample_ops_def)
  with i have "new_scheduler sample_ops sample_sched_policy 3 1 [] (sample_registry ''active'') () = (Inr s, w)"
    by (simp add: new_scheduler_def)
  with sample_registry_ok show ?thesis by (blast intro: sched_reaches.constructed)
qed

theorem scheduler_invariant_witness: "\<exists>s. sched_reaches sample_ops s \<and> scheduler_ok s \<and> paced s"
  using sample_reaches scheduler_invariant by blast

theorem reconcile_sound_witness:
  "\<exists>s s' w'. sched_reaches sample_ops s \<and> reconcile sample_ops (sample_registry ''active'') s () = (Inr (), s', w')
    \<and> set (dkeys (sh_jobs s')) = rt_target_id `
        {t \<in> set (rg_targets (sample_registry ''active'')). polled (sample_registry ''active'') t}"
proof -
  obtain s where s: "sched_reaches sample_ops s" using sample_reaches by blast
  then have ok: "scheduler_ok s" using reaches_ok by blast
  obtain r s' w' where run: "reconcile sample_ops (sample_registry ''active'') s () = (r, s', w')" by (metis prod.collapse)
  have "r \<noteq> Inl e" for e
  proof
    assume e: "r = Inl e"
    obtain s1 w1 where i: "install sample_ops (sample_registry ''active'') True s () = (r, s1, w1)"
      using run by (rule reconcile_install)
    have "True \<longrightarrow> scheduler_ok s" using ok by simp
    from sample_registry_ok this i show False using e
      by (cases rule: install_cases) (simp_all add: sample_ops_def)
  qed
  with reconcile_sound [OF sample_registry_ok ok run] s run show ?thesis by blast
qed

definition sample_started :: scheduler where
  "sample_started = fst (start_workers sample_ops (case fst (new_scheduler sample_ops sample_sched_policy 3 1 []
     (sample_registry ''active'') ()) of Inr s \<Rightarrow> s | Inl _ \<Rightarrow> sample_scheduler fresh_endpoint) ())"

definition deadlines_ok :: "scheduler \<Rightarrow> bool" where
  "deadlines_ok s = list_all (\<lambda>(i, j). 0 \<le> jb_next_deadline j) (sh_jobs s)"

lemma sample_started_reached: "sched_reaches sample_ops (worker_ends ''rs485-main'' sample_started)"
proof -
  obtain r w where new: "new_scheduler sample_ops sample_sched_policy 3 1 [] (sample_registry ''active'') () = (r, w)"
    by (metis prod.collapse)
  have "isOk (fst (new_scheduler sample_ops sample_sched_policy 3 1 [] (sample_registry ''active'') ()))" by code_simp
  with new obtain s where r: "r = Inr s" by (auto simp: isOk_iff)
  then have "sched_reaches sample_ops s" using sample_registry_ok new by (blast intro: sched_reaches.constructed)
  moreover have "start_workers sample_ops s () = (sample_started, snd (start_workers sample_ops s ()))"
    using new r by (simp add: sample_started_def prod_eq_iff)
  ultimately have "sched_reaches sample_ops sample_started" by (blast intro: sched_reaches.stepped sched_step.started)
  then show ?thesis by (blast intro: sched_reaches.stepped sched_step.worker_ended)
qed

theorem supervision_restarts_witness:
  "\<exists>n s' w'. supervise_workers sample_ops (worker_ends ''rs485-main'' sample_started) () = (Inr n, s', w')
    \<and> \<not> alive (worker_ends ''rs485-main'' sample_started) ''rs485-main'' \<and> alive s' ''rs485-main''"
proof -
  let ?s = "worker_ends ''rs485-main'' sample_started"
  have "deadlines_ok ?s" by code_simp
  then have "in_time ?s" by (auto simp: deadlines_ok_def in_time_def list_all_iff dest: dget_mem)
  moreover have "sh_started ?s" "bus_targets ?s ''rs485-main'' \<noteq> []" "\<not> alive ?s ''rs485-main''" by code_simp+
  moreover have "\<not> so_stopped sample_ops ()" "fst (so_clock sample_ops ()) \<le> 2 ^ 53" by (simp_all add: sample_ops_def)
  ultimately show ?thesis using supervision_restarts [OF sample_started_reached] by blast
qed

end
