(* ===== verification/LatestValues.thy ===== *)
theory LatestValues
  imports SchedulerPolicy BusyRetry
begin

text \<open>
  \<open>services/device-agent/latest_values.py\<close>: the latest value of every target in one SQLite table, with the
  counters of its attempts, behind the retry loop of \<open>BusyRetry\<close>. A payload is kept as the dictionary its
  JSON text stands for. The summary of the last good read answers a health probe that meets a lock.
\<close>

section \<open>State\<close>

record latest_row =
  lv_payload :: "(string, json) dict"
  lv_last_attempt :: string
  lv_last_success :: "string option"
  lv_updated :: string

type_synonym latest_table = "(string, latest_row) dict"

record latest_summary =
  ls_schema_version :: int
  ls_count :: int
  ls_last_attempt :: "string option"
  ls_last_success :: "string option"

record latest_store =
  lt_store :: "latest_table store"
  lt_cache :: latest_summary

section \<open>Recording an attempt\<close>

fun json_int :: "json \<Rightarrow> int result" where
  "json_int (JInt n) = Inr n"
| "json_int (JBool b) = Inr (of_bool b)"
| "json_int (JFloat x) = Inr (if 0 \<le> x then \<lfloor>x\<rfloor> else \<lceil>x\<rceil>)"
| "json_int (JStr s) = (case py_int s of
     Some n \<Rightarrow> Inr n
   | None \<Rightarrow> Inl (ValueError (''invalid literal for int() with base 10: '' @ py_repr s)))"
| "json_int _ = Inl (OtherError ''int() argument must be a string, a bytes-like object or a real number'')"

definition count_of :: "string \<Rightarrow> (string, json) dict \<Rightarrow> int result" where
  "count_of k d = json_int (dget_or d k (JInt 0))"

fun opt_json :: "('a \<Rightarrow> json) \<Rightarrow> 'a option \<Rightarrow> json" where
  "opt_json f None = JNull"
| "opt_json f (Some x) = f x"

text \<open>\<open>{**d, ...}\<close> and \<open>d.update(...)\<close>.\<close>

definition updated :: "(string \<times> json) list \<Rightarrow> (string, json) dict \<Rightarrow> (string, json) dict" where
  "updated entries d = foldl (\<lambda>d (k, v). dset k v d) d entries"

definition attempt_entries :: "sched_target \<Rightarrow> sched_result \<Rightarrow> int \<Rightarrow> int \<Rightarrow> int \<Rightarrow> int \<Rightarrow> (string \<times> json) list" where
  "attempt_entries t r attempts successes failures streak = (let rec = sr_record r in
     [(''target_id'', JStr (tg_target_id t)), (''source_target'', JStr (tg_target_id t)),
      (''bus_id'', JStr (tg_bus_id t)), (''device_family'', JStr (tg_family t)), (''unit_id'', JInt (tg_unit_id t)),
      (''metric'', JStr (tr_metric rec)), (''equipment_id'', opt_json JStr (tr_equipment_id rec)),
      (''channel_id'', opt_json JStr (tr_channel_id rec)), (''unit'', JStr (tr_unit rec)),
      (''quality'', JStr (tr_quality rec)), (''last_attempt_at'', JStr (tr_captured_at rec)),
      (''source'', JStr (tr_source rec)),
      (''last_error'', if sr_failed r then opt_json JStr (sr_error r) else JNull),
      (''attempts_total'', JInt attempts), (''successes_total'', JInt successes),
      (''communication_failures_total'', JInt failures), (''consecutive_failures'', JInt streak)])"

definition success_entries :: "sched_result \<Rightarrow> (string \<times> json) list" where
  "success_entries r = (let rec = sr_record r in
     [(''value'', opt_json JFloat (tr_value rec)), (''captured_at'', JStr (tr_captured_at rec)),
      (''last_success_at'', JStr (tr_captured_at rec)), (''alarm'', opt_json JStr (tr_alarm rec)),
      (''raw_value'', opt_json JInt (tr_raw_value rec)), (''raw_status'', opt_json JInt (tr_raw_status rec)),
      (''consecutive_failures'', JInt 0)])"

definition next_row :: "sched_target \<Rightarrow> sched_result \<Rightarrow> latest_row option \<Rightarrow> latest_row result" where
  "next_row t r row =
     (let previous = (case row of None \<Rightarrow> [] | Some x \<Rightarrow> lv_payload x);
          stamp = tr_captured_at (sr_record r)
      in ebind (count_of ''attempts_total'' previous) (\<lambda>attempts.
         ebind (count_of ''successes_total'' previous) (\<lambda>successes.
         ebind (count_of ''communication_failures_total'' previous) (\<lambda>failures.
         ebind (count_of ''consecutive_failures'' previous) (\<lambda>streak0.
           let streak = (if sr_failed r then streak0 + 1 else streak0);
               payload = updated (attempt_entries t r (attempts + 1)
                 (if sr_failed r then successes else successes + 1)
                 (if sr_failed r then failures + 1 else failures) streak) previous;
               recovered = (if 0 < streak then dset ''last_recovered_at'' (JStr stamp) payload else payload)
           in Inr (if sr_failed r then
                \<lparr>lv_payload = payload, lv_last_attempt = stamp,
                 lv_last_success = (case row of None \<Rightarrow> None | Some x \<Rightarrow> lv_last_success x), lv_updated = stamp\<rparr>
              else
                \<lparr>lv_payload = updated (success_entries r) recovered, lv_last_attempt = stamp,
                 lv_last_success = Some stamp, lv_updated = stamp\<rparr>))))))"

definition record_attempt_op :: "sched_target \<Rightarrow> sched_result \<Rightarrow> (latest_table, unit) operation" where
  "record_attempt_op t r gap db =
     (case next_row t r (dget db (tg_target_id t)) of
        Inl e \<Rightarrow> (Inl e, db)
      | Inr row \<Rightarrow> (Inr (), dset (tg_target_id t) row db))"

section \<open>Reading\<close>

definition last_attempts_op :: "(latest_table, (string, string) dict) operation" where
  "last_attempts_op gap db = (Inr (map (\<lambda>(i, row). (i, lv_last_attempt row)) db), db)"

fun batches :: "nat \<Rightarrow> 'a list \<Rightarrow> 'a list list" where
  "batches n xs = (if xs = [] \<or> n = 0 then [] else take n xs # batches n (drop n xs))"

declare batches.simps [simp del]

definition payloads_op :: "string list \<Rightarrow> (latest_table, (string, (string, json) dict) dict) operation" where
  "payloads_op ids gap db = (Inr (foldl (\<lambda>found batch.
     foldl (\<lambda>found (i, row). dset i (lv_payload row) found) found (filter (\<lambda>(i, row). i \<in> set batch) db))
     [] (batches 500 ids)), db)"

definition max_text :: "string list \<Rightarrow> string option" where
  "max_text xs = (if xs = [] then None else let m = foldr max xs [] in if m = [] then None else Some m)"

definition summary_of :: "latest_table \<Rightarrow> latest_summary" where
  "summary_of db = \<lparr>ls_schema_version = 1, ls_count = int (length db),
     ls_last_attempt = max_text (map (lv_last_attempt \<circ> snd) db),
     ls_last_success = max_text (List.map_filter (lv_last_success \<circ> snd) db)\<rparr>"

definition summary_op :: "(latest_table, latest_summary) operation" where
  "summary_op gap db = (Inr (summary_of db), db)"

definition snapshot_op :: "int \<Rightarrow> (latest_table, int \<times> (string, json) dict list) operation" where
  "snapshot_op bounded gap db = (Inr (int (length db),
     map (lv_payload \<circ> snd) (take (nat bounded) (sort_key fst db))), db)"

section \<open>The methods\<close>

definition on_store :: "('a result \<times> latest_table store) \<Rightarrow> latest_store \<Rightarrow> 'a result \<times> latest_store" where
  "on_store run s = (fst run, s\<lparr>lt_store := snd run\<rparr>)"

definition latest_init :: "int \<Rightarrow> int \<Rightarrow> pyfloat \<Rightarrow> int \<Rightarrow> latest_table \<Rightarrow> attempt list \<Rightarrow> latest_store result" where
  "latest_init busy_timeout_ms attempts delay health_busy_timeout_ms db script =
     ebind (store_init busy_timeout_ms attempts delay health_busy_timeout_ms db script) (\<lambda>st.
       case retry_busy ''initialize'' summary_op st of
         (Inl e, _) \<Rightarrow> Inl e
       | (Inr summary, st') \<Rightarrow> Inr \<lparr>lt_store = st', lt_cache = summary\<rparr>)"

definition record_attempt :: "sched_target \<Rightarrow> sched_result \<Rightarrow> latest_store \<Rightarrow> unit result \<times> latest_store" where
  "record_attempt t r s = on_store (retry_busy ''record_attempt'' (record_attempt_op t r) (lt_store s)) s"

definition last_attempts :: "latest_store \<Rightarrow> (string, string) dict result \<times> latest_store" where
  "last_attempts s = on_store (retry_busy ''last_attempts'' last_attempts_op (lt_store s)) s"

definition payloads_for :: "string list \<Rightarrow> latest_store \<Rightarrow> (string, (string, json) dict) dict result \<times> latest_store" where
  "payloads_for ids s =
     (if ids = [] then (Inr [], s) else on_store (retry_busy ''payloads_for'' (payloads_op ids) (lt_store s)) s)"

definition summary :: "latest_store \<Rightarrow> latest_summary result \<times> latest_store" where
  "summary s = (case on_store (retry_busy ''summary'' summary_op (lt_store s)) s of
       (Inl e, s') \<Rightarrow> (Inl e, s')
     | (Inr x, s') \<Rightarrow> (Inr x, s'\<lparr>lt_cache := x\<rparr>))"

text \<open>\<open>_read_health_summary\<close> opens its own read-only connection and makes one attempt.\<close>

definition health_summary :: "latest_store \<Rightarrow> (latest_summary \<times> bool) result \<times> latest_store" where
  "health_summary s = (case on_store (run_operation summary_op (lt_store s)) s of
       (Inr x, s') \<Rightarrow> (Inr (x, False), s'\<lparr>lt_cache := x\<rparr>)
     | (Inl (OperationalError msg), s') \<Rightarrow>
         if is_busy_error msg then
           (Inr (lt_cache s', True), s'\<lparr>lt_store := (lt_store s')\<lparr>bs_stale := bs_stale (lt_store s') + 1\<rparr>\<rparr>)
         else (Inl (OperationalError msg), s')
     | (Inl e, s') \<Rightarrow> (Inl e, s'))"

definition latest_snapshot :: "int \<Rightarrow> latest_store \<Rightarrow> (int \<times> (string, json) dict list) result \<times> latest_store" where
  "latest_snapshot limit s =
     on_store (retry_busy ''snapshot'' (snapshot_op (min 2000 (max 1 limit))) (lt_store s)) s"

section \<open>The table as a function of the history\<close>

text \<open>What a row says about the attempts of its target so far, the last one last.\<close>

definition streak :: "sched_result list \<Rightarrow> nat" where
  "streak rs = length (takeWhile sr_failed (rev rs))"

definition successes :: "sched_result list \<Rightarrow> sched_result list" where
  "successes rs = filter (\<lambda>r. \<not> sr_failed r) rs"

definition tells :: "latest_row \<Rightarrow> sched_result list \<Rightarrow> bool" where
  "tells row rs \<longleftrightarrow> rs \<noteq> []
     \<and> dget (lv_payload row) ''attempts_total'' = Some (JInt (int (length rs)))
     \<and> dget (lv_payload row) ''successes_total'' = Some (JInt (int (length (successes rs))))
     \<and> dget (lv_payload row) ''communication_failures_total'' = Some (JInt (int (length rs) - int (length (successes rs))))
     \<and> dget (lv_payload row) ''consecutive_failures'' = Some (JInt (int (streak rs)))
     \<and> dget (lv_payload row) ''last_error'' =
         Some (if sr_failed (last rs) then opt_json JStr (sr_error (last rs)) else JNull)
     \<and> dget (lv_payload row) ''last_attempt_at'' = Some (JStr (lv_last_attempt row))
     \<and> lv_last_attempt row = tr_captured_at (sr_record (last rs))
     \<and> (if successes rs = [] then lv_last_success row = None \<and> dget (lv_payload row) ''value'' = None
        else lv_last_success row = Some (tr_captured_at (sr_record (last (successes rs))))
          \<and> dget (lv_payload row) ''last_success_at'' = map_option JStr (lv_last_success row)
          \<and> dget (lv_payload row) ''value'' = Some (opt_json JFloat (tr_value (sr_record (last (successes rs))))))"

text \<open>The attempts of a target among those that were recorded.\<close>

definition attempts_of :: "string \<Rightarrow> (sched_target \<times> sched_result) list \<Rightarrow> sched_result list" where
  "attempts_of i logged = map snd (filter (\<lambda>(t, r). tg_target_id t = i) logged)"

definition table_tells :: "latest_table \<Rightarrow> (sched_target \<times> sched_result) list \<Rightarrow> bool" where
  "table_tells db logged \<longleftrightarrow> dict_ok db \<and> (\<forall>i. case dget db i of
     None \<Rightarrow> attempts_of i logged = [] | Some row \<Rightarrow> tells row (attempts_of i logged))"

text \<open>Recording a list of attempts; those that raise are left out of the logged.\<close>

fun record_all :: "(sched_target \<times> sched_result) list \<Rightarrow> latest_store \<Rightarrow> (sched_target \<times> sched_result) list \<times> latest_store" where
  "record_all [] s = ([], s)"
| "record_all ((t, r) # rest) s =
     (case record_attempt t r s of
        (Inr _, s1) \<Rightarrow> (case record_all rest s1 of (logged, s2) \<Rightarrow> ((t, r) # logged, s2))
      | (Inl _, s1) \<Rightarrow> record_all rest s1)"

lemma updated_get: "dget (updated es d) k = (case dget (rev es) k of None \<Rightarrow> dget d k | Some v \<Rightarrow> Some v)"
  unfolding updated_def
  by (induction es arbitrary: d) (auto simp: dget_dset map_add_def split: option.splits)

lemma streak_snoc: "streak (rs @ [r]) = (if sr_failed r then streak rs + 1 else 0)"
  by (simp add: streak_def)

lemma successes_snoc: "successes (rs @ [r]) = (if sr_failed r then successes rs else successes rs @ [r])"
  by (simp add: successes_def)


lemma next_row_first:
  "\<exists>row. next_row t r None = Inr row \<and> tells row [r]"
  by (cases "sr_failed r") (simp_all add: next_row_def count_of_def dget_or_def tells_def Let_def updated_get
      attempt_entries_def success_entries_def streak_def successes_def dget_dset)

lemma next_row_later:
  assumes "tells row rs"
  shows "\<exists>row'. next_row t r (Some row) = Inr row' \<and> tells row' (rs @ [r])"
proof (cases "sr_failed r")
  case True
  then show ?thesis using assms
    by (auto simp add: next_row_def count_of_def dget_or_def tells_def Let_def updated_get
        attempt_entries_def streak_snoc successes_snoc)
next
  case False
  then show ?thesis using assms
    by (auto simp add: next_row_def count_of_def dget_or_def tells_def Let_def updated_get
        attempt_entries_def success_entries_def streak_snoc successes_snoc dget_dset)
qed

lemma attempts_of_snoc:
  "attempts_of i (logged @ [(t, r)]) = (if tg_target_id t = i then attempts_of i logged @ [r] else attempts_of i logged)"
  by (simp add: attempts_of_def)

lemma record_op_tells:
  assumes "table_tells db logged"
  shows "\<exists>db'. record_attempt_op t r gap db = (Inr (), db') \<and> table_tells db' (logged @ [(t, r)])"
proof -
  let ?i = "tg_target_id t"
  have "\<exists>row. next_row t r (dget db ?i) = Inr row \<and> tells row (attempts_of ?i logged @ [r])"
  proof (cases "dget db ?i")
    case None
    with assms have "attempts_of ?i logged = []" unfolding table_tells_def by (metis option.simps(4))
    with None next_row_first [of t r] show ?thesis by simp
  next
    case (Some row)
    with assms have "tells row (attempts_of ?i logged)" unfolding table_tells_def by (metis option.simps(5))
    with Some next_row_later show ?thesis by simp
  qed
  then obtain row where row: "next_row t r (dget db ?i) = Inr row" "tells row (attempts_of ?i logged @ [r])" by blast
  have "table_tells (dset ?i row db) (logged @ [(t, r)])"
    unfolding table_tells_def attempts_of_snoc
  proof (intro conjI allI)
    show "dict_ok (dset ?i row db)" using assms by (auto simp: table_tells_def)
    fix i
    show "case dget (dset ?i row db) i of None \<Rightarrow> (if ?i = i then attempts_of i logged @ [r] else attempts_of i logged) = []
      | Some row \<Rightarrow> tells row (if ?i = i then attempts_of i logged @ [r] else attempts_of i logged)"
      using assms row(2) unfolding table_tells_def dget_dset by (cases "i = ?i") auto
  qed
  with row(1) show ?thesis by (simp add: record_attempt_op_def)
qed

lemma record_attempt_tells:
  assumes "record_attempt t r s = (x, s')" and "table_tells (cn_db (lt_store s)) logged"
  shows "(case x of Inr _ \<Rightarrow> table_tells (cn_db (lt_store s')) (logged @ [(t, r)])
    | Inl _ \<Rightarrow> cn_db (lt_store s') = cn_db (lt_store s))"
proof -
  obtain st' where run: "retry_busy ''record_attempt'' (record_attempt_op t r) (lt_store s) = (x, st')" "lt_store s' = st'"
    using assms(1) by (cases "retry_busy ''record_attempt'' (record_attempt_op t r) (lt_store s)")
      (auto simp: record_attempt_def on_store_def)
  from retry_busy_once [OF run(1)] record_op_tells [OF assms(2), of t r] run(2) show ?thesis
    by (auto split: sum.splits) (metis prod.inject)
qed

lemma retry_uncontended:
  assumes "cn_script st = []" and "0 < bs_attempts st" and "op 0 (cn_db st) = (Inr a, d)"
  shows "\<exists>st'. retry_busy label op st = (Inr a, st') \<and> cn_script st' = [] \<and> bs_attempts st' = bs_attempts st"
proof -
  obtain k where k: "nat (bs_attempts st) = Suc k" using assms(2) by (metis not0_implies_Suc zero_less_nat_eq less_not_refl)
  show ?thesis using assms(1,3) by (simp add: retry_busy_def k run_operation_def next_attempt_def)
qed

lemma record_uncontended:
  assumes "cn_script (lt_store s) = []" and "0 < bs_attempts (lt_store s)" and "table_tells (cn_db (lt_store s)) logged"
  shows "\<exists>s1. record_attempt t r s = (Inr (), s1) \<and> cn_script (lt_store s1) = [] \<and> 0 < bs_attempts (lt_store s1)"
proof -
  obtain db' where "record_attempt_op t r 0 (cn_db (lt_store s)) = (Inr (), db')"
    using record_op_tells [OF assms(3)] by blast
  from retry_uncontended [where op = "record_attempt_op t r", OF assms(1,2) this] obtain st' where
    "retry_busy ''record_attempt'' (record_attempt_op t r) (lt_store s) = (Inr (), st')" "cn_script st' = []"
    "bs_attempts st' = bs_attempts (lt_store s)" by blast
  with assms(2) show ?thesis by (simp add: record_attempt_def on_store_def)
qed

text \<open>C40: After any sequence of attempts, whatever the contention on the database, the table tells their
  history. Every target that was attempted has one row; the row counts its attempts, successes and
  failures exactly and the failures since the last success, and it holds the value and the time of the
  last success, and the time and the error of the last attempt. An attempt that could not be stored leaves
  no trace, and without contention all are stored.\<close>

theorem latest_tells_history:
  assumes "table_tells (cn_db (lt_store s)) past" and "record_all attempts s = (logged, s')"
  shows "table_tells (cn_db (lt_store s')) (past @ logged) \<and> set logged \<subseteq> set attempts
    \<and> (cn_script (lt_store s) = [] \<and> 0 < bs_attempts (lt_store s) \<longrightarrow> logged = attempts)"
  using assms
proof (induction attempts arbitrary: s past logged)
  case (Cons a attempts)
  obtain t r where a: "a = (t, r)" by (cases a)
  obtain x s1 where x: "record_attempt t r s = (x, s1)" by (metis prod.collapse)
  obtain logged1 where rest: "record_all attempts s1 = (logged1, s')"
    and logged: "logged = (case x of Inr _ \<Rightarrow> (t, r) # logged1 | Inl _ \<Rightarrow> logged1)"
    using Cons.prems(2) x by (auto simp: a split: sum.splits prod.splits)
  note told = record_attempt_tells [OF x Cons.prems(1)]
  show ?case
  proof (cases x)
    case (Inl e)
    have "\<not> (cn_script (lt_store s) = [] \<and> 0 < bs_attempts (lt_store s))"
      using record_uncontended [OF _ _ Cons.prems(1), of t r] x Inl by auto
    with told Inl logged Cons.IH [OF _ rest, of past] Cons.prems(1) show ?thesis by auto
  next
    case (Inr u)
    have c: "cn_script (lt_store s1) = [] \<and> 0 < bs_attempts (lt_store s1)"
      if "cn_script (lt_store s) = [] \<and> 0 < bs_attempts (lt_store s)"
      using record_uncontended [OF _ _ Cons.prems(1), of t r] x that by auto
    with told Inr logged Cons.IH [OF _ rest, of "past @ [(t, r)]"] show ?thesis by (auto simp: a)
  qed
qed simp

definition sample_attempt :: "bool \<Rightarrow> string \<Rightarrow> sched_result" where
  "sample_attempt failed stamp = \<lparr>sr_record = \<lparr>tr_event_id = ''e'', tr_node_id = ''n'', tr_captured_at = stamp,
     tr_metric = ''temperature.probe'', tr_value = (if failed then None else Some 4), tr_unit = ''C'', tr_quality = ''valid'',
     tr_source = ''s'', tr_equipment_id = None, tr_channel_id = Some ''c'', tr_alarm = None, tr_raw_value = None,
     tr_raw_status = None\<rparr>, sr_failed = failed, sr_error = (if failed then Some ''timeout'' else None)\<rparr>"

definition sample_point :: sched_target where
  "sample_point = \<lparr>tg_target_id = ''t'', tg_bus_id = ''b'', tg_device_id = ''d'', tg_family = ''xjp60d'',
     tg_unit_id = 1, tg_key = ''channel-1'', tg_channel_id = ''c'', tg_metric = ''temperature.probe'', tg_unit = ''C'',
     tg_priority = High, tg_interval = 30\<rparr>"

theorem latest_tells_history_witness:
  "\<exists>s s' row. latest_init 2000 3 0 100 [] [] = Inr s
     \<and> record_all (map (Pair sample_point) [sample_attempt False ''1'', sample_attempt True ''2'', sample_attempt True ''3'']) s
       = (map (Pair sample_point) [sample_attempt False ''1'', sample_attempt True ''2'', sample_attempt True ''3''], s')
     \<and> dget (cn_db (lt_store s')) ''t'' = Some row
     \<and> dget (lv_payload row) ''consecutive_failures'' = Some (JInt 2) \<and> lv_last_success row = Some ''1''"
proof -
  let ?as = "map (Pair sample_point) [sample_attempt False ''1'', sample_attempt True ''2'', sample_attempt True ''3'']"
  have "isOk (latest_init 2000 3 0 100 [] [])" by code_simp
  then obtain s where s: "latest_init 2000 3 0 100 [] [] = Inr s" by (auto simp: isOk_iff)
  then have st: "cn_db (lt_store s) = []" "cn_script (lt_store s) = []" "bs_attempts (lt_store s) = 3"
    by (auto simp: latest_init_def store_init_def retry_busy_def eval_nat_numeral run_operation_def next_attempt_def
        summary_op_def split: if_splits)
  then have "table_tells (cn_db (lt_store s)) []" by (simp add: table_tells_def attempts_of_def)
  moreover obtain logged s' where run: "record_all ?as s = (logged, s')" by (metis prod.collapse)
  ultimately have told: "table_tells (cn_db (lt_store s')) ?as" and "logged = ?as"
    using latest_tells_history [of s "[]" ?as logged s'] st by auto
  have of: "attempts_of ''t'' ?as = [sample_attempt False ''1'', sample_attempt True ''2'', sample_attempt True ''3'']"
    by (simp add: attempts_of_def sample_point_def)
  then obtain row where row: "dget (cn_db (lt_store s')) ''t'' = Some row"
      "tells row [sample_attempt False ''1'', sample_attempt True ''2'', sample_attempt True ''3'']"
    using told [unfolded table_tells_def, THEN conjunct2, rule_format, of "''t''"] by (auto split: option.splits)
  have "streak [sample_attempt False ''1'', sample_attempt True ''2'', sample_attempt True ''3''] = 2"
    "successes [sample_attempt False ''1'', sample_attempt True ''2'', sample_attempt True ''3''] = [sample_attempt False ''1'']"
    by (simp_all add: streak_def successes_def sample_attempt_def)
  with row(2) have "dget (lv_payload row) ''consecutive_failures'' = Some (JInt 2) \<and> lv_last_success row = Some ''1''"
    by (simp add: tells_def) (simp add: sample_attempt_def)
  with s run row(1) \<open>logged = ?as\<close> show ?thesis by blast
qed

section \<open>Batches\<close>

lemma batches_set: "n \<noteq> 0 \<Longrightarrow> \<Union> (set ` set (batches n xs)) = set xs"
proof (induction n xs rule: batches.induct)
  case (1 n xs)
  show ?case
  proof (cases "xs = []")
    case False
    with 1 have "\<Union> (set ` set (batches n xs)) = set (take n xs) \<union> set (drop n xs)"
      by (subst batches.simps) simp
    then show ?thesis by (metis append_take_drop_id set_append)
  qed (simp add: batches.simps)
qed

lemma collect_rows:
  assumes "dict_ok rows"
  shows "dget (foldl (\<lambda>found (i, row). dset i (f row) found) found rows) k
    = (case dget rows k of None \<Rightarrow> dget found k | Some row \<Rightarrow> Some (f row))"
  using assms
proof (induction rows arbitrary: found)
  case (Cons x rows)
  obtain i row where x: "x = (i, row)" by (cases x)
  with Cons.prems have "dget rows i = None" "dict_ok rows" by (auto simp: dict_ok_def map_of_eq_None_iff)
  with Cons.IH show ?case by (auto simp: x dget_dset split: option.splits)
qed simp

lemma filtered_rows: "dget (filter (\<lambda>(i, row). i \<in> A) db) k = (if k \<in> A then dget db k else None)"
  by (induction db) auto

text \<open>Asking for the payloads in batches of 500 ids gives exactly the payloads of the ids asked for.\<close>

theorem payloads_batched:
  assumes "dict_ok db"
  shows "\<exists>found. payloads_op ids gap db = (Inr found, db)
    \<and> (\<forall>i. dget found i = (if i \<in> set ids then map_option lv_payload (dget db i) else None))"
proof -
  let ?collect = "\<lambda>found batch. foldl (\<lambda>found (i, row). dset i (lv_payload row) found) found (filter (\<lambda>(i, row). i \<in> set batch) db)"
  have ok: "dict_ok (filter (\<lambda>(i, row). i \<in> A) db)" for A
    using assms unfolding dict_ok_def by (rule distinct_map_filter)
  have one: "dget (?collect found batch) i
      = (if i \<in> set batch \<and> dget db i \<noteq> None then map_option lv_payload (dget db i) else dget found i)" for found batch i
    unfolding collect_rows [OF ok] filtered_rows by (auto split: option.split)
  have "dget (foldl ?collect found bs) i
      = (if i \<in> \<Union> (set ` set bs) \<and> dget db i \<noteq> None then map_option lv_payload (dget db i) else dget found i)" for found bs i
    by (induction bs arbitrary: found) (auto simp: one)
  from this [of "[]" "batches 500 ids"] show ?thesis by (auto simp: payloads_op_def batches_set)
qed

end
