(* ===== verification/Instants.thy ===== *)
theory Instants
  imports PyStr
begin

text \<open>
  Aware \<open>datetime\<close> values as the telemetry service and the Telegram gateway use them: an instant is the
  number of microseconds since 1970-01-01T00:00:00 UTC. A column or field that holds \<open>isoformat()\<close> text of
  a UTC instant is modelled by the instant: \<open>datetime.fromisoformat\<close> reads it back, and the text order of
  two such values is their order in time, which is what \<open>MIN\<close> and \<open><=\<close> of the SQL statements compare.
\<close>

type_synonym instant = int

abbreviation second :: int where "second \<equiv> 1000000"

text \<open>0001-01-01T00:00:00 and 9999-12-31T23:59:59.999999.\<close>

definition instant_min :: instant where "instant_min = - 62135596800 * second"
definition instant_max :: instant where "instant_max = 253402300800 * second - 1"

text \<open>\<open>timedelta(seconds=n)\<close>, in microseconds: its days field is limited to nine digits.\<close>

definition timedelta_of :: "int \<Rightarrow> int result" where
  "timedelta_of seconds = (let days = seconds div 86400 in
     if \<bar>days\<bar> \<le> 999999999 then Inr (seconds * second)
     else Inl (OverflowError (''days='' @ dec days @ ''; must have magnitude <= 999999999'')))"

definition add_delta :: "instant \<Rightarrow> int \<Rightarrow> instant result" where
  "add_delta t d = (if instant_min \<le> t + d \<and> t + d \<le> instant_max then Inr (t + d)
     else Inl (OverflowError ''date value out of range''))"

text \<open>\<open>t + timedelta(seconds=n)\<close>.\<close>

definition after_seconds :: "instant \<Rightarrow> int \<Rightarrow> instant result" where
  "after_seconds t n = ebind (timedelta_of n) (add_delta t)"

definition is_instant :: "instant \<Rightarrow> bool" where
  "is_instant t = (instant_min \<le> t \<and> t \<le> instant_max)"

text \<open>\<open>(b - a).total_seconds()\<close>: one correctly rounded division.\<close>

definition seconds_between :: "instant \<Rightarrow> instant \<Rightarrow> pyfloat" where
  "seconds_between a b = fl (of_int (b - a) / 1000000)"

lemma after_seconds_Inr: "after_seconds t n = Inr u \<Longrightarrow> u = t + n * second \<and> is_instant u"
  by (auto simp: after_seconds_def timedelta_of_def add_delta_def is_instant_def ebind_eq_Inr Let_def split: if_splits)

lemma after_seconds_Inl: "after_seconds t n = Inl e \<Longrightarrow> \<exists>m. e = OverflowError m"
  by (auto simp: after_seconds_def timedelta_of_def add_delta_def ebind_eq_Inl Let_def split: if_splits)

lemma after_seconds_iff:
  assumes "is_instant t"
  shows "after_seconds t n = (if is_instant (t + n * second) then Inr (t + n * second) else after_seconds t n)"
proof (cases "is_instant (t + n * second)")
  case True
  with assms have "\<bar>n * second\<bar> \<le> instant_max - instant_min" by (auto simp: is_instant_def)
  then have "\<bar>n\<bar> * second \<le> 315537897600 * second - 1" by (simp add: instant_min_def instant_max_def abs_mult)
  then have "\<bar>n\<bar> < 315537897600" by simp
  then have "\<bar>n div 86400\<bar> \<le> 999999999" by auto
  with True show ?thesis by (simp add: after_seconds_def timedelta_of_def add_delta_def is_instant_def Let_def)
qed simp

lemma after_seconds_ok: "is_instant t \<Longrightarrow> is_instant (t + n * second) \<Longrightarrow> after_seconds t n = Inr (t + n * second)"
  by (subst after_seconds_iff) simp_all

lemma seconds_between_nonneg: "a \<le> b \<Longrightarrow> 0 \<le> seconds_between a b"
  unfolding seconds_between_def by (rule fl_nonneg) simp

text \<open>\<open>a or b\<close> of optional strings: the empty string is false.\<close>

definition or_text :: "string option \<Rightarrow> string option \<Rightarrow> string option" where
  "or_text a b = (if a = None \<or> a = Some [] then b else a)"

text \<open>Rows listed in the order of their ids are told apart by them.\<close>

lemma ids_determine:
  assumes "sorted_wrt (<) (map f xs)" and "a \<in> set xs" and "b \<in> set xs" and "f a = (f b :: int)"
  shows "a = b"
proof -
  have "distinct (map f xs)" using assms(1) by (simp add: strict_sorted_iff)
  then show ?thesis using assms(2-4) by (auto simp: distinct_map dest: inj_onD)
qed

end
