(* ===== verification/RuntimeState.thy ===== *)
theory RuntimeState
  imports Instants
begin

text \<open>
  \<open>services/telemetry-service/app/state.py\<close>: the counters and the health flags of the telemetry service.
  \<open>increment\<close> takes the name of a counter; here the names are the constructors of \<open>counter\<close>. Every method
  runs under the lock of the object, so it is one step.
\<close>

section \<open>State\<close>

datatype counter =
    received_total | accepted_total | persisted_total | duplicate_total | rejected_total
  | queue_dropped_total | dead_letter_queued_total | dead_letter_persisted_total
  | dead_letter_dropped_total | persistence_failure_total | database_retry_total
  | post_persist_retry_total | database_recovery_total | spool_staged_total | spool_duplicate_total
  | spool_recovered_total | spool_replayed_total | spool_terminal_total | spool_capacity_failure_total
  | spool_error_total | mqtt_manual_ack_total | mqtt_ack_failure_total | mqtt_stage_retry_total
  | retention_runs_total | retention_failure_total | retention_deleted_telemetry_total
  | retention_redacted_raw_payload_total | retention_deleted_dead_letter_total
  | websocket_connect_total | websocket_disconnect_total | websocket_broadcast_total
  | websocket_filtered_total | websocket_slow_consumer_total | websocket_send_timeout_total
  | websocket_heartbeat_total | websocket_resume_total | websocket_publish_error_total

record runtime =
  rs_mqtt_connected :: bool
  rs_database_ready :: bool
  rs_spool_ready :: bool
  rs_count :: "counter \<Rightarrow> int"
  rs_queue_size :: int
  rs_queue_capacity :: "int option"
  rs_dead_letter_by_reason :: "(string, int) dict"
  rs_spool_pending_records :: int
  rs_spool_terminal_records :: int
  rs_spool_payload_bytes :: int
  rs_spool_oldest_pending_age_seconds :: "pyfloat option"
  rs_spool_max_records :: "int option"
  rs_spool_max_bytes :: "int option"
  rs_websocket_clients :: int
  rs_last_persisted_at :: "instant option"
  rs_last_event_captured_at :: "instant option"
  rs_ingestion_lag_seconds :: "pyfloat option"
  rs_database_outage_since :: "instant option"
  rs_last_database_recovery_at :: "instant option"
  rs_mqtt_error :: "string option"
  rs_database_error :: "string option"
  rs_operational_error :: "string option"
  rs_last_error :: "string option"

definition runtime_init :: runtime where
  "runtime_init = \<lparr>rs_mqtt_connected = False, rs_database_ready = False, rs_spool_ready = False,
     rs_count = (\<lambda>_. 0), rs_queue_size = 0, rs_queue_capacity = None, rs_dead_letter_by_reason = [],
     rs_spool_pending_records = 0, rs_spool_terminal_records = 0, rs_spool_payload_bytes = 0,
     rs_spool_oldest_pending_age_seconds = None, rs_spool_max_records = None, rs_spool_max_bytes = None,
     rs_websocket_clients = 0, rs_last_persisted_at = None, rs_last_event_captured_at = None,
     rs_ingestion_lag_seconds = None, rs_database_outage_since = None, rs_last_database_recovery_at = None,
     rs_mqtt_error = None, rs_database_error = None, rs_operational_error = None, rs_last_error = None\<rparr>"

section \<open>Methods\<close>

definition refresh_last_error :: "runtime \<Rightarrow> runtime" where
  "refresh_last_error s = s\<lparr>rs_last_error := or_text (or_text (rs_database_error s) (rs_mqtt_error s)) (rs_operational_error s)\<rparr>"

definition set_mqtt_connected :: "bool \<Rightarrow> runtime \<Rightarrow> runtime" where
  "set_mqtt_connected v s = s\<lparr>rs_mqtt_connected := v\<rparr>"

definition set_mqtt_error :: "string option \<Rightarrow> runtime \<Rightarrow> runtime" where
  "set_mqtt_error m s = refresh_last_error (s\<lparr>rs_mqtt_error := m\<rparr>)"

definition increment_by :: "counter \<Rightarrow> int \<Rightarrow> runtime \<Rightarrow> runtime" where
  "increment_by c v s = s\<lparr>rs_count := (rs_count s)(c := rs_count s c + v)\<rparr>"

abbreviation increment :: "counter \<Rightarrow> runtime \<Rightarrow> runtime" where
  "increment c \<equiv> increment_by c 1"

definition mark_database_failure :: "instant \<Rightarrow> string \<Rightarrow> runtime \<Rightarrow> runtime" where
  "mark_database_failure now message s = refresh_last_error (s\<lparr>rs_database_ready := False,
     rs_database_outage_since := (case rs_database_outage_since s of None \<Rightarrow> Some now | Some t \<Rightarrow> Some t),
     rs_database_error := Some message\<rparr>)"

text \<open>The end of an outage, as \<open>mark_database_success\<close>, \<open>mark_persisted\<close> and \<open>mark_dead_letter_persisted\<close>
  have it.\<close>

definition note_recovery :: "instant \<Rightarrow> runtime \<Rightarrow> runtime" where
  "note_recovery now s = (if rs_database_outage_since s = None then s
     else (increment database_recovery_total s)\<lparr>rs_last_database_recovery_at := Some now\<rparr>)"

definition mark_database_success :: "instant \<Rightarrow> runtime \<Rightarrow> runtime" where
  "mark_database_success now s = refresh_last_error ((note_recovery now s)\<lparr>rs_database_ready := True,
     rs_database_outage_since := None, rs_database_error := None\<rparr>)"

definition set_database_ready :: "instant \<Rightarrow> bool \<Rightarrow> runtime \<Rightarrow> runtime" where
  "set_database_ready now v s = (if v then mark_database_success now s else s\<lparr>rs_database_ready := False\<rparr>)"

definition set_queue_size :: "int \<Rightarrow> runtime \<Rightarrow> runtime" where
  "set_queue_size v s = s\<lparr>rs_queue_size := v\<rparr>"

definition set_queue_capacity :: "int \<Rightarrow> runtime \<Rightarrow> runtime result" where
  "set_queue_capacity v s = (if v < 1 then Inl (ValueError ''queue capacity must be positive'')
     else Inr (s\<lparr>rs_queue_capacity := Some v\<rparr>))"

definition set_spool_ready :: "bool \<Rightarrow> runtime \<Rightarrow> runtime" where
  "set_spool_ready v s = s\<lparr>rs_spool_ready := v\<rparr>"

definition set_spool_capacity :: "int \<Rightarrow> int \<Rightarrow> runtime \<Rightarrow> runtime result" where
  "set_spool_capacity max_records max_bytes s =
     (if max_records < 1 \<or> max_bytes < 1 then Inl (ValueError ''spool capacity must be positive'')
      else Inr (s\<lparr>rs_spool_max_records := Some max_records, rs_spool_max_bytes := Some max_bytes\<rparr>))"

definition set_spool_stats :: "int \<Rightarrow> int \<Rightarrow> int \<Rightarrow> pyfloat option \<Rightarrow> runtime \<Rightarrow> runtime" where
  "set_spool_stats pending terminal payload_bytes age s = s\<lparr>rs_spool_pending_records := pending,
     rs_spool_terminal_records := terminal, rs_spool_payload_bytes := payload_bytes,
     rs_spool_oldest_pending_age_seconds := age\<rparr>"

definition set_websocket_clients :: "int \<Rightarrow> runtime \<Rightarrow> runtime" where
  "set_websocket_clients v s = s\<lparr>rs_websocket_clients := v\<rparr>"

definition mark_persisted :: "instant \<Rightarrow> instant \<Rightarrow> runtime \<Rightarrow> runtime" where
  "mark_persisted now captured_at s =
     (let lag = max 0 (seconds_between captured_at now);
          s1 = (increment persisted_total s)\<lparr>rs_last_persisted_at := Some now,
                 rs_last_event_captured_at := Some captured_at, rs_ingestion_lag_seconds := Some lag,
                 rs_database_ready := True\<rparr>
      in refresh_last_error ((note_recovery now s1)\<lparr>rs_database_outage_since := None,
           rs_database_error := None, rs_operational_error := None\<rparr>))"

definition mark_dead_letter_persisted :: "instant \<Rightarrow> string \<Rightarrow> runtime \<Rightarrow> runtime" where
  "mark_dead_letter_persisted now reason_code s =
     (let current = dget_or (rs_dead_letter_by_reason s) reason_code 0;
          s1 = (increment dead_letter_persisted_total s)\<lparr>rs_dead_letter_by_reason :=
                 dset reason_code (current + 1) (rs_dead_letter_by_reason s), rs_database_ready := True\<rparr>
      in refresh_last_error ((note_recovery now s1)\<lparr>rs_database_outage_since := None, rs_database_error := None\<rparr>))"

definition mark_retention :: "int \<Rightarrow> int \<Rightarrow> int \<Rightarrow> runtime \<Rightarrow> runtime" where
  "mark_retention telemetry_deleted raw_payloads_redacted dead_letters_deleted s =
     increment_by retention_deleted_dead_letter_total dead_letters_deleted
       (increment_by retention_redacted_raw_payload_total raw_payloads_redacted
         (increment_by retention_deleted_telemetry_total telemetry_deleted
           (increment retention_runs_total s)))"

definition set_error :: "string option \<Rightarrow> runtime \<Rightarrow> runtime" where
  "set_error m s = refresh_last_error (s\<lparr>rs_operational_error := m\<rparr>)"

section \<open>The invariant\<close>

text \<open>The last error is the first one present; a database that is ready has no outage open and no error;
  every dead letter is counted under one reason.\<close>

definition runtime_ok :: "runtime \<Rightarrow> bool" where
  "runtime_ok s = (rs_last_error s = or_text (or_text (rs_database_error s) (rs_mqtt_error s)) (rs_operational_error s)
     \<and> (rs_database_ready s \<longrightarrow> rs_database_outage_since s = None \<and> rs_database_error s = None)
     \<and> (rs_database_outage_since s = None \<longleftrightarrow> rs_database_error s = None)
     \<and> dict_ok (rs_dead_letter_by_reason s)
     \<and> rs_count s dead_letter_persisted_total = sum_list (map snd (rs_dead_letter_by_reason s)))"

named_theorems runtime_defs

lemmas runtime_methods [runtime_defs] = refresh_last_error_def set_mqtt_connected_def set_mqtt_error_def
  increment_by_def mark_database_failure_def note_recovery_def mark_database_success_def set_database_ready_def
  set_queue_size_def set_spool_ready_def set_spool_stats_def set_websocket_clients_def mark_persisted_def
  mark_dead_letter_persisted_def mark_retention_def set_error_def Let_def

lemma runtime_init_ok: "runtime_ok runtime_init"
  by (simp add: runtime_ok_def runtime_init_def or_text_def)

lemma sum_snd_dset: "dict_ok d \<Longrightarrow> sum_list (map snd (dset k v d)) = sum_list (map snd d) + v - dget_or d k (0::int)"
  by (induction d) (auto simp: dget_or_def dict_ok_def split: option.splits dest: dget_key_in)

named_theorems runtime_keeps

lemma runtime_ok_set [runtime_keeps]: "runtime_ok s \<Longrightarrow> runtime_ok (set_mqtt_connected b s)"
  "runtime_ok s \<Longrightarrow> runtime_ok (set_mqtt_error m s)" "runtime_ok s \<Longrightarrow> runtime_ok (set_queue_size n s)"
  "runtime_ok s \<Longrightarrow> runtime_ok (set_spool_ready b s)" "runtime_ok s \<Longrightarrow> runtime_ok (set_spool_stats a c d e s)"
  "runtime_ok s \<Longrightarrow> runtime_ok (set_websocket_clients n s)" "runtime_ok s \<Longrightarrow> runtime_ok (set_error m s)"
  by (simp_all add: runtime_ok_def runtime_defs)

lemma runtime_ok_mark [runtime_keeps]: "runtime_ok s \<Longrightarrow> runtime_ok (mark_database_failure now m s)"
  "runtime_ok s \<Longrightarrow> runtime_ok (mark_database_success now s)" "runtime_ok s \<Longrightarrow> runtime_ok (mark_persisted now t s)"
  "runtime_ok s \<Longrightarrow> runtime_ok (mark_dead_letter_persisted now r s)"
  by (auto simp: runtime_ok_def runtime_defs sum_snd_dset split: option.splits)

lemma runtime_ok_database_ready [runtime_keeps]: "runtime_ok s \<Longrightarrow> runtime_ok (set_database_ready now b s)"
  by (cases b) (simp_all add: set_database_ready_def runtime_keeps, simp add: runtime_ok_def)

lemma runtime_ok_increment [runtime_keeps]:
  "runtime_ok s \<Longrightarrow> c \<noteq> dead_letter_persisted_total \<Longrightarrow> runtime_ok (increment_by c n s)"
  by (simp add: runtime_ok_def runtime_defs)

lemma runtime_ok_retention [runtime_keeps]: "runtime_ok s \<Longrightarrow> runtime_ok (mark_retention a b c s)"
  by (simp add: mark_retention_def runtime_keeps)

lemma runtime_ok_capacity: "runtime_ok s \<Longrightarrow> set_spool_capacity a b s = Inr s' \<Longrightarrow> runtime_ok s'"
  "runtime_ok s \<Longrightarrow> set_queue_capacity a s = Inr s' \<Longrightarrow> runtime_ok s'"
  by (auto simp: set_spool_capacity_def set_queue_capacity_def runtime_ok_def split: if_splits)

end
