(* ===== verification/DurableSpool.thy ===== *)
theory DurableSpool
  imports Instants
begin

text \<open>
  \<open>services/telemetry-service/app/durable_spool.py\<close>: the SQLite table that owns a unit of ingestion work
  from its arrival until the database has it. Rows are listed in the order of their AUTOINCREMENT id.

  SQLite is not code of the repository. \<open>sp_script\<close> says what the next calls of the spool meet:
  \<open>Failing msg\<close> is a \<open>sqlite3.Error\<close> with that message somewhere before the commit, after which
  \<open>rollback\<close> leaves the table as it was; \<open>Working gap pick\<close> runs the call, \<open>gap\<close> being the ids the
  AUTOINCREMENT skips and \<open>pick\<close> the row that \<open>LIMIT 1\<close> without an order returns. Every theorem holds for every
  script.
\<close>

section \<open>State\<close>

datatype disk = Failing string | Working nat nat

record spool_row =
  sw_id :: int
  sw_status :: string
  sw_work_type :: string
  sw_event_id :: "string option"
  sw_delivery_key :: "string option"
  sw_payload :: "byte list"
  sw_topic :: "string option"
  sw_received_at :: instant
  sw_payload_size :: int
  sw_payload_truncated :: bool
  sw_reason_code :: "string option"
  sw_reason_detail :: "string option"
  sw_created_at :: instant
  sw_attempts :: int
  sw_last_error :: "string option"
  sw_last_attempt_at :: "instant option"
  sw_terminal_at :: "instant option"

record spool =
  sp_rows :: "spool_row list"
  sp_last_id :: int
  sp_max_records :: int
  sp_max_bytes :: int
  sp_script :: "disk list"

record append_result =
  ar_record_id :: int
  ar_duplicate :: bool

record spool_stats =
  ss_pending_records :: int
  ss_terminal_records :: int
  ss_payload_bytes :: int
  ss_oldest_pending_at :: "instant option"
  ss_max_record_id :: int

definition total_records :: "spool_stats \<Rightarrow> int" where
  "total_records st = ss_pending_records st + ss_terminal_records st"

definition oldest_pending_age_seconds :: "instant \<Rightarrow> spool_stats \<Rightarrow> pyfloat option" where
  "oldest_pending_age_seconds now st = (case ss_oldest_pending_at st of None \<Rightarrow> None
     | Some t \<Rightarrow> Some (max 0 (seconds_between t now)))"

text \<open>One call under the lock: it takes the next entry of the script.\<close>

definition on_disk :: "string \<Rightarrow> (nat \<Rightarrow> nat \<Rightarrow> spool \<Rightarrow> 'a result \<times> spool) \<Rightarrow> spool \<Rightarrow> 'a result \<times> spool" where
  "on_disk what call sp =
     (case sp_script sp of
        [] \<Rightarrow> call 0 0 sp
      | Failing msg # rest \<Rightarrow> (Inl (DurableSpoolError (what @ '': '' @ msg)), sp\<lparr>sp_script := rest\<rparr>)
      | Working gap pick # rest \<Rightarrow> call gap pick (sp\<lparr>sp_script := rest\<rparr>))"

section \<open>The table\<close>

definition spool_init :: "int \<Rightarrow> int \<Rightarrow> pyfloat \<Rightarrow> spool_row list \<Rightarrow> int \<Rightarrow> disk list \<Rightarrow> spool result" where
  "spool_init max_records max_bytes busy_timeout_seconds rows last_id script =
     (if max_records < 1 then Inl (ValueError ''spool max_records must be positive'')
      else if max_bytes < 1 then Inl (ValueError ''spool max_bytes must be positive'')
      else if busy_timeout_seconds \<le> 0 then Inl (ValueError ''spool busy timeout must be positive'')
      else fst (on_disk ''failed to initialize ingestion spool'' (\<lambda>gap pick sp. (Inr sp, sp))
        \<lparr>sp_rows = rows, sp_last_id = last_id, sp_max_records = max_records, sp_max_bytes = max_bytes,
         sp_script = script\<rparr>))"

definition payload_bytes :: "spool_row list \<Rightarrow> int" where
  "payload_bytes rows = (\<Sum>r\<leftarrow>rows. int (length (sw_payload r)))"

definition is_pending :: "spool_row \<Rightarrow> bool" where
  "is_pending r = (sw_status r = ''pending'')"

text \<open>The CHECK constraints of the table and its two partial unique indices.\<close>

definition checks_ok :: "spool_row \<Rightarrow> bool" where
  "checks_ok r = (sw_status r \<in> {''pending'', ''terminal''} \<and> sw_work_type r \<in> {''telemetry'', ''dead_letter''}
     \<and> 0 \<le> sw_payload_size r \<and> 0 \<le> sw_attempts r
     \<and> (sw_work_type r = ''telemetry'' \<and> sw_event_id r \<noteq> None \<and> sw_reason_code r = None
        \<or> sw_work_type r = ''dead_letter'' \<and> sw_event_id r = None \<and> sw_reason_code r \<noteq> None))"

definition matches_key :: "string option \<Rightarrow> string option \<Rightarrow> spool_row \<Rightarrow> bool" where
  "matches_key event_id delivery_key r =
     (event_id \<noteq> None \<and> sw_event_id r = event_id \<or> delivery_key \<noteq> None \<and> sw_delivery_key r = delivery_key)"

definition insert_row :: "nat \<Rightarrow> (int \<Rightarrow> spool_row) \<Rightarrow> spool \<Rightarrow> int result \<times> spool" where
  "insert_row gap mk sp =
     (let i = sp_last_id sp + 1 + int gap; r = mk i in
      if \<not> checks_ok r then (Inl (IntegrityError ''CHECK constraint failed: ingestion_spool''), sp)
      else if \<exists>x \<in> set (sp_rows sp). matches_key (sw_event_id r) (sw_delivery_key r) x then
        (Inl (IntegrityError ''UNIQUE constraint failed: ingestion_spool''), sp)
      else (Inr i, sp\<lparr>sp_rows := sp_rows sp @ [r], sp_last_id := i\<rparr>))"

definition find_existing :: "string option \<Rightarrow> string option \<Rightarrow> nat \<Rightarrow> spool \<Rightarrow> spool_row option" where
  "find_existing event_id delivery_key pick sp =
     (case filter (matches_key event_id delivery_key) (sp_rows sp) of
        [] \<Rightarrow> None
      | r # rs \<Rightarrow> Some ((r # rs) ! (pick mod length (r # rs))))"

definition assert_duplicate_payload :: "spool_row \<Rightarrow> byte list \<Rightarrow> unit result" where
  "assert_duplicate_payload r payload = (if sw_payload r \<noteq> payload then
     Inl (DurableSpoolConflictError ''ingestion deduplication key was reused for a different payload'')
     else Inr ())"

section \<open>Appending\<close>

definition duplicate_of :: "spool_row \<Rightarrow> byte list \<Rightarrow> append_result result" where
  "duplicate_of r payload = ebind (assert_duplicate_payload r payload)
     (\<lambda>_. Inr \<lparr>ar_record_id = sw_id r, ar_duplicate = True\<rparr>)"

text \<open>\<open>_append\<close>; \<open>mk\<close> builds the row of the INSERT for its id.\<close>

definition append_call ::
  "string option \<Rightarrow> string option \<Rightarrow> byte list \<Rightarrow> (int \<Rightarrow> spool_row) \<Rightarrow> nat \<Rightarrow> nat \<Rightarrow> spool
    \<Rightarrow> append_result result \<times> spool" where
  "append_call event_id delivery_key payload mk gap pick sp =
     (case find_existing event_id delivery_key pick sp of
        Some r \<Rightarrow> (duplicate_of r payload, sp)
      | None \<Rightarrow>
          if sp_max_records sp \<le> int (length (sp_rows sp)) then
            (Inl (DurableSpoolCapacityError
              (''ingestion spool record capacity '' @ dec (sp_max_records sp) @ '' reached'')), sp)
          else if sp_max_bytes sp < payload_bytes (sp_rows sp) + int (length payload) then
            (Inl (DurableSpoolCapacityError
              (''ingestion spool byte capacity '' @ dec (sp_max_bytes sp) @ '' would be exceeded'')), sp)
          else
            (case insert_row gap mk sp of
               (Inr i, sp') \<Rightarrow> (Inr \<lparr>ar_record_id = i, ar_duplicate = False\<rparr>, sp')
             | (Inl _, _) \<Rightarrow>
                 (case find_existing event_id delivery_key pick sp of
                    Some r \<Rightarrow> (duplicate_of r payload, sp)
                  | None \<Rightarrow> (Inl (DurableSpoolError ''ingestion spool uniqueness conflict''), sp))))"

definition append_work ::
  "instant \<Rightarrow> string \<Rightarrow> string option \<Rightarrow> string option \<Rightarrow> byte list \<Rightarrow> string option \<Rightarrow> instant \<Rightarrow> int \<Rightarrow> bool
    \<Rightarrow> string option \<Rightarrow> string option \<Rightarrow> spool \<Rightarrow> append_result result \<times> spool" where
  "append_work now work_type event_id delivery_key payload topic received_at payload_size payload_truncated
      reason_code reason_detail sp =
     on_disk ''failed to append ingestion work''
       (append_call event_id delivery_key payload (\<lambda>i. \<lparr>sw_id = i, sw_status = ''pending'',
          sw_work_type = work_type, sw_event_id = event_id, sw_delivery_key = delivery_key,
          sw_payload = payload, sw_topic = topic, sw_received_at = received_at,
          sw_payload_size = payload_size, sw_payload_truncated = payload_truncated,
          sw_reason_code = reason_code, sw_reason_detail = reason_detail, sw_created_at = now,
          sw_attempts = 0, sw_last_error = None, sw_last_attempt_at = None, sw_terminal_at = None\<rparr>)) sp"

definition normalize_delivery_key :: "string option \<Rightarrow> string option" where
  "normalize_delivery_key v = (case v of None \<Rightarrow> None
     | Some s \<Rightarrow> (let n = strip s in if n = [] then None else Some n))"

definition append_telemetry ::
  "instant \<Rightarrow> string \<Rightarrow> byte list \<Rightarrow> string option \<Rightarrow> instant \<Rightarrow> string option \<Rightarrow> spool
    \<Rightarrow> append_result result \<times> spool" where
  "append_telemetry now event_id payload topic received_at delivery_key sp =
     (let n = strip event_id in
      if n = [] then (Inl (ValueError ''event_id is required''), sp)
      else append_work now ''telemetry'' (Some n) (normalize_delivery_key delivery_key) payload topic
             received_at (int (length payload)) False None None sp)"

definition append_dead_letter ::
  "instant \<Rightarrow> byte list \<Rightarrow> int \<Rightarrow> bool \<Rightarrow> string \<Rightarrow> string \<Rightarrow> string option \<Rightarrow> instant \<Rightarrow> string option \<Rightarrow> spool
    \<Rightarrow> append_result result \<times> spool" where
  "append_dead_letter now payload payload_size payload_truncated reason_code reason_detail topic received_at
      delivery_key sp =
     (if payload_size < int (length payload) then
        (Inl (ValueError ''payload_size cannot be smaller than retained payload''), sp)
      else let n = strip reason_code in
        if n = [] then (Inl (ValueError ''reason_code is required''), sp)
        else append_work now ''dead_letter'' None (normalize_delivery_key delivery_key) payload topic
               received_at payload_size payload_truncated (Some n) (Some reason_detail) sp)"

section \<open>Reading and completing\<close>

definition oldest_pending :: "spool \<Rightarrow> spool_row option result \<times> spool" where
  "oldest_pending sp = on_disk ''failed to read ingestion spool''
     (\<lambda>gap pick sp. (Inr (List.find is_pending (sp_rows sp)), sp)) sp"

definition delete_record :: "int \<Rightarrow> spool \<Rightarrow> unit result \<times> spool" where
  "delete_record i sp = on_disk (''failed to delete ingestion spool record '' @ dec i)
     (\<lambda>gap pick sp. (Inr (), sp\<lparr>sp_rows := filter (\<lambda>r. sw_id r \<noteq> i) (sp_rows sp)\<rparr>)) sp"

definition update_pending :: "int \<Rightarrow> (spool_row \<Rightarrow> spool_row) \<Rightarrow> spool_row list \<Rightarrow> spool_row list" where
  "update_pending i f rows = map (\<lambda>r. if sw_id r = i \<and> is_pending r then f r else r) rows"

definition mark_attempt :: "instant \<Rightarrow> int \<Rightarrow> string \<Rightarrow> spool \<Rightarrow> unit result \<times> spool" where
  "mark_attempt now i error sp = on_disk (''failed to update ingestion spool record '' @ dec i)
     (\<lambda>gap pick sp. (Inr (), sp\<lparr>sp_rows := update_pending i (\<lambda>r. r\<lparr>sw_attempts := sw_attempts r + 1,
        sw_last_error := Some (take 4096 error), sw_last_attempt_at := Some now\<rparr>) (sp_rows sp)\<rparr>)) sp"

definition mark_terminal :: "instant \<Rightarrow> int \<Rightarrow> string \<Rightarrow> spool \<Rightarrow> unit result \<times> spool" where
  "mark_terminal now i error sp = on_disk (''failed to quarantine ingestion spool record '' @ dec i)
     (\<lambda>gap pick sp. (Inr (), sp\<lparr>sp_rows := update_pending i (\<lambda>r. r\<lparr>sw_status := ''terminal'',
        sw_attempts := sw_attempts r + 1, sw_last_error := Some (take 4096 error),
        sw_last_attempt_at := Some now, sw_terminal_at := Some now\<rparr>) (sp_rows sp)\<rparr>)) sp"

fun min_instant :: "instant list \<Rightarrow> instant option" where
  "min_instant [] = None"
| "min_instant (t # ts) = Some (case min_instant ts of None \<Rightarrow> t | Some u \<Rightarrow> min t u)"

definition stats_of :: "spool_row list \<Rightarrow> spool_stats" where
  "stats_of rows = \<lparr>ss_pending_records = int (length (filter is_pending rows)),
     ss_terminal_records = int (length (filter (\<lambda>r. sw_status r = ''terminal'') rows)),
     ss_payload_bytes = payload_bytes rows,
     ss_oldest_pending_at = min_instant (map sw_created_at (filter is_pending rows)),
     ss_max_record_id = fold max (map sw_id rows) 0\<rparr>"

definition spool_stats_call :: "spool \<Rightarrow> spool_stats result \<times> spool" where
  "spool_stats_call sp = on_disk ''failed to inspect ingestion spool'' (\<lambda>gap pick sp. (Inr (stats_of (sp_rows sp)), sp)) sp"

section \<open>The invariant of the table\<close>

text \<open>No two rows share an event id or a delivery key.\<close>

definition keys_unique :: "spool_row list \<Rightarrow> bool" where
  "keys_unique rows = sorted_wrt (\<lambda>r x. \<not> matches_key (sw_event_id r) (sw_delivery_key r) x) rows"

definition spool_ok :: "spool \<Rightarrow> bool" where
  "spool_ok sp = (sorted_wrt (<) (map sw_id (sp_rows sp)) \<and> (\<forall>r \<in> set (sp_rows sp). 0 < sw_id r \<and> sw_id r \<le> sp_last_id sp)
     \<and> 0 \<le> sp_last_id sp \<and> keys_unique (sp_rows sp) \<and> (\<forall>r \<in> set (sp_rows sp). checks_ok r))"

text \<open>What stays the same in every call but the rows and the script.\<close>

definition same_limits :: "spool \<Rightarrow> spool \<Rightarrow> bool" where
  "same_limits sp sp' = (sp_max_records sp' = sp_max_records sp \<and> sp_max_bytes sp' = sp_max_bytes sp)"

definition within_capacity :: "spool \<Rightarrow> bool" where
  "within_capacity sp = (int (length (sp_rows sp)) \<le> sp_max_records sp \<and> payload_bytes (sp_rows sp) \<le> sp_max_bytes sp)"

lemma spool_ok_script [simp]: "spool_ok (sp\<lparr>sp_script := sc\<rparr>) = spool_ok sp"
  "within_capacity (sp\<lparr>sp_script := sc\<rparr>) = within_capacity sp"
  by (simp_all add: spool_ok_def within_capacity_def)

lemma same_limits_refl [simp]: "same_limits sp sp" "same_limits sp (sp\<lparr>sp_script := sc\<rparr>)"
  "same_limits (sp\<lparr>sp_script := sc\<rparr>) sp' = same_limits sp sp'"
  by (simp_all add: same_limits_def)

lemma matches_key_sym: "matches_key (sw_event_id r) (sw_delivery_key r) x = matches_key (sw_event_id x) (sw_delivery_key x) r"
  by (auto simp: matches_key_def)

text \<open>One call: a fault leaves the table, otherwise the call runs on it.\<close>

lemma on_disk_cases:
  assumes "on_disk what call sp = (r, sp')"
  obtains (failed) msg rest where "r = Inl (DurableSpoolError (what @ '': '' @ msg))" "sp' = sp\<lparr>sp_script := rest\<rparr>"
      "sp_script sp = Failing msg # rest"
  | (ran) gap pick rest where "call gap pick (sp\<lparr>sp_script := rest\<rparr>) = (r, sp')"
      "sp_script sp = Working gap pick # rest \<or> sp_script sp = [] \<and> rest = []"
proof (cases "sp_script sp")
  case Nil
  then have "sp\<lparr>sp_script := []\<rparr> = sp" by (cases sp) simp
  with Nil assms that(2) show ?thesis by (simp add: on_disk_def)
next
  case (Cons d rest)
  with assms that show ?thesis by (cases d) (auto simp: on_disk_def)
qed

lemma find_existing_Some:
  assumes "find_existing e k pick sp = Some r"
  shows "r \<in> set (sp_rows sp) \<and> matches_key e k r"
proof -
  let ?xs = "filter (matches_key e k) (sp_rows sp)"
  from assms have "?xs \<noteq> []" "r = ?xs ! (pick mod length ?xs)"
    by (auto simp: find_existing_def split: list.splits)
  then have "r \<in> set ?xs" by (metis nth_mem length_greater_0_conv mod_less_divisor)
  then show ?thesis by simp
qed

lemma find_existing_None: "find_existing e k pick sp = None \<longleftrightarrow> (\<forall>r \<in> set (sp_rows sp). \<not> matches_key e k r)"
proof -
  have "find_existing e k pick sp = None \<longleftrightarrow> filter (matches_key e k) (sp_rows sp) = []"
    by (simp add: find_existing_def split: list.splits)
  then show ?thesis by (simp add: filter_empty_conv)
qed

text \<open>The lookup is exact when a single row can match.\<close>

lemma find_existing_sole:
  assumes "\<And>x. x \<in> set (sp_rows sp) \<Longrightarrow> matches_key e k x \<longleftrightarrow> x = r" and "r \<in> set (sp_rows sp)"
  shows "find_existing e k pick sp = Some r"
proof (cases "find_existing e k pick sp")
  case None
  with assms show ?thesis by (auto simp: find_existing_None)
next
  case (Some x)
  with find_existing_Some [OF Some] assms show ?thesis by auto
qed

lemma payload_bytes_snoc [simp]: "payload_bytes (rows @ [r]) = payload_bytes rows + int (length (sw_payload r))"
  by (simp add: payload_bytes_def)

lemma payload_bytes_nonneg: "0 \<le> payload_bytes rows"
  by (induction rows) (simp_all add: payload_bytes_def)

lemma spool_ok_snoc:
  assumes "spool_ok sp" and "checks_ok r" and "sp_last_id sp < sw_id r"
    and "\<forall>x \<in> set (sp_rows sp). \<not> matches_key (sw_event_id r) (sw_delivery_key r) x"
  shows "spool_ok (sp\<lparr>sp_rows := sp_rows sp @ [r], sp_last_id := sw_id r\<rparr>)"
proof -
  have "\<forall>x \<in> set (sp_rows sp). sw_id x < sw_id r" using assms(1,3) by (force simp: spool_ok_def)
  moreover have "\<forall>x \<in> set (sp_rows sp). \<not> matches_key (sw_event_id x) (sw_delivery_key x) r"
    using assms(4) by (simp add: matches_key_sym)
  ultimately show ?thesis
    using assms(1-3) by (auto simp: spool_ok_def keys_unique_def sorted_wrt_append)
qed

section \<open>Appending\<close>

text \<open>The four ways an append that the disk serves can end. \<open>fresh\<close> is the row of the INSERT.\<close>

definition append_post ::
  "string option \<Rightarrow> string option \<Rightarrow> byte list \<Rightarrow> (int \<Rightarrow> spool_row) \<Rightarrow> spool \<Rightarrow> append_result result \<Rightarrow> spool \<Rightarrow> bool" where
  "append_post e k payload fresh sp r sp' =
     (case r of
        Inr a \<Rightarrow>
          if ar_duplicate a then sp_rows sp' = sp_rows sp
            \<and> (\<exists>x \<in> set (sp_rows sp). sw_id x = ar_record_id a \<and> matches_key e k x \<and> sw_payload x = payload)
          else sp_rows sp' = sp_rows sp @ [fresh (ar_record_id a)] \<and> sp_last_id sp < ar_record_id a
            \<and> (\<forall>x \<in> set (sp_rows sp). \<not> matches_key e k x) \<and> within_capacity sp'
      | Inl x \<Rightarrow> sp_rows sp' = sp_rows sp \<and>
          ((\<exists>m. x = DurableSpoolConflictError m \<and> (\<exists>y \<in> set (sp_rows sp). matches_key e k y \<and> sw_payload y \<noteq> payload))
           \<or> (\<exists>m. x = DurableSpoolCapacityError m \<and> (\<forall>y \<in> set (sp_rows sp). \<not> matches_key e k y)
                \<and> (sp_max_records sp \<le> int (length (sp_rows sp))
                   \<or> sp_max_bytes sp < payload_bytes (sp_rows sp) + int (length payload)))))"

lemma append_call_post:
  assumes ok: "spool_ok sp" and fresh: "\<And>i. checks_ok (fresh i)" "\<And>i. sw_event_id (fresh i) = e"
      "\<And>i. sw_delivery_key (fresh i) = k" "\<And>i. sw_payload (fresh i) = payload" "\<And>i. sw_id (fresh i) = i"
    and run: "append_call e k payload fresh gap pick sp = (r, sp')"
  shows "spool_ok sp' \<and> same_limits sp sp' \<and> append_post e k payload fresh sp r sp'"
proof (cases "find_existing e k pick sp")
  case (Some x)
  from find_existing_Some [OF Some] Some run ok show ?thesis
    by (auto simp: append_call_def duplicate_of_def assert_duplicate_payload_def append_post_def split: if_splits)
next
  case None
  then have free: "\<forall>x \<in> set (sp_rows sp). \<not> matches_key e k x" by (simp add: find_existing_None)
  show ?thesis
  proof (cases "sp_max_records sp \<le> int (length (sp_rows sp)) \<or> sp_max_bytes sp < payload_bytes (sp_rows sp) + int (length payload)")
    case True
    with run None ok free show ?thesis
      by (auto simp: append_call_def append_post_def split: if_splits)
  next
    case False
    define i where "i = sp_last_id sp + 1 + int gap"
    let ?sp = "sp\<lparr>sp_rows := sp_rows sp @ [fresh i], sp_last_id := i\<rparr>"
    have ins: "insert_row gap fresh sp = (Inr i, ?sp)"
      using fresh free by (simp add: insert_row_def Let_def i_def)
    with run None False have r: "r = Inr \<lparr>ar_record_id = i, ar_duplicate = False\<rparr>" "sp' = ?sp"
      by (auto simp: append_call_def)
    have "spool_ok ?sp" using spool_ok_snoc [OF ok, of "fresh i"] fresh free by (simp add: i_def)
    moreover have "within_capacity ?sp" using False fresh by (simp add: within_capacity_def)
    ultimately show ?thesis using r free by (simp add: append_post_def same_limits_def i_def)
  qed
qed

lemma append_post_script [simp]: "append_post e k p f (sp\<lparr>sp_script := sc\<rparr>) r sp' = append_post e k p f sp r sp'"
  by (cases r) (simp_all add: append_post_def)

text \<open>The row an append writes.\<close>

definition new_row ::
  "instant \<Rightarrow> string \<Rightarrow> string option \<Rightarrow> string option \<Rightarrow> byte list \<Rightarrow> string option \<Rightarrow> instant \<Rightarrow> int \<Rightarrow> bool
    \<Rightarrow> string option \<Rightarrow> string option \<Rightarrow> int \<Rightarrow> spool_row" where
  "new_row now w e k payload topic received_at n tr rc rd i = \<lparr>sw_id = i, sw_status = ''pending'',
     sw_work_type = w, sw_event_id = e, sw_delivery_key = k, sw_payload = payload, sw_topic = topic,
     sw_received_at = received_at, sw_payload_size = n, sw_payload_truncated = tr, sw_reason_code = rc,
     sw_reason_detail = rd, sw_created_at = now, sw_attempts = 0, sw_last_error = None,
     sw_last_attempt_at = None, sw_terminal_at = None\<rparr>"

definition disk_failed :: "string \<Rightarrow> spool \<Rightarrow> 'a result \<Rightarrow> spool \<Rightarrow> bool" where
  "disk_failed what sp r sp' = (\<exists>m rest. r = Inl (DurableSpoolError (what @ '': '' @ m)) \<and> sp_script sp = Failing m # rest
     \<and> sp' = sp\<lparr>sp_script := rest\<rparr>)"

lemma append_work_post:
  assumes ok: "spool_ok sp" and kind: "w = ''telemetry'' \<and> e \<noteq> None \<and> rc = None \<or> w = ''dead_letter'' \<and> e = None \<and> rc \<noteq> None"
    and size: "0 \<le> n" and run: "append_work now w e k payload topic rat n tr rc rd sp = (r, sp')"
  shows "spool_ok sp' \<and> same_limits sp sp' \<and> (disk_failed ''failed to append ingestion work'' sp r sp'
     \<or> append_post e k payload (new_row now w e k payload topic rat n tr rc rd) sp r sp')"
  using run [unfolded append_work_def]
proof (cases rule: on_disk_cases)
  case (failed msg rest)
  then show ?thesis using ok by (auto simp: disk_failed_def)
next
  case (ran gap pick rest)
  define fresh where "fresh = new_row now w e k payload topic rat n tr rc rd"
  have c: "append_call e k payload fresh gap pick (sp\<lparr>sp_script := rest\<rparr>) = (r, sp')"
    using ran(1) by (simp add: fresh_def new_row_def [abs_def])
  have "spool_ok (sp\<lparr>sp_script := rest\<rparr>)" using ok by simp
  from append_call_post [OF this _ _ _ _ _ c] kind size
  have "spool_ok sp' \<and> same_limits (sp\<lparr>sp_script := rest\<rparr>) sp'
      \<and> append_post e k payload fresh (sp\<lparr>sp_script := rest\<rparr>) r sp'"
    by (simp add: fresh_def new_row_def checks_ok_def) blast
  then show ?thesis by (simp add: fresh_def)
qed

section \<open>The other calls\<close>

lemma filter_sorted_id: "sorted_wrt (<) (map sw_id rows) \<Longrightarrow> sorted_wrt (<) (map sw_id (filter P rows))"
  by (induction rows) auto

lemma spool_ok_filter:
  assumes "spool_ok sp"
  shows "spool_ok (sp\<lparr>sp_rows := filter P (sp_rows sp)\<rparr>)"
  using assms by (auto simp: spool_ok_def keys_unique_def filter_sorted_id intro: sorted_wrt_filter)

lemma spool_ok_update:
  assumes "spool_ok sp" and "\<And>r. sw_id (f r) = sw_id r" and "\<And>r. sw_event_id (f r) = sw_event_id r"
    and "\<And>r. sw_delivery_key (f r) = sw_delivery_key r" and "\<And>r. checks_ok r \<Longrightarrow> checks_ok (f r)"
  shows "spool_ok (sp\<lparr>sp_rows := update_pending i f (sp_rows sp)\<rparr>)"
proof -
  have ids: "map sw_id (update_pending i f rows) = map sw_id rows" for rows
    by (induction rows) (auto simp: update_pending_def assms(2))
  have keys: "keys_unique (update_pending i f rows) = keys_unique rows" for rows
    unfolding keys_unique_def update_pending_def sorted_wrt_map
    by (intro arg_cong2 [of _ _ _ _ sorted_wrt] ext) (auto simp: matches_key_def assms(3,4))
  have all: "\<forall>r \<in> set (update_pending i f (sp_rows sp)). 0 < sw_id r \<and> sw_id r \<le> sp_last_id sp \<and> checks_ok r"
    using assms(1,2,5) by (auto simp: spool_ok_def update_pending_def)
  show ?thesis using assms(1) ids keys all by (simp add: spool_ok_def)
qed

text \<open>The rows after a call that worked.\<close>

lemma oldest_pending_cases:
  assumes "oldest_pending sp = (r, sp')"
  shows "sp_rows sp' = sp_rows sp \<and> sp_last_id sp' = sp_last_id sp \<and> same_limits sp sp'
    \<and> (disk_failed ''failed to read ingestion spool'' sp r sp' \<or> r = Inr (List.find is_pending (sp_rows sp)))"
  using assms [unfolded oldest_pending_def]
  by (cases rule: on_disk_cases) (auto simp: disk_failed_def same_limits_def)

lemma delete_record_cases:
  assumes "delete_record i sp = (r, sp')"
  shows "sp_last_id sp' = sp_last_id sp \<and> same_limits sp sp' \<and>
    (disk_failed (''failed to delete ingestion spool record '' @ dec i) sp r sp' \<and> sp_rows sp' = sp_rows sp
     \<or> r = Inr () \<and> sp_rows sp' = filter (\<lambda>x. sw_id x \<noteq> i) (sp_rows sp))"
  using assms [unfolded delete_record_def]
  by (cases rule: on_disk_cases) (auto simp: disk_failed_def same_limits_def)

lemma mark_attempt_cases:
  assumes "mark_attempt now i msg sp = (r, sp')"
  shows "sp_last_id sp' = sp_last_id sp \<and> same_limits sp sp' \<and>
    (disk_failed (''failed to update ingestion spool record '' @ dec i) sp r sp' \<and> sp_rows sp' = sp_rows sp
     \<or> r = Inr () \<and> sp_rows sp' = update_pending i (\<lambda>r. r\<lparr>sw_attempts := sw_attempts r + 1,
        sw_last_error := Some (take 4096 msg), sw_last_attempt_at := Some now\<rparr>) (sp_rows sp))"
  using assms [unfolded mark_attempt_def]
  by (cases rule: on_disk_cases) (auto simp: disk_failed_def same_limits_def)

lemma mark_terminal_cases:
  assumes "mark_terminal now i msg sp = (r, sp')"
  shows "sp_last_id sp' = sp_last_id sp \<and> same_limits sp sp' \<and>
    (disk_failed (''failed to quarantine ingestion spool record '' @ dec i) sp r sp' \<and> sp_rows sp' = sp_rows sp
     \<or> r = Inr () \<and> sp_rows sp' = update_pending i (\<lambda>r. r\<lparr>sw_status := ''terminal'', sw_attempts := sw_attempts r + 1,
        sw_last_error := Some (take 4096 msg), sw_last_attempt_at := Some now, sw_terminal_at := Some now\<rparr>) (sp_rows sp))"
  using assms [unfolded mark_terminal_def]
  by (cases rule: on_disk_cases) (auto simp: disk_failed_def same_limits_def)

lemma spool_stats_cases:
  assumes "spool_stats_call sp = (r, sp')"
  shows "sp_rows sp' = sp_rows sp \<and> sp_last_id sp' = sp_last_id sp \<and> same_limits sp sp'
    \<and> (disk_failed ''failed to inspect ingestion spool'' sp r sp' \<or> r = Inr (stats_of (sp_rows sp)))"
  using assms [unfolded spool_stats_call_def]
  by (cases rule: on_disk_cases) (auto simp: disk_failed_def same_limits_def)

lemma spool_ok_rows:
  "spool_ok sp \<Longrightarrow> sp_rows sp' = sp_rows sp \<Longrightarrow> sp_last_id sp' = sp_last_id sp \<Longrightarrow> spool_ok sp'"
  by (simp add: spool_ok_def)

lemma spool_ok_calls:
  "spool_ok sp \<Longrightarrow> oldest_pending sp = (r1, sp') \<Longrightarrow> spool_ok sp'"
  "spool_ok sp \<Longrightarrow> spool_stats_call sp = (r2, sp') \<Longrightarrow> spool_ok sp'"
  "spool_ok sp \<Longrightarrow> delete_record i sp = (r3, sp') \<Longrightarrow> spool_ok sp'"
  "spool_ok sp \<Longrightarrow> mark_attempt now i msg sp = (r4, sp') \<Longrightarrow> spool_ok sp'"
  "spool_ok sp \<Longrightarrow> mark_terminal now i msg sp = (r5, sp') \<Longrightarrow> spool_ok sp'"
proof -
  assume ok: "spool_ok sp"
  show "oldest_pending sp = (r1, sp') \<Longrightarrow> spool_ok sp'"
    using ok oldest_pending_cases spool_ok_rows by blast
  show "spool_stats_call sp = (r2, sp') \<Longrightarrow> spool_ok sp'"
    using ok spool_stats_cases spool_ok_rows by blast
  have frame: "spool_ok sp'" if "spool_ok (sp\<lparr>sp_rows := rows\<rparr>)" "sp_rows sp' = rows" "sp_last_id sp' = sp_last_id sp" for rows
    using that by (simp add: spool_ok_def)
  show "delete_record i sp = (r3, sp') \<Longrightarrow> spool_ok sp'"
    using delete_record_cases [of i sp r3 sp'] frame [OF spool_ok_filter [OF ok]] spool_ok_rows [OF ok] by blast
  show "mark_attempt now i msg sp = (r4, sp') \<Longrightarrow> spool_ok sp'"
    using mark_attempt_cases [of now i msg sp r4 sp'] spool_ok_rows [OF ok]
      frame [OF spool_ok_update [OF ok, of "\<lambda>r. r\<lparr>sw_attempts := sw_attempts r + 1,
        sw_last_error := Some (take 4096 msg), sw_last_attempt_at := Some now\<rparr>" i]]
    by (auto simp: checks_ok_def)
  show "mark_terminal now i msg sp = (r5, sp') \<Longrightarrow> spool_ok sp'"
    using mark_terminal_cases [of now i msg sp r5 sp'] spool_ok_rows [OF ok]
      frame [OF spool_ok_update [OF ok, of "\<lambda>r. r\<lparr>sw_status := ''terminal'', sw_attempts := sw_attempts r + 1,
        sw_last_error := Some (take 4096 msg), sw_last_attempt_at := Some now, sw_terminal_at := Some now\<rparr>" i]]
    by (auto simp: checks_ok_def)
qed

section \<open>What the spool promises\<close>

lemma spool_row_by_id: "spool_ok sp \<Longrightarrow> x \<in> set (sp_rows sp) \<Longrightarrow> y \<in> set (sp_rows sp) \<Longrightarrow> sw_id x = sw_id y \<Longrightarrow> x = y"
  by (rule ids_determine [of sw_id "sp_rows sp"]) (simp_all add: spool_ok_def)

lemma keys_unique_pair:
  "keys_unique rows \<Longrightarrow> x \<in> set rows \<Longrightarrow> z \<in> set rows \<Longrightarrow> x \<noteq> z \<Longrightarrow> \<not> matches_key (sw_event_id x) (sw_delivery_key x) z"
proof (induction rows)
  case (Cons r rows)
  then show ?case using matches_key_sym [of x z] by (auto simp: keys_unique_def)
qed simp

definition empty_spool :: "int \<Rightarrow> int \<Rightarrow> disk list \<Rightarrow> spool" where
  "empty_spool n b sc = \<lparr>sp_rows = [], sp_last_id = 0, sp_max_records = n, sp_max_bytes = b, sp_script = sc\<rparr>"

lemma empty_spool_ok [simp]: "spool_ok (empty_spool n b sc)"
  by (simp add: empty_spool_def spool_ok_def keys_unique_def)

lemma append_dead_letter_cases:
  assumes "spool_ok sp" and "append_dead_letter now payload n tr rc rd topic rat dk sp = (r, sp')"
  shows "spool_ok sp' \<and> same_limits sp sp' \<and>
    ((\<exists>m. r = Inl (ValueError m)) \<and> sp' = sp \<and> (n < int (length payload) \<or> strip rc = [])
     \<or> disk_failed ''failed to append ingestion work'' sp r sp'
     \<or> append_post None (normalize_delivery_key dk) payload
         (new_row now ''dead_letter'' None (normalize_delivery_key dk) payload topic rat n tr (Some (strip rc)) (Some rd)) sp r sp')"
proof (cases "n < int (length payload) \<or> strip rc = []")
  case True
  with assms(2) have "\<exists>m. r = Inl (ValueError m) \<and> sp' = sp"
    by (auto simp: append_dead_letter_def Let_def split: if_splits)
  with True assms(1) show ?thesis by auto
next
  case False
  with assms(2) have "append_work now ''dead_letter'' None (normalize_delivery_key dk) payload topic rat n tr
      (Some (strip rc)) (Some rd) sp = (r, sp')" by (simp add: append_dead_letter_def Let_def)
  from append_work_post [OF assms(1) _ _ this] False show ?thesis by auto
qed

lemma append_telemetry_cases:
  assumes "spool_ok sp" and "append_telemetry now e payload topic rat dk sp = (r, sp')"
  shows "spool_ok sp' \<and> same_limits sp sp' \<and>
    ((\<exists>m. r = Inl (ValueError m)) \<and> sp' = sp \<and> strip e = []
     \<or> disk_failed ''failed to append ingestion work'' sp r sp'
     \<or> append_post (Some (strip e)) (normalize_delivery_key dk) payload
         (new_row now ''telemetry'' (Some (strip e)) (normalize_delivery_key dk) payload topic rat
           (int (length payload)) False None None) sp r sp')"
proof (cases "strip e = []")
  case True
  with assms show ?thesis by (auto simp: append_telemetry_def Let_def)
next
  case False
  with assms(2) have "append_work now ''telemetry'' (Some (strip e)) (normalize_delivery_key dk) payload topic rat
      (int (length payload)) False None None sp = (r, sp')" by (simp add: append_telemetry_def Let_def)
  from append_work_post [OF assms(1) _ _ this] show ?thesis by auto
qed

text \<open>Appending telemetry keeps the table well-formed and ends in one of these ways. A result names a row with
  the payload under one of the keys: a new pending row at the end with a larger id than ever used, when no row had
  either key and the capacity allows it, or the row that was there. An exception changes no row: a blank event
  id, a fault of SQLite, a key used for another payload, or a full spool; the uniqueness conflict of the
  INSERT never happens.\<close>

theorem append_telemetry_outcome:
  assumes "spool_ok sp" and "append_telemetry now e payload topic rat dk sp = (r, sp')"
  shows "spool_ok sp' \<and> (case r of
     Inr a \<Rightarrow> (\<exists>x \<in> set (sp_rows sp'). sw_id x = ar_record_id a \<and> sw_payload x = payload
          \<and> matches_key (Some (strip e)) (normalize_delivery_key dk) x
          \<and> (if ar_duplicate a then sp_rows sp' = sp_rows sp
             else sp_rows sp' = sp_rows sp @ [x] \<and> is_pending x \<and> sp_last_id sp < sw_id x \<and> within_capacity sp'
               \<and> (\<forall>y \<in> set (sp_rows sp). \<not> matches_key (Some (strip e)) (normalize_delivery_key dk) y)))
   | Inl x \<Rightarrow> sp_rows sp' = sp_rows sp \<and>
       (case x of
          ValueError _ \<Rightarrow> strip e = []
        | DurableSpoolError m \<Rightarrow> \<exists>t rest. sp_script sp = Failing t # rest \<and> m = ''failed to append ingestion work: '' @ t
        | DurableSpoolConflictError _ \<Rightarrow> \<exists>y \<in> set (sp_rows sp). sw_payload y \<noteq> payload
            \<and> matches_key (Some (strip e)) (normalize_delivery_key dk) y
        | DurableSpoolCapacityError _ \<Rightarrow> sp_max_records sp \<le> int (length (sp_rows sp))
            \<or> sp_max_bytes sp < payload_bytes (sp_rows sp) + int (length payload)
        | _ \<Rightarrow> False))"
  using append_telemetry_cases [OF assms]
proof (elim conjE disjE)
  assume "append_post (Some (strip e)) (normalize_delivery_key dk) payload
    (new_row now ''telemetry'' (Some (strip e)) (normalize_delivery_key dk) payload topic rat
      (int (length payload)) False None None) sp r sp'" "spool_ok sp'"
  then show ?thesis
    by (auto simp: append_post_def new_row_def is_pending_def matches_key_def split: sum.splits if_splits)
qed (auto simp: disk_failed_def)

lemma append_telemetry_outcome_witness:
  "\<exists>r sp'. append_telemetry 7 '' e1 '' [1, 2] None 5 None (empty_spool 1 8 []) = (r, sp')
     \<and> r = Inr \<lparr>ar_record_id = 1, ar_duplicate = False\<rparr> \<and> spool_ok sp' \<and> map sw_payload (sp_rows sp') = [[1, 2]]"
proof -
  obtain r sp' where run: "append_telemetry 7 '' e1 '' [1, 2] None 5 None (empty_spool 1 8 []) = (r, sp')" by fastforce
  have "fst (append_telemetry 7 '' e1 '' [1, 2] None 5 None (empty_spool 1 8 [])) = Inr \<lparr>ar_record_id = 1, ar_duplicate = False\<rparr>"
    by code_simp
  with append_telemetry_outcome [OF empty_spool_ok run] run show ?thesis
    by (intro exI [of _ r] exI [of _ sp']) (auto simp: empty_spool_def)
qed

text \<open>Staging is idempotent. Once an append has stored a new row, every later append of the same event with
  the same delivery key and payload returns that row as a duplicate and changes no row, unless SQLite fails,
  for as long as the row is there, whatever other rows have come and gone and even when the spool is full.\<close>

theorem append_idempotent:
  assumes "spool_ok sp" and "append_telemetry now e payload topic rat dk sp = (Inr a, sp1)" and "\<not> ar_duplicate a"
    and "spool_ok sp2" and "x \<in> set (sp_rows sp2)" and "x \<in> set (sp_rows sp1)" and "sw_id x = ar_record_id a"
    and "append_telemetry now' e payload topic' rat' dk sp2 = (r, sp3)"
  shows "sp_rows sp3 = sp_rows sp2 \<and> (r = Inr \<lparr>ar_record_id = ar_record_id a, ar_duplicate = True\<rparr>
    \<or> (\<exists>t rest. sp_script sp2 = Failing t # rest \<and> r = Inl (DurableSpoolError (''failed to append ingestion work: '' @ t))))"
proof -
  let ?k = "normalize_delivery_key dk"
  have first: "strip e \<noteq> []" "append_post (Some (strip e)) ?k payload (new_row now ''telemetry'' (Some (strip e)) ?k payload topic rat
      (int (length payload)) False None None) sp (Inr a) sp1" "spool_ok sp1"
    using append_telemetry_cases [OF assms(1,2)] assms(2)
    by (auto simp: disk_failed_def append_telemetry_def Let_def split: if_splits)
  define y where "y = new_row now ''telemetry'' (Some (strip e)) ?k payload topic rat (int (length payload)) False None None (ar_record_id a)"
  have "sp_rows sp1 = sp_rows sp @ [y]" using first(2) assms(3) by (simp add: append_post_def y_def)
  then have y: "y \<in> set (sp_rows sp1)" "sw_id y = ar_record_id a" "sw_event_id y = Some (strip e)"
      "sw_delivery_key y = ?k" "sw_payload y = payload" by (simp_all add: y_def new_row_def)
  have "x = y" using spool_row_by_id [OF first(3) assms(6) y(1)] assms(7) y(2) by simp
  with y have x: "sw_event_id x = Some (strip e)" "sw_delivery_key x = ?k" "sw_payload x = payload" by auto
  have sole: "matches_key (Some (strip e)) ?k z \<longleftrightarrow> z = x" if z: "z \<in> set (sp_rows sp2)" for z
  proof
    assume m: "matches_key (Some (strip e)) ?k z"
    show "z = x"
    proof (rule ccontr)
      assume "z \<noteq> x"
      with z assms(4,5) have "\<not> matches_key (sw_event_id x) (sw_delivery_key x) z"
        by (intro keys_unique_pair [of "sp_rows sp2"]) (auto simp: spool_ok_def)
      with m x show False by simp
    qed
  qed (use x in \<open>simp add: matches_key_def\<close>)
  have found: "find_existing (Some (strip e)) ?k pick (sp2\<lparr>sp_script := sc\<rparr>) = Some x" for pick sc
    by (rule find_existing_sole) (simp_all add: sole assms(5))
  have work: "append_work now' ''telemetry'' (Some (strip e)) ?k payload topic' rat'
      (int (length payload)) False None None sp2 = (r, sp3)"
    using assms(8) first(1) by (simp add: append_telemetry_def Let_def)
  from work [unfolded append_work_def] show ?thesis
  proof (cases rule: on_disk_cases)
    case (ran gap pick rest)
    then show ?thesis
      by (auto simp: append_call_def found duplicate_of_def assert_duplicate_payload_def x(3) \<open>sw_id x = ar_record_id a\<close>)
  qed auto
qed

lemma append_idempotent_witness:
  "\<exists>sp1 sp3. append_telemetry 7 ''e1'' [1, 2] None 5 (Some ''k'') (empty_spool 1 2 []) = (Inr \<lparr>ar_record_id = 1, ar_duplicate = False\<rparr>, sp1)
     \<and> append_telemetry 9 ''e1'' [1, 2] None 8 (Some ''k'') sp1 = (Inr \<lparr>ar_record_id = 1, ar_duplicate = True\<rparr>, sp3)
     \<and> sp_rows sp3 = sp_rows sp1"
proof -
  let ?a = "\<lparr>ar_record_id = 1, ar_duplicate = False\<rparr>"
  obtain r1 sp1 where run1: "append_telemetry 7 ''e1'' [1, 2] None 5 (Some ''k'') (empty_spool 1 2 []) = (r1, sp1)" by fastforce
  have f: "fst (append_telemetry 7 ''e1'' [1, 2] None 5 (Some ''k'') (empty_spool 1 2 [])) = Inr ?a" by code_simp
  have sc: "sp_script (snd (append_telemetry 7 ''e1'' [1, 2] None 5 (Some ''k'') (empty_spool 1 2 []))) = []" by code_simp
  from f run1 have run: "append_telemetry 7 ''e1'' [1, 2] None 5 (Some ''k'') (empty_spool 1 2 []) = (Inr ?a, sp1)" by simp
  from append_telemetry_outcome [OF empty_spool_ok run]
  obtain x where x: "x \<in> set (sp_rows sp1)" "sw_id x = ar_record_id ?a" "spool_ok sp1" by auto
  obtain r sp3 where again: "append_telemetry 9 ''e1'' [1, 2] None 8 (Some ''k'') sp1 = (r, sp3)" by fastforce
  from append_idempotent [OF empty_spool_ok run _ x(3) x(1) x(1) x(2) again] sc run again show ?thesis by auto
qed

end
