(* ===== verification/TelemetryDb.thy ===== *)
theory TelemetryDb
  imports Instants "HOL-Library.List_Lexorder" "HOL-Library.Char_ord"
begin

text \<open>
  The telemetry tables of \<open>services/telemetry-service/app/db.py\<close>: samples, the latest sample of every
  series and dead letters, with \<open>persist\<close>, \<open>persist_dead_letter\<close>, the queries and \<open>cleanup_retention\<close>.
  The columns that copy the fields of the event are kept together as the event.

  The database server is not code of the repository. \<open>db_script\<close> says what the next transactions meet:
  \<open>Unreachable m\<close> fails with nothing done, \<open>Committed gap now\<close> runs (\<open>gap\<close> ids are skipped, \<open>now\<close> is the clock
  of the server), and \<open>Reply_lost gap now m\<close> runs and commits but the caller sees an exception, as when the
  connection breaks during COMMIT. Every theorem holds for every script.

  Ids are taken beyond every id ever issued, as a sequence of PostgreSQL does. The tables are created in SQLite without
  AUTOINCREMENT, so there the id of the newest row may be issued again after that row was deleted; this is not modelled.
\<close>

section \<open>State\<close>

record telemetry_event =
  te_event_id :: string
  te_node_id :: string
  te_captured_at :: instant
  te_metric :: string
  te_value :: "pyfloat option"
  te_unit :: string
  te_quality :: string
  te_source :: string
  te_equipment_id :: string
  te_channel_id :: string
  te_alarm :: "string option"
  te_raw_value :: "int option"
  te_raw_status :: "int option"

type_synonym raw_payload = "(string, json) dict"

record sample =
  sm_id :: int
  sm_event :: telemetry_event
  sm_raw_payload :: raw_payload
  sm_raw_payload_retained :: bool
  sm_received_at :: instant

record latest_sample =
  la_id :: int
  la_sample_id :: int
  la_event :: telemetry_event
  la_stale_after_seconds :: "pyfloat option"
  la_received_at :: instant

record dead_letter =
  dl_id :: int
  dl_topic :: "string option"
  dl_reason_code :: string
  dl_reason_detail :: string
  dl_payload :: "byte list"
  dl_payload_size :: int
  dl_payload_truncated :: bool
  dl_received_at :: instant

datatype db_outcome = Unreachable string | Committed nat instant | Reply_lost nat instant string

record telemetry_db =
  db_dialect :: string
  db_samples :: "sample list"
  db_latest :: "latest_sample list"
  db_dead_letters :: "dead_letter list"
  db_last_sample :: int
  db_last_latest :: int
  db_last_dead_letter :: int
  db_script :: "db_outcome list"

text \<open>\<open>with self.engine.begin()\<close>: an exception inside rolls back.\<close>

definition transaction :: "(nat \<Rightarrow> instant \<Rightarrow> telemetry_db \<Rightarrow> 'a result \<times> telemetry_db) \<Rightarrow> telemetry_db \<Rightarrow> 'a result \<times> telemetry_db" where
  "transaction call d =
     (let run = (\<lambda>gap now d. case call gap now d of (Inl e, _) \<Rightarrow> (Inl e, d) | x \<Rightarrow> x) in
      case db_script d of
        [] \<Rightarrow> run 0 0 d
      | Unreachable m # rest \<Rightarrow> (Inl (OtherError m), d\<lparr>db_script := rest\<rparr>)
      | Committed gap now # rest \<Rightarrow> run gap now (d\<lparr>db_script := rest\<rparr>)
      | Reply_lost gap now m # rest \<Rightarrow> (Inl (OtherError m), snd (run gap now (d\<lparr>db_script := rest\<rparr>))))"

section \<open>Persisting an event\<close>

text \<open>\<open>float(value)\<close> of a large integer raises.\<close>

definition stale_after_seconds :: "raw_payload \<Rightarrow> pyfloat option result" where
  "stale_after_seconds raw = (let positive = (\<lambda>x. if 0 < x then Some x else None) in
     case dget raw ''stale_after_seconds'' of
       Some (JInt n) \<Rightarrow> ebind (float_of_int n) (\<lambda>x. Inr (positive x))
     | Some (JFloat x) \<Rightarrow> Inr (positive x)
     | _ \<Rightarrow> Inr None)"

definition series :: "telemetry_event \<Rightarrow> string \<times> string \<times> string \<times> string" where
  "series e = (te_node_id e, te_equipment_id e, te_channel_id e, te_metric e)"

definition newer :: "latest_sample \<Rightarrow> latest_sample \<Rightarrow> bool" where
  "newer incoming existing = (te_captured_at (la_event existing) < te_captured_at (la_event incoming)
     \<or> te_captured_at (la_event existing) = te_captured_at (la_event incoming) \<and> la_sample_id existing < la_sample_id incoming)"

text \<open>The statement \<open>INSERT ... ON CONFLICT (series) DO UPDATE ... WHERE newer\<close> of PostgreSQL and SQLite, and
  the select-and-compare of the other dialects.\<close>

definition on_conflict_update :: "latest_sample \<Rightarrow> telemetry_db \<Rightarrow> telemetry_db" where
  "on_conflict_update v d =
     (if \<exists>x \<in> set (db_latest d). series (la_event x) = series (la_event v) then
        d\<lparr>db_latest := map (\<lambda>x. if series (la_event x) = series (la_event v) \<and> newer v x
           then v\<lparr>la_id := la_id x\<rparr> else x) (db_latest d)\<rparr>
      else d\<lparr>db_latest := db_latest d @ [v\<lparr>la_id := db_last_latest d + 1\<rparr>], db_last_latest := db_last_latest d + 1\<rparr>)"

definition select_and_update :: "latest_sample \<Rightarrow> telemetry_db \<Rightarrow> telemetry_db" where
  "select_and_update v d =
     (case List.find (\<lambda>x. series (la_event x) = series (la_event v)) (db_latest d) of
        None \<Rightarrow> d\<lparr>db_latest := db_latest d @ [v\<lparr>la_id := db_last_latest d + 1\<rparr>], db_last_latest := db_last_latest d + 1\<rparr>
      | Some x \<Rightarrow>
          if te_captured_at (la_event x) < te_captured_at (la_event v)
             \<or> te_captured_at (la_event v) = te_captured_at (la_event x) \<and> la_sample_id x < la_sample_id v
          then d\<lparr>db_latest := map (\<lambda>y. if la_id y = la_id x then v\<lparr>la_id := la_id x\<rparr> else y) (db_latest d)\<rparr>
          else d)"

definition upsert_latest :: "latest_sample \<Rightarrow> telemetry_db \<Rightarrow> telemetry_db" where
  "upsert_latest v d = (if db_dialect d \<in> {''postgresql'', ''sqlite''} then on_conflict_update v d
     else select_and_update v d)"

text \<open>A BIGINT column takes 64 bits.\<close>

definition bigint_ok :: "int option \<Rightarrow> bool" where
  "bigint_ok v = (case v of None \<Rightarrow> True | Some n \<Rightarrow> - (2 ^ 63) \<le> n \<and> n < 2 ^ 63)"

definition insert_sample :: "telemetry_event \<Rightarrow> raw_payload \<Rightarrow> nat \<Rightarrow> instant \<Rightarrow> telemetry_db \<Rightarrow> sample \<times> telemetry_db" where
  "insert_sample e raw gap now d =
     (let i = db_last_sample d + 1 + int gap;
          s = \<lparr>sm_id = i, sm_event = e, sm_raw_payload = raw, sm_raw_payload_retained = True, sm_received_at = now\<rparr>
      in (s, d\<lparr>db_samples := db_samples d @ [s], db_last_sample := i\<rparr>))"

text \<open>The new row, or \<open>None\<close> when the event id is there already.\<close>

definition insert_unless_known ::
  "telemetry_event \<Rightarrow> raw_payload \<Rightarrow> nat \<Rightarrow> instant \<Rightarrow> telemetry_db \<Rightarrow> (sample option \<times> telemetry_db) result" where
  "insert_unless_known e raw gap now d =
     (if \<not> bigint_ok (te_raw_value e) \<or> \<not> bigint_ok (te_raw_status e) then
        Inl (OtherError ''integer out of range'')
      else if \<exists>s \<in> set (db_samples d). te_event_id (sm_event s) = te_event_id e then Inr (None, d)
      else (case insert_sample e raw gap now d of (s, d') \<Rightarrow> Inr (Some s, d')))"

text \<open>Other dialects look first, then insert and read the row back.\<close>

definition select_then_insert ::
  "telemetry_event \<Rightarrow> raw_payload \<Rightarrow> nat \<Rightarrow> instant \<Rightarrow> telemetry_db \<Rightarrow> (sample option \<times> telemetry_db) result" where
  "select_then_insert e raw gap now d =
     (case List.find (\<lambda>s. te_event_id (sm_event s) = te_event_id e) (db_samples d) of
        Some _ \<Rightarrow> Inr (None, d)
      | None \<Rightarrow>
          if \<not> bigint_ok (te_raw_value e) \<or> \<not> bigint_ok (te_raw_status e) then
            Inl (OtherError ''integer out of range'')
          else (case insert_sample e raw gap now d of (s, d') \<Rightarrow>
            Inr (List.find (\<lambda>x. sm_id x = sm_id s) (db_samples d'), d')))"

definition latest_values :: "sample \<Rightarrow> raw_payload \<Rightarrow> latest_sample result" where
  "latest_values s raw = ebind (stale_after_seconds raw) (\<lambda>stale. Inr
     \<lparr>la_id = 0, la_sample_id = sm_id s, la_event = sm_event s, la_stale_after_seconds = stale,
      la_received_at = sm_received_at s\<rparr>)"

definition persist_call :: "telemetry_event \<Rightarrow> raw_payload \<Rightarrow> nat \<Rightarrow> instant \<Rightarrow> telemetry_db \<Rightarrow> bool result \<times> telemetry_db" where
  "persist_call e raw gap now d =
     (case (if db_dialect d \<in> {''postgresql'', ''sqlite''} then insert_unless_known e raw gap now d
            else select_then_insert e raw gap now d) of
        Inl x \<Rightarrow> (Inl x, d)
      | Inr (None, d') \<Rightarrow> (Inr False, d')
      | Inr (Some s, d') \<Rightarrow>
          (case latest_values s raw of
             Inl x \<Rightarrow> (Inl x, d')
           | Inr v \<Rightarrow> (Inr True, upsert_latest v d')))"

definition persist :: "telemetry_event \<Rightarrow> raw_payload \<Rightarrow> telemetry_db \<Rightarrow> bool result \<times> telemetry_db" where
  "persist e raw d = transaction (persist_call e raw) d"

section \<open>Dead letters\<close>

text \<open>PostgreSQL enforces the lengths of the VARCHAR columns.\<close>

definition persist_dead_letter ::
  "byte list \<Rightarrow> int \<Rightarrow> bool \<Rightarrow> string \<Rightarrow> string \<Rightarrow> string option \<Rightarrow> telemetry_db \<Rightarrow> int result \<times> telemetry_db" where
  "persist_dead_letter payload payload_size payload_truncated reason_code reason_detail topic d =
     transaction (\<lambda>gap now d.
       if db_dialect d = ''postgresql''
          \<and> (256 < length (case topic of None \<Rightarrow> [] | Some t \<Rightarrow> t) \<or> 64 < length reason_code) then
         (Inl (OtherError ''value too long for type character varying''), d)
       else (let i = db_last_dead_letter d + 1 + int gap in
         (Inr i, d\<lparr>db_dead_letters := db_dead_letters d @ [\<lparr>dl_id = i, dl_topic = topic,
            dl_reason_code = reason_code, dl_reason_detail = take 2048 reason_detail, dl_payload = payload,
            dl_payload_size = payload_size, dl_payload_truncated = payload_truncated, dl_received_at = now\<rparr>],
            db_last_dead_letter := i\<rparr>))) d"

section \<open>Queries\<close>

record telemetry_query =
  tq_node_id :: "string option"
  tq_equipment_id :: "string option"
  tq_channel_id :: "string option"
  tq_metric :: "string option"
  tq_quality :: "string option"
  tq_alarm :: "string option"
  tq_from_at :: "instant option"
  tq_to_at :: "instant option"
  tq_received_before :: "instant option"

definition asked :: "'a option \<Rightarrow> ('a \<Rightarrow> bool) \<Rightarrow> bool" where
  "asked q P = (case q of None \<Rightarrow> True | Some a \<Rightarrow> P a)"

text \<open>\<open>_apply_filters\<close> and \<open>_apply_latest_filters\<close>: a comparison with a NULL column is not true.\<close>

definition event_filters :: "telemetry_query \<Rightarrow> telemetry_event \<Rightarrow> instant \<Rightarrow> bool" where
  "event_filters q e received_at =
     (asked (tq_node_id q) (\<lambda>x. te_node_id e = x) \<and> asked (tq_equipment_id q) (\<lambda>x. te_equipment_id e = x)
      \<and> asked (tq_channel_id q) (\<lambda>x. te_channel_id e = x) \<and> asked (tq_metric q) (\<lambda>x. te_metric e = x)
      \<and> asked (tq_quality q) (\<lambda>x. te_quality e = x) \<and> asked (tq_alarm q) (\<lambda>x. te_alarm e = Some x)
      \<and> asked (tq_from_at q) (\<lambda>t. t \<le> te_captured_at e) \<and> asked (tq_to_at q) (\<lambda>t. te_captured_at e < t)
      \<and> asked (tq_received_before q) (\<lambda>t. received_at \<le> t))"

text \<open>\<open>ORDER BY captured_at DESC, event_id DESC LIMIT n OFFSET k\<close>.\<close>

definition newest_first :: "('a \<Rightarrow> telemetry_event) \<Rightarrow> 'a list \<Rightarrow> 'a list" where
  "newest_first ev xs = rev (sort_key (\<lambda>x. te_captured_at (ev x)) (sort_key (\<lambda>x. te_event_id (ev x)) xs))"

definition page :: "nat \<Rightarrow> nat \<Rightarrow> 'a list \<Rightarrow> 'a list" where
  "page limit offset xs = take limit (drop offset xs)"

definition history_statement :: "telemetry_query \<Rightarrow> nat \<Rightarrow> nat \<Rightarrow> sample list \<Rightarrow> sample list" where
  "history_statement q limit offset rows =
     page limit offset (newest_first sm_event (filter (\<lambda>s. event_filters q (sm_event s) (sm_received_at s)) rows))"

definition history_samples :: "telemetry_query \<Rightarrow> nat \<Rightarrow> nat \<Rightarrow> telemetry_db \<Rightarrow> sample list result \<times> telemetry_db" where
  "history_samples q limit offset d =
     transaction (\<lambda>gap now d. (Inr (history_statement q limit offset (db_samples d)), d)) d"

definition latest_samples :: "telemetry_query \<Rightarrow> nat \<Rightarrow> nat \<Rightarrow> telemetry_db \<Rightarrow> latest_sample list result \<times> telemetry_db" where
  "latest_samples q limit offset d =
     transaction (\<lambda>gap now d. (Inr (page limit offset (newest_first la_event
        (filter (\<lambda>x. event_filters q (la_event x) (la_received_at x)) (db_latest d)))), d)) d"

text \<open>The snapshot of the first page is the clock; the later pages pass it back.\<close>

definition history_snapshot_samples ::
  "telemetry_query \<Rightarrow> nat \<Rightarrow> nat \<Rightarrow> instant option \<Rightarrow> telemetry_db \<Rightarrow> (sample list \<times> instant) result \<times> telemetry_db" where
  "history_snapshot_samples q limit offset snapshot_at d =
     transaction (\<lambda>gap now d. let at' = (case snapshot_at of None \<Rightarrow> now | Some t \<Rightarrow> t) in
        (Inr (history_statement (q\<lparr>tq_received_before := Some at'\<rparr>) limit offset (db_samples d), at'), d)) d"

section \<open>Retention\<close>

record retention_result =
  rr_telemetry_deleted :: int
  rr_raw_payloads_redacted :: int
  rr_dead_letters_deleted :: int

text \<open>\<open>now - timedelta(days=n)\<close>.\<close>

definition days_before :: "instant \<Rightarrow> int \<Rightarrow> instant result" where
  "days_before now n = after_seconds now (- n * 86400)"

text \<open>\<open>SELECT id WHERE p ORDER BY id LIMIT n\<close>; the rows are listed in the order of their ids.\<close>

definition first_ids :: "('a \<Rightarrow> int) \<Rightarrow> ('a \<Rightarrow> bool) \<Rightarrow> nat \<Rightarrow> 'a list \<Rightarrow> int list" where
  "first_ids ident p n rows = take n (map ident (filter p rows))"

definition cleanup_call :: "instant \<Rightarrow> instant \<Rightarrow> instant \<Rightarrow> nat \<Rightarrow> telemetry_db \<Rightarrow> retention_result \<times> telemetry_db" where
  "cleanup_call telemetry_cutoff raw_cutoff dead_cutoff batch d =
     (let gone = first_ids sm_id (\<lambda>s. te_captured_at (sm_event s) < telemetry_cutoff) batch (db_samples d);
          kept = filter (\<lambda>s. sm_id s \<notin> set gone) (db_samples d);
          redact = first_ids sm_id (\<lambda>s. sm_received_at s < raw_cutoff \<and> sm_raw_payload_retained s) batch kept;
          rows = map (\<lambda>s. if sm_id s \<in> set redact then s\<lparr>sm_raw_payload := [], sm_raw_payload_retained := False\<rparr> else s) kept;
          dead = first_ids dl_id (\<lambda>x. dl_received_at x < dead_cutoff) batch (db_dead_letters d)
      in (\<lparr>rr_telemetry_deleted = int (length gone), rr_raw_payloads_redacted = int (length redact),
           rr_dead_letters_deleted = int (length dead)\<rparr>,
          d\<lparr>db_samples := rows, db_dead_letters := filter (\<lambda>x. dl_id x \<notin> set dead) (db_dead_letters d)\<rparr>))"

definition cleanup_retention ::
  "instant \<Rightarrow> int \<Rightarrow> int \<Rightarrow> int \<Rightarrow> nat \<Rightarrow> telemetry_db \<Rightarrow> retention_result result \<times> telemetry_db" where
  "cleanup_retention now telemetry_days raw_days dead_days batch d =
     (case days_before now telemetry_days of Inl e \<Rightarrow> (Inl e, d) | Inr t \<Rightarrow>
      case days_before now raw_days of Inl e \<Rightarrow> (Inl e, d) | Inr r \<Rightarrow>
      case days_before now dead_days of Inl e \<Rightarrow> (Inl e, d) | Inr x \<Rightarrow>
        transaction (\<lambda>gap clock d. case cleanup_call t r x batch d of (res, d') \<Rightarrow> (Inr res, d')) d)"

definition count_rows :: "(telemetry_db \<Rightarrow> nat) \<Rightarrow> telemetry_db \<Rightarrow> int result \<times> telemetry_db" where
  "count_rows rows d = transaction (\<lambda>gap now d. (Inr (int (rows d)), d)) d"

definition count_samples :: "telemetry_db \<Rightarrow> int result \<times> telemetry_db" where
  "count_samples = count_rows (\<lambda>d. length (db_samples d))"

definition count_latest_samples :: "telemetry_db \<Rightarrow> int result \<times> telemetry_db" where
  "count_latest_samples = count_rows (\<lambda>d. length (db_latest d))"

definition count_dead_letters :: "telemetry_db \<Rightarrow> int result \<times> telemetry_db" where
  "count_dead_letters = count_rows (\<lambda>d. length (db_dead_letters d))"

definition count_retained_raw_payloads :: "telemetry_db \<Rightarrow> int result \<times> telemetry_db" where
  "count_retained_raw_payloads = count_rows (\<lambda>d. length (filter sm_raw_payload_retained (db_samples d)))"

section \<open>The invariant of the tables\<close>

text \<open>The row of a series is at least as new as every sample of it.\<close>

definition covers :: "latest_sample list \<Rightarrow> sample \<Rightarrow> bool" where
  "covers latest s = (\<exists>x \<in> set latest. series (la_event x) = series (sm_event s)
     \<and> (te_captured_at (sm_event s) < te_captured_at (la_event x)
        \<or> te_captured_at (sm_event s) = te_captured_at (la_event x) \<and> sm_id s \<le> la_sample_id x))"

definition samples_ok :: "telemetry_db \<Rightarrow> bool" where
  "samples_ok d = (sorted_wrt (<) (map sm_id (db_samples d)) \<and> (\<forall>s \<in> set (db_samples d). sm_id s \<le> db_last_sample d)
     \<and> distinct (map (\<lambda>s. te_event_id (sm_event s)) (db_samples d)))"

definition latest_keys :: "telemetry_db \<Rightarrow> bool" where
  "latest_keys d = (distinct (map (\<lambda>x. series (la_event x)) (db_latest d)) \<and> distinct (map la_id (db_latest d)))"

definition latest_ok :: "telemetry_db \<Rightarrow> bool" where
  "latest_ok d = (latest_keys d
     \<and> (\<forall>x \<in> set (db_latest d). la_id x \<le> db_last_latest d \<and> la_sample_id x \<le> db_last_sample d)
     \<and> (\<forall>s \<in> set (db_samples d). covers (db_latest d) s))"

definition dead_letters_ok :: "telemetry_db \<Rightarrow> bool" where
  "dead_letters_ok d = (sorted_wrt (<) (map dl_id (db_dead_letters d)) \<and> (\<forall>x \<in> set (db_dead_letters d). dl_id x \<le> db_last_dead_letter d)
     \<and> (\<forall>x \<in> set (db_dead_letters d). length (dl_reason_detail x) \<le> 2048))"

definition db_ok :: "telemetry_db \<Rightarrow> bool" where
  "db_ok d = (samples_ok d \<and> latest_ok d \<and> dead_letters_ok d)"

lemma db_ok_script [simp]: "db_ok (d\<lparr>db_script := sc\<rparr>) = db_ok d" "db_ok (d\<lparr>db_dialect := x\<rparr>) = db_ok d"
  by (simp_all add: db_ok_def samples_ok_def latest_ok_def latest_keys_def dead_letters_ok_def)

text \<open>A transaction: nothing done and an exception, or done, whatever the caller sees.\<close>

lemma transaction_cases:
  assumes "transaction call d = (r, d')"
  obtains (nothing) e sc where "r = Inl e" "d' = d\<lparr>db_script := sc\<rparr>"
      "(\<exists>m. e = OtherError m) \<or> (\<exists>gap now x. call gap now (d\<lparr>db_script := sc\<rparr>) = (Inl e, x))"
  | (committed) gap now a sc where "call gap now (d\<lparr>db_script := sc\<rparr>) = (Inr a, d')" "r = Inr a"
  | (unseen) gap now a sc m where "call gap now (d\<lparr>db_script := sc\<rparr>) = (Inr a, d')" "r = Inl (OtherError m)"
proof -
  define run where "run = (\<lambda>gap now d. case call gap now d of (Inl e, _) \<Rightarrow> (Inl e, d) | x \<Rightarrow> x)"
  have run: "(\<exists>e y. call gap now x = (Inl e, y) \<and> run gap now x = (Inl e, x)) \<or> (\<exists>a x'. call gap now x = (Inr a, x') \<and> run gap now x = (Inr a, x'))" for gap now x
    by (cases "call gap now x") (auto simp: run_def split: sum.splits)
  have same: "d\<lparr>db_script := db_script d\<rparr> = d" by simp
  consider (a) "db_script d = []" | (b) m rest where "db_script d = Unreachable m # rest"
    | (c) gap now rest where "db_script d = Committed gap now # rest"
    | (e) gap now m rest where "db_script d = Reply_lost gap now m # rest"
    by (metis db_outcome.exhaust neq_Nil_conv)
  then show ?thesis
  proof cases
    case a
    with assms have "run 0 0 d = (r, d')" by (simp add: transaction_def run_def)
    then show ?thesis using run [of 0 0 d] that(1) [of _ "db_script d"] that(2) [of 0 0 "db_script d"] same by fastforce
  next
    case b
    with assms that(1) show ?thesis by (auto simp: transaction_def)
  next
    case c
    with assms have "run gap now (d\<lparr>db_script := rest\<rparr>) = (r, d')" by (simp add: transaction_def run_def)
    then show ?thesis using run [of gap now "d\<lparr>db_script := rest\<rparr>"] that(1,2) by fastforce
  next
    case e
    with assms have "r = Inl (OtherError m)" "snd (run gap now (d\<lparr>db_script := rest\<rparr>)) = d'"
      by (simp_all add: transaction_def run_def Let_def)
    then show ?thesis using run [of gap now "d\<lparr>db_script := rest\<rparr>"] that(1,3) by fastforce
  qed
qed

section \<open>Inserting and updating\<close>

lemma insert_sample_ok:
  assumes "samples_ok d" and "\<forall>s \<in> set (db_samples d). te_event_id (sm_event s) \<noteq> te_event_id e"
    and "insert_sample e raw gap now d = (s, d')"
  shows "samples_ok d'"
proof -
  have "\<forall>x \<in> set (db_samples d). sm_id x < db_last_sample d + 1 + int gap"
    using assms(1) by (force simp: samples_ok_def)
  with assms show ?thesis
    by (fastforce simp: samples_ok_def insert_sample_def Let_def sorted_wrt_append)
qed

lemma find_snoc: "List.find P xs = None \<Longrightarrow> P y \<Longrightarrow> List.find P (xs @ [y]) = Some y"
  by (induction xs) (auto split: if_splits)

text \<open>The three dialects insert alike.\<close>

lemma select_then_insert_same:
  assumes "samples_ok d" and "bigint_ok (te_raw_value e)" and "bigint_ok (te_raw_status e)"
  shows "select_then_insert e raw gap now d = insert_unless_known e raw gap now d"
proof (cases "\<exists>s \<in> set (db_samples d). te_event_id (sm_event s) = te_event_id e")
  case True
  then obtain x where "List.find (\<lambda>s. te_event_id (sm_event s) = te_event_id e) (db_samples d) = Some x"
    by (cases "List.find (\<lambda>s. te_event_id (sm_event s) = te_event_id e) (db_samples d)") (auto simp: find_None_iff)
  with True assms show ?thesis by (simp add: select_then_insert_def insert_unless_known_def)
next
  case False
  then have none: "List.find (\<lambda>s. te_event_id (sm_event s) = te_event_id e) (db_samples d) = None"
    by (auto simp: find_None_iff)
  define i where "i = db_last_sample d + 1 + int gap"
  have old: "List.find (\<lambda>x. sm_id x = i) (db_samples d) = None"
    using assms(1) by (force simp: find_None_iff samples_ok_def i_def)
  have "List.find (\<lambda>x. sm_id x = i) (db_samples d @ [s]) = Some s" if "sm_id s = i" for s
    using old that find_snoc by metis
  with False none assms show ?thesis
    by (simp add: select_then_insert_def insert_unless_known_def insert_sample_def Let_def i_def)
qed

lemma select_and_update_same:
  assumes "latest_keys d"
  shows "select_and_update v d = on_conflict_update v d"
proof (cases "List.find (\<lambda>x. series (la_event x) = series (la_event v)) (db_latest d)")
  case None
  then have "\<not> (\<exists>x \<in> set (db_latest d). series (la_event x) = series (la_event v))" by (auto simp: find_None_iff)
  with None show ?thesis by (simp add: select_and_update_def on_conflict_update_def)
next
  case (Some x)
  then have x: "x \<in> set (db_latest d)" "series (la_event x) = series (la_event v)" by (auto dest: find_some)
  have inj: "inj_on (\<lambda>x. series (la_event x)) (set (db_latest d))" using assms by (simp add: latest_keys_def distinct_map)
  have sole: "y = x" if "y \<in> set (db_latest d)" "series (la_event y) = series (la_event v)" for y
    by (rule inj_onD [OF inj]) (use that x in simp_all)
  have ids: "la_id y = la_id x \<longleftrightarrow> y = x" if "y \<in> set (db_latest d)" for y
    using assms x that by (auto simp: latest_keys_def distinct_map dest: inj_onD)
  have other: "series (la_event y) \<noteq> series (la_event v) \<and> la_id y \<noteq> la_id x" if "y \<in> set (db_latest d)" "y \<noteq> x" for y
    using sole [OF that(1)] ids [OF that(1)] that(2) by blast
  have step: "(if la_id y = la_id x then v\<lparr>la_id := la_id x\<rparr> else y)
      = (if series (la_event y) = series (la_event v) \<and> newer v y then v\<lparr>la_id := la_id y\<rparr> else y)"
    if "y \<in> set (db_latest d)" "newer v x" for y
    by (cases "y = x") (use that x other [OF that(1)] in simp_all)
  have stay: "(if series (la_event y) = series (la_event v) \<and> newer v y then v\<lparr>la_id := la_id y\<rparr> else y) = y"
    if "y \<in> set (db_latest d)" "\<not> newer v x" for y
    by (cases "y = x") (use that x other [OF that(1)] in simp_all)
  have "map (\<lambda>y. if la_id y = la_id x then v\<lparr>la_id := la_id x\<rparr> else y) (db_latest d)
      = map (\<lambda>y. if series (la_event y) = series (la_event v) \<and> newer v y then v\<lparr>la_id := la_id y\<rparr> else y) (db_latest d)"
    if "newer v x"
    by (rule map_cong [OF refl step [OF _ that]])
  moreover have "map (\<lambda>y. if series (la_event y) = series (la_event v) \<and> newer v y then v\<lparr>la_id := la_id y\<rparr> else y) (db_latest d)
      = db_latest d" if "\<not> newer v x"
    by (rule map_idI [OF stay [OF _ that]])
  moreover have "select_and_update v d = (if newer v x then d\<lparr>db_latest :=
      map (\<lambda>y. if la_id y = la_id x then v\<lparr>la_id := la_id x\<rparr> else y) (db_latest d)\<rparr> else d)"
    by (simp only: select_and_update_def Some option.case newer_def eq_commute [of "te_captured_at (la_event v)"])
  moreover have "on_conflict_update v d = d\<lparr>db_latest := map (\<lambda>y. if series (la_event y) = series (la_event v) \<and> newer v y
      then v\<lparr>la_id := la_id y\<rparr> else y) (db_latest d)\<rparr>"
    unfolding on_conflict_update_def using x by (metis (mono_tags, lifting))
  ultimately show ?thesis by (cases "newer v x") simp_all
qed

lemma upsert_latest_eq: "latest_keys d \<Longrightarrow> upsert_latest v d = on_conflict_update v d"
  by (simp add: upsert_latest_def select_and_update_same)

lemma on_conflict_frame [simp]: "db_samples (on_conflict_update v d) = db_samples d"
  "db_dead_letters (on_conflict_update v d) = db_dead_letters d" "db_last_sample (on_conflict_update v d) = db_last_sample d"
  "db_last_dead_letter (on_conflict_update v d) = db_last_dead_letter d" "db_dialect (on_conflict_update v d) = db_dialect d"
  by (simp_all add: on_conflict_update_def)

lemma newer_cases: "\<not> newer v x \<longleftrightarrow> te_captured_at (la_event v) < te_captured_at (la_event x)
    \<or> te_captured_at (la_event v) = te_captured_at (la_event x) \<and> la_sample_id v \<le> la_sample_id x"
  by (auto simp: newer_def)

text \<open>The update keeps one row per series, keeps covering, and covers the new sample.\<close>

lemma on_conflict_covers:
  assumes "covers (db_latest d) s"
  shows "covers (db_latest (on_conflict_update v d)) s"
proof -
  from assms obtain x where x: "x \<in> set (db_latest d)" "series (la_event x) = series (sm_event s)"
      "te_captured_at (sm_event s) < te_captured_at (la_event x)
       \<or> te_captured_at (sm_event s) = te_captured_at (la_event x) \<and> sm_id s \<le> la_sample_id x"
    by (auto simp: covers_def)
  show ?thesis
  proof (cases "\<exists>x \<in> set (db_latest d). series (la_event x) = series (la_event v)")
    case False
    with x show ?thesis by (auto simp: covers_def on_conflict_update_def)
  next
    case True
    let ?f = "\<lambda>x. if series (la_event x) = series (la_event v) \<and> newer v x then v\<lparr>la_id := la_id x\<rparr> else x"
    have "?f x \<in> set (db_latest (on_conflict_update v d))" using True x(1) by (auto simp: on_conflict_update_def)
    moreover have "series (la_event (?f x)) = series (sm_event s)" using x(2) by simp
    moreover have "te_captured_at (sm_event s) < te_captured_at (la_event (?f x))
       \<or> te_captured_at (sm_event s) = te_captured_at (la_event (?f x)) \<and> sm_id s \<le> la_sample_id (?f x)"
      using x(3) by (auto simp: newer_def)
    ultimately show ?thesis unfolding covers_def by blast
  qed
qed

lemma on_conflict_covers_new:
  assumes "la_event v = sm_event s" and "la_sample_id v = sm_id s"
  shows "covers (db_latest (on_conflict_update v d)) s"
proof (cases "\<exists>x \<in> set (db_latest d). series (la_event x) = series (la_event v)")
  case False
  with assms show ?thesis by (auto simp: covers_def on_conflict_update_def)
next
  case True
  then obtain x where x: "x \<in> set (db_latest d)" "series (la_event x) = series (la_event v)" by blast
  let ?f = "\<lambda>x. if series (la_event x) = series (la_event v) \<and> newer v x then v\<lparr>la_id := la_id x\<rparr> else x"
  have "?f x \<in> set (db_latest (on_conflict_update v d))" using True x(1) by (auto simp: on_conflict_update_def)
  moreover have "series (la_event (?f x)) = series (sm_event s)" using x(2) assms by simp
  moreover have "te_captured_at (sm_event s) < te_captured_at (la_event (?f x))
     \<or> te_captured_at (sm_event s) = te_captured_at (la_event (?f x)) \<and> sm_id s \<le> la_sample_id (?f x)"
    using assms by (cases "newer v x") (auto simp: x(2) newer_cases)
  ultimately show ?thesis unfolding covers_def by blast
qed

lemma on_conflict_rows_ok:
  assumes "distinct (map (\<lambda>x. series (la_event x)) (db_latest d))" and "distinct (map la_id (db_latest d))"
    and "\<forall>x \<in> set (db_latest d). la_id x \<le> db_last_latest d \<and> la_sample_id x \<le> n" and "la_sample_id v \<le> n"
  shows "distinct (map (\<lambda>x. series (la_event x)) (db_latest (on_conflict_update v d)))
    \<and> distinct (map la_id (db_latest (on_conflict_update v d)))
    \<and> (\<forall>x \<in> set (db_latest (on_conflict_update v d)). la_id x \<le> db_last_latest (on_conflict_update v d) \<and> la_sample_id x \<le> n)"
proof (cases "\<exists>x \<in> set (db_latest d). series (la_event x) = series (la_event v)")
  case True
  let ?f = "\<lambda>x. if series (la_event x) = series (la_event v) \<and> newer v x then v\<lparr>la_id := la_id x\<rparr> else x"
  have m: "map (\<lambda>x. series (la_event x)) (map ?f xs) = map (\<lambda>x. series (la_event x)) xs"
    "map la_id (map ?f xs) = map la_id xs" for xs by (induction xs) simp_all
  from True have u: "on_conflict_update v d = d\<lparr>db_latest := map ?f (db_latest d)\<rparr>" by (simp add: on_conflict_update_def)
  have "\<forall>x \<in> set (map ?f (db_latest d)). la_id x \<le> db_last_latest d \<and> la_sample_id x \<le> n" using assms(3,4) by auto
  with assms(1,2) show ?thesis unfolding u using m by (simp del: map_map)
next
  case False
  with assms show ?thesis by (force simp: on_conflict_update_def)
qed

section \<open>Persisting\<close>

lemma stale_after_Inl: "stale_after_seconds raw = Inl x \<Longrightarrow> \<exists>m. x = OverflowError m"
  by (auto simp: stale_after_seconds_def Let_def float_of_int_def ebind_eq_Inl split: option.splits json.splits if_splits)

text \<open>What a transaction of \<open>persist\<close> that commits does.\<close>

definition persisted_as :: "telemetry_event \<Rightarrow> raw_payload \<Rightarrow> bool \<Rightarrow> telemetry_db \<Rightarrow> telemetry_db \<Rightarrow> bool" where
  "persisted_as e raw b d d' = (if b then (\<forall>s \<in> set (db_samples d). te_event_id (sm_event s) \<noteq> te_event_id e)
       \<and> (\<exists>s. db_samples d' = db_samples d @ [s] \<and> sm_event s = e \<and> sm_raw_payload s = raw \<and> sm_raw_payload_retained s
            \<and> db_last_sample d < sm_id s \<and> covers (db_latest d') s)
     else db_samples d' = db_samples d \<and> db_latest d' = db_latest d
       \<and> (\<exists>s \<in> set (db_samples d). te_event_id (sm_event s) = te_event_id e))"

lemma persist_call_ok:
  assumes ok: "db_ok d" and run: "persist_call e raw gap now d = (Inr b, d')"
  shows "db_ok d' \<and> persisted_as e raw b d d' \<and> db_dead_letters d' = db_dead_letters d \<and> db_dialect d' = db_dialect d"
proof -
  have so: "samples_ok d" "latest_ok d" "dead_letters_ok d" using ok by (simp_all add: db_ok_def)
  have big: "bigint_ok (te_raw_value e) \<and> bigint_ok (te_raw_status e)" if "b"
    using run that by (auto simp: persist_call_def insert_unless_known_def select_then_insert_def split: if_splits option.splits)
  have run': "(case insert_unless_known e raw gap now d of
        Inl x \<Rightarrow> (Inl x, d) | Inr (None, d') \<Rightarrow> (Inr False, d')
      | Inr (Some s, d') \<Rightarrow> (case latest_values s raw of Inl x \<Rightarrow> (Inl x, d') | Inr v \<Rightarrow> (Inr True, upsert_latest v d'))) = (Inr b, d')"
    if "bigint_ok (te_raw_value e)" "bigint_ok (te_raw_status e)"
    using run select_then_insert_same [OF so(1) that] by (auto simp: persist_call_def split: if_splits)
  show ?thesis
  proof (cases "bigint_ok (te_raw_value e) \<and> bigint_ok (te_raw_status e)")
    case False
    with run have "\<not> b" using big by blast
    with run False show ?thesis using ok
      by (auto simp: persist_call_def insert_unless_known_def select_then_insert_def persisted_as_def
          split: if_splits option.splits sum.splits prod.splits dest: find_some)
  next
    case True
    note run'' = run' [OF True [THEN conjunct1] True [THEN conjunct2]]
    show ?thesis
    proof (cases "\<exists>s \<in> set (db_samples d). te_event_id (sm_event s) = te_event_id e")
      case known: True
      with run'' True have "b = False" "d' = d" by (auto simp: insert_unless_known_def)
      with known ok show ?thesis by (auto simp: persisted_as_def)
    next
      case new: False
      obtain s d1 where ins: "insert_sample e raw gap now d = (s, d1)" by fastforce
      with run'' True new obtain v where v: "latest_values s raw = Inr v" "b" "d' = upsert_latest v d1"
        by (auto simp: insert_unless_known_def split: sum.splits)
      have s: "sm_event s = e" "sm_raw_payload s = raw" "sm_raw_payload_retained s" "sm_id s = db_last_sample d + 1 + int gap"
          "d1 = d\<lparr>db_samples := db_samples d @ [s], db_last_sample := sm_id s\<rparr>"
        using ins by (auto simp: insert_sample_def Let_def)
      have vv: "la_event v = sm_event s" "la_sample_id v = sm_id s" using v(1) by (auto simp: latest_values_def ebind_eq_Inr)
      have keys: "latest_keys d1" using so(2) by (simp add: s(5) latest_ok_def latest_keys_def)
      have up: "d' = on_conflict_update v d1" using v(3) upsert_latest_eq [OF keys] by simp
      have "samples_ok d1" by (rule insert_sample_ok [OF so(1) _ ins]) (use new in blast)
      moreover have "covers (db_latest d') s" unfolding up by (rule on_conflict_covers_new [OF vv])
      moreover have "\<forall>x \<in> set (db_samples d). covers (db_latest d') x"
        using so(2) on_conflict_covers [of d1] by (simp add: latest_ok_def up s(5))
      moreover have "latest_keys d' \<and> (\<forall>x \<in> set (db_latest d'). la_id x \<le> db_last_latest d' \<and> la_sample_id x \<le> db_last_sample d1)"
        using on_conflict_rows_ok [of d1 "db_last_sample d1" v] so(2) keys vv s(4)
        by (force simp: latest_ok_def latest_keys_def up s(5))
      ultimately show ?thesis using new so(3) s(1-4) \<open>b\<close>
        by (simp add: db_ok_def samples_ok_def latest_ok_def dead_letters_ok_def persisted_as_def up s(5) latest_keys_def)
    qed
  qed
qed

definition same_rows :: "telemetry_db \<Rightarrow> telemetry_db \<Rightarrow> bool" where
  "same_rows d d' = (db_samples d' = db_samples d \<and> db_latest d' = db_latest d \<and> db_dead_letters d' = db_dead_letters d
     \<and> db_last_sample d' = db_last_sample d \<and> db_last_latest d' = db_last_latest d
     \<and> db_last_dead_letter d' = db_last_dead_letter d)"

lemma same_rows_script [simp]: "same_rows d (d\<lparr>db_script := sc\<rparr>)" "same_rows d d"
  by (simp_all add: same_rows_def)

lemma db_ok_same: "same_rows d d' \<Longrightarrow> db_ok d' = db_ok d"
  by (simp add: same_rows_def db_ok_def samples_ok_def latest_ok_def latest_keys_def dead_letters_ok_def)

lemma persisted_as_script [simp]: "persisted_as e raw b (d\<lparr>db_script := sc\<rparr>) d' = persisted_as e raw b d d'"
  by (simp add: persisted_as_def)

definition has_event :: "string \<Rightarrow> telemetry_db \<Rightarrow> bool" where
  "has_event i d = (\<exists>s \<in> set (db_samples d). te_event_id (sm_event s) = i)"

lemma persist_cases:
  assumes "db_ok d" and "persist e raw d = (r, d')"
  shows "db_ok d' \<and> db_dead_letters d' = db_dead_letters d
    \<and> (case r of Inr b \<Rightarrow> persisted_as e raw b d d' \<and> has_event (te_event_id e) d'
       | Inl x \<Rightarrow> same_rows d d' \<or> (\<exists>b m. x = OtherError m \<and> persisted_as e raw b d d'))"
  using assms(2) [unfolded persist_def]
proof (cases rule: transaction_cases)
  case (nothing x sc)
  with assms(1) show ?thesis by simp
next
  case (committed gap now b sc)
  with persist_call_ok [of "d\<lparr>db_script := sc\<rparr>" e raw gap now b d'] assms(1)
  show ?thesis by (auto simp: persisted_as_def has_event_def)
next
  case (unseen gap now b sc m)
  with persist_call_ok [of "d\<lparr>db_script := sc\<rparr>" e raw gap now b d'] assms(1)
  show ?thesis by auto
qed

text \<open>C21: \<open>persist\<close> stores an event once. When it returns \<open>True\<close> the event was unknown and is now the last
  sample, covered by the latest row of its series; when it returns \<open>False\<close> the event was stored before and no row
  changed; when it raises, either no row changed or it did one of these without the caller seeing it. The tables
  stay well-formed: ids increase, event ids and series are unique, every latest row is at least as new as
  every sample of its series.\<close>

theorem persist_outcome:
  assumes "db_ok d" and "persist e raw d = (r, d')"
  shows "db_ok d' \<and> db_dead_letters d' = db_dead_letters d
    \<and> (case r of Inr b \<Rightarrow> persisted_as e raw b d d' \<and> has_event (te_event_id e) d'
       | Inl x \<Rightarrow> same_rows d d' \<or> (\<exists>b m. x = OtherError m \<and> persisted_as e raw b d d'))"
  by (rule persist_cases [OF assms])

lemma persist_outcome_witness:
  "\<exists>r d'. persist \<lparr>te_event_id = ''e1'', te_node_id = ''n'', te_captured_at = 5, te_metric = ''t'', te_value = Some 1,
      te_unit = ''C'', te_quality = ''valid'', te_source = ''s'', te_equipment_id = ''q'', te_channel_id = ''c'',
      te_alarm = None, te_raw_value = None, te_raw_status = None\<rparr> []
     \<lparr>db_dialect = ''sqlite'', db_samples = [], db_latest = [], db_dead_letters = [], db_last_sample = 0,
      db_last_latest = 0, db_last_dead_letter = 0, db_script = [Reply_lost 0 7 ''gone'']\<rparr> = (r, d')
     \<and> r = Inl (OtherError ''gone'') \<and> db_ok d' \<and> length (db_samples d') = 1"
proof -
  let ?e = "\<lparr>te_event_id = ''e1'', te_node_id = ''n'', te_captured_at = 5, te_metric = ''t'', te_value = Some 1,
      te_unit = ''C'', te_quality = ''valid'', te_source = ''s'', te_equipment_id = ''q'', te_channel_id = ''c'',
      te_alarm = None, te_raw_value = None, te_raw_status = None\<rparr>"
  let ?d = "\<lparr>db_dialect = ''sqlite'', db_samples = [], db_latest = [], db_dead_letters = [], db_last_sample = 0,
      db_last_latest = 0, db_last_dead_letter = 0, db_script = [Reply_lost 0 7 ''gone'']\<rparr>"
  obtain r d' where run: "persist ?e [] ?d = (r, d')" by fastforce
  have ok: "db_ok ?d" by (simp add: db_ok_def samples_ok_def latest_ok_def latest_keys_def dead_letters_ok_def)
  have "fst (persist ?e [] ?d) = Inl (OtherError ''gone'') \<and> length (db_samples (snd (persist ?e [] ?d))) = 1"
    by (simp add: persist_def transaction_def persist_call_def insert_unless_known_def insert_sample_def Let_def
        bigint_ok_def latest_values_def stale_after_seconds_def upsert_latest_def on_conflict_update_def)
  with persist_outcome [OF ok run] run show ?thesis by (intro exI [of _ r] exI [of _ d']) auto
qed

section \<open>Dialects\<close>

lemma upsert_dialects:
  assumes "latest_keys d"
  shows "upsert_latest v (d\<lparr>db_dialect := b\<rparr>) = (upsert_latest v d)\<lparr>db_dialect := b\<rparr>"
proof -
  have "latest_keys (d\<lparr>db_dialect := b\<rparr>)" using assms by (simp add: latest_keys_def)
  then show ?thesis using assms by (simp add: upsert_latest_eq on_conflict_update_def)
qed

text \<open>The statements for PostgreSQL, for SQLite and for the other dialects do the same: on well-formed tables
  an event whose integers fit the columns is persisted with the same result and the same rows.\<close>

theorem dialects_agree:
  assumes "db_ok d" and "bigint_ok (te_raw_value e)" and "bigint_ok (te_raw_status e)"
    and "persist_call e raw gap now d = (Inr b, d')"
  shows "persist_call e raw gap now (d\<lparr>db_dialect := x\<rparr>) = (Inr b, d'\<lparr>db_dialect := x\<rparr>)"
proof -
  have so: "samples_ok d" "latest_keys d" using assms(1) by (simp_all add: db_ok_def latest_ok_def)
  have sox: "samples_ok (d\<lparr>db_dialect := x\<rparr>)" using so(1) by (simp add: samples_ok_def)
  define one where "one = (\<lambda>d. case insert_unless_known e raw gap now d of
      Inl y \<Rightarrow> (Inl y, d) | Inr (None, d1) \<Rightarrow> (Inr False, d1)
    | Inr (Some s, d1) \<Rightarrow> (case latest_values s raw of Inl y \<Rightarrow> (Inl y, d1) | Inr v \<Rightarrow> (Inr True, upsert_latest v d1)))"
  have call: "persist_call e raw gap now u = one u" if "samples_ok u" for u
    unfolding persist_call_def one_def using select_then_insert_same [OF that assms(2,3)] by presburger
  have ins: "insert_unless_known e raw gap now (d\<lparr>db_dialect := x\<rparr>)
      = (case insert_unless_known e raw gap now d of Inl y \<Rightarrow> Inl y | Inr (s, d1) \<Rightarrow> Inr (s, d1\<lparr>db_dialect := x\<rparr>))"
    by (simp add: insert_unless_known_def insert_sample_def Let_def)
  have keys: "latest_keys d1" if "insert_unless_known e raw gap now d = Inr (s, d1)" for s d1
    using so(2) that by (auto simp: insert_unless_known_def insert_sample_def Let_def latest_keys_def split: if_splits)
  have "one (d\<lparr>db_dialect := x\<rparr>) = (Inr b, d'\<lparr>db_dialect := x\<rparr>)"
    using assms(4) [unfolded call [OF so(1)]] keys
    by (auto simp: one_def ins upsert_dialects split: sum.splits prod.splits option.splits)
  then show ?thesis by (simp add: call [OF sox])
qed

lemma dialects_agree_witness:
  "\<exists>d'. persist_call \<lparr>te_event_id = ''e1'', te_node_id = ''n'', te_captured_at = 5, te_metric = ''t'', te_value = Some 1,
      te_unit = ''C'', te_quality = ''valid'', te_source = ''s'', te_equipment_id = ''q'', te_channel_id = ''c'',
      te_alarm = None, te_raw_value = Some 3, te_raw_status = None\<rparr> [] 0 7
     (\<lparr>db_dialect = ''sqlite'', db_samples = [], db_latest = [], db_dead_letters = [], db_last_sample = 0,
      db_last_latest = 0, db_last_dead_letter = 0, db_script = []\<rparr>\<lparr>db_dialect := ''mysql''\<rparr>) = (Inr True, d'\<lparr>db_dialect := ''mysql''\<rparr>)"
proof -
  let ?e = "\<lparr>te_event_id = ''e1'', te_node_id = ''n'', te_captured_at = 5, te_metric = ''t'', te_value = Some 1,
      te_unit = ''C'', te_quality = ''valid'', te_source = ''s'', te_equipment_id = ''q'', te_channel_id = ''c'',
      te_alarm = None, te_raw_value = Some 3, te_raw_status = None\<rparr>"
  let ?d = "\<lparr>db_dialect = ''sqlite'', db_samples = [], db_latest = [], db_dead_letters = [], db_last_sample = 0,
      db_last_latest = 0, db_last_dead_letter = 0, db_script = []\<rparr>"
  have ok: "db_ok ?d" by (simp add: db_ok_def samples_ok_def latest_ok_def latest_keys_def dead_letters_ok_def)
  have b: "bigint_ok (te_raw_value ?e)" "bigint_ok (te_raw_status ?e)" by (simp_all add: bigint_ok_def)
  obtain d' where "persist_call ?e [] 0 7 ?d = (Inr True, d')"
    by (simp add: persist_call_def insert_unless_known_def insert_sample_def Let_def
        bigint_ok_def latest_values_def stale_after_seconds_def)
  from dialects_agree [OF ok b this, of "''mysql''"] show ?thesis by blast
qed

section \<open>Retention\<close>

lemma first_ids_spec:
  "set (first_ids f P n xs) \<subseteq> f ` {x \<in> set xs. P x} \<and> length (first_ids f P n xs) \<le> n
   \<and> (length (first_ids f P n xs) < n \<longrightarrow> set (first_ids f P n xs) = f ` {x \<in> set xs. P x})"
proof -
  have all: "set (map f (filter P xs)) = f ` {x \<in> set xs. P x}" by auto
  have "set (take n (map f (filter P xs))) \<subseteq> set (map f (filter P xs))" by (rule set_take_subset)
  moreover have "length (take n ys) < n \<Longrightarrow> take n ys = ys" for ys :: "int list" by simp
  ultimately show ?thesis unfolding first_ids_def all [symmetric] by (metis length_take min.cobounded2)
qed

text \<open>What one sweep does with these cutoffs.\<close>

definition swept :: "instant \<Rightarrow> instant \<Rightarrow> instant \<Rightarrow> nat \<Rightarrow> telemetry_db \<Rightarrow> telemetry_db \<Rightarrow> retention_result \<Rightarrow> bool" where
  "swept t r x batch d d' res = (\<exists>gone dead.
     rr_telemetry_deleted res = int (length gone) \<and> length gone \<le> batch
     \<and> rr_dead_letters_deleted res = int (length dead) \<and> length dead \<le> batch
     \<and> map sm_id (db_samples d') = filter (\<lambda>i. i \<notin> set gone) (map sm_id (db_samples d))
     \<and> (\<forall>s \<in> set (db_samples d). sm_id s \<in> set gone \<longrightarrow> te_captured_at (sm_event s) < t)
     \<and> (length gone < batch \<longrightarrow> (\<forall>s \<in> set (db_samples d'). t \<le> te_captured_at (sm_event s)))
     \<and> (\<forall>s' \<in> set (db_samples d'). \<exists>s \<in> set (db_samples d). s' = s
          \<or> s' = s\<lparr>sm_raw_payload := [], sm_raw_payload_retained := False\<rparr> \<and> sm_received_at s < r)
     \<and> db_dead_letters d' = filter (\<lambda>y. dl_id y \<notin> set dead) (db_dead_letters d)
     \<and> (\<forall>y \<in> set (db_dead_letters d). dl_id y \<in> set dead \<longrightarrow> dl_received_at y < x)
     \<and> db_latest d' = db_latest d)"

lemma cleanup_call_swept:
  assumes ok: "db_ok d" and run: "cleanup_call t r x batch d = (res, d')"
  shows "db_ok d' \<and> swept t r x batch d d' res"
proof -
  define gone where "gone = first_ids sm_id (\<lambda>s. te_captured_at (sm_event s) < t) batch (db_samples d)"
  define kept where "kept = filter (\<lambda>s. sm_id s \<notin> set gone) (db_samples d)"
  define redact where "redact = first_ids sm_id (\<lambda>s. sm_received_at s < r \<and> sm_raw_payload_retained s) batch kept"
  define f :: "sample \<Rightarrow> sample" where "f = (\<lambda>s. if sm_id s \<in> set redact then s\<lparr>sm_raw_payload := [], sm_raw_payload_retained := False\<rparr> else s)"
  define dead where "dead = first_ids dl_id (\<lambda>y. dl_received_at y < x) batch (db_dead_letters d)"
  have d': "d' = d\<lparr>db_samples := map f kept, db_dead_letters := filter (\<lambda>y. dl_id y \<notin> set dead) (db_dead_letters d)\<rparr>"
    and res: "rr_telemetry_deleted res = int (length gone)" "rr_dead_letters_deleted res = int (length dead)"
    using run by (auto simp: cleanup_call_def gone_def kept_def redact_def f_def dead_def Let_def)
  have srt: "sorted_wrt (<) (map sm_id (db_samples d))" "sorted_wrt (<) (map dl_id (db_dead_letters d))"
    using ok by (simp_all add: db_ok_def samples_ok_def dead_letters_ok_def)
  note g = first_ids_spec [of sm_id "\<lambda>s. te_captured_at (sm_event s) < t" batch "db_samples d", folded gone_def]
  note rd = first_ids_spec [of sm_id "\<lambda>s. sm_received_at s < r \<and> sm_raw_payload_retained s" batch kept, folded redact_def]
  note dd = first_ids_spec [of dl_id "\<lambda>y. dl_received_at y < x" batch "db_dead_letters d", folded dead_def]
  have fid: "sm_id (f s) = sm_id s" "sm_event (f s) = sm_event s" for s by (simp_all add: f_def)
  have kept_sub: "set kept \<subseteq> set (db_samples d)" by (auto simp: kept_def)
  have old: "te_captured_at (sm_event s) < t" if "s \<in> set (db_samples d)" "sm_id s \<in> set gone" for s
  proof -
    from that(2) g obtain u where "u \<in> set (db_samples d)" "te_captured_at (sm_event u) < t" "sm_id u = sm_id s" by force
    with ids_determine [OF srt(1) _ that(1)] show ?thesis by auto
  qed
  have deadold: "dl_received_at y < x" if "y \<in> set (db_dead_letters d)" "dl_id y \<in> set dead" for y
  proof -
    from that(2) dd obtain u where "u \<in> set (db_dead_letters d)" "dl_received_at u < x" "dl_id u = dl_id y" by force
    with ids_determine [OF srt(2) _ that(1)] show ?thesis by auto
  qed
  have all: "t \<le> te_captured_at (sm_event s)" if "length gone < batch" "s \<in> set kept" for s
    using g that by (force simp: kept_def)
  have red: "sm_received_at s < r" if "s \<in> set kept" "sm_id s \<in> set redact" for s
  proof -
    from that(2) rd obtain u where "u \<in> set kept" "sm_received_at u < r" "sm_id u = sm_id s" by force
    with ids_determine [OF srt(1), of u s] kept_sub that(1) show ?thesis by auto
  qed
  have ids: "map sm_id (map f kept) = filter (\<lambda>i. i \<notin> set gone) (map sm_id (db_samples d))"
    by (simp add: fid comp_def kept_def filter_map)
  have each: "\<exists>s \<in> set (db_samples d). f u = s \<or> f u = s\<lparr>sm_raw_payload := [], sm_raw_payload_retained := False\<rparr> \<and> sm_received_at s < r"
    if "u \<in> set kept" for u
    using red [OF that] kept_sub that by (auto simp: f_def)
  have "samples_ok d'"
  proof -
    have "sorted_wrt (<) (map sm_id (map f kept))" unfolding ids by (rule sorted_wrt_filter [OF srt(1)])
    moreover have "distinct (map (\<lambda>s. te_event_id (sm_event s)) (map f kept))"
      using ok by (simp add: fid comp_def kept_def distinct_map_filter db_ok_def samples_ok_def)
    ultimately show ?thesis using ok kept_sub by (auto simp: d' samples_ok_def db_ok_def fid)
  qed
  moreover have "latest_ok d'"
  proof -
    have "covers (db_latest d) (f s)" if "s \<in> set kept" for s
      using ok kept_sub that by (auto simp: covers_def fid db_ok_def latest_ok_def)
    with ok show ?thesis by (auto simp: d' latest_ok_def latest_keys_def db_ok_def)
  qed
  moreover have "dead_letters_ok d'"
    using ok by (auto simp: d' dead_letters_ok_def db_ok_def sorted_wrt_map intro: sorted_wrt_filter)
  moreover have "swept t r x batch d d' res"
    unfolding swept_def
  proof (rule exI [of _ gone], rule exI [of _ dead], intro conjI)
    show "map sm_id (db_samples d') = filter (\<lambda>i. i \<notin> set gone) (map sm_id (db_samples d))" using ids by (simp add: d')
    show "\<forall>s \<in> set (db_samples d). sm_id s \<in> set gone \<longrightarrow> te_captured_at (sm_event s) < t" using old by blast
    show "length gone < batch \<longrightarrow> (\<forall>s \<in> set (db_samples d'). t \<le> te_captured_at (sm_event s))"
      using all by (simp add: d' fid)
    show "\<forall>s' \<in> set (db_samples d'). \<exists>s \<in> set (db_samples d). s' = s
        \<or> s' = s\<lparr>sm_raw_payload := [], sm_raw_payload_retained := False\<rparr> \<and> sm_received_at s < r"
      using each by (simp add: d')
    show "\<forall>y \<in> set (db_dead_letters d). dl_id y \<in> set dead \<longrightarrow> dl_received_at y < x" using deadold by blast
  qed (use res g dd in \<open>simp_all add: d'\<close>)
  ultimately show ?thesis by (simp add: db_ok_def)
qed

text \<open>C22: A retention run deletes only samples captured before the telemetry cutoff and dead letters received
  before theirs, at most a batch of each, and every old sample when the batch is not full; the samples that stay
  are unchanged but for raw payloads older than their cutoff, which are emptied. The latest rows are never
  touched. When it raises, nothing was changed or the transaction committed unseen.\<close>

theorem retention_sound:
  assumes "db_ok d" and "cleanup_retention now td rd dd batch d = (res, d')"
  shows "db_ok d' \<and> (case res of
     Inr r \<Rightarrow> swept (now - td * 86400 * second) (now - rd * 86400 * second) (now - dd * 86400 * second) batch d d' r
   | Inl e \<Rightarrow> same_rows d d' \<or> (\<exists>r. swept (now - td * 86400 * second) (now - rd * 86400 * second)
       (now - dd * 86400 * second) batch d d' r))"
proof -
  have cut: "t = now - n * 86400 * second" if "days_before now n = Inr t" for t n
    using after_seconds_Inr [of now "- n * 86400" t] that by (simp add: days_before_def algebra_simps)
  show ?thesis
  proof (cases "\<exists>t r x. days_before now td = Inr t \<and> days_before now rd = Inr r \<and> days_before now dd = Inr x")
    case False
    with assms show ?thesis by (auto simp: cleanup_retention_def split: sum.splits)
  next
    case True
    then obtain t r x where c: "days_before now td = Inr t" "days_before now rd = Inr r" "days_before now dd = Inr x" by blast
    have tr: "transaction (\<lambda>gap clock d. case cleanup_call t r x batch d of (res, d') \<Rightarrow> (Inr res, d')) d = (res, d')"
      using assms(2) c by (simp add: cleanup_retention_def)
    have cl: "db_ok u' \<and> swept t r x batch d u' res" if "cleanup_call t r x batch (d\<lparr>db_script := sc\<rparr>) = (res, u')" for res u' sc
      using cleanup_call_swept [OF _ that] assms(1) by (simp add: swept_def)
    have "db_ok d' \<and> (case res of Inr q \<Rightarrow> swept t r x batch d d' q
        | Inl e \<Rightarrow> same_rows d d' \<or> (\<exists>q. swept t r x batch d d' q))"
      using tr
    proof (cases rule: transaction_cases)
      case (nothing e sc)
      then show ?thesis using assms(1) by simp
    next
      case (committed gap now a sc)
      from committed(1) have "cleanup_call t r x batch (d\<lparr>db_script := sc\<rparr>) = (a, d')" by (auto split: prod.splits)
      from cl [OF this] committed(2) show ?thesis by simp
    next
      case (unseen gap now a sc m)
      from unseen(1) have "cleanup_call t r x batch (d\<lparr>db_script := sc\<rparr>) = (a, d')" by (auto split: prod.splits)
      from cl [OF this] unseen(2) show ?thesis by auto
    qed
    then show ?thesis by (simp only: cut [OF c(1)] cut [OF c(2)] cut [OF c(3)])
  qed
qed

lemma retention_sound_witness:
  "\<exists>res d'. cleanup_retention (100 * 86400 * second) 30 7 7 10
     \<lparr>db_dialect = ''sqlite'', db_samples = [], db_latest = [], db_dead_letters =
        [\<lparr>dl_id = 1, dl_topic = None, dl_reason_code = ''r'', dl_reason_detail = [], dl_payload = [], dl_payload_size = 0,
          dl_payload_truncated = False, dl_received_at = 5\<rparr>], db_last_sample = 0,
      db_last_latest = 0, db_last_dead_letter = 1, db_script = []\<rparr> = (Inr res, d') \<and> db_ok d'
     \<and> rr_dead_letters_deleted res = 1 \<and> db_dead_letters d' = []"
proof -
  let ?d = "\<lparr>db_dialect = ''sqlite'', db_samples = [], db_latest = [], db_dead_letters =
        [\<lparr>dl_id = 1, dl_topic = None, dl_reason_code = ''r'', dl_reason_detail = [], dl_payload = [], dl_payload_size = 0,
          dl_payload_truncated = False, dl_received_at = 5\<rparr>], db_last_sample = 0,
      db_last_latest = 0, db_last_dead_letter = 1, db_script = []\<rparr>"
  have ok: "db_ok ?d" by (simp add: db_ok_def samples_ok_def latest_ok_def latest_keys_def dead_letters_ok_def)
  obtain res d' where run: "cleanup_retention (100 * 86400 * second) 30 7 7 10 ?d = (res, d')" by fastforce
  have v: "isOk res \<and> db_dead_letters d' = [] \<and> (\<forall>r. res = Inr r \<longrightarrow> rr_dead_letters_deleted r = 1)"
    using run by (auto simp: cleanup_retention_def days_before_def after_seconds_def timedelta_of_def add_delta_def
        instant_min_def instant_max_def transaction_def cleanup_call_def first_ids_def Let_def)
  with retention_sound [OF ok run] run show ?thesis by (auto simp: isOk_iff)
qed

section \<open>Pages of a snapshot\<close>

text \<open>The rows in a strict order: by time, then by event id, newest first.\<close>

definition precedes :: "telemetry_event \<Rightarrow> telemetry_event \<Rightarrow> bool" where
  "precedes a b = (te_captured_at b < te_captured_at a \<or> te_captured_at a = te_captured_at b \<and> te_event_id b \<le> te_event_id a)"

lemma newest_first_set [simp]: "set (newest_first ev xs) = set xs" "length (newest_first ev xs) = length xs"
  by (simp_all add: newest_first_def)

lemma sorted_two_keys:
  "sorted_wrt (\<lambda>a b. f a \<le> f b) xs \<Longrightarrow> (\<And>v. sorted_wrt (\<lambda>a b. g a \<le> g b) (filter (\<lambda>x. f x = v) xs))
    \<Longrightarrow> sorted_wrt (\<lambda>a b. f a < f b \<or> f a = f b \<and> g a \<le> g b) xs" for f :: "'a \<Rightarrow> 'b :: linorder" and g :: "'a \<Rightarrow> 'c :: linorder"
proof (induction xs)
  case (Cons x xs)
  have tail: "sorted_wrt (\<lambda>a b. g a \<le> g b) (filter (\<lambda>x. f x = v) xs)" for v
    using Cons.prems(2) [of v] by (auto split: if_splits)
  have "f x < f y \<or> f x = f y \<and> g x \<le> g y" if "y \<in> set xs" for y
    using Cons.prems(1) Cons.prems(2) [of "f x"] that by (cases "f x = f y") auto
  with Cons.IH [OF _ tail] Cons.prems(1) show ?case by simp
qed simp

lemma newest_first_sorted: "sorted_wrt (\<lambda>a b. precedes (ev a) (ev b)) (newest_first ev xs)"
proof -
  let ?f = "\<lambda>x. te_captured_at (ev x)" and ?g = "\<lambda>x. te_event_id (ev x)"
  let ?ys = "sort_key ?f (sort_key ?g xs)"
  have s: "sorted_wrt (\<lambda>a b. h a \<le> h b) (sort_key h zs)" for h :: "'a \<Rightarrow> 'c :: linorder" and zs
    using sorted_sort_key [of h zs] by (simp add: sorted_wrt_map)
  have "sorted_wrt (\<lambda>a b. ?g a \<le> ?g b) (filter (\<lambda>x. ?f x = v) ?ys)" for v
    unfolding sort_key_stable by (intro sorted_wrt_filter s)
  then have "sorted_wrt (\<lambda>a b. ?f a < ?f b \<or> ?f a = ?f b \<and> ?g a \<le> ?g b) ?ys" by (rule sorted_two_keys [OF s])
  then show ?thesis
    unfolding newest_first_def sorted_wrt_rev by (rule sorted_wrt_mono_rel [rotated]) (auto simp: precedes_def)
qed

lemma pages_cover: "concat (map (\<lambda>k. page n (k * n) xs) [0..<m]) = take (m * n) xs"
proof (induction m)
  case (Suc m)
  have "take (m * n) xs @ take n (drop (m * n) xs) = take (m * n + n) xs" by (simp add: take_add)
  with Suc show ?case by (simp add: page_def add.commute)
qed simp

text \<open>The pages of one history snapshot are stable: when every sample stored after the snapshot is received
  later than it, each page read at any later time is the page of the first read, so consecutive pages of any
  size enumerate, newest first, exactly the samples the query matches at the snapshot, without gap or repetition.\<close>

theorem snapshot_pages_stable:
  fixes q :: telemetry_query
  assumes "db_samples d' = db_samples d @ later" and "\<forall>s \<in> set later. snap < sm_received_at s"
  defines "match \<equiv> \<lambda>s. event_filters (q\<lparr>tq_received_before := Some snap\<rparr>) (sm_event s) (sm_received_at s)"
  shows "history_statement (q\<lparr>tq_received_before := Some snap\<rparr>) n k (db_samples d')
      = history_statement (q\<lparr>tq_received_before := Some snap\<rparr>) n k (db_samples d)
    \<and> (\<forall>m. length (db_samples d) \<le> m * n \<longrightarrow>
        concat (map (\<lambda>i. history_statement (q\<lparr>tq_received_before := Some snap\<rparr>) n (i * n) (db_samples d')) [0..<m])
          = newest_first sm_event (filter match (db_samples d)))
    \<and> sorted_wrt (\<lambda>a b. precedes (sm_event a) (sm_event b)) (newest_first sm_event (filter match (db_samples d)))"
proof -
  have none: "filter match later = []"
    using assms(2) by (auto simp: filter_empty_conv match_def event_filters_def asked_def)
  have rows: "filter match (db_samples d') = filter match (db_samples d)" using none assms(1) by simp
  have st: "history_statement (q\<lparr>tq_received_before := Some snap\<rparr>) n k (db_samples d')
      = page n k (newest_first sm_event (filter match (db_samples d)))" for n k
    unfolding rows [symmetric] by (simp add: history_statement_def match_def)
  have st0: "history_statement (q\<lparr>tq_received_before := Some snap\<rparr>) n k (db_samples d)
      = page n k (newest_first sm_event (filter match (db_samples d)))" for n k
    by (simp add: history_statement_def match_def)
  have "take (m * n) (newest_first sm_event (filter match (db_samples d))) = newest_first sm_event (filter match (db_samples d))"
    if "length (db_samples d) \<le> m * n" for m
    using le_trans [OF length_filter_le that] by simp
  then show ?thesis using newest_first_sorted [of sm_event] by (simp only: st st0 pages_cover) simp
qed

lemma snapshot_pages_stable_witness:
  "\<forall>s. history_statement (\<lparr>tq_node_id = None, tq_equipment_id = None, tq_channel_id = None, tq_metric = None,
       tq_quality = None, tq_alarm = None, tq_from_at = None, tq_to_at = None, tq_received_before = None\<rparr>
         \<lparr>tq_received_before := Some 10\<rparr>) 5 0
     (db_samples \<lparr>db_dialect = ''sqlite'', db_samples = [s\<lparr>sm_received_at := 9\<rparr>] @ [s\<lparr>sm_received_at := 11\<rparr>],
       db_latest = [], db_dead_letters = [], db_last_sample = 0, db_last_latest = 0, db_last_dead_letter = 0, db_script = []\<rparr>)
   = [s\<lparr>sm_received_at := 9\<rparr>]"
proof
  fix s :: sample
  let ?q = "\<lparr>tq_node_id = None, tq_equipment_id = None, tq_channel_id = None, tq_metric = None,
       tq_quality = None, tq_alarm = None, tq_from_at = None, tq_to_at = None, tq_received_before = None\<rparr> :: telemetry_query"
  let ?d = "\<lambda>rows. \<lparr>db_dialect = ''sqlite'', db_samples = rows, db_latest = [], db_dead_letters = [], db_last_sample = 0,
       db_last_latest = 0, db_last_dead_letter = 0, db_script = []\<rparr>"
  have l: "\<forall>x \<in> set [s\<lparr>sm_received_at := 11\<rparr>]. (10 :: instant) < sm_received_at x" by simp
  have a: "db_samples (?d ([s\<lparr>sm_received_at := 9\<rparr>] @ [s\<lparr>sm_received_at := 11\<rparr>]))
      = db_samples (?d [s\<lparr>sm_received_at := 9\<rparr>]) @ [s\<lparr>sm_received_at := 11\<rparr>]" by simp
  have "history_statement (?q\<lparr>tq_received_before := Some 10\<rparr>) 5 0 (db_samples (?d [s\<lparr>sm_received_at := 9\<rparr>])) = [s\<lparr>sm_received_at := 9\<rparr>]"
    by (simp add: history_statement_def event_filters_def asked_def newest_first_def page_def)
  with snapshot_pages_stable [OF a l, of ?q 5 0]
  show "history_statement (?q\<lparr>tq_received_before := Some 10\<rparr>) 5 0
      (db_samples (?d ([s\<lparr>sm_received_at := 9\<rparr>] @ [s\<lparr>sm_received_at := 11\<rparr>]))) = [s\<lparr>sm_received_at := 9\<rparr>]" by (simp only:)
qed

end
