(* ===== verification/Ingestion.thy ===== *)
theory Ingestion
  imports RuntimeState DurableSpool TelemetryDb
begin

text \<open>
  The durable path of \<open>services/telemetry-service/app/ingestion.py\<close>: a payload is decoded, staged in the
  spool, and later taken from it by the persistence worker, one record per iteration of \<open>_run_durable\<close>.

  Parameters of the model are what is passed in or comes from libraries: \<open>decoders\<close> holds UTF-8 decoding,
  \<open>json.loads\<close> and the validation of the pydantic model \<open>TelemetryEvent\<close> (each with its failures), and
  \<open>callbacks\<close> the answers of the authorizer, the live hub and the alert processor to one call. One reading of
  the clock serves a call. Theorems hold for all of them.
\<close>

section \<open>Decoding\<close>

datatype json_text = Parsed json | Syntax string | Parse_raises exn

record decoders =
  dc_utf8 :: "byte list \<Rightarrow> string + string"
  dc_json :: "string \<Rightarrow> json_text"
  dc_event :: "raw_payload \<Rightarrow> string + telemetry_event"

record ingest_config =
  ig_payload_max_bytes :: nat
  ig_dead_letter_payload_max_bytes :: nat
  ig_retry_initial :: pyfloat
  ig_retry_max :: pyfloat
  ig_poll_interval :: pyfloat

datatype work =
    TelemetryWork telemetry_event raw_payload "byte list" "string option" instant
  | DeadLetterWork "byte list" int bool string string "string option" instant

text \<open>\<open>_dead_letter_work\<close>.\<close>

definition dead_letter_work ::
  "ingest_config \<Rightarrow> byte list \<Rightarrow> string option \<Rightarrow> instant \<Rightarrow> string \<Rightarrow> string \<Rightarrow> bool \<Rightarrow> runtime \<Rightarrow> work result \<times> runtime" where
  "dead_letter_work cfg payload topic received_at reason_code reason_detail count_metrics st =
     (let retained = take (ig_dead_letter_payload_max_bytes cfg) payload in
      (Inr (DeadLetterWork retained (int (length payload)) (length retained \<noteq> length payload)
         reason_code reason_detail topic received_at),
       if count_metrics then increment rejected_total st else st))"

text \<open>\<open>_decode_submission\<close>: only \<open>JSONDecodeError\<close> of \<open>json.loads\<close> is caught.\<close>

definition decode_submission ::
  "ingest_config \<Rightarrow> decoders \<Rightarrow> instant \<Rightarrow> byte list \<Rightarrow> string option \<Rightarrow> bool \<Rightarrow> runtime \<Rightarrow> work result \<times> runtime" where
  "decode_submission cfg dc received_at payload topic count_metrics st =
     (let st1 = (if count_metrics then increment received_total st else st);
          reject = (\<lambda>code detail. dead_letter_work cfg payload topic received_at code detail count_metrics st1)
      in if ig_payload_max_bytes cfg < length payload then
           reject ''payload_too_large'' (''payload size '' @ dec (int (length payload)) @ '' exceeds ''
             @ dec (int (ig_payload_max_bytes cfg)) @ '' bytes'')
         else case dc_utf8 dc payload of
           Inl m \<Rightarrow> reject ''invalid_utf8'' m
         | Inr decoded \<Rightarrow>
             (case dc_json dc decoded of
                Syntax m \<Rightarrow> reject ''invalid_json'' m
              | Parse_raises e \<Rightarrow> (Inl e, st1)
              | Parsed (JObj raw) \<Rightarrow>
                  (case dc_event dc raw of
                     Inl m \<Rightarrow> reject ''schema_validation'' m
                   | Inr event \<Rightarrow> (Inr (TelemetryWork event raw payload topic received_at), st1))
              | Parsed _ \<Rightarrow> reject ''payload_not_object'' ''telemetry payload must be a JSON object''))"

section \<open>The service\<close>

record service =
  sv_spool :: spool
  sv_state :: runtime
  sv_db :: telemetry_db
  sv_startup_max_id :: int

abbreviation on_state :: "(runtime \<Rightarrow> runtime) \<Rightarrow> service \<Rightarrow> service" where
  "on_state f sv \<equiv> sv\<lparr>sv_state := f (sv_state sv)\<rparr>"

text \<open>The branch for a \<open>DurableSpoolError\<close>: count it, mark the spool not ready, show the message.\<close>

definition note_spool_error :: "exn \<Rightarrow> runtime \<Rightarrow> runtime" where
  "note_spool_error e st = set_error (Some (exn_str e)) (set_spool_ready False (increment spool_error_total st))"

definition refresh_spool_state :: "instant \<Rightarrow> service \<Rightarrow> service" where
  "refresh_spool_state now sv =
     (case spool_stats_call (sv_spool sv) of
        (Inl e, sp) \<Rightarrow> sv\<lparr>sv_spool := sp, sv_state := note_spool_error e (sv_state sv)\<rparr>
      | (Inr s, sp) \<Rightarrow> sv\<lparr>sv_spool := sp, sv_state := set_spool_stats (ss_pending_records s) (ss_terminal_records s)
          (ss_payload_bytes s) (oldest_pending_age_seconds now s) (sv_state sv)\<rparr>)"

text \<open>\<open>attach_durable_spool\<close> before the worker starts, with \<open>_initialize_spool_state\<close>.\<close>

definition attach_durable_spool :: "instant \<Rightarrow> spool \<Rightarrow> runtime \<Rightarrow> telemetry_db \<Rightarrow> service result" where
  "attach_durable_spool now sp st db =
     ebind (set_spool_capacity (sp_max_records sp) (sp_max_bytes sp) st) (\<lambda>st1.
       case spool_stats_call sp of
         (Inl e, _) \<Rightarrow> Inl e
       | (Inr s, sp') \<Rightarrow>
           let st2 = (if ss_pending_records s \<noteq> 0 then increment_by spool_recovered_total (ss_pending_records s) st1 else st1)
           in Inr \<lparr>sv_spool = sp', sv_state = set_spool_stats (ss_pending_records s) (ss_terminal_records s)
                     (ss_payload_bytes s) (oldest_pending_age_seconds now s) (set_spool_ready True st2),
                   sv_db = db, sv_startup_max_id = ss_max_record_id s\<rparr>)"

section \<open>Staging\<close>

record stage_result =
  sr_staged :: bool
  sr_accepted :: bool
  sr_duplicate :: bool
  sr_record_id :: "int option"
  sr_error :: "string option"

definition not_staged :: "exn \<Rightarrow> stage_result" where
  "not_staged e = \<lparr>sr_staged = False, sr_accepted = False, sr_duplicate = False, sr_record_id = None,
     sr_error = Some (exn_str e)\<rparr>"

definition append_of :: "instant \<Rightarrow> string option \<Rightarrow> work \<Rightarrow> spool \<Rightarrow> append_result result \<times> spool" where
  "append_of now delivery_key w sp =
     (case w of
        TelemetryWork event raw payload topic received_at \<Rightarrow>
          append_telemetry now (te_event_id event) payload topic received_at delivery_key sp
      | DeadLetterWork payload full truncated code detail topic received_at \<Rightarrow>
          append_dead_letter now payload full truncated code detail topic received_at delivery_key sp)"

definition is_telemetry :: "work \<Rightarrow> bool" where
  "is_telemetry w = (case w of TelemetryWork _ _ _ _ _ \<Rightarrow> True | DeadLetterWork _ _ _ _ _ _ _ \<Rightarrow> False)"

definition stage_mqtt_payload ::
  "ingest_config \<Rightarrow> decoders \<Rightarrow> instant \<Rightarrow> byte list \<Rightarrow> string option \<Rightarrow> string option \<Rightarrow> bool \<Rightarrow> service
    \<Rightarrow> stage_result result \<times> service" where
  "stage_mqtt_payload cfg dc now payload topic delivery_key is_retry sv =
     (case decode_submission cfg dc now payload topic (\<not> is_retry) (sv_state sv) of
        (Inl e, st) \<Rightarrow> (Inl e, sv\<lparr>sv_state := st\<rparr>)
      | (Inr w, st) \<Rightarrow>
          (case append_of now delivery_key w (sv_spool sv) of
             (Inl (DurableSpoolCapacityError m), sp) \<Rightarrow>
               (Inr (not_staged (DurableSpoolCapacityError m)),
                refresh_spool_state now (sv\<lparr>sv_spool := sp,
                  sv_state := set_error (Some m) (increment spool_capacity_failure_total st)\<rparr>))
           | (Inl e, sp) \<Rightarrow>
               if is_spool_error e then
                 (Inr (not_staged e), sv\<lparr>sv_spool := sp, sv_state := note_spool_error e st\<rparr>)
               else (Inl e, sv\<lparr>sv_spool := sp, sv_state := st\<rparr>)
           | (Inr a, sp) \<Rightarrow>
               let st1 = increment (if is_telemetry w then accepted_total else dead_letter_queued_total) st;
                   st2 = increment (if ar_duplicate a then spool_duplicate_total else spool_staged_total) st1
               in (Inr \<lparr>sr_staged = True, sr_accepted = is_telemetry w, sr_duplicate = ar_duplicate a,
                        sr_record_id = Some (ar_record_id a), sr_error = None\<rparr>,
                   refresh_spool_state now (sv\<lparr>sv_spool := sp,
                     sv_state := set_error None (set_spool_ready True st2)\<rparr>))))"

section \<open>Persisting\<close>

record callbacks =
  ca_authorize :: "(telemetry_event \<Rightarrow> string option \<Rightarrow> instant \<Rightarrow> (bool \<times> string \<times> string) result) option"
  ca_on_persisted :: "(telemetry_event \<Rightarrow> raw_payload \<Rightarrow> unit result) option"
  ca_after_persist :: "(telemetry_event \<Rightarrow> raw_payload \<Rightarrow> unit result) option"

text \<open>\<open>persist_dead_letter\<close> of the database, then \<open>mark_dead_letter_persisted\<close>.\<close>

definition store_dead_letter ::
  "instant \<Rightarrow> byte list \<Rightarrow> int \<Rightarrow> bool \<Rightarrow> string \<Rightarrow> string \<Rightarrow> string option \<Rightarrow> service \<Rightarrow> unit result \<times> service" where
  "store_dead_letter now payload full truncated code detail topic sv =
     (case persist_dead_letter payload full truncated code detail topic (sv_db sv) of
        (Inl e, db) \<Rightarrow> (Inl e, sv\<lparr>sv_db := db\<rparr>)
      | (Inr _, db) \<Rightarrow> (Inr (), sv\<lparr>sv_db := db,
          sv_state := set_error None (mark_dead_letter_persisted now code (sv_state sv))\<rparr>))"

text \<open>The end of \<open>_persist\<close>: the alert processor, whose exceptions ask for a replay.\<close>

definition after_persist :: "callbacks \<Rightarrow> telemetry_event \<Rightarrow> raw_payload \<Rightarrow> service \<Rightarrow> unit result \<times> service" where
  "after_persist ca event raw sv =
     (case ca_after_persist ca of
        None \<Rightarrow> (Inr (), sv)
      | Some f \<Rightarrow>
          (case f event raw of
             Inr _ \<Rightarrow> (Inr (), sv)
           | Inl e \<Rightarrow> (Inl (PostPersistProcessingError (''post-persist processing failed for ''
               @ te_event_id event @ '': '' @ exn_str e)), sv)))"

definition persist_telemetry :: "callbacks \<Rightarrow> instant \<Rightarrow> telemetry_event \<Rightarrow> raw_payload \<Rightarrow> service \<Rightarrow> unit result \<times> service" where
  "persist_telemetry ca now event raw sv =
     (case persist event raw (sv_db sv) of
        (Inl e, db) \<Rightarrow> (Inl e, sv\<lparr>sv_db := db\<rparr>)
      | (Inr inserted, db) \<Rightarrow>
          let st = sv_state sv;
              st1 = (if inserted then
                  (let m = mark_persisted now (te_captured_at event) st in
                   case ca_on_persisted ca of
                     None \<Rightarrow> m
                   | Some f \<Rightarrow> (case f event raw of Inr _ \<Rightarrow> m | Inl _ \<Rightarrow> increment websocket_publish_error_total m))
                else set_error None (increment duplicate_total (mark_database_success now st)))
          in after_persist ca event raw (sv\<lparr>sv_db := db, sv_state := st1\<rparr>))"

definition persist_work :: "ingest_config \<Rightarrow> callbacks \<Rightarrow> instant \<Rightarrow> work \<Rightarrow> service \<Rightarrow> unit result \<times> service" where
  "persist_work cfg ca now w sv =
     (case w of
        TelemetryWork event raw payload topic received_at \<Rightarrow>
          (case (case ca_authorize ca of None \<Rightarrow> Inr (True, [], []) | Some f \<Rightarrow> f event topic received_at) of
             Inl e \<Rightarrow> (Inl e, sv)
           | Inr (allowed, code, detail) \<Rightarrow>
               if \<not> allowed then
                 (let retained = take (ig_dead_letter_payload_max_bytes cfg) payload in
                  store_dead_letter now retained (int (length payload)) (length retained \<noteq> length payload) code detail topic
                    (on_state (\<lambda>st. increment dead_letter_queued_total (increment rejected_total st)) sv))
               else persist_telemetry ca now event raw sv)
      | DeadLetterWork payload full truncated code detail topic received_at \<Rightarrow>
          store_dead_letter now payload full truncated code detail topic sv)"

section \<open>The worker\<close>

definition work_from_spool :: "decoders \<Rightarrow> spool_row \<Rightarrow> work result" where
  "work_from_spool dc r =
     (let undecodable = (\<lambda>m. Inl (InvalidSpoolRecordError (''telemetry record '' @ dec (sw_id r) @ '' is no longer decodable: '' @ m)))
      in if sw_work_type r = ''dead_letter'' then
           (case sw_reason_code r of
              None \<Rightarrow> Inl (InvalidSpoolRecordError (''dead-letter record '' @ dec (sw_id r) @ '' has no reason code''))
            | Some code \<Rightarrow> Inr (DeadLetterWork (sw_payload r) (sw_payload_size r) (sw_payload_truncated r) code
                (case sw_reason_detail r of None \<Rightarrow> [] | Some d \<Rightarrow> d) (sw_topic r) (sw_received_at r)))
         else if sw_work_type r \<noteq> ''telemetry'' then
           Inl (InvalidSpoolRecordError (''record '' @ dec (sw_id r) @ '' has unsupported type '' @ sw_work_type r))
         else case dc_utf8 dc (sw_payload r) of
           Inl m \<Rightarrow> undecodable m
         | Inr decoded \<Rightarrow>
             (case dc_json dc decoded of
                Syntax m \<Rightarrow> undecodable m
              | Parse_raises e \<Rightarrow> if is_value_error e then undecodable (exn_str e) else Inl e
              | Parsed (JObj raw) \<Rightarrow>
                  (case dc_event dc raw of
                     Inl m \<Rightarrow> undecodable m
                   | Inr event \<Rightarrow>
                       if sw_event_id r \<noteq> Some (te_event_id event) then
                         Inl (InvalidSpoolRecordError (''telemetry record '' @ dec (sw_id r) @ '' event_id mismatch''))
                       else Inr (TelemetryWork event raw (sw_payload r) (sw_topic r) (sw_received_at r)))
              | Parsed _ \<Rightarrow> undecodable ''telemetry payload must be a JSON object''))"

definition doubled :: "ingest_config \<Rightarrow> pyfloat \<Rightarrow> pyfloat" where
  "doubled cfg delay = min (fmul delay 2) (ig_retry_max cfg)"

definition record_spool_retry :: "instant \<Rightarrow> int \<Rightarrow> exn \<Rightarrow> service \<Rightarrow> service" where
  "record_spool_retry now i e sv =
     (case mark_attempt now i (exn_str e) (sv_spool sv) of
        (Inl x, sp) \<Rightarrow> refresh_spool_state now (sv\<lparr>sv_spool := sp, sv_state := note_spool_error x (sv_state sv)\<rparr>)
      | (Inr _, sp) \<Rightarrow> refresh_spool_state now (sv\<lparr>sv_spool := sp\<rparr>))"

text \<open>The outcome of an iteration: the pause it makes, the next retry delay and the service.\<close>

type_synonym iteration = "pyfloat option \<times> pyfloat \<times> service"

definition failed_iteration :: "ingest_config \<Rightarrow> instant \<Rightarrow> pyfloat \<Rightarrow> int \<Rightarrow> exn \<Rightarrow> service \<Rightarrow> iteration" where
  "failed_iteration cfg now delay i e sv =
     (case e of
        InvalidSpoolRecordError m \<Rightarrow>
          (case mark_terminal now i m (sv_spool sv) of
             (Inl x, sp) \<Rightarrow> (Some delay, delay, sv\<lparr>sv_spool := sp, sv_state := note_spool_error x (sv_state sv)\<rparr>)
           | (Inr _, sp) \<Rightarrow> (None, ig_retry_initial cfg, refresh_spool_state now (sv\<lparr>sv_spool := sp,
               sv_state := set_error (Some m) (increment spool_terminal_total (sv_state sv))\<rparr>)))
      | PostPersistProcessingError m \<Rightarrow>
          (Some delay, doubled cfg delay, on_state (\<lambda>st. set_error (Some m) (increment post_persist_retry_total st))
             (record_spool_retry now i e sv))
      | _ \<Rightarrow>
          (Some delay, doubled cfg delay, on_state (\<lambda>st. mark_database_failure now
               (''database persistence failed: '' @ exn_str e)
               (increment database_retry_total (increment persistence_failure_total st)))
             (record_spool_retry now i e sv)))"

definition finished_iteration :: "ingest_config \<Rightarrow> instant \<Rightarrow> pyfloat \<Rightarrow> spool_row \<Rightarrow> service \<Rightarrow> iteration" where
  "finished_iteration cfg now delay r sv =
     (case delete_record (sw_id r) (sv_spool sv) of
        (Inl e, sp) \<Rightarrow> (Some delay, doubled cfg delay, sv\<lparr>sv_spool := sp, sv_state := note_spool_error e (sv_state sv)\<rparr>)
      | (Inr _, sp) \<Rightarrow>
          let st = (if sw_id r \<le> sv_startup_max_id sv \<or> 0 < sw_attempts r
                    then increment spool_replayed_total (sv_state sv) else sv_state sv)
          in (None, ig_retry_initial cfg, refresh_spool_state now (sv\<lparr>sv_spool := sp,
               sv_state := set_error None (set_spool_ready True st)\<rparr>)))"

text \<open>The body of the loop of \<open>_run_durable\<close>.\<close>

definition durable_iteration ::
  "ingest_config \<Rightarrow> decoders \<Rightarrow> callbacks \<Rightarrow> instant \<Rightarrow> pyfloat \<Rightarrow> service \<Rightarrow> iteration" where
  "durable_iteration cfg dc ca now delay sv =
     (case oldest_pending (sv_spool sv) of
        (Inl e, sp) \<Rightarrow> (Some delay, doubled cfg delay, sv\<lparr>sv_spool := sp, sv_state := note_spool_error e (sv_state sv)\<rparr>)
      | (Inr None, sp) \<Rightarrow> (Some (ig_poll_interval cfg), ig_retry_initial cfg, refresh_spool_state now (sv\<lparr>sv_spool := sp\<rparr>))
      | (Inr (Some r), sp) \<Rightarrow>
          let sv1 = sv\<lparr>sv_spool := sp\<rparr> in
          (case work_from_spool dc r of
             Inl e \<Rightarrow> failed_iteration cfg now delay (sw_id r) e sv1
           | Inr w \<Rightarrow>
               (case persist_work cfg ca now w sv1 of
                  (Inl e, sv2) \<Rightarrow> failed_iteration cfg now delay (sw_id r) e sv2
                | (Inr _, sv2) \<Rightarrow> finished_iteration cfg now delay r sv2)))"

text \<open>\<open>_run_durable\<close> while the loop runs: the iterations with the clock and the callbacks of each.\<close>

fun run_durable :: "ingest_config \<Rightarrow> decoders \<Rightarrow> (instant \<times> callbacks) list \<Rightarrow> pyfloat \<Rightarrow> service \<Rightarrow> service" where
  "run_durable cfg dc [] delay sv = sv"
| "run_durable cfg dc ((now, ca) # rounds) delay sv =
     (case durable_iteration cfg dc ca now delay sv of (_, delay', sv') \<Rightarrow> run_durable cfg dc rounds delay' sv')"

section \<open>Frames\<close>

lemma refresh_cases:
  obtains (failed) e sp where "spool_stats_call (sv_spool sv) = (Inl e, sp)"
      "refresh_spool_state now sv = sv\<lparr>sv_spool := sp, sv_state := note_spool_error e (sv_state sv)\<rparr>"
  | (counted) n t p age sp r where "spool_stats_call (sv_spool sv) = (r, sp)"
      "refresh_spool_state now sv = sv\<lparr>sv_spool := sp, sv_state := set_spool_stats n t p age (sv_state sv)\<rparr>"
proof (cases "spool_stats_call (sv_spool sv)")
  case (Pair r sp)
  then show ?thesis by (cases r) (auto simp: refresh_spool_state_def intro: that)
qed

lemma refresh_frame [simp]:
  "sp_rows (sv_spool (refresh_spool_state now sv)) = sp_rows (sv_spool sv)"
  "sp_last_id (sv_spool (refresh_spool_state now sv)) = sp_last_id (sv_spool sv)"
  "sp_max_records (sv_spool (refresh_spool_state now sv)) = sp_max_records (sv_spool sv)"
  "sp_max_bytes (sv_spool (refresh_spool_state now sv)) = sp_max_bytes (sv_spool sv)"
  "sv_db (refresh_spool_state now sv) = sv_db sv"
  "sv_startup_max_id (refresh_spool_state now sv) = sv_startup_max_id sv"
  by (cases rule: refresh_cases [of sv now]; drule spool_stats_cases; simp add: same_limits_def)+

definition service_ok :: "service \<Rightarrow> bool" where
  "service_ok sv = (spool_ok (sv_spool sv) \<and> db_ok (sv_db sv) \<and> runtime_ok (sv_state sv))"

lemma runtime_ok_note [runtime_keeps]: "runtime_ok st \<Longrightarrow> runtime_ok (note_spool_error e st)"
  by (simp add: note_spool_error_def runtime_keeps)

lemma refresh_ok:
  assumes "service_ok sv"
  shows "service_ok (refresh_spool_state now sv)"
proof (cases rule: refresh_cases [of sv now])
  case (failed e sp)
  with assms spool_ok_calls(2) [OF _ failed(1)] show ?thesis by (simp add: service_ok_def runtime_keeps)
next
  case (counted n t p age sp r)
  with assms spool_ok_calls(2) [OF _ counted(1)] show ?thesis by (simp add: service_ok_def runtime_keeps)
qed

text \<open>The part of a row that never changes.\<close>

definition core :: "spool_row \<Rightarrow> spool_row" where
  "core r = r\<lparr>sw_status := [], sw_attempts := 0, sw_last_error := None, sw_last_attempt_at := None, sw_terminal_at := None\<rparr>"

lemma core_fields: "core a = core b \<Longrightarrow> sw_id a = sw_id b \<and> sw_payload a = sw_payload b \<and> sw_event_id a = sw_event_id b
    \<and> sw_work_type a = sw_work_type b \<and> sw_reason_code a = sw_reason_code b \<and> sw_topic a = sw_topic b
    \<and> sw_payload_size a = sw_payload_size b \<and> sw_delivery_key a = sw_delivery_key b \<and> sw_received_at a = sw_received_at b"
  by (cases a; cases b) (simp add: core_def)

lemma core_update: "(\<And>r. core (f r) = core r) \<Longrightarrow> map core (update_pending i f rows) = map core rows"
  by (induction rows) (auto simp: update_pending_def)

section \<open>Decoding and staging\<close>

text \<open>What decoding gives: a dead letter with a prefix of the payload, or the event of the whole payload.\<close>

definition rejected :: "ingest_config \<Rightarrow> byte list \<Rightarrow> string option \<Rightarrow> instant \<Rightarrow> work \<Rightarrow> bool" where
  "rejected cfg payload topic now w = (\<exists>code detail. strip code \<noteq> [] \<and>
     w = DeadLetterWork (take (ig_dead_letter_payload_max_bytes cfg) payload) (int (length payload))
          (ig_dead_letter_payload_max_bytes cfg < length payload) code detail topic now)"

definition decodes :: "decoders \<Rightarrow> byte list \<Rightarrow> raw_payload \<Rightarrow> telemetry_event \<Rightarrow> bool" where
  "decodes dc payload raw event = (\<exists>t. dc_utf8 dc payload = Inr t \<and> dc_json dc t = Parsed (JObj raw) \<and> dc_event dc raw = Inr event)"

lemma dead_letter_work_ok:
  assumes "dead_letter_work cfg payload topic now code detail cm st = (r, st')"
  shows "\<exists>w. r = Inr w \<and> (strip code \<noteq> [] \<longrightarrow> rejected cfg payload topic now w) \<and> (runtime_ok st \<longrightarrow> runtime_ok st')"
  using assms by (auto simp: dead_letter_work_def Let_def rejected_def runtime_keeps)

lemma decode_outcome:
  assumes "decode_submission cfg dc now payload topic cm st = (r, st')"
  shows "(runtime_ok st \<longrightarrow> runtime_ok st') \<and>
    (case r of
       Inl e \<Rightarrow> \<exists>t. dc_utf8 dc payload = Inr t \<and> dc_json dc t = Parse_raises e
     | Inr w \<Rightarrow> rejected cfg payload topic now w \<or>
         (\<exists>raw event. w = TelemetryWork event raw payload topic now \<and> decodes dc payload raw event))"
proof -
  have c: "strip ''payload_too_large'' \<noteq> []" "strip ''invalid_utf8'' \<noteq> []" "strip ''invalid_json'' \<noteq> []"
      "strip ''schema_validation'' \<noteq> []" "strip ''payload_not_object'' \<noteq> []" by code_simp+
  define st1 where "st1 = (if cm then increment received_total st else st)"
  have k: "runtime_ok st \<longrightarrow> runtime_ok st1" by (simp add: st1_def runtime_keeps)
  have rej: ?thesis if "dead_letter_work cfg payload topic now code detail cm st1 = (r, st')" "strip code \<noteq> []" for code detail
    using dead_letter_work_ok [OF that(1)] that(2) k by auto
  note u = assms [unfolded decode_submission_def Let_def, folded st1_def]
  show ?thesis
  proof (cases "ig_payload_max_bytes cfg < length payload")
    case True
    with u have "dead_letter_work cfg payload topic now ''payload_too_large'' (''payload size '' @ dec (int (length payload))
        @ '' exceeds '' @ dec (int (ig_payload_max_bytes cfg)) @ '' bytes'') cm st1 = (r, st')" by simp
    from rej [OF this c(1)] show ?thesis .
  next
    case small: False
    show ?thesis
    proof (cases "dc_utf8 dc payload")
      case (Inl m)
      from rej [OF _ c(2), of m] u small Inl show ?thesis by simp
    next
      case utf8: (Inr t)
      show ?thesis
      proof (cases "dc_json dc t")
        case (Syntax m)
        from rej [OF _ c(3), of m] u small utf8 Syntax show ?thesis by simp
      next
        case (Parse_raises e)
        with u small utf8 k show ?thesis by auto
      next
        case (Parsed j)
        from rej [OF _ c(5)] rej [OF _ c(4)] u small utf8 Parsed k show ?thesis
          by (cases j) (auto simp: decodes_def split: sum.splits)
      qed
    qed
  qed
qed

text \<open>The payloads that are accepted as telemetry.\<close>

definition valid_payload :: "ingest_config \<Rightarrow> decoders \<Rightarrow> byte list \<Rightarrow> bool" where
  "valid_payload cfg dc payload \<longleftrightarrow> length payload \<le> ig_payload_max_bytes cfg \<and> (\<exists>raw event. decodes dc payload raw event)"

lemma decode_valid:
  "decode_submission cfg dc now payload topic cm st = (Inr w, st') \<Longrightarrow> is_telemetry w \<longleftrightarrow> valid_payload cfg dc payload"
  by (auto simp: decode_submission_def dead_letter_work_def Let_def valid_payload_def decodes_def is_telemetry_def
      split: if_splits sum.splits json_text.splits json.splits)

definition payload_of :: "work \<Rightarrow> byte list" where
  "payload_of w = (case w of TelemetryWork _ _ p _ _ \<Rightarrow> p | DeadLetterWork p _ _ _ _ _ _ \<Rightarrow> p)"

text \<open>The key of the row a unit of work becomes, its topic and its full size.\<close>

definition event_key :: "work \<Rightarrow> string option" where
  "event_key w = (case w of TelemetryWork event _ _ _ _ \<Rightarrow> Some (strip (te_event_id event)) | DeadLetterWork _ _ _ _ _ _ _ \<Rightarrow> None)"

definition topic_and_size :: "work \<Rightarrow> string option \<times> int" where
  "topic_and_size w = (case w of TelemetryWork _ _ p t _ \<Rightarrow> (t, int (length p)) | DeadLetterWork _ n _ _ _ t _ \<Rightarrow> (t, n))"

lemma append_of_ok:
  assumes "spool_ok sp" and "append_of now dk w sp = (r, sp')"
  shows "spool_ok sp' \<and> same_limits sp sp' \<and> (case r of
      Inl e \<Rightarrow> sp_rows sp' = sp_rows sp \<and> (is_spool_error e \<or> (\<exists>m. e = ValueError m))
    | Inr a \<Rightarrow> (\<exists>x \<in> set (sp_rows sp'). sw_id x = ar_record_id a \<and> sw_payload x = payload_of w
          \<and> (if ar_duplicate a then sp_rows sp' = sp_rows sp \<and> matches_key (event_key w) (normalize_delivery_key dk) x
             else sp_rows sp' = sp_rows sp @ [x] \<and> is_pending x \<and> within_capacity sp'
               \<and> sw_event_id x = event_key w \<and> sw_delivery_key x = normalize_delivery_key dk
               \<and> (sw_topic x, sw_payload_size x) = topic_and_size w)))"
proof (cases w)
  case (TelemetryWork e raw p t rat)
  with assms(2) have "append_telemetry now (te_event_id e) p t rat dk sp = (r, sp')" by (simp add: append_of_def)
  from append_telemetry_cases [OF assms(1) this] TelemetryWork show ?thesis
    by (auto simp: disk_failed_def append_post_def new_row_def is_pending_def payload_of_def event_key_def topic_and_size_def split: sum.splits if_splits)
next
  case (DeadLetterWork p n tr c d t rat)
  with assms(2) have "append_dead_letter now p n tr c d t rat dk sp = (r, sp')" by (simp add: append_of_def)
  from append_dead_letter_cases [OF assms(1) this] DeadLetterWork show ?thesis
    by (auto simp: disk_failed_def append_post_def new_row_def is_pending_def payload_of_def event_key_def topic_and_size_def split: sum.splits if_splits)
qed

text \<open>The row of a staged payload: the named one, with the payload, whole or, when it was rejected, its retained
  prefix. A new row carries the event id the payload decodes to, the delivery key, the topic and the full size; for a
  duplicate it is the row that was there under one of the keys. The payload is accepted exactly when it is valid.\<close>

definition staged_row ::
  "ingest_config \<Rightarrow> decoders \<Rightarrow> byte list \<Rightarrow> string option \<Rightarrow> string option \<Rightarrow> stage_result \<Rightarrow> spool_row \<Rightarrow> bool" where
  "staged_row cfg dc payload topic dk s x \<longleftrightarrow> sr_record_id s = Some (sw_id x) \<and> sr_accepted s = valid_payload cfg dc payload
     \<and> sw_payload x = (if sr_accepted s then payload else take (ig_dead_letter_payload_max_bytes cfg) payload)
     \<and> (\<exists>e. (if sr_accepted s then \<exists>raw event. decodes dc payload raw event \<and> e = Some (strip (te_event_id event)) else e = None)
         \<and> (if sr_duplicate s then matches_key e (normalize_delivery_key dk) x
            else sw_event_id x = e \<and> sw_delivery_key x = normalize_delivery_key dk \<and> sw_topic x = topic
              \<and> sw_payload_size x = int (length payload)))"

lemma staging_cases:
  assumes "service_ok sv" and "stage_mqtt_payload cfg dc now payload topic dk retry sv = (r, sv')"
  shows "service_ok sv' \<and> sv_db sv' = sv_db sv \<and> same_limits (sv_spool sv) (sv_spool sv') \<and> (case r of
     Inr s \<Rightarrow> if sr_staged s then (\<exists>x \<in> set (sp_rows (sv_spool sv')). staged_row cfg dc payload topic dk s x
          \<and> (if sr_duplicate s then sp_rows (sv_spool sv') = sp_rows (sv_spool sv)
             else sp_rows (sv_spool sv') = sp_rows (sv_spool sv) @ [x] \<and> is_pending x \<and> within_capacity (sv_spool sv')))
        else sp_rows (sv_spool sv') = sp_rows (sv_spool sv) \<and> sr_error s \<noteq> None \<and> \<not> sr_accepted s
   | Inl e \<Rightarrow> sp_rows (sv_spool sv') = sp_rows (sv_spool sv)
        \<and> ((\<exists>t. dc_utf8 dc payload = Inr t \<and> dc_json dc t = Parse_raises e) \<or> (\<exists>m. e = ValueError m)))"
proof -
  obtain rw st where dcd: "decode_submission cfg dc now payload topic (\<not> retry) (sv_state sv) = (rw, st)" by fastforce
  note d = decode_outcome [OF dcd]
  have ok: "spool_ok (sv_spool sv)" "db_ok (sv_db sv)" "runtime_ok st" using assms(1) d by (auto simp: service_ok_def)
  show ?thesis
  proof (cases rw)
    case (Inl e)
    with assms(2) dcd d ok show ?thesis by (auto simp: stage_mqtt_payload_def service_ok_def)
  next
    case (Inr w)
    obtain a sp where app: "append_of now dk w (sv_spool sv) = (a, sp)" by fastforce
    note p = append_of_ok [OF ok(1) app]
    have wo: "rejected cfg payload topic now w \<or> (\<exists>raw event. w = TelemetryWork event raw payload topic now \<and> decodes dc payload raw event)"
      using d Inr by simp
    have pw: "payload_of w = (if is_telemetry w then payload else take (ig_dead_letter_payload_max_bytes cfg) payload)"
        "topic_and_size w = (topic, int (length payload))"
        "if is_telemetry w then \<exists>raw event. decodes dc payload raw event \<and> event_key w = Some (strip (te_event_id event))
         else event_key w = None"
        "is_telemetry w = valid_payload cfg dc payload"
      using wo decode_valid [OF dcd [unfolded Inr]]
      by (fastforce simp: payload_of_def is_telemetry_def rejected_def event_key_def topic_and_size_def)+
    show ?thesis
    proof (cases a)
      case (Inl e)
      let ?cap = "sv\<lparr>sv_spool := sp, sv_state := set_error (Some (exn_str e)) (increment spool_capacity_failure_total st)\<rparr>"
      let ?err = "sv\<lparr>sv_spool := sp, sv_state := note_spool_error e st\<rparr>"
      have "service_ok ?cap" "service_ok ?err" "service_ok (sv\<lparr>sv_spool := sp, sv_state := st\<rparr>)"
        using ok p by (simp_all add: service_ok_def runtime_keeps)
      then show ?thesis using assms(2) dcd Inr app Inl p
        by (cases e) (auto simp: stage_mqtt_payload_def not_staged_def refresh_ok same_limits_def)
    next
      case (Inr ar)
      define st2 where "st2 = set_error None (set_spool_ready True (increment (if ar_duplicate ar then spool_duplicate_total else spool_staged_total)
        (increment (if is_telemetry w then accepted_total else dead_letter_queued_total) st)))"
      have res: "r = Inr \<lparr>sr_staged = True, sr_accepted = is_telemetry w, sr_duplicate = ar_duplicate ar,
            sr_record_id = Some (ar_record_id ar), sr_error = None\<rparr>"
          "sv' = refresh_spool_state now (sv\<lparr>sv_spool := sp, sv_state := st2\<rparr>)"
        using assms(2) dcd app Inr \<open>rw = Inr w\<close> by (simp_all add: stage_mqtt_payload_def st2_def Let_def)
      have "service_ok sv'" unfolding res(2) by (rule refresh_ok) (use ok p in \<open>simp add: service_ok_def st2_def runtime_keeps\<close>)
      from p Inr obtain x where x: "x \<in> set (sp_rows sp)" "sw_id x = ar_record_id ar" "sw_payload x = payload_of w"
          "if ar_duplicate ar then sp_rows sp = sp_rows (sv_spool sv) \<and> matches_key (event_key w) (normalize_delivery_key dk) x
           else sp_rows sp = sp_rows (sv_spool sv) @ [x] \<and> is_pending x \<and> within_capacity sp
             \<and> sw_event_id x = event_key w \<and> sw_delivery_key x = normalize_delivery_key dk
             \<and> (sw_topic x, sw_payload_size x) = topic_and_size w" by auto
      have cap: "within_capacity (sv_spool sv') = within_capacity sp" by (simp add: within_capacity_def res(2))
      have row: "staged_row cfg dc payload topic dk \<lparr>sr_staged = True, sr_accepted = is_telemetry w,
          sr_duplicate = ar_duplicate ar, sr_record_id = Some (ar_record_id ar), sr_error = None\<rparr> x"
        unfolding staged_row_def using x pw by (simp split: if_splits) blast+
      have "\<exists>x \<in> set (sp_rows (sv_spool sv')). staged_row cfg dc payload topic dk \<lparr>sr_staged = True,
            sr_accepted = is_telemetry w, sr_duplicate = ar_duplicate ar, sr_record_id = Some (ar_record_id ar), sr_error = None\<rparr> x
          \<and> (if ar_duplicate ar then sp_rows (sv_spool sv') = sp_rows (sv_spool sv)
             else sp_rows (sv_spool sv') = sp_rows (sv_spool sv) @ [x] \<and> is_pending x \<and> within_capacity (sv_spool sv'))"
        using x row cap by (intro bexI [of _ x]) (simp_all add: res(2))
      with \<open>service_ok sv'\<close> show ?thesis using p by (simp add: res same_limits_def)
    qed
  qed
qed

text \<open>Staging a payload. When \<open>staged\<close> is true the spool holds a row with the named id and the whole
  payload (or, for a rejected payload, its retained prefix), which is what permits the acknowledgement; the
  result is accepted exactly for valid telemetry, the row carries the event id and the delivery key, and a new row respects the capacity. When it is false the
  spool is unchanged and the error is given. An exception leaves the spool unchanged too and comes from
  \<open>json.loads\<close> or from a blank event id. The service stays well-formed and the database is not touched.\<close>

theorem staging_outcome:
  assumes "service_ok sv" and "stage_mqtt_payload cfg dc now payload topic dk retry sv = (r, sv')"
  shows "service_ok sv' \<and> sv_db sv' = sv_db sv \<and> same_limits (sv_spool sv) (sv_spool sv') \<and> (case r of
     Inr s \<Rightarrow> if sr_staged s then (\<exists>x \<in> set (sp_rows (sv_spool sv')). staged_row cfg dc payload topic dk s x
          \<and> (if sr_duplicate s then sp_rows (sv_spool sv') = sp_rows (sv_spool sv)
             else sp_rows (sv_spool sv') = sp_rows (sv_spool sv) @ [x] \<and> is_pending x \<and> within_capacity (sv_spool sv')))
        else sp_rows (sv_spool sv') = sp_rows (sv_spool sv) \<and> sr_error s \<noteq> None \<and> \<not> sr_accepted s
   | Inl e \<Rightarrow> sp_rows (sv_spool sv') = sp_rows (sv_spool sv)
        \<and> ((\<exists>t. dc_utf8 dc payload = Inr t \<and> dc_json dc t = Parse_raises e) \<or> (\<exists>m. e = ValueError m)))"
  by (rule staging_cases [OF assms])

section \<open>Persisting\<close>

text \<open>The database only grows while the service works.\<close>

definition grows :: "telemetry_db \<Rightarrow> telemetry_db \<Rightarrow> bool" where
  "grows d d' = ((\<exists>xs. db_samples d' = db_samples d @ xs) \<and> (\<exists>ys. db_dead_letters d' = db_dead_letters d @ ys))"

lemma grows_refl [simp]: "grows d d"
  by (simp add: grows_def)

lemma grows_trans: "grows a b \<Longrightarrow> grows b c \<Longrightarrow> grows a c"
  unfolding grows_def by (metis append.assoc)

lemma grows_event: "grows d d' \<Longrightarrow> has_event i d \<Longrightarrow> has_event i d'"
  by (auto simp: grows_def has_event_def)

lemma grows_script [simp]: "grows (d\<lparr>db_script := sc\<rparr>) d' = grows d d'" "grows d (d\<lparr>db_script := sc\<rparr>)"
  by (simp_all add: grows_def)

lemma persist_grows:
  assumes "db_ok d" and "persist e raw d = (r, d')"
  shows "db_ok d' \<and> grows d d' \<and> (\<forall>b. r = Inr b \<longrightarrow> has_event (te_event_id e) d')"
proof -
  have "grows d d'" if "persisted_as e raw b d d'" "db_dead_letters d' = db_dead_letters d" for b
    using that by (auto simp: persisted_as_def grows_def split: if_splits)
  moreover have "grows d d'" if "same_rows d d'" using that by (simp add: same_rows_def grows_def)
  ultimately show ?thesis using persist_cases [OF assms] by (auto split: sum.splits)
qed

lemma persist_dead_letter_ok:
  assumes "db_ok d" and "persist_dead_letter p n tr c de t d = (r, d')"
  shows "db_ok d' \<and> grows d d' \<and> (\<forall>i. r = Inr i \<longrightarrow>
    (\<exists>l \<in> set (db_dead_letters d'). dl_payload l = p \<and> dl_payload_size l = n \<and> dl_reason_code l = c \<and> dl_topic l = t))"
proof -
  define call :: "nat \<Rightarrow> instant \<Rightarrow> telemetry_db \<Rightarrow> int result \<times> telemetry_db" where "call = (\<lambda>gap now d. if db_dialect d = ''postgresql''
          \<and> (256 < length (case t of None \<Rightarrow> [] | Some t \<Rightarrow> t) \<or> 64 < length c) then
         (Inl (OtherError ''value too long for type character varying''), d)
       else (let i = db_last_dead_letter d + 1 + int gap in
         (Inr i, d\<lparr>db_dead_letters := db_dead_letters d @ [\<lparr>dl_id = i, dl_topic = t,
            dl_reason_code = c, dl_reason_detail = take 2048 de, dl_payload = p,
            dl_payload_size = n, dl_payload_truncated = tr, dl_received_at = now\<rparr>],
            db_last_dead_letter := i\<rparr>)))"
  have ok: "db_ok d'' \<and> grows d d'' \<and> (\<exists>l \<in> set (db_dead_letters d''). dl_payload l = p \<and> dl_payload_size l = n
      \<and> dl_reason_code l = c \<and> dl_topic l = t)"
    if run: "call gap now (d\<lparr>db_script := sc\<rparr>) = (Inr a, d'')" for gap now sc a d''
  proof -
    define l where "l = \<lparr>dl_id = db_last_dead_letter d + 1 + int gap, dl_topic = t, dl_reason_code = c,
      dl_reason_detail = take 2048 de, dl_payload = p, dl_payload_size = n, dl_payload_truncated = tr, dl_received_at = now\<rparr>"
    have d'': "d'' = d\<lparr>db_script := sc, db_dead_letters := db_dead_letters d @ [l], db_last_dead_letter := dl_id l\<rparr>"
      using run by (auto simp: call_def l_def Let_def split: if_splits)
    have "\<forall>y \<in> set (db_dead_letters d). dl_id y < dl_id l"
      using assms(1) by (force simp: db_ok_def dead_letters_ok_def l_def)
    moreover have "length (dl_reason_detail l) \<le> 2048" by (simp add: l_def)
    ultimately have "db_ok d''" using assms(1)
      by (force simp: d'' db_ok_def samples_ok_def latest_ok_def latest_keys_def dead_letters_ok_def sorted_wrt_append)
    moreover have "dl_payload l = p \<and> dl_payload_size l = n \<and> dl_reason_code l = c \<and> dl_topic l = t" by (simp add: l_def)
    ultimately show ?thesis by (simp add: d'' grows_def)
  qed
  have "transaction call d = (r, d')" using assms(2) by (simp add: persist_dead_letter_def call_def)
  then show ?thesis
  proof (cases rule: transaction_cases)
    case (nothing e sc)
    with assms(1) show ?thesis by simp
  qed (use ok in blast)+
qed

text \<open>What it means that the database has a unit of work, and a row of the spool.\<close>

definition stored :: "ingest_config \<Rightarrow> work \<Rightarrow> telemetry_db \<Rightarrow> bool" where
  "stored cfg w d =
     (case w of
        TelemetryWork event raw p t rat \<Rightarrow> has_event (te_event_id event) d
          \<or> (\<exists>l \<in> set (db_dead_letters d). dl_payload l = take (ig_dead_letter_payload_max_bytes cfg) p
               \<and> dl_payload_size l = int (length p) \<and> dl_topic l = t)
      | DeadLetterWork p n tr c de t rat \<Rightarrow> \<exists>l \<in> set (db_dead_letters d). dl_payload l = p \<and> dl_payload_size l = n
          \<and> dl_reason_code l = c \<and> dl_topic l = t)"

lemma stored_grows: "grows d d' \<Longrightarrow> stored cfg w d \<Longrightarrow> stored cfg w d'"
  using grows_event by (auto simp: stored_def grows_def split: work.splits)

lemma store_dead_letter_ok:
  assumes "service_ok sv" and "store_dead_letter now p n tr c de t sv = (r, sv')"
  shows "service_ok sv' \<and> sv_spool sv' = sv_spool sv \<and> sv_startup_max_id sv' = sv_startup_max_id sv \<and> grows (sv_db sv) (sv_db sv')
    \<and> (\<forall>u. r = Inr u \<longrightarrow> (\<exists>l \<in> set (db_dead_letters (sv_db sv')). dl_payload l = p \<and> dl_payload_size l = n
         \<and> dl_reason_code l = c \<and> dl_topic l = t))"
proof -
  obtain x db where run: "persist_dead_letter p n tr c de t (sv_db sv) = (x, db)" by fastforce
  have "db_ok (sv_db sv)" using assms(1) by (simp add: service_ok_def)
  from persist_dead_letter_ok [OF this run] assms run show ?thesis
    by (cases x) (auto simp: store_dead_letter_def service_ok_def runtime_keeps)
qed

lemma after_persist_ok:
  "after_persist ca event raw sv = (r, sv') \<Longrightarrow> sv' = sv \<and> (\<forall>e. r = Inl e \<longrightarrow> (\<exists>m. e = PostPersistProcessingError m))"
  by (auto simp: after_persist_def split: option.splits sum.splits)

lemma persist_telemetry_ok:
  assumes "service_ok sv" and "persist_telemetry ca now event raw sv = (r, sv')"
  shows "service_ok sv' \<and> sv_spool sv' = sv_spool sv \<and> sv_startup_max_id sv' = sv_startup_max_id sv \<and> grows (sv_db sv) (sv_db sv')
    \<and> (\<forall>u. r = Inr u \<longrightarrow> has_event (te_event_id event) (sv_db sv'))"
proof -
  obtain x db where run: "persist event raw (sv_db sv) = (x, db)" by fastforce
  have "db_ok (sv_db sv)" using assms(1) by (simp add: service_ok_def)
  note p = persist_grows [OF this run]
  show ?thesis
  proof (cases x)
    case (Inl e)
    with assms run p show ?thesis by (auto simp: persist_telemetry_def service_ok_def)
  next
    case (Inr b)
    with assms(2) run obtain st1 where a: "after_persist ca event raw (sv\<lparr>sv_db := db, sv_state := st1\<rparr>) = (r, sv')"
      and st1: "runtime_ok (sv_state sv) \<longrightarrow> runtime_ok st1"
      by (auto simp: persist_telemetry_def Let_def runtime_keeps split: option.splits sum.splits if_splits)
    from after_persist_ok [OF a] assms(1) p Inr st1 show ?thesis by (auto simp: service_ok_def)
  qed
qed

lemma persist_work_ok:
  assumes "service_ok sv" and "persist_work cfg ca now w sv = (r, sv')"
  shows "service_ok sv' \<and> sv_spool sv' = sv_spool sv \<and> sv_startup_max_id sv' = sv_startup_max_id sv \<and> grows (sv_db sv) (sv_db sv')
    \<and> (\<forall>u. r = Inr u \<longrightarrow> stored cfg w (sv_db sv'))"
proof (cases w)
  case (DeadLetterWork p n tr c de t rat)
  with assms(2) have "store_dead_letter now p n tr c de t sv = (r, sv')" by (simp add: persist_work_def)
  from store_dead_letter_ok [OF assms(1) this] DeadLetterWork show ?thesis by (auto simp: stored_def)
next
  case (TelemetryWork event raw p t rat)
  define auth where "auth = (case ca_authorize ca of None \<Rightarrow> Inr (True, [], []) | Some f \<Rightarrow> f event t rat)"
  show ?thesis
  proof (cases auth)
    case (Inl e)
    with assms TelemetryWork show ?thesis by (auto simp: persist_work_def auth_def [symmetric])
  next
    case (Inr x)
    obtain allowed code detail where x: "x = (allowed, code, detail)" by (cases x)
    show ?thesis
    proof (cases allowed)
      case True
      with assms(2) TelemetryWork Inr x have "persist_telemetry ca now event raw sv = (r, sv')"
        by (simp add: persist_work_def auth_def [symmetric])
      from persist_telemetry_ok [OF assms(1) this] TelemetryWork show ?thesis by (auto simp: stored_def)
    next
      case False
      let ?sv = "on_state (\<lambda>st. increment dead_letter_queued_total (increment rejected_total st)) sv"
      have ok: "service_ok ?sv" using assms(1) by (simp add: service_ok_def runtime_keeps)
      from False assms(2) TelemetryWork Inr x
      have "store_dead_letter now (take (ig_dead_letter_payload_max_bytes cfg) p) (int (length p))
          (length (take (ig_dead_letter_payload_max_bytes cfg) p) \<noteq> length p) code detail t ?sv = (r, sv')"
        by (simp add: persist_work_def auth_def [symmetric] Let_def)
      from store_dead_letter_ok [OF ok this] TelemetryWork show ?thesis by (auto simp: stored_def)
    qed
  qed
qed

end
