(* ===== verification/Pipeline.thy ===== *)
theory Pipeline
  imports Ingestion
begin

text \<open>
  The telemetry service as a system of steps: arrivals staged in the spool, iterations of the persistence
  worker, restarts and crashes (\<open>ingestion.py\<close>, \<open>durable_spool.py\<close>, \<open>db.py\<close> of
  \<open>services/telemetry-service/app\<close> together), the invariant of its reachable states, and what becomes of a
  staged row: it is never lost, a healthy service drains it, and one row the database cannot take stops the worker.
\<close>

section \<open>One iteration of the worker\<close>

text \<open>What the database holds for a row of the spool. For telemetry: the event its own payload decodes to, whose
  id is the row's, or, when the authorizer refused it, a dead letter with its bytes; for a rejected payload: a dead
  letter with its bytes, its reason, its full size and its topic.\<close>

definition stored_row :: "ingest_config \<Rightarrow> decoders \<Rightarrow> spool_row \<Rightarrow> telemetry_db \<Rightarrow> bool" where
  "stored_row cfg dc r d =
     (case sw_event_id r of
        Some i \<Rightarrow> (\<exists>raw event. decodes dc (sw_payload r) raw event \<and> te_event_id event = i)
          \<and> (has_event i d \<or> (\<exists>l \<in> set (db_dead_letters d).
            dl_payload l = take (ig_dead_letter_payload_max_bytes cfg) (sw_payload r)
            \<and> dl_payload_size l = int (length (sw_payload r)) \<and> dl_topic l = sw_topic r))
      | None \<Rightarrow> \<exists>l \<in> set (db_dead_letters d). dl_payload l = sw_payload r \<and> dl_payload_size l = sw_payload_size r
          \<and> sw_reason_code r = Some (dl_reason_code l) \<and> dl_topic l = sw_topic r)"

lemma stored_row_grows: "grows d d' \<Longrightarrow> stored_row cfg dc r d \<Longrightarrow> stored_row cfg dc r d'"
  using grows_event by (auto simp: stored_row_def grows_def split: option.splits)

lemma stored_row_core: "core a = core b \<Longrightarrow> stored_row cfg dc a d = stored_row cfg dc b d"
  using core_fields [of a b] by (cases "sw_event_id b") (simp_all add: stored_row_def)

lemma work_from_spool_stored:
  assumes "checks_ok r" and "work_from_spool dc r = Inr w" and "stored cfg w d"
  shows "stored_row cfg dc r d"
  using assms
  by (auto simp: work_from_spool_def checks_ok_def Let_def stored_def stored_row_def decodes_def
      split: if_splits option.splits sum.splits json_text.splits json.splits)

text \<open>What an iteration does to the spool: nothing but bookkeeping, or it removes the oldest pending row,
  which the database then holds.\<close>

definition kept_rows :: "service \<Rightarrow> service \<Rightarrow> bool" where
  "kept_rows sv sv' = (map core (sp_rows (sv_spool sv')) = map core (sp_rows (sv_spool sv)))"

definition removed_row :: "ingest_config \<Rightarrow> decoders \<Rightarrow> spool_row \<Rightarrow> service \<Rightarrow> service \<Rightarrow> bool" where
  "removed_row cfg dc r sv sv' = (sp_rows (sv_spool sv') = filter (\<lambda>x. sw_id x \<noteq> sw_id r) (sp_rows (sv_spool sv))
     \<and> stored_row cfg dc r (sv_db sv'))"

definition frame_ok :: "service \<Rightarrow> service \<Rightarrow> bool" where
  "frame_ok sv sv' = (service_ok sv' \<and> same_limits (sv_spool sv) (sv_spool sv') \<and> sp_last_id (sv_spool sv') = sp_last_id (sv_spool sv)
     \<and> grows (sv_db sv) (sv_db sv') \<and> sv_startup_max_id sv' = sv_startup_max_id sv)"

lemma frame_trans: "frame_ok a b \<Longrightarrow> frame_ok b c \<Longrightarrow> frame_ok a c"
  using grows_trans by (auto simp: frame_ok_def same_limits_def)

lemma frame_refresh: "frame_ok a b \<Longrightarrow> frame_ok a (refresh_spool_state now b)"
  using refresh_ok [of b now] by (simp add: frame_ok_def same_limits_def)

lemma frame_state: "frame_ok a b \<Longrightarrow> (runtime_ok (sv_state b) \<Longrightarrow> runtime_ok (f (sv_state b))) \<Longrightarrow> frame_ok a (on_state f b)"
  by (simp add: frame_ok_def service_ok_def)

text \<open>A call of the spool followed by a change of the counters.\<close>

lemma frame_spool:
  assumes "service_ok sv" and "spool_ok sp" and "sp_last_id sp = sp_last_id (sv_spool sv)" and "same_limits (sv_spool sv) sp"
    and "runtime_ok st"
  shows "frame_ok sv (sv\<lparr>sv_spool := sp, sv_state := st\<rparr>)"
  using assms by (simp add: frame_ok_def service_ok_def)

lemma record_spool_retry_ok:
  assumes "service_ok sv"
  shows "frame_ok sv (record_spool_retry now i e sv) \<and> kept_rows sv (record_spool_retry now i e sv)"
proof -
  obtain x sp where run: "mark_attempt now i (exn_str e) (sv_spool sv) = (x, sp)" by fastforce
  have ok: "spool_ok (sv_spool sv)" "runtime_ok (sv_state sv)" using assms by (simp_all add: service_ok_def)
  note c = mark_attempt_cases [OF run] and sok = spool_ok_calls(4) [OF ok(1) run]
  have rows: "map core (sp_rows sp) = map core (sp_rows (sv_spool sv))"
    using c core_update [of "\<lambda>r. r\<lparr>sw_attempts := sw_attempts r + 1, sw_last_error := Some (take 4096 (exn_str e)),
      sw_last_attempt_at := Some now\<rparr>"] by (auto simp: core_def)
  have f: "frame_ok sv (sv\<lparr>sv_spool := sp, sv_state := st\<rparr>)" if "runtime_ok st" for st
    using frame_spool [OF assms sok _ _ that] c by blast
  have "\<exists>st. runtime_ok st \<and> record_spool_retry now i e sv = refresh_spool_state now (sv\<lparr>sv_spool := sp, sv_state := st\<rparr>)"
  proof (cases x)
    case (Inl y)
    then show ?thesis using run runtime_ok_note [OF ok(2)]
      by (intro exI [of _ "note_spool_error y (sv_state sv)"]) (simp add: record_spool_retry_def)
  next
    case (Inr u)
    then show ?thesis using run ok(2) by (intro exI [of _ "sv_state sv"]) (simp add: record_spool_retry_def)
  qed
  with f frame_refresh rows show ?thesis by (auto simp: kept_rows_def)
qed

lemma failed_iteration_ok:
  assumes "service_ok sv" and "failed_iteration cfg now delay i e sv = (p, dl, sv')"
  shows "frame_ok sv sv' \<and> kept_rows sv sv'"
proof (cases "\<exists>m. e = InvalidSpoolRecordError m")
  case True
  then obtain m where e: "e = InvalidSpoolRecordError m" by blast
  obtain x sp where run: "mark_terminal now i m (sv_spool sv) = (x, sp)" by fastforce
  have ok: "spool_ok (sv_spool sv)" "runtime_ok (sv_state sv)" using assms by (simp_all add: service_ok_def)
  note c = mark_terminal_cases [OF run] and sok = spool_ok_calls(5) [OF ok(1) run]
  have rows: "map core (sp_rows sp) = map core (sp_rows (sv_spool sv))"
    using c core_update [of "\<lambda>r. r\<lparr>sw_status := ''terminal'', sw_attempts := sw_attempts r + 1,
      sw_last_error := Some (take 4096 m), sw_last_attempt_at := Some now, sw_terminal_at := Some now\<rparr>"]
    by (auto simp: core_def)
  have f: "frame_ok sv (sv\<lparr>sv_spool := sp, sv_state := st\<rparr>)" if "runtime_ok st" for st
    using frame_spool [OF assms(1) sok _ _ that] c by blast
  show ?thesis
    using run rows assms(2) f [OF runtime_ok_note [OF ok(2)]] ok(2)
    by (cases x) (auto simp: failed_iteration_def e kept_rows_def intro!: frame_refresh f runtime_keeps)
next
  case False
  note r = record_spool_retry_ok [OF assms(1), of now i e]
  obtain f where f: "sv' = on_state f (record_spool_retry now i e sv)" "\<And>st. runtime_ok st \<Longrightarrow> runtime_ok (f st)"
    using assms(2) False by (cases e) (auto simp: failed_iteration_def intro!: that runtime_keeps)
  with r frame_state [of sv "record_spool_retry now i e sv" f] show ?thesis by (simp add: kept_rows_def)
qed

lemma finished_iteration_ok:
  assumes "service_ok sv" and "finished_iteration cfg now delay r sv = (p, dl, sv')"
  shows "frame_ok sv sv' \<and> (kept_rows sv sv'
    \<or> sp_rows (sv_spool sv') = filter (\<lambda>x. sw_id x \<noteq> sw_id r) (sp_rows (sv_spool sv)) \<and> sv_db sv' = sv_db sv)"
proof -
  obtain x sp where run: "delete_record (sw_id r) (sv_spool sv) = (x, sp)" by fastforce
  have ok: "spool_ok (sv_spool sv)" "runtime_ok (sv_state sv)" using assms(1) by (simp_all add: service_ok_def)
  note c = delete_record_cases [OF run] and sok = spool_ok_calls(3) [OF ok(1) run]
  have f: "frame_ok sv (sv\<lparr>sv_spool := sp, sv_state := st\<rparr>)" if "runtime_ok st" for st
    using frame_spool [OF assms(1) sok _ _ that] c by blast
  show ?thesis
  proof (cases x)
    case (Inl e)
    then show ?thesis using assms(2) run c f [OF runtime_ok_note [OF ok(2)]]
      by (auto simp: finished_iteration_def kept_rows_def)
  next
    case (Inr u)
    define st where "st = set_error None (set_spool_ready True
      (if sw_id r \<le> sv_startup_max_id sv \<or> 0 < sw_attempts r then increment spool_replayed_total (sv_state sv) else sv_state sv))"
    have "sv' = refresh_spool_state now (sv\<lparr>sv_spool := sp, sv_state := st\<rparr>)"
      using assms(2) run Inr by (simp add: finished_iteration_def st_def Let_def)
    moreover have "runtime_ok st" using ok(2) by (simp add: st_def runtime_keeps)
    moreover have "sp_rows sp = filter (\<lambda>x. sw_id x \<noteq> sw_id r) (sp_rows (sv_spool sv))" using c Inr by (auto simp: disk_failed_def)
    ultimately show ?thesis using frame_refresh [OF f] by simp
  qed
qed

lemma pending_find: "List.find is_pending rows = Some r \<Longrightarrow> r \<in> set rows \<and> is_pending r"
  by (rule find_some)

lemma iteration_ok:
  assumes ok: "service_ok sv" and run: "durable_iteration cfg dc ca now delay sv = (p, dl, sv')"
  shows "frame_ok sv sv' \<and> (kept_rows sv sv'
    \<or> (\<exists>r. List.find is_pending (sp_rows (sv_spool sv)) = Some r \<and> removed_row cfg dc r sv sv'))"
proof -
  obtain x sp where o: "oldest_pending (sv_spool sv) = (x, sp)" by fastforce
  have s: "spool_ok (sv_spool sv)" "runtime_ok (sv_state sv)" using ok by (simp_all add: service_ok_def)
  note c = oldest_pending_cases [OF o] and sok = spool_ok_calls(1) [OF s(1) o]
  have f: "frame_ok sv (sv\<lparr>sv_spool := sp, sv_state := st\<rparr>)" if "runtime_ok st" for st
    using frame_spool [OF ok sok _ _ that] c by blast
  define sv1 where "sv1 = sv\<lparr>sv_spool := sp\<rparr>"
  have sv1: "frame_ok sv sv1" "service_ok sv1" "sp_rows (sv_spool sv1) = sp_rows (sv_spool sv)" "sv_db sv1 = sv_db sv"
    using f [OF s(2)] c by (simp_all add: sv1_def frame_ok_def)
  show ?thesis
  proof (cases x)
    case (Inl e)
    then show ?thesis using run o c f [OF runtime_ok_note [OF s(2)]]
      by (auto simp: durable_iteration_def kept_rows_def)
  next
    case (Inr mr)
    show ?thesis
    proof (cases mr)
      case None
      have "sv' = refresh_spool_state now sv1" using run o Inr None by (simp add: durable_iteration_def sv1_def)
      then show ?thesis using frame_refresh [OF sv1(1)] sv1(3) by (simp add: kept_rows_def)
    next
      case (Some r)
      have r: "List.find is_pending (sp_rows (sv_spool sv)) = Some r" using c Inr Some by (auto simp: disk_failed_def)
      have chk: "checks_ok r" using pending_find [OF r] s(1) by (simp add: spool_ok_def)
      show ?thesis
      proof (cases "work_from_spool dc r")
        case (Inl e)
        then have "failed_iteration cfg now delay (sw_id r) e sv1 = (p, dl, sv')"
          using run o Inr Some by (simp add: durable_iteration_def sv1_def Let_def)
        from failed_iteration_ok [OF sv1(2) this] frame_trans [OF sv1(1)] sv1(3) show ?thesis by (auto simp: kept_rows_def)
      next
        case w: (Inr w)
        obtain y sv2 where pw: "persist_work cfg ca now w sv1 = (y, sv2)" by fastforce
        note pk = persist_work_ok [OF sv1(2) pw]
        have f2: "frame_ok sv sv2" using frame_trans [OF sv1(1), of sv2] pk by (simp add: frame_ok_def)
        show ?thesis
        proof (cases y)
          case (Inl e)
          then have "failed_iteration cfg now delay (sw_id r) e sv2 = (p, dl, sv')"
            using run o Inr Some w pw by (simp add: durable_iteration_def sv1_def Let_def)
          from failed_iteration_ok [OF _ this] pk frame_trans [OF f2] sv1(3) show ?thesis by (auto simp: kept_rows_def)
        next
          case fin: (Inr u)
          then have "finished_iteration cfg now delay r sv2 = (p, dl, sv')"
            using run o Inr Some w pw by (simp add: durable_iteration_def sv1_def Let_def)
          from finished_iteration_ok [OF _ this] pk frame_trans [OF f2] sv1(3) fin r
            work_from_spool_stored [OF chk w, of cfg "sv_db sv2"]
          show ?thesis by (auto simp: kept_rows_def removed_row_def)
        qed
      qed
    qed
  qed
qed

section \<open>The service as a system of steps\<close>

text \<open>A message is staged, the worker makes an iteration, the process restarts between two operations, or it
  dies after a record was persisted and before the spool deleted it. A restart begins with fresh counters and
  finds the spool and the database.\<close>

inductive pipeline_step :: "ingest_config \<Rightarrow> decoders \<Rightarrow> service \<Rightarrow> service \<Rightarrow> bool" for cfg dc where
  staging: "stage_mqtt_payload cfg dc now payload topic dk retry sv = (r, sv') \<Longrightarrow> pipeline_step cfg dc sv sv'"
| working: "durable_iteration cfg dc ca now delay sv = (p, dl, sv') \<Longrightarrow> pipeline_step cfg dc sv sv'"
| restart: "attach_durable_spool now (sv_spool sv) runtime_init (sv_db sv) = Inr sv' \<Longrightarrow> pipeline_step cfg dc sv sv'"
| crash: "oldest_pending (sv_spool sv) = (Inr (Some row), sp) \<Longrightarrow> work_from_spool dc row = Inr w
    \<Longrightarrow> persist_work cfg ca now w (sv\<lparr>sv_spool := sp\<rparr>) = (x, sv1)
    \<Longrightarrow> attach_durable_spool now' (sv_spool sv1) runtime_init (sv_db sv1) = Inr sv' \<Longrightarrow> pipeline_step cfg dc sv sv'"

inductive pipeline_reaches :: "ingest_config \<Rightarrow> decoders \<Rightarrow> service \<Rightarrow> service \<Rightarrow> bool" for cfg dc sv where
  here: "pipeline_reaches cfg dc sv sv"
| there: "pipeline_reaches cfg dc sv t \<Longrightarrow> pipeline_step cfg dc t u \<Longrightarrow> pipeline_reaches cfg dc sv u"

lemma attach_ok:
  assumes "spool_ok sp" and "db_ok db" and "attach_durable_spool now sp runtime_init db = Inr sv'"
  shows "service_ok sv' \<and> sp_rows (sv_spool sv') = sp_rows sp \<and> sp_last_id (sv_spool sv') = sp_last_id sp
    \<and> same_limits sp (sv_spool sv') \<and> sv_db sv' = db"
proof -
  obtain x sp' where run: "spool_stats_call sp = (x, sp')" by fastforce
  from assms(3) obtain st1 where c1: "set_spool_capacity (sp_max_records sp) (sp_max_bytes sp) runtime_init = Inr st1"
    by (auto simp: attach_durable_spool_def ebind_eq_Inr)
  with assms(3) run obtain s where s: "x = Inr s" by (cases x) (auto simp: attach_durable_spool_def)
  note st1 = c1 s
  have r: "runtime_ok st1" using runtime_ok_capacity(1) [OF runtime_init_ok st1(1)] .
  have "sv_spool sv' = sp' \<and> sv_db sv' = db \<and> runtime_ok (sv_state sv')"
    using assms(3) run st1 r by (auto simp: attach_durable_spool_def Let_def runtime_keeps split: if_splits)
  with spool_stats_cases [OF run] spool_ok_calls(2) [OF assms(1) run] assms(2) show ?thesis by (simp add: service_ok_def)
qed

text \<open>Every step keeps the service well-formed and the database growing, and loses no row that is not stored.\<close>

definition secured :: "ingest_config \<Rightarrow> decoders \<Rightarrow> spool_row \<Rightarrow> service \<Rightarrow> bool" where
  "secured cfg dc x sv = ((\<exists>y \<in> set (sp_rows (sv_spool sv)). core y = core x) \<or> stored_row cfg dc x (sv_db sv))"

lemma secured_kept: "kept_rows sv sv' \<Longrightarrow> grows (sv_db sv) (sv_db sv') \<Longrightarrow> secured cfg dc x sv \<Longrightarrow> secured cfg dc x sv'"
  unfolding secured_def kept_rows_def using stored_row_grows by (metis (no_types, lifting) image_iff list.set_map)

lemma payload_bytes_core: "map core xs = map core ys \<Longrightarrow> payload_bytes xs = payload_bytes ys"
proof (induction xs arbitrary: ys)
  case (Cons x xs)
  then obtain y zs where "ys = y # zs" "core x = core y" "map core xs = map core zs" by (cases ys) auto
  with Cons.IH [of zs] core_fields [of x y] show ?case by (simp add: payload_bytes_def)
qed (simp add: payload_bytes_def)

lemma payload_bytes_filter: "payload_bytes (filter P xs) \<le> payload_bytes xs"
  by (induction xs) (auto simp: payload_bytes_def)

lemma capacity_filter:
  "within_capacity sp \<Longrightarrow> int (length (filter P (sp_rows sp))) \<le> sp_max_records sp \<and> payload_bytes (filter P (sp_rows sp)) \<le> sp_max_bytes sp"
  using payload_bytes_filter [of P "sp_rows sp"]
  by (auto simp: within_capacity_def intro: order_trans [of "int (length (filter P (sp_rows sp)))" "int (length (sp_rows sp))"])

lemma step_keeps:
  assumes "pipeline_step cfg dc sv sv'" and "service_ok sv"
  shows "service_ok sv' \<and> grows (sv_db sv) (sv_db sv') \<and> (secured cfg dc x sv \<longrightarrow> secured cfg dc x sv')
    \<and> (within_capacity (sv_spool sv) \<longrightarrow> within_capacity (sv_spool sv'))"
  using assms(1)
proof cases
  case (staging now payload topic dk retry r)
  note c = staging_cases [OF assms(2) staging]
  then have rows: "sp_rows (sv_spool sv') = sp_rows (sv_spool sv)
      \<or> (\<exists>y. sp_rows (sv_spool sv') = sp_rows (sv_spool sv) @ [y] \<and> within_capacity (sv_spool sv'))"
    by (auto split: sum.splits if_splits)
  then have "\<forall>y \<in> set (sp_rows (sv_spool sv)). y \<in> set (sp_rows (sv_spool sv'))" by auto
  with c rows show ?thesis by (auto simp: secured_def within_capacity_def same_limits_def)
next
  case (working ca now delay p dl)
  note i = iteration_ok [OF assms(2) working]
  then have g: "service_ok sv'" "grows (sv_db sv) (sv_db sv')" "same_limits (sv_spool sv) (sv_spool sv')" by (simp_all add: frame_ok_def)
  from i show ?thesis
  proof (elim conjE disjE exE)
    assume k: "kept_rows sv sv'"
    then have "length (sp_rows (sv_spool sv')) = length (sp_rows (sv_spool sv))"
        "payload_bytes (sp_rows (sv_spool sv')) = payload_bytes (sp_rows (sv_spool sv))"
      unfolding kept_rows_def by (rule map_eq_imp_length_eq, rule payload_bytes_core)
    then have "within_capacity (sv_spool sv') = within_capacity (sv_spool sv)"
      using g(3) by (simp add: within_capacity_def same_limits_def)
    with g(1,2) secured_kept [OF k g(2)] show ?thesis by blast
  next
    fix r assume r: "List.find is_pending (sp_rows (sv_spool sv)) = Some r" and rem: "removed_row cfg dc r sv sv'"
    have "secured cfg dc x sv'" if sec: "secured cfg dc x sv"
    proof (cases "stored_row cfg dc x (sv_db sv)")
      case True
      with g(2) stored_row_grows show ?thesis by (auto simp: secured_def)
    next
      case False
      with sec obtain y where y: "y \<in> set (sp_rows (sv_spool sv))" "core y = core x" by (auto simp: secured_def)
      show ?thesis
      proof (cases "sw_id y = sw_id r")
        case True
        then have "y = r" using spool_row_by_id [of "sv_spool sv" y r] y(1) pending_find [OF r] assms(2) by (simp add: service_ok_def)
        with rem stored_row_core [OF y(2)] show ?thesis by (simp add: secured_def removed_row_def)
      next
        case False
        with y rem show ?thesis by (auto simp: secured_def removed_row_def)
      qed
    qed
    moreover have "within_capacity (sv_spool sv')" if "within_capacity (sv_spool sv)"
      using that rem g(3) capacity_filter [of "sv_spool sv" "\<lambda>x. sw_id x \<noteq> sw_id r"]
      by (simp add: within_capacity_def same_limits_def removed_row_def)
    ultimately show ?thesis using g by blast
  qed
next
  case (restart now)
  have "spool_ok (sv_spool sv)" "db_ok (sv_db sv)" using assms(2) by (simp_all add: service_ok_def)
  from attach_ok [OF this restart] show ?thesis by (simp add: secured_def within_capacity_def same_limits_def)
next
  case (crash row sp w ca now r sv1 now')
  note o = oldest_pending_cases [OF crash(1)]
  have "service_ok (sv\<lparr>sv_spool := sp\<rparr>)" using assms(2) spool_ok_calls(1) [OF _ crash(1)] by (simp add: service_ok_def)
  note p = persist_work_ok [OF this crash(3)]
  then have "spool_ok (sv_spool sv1)" "db_ok (sv_db sv1)" unfolding service_ok_def by blast+
  from attach_ok [OF this crash(4)] p o stored_row_grows [of "sv_db sv" "sv_db sv1" cfg dc x] show ?thesis
    by (auto simp: secured_def within_capacity_def same_limits_def)
qed

lemma pipeline_keeps:
  assumes "pipeline_reaches cfg dc sv sv'" and "service_ok sv"
  shows "service_ok sv' \<and> grows (sv_db sv) (sv_db sv') \<and> (secured cfg dc x sv \<longrightarrow> secured cfg dc x sv')
    \<and> (within_capacity (sv_spool sv) \<longrightarrow> within_capacity (sv_spool sv'))"
  using assms
proof induction
  case (there t u)
  then show ?case using step_keeps [OF there(2), of x] grows_trans by blast
qed simp

text \<open>C5: Nothing that was acknowledged is lost. When staging a payload returned \<open>staged\<close>, then after any number
  of arrivals, worker iterations, restarts and crashes between persisting and deleting, with any faults of the
  spool, the database and the callbacks, the very row that was staged, the one with the id of the answer, is still
  in the spool or the database has it. That row holds the payload, whole exactly when it is valid telemetry, under its
  event id and delivery key; having it means the event its payload decodes to is stored under this id, or, for
  rejected and unauthorized payloads, a dead letter with its bytes, full size and topic.\<close>

theorem staged_never_lost:
  assumes "service_ok sv" and "stage_mqtt_payload cfg dc now payload topic dk retry sv = (Inr s, sv1)" and "sr_staged s"
    and "pipeline_reaches cfg dc sv1 sv'"
  shows "\<exists>x \<in> set (sp_rows (sv_spool sv1)). staged_row cfg dc payload topic dk s x
    \<and> ((\<exists>y \<in> set (sp_rows (sv_spool sv')). core y = core x) \<or> stored_row cfg dc x (sv_db sv'))"
proof -
  from staging_cases [OF assms(1,2)] assms(3) obtain x where
    x: "service_ok sv1" "x \<in> set (sp_rows (sv_spool sv1))" "staged_row cfg dc payload topic dk s x" by auto
  then have "secured cfg dc x sv1" by (auto simp: secured_def)
  with pipeline_keeps [OF assms(4) x(1), of x] x(2,3) show ?thesis by (auto simp: secured_def)
qed

text \<open>C6: Every state the service reaches from a well-formed one is well-formed, whatever fails: the rows of the
  spool have increasing ids and unique event ids and delivery keys and satisfy the constraints of the table, the
  samples have unique event ids, so an event replayed from the spool is stored once, the latest row of a series is
  its newest, the counters agree with the error fields, the spool stays within its capacity, and the database
  keeps every sample and dead letter.\<close>

theorem pipeline_invariant:
  assumes "service_ok sv" and "within_capacity (sv_spool sv)" and "pipeline_reaches cfg dc sv sv'"
  shows "service_ok sv' \<and> within_capacity (sv_spool sv') \<and> grows (sv_db sv) (sv_db sv')
    \<and> distinct (map (\<lambda>s. te_event_id (sm_event s)) (db_samples (sv_db sv')))"
  using pipeline_keeps [OF assms(3,1)] assms(2) by (auto simp: service_ok_def db_ok_def samples_ok_def)

section \<open>Draining\<close>

text \<open>What the database and the callbacks accept: integers that fit the columns, a stale time that is a
  float, texts that fit, an authorizer and an alert processor that answer.\<close>

definition letter_fits :: "string \<Rightarrow> string \<Rightarrow> string option \<Rightarrow> bool" where
  "letter_fits dialect code topic = (dialect = ''postgresql'' \<longrightarrow>
     length (case topic of None \<Rightarrow> [] | Some t \<Rightarrow> t) \<le> 256 \<and> length code \<le> 64)"

definition storable :: "string \<Rightarrow> callbacks \<Rightarrow> work \<Rightarrow> bool" where
  "storable dialect ca w =
     (case w of
        DeadLetterWork p n tr code de t rat \<Rightarrow> letter_fits dialect code t
      | TelemetryWork event raw p t rat \<Rightarrow>
          (case (case ca_authorize ca of None \<Rightarrow> Inr (True, [], []) | Some f \<Rightarrow> f event t rat) of
             Inl e \<Rightarrow> False
           | Inr (allowed, code, de) \<Rightarrow>
               if allowed then bigint_ok (te_raw_value event) \<and> bigint_ok (te_raw_status event) \<and> isOk (stale_after_seconds raw)
                 \<and> (case ca_after_persist ca of None \<Rightarrow> True | Some f \<Rightarrow> isOk (f event raw))
               else letter_fits dialect code t))"

definition settles :: "decoders \<Rightarrow> string \<Rightarrow> callbacks \<Rightarrow> spool_row \<Rightarrow> bool" where
  "settles dc dialect ca r = (case work_from_spool dc r of
     Inl (InvalidSpoolRecordError m) \<Rightarrow> True | Inl _ \<Rightarrow> False | Inr w \<Rightarrow> storable dialect ca w)"

definition calm :: "service \<Rightarrow> bool" where
  "calm sv = (sp_script (sv_spool sv) = [] \<and> db_script (sv_db sv) = [])"

definition pending_rows :: "service \<Rightarrow> spool_row list" where
  "pending_rows sv = filter is_pending (sp_rows (sv_spool sv))"

lemma calm_refresh: "calm sv \<Longrightarrow> calm (refresh_spool_state now sv)"
  by (cases rule: refresh_cases [of sv now]) (auto simp: calm_def spool_stats_call_def on_disk_def)

lemma store_dead_letter_calm:
  assumes "db_script (sv_db sv) = []" and "letter_fits (db_dialect (sv_db sv)) code t"
  shows "\<exists>sv'. store_dead_letter now p n tr code de t sv = (Inr (), sv') \<and> sv_spool sv' = sv_spool sv
    \<and> db_script (sv_db sv') = [] \<and> db_dialect (sv_db sv') = db_dialect (sv_db sv)"
  using assms by (auto simp: store_dead_letter_def persist_dead_letter_def transaction_def letter_fits_def Let_def)

lemma upsert_calm [simp]: "db_script (upsert_latest v d) = db_script d" "db_dialect (upsert_latest v d) = db_dialect d"
  by (simp_all add: upsert_latest_def on_conflict_update_def select_and_update_def split: option.splits)

lemma persist_calm:
  assumes "db_ok d" and "db_script d = []" and "bigint_ok (te_raw_value e)" and "bigint_ok (te_raw_status e)"
    and "isOk (stale_after_seconds raw)"
  shows "\<exists>b d'. persist e raw d = (Inr b, d') \<and> db_script d' = [] \<and> db_dialect d' = db_dialect d"
proof -
  from assms(5) obtain x where x: "stale_after_seconds raw = Inr x" by (auto simp: isOk_iff)
  have so: "samples_ok d" using assms(1) by (simp add: db_ok_def)
  note c = select_then_insert_same [OF so assms(3,4)]
  define v where "v = \<lparr>la_id = 0, la_sample_id = db_last_sample d + 1, la_event = e, la_stale_after_seconds = x, la_received_at = 0\<rparr>"
  define d1 where "d1 = snd (insert_sample e raw 0 0 d)"
  have d1: "db_script d1 = []" "db_dialect d1 = db_dialect d" using assms(2) by (simp_all add: d1_def insert_sample_def Let_def)
  have "persist_call e raw 0 0 d = (if has_event (te_event_id e) d then (Inr False, d) else (Inr True, upsert_latest v d1))"
    using assms(3,4) x by (simp add: persist_call_def c insert_unless_known_def insert_sample_def latest_values_def Let_def
        has_event_def v_def d1_def)
  then show ?thesis using assms(2) d1 by (cases "has_event (te_event_id e) d") (simp_all add: persist_def transaction_def ex_bool_eq)
qed

lemma persist_work_calm:
  assumes "service_ok sv" and "calm sv" and "storable (db_dialect (sv_db sv)) ca w"
  shows "\<exists>sv'. persist_work cfg ca now w sv = (Inr (), sv') \<and> calm sv' \<and> sv_spool sv' = sv_spool sv
    \<and> db_dialect (sv_db sv') = db_dialect (sv_db sv)"
proof (cases w)
  case (DeadLetterWork p n tr code de t rat)
  with assms store_dead_letter_calm [of sv code t now p n tr de] show ?thesis
    by (auto simp: persist_work_def storable_def calm_def)
next
  case (TelemetryWork event raw p t rat)
  define auth where "auth = (case ca_authorize ca of None \<Rightarrow> Inr (True, [], []) | Some f \<Rightarrow> f event t rat)"
  have st: "case auth of Inl e \<Rightarrow> False | Inr (allowed, code, de) \<Rightarrow>
      if allowed then bigint_ok (te_raw_value event) \<and> bigint_ok (te_raw_status event) \<and> isOk (stale_after_seconds raw)
        \<and> (case ca_after_persist ca of None \<Rightarrow> True | Some f \<Rightarrow> isOk (f event raw))
      else letter_fits (db_dialect (sv_db sv)) code t"
    using assms(3) TelemetryWork by (simp add: storable_def auth_def)
  then obtain allowed code de where a: "auth = Inr (allowed, code, de)" by (cases auth) auto
  show ?thesis
  proof (cases allowed)
    case False
    let ?sv = "on_state (\<lambda>st. increment dead_letter_queued_total (increment rejected_total st)) sv"
    have "db_script (sv_db ?sv) = []" "letter_fits (db_dialect (sv_db ?sv)) code t"
      using assms(2) st a False by (simp_all add: calm_def)
    from store_dead_letter_calm [OF this, of now "take (ig_dead_letter_payload_max_bytes cfg) p" "int (length p)"
        "length (take (ig_dead_letter_payload_max_bytes cfg) p) \<noteq> length p" de] assms(2)
    show ?thesis using TelemetryWork a False by (auto simp: persist_work_def auth_def [symmetric] Let_def calm_def)
  next
    case True
    have ok: "db_ok (sv_db sv)" "db_script (sv_db sv) = []" using assms(1,2) by (simp_all add: service_ok_def calm_def)
    from persist_calm [OF ok, of event raw] st a True obtain b d' where
      p: "persist event raw (sv_db sv) = (Inr b, d')" "db_script d' = []" "db_dialect d' = db_dialect (sv_db sv)" by auto
    define st1 where "st1 = (if b then (let m = mark_persisted now (te_captured_at event) (sv_state sv) in
        case ca_on_persisted ca of None \<Rightarrow> m
        | Some f \<Rightarrow> (case f event raw of Inr _ \<Rightarrow> m | Inl _ \<Rightarrow> increment websocket_publish_error_total m))
      else set_error None (increment duplicate_total (mark_database_success now (sv_state sv))))"
    have "after_persist ca event raw sv1 = (Inr (), sv1)" for sv1
      using st a True by (auto simp: after_persist_def isOk_def split: option.splits sum.splits)
    then have "persist_telemetry ca now event raw sv = (Inr (), sv\<lparr>sv_db := d', sv_state := st1\<rparr>)"
      by (simp add: persist_telemetry_def p(1) st1_def [symmetric])
    then show ?thesis using TelemetryWork a True p(2,3) assms(2)
      by (simp add: persist_work_def auth_def [symmetric] calm_def)
  qed
qed

text \<open>On calm disks an iteration settles the oldest pending row: it leaves the pending rows, the others stay.\<close>

lemma update_pending_filter:
  assumes "\<And>x. \<not> is_pending (f x)"
  shows "filter is_pending (update_pending i f rows) = filter (\<lambda>x. sw_id x \<noteq> i) (filter is_pending rows)"
  by (induction rows) (auto simp: update_pending_def assms)

lemma find_filter_hd: "List.find P xs = (case filter P xs of [] \<Rightarrow> None | x # _ \<Rightarrow> Some x)"
  by (induction xs) auto

lemma iteration_settles:
  assumes ok: "service_ok sv" and calm: "calm sv" and pend: "pending_rows sv = r # rs"
    and settle: "settles dc (db_dialect (sv_db sv)) ca r"
    and run: "durable_iteration cfg dc ca now delay sv = (p, dl, sv')"
  shows "calm sv' \<and> db_dialect (sv_db sv') = db_dialect (sv_db sv) \<and> pending_rows sv' = rs"
proof -
  have first: "List.find is_pending (sp_rows (sv_spool sv)) = Some r" using pend by (simp add: find_filter_hd pending_rows_def)
  have sok: "spool_ok (sv_spool sv)" using ok by (simp add: service_ok_def)
  have o: "oldest_pending (sv_spool sv) = (Inr (Some r), sv_spool sv)"
    using calm first by (simp add: oldest_pending_def on_disk_def calm_def)
  have same: "sv\<lparr>sv_spool := sv_spool sv\<rparr> = sv" by simp
  have rs: "filter (\<lambda>x. sw_id x \<noteq> sw_id r) (pending_rows sv) = rs"
  proof -
    have "distinct (map sw_id (pending_rows sv))"
      using sok filter_sorted_id [of "sp_rows (sv_spool sv)" is_pending] by (simp add: spool_ok_def pending_rows_def strict_sorted_iff)
    then have "\<forall>x \<in> set rs. sw_id x \<noteq> sw_id r" unfolding pend by (auto simp: image_iff)
    then show ?thesis unfolding pend by simp
  qed
  show ?thesis
  proof (cases "work_from_spool dc r")
    case (Inl e)
    with settle obtain m where e: "e = InvalidSpoolRecordError m" by (auto simp: settles_def split: exn.splits)
    define f :: "spool_row \<Rightarrow> spool_row" where "f = (\<lambda>r. r\<lparr>sw_status := ''terminal'', sw_attempts := sw_attempts r + 1,
        sw_last_error := Some (take 4096 m), sw_last_attempt_at := Some now, sw_terminal_at := Some now\<rparr>)"
    define st where "st = set_error (Some m) (increment spool_terminal_total (sv_state sv))"
    have t: "mark_terminal now (sw_id r) m (sv_spool sv)
        = (Inr (), (sv_spool sv)\<lparr>sp_rows := update_pending (sw_id r) f (sp_rows (sv_spool sv))\<rparr>)"
      using calm by (simp add: mark_terminal_def on_disk_def calm_def f_def)
    have sv': "sv' = refresh_spool_state now (sv\<lparr>sv_spool := (sv_spool sv)\<lparr>sp_rows := update_pending (sw_id r) f (sp_rows (sv_spool sv))\<rparr>, sv_state := st\<rparr>)"
      using run o Inl e t by (simp add: durable_iteration_def failed_iteration_def Let_def st_def)
    have "filter is_pending (update_pending (sw_id r) f (sp_rows (sv_spool sv))) = rs"
      using update_pending_filter [of f "sw_id r" "sp_rows (sv_spool sv)"] rs by (simp add: f_def is_pending_def pending_rows_def)
    then show ?thesis using calm unfolding sv' by (intro conjI calm_refresh) (simp_all add: calm_def pending_rows_def)
  next
    case (Inr w)
    with settle have "storable (db_dialect (sv_db sv)) ca w" by (simp add: settles_def)
    from persist_work_calm [OF ok calm this, of cfg now] obtain sv2 where
      pw: "persist_work cfg ca now w sv = (Inr (), sv2)" "calm sv2" "sv_spool sv2 = sv_spool sv"
        "db_dialect (sv_db sv2) = db_dialect (sv_db sv)" by blast
    define st where "st = set_error None (set_spool_ready True
      (if sw_id r \<le> sv_startup_max_id sv2 \<or> 0 < sw_attempts r then increment spool_replayed_total (sv_state sv2) else sv_state sv2))"
    have dlt: "delete_record (sw_id r) (sv_spool sv) = (Inr (), (sv_spool sv)\<lparr>sp_rows := filter (\<lambda>x. sw_id x \<noteq> sw_id r) (sp_rows (sv_spool sv))\<rparr>)"
      using calm by (simp add: delete_record_def on_disk_def calm_def)
    have sv': "sv' = refresh_spool_state now (sv2\<lparr>sv_spool := (sv_spool sv)\<lparr>sp_rows := filter (\<lambda>x. sw_id x \<noteq> sw_id r) (sp_rows (sv_spool sv))\<rparr>, sv_state := st\<rparr>)"
      using run o Inr pw dlt by (simp add: durable_iteration_def finished_iteration_def Let_def st_def same)
    have "filter is_pending (filter (\<lambda>x. sw_id x \<noteq> sw_id r) (sp_rows (sv_spool sv))) = rs"
      using rs by (simp add: pending_rows_def conj_commute)
    then show ?thesis using calm pw unfolding sv' by (intro conjI calm_refresh) (simp_all add: calm_def pending_rows_def)
  qed
qed

lemma idle_iteration:
  assumes "calm sv" and "pending_rows sv = []" and "durable_iteration cfg dc ca now delay sv = (p, dl, sv')"
  shows "calm sv' \<and> pending_rows sv' = [] \<and> db_dialect (sv_db sv') = db_dialect (sv_db sv)"
proof -
  have "List.find is_pending (sp_rows (sv_spool sv)) = None" using assms(2) by (simp add: find_filter_hd pending_rows_def)
  then have "sv' = refresh_spool_state now (sv\<lparr>sv_spool := sv_spool sv\<rparr>)"
    using assms(1,3) by (simp add: durable_iteration_def oldest_pending_def on_disk_def calm_def)
  then have "sv' = refresh_spool_state now sv" by simp
  then show ?thesis using calm_refresh [OF assms(1)] assms(2) by (simp add: pending_rows_def)
qed

lemma pipeline_trans: "pipeline_reaches cfg dc b c \<Longrightarrow> pipeline_reaches cfg dc a b \<Longrightarrow> pipeline_reaches cfg dc a c"
  by (induction rule: pipeline_reaches.induct) (auto intro: pipeline_reaches.there)

lemma run_durable_reaches: "pipeline_reaches cfg dc a (run_durable cfg dc rounds delay a)"
proof (induction rounds arbitrary: delay a)
  case (Cons x rounds)
  obtain now ca where x: "x = (now, ca)" by (cases x)
  obtain p dl b where it: "durable_iteration cfg dc ca now delay a = (p, dl, b)" by (metis prod_cases3)
  have "pipeline_reaches cfg dc a b" using it by (intro there [OF here] working)
  with Cons.IH [of b dl] have "pipeline_reaches cfg dc a (run_durable cfg dc rounds dl b)" using pipeline_trans by blast
  with it x show ?case by simp
qed (simp add: here)

lemma backlog_shrinks:
  assumes "service_ok sv" and "calm sv" and "\<forall>r \<in> set (pending_rows sv). settles dc (db_dialect (sv_db sv)) ca r"
    and "length (pending_rows sv) \<le> n"
  shows "pending_rows (run_durable cfg dc (replicate n (now, ca)) delay sv) = []"
  using assms
proof (induction n arbitrary: sv delay)
  case (Suc n)
  obtain p dl sv1 where it: "durable_iteration cfg dc ca now delay sv = (p, dl, sv1)" by (metis prod_cases3)
  have ok1: "service_ok sv1" using iteration_ok [OF Suc.prems(1) it] by (simp add: frame_ok_def)
  show ?case
  proof (cases "pending_rows sv")
    case Nil
    have "calm sv1 \<and> pending_rows sv1 = [] \<and> db_dialect (sv_db sv1) = db_dialect (sv_db sv)"
      using idle_iteration [OF Suc.prems(2) Nil it] .
    with Suc.IH [of sv1 dl] ok1 it show ?thesis by simp
  next
    case (Cons r rs)
    then have "calm sv1 \<and> db_dialect (sv_db sv1) = db_dialect (sv_db sv) \<and> pending_rows sv1 = rs"
      using iteration_settles [OF Suc.prems(1,2) Cons _ it] Suc.prems(3) by simp
    with Suc.IH [of sv1 dl] ok1 it Cons Suc.prems(3,4) show ?thesis by simp
  qed
qed simp

text \<open>C7: A healthy service empties its backlog in order. When the disks do not fail and every pending row is either
  storable or recognised as undecodable, as many iterations as there are pending rows leave none: each row is
  in the database by then, or in the spool as a terminal row for inspection.\<close>

theorem backlog_drained:
  assumes "service_ok sv" and "calm sv" and "\<forall>r \<in> set (pending_rows sv). settles dc (db_dialect (sv_db sv)) ca r"
    and "length (pending_rows sv) \<le> n"
  shows "pending_rows (run_durable cfg dc (replicate n (now, ca)) delay sv) = []
    \<and> (\<forall>r \<in> set (pending_rows sv). stored_row cfg dc r (sv_db (run_durable cfg dc (replicate n (now, ca)) delay sv))
         \<or> (\<exists>y \<in> set (sp_rows (sv_spool (run_durable cfg dc (replicate n (now, ca)) delay sv))). core y = core r \<and> sw_status y = ''terminal''))"
proof -
  define final where "final = run_durable cfg dc (replicate n (now, ca)) delay sv"
  note drained = backlog_shrinks [OF assms, of cfg now delay]
  have "stored_row cfg dc r (sv_db final) \<or> (\<exists>y \<in> set (sp_rows (sv_spool final)). core y = core r \<and> sw_status y = ''terminal'')"
    if r: "r \<in> set (pending_rows sv)" for r
  proof -
    have "secured cfg dc r sv" using r by (auto simp: secured_def pending_rows_def)
    with pipeline_keeps [OF run_durable_reaches assms(1), of cfg dc "replicate n (now, ca)" delay r] have s: "secured cfg dc r final" "service_ok final"
      by (simp_all add: final_def)
    have "\<forall>y \<in> set (sp_rows (sv_spool final)). \<not> is_pending y"
      using drained by (simp add: final_def pending_rows_def filter_empty_conv)
    then have "\<forall>y \<in> set (sp_rows (sv_spool final)). sw_status y = ''terminal''"
      using s(2) by (auto simp: service_ok_def spool_ok_def checks_ok_def is_pending_def)
    with s(1) show ?thesis by (auto simp: secured_def)
  qed
  with drained show ?thesis by (simp add: final_def)
qed

section \<open>A record the database cannot take\<close>

lemma float_of_huge: "2 ^ 1024 \<le> n \<Longrightarrow> \<exists>m. float_of_int n = Inl (OverflowError m)"
proof -
  assume n: "2 ^ 1024 \<le> n"
  have "fl ((2 :: rat) ^ 1024) = 2 ^ 1024" using fl_repr [of 1 1024] by simp
  then have f: "is_float ((2 :: rat) ^ 1024)" by (simp add: is_float_def)
  have "(of_int (2 ^ 1024) :: rat) \<le> of_int n" using n by (rule of_int_le_iff [THEN iffD2])
  then have "(2 :: rat) ^ 1024 \<le> \<bar>of_int n\<bar>" by (simp del: of_int_le_iff)
  from fl_ge_float [OF f this] show ?thesis by (simp add: float_of_int_def)
qed

text \<open>Rows that differ in the bookkeeping of failed attempts only.\<close>

definition unretried :: "spool_row \<Rightarrow> spool_row" where
  "unretried r = r\<lparr>sw_attempts := 0, sw_last_error := None, sw_last_attempt_at := None\<rparr>"

definition retried :: "spool_row \<Rightarrow> spool_row \<Rightarrow> bool" where
  "retried r r' = (unretried r' = unretried r)"

lemma retried_refl [simp]: "retried r r"
  by (simp add: retried_def)

lemma retried_trans: "retried a b \<Longrightarrow> retried b c \<Longrightarrow> retried a c"
  by (simp add: retried_def)

lemma unretried_facts: "is_pending (unretried x) = is_pending x" "core (unretried x) = core x" "sw_id (unretried x) = sw_id x"
  by (simp_all add: unretried_def is_pending_def core_def)

lemma unretried_work: "work_from_spool dc (unretried x) = work_from_spool dc x"
  by (induct x) (unfold work_from_spool_def unretried_def spool_row.update_convs spool_row.select_convs, rule refl)

lemma retried_facts: "retried r r' \<Longrightarrow> is_pending r' = is_pending r \<and> core r' = core r \<and> work_from_spool dc r' = work_from_spool dc r
    \<and> sw_id r' = sw_id r"
  unfolding retried_def by (metis unretried_facts unretried_work)

lemma retried_find:
  "list_all2 retried rows rows' \<Longrightarrow> List.find is_pending rows = Some r
    \<Longrightarrow> \<exists>r'. List.find is_pending rows' = Some r' \<and> retried r r'"
  by (induction rule: list_all2_induct) (auto simp: retried_facts split: if_splits dest: retried_facts)

lemma retried_update: "list_all2 retried rows (update_pending i (\<lambda>r. r\<lparr>sw_attempts := sw_attempts r + 1,
    sw_last_error := Some m, sw_last_attempt_at := Some now\<rparr>) rows)"
  by (induction rows) (auto simp: update_pending_def retried_def unretried_def)

lemma retried_list_refl: "list_all2 retried rows rows"
  by (simp add: list.rel_refl)

lemma record_spool_retry_rows:
  "list_all2 retried (sp_rows (sv_spool sv)) (sp_rows (sv_spool (record_spool_retry now i e sv)))
    \<and> sv_db (record_spool_retry now i e sv) = sv_db sv"
proof -
  obtain x sp where run: "mark_attempt now i (exn_str e) (sv_spool sv) = (x, sp)" by fastforce
  have "list_all2 retried (sp_rows (sv_spool sv)) (sp_rows sp)"
    using mark_attempt_cases [OF run] retried_update retried_list_refl by auto
  then show ?thesis using run by (cases x) (simp_all add: record_spool_retry_def)
qed

text \<open>No transaction can store an event whose stale time is no float.\<close>

lemma persist_refused:
  assumes "stale_after_seconds raw = Inl x" and "\<not> has_event (te_event_id e) d" and "persist e raw d = (r, d')"
  shows "same_rows d d' \<and> ((\<exists>m. r = Inl (OtherError m)) \<or> (\<exists>m. r = Inl (OverflowError m)))"
proof -
  have c: "\<exists>y d1. persist_call e raw gap now (d\<lparr>db_script := sc\<rparr>) = (Inl y, d1) \<and> ((\<exists>m. y = OtherError m) \<or> (\<exists>m. y = OverflowError m))"
    for gap now sc
    using assms(1,2) stale_after_Inl [OF assms(1)]
    by (auto simp: persist_call_def insert_unless_known_def select_then_insert_def insert_sample_def Let_def has_event_def
        latest_values_def find_None_iff split: option.splits dest: find_some)
  from assms(3) [unfolded persist_def] show ?thesis
  proof (cases rule: transaction_cases)
    case (nothing y sc)
    note n = this
    from n(3) have "(\<exists>m. y = OtherError m) \<or> (\<exists>m. y = OverflowError m)"
    proof (elim disjE exE)
      fix gap now z assume "persist_call e raw gap now (d\<lparr>db_script := sc\<rparr>) = (Inl y, z)"
      with c [of gap now sc] show ?thesis by auto
    qed auto
    with n(1,2) show ?thesis by auto
  next
    case (committed gap now a sc)
    with c [of gap now sc] show ?thesis by auto
  next
    case (unseen gap now a sc m)
    with c [of gap now sc] show ?thesis by auto
  qed
qed

lemma failed_iteration_rows:
  assumes "failed_iteration cfg now delay i e sv = (p, dl, sv')" and "\<And>m. e \<noteq> InvalidSpoolRecordError m"
  shows "list_all2 retried (sp_rows (sv_spool sv)) (sp_rows (sv_spool sv')) \<and> sv_db sv' = sv_db sv"
proof -
  obtain f where "sv' = on_state f (record_spool_retry now i e sv)"
    using assms by (cases e) (auto simp: failed_iteration_def)
  with record_spool_retry_rows [of sv now i e] show ?thesis by simp
qed

lemma poison_iteration:
  assumes ok: "service_ok sv" and first: "List.find is_pending (sp_rows (sv_spool sv)) = Some r"
    and w: "work_from_spool dc r = Inr (TelemetryWork event raw p t rat)"
    and stale: "stale_after_seconds raw = Inl x" and new: "\<not> has_event (te_event_id event) (sv_db sv)"
    and auth: "ca_authorize ca = None" and run: "durable_iteration cfg dc ca now delay sv = (pa, dl, sv')"
  shows "list_all2 retried (sp_rows (sv_spool sv)) (sp_rows (sv_spool sv')) \<and> same_rows (sv_db sv) (sv_db sv')"
proof -
  obtain y sp where o: "oldest_pending (sv_spool sv) = (y, sp)" by fastforce
  note c = oldest_pending_cases [OF o]
  show ?thesis
  proof (cases y)
    case (Inl e)
    with run o c show ?thesis by (auto simp: durable_iteration_def retried_list_refl)
  next
    case (Inr mr)
    with c first have mr: "mr = Some r" "sp_rows sp = sp_rows (sv_spool sv)" by (auto simp: disk_failed_def)
    obtain z d where pe: "persist event raw (sv_db sv) = (z, d)" by fastforce
    from persist_refused [OF stale new this] obtain e where e: "same_rows (sv_db sv) d" "z = Inl e" "\<And>m. e \<noteq> InvalidSpoolRecordError m"
      by blast
    have "failed_iteration cfg now delay (sw_id r) e (sv\<lparr>sv_spool := sp, sv_db := d\<rparr>) = (pa, dl, sv')"
      using run o Inr mr w auth pe e(2)
      by (simp add: durable_iteration_def Let_def persist_work_def persist_telemetry_def)
    from failed_iteration_rows [OF this e(3)] mr(2) e(1) show ?thesis by simp
  qed
qed

text \<open>C8: One record can stop the worker for good. When the oldest pending row is an event whose payload has a
  \<open>stale_after_seconds\<close> integer of \<open>2 ^ 1024\<close> or more, which the contract admits as an extra field, and no authorizer
  is configured that could refuse it, then in every run of the worker, however the disks and the database behave, no row of the spool is ever stored, deleted
  or quarantined: the row stays first and only its attempts are counted.\<close>

theorem poison_blocks:
  assumes "service_ok sv" and "List.find is_pending (sp_rows (sv_spool sv)) = Some r"
    and "work_from_spool dc r = Inr (TelemetryWork event raw p t rat)"
    and "dget raw ''stale_after_seconds'' = Some (JInt n)" and "2 ^ 1024 \<le> n"
    and "\<not> has_event (te_event_id event) (sv_db sv)" and "\<forall>(now, ca) \<in> set rounds. ca_authorize ca = None"
  shows "list_all2 retried (sp_rows (sv_spool sv)) (sp_rows (sv_spool (run_durable cfg dc rounds delay sv)))
    \<and> same_rows (sv_db sv) (sv_db (run_durable cfg dc rounds delay sv))"
  using assms
proof (induction rounds arbitrary: sv r delay)
  case Nil
  then show ?case by (simp add: retried_list_refl)
next
  case (Cons x rounds)
  obtain now ca where x: "x = (now, ca)" by (cases x)
  obtain pa dl sv1 where it: "durable_iteration cfg dc ca now delay sv = (pa, dl, sv1)" by (metis prod_cases3)
  obtain m where "float_of_int n = Inl (OverflowError m)" using float_of_huge [OF Cons.prems(5)] by blast
  with Cons.prems(4) have st: "stale_after_seconds raw = Inl (OverflowError m)" by (simp add: stale_after_seconds_def)
  have "ca_authorize ca = None" using Cons.prems(7) x by auto
  note s1 = poison_iteration [OF Cons.prems(1,2,3) st Cons.prems(6) this it]
  from retried_find [OF _ Cons.prems(2)] s1 obtain r1 where r1: "List.find is_pending (sp_rows (sv_spool sv1)) = Some r1" "retried r r1"
    by blast
  have ok1: "service_ok sv1" using iteration_ok [OF Cons.prems(1) it] by (simp add: frame_ok_def)
  have w1: "work_from_spool dc r1 = Inr (TelemetryWork event raw p t rat)" using retried_facts [OF r1(2)] Cons.prems(3) by simp
  have n1: "\<not> has_event (te_event_id event) (sv_db sv1)" using Cons.prems(6) s1 by (simp add: has_event_def same_rows_def)
  have "list_all2 retried (sp_rows (sv_spool sv1)) (sp_rows (sv_spool (run_durable cfg dc rounds dl sv1)))
      \<and> same_rows (sv_db sv1) (sv_db (run_durable cfg dc rounds dl sv1))"
    using Cons.prems(4,5,7) by (intro Cons.IH [OF ok1 r1(1) w1 _ _ n1]) auto
  with s1 it x show ?case
    by (auto simp: same_rows_def intro: list_all2_trans [OF retried_trans])
qed

section \<open>Witnesses\<close>

text \<open>A service with one kind of event: the payload \<open>x\<close> carries the stale time that no float holds.\<close>

definition sim_event :: telemetry_event where
  "sim_event = \<lparr>te_event_id = ''e1'', te_node_id = ''n'', te_captured_at = 5, te_metric = ''t'', te_value = Some 1,
      te_unit = ''C'', te_quality = ''valid'', te_source = ''s'', te_equipment_id = ''q'', te_channel_id = ''c'',
      te_alarm = None, te_raw_value = None, te_raw_status = None\<rparr>"

definition sim_decoders :: decoders where
  "sim_decoders = \<lparr>dc_utf8 = (\<lambda>p. if p = [0xFF] then Inl ''invalid start byte'' else Inr (map (\<lambda>b. char_of (unat b)) p)),
     dc_json = (\<lambda>t. Parsed (JObj [(''stale_after_seconds'', if t = ''x'' then JInt (2 ^ 1024) else JNull)])),
     dc_event = (\<lambda>_. Inr sim_event)\<rparr>"

definition sim_config :: ingest_config where
  "sim_config = \<lparr>ig_payload_max_bytes = 100, ig_dead_letter_payload_max_bytes = 10, ig_retry_initial = 1 / 4,
     ig_retry_max = 5, ig_poll_interval = 1\<rparr>"

definition sim_callbacks :: callbacks where
  "sim_callbacks = \<lparr>ca_authorize = None, ca_on_persisted = None, ca_after_persist = None\<rparr>"

definition sim_db :: "db_outcome list \<Rightarrow> telemetry_db" where
  "sim_db sc = \<lparr>db_dialect = ''postgresql'', db_samples = [], db_latest = [], db_dead_letters = [], db_last_sample = 0,
      db_last_latest = 0, db_last_dead_letter = 0, db_script = sc\<rparr>"

definition sim_service :: service where
  "sim_service = \<lparr>sv_spool = empty_spool 8 100 [], sv_state = runtime_init, sv_db = sim_db [], sv_startup_max_id = 0\<rparr>"

lemma sim_service_ok: "service_ok sim_service" "within_capacity (sv_spool sim_service)"
proof -
  have "db_ok (sim_db [])" by (simp add: sim_db_def db_ok_def samples_ok_def latest_ok_def latest_keys_def dead_letters_ok_def)
  then show "service_ok sim_service" by (simp add: service_ok_def sim_service_def runtime_init_ok)
  show "within_capacity (sv_spool sim_service)" by (simp add: sim_service_def within_capacity_def empty_spool_def payload_bytes_def)
qed

definition sim_staged :: "byte \<Rightarrow> stage_result result \<times> service" where
  "sim_staged b = stage_mqtt_payload sim_config sim_decoders 5 [b] (Some ''t'') (Some ''k'') False sim_service"

lemma sim_staged_result:
  "fst (sim_staged 0x61) = Inr \<lparr>sr_staged = True, sr_accepted = True, sr_duplicate = False, sr_record_id = Some 1, sr_error = None\<rparr>"
  "fst (sim_staged 0x78) = Inr \<lparr>sr_staged = True, sr_accepted = True, sr_duplicate = False, sr_record_id = Some 1, sr_error = None\<rparr>"
  by code_simp+

lemma staging_outcome_witness:
  "\<exists>s sv'. stage_mqtt_payload sim_config sim_decoders 5 [0x61] (Some ''t'') (Some ''k'') False sim_service = (Inr s, sv')
     \<and> sr_staged s \<and> (\<exists>x \<in> set (sp_rows (sv_spool sv')). sw_payload x = [0x61]) \<and> service_ok sv'"
proof -
  obtain r sv' where run: "stage_mqtt_payload sim_config sim_decoders 5 [0x61] (Some ''t'') (Some ''k'') False sim_service = (r, sv')"
    by fastforce
  with sim_staged_result(1) have r: "r = Inr \<lparr>sr_staged = True, sr_accepted = True, sr_duplicate = False, sr_record_id = Some 1, sr_error = None\<rparr>"
    by (simp add: sim_staged_def)
  from staging_outcome [OF sim_service_ok(1) run] r run show ?thesis by (auto simp: staged_row_def)
qed

lemma staged_never_lost_witness:
  "\<exists>p dl sv1. durable_iteration sim_config sim_decoders sim_callbacks 9 1 (snd (sim_staged 0x61)) = (p, dl, sv1)
     \<and> (\<exists>x \<in> set (sp_rows (sv_spool (snd (sim_staged 0x61)))).
          staged_row sim_config sim_decoders [0x61] (Some ''t'') (Some ''k'')
            \<lparr>sr_staged = True, sr_accepted = True, sr_duplicate = False, sr_record_id = Some 1, sr_error = None\<rparr> x
        \<and> ((\<exists>y \<in> set (sp_rows (sv_spool sv1)). core y = core x) \<or> stored_row sim_config sim_decoders x (sv_db sv1)))"
proof -
  obtain s sv where st: "stage_mqtt_payload sim_config sim_decoders 5 [0x61] (Some ''t'') (Some ''k'') False sim_service = (s, sv)"
    by fastforce
  with sim_staged_result(1) have s: "s = Inr \<lparr>sr_staged = True, sr_accepted = True, sr_duplicate = False, sr_record_id = Some 1, sr_error = None\<rparr>"
    and sv: "snd (sim_staged 0x61) = sv" by (simp_all add: sim_staged_def)
  obtain p dl sv1 where it: "durable_iteration sim_config sim_decoders sim_callbacks 9 1 sv = (p, dl, sv1)" by (metis prod_cases3)
  have reach: "pipeline_reaches sim_config sim_decoders sv sv1" using it by (intro there [OF here] working)
  with staged_never_lost [OF sim_service_ok(1) st [unfolded s] _ reach] it sv show ?thesis by auto
qed

lemma sim_staged_ok: "service_ok (snd (sim_staged b))"
proof -
  obtain s sv where st: "stage_mqtt_payload sim_config sim_decoders 5 [b] (Some ''t'') (Some ''k'') False sim_service = (s, sv)"
    by fastforce
  then have "pipeline_reaches sim_config sim_decoders sim_service sv" by (intro there [OF here] staging)
  from pipeline_keeps [OF this sim_service_ok(1)] st show ?thesis by (simp add: sim_staged_def)
qed

lemma pipeline_invariant_witness:
  "within_capacity (sv_spool (snd (sim_staged 0x61))) \<and> service_ok (snd (sim_staged 0x61))"
proof -
  obtain s sv where st: "stage_mqtt_payload sim_config sim_decoders 5 [0x61] (Some ''t'') (Some ''k'') False sim_service = (s, sv)"
    by fastforce
  then have "pipeline_reaches sim_config sim_decoders sim_service sv" by (intro there [OF here] staging)
  from pipeline_invariant [OF sim_service_ok this] st show ?thesis by (simp add: sim_staged_def)
qed

lemma sim_calm: "calm (snd (sim_staged b)) = True" if "b = 0x61 \<or> b = 0x78" for b
  using that by (elim disjE; hypsubst; code_simp)

lemma backlog_drained_witness:
  "pending_rows (run_durable sim_config sim_decoders (replicate 2 (9, sim_callbacks)) 1 (snd (sim_staged 0x61))) = []
   \<and> length (pending_rows (snd (sim_staged 0x61))) = 1"
proof -
  have ok: "service_ok (snd (sim_staged 0x61))" by (rule sim_staged_ok)
  have n: "length (pending_rows (snd (sim_staged 0x61))) = 1" by code_simp
  have "\<forall>r \<in> set (pending_rows (snd (sim_staged 0x61))). settles sim_decoders (db_dialect (sv_db (snd (sim_staged 0x61)))) sim_callbacks r"
    by code_simp
  from backlog_drained [OF ok _ this, of 2 sim_config 9 1] n sim_calm [of "0x61"] show ?thesis by simp
qed

lemma poison_blocks_witness:
  "\<exists>r. List.find is_pending (sp_rows (sv_spool (snd (sim_staged 0x78)))) = Some r
    \<and> list_all2 retried (sp_rows (sv_spool (snd (sim_staged 0x78))))
        (sp_rows (sv_spool (run_durable sim_config sim_decoders (replicate 3 (9, sim_callbacks)) 1 (snd (sim_staged 0x78)))))"
proof -
  obtain s sv where st: "stage_mqtt_payload sim_config sim_decoders 5 [0x78] (Some ''t'') (Some ''k'') False sim_service = (s, sv)"
    by fastforce
  have sv: "snd (sim_staged 0x78) = sv" using st by (simp add: sim_staged_def)
  have "pipeline_reaches sim_config sim_decoders sim_service sv" using st by (intro there [OF here] staging)
  with pipeline_keeps [OF _ sim_service_ok(1)] have ok: "service_ok sv" by blast
  define r where "r = hd (sp_rows (sv_spool sv))"
  have first: "List.find is_pending (sp_rows (sv_spool sv)) = Some r"
  proof -
    have "map is_pending (sp_rows (sv_spool (snd (sim_staged 0x78)))) = [True]" by code_simp
    then show ?thesis using sv by (auto simp: r_def)
  qed
  have w: "work_from_spool sim_decoders (hd (sp_rows (sv_spool (snd (sim_staged 0x78)))))
      = Inr (TelemetryWork sim_event [(''stale_after_seconds'', JInt (2 ^ 1024))] [0x78] (Some ''t'') 5)" by code_simp
  have new: "\<not> has_event (te_event_id sim_event) (sv_db sv)"
    using staging_cases [OF sim_service_ok(1) st] by (simp add: has_event_def sim_service_def sim_db_def)
  have auth: "\<forall>(now, ca) \<in> set (replicate 3 (9, sim_callbacks)). ca_authorize ca = None" by (simp add: sim_callbacks_def)
  from poison_blocks [OF ok first w [unfolded sv, folded r_def] _ _ new auth, of "2 ^ 1024" sim_config 1] first show ?thesis
    by (simp add: sv)
qed

end
