(* ===== verification/NodeTopics.thy ===== *)
theory NodeTopics
  imports PyStr
begin

text \<open>
  \<open>services/telemetry-service/app/nodes/domain.py\<close>: node identifiers, the MQTT namespace of a node, the life
  cycle of a node and the classification of its clock. \<open>NodeDomainError\<close> is a \<open>ValueError\<close>. The secrets and
  digests of the module (\<open>secrets\<close>, \<open>hashlib\<close>) are not modelled.
\<close>

section \<open>Enumerations\<close>

datatype node_state = NodePending | NodeActive | NodeSuspended | NodeRevoked
datatype clock_status = ClockUnknown | ClockOk | ClockWarning | ClockCritical
datatype topic_stream = StreamTelemetry | StreamHealth | StreamEvents | StreamStatus

fun state_value :: "node_state \<Rightarrow> string" where
  "state_value NodePending = ''pending''"
| "state_value NodeActive = ''active''"
| "state_value NodeSuspended = ''suspended''"
| "state_value NodeRevoked = ''revoked''"

fun stream_value :: "topic_stream \<Rightarrow> string" where
  "stream_value StreamTelemetry = ''telemetry''"
| "stream_value StreamHealth = ''health''"
| "stream_value StreamEvents = ''events''"
| "stream_value StreamStatus = ''status''"

definition stream_of :: "string \<Rightarrow> topic_stream option" where
  "stream_of s = List.find (\<lambda>x. stream_value x = s) [StreamTelemetry, StreamHealth, StreamEvents, StreamStatus]"

definition state_of :: "string \<Rightarrow> node_state option" where
  "state_of s = List.find (\<lambda>x. state_value x = s) [NodePending, NodeActive, NodeSuspended, NodeRevoked]"

section \<open>Validation\<close>

definition required_text :: "string \<Rightarrow> string \<Rightarrow> nat \<Rightarrow> string result" where
  "required_text v field max_length = (let n = strip v in
     if n = [] then Inl (NodeDomainError (field @ '' is required''))
     else if max_length < length n then
       Inl (NodeDomainError (field @ '' exceeds '' @ dec (int max_length) @ '' characters''))
     else Inr n)"

text \<open>The regular expression \<open>^[a-z0-9](?:[a-z0-9-]{0,62}[a-z0-9])?$\<close>, matched fully.\<close>

definition node_char :: "char \<Rightarrow> bool" where
  "node_char c = (let n = of_char c :: nat in 97 \<le> n \<and> n \<le> 122 \<or> 48 \<le> n \<and> n \<le> 57)"

definition node_id_pattern :: "string \<Rightarrow> bool" where
  "node_id_pattern s = (case s of
       [] \<Rightarrow> False
     | [c] \<Rightarrow> node_char c
     | c # cs \<Rightarrow> node_char c \<and> node_char (last cs) \<and> length (butlast cs) \<le> 62
         \<and> (\<forall>x \<in> set (butlast cs). node_char x \<or> x = CHR ''-''))"

definition normalize_node_id :: "string \<Rightarrow> string result" where
  "normalize_node_id v = (let n = lower (strip v) in
     if node_id_pattern n then Inr n
     else Inl (NodeDomainError ''node_id must use lowercase letters, digits and internal hyphens (1..64 characters)''))"

definition validate_clock_thresholds :: "int \<Rightarrow> int \<Rightarrow> unit result" where
  "validate_clock_thresholds warning_ms critical_ms =
     (if warning_ms \<le> 0 then Inl (NodeDomainError ''clock_warning_ms must be positive'')
      else if critical_ms \<le> warning_ms then
        Inl (NodeDomainError ''clock_critical_ms must be greater than clock_warning_ms'')
      else Inr ())"

definition classify_clock_offset :: "int option \<Rightarrow> int \<Rightarrow> int \<Rightarrow> clock_status result" where
  "classify_clock_offset offset_ms warning_ms critical_ms =
     ebind (validate_clock_thresholds warning_ms critical_ms) (\<lambda>_. Inr (
       case offset_ms of
         None \<Rightarrow> ClockUnknown
       | Some v \<Rightarrow> if \<bar>v\<bar> < warning_ms then ClockOk
                   else if \<bar>v\<bar> < critical_ms then ClockWarning else ClockCritical))"

text \<open>\<open>__post_init__\<close> of the two commands.\<close>

definition check_provision :: "string \<Rightarrow> string \<Rightarrow> string \<Rightarrow> string \<Rightarrow> int \<Rightarrow> int \<Rightarrow> unit result" where
  "check_provision node_id display_name idempotency_key actor_subject warning_ms critical_ms =
     ebind (normalize_node_id node_id) (\<lambda>_. ebind (required_text display_name ''display_name'' 255) (\<lambda>_.
     ebind (required_text idempotency_key ''idempotency_key'' 128) (\<lambda>_. ebind (required_text actor_subject ''actor_subject'' 255) (\<lambda>_.
       validate_clock_thresholds warning_ms critical_ms))))"

definition check_rotation :: "string \<Rightarrow> string \<Rightarrow> string \<Rightarrow> string \<Rightarrow> unit result" where
  "check_rotation node_id idempotency_key actor_subject reason =
     ebind (normalize_node_id node_id) (\<lambda>_. ebind (required_text idempotency_key ''idempotency_key'' 128) (\<lambda>_.
     ebind (required_text actor_subject ''actor_subject'' 255) (\<lambda>_. ebind (required_text reason ''reason'' 1024) (\<lambda>_. Inr ()))))"

section \<open>Topics\<close>

record parsed_topic =
  pt_organization_id :: string
  pt_node_id :: string
  pt_stream :: topic_stream

definition build_node_topic :: "string \<Rightarrow> string \<Rightarrow> topic_stream \<Rightarrow> string result" where
  "build_node_topic organization_id node_id stream =
     ebind (required_text organization_id ''organization_id'' 64) (\<lambda>organization.
     ebind (normalize_node_id node_id) (\<lambda>node.
       Inr (''nexolab/v1/'' @ organization @ ''/'' @ node @ ''/'' @ stream_value stream)))"

definition parse_node_topic :: "string \<Rightarrow> parsed_topic result" where
  "parse_node_topic topic =
     ebind (required_text topic ''topic'' 256) (\<lambda>normalized.
       if CHR ''+'' \<in> set normalized \<or> CHR ''#'' \<in> set normalized then
         Inl (NodeTopicAuthorizationError ''wildcards are not allowed in published node topics'')
       else case split_on (CHR ''/'') normalized of
         [a, b, c, d, e] \<Rightarrow>
           if a \<noteq> ''nexolab'' \<or> b \<noteq> ''v1'' then
             Inl (NodeTopicAuthorizationError ''node topic must match nexolab/v1/{organization}/{node}/{stream}'')
           else ebind (required_text c ''organization_id'' 64) (\<lambda>organization.
             ebind (normalize_node_id d) (\<lambda>node.
               case stream_of e of
                 None \<Rightarrow> Inl (NodeTopicAuthorizationError ''unsupported node MQTT stream'')
               | Some s \<Rightarrow> Inr \<lparr>pt_organization_id = organization, pt_node_id = node, pt_stream = s\<rparr>))
       | _ \<Rightarrow> Inl (NodeTopicAuthorizationError ''node topic must match nexolab/v1/{organization}/{node}/{stream}''))"

definition authorize_node_topic :: "string \<Rightarrow> string \<Rightarrow> string \<Rightarrow> topic_stream result" where
  "authorize_node_topic organization_id node_id topic =
     ebind (parse_node_topic topic) (\<lambda>parsed.
     ebind (required_text organization_id ''organization_id'' 64) (\<lambda>organization.
       if pt_organization_id parsed \<noteq> organization then
         Inl (NodeTopicAuthorizationError ''node may publish only to its own exact MQTT namespace'')
       else ebind (normalize_node_id node_id) (\<lambda>node.
         if pt_node_id parsed \<noteq> node then
           Inl (NodeTopicAuthorizationError ''node may publish only to its own exact MQTT namespace'')
         else Inr (pt_stream parsed))))"

section \<open>Life cycle\<close>

fun allowed_transitions :: "node_state \<Rightarrow> node_state set" where
  "allowed_transitions NodePending = {NodeActive, NodeRevoked}"
| "allowed_transitions NodeActive = {NodeSuspended, NodeRevoked}"
| "allowed_transitions NodeSuspended = {NodeActive, NodeRevoked}"
| "allowed_transitions NodeRevoked = {}"

definition transition_node_state :: "node_state \<Rightarrow> node_state \<Rightarrow> node_state result" where
  "transition_node_state source destination =
     (if destination \<notin> allowed_transitions source then
        Inl (NodeStateTransitionError (''cannot transition node from '' @ state_value source @ '' to '' @ state_value destination))
      else Inr destination)"

section \<open>Lemmas\<close>

lemma stream_of_value [simp]: "stream_of (stream_value s) = Some s"
  by (cases s) (simp_all add: stream_of_def)

lemma stream_of_Some: "stream_of v = Some s \<Longrightarrow> v = stream_value s"
  by (auto simp: stream_of_def split: if_splits)

lemma strip_ends: "s \<noteq> [] \<Longrightarrow> \<not> is_space (hd s) \<Longrightarrow> \<not> is_space (last s) \<Longrightarrow> strip s = s"
proof -
  assume s: "s \<noteq> []" "\<not> is_space (hd s)" "\<not> is_space (last s)"
  then have "dropWhile is_space s = s" by (cases s) auto
  moreover have "dropWhile is_space (rev s) = rev s" using s(1,3) by (cases "rev s") (auto simp: last_rev [symmetric] hd_rev)
  ultimately show ?thesis by (simp add: strip_def lstrip_def rstrip_def)
qed

lemma rstrip_last: "rstrip s \<noteq> [] \<Longrightarrow> \<not> is_space (last (rstrip s))"
  by (auto simp: rstrip_def last_rev hd_dropWhile)

lemma rstrip_hd: "rstrip s \<noteq> [] \<Longrightarrow> hd (rstrip s) = hd s"
proof -
  assume n: "rstrip s \<noteq> []"
  obtain t where "s = rstrip s @ t"
    unfolding rstrip_def by (metis rev_append rev_rev_ident takeWhile_dropWhile_id)
  with n show ?thesis by (metis hd_append2)
qed

lemma strip_bounds: "strip s \<noteq> [] \<Longrightarrow> \<not> is_space (hd (strip s)) \<and> \<not> is_space (last (strip s))"
proof -
  assume n: "strip s \<noteq> []"
  have "lstrip s \<noteq> []" using n by (auto simp: strip_def rstrip_def)
  then have "\<not> is_space (hd (lstrip s))" by (simp add: lstrip_def hd_dropWhile)
  with n show ?thesis by (simp add: strip_def rstrip_hd rstrip_last)
qed

lemma strip_Nil [simp]: "strip [] = []"
  by (simp add: strip_def lstrip_def rstrip_def)

lemma strip_idem [simp]: "strip (strip s) = strip s"
  using strip_bounds [of s] strip_ends [of "strip s"] by (cases "strip s = []") simp_all

lemma required_text_Inr: "required_text v f n = Inr t \<longleftrightarrow> t = strip v \<and> strip v \<noteq> [] \<and> length (strip v) \<le> n"
  by (auto simp: required_text_def Let_def)

lemma split_on_simple: "c \<notin> set s \<Longrightarrow> split_on c s = [s]"
  by (induction s) auto

lemma split_on_length: "length (split_on c s) = Suc (count_list s c)"
  by (induction s) (auto split: list.splits)

lemma list_longer_than_five: "5 < length xs \<Longrightarrow> \<exists>a b c d e f rest. xs = a # b # c # d # e # f # rest"
  by (auto simp: less_eq_Suc_le numeral_eq_Suc Suc_le_length_iff)

lemma split_on_append: "c \<notin> set s \<Longrightarrow> split_on c (s @ c # t) = s # split_on c t"
proof (induction s)
  case Nil
  obtain p ps where "split_on c t = p # ps" using split_on_length [of c t] by (cases "split_on c t") auto
  then show ?case by simp
next
  case (Cons x s)
  then show ?case by auto
qed

text \<open>What a node id looks like.\<close>

lemma pattern_chars: "node_id_pattern s \<Longrightarrow> s \<noteq> [] \<and> length s \<le> 64 \<and> (\<forall>x \<in> set s. node_char x \<or> x = CHR ''-'')
    \<and> node_char (hd s) \<and> node_char (last s)"
proof -
  assume p: "node_id_pattern s"
  then obtain c cs where s: "s = c # cs" by (auto simp: node_id_pattern_def split: list.splits)
  show ?thesis
  proof (cases cs)
    case Nil
    with p s show ?thesis by (simp add: node_id_pattern_def)
  next
    case (Cons d ds)
    have "set cs = insert (last cs) (set (butlast cs))" using Cons by (metis append_butlast_last_id list.distinct(1) list.simps(15) rotate1.simps(2) set_rotate1)
    moreover have "length cs = Suc (length (butlast cs))" using Cons by simp
    moreover have "node_char c \<and> node_char (last cs) \<and> length (butlast cs) \<le> 62 \<and> (\<forall>x \<in> set (butlast cs). node_char x \<or> x = CHR ''-'')"
      using p s Cons by (simp add: node_id_pattern_def)
    ultimately show ?thesis using s Cons by auto
  qed
qed

lemma node_char_facts: "node_char c \<Longrightarrow> \<not> is_space c \<and> c \<noteq> CHR ''/'' \<and> c \<noteq> CHR ''+'' \<and> c \<noteq> CHR ''#'' \<and> lower_char c = c"
  by (auto simp: node_char_def is_space_def lower_char_def Let_def)

lemma normalize_Inr: "normalize_node_id v = Inr n \<longleftrightarrow> n = lower (strip v) \<and> node_id_pattern n"
proof -
  have "normalize_node_id v = (if node_id_pattern (lower (strip v)) then Inr (lower (strip v))
      else Inl (NodeDomainError ''node_id must use lowercase letters, digits and internal hyphens (1..64 characters)''))"
    by (simp add: normalize_node_id_def Let_def)
  then show ?thesis by (metis Inl_Inr_False sum.inject(2))
qed

lemma normalize_idem: "normalize_node_id v = Inr n \<Longrightarrow> normalize_node_id n = Inr n"
proof -
  assume "normalize_node_id v = Inr n"
  then have p: "node_id_pattern n" using normalize_Inr by blast
  note c = pattern_chars [OF p]
  then have "strip n = n" using node_char_facts by (intro strip_ends) auto
  moreover have "lower_char x = x" if "x \<in> set n" for x
  proof (cases "x = CHR ''-''")
    case False
    with c that have "node_char x" by blast
    then show ?thesis using node_char_facts by blast
  qed (simp add: lower_char_def)
  moreover from this have "lower n = n" unfolding lower_def by (intro map_idI)
  ultimately show ?thesis using p by (simp add: normalize_Inr)
qed

lemma parse_extra_slash:
  assumes "required_text topic ''topic'' 256 = Inr topic" and "4 < count_list topic (CHR ''/'')"
  shows "\<exists>m. parse_node_topic topic = Inl (NodeTopicAuthorizationError m)"
proof (cases "CHR ''+'' \<in> set topic \<or> CHR ''#'' \<in> set topic")
  case True
  with assms(1) show ?thesis by (auto simp: parse_node_topic_def)
next
  case False
  have "length (split_on (CHR ''/'') topic) > 5" using assms(2) by (simp only: split_on_length)
  then obtain a b c d e f rest where "split_on (CHR ''/'') topic = a # b # c # d # e # f # rest"
    by (metis list_longer_than_five)
  with False assms(1) show ?thesis by (simp add: parse_node_topic_def)
qed

lemma stream_value_chars:
  "stream_value s \<noteq> []" "\<not> is_space (last (stream_value s))" "length (stream_value s) \<le> 9"
  "CHR ''/'' \<notin> set (stream_value s) \<and> CHR ''+'' \<notin> set (stream_value s) \<and> CHR ''#'' \<notin> set (stream_value s)"
  by (cases s; simp add: is_space_def)+

text \<open>C23: A node topic survives the round trip: the topic built for an organization without slash or wildcard, a
  valid node and a stream is parsed back to the trimmed organization, the normalized node and that stream, and the
  node is authorized on it; an organization with a slash or a wildcard is accepted by the builder, but the topic
  it builds is refused by the parser.\<close>

theorem node_topic_roundtrip:
  assumes "build_node_topic org node s = Inr topic"
  shows "if CHR ''/'' \<notin> set (strip org) \<and> CHR ''+'' \<notin> set (strip org) \<and> CHR ''#'' \<notin> set (strip org)
     then parse_node_topic topic = Inr \<lparr>pt_organization_id = strip org, pt_node_id = lower (strip node), pt_stream = s\<rparr>
        \<and> authorize_node_topic org node topic = Inr s
     else \<exists>m. parse_node_topic topic = Inl (NodeTopicAuthorizationError m)"
proof -
  let ?o = "strip org" and ?n = "lower (strip node)"
  from assms have o: "?o \<noteq> []" "length ?o \<le> 64" and n: "node_id_pattern ?n"
    and t: "topic = ''nexolab/v1/'' @ ?o @ ''/'' @ ?n @ ''/'' @ stream_value s"
    by (auto simp: build_node_topic_def ebind_eq_Inr required_text_Inr normalize_Inr)
  note nc = pattern_chars [OF n]
  note sv = stream_value_chars [of s]
  have "strip topic = topic" using sv(1,2) by (intro strip_ends) (auto simp: t is_space_def)
  moreover have "length topic \<le> 256" using o(2) nc sv(3) by (simp add: t)
  ultimately have req: "required_text topic ''topic'' 256 = Inr topic" by (simp add: required_text_Inr t)
  have nset: "CHR ''/'' \<notin> set ?n \<and> CHR ''+'' \<notin> set ?n \<and> CHR ''#'' \<notin> set ?n" using nc node_char_facts by fastforce
  have parts: "split_on (CHR ''/'') topic = [''nexolab'', ''v1'', ?o, ?n, stream_value s]" if "CHR ''/'' \<notin> set ?o"
    using split_on_append [of "CHR ''/''" "''nexolab''" "''v1/'' @ ?o @ ''/'' @ ?n @ ''/'' @ stream_value s"]
      split_on_append [of "CHR ''/''" "''v1''" "?o @ ''/'' @ ?n @ ''/'' @ stream_value s"]
      split_on_append [of "CHR ''/''" ?o "?n @ ''/'' @ stream_value s"] split_on_append [of "CHR ''/''" ?n "stream_value s"]
      split_on_simple [of "CHR ''/''" "stream_value s"] that nset sv(4)
    by (simp add: t)
  have wild: "(CHR ''+'' \<in> set topic \<or> CHR ''#'' \<in> set topic) = (CHR ''+'' \<in> set ?o \<or> CHR ''#'' \<in> set ?o)"
    using nset sv(4) by (auto simp: t)
  have norm: "normalize_node_id ?n = Inr ?n" using normalize_idem [of node ?n] n by (simp add: normalize_Inr)
  show ?thesis
  proof (cases "CHR ''/'' \<in> set ?o \<or> CHR ''+'' \<in> set ?o \<or> CHR ''#'' \<in> set ?o")
    case False
    then have "parse_node_topic topic = Inr \<lparr>pt_organization_id = ?o, pt_node_id = ?n, pt_stream = s\<rparr>"
      using parts wild req norm o by (simp add: parse_node_topic_def required_text_def Let_def)
    moreover have "normalize_node_id node = Inr ?n" using n by (simp add: normalize_Inr)
    ultimately show ?thesis using False o by (simp add: authorize_node_topic_def required_text_def Let_def)
  next
    case True
    have "\<exists>m. parse_node_topic topic = Inl (NodeTopicAuthorizationError m)"
    proof (cases "CHR ''+'' \<in> set topic \<or> CHR ''#'' \<in> set topic")
      case True
      then show ?thesis by (auto simp: parse_node_topic_def req)
    next
      case False
      with True wild have "CHR ''/'' \<in> set ?o" by simp
      then have "count_list ?o (CHR ''/'') \<noteq> 0" by (simp add: count_list_0_iff)
      then show ?thesis by (intro parse_extra_slash [OF req]) (simp add: t)
    qed
    with True show ?thesis by auto
  qed
qed

lemma node_topic_roundtrip_witness:
  "parse_node_topic ''nexolab/v1/lab/edge-1/health'' = Inr \<lparr>pt_organization_id = ''lab'', pt_node_id = ''edge-1'', pt_stream = StreamHealth\<rparr>"
proof -
  have "build_node_topic '' lab'' ''EDGE-1 '' StreamHealth = Inr ''nexolab/v1/lab/edge-1/health''" by code_simp
  moreover have "strip '' lab'' = ''lab''" "lower (strip ''EDGE-1 '') = ''edge-1''" by code_simp+
  ultimately show ?thesis using node_topic_roundtrip [of "'' lab''" "''EDGE-1 ''" StreamHealth "''nexolab/v1/lab/edge-1/health''"] by simp
qed

text \<open>A topic belongs to one node: when two nodes are authorized on the same topic, their normalized organization,
  node id and the stream are the same, and the topic has no wildcard.\<close>

theorem topic_owner_unique:
  assumes "authorize_node_topic org node topic = Inr s" and "authorize_node_topic org' node' topic = Inr s'"
  shows "strip org = strip org' \<and> lower (strip node) = lower (strip node') \<and> s = s'
    \<and> CHR ''+'' \<notin> set (strip topic) \<and> CHR ''#'' \<notin> set (strip topic)"
proof -
  from assms obtain p where p: "parse_node_topic topic = Inr p" by (auto simp: authorize_node_topic_def ebind_eq_Inr)
  have "pt_organization_id p = strip o1 \<and> pt_node_id p = lower (strip n1) \<and> pt_stream p = s1"
    if "authorize_node_topic o1 n1 topic = Inr s1" for o1 n1 s1
    using that p by (auto simp: authorize_node_topic_def ebind_eq_Inr required_text_Inr normalize_Inr split: if_splits)
  moreover from p have "CHR ''+'' \<notin> set (strip topic) \<and> CHR ''#'' \<notin> set (strip topic)"
    by (auto simp: parse_node_topic_def ebind_eq_Inr required_text_Inr split: if_splits)
  ultimately show ?thesis using assms by metis
qed

lemma topic_owner_unique_witness:
  "lower (strip ''EDGE-1'') = lower (strip ''edge-1'') \<and> CHR ''#'' \<notin> set (strip ''nexolab/v1/lab/edge-1/health'')"
proof -
  have "authorize_node_topic ''lab'' ''EDGE-1'' ''nexolab/v1/lab/edge-1/health'' = Inr StreamHealth"
    "authorize_node_topic ''lab'' ''edge-1'' ''nexolab/v1/lab/edge-1/health'' = Inr StreamHealth" by code_simp+
  from topic_owner_unique [OF this] show ?thesis by simp
qed

text \<open>A revoked node never changes state again, and every other state can be revoked.\<close>

lemma revoked_final: "transition_node_state NodeRevoked t = Inr u \<Longrightarrow> False"
  by (simp add: transition_node_state_def)

lemma revocable: "s \<noteq> NodeRevoked \<Longrightarrow> transition_node_state s NodeRevoked = Inr NodeRevoked"
  by (cases s) (simp_all add: transition_node_state_def)

end
