(* ===== verification/MqttConsumer.thy ===== *)
theory MqttConsumer
  imports Pipeline NodeTopics
begin

text \<open>
  The message handling of \<open>services/telemetry-service/app/mqtt_consumer.py\<close> in the durable configuration, where
  \<open>_manual_ack\<close> is true: a telemetry message is staged until the spool takes it and only then acknowledged. The MQTT client, SHA-256
  and the ingestor of the health and status streams are parameters. A round of the staging loop is given by the
  state of the stop event at its beginning, the clock, and whether the wait at its end was cut short by it.
\<close>

section \<open>State\<close>

record mqtt_message =
  mq_payload :: "byte list"
  mq_topic :: string
  mq_mid :: int
  mq_qos :: int

record consumer_config =
  cc_client_id :: string
  cc_node_registry_enforced :: bool
  cc_ingest :: ingest_config

record consumer =
  co_service :: service
  co_acks :: "(int \<times> int) list"

type_synonym round = "bool \<times> instant \<times> bool"

text \<open>The library calls of one message: the digest, the result of \<open>client.ack\<close>, the answer of the node stream
  ingestor (\<open>None\<close> when there is none).\<close>

record mqtt_calls =
  mc_sha256 :: "byte list \<Rightarrow> string"
  mc_ack_result :: int
  mc_submit :: "(mqtt_message \<Rightarrow> service \<Rightarrow> bool result \<times> service) option"

abbreviation on_runtime :: "(runtime \<Rightarrow> runtime) \<Rightarrow> consumer \<Rightarrow> consumer" where
  "on_runtime f c \<equiv> c\<lparr>co_service := on_state f (co_service c)\<rparr>"

section \<open>Handlers\<close>

definition ack_message :: "consumer_config \<Rightarrow> mqtt_calls \<Rightarrow> mqtt_message \<Rightarrow> consumer \<Rightarrow> consumer" where
  "ack_message cc mc m c =
     (if mq_qos m = 0 then c
      else let c1 = c\<lparr>co_acks := co_acks c @ [(mq_mid m, mq_qos m)]\<rparr> in
        if mc_ack_result mc = 0 then
          on_runtime (\<lambda>st. set_mqtt_error None (increment mqtt_manual_ack_total st)) c1
        else on_runtime (\<lambda>st. set_mqtt_error (Some (''manual MQTT acknowledgement failed for '' @ dec (mq_mid m) @ '': ''
               @ dec (mc_ack_result mc))) (increment mqtt_ack_failure_total st)) c1)"

definition delivery_key :: "consumer_config \<Rightarrow> mqtt_calls \<Rightarrow> mqtt_message \<Rightarrow> string" where
  "delivery_key cc mc m = cc_client_id cc @ '':'' @ mq_topic m @ '':'' @ dec (mq_mid m) @ '':'' @ dec (mq_qos m)
     @ '':'' @ mc_sha256 mc (mq_payload m)"

text \<open>The loop of \<open>_ingest_telemetry_message\<close>; \<open>None\<close> when it is still trying after the given rounds. Its
  pauses are the delays it returns.\<close>

fun staging_loop ::
  "consumer_config \<Rightarrow> mqtt_calls \<Rightarrow> decoders \<Rightarrow> mqtt_message \<Rightarrow> round list \<Rightarrow> pyfloat \<Rightarrow> bool \<Rightarrow> consumer
    \<Rightarrow> (unit result \<times> pyfloat list \<times> consumer) option" where
  "staging_loop cc mc dc m [] delay is_retry c = None"
| "staging_loop cc mc dc m ((stopped, now, interrupted) # rounds) delay is_retry c =
     (if stopped then Some (Inr (), [], c)
      else case stage_mqtt_payload (cc_ingest cc) dc now (mq_payload m) (Some (mq_topic m)) (Some (delivery_key cc mc m))
                  is_retry (co_service c) of
        (Inl e, sv) \<Rightarrow> Some (Inl e, [], c\<lparr>co_service := sv\<rparr>)
      | (Inr s, sv) \<Rightarrow>
          if sr_staged s then Some (Inr (), [], ack_message cc mc m (c\<lparr>co_service := sv\<rparr>))
          else let c1 = on_runtime (\<lambda>st. set_mqtt_error (or_text (sr_error s) (Some ''MQTT payload was not durably staged''))
                   (increment mqtt_stage_retry_total st)) (c\<lparr>co_service := sv\<rparr>)
               in if interrupted then Some (Inr (), [delay], c1)
                  else map_option (\<lambda>(r, ds, c2). (r, delay # ds, c2))
                    (staging_loop cc mc dc m rounds (doubled (cc_ingest cc) delay) True c1))"

definition ingest_telemetry_message ::
  "consumer_config \<Rightarrow> mqtt_calls \<Rightarrow> decoders \<Rightarrow> mqtt_message \<Rightarrow> round list \<Rightarrow> consumer \<Rightarrow> (unit result \<times> pyfloat list \<times> consumer) option" where
  "ingest_telemetry_message cc mc dc m rounds c = staging_loop cc mc dc m rounds (ig_retry_initial (cc_ingest cc)) False c"

definition on_message ::
  "consumer_config \<Rightarrow> mqtt_calls \<Rightarrow> decoders \<Rightarrow> mqtt_message \<Rightarrow> round list \<Rightarrow> consumer \<Rightarrow> (unit result \<times> pyfloat list \<times> consumer) option" where
  "on_message cc mc dc m rounds c =
     (if \<not> cc_node_registry_enforced cc then ingest_telemetry_message cc mc dc m rounds c
      else case parse_node_topic (mq_topic m) of
        Inl e \<Rightarrow> if is_value_error e then ingest_telemetry_message cc mc dc m rounds c else Some (Inl e, [], c)
      | Inr p \<Rightarrow>
          if pt_stream p = StreamTelemetry then ingest_telemetry_message cc mc dc m rounds c
          else case mc_submit mc of
            Some submit \<Rightarrow>
              if pt_stream p \<in> {StreamHealth, StreamStatus} then
                (case submit m (co_service c) of
                   (Inl e, sv) \<Rightarrow> Some (Inl e, [], c\<lparr>co_service := sv\<rparr>)
                 | (Inr True, sv) \<Rightarrow> Some (Inr (), [], ack_message cc mc m (c\<lparr>co_service := sv\<rparr>))
                 | (Inr False, sv) \<Rightarrow> Some (Inr (), [], on_runtime (set_mqtt_error (Some (''node stream message ''
                      @ dec (mq_mid m) @ '' was not accepted''))) (c\<lparr>co_service := sv\<rparr>)))
              else Some (Inr (), [], c)
          | None \<Rightarrow> Some (Inr (), [], c))"

section \<open>Acknowledgement after staging\<close>

lemma ack_frame [simp]:
  "sv_spool (co_service (ack_message cc mc m c)) = sv_spool (co_service c)"
  "sv_db (co_service (ack_message cc mc m c)) = sv_db (co_service c)"
  by (simp_all add: ack_message_def Let_def)

lemma ack_ok: "service_ok (co_service c) \<Longrightarrow> service_ok (co_service (ack_message cc mc m c))"
  by (simp add: ack_message_def Let_def service_ok_def runtime_keeps)

lemma ack_acks: "co_acks (ack_message cc mc m c) = (if mq_qos m = 0 then co_acks c
    else co_acks c @ [(mq_mid m, mq_qos m)])"
  by (simp add: ack_message_def Let_def)

text \<open>The row staged for a message: it holds its payload under its delivery key.\<close>

definition holds_message :: "consumer_config \<Rightarrow> mqtt_calls \<Rightarrow> decoders \<Rightarrow> mqtt_message \<Rightarrow> spool_row \<Rightarrow> bool" where
  "holds_message cc mc dc m x \<longleftrightarrow> (\<exists>s. sr_staged s
     \<and> staged_row (cc_ingest cc) dc (mq_payload m) (Some (mq_topic m)) (Some (delivery_key cc mc m)) s x)"

lemma staging_loop_acks:
  "staging_loop cc mc dc m rounds delay is_retry c = Some (r, ds, c') \<Longrightarrow> service_ok (co_service c) \<Longrightarrow>
    service_ok (co_service c') \<and>
    (co_acks c' = co_acks c \<or> co_acks c' = co_acks c @ [(mq_mid m, mq_qos m)] \<and> r = Inr () \<and> mq_qos m \<noteq> 0
       \<and> (\<exists>x \<in> set (sp_rows (sv_spool (co_service c'))). holds_message cc mc dc m x))"
proof (induction rounds arbitrary: delay is_retry c r ds)
  case (Cons round rounds)
  obtain stopped now interrupted where round: "round = (stopped, now, interrupted)" by (cases round)
  show ?case
  proof (cases stopped)
    case True
    with Cons.prems round show ?thesis by auto
  next
    case False
    obtain x sv where st: "stage_mqtt_payload (cc_ingest cc) dc now (mq_payload m) (Some (mq_topic m)) (Some (delivery_key cc mc m))
        is_retry (co_service c) = (x, sv)" by fastforce
    note o = staging_cases [OF Cons.prems(2) st]
    show ?thesis
    proof (cases x)
      case (Inl e)
      with Cons.prems(1) round False st o show ?thesis by auto
    next
      case (Inr s)
      show ?thesis
      proof (cases "sr_staged s")
        case True
        have res: "r = Inr ()" "c' = ack_message cc mc m (c\<lparr>co_service := sv\<rparr>)"
          using Cons.prems(1) round False st Inr True by simp_all
        have "\<exists>x \<in> set (sp_rows (sv_spool sv)). holds_message cc mc dc m x"
          using o Inr True by (auto simp: holds_message_def split: if_splits)
        then show ?thesis using o ack_ok [of "c\<lparr>co_service := sv\<rparr>" cc mc m] by (simp add: res ack_acks)
      next
        case retry: False
        define c1 where "c1 = on_runtime (\<lambda>st. set_mqtt_error (or_text (sr_error s) (Some ''MQTT payload was not durably staged''))
                   (increment mqtt_stage_retry_total st)) (c\<lparr>co_service := sv\<rparr>)"
        have c1: "service_ok (co_service c1)" "co_acks c1 = co_acks c" using o by (auto simp: c1_def service_ok_def runtime_keeps)
        show ?thesis
        proof (cases interrupted)
          case True
          with Cons.prems(1) round False st Inr retry have "c' = c1" by (simp add: c1_def Let_def)
          with c1 show ?thesis by simp
        next
          case again: False
          with Cons.prems(1) round False st Inr retry obtain ds' where
            "staging_loop cc mc dc m rounds (doubled (cc_ingest cc) delay) True c1 = Some (r, ds', c')"
            by (auto simp: c1_def Let_def)
          from Cons.IH [OF this c1(1)] c1(2) show ?thesis by simp
        qed
      qed
    qed
  qed
qed simp

text \<open>C4: A telemetry message is acknowledged only when it is safe. If handling it returns with an acknowledgement
  sent, it is the one of this message, with a quality of service above 0, and the spool held the row staged for
  it: its payload, whole exactly when it is valid telemetry, under its event id and delivery key. From then on, through
  any arrivals, worker iterations, restarts and crashes with any faults, that row is in the spool or the database has
  it, the event its payload decodes to under this id or a dead letter with its bytes.\<close>

theorem acknowledged_is_safe:
  assumes "service_ok (co_service c)" and "ingest_telemetry_message cc mc dc m rounds c = Some (r, ds, c')"
    and "co_acks c' \<noteq> co_acks c" and "pipeline_reaches (cc_ingest cc) dc (co_service c') sv"
  shows "co_acks c' = co_acks c @ [(mq_mid m, mq_qos m)] \<and> 0 \<noteq> mq_qos m
    \<and> (\<exists>x \<in> set (sp_rows (sv_spool (co_service c'))). holds_message cc mc dc m x
        \<and> ((\<exists>y \<in> set (sp_rows (sv_spool sv)). core y = core x) \<or> stored_row (cc_ingest cc) dc x (sv_db sv)))"
proof -
  from staging_loop_acks [OF assms(2) [unfolded ingest_telemetry_message_def] assms(1)] assms(3) obtain x where
    a: "service_ok (co_service c')" "co_acks c' = co_acks c @ [(mq_mid m, mq_qos m)]" "mq_qos m \<noteq> 0"
      "x \<in> set (sp_rows (sv_spool (co_service c')))" "holds_message cc mc dc m x" by blast
  have "secured (cc_ingest cc) dc x (co_service c')" using a(4) by (auto simp: secured_def)
  with pipeline_keeps [OF assms(4) a(1), of x] have "secured (cc_ingest cc) dc x sv" by blast
  with a show ?thesis unfolding secured_def by metis
qed

definition sim_consumer :: consumer where
  "sim_consumer = \<lparr>co_service = sim_service\<lparr>sv_spool := empty_spool 8 100 [Failing ''disk I/O error'']\<rparr>, co_acks = []\<rparr>"

definition sim_consumer_config :: consumer_config where
  "sim_consumer_config = \<lparr>cc_client_id = ''svc'', cc_node_registry_enforced = True, cc_ingest = sim_config\<rparr>"

definition sim_calls :: mqtt_calls where
  "sim_calls = \<lparr>mc_sha256 = (\<lambda>_. ''d''), mc_ack_result = 0, mc_submit = None\<rparr>"

definition sim_message :: mqtt_message where
  "sim_message = \<lparr>mq_payload = [0x61], mq_topic = ''nexolab/v1/lab/edge-1/telemetry'', mq_mid = 7, mq_qos = 1\<rparr>"

lemma acknowledged_is_safe_witness:
  "\<exists>r ds c'. ingest_telemetry_message sim_consumer_config sim_calls sim_decoders sim_message
       [(False, 5, False), (False, 6, False)] sim_consumer = Some (r, ds, c') \<and> co_acks c' = [(7, 1)]
     \<and> (\<exists>x \<in> set (sp_rows (sv_spool (co_service c'))). holds_message sim_consumer_config sim_calls sim_decoders sim_message x)"
proof -
  let ?run = "ingest_telemetry_message sim_consumer_config sim_calls sim_decoders sim_message
       [(False, 5, False), (False, 6, False)] sim_consumer"
  have ack: "map_option (\<lambda>(r, ds, c'). co_acks c') ?run = Some [(7, 1)]" by code_simp
  then obtain r ds c' where run: "?run = Some (r, ds, c')" "co_acks c' = [(7, 1)]" by (auto simp: map_option_case split: option.splits)
  have ok: "service_ok (co_service sim_consumer)"
    using sim_service_ok(1) by (simp add: sim_consumer_def service_ok_def)
  from acknowledged_is_safe [OF ok run(1) _ here] run show ?thesis by (auto simp: sim_consumer_def)
qed

text \<open>Health and status messages are acknowledged on a weaker promise, and some messages never: with the node
  registry enforced, a message of the health or status stream is acknowledged exactly when the stream ingestor
  returned true, a refused one only sets the error, so the broker keeps it, and a message of the events stream
  is never acknowledged and changes nothing.\<close>

theorem stream_messages_acknowledged:
  assumes "cc_node_registry_enforced cc" and "parse_node_topic (mq_topic m) = Inr p" and "pt_stream p \<noteq> StreamTelemetry"
    and "mc_submit mc = Some submit" and "submit m (co_service c) = (x, sv)"
  shows "\<exists>r c'. on_message cc mc dc m rounds c = Some (r, [], c')
    \<and> (if pt_stream p = StreamEvents then r = Inr () \<and> c' = c
       else case x of
         Inl e \<Rightarrow> r = Inl e \<and> co_acks c' = co_acks c
       | Inr accepted \<Rightarrow> r = Inr () \<and> co_acks c' = (if accepted \<and> mq_qos m \<noteq> 0 then co_acks c @ [(mq_mid m, mq_qos m)] else co_acks c)
           \<and> (\<not> accepted \<longrightarrow> rs_mqtt_error (sv_state (co_service c')) = Some (''node stream message '' @ dec (mq_mid m) @ '' was not accepted'')))"
  using assms
  by (cases "pt_stream p") (auto simp: on_message_def ack_acks set_mqtt_error_def refresh_last_error_def split: sum.splits bool.splits)

lemma stream_messages_acknowledged_witness:
  "\<exists>r c'. on_message sim_consumer_config (sim_calls\<lparr>mc_submit := Some (\<lambda>m sv. (Inr False, sv))\<rparr>) sim_decoders
      (sim_message\<lparr>mq_topic := ''nexolab/v1/lab/edge-1/health''\<rparr>) [] sim_consumer = Some (r, [], c') \<and> co_acks c' = []"
proof -
  let ?m = "sim_message\<lparr>mq_topic := ''nexolab/v1/lab/edge-1/health''\<rparr>"
  let ?mc = "sim_calls\<lparr>mc_submit := Some (\<lambda>m sv. (Inr False, sv))\<rparr>"
  have p: "parse_node_topic (mq_topic ?m) = Inr \<lparr>pt_organization_id = ''lab'', pt_node_id = ''edge-1'', pt_stream = StreamHealth\<rparr>"
    by code_simp
  have e: "cc_node_registry_enforced sim_consumer_config" by (simp add: sim_consumer_config_def)
  from stream_messages_acknowledged [OF e p, of ?mc "\<lambda>m sv. (Inr False, sv)" sim_consumer "Inr False" "co_service sim_consumer" sim_decoders "[]"]
  show ?thesis by (auto simp: sim_consumer_def)
qed

end
