(* ===== verification/AlertEvaluator.thy ===== *)
theory AlertEvaluator
  imports PyStr Instants
begin

text \<open>
  \<open>services/telemetry-service/app/alerts/domain.py\<close> and \<open>evaluator.py\<close>: the states and decisions of the alert
  engine, the configuration of a rule and the evaluation of one observation against the memory kept for the
  rule and the resource. Instants are aware datetimes, floats are finite (a NaN or infinite reading is outside
  the model); adding a duration to an instant may raise \<open>OverflowError\<close>.
\<close>

section \<open>The domain\<close>

datatype alert_severity = SeverityInformation | SeverityWarning | SeverityAlarm | SeverityCritical | SeveritySystem

datatype alert_state = AlertActive | AlertAcknowledged | AlertResolved | AlertClosed

datatype alert_condition = ThresholdHigh | ThresholdLow

datatype decision = NoDecision | StartTriggerPending | ResetTriggerPending | Trigger | StartClearPending
  | ResetClearPending | Resolve | IgnoreDuplicate | IgnoreOutOfOrder | IgnoreCooldown | IgnoreInvalidValue

record rule_config =
  rc_condition :: alert_condition
  rc_trigger_threshold :: pyfloat
  rc_clear_threshold :: pyfloat
  rc_minimum_duration_seconds :: int
  rc_clear_duration_seconds :: int
  rc_debounce_seconds :: int
  rc_cooldown_seconds :: int

text \<open>\<open>__post_init__\<close>.\<close>

definition check_rule_config :: "rule_config \<Rightarrow> rule_config result" where
  "check_rule_config c =
     (let negative = (\<lambda>name. Inl (ValueError (name @ '' must be non-negative''))) in
      if rc_minimum_duration_seconds c < 0 then negative ''minimum_duration_seconds''
      else if rc_clear_duration_seconds c < 0 then negative ''clear_duration_seconds''
      else if rc_debounce_seconds c < 0 then negative ''debounce_seconds''
      else if rc_cooldown_seconds c < 0 then negative ''cooldown_seconds''
      else case rc_condition c of
        ThresholdHigh \<Rightarrow> if rc_trigger_threshold c < rc_clear_threshold c then
            Inl (ValueError ''high-threshold clear value must not exceed trigger value'') else Inr c
      | ThresholdLow \<Rightarrow> if rc_clear_threshold c < rc_trigger_threshold c then
            Inl (ValueError ''low-threshold clear value must not be below trigger value'') else Inr c)"

definition trigger_duration_seconds :: "rule_config \<Rightarrow> int" where
  "trigger_duration_seconds c = max (rc_minimum_duration_seconds c) (rc_debounce_seconds c)"

definition is_triggered :: "rule_config \<Rightarrow> pyfloat \<Rightarrow> bool" where
  "is_triggered c v = (case rc_condition c of ThresholdHigh \<Rightarrow> rc_trigger_threshold c \<le> v
     | ThresholdLow \<Rightarrow> v \<le> rc_trigger_threshold c)"

definition is_clear :: "rule_config \<Rightarrow> pyfloat \<Rightarrow> bool" where
  "is_clear c v = (case rc_condition c of ThresholdHigh \<Rightarrow> v \<le> rc_clear_threshold c
     | ThresholdLow \<Rightarrow> rc_clear_threshold c \<le> v)"

definition deviation :: "rule_config \<Rightarrow> pyfloat \<Rightarrow> pyfloat" where
  "deviation c v = (case rc_condition c of ThresholdHigh \<Rightarrow> max 0 (fsub v (rc_trigger_threshold c))
     | ThresholdLow \<Rightarrow> max 0 (fsub (rc_trigger_threshold c) v))"

record observation =
  ob_event_id :: string
  ob_captured_at :: instant
  ob_value :: "pyfloat option"

definition make_observation :: "string \<Rightarrow> instant \<Rightarrow> pyfloat option \<Rightarrow> observation result" where
  "make_observation i t v = (if strip i = [] then Inl (ValueError ''event_id is required'')
     else Inr \<lparr>ob_event_id = i, ob_captured_at = t, ob_value = v\<rparr>)"

record eval_snapshot =
  es_last_event_id :: "string option"
  es_last_captured_at :: "instant option"
  es_trigger_pending_since :: "instant option"
  es_clear_pending_since :: "instant option"
  es_active_alert_id :: "string option"
  es_cooldown_until :: "instant option"
  es_last_value :: "pyfloat option"
  es_maximum_deviation :: pyfloat

record eval_result =
  er_decision :: decision
  er_snapshot :: eval_snapshot
  er_deviation :: pyfloat

definition accepted_snapshot ::
  "eval_snapshot \<Rightarrow> observation \<Rightarrow> instant option \<Rightarrow> instant option \<Rightarrow> pyfloat \<Rightarrow> eval_snapshot" where
  "accepted_snapshot s ob trigger_pending_since clear_pending_since maximum_deviation = s\<lparr>
     es_last_event_id := Some (ob_event_id ob), es_last_captured_at := Some (ob_captured_at ob),
     es_last_value := ob_value ob, es_trigger_pending_since := trigger_pending_since,
     es_clear_pending_since := clear_pending_since, es_maximum_deviation := maximum_deviation\<rparr>"

section \<open>The evaluation\<close>

text \<open>\<open>pending or captured_at\<close>.\<close>

definition since :: "instant option \<Rightarrow> observation \<Rightarrow> instant" where
  "since pending ob = (case pending of None \<Rightarrow> ob_captured_at ob | Some t \<Rightarrow> t)"

text \<open>No alert is open: lines 57 to 108.\<close>

definition evaluate_idle :: "rule_config \<Rightarrow> eval_snapshot \<Rightarrow> observation \<Rightarrow> pyfloat \<Rightarrow> eval_result result" where
  "evaluate_idle c s ob v =
     (let dev = deviation c v in
      if (case es_cooldown_until s of None \<Rightarrow> False | Some t \<Rightarrow> ob_captured_at ob < t) then
        Inr \<lparr>er_decision = IgnoreCooldown, er_snapshot = accepted_snapshot s ob None None 0, er_deviation = dev\<rparr>
      else if \<not> is_triggered c v then
        Inr \<lparr>er_decision = (if es_trigger_pending_since s \<noteq> None then ResetTriggerPending else NoDecision),
             er_snapshot = accepted_snapshot s ob None None 0, er_deviation = dev\<rparr>
      else let pending_since = since (es_trigger_pending_since s) ob in
        ebind (after_seconds pending_since (trigger_duration_seconds c)) (\<lambda>due_at.
          let fires = due_at \<le> ob_captured_at ob in
          Inr \<lparr>er_decision = (if fires then Trigger else StartTriggerPending),
               er_snapshot = accepted_snapshot s ob (if fires then None else Some pending_since) None
                 (max (es_maximum_deviation s) dev),
               er_deviation = dev\<rparr>))"

text \<open>An alert is open: lines 110 to 149.\<close>

definition evaluate_open :: "rule_config \<Rightarrow> eval_snapshot \<Rightarrow> observation \<Rightarrow> pyfloat \<Rightarrow> eval_result result" where
  "evaluate_open c s ob v =
     (let dev = deviation c v; maximum_deviation = max (es_maximum_deviation s) dev in
      if \<not> is_clear c v then
        Inr \<lparr>er_decision = (if es_clear_pending_since s \<noteq> None then ResetClearPending else NoDecision),
             er_snapshot = accepted_snapshot s ob None None maximum_deviation, er_deviation = dev\<rparr>
      else let clear_since = since (es_clear_pending_since s) ob in
        ebind (after_seconds clear_since (rc_clear_duration_seconds c)) (\<lambda>due_at.
          if due_at \<le> ob_captured_at ob then
            ebind (after_seconds (ob_captured_at ob) (rc_cooldown_seconds c)) (\<lambda>cooldown_until.
              Inr \<lparr>er_decision = Resolve,
                   er_snapshot = (accepted_snapshot s ob None None maximum_deviation)
                     \<lparr>es_active_alert_id := None, es_cooldown_until := Some cooldown_until\<rparr>,
                   er_deviation = dev\<rparr>)
          else
            Inr \<lparr>er_decision = StartClearPending,
                 er_snapshot = accepted_snapshot s ob None (Some clear_since) maximum_deviation, er_deviation = dev\<rparr>))"

definition evaluate_threshold :: "rule_config \<Rightarrow> eval_snapshot \<Rightarrow> observation \<Rightarrow> eval_result result" where
  "evaluate_threshold c s ob =
     (if es_last_event_id s = Some (ob_event_id ob) then
        Inr \<lparr>er_decision = IgnoreDuplicate, er_snapshot = s, er_deviation = 0\<rparr>
      else if (case es_last_captured_at s of None \<Rightarrow> False | Some t \<Rightarrow> ob_captured_at ob < t) then
        Inr \<lparr>er_decision = IgnoreOutOfOrder, er_snapshot = s, er_deviation = 0\<rparr>
      else case ob_value ob of
        None \<Rightarrow> Inr \<lparr>er_decision = IgnoreInvalidValue,
            er_snapshot = accepted_snapshot s ob None None (es_maximum_deviation s), er_deviation = 0\<rparr>
      | Some v \<Rightarrow> if es_active_alert_id s = None then evaluate_idle c s ob v else evaluate_open c s ob v)"

section \<open>What the decisions mean\<close>

text \<open>The observations that are evaluated, given the last one before them.\<close>

definition accepts :: "string option \<times> instant option \<Rightarrow> observation \<Rightarrow> bool" where
  "accepts w ob = (fst w \<noteq> Some (ob_event_id ob) \<and> (case snd w of None \<Rightarrow> True | Some t \<Rightarrow> t \<le> ob_captured_at ob))"

definition watermark :: "eval_snapshot \<Rightarrow> string option \<times> instant option" where
  "watermark s = (es_last_event_id s, es_last_captured_at s)"

definition mark_of :: "observation \<Rightarrow> string option \<times> instant option" where
  "mark_of ob = (Some (ob_event_id ob), Some (ob_captured_at ob))"

fun accepted :: "string option \<times> instant option \<Rightarrow> observation list \<Rightarrow> observation list" where
  "accepted w [] = []"
| "accepted w (ob # obs) = (if accepts w ob then ob # accepted (mark_of ob) obs else accepted w obs)"

text \<open>The condition the rule waits for: with no alert open, a value beyond the trigger threshold outside the
  cooldown; with an alert open, a value beyond the clear threshold. It must hold for the duration.\<close>

definition condition_holds :: "rule_config \<Rightarrow> eval_snapshot \<Rightarrow> observation \<Rightarrow> bool" where
  "condition_holds c s ob = (case ob_value ob of None \<Rightarrow> False
     | Some v \<Rightarrow> if es_active_alert_id s = None
         then is_triggered c v \<and> (case es_cooldown_until s of None \<Rightarrow> True | Some t \<Rightarrow> t \<le> ob_captured_at ob)
         else is_clear c v)"

definition duration_of :: "rule_config \<Rightarrow> eval_snapshot \<Rightarrow> int" where
  "duration_of c s = (if es_active_alert_id s = None then trigger_duration_seconds c else rc_clear_duration_seconds c)"

text \<open>A run of observations at the end of the history, all satisfying the condition, spans the duration.\<close>

definition sustained :: "(observation \<Rightarrow> bool) \<Rightarrow> int \<Rightarrow> observation list \<Rightarrow> bool" where
  "sustained p duration h = (\<exists>k < length h. (\<forall>ob \<in> set (drop k h). p ob)
     \<and> ob_captured_at (h ! k) + duration * second \<le> ob_captured_at (last h))"

text \<open>Observations evaluated one after the other, with the memory of the rule.\<close>

fun monitor :: "rule_config \<Rightarrow> eval_snapshot \<Rightarrow> observation list \<Rightarrow> (decision list \<times> eval_snapshot) result" where
  "monitor c s [] = Inr ([], s)"
| "monitor c s (ob # obs) = ebind (evaluate_threshold c s ob) (\<lambda>r.
     ebind (monitor c (er_snapshot r) obs) (\<lambda>(ds, s'). Inr (er_decision r # ds, s')))"

definition fires :: "decision \<Rightarrow> bool" where
  "fires d = (d = Trigger \<or> d = Resolve)"

definition pending :: "eval_snapshot \<Rightarrow> instant option" where
  "pending s = (if es_active_alert_id s = None then es_trigger_pending_since s else es_clear_pending_since s)"

lemma ignored:
  "\<not> accepts (watermark s) ob \<Longrightarrow> \<exists>d. evaluate_threshold c s ob = Inr \<lparr>er_decision = d, er_snapshot = s, er_deviation = 0\<rparr>
     \<and> (d = IgnoreDuplicate \<or> d = IgnoreOutOfOrder)"
  by (auto simp: evaluate_threshold_def accepts_def watermark_def split: option.splits)

text \<open>One accepted observation, in terms of the condition.\<close>

lemma evaluated:
  assumes "accepts (watermark s) ob" and "evaluate_threshold c s ob = Inr r"
  shows "watermark (er_snapshot r) = mark_of ob
    \<and> (fires (er_decision r) \<longleftrightarrow> condition_holds c s ob
         \<and> since (pending s) ob + duration_of c s * second \<le> ob_captured_at ob)
    \<and> (\<not> fires (er_decision r) \<longrightarrow> es_active_alert_id (er_snapshot r) = es_active_alert_id s
         \<and> es_cooldown_until (er_snapshot r) = es_cooldown_until s
         \<and> pending (er_snapshot r) = (if condition_holds c s ob then Some (since (pending s) ob) else None))
    \<and> (er_decision r = Trigger \<longrightarrow> es_active_alert_id s = None) \<and> (er_decision r = Resolve \<longrightarrow> es_active_alert_id s \<noteq> None)"
proof (cases "ob_value ob")
  case None
  with assms show ?thesis
    by (auto simp: evaluate_threshold_def accepts_def watermark_def mark_of_def accepted_snapshot_def fires_def
      condition_holds_def pending_def split: if_splits option.splits)
next
  case (Some v)
  show ?thesis
  proof (cases "es_active_alert_id s")
    case None
    with Some assms have e: "evaluate_idle c s ob v = Inr r"
      by (auto simp: evaluate_threshold_def accepts_def watermark_def split: if_splits option.splits)
    from e None Some show ?thesis
      by (auto simp: evaluate_idle_def Let_def watermark_def mark_of_def accepted_snapshot_def fires_def condition_holds_def
        pending_def duration_of_def ebind_eq_Inr dest!: after_seconds_Inr split: if_splits option.splits)
  next
    case (Some i)
    with \<open>ob_value ob = Some v\<close> assms have e: "evaluate_open c s ob v = Inr r"
      by (auto simp: evaluate_threshold_def accepts_def watermark_def split: if_splits option.splits)
    from e Some \<open>ob_value ob = Some v\<close> show ?thesis
      by (auto simp: evaluate_open_def Let_def watermark_def mark_of_def accepted_snapshot_def fires_def condition_holds_def
        pending_def duration_of_def ebind_eq_Inr dest!: after_seconds_Inr split: if_splits option.splits)
  qed
qed

section \<open>Correctness of the waiting\<close>

lemma accepted_append:
  "accepted w (xs @ ys) = accepted w xs @ accepted (if accepted w xs = [] then w else mark_of (last (accepted w xs))) ys"
  by (induction xs arbitrary: w) auto

lemma accepted_sorted: "sorted (map ob_captured_at (accepted w obs)) \<and>
  (\<forall>t. snd w = Some t \<longrightarrow> (\<forall>ob \<in> set (accepted w obs). t \<le> ob_captured_at ob))"
proof (induction obs arbitrary: w)
  case (Cons ob obs)
  show ?case
    using Cons.IH [of w] Cons.IH [of "mark_of ob"] by (cases "accepts w ob") (force simp: accepts_def mark_of_def)+
qed simp

text \<open>The pending instant is the beginning of the run of the condition at the end of the history.\<close>

definition run_start :: "(observation \<Rightarrow> bool) \<Rightarrow> observation list \<Rightarrow> instant option" where
  "run_start p h = (case takeWhile p (rev h) of [] \<Rightarrow> None | r # rs \<Rightarrow> Some (ob_captured_at (last (r # rs))))"

lemma run_start_snoc:
  "run_start p (h @ [ob]) = (if p ob then Some (since (run_start p h) ob) else None)"
  by (cases "takeWhile p (rev h)") (auto simp: run_start_def since_def)

lemma run_start_decomp:
  assumes "p (last h)" and "h \<noteq> []"
  obtains ys zs where "h = ys @ zs" "zs \<noteq> []" "\<forall>ob \<in> set zs. p ob" "run_start p h = Some (ob_captured_at (hd zs))"
    "ys = [] \<or> \<not> p (last ys)"
proof -
  let ?r = "takeWhile p (rev h)" and ?d = "dropWhile p (rev h)"
  have h: "h = rev ?d @ rev ?r" by (metis rev_append rev_rev_ident takeWhile_dropWhile_id)
  have ne: "?r \<noteq> []" using assms by (cases h rule: rev_cases) auto
  have p: "\<forall>ob \<in> set (rev ?r). p ob" by (auto dest: set_takeWhileD)
  have l: "rev ?d = [] \<or> \<not> p (last (rev ?d))" using hd_dropWhile [of p "rev h"] by (cases "?d = []") (simp_all add: last_rev)
  have s: "run_start p h = Some (ob_captured_at (hd (rev ?r)))"
    using ne by (auto simp: run_start_def hd_rev split: list.splits)
  show ?thesis using that [OF h _ p s l] ne by simp
qed

lemma sustained_run_start:
  assumes "sorted (map ob_captured_at h)" and "h \<noteq> []"
  shows "sustained p d h \<longleftrightarrow> (\<exists>t. run_start p h = Some t \<and> t + d * second \<le> ob_captured_at (last h))"
proof (cases "p (last h)")
  case False
  have "\<not> sustained p d h"
  proof
    assume "sustained p d h"
    then obtain k where k: "k < length h" "\<forall>ob \<in> set (drop k h). p ob" by (auto simp: sustained_def)
    then have "last h \<in> set (drop k h)" by (metis drop_eq_Nil last_drop last_in_set leD)
    with k False show False by blast
  qed
  moreover have "run_start p h = None" using False assms(2) by (cases h rule: rev_cases) (auto simp: run_start_def)
  ultimately show ?thesis by simp
next
  case True
  then obtain ys zs where h: "h = ys @ zs" "zs \<noteq> []" "\<forall>ob \<in> set zs. p ob"
    "run_start p h = Some (ob_captured_at (hd zs))" "ys = [] \<or> \<not> p (last ys)"
    using run_start_decomp [OF _ assms(2)] by blast
  have early: "ob_captured_at (hd zs) \<le> ob_captured_at (h ! k)" if "k < length h" "\<forall>ob \<in> set (drop k h). p ob" for k
  proof -
    have "length ys \<le> k"
    proof (rule ccontr)
      assume "\<not> length ys \<le> k"
      then have "k < length ys" by simp
      then have "last ys \<in> set (drop k h)" using h(1)
        by (metis Un_iff drop_append drop_eq_Nil last_drop last_in_set leD set_append)
      with that(2) h(5) \<open>k < length ys\<close> show False by auto
    qed
    moreover have "hd zs = h ! length ys" using h(1,2) by (simp add: hd_conv_nth nth_append)
    ultimately show ?thesis using assms(1) that(1) by (simp add: sorted_iff_nth_mono)
  qed
  show ?thesis
  proof
    assume "sustained p d h"
    then obtain k where "k < length h" "\<forall>ob \<in> set (drop k h). p ob"
      "ob_captured_at (h ! k) + d * second \<le> ob_captured_at (last h)" by (auto simp: sustained_def)
    with early [of k] h(4) show "\<exists>t. run_start p h = Some t \<and> t + d * second \<le> ob_captured_at (last h)" by force
  next
    assume "\<exists>t. run_start p h = Some t \<and> t + d * second \<le> ob_captured_at (last h)"
    with h show "sustained p d h"
      by (auto simp: sustained_def hd_conv_nth nth_append intro!: exI [of _ "length ys"])
  qed
qed

text \<open>While no decision fires, the condition does not change and the pending instant follows the run.\<close>

lemma monitor_pending:
  assumes "monitor c s obs = Inr (ds, s')" and "\<not> (\<exists>d \<in> set ds. fires d)"
    and "pending s = run_start (condition_holds c s0) h"
    and "condition_holds c s = condition_holds c s0" and "duration_of c s = duration_of c s0"
  shows "pending s' = run_start (condition_holds c s0) (h @ accepted (watermark s) obs)
    \<and> condition_holds c s' = condition_holds c s0 \<and> duration_of c s' = duration_of c s0
    \<and> (es_active_alert_id s' = None \<longleftrightarrow> es_active_alert_id s = None)
    \<and> watermark s' = (if accepted (watermark s) obs = [] then watermark s else mark_of (last (accepted (watermark s) obs)))"
  using assms
proof (induction obs arbitrary: s ds h)
  case (Cons ob obs)
  from Cons.prems(1) obtain r ds' where r: "evaluate_threshold c s ob = Inr r"
    and m: "monitor c (er_snapshot r) obs = Inr (ds', s')" and ds: "ds = er_decision r # ds'"
    by (auto simp: ebind_eq_Inr)
  have nf: "\<not> fires (er_decision r)" "\<not> (\<exists>d \<in> set ds'. fires d)" using Cons.prems(2) ds by auto
  show ?case
  proof (cases "accepts (watermark s) ob")
    case False
    with r have "er_snapshot r = s" using ignored [OF False, of c] by auto
    with Cons.IH [OF m nf(2)] Cons.prems(3-) False show ?thesis by simp
  next
    case True
    note e = evaluated [OF True r]
    have p: "pending (er_snapshot r) = run_start (condition_holds c s0) (h @ [ob])"
      using e nf(1) Cons.prems(3,4) by (simp add: run_start_snoc)
    have same: "es_active_alert_id (er_snapshot r) = es_active_alert_id s" "es_cooldown_until (er_snapshot r) = es_cooldown_until s"
      using e nf(1) by simp_all
    have "condition_holds c (er_snapshot r) x = condition_holds c s x" for x
      by (cases "ob_value x") (simp_all add: condition_holds_def same)
    moreover have "duration_of c (er_snapshot r) = duration_of c s" by (simp add: duration_of_def same)
    ultimately have "condition_holds c (er_snapshot r) = condition_holds c s" "duration_of c (er_snapshot r) = duration_of c s"
      by blast+
    then have c: "condition_holds c (er_snapshot r) = condition_holds c s0" "duration_of c (er_snapshot r) = duration_of c s0"
      using Cons.prems(4,5) by simp_all
    from Cons.IH [OF m nf(2) p c] True e same show ?thesis by (auto simp: last_append)
  qed
qed simp

lemma decision_rule_cases:
  assumes "pending s = None" and "monitor c s obs = Inr (ds, s1)" and "\<not> (\<exists>d \<in> set ds. fires d)"
    and "evaluate_threshold c s1 ob = Inr r"
  shows "er_decision r = (if es_active_alert_id s = None then Trigger else Resolve)
    \<longleftrightarrow> accepts (watermark s1) ob
        \<and> sustained (condition_holds c s) (duration_of c s) (accepted (watermark s) (obs @ [ob]))"
proof -
  let ?p = "condition_holds c s" and ?h = "accepted (watermark s) obs"
  have m: "pending s1 = run_start ?p ?h" "condition_holds c s1 = ?p" "duration_of c s1 = duration_of c s"
      "es_active_alert_id s1 = None \<longleftrightarrow> es_active_alert_id s = None"
      "watermark s1 = (if ?h = [] then watermark s else mark_of (last ?h))"
    using monitor_pending [OF assms(2,3), of s "[]"] assms(1) by (auto simp: run_start_def)
  show ?thesis
  proof (cases "accepts (watermark s1) ob")
    case False
    with ignored [OF False, of c] assms(4) show ?thesis by auto
  next
    case True
    then have h: "accepted (watermark s) (obs @ [ob]) = ?h @ [ob]" using m(5) by (simp add: accepted_append)
    have srt: "sorted (map ob_captured_at (?h @ [ob]))"
      using accepted_sorted [of "watermark s" "obs @ [ob]"] by (simp add: h)
    have "sustained ?p (duration_of c s) (?h @ [ob]) \<longleftrightarrow> ?p ob \<and> since (pending s1) ob + duration_of c s * second \<le> ob_captured_at ob"
      using sustained_run_start [OF srt, of ?p "duration_of c s"] by (simp add: run_start_snoc m(1))
    moreover have "er_decision r = (if es_active_alert_id s = None then Trigger else Resolve) \<longleftrightarrow> fires (er_decision r)"
      using evaluated [OF True assms(4)] m(4) by (auto simp: fires_def)
    ultimately show ?thesis using evaluated [OF True assms(4)] m True h by simp
  qed
qed

text \<open>C11: When an alert is triggered and when it is resolved. Starting with nothing pending, as long as no decision
  fired, an observation triggers the rule (with no alert open) or resolves the alert (with one open) exactly
  when it is accepted, that is neither the last event again nor older than the watermark, and a run of the
  accepted observations ends with it in which every value is beyond the trigger threshold outside the cooldown
  (or beyond the clear threshold) and which spans the configured duration. Ignored observations are as if they
  never arrived, and one reading without a value breaks the run.\<close>

theorem decision_rule:
  assumes "pending s = None" and "monitor c s obs = Inr (ds, s1)" and "\<not> (\<exists>d \<in> set ds. fires d)"
    and "evaluate_threshold c s1 ob = Inr r"
  shows "er_decision r = (if es_active_alert_id s = None then Trigger else Resolve)
    \<longleftrightarrow> accepts (watermark s1) ob
        \<and> sustained (condition_holds c s) (duration_of c s) (accepted (watermark s) (obs @ [ob]))"
  by (rule decision_rule_cases [OF assms])


definition sim_rule :: rule_config where
  "sim_rule = \<lparr>rc_condition = ThresholdHigh, rc_trigger_threshold = 8, rc_clear_threshold = 7, rc_minimum_duration_seconds = 60,
     rc_clear_duration_seconds = 30, rc_debounce_seconds = 0, rc_cooldown_seconds = 120\<rparr>"

definition no_memory :: eval_snapshot where
  "no_memory = \<lparr>es_last_event_id = None, es_last_captured_at = None, es_trigger_pending_since = None,
     es_clear_pending_since = None, es_active_alert_id = None, es_cooldown_until = None, es_last_value = None,
     es_maximum_deviation = 0\<rparr>"

definition sim_hot :: "string \<Rightarrow> int \<Rightarrow> observation" where
  "sim_hot i t = \<lparr>ob_event_id = i, ob_captured_at = t * second, ob_value = Some 9\<rparr>"

lemmas sim_evaluation = sim_hot_def sim_rule_def no_memory_def evaluate_threshold_def evaluate_idle_def Let_def is_triggered_def
  after_seconds_def timedelta_of_def add_delta_def instant_min_def instant_max_def trigger_duration_seconds_def since_def
  accepted_snapshot_def

lemma decision_rule_witness:
  "er_decision (projr (evaluate_threshold sim_rule
       (snd (projr (monitor sim_rule no_memory [sim_hot ''a'' 10, sim_hot ''a'' 20, sim_hot ''b'' 5, sim_hot ''c'' 40])))
       (sim_hot ''d'' 70))) = Trigger
   \<and> sustained (condition_holds sim_rule no_memory) 60
       (accepted (None, None) ([sim_hot ''a'' 10, sim_hot ''a'' 20, sim_hot ''b'' 5, sim_hot ''c'' 40] @ [sim_hot ''d'' 70]))"
proof -
  let ?obs = "[sim_hot ''a'' 10, sim_hot ''a'' 20, sim_hot ''b'' 5, sim_hot ''c'' 40]"
  obtain ds s1 where m: "monitor sim_rule no_memory ?obs = Inr (ds, s1)" "\<not> (\<exists>d \<in> set ds. fires d)"
      "es_last_event_id s1 = Some ''c''" "es_last_captured_at s1 = Some (40 * second)" "es_active_alert_id s1 = None"
      "es_cooldown_until s1 = None" "es_trigger_pending_since s1 = Some (10 * second)"
    by (auto simp: sim_evaluation fires_def)
  obtain r where r: "evaluate_threshold sim_rule s1 (sim_hot ''d'' 70) = Inr r" "er_decision r = Trigger"
    using m(3-) by (simp add: sim_evaluation)
  have p: "pending no_memory = None" "es_active_alert_id no_memory = None" "watermark no_memory = (None, None)"
    "duration_of sim_rule no_memory = 60"
    by (simp_all add: pending_def no_memory_def watermark_def duration_of_def sim_rule_def trigger_duration_seconds_def)
  from decision_rule [OF p(1) m(1,2) r(1)] r p m(1) show ?thesis by simp
qed

end
