(* ===== verification/AlertStore.thy ===== *)
theory AlertStore
  imports AlertEvaluator TelemetryDb
begin

text \<open>
  The alert tables and the operations on them: \<open>AlertProcessor.process_payload\<close> of
  \<open>services/telemetry-service/app/alerts/processor.py\<close>, the rule and lifecycle commands of \<open>repository.py\<close>, and
  the hook of \<open>immutability.py\<close> that releases the memory of a closed alert. Tables are lists in the order of
  insertion. A command is one transaction: an exception leaves the tables as they were. The constraints the
  code relies on are checked where a row is inserted and raise \<open>IntegrityError\<close>; rows are locked while a
  command runs, so commands run one after the other.

  \<open>uuid4\<close> is a parameter: \<open>uuid rule role\<close> is the identifier a command draws for the given rule and row. The
  tables of test sessions belong to another component: \<open>ad_contexts\<close> is the context of each attributed
  event and \<open>ad_sessions\<close> the sessions with their organization.
\<close>

section \<open>Tables\<close>

record alert_rule =
  ru_id :: string
  ru_organization_id :: string
  ru_name :: string
  ru_description :: "string option"
  ru_enabled :: bool
  ru_severity :: alert_severity
  ru_node_id :: "string option"
  ru_equipment_id :: "string option"
  ru_channel_id :: "string option"
  ru_metric :: string
  ru_session_id :: "string option"
  ru_current_version :: int
  ru_created_by :: string
  ru_created_at :: instant
  ru_updated_at :: instant

record rule_version =
  rv_id :: string
  rv_rule_id :: string
  rv_version :: int
  rv_config :: rule_config
  rv_configuration :: raw_payload
  rv_created_by :: string
  rv_created_at :: instant

record telemetry_context =
  tc_organization_id :: string
  tc_session_id :: "string option"
  tc_stage_id :: "string option"
  tc_binding_id :: "string option"
  tc_config_snapshot_id :: "string option"

record alert_instance =
  al_id :: string
  al_organization_id :: string
  al_rule_id :: string
  al_rule_version_id :: string
  al_resource_key :: string
  al_event :: telemetry_event
  al_state :: alert_state
  al_severity :: alert_severity
  al_trigger_threshold :: pyfloat
  al_clear_threshold :: pyfloat
  al_maximum_deviation :: pyfloat
  al_last_event_id :: string
  al_context :: telemetry_context
  al_triggered_at :: instant
  al_acknowledged_at :: "instant option"
  al_resolved_at :: "instant option"
  al_closed_at :: "instant option"
  al_lock_version :: int
  al_created_at :: instant
  al_updated_at :: instant

record alert_transition =
  tn_id :: string
  tn_alert_id :: string
  tn_event_type :: string
  tn_previous_state :: "alert_state option"
  tn_next_state :: alert_state
  tn_actor_id :: string
  tn_actor_source :: string
  tn_reason :: "string option"
  tn_idempotency_key :: string
  tn_payload :: raw_payload
  tn_occurred_at :: instant

record alert_evidence =
  en_id :: string
  en_alert_id :: string
  en_event_id :: string
  en_captured_at :: instant
  en_value :: "pyfloat option"
  en_threshold :: pyfloat
  en_deviation :: pyfloat
  en_payload :: raw_payload

record evaluation_state =
  ev_id :: string
  ev_organization_id :: string
  ev_rule_id :: string
  ev_resource_key :: string
  ev_snapshot :: eval_snapshot
  ev_updated_at :: instant

record alert_db =
  ad_rules :: "alert_rule list"
  ad_versions :: "rule_version list"
  ad_states :: "evaluation_state list"
  ad_alerts :: "alert_instance list"
  ad_transitions :: "alert_transition list"
  ad_evidence :: "alert_evidence list"
  ad_contexts :: "(string, telemetry_context) dict"
  ad_sessions :: "(string, string) dict"

type_synonym uuids = "string \<Rightarrow> string \<Rightarrow> string"

definition open_alert :: "alert_instance \<Rightarrow> bool" where
  "open_alert a = (al_state a \<in> {AlertActive, AlertAcknowledged, AlertResolved})"

definition insert_alert :: "alert_instance \<Rightarrow> alert_db \<Rightarrow> alert_db result" where
  "insert_alert a db = ebind (insert_unique ''alert_instances'' (\<lambda>x y. al_id x = al_id y
       \<or> open_alert x \<and> open_alert y \<and> al_rule_id x = al_rule_id y \<and> al_resource_key x = al_resource_key y) a (ad_alerts db))
     (\<lambda>t. Inr (db\<lparr>ad_alerts := t\<rparr>))"

definition insert_transition :: "alert_transition \<Rightarrow> alert_db \<Rightarrow> alert_db result" where
  "insert_transition x db = ebind (insert_unique ''alert_transitions'' (\<lambda>x y. tn_id x = tn_id y
       \<or> tn_alert_id x = tn_alert_id y \<and> tn_idempotency_key x = tn_idempotency_key y) x (ad_transitions db))
     (\<lambda>t. Inr (db\<lparr>ad_transitions := t\<rparr>))"

definition insert_evidence :: "alert_evidence \<Rightarrow> alert_db \<Rightarrow> alert_db result" where
  "insert_evidence x db = ebind (insert_unique ''alert_evidence_samples'' (\<lambda>x y. en_id x = en_id y
       \<or> en_alert_id x = en_alert_id y \<and> en_event_id x = en_event_id y) x (ad_evidence db))
     (\<lambda>t. Inr (db\<lparr>ad_evidence := t\<rparr>))"

definition update_alert :: "alert_instance \<Rightarrow> alert_db \<Rightarrow> alert_db" where
  "update_alert a db = db\<lparr>ad_alerts := map (\<lambda>x. if al_id x = al_id a then a else x) (ad_alerts db)\<rparr>"

definition find_alert :: "string \<Rightarrow> alert_db \<Rightarrow> alert_instance option" where
  "find_alert i db = List.find (\<lambda>a. al_id a = i) (ad_alerts db)"

fun alert_state_value :: "alert_state \<Rightarrow> string" where
  "alert_state_value AlertActive = ''active''"
| "alert_state_value AlertAcknowledged = ''acknowledged''"
| "alert_state_value AlertResolved = ''resolved''"
| "alert_state_value AlertClosed = ''closed''"

fun decision_value :: "decision \<Rightarrow> string" where
  "decision_value NoDecision = ''none''"
| "decision_value StartTriggerPending = ''start_trigger_pending''"
| "decision_value ResetTriggerPending = ''reset_trigger_pending''"
| "decision_value Trigger = ''trigger''"
| "decision_value StartClearPending = ''start_clear_pending''"
| "decision_value ResetClearPending = ''reset_clear_pending''"
| "decision_value Resolve = ''resolve''"
| "decision_value IgnoreDuplicate = ''ignore_duplicate''"
| "decision_value IgnoreOutOfOrder = ''ignore_out_of_order''"
| "decision_value IgnoreCooldown = ''ignore_cooldown''"
| "decision_value IgnoreInvalidValue = ''ignore_invalid_value''"

section \<open>Processing an event\<close>

text \<open>\<open>_context_for_event\<close>.\<close>

definition context_for_event :: "string \<Rightarrow> telemetry_event \<Rightarrow> raw_payload \<Rightarrow> alert_db \<Rightarrow> telemetry_context" where
  "context_for_event default_org e payload db =
     (case dget (ad_contexts db) (te_event_id e) of
        Some c \<Rightarrow> c
      | None \<Rightarrow> \<lparr>tc_organization_id = (case dget payload ''organization_id'' of
              Some (JStr s) \<Rightarrow> if strip s = [] then strip default_org else strip s
            | _ \<Rightarrow> strip default_org),
          tc_session_id = None, tc_stage_id = None, tc_binding_id = None, tc_config_snapshot_id = None\<rparr>)"

definition unrestricted :: "string option \<Rightarrow> string \<Rightarrow> bool" where
  "unrestricted column v = (column = None \<or> column = Some v)"

definition rule_matches :: "telemetry_event \<Rightarrow> telemetry_context \<Rightarrow> alert_rule \<Rightarrow> bool" where
  "rule_matches e c r = (ru_organization_id r = tc_organization_id c \<and> ru_enabled r \<and> ru_metric r = te_metric e
     \<and> unrestricted (ru_node_id r) (te_node_id e) \<and> unrestricted (ru_equipment_id r) (te_equipment_id e)
     \<and> unrestricted (ru_channel_id r) (te_channel_id e)
     \<and> (case tc_session_id c of None \<Rightarrow> ru_session_id r = None | Some s \<Rightarrow> unrestricted (ru_session_id r) s))"

definition current_of :: "alert_db \<Rightarrow> alert_rule \<Rightarrow> rule_version list" where
  "current_of db r = filter (\<lambda>v. rv_rule_id v = ru_id r \<and> rv_version v = ru_current_version r) (ad_versions db)"

definition matching_rules :: "telemetry_event \<Rightarrow> telemetry_context \<Rightarrow> alert_db \<Rightarrow> (alert_rule \<times> rule_version) list" where
  "matching_rules e c db = concat (map (\<lambda>r. map (Pair r) (current_of db r))
     (sort_key ru_id (filter (rule_matches e c) (ad_rules db))))"

definition resource_key :: "telemetry_event \<Rightarrow> telemetry_context \<Rightarrow> string" where
  "resource_key e c = tc_organization_id c @ ''|'' @ (case or_text (tc_session_id c) (Some ''-'') of Some s \<Rightarrow> s | None \<Rightarrow> [])
     @ ''|'' @ te_node_id e @ ''|'' @ te_equipment_id e @ ''|'' @ te_channel_id e @ ''|'' @ te_metric e"

definition system_transition ::
  "string \<Rightarrow> alert_instance \<Rightarrow> string \<Rightarrow> alert_state option \<Rightarrow> alert_state \<Rightarrow> telemetry_event \<Rightarrow> raw_payload \<Rightarrow> alert_transition" where
  "system_transition i a event_type previous_state next_state e payload =
     \<lparr>tn_id = i, tn_alert_id = al_id a, tn_event_type = event_type, tn_previous_state = previous_state,
      tn_next_state = next_state, tn_actor_id = ''nexolab-alert-engine'', tn_actor_source = ''system'', tn_reason = None,
      tn_idempotency_key = event_type @ '':'' @ te_event_id e, tn_payload = payload, tn_occurred_at = te_captured_at e\<rparr>"

definition evidence_of :: "string \<Rightarrow> alert_instance \<Rightarrow> telemetry_event \<Rightarrow> pyfloat \<Rightarrow> pyfloat \<Rightarrow> string \<Rightarrow> alert_evidence" where
  "evidence_of i a e threshold dev reason = \<lparr>en_id = i, en_alert_id = al_id a, en_event_id = te_event_id e,
     en_captured_at = te_captured_at e, en_value = te_value e, en_threshold = threshold, en_deviation = dev,
     en_payload = [(''reason'', JStr reason), (''quality'', JStr (te_quality e)), (''unit'', JStr (te_unit e)),
       (''alarm'', jopt JStr (te_alarm e))]\<rparr>"

definition clear_decision :: "decision \<Rightarrow> bool" where
  "clear_decision d = (d = StartClearPending \<or> d = ResetClearPending \<or> d = Resolve)"

definition should_capture_evidence :: "decision \<Rightarrow> pyfloat \<Rightarrow> pyfloat \<Rightarrow> bool" where
  "should_capture_evidence d dev previous_maximum = (clear_decision d \<or> previous_maximum < dev)"

text \<open>The row of the rule and resource, locked or new.\<close>

definition state_for :: "uuids \<Rightarrow> alert_rule \<Rightarrow> string \<Rightarrow> telemetry_event \<Rightarrow> telemetry_context \<Rightarrow> alert_db
    \<Rightarrow> (evaluation_state \<times> alert_db) result" where
  "state_for uuid rule key e c db =
     (case List.find (\<lambda>s. ev_rule_id s = ru_id rule \<and> ev_resource_key s = key) (ad_states db) of
        Some s \<Rightarrow> Inr (s, db)
      | None \<Rightarrow>
          let s = \<lparr>ev_id = uuid (ru_id rule) ''state'', ev_organization_id = tc_organization_id c, ev_rule_id = ru_id rule,
                   ev_resource_key = key, ev_snapshot = no_memory, ev_updated_at = te_captured_at e\<rparr>
          in ebind (insert_unique ''alert_evaluation_states'' (\<lambda>x y. ev_id x = ev_id y) s (ad_states db))
               (\<lambda>t. Inr (s, db\<lparr>ad_states := t\<rparr>)))"

definition apply_snapshot :: "evaluation_state \<Rightarrow> eval_snapshot \<Rightarrow> instant \<Rightarrow> alert_db \<Rightarrow> alert_db" where
  "apply_snapshot s snap moment db = db\<lparr>ad_states := map (\<lambda>x. if ev_id x = ev_id s
     then x\<lparr>ev_snapshot := snap, ev_updated_at := moment\<rparr> else x) (ad_states db)\<rparr>"

text \<open>The branch of \<open>TRIGGER\<close>; its result is the snapshot to store.\<close>

definition new_alert :: "uuids \<Rightarrow> alert_rule \<Rightarrow> rule_version \<Rightarrow> string \<Rightarrow> telemetry_event \<Rightarrow> telemetry_context \<Rightarrow> eval_result
    \<Rightarrow> alert_instance" where
  "new_alert uuid rule version key e c r =
     \<lparr>al_id = uuid (ru_id rule) ''alert'', al_organization_id = tc_organization_id c, al_rule_id = ru_id rule,
      al_rule_version_id = rv_id version, al_resource_key = key, al_event = e, al_state = AlertActive,
      al_severity = ru_severity rule, al_trigger_threshold = rc_trigger_threshold (rv_config version),
      al_clear_threshold = rc_clear_threshold (rv_config version),
      al_maximum_deviation = es_maximum_deviation (er_snapshot r), al_last_event_id = te_event_id e, al_context = c,
      al_triggered_at = te_captured_at e, al_acknowledged_at = None, al_resolved_at = None, al_closed_at = None,
      al_lock_version = 1, al_created_at = te_captured_at e, al_updated_at = te_captured_at e\<rparr>"

definition trigger_alert :: "uuids \<Rightarrow> alert_rule \<Rightarrow> rule_version \<Rightarrow> string \<Rightarrow> telemetry_event \<Rightarrow> telemetry_context \<Rightarrow> eval_result
    \<Rightarrow> alert_db \<Rightarrow> (eval_snapshot \<times> alert_db) result" where
  "trigger_alert uuid rule version key e c r db =
     (let a = new_alert uuid rule version key e c r in
      ebind (insert_alert a db) (\<lambda>db1.
      ebind (insert_transition (system_transition (uuid (ru_id rule) ''transition'') a ''alert_triggered'' None AlertActive e
               [(''rule_id'', JStr (ru_id rule)), (''rule_version'', JInt (rv_version version)),
                (''trigger_threshold'', JFloat (rc_trigger_threshold (rv_config version)))]) db1) (\<lambda>db2.
      ebind (insert_evidence (evidence_of (uuid (ru_id rule) ''evidence'') a e (rc_trigger_threshold (rv_config version))
               (er_deviation r) ''triggered'') db2) (\<lambda>db3.
        Inr ((er_snapshot r)\<lparr>es_active_alert_id := Some (al_id a)\<rparr>, db3)))))"

text \<open>The resolution of an open alert: it stays the alert of the rule until an operator closes it.\<close>

definition resolve_alert :: "uuids \<Rightarrow> alert_rule \<Rightarrow> rule_version \<Rightarrow> telemetry_event \<Rightarrow> alert_instance \<Rightarrow> eval_snapshot \<Rightarrow> alert_db
    \<Rightarrow> (eval_snapshot \<times> alert_db) result" where
  "resolve_alert uuid rule version e a snap db =
     (let a' = a\<lparr>al_state := AlertResolved, al_resolved_at := Some (te_captured_at e), al_lock_version := al_lock_version a + 1\<rparr> in
      ebind (insert_transition (system_transition (uuid (ru_id rule) ''transition'') a' ''alert_resolved'' (Some (al_state a))
               AlertResolved e [(''clear_threshold'', JFloat (rc_clear_threshold (rv_config version))),
                (''maximum_deviation'', JFloat (al_maximum_deviation a'))]) (update_alert a' db)) (\<lambda>db'.
        Inr (snap\<lparr>es_active_alert_id := Some (al_id a)\<rparr>, db')))"

text \<open>The branch of an alert that is open already.\<close>

definition follow_alert :: "uuids \<Rightarrow> alert_rule \<Rightarrow> rule_version \<Rightarrow> telemetry_event \<Rightarrow> pyfloat \<Rightarrow> eval_result \<Rightarrow> alert_instance
    \<Rightarrow> alert_db \<Rightarrow> (eval_snapshot \<times> alert_db) result" where
  "follow_alert uuid rule version e previous_maximum r a db =
     (let d = er_decision r;
          a1 = a\<lparr>al_last_event_id := te_event_id e,
                 al_maximum_deviation := max (al_maximum_deviation a) (es_maximum_deviation (er_snapshot r)),
                 al_updated_at := te_captured_at e\<rparr>;
          threshold = (if clear_decision d then rc_clear_threshold (rv_config version)
                       else rc_trigger_threshold (rv_config version))
      in ebind (if should_capture_evidence d (er_deviation r) previous_maximum then
                  insert_evidence (evidence_of (uuid (ru_id rule) ''evidence'') a1 e threshold (er_deviation r) (decision_value d))
                    (update_alert a1 db)
                else Inr (update_alert a1 db)) (\<lambda>db1.
           if d = Resolve then resolve_alert uuid rule version e a1 (er_snapshot r) db1
           else Inr (er_snapshot r, db1)))"

text \<open>What follows the evaluation: nothing for an ignored observation, else the alert and then the memory.\<close>

definition apply_decision :: "uuids \<Rightarrow> telemetry_event \<Rightarrow> telemetry_context \<Rightarrow> alert_rule \<times> rule_version \<Rightarrow> evaluation_state
    \<Rightarrow> eval_result \<Rightarrow> alert_db \<Rightarrow> (decision \<times> alert_db) result" where
  "apply_decision uuid e c rec s r db =
     (if er_decision r = IgnoreDuplicate \<or> er_decision r = IgnoreOutOfOrder then Inr (er_decision r, db)
      else ebind
        (if er_decision r = Trigger then trigger_alert uuid (fst rec) (snd rec) (resource_key e c) e c r db
         else case Option.bind (es_active_alert_id (ev_snapshot s)) (\<lambda>i. find_alert i db) of
             None \<Rightarrow> Inr (er_snapshot r, db)
           | Some a \<Rightarrow> follow_alert uuid (fst rec) (snd rec) e (es_maximum_deviation (ev_snapshot s)) r a db)
        (\<lambda>(snap, db'). Inr (er_decision r, apply_snapshot s snap (te_captured_at e) db')))"

definition evaluate_rule :: "uuids \<Rightarrow> telemetry_event \<Rightarrow> observation \<Rightarrow> telemetry_context \<Rightarrow> alert_rule \<times> rule_version \<Rightarrow> alert_db
    \<Rightarrow> (decision \<times> alert_db) result" where
  "evaluate_rule uuid e ob c rec db =
     ebind (state_for uuid (fst rec) (resource_key e c) e c db) (\<lambda>(s, db1).
     ebind (check_rule_config (rv_config (snd rec))) (\<lambda>config.
     ebind (evaluate_threshold config (ev_snapshot s) ob) (\<lambda>r. apply_decision uuid e c rec s r db1)))"

fun evaluate_rules :: "uuids \<Rightarrow> telemetry_event \<Rightarrow> observation \<Rightarrow> telemetry_context \<Rightarrow> (alert_rule \<times> rule_version) list \<Rightarrow> alert_db
    \<Rightarrow> (decision list \<times> alert_db) result" where
  "evaluate_rules uuid e ob c [] db = Inr ([], db)"
| "evaluate_rules uuid e ob c (rec # recs) db =
     ebind (evaluate_rule uuid e ob c rec db) (\<lambda>(d, db1).
     ebind (evaluate_rules uuid e ob c recs db1) (\<lambda>(ds, db2). Inr (d # ds, db2)))"

definition rolled_back :: "alert_db \<Rightarrow> ('a \<times> alert_db) result \<Rightarrow> 'a result \<times> alert_db" where
  "rolled_back db r = (case r of Inl e \<Rightarrow> (Inl e, db) | Inr (a, db') \<Rightarrow> (Inr a, db'))"

text \<open>\<open>process_payload\<close>; its result is the decision for each matching rule.\<close>

definition process_payload :: "uuids \<Rightarrow> string \<Rightarrow> telemetry_event \<Rightarrow> raw_payload \<Rightarrow> alert_db \<Rightarrow> decision list result \<times> alert_db" where
  "process_payload uuid default_org e payload db = rolled_back db
     (ebind (make_observation (te_event_id e) (te_captured_at e) (te_value e)) (\<lambda>ob.
        let c = context_for_event default_org e payload db
        in evaluate_rules uuid e ob c (matching_rules e c db) db))"

section \<open>The commands of operators\<close>

record lifecycle_result =
  lr_alert :: alert_instance
  lr_transition :: alert_transition
  lr_replayed :: bool

datatype lifecycle_action = Acknowledge | Close

text \<open>The hook before the flush of an alert that became closed.\<close>

definition release_closed_state :: "string \<Rightarrow> alert_db \<Rightarrow> alert_db" where
  "release_closed_state i db = db\<lparr>ad_states := map (\<lambda>s. if es_active_alert_id (ev_snapshot s) = Some i
     then s\<lparr>ev_snapshot := (ev_snapshot s)\<lparr>es_active_alert_id := None, es_trigger_pending_since := None,
       es_clear_pending_since := None, es_maximum_deviation := 0\<rparr>\<rparr> else s) (ad_states db)\<rparr>"

definition locked_alert :: "string \<Rightarrow> string \<Rightarrow> alert_db \<Rightarrow> alert_instance result" where
  "locked_alert org i db = (case List.find (\<lambda>a. al_id a = i \<and> al_organization_id a = org) (ad_alerts db) of
     None \<Rightarrow> Inl (AlertNotFoundError (''alert '' @ py_repr i @ '' was not found'')) | Some a \<Rightarrow> Inr a)"

definition action_result :: "lifecycle_action \<Rightarrow> instant \<Rightarrow> string \<Rightarrow> alert_instance \<Rightarrow> alert_instance result" where
  "action_result action moment i a =
     (case action of
        Acknowledge \<Rightarrow> if al_state a \<noteq> AlertActive then
            Inl (AlertConflictError (''alert '' @ py_repr i @ '' cannot be acknowledged from state '' @ py_repr (alert_state_value (al_state a))))
          else Inr (a\<lparr>al_acknowledged_at := Some moment, al_state := AlertAcknowledged\<rparr>)
      | Close \<Rightarrow> if al_state a \<noteq> AlertResolved then
            Inl (AlertConflictError (''alert '' @ py_repr i @ '' cannot be closed from state '' @ py_repr (alert_state_value (al_state a))))
          else Inr (a\<lparr>al_closed_at := Some moment, al_state := AlertClosed\<rparr>))"

definition lifecycle_call :: "string \<Rightarrow> lifecycle_action \<Rightarrow> instant \<Rightarrow> string option \<Rightarrow> string \<Rightarrow> string \<Rightarrow> string \<Rightarrow> string \<Rightarrow> string
    \<Rightarrow> alert_db \<Rightarrow> (lifecycle_result \<times> alert_db) result" where
  "lifecycle_call new_id action moment reason i org actor source key db =
     ebind (locked_alert org i db) (\<lambda>a.
       case List.find (\<lambda>t. tn_alert_id t = i \<and> tn_idempotency_key t = key) (ad_transitions db) of
         Some t \<Rightarrow> Inr (\<lparr>lr_alert = a, lr_transition = t, lr_replayed = True\<rparr>, db)
       | None \<Rightarrow>
           ebind (action_result action moment i a) (\<lambda>a1.
           let a2 = a1\<lparr>al_updated_at := moment, al_lock_version := al_lock_version a + 1\<rparr>;
               t = \<lparr>tn_id = new_id, tn_alert_id = al_id a,
                    tn_event_type = (case action of Acknowledge \<Rightarrow> ''alert_acknowledged'' | Close \<Rightarrow> ''alert_closed''),
                    tn_previous_state = Some (al_state a), tn_next_state = al_state a2, tn_actor_id = actor,
                    tn_actor_source = source, tn_reason = reason, tn_idempotency_key = key, tn_payload = [],
                    tn_occurred_at = moment\<rparr>;
               db1 = (if al_state a2 = AlertClosed then release_closed_state (al_id a) (update_alert a2 db) else update_alert a2 db)
           in ebind (insert_transition t db1) (\<lambda>db2.
                Inr (\<lparr>lr_alert = a2, lr_transition = t, lr_replayed = False\<rparr>, db2))))"

text \<open>\<open>_transition\<close>, called by \<open>acknowledge\<close> and \<open>close\<close>; \<open>org\<close> is the scope of the repository.\<close>

definition lifecycle :: "string \<Rightarrow> lifecycle_action \<Rightarrow> instant \<Rightarrow> string option \<Rightarrow> string \<Rightarrow> string \<Rightarrow> string \<Rightarrow> string \<Rightarrow> string
    \<Rightarrow> alert_db \<Rightarrow> lifecycle_result result \<times> alert_db" where
  "lifecycle new_id action moment reason i org actor_id actor_source idempotency_key db =
     (if strip idempotency_key = [] then (Inl (ValueError ''idempotency_key is required''), db)
      else if strip actor_id = [] then (Inl (ValueError ''actor_id is required''), db)
      else if strip actor_source = [] then (Inl (ValueError ''actor_source is required''), db)
      else rolled_back db (lifecycle_call new_id action moment reason i org (strip actor_id) (strip actor_source)
             (strip idempotency_key) db))"

section \<open>Rules\<close>

text \<open>A validated \<open>AlertRuleCreate\<close>; a blank name or metric has become null.\<close>

record rule_payload =
  rp_name :: "string option"
  rp_description :: "string option"
  rp_enabled :: bool
  rp_severity :: alert_severity
  rp_node_id :: "string option"
  rp_equipment_id :: "string option"
  rp_channel_id :: "string option"
  rp_metric :: "string option"
  rp_session_id :: "string option"
  rp_config :: rule_config
  rp_configuration :: raw_payload

definition require_session :: "string \<Rightarrow> string option \<Rightarrow> alert_db \<Rightarrow> unit result" where
  "require_session org session_id db = (case session_id of None \<Rightarrow> Inr ()
     | Some s \<Rightarrow> if dget (ad_sessions db) s = Some org then Inr ()
         else Inl (AlertRuleNotFoundError (''session '' @ py_repr s @ '' was not found'')))"

text \<open>The NOT NULL columns that a payload can leave empty.\<close>

definition required_columns :: "rule_payload \<Rightarrow> (string \<times> string) result" where
  "required_columns p = (case (rp_name p, rp_metric p) of (Some n, Some m) \<Rightarrow> Inr (n, m)
     | _ \<Rightarrow> Inl (IntegrityError ''NOT NULL constraint failed: alert_rules''))"

definition new_version :: "string \<Rightarrow> string \<Rightarrow> int \<Rightarrow> rule_payload \<Rightarrow> string \<Rightarrow> instant \<Rightarrow> rule_version" where
  "new_version i rule_id n p actor now = \<lparr>rv_id = i, rv_rule_id = rule_id, rv_version = n, rv_config = rp_config p,
     rv_configuration = rp_configuration p, rv_created_by = actor, rv_created_at = now\<rparr>"

definition insert_version :: "rule_version \<Rightarrow> alert_db \<Rightarrow> alert_db result" where
  "insert_version v db = ebind (insert_unique ''alert_rule_versions'' (\<lambda>x y. rv_id x = rv_id y
       \<or> rv_rule_id x = rv_rule_id y \<and> rv_version x = rv_version y) v (ad_versions db))
     (\<lambda>t. Inr (db\<lparr>ad_versions := t\<rparr>))"

text \<open>\<open>except IntegrityError\<close>.\<close>

definition as_rule_conflict :: "string option \<Rightarrow> string \<Rightarrow> 'a result \<Rightarrow> 'a result" where
  "as_rule_conflict name what r = (case r of
     Inl (IntegrityError _) \<Rightarrow> Inl (AlertRuleConflictError (''alert rule ''
       @ (case name of None \<Rightarrow> ''None'' | Some n \<Rightarrow> py_repr n) @ what)) | _ \<Rightarrow> r)"

definition create_rule :: "string \<Rightarrow> string \<Rightarrow> instant \<Rightarrow> rule_payload \<Rightarrow> string \<Rightarrow> string \<Rightarrow> alert_db
    \<Rightarrow> (alert_rule \<times> rule_version) result \<times> alert_db" where
  "create_rule rule_id version_id now p org actor_id db =
     (if strip actor_id = [] then (Inl (ValueError ''actor_id is required''), db)
      else rolled_back db (as_rule_conflict (rp_name p) '' already exists''
        (ebind (check_rule_config (rp_config p)) (\<lambda>_. ebind (require_session org (rp_session_id p) db) (\<lambda>_.
         ebind (required_columns p) (\<lambda>(name, metric).
         let r = \<lparr>ru_id = rule_id, ru_organization_id = org, ru_name = name, ru_description = rp_description p,
                  ru_enabled = True, ru_severity = rp_severity p, ru_node_id = rp_node_id p,
                  ru_equipment_id = rp_equipment_id p, ru_channel_id = rp_channel_id p, ru_metric = metric,
                  ru_session_id = rp_session_id p, ru_current_version = 1, ru_created_by = strip actor_id,
                  ru_created_at = now, ru_updated_at = now\<rparr>;
             v = new_version version_id rule_id 1 p (strip actor_id) now
         in ebind (insert_unique ''alert_rules'' (\<lambda>x y. ru_id x = ru_id y
                \<or> ru_organization_id x = ru_organization_id y \<and> ru_name x = ru_name y) r (ad_rules db)) (\<lambda>t.
            ebind (insert_version v (db\<lparr>ad_rules := t\<rparr>)) (\<lambda>db'. Inr ((r, v), db')))))))))"

definition replace_rule :: "string \<Rightarrow> instant \<Rightarrow> string \<Rightarrow> rule_payload \<Rightarrow> string \<Rightarrow> string \<Rightarrow> alert_db
    \<Rightarrow> (alert_rule \<times> rule_version) result \<times> alert_db" where
  "replace_rule version_id now rule_id p org actor_id db =
     (if strip actor_id = [] then (Inl (ValueError ''actor_id is required''), db)
      else rolled_back db (as_rule_conflict (rp_name p) '' conflicts with an existing rule''
        (ebind (check_rule_config (rp_config p)) (\<lambda>_.
         case List.find (\<lambda>r. ru_id r = rule_id \<and> ru_organization_id r = org) (ad_rules db) of
           None \<Rightarrow> Inl (AlertRuleNotFoundError (''alert rule '' @ py_repr rule_id @ '' was not found''))
         | Some old \<Rightarrow> ebind (require_session org (rp_session_id p) db) (\<lambda>_. ebind (required_columns p) (\<lambda>(name, metric).
             let n = ru_current_version old + 1;
                 r = old\<lparr>ru_name := name, ru_description := rp_description p, ru_enabled := rp_enabled p,
                   ru_severity := rp_severity p, ru_node_id := rp_node_id p, ru_equipment_id := rp_equipment_id p,
                   ru_channel_id := rp_channel_id p, ru_metric := metric, ru_session_id := rp_session_id p,
                   ru_current_version := n, ru_updated_at := now\<rparr>;
                 v = new_version version_id rule_id n p (strip actor_id) now
             in if \<exists>x \<in> set (ad_rules db). ru_id x \<noteq> rule_id \<and> ru_organization_id x = org \<and> ru_name x = name
                then Inl (IntegrityError ''UNIQUE constraint failed: alert_rules'')
                else ebind (insert_version v (db\<lparr>ad_rules := map (\<lambda>x. if ru_id x = rule_id then r else x) (ad_rules db)\<rparr>))
                  (\<lambda>db'. Inr ((r, v), db'))))))))"

section \<open>The invariant of the tables\<close>

text \<open>The history of an alert is a path of its life cycle: triggered, acknowledged at most once, resolved, possibly
  resolved again, closed.\<close>

fun legal :: "alert_state option \<Rightarrow> alert_state \<Rightarrow> bool" where
  "legal None s = (s = AlertActive)"
| "legal (Some AlertActive) s = (s = AlertAcknowledged \<or> s = AlertResolved)"
| "legal (Some AlertAcknowledged) s = (s = AlertResolved)"
| "legal (Some AlertResolved) s = (s = AlertResolved \<or> s = AlertClosed)"
| "legal (Some AlertClosed) s = False"

fun path_to :: "alert_state option \<Rightarrow> alert_transition list \<Rightarrow> alert_state option \<Rightarrow> bool" where
  "path_to s [] s' = (s = s')"
| "path_to s (t # ts) s' = (tn_previous_state t = s \<and> legal s (tn_next_state t) \<and> path_to (Some (tn_next_state t)) ts s')"

definition history_of :: "string \<Rightarrow> alert_transition list \<Rightarrow> alert_transition list" where
  "history_of i ts = filter (\<lambda>t. tn_alert_id t = i) ts"

definition active_of :: "evaluation_state \<Rightarrow> string option" where
  "active_of s = es_active_alert_id (ev_snapshot s)"

definition belongs :: "evaluation_state \<Rightarrow> alert_instance \<Rightarrow> bool" where
  "belongs s a = (ev_rule_id s = al_rule_id a \<and> ev_resource_key s = al_resource_key a)"

definition alerts_ok :: "alert_instance list \<Rightarrow> alert_transition list \<Rightarrow> bool" where
  "alerts_ok A T = (distinct (map al_id A) \<and> (\<forall>t \<in> set T. tn_alert_id t \<in> al_id ` set A)
     \<and> (\<forall>a \<in> set A. path_to None (history_of (al_id a) T) (Some (al_state a))
          \<and> al_lock_version a = int (length (history_of (al_id a) T))))"

definition states_keyed :: "evaluation_state list \<Rightarrow> bool" where
  "states_keyed S = (distinct (map ev_id S) \<and> distinct (map (\<lambda>s. (ev_rule_id s, ev_resource_key s)) S))"

definition memory_ok :: "evaluation_state list \<Rightarrow> alert_instance list \<Rightarrow> bool" where
  "memory_ok S A = (states_keyed S
     \<and> (\<forall>s \<in> set S. \<forall>i. active_of s = Some i \<longrightarrow> (\<exists>a \<in> set A. al_id a = i \<and> open_alert a \<and> belongs s a))
     \<and> (\<forall>a \<in> set A. open_alert a \<longrightarrow> (\<exists>s \<in> set S. active_of s = Some (al_id a) \<and> belongs s a)))"

definition rules_ok :: "alert_rule list \<Rightarrow> rule_version list \<Rightarrow> bool" where
  "rules_ok R V = (distinct (map ru_id R) \<and> distinct (map (\<lambda>r. (ru_organization_id r, ru_name r)) R)
     \<and> distinct (map (\<lambda>v. (rv_rule_id v, rv_version v)) V) \<and> (\<forall>v \<in> set V. rv_rule_id v \<in> ru_id ` set R)
     \<and> (\<forall>r \<in> set R. 1 \<le> ru_current_version r
          \<and> rv_version ` {v \<in> set V. rv_rule_id v = ru_id r} = {1..ru_current_version r}))"

definition alert_ok :: "alert_db \<Rightarrow> bool" where
  "alert_ok db = (alerts_ok (ad_alerts db) (ad_transitions db) \<and> memory_ok (ad_states db) (ad_alerts db)
     \<and> rules_ok (ad_rules db) (ad_versions db))"

text \<open>The audit tables are append-only, and so is the set of alerts; rules and sessions are not touched by the engine.\<close>

definition history_grows :: "alert_db \<Rightarrow> alert_db \<Rightarrow> bool" where
  "history_grows db db' = ((\<exists>xs. ad_transitions db' = ad_transitions db @ xs) \<and> (\<exists>xs. ad_evidence db' = ad_evidence db @ xs)
     \<and> (\<exists>xs. ad_versions db' = ad_versions db @ xs) \<and> (\<exists>xs. map al_id (ad_alerts db') = map al_id (ad_alerts db) @ xs))"

lemma history_grows_refl [simp]: "history_grows db db"
  by (simp add: history_grows_def)

lemma history_grows_trans: "history_grows db1 db2 \<Longrightarrow> history_grows db2 db3 \<Longrightarrow> history_grows db1 db3"
  unfolding history_grows_def by (metis append.assoc)

lemma path_to_snoc:
  "path_to s ts (Some s') \<Longrightarrow> tn_previous_state t = Some s' \<Longrightarrow> legal (Some s') (tn_next_state t)
    \<Longrightarrow> path_to s (ts @ [t]) (Some (tn_next_state t))"
  by (induction ts arbitrary: s) auto

lemma history_snoc [simp]:
  "history_of i (ts @ [t]) = (if tn_alert_id t = i then history_of i ts @ [t] else history_of i ts)"
  by (simp add: history_of_def)

lemma state_determined:
  "states_keyed S \<Longrightarrow> s \<in> set S \<Longrightarrow> s' \<in> set S \<Longrightarrow> ev_rule_id s = ev_rule_id s' \<Longrightarrow> ev_resource_key s = ev_resource_key s' \<Longrightarrow> s = s'"
  by (auto simp: states_keyed_def distinct_map dest: inj_onD)

lemma state_by_id: "states_keyed S \<Longrightarrow> s \<in> set S \<Longrightarrow> s' \<in> set S \<Longrightarrow> ev_id s = ev_id s' \<Longrightarrow> s = s'"
  by (auto simp: states_keyed_def distinct_map dest: inj_onD)

lemma alert_by_id: "alerts_ok A T \<Longrightarrow> a \<in> set A \<Longrightarrow> b \<in> set A \<Longrightarrow> al_id a = al_id b \<Longrightarrow> a = b"
  by (auto simp: alerts_ok_def distinct_map dest: inj_onD)

text \<open>A rule and resource has at most one open alert, and the memory of the rule names it.\<close>

lemma open_determined:
  assumes "alert_ok db" and "a \<in> set (ad_alerts db)" and "b \<in> set (ad_alerts db)" and "open_alert a" and "open_alert b"
    and "al_rule_id a = al_rule_id b" and "al_resource_key a = al_resource_key b"
  shows "a = b"
proof -
  from assms(1) have m: "memory_ok (ad_states db) (ad_alerts db)" and o: "alerts_ok (ad_alerts db) (ad_transitions db)"
    by (simp_all add: alert_ok_def)
  from m assms obtain s s' where "s \<in> set (ad_states db)" "active_of s = Some (al_id a)" "belongs s a"
    "s' \<in> set (ad_states db)" "active_of s' = Some (al_id b)" "belongs s' b"
    unfolding memory_ok_def by blast
  moreover from this have "s = s'" using m assms(6,7) by (auto simp: memory_ok_def belongs_def intro: state_determined)
  ultimately have "al_id a = al_id b" by simp
  then show ?thesis using alert_by_id [OF o assms(2,3)] by blast
qed

text \<open>The ways the memory and the alerts change together.\<close>

definition with_snapshot :: "evaluation_state \<Rightarrow> eval_snapshot \<Rightarrow> instant \<Rightarrow> evaluation_state list \<Rightarrow> evaluation_state list" where
  "with_snapshot s snap moment S = map (\<lambda>x. if ev_id x = ev_id s then x\<lparr>ev_snapshot := snap, ev_updated_at := moment\<rparr> else x) S"

lemma apply_snapshot_states [simp]:
  "ad_states (apply_snapshot s snap moment db) = with_snapshot s snap moment (ad_states db)"
  "ad_alerts (apply_snapshot s snap moment db) = ad_alerts db" "ad_transitions (apply_snapshot s snap moment db) = ad_transitions db"
  "ad_evidence (apply_snapshot s snap moment db) = ad_evidence db" "ad_rules (apply_snapshot s snap moment db) = ad_rules db"
  "ad_versions (apply_snapshot s snap moment db) = ad_versions db" "ad_contexts (apply_snapshot s snap moment db) = ad_contexts db"
  "ad_sessions (apply_snapshot s snap moment db) = ad_sessions db"
  by (simp_all add: apply_snapshot_def with_snapshot_def)

lemma states_keyed_map:
  assumes "\<And>x. ev_id (g x) = ev_id x \<and> ev_rule_id (g x) = ev_rule_id x \<and> ev_resource_key (g x) = ev_resource_key x"
  shows "states_keyed (map g S) = states_keyed S"
  by (simp add: states_keyed_def comp_def assms)

lemma states_keyed_with [simp]: "states_keyed (with_snapshot s snap moment S) = states_keyed S"
  unfolding with_snapshot_def by (rule states_keyed_map) simp

lemma in_with_snapshot:
  assumes "states_keyed S" and "s \<in> set S"
  shows "x \<in> set (with_snapshot s snap moment S) \<longleftrightarrow> x = s\<lparr>ev_snapshot := snap, ev_updated_at := moment\<rparr> \<or> x \<in> set S \<and> x \<noteq> s"
proof -
  have e: "ev_id y = ev_id s \<longleftrightarrow> y = s" if "y \<in> set S" for y using state_by_id [OF assms(1) that assms(2)] by blast
  have "x \<in> set (with_snapshot s snap moment S)
      \<longleftrightarrow> (\<exists>y \<in> set S. x = (if y = s then s\<lparr>ev_snapshot := snap, ev_updated_at := moment\<rparr> else y))"
    using e by (auto simp: with_snapshot_def image_iff)
  then show ?thesis using assms(2) by auto
qed

lemma memory_same:
  assumes m: "memory_ok S A" and s: "s \<in> set S" and act: "es_active_alert_id snap = active_of s"
    and f: "\<And>a. a \<in> set A \<Longrightarrow> al_id (f a) = al_id a \<and> open_alert (f a) = open_alert a \<and> al_rule_id (f a) = al_rule_id a
      \<and> al_resource_key (f a) = al_resource_key a"
  shows "memory_ok (with_snapshot s snap moment S) (map f A)"
proof -
  have k: "states_keyed S" using m by (simp add: memory_ok_def)
  let ?s = "s\<lparr>ev_snapshot := snap, ev_updated_at := moment\<rparr>"
  have b: "belongs ?s a = belongs s a" for a by (simp add: belongs_def)
  have bf: "belongs x (f a) = belongs x a" if "a \<in> set A" for a x by (simp add: belongs_def f that)
  have a: "active_of ?s = active_of s" by (simp add: active_of_def act)
  show ?thesis
    unfolding memory_ok_def states_keyed_with
  proof (intro conjI ballI allI impI)
    show "states_keyed S" by (rule k)
  next
    fix x i assume "x \<in> set (with_snapshot s snap moment S)" "active_of x = Some i"
    then obtain y where "y \<in> set S" "active_of y = Some i" "\<And>a. belongs x a = belongs y a"
      using in_with_snapshot [OF k s] s a b by metis
    with m obtain z where "z \<in> set A" "al_id z = i" "open_alert z" "belongs x z" unfolding memory_ok_def by blast
    then show "\<exists>a \<in> set (map f A). al_id a = i \<and> open_alert a \<and> belongs x a" using f bf by auto
  next
    fix z assume "z \<in> set (map f A)" "open_alert z"
    then obtain z0 where z0: "z0 \<in> set A" "open_alert z0" "z = f z0" using f by auto
    with m obtain y where y: "y \<in> set S" "active_of y = Some (al_id z0)" "belongs y z0" unfolding memory_ok_def by blast
    show "\<exists>x \<in> set (with_snapshot s snap moment S). active_of x = Some (al_id z) \<and> belongs x z"
    proof (cases "y = s")
      case True
      with y a b bf z0 f in_with_snapshot [OF k s] show ?thesis by (intro bexI [of _ ?s]) auto
    next
      case False
      with y b bf z0 f in_with_snapshot [OF k s] show ?thesis by (intro bexI [of _ y]) auto
    qed
  qed
qed

lemma memory_new_state:
  assumes "memory_ok S A" and "active_of s = None" and "ev_id s \<notin> ev_id ` set S"
    and "\<forall>x \<in> set S. ev_rule_id x = ev_rule_id s \<longrightarrow> ev_resource_key x \<noteq> ev_resource_key s"
  shows "memory_ok (S @ [s]) A"
  using assms by (auto simp: memory_ok_def states_keyed_def image_iff)

lemma memory_triggered:
  assumes m: "memory_ok S A" and s: "s \<in> set S" and act: "active_of s = None" and snap: "es_active_alert_id snap = Some (al_id a)"
    and a: "open_alert a" "belongs s a" and "al_id a \<notin> al_id ` set A"
  shows "memory_ok (with_snapshot s snap moment S) (A @ [a])"
proof -
  have k: "states_keyed S" using m by (simp add: memory_ok_def)
  let ?s = "s\<lparr>ev_snapshot := snap, ev_updated_at := moment\<rparr>"
  have b: "belongs ?s x = belongs s x" "active_of ?s = Some (al_id a)" for x by (simp_all add: belongs_def active_of_def snap)
  have in1: "x \<in> set (with_snapshot s snap moment S) \<longleftrightarrow> x = ?s \<or> x \<in> set S \<and> x \<noteq> s" for x by (rule in_with_snapshot [OF k s])
  show ?thesis
    unfolding memory_ok_def states_keyed_with
  proof (intro conjI ballI allI impI)
    show "states_keyed S" by (rule k)
  next
    fix x i assume "x \<in> set (with_snapshot s snap moment S)" "active_of x = Some i"
    then show "\<exists>a' \<in> set (A @ [a]). al_id a' = i \<and> open_alert a' \<and> belongs x a'"
      using in1 m a b unfolding memory_ok_def by (metis Un_iff list.set_intros(1) option.inject set_append)
  next
    fix z assume z: "z \<in> set (A @ [a])" "open_alert z"
    show "\<exists>x \<in> set (with_snapshot s snap moment S). active_of x = Some (al_id z) \<and> belongs x z"
    proof (cases "z = a")
      case True
      with a b in1 show ?thesis by (intro bexI [of _ ?s]) auto
    next
      case False
      with z m obtain y where y: "y \<in> set S" "active_of y = Some (al_id z)" "belongs y z" unfolding memory_ok_def by auto
      with act have "y \<noteq> s" by auto
      with y in1 show ?thesis by (intro bexI [of _ y]) auto
    qed
  qed
qed

lemma memory_closed:
  assumes m: "memory_ok S A" and o: "alerts_ok A T" and a: "a \<in> set A" "al_id a' = al_id a" "\<not> open_alert a'"
  shows "memory_ok (map (\<lambda>s. if active_of s = Some (al_id a) then s\<lparr>ev_snapshot := (ev_snapshot s)\<lparr>es_active_alert_id := None,
      es_trigger_pending_since := None, es_clear_pending_since := None, es_maximum_deviation := 0\<rparr>\<rparr> else s) S)
    (map (\<lambda>x. if al_id x = al_id a' then a' else x) A)" (is "memory_ok (map ?g S) (map ?f A)")
proof -
  have g: "belongs (?g s) x = belongs s x" "ev_id (?g s) = ev_id s" "ev_rule_id (?g s) = ev_rule_id s"
    "ev_resource_key (?g s) = ev_resource_key s"
    "active_of (?g s) = (if active_of s = Some (al_id a) then None else active_of s)" for s x
    by (simp_all add: belongs_def active_of_def)
  have k: "states_keyed (map ?g S)" using m states_keyed_map [of ?g S] g(2-4) by (simp add: memory_ok_def)
  show ?thesis
    unfolding memory_ok_def
  proof (intro conjI ballI allI impI)
    show "states_keyed (map ?g S)" by (rule k)
  next
    fix x i assume x: "x \<in> set (map ?g S)" "active_of x = Some i"
    then obtain s where s: "s \<in> set S" "x = ?g s" unfolding set_map by blast
    have "(if active_of s = Some (al_id a) then None else active_of s) = Some i" using x(2) unfolding s(2) g(5) .
    then have i: "active_of s = Some i" "i \<noteq> al_id a" by (auto split: if_splits)
    with m s(1) obtain z where z: "z \<in> set A" "al_id z = i" "open_alert z" "belongs s z" unfolding memory_ok_def by blast
    then have "z \<in> set (map ?f A)" using i a(2) by force
    with z s(2) g(1) show "\<exists>z \<in> set (map ?f A). al_id z = i \<and> open_alert z \<and> belongs x z" by blast
  next
    fix z assume "z \<in> set (map ?f A)" "open_alert z"
    with a(2,3) have z: "z \<in> set A" "al_id z \<noteq> al_id a" "open_alert z" by auto
    with m obtain s where "s \<in> set S" "active_of s = Some (al_id z)" "belongs s z" unfolding memory_ok_def by blast
    with z g show "\<exists>x \<in> set (map ?g S). active_of x = Some (al_id z) \<and> belongs x z" by (intro bexI [of _ "?g s"]) auto
  qed
qed

lemma alerts_triggered:
  assumes "alerts_ok A T" and "al_id a \<notin> al_id ` set A" and "tn_alert_id t = al_id a" and "tn_previous_state t = None"
    and "tn_next_state t = AlertActive" and "al_state a = AlertActive" and "al_lock_version a = 1"
  shows "alerts_ok (A @ [a]) (T @ [t])"
proof -
  have "\<forall>t \<in> set T. tn_alert_id t \<noteq> al_id a" using assms(1,2) unfolding alerts_ok_def by metis
  then have "history_of (al_id a) T = []" by (simp add: history_of_def)
  moreover have "al_id x \<noteq> al_id a" if "x \<in> set A" for x using assms(2) that by (metis imageI)
  ultimately show ?thesis using assms by (auto simp: alerts_ok_def)
qed

lemma alerts_same:
  assumes "alerts_ok A T" and "\<And>x. x \<in> set A \<Longrightarrow> al_id (f x) = al_id x \<and> al_state (f x) = al_state x \<and> al_lock_version (f x) = al_lock_version x"
  shows "alerts_ok (map f A) T"
proof -
  have m: "map al_id (map f A) = map al_id A" using assms(2) by simp
  then have i: "al_id ` set (map f A) = al_id ` set A" by (metis list.set_map)
  show ?thesis using assms unfolding alerts_ok_def m i by auto
qed

lemma alerts_moved:
  assumes o: "alerts_ok A T" and a: "a \<in> set A" "al_id a' = al_id a" "al_lock_version a' = al_lock_version a + 1"
    and t: "tn_alert_id t = al_id a" "tn_previous_state t = Some (al_state a)" "tn_next_state t = al_state a'"
      "legal (Some (al_state a)) (al_state a')"
  shows "alerts_ok (map (\<lambda>x. if al_id x = al_id a' then a' else x) A) (T @ [t])" (is "alerts_ok (map ?f A) _")
proof -
  have f: "?f x = (if x = a then a' else x)" if "x \<in> set A" for x using alert_by_id [OF o that a(1)] a(2) by auto
  have ids: "al_id (?f x) = al_id x" for x using a(2) by simp
  have m1: "map al_id (map ?f A) = map al_id A" using ids by (simp add: comp_def)
  then have m2: "al_id ` set (map ?f A) = al_id ` set A" by (metis list.set_map)
  note m = m1 m2
  have "path_to None (history_of (al_id a) T) (Some (al_state a))" using o a(1) by (simp add: alerts_ok_def)
  from path_to_snoc [OF this t(2)] have "path_to None (history_of (al_id a) (T @ [t])) (Some (al_state a'))"
    using t by simp
  moreover have "al_lock_version a' = int (length (history_of (al_id a) (T @ [t])))"
    using o a t by (auto simp: alerts_ok_def)
  ultimately have moved: "path_to None (history_of (al_id a') (T @ [t])) (Some (al_state a'))
      \<and> al_lock_version a' = int (length (history_of (al_id a') (T @ [t])))" using a(2) by simp
  have "path_to None (history_of (al_id z) (T @ [t])) (Some (al_state z))
      \<and> al_lock_version z = int (length (history_of (al_id z) (T @ [t])))" if "z \<in> set (map ?f A)" for z
  proof -
    from that obtain x where x: "x \<in> set A" "z = ?f x" unfolding set_map by blast
    show ?thesis
    proof (cases "x = a")
      case True
      with x a(2) moved show ?thesis by simp
    next
      case False
      then have "al_id x \<noteq> al_id a" using alert_by_id [OF o x(1) a(1)] by blast
      with x o a(2) t(1) show ?thesis by (simp add: alerts_ok_def)
    qed
  qed
  then show ?thesis using o t(1) a(1) unfolding alerts_ok_def m by auto
qed

text \<open>What one transaction of the engine does to the alerts: an open alert stays open, in its state or resolved;
  a new alert is open and comes from the event.\<close>

definition kept :: "alert_instance \<Rightarrow> alert_instance \<Rightarrow> bool" where
  "kept a a' = (al_id a' = al_id a \<and> al_rule_id a' = al_rule_id a \<and> al_resource_key a' = al_resource_key a
     \<and> al_event a' = al_event a \<and> al_triggered_at a' = al_triggered_at a
     \<and> (al_state a' = al_state a \<or> open_alert a \<and> al_state a' = AlertResolved))"

definition evolves :: "telemetry_event \<Rightarrow> alert_db \<Rightarrow> alert_db \<Rightarrow> bool" where
  "evolves e db db' = ((\<exists>olds new. ad_alerts db' = olds @ new \<and> list_all2 kept (ad_alerts db) olds
       \<and> (\<forall>a \<in> set new. open_alert a \<and> al_event a = e \<and> al_triggered_at a = te_captured_at e))
     \<and> ad_rules db' = ad_rules db \<and> ad_versions db' = ad_versions db \<and> ad_contexts db' = ad_contexts db
     \<and> ad_sessions db' = ad_sessions db)"

lemma kept_refl [simp]: "kept a a"
  by (simp add: kept_def)

lemma kept_open: "kept a a' \<Longrightarrow> open_alert a' = open_alert a"
  by (auto simp: kept_def open_alert_def)

lemma kept_trans: "kept a b \<Longrightarrow> kept b c \<Longrightarrow> kept a c"
  by (auto simp: kept_def open_alert_def)

lemma all_kept: "(\<And>a. a \<in> set A \<Longrightarrow> kept a (f a)) \<Longrightarrow> list_all2 kept A (map f A)"
  by (induction A) simp_all

lemma evolves_refl [simp]: "evolves e db db"
  unfolding evolves_def by (rule conjI, rule exI [of _ "ad_alerts db"]) (simp_all add: list_all2_refl)

lemma evolves_trans:
  assumes "evolves e db1 db2" and "evolves e db2 db3"
  shows "evolves e db1 db3"
proof -
  from assms(1) obtain o1 n1 where 1: "ad_alerts db2 = o1 @ n1" "list_all2 kept (ad_alerts db1) o1"
    "\<forall>a \<in> set n1. open_alert a \<and> al_event a = e \<and> al_triggered_at a = te_captured_at e" unfolding evolves_def by blast
  from assms(2) obtain o2 n2 where 2: "ad_alerts db3 = o2 @ n2" "list_all2 kept (ad_alerts db2) o2"
    "\<forall>a \<in> set n2. open_alert a \<and> al_event a = e \<and> al_triggered_at a = te_captured_at e" unfolding evolves_def by blast
  from 2(2) 1(1) obtain p q where o2: "o2 = p @ q" "list_all2 kept o1 p" "list_all2 kept n1 q"
    by (auto simp: list_all2_append1)
  have "list_all2 kept (ad_alerts db1) p" by (rule list_all2_trans [OF kept_trans 1(2) o2(2)])
  moreover have "\<forall>a \<in> set (q @ n2). open_alert a \<and> al_event a = e \<and> al_triggered_at a = te_captured_at e"
  proof -
    have "\<exists>b \<in> set n1. kept b a" if "a \<in> set q" for a using list_all2_nthD2 [OF o2(3)] list_all2_lengthD [OF o2(3)] that by (metis in_set_conv_nth)
    with 1(3) 2(3) show ?thesis by (auto simp: kept_open) (metis kept_def kept_open)+
  qed
  ultimately show ?thesis using assms 2(1) o2(1) unfolding evolves_def by (metis append.assoc)
qed

section \<open>Every command keeps the invariant\<close>

definition good_step :: "telemetry_event \<Rightarrow> alert_db \<Rightarrow> alert_db \<Rightarrow> bool" where
  "good_step e db db' = (alert_ok db' \<and> history_grows db db' \<and> evolves e db db')"

lemma good_step_trans: "good_step e db1 db2 \<Longrightarrow> good_step e db2 db3 \<Longrightarrow> good_step e db1 db3"
  unfolding good_step_def using history_grows_trans evolves_trans by blast

lemma evaluation_active:
  assumes "evaluate_threshold c s ob = Inr r"
  shows "er_decision r = Trigger \<Longrightarrow> es_active_alert_id s = None" and "er_decision r = Resolve \<Longrightarrow> es_active_alert_id s \<noteq> None"
    and "er_decision r \<noteq> Resolve \<Longrightarrow> es_active_alert_id (er_snapshot r) = es_active_alert_id s"
  using assms by (auto simp: evaluate_threshold_def evaluate_idle_def evaluate_open_def Let_def accepted_snapshot_def ebind_eq_Inr
    split: if_splits option.splits)

lemma evolves_same:
  "ad_alerts db' = ad_alerts db \<Longrightarrow> ad_rules db' = ad_rules db \<Longrightarrow> ad_versions db' = ad_versions db
    \<Longrightarrow> ad_contexts db' = ad_contexts db \<Longrightarrow> ad_sessions db' = ad_sessions db \<Longrightarrow> evolves e db db'"
  unfolding evolves_def by (intro conjI exI [of _ "ad_alerts db"] exI [of _ "[]"]) (simp_all add: list_all2_refl)

lemma state_for_good:
  assumes ok: "alert_ok db" and run: "state_for uuid rule key e c db = Inr (s, db1)"
  shows "good_step e db db1 \<and> s \<in> set (ad_states db1) \<and> ev_rule_id s = ru_id rule \<and> ev_resource_key s = key"
proof (cases "List.find (\<lambda>s. ev_rule_id s = ru_id rule \<and> ev_resource_key s = key) (ad_states db)")
  case None
  with run obtain S where s: "s = \<lparr>ev_id = uuid (ru_id rule) ''state'', ev_organization_id = tc_organization_id c, ev_rule_id = ru_id rule,
      ev_resource_key = key, ev_snapshot = no_memory, ev_updated_at = te_captured_at e\<rparr>"
    and S: "insert_unique ''alert_evaluation_states'' (\<lambda>x y. ev_id x = ev_id y) s (ad_states db) = Inr S" "db1 = db\<lparr>ad_states := S\<rparr>"
    by (auto simp: state_for_def Let_def ebind_eq_Inr)
  have "memory_ok (ad_states db @ [s]) (ad_alerts db)"
    using ok None S(1) by (intro memory_new_state) (auto simp: alert_ok_def s active_of_def no_memory_def find_None_iff insert_unique_Inr)
  with ok S s show ?thesis
    by (auto simp: good_step_def alert_ok_def insert_unique_Inr history_grows_def intro!: evolves_same)
next
  case (Some x)
  with run have "s = x" "db1 = db" by (auto simp: state_for_def)
  with Some ok show ?thesis by (auto simp: good_step_def dest: find_some)
qed

lemma trigger_good:
  assumes ok: "alert_ok db" and s: "s \<in> set (ad_states db)" "active_of s = None" "ev_rule_id s = ru_id rule" "ev_resource_key s = key"
    and run: "trigger_alert uuid rule version key e c r db = Inr (snap, db')"
  shows "good_step e db (apply_snapshot s snap moment db')"
proof -
  let ?a = "new_alert uuid rule version key e c r"
  have a: "open_alert ?a" "belongs s ?a" "al_state ?a = AlertActive" "al_lock_version ?a = 1" "al_event ?a = e"
    "al_triggered_at ?a = te_captured_at e"
    using s by (simp_all add: new_alert_def open_alert_def belongs_def)
  define t where "t = system_transition (uuid (ru_id rule) ''transition'') ?a ''alert_triggered'' None AlertActive e
    [(''rule_id'', JStr (ru_id rule)), (''rule_version'', JInt (rv_version version)),
     (''trigger_threshold'', JFloat (rc_trigger_threshold (rv_config version)))]"
  define n where "n = evidence_of (uuid (ru_id rule) ''evidence'') ?a e (rc_trigger_threshold (rv_config version)) (er_deviation r) ''triggered''"
  have t: "tn_alert_id t = al_id ?a" "tn_previous_state t = None" "tn_next_state t = AlertActive"
    by (simp_all add: t_def system_transition_def)
  have db': "ad_alerts db' = ad_alerts db @ [?a]" "ad_transitions db' = ad_transitions db @ [t]"
      "ad_evidence db' = ad_evidence db @ [n]" "ad_states db' = ad_states db" "ad_rules db' = ad_rules db"
      "ad_versions db' = ad_versions db" "ad_contexts db' = ad_contexts db" "ad_sessions db' = ad_sessions db"
    and fresh: "al_id ?a \<notin> al_id ` set (ad_alerts db)" and snap: "es_active_alert_id snap = Some (al_id ?a)"
    using run by (auto simp: trigger_alert_def Let_def ebind_eq_Inr insert_alert_def insert_transition_def insert_evidence_def
      insert_unique_Inr t_def [symmetric] n_def [symmetric])
  have "memory_ok (with_snapshot s snap moment (ad_states db)) (ad_alerts db @ [?a])"
    using ok s a snap fresh by (intro memory_triggered) (simp_all add: alert_ok_def)
  moreover have "alerts_ok (ad_alerts db @ [?a]) (ad_transitions db @ [t])"
    using ok fresh t a by (intro alerts_triggered) (simp_all add: alert_ok_def)
  moreover have "evolves e db (apply_snapshot s snap moment db')"
    unfolding evolves_def using db' a by (intro conjI exI [of _ "ad_alerts db"] exI [of _ "[?a]"]) (simp_all add: list_all2_refl)
  ultimately show ?thesis using ok db' by (simp add: good_step_def alert_ok_def history_grows_def)
qed

lemma unchanged_good:
  assumes ok: "alert_ok db" and s: "s \<in> set (ad_states db)" and "es_active_alert_id snap = active_of s"
  shows "good_step e db (apply_snapshot s snap moment db)"
proof -
  have "memory_ok (with_snapshot s snap moment (ad_states db)) (map (\<lambda>a. a) (ad_alerts db))"
    using ok assms by (intro memory_same) (simp_all add: alert_ok_def)
  then show ?thesis using ok
    by (auto simp: good_step_def alert_ok_def history_grows_def intro!: evolves_same)
qed

text \<open>Replacing an alert of the table.\<close>

definition replaced :: "alert_instance \<Rightarrow> alert_instance list \<Rightarrow> alert_instance list" where
  "replaced a A = map (\<lambda>x. if al_id x = al_id a then a else x) A"

lemma update_alert_fields [simp]:
  "ad_alerts (update_alert a db) = replaced a (ad_alerts db)" "ad_transitions (update_alert a db) = ad_transitions db"
  "ad_evidence (update_alert a db) = ad_evidence db" "ad_states (update_alert a db) = ad_states db"
  "ad_rules (update_alert a db) = ad_rules db" "ad_versions (update_alert a db) = ad_versions db"
  "ad_contexts (update_alert a db) = ad_contexts db" "ad_sessions (update_alert a db) = ad_sessions db"
  by (simp_all add: update_alert_def replaced_def)

lemma replaced_ids [simp]: "map al_id (replaced a A) = map al_id A"
  by (simp add: replaced_def)

lemma replaced_kept:
  assumes "alerts_ok A T" and "a \<in> set A" and "kept a a'"
  shows "list_all2 kept A (replaced a' A)"
proof -
  have "kept x (if al_id x = al_id a' then a' else x)" if "x \<in> set A" for x
    using assms alert_by_id [OF assms(1) that assms(2)] by (auto simp: kept_def)
  then show ?thesis unfolding replaced_def by (rule all_kept)
qed

text \<open>After an update that keeps an open alert, with or without a transition of it.\<close>

lemma replaced_good:
  assumes ok: "alert_ok db" and s: "s \<in> set (ad_states db)" "es_active_alert_id snap = active_of s"
    and a: "a \<in> set (ad_alerts db)" "kept a a'"
    and db': "ad_alerts db' = replaced a' (ad_alerts db)" "ad_states db' = ad_states db" "ad_rules db' = ad_rules db"
      "ad_versions db' = ad_versions db" "ad_contexts db' = ad_contexts db" "ad_sessions db' = ad_sessions db"
      "\<exists>xs. ad_evidence db' = ad_evidence db @ xs"
    and t: "ad_transitions db' = ad_transitions db \<and> al_state a' = al_state a \<and> al_lock_version a' = al_lock_version a
      \<or> (\<exists>t. ad_transitions db' = ad_transitions db @ [t] \<and> tn_alert_id t = al_id a \<and> tn_previous_state t = Some (al_state a)
           \<and> tn_next_state t = al_state a' \<and> legal (Some (al_state a)) (al_state a') \<and> al_lock_version a' = al_lock_version a + 1)"
  shows "good_step e db (apply_snapshot s snap moment db')"
proof -
  have o: "alerts_ok (ad_alerts db) (ad_transitions db)" and m: "memory_ok (ad_states db) (ad_alerts db)" using ok by (simp_all add: alert_ok_def)
  have id: "al_id a' = al_id a" using a(2) by (simp add: kept_def)
  have f: "x = a" if "x \<in> set (ad_alerts db)" "al_id x = al_id a'" for x using alert_by_id [OF o that(1) a(1)] that(2) id by simp
  have "memory_ok (with_snapshot s snap moment (ad_states db)) (replaced a' (ad_alerts db))"
    unfolding replaced_def by (rule memory_same [OF m s]) (use f a(2) kept_open [OF a(2)] in \<open>auto simp: kept_def\<close>)
  moreover have "alerts_ok (ad_alerts db') (ad_transitions db')"
    using t
  proof
    assume e: "ad_transitions db' = ad_transitions db \<and> al_state a' = al_state a \<and> al_lock_version a' = al_lock_version a"
    have "alerts_ok (map (\<lambda>x. if al_id x = al_id a' then a' else x) (ad_alerts db)) (ad_transitions db)"
    proof (rule alerts_same [OF o])
      fix x assume "x \<in> set (ad_alerts db)"
      from f [OF this] e id show "al_id (if al_id x = al_id a' then a' else x) = al_id x
        \<and> al_state (if al_id x = al_id a' then a' else x) = al_state x
        \<and> al_lock_version (if al_id x = al_id a' then a' else x) = al_lock_version x" by (cases "al_id x = al_id a'") simp_all
    qed
    with e show ?thesis unfolding db' replaced_def by simp
  next
    assume "\<exists>t. ad_transitions db' = ad_transitions db @ [t] \<and> tn_alert_id t = al_id a \<and> tn_previous_state t = Some (al_state a)
      \<and> tn_next_state t = al_state a' \<and> legal (Some (al_state a)) (al_state a') \<and> al_lock_version a' = al_lock_version a + 1"
    then show ?thesis unfolding db' replaced_def using alerts_moved [OF o a(1) id] by auto
  qed
  moreover have "evolves e db (apply_snapshot s snap moment db')"
    unfolding evolves_def using db' replaced_kept [OF o a]
    by (intro conjI exI [of _ "replaced a' (ad_alerts db)"] exI [of _ "[]"]) simp_all
  ultimately show ?thesis using ok db' t by (auto simp: good_step_def alert_ok_def history_grows_def)
qed

lemma replaced_twice: "al_id a' = al_id a \<Longrightarrow> replaced a' (replaced a A) = replaced a' A"
  by (simp add: replaced_def)

lemma active_alert:
  assumes "alert_ok db" and "s \<in> set (ad_states db)" and "active_of s = Some i" and "find_alert i db = Some a"
  shows "a \<in> set (ad_alerts db) \<and> al_id a = i \<and> open_alert a \<and> belongs s a"
proof -
  from assms(4) have a: "a \<in> set (ad_alerts db)" "al_id a = i" by (auto simp: find_alert_def dest: find_some)
  from assms obtain b where "b \<in> set (ad_alerts db)" "al_id b = i" "open_alert b" "belongs s b"
    unfolding alert_ok_def memory_ok_def by blast
  moreover from this a assms(1) have "a = b" by (auto simp: alert_ok_def intro: alert_by_id)
  ultimately show ?thesis using a by simp
qed

lemma active_alert_found:
  assumes "alert_ok db" and "s \<in> set (ad_states db)" and "active_of s = Some i"
  shows "find_alert i db \<noteq> None"
  using assms unfolding alert_ok_def memory_ok_def find_alert_def find_None_iff by blast

lemma follow_good:
  assumes ok: "alert_ok db" and s: "s \<in> set (ad_states db)" "active_of s = Some (al_id a)"
    and a: "a \<in> set (ad_alerts db)" "open_alert a"
    and r: "er_decision r \<noteq> Resolve \<Longrightarrow> es_active_alert_id (er_snapshot r) = active_of s"
    and run: "follow_alert uuid rule version e previous r a db = Inr (snap, db')"
  shows "good_step e db (apply_snapshot s snap moment db')"
proof -
  let ?a1 = "a\<lparr>al_last_event_id := te_event_id e,
    al_maximum_deviation := max (al_maximum_deviation a) (es_maximum_deviation (er_snapshot r)), al_updated_at := te_captured_at e\<rparr>"
  let ?a2 = "?a1\<lparr>al_state := AlertResolved, al_resolved_at := Some (te_captured_at e), al_lock_version := al_lock_version ?a1 + 1\<rparr>"
  from run obtain db1 where upd: "(if should_capture_evidence (er_decision r) (er_deviation r) previous then
      insert_evidence (evidence_of (uuid (ru_id rule) ''evidence'') ?a1 e (if clear_decision (er_decision r)
        then rc_clear_threshold (rv_config version) else rc_trigger_threshold (rv_config version)) (er_deviation r)
        (decision_value (er_decision r))) (update_alert ?a1 db)
      else Inr (update_alert ?a1 db)) = Inr db1"
    and rest: "(if er_decision r = Resolve then resolve_alert uuid rule version e ?a1 (er_snapshot r) db1
      else Inr (er_snapshot r, db1)) = Inr (snap, db')"
    unfolding follow_alert_def Let_def ebind_eq_Inr by blast
  have db1: "ad_alerts db1 = replaced ?a1 (ad_alerts db)" "ad_states db1 = ad_states db" "ad_rules db1 = ad_rules db"
      "ad_versions db1 = ad_versions db" "ad_contexts db1 = ad_contexts db" "ad_sessions db1 = ad_sessions db"
      "ad_transitions db1 = ad_transitions db" "\<exists>xs. ad_evidence db1 = ad_evidence db @ xs"
    using upd by (auto simp: insert_evidence_def insert_unique_Inr ebind_eq_Inr split: if_splits)
  have k1: "kept a ?a1" by (simp add: kept_def)
  show ?thesis
  proof (cases "er_decision r = Resolve")
    case False
    with rest have d: "snap = er_snapshot r" "db' = db1" by simp_all
    show ?thesis
      by (rule replaced_good [OF ok s(1) _ a(1) k1]) (use d db1 r [OF False] in simp_all)
  next
    case True
    have k2: "kept a ?a2" using a(2) by (simp add: kept_def)
    have l: "legal (Some (al_state a)) AlertResolved" using a(2) by (auto simp: open_alert_def)
    from True rest have d: "snap = (er_snapshot r)\<lparr>es_active_alert_id := Some (al_id a)\<rparr>"
        "ad_alerts db' = replaced ?a2 (ad_alerts db)" "ad_states db' = ad_states db" "ad_rules db' = ad_rules db"
        "ad_versions db' = ad_versions db" "ad_contexts db' = ad_contexts db" "ad_sessions db' = ad_sessions db"
        "\<exists>xs. ad_evidence db' = ad_evidence db @ xs"
      and t: "\<exists>t. ad_transitions db' = ad_transitions db @ [t] \<and> tn_alert_id t = al_id a \<and> tn_previous_state t = Some (al_state a)
           \<and> tn_next_state t = AlertResolved"
      using db1 by (auto simp: resolve_alert_def Let_def ebind_eq_Inr insert_transition_def insert_unique_Inr system_transition_def
        replaced_twice)
    show ?thesis
      by (rule replaced_good [OF ok s(1) _ a(1) k2]) (use d t s(2) l in auto)
  qed
qed

lemma check_rule_config_Inr: "check_rule_config x = Inr y \<Longrightarrow> y = x"
  by (auto simp: check_rule_config_def Let_def split: if_splits alert_condition.splits)

lemma evaluate_rule_split:
  assumes "evaluate_rule uuid e ob c rec db = Inr (d, db')"
  obtains s db1 r where "state_for uuid (fst rec) (resource_key e c) e c db = Inr (s, db1)"
    "check_rule_config (rv_config (snd rec)) = Inr (rv_config (snd rec))"
    "evaluate_threshold (rv_config (snd rec)) (ev_snapshot s) ob = Inr r" "apply_decision uuid e c rec s r db1 = Inr (d, db')"
proof -
  from assms obtain x config r where x: "state_for uuid (fst rec) (resource_key e c) e c db = Inr x"
    "check_rule_config (rv_config (snd rec)) = Inr config" "evaluate_threshold config (ev_snapshot (fst x)) ob = Inr r"
    "apply_decision uuid e c rec (fst x) r (snd x) = Inr (d, db')"
    unfolding evaluate_rule_def ebind_eq_Inr by (auto simp: ebind_eq_Inr split: prod.splits)
  with check_rule_config_Inr [OF x(2)] show ?thesis by (cases x) (simp add: that)
qed

lemma apply_decision_good:
  assumes ok: "alert_ok db" and s: "s \<in> set (ad_states db)" "ev_rule_id s = ru_id (fst rec)" "ev_resource_key s = resource_key e c"
    and ev: "evaluate_threshold config (ev_snapshot s) ob = Inr r" and run: "apply_decision uuid e c rec s r db = Inr (d, db')"
  shows "good_step e db db'"
proof (cases "er_decision r = IgnoreDuplicate \<or> er_decision r = IgnoreOutOfOrder")
  case True
  with run ok show ?thesis by (auto simp: apply_decision_def good_step_def)
next
  case False
  note act = evaluation_active [OF ev]
  show ?thesis
  proof (cases "er_decision r = Trigger")
    case True
    with run obtain snap db2 where "trigger_alert uuid (fst rec) (snd rec) (resource_key e c) e c r db = Inr (snap, db2)"
      "db' = apply_snapshot s snap (te_captured_at e) db2" by (auto simp: apply_decision_def ebind_eq_Inr)
    with trigger_good [OF ok s(1) _ s(2,3)] act(1) [OF True] show ?thesis by (simp add: active_of_def)
  next
    case nt: False
    show ?thesis
    proof (cases "active_of s")
      case None
      with act(2) have "er_decision r \<noteq> Resolve" by (auto simp: active_of_def)
      with None run False nt act(3) unchanged_good [OF ok s(1)] show ?thesis by (auto simp: apply_decision_def active_of_def)
    next
      case (Some i)
      then obtain a where a: "find_alert i db = Some a" using active_alert_found [OF ok s(1)] by auto
      with active_alert [OF ok s(1) Some a] have f: "a \<in> set (ad_alerts db)" "al_id a = i" "open_alert a" by simp_all
      from run False nt a Some obtain snap db2 where fo:
        "follow_alert uuid (fst rec) (snd rec) e (es_maximum_deviation (ev_snapshot s)) r a db = Inr (snap, db2)"
        and db': "db' = apply_snapshot s snap (te_captured_at e) db2" by (auto simp: apply_decision_def ebind_eq_Inr active_of_def)
      show ?thesis unfolding db'
        by (rule follow_good [OF ok s(1) _ f(1,3) _ fo]) (use Some f(2) act(3) in \<open>auto simp: active_of_def\<close>)
    qed
  qed
qed

lemma evaluate_rule_good:
  assumes ok: "alert_ok db" and run: "evaluate_rule uuid e ob c rec db = Inr (d, db')"
  shows "good_step e db db'"
  using run
proof (cases rule: evaluate_rule_split)
  case (1 s db1 r)
  from state_for_good [OF ok 1(1)] apply_decision_good [OF _ _ _ _ 1(3,4)] show ?thesis
    unfolding good_step_def using good_step_trans unfolding good_step_def by blast
qed

lemma evaluate_rules_good:
  "alert_ok db \<Longrightarrow> evaluate_rules uuid e ob c recs db = Inr (ds, db') \<Longrightarrow> good_step e db db'"
proof (induction recs arbitrary: db ds)
  case Nil
  then show ?case by (simp add: good_step_def)
next
  case (Cons rec recs)
  then obtain d db1 ds' where "evaluate_rule uuid e ob c rec db = Inr (d, db1)" "evaluate_rules uuid e ob c recs db1 = Inr (ds', db')"
    by (auto simp: ebind_eq_Inr)
  with Cons evaluate_rule_good good_step_trans show ?case unfolding good_step_def by blast
qed

lemma process_good:
  assumes "alert_ok db" and "process_payload uuid org e payload db = (r, db')"
  shows "good_step e db db'"
  using assms evaluate_rules_good [OF assms(1)]
  by (auto simp: process_payload_def rolled_back_def Let_def ebind_eq_Inr good_step_def split: sum.splits)

lemma memory_alerts:
  assumes "memory_ok S A" and "\<And>a. a \<in> set A \<Longrightarrow> al_id (f a) = al_id a \<and> open_alert (f a) = open_alert a
    \<and> al_rule_id (f a) = al_rule_id a \<and> al_resource_key (f a) = al_resource_key a"
  shows "memory_ok S (map f A)"
proof -
  have "belongs s (f a) = belongs s a" if "a \<in> set A" for s a using assms(2) [OF that] by (simp add: belongs_def)
  with assms show ?thesis unfolding memory_ok_def by simp
qed

lemma release_fields [simp]:
  "ad_alerts (release_closed_state i db) = ad_alerts db" "ad_transitions (release_closed_state i db) = ad_transitions db"
  "ad_evidence (release_closed_state i db) = ad_evidence db" "ad_rules (release_closed_state i db) = ad_rules db"
  "ad_versions (release_closed_state i db) = ad_versions db"
  by (simp_all add: release_closed_state_def)

lemma lifecycle_call_good:
  assumes ok: "alert_ok db" and run: "lifecycle_call new_id action moment reason i org actor source key db = Inr (res, db')"
  shows "alert_ok db' \<and> history_grows db db'"
proof -
  from ok have o: "alerts_ok (ad_alerts db) (ad_transitions db)" and m: "memory_ok (ad_states db) (ad_alerts db)"
    by (simp_all add: alert_ok_def)
  show ?thesis
  proof (cases "db' = db")
    case True
    with ok show ?thesis by simp
  next
    case False
    with run obtain a a1 where la: "locked_alert org i db = Inr a" and ar: "action_result action moment i a = Inr a1"
      and rest: "(let a2 = a1\<lparr>al_updated_at := moment, al_lock_version := al_lock_version a + 1\<rparr>;
               t = \<lparr>tn_id = new_id, tn_alert_id = al_id a,
                    tn_event_type = (case action of Acknowledge \<Rightarrow> ''alert_acknowledged'' | Close \<Rightarrow> ''alert_closed''),
                    tn_previous_state = Some (al_state a), tn_next_state = al_state a2, tn_actor_id = actor,
                    tn_actor_source = source, tn_reason = reason, tn_idempotency_key = key, tn_payload = [],
                    tn_occurred_at = moment\<rparr>;
               db1 = (if al_state a2 = AlertClosed then release_closed_state (al_id a) (update_alert a2 db) else update_alert a2 db)
           in ebind (insert_transition t db1) (\<lambda>db2.
                Inr (\<lparr>lr_alert = a2, lr_transition = t, lr_replayed = False\<rparr>, db2))) = Inr (res, db')"
      unfolding lifecycle_call_def ebind_eq_Inr by (auto split: option.splits simp: ebind_eq_Inr)
    from la have a: "a \<in> set (ad_alerts db)" by (auto simp: locked_alert_def split: option.splits dest: find_some)
    let ?a2 = "a1\<lparr>al_updated_at := moment, al_lock_version := al_lock_version a + 1\<rparr>"
    from ar have a1: "al_id a1 = al_id a" "al_rule_id a1 = al_rule_id a" "al_resource_key a1 = al_resource_key a"
        "al_lock_version a1 = al_lock_version a" "legal (Some (al_state a)) (al_state a1)"
        "al_state a1 = AlertClosed \<or> open_alert a \<and> open_alert a1"
      by (auto simp: action_result_def open_alert_def split: lifecycle_action.splits if_splits)
    define t where "t = \<lparr>tn_id = new_id, tn_alert_id = al_id a,
      tn_event_type = (case action of Acknowledge \<Rightarrow> ''alert_acknowledged'' | Close \<Rightarrow> ''alert_closed''),
      tn_previous_state = Some (al_state a), tn_next_state = al_state a1, tn_actor_id = actor,
      tn_actor_source = source, tn_reason = reason, tn_idempotency_key = key, tn_payload = [], tn_occurred_at = moment\<rparr>"
    have t: "tn_alert_id t = al_id a" "tn_previous_state t = Some (al_state a)" "tn_next_state t = al_state ?a2"
      by (simp_all add: t_def)
    have db': "ad_transitions db' = ad_transitions db @ [t]" "ad_alerts db' = replaced ?a2 (ad_alerts db)"
        "ad_states db' = (if al_state a1 = AlertClosed then ad_states (release_closed_state (al_id a) db) else ad_states db)"
        "ad_evidence db' = ad_evidence db" "ad_rules db' = ad_rules db" "ad_versions db' = ad_versions db"
      using rest by (auto simp: Let_def ebind_eq_Inr insert_transition_def insert_unique_Inr release_closed_state_def t_def
        split: if_splits)
    have f: "x = a" if "x \<in> set (ad_alerts db)" "al_id x = al_id ?a2" for x using alert_by_id [OF o that(1) a] that(2) a1(1) by simp
    have "alerts_ok (ad_alerts db') (ad_transitions db')"
      unfolding db' replaced_def using alerts_moved [OF o a, of ?a2 t] a1 t by simp
    moreover have "memory_ok (ad_states db') (ad_alerts db')"
    proof (cases "al_state a1 = AlertClosed")
      case True
      then have "ad_states db' = map (\<lambda>s. if active_of s = Some (al_id a) then s\<lparr>ev_snapshot := (ev_snapshot s)\<lparr>es_active_alert_id := None,
          es_trigger_pending_since := None, es_clear_pending_since := None, es_maximum_deviation := 0\<rparr>\<rparr> else s) (ad_states db)"
        by (simp add: db' release_closed_state_def active_of_def)
      moreover have "\<not> open_alert ?a2" "al_id ?a2 = al_id a" using True a1(1) by (simp_all add: open_alert_def)
      ultimately show ?thesis using memory_closed [OF m o a, of ?a2] by (simp add: db' replaced_def)
    next
      case False
      with a1(6) have op: "open_alert ?a2 = open_alert a" by (simp add: open_alert_def)
      have "memory_ok (ad_states db) (replaced ?a2 (ad_alerts db))"
        unfolding replaced_def
      proof (rule memory_alerts [OF m])
        fix x assume "x \<in> set (ad_alerts db)"
        from f [OF this] op a1 show "al_id (if al_id x = al_id ?a2 then ?a2 else x) = al_id x
          \<and> open_alert (if al_id x = al_id ?a2 then ?a2 else x) = open_alert x
          \<and> al_rule_id (if al_id x = al_id ?a2 then ?a2 else x) = al_rule_id x
          \<and> al_resource_key (if al_id x = al_id ?a2 then ?a2 else x) = al_resource_key x"
          by (cases "al_id x = al_id ?a2") simp_all
      qed
      with False show ?thesis by (simp add: db')
    qed
    ultimately show ?thesis using ok db' by (simp add: alert_ok_def history_grows_def)
  qed
qed

lemma lifecycle_good:
  assumes "alert_ok db" and "lifecycle new_id action moment reason i org actor_id actor_source key db = (r, db')"
  shows "alert_ok db' \<and> history_grows db db'"
  using assms lifecycle_call_good [OF assms(1)]
  by (auto simp: lifecycle_def rolled_back_def split: if_splits sum.splits)

lemma version_inserted:
  "insert_version v db = Inr db' \<Longrightarrow> ad_versions db' = ad_versions db @ [v] \<and> ad_rules db' = ad_rules db \<and> ad_alerts db' = ad_alerts db
     \<and> ad_transitions db' = ad_transitions db \<and> ad_states db' = ad_states db \<and> ad_evidence db' = ad_evidence db
     \<and> (\<forall>x \<in> set (ad_versions db). rv_rule_id x = rv_rule_id v \<longrightarrow> rv_version x \<noteq> rv_version v)"
  by (auto simp: insert_version_def ebind_eq_Inr insert_unique_Inr)

lemma rules_created:
  assumes "rules_ok R V" and "ru_id r \<notin> ru_id ` set R" and "\<forall>x \<in> set R. ru_organization_id x = ru_organization_id r \<longrightarrow> ru_name x \<noteq> ru_name r"
    and "rv_rule_id v = ru_id r" and "rv_version v = 1" and "ru_current_version r = 1"
  shows "rules_ok (R @ [r]) (V @ [v])"
proof -
  have n: "rv_rule_id x \<noteq> ru_id r" if "x \<in> set V" for x using assms(1,2) that unfolding rules_ok_def by metis
  have nr: "ru_id y \<noteq> ru_id r" if "y \<in> set R" for y using assms(2) that by (metis imageI)
  have "{x \<in> set (V @ [v]). rv_rule_id x = ru_id r} = {v}" using n assms(4) by auto
  moreover have "{x \<in> set (V @ [v]). rv_rule_id x = ru_id y} = {x \<in> set V. rv_rule_id x = ru_id y}" if "y \<in> set R" for y
    using nr [OF that] assms(4) by auto
  moreover have "(rv_rule_id v, rv_version v) \<notin> (\<lambda>v. (rv_rule_id v, rv_version v)) ` set V" using n assms(4) by force
  ultimately show ?thesis using assms unfolding rules_ok_def by auto
qed

lemma rules_replaced:
  assumes ok: "rules_ok R V" and old: "old \<in> set R" and r: "ru_id r = ru_id old" "ru_organization_id r = ru_organization_id old"
    and name: "\<forall>x \<in> set R. ru_id x \<noteq> ru_id old \<and> ru_organization_id x = ru_organization_id old \<longrightarrow> ru_name x \<noteq> ru_name r"
    and v: "rv_rule_id v = ru_id old" "rv_version v = ru_current_version old + 1" "ru_current_version r = ru_current_version old + 1"
  shows "rules_ok (map (\<lambda>x. if ru_id x = ru_id old then r else x) R) (V @ [v])" (is "rules_ok (map ?f R) _")
proof -
  have d: "distinct (map ru_id R)" and vs: "\<forall>x \<in> set R. rv_version ` {v \<in> set V. rv_rule_id v = ru_id x} = {1..ru_current_version x}"
    using ok by (simp_all add: rules_ok_def)
  have pos: "1 \<le> ru_current_version x" if "x \<in> set R" for x using ok that by (simp add: rules_ok_def)
  have e: "x = old" if "x \<in> set R" "ru_id x = ru_id old" for x using d that old by (auto simp: distinct_map dest: inj_onD)
  have f: "?f x = (if x = old then r else x)" if "x \<in> set R" for x using e [OF that] by auto
  have ids: "map ru_id (map ?f R) = map ru_id R" using r(1) by simp
  then have idset: "ru_id ` set (map ?f R) = ru_id ` set R" by (metis list.set_map)
  have new: "rv_version v \<notin> rv_version ` {x \<in> set V. rv_rule_id x = ru_id old}" using vs old v(2) by simp
  have "inj_on (\<lambda>x. (ru_organization_id x, ru_name x)) (set (map ?f R))"
  proof (rule inj_onI)
    fix x y assume xy: "x \<in> set (map ?f R)" "y \<in> set (map ?f R)" "(ru_organization_id x, ru_name x) = (ru_organization_id y, ru_name y)"
    then obtain x0 y0 where x0: "x0 \<in> set R" "x = ?f x0" "y0 \<in> set R" "y = ?f y0" unfolding set_map by blast
    have inj: "inj_on (\<lambda>x. (ru_organization_id x, ru_name x)) (set R)" using ok by (simp add: rules_ok_def distinct_map)
    show "x = y"
      using xy(3) x0 f name r(2) e inj_onD [OF inj, of x0 y0] by (cases "x0 = old"; cases "y0 = old") auto
  qed
  moreover have "distinct (map ?f R)"
    using d ids by (metis distinct_map)
  ultimately have "distinct (map (\<lambda>x. (ru_organization_id x, ru_name x)) (map ?f R))" by (simp only: distinct_map)
  moreover have "rv_version ` {x \<in> set (V @ [v]). rv_rule_id x = ru_id z} = {1..ru_current_version z}" if "z \<in> set (map ?f R)" for z
  proof -
    from that obtain x where x: "x \<in> set R" "z = ?f x" unfolding set_map by blast
    show ?thesis
    proof (cases "x = old")
      case True
      have "{x \<in> set (V @ [v]). rv_rule_id x = ru_id old} = insert v {x \<in> set V. rv_rule_id x = ru_id old}" using v(1) by auto
      moreover have "0 \<le> ru_current_version old" using pos [OF old] by simp
      ultimately show ?thesis using True x vs old v r(1) f [OF x(1)] by (auto simp: atLeastAtMostPlus1_int_conv)
    next
      case False
      then have "ru_id x \<noteq> ru_id old" using e x(1) by blast
      then have "{y \<in> set (V @ [v]). rv_rule_id y = ru_id x} = {y \<in> set V. rv_rule_id y = ru_id x}" using v(1) by auto
      with False x vs f [OF x(1)] show ?thesis by simp
    qed
  qed
  moreover have "1 \<le> ru_current_version z" if "z \<in> set (map ?f R)" for z
  proof -
    from that obtain x where x: "x \<in> set R" "z = ?f x" unfolding set_map by blast
    then show ?thesis using f [OF x(1)] pos [OF x(1)] v(3) by (cases "x = old") simp_all
  qed
  moreover have "distinct (map (\<lambda>v. (rv_rule_id v, rv_version v)) (V @ [v]))"
    using ok new v(1) by (force simp: rules_ok_def)
  moreover have "\<forall>x \<in> set (V @ [v]). rv_rule_id x \<in> ru_id ` set (map ?f R)"
    using ok v(1) old unfolding idset by (auto simp: rules_ok_def)
  ultimately show ?thesis using d unfolding rules_ok_def ids by blast
qed

lemma as_rule_conflict_Inr [simp]: "as_rule_conflict n w r = Inr x \<longleftrightarrow> r = Inr x"
  by (auto simp: as_rule_conflict_def split: sum.splits exn.splits)

lemma rolled_back_cases:
  "rolled_back db r = (x, db') \<Longrightarrow> db' = db \<or> (\<exists>a. r = Inr (a, db'))"
  by (auto simp: rolled_back_def split: sum.splits)

lemma create_good:
  assumes ok: "alert_ok db" and run: "create_rule rule_id version_id now p org actor_id db = (r, db')"
  shows "alert_ok db' \<and> history_grows db db'"
proof (cases "db' = db")
  case False
  with run obtain t r v where
    t: "insert_unique ''alert_rules'' (\<lambda>x y. ru_id x = ru_id y \<or> ru_organization_id x = ru_organization_id y \<and> ru_name x = ru_name y) r (ad_rules db) = Inr t"
    and i: "insert_version v (db\<lparr>ad_rules := t\<rparr>) = Inr db'"
    and v: "ru_id r = rule_id" "rv_rule_id v = rule_id" "rv_version v = 1" "ru_current_version r = 1"
    by (auto simp: create_rule_def Let_def ebind_eq_Inr new_version_def split: if_splits dest!: rolled_back_cases)
  from t have "t = ad_rules db @ [r]" "ru_id r \<notin> ru_id ` set (ad_rules db)"
    "\<forall>x \<in> set (ad_rules db). ru_organization_id x = ru_organization_id r \<longrightarrow> ru_name x \<noteq> ru_name r"
    by (auto simp: insert_unique_Inr)
  with ok v version_inserted [OF i] rules_created [of "ad_rules db" "ad_versions db" r v] show ?thesis
    by (simp add: alert_ok_def history_grows_def)
qed (use ok in simp)

lemma replace_good:
  assumes ok: "alert_ok db" and run: "replace_rule version_id now rule_id p org actor_id db = (r, db')"
  shows "alert_ok db' \<and> history_grows db db'"
proof (cases "db' = db")
  case False
  let ?r = "\<lambda>old name metric. old\<lparr>ru_name := name, ru_description := rp_description p, ru_enabled := rp_enabled p,
    ru_severity := rp_severity p, ru_node_id := rp_node_id p, ru_equipment_id := rp_equipment_id p,
    ru_channel_id := rp_channel_id p, ru_metric := metric, ru_session_id := rp_session_id p,
    ru_current_version := ru_current_version old + 1, ru_updated_at := now\<rparr>"
  from False run obtain old name metric where
    old: "List.find (\<lambda>r. ru_id r = rule_id \<and> ru_organization_id r = org) (ad_rules db) = Some old"
    and clash: "\<not> (\<exists>x \<in> set (ad_rules db). ru_id x \<noteq> rule_id \<and> ru_organization_id x = org \<and> ru_name x = name)"
    and i: "insert_version (new_version version_id rule_id (ru_current_version old + 1) p (strip actor_id) now)
      (db\<lparr>ad_rules := map (\<lambda>x. if ru_id x = rule_id then ?r old name metric else x) (ad_rules db)\<rparr>) = Inr db'"
    by (auto simp: replace_rule_def Let_def ebind_eq_Inr split: if_splits option.splits dest!: rolled_back_cases)
  define r where "r = ?r old name metric"
  define v where "v = new_version version_id rule_id (ru_current_version old + 1) p (strip actor_id) now"
  have v: "ru_id r = ru_id old" "ru_organization_id r = ru_organization_id old" "rv_rule_id v = rule_id" "ru_name r = name"
      "rv_version v = ru_current_version old + 1" "ru_current_version r = ru_current_version old + 1"
    by (simp_all add: r_def v_def new_version_def)
  note i = i [folded r_def v_def]
  from old have o: "old \<in> set (ad_rules db)" "ru_id old = rule_id" "ru_organization_id old = org" by (auto dest: find_some)
  have "rules_ok (map (\<lambda>x. if ru_id x = ru_id old then r else x) (ad_rules db)) (ad_versions db @ [v])"
    by (rule rules_replaced) (use ok v clash o in \<open>auto simp: alert_ok_def\<close>)
  with ok o version_inserted [OF i] show ?thesis by (simp add: alert_ok_def history_grows_def)
qed (use ok in simp)

section \<open>Runs of the service\<close>

text \<open>Any command, with any arguments, any identifiers and any outcome; the test sessions change on their own.\<close>

inductive alert_step :: "alert_db \<Rightarrow> alert_db \<Rightarrow> bool" where
  processed: "process_payload uuid org e payload db = (r, db') \<Longrightarrow> alert_step db db'"
| commanded: "lifecycle new_id action moment reason i org actor source key db = (r, db') \<Longrightarrow> alert_step db db'"
| created: "create_rule rule_id version_id now p org actor db = (r, db') \<Longrightarrow> alert_step db db'"
| replaced_rule: "replace_rule version_id now rule_id p org actor db = (r, db') \<Longrightarrow> alert_step db db'"
| attributed: "alert_step db (db\<lparr>ad_contexts := c, ad_sessions := ss\<rparr>)"

inductive alert_reaches :: "alert_db \<Rightarrow> alert_db \<Rightarrow> bool" where
  start: "alert_reaches db db"
| step: "alert_reaches db db1 \<Longrightarrow> alert_step db1 db2 \<Longrightarrow> alert_reaches db db2"

lemma alert_step_good: "alert_step db db' \<Longrightarrow> alert_ok db \<Longrightarrow> alert_ok db' \<and> history_grows db db'"
proof (induction rule: alert_step.induct)
  case (processed uuid org e payload db r db')
  then show ?case using process_good unfolding good_step_def by blast
next
  case (attributed db c ss)
  then show ?case by (simp add: alert_ok_def history_grows_def)
qed (blast dest: lifecycle_good create_good replace_good)+

lemma alert_reaches_good: "alert_reaches db db' \<Longrightarrow> alert_ok db \<Longrightarrow> alert_ok db' \<and> history_grows db db'"
  by (induction rule: alert_reaches.induct) (auto dest: alert_step_good intro: history_grows_trans)

text \<open>C10: Whatever events, operator commands and rule changes arrive, in any order and with any failures: a rule and
  resource has at most one alert that is not closed, and its memory names exactly that alert; the transitions
  of every alert form a path of the life cycle that begins with its trigger and ends in its state, counted by
  its lock version; the versions of a rule are numbered without a gap up to the current one; transitions,
  evidence and versions are append-only and no alert disappears.\<close>

theorem alert_history_sound:
  assumes "alert_ok db" and "alert_reaches db db'"
  shows "alert_ok db' \<and> history_grows db db'
    \<and> (\<forall>a \<in> set (ad_alerts db'). \<forall>b \<in> set (ad_alerts db'). open_alert a \<and> open_alert b \<and> al_rule_id a = al_rule_id b
         \<and> al_resource_key a = al_resource_key b \<longrightarrow> a = b)
    \<and> (\<forall>a \<in> set (ad_alerts db'). path_to None (history_of (al_id a) (ad_transitions db')) (Some (al_state a))
         \<and> al_lock_version a = int (length (history_of (al_id a) (ad_transitions db'))))"
proof -
  from alert_reaches_good [OF assms(2,1)] have g: "alert_ok db'" "history_grows db db'" by simp_all
  with open_determined [OF g(1)] show ?thesis by (auto simp: alert_ok_def alerts_ok_def)
qed

text \<open>An open alert masks its rule.\<close>

lemma alert_masks_cases:
  assumes ok: "alert_ok db" and a: "a \<in> set (ad_alerts db)" "open_alert a" and run: "process_payload uuid org e payload db = (r, db')"
  shows "\<exists>a' \<in> set (ad_alerts db'). kept a a' \<and> open_alert a'
    \<and> (\<forall>b \<in> set (ad_alerts db'). open_alert b \<and> al_rule_id b = al_rule_id a \<and> al_resource_key b = al_resource_key a \<longrightarrow> b = a')"
proof -
  from process_good [OF ok run] have g: "alert_ok db'" "evolves e db db'" by (simp_all add: good_step_def)
  from g(2) obtain olds new where o: "ad_alerts db' = olds @ new" "list_all2 kept (ad_alerts db) olds" unfolding evolves_def by blast
  from a(1) obtain n where n: "n < length (ad_alerts db)" "ad_alerts db ! n = a" by (auto simp: in_set_conv_nth)
  with o(2) have k: "kept a (olds ! n)" "n < length olds" by (auto dest: list_all2_nthD list_all2_lengthD)
  then have i: "olds ! n \<in> set (ad_alerts db')" using o(1) by simp
  have "open_alert (olds ! n)" using kept_open [OF k(1)] a(2) by simp
  with k i open_determined [OF g(1)] show ?thesis by (intro bexI [OF _ i]) (auto simp: kept_def)
qed

end
