(* ===== verification/AlertReplay.thy ===== *)
theory AlertReplay
  imports AlertStore
begin

text \<open>
  Consequences of the alert tables for the service around them: an open alert masks its rule, and processing an
  event twice, as the replay of the ingestion worker does, changes nothing.
\<close>

section \<open>An open alert masks its rule\<close>

text \<open>C12: An alert that is not closed masks its rule and resource. Whatever event is processed, and whether or not it
  fails, an alert that was resolved but not closed by an operator is still resolved afterwards and is the only open
  alert of its rule and resource: no reading, however far beyond the threshold, opens another alert or makes this
  one active again.\<close>

theorem resolved_alert_masks:
  assumes "alert_ok db" and "a \<in> set (ad_alerts db)" and "al_state a = AlertResolved"
    and "process_payload uuid org e payload db = (r, db')"
  shows "\<exists>a' \<in> set (ad_alerts db'). al_id a' = al_id a \<and> al_state a' = AlertResolved
    \<and> (\<forall>b \<in> set (ad_alerts db'). open_alert b \<and> al_rule_id b = al_rule_id a \<and> al_resource_key b = al_resource_key a \<longrightarrow> b = a')"
proof -
  have "open_alert a" using assms(3) by (simp add: open_alert_def)
  from alert_masks_cases [OF assms(1,2) this assms(4)] assms(3) show ?thesis by (auto simp: kept_def)
qed

section \<open>Processing an event twice\<close>

text \<open>The shape of an evaluation that returns.\<close>

lemma evaluate_rule_shape:
  assumes "evaluate_rule uuid e ob c rec db = Inr (d, db')"
  obtains s db1 r where "state_for uuid (fst rec) (resource_key e c) e c db = Inr (s, db1)"
    "check_rule_config (rv_config (snd rec)) = Inr (rv_config (snd rec))"
    "evaluate_threshold (rv_config (snd rec)) (ev_snapshot s) ob = Inr r" "d = er_decision r"
    "(er_decision r = IgnoreDuplicate \<or> er_decision r = IgnoreOutOfOrder) \<and> db' = db1
      \<or> \<not> (er_decision r = IgnoreDuplicate \<or> er_decision r = IgnoreOutOfOrder) \<and>
        (\<exists>snap db2. db' = apply_snapshot s snap (te_captured_at e) db2 \<and> ad_states db2 = ad_states db1
           \<and> watermark snap = watermark (er_snapshot r))"
  using assms
proof (cases rule: evaluate_rule_split)
  case (1 s db1 r)
  have tr: "trigger_alert uuid (fst rec) (snd rec) (resource_key e c) e c r db1 = Inr (snap, db2)
      \<Longrightarrow> ad_states db2 = ad_states db1 \<and> watermark snap = watermark (er_snapshot r)" for snap db2
    by (auto simp: trigger_alert_def Let_def ebind_eq_Inr insert_alert_def insert_transition_def insert_evidence_def watermark_def)
  have fo: "follow_alert uuid (fst rec) (snd rec) e pm r a db1 = Inr (snap, db2)
      \<Longrightarrow> ad_states db2 = ad_states db1 \<and> watermark snap = watermark (er_snapshot r)" for pm a snap db2
    by (auto simp: follow_alert_def resolve_alert_def Let_def ebind_eq_Inr insert_transition_def insert_evidence_def watermark_def
      split: if_splits)
  show ?thesis
  proof (cases "er_decision r = IgnoreDuplicate \<or> er_decision r = IgnoreOutOfOrder")
    case True
    with that [OF 1(1-3)] 1(4) show ?thesis by (auto simp: apply_decision_def)
  next
    case False
    let ?next = "if er_decision r = Trigger then trigger_alert uuid (fst rec) (snd rec) (resource_key e c) e c r db1
       else case Option.bind (es_active_alert_id (ev_snapshot s)) (\<lambda>i. find_alert i db1) of
           None \<Rightarrow> Inr (er_snapshot r, db1)
         | Some a \<Rightarrow> follow_alert uuid (fst rec) (snd rec) e (es_maximum_deviation (ev_snapshot s)) r a db1"
    from False 1(4) obtain snap db2 where n: "?next = Inr (snap, db2)" "d = er_decision r"
        "db' = apply_snapshot s snap (te_captured_at e) db2"
      unfolding apply_decision_def ebind_eq_Inr by (simp only: if_False) (auto simp: ebind_eq_Inr)
    have "ad_states db2 = ad_states db1 \<and> watermark snap = watermark (er_snapshot r)"
      using n(1) tr fo by (auto split: if_splits option.splits)
    with that [OF 1(1-3)] False n show ?thesis by blast
  qed
qed

text \<open>The memory of a rule refuses an observation.\<close>

definition refuses :: "observation \<Rightarrow> string \<Rightarrow> string \<Rightarrow> alert_db \<Rightarrow> bool" where
  "refuses ob rule key db = (\<exists>s \<in> set (ad_states db). ev_rule_id s = rule \<and> ev_resource_key s = key
     \<and> \<not> accepts (watermark (ev_snapshot s)) ob)"

lemma mark_refuses [simp]: "\<not> accepts (mark_of ob) ob"
  by (simp add: accepts_def mark_of_def)

lemma accepted_decision:
  assumes "accepts (watermark s) ob" and "evaluate_threshold c s ob = Inr r"
  shows "\<not> (er_decision r = IgnoreDuplicate \<or> er_decision r = IgnoreOutOfOrder)"
proof (cases "ob_value ob")
  case None
  with assms show ?thesis by (auto simp: evaluate_threshold_def accepts_def watermark_def split: if_splits option.splits)
next
  case (Some v)
  with assms have "(if es_active_alert_id s = None then evaluate_idle c s ob v else evaluate_open c s ob v) = Inr r"
    by (auto simp: evaluate_threshold_def accepts_def watermark_def split: if_splits option.splits)
  then show ?thesis
    by (auto simp: evaluate_idle_def evaluate_open_def Let_def ebind_eq_Inr split: if_splits)
qed

lemma evaluate_threshold_refused:
  "\<not> accepts (watermark s) ob \<longleftrightarrow> (\<exists>r. evaluate_threshold c s ob = Inr r
     \<and> (er_decision r = IgnoreDuplicate \<or> er_decision r = IgnoreOutOfOrder))"
  using ignored [of s ob c] accepted_decision [of s ob c] by auto

lemma refused_after:
  assumes ok: "alert_ok db" and run: "evaluate_rule uuid e ob c rec db = Inr (d, db')"
  shows "refuses ob (ru_id (fst rec)) (resource_key e c) db' \<and> (\<forall>i k. refuses ob i k db \<longrightarrow> refuses ob i k db')"
  using run
proof (cases rule: evaluate_rule_shape)
  case (1 s db1 r)
  note g = state_for_good [OF ok 1(1)]
  then have ok1: "alert_ok db1" and s: "s \<in> set (ad_states db1)" "ev_rule_id s = ru_id (fst rec)" "ev_resource_key s = resource_key e c"
    by (simp_all add: good_step_def)
  have mono: "refuses ob i k db \<Longrightarrow> refuses ob i k db1" for i k
    using 1(1) by (auto simp: refuses_def state_for_def Let_def ebind_eq_Inr insert_unique_Inr split: option.splits)
  from 1(5) show ?thesis
  proof
    assume i: "(er_decision r = IgnoreDuplicate \<or> er_decision r = IgnoreOutOfOrder) \<and> db' = db1"
    then have "\<not> accepts (watermark (ev_snapshot s)) ob" using evaluate_threshold_refused 1(3) by blast
    with s i mono show ?thesis by (auto simp: refuses_def)
  next
    assume n: "\<not> (er_decision r = IgnoreDuplicate \<or> er_decision r = IgnoreOutOfOrder) \<and>
        (\<exists>snap db2. db' = apply_snapshot s snap (te_captured_at e) db2 \<and> ad_states db2 = ad_states db1
           \<and> watermark snap = watermark (er_snapshot r))"
    then have "accepts (watermark (ev_snapshot s)) ob" using evaluate_threshold_refused [of "ev_snapshot s" ob "rv_config (snd rec)"] 1(3) by auto
    with 1(3) evaluated have "watermark (er_snapshot r) = mark_of ob" by blast
    with n obtain snap db2 where d: "ad_states db' = with_snapshot s snap (te_captured_at e) (ad_states db1)" "watermark snap = mark_of ob"
      by auto
    have k: "states_keyed (ad_states db1)" using ok1 by (simp add: alert_ok_def memory_ok_def)
    let ?s = "s\<lparr>ev_snapshot := snap, ev_updated_at := te_captured_at e\<rparr>"
    have m: "x \<in> set (ad_states db') \<longleftrightarrow> x = ?s \<or> x \<in> set (ad_states db1) \<and> x \<noteq> s" for x
      unfolding d(1) by (rule in_with_snapshot [OF k s(1)])
    have self: "refuses ob (ru_id (fst rec)) (resource_key e c) db'"
      unfolding refuses_def by (rule bexI [of _ ?s]) (simp_all add: m s(2,3) d(2))
    have "refuses ob i k' db'" if r: "refuses ob i k' db" for i k'
    proof -
      from mono [OF r] obtain x where x: "x \<in> set (ad_states db1)" "ev_rule_id x = i" "ev_resource_key x = k'"
        "\<not> accepts (watermark (ev_snapshot x)) ob" unfolding refuses_def by blast
      show ?thesis
      proof (cases "x = s")
        case True
        with x self s show ?thesis by simp
      next
        case False
        with x m show ?thesis unfolding refuses_def by blast
      qed
    qed
    with self show ?thesis by blast
  qed
qed

lemma refused_again:
  assumes ok: "alert_ok db" and r: "refuses ob (ru_id (fst rec)) (resource_key e c) db"
    and cfg: "check_rule_config (rv_config (snd rec)) = Inr (rv_config (snd rec))"
  shows "\<exists>d. evaluate_rule uuid e ob c rec db = Inr (d, db) \<and> (d = IgnoreDuplicate \<or> d = IgnoreOutOfOrder)"
proof -
  from r obtain s where s: "s \<in> set (ad_states db)" "ev_rule_id s = ru_id (fst rec)" "ev_resource_key s = resource_key e c"
    "\<not> accepts (watermark (ev_snapshot s)) ob" unfolding refuses_def by blast
  have k: "states_keyed (ad_states db)" using ok by (simp add: alert_ok_def memory_ok_def)
  let ?p = "\<lambda>s. ev_rule_id s = ru_id (fst rec) \<and> ev_resource_key s = resource_key e c"
  obtain x where x: "List.find ?p (ad_states db) = Some x"
    using s by (cases "List.find ?p (ad_states db)") (auto simp: find_None_iff)
  then have "x \<in> set (ad_states db)" "?p x" by (auto dest: find_some)
  then have "x = s" using state_determined [OF k _ s(1)] s by simp
  with x have "state_for uuid (fst rec) (resource_key e c) e c db = Inr (s, db)" by (simp add: state_for_def)
  with cfg s(4) evaluate_threshold_refused [of "ev_snapshot s" ob "rv_config (snd rec)"] show ?thesis
    by (auto simp: evaluate_rule_def apply_decision_def)
qed

lemma refused_after_all:
  "alert_ok db \<Longrightarrow> evaluate_rules uuid e ob c recs db = Inr (ds, db')
    \<Longrightarrow> (\<forall>rec \<in> set recs. refuses ob (ru_id (fst rec)) (resource_key e c) db'
          \<and> check_rule_config (rv_config (snd rec)) = Inr (rv_config (snd rec)))
      \<and> (\<forall>i k. refuses ob i k db \<longrightarrow> refuses ob i k db')"
proof (induction recs arbitrary: db ds)
  case (Cons rec recs)
  then obtain d db1 ds' where r: "evaluate_rule uuid e ob c rec db = Inr (d, db1)" "evaluate_rules uuid e ob c recs db1 = Inr (ds', db')"
    by (auto simp: ebind_eq_Inr)
  from evaluate_rule_good [OF Cons.prems(1) r(1)] have ok: "alert_ok db1" by (simp add: good_step_def)
  have "check_rule_config (rv_config (snd rec)) = Inr (rv_config (snd rec))" using r(1) by (rule evaluate_rule_split)
  with Cons.IH [OF ok r(2)] refused_after [OF Cons.prems(1) r(1)] show ?case by auto
qed simp

lemma refused_all:
  "alert_ok db \<Longrightarrow> \<forall>rec \<in> set recs. refuses ob (ru_id (fst rec)) (resource_key e c) db
      \<and> check_rule_config (rv_config (snd rec)) = Inr (rv_config (snd rec))
    \<Longrightarrow> \<exists>ds. evaluate_rules uuid e ob c recs db = Inr (ds, db) \<and> length ds = length recs
      \<and> set ds \<subseteq> {IgnoreDuplicate, IgnoreOutOfOrder}"
proof (induction recs)
  case (Cons rec recs)
  then obtain ds where "evaluate_rules uuid e ob c recs db = Inr (ds, db)" "length ds = length recs"
    "set ds \<subseteq> {IgnoreDuplicate, IgnoreOutOfOrder}" by auto
  moreover obtain d where "evaluate_rule uuid e ob c rec db = Inr (d, db)" "d = IgnoreDuplicate \<or> d = IgnoreOutOfOrder"
    using refused_again [OF Cons.prems(1)] Cons.prems(2) by (meson list.set_intros(1))
  ultimately show ?case by auto
qed simp

text \<open>C9: Processing is idempotent. When an event was processed without an exception, processing it again, as the
  replay of the ingestion worker does, whatever identifiers are drawn, changes no table, and every matching rule
  ignores it as a duplicate or as out of order.\<close>

theorem processing_idempotent:
  assumes "alert_ok db" and "process_payload uuid org e payload db = (Inr ds, db1)"
  shows "\<exists>ds'. process_payload uuid' org e payload db1 = (Inr ds', db1) \<and> length ds' = length ds
    \<and> set ds' \<subseteq> {IgnoreDuplicate, IgnoreOutOfOrder}"
proof -
  from process_good [OF assms] have g: "alert_ok db1" "evolves e db db1" by (simp_all add: good_step_def)
  let ?c = "context_for_event org e payload db"
  have same: "context_for_event org e payload db1 = ?c" "matching_rules e c db1 = matching_rules e c db" for c
    using g(2) by (simp_all add: evolves_def context_for_event_def matching_rules_def current_of_def)
  from assms(2) obtain ob where ob: "make_observation (te_event_id e) (te_captured_at e) (te_value e) = Inr ob"
    "evaluate_rules uuid e ob ?c (matching_rules e ?c db) db = Inr (ds, db1)"
    by (auto simp: process_payload_def rolled_back_def Let_def ebind_eq_Inr split: sum.splits)
  have len: "evaluate_rules uuid e ob c recs x = Inr (xs, y) \<Longrightarrow> length xs = length recs" for c recs x xs y
    by (induction recs arbitrary: x xs) (auto simp: ebind_eq_Inr)
  from refused_after_all [OF assms(1) ob(2)] have "\<forall>rec \<in> set (matching_rules e ?c db).
      refuses ob (ru_id (fst rec)) (resource_key e ?c) db1 \<and> check_rule_config (rv_config (snd rec)) = Inr (rv_config (snd rec))" by blast
  from refused_all [OF g(1) this, of uuid'] obtain ds' where
    "evaluate_rules uuid' e ob ?c (matching_rules e ?c db) db1 = Inr (ds', db1)" "length ds' = length (matching_rules e ?c db)"
    "set ds' \<subseteq> {IgnoreDuplicate, IgnoreOutOfOrder}" by blast
  with ob(1) same len [OF ob(2)] show ?thesis by (simp add: process_payload_def rolled_back_def Let_def)
qed

section \<open>Concrete runs\<close>

definition sim_db_rules :: alert_db where
  "sim_db_rules = \<lparr>ad_rules = [\<lparr>ru_id = ''r1'', ru_organization_id = ''org'', ru_name = ''hot'', ru_description = None,
       ru_enabled = True, ru_severity = SeverityCritical, ru_node_id = None, ru_equipment_id = None, ru_channel_id = None,
       ru_metric = ''temperature'', ru_session_id = None, ru_current_version = 1, ru_created_by = ''op'', ru_created_at = 0,
       ru_updated_at = 0\<rparr>],
     ad_versions = [\<lparr>rv_id = ''v1'', rv_rule_id = ''r1'', rv_version = 1,
       rv_config = sim_rule\<lparr>rc_minimum_duration_seconds := 0, rc_clear_duration_seconds := 0\<rparr>, rv_configuration = [],
       rv_created_by = ''op'', rv_created_at = 0\<rparr>],
     ad_states = [], ad_alerts = [], ad_transitions = [], ad_evidence = [], ad_contexts = [], ad_sessions = []\<rparr>"

definition sim_reading :: "string \<Rightarrow> int \<Rightarrow> pyfloat \<Rightarrow> telemetry_event" where
  "sim_reading i t v = \<lparr>te_event_id = i, te_node_id = ''n'', te_captured_at = t * second, te_metric = ''temperature'',
     te_value = Some v, te_unit = ''C'', te_quality = ''valid'', te_source = ''s'', te_equipment_id = ''q'', te_channel_id = ''c'',
     te_alarm = None, te_raw_value = None, te_raw_status = None\<rparr>"

definition sim_uuid :: "string \<Rightarrow> uuids" where
  "sim_uuid prefix rule role = prefix @ rule @ role"

lemma sim_rules_ok: "alert_ok sim_db_rules"
proof -
  have "{v. v = x \<and> P v} = (if P x then {x} else {})" for x :: rule_version and P by auto
  then show ?thesis
    by (simp add: alert_ok_def alerts_ok_def memory_ok_def states_keyed_def rules_ok_def sim_db_rules_def)
qed

lemmas sim_processing = process_payload_def rolled_back_def make_observation_def context_for_event_def matching_rules_def
  current_of_def rule_matches_def unrestricted_def evaluate_rule_def state_for_def insert_unique_def check_rule_config_def
  evaluate_threshold_def evaluate_idle_def apply_decision_def trigger_alert_def new_alert_def insert_alert_def insert_transition_def
  insert_evidence_def system_transition_def is_triggered_def after_seconds_def timedelta_of_def add_delta_def instant_min_def
  instant_max_def trigger_duration_seconds_def since_def accepted_snapshot_def Let_def

lemma sim_strips: "strip ''org'' = ''org''" "strip ''e1'' = ''e1''"
  by code_simp+

lemma sim_triggered:
  "fst (process_payload (sim_uuid ''a'') ''org'' (sim_reading ''e1'' 10 9) [] sim_db_rules) = Inr [Trigger]"
  by (simp add: sim_processing sim_db_rules_def sim_reading_def sim_rule_def no_memory_def resource_key_def or_text_def sim_uuid_def
    sim_strips cong: if_cong)

lemma processing_idempotent_witness:
  "let db1 = snd (process_payload (sim_uuid ''a'') ''org'' (sim_reading ''e1'' 10 9) [] sim_db_rules) in
   \<exists>d. (d = IgnoreDuplicate \<or> d = IgnoreOutOfOrder)
     \<and> process_payload (sim_uuid ''b'') ''org'' (sim_reading ''e1'' 10 9) [] db1 = (Inr [d], db1)"
proof -
  let ?p = "process_payload (sim_uuid ''a'') ''org'' (sim_reading ''e1'' 10 9) [] sim_db_rules"
  have p: "?p = (Inr [Trigger], snd ?p)" using sim_triggered by (metis prod.collapse)
  from processing_idempotent [OF sim_rules_ok p, of "sim_uuid ''b''"] obtain ds where
    "process_payload (sim_uuid ''b'') ''org'' (sim_reading ''e1'' 10 9) [] (snd ?p) = (Inr ds, snd ?p)" "length ds = 1"
    "set ds \<subseteq> {IgnoreDuplicate, IgnoreOutOfOrder}" by auto
  then show ?thesis by (auto simp: Let_def length_Suc_conv)
qed

lemma alert_history_sound_witness:
  "alert_ok (snd (process_payload (sim_uuid ''a'') ''org'' (sim_reading ''e1'' 10 9) [] sim_db_rules))"
proof -
  have "alert_reaches sim_db_rules (snd (process_payload (sim_uuid ''a'') ''org'' (sim_reading ''e1'' 10 9) [] sim_db_rules))"
    by (rule alert_reaches.step [OF alert_reaches.start], rule alert_step.processed, rule prod.collapse [symmetric])
  from alert_history_sound [OF sim_rules_ok this] show ?thesis by simp
qed

text \<open>A rule whose alert was resolved and not closed.\<close>

definition sim_resolved :: alert_instance where
  "sim_resolved = \<lparr>al_id = ''a'', al_organization_id = ''org'', al_rule_id = ''r1'', al_rule_version_id = ''v1'',
     al_resource_key = ''org|-|n|q|c|temperature'', al_event = sim_reading ''e1'' 10 9, al_state = AlertResolved,
     al_severity = SeverityCritical, al_trigger_threshold = 8, al_clear_threshold = 7, al_maximum_deviation = 1,
     al_last_event_id = ''e2'', al_context = context_for_event ''org'' (sim_reading ''e1'' 10 9) [] sim_db_rules,
     al_triggered_at = 10 * second, al_acknowledged_at = None, al_resolved_at = Some (20 * second), al_closed_at = None,
     al_lock_version = 2, al_created_at = 10 * second, al_updated_at = 20 * second\<rparr>"

definition sim_db_resolved :: alert_db where
  "sim_db_resolved = sim_db_rules\<lparr>
     ad_states := [\<lparr>ev_id = ''s'', ev_organization_id = ''org'', ev_rule_id = ''r1'', ev_resource_key = ''org|-|n|q|c|temperature'',
       ev_snapshot = no_memory\<lparr>es_last_event_id := Some ''e2'', es_last_captured_at := Some (20 * second),
         es_active_alert_id := Some ''a'', es_cooldown_until := Some (140 * second)\<rparr>, ev_updated_at = 20 * second\<rparr>],
     ad_alerts := [sim_resolved],
     ad_transitions := [system_transition ''t1'' sim_resolved ''alert_triggered'' None AlertActive (sim_reading ''e1'' 10 9) [],
       system_transition ''t2'' sim_resolved ''alert_resolved'' (Some AlertActive) AlertResolved (sim_reading ''e2'' 20 6) []]\<rparr>"

lemma sim_resolved_ok: "alert_ok sim_db_resolved"
proof -
  have "{v. v = x \<and> P v} = (if P x then {x} else {})" for x :: rule_version and P by auto
  then show ?thesis
    by (simp add: alert_ok_def alerts_ok_def memory_ok_def states_keyed_def rules_ok_def sim_db_rules_def sim_db_resolved_def
      sim_resolved_def system_transition_def history_of_def active_of_def open_alert_def belongs_def)
qed

lemma resolved_alert_masks_witness:
  "\<exists>a' \<in> set (ad_alerts (snd (process_payload (sim_uuid ''b'') ''org'' (sim_reading ''e3'' 200 99) [] sim_db_resolved))).
     al_id a' = ''a'' \<and> al_state a' = AlertResolved"
proof -
  have a: "sim_resolved \<in> set (ad_alerts sim_db_resolved)" "al_state sim_resolved = AlertResolved" "al_id sim_resolved = ''a''"
    by (simp_all add: sim_db_resolved_def sim_resolved_def)
  from resolved_alert_masks [OF sim_resolved_ok a(1,2) prod.collapse [symmetric]] a(3) show ?thesis by metis
qed

text \<open>A resolved alert is resolved again by every further reading beyond the clear threshold: the transition appended
  leads from resolved to resolved, the instant of the resolution moves, and so does the cooldown.\<close>

lemma resolved_twice:
  "let db = snd (process_payload (sim_uuid ''b'') ''org'' (sim_reading ''e3'' 30 6) [] sim_db_resolved) in
   map tn_previous_state (ad_transitions db) = [None, Some AlertActive, Some AlertResolved]
   \<and> map tn_next_state (ad_transitions db) = [AlertActive, AlertResolved, AlertResolved]
   \<and> map al_resolved_at (ad_alerts db) = [Some (30 * second)]
   \<and> map (\<lambda>s. es_cooldown_until (ev_snapshot s)) (ad_states db) = [Some (150 * second)]"
proof -
  have s: "strip ''e3'' = ''e3''" by code_simp
  show ?thesis
    by (simp add: sim_processing sim_db_rules_def sim_db_resolved_def sim_resolved_def sim_reading_def sim_rule_def no_memory_def
      resource_key_def or_text_def sim_uuid_def sim_strips s evaluate_open_def is_clear_def follow_alert_def resolve_alert_def
      find_alert_def update_alert_def evidence_of_def should_capture_evidence_def clear_decision_def apply_snapshot_def cong: if_cong)
qed

end
