(* ===== verification/Histories.thy ===== *)
theory Histories
  imports Prelude
begin

text \<open>
  The interface of a system that keeps a history: steps that keep a well-formedness predicate and only extend
  what was recorded. What one step promises holds along every run. The delivery outbox and the gateway around it
  are interpretations.
\<close>

locale kept_history =
  fixes step :: "'s \<Rightarrow> 's \<Rightarrow> bool"
    and sound :: "'s \<Rightarrow> bool"
    and extends :: "'s \<Rightarrow> 's \<Rightarrow> bool"
  assumes step_sound: "sound s \<Longrightarrow> step s t \<Longrightarrow> sound t"
    and step_extends: "sound s \<Longrightarrow> step s t \<Longrightarrow> extends s t"
    and extends_refl: "extends s s"
    and extends_trans: "extends s t \<Longrightarrow> extends t u \<Longrightarrow> extends s u"
begin

lemma run_keeps: "step\<^sup>*\<^sup>* s t \<Longrightarrow> sound s \<Longrightarrow> sound t \<and> extends s t"
proof (induction rule: rtranclp_induct)
  case (step t u)
  then show ?case using step_sound [of t u] step_extends [of t u] extends_trans [of s t u] by blast
qed (simp add: extends_refl)

lemma run_sound: "step\<^sup>*\<^sup>* s t \<Longrightarrow> sound s \<Longrightarrow> sound t"
  using run_keeps by blast

lemma run_extends: "step\<^sup>*\<^sup>* s t \<Longrightarrow> sound s \<Longrightarrow> extends s t"
  using run_keeps by blast

text \<open>A property that every step keeps, given soundness, is kept by every run.\<close>

lemma run_invariant:
  assumes "step\<^sup>*\<^sup>* s t" and "sound s" and "P s"
    and "\<And>a b. sound a \<Longrightarrow> P a \<Longrightarrow> step a b \<Longrightarrow> P b"
  shows "P t"
  using assms(1,3)
proof (induction rule: rtranclp_induct)
  case (step t u)
  from run_sound [OF step.hyps(1) assms(2)] step.IH [OF step.prems] step.hyps(2) show ?case by (rule assms(4))
qed

end

end
