(* ===== verification/DeliveryOutbox.thy ===== *)
theory DeliveryOutbox
  imports Instants Histories
begin

text \<open>
  \<open>services/telegram-gateway/app/outbox.py\<close> with the states of \<open>domain.py\<close>: the SQLite table of report deliveries.
  A delivery is one rendered snapshot for one destination, a chat and a topic in it (0 stands for none). Rows are
  listed in the order of their AUTOINCREMENT id.

  SQLite is not code of the repository. \<open>ob_script\<close> says what the next connections meet: \<open>Failing msg\<close> is a
  \<open>sqlite3.OperationalError\<close> before the commit, which leaves the table as it was, \<open>Working\<close> is none. Nothing in
  this module catches it. Every theorem holds for every script.
\<close>

section \<open>State\<close>

datatype delivery_state = PENDING | SENDING | SENT | RETRY_WAIT | FAILED

definition state_value :: "delivery_state \<Rightarrow> string" where
  "state_value s = (case s of PENDING \<Rightarrow> ''pending'' | SENDING \<Rightarrow> ''sending'' | SENT \<Rightarrow> ''sent''
     | RETRY_WAIT \<Rightarrow> ''retry_wait'' | FAILED \<Rightarrow> ''failed'')"

record report_snapshot =
  rs_id :: string
  rs_organization_id :: string
  rs_profile_id :: string
  rs_equipment_id :: string
  rs_scheduled_for :: instant
  rs_payload_sha256 :: string
  rs_payload :: "(string \<times> json) list"

record rendered_message =
  rm_text :: string
  rm_button_url :: string

record delivery_row =
  dr_id :: int
  dr_snapshot_id :: string
  dr_snapshot_sha256 :: string
  dr_chat_id :: string
  dr_thread_id :: int
  dr_text :: string
  dr_button_url :: string
  dr_state :: delivery_state
  dr_attempts :: int
  dr_available_at :: instant
  dr_locked_at :: "instant option"
  dr_last_attempt_at :: "instant option"
  dr_last_error_code :: "string option"
  dr_message_id :: "int option"
  dr_sent_at :: "instant option"
  dr_duplicate_risk :: bool
  dr_created_at :: instant
  dr_updated_at :: instant

datatype outbox_disk = Failing string | Working

record outbox =
  ob_rows :: "delivery_row list"
  ob_last_id :: int
  ob_script :: "outbox_disk list"

text \<open>\<open>_record\<close> reads a row into a \<open>DeliveryRecord\<close>.\<close>

record delivery_record =
  de_id :: int
  de_snapshot_id :: string
  de_snapshot_sha256 :: string
  de_chat_id :: string
  de_thread_id :: "int option"
  de_text :: string
  de_button_url :: string
  de_state :: delivery_state
  de_attempts :: int
  de_available_at :: instant
  de_locked_at :: "instant option"
  de_last_attempt_at :: "instant option"
  de_last_error_code :: "string option"
  de_message_id :: "int option"
  de_sent_at :: "instant option"
  de_duplicate_risk :: bool

definition thread_record_value :: "delivery_row \<Rightarrow> int option" where
  "thread_record_value r = (if dr_thread_id r = 0 then None else Some (dr_thread_id r))"

definition record_of :: "delivery_row \<Rightarrow> delivery_record" where
  "record_of r = \<lparr>de_id = dr_id r, de_snapshot_id = dr_snapshot_id r, de_snapshot_sha256 = dr_snapshot_sha256 r,
     de_chat_id = dr_chat_id r, de_thread_id = thread_record_value r, de_text = dr_text r,
     de_button_url = dr_button_url r, de_state = dr_state r, de_attempts = dr_attempts r,
     de_available_at = dr_available_at r, de_locked_at = dr_locked_at r, de_last_attempt_at = dr_last_attempt_at r,
     de_last_error_code = dr_last_error_code r, de_message_id = dr_message_id r, de_sent_at = dr_sent_at r,
     de_duplicate_risk = dr_duplicate_risk r\<rparr>"

section \<open>Arguments\<close>

definition thread_db_value :: "int option \<Rightarrow> int result" where
  "thread_db_value value = (case value of None \<Rightarrow> Inr 0
     | Some v \<Rightarrow> if v \<le> 0 then Inl (ValueError ''destination_message_thread_id must be a positive integer when set'')
         else Inr v)"

definition required :: "string \<Rightarrow> string \<Rightarrow> int \<Rightarrow> string result" where
  "required value field maximum = (let normalized = strip value in
     if normalized = [] \<or> maximum < int (length normalized)
     then Inl (ValueError (field @ '' must contain 1..'' @ dec maximum @ '' characters'')) else Inr normalized)"

definition optional_error :: "string option \<Rightarrow> string option" where
  "optional_error value = (case value of None \<Rightarrow> None
     | Some v \<Rightarrow> let normalized = strip v in if normalized = [] then None else Some (take 96 normalized))"

section \<open>Connections\<close>

text \<open>One connection as a context manager: it takes the next entry of the script.\<close>

definition connected :: "(outbox \<Rightarrow> 'a result \<times> outbox) \<Rightarrow> outbox \<Rightarrow> 'a result \<times> outbox" where
  "connected call ob = (case ob_script ob of
       [] \<Rightarrow> call ob
     | Failing msg # rest \<Rightarrow> (Inl (OperationalError msg), ob\<lparr>ob_script := rest\<rparr>)
     | Working # rest \<Rightarrow> call (ob\<lparr>ob_script := rest\<rparr>))"

text \<open>A call whose arguments are checked before the connection is opened.\<close>

definition checked :: "'a result \<Rightarrow> ('a \<Rightarrow> outbox \<Rightarrow> 'b result \<times> outbox) \<Rightarrow> outbox \<Rightarrow> 'b result \<times> outbox" where
  "checked arg call ob = (case arg of Inl e \<Rightarrow> (Inl e, ob) | Inr a \<Rightarrow> call a ob)"

definition identified :: "string \<Rightarrow> string \<Rightarrow> int \<Rightarrow> delivery_row \<Rightarrow> bool" where
  "identified snapshot chat thread r =
     (dr_snapshot_id r = snapshot \<and> dr_chat_id r = chat \<and> dr_thread_id r = thread)"

text \<open>\<open>SELECT ... WHERE\<close> on the identity or on the id finds at most one row.\<close>

definition find_delivery :: "string \<Rightarrow> string \<Rightarrow> int \<Rightarrow> outbox \<Rightarrow> delivery_row option" where
  "find_delivery snapshot chat thread ob = find (identified snapshot chat thread) (ob_rows ob)"

definition row_of_id :: "int \<Rightarrow> outbox \<Rightarrow> delivery_row option" where
  "row_of_id i ob = find (\<lambda>r. dr_id r = i) (ob_rows ob)"

text \<open>\<open>UPDATE ... WHERE id = ?\<close>.\<close>

definition update_row :: "int \<Rightarrow> (delivery_row \<Rightarrow> delivery_row) \<Rightarrow> outbox \<Rightarrow> outbox" where
  "update_row i f ob = ob\<lparr>ob_rows := map (\<lambda>r. if dr_id r = i then f r else r) (ob_rows ob)\<rparr>"

section \<open>Operations\<close>

definition new_row :: "int \<Rightarrow> report_snapshot \<Rightarrow> string \<Rightarrow> int \<Rightarrow> rendered_message \<Rightarrow> instant \<Rightarrow> delivery_row" where
  "new_row i snapshot chat thread rendered now =
     \<lparr>dr_id = i, dr_snapshot_id = rs_id snapshot, dr_snapshot_sha256 = rs_payload_sha256 snapshot,
      dr_chat_id = chat, dr_thread_id = thread, dr_text = rm_text rendered,
      dr_button_url = rm_button_url rendered, dr_state = PENDING, dr_attempts = 0,
      dr_available_at = now, dr_locked_at = None, dr_last_attempt_at = None, dr_last_error_code = None,
      dr_message_id = None, dr_sent_at = None, dr_duplicate_risk = False,
      dr_created_at = now, dr_updated_at = now\<rparr>"

definition enqueue_call :: "report_snapshot \<Rightarrow> string \<Rightarrow> int \<Rightarrow> rendered_message \<Rightarrow> instant \<Rightarrow> outbox
    \<Rightarrow> (delivery_record \<times> bool) result \<times> outbox" where
  "enqueue_call snapshot chat thread rendered now ob =
     (case find_delivery (rs_id snapshot) chat thread ob of
        Some r \<Rightarrow>
          if dr_snapshot_sha256 r \<noteq> rs_payload_sha256 snapshot then
            (Inl (DeliveryOutboxError ''snapshot identity is already bound to different immutable content''), ob)
          else (Inr (record_of r, True), ob)
      | None \<Rightarrow>
          let i = ob_last_id ob + 1; r = new_row i snapshot chat thread rendered now
          in (Inr (record_of r, False), ob\<lparr>ob_rows := ob_rows ob @ [r], ob_last_id := i\<rparr>))"

definition enqueue :: "report_snapshot \<Rightarrow> string \<Rightarrow> rendered_message \<Rightarrow> int option \<Rightarrow> instant \<Rightarrow> outbox
    \<Rightarrow> (delivery_record \<times> bool) result \<times> outbox" where
  "enqueue snapshot chat rendered thread now =
     checked (required chat ''destination_chat_id'' 64) (\<lambda>destination.
       checked (thread_db_value thread) (\<lambda>thread_id.
         connected (enqueue_call snapshot destination thread_id rendered now)))"

definition is_stale :: "instant \<Rightarrow> delivery_row \<Rightarrow> bool" where
  "is_stale stale_before r = (dr_state r = SENDING
     \<and> (case dr_locked_at r of None \<Rightarrow> False | Some t \<Rightarrow> t \<le> stale_before))"

definition recovered_row :: "instant \<Rightarrow> delivery_row \<Rightarrow> delivery_row" where
  "recovered_row now r = r\<lparr>dr_state := RETRY_WAIT, dr_available_at := now, dr_locked_at := None,
     dr_last_error_code := Some ''delivery_outcome_unknown_after_restart'', dr_duplicate_risk := True,
     dr_updated_at := now\<rparr>"

text \<open>The delay is given in microseconds.\<close>

definition recover_stale_sending :: "int \<Rightarrow> instant \<Rightarrow> outbox \<Rightarrow> int result \<times> outbox" where
  "recover_stale_sending stale_after now =
     checked (if stale_after \<le> 0 then Inl (ValueError ''stale_after must be positive'') else add_delta now (- stale_after))
       (\<lambda>stale_before. connected (\<lambda>ob.
         (Inr (int (length (filter (is_stale stale_before) (ob_rows ob)))),
          ob\<lparr>ob_rows := map (\<lambda>r. if is_stale stale_before r then recovered_row now r else r) (ob_rows ob)\<rparr>)))"

definition claimed_row :: "instant \<Rightarrow> delivery_row \<Rightarrow> delivery_row" where
  "claimed_row now r = r\<lparr>dr_state := SENDING, dr_attempts := dr_attempts r + 1, dr_locked_at := Some now,
     dr_last_attempt_at := Some now, dr_last_error_code := None, dr_updated_at := now\<rparr>"

definition is_ready :: "instant \<Rightarrow> delivery_row \<Rightarrow> bool" where
  "is_ready now r = ((dr_state r = PENDING \<or> dr_state r = RETRY_WAIT) \<and> dr_available_at r \<le> now)"

text \<open>\<open>ORDER BY available_at, id LIMIT 1\<close>.\<close>

fun first_ready :: "delivery_row list \<Rightarrow> delivery_row option" where
  "first_ready [] = None"
| "first_ready (r # rs) = (case first_ready rs of
       None \<Rightarrow> Some r
     | Some s \<Rightarrow> if dr_available_at s < dr_available_at r
         \<or> dr_available_at s = dr_available_at r \<and> dr_id s < dr_id r then Some s else Some r)"

definition claim_row :: "instant \<Rightarrow> delivery_row \<Rightarrow> outbox \<Rightarrow> outbox" where
  "claim_row now r = update_row (dr_id r) (claimed_row now)"

definition claim_first :: "(delivery_row \<Rightarrow> bool) \<Rightarrow> instant \<Rightarrow> outbox \<Rightarrow> delivery_record option result \<times> outbox" where
  "claim_first wanted now ob =
     (case first_ready (filter (\<lambda>r. is_ready now r \<and> wanted r) (ob_rows ob)) of
        None \<Rightarrow> (Inr None, ob)
      | Some r \<Rightarrow> (Inr (Some (record_of (claimed_row now r))), claim_row now r ob))"

definition claim_next :: "instant \<Rightarrow> outbox \<Rightarrow> delivery_record option result \<times> outbox" where
  "claim_next now = connected (claim_first (\<lambda>r. True) now)"

definition claim_next_for_destination ::
  "string \<Rightarrow> int option \<Rightarrow> instant \<Rightarrow> outbox \<Rightarrow> delivery_record option result \<times> outbox" where
  "claim_next_for_destination chat thread now =
     checked (required chat ''destination_chat_id'' 64) (\<lambda>destination.
       checked (thread_db_value thread) (\<lambda>thread_id.
         connected (claim_first (\<lambda>r. dr_chat_id r = destination \<and> dr_thread_id r = thread_id) now)))"

definition claim_exact_call :: "string \<Rightarrow> string \<Rightarrow> int \<Rightarrow> instant \<Rightarrow> outbox \<Rightarrow> delivery_record result \<times> outbox" where
  "claim_exact_call snapshot chat thread now ob =
     (case find_delivery snapshot chat thread ob of
        None \<Rightarrow> (Inl (DeliveryOutboxError ''exact delivery was not found''), ob)
      | Some r \<Rightarrow>
          if dr_state r \<noteq> PENDING then (Inl (DeliveryOutboxError ''exact delivery is not pending''), ob)
          else if now < dr_available_at r then (Inl (DeliveryOutboxError ''exact delivery is not available''), ob)
          else (Inr (record_of (claimed_row now r)), claim_row now r ob))"

definition claim_exact :: "string \<Rightarrow> string \<Rightarrow> int option \<Rightarrow> instant \<Rightarrow> outbox \<Rightarrow> delivery_record result \<times> outbox" where
  "claim_exact snapshot_id chat thread now =
     checked (required snapshot_id ''snapshot_id'' 128) (\<lambda>snapshot.
       checked (required chat ''destination_chat_id'' 64) (\<lambda>destination.
         checked (thread_db_value thread) (\<lambda>thread_id.
           connected (claim_exact_call snapshot destination thread_id now))))"

text \<open>\<open>_transition_from_sending\<close>.\<close>

definition settled_row :: "delivery_state \<Rightarrow> instant \<Rightarrow> string option \<Rightarrow> int option \<Rightarrow> instant option \<Rightarrow> instant
    \<Rightarrow> bool \<Rightarrow> delivery_row \<Rightarrow> delivery_row" where
  "settled_row state available_at error_code message_id sent_at now risk r =
     r\<lparr>dr_state := state, dr_available_at := available_at, dr_locked_at := None,
       dr_last_error_code := optional_error error_code, dr_message_id := message_id, dr_sent_at := sent_at,
       dr_updated_at := now, dr_duplicate_risk := (dr_duplicate_risk r \<or> risk)\<rparr>"

definition transition_from_sending :: "int \<Rightarrow> (delivery_row \<Rightarrow> delivery_row) \<Rightarrow> outbox \<Rightarrow> delivery_record result \<times> outbox" where
  "transition_from_sending i f = connected (\<lambda>ob.
     case row_of_id i ob of
       None \<Rightarrow> (Inl (DeliveryOutboxError ''delivery was not found''), ob)
     | Some r \<Rightarrow>
         if dr_state r \<noteq> SENDING then (Inl (DeliveryOutboxError ''delivery is not in sending state''), ob)
         else (Inr (record_of (f r)), update_row i f ob))"

definition mark_sent :: "int \<Rightarrow> int \<Rightarrow> instant \<Rightarrow> outbox \<Rightarrow> delivery_record result \<times> outbox" where
  "mark_sent i message_id now =
     transition_from_sending i (settled_row SENT now None (Some message_id) (Some now) now False)"

definition mark_retry :: "int \<Rightarrow> int \<Rightarrow> string \<Rightarrow> instant \<Rightarrow> outbox \<Rightarrow> delivery_record result \<times> outbox" where
  "mark_retry i delay error_code now =
     checked (if delay < 0 then Inl (ValueError ''retry delay cannot be negative'') else add_delta now delay)
       (\<lambda>available_at. transition_from_sending i (settled_row RETRY_WAIT available_at (Some error_code) None None now False))"

definition mark_failed :: "int \<Rightarrow> string \<Rightarrow> bool \<Rightarrow> instant \<Rightarrow> outbox \<Rightarrow> delivery_record result \<times> outbox" where
  "mark_failed i error_code risk now =
     transition_from_sending i (settled_row FAILED now (Some error_code) None None now risk)"

text \<open>The two queries.\<close>

definition count_state :: "delivery_state \<Rightarrow> delivery_row list \<Rightarrow> int" where
  "count_state s rows = int (length (filter (\<lambda>r. dr_state r = s) rows))"

definition counts :: "outbox \<Rightarrow> (string, int) dict result \<times> outbox" where
  "counts = connected (\<lambda>ob. (Inr (map (\<lambda>s. (state_value s, count_state s (ob_rows ob)))
       [PENDING, SENDING, SENT, RETRY_WAIT, FAILED]
     @ [(''duplicate_risk'', int (length (filter dr_duplicate_risk (ob_rows ob))))]), ob))"

definition get_by_snapshot :: "string \<Rightarrow> string \<Rightarrow> int option \<Rightarrow> outbox \<Rightarrow> delivery_record option result \<times> outbox" where
  "get_by_snapshot snapshot chat thread = connected (\<lambda>ob. checked (thread_db_value thread) (\<lambda>thread_id ob.
     (Inr (map_option record_of (find_delivery snapshot chat thread_id ob)), ob)) ob)"

section \<open>Well-formed tables\<close>

definition row_ok :: "delivery_row \<Rightarrow> bool" where
  "row_ok r = (0 \<le> dr_thread_id r \<and> 0 \<le> dr_attempts r
     \<and> (dr_state r = SENDING \<longleftrightarrow> dr_locked_at r \<noteq> None)
     \<and> (dr_state r = SENT \<longleftrightarrow> dr_sent_at r \<noteq> None)
     \<and> (dr_state r = SENT \<longleftrightarrow> dr_message_id r \<noteq> None)
     \<and> (dr_state r = PENDING \<longleftrightarrow> dr_attempts r = 0)
     \<and> (dr_state r = PENDING \<longrightarrow> \<not> dr_duplicate_risk r)
     \<and> (case dr_last_error_code r of None \<Rightarrow> True | Some c \<Rightarrow> length c \<le> 96))"

definition identity :: "delivery_row \<Rightarrow> string \<times> string \<times> int" where
  "identity r = (dr_snapshot_id r, dr_chat_id r, dr_thread_id r)"

definition outbox_ok :: "outbox \<Rightarrow> bool" where
  "outbox_ok ob = (sorted_wrt (<) (map dr_id (ob_rows ob)) \<and> distinct (map identity (ob_rows ob))
     \<and> (\<forall>r \<in> set (ob_rows ob). dr_id r \<le> ob_last_id ob \<and> row_ok r))"

text \<open>What may become of a row: its identity and its content stay, attempts and the risk of a duplicate only
  grow, a row that is sent or failed stays as it is, and none becomes pending again.\<close>

definition same_delivery :: "delivery_row \<Rightarrow> delivery_row \<Rightarrow> bool" where
  "same_delivery r r' = (dr_id r' = dr_id r \<and> identity r' = identity r \<and> dr_snapshot_sha256 r' = dr_snapshot_sha256 r
     \<and> dr_text r' = dr_text r \<and> dr_button_url r' = dr_button_url r \<and> dr_created_at r' = dr_created_at r
     \<and> dr_attempts r \<le> dr_attempts r' \<and> (dr_duplicate_risk r \<longrightarrow> dr_duplicate_risk r'))"

definition becomes :: "delivery_row \<Rightarrow> delivery_row \<Rightarrow> bool" where
  "becomes r r' = (same_delivery r r' \<and> (dr_state r \<in> {SENT, FAILED} \<longrightarrow> r' = r) \<and> (dr_state r' = PENDING \<longrightarrow> r' = r))"

definition outgrows :: "outbox \<Rightarrow> outbox \<Rightarrow> bool" where
  "outgrows ob ob' = (ob_last_id ob \<le> ob_last_id ob'
     \<and> (\<forall>r \<in> set (ob_rows ob). \<exists>r' \<in> set (ob_rows ob'). becomes r r'))"

lemma becomes_refl [simp]: "becomes r r"
  by (simp add: becomes_def same_delivery_def)

lemma becomesI: "same_delivery r r' \<Longrightarrow> dr_state r \<notin> {SENT, FAILED} \<Longrightarrow> dr_state r' \<noteq> PENDING \<Longrightarrow> becomes r r'"
  by (simp only: becomes_def) blast

lemma becomes_same: "becomes r r' \<Longrightarrow> same_delivery r r'"
  by (simp only: becomes_def)

lemma becomes_final: "becomes r r' \<Longrightarrow> dr_state r \<in> {SENT, FAILED} \<Longrightarrow> r' = r"
  by (simp only: becomes_def)

lemma becomes_pending: "becomes r r' \<Longrightarrow> dr_state r' = PENDING \<Longrightarrow> r' = r"
  by (simp only: becomes_def)

lemma becomes_trans:
  assumes "becomes a b" and "becomes b c"
  shows "becomes a c"
proof -
  have "same_delivery a b" "same_delivery b c" using assms becomes_same by blast+
  then have "same_delivery a c" by (simp add: same_delivery_def)
  moreover have "c = a" if "dr_state a \<in> {SENT, FAILED}" using becomes_final assms that by metis
  moreover have "c = a" if "dr_state c = PENDING" using becomes_pending assms that by metis
  ultimately show ?thesis by (simp only: becomes_def) blast
qed

lemma outgrows_refl: "outgrows ob ob"
  by (auto simp: outgrows_def intro: becomes_refl)

lemma outgrows_trans: "outgrows a b \<Longrightarrow> outgrows b c \<Longrightarrow> outgrows a c"
  unfolding outgrows_def by (meson becomes_trans order_trans)

lemma script_irrelevant [simp]:
  "outbox_ok (ob\<lparr>ob_script := s\<rparr>) = outbox_ok ob"
  "outgrows ob (ob'\<lparr>ob_script := s\<rparr>) = outgrows ob ob'"
  "outgrows (ob\<lparr>ob_script := s\<rparr>) ob' = outgrows ob ob'"
  by (simp_all add: outbox_ok_def outgrows_def)

lemma outbox_id:
  assumes "outbox_ok ob" and "r \<in> set (ob_rows ob)" and "s \<in> set (ob_rows ob)" and "dr_id r = dr_id s"
  shows "r = s"
  using ids_determine [of dr_id "ob_rows ob" r s] assms by (simp add: outbox_ok_def)

lemma outbox_identity:
  assumes "outbox_ok ob" and "r \<in> set (ob_rows ob)" and "s \<in> set (ob_rows ob)" and "identity r = identity s"
  shows "r = s"
  using assms by (auto simp: outbox_ok_def distinct_map dest: inj_onD)

lemma row_of_id_iff:
  assumes "outbox_ok ob"
  shows "row_of_id i ob = Some r \<longleftrightarrow> r \<in> set (ob_rows ob) \<and> dr_id r = i"
proof (cases "row_of_id i ob")
  case None
  then have "\<forall>x \<in> set (ob_rows ob). dr_id x \<noteq> i" by (auto simp: row_of_id_def find_None_iff)
  with None show ?thesis by auto
next
  case (Some x)
  then have x: "x \<in> set (ob_rows ob)" "dr_id x = i" by (auto simp: row_of_id_def find_Some_iff)
  with Some show ?thesis using outbox_id [OF assms _ x(1), of r] by auto
qed

lemma find_delivery_iff:
  assumes "outbox_ok ob"
  shows "find_delivery s c t ob = Some r \<longleftrightarrow> r \<in> set (ob_rows ob) \<and> identity r = (s, c, t)"
proof (cases "find_delivery s c t ob")
  case None
  then have "\<forall>x \<in> set (ob_rows ob). identity x \<noteq> (s, c, t)"
    by (auto simp: find_delivery_def find_None_iff identified_def identity_def)
  with None show ?thesis by auto
next
  case (Some x)
  then have x: "x \<in> set (ob_rows ob)" "identity x = (s, c, t)"
    by (auto simp: find_delivery_def find_Some_iff identified_def identity_def)
  with Some show ?thesis using outbox_identity [OF assms, of r x] by auto
qed

lemma changed_rows:
  assumes ok: "outbox_ok ob"
    and f: "\<And>r. r \<in> set (ob_rows ob) \<Longrightarrow> P r \<Longrightarrow> row_ok (f r) \<and> becomes r (f r)"
  defines "ob' \<equiv> ob\<lparr>ob_rows := map (\<lambda>r. if P r then f r else r) (ob_rows ob)\<rparr>"
  shows "outbox_ok ob' \<and> outgrows ob ob'"
proof -
  let ?g = "\<lambda>r. if P r then f r else r"
  have g: "row_ok (?g r)" "becomes r (?g r)" if "r \<in> set (ob_rows ob)" for r
    using f [OF that] ok that by (auto simp: outbox_ok_def)
  have gid: "dr_id (?g r) = dr_id r" if "r \<in> set (ob_rows ob)" for r 
    using becomes_same [OF g(2) [OF that]] by (simp only: same_delivery_def)
  have gident: "identity (?g r) = identity r" if "r \<in> set (ob_rows ob)" for r
    using becomes_same [OF g(2) [OF that]] by (simp only: same_delivery_def)
  have same: "map dr_id (ob_rows ob') = map dr_id (ob_rows ob)" "map identity (ob_rows ob') = map identity (ob_rows ob)"
    using gid gident unfolding ob'_def by simp_all
  have "\<exists>r' \<in> set (ob_rows ob'). becomes r r'" if "r \<in> set (ob_rows ob)" for r
    using g [OF that] that by (intro bexI [of _ "?g r"]) (auto simp: ob'_def)
  then have "outgrows ob ob'" by (simp add: outgrows_def ob'_def)
  moreover have "dr_id r \<le> ob_last_id ob' \<and> row_ok r" if r: "r \<in> set (ob_rows ob')" for r
  proof -
    from r obtain x where "x \<in> set (ob_rows ob)" "r = ?g x" unfolding ob'_def by auto
    with g(1) gid ok show ?thesis by (simp only: outbox_ok_def ob'_def) simp
  qed
  ultimately show ?thesis using ok unfolding outbox_ok_def same by blast
qed

section \<open>Every operation keeps the table\<close>

definition keeps_outbox :: "(outbox \<Rightarrow> 'a result \<times> outbox) \<Rightarrow> bool" where
  "keeps_outbox call = (\<forall>ob r ob'. outbox_ok ob \<longrightarrow> call ob = (r, ob') \<longrightarrow> outbox_ok ob' \<and> outgrows ob ob')"

named_theorems outbox_keeps

lemma connected_cases:
  assumes "connected call ob = (r, ob')"
  obtains msg s where "r = Inl (OperationalError msg)" "ob' = ob\<lparr>ob_script := s\<rparr>"
  | s where "call (ob\<lparr>ob_script := s\<rparr>) = (r, ob')"
proof (cases "ob_script ob")
  case Nil
  then have "call (ob\<lparr>ob_script := []\<rparr>) = (r, ob')" using assms by (cases ob) (simp add: connected_def)
  then show ?thesis by (rule that(2))
next
  case (Cons d ds)
  with assms that show ?thesis by (cases d) (auto simp: connected_def)
qed

lemma keeps_connected: "keeps_outbox call \<Longrightarrow> keeps_outbox (connected call)"
  unfolding keeps_outbox_def
proof (intro allI impI)
  fix ob r ob' assume k: "\<forall>ob r ob'. outbox_ok ob \<longrightarrow> call ob = (r, ob') \<longrightarrow> outbox_ok ob' \<and> outgrows ob ob'"
    and ok: "outbox_ok ob" and run: "connected call ob = (r, ob')"
  from run show "outbox_ok ob' \<and> outgrows ob ob'"
  proof (cases rule: connected_cases)
    case (1 msg s)
    with ok show ?thesis by (simp add: outgrows_refl)
  next
    case (2 s)
    with k ok have "outbox_ok ob' \<and> outgrows (ob\<lparr>ob_script := s\<rparr>) ob'" by (metis script_irrelevant(1))
    then show ?thesis by simp
  qed
qed

lemma keeps_checked: "(\<And>a. arg = Inr a \<Longrightarrow> keeps_outbox (call a)) \<Longrightarrow> keeps_outbox (checked arg call)"
  unfolding keeps_outbox_def checked_def by (auto simp: outgrows_refl split: sum.splits)

lemma thread_db_value_Inr: "thread_db_value t = Inr v \<Longrightarrow> 0 \<le> v"
  by (auto simp: thread_db_value_def split: option.splits if_splits)

lemma optional_error_short: "case optional_error c of None \<Rightarrow> True | Some c \<Rightarrow> length c \<le> 96"
  by (simp add: optional_error_def Let_def split: option.splits)

lemma enqueue_call_keeps:
  assumes "0 \<le> thread"
  shows "keeps_outbox (enqueue_call snapshot chat thread rendered now)"
  unfolding keeps_outbox_def
proof (intro allI impI)
  fix ob r ob' assume ok: "outbox_ok ob" and run: "enqueue_call snapshot chat thread rendered now ob = (r, ob')"
  show "outbox_ok ob' \<and> outgrows ob ob'"
  proof (cases "find_delivery (rs_id snapshot) chat thread ob")
    case None
    then have new: "(rs_id snapshot, chat, thread) \<notin> identity ` set (ob_rows ob)"
      by (auto simp: find_delivery_def find_None_iff identified_def identity_def)
    from run None obtain x where ob': "ob' = ob\<lparr>ob_rows := ob_rows ob @ [x], ob_last_id := ob_last_id ob + 1\<rparr>"
      and x: "dr_id x = ob_last_id ob + 1" "identity x = (rs_id snapshot, chat, thread)" "row_ok x"
      using assms by (auto simp: enqueue_call_def new_row_def row_ok_def identity_def Let_def)
    have "outbox_ok ob'" using ok new x unfolding ob' outbox_ok_def by (auto simp: sorted_wrt_append)
    moreover have "outgrows ob ob'" unfolding ob' outgrows_def by (auto intro: becomes_refl)
    ultimately show ?thesis ..
  next
    case (Some x)
    with ok run show ?thesis by (auto simp: enqueue_call_def outgrows_refl split: if_splits)
  qed
qed

lemma claimed_row_ok: "row_ok r \<Longrightarrow> dr_state r = PENDING \<or> dr_state r = RETRY_WAIT \<Longrightarrow> row_ok (claimed_row now r) \<and> becomes r (claimed_row now r)"
  by (intro conjI becomesI) (auto simp: row_ok_def same_delivery_def claimed_row_def identity_def)

lemma claim_row_keeps:
  assumes "outbox_ok ob" and "r \<in> set (ob_rows ob)" and "dr_state r = PENDING \<or> dr_state r = RETRY_WAIT"
  shows "outbox_ok (claim_row now r ob) \<and> outgrows ob (claim_row now r ob)"
  unfolding claim_row_def update_row_def
proof (rule changed_rows [OF assms(1)])
  fix s assume s: "s \<in> set (ob_rows ob)" "dr_id s = dr_id r"
  have "s = r" by (rule outbox_id [OF assms(1) s(1) assms(2) s(2)])
  with assms show "row_ok (claimed_row now s) \<and> becomes s (claimed_row now s)"
    by (intro claimed_row_ok) (auto simp: outbox_ok_def)
qed

lemma first_ready_None: "first_ready rs = None \<longleftrightarrow> rs = []"
  by (cases rs) (auto split: option.splits)

lemma first_ready_least:
  "first_ready rs = Some r \<Longrightarrow> r \<in> set rs \<and> (\<forall>s \<in> set rs. dr_available_at r < dr_available_at s
     \<or> dr_available_at r = dr_available_at s \<and> dr_id r \<le> dr_id s)"
  by (induction rs arbitrary: r) (fastforce simp: first_ready_None split: option.splits if_splits)+

lemma claim_first_keeps: "keeps_outbox (claim_first wanted now)"
  unfolding keeps_outbox_def
proof (intro allI impI)
  fix ob r ob' assume ok: "outbox_ok ob" and run: "claim_first wanted now ob = (r, ob')"
  show "outbox_ok ob' \<and> outgrows ob ob'"
  proof (cases "first_ready (filter (\<lambda>r. is_ready now r \<and> wanted r) (ob_rows ob))")
    case None
    with ok run show ?thesis by (simp add: claim_first_def outgrows_refl)
  next
    case (Some x)
    then have "x \<in> set (ob_rows ob)" "is_ready now x" by (auto dest!: first_ready_least)
    moreover have "ob' = claim_row now x ob" using run Some by (simp add: claim_first_def)
    ultimately show ?thesis using claim_row_keeps [OF ok] by (auto simp: is_ready_def)
  qed
qed

lemma claim_exact_call_keeps: "keeps_outbox (claim_exact_call s c t now)"
  unfolding keeps_outbox_def
proof (intro allI impI)
  fix ob r ob' assume ok: "outbox_ok ob" and run: "claim_exact_call s c t now ob = (r, ob')"
  show "outbox_ok ob' \<and> outgrows ob ob'"
  proof (cases "find_delivery s c t ob")
    case None
    with ok run show ?thesis by (simp add: claim_exact_call_def outgrows_refl)
  next
    case (Some x)
    with ok run claim_row_keeps [OF ok, of x now] find_delivery_iff [OF ok, of s c t x] show ?thesis
      by (simp add: claim_exact_call_def outgrows_refl split: if_splits)
  qed
qed

lemma transition_keeps:
  assumes "\<And>r. row_ok r \<Longrightarrow> dr_state r = SENDING \<Longrightarrow> row_ok (f r) \<and> becomes r (f r)"
  shows "keeps_outbox (transition_from_sending i f)"
  unfolding transition_from_sending_def
proof (rule keeps_connected, unfold keeps_outbox_def, intro allI impI)
  fix ob r ob' assume ok: "outbox_ok ob"
    and run: "(case row_of_id i ob of None \<Rightarrow> (Inl (DeliveryOutboxError ''delivery was not found''), ob)
       | Some r \<Rightarrow> if dr_state r \<noteq> SENDING then (Inl (DeliveryOutboxError ''delivery is not in sending state''), ob)
         else (Inr (record_of (f r)), update_row i f ob)) = (r, ob')"
  show "outbox_ok ob' \<and> outgrows ob ob'"
  proof (cases "\<exists>x. row_of_id i ob = Some x \<and> dr_state x = SENDING")
    case True
    then obtain x where x: "row_of_id i ob = Some x" "dr_state x = SENDING" by blast
    with run have ob': "ob' = update_row i f ob" by simp
    show ?thesis unfolding ob' update_row_def
    proof (rule changed_rows [OF ok])
      fix s assume s: "s \<in> set (ob_rows ob)" "dr_id s = i"
      have "x \<in> set (ob_rows ob)" "dr_id x = i" using x(1) row_of_id_iff [OF ok] by auto
      with s have "s = x" using outbox_id [OF ok s(1), of x] by simp
      with x s ok show "row_ok (f s) \<and> becomes s (f s)" by (intro assms) (auto simp: outbox_ok_def)
    qed
  next
    case False
    with run ok show ?thesis by (auto simp: outgrows_refl split: option.splits if_splits)
  qed
qed

lemma settled_row_ok:
  assumes "row_ok r" and "dr_state r = SENDING" and "state \<in> {SENT, RETRY_WAIT, FAILED}"
    and "(state = SENT) = (m \<noteq> None)" and "(state = SENT) = (t \<noteq> None)"
  shows "row_ok (settled_row state av c m t now risk r) \<and> becomes r (settled_row state av c m t now risk r)"
  using assms optional_error_short [of c]
  by (intro conjI becomesI) (auto simp: row_ok_def same_delivery_def settled_row_def identity_def)

lemma enqueue_keeps [outbox_keeps]: "keeps_outbox (enqueue snapshot chat rendered thread now)"
  unfolding enqueue_def
  by (intro keeps_checked keeps_connected enqueue_call_keeps thread_db_value_Inr)

lemma recover_keeps [outbox_keeps]: "keeps_outbox (recover_stale_sending stale_after now)"
  unfolding recover_stale_sending_def
proof (intro keeps_checked keeps_connected, unfold keeps_outbox_def, intro allI impI)
  fix before ob r ob' assume ok: "outbox_ok ob"
    and run: "(Inr (int (length (filter (is_stale before) (ob_rows ob)))),
      ob\<lparr>ob_rows := map (\<lambda>r. if is_stale before r then recovered_row now r else r) (ob_rows ob)\<rparr>) = (r, ob')"
  have "row_ok (recovered_row now r) \<and> becomes r (recovered_row now r)" if "r \<in> set (ob_rows ob)" "is_stale before r" for r
    using ok that by (intro conjI becomesI)
      (auto simp: outbox_ok_def row_ok_def same_delivery_def recovered_row_def identity_def is_stale_def)
  from changed_rows [OF ok, of "is_stale before" "recovered_row now", OF this] run
  show "outbox_ok ob' \<and> outgrows ob ob'" by simp
qed

lemma claim_next_keeps [outbox_keeps]: "keeps_outbox (claim_next now)"
  unfolding claim_next_def by (intro keeps_connected claim_first_keeps)

lemma claim_next_for_destination_keeps [outbox_keeps]: "keeps_outbox (claim_next_for_destination chat thread now)"
  unfolding claim_next_for_destination_def by (intro keeps_checked keeps_connected claim_first_keeps)

lemma claim_exact_keeps [outbox_keeps]: "keeps_outbox (claim_exact s c t now)"
  unfolding claim_exact_def by (intro keeps_checked keeps_connected claim_exact_call_keeps)

lemma mark_sent_keeps [outbox_keeps]: "keeps_outbox (mark_sent i m now)"
  unfolding mark_sent_def by (intro transition_keeps settled_row_ok) auto

lemma mark_retry_keeps [outbox_keeps]: "keeps_outbox (mark_retry i delay code now)"
  unfolding mark_retry_def by (intro keeps_checked transition_keeps settled_row_ok) auto

lemma mark_failed_keeps [outbox_keeps]: "keeps_outbox (mark_failed i code risk now)"
  unfolding mark_failed_def by (intro transition_keeps settled_row_ok) auto

text \<open>What a gateway process, a controlled send or a restart may do to the table, in any order.\<close>

inductive outbox_step :: "outbox \<Rightarrow> outbox \<Rightarrow> bool" where
  "enqueue snapshot chat rendered thread now ob = (a, ob') \<Longrightarrow> outbox_step ob ob'"
| "recover_stale_sending stale_after now ob = (b, ob') \<Longrightarrow> outbox_step ob ob'"
| "claim_next now ob = (c, ob') \<Longrightarrow> outbox_step ob ob'"
| "claim_next_for_destination chat thread now ob = (c, ob') \<Longrightarrow> outbox_step ob ob'"
| "claim_exact snapshot_id chat thread now ob = (d, ob') \<Longrightarrow> outbox_step ob ob'"
| "mark_sent i m now ob = (d, ob') \<Longrightarrow> outbox_step ob ob'"
| "mark_retry i delay code now ob = (d, ob') \<Longrightarrow> outbox_step ob ob'"
| "mark_failed i code risk now ob = (d, ob') \<Longrightarrow> outbox_step ob ob'"
| "outbox_step ob (ob\<lparr>ob_script := script\<rparr>)"

inductive_cases outbox_stepE: "outbox_step ob ob'"

lemma keepsD: "keeps_outbox call \<Longrightarrow> outbox_ok ob \<Longrightarrow> call ob = (r, ob') \<Longrightarrow> outbox_ok ob' \<and> outgrows ob ob'"
  by (simp add: keeps_outbox_def)

lemma outbox_step_keeps: "outbox_step ob ob' \<Longrightarrow> outbox_ok ob \<Longrightarrow> outbox_ok ob' \<and> outgrows ob ob'"
  by (induction rule: outbox_step.induct) (auto intro: outgrows_refl dest: outbox_keeps [THEN keepsD])

interpretation deliveries: kept_history outbox_step outbox_ok outgrows
  using outbox_step_keeps outgrows_refl outgrows_trans by unfold_locales blast+

section \<open>Opening the database\<close>

text \<open>What the file holds before the table is created or migrated; the legacy table has no topic column.\<close>

datatype stored_table = NoTable | LegacyTable "delivery_row list" | CurrentTable "delivery_row list" int

definition migrated_row :: "delivery_row \<Rightarrow> delivery_row" where
  "migrated_row r = r\<lparr>dr_thread_id := 0\<rparr>"

text \<open>\<open>_migrate_legacy_destination_identity\<close>: the rows keep their ids, the new table has their greatest as its
  last; a violated constraint or a row count that differs rolls the migration back.\<close>

definition migrate_legacy :: "delivery_row list \<Rightarrow> (delivery_row list \<times> int) result" where
  "migrate_legacy rows = (let new = map migrated_row rows in
     if \<not> distinct (map identity new) \<or> \<not> distinct (map dr_id new) then Inl (IntegrityError ''UNIQUE constraint failed: telegram_deliveries'')
     else if \<exists>r \<in> set new. dr_attempts r < 0 then Inl (IntegrityError ''CHECK constraint failed: telegram_deliveries'')
     else if length rows \<noteq> length new then Inl (DeliveryOutboxError ''legacy delivery outbox migration row count mismatch'')
     else Inr (new, fold (\<lambda>r m. max m (dr_id r)) new 0))"

definition open_outbox :: "stored_table \<Rightarrow> outbox_disk list \<Rightarrow> outbox result" where
  "open_outbox table script = fst (connected (\<lambda>ob. (case table of
       NoTable \<Rightarrow> Inr ob
     | CurrentTable rows last_id \<Rightarrow> Inr (ob\<lparr>ob_rows := rows, ob_last_id := last_id\<rparr>)
     | LegacyTable rows \<Rightarrow> ebind (migrate_legacy rows) (\<lambda>(new, last_id). Inr (ob\<lparr>ob_rows := new, ob_last_id := last_id\<rparr>)), ob))
       \<lparr>ob_rows = [], ob_last_id = 0, ob_script = script\<rparr>)"

text \<open>\<open>inspect_existing\<close> reads the file without creating it; \<open>None\<close> for the table is a file that does not exist.
  A table that does not exist has no columns, so it passes for a legacy one until it is read.\<close>

definition inspect_existing :: "stored_table option \<Rightarrow> outbox_disk list \<Rightarrow> string \<Rightarrow> string \<Rightarrow> int option
    \<Rightarrow> delivery_record option result" where
  "inspect_existing db script snapshot_id chat thread = (case db of None \<Rightarrow> Inr None | Some table \<Rightarrow>
     ebind (required snapshot_id ''snapshot_id'' 128) (\<lambda>snapshot.
       ebind (required chat ''destination_chat_id'' 64) (\<lambda>destination.
         let look = (\<lambda>rows t. Inr (map_option record_of (find (identified snapshot destination t) rows))) in
         case script of
           Failing msg # _ \<Rightarrow> Inl (DeliveryOutboxError ''delivery outbox inspection failed'')
         | _ \<Rightarrow> (case table of
               NoTable \<Rightarrow> Inr None
             | LegacyTable rows \<Rightarrow> if thread \<noteq> None then Inr None
                 else look (map migrated_row rows) 0
             | CurrentTable rows _ \<Rightarrow> ebind (thread_db_value thread) (look rows)))))"

lemma fold_max_ids: "(m::int) \<le> fold (\<lambda>r m. max m (dr_id r)) rows m \<and> (\<forall>r \<in> set rows. dr_id r \<le> fold (\<lambda>r m. max m (dr_id r)) rows m)"
proof (induction rows arbitrary: m)
  case (Cons r rows)
  from Cons [of "max m (dr_id r)"] show ?case by auto
qed simp

text \<open>A legacy table of well-formed rows is migrated: every row is kept, under the topic 0.\<close>

lemma migration_keeps:
  assumes "sorted_wrt (<) (map dr_id rows)" and "\<forall>r \<in> set rows. row_ok r"
    and "distinct (map (\<lambda>r. (dr_snapshot_id r, dr_chat_id r)) rows)"
  obtains n where "migrate_legacy rows = Inr (map migrated_row rows, n)"
    and "outbox_ok \<lparr>ob_rows = map migrated_row rows, ob_last_id = n, ob_script = script\<rparr>"
proof
  let ?new = "map migrated_row rows"
  have ids: "map dr_id ?new = map dr_id rows" by (simp add: migrated_row_def)
  have "map identity ?new = map (\<lambda>(s, c). (s, c, 0)) (map (\<lambda>r. (dr_snapshot_id r, dr_chat_id r)) rows)"
    by (simp add: migrated_row_def identity_def)
  then have d: "distinct (map identity ?new)" using assms(3) by (simp only: distinct_map) (auto simp: inj_on_def)
  have r: "\<forall>r \<in> set ?new. row_ok r" using assms(2) by (auto simp: row_ok_def migrated_row_def)
  have dist: "distinct (map dr_id ?new)" unfolding ids using assms(1) by (simp add: strict_sorted_iff)
  show "migrate_legacy rows = Inr (?new, fold (\<lambda>r m. max m (dr_id r)) ?new 0)"
    using d r dist by (auto simp: migrate_legacy_def Let_def row_ok_def)
  show "outbox_ok \<lparr>ob_rows = ?new, ob_last_id = fold (\<lambda>r m. max m (dr_id r)) ?new 0, ob_script = script\<rparr>"
    using d r assms(1) ids fold_max_ids [of 0 ?new] unfolding outbox_ok_def outbox.simps by metis
qed

section \<open>Properties\<close>

lemma find_delivery_later:
  assumes "outbox_ok ob" and "find_delivery s c t ob = Some r" and "outbox_step\<^sup>*\<^sup>* ob ob'"
  obtains r' where "outbox_ok ob'" "find_delivery s c t ob' = Some r'" "same_delivery r r'"
proof -
  have ok: "outbox_ok ob'" and out: "outgrows ob ob'" using deliveries.run_keeps [OF assms(3,1)] by blast+
  from assms(2) have r: "r \<in> set (ob_rows ob)" "identity r = (s, c, t)" by (simp_all add: find_delivery_iff [OF assms(1)])
  with out obtain r' where r': "r' \<in> set (ob_rows ob')" "becomes r r'" by (auto simp: outgrows_def)
  then have same: "same_delivery r r'" by (simp add: becomes_same)
  with r(2) have "identity r' = (s, c, t)" by (simp add: same_delivery_def)
  with r'(1) have "find_delivery s c t ob' = Some r'" by (simp add: find_delivery_iff [OF ok])
  with ok same show ?thesis by (intro that)
qed

lemma connected_Inr:
  assumes "connected call ob = (Inr a, ob')"
  obtains s where "call (ob\<lparr>ob_script := s\<rparr>) = (Inr a, ob')"
  using assms by (rule connected_cases) auto

lemma checked_eq: "checked arg call ob = (r, ob') \<longleftrightarrow>
    (\<exists>e. arg = Inl e \<and> r = Inl e \<and> ob' = ob) \<or> (\<exists>a. arg = Inr a \<and> call a ob = (r, ob'))"
  by (cases arg) (auto simp: checked_def)

lemma enqueued_row:
  assumes "outbox_ok ob" and "enqueue sn chat rd th now ob = (Inr (d, dup), ob')"
  obtains destination t r where "required chat ''destination_chat_id'' 64 = Inr destination" "thread_db_value th = Inr t"
    "find_delivery (rs_id sn) destination t ob' = Some r" "d = record_of r" "dr_snapshot_sha256 r = rs_payload_sha256 sn"
proof -
  from assms(2) obtain destination t where arg: "required chat ''destination_chat_id'' 64 = Inr destination" "thread_db_value th = Inr t"
      and c: "connected (enqueue_call sn destination t rd now) ob = (Inr (d, dup), ob')"
    by (auto simp: enqueue_def checked_eq)
  from c obtain s where call: "enqueue_call sn destination t rd now (ob\<lparr>ob_script := s\<rparr>) = (Inr (d, dup), ob')"
    by (rule connected_Inr)
  have ok': "outbox_ok ob'" using keepsD [OF enqueue_keeps assms] by blast
  show ?thesis
  proof (cases "find_delivery (rs_id sn) destination t (ob\<lparr>ob_script := s\<rparr>)")
    case None
    with call have "\<exists>i. new_row i sn destination t rd now \<in> set (ob_rows ob') \<and> d = record_of (new_row i sn destination t rd now)"
      by (auto simp: enqueue_call_def Let_def)
    then obtain r where "r \<in> set (ob_rows ob')" "identity r = (rs_id sn, destination, t)" "d = record_of r"
        "dr_snapshot_sha256 r = rs_payload_sha256 sn" by (auto simp: identity_def new_row_def)
    then show ?thesis using that [OF arg] find_delivery_iff [OF ok'] by simp
  next
    case (Some r)
    with call have "ob' = ob\<lparr>ob_script := s\<rparr>" "d = record_of r" "dr_snapshot_sha256 r = rs_payload_sha256 sn"
      by (auto simp: enqueue_call_def split: if_splits)
    with Some show ?thesis using that [OF arg] by simp
  qed
qed

text \<open>C15: The outbox is a state machine. In every state that operations reach from a well-formed table, in any order and
  with any failures of SQLite, the table is well-formed: ids increase, an identity of snapshot, chat and topic has
  one row, a row is locked exactly while it is sending, and has a message id and a sending time exactly when it is
  sent. Every earlier row is still there with its identity and content; its attempts and its duplicate risk
  have not decreased, a sent or failed row is unchanged, and a row that left \<open>pending\<close> is not pending.\<close>

theorem outbox_history:
  assumes "outbox_ok ob" and "outbox_step\<^sup>*\<^sup>* ob ob'"
  shows "outbox_ok ob' \<and> (\<forall>r \<in> set (ob_rows ob). \<exists>r' \<in> set (ob_rows ob'). same_delivery r r'
      \<and> (dr_state r \<in> {SENT, FAILED} \<longrightarrow> r' = r) \<and> (dr_state r' = PENDING \<longrightarrow> r' = r))"
  using deliveries.run_keeps [OF assms(2,1)] by (auto simp: outgrows_def becomes_def)

text \<open>Enqueueing is idempotent. Once a snapshot is enqueued for a destination, enqueueing it again later,
  whatever happened in between, leaves the rows as they are; unless SQLite fails, it answers with the same
  delivery, marked as a duplicate and with the text rendered first, or refuses a snapshot whose digest differs.\<close>

theorem delivery_enqueued_once:
  assumes "outbox_ok ob" and "enqueue sn chat rd th now ob = (Inr (d, dup), ob1)" and "outbox_step\<^sup>*\<^sup>* ob1 ob2"
    and "rs_id sn' = rs_id sn" and "enqueue sn' chat rd' th now' ob2 = (r, ob3)"
  shows "ob_rows ob3 = ob_rows ob2 \<and> ((\<exists>msg. r = Inl (OperationalError msg))
    \<or> (if rs_payload_sha256 sn' = rs_payload_sha256 sn
       then \<exists>d'. r = Inr (d', True) \<and> de_id d' = de_id d \<and> de_text d' = de_text d \<and> de_button_url d' = de_button_url d
       else r = Inl (DeliveryOutboxError ''snapshot identity is already bound to different immutable content'')))"
proof -
  have ok1: "outbox_ok ob1" using keepsD [OF enqueue_keeps assms(1,2)] by blast
  from assms(1,2) obtain destination t x where x: "required chat ''destination_chat_id'' 64 = Inr destination"
      "thread_db_value th = Inr t" "find_delivery (rs_id sn) destination t ob1 = Some x" "d = record_of x"
      "dr_snapshot_sha256 x = rs_payload_sha256 sn" by (rule enqueued_row)
  from find_delivery_later [OF ok1 x(3) assms(3)] obtain y where
    y: "find_delivery (rs_id sn) destination t ob2 = Some y" "same_delivery x y" by blast
  from assms(5) x(1,2) have "connected (enqueue_call sn' destination t rd' now') ob2 = (r, ob3)"
    by (simp add: enqueue_def checked_eq)
  then show ?thesis
  proof (cases rule: connected_cases)
    case (2 s)
    have "find_delivery (rs_id sn') destination t (ob2\<lparr>ob_script := s\<rparr>) = Some y"
      using y(1) assms(4) by (simp add: find_delivery_def)
    with 2 y(2) x(4,5) show ?thesis
      by (auto simp: enqueue_call_def same_delivery_def record_of_def split: if_splits)
  qed simp
qed

lemma claim_cases:
  assumes "outbox_ok ob" and "claim_next_for_destination chat th now ob = (Inr result, ob')"
  obtains destination t where "required chat ''destination_chat_id'' 64 = Inr destination" "thread_db_value th = Inr t"
    and "case result of
        None \<Rightarrow> ob_rows ob' = ob_rows ob
          \<and> (\<forall>r \<in> set (ob_rows ob). is_ready now r \<longrightarrow> dr_chat_id r \<noteq> destination \<or> dr_thread_id r \<noteq> t)
      | Some d \<Rightarrow> \<exists>r \<in> set (ob_rows ob). is_ready now r \<and> dr_chat_id r = destination \<and> dr_thread_id r = t
          \<and> (\<forall>s \<in> set (ob_rows ob). is_ready now s \<and> dr_chat_id s = destination \<and> dr_thread_id s = t \<longrightarrow>
               dr_available_at r < dr_available_at s \<or> dr_available_at r = dr_available_at s \<and> dr_id r \<le> dr_id s)
          \<and> d = record_of (claimed_row now r)
          \<and> ob_rows ob' = map (\<lambda>s. if s = r then claimed_row now r else s) (ob_rows ob)"
proof -
  from assms(2) obtain destination t where arg: "required chat ''destination_chat_id'' 64 = Inr destination" "thread_db_value th = Inr t"
      and "connected (claim_first (\<lambda>r. dr_chat_id r = destination \<and> dr_thread_id r = t) now) ob = (Inr result, ob')"
    by (auto simp: claim_next_for_destination_def checked_eq)
  then obtain s where call: "claim_first (\<lambda>r. dr_chat_id r = destination \<and> dr_thread_id r = t) now (ob\<lparr>ob_script := s\<rparr>) = (Inr result, ob')"
    by (metis connected_Inr)
  define ready where "ready = filter (\<lambda>r. is_ready now r \<and> dr_chat_id r = destination \<and> dr_thread_id r = t) (ob_rows ob)"
  show ?thesis
  proof (cases "first_ready ready")
    case None
    then have "ready = []" by (simp add: first_ready_None)
    moreover from None call have "result = None" "ob_rows ob' = ob_rows ob" by (auto simp: claim_first_def ready_def)
    ultimately show ?thesis by (intro that [OF arg]) (auto simp: ready_def filter_empty_conv)
  next
    case (Some r)
    then have r: "r \<in> set ready" and least: "\<forall>s \<in> set ready. dr_available_at r < dr_available_at s
        \<or> dr_available_at r = dr_available_at s \<and> dr_id r \<le> dr_id s" by (auto dest: first_ready_least)
    have "ob_rows ob' = map (\<lambda>s. if dr_id s = dr_id r then claimed_row now s else s) (ob_rows ob)"
      and res: "result = Some (record_of (claimed_row now r))"
      using Some call by (auto simp: claim_first_def ready_def claim_row_def update_row_def)
    then have "ob_rows ob' = map (\<lambda>s. if s = r then claimed_row now r else s) (ob_rows ob)"
      using r outbox_id [OF assms(1)] by (auto simp: ready_def)
    with r least res show ?thesis by (intro that [OF arg]) (auto simp: ready_def)
  qed
qed

text \<open>The next delivery of a destination. A claim returns nothing exactly when no row of the destination is ready,
  that is pending or waiting for a retry that is due. Otherwise it takes the ready row that became available first,
  the one with the least id among equals, counts the attempt and locks it; no other row changes.\<close>

theorem claim_rule:
  assumes "outbox_ok ob" and "claim_next_for_destination chat th now ob = (Inr result, ob')"
  shows "\<exists>destination t. required chat ''destination_chat_id'' 64 = Inr destination \<and> thread_db_value th = Inr t
    \<and> (case result of
        None \<Rightarrow> ob_rows ob' = ob_rows ob
          \<and> (\<forall>r \<in> set (ob_rows ob). is_ready now r \<longrightarrow> dr_chat_id r \<noteq> destination \<or> dr_thread_id r \<noteq> t)
      | Some d \<Rightarrow> \<exists>r \<in> set (ob_rows ob). is_ready now r \<and> dr_chat_id r = destination \<and> dr_thread_id r = t
          \<and> (\<forall>s \<in> set (ob_rows ob). is_ready now s \<and> dr_chat_id s = destination \<and> dr_thread_id s = t \<longrightarrow>
               dr_available_at r < dr_available_at s \<or> dr_available_at r = dr_available_at s \<and> dr_id r \<le> dr_id s)
          \<and> d = record_of (claimed_row now r)
          \<and> ob_rows ob' = map (\<lambda>s. if s = r then claimed_row now r else s) (ob_rows ob))"
  by (rule claim_cases [OF assms]) blast

section \<open>A concrete table\<close>

definition sim_snapshot :: "string \<Rightarrow> instant \<Rightarrow> report_snapshot" where
  "sim_snapshot i at_time = \<lparr>rs_id = i, rs_organization_id = ''org'', rs_profile_id = ''p'', rs_equipment_id = ''q'',
     rs_scheduled_for = at_time, rs_payload_sha256 = ''aa'', rs_payload = []\<rparr>"

definition sim_message :: rendered_message where
  "sim_message = \<lparr>rm_text = ''report'', rm_button_url = ''url''\<rparr>"

definition empty_outbox :: outbox where
  "empty_outbox = \<lparr>ob_rows = [], ob_last_id = 0, ob_script = []\<rparr>"

definition sim_enqueued :: "(delivery_record \<times> bool) result \<times> outbox" where
  "sim_enqueued = enqueue (sim_snapshot ''s1'' 0) ''-1'' sim_message None 5 empty_outbox"

lemma empty_outbox_ok: "outbox_ok empty_outbox"
  by (simp add: outbox_ok_def empty_outbox_def)

lemma sim_required: "required ''-1'' ''destination_chat_id'' 64 = Inr ''-1''"
  by code_simp

lemma sim_enqueued: "\<exists>d. sim_enqueued = (Inr (d, False), snd sim_enqueued)" "outbox_ok (snd sim_enqueued)"
proof -
  show "\<exists>d. sim_enqueued = (Inr (d, False), snd sim_enqueued)"
    by (simp add: sim_enqueued_def enqueue_def sim_required checked_def connected_def empty_outbox_def enqueue_call_def
        find_delivery_def thread_db_value_def Let_def)
  show "outbox_ok (snd sim_enqueued)"
    using keepsD [OF enqueue_keeps empty_outbox_ok] by (simp add: sim_enqueued_def prod_eq_iff)
qed

lemma outbox_history_witness:
  "outbox_ok (snd (claim_next 6 (snd sim_enqueued)))
   \<and> (\<exists>r \<in> set (ob_rows (snd sim_enqueued)). \<exists>r' \<in> set (ob_rows (snd (claim_next 6 (snd sim_enqueued)))). same_delivery r r')"
proof -
  obtain c ob' where run: "claim_next 6 (snd sim_enqueued) = (c, ob')" by fastforce
  then have "outbox_step\<^sup>*\<^sup>* (snd sim_enqueued) ob'" by (intro r_into_rtranclp outbox_step.intros(3))
  moreover have "ob_rows (snd sim_enqueued) \<noteq> []"
    by (simp add: sim_enqueued_def enqueue_def sim_required checked_def connected_def empty_outbox_def enqueue_call_def
        find_delivery_def thread_db_value_def Let_def)
  ultimately show ?thesis using outbox_history [OF sim_enqueued(2), of ob'] run by (cases "ob_rows (snd sim_enqueued)") auto
qed

lemma delivery_enqueued_once_witness:
  "\<exists>d. fst (enqueue (sim_snapshot ''s1'' 0) ''-1'' \<lparr>rm_text = ''other'', rm_button_url = ''url''\<rparr> None 9 (snd sim_enqueued)) = Inr (d, True)
    \<and> de_text d = ''report''"
proof -
  obtain d where d: "enqueue (sim_snapshot ''s1'' 0) ''-1'' sim_message None 5 empty_outbox = (Inr (d, False), snd sim_enqueued)"
    using sim_enqueued(1) by (auto simp: sim_enqueued_def)
  then have t: "de_text d = ''report''"
    by (auto simp: enqueue_def sim_required checked_def connected_def empty_outbox_def enqueue_call_def
        find_delivery_def thread_db_value_def record_of_def new_row_def sim_message_def Let_def)
  obtain r ob3 where r: "enqueue (sim_snapshot ''s1'' 0) ''-1'' \<lparr>rm_text = ''other'', rm_button_url = ''url''\<rparr> None 9 (snd sim_enqueued) = (r, ob3)"
    by fastforce
  have s: "ob_script (snd sim_enqueued) = []"
    by (simp add: sim_enqueued_def enqueue_def sim_required checked_def connected_def empty_outbox_def enqueue_call_def
        find_delivery_def thread_db_value_def Let_def)
  have "\<nexists>msg. r = Inl (OperationalError msg)"
    using r s by (auto simp: enqueue_def sim_required checked_def connected_def thread_db_value_def enqueue_call_def Let_def
        split: option.splits if_splits)
  with delivery_enqueued_once [OF empty_outbox_ok d rtranclp.rtrancl_refl refl r] r t show ?thesis by auto
qed

lemma claim_rule_witness:
  "\<exists>r \<in> set (ob_rows (snd sim_enqueued)). is_ready 6 r
     \<and> ob_rows (snd (claim_next_for_destination ''-1'' None 6 (snd sim_enqueued)))
       = map (\<lambda>s. if s = r then claimed_row 6 r else s) (ob_rows (snd sim_enqueued))"
proof -
  have "\<exists>d. fst (claim_next_for_destination ''-1'' None 6 (snd sim_enqueued)) = Inr (Some d)"
    by (simp add: claim_next_for_destination_def sim_enqueued_def enqueue_def sim_required checked_def connected_def empty_outbox_def
        enqueue_call_def find_delivery_def thread_db_value_def claim_first_def is_ready_def new_row_def Let_def)
  then obtain d ob' where run: "claim_next_for_destination ''-1'' None 6 (snd sim_enqueued) = (Inr (Some d), ob')"
    by (metis prod.collapse)
  from claim_rule [OF sim_enqueued(2) run] run show ?thesis by auto
qed

end
