(* ===== verification/DeliveryWorker.thy ===== *)
theory DeliveryWorker
  imports DeliveryOutbox "HOL-Library.List_Lexorder" "HOL-Library.Char_ord"
begin

text \<open>
  \<open>services/telegram-gateway/app/service.py\<close> and the answers that \<open>telegram.py\<close> distinguishes: one round of the
  delivery worker recovers stale rows, discovers new snapshots page by page and sends what is ready, and the
  worker runs rounds until it is stopped.

  The HTTP transport is a parameter: \<open>gw_replies\<close> says how the coming \<open>sendMessage\<close> requests end, with the body as
  the JSON value \<open>json.loads\<close> reads in it, if any. The backend is a function from limit and offset to a page, and
  the renderer, whose output is Cyrillic text, a function from snapshots to messages; both may raise. The clock
  gives the instant of every round. \<open>gw_posts\<close> records every request that was made.
\<close>

section \<open>The answers of the Bot API\<close>

datatype telegram_reply = TransportFailed | Replied int "json option"

record telegram_error =
  ta_code :: string
  ta_retryable :: bool
  ta_retry_after :: "pyfloat option"

datatype send_failure = ApiError telegram_error | Raised exn

definition api_error :: "string \<Rightarrow> bool \<Rightarrow> send_failure + 'a" where
  "api_error code retryable = Inl (ApiError \<lparr>ta_code = code, ta_retryable = retryable, ta_retry_after = None\<rparr>)"

definition json_get :: "json \<Rightarrow> string \<Rightarrow> json option" where
  "json_get v k = (case v of JObj d \<Rightarrow> dget d k | _ \<Rightarrow> None)"

text \<open>\<open>_retry_after\<close>: \<open>float\<close> of an integer that is too large raises.\<close>

definition retry_after :: "json option \<Rightarrow> pyfloat option result" where
  "retry_after body = (case body of None \<Rightarrow> Inr None
     | Some v \<Rightarrow> (case json_get v ''parameters'' of None \<Rightarrow> Inr None
       | Some p \<Rightarrow> (case json_get p ''retry_after'' of
            Some (JInt n) \<Rightarrow> ebind (float_of_int n) (\<lambda>x. Inr (Some (max 0 x)))
          | Some (JFloat x) \<Rightarrow> Inr (Some (max 0 x))
          | _ \<Rightarrow> Inr None)))"

definition rate_limited :: "json option \<Rightarrow> send_failure + 'a" where
  "rate_limited body = (case retry_after body of
       Inl e \<Rightarrow> Inl (Raised e)
     | Inr r \<Rightarrow> Inl (ApiError \<lparr>ta_code = ''telegram_rate_limited'', ta_retryable = True, ta_retry_after = r\<rparr>))"

definition is_429 :: "json option \<Rightarrow> bool" where
  "is_429 v = (case v of Some (JInt n) \<Rightarrow> n = 429 | Some (JFloat x) \<Rightarrow> x = 429 | _ \<Rightarrow> False)"

definition server_side :: "json option \<Rightarrow> bool" where
  "server_side v = (case v of Some (JInt n) \<Rightarrow> 500 \<le> n | _ \<Rightarrow> False)"

text \<open>\<open>isinstance(x, int)\<close> holds of a bool.\<close>

definition message_id_of :: "json option \<Rightarrow> int option" where
  "message_id_of v = (case v of Some (JInt n) \<Rightarrow> Some n | Some (JBool b) \<Rightarrow> Some (if b then 1 else 0) | _ \<Rightarrow> None)"

definition send_message :: "telegram_reply \<Rightarrow> send_failure + int" where
  "send_message reply = (case reply of
       TransportFailed \<Rightarrow> api_error ''telegram_network_error'' True
     | Replied status body \<Rightarrow>
         if status = 429 then rate_limited body
         else if 500 \<le> status then api_error ''telegram_server_error'' True
         else if status < 200 \<or> 300 \<le> status then api_error (''telegram_http_'' @ dec status) False
         else (case body of
             Some (JObj value) \<Rightarrow>
               if dget value ''ok'' \<noteq> Some (JBool True) then
                 if is_429 (dget value ''error_code'') then rate_limited body
                 else api_error ''telegram_api_rejected'' (server_side (dget value ''error_code''))
               else (case message_id_of (json_get (dget_or value ''result'' JNull) ''message_id'') of
                   None \<Rightarrow> api_error ''telegram_contract_error'' True
                 | Some m \<Rightarrow> Inr m)
           | _ \<Rightarrow> api_error ''telegram_contract_error'' True))"

section \<open>Settings and state\<close>

record gateway_settings =
  gs_destination_chat_id :: "string option"
  gs_message_thread_id :: "int option"
  gs_organization_id :: string
  gs_mini_app_url_template :: "string option"
  gs_snapshot_page_size :: nat
  gs_snapshot_max_pages :: nat
  gs_max_deliveries_per_run :: nat
  gs_max_snapshot_age_hours :: int
  gs_max_attempts :: int
  gs_retry_initial_seconds :: pyfloat
  gs_retry_max_seconds :: pyfloat
  gs_stale_sending_seconds :: pyfloat
  gs_activation_cutoff :: "instant option"
  gs_bootstrap_snapshot_ids :: "string list"

text \<open>The bounds that \<open>config.py\<close> puts on them.\<close>

definition settings_ok :: "gateway_settings \<Rightarrow> bool" where
  "settings_ok st = (1 \<le> gs_snapshot_page_size st \<and> gs_snapshot_page_size st \<le> 200
     \<and> 1 \<le> gs_snapshot_max_pages st \<and> gs_snapshot_max_pages st \<le> 100
     \<and> 1 \<le> gs_max_deliveries_per_run st \<and> gs_max_deliveries_per_run st \<le> 1000
     \<and> 1 \<le> gs_max_snapshot_age_hours st \<and> gs_max_snapshot_age_hours st \<le> 168
     \<and> 1 \<le> gs_max_attempts st \<and> gs_max_attempts st \<le> 50
     \<and> 1 / 10 \<le> gs_retry_initial_seconds st \<and> gs_retry_initial_seconds st \<le> 3600
     \<and> gs_retry_initial_seconds st \<le> gs_retry_max_seconds st \<and> gs_retry_max_seconds st \<le> 86400
     \<and> 5 \<le> gs_stale_sending_seconds st \<and> gs_stale_sending_seconds st \<le> 86400
     \<and> is_float (gs_retry_initial_seconds st) \<and> is_float (gs_retry_max_seconds st))"

record gateway_runtime =
  gr_enabled :: bool
  gr_running :: bool
  gr_last_poll_at :: "instant option"
  gr_last_send_at :: "instant option"
  gr_last_error_code :: "string option"
  gr_recovered_unknown :: int

definition new_runtime :: "bool \<Rightarrow> gateway_runtime" where
  "new_runtime enabled = \<lparr>gr_enabled = enabled, gr_running = False, gr_last_poll_at = None, gr_last_send_at = None,
     gr_last_error_code = None, gr_recovered_unknown = 0\<rparr>"

definition set_running :: "bool \<Rightarrow> gateway_runtime \<Rightarrow> gateway_runtime" where
  "set_running value rt = rt\<lparr>gr_running := value\<rparr>"

definition record_poll :: "instant \<Rightarrow> gateway_runtime \<Rightarrow> gateway_runtime" where
  "record_poll now rt = rt\<lparr>gr_last_poll_at := Some now\<rparr>"

definition record_send :: "instant \<Rightarrow> gateway_runtime \<Rightarrow> gateway_runtime" where
  "record_send now rt = rt\<lparr>gr_last_send_at := Some now, gr_last_error_code := None\<rparr>"

definition record_error :: "string \<Rightarrow> gateway_runtime \<Rightarrow> gateway_runtime" where
  "record_error code rt = rt\<lparr>gr_last_error_code := Some (take 96 code)\<rparr>"

definition record_recovered_unknown :: "int \<Rightarrow> gateway_runtime \<Rightarrow> gateway_runtime" where
  "record_recovered_unknown count rt =
     (if count \<le> 0 then rt else rt\<lparr>gr_recovered_unknown := gr_recovered_unknown rt + count\<rparr>)"

record post =
  po_delivery :: int
  po_chat_id :: string
  po_thread_id :: "int option"
  po_text :: string
  po_button_url :: string
  po_reply :: telegram_reply

record gateway =
  gw_outbox :: outbox
  gw_runtime :: gateway_runtime
  gw_replies :: "telegram_reply list"
  gw_posts :: "post list"

type_synonym backend = "nat \<Rightarrow> nat \<Rightarrow> report_snapshot list result"
type_synonym renderer = "report_snapshot \<Rightarrow> rendered_message result"

section \<open>Time\<close>

text \<open>\<open>timedelta(seconds=x)\<close> of a float, in microseconds: the whole seconds are exact, the fraction times a
  million is rounded to a float and then to the nearest microsecond, ties to even.\<close>

definition trunc :: "pyfloat \<Rightarrow> int" where
  "trunc x = (if 0 \<le> x then \<lfloor>x\<rfloor> else \<lceil>x\<rceil>)"

definition timedelta_seconds :: "pyfloat \<Rightarrow> int result" where
  "timedelta_seconds x = (let us = trunc x * second + rhe (fl ((x - of_int (trunc x)) * 1000000)) in
     if \<bar>us div (86400 * second)\<bar> \<le> 999999999 then Inr us
     else Inl (OverflowError ''days out of range''))"

text \<open>\<open>_retry_delay\<close>.\<close>

definition retry_delay :: "gateway_settings \<Rightarrow> int \<Rightarrow> pyfloat option \<Rightarrow> pyfloat result" where
  "retry_delay st attempts retry_after_seconds =
     (let exponent = nat (max 0 (attempts - 1)) in
      ebind (float_of_int (2 ^ exponent)) (\<lambda>factor.
        let delay = min (fmul (gs_retry_initial_seconds st) factor) (gs_retry_max_seconds st);
            delay' = (case retry_after_seconds of None \<Rightarrow> delay | Some r \<Rightarrow> max delay r)
        in Inr (min delay' (gs_retry_max_seconds st))))"

section \<open>Discovery\<close>

text \<open>The pages, newest snapshots first: until one is not full or reaches back beyond the cutoff.\<close>

fun collect_pages :: "gateway_settings \<Rightarrow> backend \<Rightarrow> instant \<Rightarrow> nat \<Rightarrow> nat \<Rightarrow> report_snapshot list
    \<Rightarrow> report_snapshot list result" where
  "collect_pages st backend cutoff 0 page snapshots = Inl (BackendError ''backend_snapshot_page_limit_exceeded'' False)"
| "collect_pages st backend cutoff (Suc n) page snapshots =
     ebind (backend (gs_snapshot_page_size st) (page * gs_snapshot_page_size st)) (\<lambda>items.
       if length items < gs_snapshot_page_size st then Inr (snapshots @ items)
       else if items \<noteq> [] \<and> Min (rs_scheduled_for ` set items) < cutoff then Inr (snapshots @ items)
       else collect_pages st backend cutoff n (page + 1) (snapshots @ items))"

definition by_schedule :: "report_snapshot list \<Rightarrow> report_snapshot list" where
  "by_schedule xs = sort_key rs_scheduled_for (sort_key rs_id xs)"

text \<open>The loop over the sorted snapshots: what was enqueued before an exception stays.\<close>

definition is_due :: "gateway_settings \<Rightarrow> instant \<Rightarrow> instant \<Rightarrow> report_snapshot \<Rightarrow> bool" where
  "is_due st cutoff now s = (\<not> (now < rs_scheduled_for s \<or> rs_scheduled_for s < cutoff)
     \<and> \<not> (case gs_activation_cutoff st of None \<Rightarrow> False
          | Some a \<Rightarrow> rs_scheduled_for s \<le> a \<and> rs_id s \<notin> set (gs_bootstrap_snapshot_ids st)))"

fun enqueue_due :: "gateway_settings \<Rightarrow> renderer \<Rightarrow> string \<Rightarrow> instant \<Rightarrow> instant \<Rightarrow> report_snapshot list \<Rightarrow> outbox
    \<Rightarrow> unit result \<times> outbox" where
  "enqueue_due st render chat cutoff now [] ob = (Inr (), ob)"
| "enqueue_due st render chat cutoff now (s # ss) ob =
     (if rs_organization_id s \<noteq> gs_organization_id st then (Inl (BackendError ''backend_organization_mismatch'' False), ob)
      else if \<not> is_due st cutoff now s then enqueue_due st render chat cutoff now ss ob
      else (case render s of
          Inl e \<Rightarrow> (Inl e, ob)
        | Inr m \<Rightarrow> (case enqueue s chat m (gs_message_thread_id st) now ob of
              (Inl e, ob') \<Rightarrow> (Inl e, ob')
            | (Inr _, ob') \<Rightarrow> enqueue_due st render chat cutoff now ss ob')))"

definition discover :: "gateway_settings \<Rightarrow> backend \<Rightarrow> renderer \<Rightarrow> instant \<Rightarrow> outbox \<Rightarrow> unit result \<times> outbox" where
  "discover st backend render now ob =
     checked (add_delta now (- gs_max_snapshot_age_hours st * 3600 * second)) (\<lambda>cutoff.
       checked (collect_pages st backend cutoff (gs_snapshot_max_pages st) 0 []) (\<lambda>snapshots.
         checked (case gs_destination_chat_id st of None \<Rightarrow> Inl (OtherError ''AssertionError'') | Some c \<Rightarrow> Inr c) (\<lambda>chat.
           checked (case gs_mini_app_url_template st of None \<Rightarrow> Inl (OtherError ''AssertionError'') | Some _ \<Rightarrow> Inr ()) (\<lambda>_.
             enqueue_due st render chat cutoff now (by_schedule snapshots))))) ob"

section \<open>Sending\<close>

text \<open>One \<open>sendMessage\<close> request, whose outcome is the next reply.\<close>

definition post_delivery :: "delivery_record \<Rightarrow> gateway \<Rightarrow> (send_failure + int) \<times> gateway" where
  "post_delivery d g =
     (let reply = (case gw_replies g of [] \<Rightarrow> TransportFailed | x # xs \<Rightarrow> x) in
      (send_message reply,
       g\<lparr>gw_replies := tl (gw_replies g),
         gw_posts := gw_posts g @ [\<lparr>po_delivery = de_id d, po_chat_id = de_chat_id d, po_thread_id = de_thread_id d,
           po_text = de_text d, po_button_url = de_button_url d, po_reply = reply\<rparr>]\<rparr>))"

text \<open>An operation on the outbox of the gateway.\<close>

definition on_outbox :: "(outbox \<Rightarrow> 'a result \<times> outbox) \<Rightarrow> gateway \<Rightarrow> 'a result \<times> gateway" where
  "on_outbox call g = (case call (gw_outbox g) of (r, ob) \<Rightarrow> (r, g\<lparr>gw_outbox := ob\<rparr>))"

definition on_runtime :: "(gateway_runtime \<Rightarrow> gateway_runtime) \<Rightarrow> gateway \<Rightarrow> gateway" where
  "on_runtime f g = g\<lparr>gw_runtime := f (gw_runtime g)\<rparr>"

text \<open>The handler of \<open>TelegramApiError\<close>.\<close>

definition after_failure :: "gateway_settings \<Rightarrow> delivery_record \<Rightarrow> telegram_error \<Rightarrow> instant \<Rightarrow> gateway
    \<Rightarrow> delivery_record result \<times> gateway" where
  "after_failure st d e now g =
     (let g1 = on_runtime (record_error (ta_code e)) g in
      if ta_retryable e \<and> de_attempts d < gs_max_attempts st then
        (case ebind (retry_delay st (de_attempts d) (ta_retry_after e)) timedelta_seconds of
           Inl x \<Rightarrow> (Inl x, g1)
         | Inr delay \<Rightarrow> on_outbox (mark_retry (de_id d) delay (ta_code e) now) g1)
      else on_outbox (mark_failed (de_id d) (ta_code e) False now) g1)"

definition deliver :: "gateway_settings \<Rightarrow> delivery_record \<Rightarrow> instant \<Rightarrow> gateway \<Rightarrow> delivery_record result \<times> gateway" where
  "deliver st d now g = (case post_delivery d g of
       (Inr m, g1) \<Rightarrow> (case on_outbox (mark_sent (de_id d) m now) g1 of
           (Inl e, g2) \<Rightarrow> (Inl e, g2)
         | (Inr r, g2) \<Rightarrow> (Inr r, on_runtime (record_send now) g2))
     | (Inl (ApiError e), g1) \<Rightarrow> after_failure st d e now g1
     | (Inl (Raised e), g1) \<Rightarrow> (Inl e, g1))"

fun drain :: "gateway_settings \<Rightarrow> instant \<Rightarrow> nat \<Rightarrow> gateway \<Rightarrow> unit result \<times> gateway" where
  "drain st now 0 g = (Inr (), g)"
| "drain st now (Suc n) g =
     (case on_outbox (claim_next_for_destination (case gs_destination_chat_id st of None \<Rightarrow> [] | Some c \<Rightarrow> c)
             (gs_message_thread_id st) now) g of
        (Inl e, g1) \<Rightarrow> (Inl e, g1)
      | (Inr None, g1) \<Rightarrow> (Inr (), g1)
      | (Inr (Some d), g1) \<Rightarrow> (case deliver st d now g1 of
            (Inl e, g2) \<Rightarrow> (Inl e, g2)
          | (Inr _, g2) \<Rightarrow> drain st now n g2))"

section \<open>Rounds\<close>

text \<open>The code of the exceptions that \<open>run_once\<close> catches around the discovery.\<close>

definition discovery_code :: "exn \<Rightarrow> string option" where
  "discovery_code e = (case e of BackendError c _ \<Rightarrow> Some c
     | _ \<Rightarrow> if is_value_error e then Some ''telegram_discovery_error'' else None)"

definition recover :: "gateway_settings \<Rightarrow> instant \<Rightarrow> outbox \<Rightarrow> int result \<times> outbox" where
  "recover st now = checked (timedelta_seconds (gs_stale_sending_seconds st)) (\<lambda>stale. recover_stale_sending stale now)"

definition run_once :: "gateway_settings \<Rightarrow> backend \<Rightarrow> renderer \<Rightarrow> instant \<Rightarrow> gateway \<Rightarrow> unit result \<times> gateway" where
  "run_once st backend render now g =
     (case on_outbox (recover st now) g of
        (Inl e, g1) \<Rightarrow> (Inl e, g1)
      | (Inr recovered, g1) \<Rightarrow>
          let g2 = on_runtime (record_recovered_unknown recovered) g1 in
          (case on_outbox (discover st backend render now) g2 of
             (Inr _, g3) \<Rightarrow> drain st now (gs_max_deliveries_per_run st) (on_runtime (record_poll now) g3)
           | (Inl e, g3) \<Rightarrow> (case discovery_code e of
                 None \<Rightarrow> (Inl e, g3)
               | Some code \<Rightarrow> drain st now (gs_max_deliveries_per_run st) (on_runtime (record_error code) g3))))"

text \<open>The thread: one round for every instant until it is stopped; an exception ends it.\<close>

fun rounds :: "gateway_settings \<Rightarrow> (instant \<times> backend \<times> renderer) list \<Rightarrow> gateway \<Rightarrow> unit result \<times> gateway" where
  "rounds st [] g = (Inr (), g)"
| "rounds st ((now, backend, render) # rest) g = (case run_once st backend render now g of
       (Inl e, g1) \<Rightarrow> (Inl e, g1)
     | (Inr _, g1) \<Rightarrow> rounds st rest g1)"

definition run_worker :: "gateway_settings \<Rightarrow> (instant \<times> backend \<times> renderer) list \<Rightarrow> gateway \<Rightarrow> unit result \<times> gateway" where
  "run_worker st ticks g = (case rounds st ticks (on_runtime (set_running True) g) of
     (r, g1) \<Rightarrow> (r, on_runtime (set_running False) g1))"

section \<open>The record of requests\<close>

text \<open>A request is acknowledged when the gateway read a message id in its answer.\<close>

definition acknowledged :: "post \<Rightarrow> bool" where
  "acknowledged p = (case send_message (po_reply p) of Inl _ \<Rightarrow> False | Inr _ \<Rightarrow> True)"

definition posts_of :: "int \<Rightarrow> post list \<Rightarrow> post list" where
  "posts_of i ps = filter (\<lambda>p. po_delivery p = i) ps"

definition acks_of :: "int \<Rightarrow> post list \<Rightarrow> nat" where
  "acks_of i ps = length (filter acknowledged (posts_of i ps))"

text \<open>A request carries what the row holds; the chat may be the configured text before it was stripped.\<close>

definition carries :: "delivery_row \<Rightarrow> post \<Rightarrow> bool" where
  "carries r p = (po_delivery p = dr_id r \<and> dr_chat_id r \<in> {po_chat_id p, strip (po_chat_id p)} \<and> po_thread_id p = thread_record_value r
     \<and> po_text p = dr_text r \<and> po_button_url p = dr_button_url r)"

definition accounted :: "post list \<Rightarrow> delivery_row \<Rightarrow> bool" where
  "accounted ps r = (int (length (posts_of (dr_id r) ps)) \<le> dr_attempts r
     \<and> (1 \<le> acks_of (dr_id r) ps \<longrightarrow> dr_state r \<in> {SENT, SENDING} \<or> dr_duplicate_risk r)
     \<and> (2 \<le> acks_of (dr_id r) ps \<longrightarrow> dr_duplicate_risk r))"

definition ledger :: "post list \<Rightarrow> outbox \<Rightarrow> bool" where
  "ledger ps ob = ((\<forall>p \<in> set ps. \<exists>r \<in> set (ob_rows ob). carries r p) \<and> (\<forall>r \<in> set (ob_rows ob). accounted ps r))"

definition gateway_ok :: "gateway \<Rightarrow> bool" where
  "gateway_ok g = (outbox_ok (gw_outbox g) \<and> ledger (gw_posts g) (gw_outbox g))"

definition gateway_outgrows :: "gateway \<Rightarrow> gateway \<Rightarrow> bool" where
  "gateway_outgrows g g' = (outgrows (gw_outbox g) (gw_outbox g') \<and> (\<exists>ps. gw_posts g' = gw_posts g @ ps))"

lemma gateway_outgrows_refl: "gateway_outgrows g g"
  by (simp add: gateway_outgrows_def outgrows_refl)

lemma gateway_outgrows_trans: "gateway_outgrows a b \<Longrightarrow> gateway_outgrows b c \<Longrightarrow> gateway_outgrows a c"
  unfolding gateway_outgrows_def using outgrows_trans by fastforce

text \<open>Changes of the table that leave the account of the requests in order: a row stays in its state, becomes sent
  or sending, or is flagged; a new row has a new id.\<close>

definition harmless :: "outbox \<Rightarrow> outbox \<Rightarrow> bool" where
  "harmless ob ob' = (\<forall>r' \<in> set (ob_rows ob').
     (\<exists>r \<in> set (ob_rows ob). same_delivery r r' \<and> (dr_state r' = dr_state r \<or> dr_state r' \<in> {SENT, SENDING} \<or> dr_duplicate_risk r'))
     \<or> ob_last_id ob < dr_id r')"

lemma same_delivery_refl [simp]: "same_delivery r r"
  by (simp add: same_delivery_def)

lemma harmless_script [simp]:
  "harmless ob (ob'\<lparr>ob_script := s\<rparr>) = harmless ob ob'" "harmless (ob\<lparr>ob_script := s\<rparr>) ob' = harmless ob ob'"
  by (simp_all add: harmless_def)

lemma harmless_same: "ob_rows ob' = ob_rows ob \<Longrightarrow> harmless ob ob'"
  unfolding harmless_def using same_delivery_refl by metis

lemma harmless_map:
  assumes "\<And>r. r \<in> set (ob_rows ob) \<Longrightarrow> P r \<Longrightarrow> same_delivery r (f r) \<and> (dr_state (f r) \<in> {SENT, SENDING} \<or> dr_duplicate_risk (f r))"
  shows "harmless ob (ob\<lparr>ob_rows := map (\<lambda>r. if P r then f r else r) (ob_rows ob)\<rparr>)"
  unfolding harmless_def
proof
  fix r' assume "r' \<in> set (ob_rows (ob\<lparr>ob_rows := map (\<lambda>r. if P r then f r else r) (ob_rows ob)\<rparr>))"
  then obtain r where r: "r \<in> set (ob_rows ob)" "r' = (if P r then f r else r)" by auto
  then show "(\<exists>r \<in> set (ob_rows ob). same_delivery r r' \<and> (dr_state r' = dr_state r \<or> dr_state r' \<in> {SENT, SENDING} \<or> dr_duplicate_risk r'))
      \<or> ob_last_id ob < dr_id r'"
    using assms [OF r(1)] by (cases "P r") (auto intro!: bexI [OF _ r(1)])
qed

lemma connected_harmless:
  assumes "connected call ob = (r, ob')" and "\<And>s a ob''. call (ob\<lparr>ob_script := s\<rparr>) = (a, ob'') \<Longrightarrow> harmless ob ob''"
  shows "harmless ob ob'"
  using assms(1) by (rule connected_cases) (auto intro: harmless_same assms(2))

lemma carries_same: "carries r p \<Longrightarrow> same_delivery r r' \<Longrightarrow> carries r' p"
  by (auto simp: carries_def same_delivery_def identity_def thread_record_value_def)

lemma carried_later: "\<exists>r \<in> set (ob_rows ob). carries r p \<Longrightarrow> outgrows ob ob' \<Longrightarrow> \<exists>r \<in> set (ob_rows ob'). carries r p"
  unfolding outgrows_def using carries_same becomes_same by blast

lemma no_posts:
  assumes "outbox_ok ob" and "ledger ps ob" and "ob_last_id ob < i"
  shows "posts_of i ps = []"
  using assms by (force simp: posts_of_def filter_empty_conv ledger_def carries_def outbox_ok_def)

lemma harmless_ledger:
  assumes ok: "outbox_ok ob" and led: "ledger ps ob" and ok': "outbox_ok ob'" and out: "outgrows ob ob'" and h: "harmless ob ob'"
  shows "ledger ps ob'"
  unfolding ledger_def
proof (intro conjI ballI)
  fix p assume "p \<in> set ps"
  with led have "\<exists>r \<in> set (ob_rows ob). carries r p" by (simp add: ledger_def)
  then show "\<exists>r \<in> set (ob_rows ob'). carries r p" using out by (rule carried_later)
next
  fix r' assume r': "r' \<in> set (ob_rows ob')"
  with h consider (old) r where "r \<in> set (ob_rows ob)" "same_delivery r r'"
      "dr_state r' = dr_state r \<or> dr_state r' \<in> {SENT, SENDING} \<or> dr_duplicate_risk r'"
    | (new) "ob_last_id ob < dr_id r'"
    unfolding harmless_def by blast
  then show "accounted ps r'"
  proof cases
    case old
    with led have "accounted ps r" by (simp add: ledger_def)
    with old show ?thesis by (auto simp: accounted_def same_delivery_def)
  next
    case new
    from no_posts [OF ok led new] r' ok' show ?thesis by (auto simp: accounted_def acks_of_def outbox_ok_def row_ok_def)
  qed
qed

section \<open>The operations of a round\<close>

lemma checked_harmless:
  assumes "checked arg call ob = (r, ob')" and "\<And>a. arg = Inr a \<Longrightarrow> call a ob = (r, ob') \<Longrightarrow> harmless ob ob'"
  shows "harmless ob ob'"
  using assms by (auto simp: checked_eq intro: harmless_same)

lemma enqueue_harmless: "enqueue sn chat m th now ob = (r, ob') \<Longrightarrow> harmless ob ob'"
  unfolding enqueue_def
  by (elim checked_harmless connected_harmless)
     (auto simp: enqueue_call_def Let_def harmless_def new_row_def split: option.splits if_splits intro: same_delivery_refl)

lemma recover_harmless: "recover_stale_sending stale now ob = (r, ob') \<Longrightarrow> harmless ob ob'"
  unfolding recover_stale_sending_def
proof (elim checked_harmless connected_harmless)
  fix before s a ob''
  assume "(Inr (int (length (filter (is_stale before) (ob_rows (ob\<lparr>ob_script := s\<rparr>))))),
      ob\<lparr>ob_script := s, ob_rows := map (\<lambda>r. if is_stale before r then recovered_row now r else r) (ob_rows (ob\<lparr>ob_script := s\<rparr>))\<rparr>) = (a, ob'')"
  then have "ob'' = (ob\<lparr>ob_script := s\<rparr>)\<lparr>ob_rows := map (\<lambda>r. if is_stale before r then recovered_row now r else r) (ob_rows (ob\<lparr>ob_script := s\<rparr>))\<rparr>"
    by simp
  moreover have "harmless (ob\<lparr>ob_script := s\<rparr>) ((ob\<lparr>ob_script := s\<rparr>)\<lparr>ob_rows := map (\<lambda>r. if is_stale before r then recovered_row now r else r) (ob_rows (ob\<lparr>ob_script := s\<rparr>))\<rparr>)"
    by (rule harmless_map) (simp add: recovered_row_def same_delivery_def identity_def)
  ultimately show "harmless ob ob''" by simp
qed

text \<open>What a claim hands out: a row that is counted and locked but not yet asked for.\<close>

definition claimed :: "post list \<Rightarrow> outbox \<Rightarrow> delivery_record \<Rightarrow> bool" where
  "claimed ps ob d = (\<exists>r \<in> set (ob_rows ob). d = record_of r \<and> dr_state r = SENDING
     \<and> int (length (posts_of (dr_id r) ps)) < dr_attempts r \<and> (1 \<le> acks_of (dr_id r) ps \<longrightarrow> dr_duplicate_risk r))"

lemma claimed_row_simps [simp]:
  "dr_id (claimed_row now r) = dr_id r" "dr_state (claimed_row now r) = SENDING"
  "dr_attempts (claimed_row now r) = dr_attempts r + 1" "dr_duplicate_risk (claimed_row now r) = dr_duplicate_risk r"
  by (simp_all add: claimed_row_def)

lemma claim_keeps_ledger:
  assumes ok: "outbox_ok ob" and led: "ledger ps ob" and r: "r \<in> set (ob_rows ob)" "dr_state r = PENDING \<or> dr_state r = RETRY_WAIT"
    and rows: "ob_rows ob' = map (\<lambda>s. if s = r then claimed_row now r else s) (ob_rows ob)" and ok': "outbox_ok ob'" and out: "outgrows ob ob'"
  shows "ledger ps ob' \<and> claimed ps ob' (record_of (claimed_row now r))"
proof
  have "accounted ps r" using led r(1) by (simp add: ledger_def)
  moreover have "claimed_row now r \<in> set (ob_rows ob')" using r(1) rows by auto
  ultimately show "claimed ps ob' (record_of (claimed_row now r))" unfolding claimed_def
    using r(2) by (intro bexI [of _ "claimed_row now r"]) (auto simp: accounted_def)
  have "harmless ob ob'" unfolding harmless_def rows
  proof
    fix s' assume "s' \<in> set (map (\<lambda>s. if s = r then claimed_row now r else s) (ob_rows ob))"
    then obtain s where s: "s \<in> set (ob_rows ob)" "s' = (if s = r then claimed_row now r else s)" by auto
    then show "(\<exists>s \<in> set (ob_rows ob). same_delivery s s' \<and> (dr_state s' = dr_state s \<or> dr_state s' \<in> {SENT, SENDING} \<or> dr_duplicate_risk s'))
        \<or> ob_last_id ob < dr_id s'"
      by (intro disjI1 bexI [OF _ s(1)]) (auto simp: claimed_row_def same_delivery_def identity_def)
  qed
  then show "ledger ps ob'" by (rule harmless_ledger [OF ok led ok' out])
qed

lemma failed_claim: "claim_next_for_destination chat th now ob = (Inl e, ob') \<Longrightarrow> ob_rows ob' = ob_rows ob"
  by (auto simp: claim_next_for_destination_def checked_eq claim_first_def split: option.splits elim!: connected_cases)

lemma claim_ledger:
  assumes ok: "outbox_ok ob" and led: "ledger ps ob" and run: "claim_next_for_destination chat th now ob = (res, ob')"
  shows "outbox_ok ob' \<and> outgrows ob ob' \<and> ledger ps ob' \<and> (\<forall>d. res = Inr (Some d) \<longrightarrow> claimed ps ob' d)"
proof -
  have k: "outbox_ok ob'" "outgrows ob ob'" using keepsD [OF claim_next_for_destination_keeps ok run] by blast+
  have same: "ledger ps ob'" if "ob_rows ob' = ob_rows ob" using led that by (simp add: ledger_def)
  show ?thesis
  proof (cases res)
    case (Inl e)
    with run have "ob_rows ob' = ob_rows ob" using failed_claim by blast
    with k same Inl show ?thesis by simp
  next
    case (Inr result)
    show ?thesis
    proof (cases result)
      case None
      have "ob_rows ob' = ob_rows ob" by (rule claim_cases [OF ok, of chat th now None ob']) (use run Inr None in auto)
      with k same Inr None show ?thesis by simp
    next
      case (Some d)
      have "\<exists>r \<in> set (ob_rows ob). is_ready now r \<and> d = record_of (claimed_row now r)
          \<and> ob_rows ob' = map (\<lambda>s. if s = r then claimed_row now r else s) (ob_rows ob)"
        by (rule claim_cases [OF ok, of chat th now "Some d" ob']) (use run Inr Some in auto)
      then obtain r where r: "r \<in> set (ob_rows ob)" "is_ready now r" "d = record_of (claimed_row now r)"
          "ob_rows ob' = map (\<lambda>s. if s = r then claimed_row now r else s) (ob_rows ob)"
        by blast
      with claim_keeps_ledger [OF ok led r(1) _ r(4) k] k Inr Some show ?thesis by (auto simp: is_ready_def)
    qed
  qed
qed

lemma record_of_simps [simp]:
  "de_id (record_of r) = dr_id r" "de_attempts (record_of r) = dr_attempts r" "de_state (record_of r) = dr_state r"
  "de_duplicate_risk (record_of r) = dr_duplicate_risk r" "de_text (record_of r) = dr_text r"
  "de_button_url (record_of r) = dr_button_url r" "de_chat_id (record_of r) = dr_chat_id r"
  "de_thread_id (record_of r) = thread_record_value r" "de_snapshot_id (record_of r) = dr_snapshot_id r"
  "de_snapshot_sha256 (record_of r) = dr_snapshot_sha256 r" "de_message_id (record_of r) = dr_message_id r"
  by (simp_all add: record_of_def)

text \<open>One more request for a claimed row keeps the account while the row is locked.\<close>

lemma posts_of_snoc [simp]:
  "posts_of i (ps @ [p]) = posts_of i ps @ (if po_delivery p = i then [p] else [])"
  "acks_of i (ps @ [p]) = acks_of i ps + (if po_delivery p = i \<and> acknowledged p then 1 else 0)"
  by (simp_all add: posts_of_def acks_of_def)

lemma post_ledger:
  assumes ok: "outbox_ok ob" and led: "ledger ps ob" and r: "r \<in> set (ob_rows ob)" "dr_state r = SENDING"
    "int (length (posts_of (dr_id r) ps)) < dr_attempts r" "1 \<le> acks_of (dr_id r) ps \<longrightarrow> dr_duplicate_risk r"
    and p: "carries r p"
  shows "ledger (ps @ [p]) ob"
  unfolding ledger_def
proof (intro conjI ballI)
  fix q assume "q \<in> set (ps @ [p])"
  with led p r(1) show "\<exists>r \<in> set (ob_rows ob). carries r q" by (auto simp: ledger_def)
next
  fix s assume s: "s \<in> set (ob_rows ob)"
  then have acc: "accounted ps s" using led by (simp add: ledger_def)
  have "s = r" if "dr_id s = dr_id r" by (rule outbox_id [OF ok s r(1) that])
  with acc r(2-4) p show "accounted (ps @ [p]) s" by (cases "dr_id s = dr_id r") (auto simp: accounted_def carries_def)
qed

text \<open>Leaving \<open>sending\<close> after a failure: no acknowledgement has come, so an earlier one has left the flag.\<close>

lemma settle_ledger:
  assumes ok: "outbox_ok ob" and led: "ledger ps ob"
    and risk: "\<And>r. r \<in> set (ob_rows ob) \<Longrightarrow> dr_id r = i \<Longrightarrow> state \<noteq> SENT \<longrightarrow> 1 \<le> acks_of i ps \<longrightarrow> dr_duplicate_risk r"
    and st: "state \<in> {SENT, RETRY_WAIT, FAILED}" "(state = SENT) = (m \<noteq> None)" "(state = SENT) = (t \<noteq> None)"
    and run: "transition_from_sending i (settled_row state av c m t now flag) ob = (res, ob')"
  shows "outbox_ok ob' \<and> outgrows ob ob' \<and> ledger ps ob'"
proof -
  have "keeps_outbox (transition_from_sending i (settled_row state av c m t now flag))"
    by (intro transition_keeps settled_row_ok) (use st in auto)
  from keepsD [OF this ok run] have k: "outbox_ok ob'" "outgrows ob ob'" by blast+
  have acc: "\<forall>r \<in> set (ob_rows ob). accounted ps r" using led by (simp add: ledger_def)
  have rows: "ob_rows ob' = ob_rows ob \<or> ob_rows ob' = map (\<lambda>r. if dr_id r = i then settled_row state av c m t now flag r else r) (ob_rows ob)"
    using run unfolding transition_from_sending_def
    by (elim connected_cases) (auto simp: update_row_def split: option.splits if_splits)
  have "accounted ps (settled_row state av c m t now flag r)" if "r \<in> set (ob_rows ob)" "dr_id r = i" for r
    using risk [OF that] acc that by (auto simp: accounted_def settled_row_def)
  with rows acc have "\<forall>r \<in> set (ob_rows ob'). accounted ps r" by auto
  moreover have "\<forall>p \<in> set ps. \<exists>r \<in> set (ob_rows ob'). carries r p"
    using led carried_later [OF _ k(2)] by (auto simp: ledger_def)
  ultimately show ?thesis using k by (simp add: ledger_def)
qed

section \<open>Every round keeps the account\<close>

definition keeps_gateway :: "(gateway \<Rightarrow> 'a result \<times> gateway) \<Rightarrow> bool" where
  "keeps_gateway call = (\<forall>g r g'. gateway_ok g \<longrightarrow> call g = (r, g') \<longrightarrow> gateway_ok g' \<and> gateway_outgrows g g')"

lemma keeps_gatewayD: "keeps_gateway call \<Longrightarrow> gateway_ok g \<Longrightarrow> call g = (r, g') \<Longrightarrow> gateway_ok g' \<and> gateway_outgrows g g'"
  by (simp add: keeps_gateway_def)

lemma on_runtime_simps [simp]:
  "gw_outbox (on_runtime f g) = gw_outbox g" "gw_posts (on_runtime f g) = gw_posts g" "gw_replies (on_runtime f g) = gw_replies g"
  by (simp_all add: on_runtime_def)

lemma runtime_irrelevant [simp]:
  "gateway_ok (on_runtime f g) = gateway_ok g" "gateway_outgrows (on_runtime f g) g' = gateway_outgrows g g'"
  "gateway_outgrows g (on_runtime f g') = gateway_outgrows g g'"
  by (simp_all add: gateway_ok_def gateway_outgrows_def)

lemma on_outbox_eq: "on_outbox call g = (r, g') \<longleftrightarrow> (\<exists>ob. call (gw_outbox g) = (r, ob) \<and> g' = g\<lparr>gw_outbox := ob\<rparr>)"
  by (auto simp: on_outbox_def split: prod.splits)

lemma with_outbox:
  assumes "outbox_ok ob" and "outgrows (gw_outbox g) ob" and "ledger (gw_posts g) ob"
  shows "gateway_ok (g\<lparr>gw_outbox := ob\<rparr>) \<and> gateway_outgrows g (g\<lparr>gw_outbox := ob\<rparr>)"
  using assms by (simp add: gateway_ok_def gateway_outgrows_def)

lemma harmless_call:
  assumes "keeps_outbox call" and "\<And>ob r ob'. call ob = (r, ob') \<Longrightarrow> harmless ob ob'"
  shows "keeps_gateway (on_outbox call)"
  unfolding keeps_gateway_def on_outbox_eq
proof (intro allI impI, elim exE conjE, hypsubst)
  fix g r ob assume g: "gateway_ok g" and run: "call (gw_outbox g) = (r, ob)"
  then have ok: "outbox_ok (gw_outbox g)" and led: "ledger (gw_posts g) (gw_outbox g)" by (simp_all add: gateway_ok_def)
  from keepsD [OF assms(1) ok run] have k: "outbox_ok ob" "outgrows (gw_outbox g) ob" by blast+
  from with_outbox [OF k harmless_ledger [OF ok led k assms(2) [OF run]]]
  show "gateway_ok (g\<lparr>gw_outbox := ob\<rparr>) \<and> gateway_outgrows g (g\<lparr>gw_outbox := ob\<rparr>)" .
qed

lemma recover_gateway: "keeps_gateway (on_outbox (recover st now))"
  unfolding recover_def
  by (intro harmless_call keeps_checked recover_keeps) (auto elim: checked_harmless intro: recover_harmless)

lemma enqueue_due_gateway:
  "gateway_ok g \<Longrightarrow> enqueue_due st render chat cutoff now ss (gw_outbox g) = (r, ob)
    \<Longrightarrow> gateway_ok (g\<lparr>gw_outbox := ob\<rparr>) \<and> gateway_outgrows g (g\<lparr>gw_outbox := ob\<rparr>)"
proof (induction ss arbitrary: g)
  case Nil
  then have ob: "ob = gw_outbox g" by simp
  have "g\<lparr>gw_outbox := gw_outbox g\<rparr> = g" by simp
  with Nil.prems(1) show ?case unfolding ob by (simp only: gateway_outgrows_refl simp_thms)
next
  case (Cons s ss)
  show ?case
  proof (cases "rs_organization_id s = gs_organization_id st \<and> is_due st cutoff now s \<and> isOk (render s)")
    case False
    with Cons show ?thesis by (auto simp: gateway_outgrows_refl isOk_def split: if_splits sum.splits)
  next
    case True
    then obtain m where m: "render s = Inr m" by (auto simp: isOk_iff)
    obtain e ob1 where e: "enqueue s chat m (gs_message_thread_id st) now (gw_outbox g) = (e, ob1)" by fastforce
    have k: "gateway_ok (g\<lparr>gw_outbox := ob1\<rparr>) \<and> gateway_outgrows g (g\<lparr>gw_outbox := ob1\<rparr>)"
      using e Cons.prems(1) by (intro keeps_gatewayD [OF harmless_call [OF enqueue_keeps enqueue_harmless]]) (auto simp: on_outbox_eq)
    show ?thesis
    proof (cases e)
      case (Inl x)
      with Cons.prems(2) True m e k show ?thesis by simp
    next
      case (Inr d)
      with Cons.prems(2) True m e have "enqueue_due st render chat cutoff now ss (gw_outbox (g\<lparr>gw_outbox := ob1\<rparr>)) = (r, ob)" by simp
      from Cons.IH [OF conjunct1 [OF k] this] k show ?thesis using gateway_outgrows_trans by fastforce
    qed
  qed
qed

lemma discover_gateway: "keeps_gateway (on_outbox (discover st backend render now))"
  unfolding keeps_gateway_def on_outbox_eq
  by (auto simp: discover_def checked_eq gateway_outgrows_refl dest: enqueue_due_gateway)

lemma settle_gateway:
  assumes g: "gateway_ok g"
    and risk: "\<And>r. r \<in> set (ob_rows (gw_outbox g)) \<Longrightarrow> dr_id r = i \<Longrightarrow> state \<noteq> SENT \<longrightarrow> 1 \<le> acks_of i (gw_posts g) \<longrightarrow> dr_duplicate_risk r"
    and st: "state \<in> {SENT, RETRY_WAIT, FAILED}" "(state = SENT) = (m \<noteq> None)" "(state = SENT) = (t \<noteq> None)"
    and run: "transition_from_sending i (settled_row state av c m t now flag) (gw_outbox g) = (res, ob)"
  shows "gateway_ok (g\<lparr>gw_outbox := ob\<rparr>) \<and> gateway_outgrows g (g\<lparr>gw_outbox := ob\<rparr>)"
proof -
  from g have "outbox_ok (gw_outbox g)" "ledger (gw_posts g) (gw_outbox g)" by (simp_all add: gateway_ok_def)
  from settle_ledger [OF this risk st run] show ?thesis using with_outbox by blast
qed

text \<open>After a request for a claimed delivery the account holds, and unless it was acknowledged the earlier
  acknowledgements have flagged the row.\<close>

lemma post_gateway:
  assumes g: "gateway_ok g" and d: "claimed (gw_posts g) (gw_outbox g) d" and c: "chat = de_chat_id d \<or> strip chat = de_chat_id d"
    and run: "post_delivery (d\<lparr>de_chat_id := chat\<rparr>) g = (res, g')"
  shows "gateway_ok g' \<and> gateway_outgrows g g' \<and> length (gw_posts g') = length (gw_posts g) + 1
    \<and> ((\<exists>e. res = Inl e) \<longrightarrow> (\<forall>r \<in> set (ob_rows (gw_outbox g')). dr_id r = de_id d \<longrightarrow> 1 \<le> acks_of (de_id d) (gw_posts g') \<longrightarrow> dr_duplicate_risk r))"
proof -
  from g have ok: "outbox_ok (gw_outbox g)" and led: "ledger (gw_posts g) (gw_outbox g)" by (simp_all add: gateway_ok_def)
  from d obtain r where r: "r \<in> set (ob_rows (gw_outbox g))" "d = record_of r" "dr_state r = SENDING"
      "int (length (posts_of (dr_id r) (gw_posts g))) < dr_attempts r" "1 \<le> acks_of (dr_id r) (gw_posts g) \<longrightarrow> dr_duplicate_risk r"
    by (auto simp: claimed_def)
  from run c obtain p where p: "gw_outbox g' = gw_outbox g" "gw_posts g' = gw_posts g @ [p]" "carries r p" "res = send_message (po_reply p)"
    by (auto simp: post_delivery_def Let_def carries_def r(2))
  from post_ledger [OF ok led r(1,3,4,5) p(3)] ok p(1,2) have "gateway_ok g' \<and> gateway_outgrows g g'"
    by (simp add: gateway_ok_def gateway_outgrows_def outgrows_refl)
  moreover have "dr_duplicate_risk s" if "res = Inl e" "s \<in> set (ob_rows (gw_outbox g'))" "dr_id s = de_id d"
      "1 \<le> acks_of (de_id d) (gw_posts g')" for e s
  proof -
    have "s = r" using outbox_id [OF ok _ r(1)] that(2,3) p(1) r(2) by simp
    moreover have "\<not> acknowledged p" using that(1) p(4) by (simp add: acknowledged_def)
    ultimately show ?thesis using that(4) p(2) r(2,5) by simp
  qed
  ultimately show ?thesis using p(2) by auto
qed

lemma deliver_gateway:
  assumes g: "gateway_ok g" and d: "claimed (gw_posts g) (gw_outbox g) d" and run: "deliver st d now g = (res, g')"
  shows "gateway_ok g' \<and> gateway_outgrows g g'"
proof -
  obtain a g1 where a: "post_delivery d g = (a, g1)" by fastforce
  have "post_delivery (d\<lparr>de_chat_id := de_chat_id d\<rparr>) g = (a, g1)" using a by simp
  note post = post_gateway [OF g d _ this, OF disjI1 [OF refl]]
  then have g1: "gateway_ok g1" "gateway_outgrows g g1" by blast+
  have "gateway_ok g' \<and> gateway_outgrows g1 g'"
  proof (cases a)
    case (Inr m)
    obtain e ob where e: "mark_sent (de_id d) m now (gw_outbox g1) = (e, ob)" by fastforce
    have "gateway_ok (g1\<lparr>gw_outbox := ob\<rparr>) \<and> gateway_outgrows g1 (g1\<lparr>gw_outbox := ob\<rparr>)"
      by (rule settle_gateway [OF g1(1) _ _ _ _ e [unfolded mark_sent_def]]) simp_all
    moreover have "g' = g1\<lparr>gw_outbox := ob\<rparr> \<or> g' = on_runtime (record_send now) (g1\<lparr>gw_outbox := ob\<rparr>)"
      using run a Inr e by (auto simp: deliver_def on_outbox_def split: sum.splits)
    ultimately show ?thesis by auto
  next
    case (Inl x)
    show ?thesis
    proof (cases x)
      case (Raised e)
      with run a Inl g1 show ?thesis by (simp add: deliver_def gateway_outgrows_refl)
    next
      case (ApiError e)
      define g2 where "g2 = on_runtime (record_error (ta_code e)) g1"
      have g2: "gateway_ok g2" "gateway_outgrows g1 g2" using g1(1) by (simp_all add: g2_def gateway_outgrows_refl)
      have risk: "\<And>r. r \<in> set (ob_rows (gw_outbox g2)) \<Longrightarrow> dr_id r = de_id d \<Longrightarrow> 1 \<le> acks_of (de_id d) (gw_posts g2) \<longrightarrow> dr_duplicate_risk r"
        using post Inl by (simp add: g2_def)
      have failed: "gateway_ok (g2\<lparr>gw_outbox := ob\<rparr>) \<and> gateway_outgrows g2 (g2\<lparr>gw_outbox := ob\<rparr>)"
        if "mark_failed (de_id d) (ta_code e) False now (gw_outbox g2) = (u, ob)" for u ob
        by (rule settle_gateway [OF g2(1) _ _ _ _ that [unfolded mark_failed_def]]) (use risk in simp_all)
      have retried: "gateway_ok (g2\<lparr>gw_outbox := ob\<rparr>) \<and> gateway_outgrows g2 (g2\<lparr>gw_outbox := ob\<rparr>)"
        if "mark_retry (de_id d) delay (ta_code e) now (gw_outbox g2) = (u, ob)" for delay u ob
      proof -
        from that consider "ob = gw_outbox g2"
          | av where "transition_from_sending (de_id d) (settled_row RETRY_WAIT av (Some (ta_code e)) None None now False) (gw_outbox g2) = (u, ob)"
          by (auto simp: mark_retry_def checked_eq)
        then show ?thesis
        proof cases
          case 1
          with g2(1) show ?thesis by (simp add: gateway_outgrows_refl)
        next
          case 2
          show ?thesis by (rule settle_gateway [OF g2(1) _ _ _ _ 2]) (use risk in simp_all)
        qed
      qed
      from run a Inl ApiError have "after_failure st d e now g1 = (res, g')" by (simp add: deliver_def)
      then have "g' = g2 \<or> (\<exists>u ob delay. (mark_failed (de_id d) (ta_code e) False now (gw_outbox g2) = (u, ob)
          \<or> mark_retry (de_id d) delay (ta_code e) now (gw_outbox g2) = (u, ob)) \<and> g' = g2\<lparr>gw_outbox := ob\<rparr>)"
        by (auto simp: after_failure_def g2_def on_outbox_eq Let_def split: if_splits sum.splits)
      with g2 failed retried show ?thesis using gateway_outgrows_refl gateway_outgrows_trans by metis
    qed
  qed
  with g1(2) show ?thesis using gateway_outgrows_trans by blast
qed

lemma drain_gateway: "gateway_ok g \<Longrightarrow> drain st now n g = (r, g') \<Longrightarrow> gateway_ok g' \<and> gateway_outgrows g g'"
proof (induction n arbitrary: g)
  case 0
  then show ?case by (simp add: gateway_outgrows_refl)
next
  case (Suc n)
  let ?chat = "case gs_destination_chat_id st of None \<Rightarrow> [] | Some c \<Rightarrow> c"
  obtain c ob where c: "claim_next_for_destination ?chat (gs_message_thread_id st) now (gw_outbox g) = (c, ob)" by fastforce
  define g1 where "g1 = g\<lparr>gw_outbox := ob\<rparr>"
  from Suc.prems(1) have "outbox_ok (gw_outbox g)" "ledger (gw_posts g) (gw_outbox g)" by (simp_all add: gateway_ok_def)
  note k = claim_ledger [OF this c]
  then have g1: "gateway_ok g1" "gateway_outgrows g g1" using with_outbox unfolding g1_def by blast+
  consider "g' = g1" | d where "c = Inr (Some d)"
    using Suc.prems(2) c by (auto simp: on_outbox_def g1_def split: sum.splits option.splits)
  then show ?case
  proof cases
    case 1
    with g1 show ?thesis by simp
  next
    case 2
    obtain e g2 where e: "deliver st d now g1 = (e, g2)" by fastforce
    have "claimed (gw_posts g1) (gw_outbox g1) d" using k 2 by (simp add: g1_def)
    from deliver_gateway [OF g1(1) this e] have g2: "gateway_ok g2" "gateway_outgrows g1 g2" by blast+
    show ?thesis
    proof (cases e)
      case (Inl x)
      with Suc.prems(2) c 2 e g1 g2 show ?thesis
        using gateway_outgrows_trans by (auto simp: on_outbox_def g1_def [symmetric])
    next
      case (Inr x)
      with Suc.prems(2) c 2 e have "drain st now n g2 = (r, g')" by (simp add: on_outbox_def g1_def [symmetric])
      from Suc.IH [OF g2(1) this] g1(2) g2(2) show ?thesis using gateway_outgrows_trans by blast
    qed
  qed
qed

lemma run_once_gateway: "keeps_gateway (run_once st backend render now)"
  unfolding keeps_gateway_def
proof (intro allI impI)
  fix g r g' assume g: "gateway_ok g" and run: "run_once st backend render now g = (r, g')"
  obtain a g1 where a: "on_outbox (recover st now) g = (a, g1)" by fastforce
  note k1 = keeps_gatewayD [OF recover_gateway g a]
  show "gateway_ok g' \<and> gateway_outgrows g g'"
  proof (cases a)
    case (Inl e)
    with run a k1 show ?thesis by (simp add: run_once_def)
  next
    case (Inr n)
    define g2 where "g2 = on_runtime (record_recovered_unknown n) g1"
    obtain b g3 where b: "on_outbox (discover st backend render now) g2 = (b, g3)" by fastforce
    have "gateway_ok g2" "gateway_outgrows g g2" using k1 by (simp_all add: g2_def)
    with keeps_gatewayD [OF discover_gateway _ b] have k3: "gateway_ok g3" "gateway_outgrows g g3"
      using gateway_outgrows_trans by blast+
    from run a Inr b have "g' = g3 \<or> (\<exists>f. drain st now (gs_max_deliveries_per_run st) (on_runtime f g3) = (r, g'))"
      by (auto simp: run_once_def g2_def Let_def split: sum.splits option.splits)
    with k3 drain_gateway [of "on_runtime f g3" for f] show ?thesis using gateway_outgrows_trans
      by (metis runtime_irrelevant(1,2))
  qed
qed

section \<open>Properties of a round\<close>

lemma power_float: "e \<le> 53 \<Longrightarrow> float_of_int (2 ^ e) = Inr (2 ^ e)"
  using float_of_int_small [of "2 ^ e"] power_increasing [of e 53 "2::int"] by simp

lemma timedelta_positive:
  assumes "1 / 10 \<le> d" and "d \<le> 86400"
  obtains us where "timedelta_seconds d = Inr us" and "100000 \<le> us" and "us \<le> 86401 * second"
proof -
  define w where "w = \<lfloor>d\<rfloor>"
  define f where "f = rhe (fl ((d - of_int w) * 1000000))"
  have w: "of_int w \<le> d" "d < of_int w + 1" "0 \<le> w" "w \<le> 86400"
    using assms floor_correct [of d] by (simp_all add: w_def floor_le_iff)
  have "0 \<le> fl ((d - of_int w) * 1000000)" using w(1) by (intro fl_nonneg) simp
  then have f0: "0 \<le> f" using rhe_ge_of_int [of 0] by (simp add: f_def)
  have "fl ((d - of_int w) * 1000000) \<le> 1000000"
    using w(2) is_float_of_int [of 1000000] by (intro fl_le_float) simp_all
  then have f1: "f \<le> 1000000" using rhe_le_of_int [of _ 1000000] by (simp add: f_def)
  have low: "100000 \<le> w * second + f"
  proof (cases "w = 0")
    case True
    have "100000 \<le> fl ((d - of_int w) * 1000000)"
      using assms(1) True is_float_of_int [of 100000] by (intro fl_ge_float) simp_all
    then show ?thesis using True rhe_ge_of_int [of 100000] by (simp add: f_def)
  next
    case False
    with w(3) f0 show ?thesis by linarith
  qed
  have "trunc d = w" using assms(1) by (simp add: trunc_def w_def)
  moreover have "\<bar>(w * second + f) div (86400 * second)\<bar> \<le> 999999999" using low f1 w(4) by simp
  ultimately have "timedelta_seconds d = Inr (w * second + f)" by (simp add: timedelta_seconds_def f_def Let_def)
  moreover have "w * second + f \<le> 86401 * second" using f1 w(4) by simp
  ultimately show ?thesis using low by (intro that)
qed

lemma retry_delay_value:
  assumes "settings_ok st" and "1 \<le> attempts" and "attempts < gs_max_attempts st"
  shows "retry_delay st attempts ra = Inr (min (case ra of
       None \<Rightarrow> min (fmul (gs_retry_initial_seconds st) (2 ^ nat (attempts - 1))) (gs_retry_max_seconds st)
     | Some r \<Rightarrow> max (min (fmul (gs_retry_initial_seconds st) (2 ^ nat (attempts - 1))) (gs_retry_max_seconds st)) r) (gs_retry_max_seconds st))"
proof -
  have "attempts < 50" using assms by (simp add: settings_ok_def)
  then have "nat (attempts - 1) \<le> 53" by simp
  with assms(2) show ?thesis by (simp add: retry_delay_def power_float Let_def split: option.splits)
qed

lemma first_delay:
  assumes "settings_ok st"
  shows "gs_retry_initial_seconds st \<le> min (fmul (gs_retry_initial_seconds st) (2 ^ n)) (gs_retry_max_seconds st)"
proof -
  have i: "is_float (gs_retry_initial_seconds st)" "1 / 10 \<le> gs_retry_initial_seconds st" "gs_retry_initial_seconds st \<le> gs_retry_max_seconds st"
    using assms by (simp_all add: settings_ok_def)
  have "gs_retry_initial_seconds st * 1 \<le> gs_retry_initial_seconds st * 2 ^ n" using i(2) by (intro mult_left_mono) simp_all
  then have "gs_retry_initial_seconds st \<le> fmul (gs_retry_initial_seconds st) (2 ^ n)"
    unfolding fmul_def using i(1) by (intro fl_ge_float) simp_all
  with i(3) show ?thesis by simp
qed

text \<open>C19: The retry delay is bounded. For a delivery that may still be retried it lies between the initial and the
  maximal delay, whatever \<open>Retry-After\<close> Telegram asks for, honours \<open>Retry-After\<close> up to the maximum, does not
  shrink when attempts are added, and is at least a tenth of a second, so that the row is not ready again for the
  instant of the same round.\<close>

theorem retry_delay_bounded:
  assumes "settings_ok st" and "1 \<le> attempts" and "attempts \<le> later" and "later < gs_max_attempts st"
  shows "\<exists>d d' us. retry_delay st attempts ra = Inr d \<and> retry_delay st later ra = Inr d' \<and> d \<le> d'
    \<and> gs_retry_initial_seconds st \<le> d \<and> d' \<le> gs_retry_max_seconds st
    \<and> (\<forall>r. ra = Some r \<longrightarrow> min r (gs_retry_max_seconds st) \<le> d)
    \<and> timedelta_seconds d = Inr us \<and> 100000 \<le> us"
proof -
  define base where "base n = min (fmul (gs_retry_initial_seconds st) (2 ^ n)) (gs_retry_max_seconds st)" for n
  define delay where "delay n = min (case ra of None \<Rightarrow> base n | Some r \<Rightarrow> max (base n) r) (gs_retry_max_seconds st)" for n
  have i: "1 / 10 \<le> gs_retry_initial_seconds st" "gs_retry_initial_seconds st \<le> gs_retry_max_seconds st" "gs_retry_max_seconds st \<le> 86400"
    using assms(1) by (simp_all add: settings_ok_def)
  have first: "gs_retry_initial_seconds st \<le> base n" for n using first_delay [OF assms(1)] by (simp add: base_def)
  have "fmul (gs_retry_initial_seconds st) (2 ^ n) \<le> fmul (gs_retry_initial_seconds st) (2 ^ m)" if "n \<le> m" for n m
    unfolding fmul_def using i(1) that by (intro fl_mono_pos mult_left_mono power_increasing) simp_all
  then have mono: "delay n \<le> delay m" if "n \<le> m" for n m
    using that by (fastforce simp: delay_def base_def min_def max_def split: option.splits)
  have "retry_delay st attempts ra = Inr (delay (nat (attempts - 1)))" "retry_delay st later ra = Inr (delay (nat (later - 1)))"
    using retry_delay_value [OF assms(1), of attempts ra] retry_delay_value [OF assms(1), of later ra] assms(2-4)
    by (cases ra; simp add: delay_def base_def)+
  moreover have "gs_retry_initial_seconds st \<le> delay n" for n
    using first [of n] i(2) by (auto simp: delay_def split: option.splits)
  moreover have "delay n \<le> gs_retry_max_seconds st" for n by (simp add: delay_def)
  moreover have "min r (gs_retry_max_seconds st) \<le> delay n" if "ra = Some r" for r n using that by (auto simp: delay_def)
  moreover from i(1,3) calculation(3,4) have "1 / 10 \<le> delay n" "delay n \<le> 86400" for n by (meson order_trans)+
  then obtain us where "timedelta_seconds (delay (nat (attempts - 1))) = Inr us" "100000 \<le> us"
    using timedelta_positive by metis
  ultimately show ?thesis using mono [of "nat (attempts - 1)" "nat (later - 1)"] assms(3) by (metis diff_right_mono nat_mono)
qed

section \<open>What discovery finds\<close>

lemma collected:
  assumes pages: "\<And>limit offset. backend limit offset = Inr (take limit (drop offset all))"
    and sorted: "sorted_wrt (\<lambda>a b. rs_scheduled_for b \<le> rs_scheduled_for a) all"
  shows "collect_pages st backend cutoff n page (take (page * gs_snapshot_page_size st) all) = Inr xs
    \<Longrightarrow> \<exists>ys. all = xs @ ys \<and> (\<forall>y \<in> set ys. rs_scheduled_for y < cutoff)"
proof (induction n arbitrary: page)
  case (Suc n)
  let ?k = "gs_snapshot_page_size st"
  define items where "items = take ?k (drop (page * ?k) all)"
  have next_page: "take (page * ?k) all @ items = take ((page + 1) * ?k) all"
    by (simp add: items_def take_add [symmetric] add.commute)
  have "(if length items < ?k then Inr (take (page * ?k) all @ items)
      else if items \<noteq> [] \<and> Min (rs_scheduled_for ` set items) < cutoff then Inr (take (page * ?k) all @ items)
      else collect_pages st backend cutoff n (page + 1) (take (page * ?k) all @ items)) = Inr xs"
    using Suc.prems by (simp only: collect_pages.simps pages [of ?k "page * ?k"] ebind_Inr items_def)
  then consider (short) "length items < ?k" "xs = take (page * ?k) all @ items"
    | (old) "items \<noteq> []" "Min (rs_scheduled_for ` set items) < cutoff" "xs = take (page * ?k) all @ items"
    | (more) "collect_pages st backend cutoff n (page + 1) (take (page * ?k) all @ items) = Inr xs"
    by (metis sum.inject(2))
  then show ?case
  proof cases
    case short
    then have "xs = all" by (auto simp: items_def)
    then show ?thesis by (intro exI [of _ "[]"]) simp
  next
    case old
    then obtain i where i: "i \<in> set items" "rs_scheduled_for i < cutoff"
      by (subst (asm) Min_less_iff) auto
    have xs: "all = xs @ drop ((page + 1) * ?k) all" using old(3) next_page by (metis append_take_drop_id)
    have "rs_scheduled_for y < cutoff" if "y \<in> set (drop ((page + 1) * ?k) all)" for y
    proof -
      have "sorted_wrt (\<lambda>a b. rs_scheduled_for b \<le> rs_scheduled_for a) (xs @ drop ((page + 1) * ?k) all)" using sorted xs by metis
      then have "rs_scheduled_for y \<le> rs_scheduled_for i" using i(1) old(3) that by (auto simp: sorted_wrt_append)
      with i(2) show ?thesis by linarith
    qed
    with xs show ?thesis by blast
  next
    case more
    with next_page Suc.IH [of "page + 1"] show ?thesis by metis
  qed
qed simp

lemma enqueue_rows:
  assumes "enqueue s chat m th now ob = (Inr x, ob')"
  obtains destination t where "required chat ''destination_chat_id'' 64 = Inr destination" "thread_db_value th = Inr t"
    and "set (ob_rows ob') \<subseteq> insert (new_row (ob_last_id ob + 1) s destination t m now) (set (ob_rows ob))"
proof -
  from assms obtain destination t where arg: "required chat ''destination_chat_id'' 64 = Inr destination" "thread_db_value th = Inr t"
      and "connected (enqueue_call s destination t m now) ob = (Inr x, ob')" by (auto simp: enqueue_def checked_eq)
  then obtain sc where "enqueue_call s destination t m now (ob\<lparr>ob_script := sc\<rparr>) = (Inr x, ob')" by (metis connected_Inr)
  then have "set (ob_rows ob') \<subseteq> insert (new_row (ob_last_id ob + 1) s destination t m now) (set (ob_rows ob))"
    by (auto simp: enqueue_call_def Let_def split: option.splits if_splits)
  with arg show ?thesis by (rule that)
qed

lemma enqueue_due_rows:
  assumes "enqueue_due st render chat cutoff now ss ob = (Inr (), ob')" and "outbox_ok ob"
    and dest: "required chat ''destination_chat_id'' 64 = Inr destination" "thread_db_value (gs_message_thread_id st) = Inr t"
  shows "outbox_step\<^sup>*\<^sup>* ob ob'
    \<and> (\<forall>s \<in> set ss. is_due st cutoff now s \<longrightarrow> (\<exists>r. find_delivery (rs_id s) destination t ob' = Some r \<and> dr_snapshot_sha256 r = rs_payload_sha256 s))
    \<and> (\<forall>r \<in> set (ob_rows ob'). r \<in> set (ob_rows ob) \<or> (\<exists>s \<in> set ss. is_due st cutoff now s \<and> identity r = (rs_id s, destination, t)))"
  using assms(1,2)
proof (induction ss arbitrary: ob)
  case (Cons s ss)
  show ?case
  proof (cases "is_due st cutoff now s")
    case False
    with Cons.prems(1) have "enqueue_due st render chat cutoff now ss ob = (Inr (), ob')" by (simp split: if_splits)
    from Cons.IH [OF this Cons.prems(2)] False show ?thesis by auto
  next
    case True
    with Cons.prems(1) obtain m d b ob1 where e: "enqueue s chat m (gs_message_thread_id st) now ob = (Inr (d, b), ob1)"
        and rest: "enqueue_due st render chat cutoff now ss ob1 = (Inr (), ob')"
      by (auto split: if_splits sum.splits prod.splits)
    have ok1: "outbox_ok ob1" using keepsD [OF enqueue_keeps Cons.prems(2) e] by blast
    have step: "outbox_step ob ob1" by (rule outbox_step.intros(1) [OF e])
    note ih = Cons.IH [OF rest ok1]
    from Cons.prems(2) e obtain r where r: "find_delivery (rs_id s) destination t ob1 = Some r" "dr_snapshot_sha256 r = rs_payload_sha256 s"
      by (rule enqueued_row) (use dest in auto)
    from ih have steps: "outbox_step\<^sup>*\<^sup>* ob1 ob'" by blast
    from find_delivery_later [OF ok1 r(1) steps] obtain r' where r': "find_delivery (rs_id s) destination t ob' = Some r'"
        "dr_snapshot_sha256 r' = rs_payload_sha256 s" using r(2) by (auto simp: same_delivery_def)
    from e have "set (ob_rows ob1) \<subseteq> insert (new_row (ob_last_id ob + 1) s destination t m now) (set (ob_rows ob))"
      by (rule enqueue_rows) (use dest in auto)
    then have new: "\<forall>x \<in> set (ob_rows ob1). x \<in> set (ob_rows ob) \<or> identity x = (rs_id s, destination, t)"
      by (auto simp: new_row_def identity_def)
    have "outbox_step\<^sup>*\<^sup>* ob ob'" using step steps by (rule converse_rtranclp_into_rtranclp)
    with ih r' new True show ?thesis by fastforce
  qed
qed simp

lemma by_schedule_set [simp]: "set (by_schedule xs) = set xs"
  by (simp add: by_schedule_def)

text \<open>C16: Discovery finds every due snapshot. If the backend serves the pages of one list, newest first, then a
  discovery that returns has left in the outbox, for the configured destination, a row with the digest of every
  snapshot that is due: scheduled within the age limit and not in the future, and after the activation cutoff or
  named for the bootstrap. Every other row was there before, and no row was touched.\<close>

theorem discovery_complete:
  assumes "outbox_ok ob" and "\<And>limit offset. backend limit offset = Inr (take limit (drop offset all))"
    and "sorted_wrt (\<lambda>a b. rs_scheduled_for b \<le> rs_scheduled_for a) all"
    and "discover st backend render now ob = (Inr (), ob')"
    and "required (case gs_destination_chat_id st of None \<Rightarrow> [] | Some c \<Rightarrow> c) ''destination_chat_id'' 64 = Inr destination"
    and "thread_db_value (gs_message_thread_id st) = Inr t"
  defines "due \<equiv> is_due st (now - gs_max_snapshot_age_hours st * 3600 * second) now"
  shows "(\<forall>s \<in> set all. due s \<longrightarrow> (\<exists>r \<in> set (ob_rows ob'). identity r = (rs_id s, destination, t) \<and> dr_snapshot_sha256 r = rs_payload_sha256 s))
    \<and> (\<forall>r \<in> set (ob_rows ob'). r \<in> set (ob_rows ob) \<or> (\<exists>s \<in> set all. due s \<and> identity r = (rs_id s, destination, t)))
    \<and> outgrows ob ob' \<and> outbox_ok ob'"
proof -
  let ?cutoff = "now - gs_max_snapshot_age_hours st * 3600 * second"
  from assms(4,5) obtain xs chat where xs: "collect_pages st backend ?cutoff (gs_snapshot_max_pages st) 0 [] = Inr xs"
      and chat: "required chat ''destination_chat_id'' 64 = Inr destination"
      and run: "enqueue_due st render chat ?cutoff now (by_schedule xs) ob = (Inr (), ob')"
    by (auto simp: discover_def checked_eq add_delta_def split: option.splits if_splits)
  from xs collected [OF assms(2,3), of st ?cutoff _ 0 xs] obtain ys where
    ys: "all = xs @ ys" "\<forall>y \<in> set ys. rs_scheduled_for y < ?cutoff" by auto
  note rows = enqueue_due_rows [OF run assms(1) chat assms(6)]
  then have steps: "outbox_step\<^sup>*\<^sup>* ob ob'" by blast
  from deliveries.run_keeps [OF this assms(1)] have ok: "outbox_ok ob'" "outgrows ob ob'" by blast+
  have "s \<in> set xs" if "s \<in> set all" "due s" for s
    using that ys by (auto simp: due_def is_due_def)
  with rows ok(1) have "\<forall>s \<in> set all. due s \<longrightarrow> (\<exists>r \<in> set (ob_rows ob'). identity r = (rs_id s, destination, t) \<and> dr_snapshot_sha256 r = rs_payload_sha256 s)"
    using find_delivery_iff [OF ok(1)] by (metis by_schedule_set due_def)
  moreover from rows ys(1) have "\<forall>r \<in> set (ob_rows ob'). r \<in> set (ob_rows ob) \<or> (\<exists>s \<in> set all. due s \<and> identity r = (rs_id s, destination, t))"
    unfolding due_def by fastforce
  ultimately show ?thesis using ok by blast
qed

section \<open>A snapshot that is bound to other content\<close>

lemma on_runtime_runtime [simp]: "gw_runtime (on_runtime f g) = f (gw_runtime g)"
  by (simp add: on_runtime_def)

lemma recover_runs:
  assumes "settings_ok st" and "ob_script ob = []" and "instant_min + 86401 * second \<le> now" and "now \<le> instant_max"
  obtains n ob' where "recover st now ob = (Inr n, ob')" and "ob_script ob' = []"
proof -
  have "1 / 10 \<le> gs_stale_sending_seconds st" "gs_stale_sending_seconds st \<le> 86400" using assms(1) by (auto simp: settings_ok_def)
  from timedelta_positive [OF this] obtain us where us: "timedelta_seconds (gs_stale_sending_seconds st) = Inr us"
      "100000 \<le> us" "us \<le> 86401 * second" .
  with assms(3,4) have "add_delta now (- us) = Inr (now - us)" by (simp add: add_delta_def)
  with us(1,2) assms(2) have "\<exists>n ob'. recover st now ob = (Inr n, ob') \<and> ob_script ob' = []"
    by (auto simp: recover_def recover_stale_sending_def checked_def connected_def)
  with that show ?thesis by blast
qed

text \<open>C17: A snapshot that comes back under another digest, alone on the page of the backend, stops the worker when SQLite
  does not fail. \<open>enqueue\<close> refuses it with
  \<open>DeliveryOutboxError\<close>, which is none of the exceptions a round catches around the discovery: the round ends before
  anything is sent, the thread ends with it, whatever rounds were to follow, and the worker is left not running.\<close>

theorem rebound_snapshot_stops_worker:
  assumes "gateway_ok g" and "ob_script (gw_outbox g) = []" and "settings_ok st"
    and "instant_min + 169 * 3600 * second \<le> now" and "now \<le> instant_max"
    and "gs_destination_chat_id st = Some chat" and "gs_mini_app_url_template st \<noteq> None"
    and "required chat ''destination_chat_id'' 64 = Inr destination" and "thread_db_value (gs_message_thread_id st) = Inr t"
    and "backend (gs_snapshot_page_size st) 0 = Inr [s]" and "1 < gs_snapshot_page_size st"
    and "rs_organization_id s = gs_organization_id st" and "is_due st (now - gs_max_snapshot_age_hours st * 3600 * second) now s"
    and "render s = Inr m"
    and "r \<in> set (ob_rows (gw_outbox g))" and "identity r = (rs_id s, destination, t)" and "dr_snapshot_sha256 r \<noteq> rs_payload_sha256 s"
  shows "\<exists>g'. run_worker st ((now, backend, render) # ticks) g
      = (Inl (DeliveryOutboxError ''snapshot identity is already bound to different immutable content''), g')
    \<and> \<not> gr_running (gw_runtime g') \<and> gw_posts g' = gw_posts g"
proof -
  have ok: "outbox_ok (gw_outbox g)" using assms(1) by (simp add: gateway_ok_def)
  from recover_runs [OF assms(3,2), of now] assms(4,5) obtain n ob1 where rec: "recover st now (gw_outbox g) = (Inr n, ob1)" "ob_script ob1 = []" by auto
  have "keeps_outbox (recover st now)" unfolding recover_def by (intro keeps_checked recover_keeps)
  from keepsD [OF this ok rec(1)] have ok1: "outbox_ok ob1" and out: "outgrows (gw_outbox g) ob1" by blast+
  from out assms(15) obtain r1 where "r1 \<in> set (ob_rows ob1)" "same_delivery r r1" by (auto simp: outgrows_def dest: becomes_same)
  then have r1: "find_delivery (rs_id s) destination t ob1 = Some r1" "dr_snapshot_sha256 r1 \<noteq> rs_payload_sha256 s"
    using find_delivery_iff [OF ok1] assms(16,17) by (auto simp: same_delivery_def)
  let ?h = "gs_max_snapshot_age_hours st * 3600 * second"
  have h: "0 \<le> ?h" "?h \<le> 168 * 3600 * second" using assms(3) by (simp_all add: settings_ok_def)
  then have cut: "add_delta now (- gs_max_snapshot_age_hours st * 3600 * second) = Inr (now - ?h)"
    using assms(4,5) by (simp add: add_delta_def)
  obtain k where k: "gs_snapshot_max_pages st = Suc k" using assms(3) by (cases "gs_snapshot_max_pages st") (auto simp: settings_ok_def)
  have pages: "collect_pages st backend (now - ?h) (gs_snapshot_max_pages st) 0 [] = Inr [s]"
    using assms(10,11) by (simp add: k)
  have "enqueue s chat m (gs_message_thread_id st) now ob1
      = (Inl (DeliveryOutboxError ''snapshot identity is already bound to different immutable content''), ob1)"
    using r1 rec(2) assms(8,9) by (simp add: enqueue_def checked_def connected_def enqueue_call_def)
  then have "enqueue_due st render chat (now - ?h) now (by_schedule [s]) ob1
      = (Inl (DeliveryOutboxError ''snapshot identity is already bound to different immutable content''), ob1)"
    using assms(12,13,14) by (simp add: by_schedule_def)
  then have "discover st backend render now ob1
      = (Inl (DeliveryOutboxError ''snapshot identity is already bound to different immutable content''), ob1)"
    using cut pages assms(6,7) by (auto simp: discover_def checked_def)
  then show ?thesis
    using rec(1) by (simp add: run_worker_def run_once_def on_outbox_def discovery_code_def set_running_def Let_def)
qed

section \<open>Requests whose outcome is unknown\<close>

text \<open>Telegram may have posted the message: nothing came back, the server failed, or a success that could not be
  read.\<close>

definition outcome_unknown :: "telegram_reply \<Rightarrow> bool" where
  "outcome_unknown reply = (case reply of TransportFailed \<Rightarrow> True
     | Replied status body \<Rightarrow> 500 \<le> status \<or> 200 \<le> status \<and> status < 300 \<and> (case body of
         Some (JObj v) \<Rightarrow> dget v ''ok'' = Some (JBool True) \<and> message_id_of (json_get (dget_or v ''result'' JNull) ''message_id'') = None
       | _ \<Rightarrow> True))"

lemma unknown_is_retryable:
  "outcome_unknown reply \<Longrightarrow> \<exists>e. send_message reply = Inl (ApiError e) \<and> ta_retryable e \<and> ta_retry_after e = None"
  by (auto simp: outcome_unknown_def send_message_def api_error_def split: telegram_reply.splits option.splits json.splits)

lemma mark_retry_runs:
  assumes "outbox_ok ob" and "ob_script ob = []" and "r \<in> set (ob_rows ob)" and "dr_state r = SENDING"
    and "0 \<le> delay" and "add_delta now delay = Inr av"
  shows "mark_retry (dr_id r) delay code now ob = (Inr (record_of (settled_row RETRY_WAIT av (Some code) None None now False r)),
    update_row (dr_id r) (settled_row RETRY_WAIT av (Some code) None None now False) ob)"
proof -
  have "row_of_id (dr_id r) ob = Some r" using row_of_id_iff [OF assms(1)] assms(3) by blast
  with assms show ?thesis by (simp add: mark_retry_def checked_def transition_from_sending_def connected_def)
qed

text \<open>C18: A retry after an unknown outcome is not flagged. When the outcome of a request is unknown and attempts are
  left, the worker puts the row back for a retry with the duplicate risk it had before, so a report that Telegram
  posts twice for this reason counts as sent without risk.\<close>

theorem unknown_outcome_unflagged:
  assumes "gateway_ok g" and "ob_script (gw_outbox g) = []" and "settings_ok st"
    and "r \<in> set (ob_rows (gw_outbox g))" and "dr_state r = SENDING" and "dr_attempts r < gs_max_attempts st"
    and "gw_replies g = reply # rest" and "outcome_unknown reply"
    and "instant_min \<le> now" and "now + 86401 * second \<le> instant_max"
  shows "\<exists>d g' r'. deliver st (record_of r) now g = (Inr d, g') \<and> r' \<in> set (ob_rows (gw_outbox g')) \<and> same_delivery r r'
    \<and> dr_state r' = RETRY_WAIT \<and> dr_duplicate_risk r' = dr_duplicate_risk r
    \<and> now < dr_available_at r' \<and> dr_available_at r' \<le> now + 86401 * second \<and> length (gw_posts g') = length (gw_posts g) + 1"
proof -
  have ok: "outbox_ok (gw_outbox g)" using assms(1) by (simp add: gateway_ok_def)
  from unknown_is_retryable [OF assms(8)] obtain e where e: "send_message reply = Inl (ApiError e)" "ta_retryable e" "ta_retry_after e = None" by blast
  have "row_ok r" using ok assms(4) by (auto simp: outbox_ok_def)
  with assms(5) have a: "1 \<le> dr_attempts r" by (auto simp: row_ok_def)
  define dl where "dl = min (min (fmul (gs_retry_initial_seconds st) (2 ^ nat (dr_attempts r - 1))) (gs_retry_max_seconds st)) (gs_retry_max_seconds st)"
  have dl: "retry_delay st (dr_attempts r) None = Inr dl" using retry_delay_value [OF assms(3) a assms(6), of None] by (simp add: dl_def)
  have "1 / 10 \<le> dl" "dl \<le> 86400"
    using first_delay [OF assms(3), of "nat (dr_attempts r - 1)"] assms(3) by (auto simp: dl_def settings_ok_def)
  from timedelta_positive [OF this] obtain us where us: "timedelta_seconds dl = Inr us" "100000 \<le> us" "us \<le> 86401 * second" .
  have av: "add_delta now us = Inr (now + us)" using us assms(9,10) by (simp add: add_delta_def)
  define r' where "r' = settled_row RETRY_WAIT (now + us) (Some (ta_code e)) None None now False r"
  have m: "mark_retry (dr_id r) us (ta_code e) now (gw_outbox g) = (Inr (record_of r'),
      update_row (dr_id r) (settled_row RETRY_WAIT (now + us) (Some (ta_code e)) None None now False) (gw_outbox g))"
    unfolding r'_def by (rule mark_retry_runs [OF ok assms(2,4,5) _ av]) (use us(2) in simp)
  then have "\<exists>g'. deliver st (record_of r) now g = (Inr (record_of r'), g')
      \<and> gw_outbox g' = update_row (dr_id r) (settled_row RETRY_WAIT (now + us) (Some (ta_code e)) None None now False) (gw_outbox g)
      \<and> length (gw_posts g') = length (gw_posts g) + 1"
    using assms(6,7) e dl us(1) by (simp add: deliver_def post_delivery_def after_failure_def on_outbox_def Let_def)
  moreover have "r' \<in> set (ob_rows (update_row (dr_id r) (settled_row RETRY_WAIT (now + us) (Some (ta_code e)) None None now False) (gw_outbox g)))"
    using assms(4) by (auto simp: update_row_def r'_def)
  moreover have "same_delivery r r' \<and> dr_state r' = RETRY_WAIT \<and> dr_duplicate_risk r' = dr_duplicate_risk r \<and> dr_available_at r' = now + us"
    by (simp add: r'_def settled_row_def same_delivery_def identity_def)
  ultimately show ?thesis using us(2,3) by force
qed

section \<open>A concrete gateway\<close>

definition sim_gateway_settings :: gateway_settings where
  "sim_gateway_settings = \<lparr>gs_destination_chat_id = Some ''-1'', gs_message_thread_id = None, gs_organization_id = ''org'',
     gs_mini_app_url_template = Some ''t'', gs_snapshot_page_size = 2, gs_snapshot_max_pages = 2,
     gs_max_deliveries_per_run = 3, gs_max_snapshot_age_hours = 36, gs_max_attempts = 6,
     gs_retry_initial_seconds = 5, gs_retry_max_seconds = 300, gs_stale_sending_seconds = 60,
     gs_activation_cutoff = None, gs_bootstrap_snapshot_ids = []\<rparr>"

definition sim_gateway :: "outbox \<Rightarrow> telegram_reply list \<Rightarrow> gateway" where
  "sim_gateway ob replies = \<lparr>gw_outbox = ob, gw_runtime = new_runtime True, gw_replies = replies, gw_posts = []\<rparr>"

definition sim_backend :: "report_snapshot list \<Rightarrow> backend" where
  "sim_backend all limit offset = Inr (take limit (drop offset all))"

definition sim_render :: renderer where
  "sim_render s = Inr sim_message"

definition sim_ready :: outbox where
  "sim_ready = snd sim_enqueued"

definition sim_locked :: outbox where
  "sim_locked = snd (claim_next 6 sim_ready)"

definition sim_row :: delivery_row where
  "sim_row = new_row 1 (sim_snapshot ''s1'' 0) ''-1'' 0 sim_message 5"

lemma sim_settings_ok: "settings_ok sim_gateway_settings"
  using is_float_of_int [of 5] is_float_of_int [of 300] by (simp add: settings_ok_def sim_gateway_settings_def)

lemma sim_ready_rows: "sim_ready = \<lparr>ob_rows = [sim_row], ob_last_id = 1, ob_script = []\<rparr>"
  by (simp add: sim_ready_def sim_row_def sim_enqueued_def enqueue_def sim_required checked_def connected_def empty_outbox_def
      enqueue_call_def find_delivery_def thread_db_value_def sim_snapshot_def Let_def)

lemma sim_locked_rows: "sim_locked = \<lparr>ob_rows = [claimed_row 6 sim_row], ob_last_id = 1, ob_script = []\<rparr>"
  by (simp add: sim_locked_def sim_ready_rows claim_next_def connected_def claim_first_def is_ready_def sim_row_def new_row_def
      claim_row_def update_row_def)

lemma sim_ready_ok: "outbox_ok sim_ready"
  using sim_enqueued(2) by (simp add: sim_ready_def)

lemma sim_locked_ok: "outbox_ok sim_locked"
  using keepsD [OF claim_next_keeps sim_ready_ok] by (simp add: sim_locked_def prod_eq_iff)

lemma sim_gateway_ok: "outbox_ok ob \<Longrightarrow> gateway_ok (sim_gateway ob replies)"
  by (auto simp: gateway_ok_def sim_gateway_def ledger_def accounted_def posts_of_def acks_of_def outbox_ok_def row_ok_def)

lemma retry_delay_bounded_witness:
  "\<exists>d. retry_delay sim_gateway_settings 1 (Some 1000) = Inr d \<and> 5 \<le> d \<and> d \<le> 300"
proof -
  have "(3::int) < gs_max_attempts sim_gateway_settings" by (simp add: sim_gateway_settings_def)
  from retry_delay_bounded [OF sim_settings_ok _ _ this, of 1 "Some 1000"] show ?thesis
    by (fastforce simp: sim_gateway_settings_def)
qed

lemma sim_snapshot_simps [simp]:
  "rs_id (sim_snapshot i t) = i" "rs_organization_id (sim_snapshot i t) = ''org''" "rs_scheduled_for (sim_snapshot i t) = t"
  "rs_payload_sha256 (sim_snapshot i t) = ''aa''"
  by (simp_all add: sim_snapshot_def)

lemma sim_discovered:
  "discover sim_gateway_settings (sim_backend [sim_snapshot ''s1'' 0]) sim_render 5 empty_outbox = (Inr (), sim_ready)"
proof -
  obtain d where "enqueue (sim_snapshot ''s1'' 0) ''-1'' sim_message None 5 empty_outbox = (Inr (d, False), sim_ready)"
    using sim_enqueued(1) by (auto simp: sim_enqueued_def sim_ready_def)
  then show ?thesis
    by (simp add: discover_def checked_def sim_gateway_settings_def add_delta_def instant_min_def instant_max_def sim_backend_def
        numeral_2_eq_2 by_schedule_def is_due_def sim_render_def)
qed

lemma discovery_complete_witness:
  "\<exists>r \<in> set (ob_rows sim_ready). identity r = (''s1'', ''-1'', 0) \<and> dr_snapshot_sha256 r = ''aa''"
proof -
  have "thread_db_value (gs_message_thread_id sim_gateway_settings) = Inr 0"
    by (simp add: sim_gateway_settings_def thread_db_value_def)
  moreover have "required (case gs_destination_chat_id sim_gateway_settings of None \<Rightarrow> [] | Some c \<Rightarrow> c) ''destination_chat_id'' 64 = Inr ''-1''"
    by (simp add: sim_gateway_settings_def sim_required)
  ultimately show ?thesis
    using discovery_complete [OF empty_outbox_ok _ _ sim_discovered, of "[sim_snapshot ''s1'' 0]" "''-1''" 0]
    by (simp add: sim_backend_def is_due_def sim_gateway_settings_def sim_snapshot_def)
qed

lemma rebound_snapshot_stops_worker_witness:
  "\<exists>e g'. run_worker sim_gateway_settings
      [(7, sim_backend [(sim_snapshot ''s1'' 0)\<lparr>rs_payload_sha256 := ''bb''\<rparr>], sim_render), (8, sim_backend [], sim_render)]
      (sim_gateway sim_ready []) = (Inl (DeliveryOutboxError e), g') \<and> gw_posts g' = []"
proof -
  have "\<exists>g'. run_worker sim_gateway_settings
      [(7, sim_backend [(sim_snapshot ''s1'' 0)\<lparr>rs_payload_sha256 := ''bb''\<rparr>], sim_render), (8, sim_backend [], sim_render)]
      (sim_gateway sim_ready []) = (Inl (DeliveryOutboxError ''snapshot identity is already bound to different immutable content''), g')
      \<and> \<not> gr_running (gw_runtime g') \<and> gw_posts g' = gw_posts (sim_gateway sim_ready [])"
    by (rule rebound_snapshot_stops_worker [where chat = "''-1''" and destination = "''-1''" and t = 0 and m = sim_message and r = sim_row
          and s = "(sim_snapshot ''s1'' 0)\<lparr>rs_payload_sha256 := ''bb''\<rparr>", OF sim_gateway_ok [OF sim_ready_ok] _ sim_settings_ok])
      (simp_all add: sim_gateway_settings_def sim_gateway_def sim_ready_rows instant_min_def instant_max_def sim_required
        is_due_def sim_render_def sim_row_def new_row_def identity_def thread_db_value_def sim_backend_def)
  then show ?thesis by (auto simp: sim_gateway_def)
qed

text \<open>The first request times out after Telegram has posted the report; the row is ready again, without risk.\<close>

lemma unknown_outcome_unflagged_witness:
  "\<exists>d g' r'. deliver sim_gateway_settings (record_of (claimed_row 6 sim_row)) 6 (sim_gateway sim_locked [TransportFailed]) = (Inr d, g')
    \<and> r' \<in> set (ob_rows (gw_outbox g')) \<and> dr_state r' = RETRY_WAIT \<and> \<not> dr_duplicate_risk r'"
proof -
  have "claimed_row 6 sim_row \<in> set (ob_rows (gw_outbox (sim_gateway sim_locked [TransportFailed])))"
      "dr_attempts (claimed_row 6 sim_row) < gs_max_attempts sim_gateway_settings"
      "gw_replies (sim_gateway sim_locked [TransportFailed]) = TransportFailed # []" "outcome_unknown TransportFailed"
    by (simp_all add: sim_gateway_def sim_locked_rows sim_row_def new_row_def sim_gateway_settings_def outcome_unknown_def)
  from unknown_outcome_unflagged [OF sim_gateway_ok [OF sim_locked_ok] _ sim_settings_ok this(1) _ this(2-4), of 6]
  show ?thesis
    by (auto simp: sim_gateway_def sim_locked_rows instant_min_def instant_max_def sim_row_def new_row_def)
qed

end
