(* ===== verification/ControlledSend.thy ===== *)
theory ControlledSend
  imports DeliveryWorker
begin

text \<open>
  \<open>services/telegram-gateway/app/controlled_send.py\<close>: the command that sends one exact snapshot once while the worker
  is disabled, and the gateway as a system of steps: rounds of the worker, controlled sends and restarts.

  The validation of the settings (\<open>validate_enabled_configuration\<close>), the backend, the renderer and the SHA-256 digest
  of a payload are parameters. The outbox is either given or opened by the command; the file the command inspects
  first is then the table as opened, which has the same rows as a legacy table before its migration.
\<close>

section \<open>Identifiers\<close>

text \<open>\<open>str(UUID(text))\<close>: the prefixes \<open>urn:\<close> and \<open>uuid:\<close>, braces and hyphens are dropped, what is left are 32
  characters that \<open>int(text, 16)\<close> accepts.\<close>

fun remove_all :: "string \<Rightarrow> nat \<Rightarrow> string \<Rightarrow> string" where
  "remove_all sub skip [] = []"
| "remove_all sub (Suc skip) (c # s) = remove_all sub skip s"
| "remove_all sub 0 (c # s) = (if starts_with sub (c # s) then remove_all sub (length sub - 1) s else c # remove_all sub 0 s)"

definition is_brace :: "char \<Rightarrow> bool" where
  "is_brace c = (c = CHR 0x7B \<or> c = CHR 0x7D)"

definition strip_braces :: "string \<Rightarrow> string" where
  "strip_braces s = rev (dropWhile is_brace (rev (dropWhile is_brace s)))"

definition hex_value :: "char \<Rightarrow> nat option" where
  "hex_value c = (let n = of_char c :: nat in
     if 48 \<le> n \<and> n \<le> 57 then Some (n - 48)
     else if 97 \<le> n \<and> n \<le> 102 then Some (n - 87)
     else if 65 \<le> n \<and> n \<le> 70 then Some (n - 55) else None)"

fun hex_digits :: "bool \<Rightarrow> nat \<Rightarrow> string \<Rightarrow> nat option" where
  "hex_digits after acc [] = (if after then Some acc else None)"
| "hex_digits after acc (c # s) = (case hex_value c of
       Some d \<Rightarrow> hex_digits True (16 * acc + d) s
     | None \<Rightarrow> if c = CHR ''_'' \<and> after then hex_digits False acc s else None)"

definition without_prefix :: "string \<Rightarrow> string" where
  "without_prefix s = (if starts_with ''0x'' s \<or> starts_with ''0X'' s
     then (case drop 2 s of [] \<Rightarrow> [] | c # t \<Rightarrow> if c = CHR ''_'' then t else c # t) else s)"

definition py_int16 :: "string \<Rightarrow> nat option" where
  "py_int16 text = (case strip text of
       [] \<Rightarrow> None
     | c # s \<Rightarrow> hex_digits False 0 (without_prefix (if c = CHR ''+'' then s else c # s)))"

fun hex_text :: "nat \<Rightarrow> nat \<Rightarrow> string" where
  "hex_text 0 n = []"
| "hex_text (Suc k) n = hex_text k (n div 16) @ [lower_char (digit_char (n mod 16))]"

definition uuid_text :: "string \<Rightarrow> string option" where
  "uuid_text text = (let h = filter (\<lambda>c. c \<noteq> CHR ''-'') (strip_braces (remove_all ''uuid:'' 0 (remove_all ''urn:'' 0 text))) in
     if length h \<noteq> 32 then None
     else map_option (\<lambda>n. let x = hex_text 32 n in
       take 8 x @ ''-'' @ take 4 (drop 8 x) @ ''-'' @ take 4 (drop 12 x) @ ''-'' @ take 4 (drop 16 x) @ ''-'' @ drop 20 x) (py_int16 h))"

definition canonical_id :: "string \<Rightarrow> string \<Rightarrow> string result" where
  "canonical_id code value = (case uuid_text (strip value) of
       None \<Rightarrow> Inl (ControlledSendError code) | Some u \<Rightarrow> Inr u)"

definition digest_text :: "string \<Rightarrow> string result" where
  "digest_text value = (let normalized = lower (strip value) in
     if length normalized \<noteq> 64 \<or> (\<exists>c \<in> set normalized. c \<notin> set ''0123456789abcdef'')
     then Inl (ControlledSendError ''expected_payload_sha256_invalid'') else Inr normalized)"

section \<open>The command\<close>

record controlled_ops =
  co_configured :: "gateway_settings \<Rightarrow> unit result"
  co_get_snapshot :: "string \<Rightarrow> report_snapshot result"
  co_render :: renderer
  co_payload_digest :: "(string \<times> json) list \<Rightarrow> string result"

record controlled_result =
  cr_status :: string
  cr_snapshot_id :: string
  cr_payload_sha256 :: string
  cr_delivery_state :: string
  cr_message_id :: "int option"
  cr_duplicate_risk :: bool
  cr_error_code :: "string option"

abbreviation refuse :: "string \<Rightarrow> 'a result" where
  "refuse code \<equiv> Inl (ControlledSendError code)"

definition verify_snapshot :: "controlled_ops \<Rightarrow> gateway_settings \<Rightarrow> report_snapshot \<Rightarrow> string \<Rightarrow> string \<Rightarrow> unit result" where
  "verify_snapshot ops st s snapshot_id expected =
     (if rs_id s \<noteq> snapshot_id then refuse ''snapshot_identity_mismatch''
      else ebind (canonical_id ''organization_id_invalid'' (rs_organization_id s)) (\<lambda>a.
        ebind (canonical_id ''organization_id_invalid'' (gs_organization_id st)) (\<lambda>b.
          if a \<noteq> b then refuse ''snapshot_organization_mismatch''
          else if lower (rs_payload_sha256 s) \<noteq> expected then refuse ''snapshot_payload_sha256_mismatch''
          else ebind (co_payload_digest ops (rs_payload s)) (\<lambda>d.
            if d \<noteq> lower (rs_payload_sha256 s) then refuse ''snapshot_payload_integrity_mismatch'' else Inr ()))))"

definition verify_identity :: "delivery_record \<Rightarrow> string \<Rightarrow> unit result" where
  "verify_identity d expected =
     (if lower (de_snapshot_sha256 d) \<noteq> expected then refuse ''delivery_payload_identity_mismatch'' else Inr ())"

definition verify_render :: "delivery_record \<Rightarrow> rendered_message \<Rightarrow> unit result" where
  "verify_render d m = (if de_text d \<noteq> rm_text m \<or> de_button_url d \<noteq> rm_button_url m
     then refuse ''delivery_render_identity_mismatch'' else Inr ())"

definition ensure_sendable :: "delivery_record \<Rightarrow> unit result" where
  "ensure_sendable d = (if de_duplicate_risk d then refuse ''delivery_duplicate_risk_requires_manual_resolution''
     else if de_state d \<noteq> PENDING then refuse (''delivery_state_'' @ state_value (de_state d) @ ''_not_sendable'') else Inr ())"

definition result_of :: "string \<Rightarrow> report_snapshot \<Rightarrow> delivery_record \<Rightarrow> controlled_result" where
  "result_of status s d = \<lparr>cr_status = status, cr_snapshot_id = rs_id s, cr_payload_sha256 = rs_payload_sha256 s,
     cr_delivery_state = state_value (de_state d), cr_message_id = de_message_id d, cr_duplicate_risk = de_duplicate_risk d,
     cr_error_code = None\<rparr>"

text \<open>What stands before any change: the approval, the snapshot and its rendering.\<close>

definition approval_phrase :: string where
  "approval_phrase = ''SEND_EXACT_SNAPSHOT_ONCE''"

definition check_approval :: "bool \<Rightarrow> string option \<Rightarrow> unit result" where
  "check_approval dry_run approval =
     (if dry_run then (if approval \<noteq> None then refuse ''dry_run_cannot_include_send_approval'' else Inr ())
      else if approval \<noteq> Some approval_phrase then refuse ''single_send_approval_required'' else Inr ())"

definition assert_some :: "'a option \<Rightarrow> 'a result" where
  "assert_some x = (case x of None \<Rightarrow> Inl (OtherError ''AssertionError'') | Some a \<Rightarrow> Inr a)"

definition prepare :: "controlled_ops \<Rightarrow> gateway_settings \<Rightarrow> bool \<Rightarrow> string \<Rightarrow> string \<Rightarrow> bool \<Rightarrow> string option
    \<Rightarrow> (string \<times> string \<times> string \<times> report_snapshot \<times> rendered_message) result" where
  "prepare ops st enabled snapshot_id expected dry_run approval =
     ebind (co_configured ops st) (\<lambda>_.
     if enabled then refuse ''persistent_delivery_must_remain_disabled''
     else ebind (check_approval dry_run approval) (\<lambda>_.
     ebind (canonical_id ''snapshot_id_invalid'' snapshot_id) (\<lambda>i.
     ebind (digest_text expected) (\<lambda>digest.
     ebind (assert_some (gs_destination_chat_id st)) (\<lambda>chat.
     ebind (assert_some (gs_mini_app_url_template st)) (\<lambda>_.
     ebind (co_get_snapshot ops i) (\<lambda>s.
     ebind (verify_snapshot ops st s i digest) (\<lambda>_.
     ebind (co_render ops s) (\<lambda>m. Inr (i, digest, chat, s, m))))))))))"

text \<open>\<open>_existing_delivery\<close>: through the given outbox, or by inspecting the file.\<close>

definition inspect_delivery :: "string \<Rightarrow> string \<Rightarrow> int option \<Rightarrow> outbox \<Rightarrow> delivery_record option result \<times> outbox" where
  "inspect_delivery snapshot_id chat thread ob =
     (inspect_existing (Some (CurrentTable (ob_rows ob) (ob_last_id ob))) (ob_script ob) snapshot_id chat thread,
      if isOk (required snapshot_id ''snapshot_id'' 128) \<and> isOk (required chat ''destination_chat_id'' 64)
      then ob\<lparr>ob_script := tl (ob_script ob)\<rparr> else ob)"

definition existing_delivery :: "bool \<Rightarrow> string \<Rightarrow> string \<Rightarrow> int option \<Rightarrow> outbox \<Rightarrow> delivery_record option result \<times> outbox" where
  "existing_delivery given snapshot_id chat thread =
     (if given then get_by_snapshot snapshot_id chat thread else inspect_delivery snapshot_id chat thread)"

definition open_unless :: "bool \<Rightarrow> outbox \<Rightarrow> unit result \<times> outbox" where
  "open_unless given = (if given then (\<lambda>ob. (Inr (), ob)) else connected (\<lambda>ob. (Inr (), ob)))"

text \<open>The checks on a delivery that is already in the outbox: \<open>Some\<close> ends the command.\<close>

definition check_existing :: "report_snapshot \<Rightarrow> rendered_message \<Rightarrow> string \<Rightarrow> delivery_record option
    \<Rightarrow> controlled_result option result" where
  "check_existing s m digest existing = (case existing of None \<Rightarrow> Inr None
     | Some d \<Rightarrow> ebind (verify_identity d digest) (\<lambda>_.
         if de_state d = SENT then Inr (Some (result_of ''already_sent'' s d))
         else ebind (ensure_sendable d) (\<lambda>_. ebind (verify_render d m) (\<lambda>_. Inr None))))"

definition dry_run_result :: "report_snapshot \<Rightarrow> bool \<Rightarrow> controlled_result" where
  "dry_run_result s pending = \<lparr>cr_status = ''dry_run_ready'', cr_snapshot_id = rs_id s, cr_payload_sha256 = rs_payload_sha256 s,
     cr_delivery_state = (if pending then state_value PENDING else ''absent''), cr_message_id = None,
     cr_duplicate_risk = False, cr_error_code = None\<rparr>"

text \<open>The current delivery: the one there is, or a new one.\<close>

definition current_delivery :: "report_snapshot \<Rightarrow> rendered_message \<Rightarrow> string \<Rightarrow> string \<Rightarrow> string \<Rightarrow> int option \<Rightarrow> instant
    \<Rightarrow> outbox \<Rightarrow> delivery_record result \<times> outbox" where
  "current_delivery s m digest i chat thread now ob = (case get_by_snapshot i chat thread ob of
       (Inl e, ob1) \<Rightarrow> (Inl e, ob1)
     | (Inr (Some d), ob1) \<Rightarrow> (ebind (verify_identity d digest) (\<lambda>_. Inr d), ob1)
     | (Inr None, ob1) \<Rightarrow> (case enqueue s chat m thread now ob1 of
           (Inl e, ob2) \<Rightarrow> (Inl e, ob2)
         | (Inr (d, _), ob2) \<Rightarrow> (Inr d, ob2)))"

text \<open>The claim, the single request and its settlement.\<close>

definition send_claimed :: "report_snapshot \<Rightarrow> delivery_record \<Rightarrow> string \<Rightarrow> instant \<Rightarrow> gateway \<Rightarrow> controlled_result result \<times> gateway" where
  "send_claimed s d chat now g = (case post_delivery (d\<lparr>de_chat_id := chat\<rparr>) g of
       (Inl (Raised e), g1) \<Rightarrow> (Inl e, g1)
     | (Inl (ApiError e), g1) \<Rightarrow> (case on_outbox (mark_failed (de_id d) (ta_code e) (ta_retryable e) now) g1 of
           (Inl x, g2) \<Rightarrow> (Inl x, g2)
         | (Inr f, g2) \<Rightarrow> (Inr \<lparr>cr_status = ''failed'', cr_snapshot_id = rs_id s, cr_payload_sha256 = rs_payload_sha256 s,
               cr_delivery_state = state_value (de_state f), cr_message_id = None, cr_duplicate_risk = de_duplicate_risk f,
               cr_error_code = Some (ta_code e)\<rparr>, g2))
     | (Inr m, g1) \<Rightarrow> (case on_outbox (mark_sent (de_id d) m now) g1 of
           (Inl x, g2) \<Rightarrow> (Inl x, g2)
         | (Inr c, g2) \<Rightarrow> (Inr (result_of ''sent'' s c), g2)))"

definition send_current :: "report_snapshot \<Rightarrow> rendered_message \<Rightarrow> string \<Rightarrow> string \<Rightarrow> string \<Rightarrow> int option \<Rightarrow> instant \<Rightarrow> instant \<Rightarrow> instant
    \<Rightarrow> gateway \<Rightarrow> controlled_result result \<times> gateway" where
  "send_current s m digest i chat thread now1 now2 now3 g =
     (case on_outbox (current_delivery s m digest i chat thread now1) g of
        (Inl e, g1) \<Rightarrow> (Inl e, g1)
      | (Inr d, g1) \<Rightarrow>
          if de_state d = SENT then (Inr (result_of ''already_sent'' s d), g1)
          else (case ebind (ensure_sendable d) (\<lambda>_. verify_render d m) of
              Inl e \<Rightarrow> (Inl e, g1)
            | Inr _ \<Rightarrow> (case on_outbox (claim_exact i chat thread now2) g1 of
                  (Inl e, g2) \<Rightarrow> (Inl e, g2)
                | (Inr c, g2) \<Rightarrow> send_claimed s c chat now3 g2)))"

definition execute_controlled_send :: "controlled_ops \<Rightarrow> gateway_settings \<Rightarrow> bool \<Rightarrow> bool \<Rightarrow> string \<Rightarrow> string \<Rightarrow> bool \<Rightarrow> string option
    \<Rightarrow> instant \<Rightarrow> instant \<Rightarrow> instant \<Rightarrow> gateway \<Rightarrow> controlled_result result \<times> gateway" where
  "execute_controlled_send ops st enabled given snapshot_id expected dry_run approval now1 now2 now3 g =
     (case prepare ops st enabled snapshot_id expected dry_run approval of
        Inl e \<Rightarrow> (Inl e, g)
      | Inr (i, digest, chat, s, m) \<Rightarrow>
          let thread = gs_message_thread_id st in
          (case on_outbox (existing_delivery given i chat thread) g of
             (Inl e, g1) \<Rightarrow> (Inl e, g1)
           | (Inr existing, g1) \<Rightarrow> (case check_existing s m digest existing of
                 Inl e \<Rightarrow> (Inl e, g1)
               | Inr (Some r) \<Rightarrow> (Inr r, g1)
               | Inr None \<Rightarrow>
                   if dry_run then (Inr (dry_run_result s (existing \<noteq> None)), g1)
                   else (case on_outbox (open_unless given) g1 of
                       (Inl e, g2) \<Rightarrow> (Inl e, g2)
                     | (Inr _, g2) \<Rightarrow> send_current s m digest i chat thread now1 now2 now3 g2))))"

section \<open>The command keeps the account\<close>

definition reads_only :: "(outbox \<Rightarrow> 'a result \<times> outbox) \<Rightarrow> bool" where
  "reads_only call = (\<forall>ob r ob'. call ob = (r, ob') \<longrightarrow> (\<exists>s. ob' = ob\<lparr>ob_script := s\<rparr>))"

lemma reads_onlyD: "reads_only call \<Longrightarrow> call ob = (r, ob') \<Longrightarrow> \<exists>s. ob' = ob\<lparr>ob_script := s\<rparr>"
  by (simp add: reads_only_def)

lemma unchanged: "\<exists>s. ob = ob\<lparr>ob_script := s\<rparr>"
  by (rule exI [of _ "ob_script ob"]) simp

lemma reads_connected:
  assumes "\<And>ob r ob'. call ob = (r, ob') \<Longrightarrow> ob' = ob"
  shows "reads_only (connected call)"
  unfolding reads_only_def using assms by (auto elim!: connected_cases)

lemma get_reads: "reads_only (get_by_snapshot i chat thread)"
  unfolding get_by_snapshot_def by (rule reads_connected) (auto simp: checked_eq)

lemma inspect_reads: "reads_only (inspect_delivery i chat thread)"
  unfolding reads_only_def inspect_delivery_def using unchanged by (auto split: if_splits)

lemma existing_reads: "reads_only (existing_delivery given i chat thread)"
  using get_reads inspect_reads by (simp add: existing_delivery_def)

lemma open_reads: "reads_only (open_unless given)"
proof (cases given)
  case True
  then show ?thesis using unchanged by (auto simp: open_unless_def reads_only_def)
next
  case False
  have "reads_only (connected (\<lambda>ob. (Inr (), ob)))" by (rule reads_connected) simp
  with False show ?thesis by (simp add: open_unless_def)
qed

lemma reads_gateway:
  assumes "reads_only call" and "gateway_ok g" and "on_outbox call g = (r, g')"
  shows "gateway_ok g' \<and> gateway_outgrows g g' \<and> gw_posts g' = gw_posts g \<and> ob_rows (gw_outbox g') = ob_rows (gw_outbox g)"
proof -
  from assms(3) obtain ob where "call (gw_outbox g) = (r, ob)" "g' = g\<lparr>gw_outbox := ob\<rparr>" by (auto simp: on_outbox_eq)
  with reads_onlyD [OF assms(1)] obtain s where "g' = g\<lparr>gw_outbox := (gw_outbox g)\<lparr>ob_script := s\<rparr>\<rparr>" by blast
  then show ?thesis using assms(2) by (auto simp: gateway_ok_def gateway_outgrows_def outgrows_refl ledger_def)
qed

lemma current_harmless: "keeps_gateway (on_outbox (current_delivery s m digest i chat thread now))"
proof (rule harmless_call)
  show "keeps_outbox (current_delivery s m digest i chat thread now)"
    unfolding keeps_outbox_def
  proof (intro allI impI)
    fix ob r ob' assume ok: "outbox_ok ob" and run: "current_delivery s m digest i chat thread now ob = (r, ob')"
    obtain a ob1 where a: "get_by_snapshot i chat thread ob = (a, ob1)" by fastforce
    with reads_onlyD [OF get_reads] obtain sc where ob1: "ob1 = ob\<lparr>ob_script := sc\<rparr>" by blast
    with ok have k1: "outbox_ok ob1 \<and> outgrows ob ob1" by (simp add: outgrows_refl)
    from run a consider "ob' = ob1" | x where "enqueue s chat m thread now ob1 = (x, ob')"
      by (auto simp: current_delivery_def split: sum.splits option.splits prod.splits)
    then show "outbox_ok ob' \<and> outgrows ob ob'"
    proof cases
      case 1
      with k1 show ?thesis by simp
    next
      case 2
      from keepsD [OF enqueue_keeps conjunct1 [OF k1] 2] k1 show ?thesis using outgrows_trans by blast
    qed
  qed
  fix ob r ob' assume run: "current_delivery s m digest i chat thread now ob = (r, ob')"
  obtain a ob1 where a: "get_by_snapshot i chat thread ob = (a, ob1)" by fastforce
  with reads_onlyD [OF get_reads] obtain sc where ob1: "ob1 = ob\<lparr>ob_script := sc\<rparr>" by blast
  from run a consider "ob' = ob1" | x where "enqueue s chat m thread now ob1 = (x, ob')"
    by (auto simp: current_delivery_def split: sum.splits option.splits prod.splits)
  then show "harmless ob ob'"
  proof cases
    case 1
    with ob1 show ?thesis by (simp add: harmless_same)
  next
    case 2
    with ob1 show ?thesis using enqueue_harmless by fastforce
  qed
qed

text \<open>What \<open>claim_exact\<close> hands out was pending, so nothing has been requested for it.\<close>

lemma claim_exact_result:
  assumes ok: "outbox_ok ob" and run: "claim_exact i chat thread now ob = (Inr d, ob')"
  obtains destination t r where "required chat ''destination_chat_id'' 64 = Inr destination" "thread_db_value thread = Inr t"
    "r \<in> set (ob_rows ob)" "identity r = (strip i, destination, t)" "dr_state r = PENDING" "d = record_of (claimed_row now r)"
    "ob_rows ob' = map (\<lambda>s. if s = r then claimed_row now r else s) (ob_rows ob)"
proof -
  from run obtain snapshot destination t where arg: "required i ''snapshot_id'' 128 = Inr snapshot"
      "required chat ''destination_chat_id'' 64 = Inr destination" "thread_db_value thread = Inr t"
      and "connected (claim_exact_call snapshot destination t now) ob = (Inr d, ob')"
    by (auto simp: claim_exact_def checked_eq)
  then obtain sc where call: "claim_exact_call snapshot destination t now (ob\<lparr>ob_script := sc\<rparr>) = (Inr d, ob')" by (metis connected_Inr)
  from arg(1) have sn: "snapshot = strip i" by (auto simp: required_def Let_def split: if_splits)
  from call obtain r where r: "find_delivery snapshot destination t (ob\<lparr>ob_script := sc\<rparr>) = Some r" "dr_state r = PENDING"
      "d = record_of (claimed_row now r)" "ob' = claim_row now r (ob\<lparr>ob_script := sc\<rparr>)"
    by (auto simp: claim_exact_call_def split: option.splits if_splits)
  from r(1) ok have mem: "r \<in> set (ob_rows ob)" "identity r = (snapshot, destination, t)"
    using find_delivery_iff [of "ob\<lparr>ob_script := sc\<rparr>" snapshot destination t r] by auto
  have "ob_rows ob' = map (\<lambda>s. if s = r then claimed_row now r else s) (ob_rows ob)"
    using r(4) mem(1) outbox_id [OF ok] by (auto simp: claim_row_def update_row_def)
  with that [OF arg(2,3) mem(1)] mem(2) r(2,3) sn show ?thesis by simp
qed

lemma failed_exact_claim: "claim_exact i chat thread now ob = (Inl e, ob') \<Longrightarrow> \<exists>s. ob' = ob\<lparr>ob_script := s\<rparr>"
  unfolding claim_exact_def using unchanged
  by (auto simp: checked_eq claim_exact_call_def elim!: connected_cases split: option.splits if_splits)

lemma pending_unposted: "accounted ps r \<Longrightarrow> row_ok r \<Longrightarrow> dr_state r = PENDING \<Longrightarrow> posts_of (dr_id r) ps = []"
  by (simp add: accounted_def row_ok_def)

text \<open>The rows that the command may send for a snapshot and the settings.\<close>

definition send_key :: "string \<Rightarrow> string \<Rightarrow> int option \<Rightarrow> delivery_row \<Rightarrow> bool" where
  "send_key i chat thread r = (\<exists>t. thread_db_value thread = Inr t \<and> identity r = (strip i, strip chat, t))"

lemma claim_exact_ledger:
  assumes g: "gateway_ok g" and run: "on_outbox (claim_exact i chat thread now) g = (res, g')"
  shows "gateway_ok g' \<and> gateway_outgrows g g' \<and> gw_posts g' = gw_posts g
    \<and> (\<forall>d. res = Inr d \<longrightarrow> claimed (gw_posts g') (gw_outbox g') d \<and> strip chat = de_chat_id d
        \<and> posts_of (de_id d) (gw_posts g) = [] \<and> (\<exists>r \<in> set (ob_rows (gw_outbox g')). d = record_of r \<and> send_key i chat thread r))"
proof -
  from run obtain ob where ob: "claim_exact i chat thread now (gw_outbox g) = (res, ob)" "g' = g\<lparr>gw_outbox := ob\<rparr>" by (auto simp: on_outbox_eq)
  from g have ok: "outbox_ok (gw_outbox g)" and led: "ledger (gw_posts g) (gw_outbox g)" by (simp_all add: gateway_ok_def)
  from keepsD [OF claim_exact_keeps ok ob(1)] have k: "outbox_ok ob" "outgrows (gw_outbox g) ob" by blast+
  show ?thesis
  proof (cases res)
    case (Inl e)
    with ob(1) failed_exact_claim obtain s where "ob = (gw_outbox g)\<lparr>ob_script := s\<rparr>" by blast
    with k led ob(2) Inl with_outbox [OF k] show ?thesis by (simp add: ledger_def)
  next
    case (Inr d)
    have run': "claim_exact i chat thread now (gw_outbox g) = (Inr d, ob)" using ob(1) Inr by simp
    obtain destination t r where arg: "required chat ''destination_chat_id'' 64 = Inr destination" "thread_db_value thread = Inr t"
        and r: "r \<in> set (ob_rows (gw_outbox g))" "identity r = (strip i, destination, t)" "dr_state r = PENDING"
        "d = record_of (claimed_row now r)" "ob_rows ob = map (\<lambda>s. if s = r then claimed_row now r else s) (ob_rows (gw_outbox g))"
      by (rule claim_exact_result [OF ok run'])
    have "destination = strip chat" using arg(1) by (simp add: required_def Let_def split: if_splits)
    then have id: "identity (claimed_row now r) = (strip i, strip chat, t)" using r(2) by (simp add: claimed_row_def identity_def)
    then have key: "send_key i chat thread (claimed_row now r)" and chat: "strip chat = de_chat_id d"
      using arg(2) r(4) by (simp_all add: send_key_def identity_def)
    from claim_keeps_ledger [OF ok led r(1) _ r(5) k] r(3,4) have led': "ledger (gw_posts g) ob" "claimed (gw_posts g) ob d" by simp_all
    have none: "posts_of (de_id d) (gw_posts g) = []"
      using pending_unposted [of "gw_posts g" r] led ok r(1,3,4) by (simp add: ledger_def outbox_ok_def)
    have "claimed_row now r \<in> set (ob_rows ob)" using r(1,5) by auto
    with with_outbox [OF k led'(1)] led'(2) none chat key r(4) ob(2) Inr show ?thesis by auto
  qed
qed

lemma send_claimed_gateway:
  assumes g: "gateway_ok g" and d: "claimed (gw_posts g) (gw_outbox g) d" and c: "strip chat = de_chat_id d"
    and run: "send_claimed s d chat now g = (res, g')"
  shows "gateway_ok g' \<and> gateway_outgrows g g' \<and> (\<exists>p. gw_posts g' = gw_posts g @ [p] \<and> po_delivery p = de_id d)"
proof -
  obtain a g1 where a: "post_delivery (d\<lparr>de_chat_id := chat\<rparr>) g = (a, g1)" by fastforce
  note post = post_gateway [OF g d _ a, OF disjI2 [OF c]]
  have p: "\<exists>p. gw_posts g1 = gw_posts g @ [p] \<and> po_delivery p = de_id d" using a by (auto simp: post_delivery_def Let_def)
  have "gateway_ok g' \<and> gateway_outgrows g1 g' \<and> gw_posts g' = gw_posts g1"
  proof (cases a)
    case (Inr m)
    obtain e ob where e: "mark_sent (de_id d) m now (gw_outbox g1) = (e, ob)" by fastforce
    have "gateway_ok (g1\<lparr>gw_outbox := ob\<rparr>) \<and> gateway_outgrows g1 (g1\<lparr>gw_outbox := ob\<rparr>)"
      by (rule settle_gateway [OF _ _ _ _ _ e [unfolded mark_sent_def]]) (use post in simp_all)
    moreover have "g' = g1\<lparr>gw_outbox := ob\<rparr>" using run a Inr e by (auto simp: send_claimed_def on_outbox_def split: sum.splits)
    ultimately show ?thesis by simp
  next
    case (Inl x)
    show ?thesis
    proof (cases x)
      case (Raised e)
      with run a Inl post show ?thesis by (simp add: send_claimed_def gateway_outgrows_refl)
    next
      case (ApiError e)
      obtain u ob where e: "mark_failed (de_id d) (ta_code e) (ta_retryable e) now (gw_outbox g1) = (u, ob)" by fastforce
      have "gateway_ok (g1\<lparr>gw_outbox := ob\<rparr>) \<and> gateway_outgrows g1 (g1\<lparr>gw_outbox := ob\<rparr>)"
        by (rule settle_gateway [OF _ _ _ _ _ e [unfolded mark_failed_def]]) (use post Inl in simp_all)
      moreover have "g' = g1\<lparr>gw_outbox := ob\<rparr>" using run a Inl ApiError e by (auto simp: send_claimed_def on_outbox_def split: sum.splits)
      ultimately show ?thesis by simp
    qed
  qed
  with post p show ?thesis using gateway_outgrows_trans by force
qed

text \<open>What the request of a command is: the first one of its row.\<close>

definition first_request :: "string \<Rightarrow> string \<Rightarrow> int option \<Rightarrow> gateway \<Rightarrow> gateway \<Rightarrow> bool" where
  "first_request i chat thread g g' = (\<exists>p. gw_posts g' = gw_posts g @ [p] \<and> posts_of (po_delivery p) (gw_posts g) = []
     \<and> (\<exists>r \<in> set (ob_rows (gw_outbox g')). send_key i chat thread r \<and> dr_id r = po_delivery p))"

lemma send_key_same: "same_delivery r r' \<Longrightarrow> send_key i chat thread r' = send_key i chat thread r"
  by (simp add: send_key_def same_delivery_def)

lemma outgrown_row: "outgrows ob ob' \<Longrightarrow> r \<in> set (ob_rows ob) \<Longrightarrow> \<exists>r' \<in> set (ob_rows ob'). same_delivery r r'"
  unfolding outgrows_def using becomes_same by blast

lemma current_posts: "on_outbox (current_delivery s m digest i chat thread now) g = (r, g') \<Longrightarrow> gw_posts g' = gw_posts g"
  by (auto simp: on_outbox_eq)

lemma send_current_gateway:
  assumes g: "gateway_ok g" and run: "send_current s m digest i chat thread now1 now2 now3 g = (res, g')"
  shows "gateway_ok g' \<and> gateway_outgrows g g' \<and> (gw_posts g' = gw_posts g \<or> first_request i chat thread g g')"
proof -
  obtain a g1 where a: "on_outbox (current_delivery s m digest i chat thread now1) g = (a, g1)" by fastforce
  from keeps_gatewayD [OF current_harmless g a] have k1: "gateway_ok g1" "gateway_outgrows g g1" by blast+
  have p1: "gw_posts g1 = gw_posts g" using current_posts [OF a] .
  obtain b g2 where b: "on_outbox (claim_exact i chat thread now2) g1 = (b, g2)" by fastforce
  note k2 = claim_exact_ledger [OF k1(1) b]
  from run a b consider "g' = g1" | e where "b = Inl e" "g' = g2" | c where "b = Inr c" "send_claimed s c chat now3 g2 = (res, g')"
    by (auto simp: send_current_def split: sum.splits if_splits)
  then show ?thesis
  proof cases
    case 1
    with k1 p1 show ?thesis by simp
  next
    case 2
    with k1(2) k2 p1 show ?thesis using gateway_outgrows_trans by auto
  next
    case 3
    from k2 3(1) obtain r where r: "gateway_ok g2" "claimed (gw_posts g2) (gw_outbox g2) c" "strip chat = de_chat_id c"
        "posts_of (de_id c) (gw_posts g1) = []" "r \<in> set (ob_rows (gw_outbox g2))" "c = record_of r" "send_key i chat thread r" by blast
    note k3 = send_claimed_gateway [OF r(1-3) 3(2)]
    then have "outgrows (gw_outbox g2) (gw_outbox g')" by (simp add: gateway_outgrows_def)
    from outgrown_row [OF this r(5)] obtain r' where "r' \<in> set (ob_rows (gw_outbox g'))" and same: "same_delivery r r'" by blast
    then have r': "r' \<in> set (ob_rows (gw_outbox g'))" "send_key i chat thread r'" "dr_id r' = de_id c"
      using r(6,7) send_key_same [OF same] same by (auto simp: same_delivery_def)
    from k3 obtain p where p: "gw_posts g' = gw_posts g2 @ [p]" "po_delivery p = de_id c" by blast
    have "gw_posts g2 = gw_posts g" using k2 p1 by simp
    then have "first_request i chat thread g g'"
      unfolding first_request_def using p r' r(4) p1 by (intro exI [of _ p] conjI bexI [of _ r']) simp_all
    with k1(2) k2 k3 show ?thesis using gateway_outgrows_trans by blast
  qed
qed

lemma controlled_gateway:
  assumes g: "gateway_ok g"
    and run: "execute_controlled_send ops st enabled given snapshot_id expected dry_run approval now1 now2 now3 g = (res, g')"
  shows "gateway_ok g' \<and> gateway_outgrows g g' \<and> (gw_posts g' = gw_posts g
    \<or> \<not> enabled \<and> \<not> dry_run \<and> approval = Some approval_phrase
      \<and> (\<exists>i chat. canonical_id ''snapshot_id_invalid'' snapshot_id = Inr i \<and> gs_destination_chat_id st = Some chat
           \<and> first_request i chat (gs_message_thread_id st) g g'))"
proof (cases "prepare ops st enabled snapshot_id expected dry_run approval")
  case (Inl e)
  with g run show ?thesis by (simp add: execute_controlled_send_def gateway_outgrows_refl)
next
  case (Inr x)
  obtain i digest chat s m where x: "x = (i, digest, chat, s, m)" by (metis prod_cases5)
  have pre: "\<not> enabled" "canonical_id ''snapshot_id_invalid'' snapshot_id = Inr i" "gs_destination_chat_id st = Some chat"
      "\<not> dry_run \<longrightarrow> approval = Some approval_phrase"
    using Inr x by (auto simp: prepare_def ebind_eq_Inr check_approval_def assert_some_def split: if_splits option.splits)
  obtain a g1 where a: "on_outbox (existing_delivery given i chat (gs_message_thread_id st)) g = (a, g1)" by fastforce
  note k1 = reads_gateway [OF existing_reads g a]
  obtain b g2 where b: "on_outbox (open_unless given) g1 = (b, g2)" by fastforce
  note k2 = reads_gateway [OF open_reads conjunct1 [OF k1] b]
  from run Inr x a b consider "g' = g1" | "g' = g2"
    | "\<not> dry_run" "send_current s m digest i chat (gs_message_thread_id st) now1 now2 now3 g2 = (res, g')"
    by (auto simp: execute_controlled_send_def Let_def split: sum.splits option.splits if_splits)
  then show ?thesis
  proof cases
    case 1
    with k1 show ?thesis by simp
  next
    case 2
    with k1 k2 show ?thesis using gateway_outgrows_trans by auto
  next
    case 3
    have posts: "gw_posts g2 = gw_posts g" using k1 k2 by simp
    have out: "gateway_outgrows g g2" using k1 k2 gateway_outgrows_trans by blast
    note cur = send_current_gateway [OF conjunct1 [OF k2] 3(2)]
    have "gateway_outgrows g g'" using out cur gateway_outgrows_trans by blast
    with cur posts have
      "gateway_ok g' \<and> gateway_outgrows g g' \<and> (gw_posts g' = gw_posts g \<or> first_request i chat (gs_message_thread_id st) g2 g')"
      by simp
    moreover have "first_request i chat (gs_message_thread_id st) g2 g' = first_request i chat (gs_message_thread_id st) g g'"
      using posts by (simp add: first_request_def)
    ultimately show ?thesis using pre 3(1) by blast
  qed
qed

section \<open>The gateway as a system of steps\<close>

inductive gateway_step :: "gateway \<Rightarrow> gateway \<Rightarrow> bool" where
  round: "run_once st backend render now g = (r, g') \<Longrightarrow> gateway_step g g'"
| command: "execute_controlled_send ops st enabled given snapshot_id expected dry_run approval now1 now2 now3 g = (c, g')
    \<Longrightarrow> gateway_step g g'"
| restart: "gateway_step g (g\<lparr>gw_outbox := (gw_outbox g)\<lparr>ob_script := script\<rparr>, gw_replies := replies, gw_runtime := runtime\<rparr>)"

lemma gateway_step_keeps: "gateway_step g g' \<Longrightarrow> gateway_ok g \<Longrightarrow> gateway_ok g' \<and> gateway_outgrows g g'"
proof (induction rule: gateway_step.induct)
  case (round st backend render now g r g')
  then show ?case using keeps_gatewayD [OF run_once_gateway] by blast
next
  case (command ops st enabled given snapshot_id expected dry_run approval now1 now2 now3 g c g')
  then show ?case using controlled_gateway by blast
next
  case (restart g script replies runtime)
  then show ?case by (simp add: gateway_ok_def gateway_outgrows_def ledger_def outgrows_refl)
qed

interpretation gateways: kept_history gateway_step gateway_ok gateway_outgrows
  using gateway_step_keeps gateway_outgrows_refl gateway_outgrows_trans by unfold_locales blast+

section \<open>Properties\<close>

text \<open>C13: The record of deliveries is honest. Whatever rounds, controlled sends, failures and restarts happen, every request to
  Telegram carries the text and the destination of one delivery in the outbox, no delivery is requested more often
  than its attempts say, one whose request was acknowledged is sent, being sent or flagged, and one that was
  acknowledged twice is flagged with the duplicate risk.\<close>

theorem requests_accounted:
  assumes "gateway_ok g" and "gateway_step\<^sup>*\<^sup>* g g'"
  shows "(\<forall>p \<in> set (gw_posts g'). \<exists>r \<in> set (ob_rows (gw_outbox g')). carries r p)
    \<and> (\<forall>r \<in> set (ob_rows (gw_outbox g')). int (length (posts_of (dr_id r) (gw_posts g'))) \<le> dr_attempts r
        \<and> (1 \<le> acks_of (dr_id r) (gw_posts g') \<longrightarrow> dr_state r \<in> {SENT, SENDING} \<or> dr_duplicate_risk r)
        \<and> (2 \<le> acks_of (dr_id r) (gw_posts g') \<longrightarrow> dr_duplicate_risk r))"
  using gateways.run_sound [OF assms(2,1)] by (simp add: gateway_ok_def ledger_def accounted_def)

text \<open>C14: A controlled send sends at most once. An invocation makes at most one request, and only with the approval, outside
  a dry run and while the worker is disabled; the request is the first that was ever made for the snapshot and the
  destination. Whatever happens afterwards, no later invocation for them makes another.\<close>

theorem controlled_send_once:
  assumes "gateway_ok g"
    and "execute_controlled_send ops st enabled given snapshot_id expected dry_run approval now1 now2 now3 g = (res, g1)"
    and "gw_posts g1 \<noteq> gw_posts g" and "gateway_step\<^sup>*\<^sup>* g1 g2"
    and "execute_controlled_send ops' st enabled' given' snapshot_id expected' dry_run' approval' now4 now5 now6 g2 = (res', g3)"
  shows "\<not> enabled \<and> \<not> dry_run \<and> approval = Some approval_phrase
    \<and> (\<exists>p. gw_posts g1 = gw_posts g @ [p] \<and> posts_of (po_delivery p) (gw_posts g) = [])
    \<and> gw_posts g3 = gw_posts g2"
proof -
  from controlled_gateway [OF assms(1,2)] assms(3) obtain i chat where ok1: "gateway_ok g1"
      and first: "\<not> enabled \<and> \<not> dry_run \<and> approval = Some approval_phrase" "first_request i chat (gs_message_thread_id st) g g1"
      and key: "canonical_id ''snapshot_id_invalid'' snapshot_id = Inr i" "gs_destination_chat_id st = Some chat" by blast
  from first(2) obtain p r where p: "gw_posts g1 = gw_posts g @ [p]" "posts_of (po_delivery p) (gw_posts g) = []"
      "r \<in> set (ob_rows (gw_outbox g1))" "send_key i chat (gs_message_thread_id st) r" "dr_id r = po_delivery p"
    unfolding first_request_def by blast
  from gateways.run_keeps [OF assms(4) ok1] have ok2: "gateway_ok g2" and out2: "gateway_outgrows g1 g2" by blast+
  note k3 = controlled_gateway [OF ok2 assms(5)]
  then have out3: "gateway_outgrows g1 g3" using out2 gateway_outgrows_trans by blast
  have "\<not> first_request i chat (gs_message_thread_id st) g2 g3"
  proof
    assume "first_request i chat (gs_message_thread_id st) g2 g3"
    then obtain q :: post and r3 where q: "posts_of (po_delivery q) (gw_posts g2) = []" "r3 \<in> set (ob_rows (gw_outbox g3))"
        "send_key i chat (gs_message_thread_id st) r3" "dr_id r3 = po_delivery q" unfolding first_request_def by blast
    from out3 p(3) outgrown_row obtain r' where r': "r' \<in> set (ob_rows (gw_outbox g3))" "same_delivery r r'"
      unfolding gateway_outgrows_def by blast
    have "identity r' = identity r3" using r'(2) p(4) q(3) by (auto simp: send_key_def same_delivery_def)
    with k3 r'(1) q(2) have "r' = r3" using outbox_identity by (auto simp: gateway_ok_def)
    with r'(2) p(5) q(4) have "po_delivery q = po_delivery p" by (simp add: same_delivery_def)
    moreover have "p \<in> set (gw_posts g2)" using out2 p(1) by (auto simp: gateway_outgrows_def)
    ultimately show False using q(1) by (auto simp: posts_of_def filter_empty_conv)
  qed
  with k3 key first(1) p(1,2) show ?thesis by auto
qed

section \<open>A concrete command\<close>

definition sim_digest :: string where
  "sim_digest = replicate 64 (CHR ''a'')"

definition sim_id :: string where
  "sim_id = ''00000000-0000-0000-0000-00000000000a''"

definition sim_controlled :: controlled_ops where
  "sim_controlled = \<lparr>co_configured = \<lambda>st. Inr (),
     co_get_snapshot = \<lambda>i. Inr ((sim_snapshot i 0)\<lparr>rs_organization_id := sim_id, rs_payload_sha256 := sim_digest\<rparr>),
     co_render = sim_render, co_payload_digest = \<lambda>p. Inr sim_digest\<rparr>"

definition sim_command_settings :: gateway_settings where
  "sim_command_settings = sim_gateway_settings\<lparr>gs_organization_id := sim_id\<rparr>"

definition sim_accepted :: telegram_reply where
  "sim_accepted = Replied 200 (Some (JObj [(''ok'', JBool True), (''result'', JObj [(''message_id'', JInt 9)])]))"

definition sim_start :: gateway where
  "sim_start = sim_gateway empty_outbox [sim_accepted]"

definition sim_command :: "gateway \<Rightarrow> controlled_result result \<times> gateway" where
  "sim_command = execute_controlled_send sim_controlled sim_command_settings False True sim_id sim_digest False (Some approval_phrase) 5 6 7"

lemma sim_text: "required sim_id ''snapshot_id'' 128 = Inr sim_id" "digest_text sim_digest = Inr sim_digest"
  "lower sim_digest = sim_digest" "strip sim_id = sim_id"
  by code_simp+

lemma sim_hex: "filter (\<lambda>c. c \<noteq> CHR ''-'') (strip_braces (remove_all ''uuid:'' 0 (remove_all ''urn:'' 0 sim_id)))
    = ''0000000000000000000000000000000a''"
  "py_int16 ''0000000000000000000000000000000a'' = Some 10" "hex_text 32 10 = ''0000000000000000000000000000000a''"
  by code_simp+

lemma sim_canonical: "canonical_id c sim_id = Inr sim_id"
  by (simp add: canonical_id_def uuid_text_def sim_text sim_hex Let_def) (simp add: sim_id_def)

lemmas sim_uuid = sim_text sim_canonical

lemma sim_no_thread: "gs_message_thread_id sim_command_settings = None"
  by (simp add: sim_command_settings_def sim_gateway_settings_def)

lemma sim_prepared:
  "prepare sim_controlled sim_command_settings False sim_id sim_digest False (Some approval_phrase)
   = Inr (sim_id, sim_digest, ''-1'', (sim_snapshot sim_id 0)\<lparr>rs_organization_id := sim_id, rs_payload_sha256 := sim_digest\<rparr>, sim_message)"
  by (simp add: prepare_def sim_controlled_def check_approval_def sim_uuid sim_command_settings_def sim_gateway_settings_def
      assert_some_def verify_snapshot_def sim_render_def)

lemma sim_posted: "\<exists>p. gw_posts (snd (sim_command sim_start)) = [p] \<and> po_text p = ''report''"
  by (simp add: sim_command_def execute_controlled_send_def sim_prepared sim_start_def sim_gateway_def on_outbox_def Let_def
      existing_delivery_def get_by_snapshot_def connected_def empty_outbox_def checked_def thread_db_value_def find_delivery_def
      check_existing_def open_unless_def send_current_def current_delivery_def enqueue_def sim_required enqueue_call_def
      sim_no_thread new_row_def ensure_sendable_def verify_render_def sim_message_def
      claim_exact_def claim_exact_call_def sim_uuid identified_def send_claimed_def post_delivery_def sim_accepted_def send_message_def
      dget_or_def json_get_def message_id_of_def claim_row_def claimed_row_def
      mark_sent_def transition_from_sending_def row_of_id_def update_row_def split: prod.splits sum.splits)

lemma sim_start_ok: "gateway_ok sim_start"
  unfolding sim_start_def by (rule sim_gateway_ok [OF empty_outbox_ok])

lemma requests_accounted_witness:
  "\<exists>p r. gw_posts (snd (sim_command sim_start)) = [p] \<and> r \<in> set (ob_rows (gw_outbox (snd (sim_command sim_start)))) \<and> carries r p"
proof -
  obtain c g' where run: "sim_command sim_start = (c, g')" by fastforce
  then have "gateway_step\<^sup>*\<^sup>* sim_start g'" unfolding sim_command_def by (intro r_into_rtranclp gateway_step.command)
  from requests_accounted [OF sim_start_ok this] sim_posted run show ?thesis by fastforce
qed

lemma controlled_send_once_witness:
  "gw_posts (snd (sim_command sim_start)) \<noteq> []
   \<and> gw_posts (snd (sim_command (snd (sim_command sim_start)))) = gw_posts (snd (sim_command sim_start))"
proof -
  obtain c g1 where run: "sim_command sim_start = (c, g1)" by fastforce
  obtain c' g2 where again: "sim_command g1 = (c', g2)" by fastforce
  have new: "gw_posts g1 \<noteq> gw_posts sim_start" using sim_posted run by (auto simp: sim_start_def sim_gateway_def)
  from controlled_send_once [OF sim_start_ok run [unfolded sim_command_def] new rtranclp.rtrancl_refl again [unfolded sim_command_def]]
    run again sim_posted show ?thesis by auto
qed

end
