(* ===== verification/Passwords.thy ===== *)
theory Passwords
  imports PyStr
begin

text \<open>
  The password hashes of the telemetry service, \<open>services/telemetry-service/app/security/passwords.py\<close>.
  \<open>hashlib.scrypt\<close> is a parameter \<open>scrypt password salt n r p dklen\<close> whose value \<open>None\<close> is a call that raises
  \<open>ValueError\<close>, \<open>TypeError\<close> or \<open>MemoryError\<close>; the salt drawn by \<open>secrets\<close> is an argument. The base64
  functions are those of the standard library, with \<open>binascii\<close>'s treatment of characters outside the alphabet
  and of padding.
\<close>

section \<open>Bytes and base64\<close>

type_synonym scrypt = "byte list \<Rightarrow> byte list \<Rightarrow> int \<Rightarrow> int \<Rightarrow> int \<Rightarrow> nat \<Rightarrow> byte list option"

text \<open>\<open>text.encode("utf-8")\<close>, for code points below 256.\<close>

definition utf8_char :: "char \<Rightarrow> byte list" where
  "utf8_char c = (let n = of_char c :: nat in
     if n < 128 then [of_nat n] else [of_nat (192 + n div 64), of_nat (128 + n mod 64)])"

definition utf8 :: "string \<Rightarrow> byte list" where
  "utf8 s = concat (map utf8_char s)"

text \<open>The groups of six bits, and the alphabet of \<open>urlsafe_b64encode\<close>.\<close>

fun sextets :: "byte list \<Rightarrow> nat list" where
  "sextets [] = []"
| "sextets [a] = [unat a div 4, unat a mod 4 * 16]"
| "sextets [a, b] = [unat a div 4, unat a mod 4 * 16 + unat b div 16, unat b mod 16 * 4]"
| "sextets (a # b # c # r) = [unat a div 4, unat a mod 4 * 16 + unat b div 16,
     unat b mod 16 * 4 + unat c div 64, unat c mod 64] @ sextets r"

definition b64_char :: "nat \<Rightarrow> char" where
  "b64_char v = char_of (if v < 26 then 65 + v else if v < 52 then 71 + v else if v < 62 then v - 4
     else if v = 62 then 45 else 95)"

definition urlsafe_b64encode :: "byte list \<Rightarrow> string" where
  "urlsafe_b64encode bs = map b64_char (sextets bs)
     @ replicate ((3 - length bs mod 3) mod 3) (CHR ''='')"

text \<open>\<open>binascii.a2b_base64\<close> in its lenient mode: \<open>quad\<close> characters of the current group are read, \<open>left\<close> are the
  bits that wait, \<open>pads\<close> counts consecutive padding characters. Characters outside the alphabet are skipped.\<close>

definition b64_value :: "char \<Rightarrow> nat option" where
  "b64_value c = (let n = of_char c :: nat in
     if 65 \<le> n \<and> n \<le> 90 then Some (n - 65) else if 97 \<le> n \<and> n \<le> 122 then Some (n - 71)
     else if 48 \<le> n \<and> n \<le> 57 then Some (n + 4) else if n = 43 \<or> n = 45 then Some 62
     else if n = 47 \<or> n = 95 then Some 63 else None)"

fun a2b :: "nat \<Rightarrow> nat \<Rightarrow> nat \<Rightarrow> string \<Rightarrow> byte list option" where
  "a2b quad left pads [] = (if quad = 0 then Some [] else None)"
| "a2b quad left pads (c # s) =
     (if c = CHR ''='' then
        if 2 \<le> quad \<and> 4 \<le> quad + (pads + 1) then Some []
        else a2b quad left (if 2 \<le> quad then pads + 1 else pads) s
      else case b64_value c of
        None \<Rightarrow> a2b quad left pads s
      | Some v \<Rightarrow>
          if quad = 0 then a2b 1 v 0 s
          else if quad = 1 then map_option (Cons (of_nat (left * 4 + v div 16))) (a2b 2 (v mod 16) 0 s)
          else if quad = 2 then map_option (Cons (of_nat (left * 16 + v div 4))) (a2b 3 (v mod 4) 0 s)
          else map_option (Cons (of_nat (left * 64 + v))) (a2b 0 0 0 s))"

definition urlsafe_b64decode :: "string \<Rightarrow> byte list option" where
  "urlsafe_b64decode s = (if \<exists>c \<in> set s. 128 \<le> (of_char c :: nat) then None else a2b 0 0 0 s)"

text \<open>\<open>_encode\<close> and \<open>_decode\<close>.\<close>

definition encode_b64 :: "byte list \<Rightarrow> string" where
  "encode_b64 bs = rev (dropWhile (\<lambda>c. c = CHR ''='') (rev (urlsafe_b64encode bs)))"

definition decode_b64 :: "string \<Rightarrow> byte list option" where
  "decode_b64 s = urlsafe_b64decode (s @ replicate (nat ((- int (length s)) mod 4)) (CHR ''=''))"

section \<open>Hashing and verification\<close>

text \<open>\<open>text.split(sep, n)\<close>: at most \<open>n\<close> cuts.\<close>

fun split_max :: "nat \<Rightarrow> char \<Rightarrow> string \<Rightarrow> string list" where
  "split_max 0 sep s = [s]"
| "split_max (Suc n) sep s = (case split_once sep s of None \<Rightarrow> [s] | Some (a, b) \<Rightarrow> a # split_max n sep b)"

definition validated_password :: "string \<Rightarrow> string result" where
  "validated_password p =
     (if length p < 12 then Inl (PasswordHashError ''password must contain at least 12 characters'')
      else if length p > 256 then Inl (PasswordHashError ''password must not exceed 256 characters'')
      else if strip p \<noteq> p then Inl (PasswordHashError ''password must not start or end with whitespace'')
      else Inr p)"

definition hash_text :: "byte list \<Rightarrow> byte list \<Rightarrow> string" where
  "hash_text salt digest =
     join ''$'' [''scrypt'', dec (2 ^ 14), dec 8, dec 1, encode_b64 salt, encode_b64 digest]"

definition hash_password :: "scrypt \<Rightarrow> byte list \<Rightarrow> string \<Rightarrow> string result" where
  "hash_password scrypt salt password = ebind (validated_password password) (\<lambda>p.
     case scrypt (utf8 p) salt (2 ^ 14) 8 1 64 of
       None \<Rightarrow> Inl (OtherError ''scrypt'')
     | Some digest \<Rightarrow> Inr (hash_text salt digest))"

definition verify_password :: "scrypt \<Rightarrow> string \<Rightarrow> string \<Rightarrow> bool" where
  "verify_password scrypt password encoded = (case split_max 5 (CHR ''$'') encoded of
       [scheme, n_text, r_text, p_text, salt_text, digest_text] \<Rightarrow>
         if scheme \<noteq> ''scrypt'' then False
         else (case (py_int n_text, py_int r_text, py_int p_text) of
           (Some n, Some r, Some p) \<Rightarrow>
             if n < 2 ^ 14 \<or> n > 2 ^ 20 \<or> r < 1 \<or> r > 32 \<or> p < 1 \<or> p > 16 then False
             else (case (decode_b64 salt_text, decode_b64 digest_text) of
               (Some salt, Some expected) \<Rightarrow>
                 if length salt < 16 \<or> length expected < 32 then False
                 else (case scrypt (utf8 password) salt n r p (length expected) of
                     None \<Rightarrow> False
                   | Some actual \<Rightarrow> actual = expected)
             | _ \<Rightarrow> False)
         | _ \<Rightarrow> False)
     | _ \<Rightarrow> False)"

definition dummy_password_hash :: string where
  "dummy_password_hash = ''scrypt$16384$8$1$MDAwMDAwMDAwMDAwMDAwMA$''
     @ ''OzdhBj9mAc34-iC1jOIDBcPT8kkC3KVXcBmji3UC1Dy_0hK0rYeiQ5AY--9v7iwpBSXFNo-YkiSm-V2Bhnd5_A''"

section \<open>The round trip\<close>

lemma b64_value_char [simp]: "v < 64 \<Longrightarrow> b64_value (b64_char v) = Some v"
  by (auto simp: b64_value_def b64_char_def Let_def)

lemma b64_value_Some: "b64_value c = Some v \<Longrightarrow> c \<noteq> CHR ''='' \<and> c \<noteq> CHR ''$'' \<and> (of_char c :: nat) < 128"
  by (auto simp: b64_value_def Let_def split: if_splits)

lemma b64_char_plain: "v < 64 \<Longrightarrow> b64_char v \<noteq> CHR ''='' \<and> b64_char v \<noteq> CHR ''$'' \<and> (of_char (b64_char v) :: nat) < 128"
  using b64_value_Some [OF b64_value_char] .

lemma unat_byte: "unat (a :: byte) < 256"
  using unsigned_less [of a] by simp

lemma sextets_small: "v \<in> set (sextets bs) \<Longrightarrow> v < 64"
proof (induction bs rule: sextets.induct)
  case (4 a b c r)
  then show ?case using unat_byte [of a] unat_byte [of b] unat_byte [of c] by auto
next
  case (2 a)
  then show ?case using unat_byte [of a] by auto
next
  case (3 a b)
  then show ?case using unat_byte [of a] unat_byte [of b] by auto
qed simp

lemma length_sextets: "length (sextets bs) = (4 * length bs + 2) div 3"
  by (induction bs rule: sextets.induct) auto

text \<open>The bits of a byte that two groups share.\<close>

lemma rejoin: "of_nat (unat (a :: byte) div 4 * 4 + (unat a mod 4 * 16 + v) div 16) = a" if "v < 16"
proof -
  have "(unat a mod 4 * 16 + v) div 16 = unat a mod 4" using that by simp
  then show ?thesis by simp
qed

lemma rejoin2: "of_nat (((m * 16 + unat (b :: byte) div 16) mod 16) * 16 + (unat b mod 16 * 4 + w) div 4) = b" if "w < 4"
proof -
  have "unat b div 16 < 16" using unat_byte [of b] by auto
  then have "(m * 16 + unat b div 16) mod 16 = unat b div 16" by simp
  moreover have "(unat b mod 16 * 4 + w) div 4 = unat b mod 16" using that by simp
  ultimately show ?thesis by simp
qed

lemma rejoin3: "of_nat (((m * 4 + unat (c :: byte) div 64) mod 4) * 64 + unat c mod 64) = c"
proof -
  have "unat c div 64 < 4" using unat_byte [of c] by auto
  then have "(m * 4 + unat c div 64) mod 4 = unat c div 64" by simp
  then show ?thesis by simp
qed

lemma a2b_sextets:
  "a2b 0 0 0 (map b64_char (sextets bs) @ replicate ((3 - length bs mod 3) mod 3) (CHR ''='')) = Some bs"
proof (induction bs rule: sextets.induct)
  case (2 a)
  show ?case using unat_byte [of a] rejoin [of 0 a]
    by (simp add: b64_char_plain numeral_2_eq_2)
next
  case (3 a b)
  have v: "unat a div 4 < 64" "unat a mod 4 * 16 + unat b div 16 < 64" "unat b mod 16 * 4 < 64" "unat b div 16 < 16"
    using unat_byte [of a] unat_byte [of b] by auto
  show ?case using v rejoin [of "unat b div 16" a] rejoin2 [of 0 "unat a mod 4" b] by (simp add: b64_char_plain)
next
  case (4 a b c r)
  have v: "unat a div 4 < 64" "unat a mod 4 * 16 + unat b div 16 < 64" "unat b mod 16 * 4 + unat c div 64 < 64"
      "unat c mod 64 < 64" "unat b div 16 < 16" "unat c div 64 < 4"
    using unat_byte [of a] unat_byte [of b] unat_byte [of c] by auto
  show ?case
    using v rejoin [of "unat b div 16" a] rejoin2 [of "unat c div 64" "unat a mod 4" b] rejoin3 [of "unat b mod 16" c] 4
    by (simp add: b64_char_plain)
qed simp

lemma encode_b64_eq: "encode_b64 bs = map b64_char (sextets bs)"
proof -
  have "dropWhile (\<lambda>c. c = CHR ''='') (rev (map b64_char (sextets bs))) = rev (map b64_char (sextets bs))"
    using b64_char_plain sextets_small [of "last (sextets bs)" bs]
    by (cases "sextets bs" rule: rev_cases) (simp_all add: dropWhile_eq_self_iff)
  then show ?thesis by (simp add: encode_b64_def urlsafe_b64encode_def dropWhile_append)
qed

lemma encode_b64_chars: "c \<in> set (encode_b64 bs) \<Longrightarrow> c \<noteq> CHR ''$'' \<and> (of_char c :: nat) < 128"
  using b64_char_plain sextets_small by (auto simp: encode_b64_eq)

lemma padding_length: "nat ((- int ((4 * n + 2) div 3)) mod 4) = (3 - n mod 3) mod 3"
proof -
  obtain q r where n: "n = 3 * q + r" "r < 3"
    using mod_less_divisor [of 3 n] mult_div_mod_eq [of 3 n] by (metis zero_less_numeral)
  then consider "r = 0" | "r = 1" | "r = 2" by linarith
  then show ?thesis
  proof cases
    case 1
    then have "(4 * n + 2) div 3 = 4 * q" using n by simp
    with 1 n show ?thesis by simp
  next
    case 2
    then have "(4 * n + 2) div 3 = 4 * q + 2" using n by simp
    moreover have "(- int (4 * q + 2)) mod 4 = 2" by presburger
    ultimately show ?thesis using 2 n by simp
  next
    case 3
    then have "(4 * n + 2) div 3 = 4 * q + 3" using n by simp
    moreover have "(- int (4 * q + 3)) mod 4 = 1" by presburger
    moreover have "n mod 3 = 2" using 3 n by presburger
    ultimately show ?thesis by simp
  qed
qed

lemma decode_encode: "decode_b64 (encode_b64 bs) = Some bs"
proof -
  have "\<forall>c \<in> set (encode_b64 bs). (of_char c :: nat) < 128" using encode_b64_chars by blast
  then have "\<not> (\<exists>c \<in> set (encode_b64 bs @ replicate k (CHR ''='')). 128 \<le> (of_char c :: nat))" for k
    by (auto simp: not_le)
  moreover have "nat ((- int (length (encode_b64 bs))) mod 4) = (3 - length bs mod 3) mod 3"
    unfolding encode_b64_eq length_map length_sextets by (rule padding_length)
  ultimately show ?thesis using a2b_sextets [of bs]
    unfolding decode_b64_def urlsafe_b64decode_def by (simp add: encode_b64_eq)
qed

lemma split_once_append: "sep \<notin> set a \<Longrightarrow> split_once sep (a @ sep # b) = Some (a, b)"
  by (induction a) auto

lemma split_once_none: "sep \<notin> set a \<Longrightarrow> split_once sep a = None"
  by (induction a) auto

lemma dec_no_dollar: "0 \<le> i \<Longrightarrow> CHR ''$'' \<notin> set (dec i)"
  using dec_digits [of i "CHR ''$''"] by (auto simp: is_digit_def)

lemma split_hash_text:
  "split_max 5 (CHR ''$'') (hash_text salt digest)
     = [''scrypt'', dec (2 ^ 14), dec 8, dec 1, encode_b64 salt, encode_b64 digest]"
proof -
  have plain: "CHR ''$'' \<notin> set (encode_b64 bs)" for bs using encode_b64_chars by blast
  show ?thesis
    unfolding hash_text_def
    by (simp add: numeral_eq_Suc split_once_append split_once_none plain dec_no_dollar
        split_once_append [of "CHR ''$''" "''scrypt''", simplified])
qed

text \<open>What verification of a hash made here does.\<close>

lemma verify_hash_text:
  assumes "16 \<le> length salt" and "32 \<le> length digest"
  shows "verify_password scrypt q (hash_text salt digest)
     \<longleftrightarrow> scrypt (utf8 q) salt (2 ^ 14) 8 1 (length digest) = Some digest"
  using assms unfolding verify_password_def split_hash_text
  by (simp add: py_int_dec decode_encode split: option.splits)

lemma validated_iff:
  "validated_password p = Inr r \<longleftrightarrow> r = p \<and> 12 \<le> length p \<and> length p \<le> 256 \<and> strip p = p"
  by (auto simp: validated_password_def)

lemma validated_error: "validated_password p = Inl e \<Longrightarrow> \<exists>m. e = PasswordHashError m"
  by (auto simp: validated_password_def split: if_splits)

lemma length_hash_text: "length (hash_text salt digest) = 18 + length (encode_b64 salt) + length (encode_b64 digest)"
proof -
  have "length (dec (2 ^ 14)) = 5" "length (dec 8) = 1" "length (dec 1) = 1"
    by (simp_all add: dec_def digits_base.simps)
  then show ?thesis by (simp add: hash_text_def)
qed

definition dummy_digest :: "byte list" where
  "dummy_digest = [59, 55, 97, 6, 63, 102, 1, 205, 248, 250, 32, 181, 140, 226, 3, 5, 195, 211, 242, 73, 2, 220, 165, 87, 112,
    25, 163, 139, 117, 2, 212, 60, 191, 210, 18, 180, 173, 135, 162, 67, 144, 24, 251, 239, 111, 238, 44, 41, 5,
    37, 197, 54, 143, 152, 146, 36, 166, 249, 93, 129, 134, 119, 121, 252]"

text \<open>The dummy hash has the form of a hash text, its salt is sixteen zero digits.\<close>

lemma split_dummy: "split_max 5 (CHR ''$'') dummy_password_hash
    = [''scrypt'', ''16384'', ''8'', ''1'', ''MDAwMDAwMDAwMDAwMDAwMA'',
       ''OzdhBj9mAc34-iC1jOIDBcPT8kkC3KVXcBmji3UC1Dy_0hK0rYeiQ5AY--9v7iwpBSXFNo-YkiSm-V2Bhnd5_A'']"
  by (simp add: dummy_password_hash_def numeral_eq_Suc)

lemma dummy_salt: "decode_b64 ''MDAwMDAwMDAwMDAwMDAwMA'' = Some (replicate 16 48)"
  by code_simp

lemma dummy_expected:
  "decode_b64 ''OzdhBj9mAc34-iC1jOIDBcPT8kkC3KVXcBmji3UC1Dy_0hK0rYeiQ5AY--9v7iwpBSXFNo-YkiSm-V2Bhnd5_A'' = Some dummy_digest"
  by code_simp

lemma length_dummy: "length dummy_digest = 64"
  by (simp add: dummy_digest_def)

lemma dummy_numbers: "py_int ''16384'' = Some (2 ^ 14)" "py_int ''8'' = Some 8" "py_int ''1'' = Some 1"
  by code_simp+

lemma verify_dummy: "verify_password scrypt q dummy_password_hash
    \<longleftrightarrow> scrypt (utf8 q) (replicate 16 48) (2 ^ 14) 8 1 64 = Some dummy_digest"
  unfolding verify_password_def split_dummy
  by (simp add: dummy_numbers dummy_salt dummy_expected length_dummy split: option.splits)

text \<open>C20: A password is hashed exactly when it has 12 to 256 characters and no surrounding white space, otherwise
  \<open>PasswordHashError\<close> is raised. The stored text fits its column of 512 characters, and verification accepts a
  password against it exactly when \<open>scrypt\<close> maps both to the same digest, the hashed password in particular:
  the base64 texts, the parameters and the separators are read back as they were written. A login for an
  unknown user costs the same \<open>scrypt\<close> call: whatever function stands for \<open>scrypt\<close>, the answer on the dummy hash is
  decided by its value on the password, one salt of 16 bytes and the default parameters alone, compared with a digest of
  64 bytes.\<close>

theorem password_roundtrip:
  assumes default_call: "\<And>pw s. \<exists>d. scrypt pw s (2 ^ 14) 8 1 64 = Some d \<and> length d = 64"
    and salt: "length salt = 16"
  shows "(case hash_password scrypt salt p of
      Inl e \<Rightarrow> (\<exists>m. e = PasswordHashError m) \<and> \<not> (12 \<le> length p \<and> length p \<le> 256 \<and> strip p = p)
    | Inr h \<Rightarrow> 12 \<le> length p \<and> length p \<le> 256 \<and> strip p = p \<and> length h \<le> 512
        \<and> (\<forall>q. verify_password scrypt q h
             \<longleftrightarrow> scrypt (utf8 q) salt (2 ^ 14) 8 1 64 = scrypt (utf8 p) salt (2 ^ 14) 8 1 64))
    \<and> (\<exists>s d. length s = 16 \<and> length d = 64 \<and> (\<forall>any_scrypt q. verify_password any_scrypt q dummy_password_hash
          \<longleftrightarrow> any_scrypt (utf8 q) s (2 ^ 14) 8 1 64 = Some d))"
proof (rule conjI)
  obtain d where d: "scrypt (utf8 p) salt (2 ^ 14) 8 1 64 = Some d" "length d = 64"
    using default_call by blast
  show "case hash_password scrypt salt p of
      Inl e \<Rightarrow> (\<exists>m. e = PasswordHashError m) \<and> \<not> (12 \<le> length p \<and> length p \<le> 256 \<and> strip p = p)
    | Inr h \<Rightarrow> 12 \<le> length p \<and> length p \<le> 256 \<and> strip p = p \<and> length h \<le> 512
        \<and> (\<forall>q. verify_password scrypt q h
             \<longleftrightarrow> scrypt (utf8 q) salt (2 ^ 14) 8 1 64 = scrypt (utf8 p) salt (2 ^ 14) 8 1 64)"
  proof (cases "validated_password p")
    case (Inl e)
    then have "\<not> (12 \<le> length p \<and> length p \<le> 256 \<and> strip p = p)" using validated_iff [of p p] by auto
    with Inl validated_error [OF Inl] show ?thesis by (simp add: hash_password_def)
  next
    case (Inr r)
    have "length (encode_b64 salt) = 22" "length (encode_b64 d) = 86"
      using salt d(2) by (simp_all add: encode_b64_eq length_sextets)
    then have "length (hash_text salt d) \<le> 512" by (simp add: length_hash_text)
    moreover have "verify_password scrypt q (hash_text salt d) \<longleftrightarrow> scrypt (utf8 q) salt (2 ^ 14) 8 1 64 = Some d" for q
      using verify_hash_text [of salt d scrypt q] salt d(2) by simp
    moreover from Inr have "validated_password p = Inr p" "12 \<le> length p" "length p \<le> 256" "strip p = p"
      by (auto simp: validated_iff)
    ultimately show ?thesis using d(1) by (simp add: hash_password_def)
  qed
  show "\<exists>s d. length s = 16 \<and> length d = 64 \<and> (\<forall>any_scrypt q. verify_password any_scrypt q dummy_password_hash
          \<longleftrightarrow> any_scrypt (utf8 q) s (2 ^ 14) 8 1 64 = Some d)"
    by (intro exI [of _ "replicate 16 48"] exI [of _ dummy_digest]) (simp add: verify_dummy length_dummy)
qed

text \<open>A stand-in for \<open>scrypt\<close> that keeps the password apart from others of the same length.\<close>

definition toy_scrypt :: scrypt where
  "toy_scrypt pw salt n r p k = Some (take k (pw @ replicate k 0))"

theorem password_roundtrip_witness:
  "\<exists>h. hash_password toy_scrypt (replicate 16 7) ''correct horse'' = Inr h
     \<and> verify_password toy_scrypt ''correct horse'' h \<and> \<not> verify_password toy_scrypt ''correct hearse'' h"
proof -
  have ok: "strip ''correct horse'' = ''correct horse''" by code_simp
  have diff: "toy_scrypt (utf8 ''correct hearse'') (replicate 16 7) (2 ^ 14) 8 1 64
      \<noteq> toy_scrypt (utf8 ''correct horse'') (replicate 16 7) (2 ^ 14) 8 1 64" by code_simp
  have call: "\<exists>d. toy_scrypt pw s (2 ^ 14) 8 1 64 = Some d \<and> length d = 64" for pw s
    by (simp add: toy_scrypt_def)
  show ?thesis
    using password_roundtrip [of toy_scrypt "replicate 16 7" "''correct horse''", OF call] ok diff
    by (cases "hash_password toy_scrypt (replicate 16 7) ''correct horse''") auto
qed

end
