(* ===== verification/Authorization.thy ===== *)
theory Authorization
  imports PyStr "HOL-Library.List_Lexorder" "HOL-Library.Char_ord"
begin

text \<open>
  Roles, permissions and the authorization decision of the telemetry service,
  \<open>services/telemetry-service/app/security/authorization.py\<close>.
\<close>

section \<open>Roles and permissions\<close>

datatype role =
    ADMINISTRATOR
  | LABORATORY_MANAGER
  | ENGINEER
  | LABORATORY_TECHNICIAN
  | OPERATOR
  | VIEWER
  | AUDITOR

fun role_value :: "role \<Rightarrow> string" where
  "role_value ADMINISTRATOR = ''administrator''"
| "role_value LABORATORY_MANAGER = ''laboratory_manager''"
| "role_value ENGINEER = ''engineer''"
| "role_value LABORATORY_TECHNICIAN = ''laboratory_technician''"
| "role_value OPERATOR = ''operator''"
| "role_value VIEWER = ''viewer''"
| "role_value AUDITOR = ''auditor''"

datatype permission =
    READ_DASHBOARD
  | MANAGE_LIVE_DASHBOARDS
  | READ_TELEMETRY
  | READ_ALERTS
  | READ_AUDIT
  | READ_REPORTS
  | READ_NODES
  | GENERATE_REPORTS
  | MANAGE_MEMBERSHIPS
  | MANAGE_EQUIPMENT
  | MANAGE_NODES
  | EDIT_LAYOUT_DRAFT
  | PUBLISH_LAYOUT
  | RESTORE_LAYOUT
  | MANAGE_SESSIONS
  | OPERATE_SESSIONS
  | MANAGE_ALERT_RULES
  | ACKNOWLEDGE_ALERTS
  | APPROVE_REPORTS
  | MANAGE_PROJECT_VERSIONS

fun permission_value :: "permission \<Rightarrow> string" where
  "permission_value READ_DASHBOARD = ''dashboard.read''"
| "permission_value MANAGE_LIVE_DASHBOARDS = ''live_dashboards.manage''"
| "permission_value READ_TELEMETRY = ''telemetry.read''"
| "permission_value READ_ALERTS = ''alerts.read''"
| "permission_value READ_AUDIT = ''audit.read''"
| "permission_value READ_REPORTS = ''reports.read''"
| "permission_value READ_NODES = ''nodes.read''"
| "permission_value GENERATE_REPORTS = ''reports.generate''"
| "permission_value MANAGE_MEMBERSHIPS = ''memberships.manage''"
| "permission_value MANAGE_EQUIPMENT = ''equipment.manage''"
| "permission_value MANAGE_NODES = ''nodes.manage''"
| "permission_value EDIT_LAYOUT_DRAFT = ''layout.draft.edit''"
| "permission_value PUBLISH_LAYOUT = ''layout.publish''"
| "permission_value RESTORE_LAYOUT = ''layout.restore''"
| "permission_value MANAGE_SESSIONS = ''sessions.manage''"
| "permission_value OPERATE_SESSIONS = ''sessions.operate''"
| "permission_value MANAGE_ALERT_RULES = ''alerts.rules.manage''"
| "permission_value ACKNOWLEDGE_ALERTS = ''alerts.acknowledge''"
| "permission_value APPROVE_REPORTS = ''reports.approve''"
| "permission_value MANAGE_PROJECT_VERSIONS = ''project_versions.manage''"

text \<open>Iterating over the classes, in the order of the values: what \<open>sorted(..., key=value)\<close> of a set yields.\<close>

definition roles_by_value :: "role list" where
  "roles_by_value =
     [ADMINISTRATOR, AUDITOR, ENGINEER, LABORATORY_MANAGER, LABORATORY_TECHNICIAN, OPERATOR, VIEWER]"

definition permissions_by_value :: "permission list" where
  "permissions_by_value = [ACKNOWLEDGE_ALERTS, READ_ALERTS, MANAGE_ALERT_RULES, READ_AUDIT, READ_DASHBOARD,
     MANAGE_EQUIPMENT, EDIT_LAYOUT_DRAFT, PUBLISH_LAYOUT, RESTORE_LAYOUT, MANAGE_LIVE_DASHBOARDS,
     MANAGE_MEMBERSHIPS, MANAGE_NODES, READ_NODES, MANAGE_PROJECT_VERSIONS, APPROVE_REPORTS, GENERATE_REPORTS,
     READ_REPORTS, MANAGE_SESSIONS, OPERATE_SESSIONS, READ_TELEMETRY]"

definition sorted_roles :: "role set \<Rightarrow> role list" where
  "sorted_roles rs = filter (\<lambda>r. r \<in> rs) roles_by_value"

definition sorted_permissions :: "permission set \<Rightarrow> permission list" where
  "sorted_permissions ps = filter (\<lambda>p. p \<in> ps) permissions_by_value"

lemma set_roles_by_value [simp]: "set roles_by_value = UNIV"
proof -
  have "r \<in> set roles_by_value" for r by (cases r) (simp_all add: roles_by_value_def)
  then show ?thesis by blast
qed

lemma set_permissions_by_value [simp]: "set permissions_by_value = UNIV"
proof -
  have "p \<in> set permissions_by_value" for p by (cases p) (simp_all add: permissions_by_value_def)
  then show ?thesis by blast
qed

lemma distinct_by_value [simp]: "distinct roles_by_value" "distinct permissions_by_value"
  by (simp_all add: roles_by_value_def permissions_by_value_def)

lemma sorted_by_value: "sorted (map role_value roles_by_value)" "sorted (map permission_value permissions_by_value)"
  by code_simp+

lemma set_sorted [simp]: "set (sorted_roles rs) = rs" "set (sorted_permissions ps) = ps"
  by (auto simp: sorted_roles_def sorted_permissions_def)

lemma distinct_sorted [simp]: "distinct (sorted_roles rs)" "distinct (sorted_permissions ps)"
  by (simp_all add: sorted_roles_def sorted_permissions_def)

lemma sorted_permissions_inj: "sorted_permissions ps = sorted_permissions qs \<longleftrightarrow> ps = qs"
  by (metis set_sorted(2))

text \<open>\<open>Role(value)\<close>.\<close>

definition parse_role :: "string \<Rightarrow> role option" where
  "parse_role v = find (\<lambda>r. role_value r = v) roles_by_value"

lemma role_value_inj: "role_value r = role_value q \<Longrightarrow> r = q"
  by (cases r; cases q) simp_all

lemma parse_role_value [simp]: "parse_role (role_value r) = Some r"
  by (cases r) (simp_all add: parse_role_def roles_by_value_def)

lemma parse_role_Some: "parse_role v = Some r \<Longrightarrow> role_value r = v"
  by (auto simp: parse_role_def find_Some_iff)

definition PRODUCT_ROLES :: "role set" where
  "PRODUCT_ROLES = {ADMINISTRATOR, LABORATORY_MANAGER, ENGINEER, LABORATORY_TECHNICIAN}"

definition LEGACY_ROLES :: "role set" where
  "LEGACY_ROLES = {OPERATOR, VIEWER, AUDITOR}"

definition all_permissions :: "permission set" where
  "all_permissions = set permissions_by_value"

definition ADMIN_ONLY_PERMISSIONS :: "permission set" where
  "ADMIN_ONLY_PERMISSIONS = {MANAGE_MEMBERSHIPS, MANAGE_PROJECT_VERSIONS}"

definition GRANTABLE_PERMISSIONS :: "permission set" where
  "GRANTABLE_PERMISSIONS = all_permissions - ADMIN_ONLY_PERMISSIONS"

fun ROLE_PERMISSIONS :: "role \<Rightarrow> permission set" where
  "ROLE_PERMISSIONS ADMINISTRATOR = all_permissions"
| "ROLE_PERMISSIONS LABORATORY_MANAGER = {READ_DASHBOARD, MANAGE_LIVE_DASHBOARDS, READ_TELEMETRY, READ_ALERTS,
     READ_AUDIT, READ_REPORTS, READ_NODES, GENERATE_REPORTS, MANAGE_EQUIPMENT, MANAGE_NODES, EDIT_LAYOUT_DRAFT,
     PUBLISH_LAYOUT, RESTORE_LAYOUT, MANAGE_SESSIONS, OPERATE_SESSIONS, MANAGE_ALERT_RULES, ACKNOWLEDGE_ALERTS,
     APPROVE_REPORTS}"
| "ROLE_PERMISSIONS ENGINEER = {READ_DASHBOARD, MANAGE_LIVE_DASHBOARDS, READ_TELEMETRY, READ_ALERTS,
     READ_REPORTS, READ_NODES, GENERATE_REPORTS, MANAGE_EQUIPMENT, EDIT_LAYOUT_DRAFT, PUBLISH_LAYOUT,
     RESTORE_LAYOUT, MANAGE_SESSIONS, OPERATE_SESSIONS, ACKNOWLEDGE_ALERTS}"
| "ROLE_PERMISSIONS LABORATORY_TECHNICIAN = {}"
| "ROLE_PERMISSIONS OPERATOR = {READ_DASHBOARD, MANAGE_LIVE_DASHBOARDS, READ_TELEMETRY, READ_ALERTS,
     READ_REPORTS, READ_NODES, EDIT_LAYOUT_DRAFT, OPERATE_SESSIONS, ACKNOWLEDGE_ALERTS}"
| "ROLE_PERMISSIONS VIEWER = {READ_DASHBOARD, READ_TELEMETRY, READ_ALERTS, READ_REPORTS, READ_NODES}"
| "ROLE_PERMISSIONS AUDITOR = {READ_DASHBOARD, READ_TELEMETRY, READ_ALERTS, READ_AUDIT, READ_REPORTS, READ_NODES}"

section \<open>The decision\<close>

record principal =
  pr_subject :: string
  pr_organization_id :: string
  pr_roles :: "role set"
  pr_email :: "string option"
  pr_display_name :: "string option"
  pr_provider :: string
  pr_granted_permissions :: "permission set option"

text \<open>\<open>AuthenticatedPrincipal.__post_init__\<close>.\<close>

definition check_principal :: "principal \<Rightarrow> principal result" where
  "check_principal p =
     (if strip (pr_subject p) = [] then Inl (ValueError ''subject is required'')
      else if strip (pr_organization_id p) = [] then Inl (ValueError ''organization_id is required'')
      else if pr_roles p = {} then Inl (ValueError ''at least one role is required'')
      else Inr p)"

record decision =
  dn_allowed :: bool
  dn_code :: string
  dn_permission :: permission
  dn_organization_id :: string

definition effective_permissions :: "role set \<Rightarrow> permission set" where
  "effective_permissions roles = (\<Union>r \<in> roles. ROLE_PERMISSIONS r)"

definition effective_permissions_from_grants :: "role set \<Rightarrow> permission set \<Rightarrow> permission set" where
  "effective_permissions_from_grants roles granted =
     (if ADMINISTRATOR \<in> roles then all_permissions else granted \<inter> GRANTABLE_PERMISSIONS)"

definition effective_permissions_for_principal :: "principal \<Rightarrow> permission set" where
  "effective_permissions_for_principal p = (case pr_granted_permissions p of
       None \<Rightarrow> effective_permissions (pr_roles p)
     | Some granted \<Rightarrow> effective_permissions_from_grants (pr_roles p) granted)"

definition authorize :: "principal \<Rightarrow> permission \<Rightarrow> string \<Rightarrow> decision" where
  "authorize p permission resource_org =
     (if pr_organization_id p \<noteq> resource_org
      then \<lparr>dn_allowed = False, dn_code = ''organization_access_denied'', dn_permission = permission,
        dn_organization_id = resource_org\<rparr>
      else if permission \<notin> effective_permissions_for_principal p
      then \<lparr>dn_allowed = False, dn_code = ''permission_denied'', dn_permission = permission,
        dn_organization_id = resource_org\<rparr>
      else \<lparr>dn_allowed = True, dn_code = ''authorized'', dn_permission = permission,
        dn_organization_id = resource_org\<rparr>)"

lemma UNIV_permissions [simp]: "all_permissions = UNIV"
  by (simp add: all_permissions_def)

lemma authorize_allowed:
  "dn_allowed (authorize p q r) \<longleftrightarrow> pr_organization_id p = r \<and> q \<in> effective_permissions_for_principal p"
  by (simp add: authorize_def)

text \<open>A role-only principal has an administrator-only permission through the administrator role only.\<close>

lemma bundles_admin_only:
  "q \<in> ROLE_PERMISSIONS r \<Longrightarrow> q \<in> ADMIN_ONLY_PERMISSIONS \<Longrightarrow> r = ADMINISTRATOR"
  by (cases r) (auto simp: ADMIN_ONLY_PERMISSIONS_def)

lemma admin_only_needs_admin:
  "q \<in> effective_permissions_for_principal p \<Longrightarrow> q \<in> ADMIN_ONLY_PERMISSIONS \<Longrightarrow> ADMINISTRATOR \<in> pr_roles p"
  by (auto simp: effective_permissions_for_principal_def effective_permissions_def
      effective_permissions_from_grants_def GRANTABLE_PERMISSIONS_def split: option.splits if_splits
      dest: bundles_admin_only)

lemma grantable_bundle: "ADMINISTRATOR \<notin> roles \<Longrightarrow> effective_permissions roles \<subseteq> GRANTABLE_PERMISSIONS"
  by (auto simp: effective_permissions_def GRANTABLE_PERMISSIONS_def dest: bundles_admin_only)

end
