(* ===== verification/Spec2Isabelle.thy ===== *)
theory Spec2Isabelle
  imports ModbusClient Xjp60d Le01mp Sdm120 Akcc25 Embraco Waveshare Agent RegistryStore SchedulerSteps LatestValues
    MqttConsumer AlertReplay ControlledSend Passwords Authorization
begin

text \<open>
  A verification library for the edge node of the NEXOLAB platform: the device agent that polls the instruments
  of a cabinet over RS-485 (\<open>services/device-agent\<close>) and the telemetry service that receives, stores and watches
  its readings (\<open>services/telemetry-service/app\<close>), and the gateway that sends its daily reports to Telegram
  (\<open>services/telegram-gateway/app\<close>). Paths below are relative to \<open>src/services\<close>.

  \<^bold>\<open>How the parts interact.\<close> A reader of the agent asks the Modbus client for registers; a sampling cycle turns
  every configured point into one record, good or failed; the publisher sends the record by MQTT or leaves it in
  the offline queue, which a later cycle flushes in order. The acquisition registry says which points exist, the
  cadence how often each is due, the adaptive scheduler which endpoint is read next and which one is cooling down
  after failures; the latest-value table remembers the last attempt and the last success of every point. On the
  other side the MQTT consumer checks the topic of a message against the node, stages the payload in the SQLite
  spool and only then acknowledges it; one worker takes the oldest staged record, persists it in the database,
  runs the callbacks, among them the alert processor, and deletes the record from the spool.

  \<^bold>\<open>Conventions.\<close> An exception is a value of \<open>exn\<close> and a fallible operation returns a sum, \<open>Inl\<close> the exception,
  \<open>Inr\<close> the value (Prelude). An operation with effects is a function of the state it changes and returns the
  result beside the new state; a loop that the code does not bound is a function that returns an option, \<open>None\<close>
  being a run that does not end (Effects), or takes fuel. Floats are the rationals that IEEE 754 binary64 can
  hold, rounded after every operation (PyFloat, PyNum); NaN and the infinities are outside the model. Text is a
  character list of code points below 256 (PyStr), instants are microseconds (Instants). What the repository does
  not contain is a parameter: the serial port and the clock are functions of a state of their own
  (\<open>serial_ops\<close>), the MQTT client and callbacks likewise (\<open>agent_ops\<close>), Telegram is a list of replies; SQLite and the database server are
  scripts that say for the coming calls which fail and which ids a working call gets. Every theorem holds for all
  of these, unless a hypothesis names what it needs.

  \<^bold>\<open>Device agent.\<close>
  \<^item> ModbusFrame, ModbusClient (\<open>device-agent/modbus_rtu.py\<close>): CRC and frames, the client with its retries. The
    strict parser accepts exactly the well-formed answers; a read returns what the device answered, terminates,
    and sends read requests only.
  \<^item> Readers, Xjp60d, Le01mp, Sdm120, Akcc25, Embraco, Waveshare (the modules of these names): the register maps
    and their decoding. \<open>Readers\<close> holds the locale of the register source that each reader is written against;
    every reader's theory interprets it on the Modbus client.
  \<^item> Settings, Sampling, BusyRetry, OfflineQueue, Publishing, Operational, Agent (\<open>device-agent/main.py\<close>,
    \<open>operational_streams.py\<close>): validation of the settings, one sampling cycle, the SQLite retry loop, the
    durable queue, publishing through it and the agent's cycle. No accepted record is lost, the queue is flushed
    in order, a cycle accounts for every point.
  \<^item> RegistryDoc, Registry, RegistryStore (\<open>acquisition_registry.py\<close>): the validated document, the mutations,
    the store with optimistic revisions. Validation is characterised exactly; a commit never overwrites another.
  \<^item> Cadence (\<open>acquisition_cadence.py\<close>), SchedulerPolicy, AdaptiveScheduler, SchedulerCompletion,
    SchedulerLifecycle, SchedulerSteps (\<open>scheduler_policy.py\<close>, \<open>scheduler_metrics.py\<close>, \<open>adaptive_scheduler.py\<close>):
    polling policies; selection, completion, cooldown and reconciliation. The critical sections are the steps of a
    relation with an invariant; selection follows the stated rule and starves no endpoint.
  \<^item> LatestValues (\<open>latest_values.py\<close>): the table tells the history of the attempts.

  \<^bold>\<open>Telemetry service.\<close>
  \<^item> RuntimeState (\<open>state.py\<close>), DurableSpool (\<open>durable_spool.py\<close>), TelemetryDb (\<open>db.py\<close>), Ingestion
    (\<open>ingestion.py\<close>): counters and health, the staging table, the telemetry tables, decoding and the worker.
  \<^item> Pipeline: spool, database and worker as one system of steps with crashes and restarts between them. A staged
    payload stays staged until it is stored or kept as a dead letter, and the backlog drains when the disks work.
  \<^item> NodeTopics (\<open>nodes/domain.py\<close>), MqttConsumer (\<open>mqtt_consumer.py\<close>): identifiers, topics, acknowledgement only
    after the commit.
  \<^item> AlertEvaluator, AlertStore, AlertReplay (\<open>alerts/domain.py\<close>, \<open>evaluator.py\<close>, \<open>processor.py\<close>,
    \<open>repository.py\<close>, \<open>models.py\<close>, \<open>schemas.py\<close>): the decision of one rule, the alert tables as a system of
    steps with an invariant over their histories, and the replay of an event.
  \<^item> Passwords, Authorization (\<open>security/passwords.py\<close>, \<open>authorization.py\<close>): the stored password hashes with their
    base64 texts, over an abstract \<open>scrypt\<close>, and the roles, permissions and the decision on a request. A stored
    hash verifies exactly the passwords of its digest.

  \<^bold>\<open>Telegram gateway.\<close> (\<open>services/telegram-gateway/app\<close>) The gateway takes the daily reports of the telemetry service
  and posts them to a chat.
  \<^item> Histories: the locale of systems whose steps keep a predicate and extend a record, interpreted twice below.
  \<^item> DeliveryOutbox (\<open>outbox.py\<close>, \<open>domain.py\<close>): the SQLite outbox as a state machine of pending, sending, sent, waiting
    and failed deliveries, with the migration of legacy tables. Enqueueing is idempotent, a claim takes the first
    ready row, sent and failed rows are final.
  \<^item> DeliveryWorker (\<open>service.py\<close>, \<open>telegram.py\<close>): one round of discovery and sending, the classification of
    Telegram's answers, the retry delay. Discovery finds exactly the due snapshots.
  \<^item> ControlledSend (\<open>controlled_send.py\<close>): the command for one exact snapshot, and the gateway as a system of rounds,
    commands and restarts. Every request is accounted for, and a controlled send happens at most once.

  \<^bold>\<open>Groups of lemmas.\<close> Every state has a well-formedness predicate and every operation a lemma that it keeps it;
  operations that change a table have a lemma for the rows they leave. Step relations (\<open>pipeline_step\<close>,
  \<open>alert_step\<close>, the scheduler's) have one constructor per operation and their invariants are proved by rule
  induction. The properties are tagged with their number where they stand, most with a witness that evaluates
  them on a concrete input.

  \<^bold>\<open>Bounds and fuel.\<close> Loops bounded by the code recurse on that bound (attempts, retries, pages, deliveries of a
  round). The reading loop of the client, which the code leaves to the clock, is a \<open>partial_function\<close>: that it returns
  is proved under the hypothesis that an idle read takes some time (\<open>clock_runs\<close>). The persistence worker and the
  delivery worker are run for a list of rounds, and the backlog theorem states how many suffice, one per staged
  record.

  \<^bold>\<open>Not modelled.\<close> Threads and locks: an operation that the code runs under a lock is one step, and interleavings
  are sequences of steps. HTTP and FastAPI layers, logging, process start, TLS files, the read-only list queries of
  the alert repository, the in-memory queue of the ingestion worker, which the durable configuration does not use,
  and \<open>from_env\<close> parsing. Daily reports, equipment discovery and instrumentation of the telemetry service are
  SQLAlchemy queries and HTTP schemas around the tables modelled here. Of the gateway, the text of a report (Cyrillic,
  beyond the character type), HTTP sessions, the mini app with its cryptography and the provisioning of files are
  left out. The user interface (TypeScript) and the
  deployment and recovery scripts are outside the library.
\<close>

end
